(* ===== verification/Interner.thy ===== *)
theory Interner
  imports Prelude
begin

text \<open>
  The string interner of \<^verbatim>\<open>internal/index/intern.go\<close>: identifier strings become
  32-bit ids, and id 0 means absent. The Go struct keeps a map from string to id
  and the strings in id order; its mutex guards concurrent callers and is not
  part of the sequential model. The section after the model states the
  interface an index relies on as a locale, and interprets it on this interner.
\<close>

section \<open>The model\<close>

record interner =
  int_m :: "string \<Rightarrow> u32 option"
  int_s :: "string list"

definition NewInterner :: interner where
  "NewInterner = \<lparr>int_m = (\<lambda>_. None), int_s = []\<rparr>"

text \<open>\<open>ID\<close> returns the interner it leaves behind with the id.\<close>

definition ID :: "interner \<Rightarrow> string \<Rightarrow> interner \<times> u32" where
  "ID i s =
     (if s = [] then (i, 0)
      else case int_m i s of
        Some v \<Rightarrow> (i, v)
      | None \<Rightarrow>
          (let v = of_nat (length (int_s i) + 1)
           in (i\<lparr>int_m := (int_m i)(s \<mapsto> v), int_s := int_s i @ [s]\<rparr>, v)))"

definition Lookup :: "interner \<Rightarrow> string \<Rightarrow> u32 \<times> bool" where
  "Lookup i s =
     (if s = [] then (0, True)
      else case int_m i s of Some v \<Rightarrow> (v, True) | None \<Rightarrow> (0, False))"

definition String_of :: "interner \<Rightarrow> u32 \<Rightarrow> string" where
  "String_of i v =
     (if v = 0 then []
      else if unat v > length (int_s i) then []
      else int_s i ! (unat v - 1))"

definition interner_Len :: "interner \<Rightarrow> nat" where
  "interner_Len i = length (int_s i)"

definition interner_all :: "interner \<Rightarrow> string list" where
  "interner_all i = int_s i"

text \<open>\<open>loadInterner\<close> fills the map in list order, so a later copy of a string wins.\<close>

fun load_from :: "nat \<Rightarrow> string list \<Rightarrow> (string \<Rightarrow> u32 option) \<Rightarrow> (string \<Rightarrow> u32 option)" where
  "load_from n [] m = m"
| "load_from n (s # ss) m = load_from (Suc n) ss (m(s \<mapsto> of_nat (n + 1)))"

definition loadInterner :: "string list \<Rightarrow> interner" where
  "loadInterner ss = \<lparr>int_m = load_from 0 ss (\<lambda>_. None), int_s = ss\<rparr>"

section \<open>The invariant\<close>

text \<open>
  The strings are distinct and nonempty, and the map holds exactly the position
  of each string, counted from one. It says nothing of the number of strings:
  the 32-bit counter wraps after \<open>2 ^ 32 - 1\<close> of them, so the laws below ask
  for room.
\<close>

definition interner_inv :: "interner \<Rightarrow> bool" where
  "interner_inv i \<longleftrightarrow>
     distinct (int_s i) \<and> [] \<notin> set (int_s i) \<and>
     int_m i = (\<lambda>s. map_option (\<lambda>n. of_nat (n + 1)) (index_where ((=) s) (int_s i)))"

definition interner_room :: "interner \<Rightarrow> nat \<Rightarrow> bool" where
  "interner_room i n \<longleftrightarrow> length (int_s i) + n < 2 ^ 32"

lemma index_where_eq_nth:
  "distinct xs \<Longrightarrow> k < length xs \<Longrightarrow> index_where ((=) (xs ! k)) xs = Some k"
proof (induction xs arbitrary: k)
  case Nil
  then show ?case by simp
next
  case (Cons x xs)
  then show ?case by (cases k) auto
qed

lemma index_where_eq_None [simp]: "index_where ((=) s) xs = None \<longleftrightarrow> s \<notin> set xs"
  by (auto simp: index_where_None)

lemma index_where_eq_Some_in: "index_where ((=) s) xs = Some n \<Longrightarrow> s \<in> set xs"
  by (metis index_where_eq_None option.discI)

lemma index_where_snoc:
  "index_where P (xs @ [x]) =
     (case index_where P xs of Some i \<Rightarrow> Some i
      | None \<Rightarrow> if P x then Some (length xs) else None)"
  by (induction xs) (auto split: option.splits)

lemma interner_inv_map:
  "interner_inv i \<Longrightarrow> int_m i s = map_option (\<lambda>n. of_nat (n + 1)) (index_where ((=) s) (int_s i))"
  by (simp add: interner_inv_def)

lemma interner_inv_None:
  "interner_inv i \<Longrightarrow> int_m i s = None \<longleftrightarrow> s \<notin> set (int_s i)"
  by (auto simp: interner_inv_map index_where_None)

lemma interner_inv_Some:
  assumes "interner_inv i" and "int_m i s = Some v"
  obtains n where "n < length (int_s i)" "int_s i ! n = s" "v = of_nat (n + 1)"
  using assms by (auto simp: interner_inv_map dest: index_where_Some)

lemma NewInterner_inv [simp, invariant_intros]: "interner_inv NewInterner"
  by (simp add: interner_inv_def NewInterner_def)

lemma ID_inv [invariant_intros]:
  assumes "interner_inv i"
  shows "interner_inv (fst (ID i s))"
proof (cases "s = [] \<or> int_m i s \<noteq> None")
  case True
  with assms show ?thesis by (auto simp: ID_def)
next
  case False
  then have "s \<noteq> []" and fresh: "s \<notin> set (int_s i)"
    using assms by (auto simp: interner_inv_None)
  have "(int_m i)(s \<mapsto> of_nat (length (int_s i) + 1)) =
      (\<lambda>x. map_option (\<lambda>n. of_nat (n + 1)) (index_where ((=) x) (int_s i @ [s])))"
    using fresh
    by (auto simp: fun_eq_iff interner_inv_map [OF assms] index_where_snoc
        dest: index_where_eq_Some_in split: option.splits)
  moreover have "fst (ID i s) = i\<lparr>int_m := (int_m i)(s \<mapsto> of_nat (length (int_s i) + 1)),
      int_s := int_s i @ [s]\<rparr>"
    using False by (simp add: ID_def Let_def)
  moreover have "distinct (int_s i @ [s]) \<and> [] \<notin> set (int_s i @ [s])"
    using False fresh assms by (simp add: interner_inv_def)
  ultimately show ?thesis
    by (simp add: interner_inv_def [of "i\<lparr>int_m := _, int_s := _\<rparr>"])
qed

lemma ID_extends: "\<exists>xs. int_s (fst (ID i s)) = int_s i @ xs"
  by (auto simp: ID_def Let_def split: option.splits)

lemma ID_length: "length (int_s (fst (ID i s))) \<le> Suc (length (int_s i))"
  by (auto simp: ID_def Let_def split: option.splits)

lemma String_of_extends:
  assumes "int_s j = int_s i @ xs" and "unat v \<le> length (int_s i)"
  shows "String_of j v = String_of i v"
proof (cases "v = 0")
  case True
  then show ?thesis by (simp add: String_of_def)
next
  case False
  then have "0 < unat v" by (simp add: unat_gt_0)
  with assms have "unat v - 1 < length (int_s i)" by linarith
  with assms False show ?thesis by (simp add: String_of_def nth_append)
qed

lemma ID_id_bound:
  assumes "interner_inv i" and "interner_room i 1"
  shows "unat (snd (ID i s)) \<le> length (int_s (fst (ID i s)))"
proof (cases "int_m i s")
  case None
  have "unat (of_nat (length (int_s i) + 1) :: u32) = length (int_s i) + 1"
    using assms(2) by (intro unat_of_nat_u32) (simp add: interner_room_def)
  with None show ?thesis by (simp add: ID_def Let_def)
next
  case (Some v)
  then obtain n where n: "n < length (int_s i)" "v = of_nat (n + 1)"
    using assms(1) by (elim interner_inv_Some) auto
  then have "unat v = n + 1"
    using assms(2) by (simp only: n) (rule unat_of_nat_u32, use n in \<open>simp add: interner_room_def\<close>)
  with Some n show ?thesis by (simp add: ID_def)
qed

lemma String_of_ID:
  assumes inv: "interner_inv i" and room: "interner_room i 1"
  shows "String_of (fst (ID i s)) (snd (ID i s)) = s"
proof (cases "s = []")
  case True
  then show ?thesis by (simp add: ID_def String_of_def)
next
  case False
  have num: "unat (of_nat (n + 1) :: u32) = n + 1" if "n \<le> length (int_s i)" for n
    using room that by (intro unat_of_nat_u32) (simp add: interner_room_def)
  show ?thesis
  proof (cases "int_m i s")
    case None
    with False num [of "length (int_s i)"] show ?thesis
      by (auto simp: ID_def String_of_def Let_def unat_eq_zero [symmetric])
  next
    case (Some v)
    then obtain n where "n < length (int_s i)" "int_s i ! n = s" "v = of_nat (n + 1)"
      using inv by (elim interner_inv_Some)
    with False Some num [of n] show ?thesis
      by (auto simp: ID_def String_of_def unat_eq_zero [symmetric])
  qed
qed

lemma ID_zero_iff:
  assumes inv: "interner_inv i" and room: "interner_room i 1"
  shows "snd (ID i s) = 0 \<longleftrightarrow> s = []"
proof
  assume "snd (ID i s) = 0"
  then have "String_of (fst (ID i s)) (snd (ID i s)) = []" by (simp add: String_of_def)
  then show "s = []" using String_of_ID [OF inv room] by simp
qed (simp add: ID_def)

lemma Lookup_known:
  "interner_inv i \<Longrightarrow> snd (Lookup i s) \<longleftrightarrow> s = [] \<or> s \<in> set (int_s i)"
  using interner_inv_None [of i s] by (auto simp: Lookup_def split: option.splits)

lemma Lookup_after_ID:
  "Lookup (fst (ID i s)) s = (snd (ID i s), True)"
  by (auto simp: ID_def Lookup_def Let_def split: option.splits)

text \<open>The interner read back from its strings is the one they came from.\<close>

lemma load_from_eq:
  "distinct ss \<Longrightarrow> load_from n ss m =
     (\<lambda>x. case index_where ((=) x) ss of Some k \<Rightarrow> Some (of_nat (n + k + 1)) | None \<Rightarrow> m x)"
proof (induction ss arbitrary: n m)
  case Nil
  then show ?case by simp
next
  case (Cons s ss)
  then show ?case
    by (auto simp: fun_eq_iff dest: index_where_eq_Some_in split: option.splits)
qed

lemma loadInterner_inv:
  assumes "distinct ss" and "[] \<notin> set ss"
  shows "interner_inv (loadInterner ss)"
  using assms
  by (auto simp: loadInterner_def interner_inv_def load_from_eq fun_eq_iff split: option.splits)

lemma loadInterner_all:
  "interner_inv i \<Longrightarrow> loadInterner (interner_all i) = i"
  by (cases i) (auto simp: loadInterner_def interner_all_def interner_inv_def load_from_eq
      fun_eq_iff split: option.splits)

end
