(* ===== verification/Index_Data.thy ===== *)
theory Index_Data
  imports Interner
begin

text \<open>
  The data of a session index (\<^verbatim>\<open>internal/index/index.go\<close>, and the index struct of
  \<^verbatim>\<open>lookup.go\<close>): entries, content blocks, provider bodies and the messages of
  their histories, all of fixed width with identifiers interned. The Go field
  \<open>X\<close> of \<open>Entry\<close>, \<open>Block\<close>, \<open>Body\<close> and \<open>Message\<close> is \<open>e_X\<close>, \<open>k_X\<close>, \<open>y_X\<close>
  and \<open>m_X\<close>. The Go enums are numbers of eight bits, and a decoded one can hold
  any number, so they are bytes here too, with the source's constants. A
  timestamp is an \<open>int64\<close>: its 64 bits, read with \<open>sint\<close>.
\<close>

section \<open>Constants\<close>

definition Schema :: u32 where "Schema = 17"

definition KindUnknown :: u8 where "KindUnknown = 0"
definition KindUser :: u8 where "KindUser = 1"
definition KindAssistant :: u8 where "KindAssistant = 2"
definition KindAttachment :: u8 where "KindAttachment = 3"
definition KindSystem :: u8 where "KindSystem = 4"
definition KindMeta :: u8 where "KindMeta = 5"
definition KindJournal :: u8 where "KindJournal = 6"
definition KindManifest :: u8 where "KindManifest = 7"
definition KindScript :: u8 where "KindScript = 8"
definition KindOther :: u8 where "KindOther = 9"
definition KindChanges :: u8 where "KindChanges = 10"
definition KindProviderBody :: u8 where "KindProviderBody = 11"
definition KindExecution :: u8 where "KindExecution = 12"

lemmas kind_defs = KindUnknown_def KindUser_def KindAssistant_def KindAttachment_def
  KindSystem_def KindMeta_def KindJournal_def KindManifest_def KindScript_def KindOther_def
  KindChanges_def KindProviderBody_def KindExecution_def

definition TriggerNone :: u8 where "TriggerNone = 0"
definition TriggerExternal :: u8 where "TriggerExternal = 1"
definition TriggerNotification :: u8 where "TriggerNotification = 2"
definition TriggerOther :: u8 where "TriggerOther = 3"

lemmas trigger_defs = TriggerNone_def TriggerExternal_def TriggerNotification_def TriggerOther_def

definition FlagSynthetic :: u16 where "FlagSynthetic = push_bit 0 1"
definition FlagEpochBoundary :: u16 where "FlagEpochBoundary = push_bit 1 1"
definition FlagEpochSummary :: u16 where "FlagEpochSummary = push_bit 2 1"
definition FlagStopReason :: u16 where "FlagStopReason = push_bit 3 1"
definition FlagExternalInput :: u16 where "FlagExternalInput = push_bit 4 1"
definition FlagInjection :: u16 where "FlagInjection = push_bit 5 1"
definition FlagChildResult :: u16 where "FlagChildResult = push_bit 6 1"
definition FlagError :: u16 where "FlagError = push_bit 7 1"
definition FlagInterrupt :: u16 where "FlagInterrupt = push_bit 8 1"
definition FlagTurnDuration :: u16 where "FlagTurnDuration = push_bit 9 1"
definition FlagCommand :: u16 where "FlagCommand = push_bit 10 1"
definition FlagNotice :: u16 where "FlagNotice = push_bit 11 1"
definition FlagLaunchAck :: u16 where "FlagLaunchAck = push_bit 12 1"
definition FlagAuxiliary :: u16 where "FlagAuxiliary = push_bit 13 1"
definition FlagInternalCall :: u16 where "FlagInternalCall = push_bit 14 1"
definition FlagTurnCall :: u16 where "FlagTurnCall = push_bit 15 1"

lemmas flag_defs = FlagSynthetic_def FlagEpochBoundary_def FlagEpochSummary_def
  FlagStopReason_def FlagExternalInput_def FlagInjection_def FlagChildResult_def FlagError_def
  FlagInterrupt_def FlagTurnDuration_def FlagCommand_def FlagNotice_def FlagLaunchAck_def
  FlagAuxiliary_def FlagInternalCall_def FlagTurnCall_def

definition Has :: "u16 \<Rightarrow> u16 \<Rightarrow> bool" where
  "Has v f \<longleftrightarrow> and v f = f"

definition BodyRoleUnknown :: u8 where "BodyRoleUnknown = 0"
definition BodyRoleRequest :: u8 where "BodyRoleRequest = 1"
definition BodyRoleResponse :: u8 where "BodyRoleResponse = 2"

definition ThreadNone :: u8 where "ThreadNone = 0"
definition ThreadCreate :: u8 where "ThreadCreate = 1"
definition ThreadContinue :: u8 where "ThreadContinue = 2"

definition ListAbsent :: u8 where "ListAbsent = 0"
definition ListWhole :: u8 where "ListWhole = 1"
definition ListRelative :: u8 where "ListRelative = 2"
definition ListUnavailable :: u8 where "ListUnavailable = 3"

definition ReplyAbsent :: u8 where "ReplyAbsent = 0"
definition ReplyEntry :: u8 where "ReplyEntry = 1"
definition ReplyUnavailable :: u8 where "ReplyUnavailable = 2"

lemmas body_enum_defs = BodyRoleUnknown_def BodyRoleRequest_def BodyRoleResponse_def
  ThreadNone_def ThreadCreate_def ThreadContinue_def ListAbsent_def ListWhole_def
  ListRelative_def ListUnavailable_def ReplyAbsent_def ReplyEntry_def ReplyUnavailable_def

definition BlockUnknown :: u8 where "BlockUnknown = 0"
definition BlockToolUse :: u8 where "BlockToolUse = 1"
definition BlockToolResult :: u8 where "BlockToolResult = 2"
definition BlockText :: u8 where "BlockText = 3"
definition BlockThinking :: u8 where "BlockThinking = 4"
definition BlockOther :: u8 where "BlockOther = 5"
definition BlockChanges :: u8 where "BlockChanges = 6"

lemmas block_kind_defs = BlockUnknown_def BlockToolUse_def BlockToolResult_def BlockText_def
  BlockThinking_def BlockOther_def BlockChanges_def

section \<open>Records\<close>

record entry =
  e_Seq :: u32
  e_Row :: u32
  e_Stream :: u32
  e_Batch :: u32
  e_Kind :: u8
  e_TS :: u64
  e_Trigger :: u8
  e_Flags :: u16
  e_Record :: u32
  e_Parent :: u32
  e_Call :: u32
  e_Run :: u32
  e_Continues :: u32
  e_Tool :: u32
  e_Child :: u32
  e_StartedBy :: u32
  e_Label :: u32
  e_Ord :: u64
  e_BlockFirst :: u32
  e_BlockCount :: u32

record block =
  k_Entry :: u32
  k_Ord :: u32
  k_Kind :: u8
  k_ToolID :: u32
  k_Name :: u32
  k_Adds :: u32
  k_Dels :: u32
  k_Server :: u32
  k_ServerTool :: u32

record message =
  m_HasID :: bool
  m_ID :: u64
  m_Digest :: u64

text \<open>\<open>y_messages\<close> carries the encoded entries of a request from \<open>FromRecord\<close> to \<open>AppendRecord\<close>.\<close>

record body =
  y_Entry :: u32
  y_Role :: u8
  y_Request :: u32
  y_Previous :: u32
  y_Form :: u32
  y_Thread :: u8
  y_ThreadPrevious :: u32
  y_System :: u32
  y_SystemUnknown :: bool
  y_List :: u8
  y_ListBase :: u32
  y_ListKeep :: u32
  y_MsgFirst :: u32
  y_MsgCount :: u32
  y_ListWhy :: u32
  y_ListCount :: u32
  y_Reply :: u8
  y_ReplyHasID :: bool
  y_ReplyID :: u64
  y_ReplyDigest :: u64
  y_ReplyWhy :: u32
  y_messages :: bytes

text \<open>The zero values of Go, which composite literals and \<open>new\<close> start from.\<close>

definition zero_entry :: entry where
  "zero_entry = \<lparr>e_Seq = 0, e_Row = 0, e_Stream = 0, e_Batch = 0, e_Kind = 0, e_TS = 0,
     e_Trigger = 0, e_Flags = 0, e_Record = 0, e_Parent = 0, e_Call = 0, e_Run = 0,
     e_Continues = 0, e_Tool = 0, e_Child = 0, e_StartedBy = 0, e_Label = 0, e_Ord = 0,
     e_BlockFirst = 0, e_BlockCount = 0\<rparr>"

definition zero_block :: block where
  "zero_block = \<lparr>k_Entry = 0, k_Ord = 0, k_Kind = 0, k_ToolID = 0, k_Name = 0, k_Adds = 0,
     k_Dels = 0, k_Server = 0, k_ServerTool = 0\<rparr>"

definition zero_message :: message where
  "zero_message = \<lparr>m_HasID = False, m_ID = 0, m_Digest = 0\<rparr>"

definition zero_body :: body where
  "zero_body = \<lparr>y_Entry = 0, y_Role = 0, y_Request = 0, y_Previous = 0, y_Form = 0,
     y_Thread = 0, y_ThreadPrevious = 0, y_System = 0, y_SystemUnknown = False, y_List = 0,
     y_ListBase = 0, y_ListKeep = 0, y_MsgFirst = 0, y_MsgCount = 0, y_ListWhy = 0,
     y_ListCount = 0, y_Reply = 0, y_ReplyHasID = False, y_ReplyID = 0, y_ReplyDigest = 0,
     y_ReplyWhy = 0, y_messages = []\<rparr>"

text \<open>
  The lookup maps \<open>Build\<close> fills. The Go struct says they are not built by a nil
  \<open>byRecord\<close>; here the whole group is an option.
\<close>

record lookup_maps =
  byRecord :: "u32 \<Rightarrow> nat option"
  byMsg :: "u32 \<Rightarrow> nat list"
  byBatch :: "u32 \<Rightarrow> nat list"
  by_stream :: "u32 \<Rightarrow> nat list"
  byRun :: "u32 \<Rightarrow> nat list"
  byToolRef :: "u32 \<Rightarrow> nat list"
  byChild :: "u32 \<Rightarrow> nat list"
  byToolBlock :: "u32 \<Rightarrow> nat list"
  dup :: "bool list"

record index =
  ix_Session :: string
  ix_Strings :: interner
  ix_Entries :: "entry list"
  ix_Blocks :: "block list"
  ix_Bodies :: "body list"
  ix_Messages :: "message list"
  ix_maps :: "lookup_maps option"

definition New :: "string \<Rightarrow> index" where
  "New session = \<lparr>ix_Session = session, ix_Strings = NewInterner, ix_Entries = [],
     ix_Blocks = [], ix_Bodies = [], ix_Messages = [], ix_maps = None\<rparr>"

end
