(* ===== verification/Index_Codec.thy ===== *)
theory Index_Codec
  imports Index_Data
begin

text \<open>
  The on-disk form of the index (\<^verbatim>\<open>internal/index/codec.go\<close>): little-endian
  fixed-width records after an interned string table. The locale
  \<open>fixed_codec\<close> is the interface between a record codec and the table code that
  writes and reads \<open>n\<close> records in a row; it is interpreted on the four record
  codecs of the file.
\<close>

unbundle bit_operations_syntax

section \<open>Little-endian integers\<close>

definition put_u16 :: "u16 \<Rightarrow> bytes" where
  "put_u16 w = [ucast w, ucast (drop_bit 8 w)]"

definition put_u32 :: "u32 \<Rightarrow> bytes" where
  "put_u32 w = [ucast w, ucast (drop_bit 8 w), ucast (drop_bit 16 w), ucast (drop_bit 24 w)]"

definition put_u64 :: "u64 \<Rightarrow> bytes" where
  "put_u64 w = [ucast w, ucast (drop_bit 8 w), ucast (drop_bit 16 w), ucast (drop_bit 24 w),
     ucast (drop_bit 32 w), ucast (drop_bit 40 w), ucast (drop_bit 48 w), ucast (drop_bit 56 w)]"

definition get_u16 :: "bytes \<Rightarrow> u16" where
  "get_u16 b = ucast (b ! 0) OR push_bit 8 (ucast (b ! 1))"

definition get_u32 :: "bytes \<Rightarrow> u32" where
  "get_u32 b = ucast (b ! 0) OR push_bit 8 (ucast (b ! 1)) OR push_bit 16 (ucast (b ! 2))
     OR push_bit 24 (ucast (b ! 3))"

definition get_u64 :: "bytes \<Rightarrow> u64" where
  "get_u64 b = ucast (b ! 0) OR push_bit 8 (ucast (b ! 1)) OR push_bit 16 (ucast (b ! 2))
     OR push_bit 24 (ucast (b ! 3)) OR push_bit 32 (ucast (b ! 4)) OR push_bit 40 (ucast (b ! 5))
     OR push_bit 48 (ucast (b ! 6)) OR push_bit 56 (ucast (b ! 7))"

lemma length_put [simp, codec_simps]:
  "length (put_u16 v) = 2" "length (put_u32 w) = 4" "length (put_u64 x) = 8"
  by (simp_all add: put_u16_def put_u32_def put_u64_def)

text \<open>One byte of a word, moved to its place and back, is that word's eight bits there.\<close>

lemma bit_byte_at:
  "bit (push_bit k (ucast (ucast (drop_bit k w) :: u8)) :: 'a::len word) n \<longleftrightarrow>
     k \<le> n \<and> n < k + 8 \<and> n < LENGTH('a) \<and> bit (w :: 'a word) n"
  by (auto simp: bit_simps)

lemma bit_byte_at_0:
  "bit (ucast (ucast (w :: 'a::len word) :: u8) :: 'a word) n \<longleftrightarrow> n < 8 \<and> n < LENGTH('a) \<and> bit w n"
  by (auto simp: bit_simps)

lemma get_put_u16 [simp, codec_simps]: "get_u16 (put_u16 w @ r) = w"
  by (rule bit_word_eqI)
    (simp add: get_u16_def put_u16_def bit_or_iff bit_byte_at bit_byte_at_0, arith)

lemma get_put_u32 [simp, codec_simps]: "get_u32 (put_u32 w @ r) = w"
  by (rule bit_word_eqI)
    (simp add: get_u32_def put_u32_def bit_or_iff bit_byte_at bit_byte_at_0, arith)

lemma get_put_u64 [simp, codec_simps]: "get_u64 (put_u64 w @ r) = w"
  by (rule bit_word_eqI)
    (simp add: get_u64_def put_u64_def bit_or_iff bit_byte_at bit_byte_at_0, arith)

lemmas get_put_last [simp, codec_simps] =
  get_put_u16 [of _ "[]", simplified] get_put_u32 [of _ "[]", simplified]
  get_put_u64 [of _ "[]", simplified]

section \<open>Record codecs\<close>

definition entryWidth :: nat where
  "entryWidth = 4 + 4 + 4 + 4 + 1 + 1 + 2 + 8 + 4*9 + 8 + 4 + 4"

definition blockWidth :: nat where
  "blockWidth = 4 + 4 + 1 + 4 + 4 + 4 + 4 + 4 + 4"

definition bodyWidth :: nat where
  "bodyWidth = 4 + 1 + 4 + 4 + 4 + 1 + 4 + 4 + 1 + 4*6 + 1 + 1 + 8 + 8 + 4 + 1"

definition messageWidth :: nat where
  "messageWidth = 1 + 8 + 8"

lemmas width_defs = entryWidth_def blockWidth_def bodyWidth_def messageWidth_def

definition boolByte :: "bool \<Rightarrow> u8" where
  "boolByte v = (if v then 1 else 0)"

lemma boolByte_eq_1 [simp]: "boolByte v = 1 \<longleftrightarrow> v"
  by (simp add: boolByte_def)

text \<open>The fields fill the buffer from its first byte to its last, in this order.\<close>

definition encodeEntry :: "entry \<Rightarrow> bytes" where
  "encodeEntry e =
     put_u32 (e_Seq e) @ put_u32 (e_Row e) @ put_u32 (e_Stream e) @ put_u32 (e_Batch e) @
     [e_Kind e] @ [e_Trigger e] @ put_u16 (e_Flags e) @ put_u64 (e_TS e) @
     put_u32 (e_Record e) @ put_u32 (e_Parent e) @ put_u32 (e_Call e) @ put_u32 (e_Run e) @
     put_u32 (e_Continues e) @ put_u32 (e_Tool e) @ put_u32 (e_Child e) @
     put_u32 (e_StartedBy e) @ put_u32 (e_Label e) @ put_u64 (e_Ord e) @
     put_u32 (e_BlockFirst e) @ put_u32 (e_BlockCount e)"

definition decodeEntry :: "bytes \<Rightarrow> entry" where
  "decodeEntry b =
     \<lparr>e_Seq = get_u32 b, e_Row = get_u32 (drop 4 b), e_Stream = get_u32 (drop 8 b),
      e_Batch = get_u32 (drop 12 b), e_Kind = b ! 16, e_TS = get_u64 (drop 20 b),
      e_Trigger = b ! 17, e_Flags = get_u16 (drop 18 b), e_Record = get_u32 (drop 28 b),
      e_Parent = get_u32 (drop 32 b), e_Call = get_u32 (drop 36 b), e_Run = get_u32 (drop 40 b),
      e_Continues = get_u32 (drop 44 b), e_Tool = get_u32 (drop 48 b),
      e_Child = get_u32 (drop 52 b), e_StartedBy = get_u32 (drop 56 b),
      e_Label = get_u32 (drop 60 b), e_Ord = get_u64 (drop 64 b),
      e_BlockFirst = get_u32 (drop 72 b), e_BlockCount = get_u32 (drop 76 b)\<rparr>"

definition encodeBlock :: "block \<Rightarrow> bytes" where
  "encodeBlock k =
     put_u32 (k_Entry k) @ put_u32 (k_Ord k) @ [k_Kind k] @ put_u32 (k_ToolID k) @
     put_u32 (k_Name k) @ put_u32 (k_Adds k) @ put_u32 (k_Dels k) @ put_u32 (k_Server k) @
     put_u32 (k_ServerTool k)"

definition decodeBlock :: "bytes \<Rightarrow> block" where
  "decodeBlock b =
     \<lparr>k_Entry = get_u32 b, k_Ord = get_u32 (drop 4 b), k_Kind = b ! 8,
      k_ToolID = get_u32 (drop 9 b), k_Name = get_u32 (drop 13 b), k_Adds = get_u32 (drop 17 b),
      k_Dels = get_u32 (drop 21 b), k_Server = get_u32 (drop 25 b),
      k_ServerTool = get_u32 (drop 29 b)\<rparr>"

definition encodeBody :: "body \<Rightarrow> bytes" where
  "encodeBody x =
     put_u32 (y_Entry x) @ [y_Role x] @ put_u32 (y_Request x) @ put_u32 (y_Previous x) @
     put_u32 (y_Form x) @ [y_Thread x] @ put_u32 (y_ThreadPrevious x) @ put_u32 (y_System x) @
     [y_List x] @ put_u32 (y_ListBase x) @ put_u32 (y_ListKeep x) @ put_u32 (y_MsgFirst x) @
     put_u32 (y_MsgCount x) @ put_u32 (y_ListWhy x) @ put_u32 (y_ListCount x) @ [y_Reply x] @
     [boolByte (y_ReplyHasID x)] @ put_u64 (y_ReplyID x) @ put_u64 (y_ReplyDigest x) @
     put_u32 (y_ReplyWhy x) @ [boolByte (y_SystemUnknown x)]"

definition decodeBody :: "bytes \<Rightarrow> body" where
  "decodeBody b =
     \<lparr>y_Entry = get_u32 b, y_Role = b ! 4, y_Request = get_u32 (drop 5 b),
      y_Previous = get_u32 (drop 9 b), y_Form = get_u32 (drop 13 b), y_Thread = b ! 17,
      y_ThreadPrevious = get_u32 (drop 18 b), y_System = get_u32 (drop 22 b),
      y_SystemUnknown = (b ! 73 = 1), y_List = b ! 26, y_ListBase = get_u32 (drop 27 b),
      y_ListKeep = get_u32 (drop 31 b), y_MsgFirst = get_u32 (drop 35 b),
      y_MsgCount = get_u32 (drop 39 b), y_ListWhy = get_u32 (drop 43 b),
      y_ListCount = get_u32 (drop 47 b), y_Reply = b ! 51, y_ReplyHasID = (b ! 52 = 1),
      y_ReplyID = get_u64 (drop 53 b), y_ReplyDigest = get_u64 (drop 61 b),
      y_ReplyWhy = get_u32 (drop 69 b), y_messages = []\<rparr>"

definition encodeMessage :: "message \<Rightarrow> bytes" where
  "encodeMessage m = [boolByte (m_HasID m)] @ put_u64 (m_ID m) @ put_u64 (m_Digest m)"

definition decodeMessage :: "bytes \<Rightarrow> message" where
  "decodeMessage b =
     \<lparr>m_HasID = (b ! 0 = 1), m_ID = get_u64 (drop 1 b), m_Digest = get_u64 (drop 9 b)\<rparr>"

lemma encode_widths [simp, codec_simps]:
  "length (encodeEntry e) = entryWidth" "length (encodeBlock k) = blockWidth"
  "length (encodeBody x) = bodyWidth" "length (encodeMessage m) = messageWidth"
  by (simp_all add: encodeEntry_def encodeBlock_def encodeBody_def encodeMessage_def width_defs)

lemma decode_encodeEntry [simp, codec_simps]: "decodeEntry (encodeEntry e) = e"
  by (simp add: decodeEntry_def encodeEntry_def nth_append)

lemma decode_encodeBlock [simp, codec_simps]: "decodeBlock (encodeBlock k) = k"
  by (simp add: decodeBlock_def encodeBlock_def nth_append)

lemma decode_encodeBody [codec_simps]: "decodeBody (encodeBody x) = x\<lparr>y_messages := []\<rparr>"
  by (simp add: decodeBody_def encodeBody_def nth_append)

lemma decode_encodeMessage [simp, codec_simps]: "decodeMessage (encodeMessage m) = m"
  by (simp add: decodeMessage_def encodeMessage_def nth_append)

end
