(* ===== verification/Index_File.thy ===== *)
theory Index_File
  imports Index_Codec
begin

text \<open>
  The index file of \<^verbatim>\<open>internal/index/codec.go\<close>: \<open>Write\<close> as the bytes it lands,
  \<open>Load\<close> as a parser that reads at a position, and \<open>LoadFor\<close>. The locale
  \<open>fixed_codec\<close> is the interface between a record codec and the tables of the
  file; every codec of \<open>Index_Codec\<close> is an instance, and the round trip of the
  whole file rests on the instances.
\<close>

section \<open>Reading at a position\<close>

datatype io_error = ErrUnexpectedEOF | ErrRead

definition read_n :: "bytes \<Rightarrow> nat \<Rightarrow> nat \<Rightarrow> io_error + bytes \<times> nat" where
  "read_n data p n =
     (if p + n > length data then Inl ErrUnexpectedEOF else Inr (take n (drop p data), p + n))"

definition read_count :: "bytes \<Rightarrow> nat \<Rightarrow> io_error + nat \<times> nat" where
  "read_count data p = bind_result (read_n data p 4) (\<lambda>(b, q). Inr (unat (get_u32 b), q))"

fun read_rows :: "(bytes \<Rightarrow> 'a) \<Rightarrow> nat \<Rightarrow> bytes \<Rightarrow> nat \<Rightarrow> nat \<Rightarrow> io_error + 'a list \<times> nat" where
  "read_rows dec w data p 0 = Inr ([], p)"
| "read_rows dec w data p (Suc n) =
     bind_result (read_n data p w) (\<lambda>(b, q).
     bind_result (read_rows dec w data q n) (\<lambda>(xs, r). Inr (dec b # xs, r)))"

definition read_table :: "(bytes \<Rightarrow> 'a) \<Rightarrow> nat \<Rightarrow> bytes \<Rightarrow> nat \<Rightarrow> io_error + 'a list \<times> nat" where
  "read_table dec w data p = bind_result (read_count data p) (\<lambda>(n, q). read_rows dec w data q n)"

definition write_table :: "('a \<Rightarrow> bytes) \<Rightarrow> 'a list \<Rightarrow> bytes" where
  "write_table enc xs = put_u32 (of_nat (length xs)) @ concat (map enc xs)"

definition bytes_of :: "string \<Rightarrow> bytes" where
  "bytes_of s = map (\<lambda>c. of_nat (of_char c)) s"

definition string_of :: "bytes \<Rightarrow> string" where
  "string_of b = map (\<lambda>w. char_of (unat w)) b"

fun read_strs :: "bytes \<Rightarrow> nat \<Rightarrow> nat \<Rightarrow> io_error + string list \<times> nat" where
  "read_strs data p 0 = Inr ([], p)"
| "read_strs data p (Suc n) =
     bind_result (read_count data p) (\<lambda>(l, q).
     bind_result (read_n data q l) (\<lambda>(b, r).
     bind_result (read_strs data r n) (\<lambda>(xs, t). Inr (string_of b # xs, t))))"

definition read_strings :: "bytes \<Rightarrow> nat \<Rightarrow> io_error + string list \<times> nat" where
  "read_strings data p = bind_result (read_count data p) (\<lambda>(n, q). read_strs data q n)"

definition write_str :: "string \<Rightarrow> bytes" where
  "write_str s = put_u32 (of_nat (length s)) @ bytes_of s"

lemma length_bytes_of [simp]: "length (bytes_of s) = length s"
  by (simp add: bytes_of_def)

lemma string_of_bytes_of [simp, codec_simps]: "string_of (bytes_of s) = s"
proof -
  have "unat (of_nat (of_char c) :: u8) = of_char c" for c :: char
  proof -
    have "(of_char c :: nat) < 2 ^ 8" by simp
    then show ?thesis by (simp add: unat_of_nat take_bit_nat_eq_self)
  qed
  then show ?thesis by (simp add: string_of_def bytes_of_def comp_def)
qed

lemma drop_eq_length: "drop p data = x @ r \<Longrightarrow> length data - p = length x + length r"
  by (metis length_append length_drop)

lemma read_n_at:
  assumes "drop p data = x @ r" and "p \<le> length data" and "length x = n"
  shows "read_n data p n = Inr (x, p + n)"
  using drop_eq_length [OF assms(1)] assms by (auto simp: read_n_def)

lemma read_count_at:
  assumes "drop p data = put_u32 (of_nat n) @ r" and "n < 2 ^ 32" and "p \<le> length data"
  shows "read_count data p = Inr (n, p + 4)"
  using read_n_at [OF assms(1,3)] assms(2) by (simp add: read_count_def)

lemma drop_past: "drop p data = x @ r \<Longrightarrow> length x = n \<Longrightarrow> drop (p + n) data = r"
  by (metis add.commute drop_drop drop_length_append)

lemma past_bound: "drop p data = x @ r \<Longrightarrow> length x = n \<Longrightarrow> p \<le> length data \<Longrightarrow> p + n \<le> length data"
  using drop_eq_length [of p data x r] by auto

section \<open>The codec interface\<close>

locale fixed_codec =
  fixes enc :: "'a \<Rightarrow> bytes" and dec :: "bytes \<Rightarrow> 'a" and width :: nat and ok :: "'a \<Rightarrow> bool"
  assumes enc_width: "length (enc x) = width"
    and dec_enc: "ok x \<Longrightarrow> dec (enc x) = x"
begin

lemma read_rows_at:
  assumes "drop p data = concat (map enc xs) @ r" and "list_all ok xs" and "p \<le> length data"
  shows "read_rows dec width data p (length xs) = Inr (xs, p + width * length xs)"
  using assms
proof (induction xs arbitrary: p)
  case Nil
  then show ?case by simp
next
  case (Cons x xs)
  then have d: "drop p data = enc x @ (concat (map enc xs) @ r)" by simp
  from d Cons.prems(3) have "read_n data p width = Inr (enc x, p + width)"
    by (rule read_n_at) (rule enc_width)
  moreover have "read_rows dec width data (p + width) (length xs)
      = Inr (xs, p + width + width * length xs)"
    using Cons.prems drop_past [OF d enc_width] past_bound [OF d enc_width]
    by (intro Cons.IH) auto
  ultimately show ?case
    using Cons.prems by (simp add: dec_enc add.assoc)
qed

lemma read_table_at:
  assumes "drop p data = write_table enc xs @ r" and "list_all ok xs"
    and "length xs < 2 ^ 32" and "p \<le> length data"
  shows "read_table dec width data p = Inr (xs, p + length (write_table enc xs))"
proof -
  from assms(1) have d: "drop p data = put_u32 (of_nat (length xs)) @ (concat (map enc xs) @ r)"
    by (simp add: write_table_def)
  have "read_rows dec width data (p + 4) (length xs) = Inr (xs, p + 4 + width * length xs)"
    using drop_past [OF d length_put(2)] assms past_bound [OF d length_put(2)]
    by (intro read_rows_at)
  then show ?thesis
    using read_count_at [OF d assms(3,4)]
    by (simp add: read_table_def write_table_def length_concat_fixed enc_width)
qed

lemma short_row_is_an_error:
  "p + width > length data \<Longrightarrow> read_rows dec width data p (Suc n) = Inl ErrUnexpectedEOF"
  by (simp add: read_n_def)

end

interpretation entry_codec: fixed_codec encodeEntry decodeEntry entryWidth "\<lambda>_. True"
  by unfold_locales simp_all

interpretation block_codec: fixed_codec encodeBlock decodeBlock blockWidth "\<lambda>_. True"
  by unfold_locales simp_all

interpretation body_codec: fixed_codec encodeBody decodeBody bodyWidth "\<lambda>x. y_messages x = []"
  by unfold_locales (simp_all add: decode_encodeBody)

interpretation message_codec: fixed_codec encodeMessage decodeMessage messageWidth "\<lambda>_. True"
  by unfold_locales simp_all

lemma read_strs_at:
  assumes "drop p data = concat (map write_str ss) @ r" and "p \<le> length data"
    and "\<forall>s \<in> set ss. length s < 2 ^ 32"
  shows "read_strs data p (length ss) = Inr (ss, p + length (concat (map write_str ss)))"
  using assms
proof (induction ss arbitrary: p)
  case Nil
  then show ?case by simp
next
  case (Cons s ss)
  then have d: "drop p data = put_u32 (of_nat (length s)) @ (bytes_of s @ (concat (map write_str ss) @ r))"
    by (simp add: write_str_def [of s])
  note d4 = drop_past [OF d length_put(2)] and b4 = past_bound [OF d length_put(2) Cons.prems(2)]
  note dl = drop_past [OF d4 length_bytes_of] and bl = past_bound [OF d4 length_bytes_of b4]
  have "read_count data p = Inr (length s, p + 4)"
    using read_count_at [OF d _ Cons.prems(2)] Cons.prems(3) by simp
  moreover have "read_n data (p + 4) (length s) = Inr (bytes_of s, p + 4 + length s)"
    using read_n_at [OF d4 b4 length_bytes_of] .
  moreover have "read_strs data (p + 4 + length s) (length ss)
      = Inr (ss, p + 4 + length s + length (concat (map write_str ss)))"
    using dl bl Cons.prems(3) by (intro Cons.IH) auto
  ultimately show ?case
    by (simp add: write_str_def [of s])
qed

lemma read_strings_at:
  assumes "drop p data = put_u32 (of_nat (length ss)) @ concat (map write_str ss) @ r"
    and "p \<le> length data" and "length ss < 2 ^ 32" and "\<forall>s \<in> set ss. length s < 2 ^ 32"
  shows "read_strings data p = Inr (ss, p + 4 + length (concat (map write_str ss)))"
  using read_strs_at [OF drop_past [OF assms(1) length_put(2)]
      past_bound [OF assms(1) length_put(2) assms(2)] assms(4)]
    read_count_at [OF assms(1,3,2)]
  by (simp add: read_strings_def)

section \<open>Write and Load\<close>

definition magic :: bytes where
  "magic = [0x41, 0x53, 0x49, 0x58]"

definition index_bytes :: "index \<Rightarrow> bytes" where
  "index_bytes ix =
     magic @ put_u32 Schema @
     (let strs = interner_all (ix_Strings ix)
      in put_u32 (of_nat (length strs)) @ concat (map write_str strs)) @
     write_table encodeEntry (ix_Entries ix) @ write_table encodeBlock (ix_Blocks ix) @
     write_table encodeBody (ix_Bodies ix) @ write_table encodeMessage (ix_Messages ix)"

text \<open>What reading the file gave: it is not there, its read failed, or its content.\<close>

datatype file_read = NotExist | ReadFails | Content bytes

datatype load_result = LoadFailed io_error | LoadAbsent | Loaded index

definition read_all :: "bytes \<Rightarrow> io_error +
    (string list \<times> entry list \<times> block list \<times> body list \<times> message list) \<times> nat" where
  "read_all data =
     bind_result (read_strings data 8) (\<lambda>(strs, p).
     bind_result (read_table decodeEntry entryWidth data p) (\<lambda>(entries, p).
     bind_result (read_table decodeBlock blockWidth data p) (\<lambda>(blocks, p).
     bind_result (read_table decodeBody bodyWidth data p) (\<lambda>(bodies, p).
     bind_result (read_table decodeMessage messageWidth data p) (\<lambda>(messages, p).
     Inr ((strs, entries, blocks, bodies, messages), p))))))"

definition body_in_range :: "nat \<Rightarrow> body \<Rightarrow> bool" where
  "body_in_range nMsg b \<longleftrightarrow> unat (y_MsgFirst b) + unat (y_MsgCount b) \<le> nMsg"

fun landed_order :: "entry list \<Rightarrow> bool" where
  "landed_order (a # b # es) = (e_Seq a \<le> e_Seq b \<and> landed_order (b # es))"
| "landed_order _ = True"

definition Load :: "file_read \<Rightarrow> string \<Rightarrow> load_result" where
  "Load f session =
     (case f of
        NotExist \<Rightarrow> LoadAbsent
      | ReadFails \<Rightarrow> LoadFailed ErrRead
      | Content data \<Rightarrow>
          if length data < 8 \<or> take 4 data \<noteq> magic then LoadAbsent
          else if get_u32 (drop 4 data) \<noteq> Schema then LoadAbsent
          else case read_all data of
            Inl e \<Rightarrow> LoadFailed e
          | Inr ((strs, entries, blocks, bodies, messages), _) \<Rightarrow>
              if \<not> list_all (body_in_range (length messages)) bodies then LoadAbsent
              else if \<not> landed_order entries then LoadAbsent
              else Loaded \<lparr>ix_Session = session, ix_Strings = loadInterner strs,
                ix_Entries = entries, ix_Blocks = blocks, ix_Bodies = bodies,
                ix_Messages = messages, ix_maps = None\<rparr>)"

record index_state =
  st_Schema :: int
  st_Entries :: int

definition LoadFor :: "file_read \<Rightarrow> string \<Rightarrow> index_state option \<Rightarrow> load_result" where
  "LoadFor f session state =
     (case state of
        None \<Rightarrow> LoadAbsent
      | Some st \<Rightarrow>
          if st_Schema st \<noteq> uint Schema then LoadAbsent
          else case Load f session of
            LoadFailed e \<Rightarrow> LoadFailed e
          | LoadAbsent \<Rightarrow> LoadAbsent
          | Loaded ix \<Rightarrow>
              if int (length (ix_Entries ix)) \<noteq> st_Entries st then LoadAbsent else Loaded ix)"

text \<open>An index that fits its file: what \<open>Write\<close> can land and \<open>Load\<close> accepts.\<close>

definition index_fits :: "index \<Rightarrow> bool" where
  "index_fits ix \<longleftrightarrow>
     interner_inv (ix_Strings ix) \<and>
     length (int_s (ix_Strings ix)) < 2 ^ 32 \<and>
     (\<forall>s \<in> set (int_s (ix_Strings ix)). length s < 2 ^ 32) \<and>
     length (ix_Entries ix) < 2 ^ 32 \<and> length (ix_Blocks ix) < 2 ^ 32 \<and>
     length (ix_Bodies ix) < 2 ^ 32 \<and> length (ix_Messages ix) < 2 ^ 32 \<and>
     list_all (\<lambda>x. y_messages x = []) (ix_Bodies ix) \<and>
     list_all (body_in_range (length (ix_Messages ix))) (ix_Bodies ix) \<and>
     landed_order (ix_Entries ix)"

lemma length_magic [simp]: "length magic = 4"
  by (simp add: magic_def)

lemma read_all_index_bytes:
  assumes "index_fits ix"
  shows "read_all (index_bytes ix @ junk) =
    Inr ((int_s (ix_Strings ix), ix_Entries ix, ix_Blocks ix, ix_Bodies ix, ix_Messages ix),
      length (index_bytes ix))"
proof -
  let ?strs = "int_s (ix_Strings ix)"
  let ?S = "concat (map write_str ?strs)"
  let ?E = "write_table encodeEntry (ix_Entries ix)" and ?B = "write_table encodeBlock (ix_Blocks ix)"
  let ?Y = "write_table encodeBody (ix_Bodies ix)" and ?M = "write_table encodeMessage (ix_Messages ix)"
  let ?d = "index_bytes ix @ junk"
  have d8: "drop 8 ?d = put_u32 (of_nat (length ?strs)) @ ?S @ (?E @ ?B @ ?Y @ ?M @ junk)"
    by (simp add: index_bytes_def interner_all_def Let_def)
  have l8: "8 \<le> length ?d" by (simp add: index_bytes_def)
  note d4 = drop_past [OF d8 length_put(2)] and l4 = past_bound [OF d8 length_put(2) l8]
  note dS = drop_past [OF d4 refl] and lS = past_bound [OF d4 refl l4]
  note dE = drop_past [OF dS refl] and lE = past_bound [OF dS refl lS]
  note dB = drop_past [OF dE refl] and lB = past_bound [OF dE refl lE]
  note dY = drop_past [OF dB refl] and lY = past_bound [OF dB refl lB]
  have "read_strings ?d 8 = Inr (?strs, 8 + 4 + length ?S)"
    by (rule read_strings_at [OF d8 l8]) (use assms in \<open>simp_all add: index_fits_def\<close>)
  moreover have "read_table decodeEntry entryWidth ?d (8 + 4 + length ?S)
      = Inr (ix_Entries ix, 8 + 4 + length ?S + length ?E)"
    by (rule entry_codec.read_table_at [OF dS _ _ lS])
      (use assms in \<open>simp_all add: index_fits_def list_all_iff\<close>)
  moreover have "read_table decodeBlock blockWidth ?d (8 + 4 + length ?S + length ?E)
      = Inr (ix_Blocks ix, 8 + 4 + length ?S + length ?E + length ?B)"
    by (rule block_codec.read_table_at [OF dE _ _ lE])
      (use assms in \<open>simp_all add: index_fits_def list_all_iff\<close>)
  moreover have "read_table decodeBody bodyWidth ?d (8 + 4 + length ?S + length ?E + length ?B)
      = Inr (ix_Bodies ix, 8 + 4 + length ?S + length ?E + length ?B + length ?Y)"
    by (rule body_codec.read_table_at [OF dB _ _ lB])
      (use assms in \<open>simp_all add: index_fits_def list_all_iff\<close>)
  moreover have "read_table decodeMessage messageWidth ?d
        (8 + 4 + length ?S + length ?E + length ?B + length ?Y)
      = Inr (ix_Messages ix, 8 + 4 + length ?S + length ?E + length ?B + length ?Y + length ?M)"
    by (rule message_codec.read_table_at [OF dY _ _ lY])
      (use assms in \<open>simp_all add: index_fits_def list_all_iff\<close>)
  moreover have "8 + 4 + length ?S + length ?E + length ?B + length ?Y + length ?M
      = length (index_bytes ix)"
    by (simp add: index_bytes_def interner_all_def Let_def)
  ultimately show ?thesis
    by (simp add: read_all_def)
qed

section \<open>What a reader makes of a cut file\<close>

text \<open>What is read from a file is read the same when more bytes follow it.\<close>

lemma read_n_more:
  "read_n data p n = Inr (b, q) \<Longrightarrow> read_n (data @ junk) p n = Inr (b, q) \<and> q \<le> length data"
  by (auto simp: read_n_def split: if_splits)

lemma read_count_more:
  "read_count data p = Inr (n, q) \<Longrightarrow> read_count (data @ junk) p = Inr (n, q) \<and> q \<le> length data"
  using read_n_more by (fastforce simp: read_count_def)

lemma read_rows_more:
  "read_rows dec w data p n = Inr (xs, q) \<Longrightarrow> p \<le> length data \<Longrightarrow>
     read_rows dec w (data @ junk) p n = Inr (xs, q) \<and> q \<le> length data"
proof (induction n arbitrary: p xs q)
  case 0
  then show ?case by simp
next
  case (Suc n)
  from Suc.prems obtain b r ys where *: "read_n data p w = Inr (b, r)"
    "read_rows dec w data r n = Inr (ys, q)" "xs = dec b # ys"
    by auto
  from read_n_more [OF *(1)] have r: "read_n (data @ junk) p w = Inr (b, r)" "r \<le> length data"
    by auto
  from Suc.IH [OF *(2) r(2)] * r(1) show ?case by simp
qed

lemma read_table_more:
  "read_table dec w data p = Inr (xs, q) \<Longrightarrow>
     read_table dec w (data @ junk) p = Inr (xs, q) \<and> q \<le> length data"
  using read_count_more read_rows_more by (fastforce simp: read_table_def)

lemma read_strs_more:
  "read_strs data p n = Inr (xs, q) \<Longrightarrow> p \<le> length data \<Longrightarrow>
     read_strs (data @ junk) p n = Inr (xs, q) \<and> q \<le> length data"
proof (induction n arbitrary: p xs q)
  case 0
  then show ?case by simp
next
  case (Suc n)
  from Suc.prems obtain l r b t ys where *: "read_count data p = Inr (l, r)"
    "read_n data r l = Inr (b, t)" "read_strs data t n = Inr (ys, q)" "xs = string_of b # ys"
    by auto
  from read_count_more [OF *(1)] read_n_more [OF *(2)] have
    r: "read_count (data @ junk) p = Inr (l, r)" "read_n (data @ junk) r l = Inr (b, t)"
      "t \<le> length data"
    by auto
  from Suc.IH [OF *(3) r(3)] * r show ?case by simp
qed

lemma read_strings_more:
  "read_strings data p = Inr (xs, q) \<Longrightarrow>
     read_strings (data @ junk) p = Inr (xs, q) \<and> q \<le> length data"
  using read_count_more read_strs_more by (fastforce simp: read_strings_def)

lemma read_all_more:
  assumes "read_all data = Inr (x, q)"
  shows "read_all (data @ junk) = Inr (x, q) \<and> q \<le> length data"
proof -
  obtain strs entries blocks bodies messages where x: "x = (strs, entries, blocks, bodies, messages)"
    by (cases x)
  from assms x obtain p1 p2 p3 p4 where *: "read_strings data 8 = Inr (strs, p1)"
    "read_table decodeEntry entryWidth data p1 = Inr (entries, p2)"
    "read_table decodeBlock blockWidth data p2 = Inr (blocks, p3)"
    "read_table decodeBody bodyWidth data p3 = Inr (bodies, p4)"
    "read_table decodeMessage messageWidth data p4 = Inr (messages, q)"
    by (auto simp: read_all_def)
  from *(1)[THEN read_strings_more] *(2-5)[THEN read_table_more] show ?thesis
    by (simp add: read_all_def x)
qed

section \<open>Properties\<close>

lemma Load_written:
  assumes "index_fits ix"
  shows "Load (Content (index_bytes ix)) (ix_Session ix) = Loaded (ix\<lparr>ix_maps := None\<rparr>)"
proof -
  have "take 4 (index_bytes ix) = magic" "get_u32 (drop 4 (index_bytes ix)) = Schema"
    "\<not> length (index_bytes ix) < 8"
    by (simp_all add: index_bytes_def)
  moreover have "loadInterner (int_s (ix_Strings ix)) = ix_Strings ix"
    using assms loadInterner_all by (simp add: index_fits_def interner_all_def)
  ultimately show ?thesis
    using read_all_index_bytes [OF assms, of "[]"] assms
    by (simp add: Load_def index_fits_def)
qed


text \<open>A file cut short at any byte is never read as an index: \<open>Load\<close> fails or says there is
  none, so a write that stopped midway is rebuilt and never taken for a shorter session.\<close>

theorem Load_truncated:
  assumes "index_fits ix" and "n < length (index_bytes ix)"
  shows "Load (Content (take n (index_bytes ix))) session \<noteq> Loaded jx"
proof
  let ?d = "take n (index_bytes ix)" and ?m = "drop n (index_bytes ix)"
  assume "Load (Content ?d) session = Loaded jx"
  then obtain x q where "read_all ?d = Inr (x, q)"
    by (auto simp: Load_def split: if_splits sum.splits prod.splits)
  then have "read_all (?d @ ?m) = Inr (x, q) \<and> q \<le> length ?d"
    by (rule read_all_more)
  moreover have "read_all (?d @ ?m) = Inr ((int_s (ix_Strings ix), ix_Entries ix, ix_Blocks ix,
      ix_Bodies ix, ix_Messages ix), length (index_bytes ix))"
    using read_all_index_bytes [OF assms(1), of "[]"] by simp
  ultimately have "length (index_bytes ix) \<le> n" by simp
  with assms(2) show False by simp
qed

definition sample_index :: index where
  "sample_index = \<lparr>ix_Session = ''s'', ix_Strings = loadInterner [''main'', ''r1''],
     ix_Entries = [zero_entry\<lparr>e_Seq := 1, e_Row := 1, e_Stream := 1, e_Record := 2,
       e_BlockCount := 1\<rparr>],
     ix_Blocks = [zero_block\<lparr>k_Kind := BlockText\<rparr>],
     ix_Bodies = [], ix_Messages = [], ix_maps = None\<rparr>"

lemma sample_index_fits: "index_fits sample_index"
  using loadInterner_inv [of "[''main'', ''r1'']"]
  by (simp add: index_fits_def sample_index_def loadInterner_def)


theorem Load_truncated_witness:
  "Load (Content (take 9 (index_bytes sample_index))) ''s'' \<noteq> Loaded sample_index"
  by (rule Load_truncated [OF sample_index_fits]) (simp add: index_bytes_def Let_def)

end
