(* ===== verification/Go_Sort.thy ===== *)
theory Go_Sort
  imports Prelude "HOL-Library.Multiset"
begin

text \<open>
  What the code uses of Go's \<^verbatim>\<open>sort\<close> package: the binary search of \<open>sort.Search\<close>, and a sort by a
  \<open>lt\<close> function. \<open>sort.Slice\<close> promises an ordered permutation and nothing on the order of equal
  elements; the model is the stable insertion sort, and the locale \<open>total_less\<close> gives the orders for
  which every sorted permutation is the same list, so that the choice does not matter.
\<close>

section \<open>sort.Search\<close>

function search :: "(nat \<Rightarrow> bool) \<Rightarrow> nat \<Rightarrow> nat \<Rightarrow> nat" where
  "search f i j =
     (if i < j then
        (let h = (i + j) div 2
         in if \<not> f h then search f (h + 1) j else search f i h)
      else i)"
  by pat_completeness auto
termination
  by (relation "measure (\<lambda>(f, i, j). j - i)") (auto simp: Let_def)

declare search.simps [simp del]

definition Search :: "nat \<Rightarrow> (nat \<Rightarrow> bool) \<Rightarrow> nat" where
  "Search n f = search f 0 n"

lemma search_spec:
  assumes "\<And>a b. a \<le> b \<Longrightarrow> b < n \<Longrightarrow> f a \<Longrightarrow> f b"
    and "i \<le> j" "j \<le> n" "\<forall>a < i. \<not> f a" "j < n \<longrightarrow> f j"
  shows "search f i j \<le> n \<and> (\<forall>a < search f i j. \<not> f a) \<and> (search f i j < n \<longrightarrow> f (search f i j))"
  using assms
proof (induction f i j rule: search.induct)
  case (1 f i j)
  let ?h = "(i + j) div 2"
  show ?case
  proof (cases "i < j")
    case False
    then have "search f i j = i" by (simp add: search.simps [of f i j])
    moreover have "i = j" using False "1.prems"(2) by simp
    ultimately show ?thesis using "1.prems"(3-5) by auto
  next
    case True
    then have h: "i \<le> ?h" "?h < j" by auto
    show ?thesis
    proof (cases "f ?h")
      case True
      with \<open>i < j\<close> have "search f i j = search f i ?h" by (simp add: search.simps [of f i j] Let_def)
      moreover have "search f i ?h \<le> n \<and> (\<forall>a < search f i ?h. \<not> f a) \<and> (search f i ?h < n \<longrightarrow> f (search f i ?h))"
        using True h "1.prems" \<open>i < j\<close> by (intro "1.IH"(2) [OF \<open>i < j\<close> refl]) auto
      ultimately show ?thesis by simp
    next
      case False
      with \<open>i < j\<close> have "search f i j = search f (?h + 1) j"
        by (simp add: search.simps [of f i j] Let_def)
      moreover have "\<forall>a < ?h + 1. \<not> f a"
      proof (intro allI impI notI)
        fix a assume "a < ?h + 1" "f a"
        then have "f ?h" using h "1.prems"(1,3) by (intro "1.prems"(1) [of a ?h]) auto
        with False show False by simp
      qed
      then have "search f (?h + 1) j \<le> n \<and> (\<forall>a < search f (?h + 1) j. \<not> f a)
          \<and> (search f (?h + 1) j < n \<longrightarrow> f (search f (?h + 1) j))"
        using False h "1.prems" \<open>i < j\<close> by (intro "1.IH"(1) [OF \<open>i < j\<close> refl]) auto
      ultimately show ?thesis by simp
    qed
  qed
qed

text \<open>On a predicate that stays true once it is, \<open>Search\<close> is the number of false positions.\<close>

lemma Search_least:
  assumes "\<And>a b. a \<le> b \<Longrightarrow> b < n \<Longrightarrow> f a \<Longrightarrow> f b"
  shows "Search n f \<le> n" and "\<And>a. a < Search n f \<Longrightarrow> \<not> f a" and "Search n f < n \<Longrightarrow> f (Search n f)"
  using search_spec [of n f 0 n] assms by (auto simp: Search_def)

lemma Search_eqI:
  assumes "\<And>a b. a \<le> b \<Longrightarrow> b < n \<Longrightarrow> f a \<Longrightarrow> f b"
    and "k \<le> n" "\<And>a. a < k \<Longrightarrow> \<not> f a" "k < n \<Longrightarrow> f k"
  shows "Search n f = k"
proof (rule ccontr)
  assume "Search n f \<noteq> k"
  then consider "Search n f < k" | "k < Search n f" by linarith
  then show False
  proof cases
    case 1
    then have "Search n f < n" using assms(2) by simp
    then have "f (Search n f)" using Search_least(3) [of n f] assms(1) by blast
    with 1 assms(3) show False by blast
  next
    case 2
    then have "k < n" using Search_least(1) [of n f] assms(1) by fastforce
    then have "f k" using assms(4) by simp
    moreover have "\<not> f k" using Search_least(2) [of n f] assms(1) 2 by blast
    ultimately show False by simp
  qed
qed

section \<open>Sorting by a less function\<close>

fun insert_by :: "('a \<Rightarrow> 'a \<Rightarrow> bool) \<Rightarrow> 'a \<Rightarrow> 'a list \<Rightarrow> 'a list" where
  "insert_by lt x [] = [x]"
| "insert_by lt x (y # ys) = (if lt y x then y # insert_by lt x ys else x # y # ys)"

fun sort_by :: "('a \<Rightarrow> 'a \<Rightarrow> bool) \<Rightarrow> 'a list \<Rightarrow> 'a list" where
  "sort_by lt [] = []"
| "sort_by lt (x # xs) = insert_by lt x (sort_by lt xs)"

text \<open>Sorted by \<open>lt\<close>: no later element is less than an earlier one.\<close>

fun sorted_by :: "('a \<Rightarrow> 'a \<Rightarrow> bool) \<Rightarrow> 'a list \<Rightarrow> bool" where
  "sorted_by lt [] = True"
| "sorted_by lt (x # xs) = ((\<forall>y \<in> set xs. \<not> lt y x) \<and> sorted_by lt xs)"

lemma mset_insert_by [simp]: "mset (insert_by lt x xs) = add_mset x (mset xs)"
  by (induction xs) auto

lemma mset_sort_by [simp]: "mset (sort_by lt xs) = mset xs"
  by (induction xs) auto

lemma set_insert_by [simp]: "set (insert_by lt x xs) = insert x (set xs)"
  by (induction xs) auto

lemma set_sort_by [simp]: "set (sort_by lt xs) = set xs"
  by (induction xs) auto

lemma length_sort_by [simp]: "length (sort_by lt xs) = length xs"
  by (metis mset_sort_by size_mset)

lemma distinct_sort_by [simp]: "distinct (sort_by lt xs) = distinct xs"
  by (metis mset_sort_by mset_eq_imp_distinct_iff)

locale weak_less =
  fixes lt :: "'a \<Rightarrow> 'a \<Rightarrow> bool" and S :: "'a set"
  assumes less_asym: "x \<in> S \<Longrightarrow> y \<in> S \<Longrightarrow> lt x y \<Longrightarrow> \<not> lt y x"
    and less_cotrans: "x \<in> S \<Longrightarrow> y \<in> S \<Longrightarrow> z \<in> S \<Longrightarrow> lt x z \<Longrightarrow> lt x y \<or> lt y z"
begin

lemma sorted_insert_by:
  "x \<in> S \<Longrightarrow> set xs \<subseteq> S \<Longrightarrow> sorted_by lt xs \<Longrightarrow> sorted_by lt (insert_by lt x xs)"
proof (induction xs)
  case Nil
  then show ?case by simp
next
  case (Cons y ys)
  show ?case
  proof (cases "lt y x")
    case True
    with Cons show ?thesis by (auto dest: less_asym)
  next
    case False
    have "\<not> lt z x" if "z \<in> set ys" for z
    proof
      assume "lt z x"
      then have "lt z y \<or> lt y x" using Cons.prems that by (intro less_cotrans) auto
      with False that Cons.prems(3) show False by auto
    qed
    with False Cons.prems show ?thesis by auto
  qed
qed

lemma sorted_sort_by: "set xs \<subseteq> S \<Longrightarrow> sorted_by lt (sort_by lt xs)"
  by (induction xs) (simp_all add: sorted_insert_by)

end

locale total_less = weak_less +
  assumes less_total: "x \<in> S \<Longrightarrow> y \<in> S \<Longrightarrow> x \<noteq> y \<Longrightarrow> lt x y \<or> lt y x"
begin

lemma sorted_by_unique:
  "sorted_by lt xs \<Longrightarrow> sorted_by lt ys \<Longrightarrow> mset xs = mset ys \<Longrightarrow> set xs \<subseteq> S \<Longrightarrow> xs = ys"
proof (induction xs arbitrary: ys)
  case Nil
  then show ?case by simp
next
  case (Cons x xs)
  then obtain y ys' where ys: "ys = y # ys'" by (cases ys) auto
  have sets: "set (x # xs) = set (y # ys')"
    using Cons.prems(3) ys by (metis set_mset_mset)
  have "x = y"
  proof (rule ccontr)
    assume "x \<noteq> y"
    then have "x \<in> set ys'" "y \<in> set xs" "x \<in> S" "y \<in> S"
      using sets Cons.prems(4) by auto
    then have "\<not> lt x y" "\<not> lt y x"
      using Cons.prems(1,2) ys by auto
    with less_total [of x y] \<open>x \<noteq> y\<close> \<open>x \<in> S\<close> \<open>y \<in> S\<close> show False by blast
  qed
  with Cons ys show ?case by auto
qed

lemma sort_by_eqI:
  "sorted_by lt ys \<Longrightarrow> mset ys = mset xs \<Longrightarrow> set xs \<subseteq> S \<Longrightarrow> ys = sort_by lt xs"
  by (rule sorted_by_unique) (use sorted_sort_by set_mset_mset in \<open>auto, metis set_mset_mset subsetD\<close>)

end

text \<open>\<open>sort.Strings\<close>.\<close>

interpretation strings: total_less "(<) :: string \<Rightarrow> string \<Rightarrow> bool" UNIV
  by unfold_locales auto

lemma sort_by_strings: "sort_by (<) xs = sort (xs :: string list)"
proof -
  have "sorted_by (<) ys" if "sorted ys" for ys :: "string list"
    using that by (induction ys) (auto simp: not_less)
  then have "sorted_by (<) (sort xs)" by simp
  from strings.sort_by_eqI [OF this] show ?thesis by simp
qed

end
