(* ===== verification/Index_Lookup.thy ===== *)
theory Index_Lookup
  imports Index_File Go_Sort
begin

text \<open>
  Building and asking the index (\<^verbatim>\<open>internal/index/lookup.go\<close>): appending records,
  the prefix a watermark bounds, the derived lookup maps and the walks over them. A
  Go pointer to an entry is the entry's position. A function that can index a slice
  out of range gives an option, where \<open>None\<close> is the run-time panic.
\<close>

section \<open>Appending\<close>

definition Append :: "index \<Rightarrow> entry \<Rightarrow> block list \<Rightarrow> index" where
  "Append ix e blocks =
     (let ei = of_nat (length (ix_Entries ix));
          e' = e\<lparr>e_BlockFirst := of_nat (length (ix_Blocks ix)), e_BlockCount := of_nat (length blocks)\<rparr>
      in ix\<lparr>ix_Blocks := ix_Blocks ix @ map (\<lambda>b. b\<lparr>k_Entry := ei\<rparr>) blocks,
            ix_Entries := ix_Entries ix @ [e'],
            ix_maps := None\<rparr>)"

text \<open>The messages a body carries encoded, decoded chunk by chunk; a shorter rest is dropped.\<close>

function decode_messages :: "bytes \<Rightarrow> message list" where
  "decode_messages b =
     (if length b \<ge> messageWidth
      then decodeMessage (take messageWidth b) # decode_messages (drop messageWidth b) else [])"
  by pat_completeness auto
termination
  by (relation "measure length") (auto simp: messageWidth_def)

declare decode_messages.simps [simp del]

definition AppendRecord :: "index \<Rightarrow> entry \<Rightarrow> block list \<Rightarrow> body option \<Rightarrow> index" where
  "AppendRecord ix e blocks body =
     (case body of
        None \<Rightarrow> Append ix e blocks
      | Some y \<Rightarrow>
          (let first = of_nat (length (ix_Messages ix));
               msgs = ix_Messages ix @ decode_messages (y_messages y);
               y' = y\<lparr>y_Entry := of_nat (length (ix_Entries ix)), y_MsgFirst := first,
                      y_MsgCount := of_nat (length msgs) - first, y_messages := []\<rparr>
           in Append (ix\<lparr>ix_Messages := msgs, ix_Bodies := ix_Bodies ix @ [y']\<rparr>) e blocks))"

type_synonym staged_row = "entry \<times> block list \<times> body option"

definition Staged_Add :: "staged_row list \<Rightarrow> entry \<Rightarrow> block list \<Rightarrow> body option \<Rightarrow> staged_row list" where
  "Staged_Add rows e blocks body = rows @ [(e, blocks, body)]"

fun AppendStaged :: "index \<Rightarrow> staged_row list \<Rightarrow> index" where
  "AppendStaged ix [] = ix"
| "AppendStaged ix ((e, blocks, body) # rows) = AppendStaged (AppendRecord ix e blocks body) rows"

section \<open>The index through a watermark\<close>

text \<open>A Go slice \<open>xs[:k:k]\<close> panics past the end.\<close>

definition slice_to :: "'a list \<Rightarrow> nat \<Rightarrow> 'a list option" where
  "slice_to xs k = (if k \<le> length xs then Some (take k xs) else None)"

definition Through :: "index \<Rightarrow> u64 \<Rightarrow> index option" where
  "Through ix seq =
     (let n = length (ix_Entries ix)
      in if seq = 0 \<or> n = 0 \<or> ucast (e_Seq (ix_Entries ix ! (n - 1))) \<le> seq then Some ix
      else
        let k = Search n (\<lambda>i. ucast (e_Seq (ix_Entries ix ! i)) > seq);
            blocks = (if k > 0
              then (let last = ix_Entries ix ! (k - 1) in unat (e_BlockFirst last + e_BlockCount last))
              else 0);
            bodies = Search (length (ix_Bodies ix)) (\<lambda>i. unat (y_Entry (ix_Bodies ix ! i)) \<ge> k);
            messages = (if bodies > 0
              then (let last = ix_Bodies ix ! (bodies - 1) in unat (y_MsgFirst last + y_MsgCount last))
              else 0)
        in case (slice_to (ix_Entries ix) k, slice_to (ix_Blocks ix) blocks,
                 slice_to (ix_Bodies ix) bodies, slice_to (ix_Messages ix) messages) of
          (Some es, Some bs, Some ys, Some ms) \<Rightarrow>
            Some \<lparr>ix_Session = ix_Session ix, ix_Strings = ix_Strings ix, ix_Entries = es,
              ix_Blocks = bs, ix_Bodies = ys, ix_Messages = ms, ix_maps = None\<rparr>
        | _ \<Rightarrow> None)"

section \<open>The lookup maps\<close>

definition is_body :: "entry \<Rightarrow> bool" where
  "is_body e \<longleftrightarrow> e_Kind e = KindProviderBody"

text \<open>The first pass: the first record of each id, and the replayed copies of it.\<close>

fun build_records :: "nat \<Rightarrow> entry list \<Rightarrow> (u32 \<Rightarrow> nat option) \<Rightarrow> (u32 \<Rightarrow> nat option) \<times> bool list" where
  "build_records i [] m = (m, [])"
| "build_records i (e # es) m =
     (if e_Record e = 0 \<or> is_body e
      then (let (m', d) = build_records (Suc i) es m in (m', False # d))
      else case m (e_Record e) of
        Some _ \<Rightarrow> (let (m', d) = build_records (Suc i) es m in (m', True # d))
      | None \<Rightarrow> (let (m', d) = build_records (Suc i) es (m(e_Record e \<mapsto> i)) in (m', False # d)))"

text \<open>One lookup map: the positions of the rows it takes, under each row's key unless it is 0.\<close>

fun build_by :: "('a \<Rightarrow> u32) \<Rightarrow> nat \<Rightarrow> (bool \<times> 'a) list \<Rightarrow> (u32 \<Rightarrow> nat list) \<Rightarrow> (u32 \<Rightarrow> nat list)" where
  "build_by key i [] m = m"
| "build_by key i ((skip, x) # rows) m =
     build_by key (Suc i) rows
       (if skip \<or> key x = 0 then m else m(key x := m (key x) @ [i]))"

definition skips :: "bool list \<Rightarrow> entry list \<Rightarrow> bool list" where
  "skips d es = map (\<lambda>(b, e). b \<or> is_body e) (zip d es)"

text \<open>A block with a tool id asks \<open>skip\<close> of its entry, which panics past the table.\<close>

definition block_skips :: "bool list \<Rightarrow> block list \<Rightarrow> bool list option" where
  "block_skips sk bs =
     (if \<forall>b \<in> set bs. k_ToolID b = 0 \<or> unat (k_Entry b) < length sk
      then Some (map (\<lambda>b. if k_ToolID b = 0 then True else sk ! unat (k_Entry b)) bs)
      else None)"

definition Build_maps :: "index \<Rightarrow> lookup_maps option" where
  "Build_maps ix =
     (let es = ix_Entries ix; bs = ix_Blocks ix;
          (records, d) = build_records 0 es (\<lambda>_. None);
          sk = skips d es;
          by = (\<lambda>key. build_by key 0 (zip sk es) (\<lambda>_. []))
      in case block_skips sk bs of
           None \<Rightarrow> None
         | Some bsk \<Rightarrow> Some \<lparr>byRecord = records, byMsg = by e_Call, byBatch = by e_Batch,
             by_stream = by e_Stream, byRun = by e_Run, byToolRef = by e_Tool,
             byChild = by e_Child, byToolBlock = build_by k_ToolID 0 (zip bsk bs) (\<lambda>_. []),
             dup = d\<rparr>)"

definition Build :: "index \<Rightarrow> index option" where
  "Build ix =
     (case ix_maps ix of
        Some _ \<Rightarrow> Some ix
      | None \<Rightarrow> map_option (\<lambda>m. ix\<lparr>ix_maps := Some m\<rparr>) (Build_maps ix))"

text \<open>The maps a lookup reads, after the \<open>Build\<close> every lookup starts with.\<close>

definition maps_of :: "index \<Rightarrow> lookup_maps option" where
  "maps_of ix = Option.bind (Build ix) ix_maps"

section \<open>Lookups\<close>

definition EntryByRecord :: "index \<Rightarrow> string \<Rightarrow> nat option option" where
  "EntryByRecord ix recordID =
     map_option (\<lambda>m.
       let (id, ok) = Lookup (ix_Strings ix) recordID
       in if \<not> ok \<or> id = 0 then None else byRecord m id) (maps_of ix)"

definition resolve :: "index \<Rightarrow> (lookup_maps \<Rightarrow> u32 \<Rightarrow> nat list) \<Rightarrow> string \<Rightarrow> nat list option" where
  "resolve ix field key =
     map_option (\<lambda>m.
       let (id, ok) = Lookup (ix_Strings ix) key
       in if \<not> ok \<or> id = 0 then [] else field m id) (maps_of ix)"

definition before_landed :: "entry \<Rightarrow> entry \<Rightarrow> bool" where
  "before_landed a b \<longleftrightarrow>
     (if e_Seq a \<noteq> e_Seq b then e_Seq a < e_Seq b else e_Row a < e_Row b)"

definition ProviderCall :: "index \<Rightarrow> string \<Rightarrow> nat list option" where
  "ProviderCall ix callID =
     map_option (sort_by (\<lambda>a b. before_landed (ix_Entries ix ! a) (ix_Entries ix ! b)))
       (resolve ix byMsg callID)"

definition ToolBlocks :: "index \<Rightarrow> string \<Rightarrow> nat list option" where
  "ToolBlocks ix toolUseID = resolve ix byToolBlock toolUseID"

definition Stream :: "index \<Rightarrow> string \<Rightarrow> nat list option" where
  "Stream ix name = resolve ix by_stream name"

definition Batch :: "index \<Rightarrow> string \<Rightarrow> nat list option" where
  "Batch ix batchID = resolve ix byBatch batchID"

definition Run :: "index \<Rightarrow> string \<Rightarrow> nat list option" where
  "Run ix runID = resolve ix byRun runID"

definition AboutTool :: "index \<Rightarrow> string \<Rightarrow> nat list option" where
  "AboutTool ix toolUseID = resolve ix byToolRef toolUseID"

definition AboutChild :: "index \<Rightarrow> string \<Rightarrow> nat list option" where
  "AboutChild ix stream = resolve ix byChild stream"

text \<open>The names of the streams, sorted; the ids of the Go map come in no order.\<close>

definition Streams :: "index \<Rightarrow> string list option" where
  "Streams ix =
     map_option (\<lambda>m. sort_by (<) (map (String_of (ix_Strings ix))
       (filter (\<lambda>id. by_stream m id \<noteq> []) (remdups (map e_Stream (ix_Entries ix)))))) (maps_of ix)"

definition IsDuplicate :: "index \<Rightarrow> nat \<Rightarrow> bool option" where
  "IsDuplicate ix i = map_option (\<lambda>m. i < length (dup m) \<and> dup m ! i) (maps_of ix)"

definition Canonical :: "index \<Rightarrow> nat list option" where
  "Canonical ix =
     map_option (\<lambda>m. filter (\<lambda>i. \<not> dup m ! i) [0..<length (ix_Entries ix)]) (maps_of ix)"

text \<open>\<open>ancestor_from\<close> is the loop of \<open>Ancestor\<close>, with \<open>fuel\<close> the hops it may still look at.\<close>

fun ancestor_from :: "entry list \<Rightarrow> (u32 \<Rightarrow> nat option) \<Rightarrow> (nat \<Rightarrow> bool) \<Rightarrow> nat \<Rightarrow> nat \<Rightarrow> nat option" where
  "ancestor_from es records want 0 cur = None"
| "ancestor_from es records want (Suc fuel) cur =
     (if want cur then Some cur
      else if e_Parent (es ! cur) = 0 then None
      else case records (e_Parent (es ! cur)) of
        None \<Rightarrow> None
      | Some i \<Rightarrow> if i = cur then None else ancestor_from es records want fuel i)"

definition Ancestor :: "index \<Rightarrow> nat \<Rightarrow> nat \<Rightarrow> (nat \<Rightarrow> bool) \<Rightarrow> nat option option" where
  "Ancestor ix e maxHops want =
     map_option (\<lambda>m. ancestor_from (ix_Entries ix) (byRecord m) want (maxHops + 1) e) (maps_of ix)"

definition ancestorHops :: nat where
  "ancestorHops = 64"

definition RunOf :: "index \<Rightarrow> nat \<Rightarrow> nat option option" where
  "RunOf ix e = Ancestor ix e ancestorHops (\<lambda>x. e_Run (ix_Entries ix ! x) \<noteq> 0)"

section \<open>What the lookup maps hold\<close>

text \<open>
  The reference: an entry is a replayed copy when an earlier record of the session, not
  a provider body, carries its id; the canonical entries of a key are those that are
  neither copies nor bodies, in landed order.
\<close>

definition owns :: "u32 \<Rightarrow> entry \<Rightarrow> bool" where
  "owns rid e \<longleftrightarrow> e_Record e = rid \<and> \<not> is_body e"

definition replayed :: "entry list \<Rightarrow> nat \<Rightarrow> bool" where
  "replayed es i \<longleftrightarrow>
     e_Record (es ! i) \<noteq> 0 \<and> \<not> is_body (es ! i) \<and> (\<exists>j < i. owns (e_Record (es ! i)) (es ! j))"

definition skipped :: "entry list \<Rightarrow> nat \<Rightarrow> bool" where
  "skipped es i \<longleftrightarrow> replayed es i \<or> is_body (es ! i)"

definition canonical_with :: "(entry \<Rightarrow> u32) \<Rightarrow> entry list \<Rightarrow> u32 \<Rightarrow> nat list" where
  "canonical_with key es rid = filter (\<lambda>i. \<not> skipped es i \<and> key (es ! i) = rid) [0..<length es]"

definition blocks_with :: "index \<Rightarrow> u32 \<Rightarrow> nat list" where
  "blocks_with ix rid =
     filter (\<lambda>i. \<not> skipped (ix_Entries ix) (unat (k_Entry (ix_Blocks ix ! i))) \<and>
       k_ToolID (ix_Blocks ix ! i) = rid) [0..<length (ix_Blocks ix)]"

definition blocks_in_range :: "index \<Rightarrow> bool" where
  "blocks_in_range ix \<longleftrightarrow> (\<forall>b \<in> set (ix_Blocks ix). unat (k_Entry b) < length (ix_Entries ix))"

definition maps_fresh :: "index \<Rightarrow> bool" where
  "maps_fresh ix \<longleftrightarrow> (case ix_maps ix of None \<Rightarrow> True | Some m \<Rightarrow> Build_maps ix = Some m)"

lemma build_records_Cons:
  assumes "build_records n (e # es) m = (m', d)"
  obtains d' where
    "build_records (Suc n) es
       (if e_Record e = 0 \<or> is_body e \<or> m (e_Record e) \<noteq> None then m else m(e_Record e \<mapsto> n)) = (m', d')"
    "d = (e_Record e \<noteq> 0 \<and> \<not> is_body e \<and> m (e_Record e) \<noteq> None) # d'"
  using assms by (auto split: if_splits option.splits prod.splits)

lemma build_records_map:
  "build_records n es m = (m', d) \<Longrightarrow>
     m' rid = (case m rid of Some v \<Rightarrow> Some v
       | None \<Rightarrow> if rid = 0 then None else map_option ((+) n) (index_where (owns rid) es))"
proof (induction es arbitrary: n m m' d)
  case Nil
  then show ?case by (auto split: option.splits)
next
  case (Cons e es)
  obtain d' where *: "build_records (Suc n) es
      (if e_Record e = 0 \<or> is_body e \<or> m (e_Record e) \<noteq> None then m else m(e_Record e \<mapsto> n)) = (m', d')"
    using build_records_Cons [OF Cons.prems] .
  have plus: "map_option ((+) (Suc n)) x = map_option ((+) n) (map_option Suc x)" for x
    by (cases x) auto
  show ?case
    unfolding Cons.IH [OF *] plus
    by (cases "m rid") (auto simp: owns_def)
qed

lemma build_records_length:
  "build_records n es m = (m', d) \<Longrightarrow> length d = length es"
  by (induction es arbitrary: n m m' d)
    (auto elim: build_records_Cons simp del: build_records.simps(2))

lemma build_records_dup:
  "build_records n es m = (m', d) \<Longrightarrow> k < length es \<Longrightarrow>
     d ! k \<longleftrightarrow> e_Record (es ! k) \<noteq> 0 \<and> \<not> is_body (es ! k) \<and>
       (m (e_Record (es ! k)) \<noteq> None \<or> (\<exists>j < k. owns (e_Record (es ! k)) (es ! j)))"
proof (induction es arbitrary: n m m' d k)
  case Nil
  then show ?case by simp
next
  case (Cons e es)
  obtain d' where *: "build_records (Suc n) es
      (if e_Record e = 0 \<or> is_body e \<or> m (e_Record e) \<noteq> None then m else m(e_Record e \<mapsto> n)) = (m', d')"
    and d: "d = (e_Record e \<noteq> 0 \<and> \<not> is_body e \<and> m (e_Record e) \<noteq> None) # d'"
    using build_records_Cons [OF Cons.prems(1)] .
  show ?case
  proof (cases k)
    case 0
    then show ?thesis by (simp add: d)
  next
    case (Suc k')
    then have k': "k' < length es" using Cons.prems(2) by simp
    have "(\<exists>j < Suc k'. owns r ((e # es) ! j)) \<longleftrightarrow> owns r e \<or> (\<exists>j < k'. owns r (es ! j))" for r
      by (metis Suc_less_eq less_Suc_eq_0_disj nth_Cons_0 nth_Cons_Suc)
    then show ?thesis
      unfolding Suc d nth_Cons_Suc Cons.IH [OF * k'] by (auto simp: owns_def [of _ e])
  qed
qed

lemma build_by_spec:
  "build_by key n rows m rid = m rid @ (if rid = 0 then [] else
     filter (\<lambda>i. \<not> fst (rows ! (i - n)) \<and> key (snd (rows ! (i - n))) = rid) [n..<n + length rows])"
proof (induction rows arbitrary: n m)
  case Nil
  then show ?case by simp
next
  case (Cons r rows)
  obtain skip x where r: "r = (skip, x)" by (cases r)
  have tail: "filter (\<lambda>i. \<not> fst ((r # rows) ! (i - n)) \<and> key (snd ((r # rows) ! (i - n))) = rid)
        [Suc n..<Suc n + length rows]
      = filter (\<lambda>i. \<not> fst (rows ! (i - Suc n)) \<and> key (snd (rows ! (i - Suc n))) = rid)
        [Suc n..<Suc n + length rows]"
    by (rule filter_cong [OF refl]) (auto simp: nth_Cons')
  have upt: "[n..<n + length (r # rows)] = n # [Suc n..<Suc n + length rows]"
    using upt_conv_Cons [of n "n + length (r # rows)"] by simp
  show ?case
    unfolding r build_by.simps Cons.IH upt [unfolded r] filter.simps tail [unfolded r] by auto
qed

lemma map_option_plus_0: "map_option ((+) (0::nat)) x = x"
  by (cases x) simp_all

lemma build_records_init:
  assumes "build_records 0 es (\<lambda>_. None) = (m, d)"
  shows "length d = length es"
    and "\<And>i. i < length es \<Longrightarrow> d ! i \<longleftrightarrow> replayed es i"
    and "\<And>i. i < length es \<Longrightarrow> skips d es ! i \<longleftrightarrow> skipped es i"
    and "m rid = (if rid = 0 then None else index_where (owns rid) es)"
  using build_records_length [OF assms] build_records_dup [OF assms] build_records_map [OF assms, of rid]
  by (auto simp: replayed_def skipped_def skips_def map_option_plus_0)

lemma length_skips [simp]: "length d = length es \<Longrightarrow> length (skips d es) = length es"
  by (simp add: skips_def)

lemma build_by_entries:
  assumes "build_records 0 es (\<lambda>_. None) = (m, d)" and "rid \<noteq> 0"
  shows "build_by key 0 (zip (skips d es) es) (\<lambda>_. []) rid = canonical_with key es rid"
  using assms(2) build_records_init(1,3) [OF assms(1)]
  by (auto simp: build_by_spec canonical_with_def intro!: filter_cong)

definition maps_spec :: "index \<Rightarrow> lookup_maps \<Rightarrow> bool" where
  "maps_spec ix m \<longleftrightarrow>
     (\<forall>rid. byRecord m rid = (if rid = 0 then None else index_where (owns rid) (ix_Entries ix))) \<and>
     (\<forall>rid. rid \<noteq> 0 \<longrightarrow>
        byMsg m rid = canonical_with e_Call (ix_Entries ix) rid \<and>
        byBatch m rid = canonical_with e_Batch (ix_Entries ix) rid \<and>
        by_stream m rid = canonical_with e_Stream (ix_Entries ix) rid \<and>
        byRun m rid = canonical_with e_Run (ix_Entries ix) rid \<and>
        byToolRef m rid = canonical_with e_Tool (ix_Entries ix) rid \<and>
        byChild m rid = canonical_with e_Child (ix_Entries ix) rid \<and>
        byToolBlock m rid = blocks_with ix rid) \<and>
     length (dup m) = length (ix_Entries ix) \<and>
     (\<forall>i < length (ix_Entries ix). dup m ! i \<longleftrightarrow> replayed (ix_Entries ix) i)"

lemma Build_maps_Some:
  assumes "blocks_in_range ix"
  obtains m where "Build_maps ix = Some m" "maps_spec ix m"
proof -
  let ?es = "ix_Entries ix" and ?bs = "ix_Blocks ix"
  obtain r d where rd: "build_records 0 ?es (\<lambda>_. None) = (r, d)"
    by (cases "build_records 0 ?es (\<lambda>_. None)")
  note init = build_records_init [OF rd]
  let ?sk = "skips d ?es"
  let ?bsk = "map (\<lambda>b. if k_ToolID b = 0 then True else ?sk ! unat (k_Entry b)) ?bs"
  have bsk: "block_skips ?sk ?bs = Some ?bsk"
    using assms init(1) by (simp add: block_skips_def blocks_in_range_def)
  have blk: "build_by k_ToolID 0 (zip ?bsk ?bs) (\<lambda>_. []) rid = blocks_with ix rid"
    if "rid \<noteq> 0" for rid
    using that assms init(3)
    by (auto simp: build_by_spec blocks_with_def blocks_in_range_def intro!: filter_cong)
  show ?thesis
    by (rule that [OF _ _])
      (simp add: Build_maps_def rd bsk Let_def,
       simp add: maps_spec_def init build_by_entries [OF rd] blk)
qed

lemma Build_maps_indep [simp]: "Build_maps (ix\<lparr>ix_maps := x\<rparr>) = Build_maps ix"
  by (simp add: Build_maps_def)

lemma maps_of_fresh:
  assumes "blocks_in_range ix" and "maps_fresh ix"
  shows "maps_of ix = Build_maps ix"
proof (cases "ix_maps ix")
  case None
  then show ?thesis by (cases "Build_maps ix") (simp_all add: maps_of_def Build_def)
next
  case (Some m)
  with assms show ?thesis by (simp add: maps_of_def Build_def maps_fresh_def)
qed

lemma Build_fresh: "maps_fresh ix \<Longrightarrow> Build ix = Some jx \<Longrightarrow> maps_fresh jx"
  by (auto simp: Build_def maps_fresh_def split: option.splits)

section \<open>Properties\<close>


lemma Canonical_eq:
  assumes "blocks_in_range ix" and "maps_fresh ix"
  shows "Canonical ix = Some (filter (\<lambda>i. \<not> replayed (ix_Entries ix) i) [0..<length (ix_Entries ix)])"
proof -
  obtain m where "maps_of ix = Some m" "maps_spec ix m"
    using Build_maps_Some [OF assms(1)] maps_of_fresh [OF assms] by metis
  then show ?thesis
    by (auto simp: Canonical_def maps_spec_def intro!: filter_cong)
qed

lemma first_owner:
  assumes "i < length es" and "owns rid (es ! i)" and "rid \<noteq> 0"
  obtains j where "j \<le> i" "owns rid (es ! j)" "\<not> replayed es j"
proof -
  obtain j where "index_where (owns rid) es = Some j"
    using assms(1,2) index_where_None [of "owns rid" es] by (meson not_None_eq nth_mem)
  then have j: "owns rid (es ! j)" "\<forall>k < j. \<not> owns rid (es ! k)"
    using index_where_Some by fastforce+
  then have "\<not> replayed es j" by (auto simp: replayed_def owns_def)
  moreover have "j \<le> i" using j(2) assms(2) by (meson not_le)
  ultimately show ?thesis using that j(1) by blast
qed

lemma owners_not_replayed:
  assumes "owns rid (es ! i)" "owns rid (es ! j)" "rid \<noteq> 0" "\<not> replayed es i" "\<not> replayed es j"
  shows "i = j"
  using assms by (metis linorder_neqE_nat owns_def replayed_def)

text \<open>The canonical view of a session holds every record once: among the entries of one
  record id it keeps exactly one, the first that landed, so a resume that replays a block of
  records does not double the conversation.\<close>

theorem Canonical_once_per_record:
  assumes "blocks_in_range ix" and "maps_fresh ix"
    and "i < length (ix_Entries ix)" and "owns rid (ix_Entries ix ! i)" and "rid \<noteq> 0"
  shows "\<exists>js. Canonical ix = Some js \<and> sorted_wrt (<) js \<and>
    (\<exists>j \<in> set js. j \<le> i \<and> (\<forall>k \<in> set js. owns rid (ix_Entries ix ! k) \<longleftrightarrow> k = j))"
proof -
  let ?es = "ix_Entries ix" and ?js = "filter (\<lambda>i. \<not> replayed (ix_Entries ix) i) [0..<length (ix_Entries ix)]"
  obtain j where j: "j \<le> i" "owns rid (?es ! j)" "\<not> replayed ?es j"
    using first_owner [OF assms(3-5)] .
  have "\<forall>k \<in> set ?js. owns rid (?es ! k) \<longleftrightarrow> k = j"
    using j assms(5) owners_not_replayed by auto
  moreover have "j \<in> set ?js" using j assms(3) by auto
  moreover have "sorted_wrt (<) ?js" by (simp add: sorted_wrt_filter)
  ultimately show ?thesis
    using Canonical_eq [OF assms(1,2)] j(1) by blast
qed

interpretation landed: weak_less "\<lambda>a b. before_landed (es ! a) (es ! b)" UNIV for es
  by unfold_locales (auto simp: before_landed_def split: if_splits)

text \<open>The fragments of a provider call are its canonical records, each once, and they come in
  landed order.\<close>

theorem ProviderCall_in_order:
  assumes "blocks_in_range ix" and "maps_fresh ix"
    and "Lookup (ix_Strings ix) callID = (rid, True)" and "rid \<noteq> 0"
  shows "\<exists>js. ProviderCall ix callID = Some js
    \<and> mset js = mset (canonical_with e_Call (ix_Entries ix) rid)
    \<and> sorted_by (\<lambda>a b. before_landed (ix_Entries ix ! a) (ix_Entries ix ! b)) js"
proof -
  obtain m where "maps_of ix = Some m" "maps_spec ix m"
    using Build_maps_Some [OF assms(1)] maps_of_fresh [OF assms(1,2)] by metis
  then show ?thesis
    using assms(3,4) landed.sorted_sort_by
    by (simp add: ProviderCall_def resolve_def maps_spec_def)
qed

section \<open>Walking back through containment\<close>

text \<open>The one containment parent of an entry, and the walk of \<open>k\<close> steps from it.\<close>

definition parent_at :: "entry list \<Rightarrow> (u32 \<Rightarrow> nat option) \<Rightarrow> nat \<Rightarrow> nat option" where
  "parent_at es records i =
     (if e_Parent (es ! i) = 0 then None
      else case records (e_Parent (es ! i)) of
        None \<Rightarrow> None
      | Some j \<Rightarrow> if j = i then None else Some j)"

fun walk :: "entry list \<Rightarrow> (u32 \<Rightarrow> nat option) \<Rightarrow> nat \<Rightarrow> nat \<Rightarrow> nat option" where
  "walk es records 0 i = Some i"
| "walk es records (Suc k) i =
     (case parent_at es records i of None \<Rightarrow> None | Some j \<Rightarrow> walk es records k j)"

lemma ancestor_from_walk:
  "ancestor_from es records want fuel cur = Some a \<longleftrightarrow>
     (\<exists>k < fuel. walk es records k cur = Some a \<and> want a \<and>
        (\<forall>l < k. \<forall>b. walk es records l cur = Some b \<longrightarrow> \<not> want b))"
proof (induction fuel arbitrary: cur)
  case 0
  then show ?case by simp
next
  case (Suc fuel)
  show ?case
  proof (cases "want cur")
    case True
    then show ?thesis by (auto simp: Ex_less_Suc2)
  next
    case False
    show ?thesis
    proof (cases "parent_at es records cur")
      case None
      with False show ?thesis
        by (auto simp: Ex_less_Suc2 parent_at_def split: if_splits option.splits)
    next
      case (Some j)
      with False have "ancestor_from es records want (Suc fuel) cur = ancestor_from es records want fuel j"
        by (auto simp: parent_at_def split: if_splits option.splits)
      with Some False Suc.IH [of j] show ?thesis
        by (auto simp: Ex_less_Suc2 All_less_Suc2)
    qed
  qed
qed

text \<open>\<open>Ancestor\<close> returns the nearest ancestor that is wanted, and it returns nothing exactly when
  none of the first \<open>maxHops\<close> ancestors is: a cycle of corrupt parents ends the walk.\<close>

theorem Ancestor_nearest:
  assumes "blocks_in_range ix" and "maps_fresh ix"
  shows "\<exists>m r. maps_of ix = Some m \<and> Ancestor ix e maxHops want = Some r \<and>
    (\<forall>a. r = Some a \<longleftrightarrow>
      (\<exists>k \<le> maxHops. walk (ix_Entries ix) (byRecord m) k e = Some a \<and> want a \<and>
        (\<forall>l < k. \<forall>b. walk (ix_Entries ix) (byRecord m) l e = Some b \<longrightarrow> \<not> want b)))"
proof -
  obtain m where m: "maps_of ix = Some m"
    using Build_maps_Some [OF assms(1)] maps_of_fresh [OF assms] by metis
  then show ?thesis
    unfolding Ancestor_def by (simp add: ancestor_from_walk less_Suc_eq_le del: ancestor_from.simps)
qed

end
