(* ===== verification/Diff_Model.thy ===== *)
theory Diff_Model
  imports Prelude
begin

text \<open>
  The line diff of \<^verbatim>\<open>pkg/changes/diff.go\<close>: splitting a text, Myers' bisection over
  two slices of furthest-reaching values, the edit script and its hunks. Go's \<open>int\<close> is an \<open>int\<close>: all
  values are bounded by the number of lines. An index or a slice bound out of range is a panic, the value
  \<open>None\<close>; \<open>diffRange\<close> takes fuel for its recursion.
\<close>

section \<open>Slices\<close>

definition at :: "'a list \<Rightarrow> int \<Rightarrow> 'a option" where
  "at xs i = (if 0 \<le> i \<and> i < int (length xs) then Some (xs ! nat i) else None)"

definition set_at :: "'a list \<Rightarrow> int \<Rightarrow> 'a \<Rightarrow> 'a list option" where
  "set_at xs i x = (if 0 \<le> i \<and> i < int (length xs) then Some (xs[nat i := x]) else None)"

section \<open>Texts\<close>

record line_text =
  Lines :: "string list"
  NoNewlineAtEnd :: bool

text \<open>\<open>bytes.Split\<close> by a newline: there is always a last part, which may be empty.\<close>

fun split_newlines :: "string \<Rightarrow> string list" where
  "split_newlines [] = [[]]"
| "split_newlines (c # cs) =
    (if c = CHR 0x0A then [] # split_newlines cs
     else case split_newlines cs of
       [] \<Rightarrow> [[c]]
     | l # ls \<Rightarrow> (c # l) # ls)"

definition SplitLines :: "string \<Rightarrow> line_text" where
  "SplitLines b =
    (if b = [] then \<lparr>Lines = [], NoNewlineAtEnd = False\<rparr>
     else
       (let parts = split_newlines b in
        if last parts = [] then \<lparr>Lines = butlast parts, NoNewlineAtEnd = False\<rparr>
        else \<lparr>Lines = parts, NoNewlineAtEnd = True\<rparr>))"

section \<open>The edit script\<close>

datatype opKind = opEqual | opDelete | opInsert

record edit_op =
  op_k :: opKind
  op_ai :: int
  op_bi :: int
  op_n :: int

definition mk_op :: "opKind \<Rightarrow> int \<Rightarrow> int \<Rightarrow> int \<Rightarrow> edit_op" where
  "mk_op k ai bi n = \<lparr>op_k = k, op_ai = ai, op_bi = bi, op_n = n\<rparr>"

section \<open>Bisection\<close>

text \<open>The value a diagonal starts from: one past the diagonal below, or the one above.\<close>

definition start_x :: "int \<Rightarrow> int \<Rightarrow> int \<Rightarrow> int list \<Rightarrow> int option" where
  "start_x vOff d k v =
    (let ko = vOff + k in
     if k = - d then at v (ko + 1)
     else if k \<noteq> d then
       Option.bind (at v (ko - 1)) (\<lambda>l. Option.bind (at v (ko + 1)) (\<lambda>r.
         Some (if l < r then r else l + 1)))
     else map_option (\<lambda>l. l + 1) (at v (ko - 1)))"

text \<open>The run of common lines from a point, forward and, counted from the end, backward. Go looks at
  the lines only where both coordinates are below the lengths.\<close>

function snake :: "'a list \<Rightarrow> 'a list \<Rightarrow> int \<Rightarrow> int \<Rightarrow> (int \<times> int) option" where
  "snake a b x y =
    (if x < int (length a) \<and> y < int (length b) then
       (case (at a x, at b y) of
          (Some l, Some r) \<Rightarrow> if l = r then snake a b (x + 1) (y + 1) else Some (x, y)
        | _ \<Rightarrow> None)
     else Some (x, y))"
  by pat_completeness auto
termination
  by (relation "measure (\<lambda>(a, b, x, y). nat (int (length a) - x))") auto

function snake_back :: "'a list \<Rightarrow> 'a list \<Rightarrow> int \<Rightarrow> int \<Rightarrow> (int \<times> int) option" where
  "snake_back a b x y =
    (if x < int (length a) \<and> y < int (length b) then
       (case (at a (int (length a) - x - 1), at b (int (length b) - y - 1)) of
          (Some l, Some r) \<Rightarrow> if l = r then snake_back a b (x + 1) (y + 1) else Some (x, y)
        | _ \<Rightarrow> None)
     else Some (x, y))"
  by pat_completeness auto
termination
  by (relation "measure (\<lambda>(a, b, x, y). nat (int (length a) - x))") auto

declare snake.simps [simp del] snake_back.simps [simp del]

text \<open>One pass over the diagonals of a direction: it ends with the slice and the bounds, or at a point
  where the two directions meet.\<close>

datatype sweep_end = Swept "int list" int int | Met int int

function forward_sweep :: "'a list \<Rightarrow> 'a list \<Rightarrow> int \<Rightarrow> int \<Rightarrow> int list \<Rightarrow> int \<Rightarrow> int list \<Rightarrow> int \<Rightarrow> int \<Rightarrow> sweep_end option" where
  "forward_sweep a b vOff d v2 k1 v1 k1start k1end =
    (if k1 \<le> d - k1end then
       (let n = int (length a); m = int (length b); delta = n - m in
        Option.bind (start_x vOff d k1 v1) (\<lambda>x0.
        Option.bind (snake a b x0 (x0 - k1)) (\<lambda>(x1, y1).
        Option.bind (set_at v1 (vOff + k1) x1) (\<lambda>v1'.
          if x1 > n then forward_sweep a b vOff d v2 (k1 + 2) v1' k1start (k1end + 2)
          else if y1 > m then forward_sweep a b vOff d v2 (k1 + 2) v1' (k1start + 2) k1end
          else
            (case (if delta mod 2 \<noteq> 0 then at v2 (vOff + delta - k1) else None) of
               Some w \<Rightarrow>
                 if w \<noteq> - 1 \<and> x1 \<ge> n - w then Some (Met x1 y1)
                 else forward_sweep a b vOff d v2 (k1 + 2) v1' k1start k1end
             | None \<Rightarrow> forward_sweep a b vOff d v2 (k1 + 2) v1' k1start k1end)))))
     else Some (Swept v1 k1start k1end))"
  by pat_completeness auto
termination
  by (relation "measure (\<lambda>(a, b, vOff, d, v2, k1, v1, k1start, k1end). nat (d - k1end - k1 + 2))") auto

function reverse_sweep :: "'a list \<Rightarrow> 'a list \<Rightarrow> int \<Rightarrow> int \<Rightarrow> int list \<Rightarrow> int \<Rightarrow> int list \<Rightarrow> int \<Rightarrow> int \<Rightarrow> sweep_end option" where
  "reverse_sweep a b vOff d v1 k2 v2 k2start k2end =
    (if k2 \<le> d - k2end then
       (let n = int (length a); m = int (length b); delta = n - m in
        Option.bind (start_x vOff d k2 v2) (\<lambda>x0.
        Option.bind (snake_back a b x0 (x0 - k2)) (\<lambda>(x2, y2).
        Option.bind (set_at v2 (vOff + k2) x2) (\<lambda>v2'.
          if x2 > n then reverse_sweep a b vOff d v1 (k2 + 2) v2' k2start (k2end + 2)
          else if y2 > m then reverse_sweep a b vOff d v1 (k2 + 2) v2' (k2start + 2) k2end
          else
            (case (if delta mod 2 = 0 then at v1 (vOff + delta - k2) else None) of
               Some x1 \<Rightarrow>
                 if x1 \<noteq> - 1 \<and> x1 \<ge> n - x2 then Some (Met x1 (vOff + x1 - (vOff + delta - k2)))
                 else reverse_sweep a b vOff d v1 (k2 + 2) v2' k2start k2end
             | None \<Rightarrow> reverse_sweep a b vOff d v1 (k2 + 2) v2' k2start k2end)))))
     else Some (Swept v2 k2start k2end))"
  by pat_completeness auto
termination
  by (relation "measure (\<lambda>(a, b, vOff, d, v1, k2, v2, k2start, k2end). nat (d - k2end - k2 + 2))") auto

declare forward_sweep.simps [simp del] reverse_sweep.simps [simp del]

text \<open>The passes, of which the first number is how many are left: a meeting point, or none.\<close>

fun passes :: "nat \<Rightarrow> 'a list \<Rightarrow> 'a list \<Rightarrow> int \<Rightarrow> int \<Rightarrow> int list \<Rightarrow> int \<Rightarrow> int \<Rightarrow> int list \<Rightarrow> int \<Rightarrow> int \<Rightarrow> (int \<times> int) option option" where
  "passes 0 a b vOff d v1 k1start k1end v2 k2start k2end = Some None"
| "passes (Suc left) a b vOff d v1 k1start k1end v2 k2start k2end =
    (case forward_sweep a b vOff d v2 (- d + k1start) v1 k1start k1end of
       None \<Rightarrow> None
     | Some (Met x y) \<Rightarrow> Some (Some (x, y))
     | Some (Swept v1' k1start' k1end') \<Rightarrow>
        (case reverse_sweep a b vOff d v1' (- d + k2start) v2 k2start k2end of
           None \<Rightarrow> None
         | Some (Met x y) \<Rightarrow> Some (Some (x, y))
         | Some (Swept v2' k2start' k2end') \<Rightarrow>
             passes left a b vOff (d + 1) v1' k1start' k1end' v2' k2start' k2end'))"

definition bisect_point :: "'a list \<Rightarrow> 'a list \<Rightarrow> (int \<times> int) option option" where
  "bisect_point a b =
    (let maxD = (length a + length b + 1) div 2; vOff = int maxD; vLen = 2 * maxD + 2 in
     Option.bind (set_at (replicate vLen (- 1)) (vOff + 1) 0) (\<lambda>v.
       passes maxD a b vOff 0 v 0 0 v 0 0))"

section \<open>The script of two texts\<close>

fun common_prefix :: "'a list \<Rightarrow> 'a list \<Rightarrow> nat" where
  "common_prefix (x # xs) (y # ys) = (if x = y then Suc (common_prefix xs ys) else 0)"
| "common_prefix _ _ = 0"

definition run :: "opKind \<Rightarrow> int \<Rightarrow> int \<Rightarrow> nat \<Rightarrow> edit_op list" where
  "run k ai bi n = (if n > 0 then [mk_op k ai bi (int n)] else [])"

text \<open>The recursive calls of \<open>diffRange\<close> are an argument of the functions below it, which the fuel ties
  together. A slice \<open>a[:x]\<close> with \<open>x\<close> out of range panics.\<close>

type_synonym 'a differ = "'a list \<Rightarrow> 'a list \<Rightarrow> int \<Rightarrow> int \<Rightarrow> edit_op list option"

definition split_at :: "'a differ \<Rightarrow> 'a list \<Rightarrow> 'a list \<Rightarrow> int \<Rightarrow> int \<Rightarrow> int \<Rightarrow> int \<Rightarrow> edit_op list option" where
  "split_at rec a b aOff bOff x y =
    (if x < 0 \<or> y < 0 \<or> x > int (length a) \<or> y > int (length b) then None
     else Option.bind (rec (take (nat x) a) (take (nat y) b) aOff bOff) (\<lambda>l.
       map_option (\<lambda>r. l @ r) (rec (drop (nat x) a) (drop (nat y) b) (aOff + x) (bOff + y))))"

definition bisect :: "'a differ \<Rightarrow> 'a list \<Rightarrow> 'a list \<Rightarrow> int \<Rightarrow> int \<Rightarrow> edit_op list option" where
  "bisect rec a b aOff bOff =
    (case bisect_point a b of
       None \<Rightarrow> None
     | Some None \<Rightarrow>
         Some [mk_op opDelete aOff bOff (int (length a)), mk_op opInsert aOff bOff (int (length b))]
     | Some (Some (x, y)) \<Rightarrow> split_at rec a b aOff bOff x y)"

definition diff_middle :: "'a differ \<Rightarrow> 'a list \<Rightarrow> 'a list \<Rightarrow> int \<Rightarrow> int \<Rightarrow> edit_op list option" where
  "diff_middle rec a2 b2 aOff bOff =
    (if a2 = [] \<and> b2 = [] then Some []
     else if a2 = [] then Some [mk_op opInsert aOff bOff (int (length b2))]
     else if b2 = [] then Some [mk_op opDelete aOff bOff (int (length a2))]
     else bisect rec a2 b2 aOff bOff)"

definition diff_step :: "'a differ \<Rightarrow> 'a list \<Rightarrow> 'a list \<Rightarrow> int \<Rightarrow> int \<Rightarrow> edit_op list option" where
  "diff_step rec a0 b0 aOff0 bOff0 =
    (let pre = common_prefix a0 b0;
         a = drop pre a0; b = drop pre b0; aOff = aOff0 + int pre; bOff = bOff0 + int pre;
         suf = common_prefix (rev a) (rev b)
     in map_option (\<lambda>mid. run opEqual aOff0 bOff0 pre @ mid @
            run opEqual (aOff + int (length a - suf)) (bOff + int (length b - suf)) suf)
          (diff_middle rec (take (length a - suf) a) (take (length b - suf) b) aOff bOff))"

primrec diffRange :: "nat \<Rightarrow> 'a differ" where
  "diffRange 0 = (\<lambda>a b aOff bOff. None)"
| "diffRange (Suc fuel) = diff_step (diffRange fuel)"

text \<open>\<open>mergeOps\<close>, on the script built so far in reverse.\<close>

fun merge_rev :: "edit_op list \<Rightarrow> edit_op list \<Rightarrow> edit_op list" where
  "merge_rev out [] = rev out"
| "merge_rev out (x # xs) =
    (if op_n x = 0 then merge_rev out xs
     else case out of
       [] \<Rightarrow> merge_rev [x] xs
     | y # ys \<Rightarrow>
         if op_k y = op_k x then merge_rev (y\<lparr>op_n := op_n y + op_n x\<rparr> # ys) xs
         else merge_rev (x # out) xs)"

definition mergeOps :: "edit_op list \<Rightarrow> edit_op list" where
  "mergeOps ops = merge_rev [] ops"

definition diffOps :: "'a list \<Rightarrow> 'a list \<Rightarrow> edit_op list option" where
  "diffOps a b = map_option mergeOps (diffRange (length a + length b + 1) a b 0 0)"

end
