(* ===== verification/Diff_Script.thy ===== *)
theory Diff_Script
  imports Diff_Model
begin

text \<open>
  Edit scripts: the runs that \<open>diffRange\<close> appends, joined by \<open>mergeOps\<close>, walk both texts from their start to
  their end. A deleted run stands at its place in the old text and an inserted run at its place in the
  new one; the other position of such a run may lag behind.
\<close>

section \<open>Scripts\<close>

definition runs_over :: "'a list \<Rightarrow> 'a list \<Rightarrow> nat \<Rightarrow> nat \<Rightarrow> edit_op \<Rightarrow> nat \<Rightarrow> nat \<Rightarrow> bool" where
  "runs_over a b i j x i' j' \<longleftrightarrow> 0 \<le> op_n x \<and> 0 \<le> op_ai x \<and> op_ai x \<le> int i \<and> 0 \<le> op_bi x \<and> op_bi x \<le> int j \<and>
     i' \<le> length a \<and> j' \<le> length b \<and>
     (case op_k x of
        opEqual \<Rightarrow> op_ai x = int i \<and> op_bi x = int j \<and> int i' = int i + op_n x \<and> int j' = int j + op_n x \<and>
          take (nat (op_n x)) (drop i a) = take (nat (op_n x)) (drop j b)
      | opDelete \<Rightarrow> op_ai x = int i \<and> int i' = int i + op_n x \<and> j' = j
      | opInsert \<Rightarrow> op_bi x = int j \<and> i' = i \<and> int j' = int j + op_n x)"

fun script :: "'a list \<Rightarrow> 'a list \<Rightarrow> nat \<Rightarrow> nat \<Rightarrow> edit_op list \<Rightarrow> nat \<Rightarrow> nat \<Rightarrow> bool" where
  "script a b i j [] i' j' \<longleftrightarrow> i' = i \<and> j' = j"
| "script a b i j (x # xs) i' j' \<longleftrightarrow> (\<exists>i1 j1. runs_over a b i j x i1 j1 \<and> script a b i1 j1 xs i' j')"

lemma script_append:
  "script a b i j (xs @ ys) i' j' \<longleftrightarrow> (\<exists>i1 j1. script a b i j xs i1 j1 \<and> script a b i1 j1 ys i' j')"
  by (induction xs arbitrary: i j) auto

lemma runs_over_mono: "runs_over a b i j x i' j' \<Longrightarrow> i \<le> i' \<and> j \<le> j'"
  by (auto simp: runs_over_def split: opKind.splits)

section \<open>The script that is found\<close>

lemma common_prefix_take: "take (common_prefix xs ys) xs = take (common_prefix xs ys) ys"
  by (induction xs ys rule: common_prefix.induct) auto

lemma common_prefix_le: "common_prefix xs ys \<le> length xs \<and> common_prefix xs ys \<le> length ys"
  by (induction xs ys rule: common_prefix.induct) auto

text \<open>The piece of a text between two positions.\<close>

definition piece :: "'a list \<Rightarrow> nat \<Rightarrow> 'a list \<Rightarrow> bool" where
  "piece a i xs \<longleftrightarrow> i + length xs \<le> length a \<and> take (length xs) (drop i a) = xs"

lemma piece_take: "piece a i xs \<Longrightarrow> piece a i (take k xs)"
  unfolding piece_def by (metis length_take min.cobounded1 add_le_mono1 le_trans nat_add_left_cancel_le take_take min.commute)

lemma piece_drop: "piece a i xs \<Longrightarrow> k \<le> length xs \<Longrightarrow> piece a (i + k) (drop k xs)"
  unfolding piece_def by (auto simp: drop_take [symmetric] add.commute) (metis drop_drop drop_take add.commute)

lemma piece_at: "piece a i xs \<Longrightarrow> k \<le> length xs \<Longrightarrow> take k (drop i a) = take k xs"
  unfolding piece_def by (metis min.absorb1 take_take)

definition finds :: "'a list \<Rightarrow> 'a list \<Rightarrow> 'a differ \<Rightarrow> bool" where
  "finds a b rec \<longleftrightarrow> (\<forall>xs ys i j ops. piece a i xs \<longrightarrow> piece b j ys \<longrightarrow> rec xs ys (int i) (int j) = Some ops \<longrightarrow>
     script a b i j ops (i + length xs) (j + length ys))"

lemma findsD:
  "finds a b rec \<Longrightarrow> piece a i xs \<Longrightarrow> piece b j ys \<Longrightarrow> rec xs ys (int i) (int j) = Some ops \<Longrightarrow>
     script a b i j ops (i + length xs) (j + length ys)"
  unfolding finds_def by blast

lemma script_run:
  assumes "piece a i xs" "piece b j ys" "k \<le> length xs" "k \<le> length ys" "take k xs = take k ys"
  shows "script a b i j (run opEqual (int i) (int j) k) (i + k) (j + k)"
  using assms piece_at [OF assms(1,3)] piece_at [OF assms(2,4)]
  by (auto simp: run_def mk_op_def runs_over_def piece_def)

lemma finds_middle:
  assumes rec: "finds a b rec" and p: "piece a i xs" "piece b j ys" and d: "diff_middle rec xs ys (int i) (int j) = Some ops"
  shows "script a b i j ops (i + length xs) (j + length ys)"
proof (cases "xs = [] \<or> ys = []")
  case True
  with d p show ?thesis
    by (auto simp: diff_middle_def mk_op_def runs_over_def piece_def split: if_splits)
next
  case False
  with d have d: "bisect rec xs ys (int i) (int j) = Some ops" by (simp add: diff_middle_def)
  show ?thesis
  proof (cases "the (bisect_point xs ys)")
    case None
    with d p show ?thesis
      by (auto simp: bisect_def mk_op_def runs_over_def piece_def split: option.splits)
  next
    case (Some pt)
    obtain x y where pt: "pt = (x, y)" by (cases pt)
    with Some d have s: "split_at rec xs ys (int i) (int j) x y = Some ops" by (auto simp: bisect_def split: option.splits)
    then obtain l r where range: "0 \<le> x" "0 \<le> y" "x \<le> int (length xs)" "y \<le> int (length ys)"
      and l: "rec (take (nat x) xs) (take (nat y) ys) (int i) (int j) = Some l"
      and r: "rec (drop (nat x) xs) (drop (nat y) ys) (int i + x) (int j + y) = Some r" and ops: "ops = l @ r"
      by (auto simp: split_at_def bind_eq_Some_conv split: if_splits)
    have "script a b i j l (i + length (take (nat x) xs)) (j + length (take (nat y) ys))"
      by (rule findsD [OF rec piece_take [OF p(1)] piece_take [OF p(2)] l])
    moreover have "nat x \<le> length xs" "nat y \<le> length ys" using range by linarith+
    then have "length (take (nat x) xs) = nat x" "length (take (nat y) ys) = nat y" by simp_all
    ultimately have L: "script a b i j l (i + nat x) (j + nat y)" by simp
    have r': "rec (drop (nat x) xs) (drop (nat y) ys) (int (i + nat x)) (int (j + nat y)) = Some r" using r range by simp
    have "nat x \<le> length xs" "nat y \<le> length ys" using range by linarith+
    note tails = piece_drop [OF p(1) this(1)] piece_drop [OF p(2) this(2)]
    from findsD [OF rec tails r']
    have "script a b (i + nat x) (j + nat y) r (i + nat x + length (drop (nat x) xs)) (j + nat y + length (drop (nat y) ys))" .
    moreover have "i + nat x + length (drop (nat x) xs) = i + length xs" "j + nat y + length (drop (nat y) ys) = j + length ys"
      using range by (auto simp: nat_le_iff)
    ultimately show ?thesis using L ops by (auto simp: script_append)
  qed
qed

lemma finds_step:
  assumes "finds a b rec"
  shows "finds a b (diff_step rec)"
  unfolding finds_def
proof (intro allI impI)
  fix xs ys i j ops
  assume p: "piece a i xs" "piece b j ys" and d: "diff_step rec xs ys (int i) (int j) = Some ops"
  define k where "k = common_prefix xs ys"
  define xs1 ys1 where "xs1 = drop k xs" and "ys1 = drop k ys"
  define e where "e = common_prefix (rev xs1) (rev ys1)"
  have k: "k \<le> length xs" "k \<le> length ys" "take k xs = take k ys" using common_prefix_le common_prefix_take by (auto simp: k_def)
  have e: "e \<le> length xs1" "e \<le> length ys1" using common_prefix_le [of "rev xs1" "rev ys1"] by (auto simp: e_def)
  have tails: "drop (length xs1 - e) xs1 = drop (length ys1 - e) ys1"
    using common_prefix_take [of "rev xs1" "rev ys1"] by (simp add: e_def [symmetric] take_rev)
  obtain mid where mid: "diff_middle rec (take (length xs1 - e) xs1) (take (length ys1 - e) ys1) (int (i + k)) (int (j + k)) = Some mid"
    and ops: "ops = run opEqual (int i) (int j) k @ mid @
      run opEqual (int (i + k + (length xs1 - e))) (int (j + k + (length ys1 - e))) e"
    using d unfolding diff_step_def Let_def k_def [symmetric] xs1_def [symmetric] ys1_def [symmetric] e_def [symmetric]
    by auto
  have p1: "piece a (i + k) xs1" "piece b (j + k) ys1" using piece_drop p k by (auto simp: xs1_def ys1_def)
  have "script a b i j (run opEqual (int i) (int j) k) (i + k) (j + k)" by (rule script_run [OF p k])
  moreover have "script a b (i + k) (j + k) mid (i + k + (length xs1 - e)) (j + k + (length ys1 - e))"
    using finds_middle [OF assms piece_take [OF p1(1)] piece_take [OF p1(2)] mid] by simp
  moreover have "script a b (i + k + (length xs1 - e)) (j + k + (length ys1 - e))
      (run opEqual (int (i + k + (length xs1 - e))) (int (j + k + (length ys1 - e))) e) (i + length xs) (j + length ys)"
    using script_run [OF piece_drop [OF p1(1)] piece_drop [OF p1(2)], of "length xs1 - e" "length ys1 - e" e] e tails k
    by (simp add: xs1_def ys1_def)
  ultimately show "script a b i j ops (i + length xs) (j + length ys)"
    unfolding ops script_append by blast
qed

lemma finds_diffRange: "finds a b (diffRange fuel)"
  by (induction fuel) (simp add: finds_def, simp add: finds_step)

section \<open>Joined runs\<close>

lemma script_zero: "runs_over a b i j x i' j' \<Longrightarrow> op_n x = 0 \<Longrightarrow> i' = i \<and> j' = j"
  by (auto simp: runs_over_def split: opKind.splits)

lemma runs_over_join:
  assumes "runs_over a b i j y i1 j1" "runs_over a b i1 j1 x i2 j2" "op_k y = op_k x"
  shows "runs_over a b i j (y\<lparr>op_n := op_n y + op_n x\<rparr>) i2 j2"
proof (cases "op_k x")
  case opEqual
  with assms have n: "0 \<le> op_n y" "0 \<le> op_n x" "i1 = i + nat (op_n y)" "j1 = j + nat (op_n y)"
    "take (nat (op_n y)) (drop i a) = take (nat (op_n y)) (drop j b)"
    "take (nat (op_n x)) (drop i1 a) = take (nat (op_n x)) (drop j1 b)" by (auto simp: runs_over_def)
  have "nat (op_n y + op_n x) = nat (op_n y) + nat (op_n x)" using n by (simp add: nat_add_distrib)
  then have "take (nat (op_n y + op_n x)) (drop i a) = take (nat (op_n y + op_n x)) (drop j b)"
    using n by (simp only: take_add drop_drop) (simp add: add.commute)
  with assms opEqual show ?thesis by (auto simp: runs_over_def)
qed (use assms in \<open>auto simp: runs_over_def\<close>)

lemma script_merge_rev:
  "script a b i j (rev out) i1 j1 \<Longrightarrow> script a b i1 j1 xs i2 j2 \<Longrightarrow> script a b i j (merge_rev out xs) i2 j2"
proof (induction out xs arbitrary: i1 j1 rule: merge_rev.induct)
  case (2 out x xs)
  from "2.prems"(2) obtain i3 j3 where x: "runs_over a b i1 j1 x i3 j3" and xs: "script a b i3 j3 xs i2 j2" by auto
  show ?case
  proof (cases "op_n x = 0")
    case True
    with "2.IH"(1) [OF True "2.prems"(1)] script_zero [OF x] xs show ?thesis by simp
  next
    case n: False
    show ?thesis
    proof (cases out)
      case Nil
      with "2.IH"(2) [OF n Nil] "2.prems"(1) x xs n show ?thesis by auto
    next
      case (Cons y ys)
      from "2.prems"(1) Cons obtain i0 j0 where y: "script a b i j (rev ys) i0 j0" "runs_over a b i0 j0 y i1 j1"
        by (auto simp: script_append)
      show ?thesis
      proof (cases "op_k y = op_k x")
        case True
        have "script a b i j (rev (y\<lparr>op_n := op_n y + op_n x\<rparr> # ys)) i3 j3"
          using y runs_over_join [OF y(2) x True] by (auto simp: script_append)
        with "2.IH"(3) [OF n Cons True] xs n Cons True show ?thesis by simp
      next
        case False
        have "script a b i j (rev (x # y # ys)) i3 j3" using y x by (auto simp: script_append)
        with "2.IH"(4) [OF n Cons False] xs n Cons False show ?thesis by simp
      qed
    qed
  qed
qed simp

lemma script_mergeOps: "script a b 0 0 ops i j \<Longrightarrow> script a b 0 0 (mergeOps ops) i j"
  unfolding mergeOps_def using script_merge_rev [of a b 0 0 "[]" 0 0 ops i j] by simp

lemma piece_all: "piece a 0 a"
  by (simp add: piece_def)

lemma diffOps_script:
  assumes "diffOps a b = Some ops"
  shows "script a b 0 0 ops (length a) (length b)"
proof -
  obtain l where l: "diffRange (length a + length b + 1) a b 0 0 = Some l" and ops: "ops = mergeOps l"
    using assms by (auto simp: diffOps_def simp del: diffRange.simps)
  have "diffRange (length a + length b + 1) a b (int 0) (int 0) = Some l" using l by (simp del: diffRange.simps)
  from findsD [OF finds_diffRange piece_all piece_all this] show ?thesis
    using script_mergeOps ops by simp
qed

end
