(* ===== verification/Diff_Hunks.thy ===== *)
theory Diff_Hunks
  imports Diff_Script
begin

text \<open>
  The hunks of \<^verbatim>\<open>pkg/changes/diff.go\<close>: \<open>hunksOf\<close> cuts an edit script into unified hunks, and a patch
  that checks every field of every hunk puts the new text back together from the old one.
\<close>

section \<open>Cutting hunks\<close>

record hunk =
  hk_OldStart :: int
  hk_OldLines :: int
  hk_NewStart :: int
  hk_NewLines :: int
  hk_Lines :: "string list"

definition Context :: nat where "Context = 3"
definition MaxDiffLines :: nat where "MaxDiffLines = 200000"

type_synonym diff_line = "opKind \<times> int \<times> int"

definition expand_op :: "edit_op \<Rightarrow> diff_line list" where
  "expand_op x = map (\<lambda>i. case op_k x of
       opEqual \<Rightarrow> (opEqual, op_ai x + int i, op_bi x + int i)
     | opDelete \<Rightarrow> (opDelete, op_ai x + int i, op_bi x)
     | opInsert \<Rightarrow> (opInsert, op_ai x, op_bi x + int i)) [0..<nat (op_n x)]"

definition expand :: "edit_op list \<Rightarrow> diff_line list" where
  "expand ops = concat (map expand_op ops)"

definition count_kind :: "opKind \<Rightarrow> diff_line list \<Rightarrow> int" where
  "count_kind k ls = int (length (filter (\<lambda>l. fst l = k) ls))"

text \<open>The lines a hunk shows: \<open>show[j] = true\<close> from \<open>lo\<close> to \<open>hi\<close>, around each line that changed.\<close>

definition mark :: "nat \<Rightarrow> nat \<Rightarrow> bool list \<Rightarrow> bool list" where
  "mark lo hi sh = foldl (\<lambda>sh j. sh[j := True]) sh [lo..<Suc hi]"

definition show_lines :: "nat \<Rightarrow> diff_line list \<Rightarrow> bool list" where
  "show_lines ctx ls = foldl (\<lambda>sh i. if fst (ls ! i) = opEqual then sh
       else mark (i - ctx) (min (length ls - 1) (i + ctx)) sh)
     (replicate (length ls) False) [0..<length ls]"

text \<open>The stretches of lines that are shown.\<close>

function stretches :: "(bool \<times> 'l) list \<Rightarrow> 'l list list" where
  "stretches [] = []"
| "stretches ((sh, l) # xs) =
    (if \<not> sh then stretches xs
     else (l # map snd (takeWhile fst xs)) # stretches (dropWhile fst xs))"
  by pat_completeness auto
termination
  by (relation "measure length") (auto simp: length_dropWhile_le le_imp_less_Suc)

declare stretches.simps(2) [simp del]

text \<open>The loop over the lines of a hunk: the hunk, the added lines held back, and whether it is at the first
  line. An index out of range panics.\<close>

definition flush :: "hunk \<Rightarrow> string list \<Rightarrow> hunk" where
  "flush h pendingAdds = h\<lparr>hk_Lines := hk_Lines h @ pendingAdds\<rparr>"

definition hunk_line :: "string list \<Rightarrow> string list \<Rightarrow> diff_line \<Rightarrow> hunk \<times> string list \<times> bool \<Rightarrow> (hunk \<times> string list \<times> bool) option" where
  "hunk_line a b l st =
    (let (k, ai, bi) = l; (h0, adds, first) = st;
         h = (if first then h0\<lparr>hk_OldStart := ai + 1, hk_NewStart := bi + 1\<rparr> else h0)
     in case k of
       opEqual \<Rightarrow> map_option (\<lambda>t. let h1 = flush h adds in
           (h1\<lparr>hk_Lines := hk_Lines h1 @ [CHR '' '' # t], hk_OldLines := hk_OldLines h1 + 1,
              hk_NewLines := hk_NewLines h1 + 1\<rparr>, [], False)) (at a ai)
     | opDelete \<Rightarrow> map_option (\<lambda>t.
           (h\<lparr>hk_Lines := hk_Lines h @ [CHR ''-'' # t], hk_OldLines := hk_OldLines h + 1\<rparr>, adds, False)) (at a ai)
     | opInsert \<Rightarrow> map_option (\<lambda>t.
           (h\<lparr>hk_NewLines := hk_NewLines h + 1\<rparr>, adds @ [CHR ''+'' # t], False)) (at b bi))"

fun hunk_lines :: "string list \<Rightarrow> string list \<Rightarrow> diff_line list \<Rightarrow> hunk \<times> string list \<times> bool \<Rightarrow> (hunk \<times> string list \<times> bool) option" where
  "hunk_lines a b [] st = Some st"
| "hunk_lines a b (l # ls) st = Option.bind (hunk_line a b l st) (hunk_lines a b ls)"

definition no_hunk :: hunk where
  "no_hunk = \<lparr>hk_OldStart = 0, hk_OldLines = 0, hk_NewStart = 0, hk_NewLines = 0, hk_Lines = []\<rparr>"

definition hunk_of :: "string list \<Rightarrow> string list \<Rightarrow> diff_line list \<Rightarrow> hunk option" where
  "hunk_of a b ls =
    map_option (\<lambda>(h0, adds, _).
      let h = flush h0 adds;
          h' = (if hk_OldLines h = 0 then h\<lparr>hk_OldStart := hk_OldStart h - 1\<rparr> else h)
      in if hk_NewLines h' = 0 then h'\<lparr>hk_NewStart := hk_NewStart h' - 1\<rparr> else h')
    (hunk_lines a b ls (no_hunk, [], True))"

fun map_all :: "('l \<Rightarrow> 'h option) \<Rightarrow> 'l list \<Rightarrow> 'h list option" where
  "map_all f [] = Some []"
| "map_all f (x # xs) = Option.bind (f x) (\<lambda>y. map_option (\<lambda>ys. y # ys) (map_all f xs))"

definition hunksOf :: "string list \<Rightarrow> string list \<Rightarrow> edit_op list \<Rightarrow> nat \<Rightarrow> (hunk list \<times> int \<times> int) option" where
  "hunksOf a b ops ctx =
    (let ls = expand ops in
     map_option (\<lambda>hs. (hs, count_kind opInsert ls, count_kind opDelete ls))
       (map_all (hunk_of a b) (stretches (zip (show_lines ctx ls) ls))))"

definition Diff :: "line_text \<Rightarrow> line_text \<Rightarrow> (hunk list \<times> int \<times> int \<times> bool) option" where
  "Diff before after =
    (let a = Lines before; b = Lines after in
     if length a > MaxDiffLines \<or> length b > MaxDiffLines then Some ([], 0, 0, False)
     else Option.bind (diffOps a b) (\<lambda>ops.
       map_option (\<lambda>(hs, additions, deletions). (hs, additions, deletions, True)) (hunksOf a b ops Context)))"

section \<open>A patch\<close>

text \<open>The lines of a hunk applied from a position: the lines they give and the position after them. A
  line that is kept or removed must be the one in the old text.\<close>

fun apply_lines :: "string list \<Rightarrow> nat \<Rightarrow> string list \<Rightarrow> (string list \<times> nat) option" where
  "apply_lines a p [] = Some ([], p)"
| "apply_lines a p ([] # ls) = None"
| "apply_lines a p ((c # t) # ls) =
    (if c = CHR '' '' then
       (if p < length a \<and> a ! p = t then map_option (\<lambda>(out, q). (t # out, q)) (apply_lines a (Suc p) ls) else None)
     else if c = CHR ''-'' then
       (if p < length a \<and> a ! p = t then apply_lines a (Suc p) ls else None)
     else if c = CHR ''+'' then map_option (\<lambda>(out, q). (t # out, q)) (apply_lines a p ls)
     else None)"

text \<open>The hunks applied, from position \<open>p\<close> of the old text and \<open>n\<close> of the new one. Each must start past the
  one before, and its starts and counts must be those of its lines.\<close>

fun apply_hunks :: "string list \<Rightarrow> nat \<Rightarrow> nat \<Rightarrow> hunk list \<Rightarrow> string list option" where
  "apply_hunks a p n [] = Some (drop p a)"
| "apply_hunks a p n (h # hs) =
    (let start = (if hk_OldLines h = 0 then hk_OldStart h else hk_OldStart h - 1); k = nat start - p in
     if start < int p \<or> start > int (length a) then None
     else Option.bind (apply_lines a (nat start) (hk_Lines h)) (\<lambda>(out, q).
       if hk_OldLines h \<noteq> int q - start \<or> hk_NewLines h \<noteq> int (length out) \<or>
          hk_NewStart h \<noteq> int (n + k) + (if out = [] then 0 else 1) then None
       else map_option (\<lambda>rest. take k (drop p a) @ out @ rest) (apply_hunks a q (n + k + length out) hs)))"

section \<open>Lines that walk both texts\<close>

fun walks :: "'a list \<Rightarrow> 'a list \<Rightarrow> nat \<Rightarrow> nat \<Rightarrow> diff_line list \<Rightarrow> nat \<Rightarrow> nat \<Rightarrow> bool" where
  "walks a b i j [] i' j' \<longleftrightarrow> i' = i \<and> j' = j"
| "walks a b i j ((k, ai, bi) # ls) i' j' \<longleftrightarrow> 0 \<le> ai \<and> ai \<le> int i \<and> 0 \<le> bi \<and> bi \<le> int j \<and>
     (case k of
        opEqual \<Rightarrow> ai = int i \<and> bi = int j \<and> i < length a \<and> j < length b \<and> a ! i = b ! j \<and> walks a b (Suc i) (Suc j) ls i' j'
      | opDelete \<Rightarrow> ai = int i \<and> i < length a \<and> walks a b (Suc i) j ls i' j'
      | opInsert \<Rightarrow> bi = int j \<and> j < length b \<and> walks a b i (Suc j) ls i' j')"

lemma walks_append:
  "walks a b i j (xs @ ys) i' j' \<longleftrightarrow> (\<exists>i1 j1. walks a b i j xs i1 j1 \<and> walks a b i1 j1 ys i' j')"
  by (induction a b i j xs i' j' rule: walks.induct) (auto split: opKind.splits)

lemma walks_mono: "walks a b i j ls i' j' \<Longrightarrow> i \<le> i' \<and> j \<le> j'"
  by (induction a b i j ls i' j' rule: walks.induct) (auto split: opKind.splits)

lemma walks_expand_op:
  assumes "runs_over a b i j x i' j'"
  shows "walks a b i j (expand_op x) i' j'"
proof -
  let ?n = "nat (op_n x)"
  let ?f = "\<lambda>k. case op_k x of opEqual \<Rightarrow> (opEqual, op_ai x + int k, op_bi x + int k)
     | opDelete \<Rightarrow> (opDelete, op_ai x + int k, op_bi x) | opInsert \<Rightarrow> (opInsert, op_ai x, op_bi x + int k)"
  have eq: "a ! (i + k) = b ! (j + k)" if "op_k x = opEqual" "k < ?n" for k
  proof -
    have "take ?n (drop i a) ! k = take ?n (drop j b) ! k" using assms that by (simp add: runs_over_def)
    then show ?thesis using that assms by (auto simp: runs_over_def)
  qed
  have "m \<le> ?n \<Longrightarrow> walks a b i j (map ?f [0..<m]) (if op_k x = opInsert then i else i + m) (if op_k x = opDelete then j else j + m)" for m
  proof (induction m)
    case (Suc m)
    then show ?case using assms eq [of m]
      by (cases "op_k x") (auto simp: walks_append runs_over_def)
  qed simp
  moreover have "i' = (if op_k x = opInsert then i else i + ?n)" "j' = (if op_k x = opDelete then j else j + ?n)"
    using assms by (cases "op_k x"; auto simp: runs_over_def)+
  ultimately show ?thesis by (simp add: expand_op_def)
qed

lemma walks_expand: "script a b i j ops i' j' \<Longrightarrow> walks a b i j (expand ops) i' j'"
  by (induction ops arbitrary: i j) (auto simp: expand_def walks_append intro: walks_expand_op)

section \<open>What is shown\<close>

lemma foldl_set_True:
  "length (foldl (\<lambda>sh j. sh[j := True]) sh js) = length sh"
  "n < length sh \<Longrightarrow> foldl (\<lambda>sh j. sh[j := True]) sh js ! n \<longleftrightarrow> sh ! n \<or> n \<in> set js"
proof (induction js arbitrary: sh)
  case (Cons j js)
  {
    case 1
    show ?case using Cons(1) by simp
  next
    case 2
    then show ?case using Cons(2) [of "sh[j := True]"] by (cases "n = j") auto
  }
qed simp_all

lemma mark_nth:
  "length (mark lo hi sh) = length sh"
  "n < length sh \<Longrightarrow> mark lo hi sh ! n \<longleftrightarrow> sh ! n \<or> lo \<le> n \<and> n \<le> hi"
  unfolding mark_def by (auto simp: foldl_set_True)

lemma show_lines_fold:
  fixes ls :: "diff_line list" and ctx :: nat
  defines "f \<equiv> \<lambda>sh i. if fst (ls ! i) = opEqual then sh else mark (i - ctx) (min (length ls - 1) (i + ctx)) sh"
  shows "length (foldl f sh js) = length sh"
    and "n < length sh \<Longrightarrow> foldl f sh js ! n \<longleftrightarrow>
      sh ! n \<or> (\<exists>i \<in> set js. fst (ls ! i) \<noteq> opEqual \<and> i - ctx \<le> n \<and> n \<le> min (length ls - 1) (i + ctx))"
  by (induction js arbitrary: sh) (auto simp: f_def mark_nth)

lemma show_lines_nth:
  "length (show_lines ctx ls) = length ls"
  "n < length ls \<Longrightarrow> show_lines ctx ls ! n \<longleftrightarrow>
     (\<exists>i < length ls. fst (ls ! i) \<noteq> opEqual \<and> i - ctx \<le> n \<and> n \<le> i + ctx)"
  unfolding show_lines_def by (auto simp: show_lines_fold)

text \<open>A line that changed is shown, and so is the line before it.\<close>

fun guarded :: "bool \<Rightarrow> (bool \<times> diff_line) list \<Rightarrow> bool" where
  "guarded p [] \<longleftrightarrow> True"
| "guarded p ((sh, l) # xs) \<longleftrightarrow> (fst l \<noteq> opEqual \<longrightarrow> sh \<and> p) \<and> guarded sh xs"

lemma guarded_nth:
  "(\<forall>n < length fl. fst (snd (fl ! n)) \<noteq> opEqual \<longrightarrow> fst (fl ! n) \<and> (if n = 0 then p else fst (fl ! (n - 1)))) \<Longrightarrow> guarded p fl"
proof (induction fl arbitrary: p)
  case (Cons x fl)
  have "guarded (fst x) fl"
  proof (rule Cons.IH, intro allI impI)
    fix n assume "n < length fl" "fst (snd (fl ! n)) \<noteq> opEqual"
    then show "fst (fl ! n) \<and> (if n = 0 then fst x else fst (fl ! (n - 1)))"
      using Cons.prems [rule_format, of "Suc n"] by (cases n) auto
  qed
  then show ?case using Cons.prems [rule_format, of 0] by (cases x) auto
qed simp

lemma guarded_show: "0 < ctx \<Longrightarrow> guarded True (zip (show_lines ctx ls) ls)"
proof (rule guarded_nth, intro allI impI)
  fix n assume c: "0 < ctx" and n: "n < length (zip (show_lines ctx ls) ls)"
    and k: "fst (snd (zip (show_lines ctx ls) ls ! n)) \<noteq> opEqual"
  then have n: "n < length ls" "fst (ls ! n) \<noteq> opEqual" by (auto simp: show_lines_nth)
  then have "show_lines ctx ls ! n" "0 < n \<Longrightarrow> show_lines ctx ls ! (n - 1)"
    using c by (auto simp: show_lines_nth intro!: exI [of _ n])
  then show "fst (zip (show_lines ctx ls) ls ! n) \<and> (if n = 0 then True else fst (zip (show_lines ctx ls) ls ! (n - 1)))"
    using n(1) by (simp add: show_lines_nth)
qed

section \<open>One hunk\<close>

lemma apply_lines_append:
  "apply_lines a p (xs @ ys) = Option.bind (apply_lines a p xs) (\<lambda>(o1, q).
     map_option (\<lambda>(o2, r). (o1 @ o2, r)) (apply_lines a q ys))"
proof (induction a p xs rule: apply_lines.induct)
  case (1 a p)
  then show ?case by (simp add: case_prod_beta option.map_ident)
next
  case (3 a p c t ls)
  then show ?case
    by (auto simp: option.map_comp o_def case_prod_beta map_option_bind bind_map_option Option.bind_eq_Some_conv
        split: option.splits)
qed simp

definition added :: "string list \<Rightarrow> bool" where
  "added ls \<longleftrightarrow> (\<forall>l \<in> set ls. \<exists>t. l = CHR ''+'' # t)"

lemma apply_added: "added ls \<Longrightarrow> apply_lines a p ls = Some (map tl ls, p)"
  by (induction ls) (auto simp: added_def)

lemma apply_keep:
  assumes "apply_lines a p ls = Some (out, i)" "i < length a"
  shows "apply_lines a p (ls @ [CHR '' '' # a ! i]) = Some (out @ [a ! i], Suc i)"
  using assms by (simp add: apply_lines_append)

lemma apply_remove:
  assumes "apply_lines a p (ls @ adds) = Some (out, i)" "added adds" "i < length a"
  shows "apply_lines a p ((ls @ [CHR ''-'' # a ! i]) @ adds) = Some (out, Suc i)"
proof -
  from assms(1,2) obtain o1 where "apply_lines a p ls = Some (o1, i)" "out = o1 @ map tl adds"
    by (auto simp: apply_lines_append apply_added Option.bind_eq_Some_conv)
  then show ?thesis using assms(2,3) by (simp add: apply_lines_append apply_added)
qed

lemma apply_add:
  assumes "apply_lines a p (ls @ adds) = Some (out, i)"
  shows "apply_lines a p (ls @ adds @ [CHR ''+'' # t]) = Some (out @ [t], i)"
  using assms apply_lines_append [of a p "ls @ adds" "[CHR ''+'' # t]"] by simp

lemma take_from: "j < length b \<Longrightarrow> Suc j \<le> j' \<Longrightarrow> b ! j # take (j' - Suc j) (drop (Suc j) b) = take (j' - j) (drop j b)"
  by (simp add: Cons_nth_drop_Suc [symmetric] Suc_diff_Suc [symmetric] take_Cons')

text \<open>The hunk while its lines are taken: what it would give, with the added lines held back, and its counts.\<close>

definition hunk_so_far :: "string list \<Rightarrow> string list \<Rightarrow> nat \<Rightarrow> hunk \<times> string list \<times> bool \<Rightarrow> string list \<Rightarrow> nat \<Rightarrow> bool" where
  "hunk_so_far a b p st out i \<longleftrightarrow> (let (h, adds, first) = st in
     added adds \<and> apply_lines a p (hk_Lines h @ adds) = Some (out, i) \<and>
     hk_OldLines h = int i - int p \<and> hk_NewLines h = int (length out))"

lemma hunk_line_step:
  assumes "hunk_so_far a b p (h, adds, first) out i" "walks a b i j [l] i1 j1"
  shows "\<exists>h1 adds1. hunk_line a b l (h, adds, first) = Some (h1, adds1, False) \<and>
    hunk_so_far a b p (h1, adds1, False) (out @ take (j1 - j) (drop j b)) i1 \<and>
    hk_OldStart h1 = (if first then fst (snd l) + 1 else hk_OldStart h) \<and>
    hk_NewStart h1 = (if first then snd (snd l) + 1 else hk_NewStart h)"
proof -
  obtain k ai bi where l: "l = (k, ai, bi)" by (cases l)
  note so = assms(1) [unfolded hunk_so_far_def, simplified]
  show ?thesis
  proof (cases k)
    case opEqual
    with assms(2) l have w: "ai = int i" "bi = int j" "i < length a" "j < length b" "a ! i = b ! j" "i1 = Suc i" "j1 = Suc j" by auto
    have out: "take (j1 - j) (drop j b) = [a ! i]" using w take_from [of j b "Suc j"] by simp
    show ?thesis using so w out l opEqual apply_keep [of a p "hk_Lines h @ adds" out i]
      by (simp add: hunk_line_def hunk_so_far_def at_def flush_def added_def)
  next
    case opDelete
    with assms(2) l have w: "ai = int i" "i < length a" "i1 = Suc i" "j1 = j" by auto
    show ?thesis using so w l opDelete apply_remove [of a p "hk_Lines h" adds out i]
      by (simp add: hunk_line_def hunk_so_far_def at_def)
  next
    case opInsert
    with assms(2) l have w: "bi = int j" "j < length b" "i1 = i" "j1 = Suc j" by auto
    have out: "take (j1 - j) (drop j b) = [b ! j]" using w take_from [of j b "Suc j"] by simp
    show ?thesis using so w out l opInsert apply_add [of a p "hk_Lines h" adds out i "b ! j"]
      by (simp add: hunk_line_def hunk_so_far_def at_def) (simp add: added_def)
  qed
qed

lemma walks_Cons: "walks a b i j (l # ls) i' j' \<longleftrightarrow> (\<exists>i1 j1. walks a b i j [l] i1 j1 \<and> walks a b i1 j1 ls i' j')"
  using walks_append [of a b i j "[l]" ls i' j'] by simp

lemma hunk_lines_apply:
  assumes "hunk_so_far a b p (h, adds, first) out i" "walks a b i j ls i' j'"
  shows "\<exists>h1 adds1 first1. hunk_lines a b ls (h, adds, first) = Some (h1, adds1, first1) \<and>
    hunk_so_far a b p (h1, adds1, first1) (out @ take (j' - j) (drop j b)) i' \<and>
    hk_OldStart h1 = (if first \<and> ls \<noteq> [] then fst (snd (hd ls)) + 1 else hk_OldStart h) \<and>
    hk_NewStart h1 = (if first \<and> ls \<noteq> [] then snd (snd (hd ls)) + 1 else hk_NewStart h)"
  using assms
proof (induction ls arbitrary: h adds first out i j)
  case (Cons l ls)
  from Cons.prems(2) obtain i1 j1 where w: "walks a b i j [l] i1 j1" "walks a b i1 j1 ls i' j'"
    using walks_Cons [of a b i j l ls i' j'] by blast
  from hunk_line_step [OF Cons.prems(1) w(1)] obtain h1 adds1 where s: "hunk_line a b l (h, adds, first) = Some (h1, adds1, False)"
    "hunk_so_far a b p (h1, adds1, False) (out @ take (j1 - j) (drop j b)) i1"
    "hk_OldStart h1 = (if first then fst (snd l) + 1 else hk_OldStart h)"
    "hk_NewStart h1 = (if first then snd (snd l) + 1 else hk_NewStart h)" by blast
  have "j \<le> j1" "j1 \<le> j'" using walks_mono w by blast+
  then have "take (j1 - j) (drop j b) @ take (j' - j1) (drop j1 b) = take (j' - j) (drop j b)"
    using take_add [of "j1 - j" "j' - j1" "drop j b"] by simp
  with Cons.IH [OF s(2) w(2)] s show ?case by (auto simp: append_assoc)
qed simp

lemma hunk_of_apply:
  assumes "walks a b i j ls i' j'" "ls \<noteq> []" "snd (hd ls) = (int i, int j)"
  shows "\<exists>h. hunk_of a b ls = Some h \<and> apply_lines a i (hk_Lines h) = Some (take (j' - j) (drop j b), i') \<and>
    hk_OldLines h = int i' - int i \<and> hk_NewLines h = int (length (take (j' - j) (drop j b))) \<and>
    (if hk_OldLines h = 0 then hk_OldStart h = int i else hk_OldStart h = int i + 1) \<and>
    (if hk_NewLines h = 0 then hk_NewStart h = int j else hk_NewStart h = int j + 1)"
proof -
  have "hunk_so_far a b i (no_hunk, [], True) [] i" by (simp add: hunk_so_far_def no_hunk_def added_def)
  from hunk_lines_apply [OF this assms(1)] assms(2,3) obtain h1 adds1 first1
    where "hunk_lines a b ls (no_hunk, [], True) = Some (h1, adds1, first1)"
      "hunk_so_far a b i (h1, adds1, first1) (take (j' - j) (drop j b)) i'" "hk_OldStart h1 = int i + 1" "hk_NewStart h1 = int j + 1"
    by auto
  then show ?thesis by (auto simp: hunk_of_def hunk_so_far_def flush_def Let_def)
qed

section \<open>All hunks\<close>

lemma guarded_append: "guarded p (xs @ ys) \<Longrightarrow> \<exists>p'. guarded p' ys"
  by (induction xs arbitrary: p) auto

lemma stretches_apply:
  assumes "walks a b i j (map snd fl) (length a) (length b)" "guarded p fl"
    and "p \<Longrightarrow> fl \<noteq> [] \<Longrightarrow> fst (hd fl) \<Longrightarrow> snd (snd (hd fl)) = (int i, int j)" "q \<le> i" "n + (i - q) = j"
  shows "\<exists>hs. map_all (hunk_of a b) (stretches fl) = Some hs \<and>
    apply_hunks a q n hs = Some (take (i - q) (drop q a) @ drop j b)"
  using assms
proof (induction fl arbitrary: i j p q n rule: stretches.induct)
  case 1
  then show ?case by simp
next
  case (2 sh l xs)
  obtain k ai bi where l: "l = (k, ai, bi)" by (cases l)
  show ?case
  proof (cases sh)
    case False
    with "2.prems"(2) l have k: "k = opEqual" by auto
    with "2.prems"(1) l have w: "i < length a" "j < length b" "a ! i = b ! j" "walks a b (Suc i) (Suc j) (map snd xs) (length a) (length b)"
      by auto
    have g: "guarded False xs" using "2.prems"(2) False by simp
    have "\<exists>hs. map_all (hunk_of a b) (stretches xs) = Some hs \<and>
        apply_hunks a q n hs = Some (take (Suc i - q) (drop q a) @ drop (Suc j) b)"
      using "2.prems"(4,5) by (intro "2.IH"(1) [OF _ w(4) g]) (simp_all add: False)
    moreover have "take (Suc i - q) (drop q a) @ drop (Suc j) b = take (i - q) (drop q a) @ drop j b"
      using w "2.prems"(4) by (simp add: Suc_diff_le take_Suc_conv_app_nth Cons_nth_drop_Suc)
    ultimately show ?thesis using False by (simp add: stretches.simps(2))
  next
    case True
    define seg where "seg = l # map snd (takeWhile fst xs)"
    define rest where "rest = dropWhile fst xs"
    have all: "map snd ((sh, l) # xs) = seg @ map snd rest"
      by (simp add: seg_def rest_def flip: map_append)
    obtain i1 j1 where w: "walks a b i j seg i1 j1" "walks a b i1 j1 (map snd rest) (length a) (length b)"
      using "2.prems"(1) unfolding all walks_append by blast
    have le: "i \<le> i1" "j \<le> j1" "i1 \<le> length a" "j1 \<le> length b" using walks_mono w by blast+
    have exact: "snd (hd seg) = (int i, int j)"
    proof (cases "k = opEqual")
      case True
      then show ?thesis using "2.prems"(1) l by (simp add: seg_def)
    next
      case False
      then show ?thesis using "2.prems"(2,3) l True by (simp add: seg_def)
    qed
    have seg_ne: "seg \<noteq> []" by (simp add: seg_def)
    from hunk_of_apply [OF w(1) seg_ne exact] obtain h where h: "hunk_of a b seg = Some h"
      "apply_lines a i (hk_Lines h) = Some (take (j1 - j) (drop j b), i1)"
      "hk_OldLines h = int i1 - int i" "hk_NewLines h = int (length (take (j1 - j) (drop j b)))"
      "if hk_OldLines h = 0 then hk_OldStart h = int i else hk_OldStart h = int i + 1"
      "if hk_NewLines h = 0 then hk_NewStart h = int j else hk_NewStart h = int j + 1" by blast
    obtain p' where p': "guarded p' rest"
      using "2.prems"(2) guarded_append [of sh "takeWhile fst xs" rest] by (auto simp: rest_def)
    have "\<exists>hs. map_all (hunk_of a b) (stretches rest) = Some hs \<and>
        apply_hunks a i1 j1 hs = Some (take (i1 - i1) (drop i1 a) @ drop j1 b)"
    proof (unfold rest_def, rule "2.IH"(2))
      show "p' \<Longrightarrow> dropWhile fst xs \<noteq> [] \<Longrightarrow> fst (hd (dropWhile fst xs)) \<Longrightarrow> snd (snd (hd (dropWhile fst xs))) = (int i1, int j1)"
        using hd_dropWhile [of fst xs] by blast
    qed (use True w p' in \<open>simp_all add: rest_def\<close>)
    then obtain hs where hs: "map_all (hunk_of a b) (stretches rest) = Some hs" "apply_hunks a i1 j1 hs = Some (drop j1 b)" by auto
    have start: "(if hk_OldLines h = 0 then hk_OldStart h else hk_OldStart h - 1) = int i" using h(5) by auto
    have len: "length (take (j1 - j) (drop j b)) = j1 - j" using le by simp
    have newstart: "hk_NewStart h = int (n + (i - q)) + (if take (j1 - j) (drop j b) = [] then 0 else 1)"
      using h(4,6) "2.prems"(5) by (auto simp: len split: if_splits)
    have pos: "n + (i - q) + (j1 - j) = j1" using "2.prems"(5) le by simp
    have join: "take (j1 - j) (drop j b) @ drop j1 b = drop j b"
      using le append_take_drop_id [of "j1 - j" "drop j b"] by simp
    have "apply_hunks a q n (h # hs) = Some (take (i - q) (drop q a) @ take (j1 - j) (drop j b) @ drop j1 b)"
      using h(2-4) hs(2) start newstart "2.prems"(4) le len pos by (simp add: Let_def)
    then show ?thesis using h(1) hs(1) True join
      by (simp add: stretches.simps(2) seg_def [symmetric] rest_def [symmetric])
  qed
qed

lemma hunksOf_apply:
  assumes "script a b 0 0 ops (length a) (length b)" "0 < ctx"
  shows "\<exists>hs. hunksOf a b ops ctx = Some (hs, count_kind opInsert (expand ops), count_kind opDelete (expand ops)) \<and>
    apply_hunks a 0 0 hs = Some b"
proof -
  define ls where "ls = expand ops"
  have w: "walks a b 0 0 ls (length a) (length b)" unfolding ls_def by (rule walks_expand [OF assms(1)])
  let ?fl = "zip (show_lines ctx ls) ls"
  have fl: "map snd ?fl = ls" by (simp add: show_lines_nth)
  have first: "snd (snd (hd ?fl)) = (int 0, int 0)" if "?fl \<noteq> []"
  proof -
    have "snd (hd ?fl) = hd ls" "ls \<noteq> []" using that fl by (metis hd_map map_is_Nil_conv)+
    then show ?thesis using w by (cases ls) auto
  qed
  have "\<exists>hs. map_all (hunk_of a b) (stretches ?fl) = Some hs \<and> apply_hunks a 0 0 hs = Some (take (0 - 0) (drop 0 a) @ drop 0 b)"
    by (rule stretches_apply [OF _ guarded_show [OF assms(2)]]) (use w fl first in simp_all)
  then show ?thesis by (auto simp: hunksOf_def Let_def ls_def)
qed

end
