(* ===== verification/Flow_Ids.thy ===== *)
theory Flow_Ids
  imports Prelude "HOL-Library.Multiset"
begin

text \<open>
  Entity ids and the input digest chain of \<^verbatim>\<open>pkg/sessionflow/id.go\<close>. A
  \<open>strings.Replacer\<close> of single bytes is a code from characters to strings applied byte by
  byte; the locale \<open>byte_code\<close> is what makes such a writing readable back, and both
  replacers of the file are instances. \<open>sha256\<close> in hexadecimal is a parameter, a function on
  byte strings.
\<close>

section \<open>Decimal numbers\<close>

text \<open>\<open>strconv.FormatUint\<close> and \<open>strconv.Itoa\<close> in base ten.\<close>

definition digit_char :: "nat \<Rightarrow> char" where
  "digit_char d = char_of (48 + d)"

fun FormatUint :: "nat \<Rightarrow> string" where
  "FormatUint n = (if n < 10 then [digit_char n] else FormatUint (n div 10) @ [digit_char (n mod 10)])"

declare FormatUint.simps [simp del]

definition Itoa :: "int \<Rightarrow> string" where
  "Itoa i = (if i < 0 then CHR ''-'' # FormatUint (nat (- i)) else FormatUint (nat i))"

lemma digit_char_of: "d < 10 \<Longrightarrow> of_char (digit_char d) = 48 + d"
  by (simp add: digit_char_def)

lemma digit_char_inj: "a < 10 \<Longrightarrow> b < 10 \<Longrightarrow> digit_char a = digit_char b \<Longrightarrow> a = b"
  by (metis add_left_cancel digit_char_of)

lemma FormatUint_nonempty [simp]: "FormatUint n \<noteq> []"
  by (subst FormatUint.simps) simp

lemma FormatUint_digits: "c \<in> set (FormatUint n) \<Longrightarrow> (\<exists>d < 10. c = digit_char d)"
proof (induction n rule: FormatUint.induct)
  case (1 n)
  then show ?case
    by (cases "n < 10") (auto simp: FormatUint.simps [of n] intro: exI [of _ "n mod 10"])
qed

lemma FormatUint_inj: "FormatUint m = FormatUint n \<Longrightarrow> m = n"
proof (induction m arbitrary: n rule: FormatUint.induct)
  case (1 m)
  show ?case
  proof (cases "m < 10 \<or> n < 10")
    case True
    with "1.prems" show ?thesis
      by (auto simp: FormatUint.simps [of m] FormatUint.simps [of n] append_eq_Cons_conv
          Cons_eq_append_conv dest: digit_char_inj split: if_splits)
  next
    case False
    with "1.prems" have "FormatUint (m div 10) = FormatUint (n div 10)"
      and "digit_char (m mod 10) = digit_char (n mod 10)"
      by (simp_all add: FormatUint.simps [of m] FormatUint.simps [of n])
    with "1.IH" False have "m div 10 = n div 10" "m mod 10 = n mod 10"
      using digit_char_inj by auto
    then show ?thesis by (metis div_mult_mod_eq)
  qed
qed

lemma digit_char_not: "d < 10 \<Longrightarrow> digit_char d \<noteq> CHR ''-''" "d < 10 \<Longrightarrow> digit_char d \<noteq> CHR ''/''"
  "d < 10 \<Longrightarrow> digit_char d \<noteq> CHR '':''" "d < 10 \<Longrightarrow> digit_char d \<noteq> CHR ''%''"
  using digit_char_of [of d] by auto

lemma FormatUint_not_in [simp]:
  "CHR ''-'' \<notin> set (FormatUint n)" "CHR ''/'' \<notin> set (FormatUint n)" "CHR '':'' \<notin> set (FormatUint n)"
  "CHR ''%'' \<notin> set (FormatUint n)"
  by (metis FormatUint_digits digit_char_not(1), metis FormatUint_digits digit_char_not(2),
      metis FormatUint_digits digit_char_not(3), metis FormatUint_digits digit_char_not(4))

lemma Itoa_inj: "Itoa i = Itoa j \<Longrightarrow> i = j"
proof -
  assume eq: "Itoa i = Itoa j"
  have neg: "CHR ''-'' # x \<noteq> FormatUint n" for x n
    by (metis FormatUint_not_in(1) list.set_intros(1))
  show ?thesis
    using eq neg neg [symmetric] FormatUint_inj
    by (auto simp: Itoa_def split: if_splits) fastforce+
qed

section \<open>Escaping\<close>

definition part_code :: "char \<Rightarrow> string" where
  "part_code c = (if c = CHR ''%'' then ''%25'' else if c = CHR ''/'' then ''%2F'' else [c])"

definition nest_code :: "char \<Rightarrow> string" where
  "nest_code c =
     (if c = CHR ''%'' then ''%25'' else if c = CHR ''_'' then ''%5F''
      else if c = CHR ''/'' then ''_'' else [c])"

definition escape :: "string \<Rightarrow> string" where
  "escape part = concat (map part_code part)"

definition nest :: "string \<Rightarrow> string" where
  "nest ident = concat (map nest_code ident)"

text \<open>A code whose words are not empty, and of which no word is a prefix of another one.\<close>

locale byte_code =
  fixes code :: "char \<Rightarrow> string"
  assumes code_nonempty: "code c \<noteq> []"
    and code_prefix: "code a @ x = code b @ y \<Longrightarrow> a = b"
begin

lemma write_inj: "concat (map code s) = concat (map code t) \<Longrightarrow> s = t"
proof (induction s arbitrary: t)
  case Nil
  then show ?case using code_nonempty by (cases t) auto
next
  case (Cons a s)
  then obtain b t' where t: "t = b # t'"
    using code_nonempty by (cases t) auto
  with Cons.prems have "code a @ concat (map code s) = code b @ concat (map code t')" by simp
  then have "a = b" by (rule code_prefix)
  with Cons t show ?case by simp
qed

lemma write_Nil_iff: "concat (map code s) = [] \<longleftrightarrow> s = []"
  using code_nonempty by (cases s) auto

end

interpretation part: byte_code part_code
  by unfold_locales (auto simp: part_code_def split: if_splits)

interpretation nested: byte_code nest_code
  by unfold_locales (auto simp: nest_code_def split: if_splits)

lemma escape_no_slash [simp]: "CHR ''/'' \<notin> set (escape s)"
  by (auto simp: escape_def part_code_def split: if_splits)

lemma nest_no_slash [simp]: "CHR ''/'' \<notin> set (nest s)"
  by (auto simp: nest_def nest_code_def split: if_splits)

lemma escape_inj [simp]: "escape s = escape t \<longleftrightarrow> s = t"
  using part.write_inj by (auto simp: escape_def)

lemma nest_inj [simp]: "nest s = nest t \<longleftrightarrow> s = t"
  using nested.write_inj by (auto simp: nest_def)

lemma escape_Nil_iff [simp]: "escape s = [] \<longleftrightarrow> s = []" "nest s = [] \<longleftrightarrow> s = []"
  using part.write_Nil_iff nested.write_Nil_iff by (simp_all add: escape_def nest_def)

lemma escape_plain: "CHR ''%'' \<notin> set s \<Longrightarrow> CHR ''/'' \<notin> set s \<Longrightarrow> escape s = s"
  by (induction s) (auto simp: escape_def part_code_def)

section \<open>Ids\<close>

text \<open>\<open>strings.Join\<close>.\<close>

fun Join :: "string list \<Rightarrow> string \<Rightarrow> string" where
  "Join [] sep = []"
| "Join [p] sep = p"
| "Join (p # ps) sep = p @ sep @ Join ps sep"

definition joinWritten :: "string list \<Rightarrow> string" where
  "joinWritten parts = Join (filter (\<lambda>p. p \<noteq> []) parts) ''/''"

definition join_ids :: "string list \<Rightarrow> string" where
  "join_ids parts = joinWritten (map escape parts)"

record ref =
  r_Seq :: u64
  r_Row :: u64
  r_Block :: "int option"

definition NodeID :: "string \<Rightarrow> string list \<Rightarrow> string" where
  "NodeID kind parts = join_ids (kind # parts)"

definition NodeIDIn :: "string \<Rightarrow> string \<Rightarrow> string list \<Rightarrow> string" where
  "NodeIDIn kind outer parts = joinWritten ([escape kind, nest outer] @ map escape parts)"

definition LocatedID :: "string \<Rightarrow> ref \<Rightarrow> string list \<Rightarrow> string" where
  "LocatedID kind r parts =
     (let all = [kind] @ parts @ [FormatUint (unat (r_Seq r)), FormatUint (unat (r_Row r))];
          s = join_ids all
      in case r_Block r of None \<Rightarrow> s | Some b \<Rightarrow> s @ '':'' @ Itoa b)"

definition RelationID :: "string \<Rightarrow> string \<Rightarrow> string \<Rightarrow> string" where
  "RelationID typ src dst = joinWritten [escape ''rel'', escape typ, nest src, nest dst]"

definition UnresolvedID :: "string \<Rightarrow> string \<Rightarrow> string" where
  "UnresolvedID kind missing = join_ids [''unres'', kind, missing]"

definition RefID :: "string \<Rightarrow> ref \<Rightarrow> string" where
  "RefID kind r = LocatedID kind r []"

text \<open>The chain of input digests; \<open>H\<close> is SHA-256 written in hexadecimal.\<close>

definition digest_input :: "string \<Rightarrow> string list \<Rightarrow> string" where
  "digest_input previous added = previous @ concat (map (\<lambda>a. CHR 0x00 # a) (sort added))"

definition ChainInputDigest :: "(string \<Rightarrow> string) \<Rightarrow> string \<Rightarrow> string list \<Rightarrow> string" where
  "ChainInputDigest H previous added = H (digest_input previous added)"

section \<open>Reading an id back\<close>

lemma split_at_first:
  "c \<notin> set p \<Longrightarrow> c \<notin> set q \<Longrightarrow> p @ c # x = q @ c # y \<longleftrightarrow> p = q \<and> x = y"
proof (induction p arbitrary: q)
  case Nil
  then show ?case by (cases q) auto
next
  case (Cons a p)
  then show ?case by (cases q) auto
qed

text \<open>Parts an id is written of: not empty, and without the separator.\<close>

definition id_word :: "string \<Rightarrow> bool" where
  "id_word w \<longleftrightarrow> w \<noteq> [] \<and> CHR ''/'' \<notin> set w"

lemma Join_Cons: "ps \<noteq> [] \<Longrightarrow> Join (p # ps) sep = p @ sep @ Join ps sep"
  by (cases ps) simp_all

lemma Join_Nil_iff: "list_all id_word ps \<Longrightarrow> Join ps ''/'' = [] \<longleftrightarrow> ps = []"
  by (cases ps rule: list.exhaust, simp, case_tac x22) (simp_all add: id_word_def)

lemma Join_inj:
  "list_all id_word ps \<Longrightarrow> list_all id_word qs \<Longrightarrow> Join ps ''/'' = Join qs ''/'' \<Longrightarrow> ps = qs"
proof (induction ps arbitrary: qs)
  case Nil
  then show ?case using Join_Nil_iff [of qs] by simp
next
  case (Cons p ps)
  then obtain q qs' where qs: "qs = q # qs'"
    using Join_Nil_iff [of "p # ps"] by (cases qs) auto
  have words: "id_word p" "id_word q" using Cons.prems qs by simp_all
  show ?case
  proof (cases "ps = [] \<or> qs' = []")
    case True
    have "p @ CHR ''/'' # x \<noteq> q" "q @ CHR ''/'' # x \<noteq> p" for x
      using words by (auto simp: id_word_def)
    with True Cons.prems(3) qs show ?thesis
      by (cases "ps = []"; cases "qs' = []") (auto simp: Join_Cons)
  next
    case False
    with Cons.prems(3) qs have "p = q \<and> Join ps ''/'' = Join qs' ''/''"
      using words by (simp add: Join_Cons split_at_first id_word_def)
    with Cons qs show ?thesis by simp
  qed
qed

lemma Join_snoc_append: "Join (xs @ [a]) sep @ t = Join (xs @ [a @ t]) sep"
proof (induction xs)
  case Nil
  then show ?case by simp
next
  case (Cons x xs)
  then show ?case by (simp add: Join_Cons)
qed

lemma joinWritten_inj:
  "list_all (\<lambda>w. CHR ''/'' \<notin> set w) ps \<Longrightarrow> list_all (\<lambda>w. CHR ''/'' \<notin> set w) qs \<Longrightarrow>
     joinWritten ps = joinWritten qs \<longleftrightarrow> filter (\<lambda>p. p \<noteq> []) ps = filter (\<lambda>p. p \<noteq> []) qs"
  using Join_inj [of "filter (\<lambda>p. p \<noteq> []) ps" "filter (\<lambda>p. p \<noteq> []) qs"]
  by (auto simp: joinWritten_def list_all_iff id_word_def)

lemma filter_map_escape:
  "filter (\<lambda>p. p \<noteq> []) (map escape ps) = map escape (filter (\<lambda>p. p \<noteq> []) ps)"
  by (induction ps) auto

lemma map_escape_inj [simp]: "map escape ps = map escape qs \<longleftrightarrow> ps = qs"
  by (rule inj_map_eq_map) (simp add: inj_def)

lemma join_ids_inj:
  "join_ids ps = join_ids qs \<longleftrightarrow> filter (\<lambda>p. p \<noteq> []) ps = filter (\<lambda>p. p \<noteq> []) qs"
  unfolding join_ids_def
  by (subst joinWritten_inj) (simp_all add: list_all_iff filter_map_escape)

lemma FormatUint_plain [simp]: "escape (FormatUint n) = FormatUint n"
  by (rule escape_plain) simp_all

definition block_suffix :: "int option \<Rightarrow> string" where
  "block_suffix b = (case b of None \<Rightarrow> [] | Some n \<Rightarrow> '':'' @ Itoa n)"

lemma block_suffix_no_slash: "CHR ''/'' \<notin> set (block_suffix b)"
  by (auto simp: block_suffix_def Itoa_def split: option.splits)

lemma row_suffix_inj:
  assumes "FormatUint m @ block_suffix b = FormatUint n @ block_suffix c"
  shows "m = n \<and> b = c"
proof -
  have no: "CHR '':'' \<notin> set (FormatUint k)" for k by simp
  have "FormatUint m \<noteq> FormatUint k @ CHR '':'' # x" "FormatUint k @ CHR '':'' # x \<noteq> FormatUint m" for m k x
    by (metis FormatUint_not_in(3) in_set_conv_decomp)+
  with assms show ?thesis
    by (auto simp: block_suffix_def split_at_first [OF no no] split: option.splits
        dest: FormatUint_inj Itoa_inj)
qed

lemma LocatedID_eq:
  "LocatedID kind r parts =
     Join (map escape (filter (\<lambda>p. p \<noteq> []) (kind # parts)) @ [FormatUint (unat (r_Seq r))] @
       [FormatUint (unat (r_Row r)) @ block_suffix (r_Block r)]) ''/''"
proof -
  let ?ws = "map escape (filter (\<lambda>p. p \<noteq> []) (kind # parts)) @ [FormatUint (unat (r_Seq r))]"
  have "join_ids ([kind] @ parts @ [FormatUint (unat (r_Seq r)), FormatUint (unat (r_Row r))])
      = Join (?ws @ [FormatUint (unat (r_Row r))]) ''/''"
    by (simp add: join_ids_def joinWritten_def filter_map_escape)
  moreover have "LocatedID kind r parts =
      join_ids ([kind] @ parts @ [FormatUint (unat (r_Seq r)), FormatUint (unat (r_Row r))])
        @ block_suffix (r_Block r)"
    by (simp add: LocatedID_def block_suffix_def Let_def split: option.splits)
  ultimately show ?thesis
    using Join_snoc_append [of ?ws "FormatUint (unat (r_Row r))" "''/''" "block_suffix (r_Block r)"]
    by simp
qed

section \<open>Properties\<close>

text \<open>Two different lists of parts never give one node id, but for parts that are empty: an id
  says every nonempty part back, whatever bytes it holds.\<close>

theorem NodeID_inj:
  "NodeID kind parts = NodeID kind' parts' \<longleftrightarrow>
     filter (\<lambda>p. p \<noteq> []) (kind # parts) = filter (\<lambda>p. p \<noteq> []) (kind' # parts')"
  unfolding NodeID_def by (rule join_ids_inj)

text \<open>A located id names one landed position: equal ids have the same sequence, row and block,
  and the same nonempty parts before them.\<close>

theorem LocatedID_names_position:
  assumes "LocatedID kind r parts = LocatedID kind' r' parts'"
  shows "r_Seq r = r_Seq r' \<and> r_Row r = r_Row r' \<and> r_Block r = r_Block r' \<and>
    filter (\<lambda>p. p \<noteq> []) (kind # parts) = filter (\<lambda>p. p \<noteq> []) (kind' # parts')"
proof -
  let ?ws = "\<lambda>kind r parts. map escape (filter (\<lambda>p. p \<noteq> []) (kind # parts)) @ [FormatUint (unat (r_Seq r))] @
       [FormatUint (unat (r_Row r)) @ block_suffix (r_Block r)]"
  have words: "list_all id_word (?ws kind r parts)" for kind r parts
    using block_suffix_no_slash by (auto simp: list_all_iff id_word_def)
  have "?ws kind r parts = ?ws kind' r' parts'"
    using assms words by (intro Join_inj) (simp_all only: LocatedID_eq)
  then have "map escape (filter (\<lambda>p. p \<noteq> []) (kind # parts)) = map escape (filter (\<lambda>p. p \<noteq> []) (kind' # parts'))"
    and "FormatUint (unat (r_Seq r)) = FormatUint (unat (r_Seq r'))"
    and "FormatUint (unat (r_Row r)) @ block_suffix (r_Block r)
      = FormatUint (unat (r_Row r')) @ block_suffix (r_Block r')"
    by (simp_all only: append_assoc [symmetric] append1_eq_conv)
  then show ?thesis
    using FormatUint_inj row_suffix_inj word_unat_eq_iff map_escape_inj by blast
qed

text \<open>A relation's id is keyed by its type and its endpoints alone: relations of one id have the
  same type, source and target, whatever characters those hold.\<close>

theorem RelationID_inj:
  assumes "typ \<noteq> []" "src \<noteq> []" "dst \<noteq> []" "typ' \<noteq> []" "src' \<noteq> []" "dst' \<noteq> []"
  shows "RelationID typ src dst = RelationID typ' src' dst' \<longleftrightarrow> typ = typ' \<and> src = src' \<and> dst = dst'"
  unfolding RelationID_def
  by (subst joinWritten_inj) (use assms in \<open>simp_all add: escape_plain\<close>)

theorem LocatedID_names_position_witness:
  "LocatedID ''call'' \<lparr>r_Seq = 3, r_Row = 12, r_Block = Some 0\<rparr> [''a/b''] = ''call/a%2Fb/3/12:0'' \<and>
   LocatedID ''call'' \<lparr>r_Seq = 3, r_Row = 12, r_Block = Some 0\<rparr> [''a/b''] =
     LocatedID ''call'' \<lparr>r_Seq = 3, r_Row = 12, r_Block = Some 0\<rparr> [''a/b'', []] \<and>
   filter (\<lambda>p. p \<noteq> []) [''call'', ''a/b''] = filter (\<lambda>p. p \<noteq> []) [''call'', ''a/b'', []]"
proof -
  have eq: "LocatedID ''call'' \<lparr>r_Seq = 3, r_Row = 12, r_Block = Some 0\<rparr> [''a/b''] =
     LocatedID ''call'' \<lparr>r_Seq = 3, r_Row = 12, r_Block = Some 0\<rparr> [''a/b'', []]" by code_simp
  have "LocatedID ''call'' \<lparr>r_Seq = 3, r_Row = 12, r_Block = Some 0\<rparr> [''a/b''] = ''call/a%2Fb/3/12:0''"
    by code_simp
  with eq LocatedID_names_position [OF eq] show ?thesis by simp
qed

theorem RelationID_inj_witness:
  "RelationID ''reply'' ''talk/main/a'' ''talk/main_a'' \<noteq> RelationID ''reply'' ''talk/main_a'' ''talk/main/a'' \<and>
   RelationID ''reply'' ''talk/main/a'' ''talk/main_a'' = ''rel/reply/talk_main_a/talk_main%5Fa''"
proof
  show "RelationID ''reply'' ''talk/main/a'' ''talk/main_a'' \<noteq> RelationID ''reply'' ''talk/main_a'' ''talk/main/a''"
    by (subst RelationID_inj) simp_all
  show "RelationID ''reply'' ''talk/main/a'' ''talk/main_a'' = ''rel/reply/talk_main_a/talk_main%5Fa''"
    by code_simp
qed

section \<open>The input digest\<close>

lemma nul_blocks_inj:
  "(\<forall>a \<in> set xs. CHR 0x00 \<notin> set a) \<Longrightarrow> (\<forall>a \<in> set ys. CHR 0x00 \<notin> set a) \<Longrightarrow>
     CHR 0x00 \<notin> set p \<Longrightarrow> CHR 0x00 \<notin> set q \<Longrightarrow>
     p @ concat (map (\<lambda>a. CHR 0x00 # a) xs) = q @ concat (map (\<lambda>a. CHR 0x00 # a) ys) \<longleftrightarrow> p = q \<and> xs = ys"
proof (induction xs arbitrary: ys p q)
  case Nil
  then show ?case by (cases ys) auto
next
  case (Cons a xs)
  show ?case
  proof (cases ys)
    case Nil
    with Cons.prems show ?thesis by auto
  next
    case ys: (Cons b ys')
    with Cons.prems Cons.IH [of ys' a b] show ?thesis
      by (auto simp: split_at_first)
  qed
qed

lemma digest_input_inj:
  assumes "\<forall>a \<in> set (previous # added) \<union> set (previous' # added'). CHR 0x00 \<notin> set a"
  shows "digest_input previous added = digest_input previous' added' \<longleftrightarrow>
    previous = previous' \<and> mset added = mset added'"
proof -
  have "digest_input previous added = digest_input previous' added' \<longleftrightarrow>
      previous = previous' \<and> sort added = sort added'"
    unfolding digest_input_def using assms by (intro nul_blocks_inj) auto
  also have "sort added = sort added' \<longleftrightarrow> mset added = mset added'"
  proof
    assume "sort added = sort added'"
    then have "mset (sort added) = mset (sort added')" by simp
    then show "mset added = mset added'" by simp
  next
    assume "mset added = mset added'"
    then show "sort added = sort added'" by (intro properties_for_sort) simp_all
  qed
  finally show ?thesis .
qed

text \<open>The input digest of a round binds the digest before it and the digests of exactly the
  files it read, and nothing else: for digests without a NUL byte, and a hash that does not collide
  on the two inputs, the chained digests are equal just when the previous digests are equal and the
  same files were read, in whatever order they were found.\<close>

theorem ChainInputDigest_binds:
  assumes "\<forall>a \<in> set (previous # added) \<union> set (previous' # added'). CHR 0x00 \<notin> set a"
    and "inj_on H {digest_input previous added, digest_input previous' added'}"
  shows "ChainInputDigest H previous added = ChainInputDigest H previous' added' \<longleftrightarrow>
    previous = previous' \<and> mset added = mset added'"
proof -
  have "H (digest_input previous added) = H (digest_input previous' added') \<longleftrightarrow>
      digest_input previous added = digest_input previous' added'"
    by (rule inj_on_eq_iff [OF assms(2)]) simp_all
  also have "\<dots> \<longleftrightarrow> previous = previous' \<and> mset added = mset added'"
    by (rule digest_input_inj [OF assms(1)])
  finally show ?thesis unfolding ChainInputDigest_def .
qed

theorem ChainInputDigest_binds_witness:
  "ChainInputDigest rev ''ab'' [''c1'', ''b2''] = ChainInputDigest rev ''ab'' [''b2'', ''c1''] \<and>
   ChainInputDigest rev ''ab'' [''c1'', ''b2''] \<noteq> ChainInputDigest rev ''ab'' [''c1b2'']"
  using ChainInputDigest_binds [of "''ab''" "[''c1'', ''b2'']" "''ab''" "[''b2'', ''c1'']" rev]
    ChainInputDigest_binds [of "''ab''" "[''c1'', ''b2'']" "''ab''" "[''c1b2'']" rev]
  by (simp add: inj_on_def)

end
