(* ===== verification/Go_Json.thy ===== *)
theory Go_Json
  imports Flow_Ids
begin

text \<open>
  What the program uses of Go's \<^verbatim>\<open>encoding/json\<close>: how a string is written
  (\<open>quote\<close>, with the HTML-safe escapes \<open>Marshal\<close> uses) and read back, the grammar of a value, and
  how an object is decoded into a struct, member by member. A value read keeps its own text, which is
  what a \<open>json.RawMessage\<close> holds. The relation \<open>written d t j\<close> says that \<open>t\<close> is a value as \<open>Marshal\<close>
  writes it, of at most \<open>d\<close> levels, and that \<open>j\<close> is what is read of it.
\<close>

section \<open>UTF-8\<close>

abbreviation (input) code :: "char \<Rightarrow> nat" where "code c \<equiv> of_char c"

definition cont_byte :: "char \<Rightarrow> bool" where
  "cont_byte c \<longleftrightarrow> 0x80 \<le> code c \<and> code c \<le> 0xBF"

text \<open>The size of the encoded rune a text begins with, when it begins with a valid one of more
  than one byte (\<open>utf8.DecodeRune\<close>).\<close>

fun utf8_size :: "string \<Rightarrow> nat option" where
  "utf8_size (a # b # rest) =
    (if 0xC2 \<le> code a \<and> code a \<le> 0xDF then (if cont_byte b then Some 2 else None)
     else if 0xE0 \<le> code a \<and> code a \<le> 0xEF then
       (case rest of [] \<Rightarrow> None | c # _ \<Rightarrow>
          if cont_byte b \<and> cont_byte c \<and> (code a = 0xE0 \<longrightarrow> 0xA0 \<le> code b) \<and> (code a = 0xED \<longrightarrow> code b \<le> 0x9F)
          then Some 3 else None)
     else if 0xF0 \<le> code a \<and> code a \<le> 0xF4 then
       (case rest of c # e # _ \<Rightarrow>
          if cont_byte b \<and> cont_byte c \<and> cont_byte e \<and> (code a = 0xF0 \<longrightarrow> 0x90 \<le> code b) \<and> (code a = 0xF4 \<longrightarrow> code b \<le> 0x8F)
          then Some 4 else None
        | _ \<Rightarrow> None)
     else None)"
| "utf8_size _ = None"

definition replacement :: string where
  "replacement = [CHR 0xEF, CHR 0xBF, CHR 0xBD]"

text \<open>\<open>utf8.AppendRune\<close>; a surrogate or a number out of range is written as U+FFFD.\<close>

definition encode_rune :: "nat \<Rightarrow> string" where
  "encode_rune r =
    (if r < 0x80 then [char_of r]
     else if r < 0x800 then [char_of (0xC0 + r div 64), char_of (0x80 + r mod 64)]
     else if (0xD800 \<le> r \<and> r < 0xE000) \<or> 0x110000 \<le> r then replacement
     else if r < 0x10000 then
       [char_of (0xE0 + r div 4096), char_of (0x80 + r div 64 mod 64), char_of (0x80 + r mod 64)]
     else
       [char_of (0xF0 + r div 262144), char_of (0x80 + r div 4096 mod 64),
        char_of (0x80 + r div 64 mod 64), char_of (0x80 + r mod 64)])"

lemma utf8_size_bounds: "utf8_size s = Some n \<Longrightarrow> 2 \<le> n \<and> n \<le> length s"
  by (induction s rule: utf8_size.induct) (auto split: if_splits list.splits)

lemma utf8_size_take: "utf8_size s = Some n \<Longrightarrow> utf8_size (take n s @ x) = Some n"
  by (induction s rule: utf8_size.induct) (auto simp: numeral_eq_Suc split: if_splits list.splits)

lemma utf8_size_head: "utf8_size (a # s) = Some n \<Longrightarrow> 0x80 \<le> code a"
  by (cases s) (auto split: if_splits)

section \<open>Strings\<close>

definition hex_char :: "nat \<Rightarrow> char" where
  "hex_char n = (if n < 10 then char_of (48 + n) else char_of (87 + n))"

definition hex_val :: "char \<Rightarrow> nat option" where
  "hex_val c =
    (let n = code c in
     if 48 \<le> n \<and> n \<le> 57 then Some (n - 48)
     else if 97 \<le> n \<and> n \<le> 102 then Some (n - 87)
     else if 65 \<le> n \<and> n \<le> 70 then Some (n - 55) else None)"

definition u_escape :: "nat \<Rightarrow> string" where
  "u_escape n = [CHR 0x5C, CHR ''u'', hex_char (n div 4096 mod 16), hex_char (n div 256 mod 16),
     hex_char (n div 16 mod 16), hex_char (n mod 16)]"

definition escape_byte :: "char \<Rightarrow> string" where
  "escape_byte c =
    (if c = CHR 0x5C \<or> c = CHR 0x22 then [CHR 0x5C, c]
     else if c = CHR 0x08 then [CHR 0x5C, CHR ''b'']
     else if c = CHR 0x0C then [CHR 0x5C, CHR ''f'']
     else if c = CHR 0x0A then [CHR 0x5C, CHR ''n'']
     else if c = CHR 0x0D then [CHR 0x5C, CHR ''r'']
     else if c = CHR 0x09 then [CHR 0x5C, CHR ''t'']
     else if code c < 0x20 \<or> c = CHR ''<'' \<or> c = CHR ''>'' \<or> c = CHR ''&'' then u_escape (code c)
     else [c])"

text \<open>\<open>appendString\<close>: the bytes between the quotes. A byte that is not UTF-8 is written as U+FFFD.\<close>

function quote_body :: "string \<Rightarrow> string" where
  "quote_body [] = []"
| "quote_body (c # cs) =
    (if code c < 0x80 then escape_byte c @ quote_body cs
     else case utf8_size (c # cs) of
       None \<Rightarrow> u_escape 0xFFFD @ quote_body cs
     | Some n \<Rightarrow>
        (if take n (c # cs) = [CHR 0xE2, CHR 0x80, CHR 0xA8] then u_escape 0x2028
         else if take n (c # cs) = [CHR 0xE2, CHR 0x80, CHR 0xA9] then u_escape 0x2029
         else take n (c # cs)) @ quote_body (drop n (c # cs)))"
  by pat_completeness auto
termination
  by (relation "measure length") (auto dest: utf8_size_bounds)

declare quote_body.simps [simp del]

definition quote :: "string \<Rightarrow> string" where
  "quote s = CHR 0x22 # quote_body s @ [CHR 0x22]"

text \<open>What a reader makes of the string: the same bytes where they are UTF-8.\<close>

function to_valid :: "string \<Rightarrow> string" where
  "to_valid [] = []"
| "to_valid (c # cs) =
    (if code c < 0x80 then c # to_valid cs
     else case utf8_size (c # cs) of
       None \<Rightarrow> replacement @ to_valid cs
     | Some n \<Rightarrow> take n (c # cs) @ to_valid (drop n (c # cs)))"
  by pat_completeness auto
termination
  by (relation "measure length") (auto dest: utf8_size_bounds)

declare to_valid.simps [simp del]

definition utf8 :: "string \<Rightarrow> bool" where
  "utf8 s \<longleftrightarrow> to_valid s = s"

lemma utf8_ascii: "list_all (\<lambda>c. code c < 0x80) s \<Longrightarrow> utf8 s"
  by (induction s) (simp_all add: utf8_def to_valid.simps)

text \<open>The four digits of a \<open>\u\<close> escape.\<close>

fun get_hex4 :: "string \<Rightarrow> (nat \<times> string) option" where
  "get_hex4 (a # b # c # d # rest) =
    (case (hex_val a, hex_val b, hex_val c, hex_val d) of
       (Some w, Some x, Some y, Some z) \<Rightarrow> Some (w * 4096 + x * 256 + y * 16 + z, rest)
     | _ \<Rightarrow> None)"
| "get_hex4 _ = None"

text \<open>The second half of a surrogate pair (\<open>getu4\<close>, \<open>utf16.DecodeRune\<close>).\<close>

fun low_half :: "string \<Rightarrow> (nat \<times> string) option" where
  "low_half (a # b # rest) =
    (if a = CHR 0x5C \<and> b = CHR ''u'' then
       (case get_hex4 rest of
          Some (r, rest') \<Rightarrow> if 0xDC00 \<le> r \<and> r < 0xE000 then Some (r, rest') else None
        | None \<Rightarrow> None)
     else None)"
| "low_half _ = None"

definition plain_escape :: "char \<Rightarrow> char option" where
  "plain_escape e =
    (if e = CHR 0x22 \<or> e = CHR 0x5C \<or> e = CHR ''/'' then Some e
     else if e = CHR ''b'' then Some (CHR 0x08) else if e = CHR ''f'' then Some (CHR 0x0C)
     else if e = CHR ''n'' then Some (CHR 0x0A) else if e = CHR ''r'' then Some (CHR 0x0D)
     else if e = CHR ''t'' then Some (CHR 0x09) else None)"

lemma get_hex4_length: "get_hex4 s = Some (r, t) \<Longrightarrow> length t < length s"
  by (induction s rule: get_hex4.induct) (auto split: option.splits)

lemma low_half_length: "low_half s = Some (r, t) \<Longrightarrow> length t < length s"
  by (induction s rule: low_half.induct) (auto split: option.splits if_splits dest: get_hex4_length)

definition put :: "string \<Rightarrow> (string \<times> string) option \<Rightarrow> (string \<times> string) option" where
  "put w r = map_option (\<lambda>(v, rest). (w @ v, rest)) r"

text \<open>The bytes of a string and the text after its closing quote (\<open>scanner\<close> and \<open>unquote\<close>).\<close>

function str_body :: "string \<Rightarrow> (string \<times> string) option" where
  "str_body [] = None"
| "str_body (c # cs) =
    (if c = CHR 0x22 then Some ([], cs)
     else if c = CHR 0x5C then
       (case cs of [] \<Rightarrow> None
        | e # ds \<Rightarrow>
           if e = CHR ''u'' then
             (case get_hex4 ds of None \<Rightarrow> None
              | Some (r, rest) \<Rightarrow>
                 if 0xD800 \<le> r \<and> r < 0xDC00 then
                   (case low_half rest of
                      Some (r1, rest') \<Rightarrow> put (encode_rune ((r - 0xD800) * 1024 + (r1 - 0xDC00) + 0x10000)) (str_body rest')
                    | None \<Rightarrow> put replacement (str_body rest))
                 else put (encode_rune r) (str_body rest))
           else (case plain_escape e of None \<Rightarrow> None | Some b \<Rightarrow> put [b] (str_body ds)))
     else if code c < 0x20 then None
     else if code c < 0x80 then put [c] (str_body cs)
     else (case utf8_size (c # cs) of
        None \<Rightarrow> put replacement (str_body cs)
      | Some n \<Rightarrow> put (take n (c # cs)) (str_body (drop n (c # cs)))))"
  by pat_completeness auto
termination
  by (relation "measure length") (auto dest!: utf8_size_bounds get_hex4_length low_half_length)

declare str_body.simps [simp del]

lemma hex_val_char: "n < 16 \<Longrightarrow> hex_val (hex_char n) = Some n"
  by (auto simp: hex_val_def hex_char_def Let_def)

lemma get_hex4_u_escape:
  assumes "n < 65536"
  shows "u_escape n @ x = CHR 0x5C # CHR ''u'' # drop 2 (u_escape n) @ x"
    and "get_hex4 (drop 2 (u_escape n) @ x) = Some (n, x)"
proof -
  have "n div 4096 mod 16 * 4096 + n div 256 mod 16 * 256 + n div 16 mod 16 * 16 + n mod 16 = n"
    using assms mod_mult2_eq [of n 16 16] mod_mult2_eq [of n 256 16] mod_mult2_eq [of n 4096 16] by simp
  moreover have "n div 4096 mod 16 = n div 4096" "hex_val (hex_char (n div 4096)) = Some (n div 4096)"
    using assms by (auto intro: hex_val_char)
  ultimately show "get_hex4 (drop 2 (u_escape n) @ x) = Some (n, x)"
    by (simp add: u_escape_def hex_val_char)
qed (simp add: u_escape_def)

lemma str_body_plain:
  "c \<noteq> CHR 0x22 \<Longrightarrow> c \<noteq> CHR 0x5C \<Longrightarrow> \<not> code c < 0x20 \<Longrightarrow> code c < 0x80 \<Longrightarrow>
     str_body (c # x) = put [c] (str_body x)"
  by (simp add: str_body.simps(2))

lemma str_body_escape:
  "plain_escape e = Some b \<Longrightarrow> str_body (CHR 0x5C # e # x) = put [b] (str_body x)"
  by (auto simp: str_body.simps(2) [of "CHR 0x5C"] plain_escape_def)

lemma str_body_u_escape:
  assumes "n < 0xD800 \<or> 0xE000 \<le> n" and "n < 65536"
  shows "str_body (u_escape n @ x) = put (encode_rune n) (str_body x)"
  using assms by (auto simp: get_hex4_u_escape [OF assms(2)] str_body.simps(2) [of "CHR 0x5C"])

lemma str_body_escape_byte:
  assumes "code c < 0x80"
  shows "str_body (escape_byte c @ x) = put [c] (str_body x)"
proof -
  have rune: "encode_rune (code c) = [c]" using assms by (simp add: encode_rune_def)
  show ?thesis
    using assms str_body_plain [of c x] str_body_u_escape [of "code c" x]
    by (auto simp: escape_byte_def rune str_body_escape plain_escape_def)
qed

lemma str_body_rune:
  assumes "utf8_size s = Some n"
  shows "str_body (take n s @ x) = put (take n s) (str_body x)"
proof -
  obtain c cs where s: "take n s = c # cs"
    using utf8_size_bounds [OF assms] by (cases "take n s") (auto simp: take_eq_Nil2)
  have size: "utf8_size (c # cs @ x) = Some n" using utf8_size_take [OF assms, of x] s by simp
  have n: "n = length (c # cs)" using s utf8_size_bounds [OF assms] by (metis length_take min.absorb2)
  have parts: "take n (c # cs @ x) = c # cs" "drop n (c # cs @ x) = x" by (simp_all add: n)
  have "0x80 \<le> code c" using utf8_size_head [OF size] .
  then have "c \<noteq> CHR 0x22" "c \<noteq> CHR 0x5C" "\<not> code c < 0x20" "\<not> code c < 0x80" by auto
  with size parts show ?thesis unfolding s append_Cons str_body.simps(2) by simp
qed

lemma line_separator_runes:
  "encode_rune 0x2028 = [CHR 0xE2, CHR 0x80, CHR 0xA8]" "encode_rune 0x2029 = [CHR 0xE2, CHR 0x80, CHR 0xA9]"
  "encode_rune 0xFFFD = replacement"
  by (simp_all add: encode_rune_def replacement_def char_of_def bit_Suc_0_iff)

lemma put_put: "put a (put b r) = put (a @ b) r"
  by (cases r) (auto simp: put_def)

lemma str_body_quote: "str_body (quote_body s @ CHR 0x22 # x) = Some (to_valid s, x)"
proof (induction s rule: quote_body.induct)
  case 1
  then show ?case by (simp add: quote_body.simps to_valid.simps str_body.simps)
next
  case (2 c cs)
  show ?case
  proof (cases "code c < 0x80")
    case True
    with 2(1) show ?thesis
      by (simp add: quote_body.simps(2) to_valid.simps(2) str_body_escape_byte put_def)
  next
    case big: False
    show ?thesis
    proof (cases "utf8_size (c # cs)")
      case None
      with big 2(2) show ?thesis
        by (simp add: quote_body.simps(2) to_valid.simps(2) str_body_u_escape line_separator_runes put_def)
    next
      case (Some n)
      note ih = 2(3) [OF big Some]
      from str_body_rune [OF Some] show ?thesis
        using ih big Some
        by (simp add: quote_body.simps(2) to_valid.simps(2) str_body_u_escape line_separator_runes put_def)
    qed
  qed
qed

section \<open>Values\<close>

text \<open>A value read: numbers by their text, strings with their text and their bytes, arrays and
  objects with their text and their members in order.\<close>

datatype json =
    JNull
  | JBool bool
  | JNum string
  | JStr string string
  | JArr string "json list"
  | JObj string "(string \<times> json) list"

fun raw :: "json \<Rightarrow> string" where
  "raw JNull = ''null''"
| "raw (JBool b) = (if b then ''true'' else ''false'')"
| "raw (JNum t) = t"
| "raw (JStr t s) = t"
| "raw (JArr t js) = t"
| "raw (JObj t ms) = t"

definition is_space :: "char \<Rightarrow> bool" where
  "is_space c \<longleftrightarrow> c = CHR 0x20 \<or> c = CHR 0x09 \<or> c = CHR 0x0A \<or> c = CHR 0x0D"

definition is_digit :: "char \<Rightarrow> bool" where
  "is_digit c \<longleftrightarrow> 48 \<le> code c \<and> code c \<le> 57"

definition skip_ws :: "string \<Rightarrow> string" where
  "skip_ws s = dropWhile is_space s"

definition expect :: "char \<Rightarrow> string \<Rightarrow> string option" where
  "expect c s = (case skip_ws s of d # t \<Rightarrow> if d = c then Some t else None | [] \<Rightarrow> None)"

definition consumed :: "string \<Rightarrow> string \<Rightarrow> string" where
  "consumed s rest = take (length s - length rest) s"

fun digits1 :: "string \<Rightarrow> string option" where
  "digits1 (d # t) = (if is_digit d then Some (dropWhile is_digit t) else None)"
| "digits1 [] = None"

fun int_part :: "string \<Rightarrow> string option" where
  "int_part (d # t) = (if d = CHR ''0'' then Some t else digits1 (d # t))"
| "int_part [] = None"

fun frac_part :: "string \<Rightarrow> string option" where
  "frac_part (c # t) = (if c = CHR ''.'' then digits1 t else Some (c # t))"
| "frac_part [] = Some []"

fun unsigned_exp :: "string \<Rightarrow> string option" where
  "unsigned_exp (c # t) = (if c = CHR ''+'' \<or> c = CHR ''-'' then digits1 t else digits1 (c # t))"
| "unsigned_exp [] = None"

fun exp_part :: "string \<Rightarrow> string option" where
  "exp_part (c # t) = (if c = CHR ''e'' \<or> c = CHR ''E'' then unsigned_exp t else Some (c # t))"
| "exp_part [] = Some []"

fun minus_part :: "string \<Rightarrow> string" where
  "minus_part (c # t) = (if c = CHR ''-'' then t else c # t)"
| "minus_part [] = []"

text \<open>What follows a number at the head of a text.\<close>

definition number_end :: "string \<Rightarrow> string option" where
  "number_end s = Option.bind (int_part (minus_part s)) (\<lambda>t. Option.bind (frac_part t) exp_part)"

definition literal :: "string \<Rightarrow> json \<Rightarrow> string \<Rightarrow> (json \<times> string) option" where
  "literal w j s = (if take (length w) s = w then Some (j, drop (length w) s) else None)"

text \<open>A value at the head of a text, with the text after it. The first number is fuel, of which the
  length of the text is enough; the second is how many levels may still be opened
  (\<open>maxNestingDepth\<close> is 10000).\<close>

fun read_value :: "nat \<Rightarrow> nat \<Rightarrow> string \<Rightarrow> (json \<times> string) option"
  and read_elems :: "nat \<Rightarrow> nat \<Rightarrow> string \<Rightarrow> (json list \<times> string) option"
  and read_mems :: "nat \<Rightarrow> nat \<Rightarrow> string \<Rightarrow> ((string \<times> json) list \<times> string) option" where
  "read_value 0 d s = None"
| "read_value (Suc f) d s =
    (case skip_ws s of [] \<Rightarrow> None
     | c # cs \<Rightarrow>
       if c = CHR 0x22 then map_option (\<lambda>(v, r). (JStr (consumed (c # cs) r) v, r)) (str_body cs)
       else if c = CHR ''{'' then
         (if d = 0 then None
          else case expect (CHR ''}'') cs of
            Some r \<Rightarrow> Some (JObj (consumed (c # cs) r) [], r)
          | None \<Rightarrow> map_option (\<lambda>(ms, r). (JObj (consumed (c # cs) r) ms, r)) (read_mems f (d - 1) cs))
       else if c = CHR ''['' then
         (if d = 0 then None
          else case expect (CHR '']'') cs of
            Some r \<Rightarrow> Some (JArr (consumed (c # cs) r) [], r)
          | None \<Rightarrow> map_option (\<lambda>(js, r). (JArr (consumed (c # cs) r) js, r)) (read_elems f (d - 1) cs))
       else if c = CHR ''n'' then literal ''null'' JNull (c # cs)
       else if c = CHR ''t'' then literal ''true'' (JBool True) (c # cs)
       else if c = CHR ''f'' then literal ''false'' (JBool False) (c # cs)
       else map_option (\<lambda>r. (JNum (consumed (c # cs) r), r)) (number_end (c # cs)))"
| "read_elems 0 d s = None"
| "read_elems (Suc f) d s =
    Option.bind (read_value f d s) (\<lambda>(j, r).
      case expect (CHR '','') r of
        Some r' \<Rightarrow> map_option (\<lambda>(js, e). (j # js, e)) (read_elems f d r')
      | None \<Rightarrow> map_option (\<lambda>e. ([j], e)) (expect (CHR '']'') r))"
| "read_mems 0 d s = None"
| "read_mems (Suc f) d s =
    Option.bind (expect (CHR 0x22) s) (\<lambda>s1. Option.bind (str_body s1) (\<lambda>(k, s2).
    Option.bind (expect (CHR '':'') s2) (\<lambda>s3. Option.bind (read_value f d s3) (\<lambda>(j, r).
      case expect (CHR '','') r of
        Some r' \<Rightarrow> map_option (\<lambda>(ms, e). ((k, j) # ms, e)) (read_mems f d r')
      | None \<Rightarrow> map_option (\<lambda>e. ([(k, j)], e)) (expect (CHR ''}'') r)))))"

definition parse :: "string \<Rightarrow> json option" where
  "parse s = (case read_value (Suc (length s)) 10000 s of
     Some (j, r) \<Rightarrow> if skip_ws r = [] then Some j else None
   | None \<Rightarrow> None)"

section \<open>Values as they are written\<close>

fun commas :: "string list \<Rightarrow> string" where
  "commas [] = []"
| "commas [t] = t"
| "commas (t # ts) = t @ CHR '','' # commas ts"

definition arr_text :: "string list \<Rightarrow> string" where
  "arr_text ts = CHR ''['' # commas ts @ [CHR '']'']"

definition obj_text :: "(string \<times> string) list \<Rightarrow> string" where
  "obj_text kts = CHR ''{'' # commas (map (\<lambda>(k, t). quote k @ CHR '':'' # t) kts) @ [CHR ''}'']"

inductive written :: "nat \<Rightarrow> string \<Rightarrow> json \<Rightarrow> bool" where
  written_null: "written d ''null'' JNull"
| written_true: "written d ''true'' (JBool True)"
| written_false: "written d ''false'' (JBool False)"
| written_num: "number_end t = Some [] \<Longrightarrow> written d t (JNum t)"
| written_str: "utf8 s \<Longrightarrow> written d (quote s) (JStr (quote s) s)"
| written_arr: "list_all2 (written d) ts js \<Longrightarrow> written (Suc d) (arr_text ts) (JArr (arr_text ts) js)"
| written_obj: "list_all2 (\<lambda>kt kj. fst kt = fst kj \<and> utf8 (fst kt) \<and> written d (snd kt) (snd kj)) kts ms \<Longrightarrow>
    written (Suc d) (obj_text kts) (JObj (obj_text kts) ms)"

definition follow :: "string \<Rightarrow> bool" where
  "follow x \<longleftrightarrow> x = [] \<or> hd x = CHR '','' \<or> hd x = CHR '']'' \<or> hd x = CHR ''}''"

lemma raw_written: "written d t j \<Longrightarrow> raw j = t"
  by (induction rule: written.induct) simp_all


lemma written_deeper: "written d t j \<Longrightarrow> written (d + n) t j"
proof (induction rule: written.induct)
  case (written_arr d ts js)
  then have "list_all2 (written (d + n)) ts js" by (auto elim: list_all2_mono)
  then show ?case using written.written_arr by simp
next
  case (written_obj d kts ms)
  then have "list_all2 (\<lambda>kt kj. fst kt = fst kj \<and> utf8 (fst kt) \<and> written (d + n) (snd kt) (snd kj)) kts ms"
    by (auto elim: list_all2_mono)
  then show ?case using written.written_obj by simp
qed (auto intro: written.intros)

lemma follow_not_digit: "follow x \<Longrightarrow> dropWhile is_digit x = x"
  by (cases x) (auto simp: follow_def is_digit_def)

lemma dropWhile_follow: "follow x \<Longrightarrow> dropWhile is_digit (t @ x) = dropWhile is_digit t @ x"
  using follow_not_digit by (induction t) simp_all

lemma digits1_append: "follow x \<Longrightarrow> digits1 t = Some r \<Longrightarrow> digits1 (t @ x) = Some (r @ x)"
  by (cases t) (auto simp: dropWhile_follow split: if_splits)

declare digits1.simps [simp del]

lemma unsigned_exp_append: "follow x \<Longrightarrow> unsigned_exp t = Some r \<Longrightarrow> unsigned_exp (t @ x) = Some (r @ x)"
  using digits1_append [of x] by (cases t) (force split: if_splits)+

lemma number_end_append: "follow x \<Longrightarrow> number_end t = Some r \<Longrightarrow> number_end (t @ x) = Some (r @ x)"
proof -
  assume x: "follow x" and t: "number_end t = Some r"
  then obtain a b where a: "int_part (minus_part t) = Some a" and b: "frac_part a = Some b"
    and r: "exp_part b = Some r"
    by (auto simp: number_end_def bind_eq_Some_conv)
  have m: "minus_part (t @ x) = minus_part t @ x"
    using a by (cases t) auto
  have i: "int_part (minus_part t @ x) = Some (a @ x)"
    using a digits1_append [OF x] by (cases "minus_part t") (force split: if_splits)+
  have f: "frac_part (a @ x) = Some (b @ x)"
    using b digits1_append [OF x] x by (cases a) (cases x; force simp: follow_def split: if_splits)+
  have e: "exp_part (b @ x) = Some (r @ x)"
    using r unsigned_exp_append [OF x] x by (cases b) (cases x; force simp: follow_def split: if_splits)+
  show ?thesis by (simp add: number_end_def m i f e)
qed

lemma consumed_append [simp]: "consumed (t @ x) x = t"
  by (simp add: consumed_def)

lemma number_head: "number_end t = Some r \<Longrightarrow> \<exists>c cs. t = c # cs \<and> (c = CHR ''-'' \<or> is_digit c)"
  by (cases t) (auto simp: number_end_def bind_eq_Some_conv digits1.simps is_digit_def split: if_splits)

lemma written_head: "written d t j \<Longrightarrow> \<exists>c cs. t = c # cs \<and> \<not> is_space c \<and> c \<noteq> CHR '']'' \<and> c \<noteq> CHR ''}''"
proof (induction rule: written.induct)
  case (written_num t d)
  then show ?case using number_head by (fastforce simp: is_space_def is_digit_def)
qed (auto simp: is_space_def quote_def arr_text_def obj_text_def)

lemma expect_now [simp]: "expect c (d # x) = (if is_space d then expect c x else if d = c then Some x else None)"
  by (simp add: expect_def skip_ws_def)

lemma skip_ws_now [simp]: "skip_ws (d # x) = (if is_space d then skip_ws x else d # x)"
  by (simp add: skip_ws_def)

lemma not_space [simp]:
  "\<not> is_space (CHR '','')" "\<not> is_space (CHR ''}'')" "\<not> is_space (CHR '']'')" "\<not> is_space (CHR '':'')"
  "\<not> is_space (CHR ''{'')" "\<not> is_space (CHR ''['')" "\<not> is_space (CHR 0x22)"
  by (simp_all add: is_space_def)

lemma read_quote: "str_body (quote_body s @ CHR 0x22 # x) = Some (to_valid s, x)"
  by (rule str_body_quote)

text \<open>Reading the members of what is written, given that each of them is read.\<close>

definition reads :: "nat \<Rightarrow> string \<Rightarrow> json \<Rightarrow> bool" where
  "reads d t j \<longleftrightarrow> (\<forall>f x. length t \<le> f \<longrightarrow> follow x \<longrightarrow> read_value f d (t @ x) = Some (j, x))"

lemma reads_elems:
  assumes "list_all2 (\<lambda>t j. reads d t j \<and> t \<noteq> []) ts js" and "ts \<noteq> []" and "length (commas ts) < f"
  shows "read_elems f d (commas ts @ CHR '']'' # x) = Some (js, x)"
  using assms
proof (induction ts arbitrary: js f rule: commas.induct)
  case (2 t)
  then obtain j where js: "js = [j]" and t: "reads d t j" by (auto simp: list_all2_Cons1)
  obtain f' where f: "f = Suc f'" using 2 by (cases f) auto
  have "read_value f' d (t @ CHR '']'' # x) = Some (j, CHR '']'' # x)"
    using t 2 f by (auto simp: reads_def follow_def)
  then show ?case by (simp add: f js)
next
  case (3 t u ts)
  then obtain j js' where js: "js = j # js'" and t: "reads d t j" "t \<noteq> []"
    and rest: "list_all2 (\<lambda>t j. reads d t j \<and> t \<noteq> []) (u # ts) js'"
    by (auto simp: list_all2_Cons1)
  obtain f' where f: "f = Suc f'" using 3 by (cases f) auto
  have "read_value f' d (t @ CHR '','' # commas (u # ts) @ CHR '']'' # x)
      = Some (j, CHR '','' # commas (u # ts) @ CHR '']'' # x)"
    using t 3 f by (auto simp: reads_def follow_def)
  moreover have "read_elems f' d (commas (u # ts) @ CHR '']'' # x) = Some (js', x)"
    using 3 rest f t by (intro 3(1)) auto
  ultimately show ?case by (simp add: f js)
qed simp

abbreviation member_text :: "string \<times> string \<Rightarrow> string" where
  "member_text kt \<equiv> quote (fst kt) @ CHR '':'' # snd kt"

lemma reads_mems:
  assumes "list_all2 (\<lambda>kt kj. fst kt = fst kj \<and> utf8 (fst kt) \<and> reads d (snd kt) (snd kj)) kts ms"
    and "kts \<noteq> []" and "length (commas (map member_text kts)) < f"
  shows "read_mems f d (commas (map member_text kts) @ CHR ''}'' # x) = Some (ms, x)"
  using assms
proof (induction kts arbitrary: ms f)
  case (Cons kt kts)
  then obtain kj ms' where ms: "ms = kj # ms'" and k: "fst kt = fst kj" "utf8 (fst kj)"
    and t: "reads d (snd kt) (snd kj)"
    and rest: "list_all2 (\<lambda>kt kj. fst kt = fst kj \<and> utf8 (fst kt) \<and> reads d (snd kt) (snd kj)) kts ms'"
    by (auto simp: list_all2_Cons1)
  obtain f' where f: "f = Suc f'" using Cons by (cases f) auto
  have key: "str_body (quote_body (fst kt) @ CHR 0x22 # y) = Some (fst kj, y)" for y
    using k by (simp add: read_quote utf8_def)
  show ?case
  proof (cases kts)
    case Nil
    have "read_value f' d (snd kt @ CHR ''}'' # x) = Some (snd kj, CHR ''}'' # x)"
      using t Cons.prems f Nil by (auto simp: reads_def follow_def)
    with rest Nil key show ?thesis by (simp add: f ms quote_def)
  next
    case more: (Cons kt2 kts2)
    let ?tail = "commas (map member_text kts)"
    have split: "commas (map member_text (kt # kts)) = member_text kt @ CHR '','' # ?tail"
      using more by simp
    have "read_value f' d (snd kt @ CHR '','' # ?tail @ CHR ''}'' # x) = Some (snd kj, CHR '','' # ?tail @ CHR ''}'' # x)"
      using t Cons.prems f split by (auto simp: reads_def follow_def)
    moreover have "read_mems f' d (?tail @ CHR ''}'' # x) = Some (ms', x)"
      using rest Cons.prems f split more by (intro Cons.IH) auto
    ultimately show ?thesis unfolding split using key by (simp add: f ms quote_def)
  qed
qed simp

lemma commas_head: "ts \<noteq> [] \<Longrightarrow> hd ts \<noteq> [] \<Longrightarrow> commas ts \<noteq> [] \<and> hd (commas ts) = hd (hd ts)"
  by (cases ts rule: commas.cases) auto

lemma read_number:
  assumes "number_end t = Some []" "follow x" "length t \<le> f"
  shows "read_value f d (t @ x) = Some (JNum t, x)"
proof -
  obtain c cs where t: "t = c # cs" and c: "c = CHR ''-'' \<or> is_digit c"
    using number_head [OF assms(1)] by blast
  obtain f' where f: "f = Suc f'" using assms(3) t by (cases f) auto
  have "number_end (c # cs @ x) = Some x" using number_end_append [OF assms(2,1)] t by simp
  moreover have "\<not> is_space c" "c \<noteq> CHR 0x22" "c \<noteq> CHR ''{''" "c \<noteq> CHR ''[''" "c \<noteq> CHR ''n''"
    "c \<noteq> CHR ''t''" "c \<noteq> CHR ''f''"
    using c by (auto simp: is_space_def is_digit_def)
  ultimately show ?thesis using consumed_append [of t x] by (simp add: f t)
qed

lemma read_literals:
  "0 < f \<Longrightarrow> read_value f d (''null'' @ x) = Some (JNull, x)"
  "0 < f \<Longrightarrow> read_value f d (''true'' @ x) = Some (JBool True, x)"
  "0 < f \<Longrightarrow> read_value f d (''false'' @ x) = Some (JBool False, x)"
  by (cases f; simp add: is_space_def literal_def)+

lemmas read_literals_flat = read_literals [unfolded append_Cons append_Nil]

theorem written_reads: "written d t j \<Longrightarrow> reads d t j"
proof (induction rule: written.induct)
  case (written_num t d)
  then show ?case by (simp add: reads_def read_number)
next
  case (written_str s d)
  show ?case unfolding reads_def
  proof (intro allI impI)
    fix f x assume f: "length (quote s) \<le> f"
    obtain f' where "f = Suc f'" using f by (cases f) (auto simp: quote_def)
    then show "read_value f d (quote s @ x) = Some (JStr (quote s) s, x)"
      using written_str consumed_append [of "quote s" x]
      by (simp add: quote_def read_quote utf8_def)
  qed
next
  case (written_arr d ts js)
  have all: "list_all2 (\<lambda>t j. reads d t j \<and> t \<noteq> []) ts js"
    using written_arr by (rule list_all2_mono) (auto dest: written_head)
  show ?case unfolding reads_def
  proof (intro allI impI)
    fix f x assume len: "length (arr_text ts) \<le> f"
    obtain f' where f: "f = Suc f'" using len by (cases f) (auto simp: arr_text_def)
    show "read_value f (Suc d) (arr_text ts @ x) = Some (JArr (arr_text ts) js, x)"
    proof (cases ts)
      case Nil
      then have "js = []" using all by simp
      then show ?thesis using Nil consumed_append [of "arr_text ts" x]
        by (simp add: f arr_text_def)
    next
      case (Cons t ts')
      then obtain j where "written d t j" using written_arr by (auto simp: list_all2_Cons1)
      then obtain c cs where "commas ts = c # cs" and "\<not> is_space c" "c \<noteq> CHR '']''"
        using written_head commas_head [of ts] Cons by (cases "commas ts") force+
      moreover have "read_elems f' d (commas ts @ CHR '']'' # x) = Some (js, x)"
        using all Cons len f by (intro reads_elems) (auto simp: arr_text_def)
      ultimately show ?thesis using consumed_append [of "arr_text ts" x]
        by (simp add: f arr_text_def)
    qed
  qed
next
  case (written_obj d kts ms)
  have all: "list_all2 (\<lambda>kt kj. fst kt = fst kj \<and> utf8 (fst kt) \<and> reads d (snd kt) (snd kj)) kts ms"
    using written_obj by (rule list_all2_mono) auto
  have spelled: "obj_text kts = CHR ''{'' # commas (map member_text kts) @ [CHR ''}'']"
    by (simp add: obj_text_def case_prod_unfold)
  show ?case unfolding reads_def
  proof (intro allI impI)
    fix f x assume len: "length (obj_text kts) \<le> f"
    obtain f' where f: "f = Suc f'" using len by (cases f) (auto simp: spelled)
    show "read_value f (Suc d) (obj_text kts @ x) = Some (JObj (obj_text kts) ms, x)"
    proof (cases kts)
      case Nil
      then have "ms = []" using all by simp
      then show ?thesis using Nil consumed_append [of "obj_text kts" x]
        by (simp add: f obj_text_def)
    next
      case (Cons kt kts')
      then obtain cs where "commas (map member_text kts) = CHR 0x22 # cs"
        using commas_head [of "map member_text kts"] by (cases "commas (map member_text kts)") (auto simp: quote_def)
      moreover have "read_mems f' d (commas (map member_text kts) @ CHR ''}'' # x) = Some (ms, x)"
        using all Cons len f by (intro reads_mems) (auto simp: obj_text_def case_prod_unfold)
      ultimately show ?thesis using consumed_append [of "obj_text kts" x]
        by (simp add: f spelled)
    qed
  qed
qed (auto simp: reads_def read_literals_flat)

lemma parse_written: "written d t j \<Longrightarrow> d \<le> 10000 \<Longrightarrow> parse t = Some j"
proof -
  assume w: "written d t j" and d: "d \<le> 10000"
  have "reads 10000 t j"
    using written_reads [OF written_deeper [OF w, of "10000 - d"]] d by simp
  then have "read_value (Suc (length t)) 10000 (t @ []) = Some (j, [])"
    unfolding reads_def by (elim allE [of _ "Suc (length t)"] allE [of _ "[]"]) (simp add: follow_def)
  then show ?thesis by (simp add: parse_def skip_ws_def)
qed

section \<open>Numbers and integers\<close>

text \<open>\<open>strconv.ParseUint\<close> in base ten, with the number of bits of the type.\<close>

fun digits_value :: "nat \<Rightarrow> string \<Rightarrow> nat option" where
  "digits_value n [] = Some n"
| "digits_value n (c # cs) = (if is_digit c then digits_value (10 * n + (code c - 48)) cs else None)"

definition parse_uint :: "nat \<Rightarrow> string \<Rightarrow> nat option" where
  "parse_uint bits s =
    (if s = [] then None else
     case digits_value 0 s of Some n \<Rightarrow> if n < 2 ^ bits then Some n else None | None \<Rightarrow> None)"

text \<open>\<open>strconv.ParseInt\<close> for 64 bits. A sign \<open>+\<close> is read too, but no JSON number has one.\<close>

definition parse_int64 :: "string \<Rightarrow> int option" where
  "parse_int64 s =
    (case s of
       c # t \<Rightarrow>
         if c = CHR ''-'' then
           (case parse_uint 64 t of Some n \<Rightarrow> if n \<le> 2 ^ 63 then Some (- int n) else None | None \<Rightarrow> None)
         else
           (case parse_uint 64 (if c = CHR ''+'' then t else s) of
              Some n \<Rightarrow> if n < 2 ^ 63 then Some (int n) else None | None \<Rightarrow> None)
     | [] \<Rightarrow> None)"

lemma is_digit_char [simp]: "d < 10 \<Longrightarrow> is_digit (digit_char d)"
  by (simp add: is_digit_def digit_char_of)

lemma FormatUint_is_digit: "c \<in> set (FormatUint n) \<Longrightarrow> is_digit c"
  using FormatUint_digits is_digit_char by blast

lemma digits_value_append:
  "digits_value m (s @ t) = Option.bind (digits_value m s) (\<lambda>n. digits_value n t)"
  by (induction s arbitrary: m) simp_all

lemma digits_value_FormatUint: "digits_value 0 (FormatUint n) = Some n"
proof (induction n rule: FormatUint.induct)
  case (1 n)
  then show ?case
    by (cases "n < 10") (simp_all add: FormatUint.simps [of n] digits_value_append digit_char_of)
qed

lemma parse_uint_FormatUint: "n < 2 ^ bits \<Longrightarrow> parse_uint bits (FormatUint n) = Some n"
  by (simp add: parse_uint_def digits_value_FormatUint)

lemma FormatUint_head: "\<exists>c cs. FormatUint n = c # cs \<and> is_digit c"
  using FormatUint_nonempty [of n] FormatUint_is_digit [of _ n] by (cases "FormatUint n") auto

lemma parse_int64_Itoa:
  assumes "- (2 ^ 63) \<le> i" "i < 2 ^ 63"
  shows "parse_int64 (Itoa i) = Some i"
proof (cases "i < 0")
  case True
  then have "nat (- i) < 2 ^ 64" "nat (- i) \<le> 2 ^ 63" using assms by auto
  with True show ?thesis by (simp add: Itoa_def parse_int64_def parse_uint_FormatUint)
next
  case False
  obtain c cs where c: "FormatUint (nat i) = c # cs" "is_digit c" using FormatUint_head by blast
  then have "c \<noteq> CHR ''-''" "c \<noteq> CHR ''+''" by (auto simp: is_digit_def)
  moreover have "nat i < 2 ^ 64" "nat i < 2 ^ 63" using assms False by auto
  ultimately show ?thesis using False c parse_uint_FormatUint [of "nat i" 64]
    by (simp add: Itoa_def parse_int64_def)
qed

lemma FormatUint_zero_head: "10 \<le> n \<Longrightarrow> hd (FormatUint n) \<noteq> CHR ''0''"
proof (induction n rule: FormatUint.induct)
  case (1 n)
  show ?case
  proof (cases "n div 10 < 10")
    case True
    have "digit_char (n div 10) \<noteq> CHR ''0''"
      using digit_char_of [OF True] 1(2) by (auto simp: div_greater_zero_iff)
    with True 1 show ?thesis by (simp add: FormatUint.simps [of n] FormatUint.simps [of "n div 10"])
  next
    case False
    with 1 show ?thesis by (simp add: FormatUint.simps [of n])
  qed
qed

lemma number_end_digits: "int_part (FormatUint n) = Some []"
proof (cases "n < 10")
  case True
  then show ?thesis by (simp add: FormatUint.simps [of n] digits1.simps)
next
  case False
  obtain c cs where c: "FormatUint n = c # cs" "is_digit c" using FormatUint_head by blast
  have "c \<noteq> CHR ''0''" using FormatUint_zero_head [of n] False c by simp
  moreover have "\<forall>x \<in> set cs. is_digit x" using FormatUint_is_digit [of _ n] c by simp
  ultimately show ?thesis using c by (simp add: digits1.simps)
qed

lemma number_end_FormatUint: "number_end (FormatUint n) = Some []"
proof -
  obtain c cs where c: "FormatUint n = c # cs" "is_digit c" using FormatUint_head by blast
  then have "minus_part (FormatUint n) = FormatUint n" by (auto simp: is_digit_def)
  then show ?thesis by (simp add: number_end_def number_end_digits)
qed

lemma number_end_Itoa: "number_end (Itoa i) = Some []"
  using number_end_FormatUint number_end_digits by (simp add: Itoa_def) (simp add: number_end_def)

end
