(* ===== verification/Change_Record.thy ===== *)
theory Change_Record
  imports Diff_Hunks Go_Json
begin

text \<open>
  The workspace change record of \<^verbatim>\<open>pkg/changes/changes.go\<close>: its data, the endpoint of a file,
  validation, and the two steps that make a record smaller without losing its identity and its counts.
  Go's \<open>int\<close> is an \<open>int\<close>: every value here is a count of lines, bytes or files. A pointer that may be nil
  is an \<open>option\<close>. A slice is a list: the record never tells nil from empty, apart from writing.
\<close>

section \<open>Constants\<close>

definition changes_Schema :: string where "changes_Schema = ''changes/1''"

definition BasisToolWindow :: string where "BasisToolWindow = ''tool_window''"
definition BasisRuntimeReported :: string where "BasisRuntimeReported = ''runtime_reported''"
definition BasisUnattributed :: string where "BasisUnattributed = ''unattributed''"
definition BasisSkippedReadOnly :: string where "BasisSkippedReadOnly = ''skipped_read_only''"

definition OpCreate :: string where "OpCreate = ''create''"
definition OpModify :: string where "OpModify = ''modify''"
definition OpDelete :: string where "OpDelete = ''delete''"
definition OpTypeChange :: string where "OpTypeChange = ''type_change''"

definition DiffAvailable :: string where "DiffAvailable = ''available''"
definition DiffBinary :: string where "DiffBinary = ''binary''"
definition DiffTooLarge :: string where "DiffTooLarge = ''too_large''"
definition DiffUnavailable :: string where "DiffUnavailable = ''unavailable''"

section \<open>The record\<close>

record change_root =
  cro_Path :: string
  cro_ID :: string

record change_policy =
  cpo_Exclusions :: string
  cpo_ReadOnly :: string
  cpo_Expanded :: "string list"

record change_interval =
  civ_From :: string
  civ_To :: string

record change_window =
  cwi_Before :: change_interval
  cwi_After :: change_interval

record change_outcome =
  cou_State :: string
  cou_ExitCode :: "int option"

record overlap =
  cov_Capture :: string
  cov_Session :: string
  cov_Stream :: string
  cov_Tool :: string
  cov_ToolName :: string
  cov_State :: string

record endpoint =
  ep_Present :: bool
  ep_Bytes :: "int option"
  ep_SHA256 :: string
  ep_NoNewlineAtEnd :: bool

record file_change =
  fc_Path :: string
  fc_Operation :: string
  fc_Before :: endpoint
  fc_After :: endpoint
  fc_Diff :: string
  fc_Attribution :: string
  fc_Windows :: "string list"
  fc_Additions :: "int option"
  fc_Deletions :: "int option"
  fc_Hunks :: "hunk list"

record change_record =
  chr_Schema :: string
  chr_ID :: string
  chr_CapturedBy :: string
  chr_Session :: string
  chr_Stream :: string
  chr_Tool :: string
  chr_ToolName :: string
  chr_Time :: string
  chr_Basis :: string
  chr_Root :: "change_root option"
  chr_Policy :: "change_policy option"
  chr_Window :: "change_window option"
  chr_Outcome :: "change_outcome option"
  chr_Coverage :: string
  chr_Gaps :: "string list"
  chr_Overlaps :: "overlap list"
  chr_ChangedFiles :: "int option"
  chr_Changes :: "file_change list"

section \<open>One side of a file\<close>

text \<open>\<open>IsText\<close> of \<^verbatim>\<open>diff.go\<close>; \<open>utf8\<close> is \<open>utf8.Valid\<close>.\<close>

definition IsText :: "string \<Rightarrow> bool" where
  "IsText b \<longleftrightarrow> CHR 0x00 \<notin> set b \<and> utf8 b"

text \<open>The hash, in hexadecimal, is the parameter \<open>H\<close>.\<close>

definition EndpointOf :: "(string \<Rightarrow> string) \<Rightarrow> string \<Rightarrow> bool \<Rightarrow> endpoint" where
  "EndpointOf H b present =
    (if \<not> present then \<lparr>ep_Present = False, ep_Bytes = None, ep_SHA256 = [], ep_NoNewlineAtEnd = False\<rparr>
     else \<lparr>ep_Present = True, ep_Bytes = Some (int (length b)), ep_SHA256 = H b,
       ep_NoNewlineAtEnd = (b \<noteq> [] \<and> last b \<noteq> CHR 0x0A)\<rparr>)"

section \<open>Validation\<close>

datatype change_error =
    Bad_Schema string | No_ID | No_Captured_By | No_Session | No_Stream | No_Time | No_Basis | No_Tool
  | No_Path nat | No_Operation string | No_Diff string

fun validate_files :: "nat \<Rightarrow> file_change list \<Rightarrow> change_error option" where
  "validate_files i [] = None"
| "validate_files i (c # cs) =
    (if fc_Path c = [] then Some (No_Path i)
     else if fc_Operation c = [] then Some (No_Operation (fc_Path c))
     else if fc_Diff c = [] then Some (No_Diff (fc_Path c))
     else validate_files (Suc i) cs)"

definition Validate_change :: "change_record \<Rightarrow> change_error option" where
  "Validate_change r =
    (if chr_Schema r \<noteq> changes_Schema then Some (Bad_Schema (chr_Schema r))
     else if chr_ID r = [] then Some No_ID
     else if chr_CapturedBy r = [] then Some No_Captured_By
     else if chr_Session r = [] then Some No_Session
     else if chr_Stream r = [] then Some No_Stream
     else if chr_Time r = [] then Some No_Time
     else if chr_Basis r = [] then Some No_Basis
     else if chr_Basis r \<noteq> BasisUnattributed \<and> chr_Tool r = [] then Some No_Tool
     else validate_files 0 (chr_Changes r))"

section \<open>Making a record smaller\<close>

definition hunks_size :: "hunk list \<Rightarrow> int" where
  "hunks_size hs = (\<Sum>h\<leftarrow>hs. (\<Sum>l\<leftarrow>hk_Lines h. int (length l)) + int (length (hk_Lines h)) + 1)"

text \<open>The loop that looks for the largest: the index, the place so far (none is \<open>-1\<close>) and its size.\<close>

fun largest_hunks :: "nat \<Rightarrow> file_change list \<Rightarrow> nat option \<Rightarrow> int \<Rightarrow> nat option" where
  "largest_hunks i [] best most = best"
| "largest_hunks i (c # cs) best most =
    (let n = hunks_size (fc_Hunks c) in
     if fc_Hunks c \<noteq> [] \<and> n > most then largest_hunks (Suc i) cs (Some i) n
     else largest_hunks (Suc i) cs best most)"

definition DropHunks :: "change_record \<Rightarrow> change_record \<times> bool" where
  "DropHunks r =
    (case largest_hunks 0 (chr_Changes r) None 0 of
       None \<Rightarrow> (r, False)
     | Some i \<Rightarrow> (r\<lparr>chr_Changes := (chr_Changes r)[i := ((chr_Changes r) ! i)\<lparr>fc_Hunks := [], fc_Diff := DiffTooLarge\<rparr>]\<rparr>, True))"

definition DropFiles :: "change_record \<Rightarrow> change_record \<times> bool" where
  "DropFiles r =
    (if length (chr_Changes r) + length (chr_Overlaps r) + length (chr_Gaps r) = 0 then (r, False)
     else (r\<lparr>chr_Changes := [], chr_Overlaps := [], chr_Gaps := []\<rparr>, True))"

text \<open>One step of \<open>shrink\<close> in \<^verbatim>\<open>pkg/sessiondata/fit.go\<close>: the hunks of the largest file, or, once
  no file has hunks, the file list. \<open>None\<close> when there is nothing left to take out.\<close>

definition shrink_record :: "change_record \<Rightarrow> change_record option" where
  "shrink_record r =
    (case DropHunks r of
       (r', True) \<Rightarrow> Some r'
     | (r', False) \<Rightarrow> (case DropFiles r' of (r'', True) \<Rightarrow> Some r'' | (_, False) \<Rightarrow> None))"

section \<open>What the steps do\<close>

definition with_hunks :: "change_record \<Rightarrow> nat" where
  "with_hunks r = length (filter (\<lambda>c. fc_Hunks c \<noteq> []) (chr_Changes r))"

lemma hunks_size_nonneg: "0 \<le> hunks_size hs"
  unfolding hunks_size_def by (rule sum_list_nonneg) (auto intro!: add_nonneg_nonneg sum_list_nonneg)

lemma hunks_size_pos: "hs \<noteq> [] \<Longrightarrow> 0 < hunks_size hs"
proof (cases hs)
  case (Cons h hs')
  have "0 \<le> (\<Sum>l\<leftarrow>hk_Lines h. int (length l))" by (rule sum_list_nonneg) auto
  with Cons hunks_size_nonneg [of hs'] show ?thesis by (simp add: hunks_size_def)
qed simp

text \<open>The place found is the first of the largest, among the files from \<open>k\<close> on and the place so far.\<close>

definition largest_of :: "file_change list \<Rightarrow> nat \<Rightarrow> bool" where
  "largest_of cs i \<longleftrightarrow> i < length cs \<and> fc_Hunks (cs ! i) \<noteq> [] \<and>
     (\<forall>j < length cs. fc_Hunks (cs ! j) \<noteq> [] \<longrightarrow> hunks_size (fc_Hunks (cs ! j)) \<le> hunks_size (fc_Hunks (cs ! i)) \<and>
        (j < i \<longrightarrow> hunks_size (fc_Hunks (cs ! j)) < hunks_size (fc_Hunks (cs ! i))))"

definition none_has_hunks :: "file_change list \<Rightarrow> bool" where
  "none_has_hunks cs \<longleftrightarrow> (\<forall>c \<in> set cs. fc_Hunks c = [])"

definition largest_so_far :: "file_change list \<Rightarrow> nat option \<Rightarrow> int \<Rightarrow> bool" where
  "largest_so_far cs best most \<longleftrightarrow>
     (case best of
        None \<Rightarrow> none_has_hunks cs \<and> most = 0
      | Some i \<Rightarrow> largest_of cs i \<and> most = hunks_size (fc_Hunks (cs ! i)))"

lemma largest_of_snoc:
  "largest_of (cs @ [c]) i \<longleftrightarrow>
     (if i < length cs then largest_of cs i \<and> (fc_Hunks c \<noteq> [] \<longrightarrow> hunks_size (fc_Hunks c) \<le> hunks_size (fc_Hunks (cs ! i)))
      else i = length cs \<and> fc_Hunks c \<noteq> [] \<and>
        (\<forall>d \<in> set cs. fc_Hunks d \<noteq> [] \<longrightarrow> hunks_size (fc_Hunks d) < hunks_size (fc_Hunks c)))"
  by (auto simp: largest_of_def nth_append less_Suc_eq all_set_conv_all_nth)

lemma largest_so_far_step:
  assumes "largest_so_far cs best most"
  shows "if fc_Hunks c \<noteq> [] \<and> most < hunks_size (fc_Hunks c)
    then largest_so_far (cs @ [c]) (Some (length cs)) (hunks_size (fc_Hunks c))
    else largest_so_far (cs @ [c]) best most"
proof (cases best)
  case None
  with assms show ?thesis
    using hunks_size_pos [of "fc_Hunks c"] by (auto simp: largest_so_far_def none_has_hunks_def largest_of_snoc)
next
  case (Some i)
  with assms have i: "largest_of cs i" "i < length cs" "most = hunks_size (fc_Hunks (cs ! i))"
    by (auto simp: largest_so_far_def largest_of_def)
  have "hunks_size (fc_Hunks d) \<le> most" if "d \<in> set cs" "fc_Hunks d \<noteq> []" for d
    using i that by (auto simp: largest_of_def in_set_conv_nth)
  with i Some show ?thesis
    by (auto simp: largest_so_far_def largest_of_snoc nth_append) force
qed

lemma largest_hunks_so_far:
  "largest_so_far cs0 best most \<Longrightarrow> largest_hunks (length cs0) cs best most = i \<Longrightarrow>
     \<exists>most'. largest_so_far (cs0 @ cs) i most'"
proof (induction cs arbitrary: cs0 best most)
  case (Cons c cs)
  have *: "Suc (length cs0) = length (cs0 @ [c])" by simp
  from Cons.IH [of "cs0 @ [c]"] Cons.prems(2) largest_so_far_step [OF Cons.prems(1), of c] show ?case
    by (auto simp: Let_def split: if_splits)
qed auto

lemma largest_hunks_correct:
  "case largest_hunks 0 cs None 0 of None \<Rightarrow> none_has_hunks cs | Some i \<Rightarrow> largest_of cs i"
  using largest_hunks_so_far [of "[]" None 0 cs "largest_hunks 0 cs None 0"]
  by (auto simp: largest_so_far_def none_has_hunks_def split: option.splits)


section \<open>Taking out the hunks of one file\<close>

definition without_hunks :: "file_change \<Rightarrow> file_change" where
  "without_hunks c = c\<lparr>fc_Hunks := [], fc_Diff := DiffTooLarge\<rparr>"

lemma DropHunks_cases:
  obtains (dropped) i where "largest_of (chr_Changes r) i"
      "DropHunks r = (r\<lparr>chr_Changes := (chr_Changes r)[i := without_hunks (chr_Changes r ! i)]\<rparr>, True)"
  | (none) "none_has_hunks (chr_Changes r)" "DropHunks r = (r, False)"
proof (cases "largest_hunks 0 (chr_Changes r) None 0")
  case None
  then show ?thesis using largest_hunks_correct [of "chr_Changes r"] none by (simp add: DropHunks_def)
next
  case (Some i)
  then show ?thesis using largest_hunks_correct [of "chr_Changes r"] dropped [of i]
    by (simp add: DropHunks_def without_hunks_def)
qed

lemma with_hunks_update:
  "i < length cs \<Longrightarrow> fc_Hunks (cs ! i) \<noteq> [] \<Longrightarrow> fc_Hunks c = [] \<Longrightarrow>
     Suc (length (filter (\<lambda>c. fc_Hunks c \<noteq> []) (cs[i := c]))) = length (filter (\<lambda>c. fc_Hunks c \<noteq> []) cs)"
proof (induction cs arbitrary: i)
  case (Cons d cs)
  then show ?case by (cases i) auto
qed simp

lemma validate_files_iff:
  "validate_files i cs = None \<longleftrightarrow> (\<forall>c \<in> set cs. fc_Path c \<noteq> [] \<and> fc_Operation c \<noteq> [] \<and> fc_Diff c \<noteq> [])"
  by (induction cs arbitrary: i) auto

lemma Validate_change_files:
  "Validate_change r = None \<Longrightarrow> validate_files 0 cs = None \<Longrightarrow> Validate_change (r\<lparr>chr_Changes := cs\<rparr>) = None"
  by (auto simp: Validate_change_def split: if_splits)

text \<open>\<open>DropHunks\<close> takes out the hunks of the file with the most bytes of hunks, the first of several as
  large, and says \<open>too_large\<close> of its diff; every other file, the counts of this one and the rest of the
  record stay, one file fewer has hunks, and a valid record stays valid. It reports false exactly when no
  file has hunks, and then changes nothing.\<close>
theorem DropHunks_takes_largest:
  "(snd (DropHunks r) \<longleftrightarrow> with_hunks r \<noteq> 0) \<and>
   (if snd (DropHunks r)
    then (\<exists>i. largest_of (chr_Changes r) i \<and>
        fst (DropHunks r) = r\<lparr>chr_Changes := (chr_Changes r)[i := without_hunks (chr_Changes r ! i)]\<rparr>) \<and>
      Suc (with_hunks (fst (DropHunks r))) = with_hunks r \<and>
      (Validate_change r = None \<longrightarrow> Validate_change (fst (DropHunks r)) = None)
    else fst (DropHunks r) = r)"
proof (cases r rule: DropHunks_cases)
  case (dropped i)
  let ?cs = "(chr_Changes r)[i := without_hunks (chr_Changes r ! i)]"
  have i: "i < length (chr_Changes r)" "fc_Hunks (chr_Changes r ! i) \<noteq> []"
    using dropped(1) by (auto simp: largest_of_def)
  have n: "Suc (with_hunks (r\<lparr>chr_Changes := ?cs\<rparr>)) = with_hunks r"
    using with_hunks_update [OF i] by (simp add: with_hunks_def without_hunks_def)
  have "validate_files 0 ?cs = None" if "Validate_change r = None"
  proof -
    have "validate_files 0 (chr_Changes r) = None" using that by (auto simp: Validate_change_def split: if_splits)
    with i show ?thesis
      by (auto simp: validate_files_iff without_hunks_def DiffTooLarge_def dest!: set_update_subset_insert [THEN subsetD])
  qed
  with n dropped show ?thesis using Validate_change_files [of r ?cs] by auto
next
  case none
  then show ?thesis by (auto simp: with_hunks_def none_has_hunks_def filter_empty_conv)
qed

definition lists_left :: "change_record \<Rightarrow> nat" where
  "lists_left r = (if chr_Changes r = [] \<and> chr_Overlaps r = [] \<and> chr_Gaps r = [] then 0 else 1)"

definition sample_record :: change_record where
  "sample_record =
    (let h = \<lparr>hk_OldStart = 1, hk_OldLines = 1, hk_NewStart = 1, hk_NewLines = 0, hk_Lines = [''-a'']\<rparr>;
         e = EndpointOf (\<lambda>b. b) ''a'' True;
         c = \<lparr>fc_Path = ''f'', fc_Operation = OpModify, fc_Before = e, fc_After = e, fc_Diff = DiffAvailable,
           fc_Attribution = [], fc_Windows = [], fc_Additions = Some 0, fc_Deletions = Some 1, fc_Hunks = [h]\<rparr>
     in \<lparr>chr_Schema = changes_Schema, chr_ID = ''i'', chr_CapturedBy = ''p'', chr_Session = ''s'', chr_Stream = ''main'',
         chr_Tool = ''t'', chr_ToolName = [], chr_Time = ''n'', chr_Basis = BasisToolWindow, chr_Root = None,
         chr_Policy = None, chr_Window = None, chr_Outcome = None, chr_Coverage = [], chr_Gaps = [],
         chr_Overlaps = [], chr_ChangedFiles = Some 1, chr_Changes = [c]\<rparr>)"

lemma sample_record_valid: "Validate_change sample_record = None"
  by (simp add: sample_record_def Let_def Validate_change_def changes_Schema_def OpModify_def DiffAvailable_def
    BasisToolWindow_def)

lemma sample_record_hunks: "with_hunks sample_record = 1" "lists_left sample_record = 1"
  by (simp_all add: sample_record_def Let_def with_hunks_def lists_left_def)

lemma DropHunks_takes_largest_witness:
  "snd (DropHunks sample_record) \<and> Validate_change (fst (DropHunks sample_record)) = None"
  using DropHunks_takes_largest [of sample_record] sample_record_valid sample_record_hunks by auto

section \<open>Making a record as small as it gets\<close>

fun shrink_times :: "nat \<Rightarrow> change_record \<Rightarrow> change_record option" where
  "shrink_times 0 r = Some r"
| "shrink_times (Suc n) r = Option.bind (shrink_record r) (shrink_times n)"

definition bare :: "change_record \<Rightarrow> change_record" where
  "bare r = r\<lparr>chr_Changes := [], chr_Overlaps := [], chr_Gaps := []\<rparr>"

lemma shrink_record_none: "with_hunks r = 0 \<Longrightarrow> shrink_record r = (if lists_left r = 0 then None else Some (bare r))"
proof (cases r rule: DropHunks_cases)
  case (dropped i)
  moreover assume "with_hunks r = 0"
  ultimately show ?thesis by (auto simp: with_hunks_def largest_of_def filter_empty_conv)
next
  case none
  then show ?thesis by (auto simp: shrink_record_def DropFiles_def lists_left_def bare_def)
qed

lemma shrink_record_hunks:
  assumes "with_hunks r \<noteq> 0"
  shows "\<exists>cs. shrink_record r = Some (r\<lparr>chr_Changes := cs\<rparr>) \<and> Suc (with_hunks (r\<lparr>chr_Changes := cs\<rparr>)) = with_hunks r \<and>
    list_all2 (\<lambda>c c'. c' = c \<or> c' = without_hunks c \<and> fc_Hunks c \<noteq> []) (chr_Changes r) cs"
proof (cases r rule: DropHunks_cases)
  case (dropped i)
  then have i: "i < length (chr_Changes r)" "fc_Hunks (chr_Changes r ! i) \<noteq> []" by (auto simp: largest_of_def)
  with dropped with_hunks_update [OF i, of "without_hunks (chr_Changes r ! i)"] show ?thesis
    by (intro exI [of _ "(chr_Changes r)[i := without_hunks (chr_Changes r ! i)]"])
      (auto simp: shrink_record_def with_hunks_def without_hunks_def list_all2_conv_all_nth nth_list_update)
next
  case none
  with assms show ?thesis by (auto simp: with_hunks_def none_has_hunks_def filter_empty_conv)
qed

lemma list_all2_dropped:
  "list_all2 (\<lambda>c c'. c' = c \<or> c' = without_hunks c \<and> fc_Hunks c \<noteq> []) xs ys \<Longrightarrow>
   list_all2 (\<lambda>c c'. c' = c \<or> c' = without_hunks c \<and> fc_Hunks c \<noteq> []) ys zs \<Longrightarrow>
   list_all2 (\<lambda>c c'. c' = c \<or> c' = without_hunks c \<and> fc_Hunks c \<noteq> []) xs zs"
  by (rule list_all2_trans) (auto simp: without_hunks_def)

text \<open>Shrinking a record step by step ends: while \<open>n\<close> of its files have hunks, each of the first \<open>n\<close> steps
  takes the hunks of one file and touches nothing but those hunks and that file's diff state; one more step
  takes the lists out, if there are any, and then no step is left. What remains is the record with its
  identity, its window, its outcome and its count of changed files, and without its lists.\<close>
theorem shrink_record_ends:
  "(\<forall>n \<le> with_hunks r. \<exists>cs. shrink_times n r = Some (r\<lparr>chr_Changes := cs\<rparr>) \<and>
      with_hunks (r\<lparr>chr_Changes := cs\<rparr>) = with_hunks r - n \<and>
      list_all2 (\<lambda>c c'. c' = c \<or> c' = without_hunks c \<and> fc_Hunks c \<noteq> []) (chr_Changes r) cs) \<and>
   shrink_times (with_hunks r + lists_left r) r = Some (bare r) \<and>
   shrink_times (Suc (with_hunks r + lists_left r)) r = None"
proof (induction "with_hunks r" arbitrary: r)
  case 0
  have bare: "shrink_record (bare r) = None"
    by (simp add: shrink_record_none with_hunks_def lists_left_def bare_def)
  have "list_all2 (\<lambda>c c'. c' = c \<or> c' = without_hunks c \<and> fc_Hunks c \<noteq> []) (chr_Changes r) (chr_Changes r)"
    by (simp add: list_all2_same)
  then have "\<exists>cs. shrink_times 0 r = Some (r\<lparr>chr_Changes := cs\<rparr>) \<and> with_hunks (r\<lparr>chr_Changes := cs\<rparr>) = with_hunks r - 0 \<and>
      list_all2 (\<lambda>c c'. c' = c \<or> c' = without_hunks c \<and> fc_Hunks c \<noteq> []) (chr_Changes r) cs"
    by (intro exI [of _ "chr_Changes r"]) simp
  moreover have "shrink_times (lists_left r) r = Some (bare r) \<and> shrink_times (Suc (lists_left r)) r = None"
  proof (cases "lists_left r = 0")
    case True
    then have "bare r = r" by (simp add: lists_left_def bare_def split: if_splits)
    with True show ?thesis using shrink_record_none [of r] 0 by simp
  next
    case False
    then have "lists_left r = Suc 0" by (simp add: lists_left_def split: if_splits)
    then show ?thesis using shrink_record_none [of r] 0 bare by simp
  qed
  ultimately show ?case using 0 [symmetric] by simp
next
  case (Suc k)
  obtain cs1 where cs1: "shrink_record r = Some (r\<lparr>chr_Changes := cs1\<rparr>)"
    "k = with_hunks (r\<lparr>chr_Changes := cs1\<rparr>)"
    "list_all2 (\<lambda>c c'. c' = c \<or> c' = without_hunks c \<and> fc_Hunks c \<noteq> []) (chr_Changes r) cs1"
    using shrink_record_hunks [of r] Suc.hyps(2) by auto
  let ?r1 = "r\<lparr>chr_Changes := cs1\<rparr>"
  have left: "lists_left ?r1 = lists_left r" "bare ?r1 = bare r"
    using cs1(3) by (auto simp: lists_left_def bare_def)
  note IH = Suc.hyps(1) [OF cs1(2)]
  have "\<exists>cs. shrink_times n r = Some (r\<lparr>chr_Changes := cs\<rparr>) \<and>
      with_hunks (r\<lparr>chr_Changes := cs\<rparr>) = with_hunks r - n \<and>
      list_all2 (\<lambda>c c'. c' = c \<or> c' = without_hunks c \<and> fc_Hunks c \<noteq> []) (chr_Changes r) cs" if "n \<le> with_hunks r" for n
  proof (cases n)
    case 0
    then show ?thesis by (auto intro!: exI [of _ "chr_Changes r"] simp: list_all2_same)
  next
    case (Suc n')
    with that Suc.hyps(2) cs1(2) have "n' \<le> with_hunks ?r1" by simp
    with IH obtain cs where cs: "shrink_times n' ?r1 = Some (?r1\<lparr>chr_Changes := cs\<rparr>)"
      "with_hunks (?r1\<lparr>chr_Changes := cs\<rparr>) = with_hunks ?r1 - n'"
      "list_all2 (\<lambda>c c'. c' = c \<or> c' = without_hunks c \<and> fc_Hunks c \<noteq> []) cs1 cs" by auto
    have "with_hunks r - n = with_hunks ?r1 - n'" using Suc.hyps(2) cs1(2) \<open>n = Suc n'\<close> by simp
    with cs list_all2_dropped [OF cs1(3) cs(3)] \<open>n = Suc n'\<close> cs1(1) show ?thesis by auto
  qed
  moreover have "shrink_times (with_hunks r + lists_left r) r = Some (bare r)"
    "shrink_times (Suc (with_hunks r + lists_left r)) r = None"
    using IH cs1(1,2) left Suc.hyps(2) [symmetric] by auto
  ultimately show ?case by blast
qed

lemma shrink_record_ends_witness:
  "with_hunks sample_record = 1 \<and>
   (\<exists>cs. shrink_times 1 sample_record = Some (sample_record\<lparr>chr_Changes := cs\<rparr>) \<and> with_hunks (sample_record\<lparr>chr_Changes := cs\<rparr>) = 0) \<and>
   shrink_times 2 sample_record = Some (bare sample_record) \<and> shrink_times 3 sample_record = None"
proof -
  have n: "with_hunks sample_record + lists_left sample_record = 2" "Suc 2 = 3" by (simp_all add: sample_record_hunks)
  note ends = shrink_record_ends [of sample_record, unfolded n]
  have "\<exists>cs. shrink_times 1 sample_record = Some (sample_record\<lparr>chr_Changes := cs\<rparr>) \<and> with_hunks (sample_record\<lparr>chr_Changes := cs\<rparr>) = 0"
    using conjunct1 [OF ends, rule_format, of 1] by (auto simp only: sample_record_hunks(1) diff_self_eq_0 order.refl)
  with sample_record_hunks(1) ends show ?thesis by blast
qed

text \<open>An endpoint tells what it was made of: two endpoints are equal exactly when both files are absent, or
  both are present with the same bytes, where the hash does not collide on the two. So a file that is gone
  is never taken for one that was emptied.\<close>
theorem EndpointOf_inj:
  assumes "H b = H b' \<Longrightarrow> length b = length b' \<Longrightarrow> b = b'"
  shows "EndpointOf H b p = EndpointOf H b' p' \<longleftrightarrow> p = p' \<and> (p \<longrightarrow> b = b')"
  using assms by (auto simp: EndpointOf_def)

lemma EndpointOf_inj_witness:
  "EndpointOf (\<lambda>b. take 4 b) [] False \<noteq> EndpointOf (\<lambda>b. take 4 b) [] True"
  using EndpointOf_inj [of "\<lambda>b. take 4 b" "[]" "[]" False True] by simp

end
