(* ===== verification/Go_Struct.thy ===== *)
theory Go_Struct
  imports Go_Json
begin

text \<open>
  How \<^verbatim>\<open>encoding/json\<close> moves between a struct and an object: the fields
  \<open>Marshal\<close> writes, with \<open>omitempty\<close>, the text of a \<open>json.RawMessage\<close> it compacts, and the way
  \<open>Unmarshal\<close> assigns the members of an object to the fields one after another, with its
  case-insensitive names, so that a repeated name is assigned twice and an unknown one is passed over.
\<close>

section \<open>Compacting a raw message\<close>

datatype lex_mode = Outside | Inside | Escaped

fun next_mode :: "lex_mode \<Rightarrow> char \<Rightarrow> lex_mode" where
  "next_mode Outside c = (if c = CHR 0x22 then Inside else Outside)"
| "next_mode Inside c = (if c = CHR 0x22 then Outside else if c = CHR 0x5C then Escaped else Inside)"
| "next_mode Escaped c = Inside"

text \<open>\<open>appendCompact\<close> with HTML escaping, on a text that is a value.\<close>

function compact_from :: "lex_mode \<Rightarrow> string \<Rightarrow> string" where
  "compact_from m [] = []"
| "compact_from m (c # cs) =
    (if c = CHR ''<'' \<or> c = CHR ''>'' \<or> c = CHR ''&'' then u_escape (code c) @ compact_from (next_mode m c) cs
     else if take 3 (c # cs) = [CHR 0xE2, CHR 0x80, CHR 0xA8] then u_escape 0x2028 @ compact_from (next_mode m c) (drop 2 cs)
     else if take 3 (c # cs) = [CHR 0xE2, CHR 0x80, CHR 0xA9] then u_escape 0x2029 @ compact_from (next_mode m c) (drop 2 cs)
     else if m = Outside \<and> is_space c then compact_from m cs
     else c # compact_from (next_mode m c) cs)"
  by pat_completeness auto
termination
  by (relation "measure (length \<circ> snd)") auto

declare compact_from.simps [simp del]

definition compact :: "string \<Rightarrow> string option" where
  "compact s = (if parse s = None then None else Some (compact_from Outside s))"

definition copied :: "char \<Rightarrow> bool" where
  "copied c \<longleftrightarrow> c \<noteq> CHR ''<'' \<and> c \<noteq> CHR ''>'' \<and> c \<noteq> CHR ''&'' \<and> c \<noteq> CHR 0xE2"

lemma compact_keep:
  assumes "c \<noteq> CHR ''<''" "c \<noteq> CHR ''>''" "c \<noteq> CHR ''&''" and "m \<noteq> Outside \<or> \<not> is_space c"
    and "take 3 (c # y) \<noteq> [CHR 0xE2, CHR 0x80, CHR 0xA8]" "take 3 (c # y) \<noteq> [CHR 0xE2, CHR 0x80, CHR 0xA9]"
  shows "compact_from m (c # y) = c # compact_from (next_mode m c) y"
  using assms by (simp only: compact_from.simps(2)) auto

lemma compact_copied:
  "copied c \<Longrightarrow> m \<noteq> Outside \<or> \<not> is_space c \<Longrightarrow>
     compact_from m (c # cs) = c # compact_from (next_mode m c) cs"
  by (auto simp: compact_from.simps(2) copied_def)

lemma compact_inside:
  "\<forall>c \<in> set w. copied c \<and> c \<noteq> CHR 0x22 \<and> c \<noteq> CHR 0x5C \<Longrightarrow>
     compact_from Inside (w @ x) = w @ compact_from Inside x"
  by (induction w) (simp_all add: compact_copied)

lemma compact_outside:
  "\<forall>c \<in> set w. copied c \<and> c \<noteq> CHR 0x22 \<and> \<not> is_space c \<Longrightarrow>
     compact_from Outside (w @ x) = w @ compact_from Outside x"
  by (induction w) (simp_all add: compact_copied)

lemma hex_char_copied: "n < 16 \<Longrightarrow> copied (hex_char n) \<and> hex_char n \<noteq> CHR 0x22 \<and> hex_char n \<noteq> CHR 0x5C"
proof -
  assume "n < 16"
  then have "code (hex_char n) = (if n < 10 then 48 + n else 87 + n)" by (simp add: hex_char_def)
  with \<open>n < 16\<close> show ?thesis by (auto simp: copied_def split: if_splits)
qed

lemma compact_u_escape: "compact_from Inside (u_escape n @ x) = u_escape n @ compact_from Inside x"
proof -
  have "copied (CHR 0x5C)" "copied (CHR ''u'')" by (simp_all add: copied_def)
  then show ?thesis
    using compact_inside [of "drop 2 (u_escape n)" x]
    by (simp add: u_escape_def compact_copied hex_char_copied)
qed

lemma compact_escape_byte:
  assumes "code c < 0x80"
  shows "compact_from Inside (escape_byte c @ x) = escape_byte c @ compact_from Inside x"
proof -
  have "copied (CHR 0x5C)" "copied (CHR 0x22)" "copied (CHR ''b'')" "copied (CHR ''f'')" "copied (CHR ''n'')"
    "copied (CHR ''r'')" "copied (CHR ''t'')"
    by (simp_all add: copied_def)
  moreover have "c \<noteq> CHR 0xE2" using assms by auto
  then have "c \<noteq> CHR ''<'' \<Longrightarrow> c \<noteq> CHR ''>'' \<Longrightarrow> c \<noteq> CHR ''&'' \<Longrightarrow> copied c" by (simp add: copied_def)
  ultimately show ?thesis
    by (auto simp: escape_byte_def compact_u_escape compact_copied)
qed

lemma cont_byte_copied: "cont_byte c \<Longrightarrow> copied c \<and> c \<noteq> CHR 0x22 \<and> c \<noteq> CHR 0x5C"
  by (auto simp: cont_byte_def copied_def)

lemma utf8_tail_cont: "utf8_size (a # s) = Some n \<Longrightarrow> c \<in> set (take (n - 1) s) \<Longrightarrow> cont_byte c"
  by (induction "a # s" rule: utf8_size.induct)
    (auto simp: numeral_eq_Suc split: if_splits list.splits)

lemma utf8_size_E2: "utf8_size (CHR 0xE2 # s) = Some n \<Longrightarrow> n = 3"
  by (cases s) (auto split: if_splits list.splits)

lemma compact_rune:
  assumes "utf8_size (c # cs) = Some n"
    and "take n (c # cs) \<noteq> [CHR 0xE2, CHR 0x80, CHR 0xA8]"
    and "take n (c # cs) \<noteq> [CHR 0xE2, CHR 0x80, CHR 0xA9]"
  shows "compact_from Inside (take n (c # cs) @ x) = take n (c # cs) @ compact_from Inside x"
proof -
  obtain k where n: "n = Suc k" using utf8_size_bounds [OF assms(1)] by (cases n) auto
  let ?w = "take k cs"
  have tail: "\<forall>b \<in> set ?w. copied b \<and> b \<noteq> CHR 0x22 \<and> b \<noteq> CHR 0x5C"
    using utf8_tail_cont [OF assms(1)] cont_byte_copied n by auto
  have big: "0x80 \<le> code c" using utf8_size_head [OF assms(1)] .
  then have plain: "c \<noteq> CHR ''<''" "c \<noteq> CHR ''>''" "c \<noteq> CHR ''&''" "c \<noteq> CHR 0x22" "c \<noteq> CHR 0x5C" by auto
  have sep: "take 3 (c # ?w @ x) \<noteq> [CHR 0xE2, CHR 0x80, e]" if e: "e = CHR 0xA8 \<or> e = CHR 0xA9" for e
  proof
    assume eq: "take 3 (c # ?w @ x) = [CHR 0xE2, CHR 0x80, e]"
    then have "c = CHR 0xE2" by simp
    then have n3: "n = 3" using utf8_size_E2 assms(1) by blast
    moreover have "length (take n (c # cs)) = n" using utf8_size_bounds [OF assms(1)] by simp
    ultimately have "take 3 (take n (c # cs) @ x) = take n (c # cs)" by simp
    with eq n assms(2,3) e show False by auto
  qed
  have "compact_from Inside (c # ?w @ x) = c # compact_from Inside (?w @ x)"
    using compact_keep [OF plain(1-3) _ sep sep, of Inside] plain by simp
  with compact_inside [OF tail] show ?thesis by (simp add: n)
qed

lemma compact_quote_body: "compact_from Inside (quote_body s @ x) = quote_body s @ compact_from Inside x"
proof (induction s rule: quote_body.induct)
  case 1
  then show ?case by (simp add: quote_body.simps)
next
  case (2 c cs)
  show ?case
  proof (cases "code c < 0x80")
    case True
    with 2(1) show ?thesis by (simp add: quote_body.simps(2) compact_escape_byte)
  next
    case big: False
    show ?thesis
    proof (cases "utf8_size (c # cs)")
      case None
      with big 2(2) show ?thesis by (simp add: quote_body.simps(2) compact_u_escape)
    next
      case (Some n)
      from compact_rune [OF Some] 2(3) [OF big Some] big Some show ?thesis
        by (simp add: quote_body.simps(2) compact_u_escape)
    qed
  qed
qed

lemma compact_quote: "compact_from Outside (quote s @ x) = quote s @ compact_from Outside x"
  using compact_quote_body [of s "CHR 0x22 # x"]
  by (simp add: quote_def compact_copied copied_def is_space_def)

definition number_char :: "char \<Rightarrow> bool" where
  "number_char c \<longleftrightarrow> is_digit c \<or> c \<in> {CHR ''-'', CHR ''+'', CHR ''.'', CHR ''e'', CHR ''E''}"

lemma dropWhile_chars: "c \<in> set t \<Longrightarrow> P c \<or> c \<in> set (dropWhile P t)"
  by (induction t) auto

lemma digits1_chars: "digits1 t = Some r \<Longrightarrow> c \<in> set t \<Longrightarrow> number_char c \<or> c \<in> set r"
  using dropWhile_chars [of c _ is_digit] by (cases t) (auto simp: digits1.simps number_char_def split: if_splits)

lemma unsigned_exp_chars: "unsigned_exp t = Some r \<Longrightarrow> c \<in> set t \<Longrightarrow> number_char c \<or> c \<in> set r"
  using digits1_chars [of _ r c] by (cases t) (auto simp: number_char_def split: if_splits)

lemma zero_char: "number_char (CHR ''0'')"
  by (simp add: number_char_def is_digit_def)

lemma int_part_chars:
  assumes "int_part t = Some r" "c \<in> set t"
  shows "number_char c \<or> c \<in> set r"
proof (cases t)
  case (Cons d u)
  then show ?thesis
    using assms digits1_chars [of "d # u" r c] zero_char
    by (cases "d = CHR ''0''") auto
qed (use assms in simp)

lemma frac_part_chars:
  assumes "frac_part t = Some r" "c \<in> set t"
  shows "number_char c \<or> c \<in> set r"
proof (cases t)
  case (Cons d u)
  then show ?thesis
    using assms digits1_chars [of u r c] by (cases "d = CHR ''.''") (auto simp: number_char_def)
qed (use assms in simp)

lemma exp_part_chars:
  assumes "exp_part t = Some r" "c \<in> set t"
  shows "number_char c \<or> c \<in> set r"
proof (cases t)
  case (Cons d u)
  then show ?thesis
    using assms unsigned_exp_chars [of u r c] by (cases "d = CHR ''e'' \<or> d = CHR ''E''") (auto simp: number_char_def)
qed (use assms in simp)

lemma minus_part_chars: "c \<in> set t \<Longrightarrow> number_char c \<or> c \<in> set (minus_part t)"
  by (cases t) (auto simp: number_char_def)

lemma number_chars:
  assumes "number_end t = Some []" "c \<in> set t"
  shows "number_char c"
proof -
  obtain a b where "int_part (minus_part t) = Some a" "frac_part a = Some b" "exp_part b = Some []"
    using assms(1) by (auto simp: number_end_def bind_eq_Some_conv)
  with assms(2) show ?thesis
    using minus_part_chars int_part_chars frac_part_chars exp_part_chars by fastforce
qed

lemma number_char_plain: "number_char c \<Longrightarrow> copied c \<and> c \<noteq> CHR 0x22 \<and> \<not> is_space c"
  by (auto simp: number_char_def copied_def is_space_def is_digit_def)

lemma compact_char:
  "c \<in> {CHR '','', CHR '':'', CHR ''['', CHR '']'', CHR ''{'', CHR ''}''} \<Longrightarrow>
     compact_from Outside (c # x) = c # compact_from Outside x"
  by (auto simp: compact_copied copied_def is_space_def)

lemma compact_commas:
  "\<forall>t \<in> set ts. \<forall>x. compact_from Outside (t @ x) = t @ compact_from Outside x \<Longrightarrow>
     compact_from Outside (commas ts @ x) = commas ts @ compact_from Outside x"
  by (induction ts arbitrary: x rule: commas.induct) (simp_all add: compact_char)

lemma list_all2_snd: "list_all2 P xs ys \<Longrightarrow> (\<And>x y. x \<in> set xs \<Longrightarrow> P x y \<Longrightarrow> Q x) \<Longrightarrow> \<forall>x \<in> set xs. Q x"
  by (metis in_set_conv_nth list_all2_conv_all_nth)

lemma compact_written: "written d t j \<Longrightarrow> compact_from Outside (t @ x) = t @ compact_from Outside x"
proof (induction arbitrary: x rule: written.induct)
  case (written_num t d)
  then show ?case using number_chars number_char_plain by (intro compact_outside) blast
next
  case (written_str s d)
  then show ?case by (simp add: compact_quote)
next
  case (written_arr d ts js)
  then have "\<forall>t \<in> set ts. \<forall>x. compact_from Outside (t @ x) = t @ compact_from Outside x"
    by (rule list_all2_snd) auto
  then show ?case by (simp add: arr_text_def compact_char compact_commas)
next
  case (written_obj d kts ms)
  then have "\<forall>kt \<in> set kts. \<forall>x. compact_from Outside (snd kt @ x) = snd kt @ compact_from Outside x"
    by (rule list_all2_snd) auto
  then have "\<forall>t \<in> set (map (\<lambda>(k, t). quote k @ CHR '':'' # t) kts).
      \<forall>x. compact_from Outside (t @ x) = t @ compact_from Outside x"
    by (auto simp: compact_quote compact_char)
  then show ?case by (simp add: obj_text_def compact_char compact_commas)
qed (auto intro!: compact_outside simp: copied_def is_space_def simp flip: append_Cons)

lemma compact_id: "written d t j \<Longrightarrow> d \<le> 10000 \<Longrightarrow> compact t = Some t"
  using compact_written [of d t j "[]"] parse_written by (simp add: compact_def compact_from.simps(1))

section \<open>One line\<close>

text \<open>A value as it is written holds no newline.\<close>

lemma hex_char_no_newline: "n < 16 \<Longrightarrow> hex_char n \<noteq> CHR 0x0A"
proof
  assume "n < 16" "hex_char n = CHR 0x0A"
  then have "code (hex_char n) = 10" by simp
  with \<open>n < 16\<close> show False by (simp add: hex_char_def split: if_splits)
qed

lemma u_escape_no_newline: "CHR 0x0A \<notin> set (u_escape n)"
  using hex_char_no_newline [symmetric] by (simp add: u_escape_def)

lemma escape_byte_no_newline: "CHR 0x0A \<notin> set (escape_byte c)"
  using u_escape_no_newline by (auto simp: escape_byte_def)

lemma rune_no_newline:
  assumes "utf8_size (c # cs) = Some n"
  shows "CHR 0x0A \<notin> set (take n (c # cs))"
proof -
  obtain k where n: "n = Suc k" using utf8_size_bounds [OF assms] by (cases n) auto
  have "\<forall>b \<in> set (take k cs). cont_byte b" using utf8_tail_cont [OF assms] n by auto
  then have "CHR 0x0A \<notin> set (take k cs)" by (auto simp: cont_byte_def)
  moreover have "c \<noteq> CHR 0x0A" using utf8_size_head [OF assms] by auto
  ultimately show ?thesis by (simp add: n)
qed

lemma quote_no_newline: "CHR 0x0A \<notin> set (quote s)"
proof -
  have "CHR 0x0A \<notin> set (quote_body s)"
  proof (induction s rule: quote_body.induct)
    case 1
    then show ?case by (simp add: quote_body.simps)
  next
    case (2 c cs)
    then show ?case
      using escape_byte_no_newline u_escape_no_newline rune_no_newline [of c cs]
      by (cases "code c < 0x80"; cases "utf8_size (c # cs)") (simp_all add: quote_body.simps(2))
  qed
  then show ?thesis by (simp add: quote_def)
qed

lemma commas_no_newline: "\<forall>t \<in> set ts. CHR 0x0A \<notin> set t \<Longrightarrow> CHR 0x0A \<notin> set (commas ts)"
  by (induction ts rule: commas.induct) auto

lemma written_no_newline: "written d t j \<Longrightarrow> CHR 0x0A \<notin> set t"
proof (induction rule: written.induct)
  case (written_num t d)
  then show ?case using number_chars number_char_plain by (metis is_space_def)
next
  case (written_str s d)
  then show ?case by (simp add: quote_no_newline)
next
  case (written_arr d ts js)
  then have "\<forall>t \<in> set ts. CHR 0x0A \<notin> set t" by (rule list_all2_snd) auto
  then show ?case by (simp add: arr_text_def commas_no_newline)
next
  case (written_obj d kts ms)
  then have "\<forall>kt \<in> set kts. CHR 0x0A \<notin> set (snd kt)" by (rule list_all2_snd) auto
  then have "\<forall>t \<in> set (map (\<lambda>(k, t). quote k @ CHR '':'' # t) kts). CHR 0x0A \<notin> set t"
    by (auto simp: quote_no_newline)
  then have "CHR 0x0A \<notin> set (commas (map (\<lambda>(k, t). quote k @ CHR '':'' # t) kts))"
    by (rule commas_no_newline)
  then show ?case by (simp add: obj_text_def)
qed simp_all

section \<open>Assigning members to fields\<close>

text \<open>\<open>foldName\<close>, as far as it can make a name of ASCII letters: upper case, with the long s and the
  Kelvin sign folded to S and K.\<close>

function fold_name :: "string \<Rightarrow> string" where
  "fold_name [] = []"
| "fold_name (c # cs) =
    (if 97 \<le> code c \<and> code c \<le> 122 then char_of (code c - 32) # fold_name cs
     else if take 2 (c # cs) = [CHR 0xC5, CHR 0xBF] then CHR ''S'' # fold_name (drop 1 cs)
     else if take 3 (c # cs) = [CHR 0xE2, CHR 0x84, CHR 0xAA] then CHR ''K'' # fold_name (drop 2 cs)
     else c # fold_name cs)"
  by pat_completeness auto
termination
  by (relation "measure length") auto

declare fold_name.simps [simp del]

fun assign_members :: "(string \<Rightarrow> json \<Rightarrow> 'a \<Rightarrow> 'a option) \<Rightarrow> (string \<times> json) list \<Rightarrow> 'a \<Rightarrow> 'a option" where
  "assign_members f [] x = Some x"
| "assign_members f ((k, j) # ms) x = Option.bind (f k j x) (assign_members f ms)"

definition into_struct :: "(string \<Rightarrow> json \<Rightarrow> 'a \<Rightarrow> 'a option) \<Rightarrow> json \<Rightarrow> 'a \<Rightarrow> 'a option" where
  "into_struct f j x = (case j of JObj _ ms \<Rightarrow> assign_members f ms x | JNull \<Rightarrow> Some x | _ \<Rightarrow> None)"

lemma into_struct_simps [simp]:
  "into_struct f (JObj t ms) x = assign_members f ms x" "into_struct f JNull x = Some x"
  by (simp_all add: into_struct_def)

fun into_string :: "json \<Rightarrow> string \<Rightarrow> string option" where
  "into_string (JStr _ v) s = Some v"
| "into_string JNull s = Some s"
| "into_string _ s = None"

fun into_bool :: "json \<Rightarrow> bool \<Rightarrow> bool option" where
  "into_bool (JBool v) b = Some v"
| "into_bool JNull b = Some b"
| "into_bool _ b = None"

fun into_u64 :: "json \<Rightarrow> u64 \<Rightarrow> u64 option" where
  "into_u64 (JNum t) n = map_option of_nat (parse_uint 64 t)"
| "into_u64 JNull n = Some n"
| "into_u64 _ n = None"

fun into_int :: "json \<Rightarrow> int \<Rightarrow> int option" where
  "into_int (JNum t) n = parse_int64 t"
| "into_int JNull n = Some n"
| "into_int _ n = None"

text \<open>A pointer field: null clears it, anything else is read into what it points at.\<close>

definition into_pointer :: "(json \<Rightarrow> 'a \<Rightarrow> 'a option) \<Rightarrow> 'a \<Rightarrow> json \<Rightarrow> 'a option \<Rightarrow> 'a option option" where
  "into_pointer f zero j p =
    (if j = JNull then Some None
     else map_option Some (f j (case p of Some x \<Rightarrow> x | None \<Rightarrow> zero)))"

text \<open>A slice field: an element is read into the one that stands at its place already.\<close>

fun into_elems :: "(json \<Rightarrow> 'a \<Rightarrow> 'a option) \<Rightarrow> 'a \<Rightarrow> json list \<Rightarrow> 'a list \<Rightarrow> 'a list option" where
  "into_elems f zero [] xs = Some []"
| "into_elems f zero (j # js) xs =
    Option.bind (f j (case xs of x # _ \<Rightarrow> x | [] \<Rightarrow> zero)) (\<lambda>y.
      map_option (Cons y) (into_elems f zero js (tl xs)))"

definition into_slice :: "(json \<Rightarrow> 'a \<Rightarrow> 'a option) \<Rightarrow> 'a \<Rightarrow> json \<Rightarrow> 'a list \<Rightarrow> 'a list option" where
  "into_slice f zero j xs =
    (case j of JNull \<Rightarrow> Some [] | JArr _ js \<Rightarrow> into_elems f zero js xs | _ \<Rightarrow> None)"

text \<open>A \<open>json.RawMessage\<close> field.\<close>

definition into_raw :: "json \<Rightarrow> string \<Rightarrow> string option" where
  "into_raw j s = Some (raw j)"

text \<open>One member into one field.\<close>

definition set_str :: "(string \<Rightarrow> 'a) \<Rightarrow> json \<Rightarrow> string \<Rightarrow> 'a option" where
  "set_str upd j old = map_option upd (into_string j old)"

definition set_u64 :: "(u64 \<Rightarrow> 'a) \<Rightarrow> json \<Rightarrow> u64 \<Rightarrow> 'a option" where
  "set_u64 upd j old = map_option upd (into_u64 j old)"

definition set_int :: "(int \<Rightarrow> 'a) \<Rightarrow> json \<Rightarrow> int \<Rightarrow> 'a option" where
  "set_int upd j old = map_option upd (into_int j old)"

definition set_bool :: "(bool \<Rightarrow> 'a) \<Rightarrow> json \<Rightarrow> bool \<Rightarrow> 'a option" where
  "set_bool upd j old = map_option upd (into_bool j old)"

definition set_count :: "(int option \<Rightarrow> 'a) \<Rightarrow> json \<Rightarrow> int option \<Rightarrow> 'a option" where
  "set_count upd j old = map_option upd (into_pointer into_int 0 j old)"

lemmas setters = set_str_def set_u64_def set_int_def set_bool_def set_count_def

definition set_strs :: "(string list \<Rightarrow> 'a) \<Rightarrow> json \<Rightarrow> string list \<Rightarrow> 'a option" where
  "set_strs upd j old = map_option upd (into_slice into_string [] j old)"

definition set_struct :: "('b \<Rightarrow> 'a) \<Rightarrow> (string \<Rightarrow> json \<Rightarrow> 'b \<Rightarrow> 'b option) \<Rightarrow> json \<Rightarrow> 'b \<Rightarrow> 'a option" where
  "set_struct upd f j old = map_option upd (into_struct f j old)"

definition set_pointer :: "('b option \<Rightarrow> 'a) \<Rightarrow> (string \<Rightarrow> json \<Rightarrow> 'b \<Rightarrow> 'b option) \<Rightarrow> 'b \<Rightarrow> json \<Rightarrow> 'b option \<Rightarrow> 'a option" where
  "set_pointer upd f zero j old = map_option upd (into_pointer (into_struct f) zero j old)"

definition set_slice :: "('b list \<Rightarrow> 'a) \<Rightarrow> (string \<Rightarrow> json \<Rightarrow> 'b \<Rightarrow> 'b option) \<Rightarrow> 'b \<Rightarrow> json \<Rightarrow> 'b list \<Rightarrow> 'a option" where
  "set_slice upd f zero j old = map_option upd (into_slice (into_struct f) zero j old)"

section \<open>Writing fields\<close>

definition if_set :: "bool \<Rightarrow> string \<Rightarrow> string \<Rightarrow> (string \<times> string) list" where
  "if_set b name t = (if b then [(name, t)] else [])"

definition str_field :: "string \<Rightarrow> string \<Rightarrow> string \<times> string" where
  "str_field name s = (name, quote s)"

definition str_opt :: "string \<Rightarrow> string \<Rightarrow> (string \<times> string) list" where
  "str_opt name s = if_set (s \<noteq> []) name (quote s)"

definition u64_text :: "u64 \<Rightarrow> string" where
  "u64_text n = FormatUint (unat n)"

definition int_opt :: "string \<Rightarrow> int option \<Rightarrow> (string \<times> string) list" where
  "int_opt name i = (case i of None \<Rightarrow> [] | Some n \<Rightarrow> [(name, Itoa n)])"

lemma into_u64_text: "into_u64 (JNum (u64_text n)) x = Some n"
proof -
  have "parse_uint 64 (u64_text n) = Some (unat n)"
    unfolding u64_text_def using unsigned_less [of n, where ?'a = nat] by (intro parse_uint_FormatUint) simp
  then show ?thesis by simp
qed

definition int64_range :: "int \<Rightarrow> bool" where
  "int64_range i \<longleftrightarrow> - (2 ^ 63) \<le> i \<and> i < 2 ^ 63"

lemma into_int_text: "int64_range i \<Longrightarrow> into_int (JNum (Itoa i)) x = Some i"
  by (simp add: parse_int64_Itoa int64_range_def)

lemma assign_members_append:
  "assign_members f (ms @ ns) x = Option.bind (assign_members f ms x) (assign_members f ns)"
proof (induction ms arbitrary: x)
  case (Cons m ms)
  then show ?case by (cases m, cases "f (fst m) (snd m) x") simp_all
qed simp

end
