(* ===== verification/Change_Read.thy ===== *)
theory Change_Read
  imports Change_Record Go_Struct
begin

text \<open>
  \<open>Decode\<close> of \<^verbatim>\<open>pkg/changes/changes.go\<close>: the assignment of the members of an object to a
  change record and the structs inside it, by the names their \<open>json\<close> tags give, and the check that what
  was read is a change record at all.
\<close>

section \<open>Zero values\<close>

definition zero_root :: change_root where
  "zero_root = \<lparr>cro_Path = [], cro_ID = []\<rparr>"

definition zero_policy :: change_policy where
  "zero_policy = \<lparr>cpo_Exclusions = [], cpo_ReadOnly = [], cpo_Expanded = []\<rparr>"

definition zero_interval :: change_interval where
  "zero_interval = \<lparr>civ_From = [], civ_To = []\<rparr>"

definition zero_window :: change_window where
  "zero_window = \<lparr>cwi_Before = zero_interval, cwi_After = zero_interval\<rparr>"

definition zero_outcome :: change_outcome where
  "zero_outcome = \<lparr>cou_State = [], cou_ExitCode = None\<rparr>"

definition zero_overlap :: overlap where
  "zero_overlap = \<lparr>cov_Capture = [], cov_Session = [], cov_Stream = [], cov_Tool = [], cov_ToolName = [],
     cov_State = []\<rparr>"

definition zero_endpoint :: endpoint where
  "zero_endpoint = \<lparr>ep_Present = False, ep_Bytes = None, ep_SHA256 = [], ep_NoNewlineAtEnd = False\<rparr>"

definition zero_hunk :: hunk where
  "zero_hunk = \<lparr>hk_OldStart = 0, hk_OldLines = 0, hk_NewStart = 0, hk_NewLines = 0, hk_Lines = []\<rparr>"

definition zero_file :: file_change where
  "zero_file = \<lparr>fc_Path = [], fc_Operation = [], fc_Before = zero_endpoint, fc_After = zero_endpoint,
     fc_Diff = [], fc_Attribution = [], fc_Windows = [], fc_Additions = None, fc_Deletions = None,
     fc_Hunks = []\<rparr>"

definition zero_change :: change_record where
  "zero_change = \<lparr>chr_Schema = [], chr_ID = [], chr_CapturedBy = [], chr_Session = [], chr_Stream = [],
     chr_Tool = [], chr_ToolName = [], chr_Time = [], chr_Basis = [], chr_Root = None, chr_Policy = None,
     chr_Window = None, chr_Outcome = None, chr_Coverage = [], chr_Gaps = [], chr_Overlaps = [],
     chr_ChangedFiles = None, chr_Changes = []\<rparr>"

section \<open>Members to fields\<close>

definition root_field :: "string \<Rightarrow> json \<Rightarrow> change_root \<Rightarrow> change_root option" where
  "root_field key j x = (let n = fold_name key in
     if n = ''PATH'' then set_str (\<lambda>v. x\<lparr>cro_Path := v\<rparr>) j (cro_Path x)
     else if n = ''ID'' then set_str (\<lambda>v. x\<lparr>cro_ID := v\<rparr>) j (cro_ID x)
     else Some x)"

definition policy_field :: "string \<Rightarrow> json \<Rightarrow> change_policy \<Rightarrow> change_policy option" where
  "policy_field key j x = (let n = fold_name key in
     if n = ''EXCLUSIONS'' then set_str (\<lambda>v. x\<lparr>cpo_Exclusions := v\<rparr>) j (cpo_Exclusions x)
     else if n = ''READ_ONLY'' then set_str (\<lambda>v. x\<lparr>cpo_ReadOnly := v\<rparr>) j (cpo_ReadOnly x)
     else if n = ''EXPANDED'' then set_strs (\<lambda>v. x\<lparr>cpo_Expanded := v\<rparr>) j (cpo_Expanded x)
     else Some x)"

definition interval_field :: "string \<Rightarrow> json \<Rightarrow> change_interval \<Rightarrow> change_interval option" where
  "interval_field key j x = (let n = fold_name key in
     if n = ''FROM'' then set_str (\<lambda>v. x\<lparr>civ_From := v\<rparr>) j (civ_From x)
     else if n = ''TO'' then set_str (\<lambda>v. x\<lparr>civ_To := v\<rparr>) j (civ_To x)
     else Some x)"

definition window_field :: "string \<Rightarrow> json \<Rightarrow> change_window \<Rightarrow> change_window option" where
  "window_field key j x = (let n = fold_name key in
     if n = ''BEFORE'' then set_struct (\<lambda>v. x\<lparr>cwi_Before := v\<rparr>) interval_field j (cwi_Before x)
     else if n = ''AFTER'' then set_struct (\<lambda>v. x\<lparr>cwi_After := v\<rparr>) interval_field j (cwi_After x)
     else Some x)"

definition outcome_field :: "string \<Rightarrow> json \<Rightarrow> change_outcome \<Rightarrow> change_outcome option" where
  "outcome_field key j x = (let n = fold_name key in
     if n = ''STATE'' then set_str (\<lambda>v. x\<lparr>cou_State := v\<rparr>) j (cou_State x)
     else if n = ''EXIT_CODE'' then set_count (\<lambda>v. x\<lparr>cou_ExitCode := v\<rparr>) j (cou_ExitCode x)
     else Some x)"

definition overlap_field :: "string \<Rightarrow> json \<Rightarrow> overlap \<Rightarrow> overlap option" where
  "overlap_field key j x = (let n = fold_name key in
     if n = ''CAPTURE'' then set_str (\<lambda>v. x\<lparr>cov_Capture := v\<rparr>) j (cov_Capture x)
     else if n = ''SESSION'' then set_str (\<lambda>v. x\<lparr>cov_Session := v\<rparr>) j (cov_Session x)
     else if n = ''STREAM'' then set_str (\<lambda>v. x\<lparr>cov_Stream := v\<rparr>) j (cov_Stream x)
     else if n = ''TOOL'' then set_str (\<lambda>v. x\<lparr>cov_Tool := v\<rparr>) j (cov_Tool x)
     else if n = ''TOOL_NAME'' then set_str (\<lambda>v. x\<lparr>cov_ToolName := v\<rparr>) j (cov_ToolName x)
     else if n = ''STATE'' then set_str (\<lambda>v. x\<lparr>cov_State := v\<rparr>) j (cov_State x)
     else Some x)"

definition endpoint_field :: "string \<Rightarrow> json \<Rightarrow> endpoint \<Rightarrow> endpoint option" where
  "endpoint_field key j x = (let n = fold_name key in
     if n = ''PRESENT'' then set_bool (\<lambda>v. x\<lparr>ep_Present := v\<rparr>) j (ep_Present x)
     else if n = ''BYTES'' then set_count (\<lambda>v. x\<lparr>ep_Bytes := v\<rparr>) j (ep_Bytes x)
     else if n = ''SHA256'' then set_str (\<lambda>v. x\<lparr>ep_SHA256 := v\<rparr>) j (ep_SHA256 x)
     else if n = ''NO_NEWLINE_AT_END'' then set_bool (\<lambda>v. x\<lparr>ep_NoNewlineAtEnd := v\<rparr>) j (ep_NoNewlineAtEnd x)
     else Some x)"

definition hunk_field :: "string \<Rightarrow> json \<Rightarrow> hunk \<Rightarrow> hunk option" where
  "hunk_field key j x = (let n = fold_name key in
     if n = ''OLD_START'' then set_int (\<lambda>v. x\<lparr>hk_OldStart := v\<rparr>) j (hk_OldStart x)
     else if n = ''OLD_LINES'' then set_int (\<lambda>v. x\<lparr>hk_OldLines := v\<rparr>) j (hk_OldLines x)
     else if n = ''NEW_START'' then set_int (\<lambda>v. x\<lparr>hk_NewStart := v\<rparr>) j (hk_NewStart x)
     else if n = ''NEW_LINES'' then set_int (\<lambda>v. x\<lparr>hk_NewLines := v\<rparr>) j (hk_NewLines x)
     else if n = ''LINES'' then set_strs (\<lambda>v. x\<lparr>hk_Lines := v\<rparr>) j (hk_Lines x)
     else Some x)"

definition file_field :: "string \<Rightarrow> json \<Rightarrow> file_change \<Rightarrow> file_change option" where
  "file_field key j x = (let n = fold_name key in
     if n = ''PATH'' then set_str (\<lambda>v. x\<lparr>fc_Path := v\<rparr>) j (fc_Path x)
     else if n = ''OPERATION'' then set_str (\<lambda>v. x\<lparr>fc_Operation := v\<rparr>) j (fc_Operation x)
     else if n = ''BEFORE'' then set_struct (\<lambda>v. x\<lparr>fc_Before := v\<rparr>) endpoint_field j (fc_Before x)
     else if n = ''AFTER'' then set_struct (\<lambda>v. x\<lparr>fc_After := v\<rparr>) endpoint_field j (fc_After x)
     else if n = ''DIFF'' then set_str (\<lambda>v. x\<lparr>fc_Diff := v\<rparr>) j (fc_Diff x)
     else if n = ''ATTRIBUTION'' then set_str (\<lambda>v. x\<lparr>fc_Attribution := v\<rparr>) j (fc_Attribution x)
     else if n = ''WINDOWS'' then set_strs (\<lambda>v. x\<lparr>fc_Windows := v\<rparr>) j (fc_Windows x)
     else if n = ''ADDITIONS'' then set_count (\<lambda>v. x\<lparr>fc_Additions := v\<rparr>) j (fc_Additions x)
     else if n = ''DELETIONS'' then set_count (\<lambda>v. x\<lparr>fc_Deletions := v\<rparr>) j (fc_Deletions x)
     else if n = ''HUNKS'' then set_slice (\<lambda>v. x\<lparr>fc_Hunks := v\<rparr>) hunk_field zero_hunk j (fc_Hunks x)
     else Some x)"

definition change_field :: "string \<Rightarrow> json \<Rightarrow> change_record \<Rightarrow> change_record option" where
  "change_field key j x = (let n = fold_name key in
     if n = ''SCHEMA'' then set_str (\<lambda>v. x\<lparr>chr_Schema := v\<rparr>) j (chr_Schema x)
     else if n = ''ID'' then set_str (\<lambda>v. x\<lparr>chr_ID := v\<rparr>) j (chr_ID x)
     else if n = ''CAPTURED_BY'' then set_str (\<lambda>v. x\<lparr>chr_CapturedBy := v\<rparr>) j (chr_CapturedBy x)
     else if n = ''SESSION'' then set_str (\<lambda>v. x\<lparr>chr_Session := v\<rparr>) j (chr_Session x)
     else if n = ''STREAM'' then set_str (\<lambda>v. x\<lparr>chr_Stream := v\<rparr>) j (chr_Stream x)
     else if n = ''TOOL'' then set_str (\<lambda>v. x\<lparr>chr_Tool := v\<rparr>) j (chr_Tool x)
     else if n = ''TOOL_NAME'' then set_str (\<lambda>v. x\<lparr>chr_ToolName := v\<rparr>) j (chr_ToolName x)
     else if n = ''TIME'' then set_str (\<lambda>v. x\<lparr>chr_Time := v\<rparr>) j (chr_Time x)
     else if n = ''BASIS'' then set_str (\<lambda>v. x\<lparr>chr_Basis := v\<rparr>) j (chr_Basis x)
     else if n = ''ROOT'' then set_pointer (\<lambda>v. x\<lparr>chr_Root := v\<rparr>) root_field zero_root j (chr_Root x)
     else if n = ''POLICY'' then set_pointer (\<lambda>v. x\<lparr>chr_Policy := v\<rparr>) policy_field zero_policy j (chr_Policy x)
     else if n = ''WINDOW'' then set_pointer (\<lambda>v. x\<lparr>chr_Window := v\<rparr>) window_field zero_window j (chr_Window x)
     else if n = ''OUTCOME'' then set_pointer (\<lambda>v. x\<lparr>chr_Outcome := v\<rparr>) outcome_field zero_outcome j (chr_Outcome x)
     else if n = ''COVERAGE'' then set_str (\<lambda>v. x\<lparr>chr_Coverage := v\<rparr>) j (chr_Coverage x)
     else if n = ''GAPS'' then set_strs (\<lambda>v. x\<lparr>chr_Gaps := v\<rparr>) j (chr_Gaps x)
     else if n = ''OVERLAPS'' then set_slice (\<lambda>v. x\<lparr>chr_Overlaps := v\<rparr>) overlap_field zero_overlap j (chr_Overlaps x)
     else if n = ''CHANGED_FILES'' then set_count (\<lambda>v. x\<lparr>chr_ChangedFiles := v\<rparr>) j (chr_ChangedFiles x)
     else if n = ''CHANGES'' then set_slice (\<lambda>v. x\<lparr>chr_Changes := v\<rparr>) file_field zero_file j (chr_Changes x)
     else Some x)"

section \<open>Decode\<close>

definition Decode :: "string \<Rightarrow> change_record option" where
  "Decode s =
    (if s = [] \<or> hd s \<noteq> CHR ''{'' then None else
     case parse s of
       None \<Rightarrow> None
     | Some j \<Rightarrow>
        (case into_struct change_field j zero_change of
           None \<Rightarrow> None
         | Some r \<Rightarrow> if chr_Schema r \<noteq> changes_Schema then None else Some r))"

lemma Decode_schema: "Decode s = Some r \<Longrightarrow> chr_Schema r = changes_Schema"
  by (auto simp: Decode_def split: if_splits option.splits)

end
