(* ===== verification/Flow_Data.thy ===== *)
theory Flow_Data
  imports Go_Struct
begin

text \<open>
  The frames of a Session Flow round, \<^verbatim>\<open>pkg/sessionflow/sessionflow.go\<close>: the header with
  its checks, the three kinds of entity, the commit frame, and the provider bodies a node's attributes
  carry. The embedding of \<open>Entity\<close> in a Go struct is the extension of a record. For each frame there
  is the text \<open>json.Marshal\<close> writes of it and the assignment of its members \<open>json.Unmarshal\<close> makes,
  and a lemma that the second undoes the first.
\<close>

definition Schema :: string where "Schema = ''sf/1''"

definition FrameHeader :: string where "FrameHeader = ''header''"
definition FrameNode :: string where "FrameNode = ''node''"
definition FrameRelation :: string where "FrameRelation = ''relation''"
definition FrameUnresolved :: string where "FrameUnresolved = ''unresolved''"
definition FrameCommit :: string where "FrameCommit = ''commit''"

definition UnresolvedOpen :: string where "UnresolvedOpen = ''open''"
definition UnresolvedResolved :: string where "UnresolvedResolved = ''resolved''"
definition UnresolvedTerminal :: string where "UnresolvedTerminal = ''terminal''"

definition RoleRequest :: string where "RoleRequest = ''request''"
definition RoleResponse :: string where "RoleResponse = ''response''"
definition ProviderBodiesAttr :: string where "ProviderBodiesAttr = ''provider_bodies''"

lemmas frame_names = FrameHeader_def FrameNode_def FrameRelation_def FrameUnresolved_def FrameCommit_def

record header =
  h_T :: string
  h_Schema :: string
  h_Conversation :: string
  h_Session :: string
  h_Round :: u64
  h_Previous :: string
  h_FromSeq :: u64
  h_ThroughSeq :: u64
  h_InputDigest :: string
  h_Parser :: string
  h_Policy :: string
  h_FromTime :: string
  h_ThroughTime :: string
  h_SessionFromTime :: string
  h_SessionThroughTime :: string
  h_Title :: string
  h_Talks :: int
  h_Steps :: int
  h_Streams :: int
  h_Segments :: int
  h_Unresolved :: int
  h_Changes :: "int option"
  h_LinesAdded :: "int option"
  h_LinesRemoved :: "int option"
  h_LLMCalls :: "int option"
  h_Subagents :: "int option"
  h_BashRuns :: "int option"

record entity =
  en_T :: string
  en_ID :: string
  en_Revision :: u64
  en_Tombstone :: bool

record node = entity +
  n_Kind :: string
  n_Parent :: string
  n_Stream :: string
  n_Ref :: "ref option"
  n_Refs :: "ref list"
  n_Attrs :: string

record relation = entity +
  rel_Type :: string
  rel_From :: string
  rel_To :: string
  rel_Quality :: string
  rel_Via :: string
  rel_Evidence :: "ref list"

record unresolved = entity +
  un_Kind :: string
  un_RefID :: string
  un_Reason :: string
  un_State :: string

record counts =
  c_Nodes :: int
  c_Relations :: int
  c_Unresolved :: int

record commit =
  co_T :: string
  co_Digest :: string
  co_Counts :: counts

record providerBody =
  pb_Role :: string
  pb_Ref :: ref

definition zero_header :: header where
  "zero_header = \<lparr>h_T = [], h_Schema = [], h_Conversation = [], h_Session = [], h_Round = 0,
     h_Previous = [], h_FromSeq = 0, h_ThroughSeq = 0, h_InputDigest = [], h_Parser = [], h_Policy = [],
     h_FromTime = [], h_ThroughTime = [], h_SessionFromTime = [], h_SessionThroughTime = [],
     h_Title = [], h_Talks = 0, h_Steps = 0, h_Streams = 0, h_Segments = 0, h_Unresolved = 0,
     h_Changes = None, h_LinesAdded = None, h_LinesRemoved = None, h_LLMCalls = None,
     h_Subagents = None, h_BashRuns = None\<rparr>"

definition zero_ref :: ref where
  "zero_ref = \<lparr>r_Seq = 0, r_Row = 0, r_Block = None\<rparr>"

definition zero_node :: node where
  "zero_node = \<lparr>en_T = [], en_ID = [], en_Revision = 0, en_Tombstone = False, n_Kind = [],
     n_Parent = [], n_Stream = [], n_Ref = None, n_Refs = [], n_Attrs = []\<rparr>"

definition zero_relation :: relation where
  "zero_relation = \<lparr>en_T = [], en_ID = [], en_Revision = 0, en_Tombstone = False, rel_Type = [],
     rel_From = [], rel_To = [], rel_Quality = [], rel_Via = [], rel_Evidence = []\<rparr>"

definition zero_unresolved :: unresolved where
  "zero_unresolved = \<lparr>en_T = [], en_ID = [], en_Revision = 0, en_Tombstone = False, un_Kind = [],
     un_RefID = [], un_Reason = [], un_State = []\<rparr>"

definition zero_counts :: counts where
  "zero_counts = \<lparr>c_Nodes = 0, c_Relations = 0, c_Unresolved = 0\<rparr>"

definition zero_commit :: commit where
  "zero_commit = \<lparr>co_T = [], co_Digest = [], co_Counts = zero_counts\<rparr>"

definition zero_body :: providerBody where
  "zero_body = \<lparr>pb_Role = [], pb_Ref = zero_ref\<rparr>"

lemmas zero_values = zero_header_def zero_ref_def zero_node_def zero_relation_def zero_unresolved_def
  zero_counts_def zero_commit_def zero_body_def

section \<open>The checks of a header\<close>

datatype header_error =
    UnsupportedSchema string
  | NoConversation
  | NoSession
  | RoundZero
  | NoPrevious u64
  | FirstHasPrevious
  | NoParser
  | NoPolicy
  | NoInputDigest
  | FromSeqZero
  | NotARange u64 u64 u64

definition Validate :: "header \<Rightarrow> header_error option" where
  "Validate h =
    (if h_Schema h \<noteq> Schema then Some (UnsupportedSchema (h_Schema h))
     else if h_Conversation h = [] then Some NoConversation
     else if h_Session h = [] then Some NoSession
     else if h_Round h = 0 then Some RoundZero
     else if h_Round h > 1 \<and> h_Previous h = [] then Some (NoPrevious (h_Round h))
     else if h_Round h = 1 \<and> h_Previous h \<noteq> [] then Some FirstHasPrevious
     else if h_Parser h = [] then Some NoParser
     else if h_Policy h = [] then Some NoPolicy
     else if h_InputDigest h = [] then Some NoInputDigest
     else if h_FromSeq h = 0 then Some FromSeqZero
     else if h_ThroughSeq h < h_FromSeq h - 1 then Some (NotARange (h_Round h) (h_FromSeq h) (h_ThroughSeq h))
     else None)"

section \<open>Members to fields\<close>

text \<open>The fields of each struct, by their folded names.\<close>

definition header_field :: "string \<Rightarrow> json \<Rightarrow> header \<Rightarrow> header option" where
  "header_field key j h = (let n = fold_name key in
     if n = ''T'' then set_str (\<lambda>v. h\<lparr>h_T := v\<rparr>) j (h_T h)
     else if n = ''SCHEMA'' then set_str (\<lambda>v. h\<lparr>h_Schema := v\<rparr>) j (h_Schema h)
     else if n = ''CONVERSATION'' then set_str (\<lambda>v. h\<lparr>h_Conversation := v\<rparr>) j (h_Conversation h)
     else if n = ''SESSION'' then set_str (\<lambda>v. h\<lparr>h_Session := v\<rparr>) j (h_Session h)
     else if n = ''ROUND'' then set_u64 (\<lambda>v. h\<lparr>h_Round := v\<rparr>) j (h_Round h)
     else if n = ''PREVIOUS'' then set_str (\<lambda>v. h\<lparr>h_Previous := v\<rparr>) j (h_Previous h)
     else if n = ''FROM_SEQ'' then set_u64 (\<lambda>v. h\<lparr>h_FromSeq := v\<rparr>) j (h_FromSeq h)
     else if n = ''THROUGH_SEQ'' then set_u64 (\<lambda>v. h\<lparr>h_ThroughSeq := v\<rparr>) j (h_ThroughSeq h)
     else if n = ''INPUT_DIGEST'' then set_str (\<lambda>v. h\<lparr>h_InputDigest := v\<rparr>) j (h_InputDigest h)
     else if n = ''PARSER'' then set_str (\<lambda>v. h\<lparr>h_Parser := v\<rparr>) j (h_Parser h)
     else if n = ''POLICY'' then set_str (\<lambda>v. h\<lparr>h_Policy := v\<rparr>) j (h_Policy h)
     else if n = ''FROM_TIME'' then set_str (\<lambda>v. h\<lparr>h_FromTime := v\<rparr>) j (h_FromTime h)
     else if n = ''THROUGH_TIME'' then set_str (\<lambda>v. h\<lparr>h_ThroughTime := v\<rparr>) j (h_ThroughTime h)
     else if n = ''SESSION_FROM_TIME'' then set_str (\<lambda>v. h\<lparr>h_SessionFromTime := v\<rparr>) j (h_SessionFromTime h)
     else if n = ''SESSION_THROUGH_TIME'' then set_str (\<lambda>v. h\<lparr>h_SessionThroughTime := v\<rparr>) j (h_SessionThroughTime h)
     else if n = ''TITLE'' then set_str (\<lambda>v. h\<lparr>h_Title := v\<rparr>) j (h_Title h)
     else if n = ''TALKS'' then set_int (\<lambda>v. h\<lparr>h_Talks := v\<rparr>) j (h_Talks h)
     else if n = ''STEPS'' then set_int (\<lambda>v. h\<lparr>h_Steps := v\<rparr>) j (h_Steps h)
     else if n = ''STREAMS'' then set_int (\<lambda>v. h\<lparr>h_Streams := v\<rparr>) j (h_Streams h)
     else if n = ''SEGMENTS'' then set_int (\<lambda>v. h\<lparr>h_Segments := v\<rparr>) j (h_Segments h)
     else if n = ''UNRESOLVED'' then set_int (\<lambda>v. h\<lparr>h_Unresolved := v\<rparr>) j (h_Unresolved h)
     else if n = ''CHANGES'' then set_count (\<lambda>v. h\<lparr>h_Changes := v\<rparr>) j (h_Changes h)
     else if n = ''LINES_ADDED'' then set_count (\<lambda>v. h\<lparr>h_LinesAdded := v\<rparr>) j (h_LinesAdded h)
     else if n = ''LINES_REMOVED'' then set_count (\<lambda>v. h\<lparr>h_LinesRemoved := v\<rparr>) j (h_LinesRemoved h)
     else if n = ''LLM_CALLS'' then set_count (\<lambda>v. h\<lparr>h_LLMCalls := v\<rparr>) j (h_LLMCalls h)
     else if n = ''SUBAGENTS'' then set_count (\<lambda>v. h\<lparr>h_Subagents := v\<rparr>) j (h_Subagents h)
     else if n = ''BASH_RUNS'' then set_count (\<lambda>v. h\<lparr>h_BashRuns := v\<rparr>) j (h_BashRuns h)
     else Some h)"

definition ref_field :: "string \<Rightarrow> json \<Rightarrow> ref \<Rightarrow> ref option" where
  "ref_field key j r = (let n = fold_name key in
     if n = ''SEQ'' then set_u64 (\<lambda>v. r\<lparr>r_Seq := v\<rparr>) j (r_Seq r)
     else if n = ''ROW'' then set_u64 (\<lambda>v. r\<lparr>r_Row := v\<rparr>) j (r_Row r)
     else if n = ''BLOCK'' then set_count (\<lambda>v. r\<lparr>r_Block := v\<rparr>) j (r_Block r)
     else Some r)"

definition set_refs :: "(ref list \<Rightarrow> 'a) \<Rightarrow> json \<Rightarrow> ref list \<Rightarrow> 'a option" where
  "set_refs upd j old = map_option upd (into_slice (into_struct ref_field) zero_ref j old)"

text \<open>The fields of an \<open>Entity\<close>, and for any other name what the embedding struct does.\<close>

definition entity_field :: "string \<Rightarrow> json \<Rightarrow> 'a entity_scheme \<Rightarrow> 'a entity_scheme option \<Rightarrow> 'a entity_scheme option" where
  "entity_field n j x other =
    (if n = ''T'' then set_str (\<lambda>v. x\<lparr>en_T := v\<rparr>) j (en_T x)
     else if n = ''ID'' then set_str (\<lambda>v. x\<lparr>en_ID := v\<rparr>) j (en_ID x)
     else if n = ''REVISION'' then set_u64 (\<lambda>v. x\<lparr>en_Revision := v\<rparr>) j (en_Revision x)
     else if n = ''TOMBSTONE'' then set_bool (\<lambda>v. x\<lparr>en_Tombstone := v\<rparr>) j (en_Tombstone x)
     else other)"

definition node_field :: "string \<Rightarrow> json \<Rightarrow> node \<Rightarrow> node option" where
  "node_field key j x = (let n = fold_name key in entity_field n j x
    (if n = ''KIND'' then set_str (\<lambda>v. x\<lparr>n_Kind := v\<rparr>) j (n_Kind x)
     else if n = ''PARENT'' then set_str (\<lambda>v. x\<lparr>n_Parent := v\<rparr>) j (n_Parent x)
     else if n = ''STREAM'' then set_str (\<lambda>v. x\<lparr>n_Stream := v\<rparr>) j (n_Stream x)
     else if n = ''REF'' then
       map_option (\<lambda>v. x\<lparr>n_Ref := v\<rparr>) (into_pointer (into_struct ref_field) zero_ref j (n_Ref x))
     else if n = ''REFS'' then set_refs (\<lambda>v. x\<lparr>n_Refs := v\<rparr>) j (n_Refs x)
     else if n = ''ATTRS'' then map_option (\<lambda>v. x\<lparr>n_Attrs := v\<rparr>) (into_raw j (n_Attrs x))
     else Some x))"

definition relation_field :: "string \<Rightarrow> json \<Rightarrow> relation \<Rightarrow> relation option" where
  "relation_field key j x = (let n = fold_name key in entity_field n j x
    (if n = ''TYPE'' then set_str (\<lambda>v. x\<lparr>rel_Type := v\<rparr>) j (rel_Type x)
     else if n = ''FROM'' then set_str (\<lambda>v. x\<lparr>rel_From := v\<rparr>) j (rel_From x)
     else if n = ''TO'' then set_str (\<lambda>v. x\<lparr>rel_To := v\<rparr>) j (rel_To x)
     else if n = ''QUALITY'' then set_str (\<lambda>v. x\<lparr>rel_Quality := v\<rparr>) j (rel_Quality x)
     else if n = ''VIA'' then set_str (\<lambda>v. x\<lparr>rel_Via := v\<rparr>) j (rel_Via x)
     else if n = ''EVIDENCE'' then set_refs (\<lambda>v. x\<lparr>rel_Evidence := v\<rparr>) j (rel_Evidence x)
     else Some x))"

definition unresolved_field :: "string \<Rightarrow> json \<Rightarrow> unresolved \<Rightarrow> unresolved option" where
  "unresolved_field key j x = (let n = fold_name key in entity_field n j x
    (if n = ''KIND'' then set_str (\<lambda>v. x\<lparr>un_Kind := v\<rparr>) j (un_Kind x)
     else if n = ''REF'' then set_str (\<lambda>v. x\<lparr>un_RefID := v\<rparr>) j (un_RefID x)
     else if n = ''REASON'' then set_str (\<lambda>v. x\<lparr>un_Reason := v\<rparr>) j (un_Reason x)
     else if n = ''STATE'' then set_str (\<lambda>v. x\<lparr>un_State := v\<rparr>) j (un_State x)
     else Some x))"

definition counts_field :: "string \<Rightarrow> json \<Rightarrow> counts \<Rightarrow> counts option" where
  "counts_field key j x = (let n = fold_name key in
     if n = ''NODES'' then set_int (\<lambda>v. x\<lparr>c_Nodes := v\<rparr>) j (c_Nodes x)
     else if n = ''RELATIONS'' then set_int (\<lambda>v. x\<lparr>c_Relations := v\<rparr>) j (c_Relations x)
     else if n = ''UNRESOLVED'' then set_int (\<lambda>v. x\<lparr>c_Unresolved := v\<rparr>) j (c_Unresolved x)
     else Some x)"

definition commit_field :: "string \<Rightarrow> json \<Rightarrow> commit \<Rightarrow> commit option" where
  "commit_field key j x = (let n = fold_name key in
     if n = ''T'' then set_str (\<lambda>v. x\<lparr>co_T := v\<rparr>) j (co_T x)
     else if n = ''DIGEST'' then set_str (\<lambda>v. x\<lparr>co_Digest := v\<rparr>) j (co_Digest x)
     else if n = ''COUNTS'' then
       map_option (\<lambda>v. x\<lparr>co_Counts := v\<rparr>) (into_struct counts_field j (co_Counts x))
     else Some x)"

definition body_field :: "string \<Rightarrow> json \<Rightarrow> providerBody \<Rightarrow> providerBody option" where
  "body_field key j x = (let n = fold_name key in
     if n = ''ROLE'' then set_str (\<lambda>v. x\<lparr>pb_Role := v\<rparr>) j (pb_Role x)
     else if n = ''REF'' then map_option (\<lambda>v. x\<lparr>pb_Ref := v\<rparr>) (into_struct ref_field j (pb_Ref x))
     else Some x)"

section \<open>The provider bodies of a node\<close>

datatype bodies_error = NotBodies | BadRole string | BadPosition u64 u64

fun check_bodies :: "providerBody list \<Rightarrow> bodies_error option" where
  "check_bodies [] = None"
| "check_bodies (y # ys) =
    (if pb_Role y \<noteq> RoleRequest \<and> pb_Role y \<noteq> RoleResponse then Some (BadRole (pb_Role y))
     else if r_Seq (pb_Ref y) = 0 \<or> r_Row (pb_Ref y) = 0
       then Some (BadPosition (r_Seq (pb_Ref y)) (r_Row (pb_Ref y)))
     else check_bodies ys)"

text \<open>An attribute text that does not read, or that is not an object, carries no body of ours.\<close>

definition ProviderBodiesOf :: "string \<Rightarrow> bodies_error + providerBody list" where
  "ProviderBodiesOf attrs =
    (if attrs = [] then Inr [] else
     case parse attrs of
       Some (JObj _ ms) \<Rightarrow>
         (case map_of (rev ms) ProviderBodiesAttr of
            None \<Rightarrow> Inr []
          | Some j \<Rightarrow>
             (case into_slice (into_struct body_field) zero_body j [] of
                None \<Rightarrow> Inl NotBodies
              | Some bodies \<Rightarrow>
                 (case check_bodies bodies of Some e \<Rightarrow> Inl e | None \<Rightarrow> Inr bodies)))
     | _ \<Rightarrow> Inr [])"

end
