(* ===== verification/Session_Data.thy ===== *)
theory Session_Data
  imports Flow_Data
begin

text \<open>
  The data of \<^verbatim>\<open>pkg/sessiondata/sessiondata.go\<close>: the header of a landed file, its records and their
  parts, with header validation, a record's text and the flags a reader may withhold; and the tool execution
  record of \<^verbatim>\<open>pkg/execution/execution.go\<close>. Token counts are Go \<open>int\<close>s that are added up: they are
  64-bit words, read as signed.
\<close>

section \<open>Kinds\<close>

definition sd_Schema :: string where "sd_Schema = ''sd/1''"

definition SD_KindTranscript :: string where "SD_KindTranscript = ''transcript''"
definition SD_KindAgentMeta :: string where "SD_KindAgentMeta = ''agent_meta''"
definition SD_KindJournal :: string where "SD_KindJournal = ''journal''"
definition SD_KindWorkflowManifest :: string where "SD_KindWorkflowManifest = ''workflow_manifest''"
definition SD_KindWorkflowScript :: string where "SD_KindWorkflowScript = ''workflow_script''"
definition SD_KindProviderBody :: string where "SD_KindProviderBody = ''provider_body''"
definition SD_KindChanges :: string where "SD_KindChanges = ''changes''"
definition SD_KindExecution :: string where "SD_KindExecution = ''execution''"

definition PartText :: string where "PartText = ''text''"
definition PartReasoning :: string where "PartReasoning = ''reasoning''"
definition PartCall :: string where "PartCall = ''call''"
definition PartResult :: string where "PartResult = ''result''"
definition PartMedia :: string where "PartMedia = ''media''"
definition PartData :: string where "PartData = ''data''"
definition PartUnknown :: string where "PartUnknown = ''unknown''"

definition FromAgent :: string where "FromAgent = ''agent''"
definition FromExternal :: string where "FromExternal = ''external''"
definition FromRuntime :: string where "FromRuntime = ''runtime''"

section \<open>Records\<close>

record part =
  pt_Kind :: string
  pt_Text :: string
  pt_Data :: string
  pt_ID :: string
  pt_Of :: string
  pt_Name :: string
  pt_Server :: string
  pt_ServerTool :: string
  pt_Failed :: "bool option"
  pt_Media :: string
  pt_Encoding :: string
  pt_State :: string
  pt_Bytes :: int
  pt_SHA256 :: string

record usage =
  us_Input :: u64
  us_Output :: u64
  us_CacheRead :: u64
  us_CacheWrite :: u64

record drop_note =
  dr_What :: string
  dr_Bytes :: int
  dr_Why :: string

record sd_record =
  sr_Ord :: u64
  sr_Off :: u64
  sr_Sha :: string
  sr_Bytes :: int
  sr_ID :: string
  sr_Parent :: string
  sr_Call :: string
  sr_Run :: string
  sr_Continues :: string
  sr_Tool :: string
  sr_Child :: string
  sr_Batch :: string
  sr_Label :: string
  sr_StartedBy :: string
  sr_From :: string
  sr_Time :: string
  sr_Trigger :: string
  sr_Flags :: "string list"
  sr_Usage :: "usage option"
  sr_Model :: string
  sr_Parts :: "part list"
  sr_Dropped :: "drop_note list"

text \<open>\<open>Text\<close>: the texts of the parts, a newline between two.\<close>

definition join_text :: "string \<Rightarrow> part \<Rightarrow> string" where
  "join_text out p =
    (if pt_Kind p = PartText \<and> pt_Text p \<noteq> []
     then (if out \<noteq> [] then out @ [CHR 0x0A] else out) @ pt_Text p else out)"

definition record_text :: "sd_record \<Rightarrow> string" where
  "record_text r = foldl join_text [] (sr_Parts r)"

section \<open>Flags a reader may withhold\<close>

definition FlagSystemPrompt :: string where "FlagSystemPrompt = ''system_prompt''"
definition FlagToolSchemas :: string where "FlagToolSchemas = ''tool_schemas''"

definition withholdable :: "string list" where
  "withholdable = [FlagSystemPrompt, FlagToolSchemas]"

definition IsWithholdable :: "string \<Rightarrow> bool" where
  "IsWithholdable name \<longleftrightarrow> name \<in> set withholdable"

text \<open>The error is the first name that is not a flag.\<close>

fun CheckWithholdable :: "string list \<Rightarrow> string option" where
  "CheckWithholdable [] = None"
| "CheckWithholdable (name # names) = (if \<not> IsWithholdable name then Some name else CheckWithholdable names)"

section \<open>Tool executions\<close>

definition execution_Schema :: string where "execution_Schema = ''execution/1''"

record exec_server =
  es_Name :: string
  es_Source :: string

record exec_content =
  ec_State :: string
  ec_Bytes :: int
  ec_SHA256 :: string

record exec_record =
  xr_Schema :: string
  xr_ID :: string
  xr_ObservedBy :: string
  xr_Boundary :: string
  xr_Session :: string
  xr_Stream :: string
  xr_Tool :: string
  xr_ToolName :: string
  xr_Cwd :: string
  xr_Protocol :: string
  xr_Server :: "exec_server option"
  xr_Time :: string
  xr_DurationMS :: "int option"
  xr_Outcome :: string
  xr_Arguments :: "exec_content option"
  xr_Result :: "exec_content option"

datatype exec_error =
    Exec_Schema string | Exec_No_ID | Exec_No_ObservedBy | Exec_No_Boundary | Exec_No_Session | Exec_No_Stream
  | Exec_No_Tool | Exec_No_Protocol | Exec_No_Time | Exec_No_Outcome

definition Validate_exec :: "exec_record \<Rightarrow> exec_error option" where
  "Validate_exec r =
    (if xr_Schema r \<noteq> execution_Schema then Some (Exec_Schema (xr_Schema r))
     else if xr_ID r = [] then Some Exec_No_ID
     else if xr_ObservedBy r = [] then Some Exec_No_ObservedBy
     else if xr_Boundary r = [] then Some Exec_No_Boundary
     else if xr_Session r = [] then Some Exec_No_Session
     else if xr_Stream r = [] then Some Exec_No_Stream
     else if xr_Tool r = [] then Some Exec_No_Tool
     else if xr_Protocol r = [] then Some Exec_No_Protocol
     else if xr_Time r = [] then Some Exec_No_Time
     else if xr_Outcome r = [] then Some Exec_No_Outcome
     else None)"

section \<open>The header of a landed file\<close>

record removed =
  rm_Digest :: string
  rm_Size :: int
  rm_Records :: int
  rm_At :: string
  rm_Generation :: int
  rm_Receiver :: string
  rm_Owner :: string

record sd_header =
  sh_H :: int
  sh_Schema :: string
  sh_Seq :: u64
  sh_At :: string
  sh_Kind :: string
  sh_Adapter :: string
  sh_Dialect :: string
  sh_Src :: string
  sh_Session :: string
  sh_Stream :: string
  sh_Batch :: string
  sh_Removed :: "removed option"

datatype sd_header_error =
    Bad_Envelope int | Bad_SD_Schema string | Missing_Kind | Missing_Session | Missing_Src | Missing_Dialect

definition Validate_sd_header :: "sd_header \<Rightarrow> sd_header_error option" where
  "Validate_sd_header h =
    (if sh_H h \<noteq> 1 then Some (Bad_Envelope (sh_H h))
     else if sh_Schema h \<noteq> sd_Schema then Some (Bad_SD_Schema (sh_Schema h))
     else if sh_Kind h = [] then Some Missing_Kind
     else if sh_Session h = [] then Some Missing_Session
     else if sh_Src h = [] then Some Missing_Src
     else if sh_Dialect h = [] then Some Missing_Dialect
     else None)"

end
