(* ===== verification/Body_Manifest.thy ===== *)
theory Body_Manifest
  imports Session_Data Go_Struct Go_Sort
begin

text \<open>
  The manifest of a provider body, \<^verbatim>\<open>pkg/providerbody/providerbody.go\<close> and \<^verbatim>\<open>history.go\<close>, and how
  \<open>ManifestOf\<close> of \<^verbatim>\<open>session.go\<close> reads it off the last part of a record: the members assigned to its
  fields, the three shapes a message list may have, and the reading without the history keys of a
  manifest whose history does not read.
\<close>

section \<open>The manifest\<close>

definition manifest_Schema :: string where "manifest_Schema = ''provider_body/1''"

definition PB_RoleRequest :: string where "PB_RoleRequest = ''request''"
definition PB_RoleResponse :: string where "PB_RoleResponse = ''response''"

definition UnrecognisedShape :: string where "UnrecognisedShape = ''unrecognised_shape''"
definition TooLarge :: string where "TooLarge = ''too_large''"

definition thread_Create :: string where "thread_Create = ''create''"
definition thread_Continue :: string where "thread_Continue = ''continue''"
definition MaxPrevious :: nat where "MaxPrevious = 128"

record msg_entry =
  me_ID :: string
  me_Digest :: string

record messages =
  ml_Entries :: "msg_entry list"
  ml_Base :: string
  ml_Keep :: int
  ml_Add :: "msg_entry list"
  ml_Unavailable :: string
  ml_Count :: int

record reply =
  rp_ID :: string
  rp_Digest :: string
  rp_Unavailable :: string

record thread =
  th_Type :: string
  th_Previous :: string

record front_copy =
  cp_From :: string
  cp_SHA256 :: string
  cp_Len :: int

record segment =
  sg_Lit :: string
  sg_Part :: "int option"
  sg_Piece :: string
  sg_Copy :: "front_copy option"

record manifest =
  mf_Schema :: string
  mf_Role :: string
  mf_Src :: string
  mf_SHA256 :: string
  mf_Bytes :: int
  mf_Depth :: int
  mf_Chain :: string
  mf_Model :: string
  mf_Session :: string
  mf_Call :: string
  mf_Request :: string
  mf_PreviousRequest :: string
  mf_HistoryForm :: string
  mf_Messages :: "messages option"
  mf_System :: string
  mf_Thread :: "thread option"
  mf_Reply :: "reply option"
  mf_Segments :: "segment list"

definition zero_msg :: msg_entry where
  "zero_msg = \<lparr>me_ID = [], me_Digest = []\<rparr>"

definition zero_messages :: messages where
  "zero_messages = \<lparr>ml_Entries = [], ml_Base = [], ml_Keep = 0, ml_Add = [], ml_Unavailable = [], ml_Count = 0\<rparr>"

definition zero_reply :: reply where
  "zero_reply = \<lparr>rp_ID = [], rp_Digest = [], rp_Unavailable = []\<rparr>"

definition zero_thread :: thread where
  "zero_thread = \<lparr>th_Type = [], th_Previous = []\<rparr>"

definition zero_copy :: front_copy where
  "zero_copy = \<lparr>cp_From = [], cp_SHA256 = [], cp_Len = 0\<rparr>"

definition zero_segment :: segment where
  "zero_segment = \<lparr>sg_Lit = [], sg_Part = None, sg_Piece = [], sg_Copy = None\<rparr>"

definition zero_manifest :: manifest where
  "zero_manifest = \<lparr>mf_Schema = [], mf_Role = [], mf_Src = [], mf_SHA256 = [], mf_Bytes = 0, mf_Depth = 0,
     mf_Chain = [], mf_Model = [], mf_Session = [], mf_Call = [], mf_Request = [], mf_PreviousRequest = [],
     mf_HistoryForm = [], mf_Messages = None, mf_System = [], mf_Thread = None, mf_Reply = None,
     mf_Segments = []\<rparr>"

text \<open>\<open>Relative\<close>\<close>

definition Relative :: "messages \<Rightarrow> bool" where
  "Relative l \<longleftrightarrow> ml_Base l \<noteq> []"

section \<open>A message list\<close>

text \<open>\<open>hex.DecodeString\<close> reads an even number of hexadecimal digits.\<close>

definition isDigest :: "string \<Rightarrow> bool" where
  "isDigest s \<longleftrightarrow> length s = 16 \<and> list_all (\<lambda>c. hex_val c \<noteq> None) s"

definition is_entry :: "msg_entry \<Rightarrow> bool" where
  "is_entry e \<longleftrightarrow> isDigest (me_Digest e) \<and> (me_ID e = [] \<or> isDigest (me_ID e))"

record raw_list =
  rl_Entries :: "msg_entry list option"
  rl_Base :: "string option"
  rl_Keep :: "int option"
  rl_Add :: "msg_entry list option"
  rl_Unavailable :: "string option"
  rl_Count :: int

definition zero_raw :: raw_list where
  "zero_raw = \<lparr>rl_Entries = None, rl_Base = None, rl_Keep = None, rl_Add = None, rl_Unavailable = None, rl_Count = 0\<rparr>"

definition msg_field :: "string \<Rightarrow> json \<Rightarrow> msg_entry \<Rightarrow> msg_entry option" where
  "msg_field key j x = (let n = fold_name key in
     if n = ''ID'' then set_str (\<lambda>v. x\<lparr>me_ID := v\<rparr>) j (me_ID x)
     else if n = ''DIGEST'' then set_str (\<lambda>v. x\<lparr>me_Digest := v\<rparr>) j (me_Digest x)
     else Some x)"

definition into_entries :: "json \<Rightarrow> msg_entry list option \<Rightarrow> msg_entry list option option" where
  "into_entries = into_pointer (into_slice (into_struct msg_field) zero_msg) []"

definition raw_field :: "string \<Rightarrow> json \<Rightarrow> raw_list \<Rightarrow> raw_list option" where
  "raw_field key j x = (let n = fold_name key in
     if n = ''ENTRIES'' then map_option (\<lambda>v. x\<lparr>rl_Entries := v\<rparr>) (into_entries j (rl_Entries x))
     else if n = ''BASE'' then map_option (\<lambda>v. x\<lparr>rl_Base := v\<rparr>) (into_pointer into_string [] j (rl_Base x))
     else if n = ''KEEP'' then set_count (\<lambda>v. x\<lparr>rl_Keep := v\<rparr>) j (rl_Keep x)
     else if n = ''ADD'' then map_option (\<lambda>v. x\<lparr>rl_Add := v\<rparr>) (into_entries j (rl_Add x))
     else if n = ''UNAVAILABLE'' then
       map_option (\<lambda>v. x\<lparr>rl_Unavailable := v\<rparr>) (into_pointer into_string [] j (rl_Unavailable x))
     else if n = ''COUNT'' then set_int (\<lambda>v. x\<lparr>rl_Count := v\<rparr>) j (rl_Count x)
     else Some x)"

definition MaxUint32 :: int where "MaxUint32 = 2 ^ 32 - 1"

text \<open>The three shapes of \<open>read\<close>, \<open>None\<close> where it returns an error.\<close>

definition list_of_raw :: "raw_list \<Rightarrow> messages option" where
  "list_of_raw r =
    (case rl_Unavailable r of
       Some why \<Rightarrow>
         if rl_Entries r = None \<and> rl_Base r = None then
           (if why = [] \<or> rl_Count r < 0 \<or> rl_Count r > MaxUint32 then None
            else Some (zero_messages\<lparr>ml_Unavailable := why, ml_Count := rl_Count r\<rparr>))
         else None
     | None \<Rightarrow>
        (case (rl_Base r, rl_Keep r, rl_Add r, rl_Entries r) of
           (Some base, Some keep, Some add, None) \<Rightarrow>
             if base = [] \<or> keep < 1 \<or> keep > MaxUint32 then None
             else Some (zero_messages\<lparr>ml_Base := base, ml_Keep := keep, ml_Add := add\<rparr>)
         | (None, _, _, Some es) \<Rightarrow> Some (zero_messages\<lparr>ml_Entries := es\<rparr>)
         | _ \<Rightarrow> None))"

definition read_list :: "json \<Rightarrow> messages option" where
  "read_list j =
    (case into_struct raw_field j zero_raw of
       None \<Rightarrow> None
     | Some r \<Rightarrow>
        (case list_of_raw r of
           None \<Rightarrow> None
         | Some l \<Rightarrow> if list_all is_entry (ml_Entries l @ ml_Add l) then Some l else None))"

text \<open>\<open>UnmarshalJSON\<close> never fails: what is none of the shapes is a list that is unavailable.\<close>

definition UnmarshalJSON :: "json \<Rightarrow> messages" where
  "UnmarshalJSON j =
    (case read_list j of Some l \<Rightarrow> l | None \<Rightarrow> zero_messages\<lparr>ml_Unavailable := UnrecognisedShape\<rparr>)"

section \<open>Members to fields\<close>

definition reply_field :: "string \<Rightarrow> json \<Rightarrow> reply \<Rightarrow> reply option" where
  "reply_field key j x = (let n = fold_name key in
     if n = ''ID'' then set_str (\<lambda>v. x\<lparr>rp_ID := v\<rparr>) j (rp_ID x)
     else if n = ''DIGEST'' then set_str (\<lambda>v. x\<lparr>rp_Digest := v\<rparr>) j (rp_Digest x)
     else if n = ''UNAVAILABLE'' then set_str (\<lambda>v. x\<lparr>rp_Unavailable := v\<rparr>) j (rp_Unavailable x)
     else Some x)"

definition thread_field :: "string \<Rightarrow> json \<Rightarrow> thread \<Rightarrow> thread option" where
  "thread_field key j x = (let n = fold_name key in
     if n = ''TYPE'' then set_str (\<lambda>v. x\<lparr>th_Type := v\<rparr>) j (th_Type x)
     else if n = ''PREVIOUS'' then set_str (\<lambda>v. x\<lparr>th_Previous := v\<rparr>) j (th_Previous x)
     else Some x)"

definition copy_field :: "string \<Rightarrow> json \<Rightarrow> front_copy \<Rightarrow> front_copy option" where
  "copy_field key j x = (let n = fold_name key in
     if n = ''FROM'' then set_str (\<lambda>v. x\<lparr>cp_From := v\<rparr>) j (cp_From x)
     else if n = ''SHA256'' then set_str (\<lambda>v. x\<lparr>cp_SHA256 := v\<rparr>) j (cp_SHA256 x)
     else if n = ''LEN'' then set_int (\<lambda>v. x\<lparr>cp_Len := v\<rparr>) j (cp_Len x)
     else Some x)"

definition segment_field :: "string \<Rightarrow> json \<Rightarrow> segment \<Rightarrow> segment option" where
  "segment_field key j x = (let n = fold_name key in
     if n = ''LIT'' then set_str (\<lambda>v. x\<lparr>sg_Lit := v\<rparr>) j (sg_Lit x)
     else if n = ''PART'' then set_count (\<lambda>v. x\<lparr>sg_Part := v\<rparr>) j (sg_Part x)
     else if n = ''PIECE'' then set_str (\<lambda>v. x\<lparr>sg_Piece := v\<rparr>) j (sg_Piece x)
     else if n = ''COPY'' then set_pointer (\<lambda>v. x\<lparr>sg_Copy := v\<rparr>) copy_field zero_copy j (sg_Copy x)
     else Some x)"

definition manifest_field :: "string \<Rightarrow> json \<Rightarrow> manifest \<Rightarrow> manifest option" where
  "manifest_field key j x = (let n = fold_name key in
     if n = ''SCHEMA'' then set_str (\<lambda>v. x\<lparr>mf_Schema := v\<rparr>) j (mf_Schema x)
     else if n = ''ROLE'' then set_str (\<lambda>v. x\<lparr>mf_Role := v\<rparr>) j (mf_Role x)
     else if n = ''SRC'' then set_str (\<lambda>v. x\<lparr>mf_Src := v\<rparr>) j (mf_Src x)
     else if n = ''SHA256'' then set_str (\<lambda>v. x\<lparr>mf_SHA256 := v\<rparr>) j (mf_SHA256 x)
     else if n = ''BYTES'' then set_int (\<lambda>v. x\<lparr>mf_Bytes := v\<rparr>) j (mf_Bytes x)
     else if n = ''DEPTH'' then set_int (\<lambda>v. x\<lparr>mf_Depth := v\<rparr>) j (mf_Depth x)
     else if n = ''CHAIN'' then set_str (\<lambda>v. x\<lparr>mf_Chain := v\<rparr>) j (mf_Chain x)
     else if n = ''MODEL'' then set_str (\<lambda>v. x\<lparr>mf_Model := v\<rparr>) j (mf_Model x)
     else if n = ''SESSION'' then set_str (\<lambda>v. x\<lparr>mf_Session := v\<rparr>) j (mf_Session x)
     else if n = ''CALL'' then set_str (\<lambda>v. x\<lparr>mf_Call := v\<rparr>) j (mf_Call x)
     else if n = ''REQUEST'' then set_str (\<lambda>v. x\<lparr>mf_Request := v\<rparr>) j (mf_Request x)
     else if n = ''PREVIOUS_REQUEST'' then set_str (\<lambda>v. x\<lparr>mf_PreviousRequest := v\<rparr>) j (mf_PreviousRequest x)
     else if n = ''HISTORY_FORM'' then set_str (\<lambda>v. x\<lparr>mf_HistoryForm := v\<rparr>) j (mf_HistoryForm x)
     else if n = ''MESSAGES'' then Some (x\<lparr>mf_Messages := (if j = JNull then None else Some (UnmarshalJSON j))\<rparr>)
     else if n = ''SYSTEM'' then set_str (\<lambda>v. x\<lparr>mf_System := v\<rparr>) j (mf_System x)
     else if n = ''THREAD'' then set_pointer (\<lambda>v. x\<lparr>mf_Thread := v\<rparr>) thread_field zero_thread j (mf_Thread x)
     else if n = ''REPLY'' then set_pointer (\<lambda>v. x\<lparr>mf_Reply := v\<rparr>) reply_field zero_reply j (mf_Reply x)
     else if n = ''SEGMENTS'' then
       set_slice (\<lambda>v. x\<lparr>mf_Segments := v\<rparr>) segment_field zero_segment j (mf_Segments x)
     else Some x)"

section \<open>Reading a manifest\<close>

text \<open>
  The history keys are left out of the second reading. \<open>fields\<close> is a map, so the last member of a
  name is the one that stays, and \<open>Marshal\<close> writes them by name. Values a reader takes from the
  compacted text are the ones it took before.
\<close>

definition historyKeys :: "string list" where
  "historyKeys = [''history_form'', ''messages'', ''system'', ''thread'', ''reply'']"

definition is_history :: "string \<Rightarrow> bool" where
  "is_history k \<longleftrightarrow> fold_name k \<in> set (map fold_name historyKeys)"

definition last_members :: "(string \<times> json) list \<Rightarrow> (string \<times> json) list" where
  "last_members ms =
     map (\<lambda>k. (k, the (map_of (rev ms) k)))
       (sort_by (<) (filter (\<lambda>k. \<not> is_history k) (remdups (map fst ms))))"

definition unmarshalManifest :: "string \<Rightarrow> manifest option" where
  "unmarshalManifest s =
    (case parse s of
       None \<Rightarrow> None
     | Some j \<Rightarrow>
        (case into_struct manifest_field j zero_manifest of
           Some m \<Rightarrow> Some m
         | None \<Rightarrow>
            (case j of
               JObj _ ms \<Rightarrow> assign_members manifest_field (last_members ms) zero_manifest
             | _ \<Rightarrow> None)))"

definition ManifestOf :: "sd_record \<Rightarrow> manifest option" where
  "ManifestOf rec =
    (if sr_Parts rec = [] then None
     else if pt_Kind (last (sr_Parts rec)) \<noteq> PartData then None
     else case unmarshalManifest (pt_Data (last (sr_Parts rec))) of
            None \<Rightarrow> None
          | Some m \<Rightarrow> if mf_Schema m \<noteq> manifest_Schema then None else Some m)"

end
