(* ===== verification/Go_Time.thy ===== *)
theory Go_Time
  imports Prelude
begin

text \<open>
  \<open>time.Parse(time.RFC3339Nano, s)\<close> as the program uses it, with the instant as nanoseconds since 1970:
  four digits of a year, two of a month, a day, a minute and a second, one or two of an hour, a fraction
  of any length behind a point or a comma of which nine digits count, and \<open>Z\<close> or a signed offset whose
  hours may be 24 and whose minutes may be 60.
\<close>

section \<open>Reading digits\<close>

definition digit_val :: "char \<Rightarrow> nat option" where
  "digit_val c = (let n = of_char c in if 48 \<le> n \<and> n \<le> (57::nat) then Some (n - 48) else None)"

fun get_digits :: "nat \<Rightarrow> nat \<Rightarrow> string \<Rightarrow> (nat \<times> string) option" where
  "get_digits 0 acc s = Some (acc, s)"
| "get_digits (Suc n) acc [] = None"
| "get_digits (Suc n) acc (c # s) =
    (case digit_val c of None \<Rightarrow> None | Some d \<Rightarrow> get_digits n (10 * acc + d) s)"

text \<open>\<open>getnum\<close> that is not fixed: one digit is enough.\<close>

fun get_hour :: "string \<Rightarrow> (nat \<times> string) option" where
  "get_hour (c # d # s) =
    (case digit_val c of
       None \<Rightarrow> None
     | Some x \<Rightarrow> (case digit_val d of Some y \<Rightarrow> Some (10 * x + y, s) | None \<Rightarrow> Some (x, d # s)))"
| "get_hour [c] = map_option (\<lambda>x. (x, [])) (digit_val c)"
| "get_hour [] = None"

fun skip_char :: "char \<Rightarrow> string \<Rightarrow> string option" where
  "skip_char c (d # s) = (if d = c then Some s else None)"
| "skip_char c [] = None"

definition in_range :: "nat \<Rightarrow> nat \<Rightarrow> nat \<times> string \<Rightarrow> (nat \<times> string) option" where
  "in_range lo hi p = (if lo \<le> fst p \<and> fst p \<le> hi then Some p else None)"

text \<open>The digits of a fraction: what they are worth in nanoseconds, and the rest of the text.\<close>

definition is_dig :: "char \<Rightarrow> bool" where
  "is_dig c \<longleftrightarrow> digit_val c \<noteq> None"

definition frac_nanos :: "string \<Rightarrow> nat" where
  "frac_nanos ds =
    (case get_digits 9 0 (take 9 ds @ replicate (9 - length (take 9 ds)) (CHR ''0'')) of
       Some (n, _) \<Rightarrow> n | None \<Rightarrow> 0)"

fun get_frac :: "string \<Rightarrow> nat \<times> string" where
  "get_frac (c # d # s) =
    (if (c = CHR ''.'' \<or> c = CHR '','') \<and> is_dig d
     then (frac_nanos (takeWhile is_dig (d # s)), dropWhile is_dig (d # s))
     else (0, c # d # s))"
| "get_frac s = (0, s)"

text \<open>The offset in seconds; nothing may follow it.\<close>

definition get_zone :: "string \<Rightarrow> int option" where
  "get_zone s =
    (case s of
       [] \<Rightarrow> None
     | c # t \<Rightarrow>
        if c = CHR ''Z'' then (if t = [] then Some 0 else None)
        else if c \<noteq> CHR ''+'' \<and> c \<noteq> CHR ''-'' then None
        else Option.bind (get_digits 2 0 t) (\<lambda>(h, t). Option.bind (skip_char (CHR '':'') t) (\<lambda>t.
               Option.bind (get_digits 2 0 t) (\<lambda>(m, t).
                 if t \<noteq> [] \<or> h > 24 \<or> m > 60 then None
                 else Some ((if c = CHR ''-'' then -1 else 1) * (int h * 3600 + int m * 60))))))"

section \<open>The calendar\<close>

definition leap :: "nat \<Rightarrow> bool" where
  "leap y \<longleftrightarrow> 4 dvd y \<and> (\<not> 100 dvd y \<or> 400 dvd y)"

definition month_days :: "nat list" where
  "month_days = [31, 28, 31, 30, 31, 30, 31, 31, 30, 31, 30, 31]"

definition days_in :: "nat \<Rightarrow> nat \<Rightarrow> nat" where
  "days_in m y = (if m = 2 \<and> leap y then 29 else month_days ! (m - 1))"

text \<open>Days from the first of January of year 0 to that of the year.\<close>

definition days_to_year :: "nat \<Rightarrow> nat" where
  "days_to_year y = 365 * y + (y + 3) div 4 - (y + 99) div 100 + (y + 399) div 400"

definition days_to_month :: "nat \<Rightarrow> nat \<Rightarrow> nat" where
  "days_to_month m y = sum_list (map (\<lambda>k. days_in k y) [1..<m])"

definition unix_days :: "nat \<Rightarrow> nat \<Rightarrow> nat \<Rightarrow> int" where
  "unix_days y m d = int (days_to_year y + days_to_month m y + (d - 1)) - 719528"

definition parse_time :: "string \<Rightarrow> int option" where
  "parse_time s =
    Option.bind (get_digits 4 0 s) (\<lambda>(y, s). Option.bind (skip_char (CHR ''-'') s) (\<lambda>s.
    Option.bind (Option.bind (get_digits 2 0 s) (in_range 1 12)) (\<lambda>(mo, s).
    Option.bind (skip_char (CHR ''-'') s) (\<lambda>s.
    Option.bind (get_digits 2 0 s) (\<lambda>(d, s). Option.bind (skip_char (CHR ''T'') s) (\<lambda>s.
    Option.bind (Option.bind (get_hour s) (in_range 0 23)) (\<lambda>(h, s).
    Option.bind (skip_char (CHR '':'') s) (\<lambda>s.
    Option.bind (Option.bind (get_digits 2 0 s) (in_range 0 59)) (\<lambda>(mi, s).
    Option.bind (skip_char (CHR '':'') s) (\<lambda>s.
    Option.bind (Option.bind (get_digits 2 0 s) (in_range 0 59)) (\<lambda>(sec, s).
    case get_frac s of (ns, s) \<Rightarrow>
    Option.bind (get_zone s) (\<lambda>off.
      if d < 1 \<or> d > days_in mo y then None
      else Some ((unix_days y mo d * 86400 + int (h * 3600 + mi * 60 + sec) - off) * 1000000000 + int ns)))))))))))))"

lemma get_digits_numeral [simp]:
  "get_digits (numeral n) acc (c # s) =
     (case digit_val c of None \<Rightarrow> None | Some d \<Rightarrow> get_digits (pred_numeral n) (10 * acc + d) s)"
  by (simp add: numeral_eq_Suc)

lemma replicate_numeral [simp]: "replicate (numeral k) x = x # replicate (pred_numeral k) x"
  by (simp add: numeral_eq_Suc)

lemmas time_eval = parse_time_def digit_val_def in_range_def get_zone_def Let_def is_dig_def frac_nanos_def
  unix_days_def days_to_year_def days_to_month_def days_in_def leap_def month_days_def upt_rec

lemma parse_time_epoch: "parse_time ''1970-01-01T00:00:00Z'' = Some 0"
  by (simp add: time_eval)

lemma parse_time_offset:
  "parse_time ''2026-03-01T12:00:00.25+02:00'' = Some 1772359200250000000"
  by (simp add: time_eval)

section \<open>The calendar is a calendar\<close>

text \<open>A year is as long as its months.\<close>

lemma div_step: "0 < n \<Longrightarrow> (Suc y + (n - 1)) div n = (y + (n - 1)) div n + (if n dvd y then 1 else 0)" for n :: nat
proof -
  assume n: "0 < n"
  have "(Suc y + (n - 1)) div n = Suc (y div n)" using n by (simp add: Suc_diff_le div_add_self2)
  moreover have "(y + (n - 1)) div n = y div n + (if n dvd y then 0 else 1)"
  proof (cases "n dvd y")
    case True
    then obtain q where "y = n * q" ..
    have "((n - 1) + n * q) div n = q + (n - 1) div n" using n by (intro div_mult_self2) simp
    then have "((n - 1) + n * q) div n = q" using n by simp
    with n True \<open>y = n * q\<close> show ?thesis by (simp add: add.commute)
  next
    case False
    then have m: "0 < y mod n" "y mod n < n" using n by (auto simp: dvd_eq_mod_eq_0)
    have "y + (n - 1) = (y mod n - 1) + n * (y div n + 1)" using m mult_div_mod_eq [of n y] by simp
    then have "(y + (n - 1)) div n = y div n + 1 + (y mod n - 1) div n" using n by (simp only:) (intro div_mult_self2, simp)
    with m False show ?thesis by simp
  qed
  ultimately show ?thesis by simp
qed

lemma year_length: "days_to_year (Suc y) = days_to_year y + (if leap y then 366 else 365)"
proof -
  have dvd: "400 dvd y \<Longrightarrow> 100 dvd y" "100 dvd y \<Longrightarrow> 4 dvd y" by (auto intro: dvd_trans [rotated])
  have le: "(y + 99) div 100 \<le> 365 * y"
  proof (cases y)
    case (Suc k)
    have "(k + 100) div 100 = Suc (k div 100)" by simp
    moreover have "k div 100 \<le> k" by simp
    ultimately show ?thesis using Suc by (simp add: add.commute)
  qed simp
  have steps: "(Suc y + 3) div 4 = (y + 3) div 4 + (if 4 dvd y then 1 else 0)"
    "(Suc y + 99) div 100 = (y + 99) div 100 + (if 100 dvd y then 1 else 0)"
    "(Suc y + 399) div 400 = (y + 399) div 400 + (if 400 dvd y then 1 else 0)"
    using div_step [of 4 y] div_step [of 100 y] div_step [of 400 y] by simp_all
  show ?thesis
    unfolding days_to_year_def steps leap_def
    using dvd le by (cases "4 dvd y"; cases "100 dvd y"; cases "400 dvd y") simp_all
qed

end
