(* ===== verification/Index_Record.thy ===== *)
theory Index_Record
  imports Index_Lookup Change_Read Body_Manifest Go_Time
begin

text \<open>
  Index construction, \<^verbatim>\<open>internal/index/fromrecord.go\<close> and \<^verbatim>\<open>rebuild.go\<close>: one Session Data record
  becomes an entry, the blocks of its parts and, for a provider body, the body row its manifest gives;
  and a whole index is rebuilt from the landed files. The interner is the state the construction
  threads through. The lemmas show that every id of a row names the record's own string, that a rebuilt
  index lists its rows in landed order and always has its lookup maps, and that a rebuild from a
  watermark completes what was indexed up to it.
\<close>

section \<open>Classification\<close>

definition batchOf :: "sd_header \<Rightarrow> sd_record \<Rightarrow> string" where
  "batchOf hdr rec = (if sr_Batch rec \<noteq> [] then sr_Batch rec else sh_Batch hdr)"

definition kindOf :: "sd_header \<Rightarrow> sd_record \<Rightarrow> u8" where
  "kindOf hdr rec =
    (let k = sh_Kind hdr; f = sr_From rec in
     if k = SD_KindAgentMeta then KindMeta
     else if k = SD_KindJournal then KindJournal
     else if k = SD_KindWorkflowManifest then KindManifest
     else if k = SD_KindWorkflowScript then KindScript
     else if k = SD_KindChanges then KindChanges
     else if k = SD_KindProviderBody then KindProviderBody
     else if k = SD_KindExecution then KindExecution
     else if f = FromAgent then KindAssistant
     else if f = FromExternal then KindUser
     else if f = FromRuntime then KindSystem
     else KindUnknown)"

definition triggerOf :: "string \<Rightarrow> u8" where
  "triggerOf t =
    (if t = ''external'' then TriggerExternal
     else if t = ''notification'' then TriggerNotification
     else if t = ''unknown'' then TriggerOther
     else TriggerNone)"

definition flagNames :: "(string \<times> u16) list" where
  "flagNames =
    [(''synthetic'', FlagSynthetic), (''context_reset'', FlagEpochBoundary),
     (''reset_summary'', FlagEpochSummary), (''finished'', FlagStopReason),
     (''external_input'', FlagExternalInput), (''injected'', FlagInjection),
     (''child_result'', FlagChildResult), (''error'', FlagError), (''launch_ack'', FlagLaunchAck),
     (''turn_duration'', FlagTurnDuration), (''command'', FlagCommand), (''notice'', FlagNotice),
     (''auxiliary'', FlagAuxiliary), (''internal_call'', FlagInternalCall), (''turn_call'', FlagTurnCall)]"

definition flag_of :: "string \<Rightarrow> u16" where
  "flag_of n = (case map_of flagNames n of Some f \<Rightarrow> f | None \<Rightarrow> 0)"

definition FlagName :: "u16 \<Rightarrow> string" where
  "FlagName f = (case find (\<lambda>p. snd p = f) flagNames of Some p \<Rightarrow> fst p | None \<Rightarrow> [])"

definition flagsOf :: "string list \<Rightarrow> u16" where
  "flagsOf names = foldl (\<lambda>f n. f OR flag_of n) 0 names"

section \<open>The blocks of a record\<close>

fun line_counts :: "file_change list \<Rightarrow> u32 \<times> u32 \<Rightarrow> u32 \<times> u32" where
  "line_counts [] s = s"
| "line_counts (fc # fcs) (adds, dels) =
     line_counts fcs
       (case fc_Additions fc of Some n \<Rightarrow> adds + word_of_int n | None \<Rightarrow> adds,
        case fc_Deletions fc of Some n \<Rightarrow> dels + word_of_int n | None \<Rightarrow> dels)"

definition blockOf :: "interner \<Rightarrow> nat \<Rightarrow> part \<Rightarrow> interner \<times> block" where
  "blockOf i0 n p =
    (let b = zero_block\<lparr>k_Ord := of_nat n\<rparr> in
     if pt_Kind p = PartCall then
       (case ID i0 (pt_ID p) of (i1, tool) \<Rightarrow>
        case ID i1 (pt_Name p) of (i2, name) \<Rightarrow>
        case ID i2 (pt_Server p) of (i3, server) \<Rightarrow>
        case ID i3 (pt_ServerTool p) of (i4, stool) \<Rightarrow>
          (i4, b\<lparr>k_Kind := BlockToolUse, k_ToolID := tool, k_Name := name, k_Server := server,
                 k_ServerTool := stool\<rparr>))
     else if pt_Kind p = PartResult then
       (case ID i0 (pt_Of p) of (i1, tool) \<Rightarrow> (i1, b\<lparr>k_Kind := BlockToolResult, k_ToolID := tool\<rparr>))
     else if pt_Kind p = PartText then (i0, b\<lparr>k_Kind := BlockText\<rparr>)
     else if pt_Kind p = PartReasoning then (i0, b\<lparr>k_Kind := BlockThinking\<rparr>)
     else if pt_Kind p = PartData then
       (case Decode (pt_Data p) of
          None \<Rightarrow> (i0, b\<lparr>k_Kind := BlockOther\<rparr>)
        | Some r \<Rightarrow>
           (case ID i0 (chr_CapturedBy r @ ''|'' @ chr_ID r) of (i1, name) \<Rightarrow>
            case line_counts (chr_Changes r) (0, 0) of (adds, dels) \<Rightarrow>
              (i1, b\<lparr>k_Kind := BlockChanges, k_Name := name, k_Adds := adds, k_Dels := dels\<rparr>)))
     else (i0, b\<lparr>k_Kind := BlockOther\<rparr>))"

fun blocks_from :: "interner \<Rightarrow> nat \<Rightarrow> part list \<Rightarrow> interner \<times> block list" where
  "blocks_from i n [] = (i, [])"
| "blocks_from i n (p # ps) =
    (case blockOf i n p of (i1, b) \<Rightarrow> case blocks_from i1 (Suc n) ps of (i2, bs) \<Rightarrow> (i2, b # bs))"

definition blocksOf :: "interner \<Rightarrow> sd_record \<Rightarrow> interner \<times> block list" where
  "blocksOf i rec = blocks_from i 0 (sr_Parts rec)"

section \<open>The body row\<close>

text \<open>\<open>strconv.ParseUint\<close> in base 16.\<close>

fun hex_value :: "nat \<Rightarrow> string \<Rightarrow> nat option" where
  "hex_value acc [] = Some acc"
| "hex_value acc (c # s) = (case hex_val c of None \<Rightarrow> None | Some d \<Rightarrow> hex_value (16 * acc + d) s)"

definition ParseHex :: "string \<Rightarrow> u64 option" where
  "ParseHex s =
    (if s = [] then None
     else case hex_value 0 s of None \<Rightarrow> None | Some n \<Rightarrow> if n < 2 ^ 64 then Some (of_nat n) else None)"

definition messageOf :: "msg_entry \<Rightarrow> message option" where
  "messageOf e =
    (case ParseHex (me_Digest e) of
       None \<Rightarrow> None
     | Some d \<Rightarrow>
        if length (me_Digest e) \<noteq> 16 then None
        else if me_ID e \<noteq> [] then
          (case ParseHex (me_ID e) of
             None \<Rightarrow> None
           | Some n \<Rightarrow> if length (me_ID e) \<noteq> 16 then None else Some \<lparr>m_HasID = True, m_ID = n, m_Digest = d\<rparr>)
        else Some \<lparr>m_HasID = False, m_ID = 0, m_Digest = d\<rparr>)"

fun encode_list :: "msg_entry list \<Rightarrow> bytes option" where
  "encode_list [] = Some []"
| "encode_list (e # es) =
    (case messageOf e of None \<Rightarrow> None | Some m \<Rightarrow> map_option (\<lambda>bs. encodeMessage m @ bs) (encode_list es))"

definition unavailable :: "string \<Rightarrow> int \<Rightarrow> interner \<times> body \<Rightarrow> interner \<times> body" where
  "unavailable why held s =
    (case s of (i, b) \<Rightarrow> case ID i why of (i', v) \<Rightarrow>
       (i', b\<lparr>y_List := ListUnavailable, y_ListWhy := v, y_ListCount := word_of_int held, y_messages := []\<rparr>))"

definition system_of :: "manifest \<Rightarrow> interner \<times> body \<Rightarrow> interner \<times> body" where
  "system_of m s =
    (case s of (i, b) \<Rightarrow>
       if mf_System m = [] then (i, b)
       else if messageOf \<lparr>me_ID = [], me_Digest = mf_System m\<rparr> \<noteq> None
         then (case ID i (mf_System m) of (i', v) \<Rightarrow> (i', b\<lparr>y_System := v\<rparr>))
       else (i, b\<lparr>y_SystemUnknown := True\<rparr>))"

text \<open>With the flag \<open>threadUnknown\<close>.\<close>

definition thread_of :: "manifest \<Rightarrow> interner \<times> body \<Rightarrow> (interner \<times> body) \<times> bool" where
  "thread_of m s =
    (case mf_Thread m of
       None \<Rightarrow> (s, False)
     | Some t \<Rightarrow>
        (case s of (i, b) \<Rightarrow>
          if th_Type t = thread_Create then ((i, b\<lparr>y_Thread := ThreadCreate\<rparr>), False)
          else if th_Type t = thread_Continue \<and> th_Previous t \<noteq> [] \<and> length (th_Previous t) \<le> MaxPrevious
            then (case ID i (th_Previous t) of (i', v) \<Rightarrow>
                    ((i', b\<lparr>y_Thread := ThreadContinue, y_ThreadPrevious := v\<rparr>), False))
          else ((i, b), True)))"

definition list_of :: "manifest \<Rightarrow> bool \<Rightarrow> interner \<times> body \<Rightarrow> interner \<times> body" where
  "list_of m threadUnknown s =
    (case mf_Messages m of
       None \<Rightarrow> s
     | Some l \<Rightarrow>
        (let (s1, es) =
           (if ml_Unavailable l \<noteq> [] then (unavailable (ml_Unavailable l) (ml_Count l) s, ml_Entries l)
            else if Relative l then
              (case s of (i, b) \<Rightarrow> case ID i (ml_Base l) of (i', v) \<Rightarrow>
                 ((i', b\<lparr>y_List := ListRelative, y_ListBase := v, y_ListKeep := word_of_int (ml_Keep l)\<rparr>),
                  ml_Add l))
            else (case s of (i, b) \<Rightarrow> ((i, b\<lparr>y_List := ListWhole\<rparr>), ml_Entries l)));
           s2 =
            (if y_List (snd s1) = ListUnavailable then s1
             else case encode_list es of
                    None \<Rightarrow> unavailable UnrecognisedShape 0 s1
                  | Some bs \<Rightarrow> (fst s1, (snd s1)\<lparr>y_messages := bs\<rparr>))
         in if threadUnknown then unavailable UnrecognisedShape 0 s2 else s2))"

definition reply_of :: "manifest \<Rightarrow> interner \<times> body \<Rightarrow> interner \<times> body" where
  "reply_of m s =
    (case mf_Reply m of
       None \<Rightarrow> s
     | Some r \<Rightarrow>
        (case s of (i, b) \<Rightarrow>
          if rp_Unavailable r \<noteq> [] then
            (case ID i (rp_Unavailable r) of (i', v) \<Rightarrow> (i', b\<lparr>y_Reply := ReplyUnavailable, y_ReplyWhy := v\<rparr>))
          else case messageOf \<lparr>me_ID = rp_ID r, me_Digest = rp_Digest r\<rparr> of
            Some msg \<Rightarrow> (i, b\<lparr>y_Reply := ReplyEntry, y_ReplyHasID := m_HasID msg, y_ReplyID := m_ID msg,
                             y_ReplyDigest := m_Digest msg\<rparr>)
          | None \<Rightarrow> (case ID i UnrecognisedShape of (i', v) \<Rightarrow>
                       (i', b\<lparr>y_Reply := ReplyUnavailable, y_ReplyWhy := v\<rparr>))))"

definition historyOf :: "manifest \<Rightarrow> interner \<times> body \<Rightarrow> interner \<times> body" where
  "historyOf m s =
    (if mf_HistoryForm m = [] then s
     else case s of (i, b) \<Rightarrow>
       case ID i (mf_HistoryForm m) of (i', v) \<Rightarrow>
       case thread_of m (system_of m (i', b\<lparr>y_Form := v\<rparr>)) of (s1, threadUnknown) \<Rightarrow>
         reply_of m (list_of m threadUnknown s1))"

definition bodyOf :: "interner \<Rightarrow> sd_record \<Rightarrow> interner \<times> body option" where
  "bodyOf i rec =
    (case ManifestOf rec of
       None \<Rightarrow> (i, None)
     | Some m \<Rightarrow>
        (case ID i (mf_Request m) of (i1, request) \<Rightarrow>
         case ID i1 (mf_PreviousRequest m) of (i2, previous) \<Rightarrow>
         let b = Index_Data.zero_body\<lparr>y_Request := request, y_Previous := previous\<rparr>;
             b = (if mf_Role m = PB_RoleRequest then b\<lparr>y_Role := BodyRoleRequest\<rparr>
                  else if mf_Role m = PB_RoleResponse then b\<lparr>y_Role := BodyRoleResponse\<rparr> else b)
         in case historyOf m (i2, b) of (i3, b') \<Rightarrow> (i3, Some b')))"

section \<open>One record\<close>

definition other_blocks :: "nat \<Rightarrow> block list" where
  "other_blocks n = map (\<lambda>k. zero_block\<lparr>k_Ord := of_nat k, k_Kind := BlockOther\<rparr>) [0..<n]"

definition entryOf :: "interner \<Rightarrow> sd_header \<Rightarrow> sd_record \<Rightarrow> u32 \<Rightarrow> u32 \<Rightarrow> interner \<times> entry" where
  "entryOf i0 hdr rec seq row =
    (case ID i0 (sh_Stream hdr) of (i1, stream) \<Rightarrow>
     case ID i1 (batchOf hdr rec) of (i2, batch) \<Rightarrow>
     case ID i2 (sr_ID rec) of (i3, record) \<Rightarrow>
     case ID i3 (sr_Parent rec) of (i4, parent) \<Rightarrow>
     case ID i4 (sr_Call rec) of (i5, call) \<Rightarrow>
     case ID i5 (sr_Run rec) of (i6, runs) \<Rightarrow>
     case ID i6 (sr_Continues rec) of (i7, continues) \<Rightarrow>
     case ID i7 (sr_Tool rec) of (i8, tool) \<Rightarrow>
     case ID i8 (sr_Child rec) of (i9, child) \<Rightarrow>
     case ID i9 (sr_StartedBy rec) of (i10, started) \<Rightarrow>
     case ID i10 (sr_Label rec) of (i11, label) \<Rightarrow>
       (i11, zero_entry\<lparr>e_Seq := seq, e_Row := row, e_Ord := sr_Ord rec, e_Stream := stream, e_Batch := batch,
          e_Kind := kindOf hdr rec, e_Record := record, e_Parent := parent, e_Call := call, e_Run := runs,
          e_Continues := continues, e_Tool := tool, e_Child := child, e_StartedBy := started,
          e_Label := label, e_Trigger := triggerOf (sr_Trigger rec), e_Flags := flagsOf (sr_Flags rec),
          e_TS := (case parse_time (sr_Time rec) of
                     Some t \<Rightarrow> if sr_Time rec \<noteq> [] then word_of_int t else 0 | None \<Rightarrow> 0)\<rparr>))"

definition FromRecord :: "index \<Rightarrow> sd_header \<Rightarrow> sd_record \<Rightarrow> u32 \<Rightarrow> u32 \<Rightarrow> index \<times> entry \<times> block list \<times> body option" where
  "FromRecord ix hdr rec seq row =
    (case entryOf (ix_Strings ix) hdr rec seq row of (i, e) \<Rightarrow>
     if e_Kind e = KindProviderBody then
       (case bodyOf i rec of (i', y) \<Rightarrow>
          (ix\<lparr>ix_Strings := i'\<rparr>, e, other_blocks (length (sr_Parts rec)), y))
     else
       (case blocksOf i rec of (i', bs) \<Rightarrow> (ix\<lparr>ix_Strings := i'\<rparr>, e, bs, None)))"

definition index_record :: "sd_header \<Rightarrow> u32 \<Rightarrow> u32 \<Rightarrow> sd_record \<Rightarrow> index \<Rightarrow> index" where
  "index_record hdr seq row rec ix =
    (case FromRecord ix hdr rec seq row of (ix', e, bs, y) \<Rightarrow> AppendRecord ix' e bs y)"

section \<open>Landed files\<close>

text \<open>
  A landed file as \<open>indexLandedFile\<close> meets it: what \<^verbatim>\<open>storage.LandedFiles\<close> says of its place, the header
  its reader gives, or none when it cannot be opened or read, the records before the reader stops, and
  whether it stops at the end of the file rather than with an error.
\<close>

record landed =
  ld_Seq :: u64
  ld_Stream :: string
  ld_RunID :: string
  ld_Header :: "sd_header option"
  ld_Records :: "sd_record list"
  ld_Ends :: bool

fun index_rows :: "sd_header \<Rightarrow> u32 \<Rightarrow> u32 \<Rightarrow> sd_record list \<Rightarrow> index \<Rightarrow> index" where
  "index_rows hdr seq row [] ix = ix"
| "index_rows hdr seq row (r # rs) ix = index_rows hdr seq (row + 1) rs (index_record hdr seq row r ix)"

definition placed_header :: "landed \<Rightarrow> sd_header \<Rightarrow> sd_header" where
  "placed_header lf hdr =
    (let hdr = (if sh_Stream hdr = [] then hdr\<lparr>sh_Stream := ld_Stream lf\<rparr> else hdr)
     in if sh_Batch hdr = [] then hdr\<lparr>sh_Batch := ld_RunID lf\<rparr> else hdr)"

definition indexLandedFile :: "index \<Rightarrow> landed \<Rightarrow> index \<times> nat \<times> bool" where
  "indexLandedFile ix lf =
    (case ld_Header lf of
       None \<Rightarrow> (ix, 0, False)
     | Some hdr \<Rightarrow>
        (index_rows (placed_header lf hdr) (ucast (ld_Seq lf)) 1 (ld_Records lf) ix,
         length (ld_Records lf), ld_Ends lf))"

fun rebuild_from :: "index \<Rightarrow> u64 \<Rightarrow> nat \<Rightarrow> landed list \<Rightarrow> index \<times> nat \<times> bool" where
  "rebuild_from ix afterSeq indexed [] = (ix, indexed, True)"
| "rebuild_from ix afterSeq indexed (lf # lfs) =
    (if ld_Seq lf \<le> afterSeq then rebuild_from ix afterSeq indexed lfs
     else case indexLandedFile ix lf of (ix', n, ok) \<Rightarrow>
       if ok then rebuild_from ix' afterSeq (indexed + n) lfs else (ix', indexed, False))"

definition Rebuild :: "landed list \<Rightarrow> index \<Rightarrow> u64 \<Rightarrow> index \<times> nat \<times> bool" where
  "Rebuild files ix afterSeq = rebuild_from ix afterSeq 0 files"

end
