(* ===== verification/Index_Watermark.thy ===== *)
theory Index_Watermark
  imports Index_Lookup
begin

text \<open>
  The wiring of an index that is only ever appended to, and the watermark: \<open>Through\<close> on
  the index of some records is the index of the records at or below the watermark. The
  wiring is also what makes an appended index fit its file.
\<close>

section \<open>The wiring\<close>

definition last_ends_at :: "('a \<Rightarrow> u32) \<Rightarrow> ('a \<Rightarrow> u32) \<Rightarrow> 'a list \<Rightarrow> nat \<Rightarrow> bool" where
  "last_ends_at fst_of cnt_of xs n \<longleftrightarrow> (xs \<noteq> [] \<longrightarrow> fst_of (last xs) + cnt_of (last xs) = of_nat n) \<and>
     (xs = [] \<longrightarrow> n = 0)"

definition index_wired :: "index \<Rightarrow> bool" where
  "index_wired ix \<longleftrightarrow>
     ix_maps ix = None \<and> blocks_in_range ix \<and>
     last_ends_at e_BlockFirst e_BlockCount (ix_Entries ix) (length (ix_Blocks ix)) \<and>
     last_ends_at y_MsgFirst y_MsgCount (ix_Bodies ix) (length (ix_Messages ix)) \<and>
     (\<forall>y \<in> set (ix_Bodies ix). unat (y_Entry y) < length (ix_Entries ix)) \<and>
     list_all (\<lambda>y. y_messages y = []) (ix_Bodies ix) \<and>
     list_all (body_in_range (length (ix_Messages ix))) (ix_Bodies ix)"

text \<open>The sizes of the tables stay below the 32-bit counts.\<close>

definition index_small :: "index \<Rightarrow> bool" where
  "index_small ix \<longleftrightarrow> length (ix_Entries ix) < 2 ^ 32 \<and> length (ix_Blocks ix) < 2 ^ 32 \<and>
     length (ix_Bodies ix) < 2 ^ 32 \<and> length (ix_Messages ix) < 2 ^ 32"

lemma New_wired [simp, invariant_intros]: "index_wired (New session)"
  by (simp add: index_wired_def New_def blocks_in_range_def last_ends_at_def)

lemma Append_simps [simp]:
  "ix_Entries (Append ix e bs) = ix_Entries ix @ [e\<lparr>e_BlockFirst := of_nat (length (ix_Blocks ix)), e_BlockCount := of_nat (length bs)\<rparr>]"
  "ix_Blocks (Append ix e bs) = ix_Blocks ix @ map (\<lambda>b. b\<lparr>k_Entry := of_nat (length (ix_Entries ix))\<rparr>) bs"
  "ix_Bodies (Append ix e bs) = ix_Bodies ix" "ix_Messages (Append ix e bs) = ix_Messages ix"
  "ix_Strings (Append ix e bs) = ix_Strings ix" "ix_Session (Append ix e bs) = ix_Session ix"
  "ix_maps (Append ix e bs) = None"
  by (simp_all add: Append_def Let_def)

lemma Append_wired:
  assumes "index_wired ix" and "index_small (Append ix e bs)"
  shows "index_wired (Append ix e bs)"
proof -
  have "unat (of_nat (length (ix_Entries ix)) :: u32) = length (ix_Entries ix)"
    using assms(2) by (intro unat_of_nat_u32) (simp add: index_small_def)
  with assms show ?thesis
    by (auto simp: index_wired_def blocks_in_range_def last_ends_at_def less_Suc_eq)
qed

definition add_body :: "index \<Rightarrow> body \<Rightarrow> index" where
  "add_body ix y =
     (let msgs = ix_Messages ix @ decode_messages (y_messages y)
      in ix\<lparr>ix_Messages := msgs, ix_Bodies := ix_Bodies ix @
           [y\<lparr>y_Entry := of_nat (length (ix_Entries ix)), y_MsgFirst := of_nat (length (ix_Messages ix)),
              y_MsgCount := of_nat (length msgs) - of_nat (length (ix_Messages ix)), y_messages := []\<rparr>]\<rparr>)"

lemma AppendRecord_eq:
  "AppendRecord ix e bs body = Append (case body of None \<Rightarrow> ix | Some y \<Rightarrow> add_body ix y) e bs"
  by (cases body) (simp_all add: AppendRecord_def add_body_def Let_def)

lemma AppendRecord_wired [invariant_intros]:
  assumes "index_wired ix" and "index_small (AppendRecord ix e bs body)"
  shows "index_wired (AppendRecord ix e bs body)"
proof (cases body)
  case None
  with assms show ?thesis by (simp add: AppendRecord_eq Append_wired)
next
  case (Some y)
  let ?n = "length (ix_Messages ix)" and ?m = "length (decode_messages (y_messages y))"
  let ?ei = "of_nat (length (ix_Entries ix)) :: u32"
  have small: "?n + ?m < 2 ^ 32" "length (ix_Entries ix) < 2 ^ 32"
    using assms(2) Some by (simp_all add: AppendRecord_eq index_small_def add_body_def Let_def)
  have "unat (of_nat (length (ix_Messages ix)) :: u32) + unat (of_nat (?n + ?m) - of_nat ?n :: u32) = ?n + ?m"
    using small by simp
  moreover have "unat ?ei = length (ix_Entries ix)" using small by simp
  moreover have "unat (of_nat (length (ix_Entries ix)) :: u32) < Suc (length (ix_Entries ix))"
    using small by simp
  ultimately show ?thesis
    using assms Some
    by (auto simp: AppendRecord_eq add_body_def Let_def index_wired_def blocks_in_range_def
        last_ends_at_def less_Suc_eq list_all_iff body_in_range_def)
qed

text \<open>An index that a longer one extends: its tables are prefixes, and later bodies are of later entries.\<close>

definition index_extends :: "index \<Rightarrow> index \<Rightarrow> bool" where
  "index_extends ix jx \<longleftrightarrow>
     ix_Session jx = ix_Session ix \<and> ix_Strings jx = ix_Strings ix \<and>
     (\<exists>es. ix_Entries jx = ix_Entries ix @ es) \<and>
     (\<exists>bs. ix_Blocks jx = ix_Blocks ix @ bs) \<and>
     (\<exists>ms. ix_Messages jx = ix_Messages ix @ ms) \<and>
     (\<exists>ys. ix_Bodies jx = ix_Bodies ix @ ys \<and>
        (\<forall>y \<in> set ys. length (ix_Entries ix) \<le> unat (y_Entry y)))"

lemma index_extends_refl [simp]: "index_extends ix ix"
  by (simp add: index_extends_def)

lemma index_extends_trans [trans]:
  assumes "index_extends ix jx" and "index_extends jx kx"
  shows "index_extends ix kx"
  using assms by (fastforce simp: index_extends_def)

lemma index_extends_small: "index_extends ix jx \<Longrightarrow> index_small jx \<Longrightarrow> index_small ix"
  by (auto simp: index_extends_def index_small_def)

lemma AppendRecord_extends:
  assumes "index_small (AppendRecord ix e bs body)"
  shows "index_extends ix (AppendRecord ix e bs body)"
proof -
  have "unat (of_nat (length (ix_Entries ix)) :: u32) = length (ix_Entries ix)"
    using assms by (intro unat_of_nat_u32)
      (auto simp: AppendRecord_eq index_small_def add_body_def Let_def split: option.splits)
  then show ?thesis
    by (cases body) (simp_all add: index_extends_def AppendRecord_eq add_body_def Let_def)
qed

lemma AppendStaged_snoc:
  "AppendStaged ix (rows @ rows') = AppendStaged (AppendStaged ix rows) rows'"
  by (induction rows arbitrary: ix) auto

lemma AppendStaged_extends:
  "index_small (AppendStaged ix rows) \<Longrightarrow> index_extends ix (AppendStaged ix rows)"
proof (induction rows rule: rev_induct)
  case Nil
  then show ?case by simp
next
  case (snoc r rows)
  obtain e bs body where r: "r = (e, bs, body)" by (cases r)
  have ext: "index_extends (AppendStaged ix rows) (AppendStaged ix (rows @ [r]))"
    using AppendRecord_extends [of "AppendStaged ix rows" e bs body] snoc.prems
    by (simp add: AppendStaged_snoc r)
  have "index_extends ix (AppendStaged ix rows)"
    using snoc.IH index_extends_small [OF ext snoc.prems] .
  then show ?case using ext index_extends_trans by blast
qed

lemma AppendStaged_wired [invariant_intros]:
  "index_wired ix \<Longrightarrow> index_small (AppendStaged ix rows) \<Longrightarrow> index_wired (AppendStaged ix rows)"
proof (induction rows rule: rev_induct)
  case Nil
  then show ?case by simp
next
  case (snoc r rows)
  obtain e bs body where r: "r = (e, bs, body)" by (cases r)
  have eq: "AppendStaged ix (rows @ [r]) = AppendRecord (AppendStaged ix rows) e bs body"
    by (simp add: AppendStaged_snoc r)
  with snoc.prems(2) have "index_small (AppendStaged ix rows)"
    using AppendRecord_extends index_extends_small by metis
  with snoc eq show ?case by (simp add: AppendRecord_wired)
qed

lemma AppendStaged_entries:
  "length (ix_Entries (AppendStaged ix rows)) = length (ix_Entries ix) + length rows"
  "i < length rows \<Longrightarrow>
     e_Seq (ix_Entries (AppendStaged ix rows) ! (length (ix_Entries ix) + i)) = e_Seq (fst (rows ! i))"
proof -
  have "length (ix_Entries (AppendStaged ix rows)) = length (ix_Entries ix) + length rows \<and>
    (\<forall>i < length rows.
      e_Seq (ix_Entries (AppendStaged ix rows) ! (length (ix_Entries ix) + i)) = e_Seq (fst (rows ! i)))"
  proof (induction rows rule: rev_induct)
    case Nil
    then show ?case by simp
  next
    case (snoc r rows)
    obtain e bs body where r: "r = (e, bs, body)" by (cases r)
    have "ix_Entries (AppendStaged ix (rows @ [r])) = ix_Entries (AppendStaged ix rows) @
        [e\<lparr>e_BlockFirst := of_nat (length (ix_Blocks (AppendStaged ix rows))), e_BlockCount := of_nat (length bs)\<rparr>]"
      by (cases body) (simp_all add: AppendStaged_snoc r AppendRecord_eq add_body_def Let_def)
    with snoc.IH show ?case
      by (auto simp: nth_append r less_Suc_eq)
  qed
  then show "length (ix_Entries (AppendStaged ix rows)) = length (ix_Entries ix) + length rows"
    and "i < length rows \<Longrightarrow>
      e_Seq (ix_Entries (AppendStaged ix rows) ! (length (ix_Entries ix) + i)) = e_Seq (fst (rows ! i))"
    by auto
qed

section \<open>The watermark\<close>

definition row_through :: "u64 \<Rightarrow> staged_row \<Rightarrow> bool" where
  "row_through seq r \<longleftrightarrow> ucast (e_Seq (fst r)) \<le> seq"

text \<open>On a longer index of the same wiring, \<open>Through\<close> cuts back to the one it extends.\<close>

lemma Through_extends:
  assumes wired: "index_wired ix" and ext: "index_extends ix jx" and small: "index_small jx"
    and seq: "seq \<noteq> 0"
    and low: "\<And>i. i < length (ix_Entries ix) \<Longrightarrow> ucast (e_Seq (ix_Entries jx ! i)) \<le> seq"
    and high: "\<And>i. length (ix_Entries ix) \<le> i \<Longrightarrow> i < length (ix_Entries jx) \<Longrightarrow>
      \<not> ucast (e_Seq (ix_Entries jx ! i)) \<le> seq"
    and more: "length (ix_Entries ix) < length (ix_Entries jx)"
  shows "Through jx seq = Some ix"
proof -
  let ?k = "length (ix_Entries ix)" and ?nb = "length (ix_Bodies ix)"
  obtain es bs ms ys where tables: "ix_Entries jx = ix_Entries ix @ es" "ix_Blocks jx = ix_Blocks ix @ bs"
    "ix_Messages jx = ix_Messages ix @ ms" "ix_Bodies jx = ix_Bodies ix @ ys"
    and later: "\<forall>y \<in> set ys. ?k \<le> unat (y_Entry y)"
    using ext by (auto simp: index_extends_def)
  have not_all: "\<not> (seq = 0 \<or> length (ix_Entries jx) = 0 \<or>
      ucast (e_Seq (ix_Entries jx ! (length (ix_Entries jx) - 1))) \<le> seq)"
    using seq more high [of "length (ix_Entries jx) - 1"] by auto
  have k: "Search (length (ix_Entries jx)) (\<lambda>i. ucast (e_Seq (ix_Entries jx ! i)) > seq) = ?k"
  proof (rule Search_eqI)
    show "ucast (e_Seq (ix_Entries jx ! b)) > seq"
      if "a \<le> b" "b < length (ix_Entries jx)" "ucast (e_Seq (ix_Entries jx ! a)) > seq" for a b
      using that low [of a] high [of b] by (meson leI le_trans not_le)
  qed (use more low high in \<open>auto simp: not_less not_le\<close>)
  have nb: "Search (length (ix_Bodies jx)) (\<lambda>i. unat (y_Entry (ix_Bodies jx ! i)) \<ge> ?k) = ?nb"
  proof (rule Search_eqI)
    have early: "unat (y_Entry (ix_Bodies jx ! i)) < ?k" if "i < ?nb" for i
      using that wired by (simp add: index_wired_def tables nth_append)
    have late: "?k \<le> unat (y_Entry (ix_Bodies jx ! i))" if "?nb \<le> i" "i < length (ix_Bodies jx)" for i
      using that later by (simp add: tables nth_append)
    show "?k \<le> unat (y_Entry (ix_Bodies jx ! b))"
      if "a \<le> b" "b < length (ix_Bodies jx)" "?k \<le> unat (y_Entry (ix_Bodies jx ! a))" for a b
      using that early [of a] late [of b] by linarith
    show "\<not> ?k \<le> unat (y_Entry (ix_Bodies jx ! a))" if "a < ?nb" for a
      using early [OF that] by simp
    show "?k \<le> unat (y_Entry (ix_Bodies jx ! ?nb))" if "?nb < length (ix_Bodies jx)"
      using late that by simp
  qed (simp add: tables)
  have wrap: "unat (of_nat (length (ix_Blocks ix)) :: u32) = length (ix_Blocks ix)"
    "unat (of_nat (length (ix_Messages ix)) :: u32) = length (ix_Messages ix)"
    using index_extends_small [OF ext small] by (simp_all add: index_small_def)
  have blocks: "(if ?k > 0 then (let l = ix_Entries jx ! (?k - 1)
      in unat (e_BlockFirst l + e_BlockCount l)) else 0) = length (ix_Blocks ix)"
    using wired wrap(1) by (auto simp: index_wired_def last_ends_at_def tables nth_append last_conv_nth Let_def)
  have messages: "(if ?nb > 0 then (let l = ix_Bodies jx ! (?nb - 1)
      in unat (y_MsgFirst l + y_MsgCount l)) else 0) = length (ix_Messages ix)"
    using wired wrap(2) by (auto simp: index_wired_def last_ends_at_def tables nth_append last_conv_nth Let_def)
  have "ix_Session jx = ix_Session ix" "ix_Strings jx = ix_Strings ix" "ix_maps ix = None"
    using ext wired by (simp_all add: index_extends_def index_wired_def)
  then show ?thesis
    unfolding Through_def Let_def [of "length (ix_Entries jx)"] if_not_P [OF not_all] k
    using blocks messages nb by (simp add: slice_to_def tables)
qed

lemma Through_low:
  assumes "sorted_wrt (\<lambda>a b. e_Seq (fst a) \<le> e_Seq (fst b)) rows"
    and "index_small (AppendStaged (New session) rows)" and "seq \<noteq> 0"
  shows "Through (AppendStaged (New session) rows) seq
    = Some (AppendStaged (New session) (takeWhile (row_through seq) rows))"
proof -
  let ?low = "takeWhile (row_through seq) rows" and ?high = "dropWhile (row_through seq) rows"
  let ?jx = "AppendStaged (New session) rows" and ?ix = "AppendStaged (New session) ?low"
  have jx: "?jx = AppendStaged ?ix ?high"
    by (metis AppendStaged_snoc takeWhile_dropWhile_id)
  have empty: "length (ix_Entries (New session)) = 0" by (simp add: New_def)
  note len = AppendStaged_entries(1) [of "New session", unfolded empty add_0]
    and at = AppendStaged_entries(2) [of _ _ "New session", unfolded empty add_0]
  have low: "row_through seq (rows ! i)" if "i < length ?low" for i
    using that by (metis nth_mem set_takeWhileD takeWhile_nth)
  show ?thesis
  proof (cases "?high = []")
    case True
    then have all: "\<forall>r \<in> set rows. row_through seq r" and "?low = rows"
      by (auto simp: dropWhile_eq_Nil_conv takeWhile_eq_all_conv)
    have "ucast (e_Seq (ix_Entries ?jx ! (length rows - 1))) \<le> seq" if "rows \<noteq> []"
      using all that at [of "length rows - 1" rows] by (simp add: row_through_def)
    then have c: "seq = 0 \<or> length (ix_Entries ?jx) = 0 \<or>
        ucast (e_Seq (ix_Entries ?jx ! (length (ix_Entries ?jx) - 1))) \<le> seq"
      by (auto simp: len)
    show ?thesis
      unfolding Through_def Let_def [of "length (ix_Entries ?jx)"] if_P [OF c] \<open>?low = rows\<close> ..
  next
    case False
    have high: "\<not> row_through seq (rows ! i)" if "length ?low \<le> i" "i < length rows" for i
    proof -
      have "length ?low < length rows" using that by simp
      then have "\<not> row_through seq (rows ! length ?low)" by (rule nth_length_takeWhile)
      moreover have "e_Seq (fst (rows ! length ?low)) \<le> e_Seq (fst (rows ! i))"
        using assms(1) that by (cases "length ?low = i") (auto simp: sorted_wrt_iff_nth_less)
      ultimately show ?thesis
        unfolding row_through_def [of seq "rows ! i"] row_through_def [of seq "rows ! length ?low"]
        using order_trans [of "ucast (e_Seq (fst (rows ! length ?low)))"
            "ucast (e_Seq (fst (rows ! i)))" seq] by auto
    qed
    have ext: "index_extends ?ix ?jx"
      using AppendStaged_extends [of ?ix ?high] assms(2) by (simp add: jx)
    have "index_wired ?ix"
      using AppendStaged_wired index_extends_small [OF ext assms(2)] by simp
    then show ?thesis
    proof (rule Through_extends [OF _ ext assms(2,3)])
      have "length ?low < length rows"
        using False by (metis dropWhile_eq_drop drop_eq_Nil not_le)
      then show "length (ix_Entries ?ix) < length (ix_Entries ?jx)" by (simp add: len)
      show "ucast (e_Seq (ix_Entries ?jx ! i)) \<le> seq" if "i < length (ix_Entries ?ix)" for i
        using that low [of i] at [of i rows] length_takeWhile_le [of "row_through seq" rows]
        by (simp add: len row_through_def)
      show "\<not> ucast (e_Seq (ix_Entries ?jx ! i)) \<le> seq"
        if "length (ix_Entries ?ix) \<le> i" "i < length (ix_Entries ?jx)" for i
        using that high [of i] at [of i rows] by (simp add: len row_through_def)
    qed
  qed
qed

text \<open>C38. A round assembled under a watermark draws on nothing past it: the index through \<open>seq\<close> is
  exactly the index of the records at or below it, with their blocks, bodies and messages, as if
  no later record had landed.\<close>

theorem Through_is_prefix:
  assumes "sorted_wrt (\<lambda>a b. e_Seq (fst a) \<le> e_Seq (fst b)) rows"
    and "index_small (AppendStaged (New session) rows)" and "seq \<noteq> 0"
  shows "Through (AppendStaged (New session) rows) seq
    = Some (AppendStaged (New session) (takeWhile (row_through seq) rows))"
  using assms by (rule Through_low)

section \<open>Landing, crashing and loading\<close>

lemma AppendStaged_Strings:
  "ix_Strings (AppendStaged ix rows) = ix_Strings ix"
  by (induction ix rows rule: AppendStaged.induct)
    (simp_all add: AppendRecord_eq add_body_def Let_def split: option.splits)

lemma landed_order_iff:
  "landed_order es \<longleftrightarrow> sorted_wrt (\<lambda>a b. e_Seq a \<le> e_Seq b) es"
proof (induction es rule: landed_order.induct)
  case (1 a b es)
  then show ?case by (auto intro: order_trans)
qed simp_all

lemma appended_fits:
  assumes "sorted_wrt (\<lambda>a b. e_Seq (fst a) \<le> e_Seq (fst b)) rows"
    and "index_small (AppendStaged (New session) rows)"
    and "interner_inv strs" and "length (int_s strs) < 2 ^ 32"
    and "\<forall>s \<in> set (int_s strs). length s < 2 ^ 32"
  shows "index_fits ((AppendStaged (New session) rows)\<lparr>ix_Strings := strs\<rparr>)"
proof -
  let ?jx = "AppendStaged (New session) rows"
  have empty: "length (ix_Entries (New session)) = 0" by (simp add: New_def)
  note len = AppendStaged_entries(1) [of "New session" rows, unfolded empty add_0]
    and at = AppendStaged_entries(2) [of _ rows "New session", unfolded empty add_0]
  have "index_wired ?jx" by (rule AppendStaged_wired [OF New_wired assms(2)])
  moreover have "landed_order (ix_Entries ?jx)"
    using assms(1) at len by (simp add: landed_order_iff sorted_wrt_iff_nth_less)
  ultimately show ?thesis
    using assms(2-5) by (simp add: index_fits_def index_wired_def index_small_def)
qed

text \<open>A collector that stops after writing its extended index and before saving its state leaves
  an index that is not taken: unless its entry count is the one saved, \<open>LoadFor\<close> answers as if
  there were none, so the records past the watermark are never added twice. When the counts agree
  it returns the index that was written.\<close>

theorem LoadFor_after_crash:
  assumes "sorted_wrt (\<lambda>a b. e_Seq (fst a) \<le> e_Seq (fst b)) rows"
    and "index_small (AppendStaged (New session) rows)"
    and "interner_inv strs" and "length (int_s strs) < 2 ^ 32"
    and "\<forall>s \<in> set (int_s strs). length s < 2 ^ 32"
  shows "LoadFor (Content (index_bytes ((AppendStaged (New session) rows)\<lparr>ix_Strings := strs\<rparr>))) session
      (Some \<lparr>st_Schema = 17, st_Entries = int saved\<rparr>)
    = (if saved = length rows then Loaded ((AppendStaged (New session) rows)\<lparr>ix_Strings := strs\<rparr>)
       else LoadAbsent)"
proof -
  let ?jx = "(AppendStaged (New session) rows)\<lparr>ix_Strings := strs\<rparr>"
  have fits: "index_fits ?jx" by (rule appended_fits [OF assms])
  have "length (ix_Entries ?jx) = length rows"
    using AppendStaged_entries(1) [of "New session" rows] by (simp add: New_def)
  moreover have "ix_maps ?jx = None"
    using AppendStaged_wired [OF New_wired assms(2)] by (simp add: index_wired_def)
  moreover have "ix_Session ?jx = session"
    using AppendStaged_extends [OF assms(2)] by (simp add: index_extends_def New_def)
  ultimately have "Load (Content (index_bytes ?jx)) session = Loaded ?jx"
    using Load_written [OF fits] by simp
  with \<open>length (ix_Entries ?jx) = length rows\<close> show ?thesis
    by (simp add: LoadFor_def Schema_def)
qed

section \<open>Witnesses\<close>

text \<open>Three records of the main stream: the second replays the first, the third is its child.\<close>

definition sample_rows :: "staged_row list" where
  "sample_rows =
     [(zero_entry\<lparr>e_Seq := 1, e_Row := 1, e_Stream := 1, e_Record := 2, e_Call := 4\<rparr>,
        [zero_block\<lparr>k_ToolID := 3\<rparr>], None),
      (zero_entry\<lparr>e_Seq := 2, e_Row := 1, e_Stream := 1, e_Record := 2, e_Call := 4\<rparr>, [], None),
      (zero_entry\<lparr>e_Seq := 2, e_Row := 2, e_Stream := 1, e_Record := 3, e_Parent := 2, e_Run := 5\<rparr>,
        [], None)]"

definition sample_strings :: interner where
  "sample_strings = loadInterner [''main'', ''r1'', ''r2'', ''call'', ''run'']"

definition replay_index :: index where
  "replay_index = (AppendStaged (New ''s'') sample_rows)\<lparr>ix_Strings := sample_strings\<rparr>"

lemma sample_strings_ok:
  "interner_inv sample_strings" "length (int_s sample_strings) = 5"
  "\<forall>s \<in> set (int_s sample_strings). length s < 2 ^ 32"
  using loadInterner_inv [of "[''main'', ''r1'', ''r2'', ''call'', ''run'']"]
  by (simp_all add: sample_strings_def loadInterner_def)

lemma sample_small: "index_small (AppendStaged (New ''s'') sample_rows)"
  by (simp add: index_small_def sample_rows_def AppendRecord_eq New_def)

lemma replay_index_ok: "blocks_in_range replay_index" "maps_fresh replay_index"
  by (simp_all add: replay_index_def sample_rows_def AppendRecord_eq New_def blocks_in_range_def
      maps_fresh_def)

lemma replayed_code:
  "replayed es i \<longleftrightarrow>
     e_Record (es ! i) \<noteq> 0 \<and> \<not> is_body (es ! i) \<and> list_ex (\<lambda>j. owns (e_Record (es ! i)) (es ! j)) [0..<i]"
  by (auto simp: replayed_def list_ex_iff)

lemmas replay_simps = replay_index_def sample_rows_def AppendRecord_eq New_def zero_entry_def
  canonical_with_def skipped_def replayed_code owns_def is_body_def kind_defs

lemma replay_lookup: "Lookup (ix_Strings replay_index) ''main'' = (1, True)"
  "Lookup (ix_Strings replay_index) ''call'' = (4, True)"
  by (simp_all add: replay_index_def sample_strings_def loadInterner_def Lookup_def)


theorem Canonical_once_per_record_witness:
  "\<exists>js. Canonical replay_index = Some js \<and> sorted_wrt (<) js \<and>
    (\<exists>j \<in> set js. j \<le> 1 \<and> (\<forall>k \<in> set js. owns 2 (ix_Entries replay_index ! k) \<longleftrightarrow> k = j))"
  by (rule Canonical_once_per_record [OF replay_index_ok])
    (simp_all add: replay_simps)

lemma replay_call: "canonical_with e_Call (ix_Entries replay_index) 4 = [0]"
  by (simp add: replay_simps upt_rec less_Suc_eq)

theorem ProviderCall_in_order_witness:
  "ProviderCall replay_index ''call'' = Some [0]"
proof -
  have "(4::u32) \<noteq> 0" by simp
  from ProviderCall_in_order [OF replay_index_ok replay_lookup(2) this] show ?thesis
    unfolding replay_call by auto
qed

theorem Ancestor_nearest_witness:
  "\<exists>m r. maps_of replay_index = Some m \<and>
    Ancestor replay_index 2 64 (\<lambda>x. x = 0) = Some r \<and>
    (\<forall>a. r = Some a \<longleftrightarrow>
      (\<exists>k \<le> 64. walk (ix_Entries replay_index) (byRecord m) k 2 = Some a \<and> a = 0 \<and>
        (\<forall>l < k. \<forall>b. walk (ix_Entries replay_index) (byRecord m) l 2 = Some b \<longrightarrow> b \<noteq> 0)))"
  using Ancestor_nearest [OF replay_index_ok, of 2 64 "\<lambda>x. x = 0"] .

theorem Through_is_prefix_witness:
  "Through (AppendStaged (New ''s'') sample_rows) 1
    = Some (AppendStaged (New ''s'') (take 1 sample_rows))"
  using Through_is_prefix [of sample_rows "''s''" 1] sample_small
  by (simp add: sample_rows_def row_through_def zero_entry_def word_le_nat_alt)

theorem LoadFor_after_crash_witness:
  "LoadFor (Content (index_bytes replay_index)) ''s'' (Some \<lparr>st_Schema = 17, st_Entries = 1\<rparr>) = LoadAbsent"
  using LoadFor_after_crash [of sample_rows "''s''" sample_strings 1] sample_small sample_strings_ok
  by (simp add: replay_index_def sample_rows_def zero_entry_def)

end
