(* ===== verification/Index_Rebuild.thy ===== *)
theory Index_Rebuild
  imports Index_Record Index_Watermark
begin

text \<open>
  What an index built from Session Data holds: every id of a row, read in the finished interner, is
  the string of the row's own record; the rows are the landed records in landed order; its tables are
  wired, so it always has its lookup maps; and a rebuild from a watermark completes the index of the
  files up to it.
\<close>

section \<open>An interner that grows\<close>

definition grows :: "nat \<Rightarrow> interner \<Rightarrow> interner \<Rightarrow> bool" where
  "grows n i j \<longleftrightarrow> interner_inv j \<and> (\<exists>xs. int_s j = int_s i @ xs \<and> length xs \<le> n)"

definition names :: "interner \<Rightarrow> u32 \<Rightarrow> string \<Rightarrow> bool" where
  "names j v s \<longleftrightarrow> String_of j v = s \<and> unat v \<le> length (int_s j)"

lemma grows_refl: "interner_inv i \<Longrightarrow> grows 0 i i"
  by (simp add: grows_def)

lemma grows_trans: "grows a i j \<Longrightarrow> grows b j k \<Longrightarrow> grows (a + b) i k"
  by (fastforce simp: grows_def)

lemma grows_mono: "grows a i j \<Longrightarrow> a \<le> b \<Longrightarrow> grows b i j"
  by (auto simp: grows_def intro: le_trans)

lemma grows_inv: "grows a i j \<Longrightarrow> interner_inv j"
  by (simp add: grows_def)

lemma grows_room: "grows a i j \<Longrightarrow> interner_room i (a + b) \<Longrightarrow> interner_room j b"
  by (auto simp: grows_def interner_room_def)

lemma room_mono: "interner_room i b \<Longrightarrow> a \<le> b \<Longrightarrow> interner_room i a"
  by (simp add: interner_room_def)

lemma names_grows: "names i v s \<Longrightarrow> grows n i j \<Longrightarrow> names j v s"
  by (auto simp: names_def grows_def String_of_extends)

lemma ID_grows:
  assumes "interner_inv i" and "ID i s = (j, v)"
  shows "grows 1 i j"
proof -
  have "j = fst (ID i s)" using assms(2) by simp
  with assms(1) ID_extends [of i s] ID_length [of i s] ID_inv [of i s] show ?thesis
    by (auto simp: grows_def)
qed

lemma ID_names:
  assumes "interner_inv i" and "interner_room i 1" and "ID i s = (j, v)"
  shows "names j v s"
  using String_of_ID [OF assms(1,2), of s] ID_id_bound [OF assms(1,2), of s] assms(3) by (simp add: names_def)

text \<open>A step of construction: it adds at most \<open>n\<close> strings, and with room for them what it yields is right.\<close>

definition builds :: "nat \<Rightarrow> interner \<Rightarrow> interner \<Rightarrow> (interner \<Rightarrow> bool) \<Rightarrow> bool" where
  "builds n i j P \<longleftrightarrow> grows n i j \<and> (interner_room i n \<longrightarrow> (\<forall>m k. grows m j k \<longrightarrow> P k))"

lemma buildsI:
  "grows n i j \<Longrightarrow> (\<And>m k. interner_room i n \<Longrightarrow> grows m j k \<Longrightarrow> P k) \<Longrightarrow> builds n i j P"
  by (simp add: builds_def)

lemma builds_grows: "builds n i j P \<Longrightarrow> grows n i j"
  by (simp add: builds_def)

lemma builds_inv: "builds a i j P \<Longrightarrow> interner_inv j"
  by (rule grows_inv) (rule builds_grows)

lemma builds_later: "builds n i j P \<Longrightarrow> interner_room i n \<Longrightarrow> grows m j k \<Longrightarrow> P k"
  by (simp add: builds_def)

lemma builds_ID:
  assumes "interner_inv i" and "ID i s = (j, v)"
  shows "builds 1 i j (\<lambda>k. String_of k v = s)"
proof (rule buildsI)
  show "grows 1 i j" using ID_grows assms by blast
  fix m k assume "interner_room i 1" "grows m j k"
  then have "names k v s" using ID_names [OF assms(1) _ assms(2)] names_grows by blast
  then show "String_of k v = s" by (simp add: names_def)
qed

lemma builds_skip: "interner_inv i \<Longrightarrow> builds 0 i i (\<lambda>k. True)"
  by (rule buildsI) (simp_all add: grows_refl)

lemma builds_seq:
  assumes "builds a i j P" and "builds b j k Q"
  shows "builds (a + b) i k (\<lambda>l. P l \<and> Q l)"
proof (rule buildsI)
  show "grows (a + b) i k" using grows_trans builds_grows assms by blast
  fix m l assume room: "interner_room i (a + b)" and g: "grows m k l"
  have "P l" using builds_later [OF assms(1) room_mono [OF room]] grows_trans [OF builds_grows [OF assms(2)] g] by simp
  moreover have "Q l" using builds_later [OF assms(2) grows_room [OF builds_grows [OF assms(1)] room] g] .
  ultimately show "P l \<and> Q l" ..
qed

lemma builds_weaken:
  assumes "builds a i j P" and "a \<le> b" and "\<And>k. P k \<Longrightarrow> Q k"
  shows "builds b i j Q"
proof (rule buildsI)
  show "grows b i j" using grows_mono builds_grows assms by blast
  fix m k assume "interner_room i b" "grows m j k"
  then show "Q k" using builds_later [OF assms(1)] room_mono assms by blast
qed

section \<open>The strings of a row\<close>

definition entry_strings :: "interner \<Rightarrow> entry \<Rightarrow> string list" where
  "entry_strings i e = map (String_of i)
     [e_Stream e, e_Batch e, e_Record e, e_Parent e, e_Call e, e_Run e, e_Continues e, e_Tool e, e_Child e,
      e_StartedBy e, e_Label e]"

definition record_strings :: "sd_header \<Rightarrow> sd_record \<Rightarrow> string list" where
  "record_strings hdr rec =
     [sh_Stream hdr, batchOf hdr rec, sr_ID rec, sr_Parent rec, sr_Call rec, sr_Run rec, sr_Continues rec,
      sr_Tool rec, sr_Child rec, sr_StartedBy rec, sr_Label rec]"

definition block_strings :: "interner \<Rightarrow> block \<Rightarrow> string list" where
  "block_strings i b = map (String_of i) [k_ToolID b, k_Name b, k_Server b, k_ServerTool b]"

definition part_strings :: "part \<Rightarrow> string list" where
  "part_strings p =
    (if pt_Kind p = PartCall then [pt_ID p, pt_Name p, pt_Server p, pt_ServerTool p]
     else if pt_Kind p = PartResult then [pt_Of p, [], [], []]
     else if pt_Kind p = PartData then
       (case Decode (pt_Data p) of Some r \<Rightarrow> [[], chr_CapturedBy r @ ''|'' @ chr_ID r, [], []]
        | None \<Rightarrow> [[], [], [], []])
     else [[], [], [], []])"

lemma String_of_0 [simp]: "String_of i 0 = []"
  by (simp add: String_of_def)

lemma entryOf_builds:
  assumes "interner_inv i" and "entryOf i hdr rec seq row = (j, e)"
  shows "builds 11 i j (\<lambda>k. entry_strings k e = record_strings hdr rec)"
proof -
  obtain i1 v1 where 1: "ID i (sh_Stream hdr) = (i1, v1)" by fastforce
  obtain i2 v2 where 2: "ID i1 (batchOf hdr rec) = (i2, v2)" by fastforce
  obtain i3 v3 where 3: "ID i2 (sr_ID rec) = (i3, v3)" by fastforce
  obtain i4 v4 where 4: "ID i3 (sr_Parent rec) = (i4, v4)" by fastforce
  obtain i5 v5 where 5: "ID i4 (sr_Call rec) = (i5, v5)" by fastforce
  obtain i6 v6 where 6: "ID i5 (sr_Run rec) = (i6, v6)" by fastforce
  obtain i7 v7 where 7: "ID i6 (sr_Continues rec) = (i7, v7)" by fastforce
  obtain i8 v8 where 8: "ID i7 (sr_Tool rec) = (i8, v8)" by fastforce
  obtain i9 v9 where 9: "ID i8 (sr_Child rec) = (i9, v9)" by fastforce
  obtain i10 v10 where 10: "ID i9 (sr_StartedBy rec) = (i10, v10)" by fastforce
  obtain i11 v11 where 11: "ID i10 (sr_Label rec) = (i11, v11)" by fastforce
  note b1 = builds_ID [OF assms(1) 1]
  note b2 = builds_seq [OF b1 builds_ID [OF builds_inv [OF b1] 2]]
  note b3 = builds_seq [OF b2 builds_ID [OF builds_inv [OF b2] 3]]
  note b4 = builds_seq [OF b3 builds_ID [OF builds_inv [OF b3] 4]]
  note b5 = builds_seq [OF b4 builds_ID [OF builds_inv [OF b4] 5]]
  note b6 = builds_seq [OF b5 builds_ID [OF builds_inv [OF b5] 6]]
  note b7 = builds_seq [OF b6 builds_ID [OF builds_inv [OF b6] 7]]
  note b8 = builds_seq [OF b7 builds_ID [OF builds_inv [OF b7] 8]]
  note b9 = builds_seq [OF b8 builds_ID [OF builds_inv [OF b8] 9]]
  note b10 = builds_seq [OF b9 builds_ID [OF builds_inv [OF b9] 10]]
  note b11 = builds_seq [OF b10 builds_ID [OF builds_inv [OF b10] 11]]
  have "j = i11" and e: "e_Stream e = v1" "e_Batch e = v2" "e_Record e = v3" "e_Parent e = v4" "e_Call e = v5"
    "e_Run e = v6" "e_Continues e = v7" "e_Tool e = v8" "e_Child e = v9" "e_StartedBy e = v10" "e_Label e = v11"
    using assms(2) unfolding entryOf_def 1 prod.case 2 3 4 5 6 7 8 9 10 11 by auto
  then show ?thesis
    using builds_weaken [OF b11] by (simp add: entry_strings_def record_strings_def)
qed

lemma part_kinds: "PartText \<noteq> PartData" "PartReasoning \<noteq> PartData"
  by (simp_all add: PartText_def PartReasoning_def PartData_def)

lemma blockOf_builds:
  assumes inv: "interner_inv i" and res: "blockOf i n p = (j, b)"
  shows "builds 4 i j (\<lambda>k. block_strings k b = part_strings p)"
proof -
  consider (call) "pt_Kind p = PartCall" | (result) "pt_Kind p = PartResult" "pt_Kind p \<noteq> PartCall"
    | (changes) r where "pt_Kind p = PartData" "pt_Kind p \<noteq> PartCall" "pt_Kind p \<noteq> PartResult"
        "Decode (pt_Data p) = Some r"
    | (other) "part_strings p = [[], [], [], []]" "j = i" "k_ToolID b = 0" "k_Name b = 0" "k_Server b = 0"
        "k_ServerTool b = 0"
    using res part_kinds
    by (auto simp: blockOf_def part_strings_def zero_block_def Let_def split: if_splits option.splits)
  then show ?thesis
  proof cases
    case call
    obtain i1 v1 where 1: "ID i (pt_ID p) = (i1, v1)" by fastforce
    obtain i2 v2 where 2: "ID i1 (pt_Name p) = (i2, v2)" by fastforce
    obtain i3 v3 where 3: "ID i2 (pt_Server p) = (i3, v3)" by fastforce
    obtain i4 v4 where 4: "ID i3 (pt_ServerTool p) = (i4, v4)" by fastforce
    note b1 = builds_ID [OF inv 1]
    note b2 = builds_seq [OF b1 builds_ID [OF builds_inv [OF b1] 2]]
    note b3 = builds_seq [OF b2 builds_ID [OF builds_inv [OF b2] 3]]
    note b4 = builds_seq [OF b3 builds_ID [OF builds_inv [OF b3] 4]]
    have "j = i4" "k_ToolID b = v1" "k_Name b = v2" "k_Server b = v3" "k_ServerTool b = v4"
      using res call by (auto simp: blockOf_def Let_def 1 2 3 4)
    then show ?thesis
      using builds_weaken [OF b4] call by (simp add: block_strings_def part_strings_def)
  next
    case result
    obtain i1 v1 where 1: "ID i (pt_Of p) = (i1, v1)" by fastforce
    have "j = i1" "k_ToolID b = v1" "k_Name b = 0" "k_Server b = 0" "k_ServerTool b = 0"
      using res result by (auto simp: blockOf_def Let_def 1 zero_block_def)
    then show ?thesis
      using builds_weaken [OF builds_ID [OF inv 1], of 4] result by (simp add: block_strings_def part_strings_def)
  next
    case changes
    obtain i1 v1 where 1: "ID i (chr_CapturedBy r @ ''|'' @ chr_ID r) = (i1, v1)" by fastforce
    have "j = i1" "k_Name b = v1" "k_ToolID b = 0" "k_Server b = 0" "k_ServerTool b = 0"
      using res changes 1 part_kinds [symmetric] by (auto simp: blockOf_def Let_def zero_block_def split: prod.splits)
    then show ?thesis
      using builds_weaken [OF builds_ID [OF inv 1], of 4] changes by (simp add: block_strings_def part_strings_def)
  next
    case other
    then show ?thesis
      using builds_weaken [OF builds_skip [OF inv], of 4] by (simp add: block_strings_def)
  qed
qed

lemma blocks_from_builds:
  "interner_inv i \<Longrightarrow> blocks_from i n ps = (j, bs) \<Longrightarrow>
     builds (4 * length ps) i j (\<lambda>k. map (block_strings k) bs = map part_strings ps)"
proof (induction ps arbitrary: i n bs)
  case Nil
  then show ?case using builds_weaken [OF builds_skip] by auto
next
  case (Cons p ps)
  obtain i1 b where 1: "blockOf i n p = (i1, b)" by fastforce
  obtain bs' where 2: "blocks_from i1 (Suc n) ps = (j, bs')" "bs = b # bs'"
    using Cons.prems(2) 1 by (auto split: prod.splits)
  note b1 = blockOf_builds [OF Cons.prems(1) 1]
  note b2 = builds_seq [OF b1 Cons.IH [OF builds_inv [OF b1] 2(1)]]
  show ?case using builds_weaken [OF b2] 2(2) by simp
qed

section \<open>The body row\<close>

lemma grows_1: "interner_inv i \<Longrightarrow> grows 1 i i"
  using grows_mono [OF grows_refl] by simp

lemma unavailable_grows: "interner_inv (fst s) \<Longrightarrow> grows 1 (fst s) (fst (unavailable why n s))"
  by (auto simp: unavailable_def intro: ID_grows [simplified] split: prod.splits)

lemmas grows_once = ID_grows [simplified] grows_1 [simplified] unavailable_grows [simplified]
  unavailable_grows [of "(i, b)" for i b, simplified]

lemma system_of_grows: "interner_inv (fst s) \<Longrightarrow> grows 1 (fst s) (fst (system_of m s))"
  by (auto simp: system_of_def intro: grows_once split: prod.splits)

lemma thread_of_grows: "interner_inv (fst s) \<Longrightarrow> grows 1 (fst s) (fst (fst (thread_of m s)))"
  by (auto simp: thread_of_def intro: grows_once split: prod.splits option.splits)

lemma reply_of_grows: "interner_inv (fst s) \<Longrightarrow> grows 1 (fst s) (fst (reply_of m s))"
  by (auto simp: reply_of_def intro: grows_once split: prod.splits option.splits)

definition list_start :: "messages \<Rightarrow> interner \<times> body \<Rightarrow> (interner \<times> body) \<times> msg_entry list" where
  "list_start l s =
    (if ml_Unavailable l \<noteq> [] then (unavailable (ml_Unavailable l) (ml_Count l) s, ml_Entries l)
     else if Relative l then
       (case s of (i, b) \<Rightarrow> case ID i (ml_Base l) of (i', v) \<Rightarrow>
          ((i', b\<lparr>y_List := ListRelative, y_ListBase := v, y_ListKeep := word_of_int (ml_Keep l)\<rparr>), ml_Add l))
     else (case s of (i, b) \<Rightarrow> ((i, b\<lparr>y_List := ListWhole\<rparr>), ml_Entries l)))"

definition list_fill :: "msg_entry list \<Rightarrow> interner \<times> body \<Rightarrow> interner \<times> body" where
  "list_fill es s =
    (if y_List (snd s) = ListUnavailable then s
     else case encode_list es of
            None \<Rightarrow> unavailable UnrecognisedShape 0 s
          | Some bs \<Rightarrow> (fst s, (snd s)\<lparr>y_messages := bs\<rparr>))"

lemma list_of_steps:
  "list_of m u s = (case mf_Messages m of None \<Rightarrow> s | Some l \<Rightarrow>
     (let s2 = list_fill (snd (list_start l s)) (fst (list_start l s))
      in if u then unavailable UnrecognisedShape 0 s2 else s2))"
  by (simp add: list_of_def list_start_def list_fill_def Let_def split: option.split prod.split)

lemma list_start_grows: "interner_inv (fst s) \<Longrightarrow> grows 1 (fst s) (fst (fst (list_start l s)))"
  by (auto simp: list_start_def intro: grows_once split: prod.splits)

lemma list_fill_grows: "interner_inv (fst s) \<Longrightarrow> grows 1 (fst s) (fst (list_fill es s))"
  by (auto simp: list_fill_def intro: grows_once split: option.splits)

lemma grows_step: "grows a i j \<Longrightarrow> (interner_inv j \<Longrightarrow> grows b j k) \<Longrightarrow> grows (a + b) i k"
  using grows_trans grows_inv by blast

lemma list_of_grows: "interner_inv (fst s) \<Longrightarrow> grows 3 (fst s) (fst (list_of m u s))"
proof (cases "mf_Messages m")
  case None
  assume "interner_inv (fst s)"
  with None show ?thesis using grows_mono [OF grows_refl] by (simp add: list_of_steps)
next
  case (Some l)
  assume inv: "interner_inv (fst s)"
  let ?s2 = "list_fill (snd (list_start l s)) (fst (list_start l s))"
  have two: "grows (1 + 1) (fst s) (fst ?s2)"
    by (rule grows_step [OF list_start_grows [OF inv] list_fill_grows])
  have "grows (1 + 1 + 1) (fst s) (fst (unavailable UnrecognisedShape 0 ?s2))"
    by (rule grows_step [OF two unavailable_grows])
  with two show ?thesis
    using Some grows_mono [of "Suc (Suc 0)" "fst s" "fst ?s2" "Suc (Suc (Suc 0))"] by (simp add: list_of_steps Let_def numeral_3_eq_3)
qed

lemma historyOf_grows:
  assumes "interner_inv (fst s)"
  shows "grows 7 (fst s) (fst (historyOf m s))"
proof (cases "mf_HistoryForm m = []")
  case True
  then show ?thesis using assms grows_mono [OF grows_refl] by (simp add: historyOf_def)
next
  case False
  obtain i b where s: "s = (i, b)" by (cases s)
  obtain j v where 1: "ID i (mf_HistoryForm m) = (j, v)" by fastforce
  let ?s1 = "system_of m (j, b\<lparr>y_Form := v\<rparr>)"
  obtain s2 u where 2: "thread_of m ?s1 = (s2, u)" by fastforce
  let ?s3 = "list_of m u s2"
  have inv: "interner_inv i" using assms s by simp
  have "grows 1 i (fst (j, b\<lparr>y_Form := v\<rparr>))" using ID_grows [OF inv 1] by simp
  from grows_step [OF this system_of_grows] have "grows (1 + 1) i (fst ?s1)" .
  from grows_step [OF this thread_of_grows [of ?s1 m]] have "grows (1 + 1 + 1) i (fst s2)" by (simp add: 2)
  from grows_step [OF this list_of_grows] have "grows (1 + 1 + 1 + 3) i (fst ?s3)" .
  from grows_step [OF this reply_of_grows] have "grows (1 + 1 + 1 + 3 + 1) i (fst (reply_of m ?s3))" .
  then show ?thesis using False by (simp add: historyOf_def s 1 2)
qed

lemma bodyOf_grows:
  assumes "interner_inv i" and "bodyOf i rec = (j, y)"
  shows "grows 9 i j"
proof (cases "ManifestOf rec")
  case None
  then show ?thesis using assms grows_mono [OF grows_refl] by (simp add: bodyOf_def)
next
  case (Some m)
  obtain i1 v1 where 1: "ID i (mf_Request m) = (i1, v1)" by fastforce
  obtain i2 v2 where 2: "ID i1 (mf_PreviousRequest m) = (i2, v2)" by fastforce
  define b where "b = (let b = Index_Data.zero_body\<lparr>y_Request := v1, y_Previous := v2\<rparr> in
    if mf_Role m = PB_RoleRequest then b\<lparr>y_Role := BodyRoleRequest\<rparr>
    else if mf_Role m = PB_RoleResponse then b\<lparr>y_Role := BodyRoleResponse\<rparr> else b)"
  have j: "j = fst (historyOf m (i2, b))"
    using assms(2) unfolding bodyOf_def Some 1 2 Let_def b_def option.case prod.case by (auto split: prod.splits)
  from grows_step [OF ID_grows [OF assms(1) 1] ID_grows [OF _ 2]] have "grows (1 + 1) i (fst (i2, b))" by simp
  from grows_step [OF this historyOf_grows] have "grows (1 + 1 + 7) i (fst (historyOf m (i2, b)))" .
  then show ?thesis by (simp add: j)
qed

section \<open>One record\<close>

definition row_parts :: "sd_header \<Rightarrow> sd_record \<Rightarrow> string list list" where
  "row_parts hdr rec =
    (if sh_Kind hdr = SD_KindProviderBody then replicate (length (sr_Parts rec)) [[], [], [], []]
     else map part_strings (sr_Parts rec))"

definition strings_needed :: "sd_record \<Rightarrow> nat" where
  "strings_needed rec = 20 + 4 * length (sr_Parts rec)"

lemma kindOf_body: "kindOf hdr rec = KindProviderBody \<longleftrightarrow> sh_Kind hdr = SD_KindProviderBody"
  by (auto simp: kindOf_def Let_def kind_defs SD_KindAgentMeta_def SD_KindJournal_def SD_KindWorkflowManifest_def
      SD_KindWorkflowScript_def SD_KindChanges_def SD_KindProviderBody_def SD_KindExecution_def)

lemma other_blocks_strings: "map (block_strings k) (other_blocks n) = replicate n [[], [], [], []]"
  by (simp add: other_blocks_def block_strings_def zero_block_def map_replicate_const comp_def)

lemma entryOf_place:
  "entryOf i hdr rec seq row = (j, e) \<Longrightarrow> e_Seq e = seq \<and> e_Row e = row \<and> e_Kind e = kindOf hdr rec"
  by (auto simp: entryOf_def split: prod.splits)

lemma FromRecord_builds:
  assumes inv: "interner_inv (ix_Strings ix)" and res: "FromRecord ix hdr rec seq row = (ix', e, bs, y)"
  shows "builds (strings_needed rec) (ix_Strings ix) (ix_Strings ix')
      (\<lambda>k. entry_strings k e = record_strings hdr rec \<and> map (block_strings k) bs = row_parts hdr rec)"
    and "ix' = ix\<lparr>ix_Strings := ix_Strings ix'\<rparr>" and "e_Seq e = seq" and "e_Row e = row"
proof -
  obtain i e' where 1: "entryOf (ix_Strings ix) hdr rec seq row = (i, e')" by fastforce
  note b1 = entryOf_builds [OF inv 1]
  note place = entryOf_place [OF 1]
  have e: "e' = e" using res 1 by (auto simp: FromRecord_def split: prod.splits if_splits)
  show "ix' = ix\<lparr>ix_Strings := ix_Strings ix'\<rparr>" "e_Seq e = seq" "e_Row e = row"
    using res 1 place by (auto simp: FromRecord_def split: prod.splits if_splits)
  show "builds (strings_needed rec) (ix_Strings ix) (ix_Strings ix')
      (\<lambda>k. entry_strings k e = record_strings hdr rec \<and> map (block_strings k) bs = row_parts hdr rec)"
  proof (cases "sh_Kind hdr = SD_KindProviderBody")
    case True
    obtain j z where 2: "bodyOf i rec = (j, z)" by fastforce
    have j: "ix_Strings ix' = j" and bs: "bs = other_blocks (length (sr_Parts rec))"
      using res 1 2 True place by (auto simp: FromRecord_def kindOf_body e)
    have "builds 9 i j (\<lambda>k. True)" by (rule buildsI [OF bodyOf_grows [OF builds_inv [OF b1] 2]]) simp
    from builds_weaken [OF builds_seq [OF b1 this], of "strings_needed rec"] show ?thesis
      using True by (simp add: j bs e other_blocks_strings row_parts_def strings_needed_def)
  next
    case False
    obtain j bs' where 2: "blocksOf i rec = (j, bs')" by fastforce
    have j: "ix_Strings ix' = j" and bs: "bs = bs'"
      using res 1 2 False place by (auto simp: FromRecord_def kindOf_body e)
    from builds_weaken [OF builds_seq [OF b1 blocks_from_builds [OF builds_inv [OF b1] 2 [unfolded blocksOf_def]]],
        of "strings_needed rec"]
    show ?thesis using False by (simp add: j bs e row_parts_def strings_needed_def)
  qed
qed

section \<open>Rows and files\<close>

definition entry_row :: "interner \<Rightarrow> entry \<Rightarrow> u32 \<times> u32 \<times> string list" where
  "entry_row i e = (e_Seq e, e_Row e, entry_strings i e)"

text \<open>What the tables of an index say in its finished interner \<open>k\<close>.\<close>

definition says :: "index \<Rightarrow> (u32 \<times> u32 \<times> string list) list \<Rightarrow> string list list \<Rightarrow> interner \<Rightarrow> bool" where
  "says ix rows parts k \<longleftrightarrow>
     map (entry_row k) (ix_Entries ix) = rows \<and> map (block_strings k) (ix_Blocks ix) = parts"

definition holds :: "nat \<Rightarrow> interner \<Rightarrow> index \<Rightarrow> (u32 \<times> u32 \<times> string list) list \<Rightarrow> string list list \<Rightarrow> bool" where
  "holds n i ix rows parts \<longleftrightarrow> builds n i (ix_Strings ix) (says ix rows parts)"

lemma strings_update [simp]:
  "block_strings k (b\<lparr>k_Entry := x\<rparr>) = block_strings k b"
  "entry_strings k (e\<lparr>e_BlockFirst := u, e_BlockCount := v\<rparr>) = entry_strings k e"
  by (simp_all add: block_strings_def entry_strings_def)

lemma index_record_says:
  assumes "FromRecord ix hdr rec seq row = (ix', e, bs, y)" and "ix' = ix\<lparr>ix_Strings := ix_Strings ix'\<rparr>"
    and "e_Seq e = seq" "e_Row e = row"
  shows "ix_Strings (index_record hdr seq row rec ix) = ix_Strings ix'"
    and "says ix rows parts k \<Longrightarrow> entry_strings k e = record_strings hdr rec \<Longrightarrow>
      map (block_strings k) bs = row_parts hdr rec \<Longrightarrow>
      says (index_record hdr seq row rec ix) (rows @ [(seq, row, record_strings hdr rec)])
        (parts @ row_parts hdr rec) k"
proof -
  obtain st where st: "ix' = ix\<lparr>ix_Strings := st\<rparr>" using assms(2) by blast
  show "ix_Strings (index_record hdr seq row rec ix) = ix_Strings ix'"
    by (simp add: index_record_def assms(1) AppendRecord_eq add_body_def Let_def split: option.split)
  show "says ix rows parts k \<Longrightarrow> entry_strings k e = record_strings hdr rec \<Longrightarrow>
      map (block_strings k) bs = row_parts hdr rec \<Longrightarrow>
      says (index_record hdr seq row rec ix) (rows @ [(seq, row, record_strings hdr rec)])
        (parts @ row_parts hdr rec) k"
    using assms(3,4)
    by (simp add: index_record_def assms(1) AppendRecord_eq add_body_def Let_def says_def entry_row_def st
        comp_def split: option.split)
qed

lemma index_record_holds:
  assumes "holds n i ix rows parts"
  shows "holds (n + strings_needed rec) i (index_record hdr seq row rec ix)
      (rows @ [(seq, row, record_strings hdr rec)]) (parts @ row_parts hdr rec)"
proof -
  obtain ix' e bs y where res: "FromRecord ix hdr rec seq row = (ix', e, bs, y)" by (metis prod_cases4)
  note from_rec = FromRecord_builds [OF builds_inv [OF assms [unfolded holds_def]] res]
  note says = index_record_says [OF res from_rec(2-4)]
  show ?thesis
    unfolding holds_def says(1)
    by (rule builds_weaken [OF builds_seq [OF assms [unfolded holds_def] from_rec(1)]]) (auto intro: says(2))
qed

fun file_rows :: "sd_header \<Rightarrow> u32 \<Rightarrow> u32 \<Rightarrow> sd_record list \<Rightarrow> (u32 \<times> u32 \<times> string list) list" where
  "file_rows hdr seq row [] = []"
| "file_rows hdr seq row (r # rs) = (seq, row, record_strings hdr r) # file_rows hdr seq (row + 1) rs"

lemma index_rows_holds:
  "holds n i ix rows parts \<Longrightarrow>
     holds (n + sum_list (map strings_needed rs)) i (index_rows hdr seq row rs ix)
       (rows @ file_rows hdr seq row rs) (parts @ concat (map (row_parts hdr) rs))"
proof (induction rs arbitrary: n ix rows parts row)
  case (Cons r rs)
  from Cons.IH [OF index_record_holds [OF Cons.prems]] show ?case by (simp add: add.assoc)
qed simp

text \<open>What a landed file says of the conversation, and how many strings that may take.\<close>

definition landed_rows :: "landed \<Rightarrow> (u32 \<times> u32 \<times> string list) list" where
  "landed_rows lf =
    (case ld_Header lf of None \<Rightarrow> []
     | Some h \<Rightarrow> file_rows (placed_header lf h) (ucast (ld_Seq lf)) 1 (ld_Records lf))"

definition landed_parts :: "landed \<Rightarrow> string list list" where
  "landed_parts lf =
    (case ld_Header lf of None \<Rightarrow> []
     | Some h \<Rightarrow> concat (map (row_parts (placed_header lf h)) (ld_Records lf)))"

definition landed_strings :: "landed \<Rightarrow> nat" where
  "landed_strings lf = sum_list (map strings_needed (ld_Records lf))"

lemma indexLandedFile_holds:
  assumes "holds n i ix rows parts" and "indexLandedFile ix lf = (ix', c, ok)"
  shows "holds (n + landed_strings lf) i ix' (rows @ landed_rows lf) (parts @ landed_parts lf)"
proof (cases "ld_Header lf")
  case None
  then have "holds n i ix' (rows @ landed_rows lf) (parts @ landed_parts lf)"
    using assms by (simp add: indexLandedFile_def landed_rows_def landed_parts_def)
  then show ?thesis unfolding holds_def by (rule builds_weaken) simp_all
next
  case (Some h)
  with index_rows_holds [OF assms(1), of "ld_Records lf"] assms(2) show ?thesis
    by (auto simp: indexLandedFile_def landed_rows_def landed_parts_def landed_strings_def)
qed

definition above :: "u64 \<Rightarrow> landed list \<Rightarrow> landed list" where
  "above after files = filter (\<lambda>lf. after < ld_Seq lf) files"

lemma above_simps [simp]:
  "above after [] = []"
  "above after (lf # files) = (if ld_Seq lf \<le> after then above after files else lf # above after files)"
  by (simp_all add: above_def not_less leD)

lemma rebuild_from_holds:
  "holds n i ix rows parts \<Longrightarrow> rebuild_from ix after c files = (ix', c', True) \<Longrightarrow>
     holds (n + sum_list (map landed_strings (above after files))) i ix'
       (rows @ concat (map landed_rows (above after files)))
       (parts @ concat (map landed_parts (above after files)))"
proof (induction files arbitrary: n ix rows parts c)
  case (Cons lf lfs)
  show ?case
  proof (cases "ld_Seq lf \<le> after")
    case True
    with Cons show ?thesis by simp
  next
    case False
    obtain ix1 m where 1: "indexLandedFile ix lf = (ix1, m, True)"
      and 2: "rebuild_from ix1 after (c + m) lfs = (ix', c', True)"
      using Cons.prems(2) False by (auto split: prod.splits if_splits)
    from Cons.IH [OF indexLandedFile_holds [OF Cons.prems(1) 1] 2] False show ?thesis
      by (simp add: add.assoc)
  qed
qed simp

lemma New_holds: "holds 0 NewInterner (New session) [] []"
  using builds_weaken [OF builds_skip [OF NewInterner_inv]]
  by (simp add: holds_def says_def New_def)

lemma Rebuild_says:
  assumes "Rebuild files (New session) after = (ix, n, True)"
    and "sum_list (map landed_strings (above after files)) < 2 ^ 32"
  shows "says ix (concat (map landed_rows (above after files))) (concat (map landed_parts (above after files)))
    (ix_Strings ix)"
proof -
  have "holds (sum_list (map landed_strings (above after files))) NewInterner ix
      (concat (map landed_rows (above after files))) (concat (map landed_parts (above after files)))"
    using rebuild_from_holds [OF New_holds assms(1) [unfolded Rebuild_def]] by simp
  then have b: "builds (sum_list (map landed_strings (above after files))) NewInterner
      (ix_Strings ix) (says ix (concat (map landed_rows (above after files)))
        (concat (map landed_parts (above after files))))"
    by (simp add: holds_def)
  have "interner_room NewInterner (sum_list (map landed_strings (above after files)))"
    using assms(2) by (simp add: interner_room_def NewInterner_def)
  from builds_later [OF b this grows_refl [OF builds_inv [OF b]]] show ?thesis .
qed

text \<open>C35. An index rebuilt from the landed files holds every record of every file above the watermark, in
  landed order, by the file's sequence and the record's row, and each of its ids, read in the finished
  interner, is the record's own string; so is each id of each block its part's.\<close>

theorem Rebuild_rows:
  assumes "Rebuild files (New session) after = (ix, n, True)"
    and "sum_list (map landed_strings (above after files)) < 2 ^ 32"
  shows "map (entry_row (ix_Strings ix)) (ix_Entries ix) =
      concat (map landed_rows (above after files))
    \<and> map (block_strings (ix_Strings ix)) (ix_Blocks ix) =
      concat (map landed_parts (above after files))"
  using Rebuild_says [OF assms] by (simp add: says_def)

section \<open>The watermark\<close>

lemma rebuild_from_count:
  "rebuild_from ix after (c + d) files =
     (case rebuild_from ix after c files of (ix', c', ok) \<Rightarrow> (ix', c' + d, ok))"
proof (induction files arbitrary: ix c)
  case (Cons lf lfs)
  obtain ix1 m ok where 1: "indexLandedFile ix lf = (ix1, m, ok)" by (metis prod_cases3)
  have "rebuild_from ix1 after (c + d + m) lfs =
      (case rebuild_from ix1 after (c + m) lfs of (ix', c', ok) \<Rightarrow> (ix', c' + d, ok))"
    using Cons [of ix1 "c + m"] by (simp add: add.commute add.left_commute)
  with Cons 1 show ?case by (simp split: prod.split)
qed simp

lemma rebuild_from_above: "rebuild_from ix after c (above after files) = rebuild_from ix after c files"
  by (induction files arbitrary: ix c) (auto split: prod.splits)

lemma rebuild_from_append:
  "rebuild_from ix after c (xs @ ys) =
     (case rebuild_from ix after c xs of
        (ix1, c1, ok) \<Rightarrow> if ok then rebuild_from ix1 after c1 ys else (ix1, c1, False))"
  by (induction xs arbitrary: ix c) (auto split: prod.splits)

lemma rebuild_from_lower:
  "\<forall>lf \<in> set files. lo < ld_Seq lf \<longleftrightarrow> hi < ld_Seq lf \<Longrightarrow>
     rebuild_from ix lo c files = rebuild_from ix hi c files"
  by (induction files arbitrary: ix c) (auto simp: not_less [symmetric] split: prod.splits)

lemma sorted_split:
  fixes f :: "'a \<Rightarrow> 'b::linorder"
  shows "sorted (map f xs) \<Longrightarrow> xs = filter (\<lambda>x. f x \<le> k) xs @ filter (\<lambda>x. k < f x) xs"
proof (induction xs)
  case (Cons x xs)
  then show ?case
  proof (cases "f x \<le> k")
    case False
    with Cons.prems have none: "filter (\<lambda>y. f y \<le> k) xs = []"
      by (auto simp: filter_empty_conv)
    have "filter (\<lambda>y. k < f y) xs = xs" using Cons.prems False by (auto simp: filter_id_conv)
    with none False show ?thesis by simp
  qed simp
qed simp

text \<open>C36. A rebuild from a watermark completes an index: building the files up to it and then rebuilding
  everything above it gives the index, and the number of records, that one rebuild of everything gives.\<close>

theorem Rebuild_resumes:
  assumes "sorted (map ld_Seq files)" and "lo \<le> hi"
    and "Rebuild (filter (\<lambda>lf. ld_Seq lf \<le> hi) files) ix lo = (ix1, n1, True)"
    and "Rebuild files ix1 hi = (ix2, n2, ok)"
  shows "Rebuild files ix lo = (ix2, n1 + n2, ok)"
proof -
  let ?a = "filter (\<lambda>lf. ld_Seq lf \<le> hi) files" and ?b = "above hi files"
  have files: "files = ?a @ ?b" unfolding above_def by (rule sorted_split [OF assms(1)])
  have "rebuild_from ix1 hi 0 ?b = (ix2, n2, ok)"
    using assms(4) rebuild_from_above [of ix1 hi 0 files] by (simp add: Rebuild_def)
  then have "rebuild_from ix1 hi (0 + n1) ?b = (ix2, n2 + n1, ok)"
    using rebuild_from_count [of ix1 hi 0 n1 ?b] by simp
  moreover have "rebuild_from ix1 lo n1 ?b = rebuild_from ix1 hi n1 ?b"
    by (rule rebuild_from_lower) (use assms(2) in \<open>auto simp: above_def\<close>)
  ultimately have "rebuild_from ix lo 0 (?a @ ?b) = (ix2, n1 + n2, ok)"
    using assms(3) by (simp add: rebuild_from_append Rebuild_def add.commute)
  then show ?thesis using files by (simp add: Rebuild_def)
qed

section \<open>The tables\<close>

lemma FromRecord_wired:
  "index_wired ix \<Longrightarrow> index_wired (ix\<lparr>ix_Strings := st\<rparr>)"
  by (simp add: index_wired_def blocks_in_range_def)

lemma index_record_wired:
  assumes "index_wired ix" and "index_small (index_record hdr seq row rec ix)"
  shows "index_wired (index_record hdr seq row rec ix)"
proof -
  obtain ix' e bs y where res: "FromRecord ix hdr rec seq row = (ix', e, bs, y)" by (metis prod_cases4)
  then obtain st where "ix' = ix\<lparr>ix_Strings := st\<rparr>"
    by (auto simp: FromRecord_def split: prod.splits if_splits)
  with assms res show ?thesis by (simp add: index_record_def AppendRecord_wired FromRecord_wired)
qed

definition at_least :: "index \<Rightarrow> index \<Rightarrow> bool" where
  "at_least jx ix \<longleftrightarrow> length (ix_Entries ix) \<le> length (ix_Entries jx) \<and> length (ix_Blocks ix) \<le> length (ix_Blocks jx)
     \<and> length (ix_Bodies ix) \<le> length (ix_Bodies jx) \<and> length (ix_Messages ix) \<le> length (ix_Messages jx)"

lemma at_least_small: "at_least jx ix \<Longrightarrow> index_small jx \<Longrightarrow> index_small ix"
  by (auto simp: at_least_def index_small_def)

lemma at_least_trans: "at_least kx jx \<Longrightarrow> at_least jx ix \<Longrightarrow> at_least kx ix"
  by (auto simp: at_least_def)

lemma index_record_at_least: "at_least (index_record hdr seq row rec ix) ix"
  by (auto simp: index_record_def FromRecord_def AppendRecord_eq add_body_def Let_def at_least_def
      split: prod.split option.split)

lemma index_rows_at_least: "at_least (index_rows hdr seq row rs ix) ix"
proof (induction rs arbitrary: ix row)
  case (Cons r rs)
  then show ?case using at_least_trans index_record_at_least by fastforce
qed (simp add: at_least_def)

lemma index_rows_wired:
  "index_wired ix \<Longrightarrow> index_small (index_rows hdr seq row rs ix) \<Longrightarrow> index_wired (index_rows hdr seq row rs ix)"
proof (induction rs arbitrary: ix row)
  case (Cons r rs)
  then show ?case
    using index_record_wired at_least_small [OF index_rows_at_least] by simp
qed simp

lemma rebuild_from_at_least: "rebuild_from ix after c files = (ix', c', ok) \<Longrightarrow> at_least ix' ix"
proof (induction files arbitrary: ix c)
  case (Cons lf lfs)
  have "at_least (fst (indexLandedFile ix lf)) ix"
    using index_rows_at_least by (simp add: indexLandedFile_def at_least_def split: option.split)
  with Cons show ?case by (auto split: prod.splits if_splits dest: at_least_trans)
qed (simp add: at_least_def)

lemma rebuild_from_wired:
  "index_wired ix \<Longrightarrow> rebuild_from ix after c files = (ix', c', ok) \<Longrightarrow> index_small ix' \<Longrightarrow> index_wired ix'"
proof (induction files arbitrary: ix c)
  case (Cons lf lfs)
  have step: "index_small (fst (indexLandedFile ix lf)) \<Longrightarrow> index_wired (fst (indexLandedFile ix lf))"
    using index_rows_wired Cons.prems(1) by (cases "ld_Header lf") (simp_all add: indexLandedFile_def)
  show ?case
  proof (cases "ld_Seq lf \<le> after")
    case True
    with Cons show ?thesis by simp
  next
    case False
    obtain ix1 m ok1 where 1: "indexLandedFile ix lf = (ix1, m, ok1)" by (metis prod_cases3)
    show ?thesis
    proof (cases ok1)
      case True
      with Cons.prems False 1 have rest: "rebuild_from ix1 after (c + m) lfs = (ix', c', ok)" by simp
      with step 1 Cons.prems(3) rebuild_from_at_least at_least_small have "index_wired ix1" by fastforce
      with Cons.IH [OF _ rest] Cons.prems(3) show ?thesis by simp
    next
      case False
      with Cons.prems step 1 \<open>\<not> ld_Seq lf \<le> after\<close> show ?thesis by simp
    qed
  qed
qed simp

lemma index_record_bodies:
  assumes "sh_Kind hdr \<noteq> SD_KindProviderBody"
  shows "ix_Bodies (index_record hdr seq row rec ix) = ix_Bodies ix"
    and "ix_Messages (index_record hdr seq row rec ix) = ix_Messages ix"
proof -
  obtain i e where 1: "entryOf (ix_Strings ix) hdr rec seq row = (i, e)" by fastforce
  have "e_Kind e \<noteq> KindProviderBody" using entryOf_place [OF 1] assms kindOf_body by simp
  with 1 show "ix_Bodies (index_record hdr seq row rec ix) = ix_Bodies ix"
    "ix_Messages (index_record hdr seq row rec ix) = ix_Messages ix"
    by (simp_all add: index_record_def FromRecord_def AppendRecord_eq split: prod.split)
qed

text \<open>However a rebuild ends, at the last file or at one that does not read, the tables of the index
  it leaves are wired and its lookup maps build: no lookup after it panics.\<close>

theorem Rebuild_builds:
  assumes "Rebuild files (New session) after = (ix, n, ok)" and "index_small ix"
  shows "index_wired ix \<and> Build ix \<noteq> None"
proof -
  have wired: "index_wired ix"
    using rebuild_from_wired [OF New_wired assms(1) [unfolded Rebuild_def] assms(2)] .
  then obtain m where "Build_maps ix = Some m"
    using Build_maps_Some unfolding index_wired_def by blast
  with wired show ?thesis by (auto simp: Build_def index_wired_def)
qed

section \<open>Witnesses\<close>

definition sample_header :: sd_header where
  "sample_header = \<lparr>sh_H = 1, sh_Schema = sd_Schema, sh_Seq = 1, sh_At = [], sh_Kind = SD_KindTranscript,
     sh_Adapter = [], sh_Dialect = ''claude'', sh_Src = ''a.jsonl'', sh_Session = ''s'', sh_Stream = [],
     sh_Batch = [], sh_Removed = None\<rparr>"

definition sample_part :: part where
  "sample_part = \<lparr>pt_Kind = PartCall, pt_Text = [], pt_Data = [], pt_ID = ''t1'', pt_Of = [], pt_Name = ''Bash'',
     pt_Server = [], pt_ServerTool = [], pt_Failed = None, pt_Media = [], pt_Encoding = [], pt_State = [],
     pt_Bytes = 0, pt_SHA256 = []\<rparr>"

definition sample_rec :: sd_record where
  "sample_rec = \<lparr>sr_Ord = 1, sr_Off = 0, sr_Sha = [], sr_Bytes = 0, sr_ID = ''r1'', sr_Parent = [],
     sr_Call = ''m1'', sr_Run = [], sr_Continues = [], sr_Tool = [], sr_Child = [], sr_Batch = [], sr_Label = [],
     sr_StartedBy = [], sr_From = FromAgent, sr_Time = [], sr_Trigger = [], sr_Flags = [''finished''],
     sr_Usage = None, sr_Model = [], sr_Parts = [sample_part], sr_Dropped = []\<rparr>"

definition sample_landed :: "u64 \<Rightarrow> landed" where
  "sample_landed n = \<lparr>ld_Seq = n, ld_Stream = ''main'', ld_RunID = [], ld_Header = Some sample_header,
     ld_Records = [sample_rec], ld_Ends = True\<rparr>"

lemma sample_ends: "Rebuild (map sample_landed ns) ix after =
    (fst (Rebuild (map sample_landed ns) ix after), length (filter ((<) after) ns), True)"
proof -
  have "snd (rebuild_from jx after c (map sample_landed ns)) = (c + length (filter ((<) after) ns), True)" for jx c
    by (induction ns arbitrary: jx c) (auto simp: sample_landed_def indexLandedFile_def not_less)
  from this [of ix 0] show ?thesis by (simp add: Rebuild_def prod_eq_iff)
qed

lemma sample_rows:
  "landed_rows (sample_landed n) =
     [(ucast n, 1, [''main'', [], ''r1'', [], ''m1'', [], [], [], [], [], []])]"
  "landed_parts (sample_landed n) = [[''t1'', ''Bash'', [], []]]"
  "landed_strings (sample_landed n) = 24"
  by (simp_all add: landed_rows_def landed_parts_def landed_strings_def sample_landed_def sample_rec_def
      sample_header_def sample_part_def record_strings_def placed_header_def batchOf_def strings_needed_def
      row_parts_def part_strings_def SD_KindTranscript_def SD_KindProviderBody_def)

theorem Rebuild_rows_witness:
  "map (entry_row (ix_Strings (fst (Rebuild (map sample_landed [1, 2]) (New ''s'') 0))))
      (ix_Entries (fst (Rebuild (map sample_landed [1, 2]) (New ''s'') 0))) =
    [(1, 1, [''main'', [], ''r1'', [], ''m1'', [], [], [], [], [], []]),
     (2, 1, [''main'', [], ''r1'', [], ''m1'', [], [], [], [], [], []])]"
  using Rebuild_rows [OF sample_ends [of "[1, 2]" "New ''s''" 0]]
  by (simp add: sample_rows) (simp add: sample_landed_def above_def sample_rows [unfolded sample_landed_def])

theorem Rebuild_resumes_witness:
  "fst (Rebuild (map sample_landed [1, 2]) (fst (Rebuild (map sample_landed [1]) (New ''s'') 0)) 1)
     = fst (Rebuild (map sample_landed [1, 2]) (New ''s'') 0)"
proof -
  have "filter (\<lambda>lf. ld_Seq lf \<le> 1) (map sample_landed [1, 2]) = map sample_landed [1]"
    and "sorted (map ld_Seq (map sample_landed [1, 2]))"
    by (simp_all add: sample_landed_def word_le_nat_alt)
  with Rebuild_resumes [of "map sample_landed [1, 2]" 0 1 "New ''s''", OF _ _ _ sample_ends] sample_ends
  show ?thesis by (metis fst_conv word_coorder.extremum)
qed

theorem Rebuild_builds_witness:
  "index_wired (fst (Rebuild (map sample_landed [1]) (New ''s'') 0)) \<and>
   Build (fst (Rebuild (map sample_landed [1]) (New ''s'') 0)) \<noteq> None"
proof (rule Rebuild_builds [OF sample_ends])
  let ?ix = "fst (Rebuild (map sample_landed [1]) (New ''s'') 0)"
  have rows: "map (entry_row (ix_Strings ?ix)) (ix_Entries ?ix) = concat (map landed_rows (above 0 (map sample_landed [1])))"
    and parts: "map (block_strings (ix_Strings ?ix)) (ix_Blocks ?ix) = concat (map landed_parts (above 0 (map sample_landed [1])))"
    using Rebuild_says [OF sample_ends [of "[1]" "New ''s''" 0]] by (simp_all add: sample_rows above_def says_def)
  have "length (ix_Entries ?ix) \<le> 1" using arg_cong [OF rows, of length] by (simp add: sample_rows above_def)
  moreover have "length (ix_Blocks ?ix) \<le> 1" using arg_cong [OF parts, of length] by (simp add: sample_rows above_def)
  moreover have "ix_Bodies ?ix = []" "ix_Messages ?ix = []"
    by (simp_all add: Rebuild_def sample_landed_def indexLandedFile_def New_def placed_header_def Let_def
        sample_header_def SD_KindTranscript_def SD_KindProviderBody_def index_record_bodies)
  ultimately show "index_small ?ix" by (simp add: index_small_def)
qed

end
