(* ===== verification/Body_Scan.thy ===== *)
theory Body_Scan
  imports Go_Json
begin

text \<open>
  The scanner that finds the pieces of a body, \<^verbatim>\<open>pkg/providerbody/scan.go\<close>: positions in the bytes, the
  spans found so far, and the span of the first message. The functions call each other for the values
  inside a value; \<open>fuel\<close> bounds the calls, and a body never takes more than three for each of its bytes.
  The lemmas show that fuel is enough and that the spans lie in the body, in order, and never overlap.
\<close>

section \<open>The scanner\<close>

type_synonym span = "nat \<times> nat"

record scanner =
  sn_spans :: "span list"
  sn_first :: span

datatype 'a scan = Endless | Shape | Found 'a

definition MinPiece :: nat where "MinPiece = 1024"

definition at_char :: "string \<Rightarrow> nat \<Rightarrow> char \<Rightarrow> bool" where
  "at_char b i c \<longleftrightarrow> i < length b \<and> b ! i = c"

function ws :: "string \<Rightarrow> nat \<Rightarrow> nat" where
  "ws b i = (if i < length b \<and> is_space (b ! i) then ws b (Suc i) else i)"
  by pat_completeness auto
termination
  by (relation "measure (\<lambda>(b, i). length b - i)") auto

declare ws.simps [simp del]

text \<open>\<open>str\<close>, from the byte behind the opening quote.\<close>

function str_end :: "string \<Rightarrow> nat \<Rightarrow> nat option" where
  "str_end b j =
    (if j < length b then
       (if b ! j = CHR 0x5C then str_end b (j + 2)
        else if b ! j = CHR 0x22 then Some (j + 1) else str_end b (j + 1))
     else None)"
  by pat_completeness auto
termination
  by (relation "measure (\<lambda>(b, i). length b - i)") auto

declare str_end.simps [simp del]

definition delimiter :: "char \<Rightarrow> bool" where
  "delimiter c \<longleftrightarrow> c = CHR '','' \<or> c = CHR ''}'' \<or> c = CHR '']'' \<or> is_space c"

function bare_end :: "string \<Rightarrow> nat \<Rightarrow> nat" where
  "bare_end b z = (if z < length b \<and> \<not> delimiter (b ! z) then bare_end b (Suc z) else z)"
  by pat_completeness auto
termination
  by (relation "measure (\<lambda>(b, i). length b - i)") auto

declare bare_end.simps [simp del]

definition sub :: "string \<Rightarrow> nat \<Rightarrow> nat \<Rightarrow> string" where
  "sub b a z = take (z - a) (drop a b)"

definition add_span :: "span \<Rightarrow> scanner \<Rightarrow> scanner" where
  "add_span p s = s\<lparr>sn_spans := sn_spans s @ [p]\<rparr>"

text \<open>The calls of the scanner, each with the arguments it takes; \<open>Members\<close> and \<open>Elems\<close> are the loops.\<close>

datatype call =
    Value nat bool bool
  | Object nat bool bool
  | Members nat bool bool
  | Elements nat bool bool
  | Elems nat bool bool

type_synonym scans = "call \<Rightarrow> scanner \<Rightarrow> (nat \<times> scanner) scan"

fun bind_scan :: "'a scan \<Rightarrow> ('a \<Rightarrow> 'b scan) \<Rightarrow> 'b scan" where
  "bind_scan (Found x) f = f x"
| "bind_scan Shape f = Shape"
| "bind_scan Endless f = Endless"

definition value_step :: "scans \<Rightarrow> string \<Rightarrow> nat \<Rightarrow> bool \<Rightarrow> bool \<Rightarrow> scanner \<Rightarrow> (nat \<times> scanner) scan" where
  "value_step rec b i outer whole s =
    (if length b \<le> i then Shape
     else if b ! i = CHR ''{'' then rec (Object i outer whole) s
     else if b ! i = CHR ''['' then rec (Elements i False whole) s
     else if b ! i = CHR 0x22 then
       (case str_end b (i + 1) of
          None \<Rightarrow> Shape
        | Some z \<Rightarrow> Found (z, if \<not> whole \<and> MinPiece \<le> z - i then add_span (i, z) s else s))
     else Found (bare_end b i, s))"

definition object_step :: "scans \<Rightarrow> string \<Rightarrow> nat \<Rightarrow> bool \<Rightarrow> bool \<Rightarrow> scanner \<Rightarrow> (nat \<times> scanner) scan" where
  "object_step rec b i outer whole s =
    (let i = ws b (i + 1) in
     if at_char b i (CHR ''}'') then Found (i + 1, s) else rec (Members i outer whole) s)"

text \<open>The value of one member, which stands at \<open>i\<close>.\<close>

definition member_value :: "scans \<Rightarrow> string \<Rightarrow> nat \<Rightarrow> bool \<Rightarrow> bool \<Rightarrow> bool \<Rightarrow> scanner \<Rightarrow> (nat \<times> scanner) scan" where
  "member_value rec b i tools messages whole s =
    (let j = ws b (i + 1) in
     if tools \<and> at_char b i (CHR ''['') then rec (Elements i True whole) s
     else if messages \<and> at_char b i (CHR ''['') then
       (if j < length b \<and> b ! j \<noteq> CHR '']'' then
          bind_scan (rec (Value j False True) s)
            (\<lambda>(z, s1). rec (Elements i False whole) (s1\<lparr>sn_first := (j, z)\<rparr>))
        else rec (Elements i False whole) s)
     else rec (Value i False whole) s)"

definition members_step :: "scans \<Rightarrow> string \<Rightarrow> nat \<Rightarrow> bool \<Rightarrow> bool \<Rightarrow> scanner \<Rightarrow> (nat \<times> scanner) scan" where
  "members_step rec b i outer whole s =
    (if \<not> at_char b i (CHR 0x22) then Shape
     else case str_end b (i + 1) of
       None \<Rightarrow> Shape
     | Some kz \<Rightarrow>
        (let tools = (outer \<and> sub b i kz = CHR 0x22 # ''tools'' @ [CHR 0x22]);
             messages = (outer \<and> sub b i kz = CHR 0x22 # ''messages'' @ [CHR 0x22]);
             i = ws b kz in
         if \<not> at_char b i (CHR '':'') then Shape
         else
           bind_scan (member_value rec b (ws b (i + 1)) tools messages whole s) (\<lambda>(i, s1).
             let i = ws b i in
             if length b \<le> i then Shape
             else if b ! i = CHR '','' then rec (Members (ws b (i + 1)) outer whole) s1
             else if b ! i = CHR ''}'' then Found (i + 1, s1)
             else Shape)))"

definition array_step :: "scans \<Rightarrow> string \<Rightarrow> nat \<Rightarrow> bool \<Rightarrow> bool \<Rightarrow> scanner \<Rightarrow> (nat \<times> scanner) scan" where
  "array_step rec b i each whole s =
    (let i = ws b (i + 1) in
     if at_char b i (CHR '']'') then Found (i + 1, s) else rec (Elems i each whole) s)"

definition elems_step :: "scans \<Rightarrow> string \<Rightarrow> nat \<Rightarrow> bool \<Rightarrow> bool \<Rightarrow> scanner \<Rightarrow> (nat \<times> scanner) scan" where
  "elems_step rec b i each whole s =
    bind_scan (rec (Value i False (whole \<or> each)) s) (\<lambda>(z, s1).
      let s2 = (if each \<and> \<not> whole then add_span (i, z) s1 else s1);
          k = ws b z in
      if length b \<le> k then Shape
      else if b ! k = CHR '','' then rec (Elems (ws b (k + 1)) each whole) s2
      else if b ! k = CHR '']'' then Found (k + 1, s2)
      else Shape)"

primrec scan_call :: "nat \<Rightarrow> string \<Rightarrow> scans" where
  "scan_call 0 b c s = Endless"
| "scan_call (Suc f) b c s =
    (case c of
       Value i outer whole \<Rightarrow> value_step (scan_call f b) b i outer whole s
     | Object i outer whole \<Rightarrow> object_step (scan_call f b) b i outer whole s
     | Members i outer whole \<Rightarrow> members_step (scan_call f b) b i outer whole s
     | Elements i each whole \<Rightarrow> array_step (scan_call f b) b i each whole s
     | Elems i each whole \<Rightarrow> elems_step (scan_call f b) b i each whole s)"

definition scan_fuel :: "string \<Rightarrow> nat" where
  "scan_fuel b = 3 * length b + 3"

text \<open>\<open>pieces\<close>: the spans and the first message, or nothing for a body that is not an object.\<close>

definition pieces :: "string \<Rightarrow> (span list \<times> span) scan" where
  "pieces b =
    (let i = ws b 0 in
     if \<not> at_char b i (CHR ''{'') then Shape
     else bind_scan (scan_call (scan_fuel b) b (Value i True False) \<lparr>sn_spans = [], sn_first = (0, 0)\<rparr>)
            (\<lambda>(_, s). Found (sn_spans s, sn_first s)))"

section \<open>Positions only grow\<close>

lemma ws_ge: "i \<le> ws b i"
  by (induction b i rule: ws.induct) (subst ws.simps, auto)

lemma ws_le: "i \<le> length b \<Longrightarrow> ws b i \<le> length b"
  by (induction b i rule: ws.induct) (subst ws.simps, auto)

lemma str_end_bounds: "str_end b j = Some z \<Longrightarrow> j < z \<and> z \<le> length b"
proof (induction b j rule: str_end.induct)
  case (1 b j)
  then show ?case by (subst (asm) (3) str_end.simps) (fastforce split: if_splits)
qed

lemma bare_end_bounds: "i \<le> length b \<Longrightarrow> i \<le> bare_end b i \<and> bare_end b i \<le> length b"
  by (induction b i rule: bare_end.induct) (subst bare_end.simps, subst (2) bare_end.simps, auto)

lemma at_char_less: "at_char b i c \<Longrightarrow> i < length b"
  by (simp add: at_char_def)

text \<open>Spans in order between two positions.\<close>

fun spans_in :: "nat \<Rightarrow> nat \<Rightarrow> span list \<Rightarrow> bool" where
  "spans_in lo hi [] \<longleftrightarrow> lo \<le> hi"
| "spans_in lo hi ((a, z) # r) \<longleftrightarrow> lo \<le> a \<and> a \<le> z \<and> spans_in z hi r"

lemma spans_in_le: "spans_in lo hi r \<Longrightarrow> lo \<le> hi"
  by (induction lo hi r rule: spans_in.induct) auto

lemma spans_in_mono: "spans_in lo hi r \<Longrightarrow> lo' \<le> lo \<Longrightarrow> hi \<le> hi' \<Longrightarrow> spans_in lo' hi' r"
  by (induction lo hi r arbitrary: lo' rule: spans_in.induct) auto

lemma spans_in_append: "spans_in lo mid r \<Longrightarrow> spans_in mid hi q \<Longrightarrow> spans_in lo hi (r @ q)"
  by (induction lo mid r rule: spans_in.induct) (auto intro: spans_in_mono)

text \<open>What a call that finds a value leaves: the position behind it, and the spans it added, none inside a
  value that is a piece itself.\<close>

fun start_of :: "call \<Rightarrow> nat" where
  "start_of (Value i _ _) = i"
| "start_of (Object i _ _) = i"
| "start_of (Members i _ _) = i"
| "start_of (Elements i _ _) = i"
| "start_of (Elems i _ _) = i"

fun is_whole :: "call \<Rightarrow> bool" where
  "is_whole (Value _ _ w) = w"
| "is_whole (Object _ _ w) = w"
| "is_whole (Members _ _ w) = w"
| "is_whole (Elements _ _ w) = w"
| "is_whole (Elems _ _ w) = w"

definition first_ok :: "string \<Rightarrow> scanner \<Rightarrow> bool" where
  "first_ok b s \<longleftrightarrow> fst (sn_first s) \<le> snd (sn_first s) \<and> snd (sn_first s) \<le> length b"

definition adds :: "string \<Rightarrow> nat \<Rightarrow> bool \<Rightarrow> scanner \<Rightarrow> nat \<Rightarrow> scanner \<Rightarrow> bool" where
  "adds b i whole s z s' \<longleftrightarrow>
     z \<le> length b \<and> i \<le> z \<and> (first_ok b s \<longrightarrow> first_ok b s') \<and>
     (\<exists>new. sn_spans s' = sn_spans s @ new \<and> spans_in i z new \<and> (whole \<longrightarrow> new = []))"

definition good_rec :: "string \<Rightarrow> scans \<Rightarrow> bool" where
  "good_rec b rec \<longleftrightarrow> (\<forall>c s z s'. rec c s = Found (z, s') \<longrightarrow> adds b (start_of c) (is_whole c) s z s')"

lemma good_recD: "good_rec b rec \<Longrightarrow> rec c s = Found (z, s') \<Longrightarrow> adds b (start_of c) (is_whole c) s z s'"
  by (simp add: good_rec_def)

lemma adds_same: "i \<le> z \<Longrightarrow> z \<le> length b \<Longrightarrow> adds b i whole s z s"
  by (simp add: adds_def)

lemma adds_span: "i \<le> z \<Longrightarrow> z \<le> length b \<Longrightarrow> \<not> whole \<Longrightarrow> adds b i whole s z (add_span (i, z) s)"
  by (simp add: adds_def add_span_def first_ok_def)

lemma adds_trans:
  assumes "adds b i w s z s1" and "adds b j w s1 y s2" and "z \<le> j"
  shows "adds b i w s y s2"
proof -
  obtain n1 n2 where 1: "sn_spans s1 = sn_spans s @ n1" "spans_in i z n1" "w \<longrightarrow> n1 = []"
    and 2: "sn_spans s2 = sn_spans s1 @ n2" "spans_in j y n2" "w \<longrightarrow> n2 = []"
    using assms(1,2) by (auto simp: adds_def)
  have "spans_in z y n2" using spans_in_mono [OF 2(2) assms(3)] by simp
  with spans_in_append [OF 1(2)] have "spans_in i y (n1 @ n2)" .
  with 1 2 assms show ?thesis by (auto simp: adds_def)
qed

lemma adds_from: "adds b j w s z s' \<Longrightarrow> i \<le> j \<Longrightarrow> adds b i w s z s'"
  by (auto simp: adds_def intro: spans_in_mono)

lemma adds_to: "adds b i w s z s' \<Longrightarrow> z \<le> y \<Longrightarrow> y \<le> length b \<Longrightarrow> adds b i w s y s'"
  by (auto simp: adds_def intro: spans_in_mono)

lemma bind_scan_Found: "bind_scan r f = Found y \<longleftrightarrow> (\<exists>x. r = Found x \<and> f x = Found y)"
  by (cases r) auto

lemma value_step_adds:
  assumes "good_rec b rec" and "value_step rec b i outer whole s = Found (z, s')"
  shows "adds b i whole s z s'"
  using assms good_recD [OF assms(1), of "Object i outer whole" s z s']
    good_recD [OF assms(1), of "Elements i False whole" s z s'] str_end_bounds [of b "i + 1" z]
    bare_end_bounds [of i b]
  by (auto simp: value_step_def intro!: adds_same adds_span split: if_splits option.splits)

lemma object_step_adds:
  assumes "good_rec b rec" and "object_step rec b i outer whole s = Found (z, s')"
  shows "adds b i whole s z s'"
proof -
  have "i + 1 \<le> ws b (i + 1)" by (rule ws_ge)
  then show ?thesis
    using assms good_recD [OF assms(1), of "Members (ws b (i + 1)) outer whole" s z s']
    by (auto simp: object_step_def Let_def intro!: adds_same dest: at_char_less intro: adds_from split: if_splits)
qed

lemma array_step_adds:
  assumes "good_rec b rec" and "array_step rec b i each whole s = Found (z, s')"
  shows "adds b i whole s z s'"
proof -
  have "i + 1 \<le> ws b (i + 1)" by (rule ws_ge)
  then show ?thesis
    using assms good_recD [OF assms(1), of "Elems (ws b (i + 1)) each whole" s z s']
    by (auto simp: array_step_def Let_def intro!: adds_same dest: at_char_less intro: adds_from split: if_splits)
qed

text \<open>What follows a value in a list or an object: a comma and the rest, or the end.\<close>

lemma after_value_adds:
  assumes rest: "adds b i w s z s1" and good: "good_rec b rec"
    and res: "(if length b \<le> ws b z then Shape
       else if b ! ws b z = CHR '','' then rec c s1
       else if b ! ws b z = e then Found (ws b z + 1, s1) else Shape) = Found (y, s')"
    and c: "start_of c = ws b (ws b z + 1)" "is_whole c = w"
  shows "adds b i w s y s'"
proof -
  have "z \<le> ws b z" "ws b z + 1 \<le> ws b (ws b z + 1)" by (rule ws_ge)+
  with rest good_recD [OF good, of c s1 y s'] c res show ?thesis
    by (auto split: if_splits intro: adds_to adds_trans)
qed

lemma elems_step_adds:
  assumes good: "good_rec b rec" and res: "elems_step rec b i each whole s = Found (y, s')"
  shows "adds b i whole s y s'"
proof -
  obtain z s1 where 1: "rec (Value i False (whole \<or> each)) s = Found (z, s1)"
    using res by (auto simp: elems_step_def bind_scan_Found)
  have val: "adds b i (whole \<or> each) s z s1" using good_recD [OF good 1] by simp
  define s2 where "s2 = (if each \<and> \<not> whole then add_span (i, z) s1 else s1)"
  have "adds b i whole s z s2"
    using val unfolding s2_def by (cases whole; cases each) (auto simp: adds_def add_span_def first_ok_def)
  moreover have "(if length b \<le> ws b z then Shape
       else if b ! ws b z = CHR '','' then rec (Elems (ws b (ws b z + 1)) each whole) s2
       else if b ! ws b z = CHR '']'' then Found (ws b z + 1, s2) else Shape) = Found (y, s')"
    using res by (simp only: elems_step_def 1 bind_scan.simps Let_def prod.case s2_def)
  ultimately show ?thesis by (rule after_value_adds [OF _ good]) simp_all
qed

lemma member_value_adds:
  assumes good: "good_rec b rec" and res: "member_value rec b i tools messages whole s = Found (y, s')"
  shows "adds b i whole s y s'"
proof -
  let ?j = "ws b (i + 1)"
  have first: ?thesis if "rec (Value ?j False True) s = Found (z, s1)"
    and "rec (Elements i False whole) (s1\<lparr>sn_first := (?j, z)\<rparr>) = Found (y, s')" for z s1
  proof -
    have "adds b ?j True s z s1" using good_recD [OF good that(1)] by simp
    moreover have "adds b i whole (s1\<lparr>sn_first := (?j, z)\<rparr>) y s'" using good_recD [OF good that(2)] by simp
    ultimately show ?thesis by (auto simp: adds_def first_ok_def)
  qed
  show ?thesis
    using res good_recD [OF good, of "Elements i True whole" s y s']
      good_recD [OF good, of "Elements i False whole" s y s'] good_recD [OF good, of "Value i False whole" s y s'] first
    by (auto simp: member_value_def Let_def bind_scan_Found split: if_splits)
qed

lemma members_step_adds:
  assumes good: "good_rec b rec" and res: "members_step rec b i outer whole s = Found (y, s')"
  shows "adds b i whole s y s'"
proof -
  obtain kz where kz: "str_end b (i + 1) = Some kz"
    using res by (auto simp: members_step_def split: if_splits option.splits)
  let ?m = "ws b (ws b kz + 1)"
  let ?tools = "outer \<and> sub b i kz = CHR 0x22 # ''tools'' @ [CHR 0x22]"
  let ?messages = "outer \<and> sub b i kz = CHR 0x22 # ''messages'' @ [CHR 0x22]"
  obtain z s1 where 1: "member_value rec b ?m ?tools ?messages whole s = Found (z, s1)"
    using res kz by (auto simp: members_step_def Let_def bind_scan_Found split: if_splits)
  have "i \<le> ?m"
    using str_end_bounds [OF kz] ws_ge [of kz b] ws_ge [of "ws b kz + 1" b] by linarith
  with member_value_adds [OF good 1] have "adds b i whole s z s1" by (rule adds_from)
  moreover have "(if length b \<le> ws b z then Shape
       else if b ! ws b z = CHR '','' then rec (Members (ws b (ws b z + 1)) outer whole) s1
       else if b ! ws b z = CHR ''}'' then Found (ws b z + 1, s1) else Shape) = Found (y, s')"
    using res kz 1 by (simp add: members_step_def Let_def split: if_splits)
  ultimately show ?thesis by (rule after_value_adds [OF _ good]) simp_all
qed

lemma scan_call_good: "good_rec b (scan_call f b)"
proof (induction f)
  case 0
  then show ?case by (simp add: good_rec_def)
next
  case (Suc f)
  show ?case
    unfolding good_rec_def
    using value_step_adds [OF Suc] object_step_adds [OF Suc] members_step_adds [OF Suc] array_step_adds [OF Suc]
      elems_step_adds [OF Suc]
    by (auto split: call.splits)
qed

section \<open>Three calls for a byte\<close>

fun need :: "string \<Rightarrow> call \<Rightarrow> nat" where
  "need b (Value i _ _) = 3 * (length b - i) + 2"
| "need b (Object i _ _) = 3 * (length b - i) + 1"
| "need b (Members i _ _) = 3 * (length b - i) + 3"
| "need b (Elements i _ _) = 3 * (length b - i) + 1"
| "need b (Elems i _ _) = 3 * (length b - i) + 3"

fun ready :: "string \<Rightarrow> call \<Rightarrow> bool" where
  "ready b (Object i _ _) = (i < length b)"
| "ready b (Elements i _ _) = (i < length b)"
| "ready b _ = True"

lemma bind_scan_ends: "r \<noteq> Endless \<Longrightarrow> (\<And>x. r = Found x \<Longrightarrow> f x \<noteq> Endless) \<Longrightarrow> bind_scan r f \<noteq> Endless"
  by (cases r) auto

lemma scan_call_ends: "ready b c \<Longrightarrow> need b c \<le> f \<Longrightarrow> scan_call f b c s \<noteq> Endless"
proof (induction f arbitrary: c s)
  case 0
  then show ?case by (cases c) auto
next
  case (Suc f)
  let ?rec = "scan_call f b"
  have ends: "?rec c s \<noteq> Endless" if "ready b c" "need b c \<le> f" for c s using Suc.IH that by blast
  have found: "adds b (start_of c) (is_whole c) s z s'" if "?rec c s = Found (z, s')" for c s z s'
    using good_recD [OF scan_call_good that] .
  show ?case
  proof (cases c)
    case (Value i outer whole)
    then show ?thesis
      using Suc.prems ends [of "Object i outer whole"] ends [of "Elements i False whole"]
      by (auto simp: value_step_def split: option.splits)
  next
    case (Object i outer whole)
    have "i + 1 \<le> ws b (i + 1)" by (rule ws_ge)
    then show ?thesis
      using Suc.prems Object ends [of "Members (ws b (i + 1)) outer whole"]
      by (auto simp: object_step_def Let_def)
  next
    case (Elements i each whole)
    have "i + 1 \<le> ws b (i + 1)" by (rule ws_ge)
    then show ?thesis
      using Suc.prems Elements ends [of "Elems (ws b (i + 1)) each whole"]
      by (auto simp: array_step_def Let_def)
  next
    case (Elems i each whole)
    have "?rec (Value i False (whole \<or> each)) s \<noteq> Endless" using Suc.prems Elems by (intro ends) auto
    moreover have "?rec (Elems (ws b (ws b z + 1)) each whole) s2 \<noteq> Endless"
      if "?rec (Value i False (whole \<or> each)) s = Found (z, s1)" "\<not> length b \<le> ws b z" for z s1 s2
      using found [OF that(1)] that(2) ws_ge [of z b] ws_ge [of "ws b z + 1" b] Suc.prems Elems
      by (intro ends) (auto simp: adds_def)
    ultimately have "elems_step ?rec b i each whole s \<noteq> Endless"
      unfolding elems_step_def by (intro bind_scan_ends) (simp_all add: Let_def split: prod.split)
    then show ?thesis using Elems by simp
  next
    case (Members i outer whole)
    show ?thesis
    proof (cases "at_char b i (CHR 0x22)")
      case False
      with Members show ?thesis by (simp add: members_step_def)
    next
      case True
      then have i: "i < length b" by (rule at_char_less)
      show ?thesis
      proof (cases "str_end b (i + 1)")
        case None
        with Members True show ?thesis by (simp add: members_step_def)
      next
        case (Some kz)
        let ?m = "ws b (ws b kz + 1)"
        have m: "i + 2 \<le> ?m" using str_end_bounds [OF Some] ws_ge [of kz b] ws_ge [of "ws b kz + 1" b] by linarith
        have plain: "?rec (Value ?m False whole) s \<noteq> Endless" using m i Suc.prems Members by (intro ends) auto
        have elems: "at_char b ?m (CHR ''['') \<Longrightarrow> ?rec (Elements ?m each whole) s' \<noteq> Endless" for each s'
          using m i Suc.prems Members by (intro ends) (auto simp: at_char_def)
        have first: "?rec (Value (ws b (?m + 1)) False True) s \<noteq> Endless"
          using m i Suc.prems Members ws_ge [of "?m + 1" b] by (intro ends) auto
        have val: "member_value ?rec b ?m tools messages whole s \<noteq> Endless" for tools messages
          unfolding member_value_def Let_def using plain elems first
          by (simp add: bind_scan_ends split: prod.split)
        have rest: "?rec (Members (ws b (ws b z + 1)) outer whole) s1 \<noteq> Endless"
          if "member_value ?rec b ?m tools messages whole s = Found (z, s1)" "\<not> length b \<le> ws b z"
          for tools messages z s1
          using member_value_adds [OF scan_call_good that(1)] that(2) m i ws_ge [of z b] ws_ge [of "ws b z + 1" b]
            Suc.prems Members by (intro ends) (auto simp: adds_def)
        have "members_step ?rec b i outer whole s \<noteq> Endless"
          unfolding members_step_def Let_def using True Some
          by (simp, intro impI bind_scan_ends val [simplified]) (auto dest: rest [simplified] split: if_splits)
        then show ?thesis using Members by simp
      qed
    qed
  qed
qed

text \<open>C40. The scanner ends on every text, and the spans it gives lie inside it, in order and apart, with the
  first message's.\<close>

theorem pieces_in_order:
  "pieces b \<noteq> Endless \<and>
   (case pieces b of
      Found (spans, first) \<Rightarrow> spans_in 0 (length b) spans \<and> fst first \<le> snd first \<and> snd first \<le> length b
    | _ \<Rightarrow> True)"
proof -
  let ?c = "Value (ws b 0) True False" and ?s = "\<lparr>sn_spans = [], sn_first = (0, 0)\<rparr>"
  have "scan_call (scan_fuel b) b ?c ?s \<noteq> Endless"
    by (rule scan_call_ends) (simp_all add: scan_fuel_def)
  then consider "scan_call (scan_fuel b) b ?c ?s = Shape"
    | z s where "scan_call (scan_fuel b) b ?c ?s = Found (z, s)" "adds b (ws b 0) False ?s z s"
    using good_recD [OF scan_call_good, of "scan_fuel b" b ?c ?s]
    by (cases "scan_call (scan_fuel b) b ?c ?s") auto
  then show ?thesis
  proof cases
    case 2
    then have "spans_in 0 (length b) (sn_spans s)" by (auto simp: adds_def intro: spans_in_mono)
    with 2 show ?thesis by (auto simp: pieces_def Let_def adds_def first_ok_def)
  qed (simp add: pieces_def Let_def)
qed

end
