(* ===== verification/Part_Raw.thy ===== *)
theory Part_Raw
  imports Session_Data
begin

text \<open>
  The bytes of a part, \<^verbatim>\<open>pkg/sessiondata/sessiondata.go\<close>: \<open>SetRaw\<close> and \<open>Raw\<close>, which keep any bytes
  as one JSON string, in base64 when they are not UTF-8, and \<open>Depth\<close> of \<^verbatim>\<open>fit.go\<close>, how deep a value
  nests. \<open>Raw\<close> gives back what \<open>SetRaw\<close> was given.
\<close>

section \<open>Base64\<close>

text \<open>\<open>base64.StdEncoding\<close>, with padding. A reader passes over line breaks and does not look at the
  bits behind the last byte.\<close>

definition b64_char :: "nat \<Rightarrow> char" where
  "b64_char n =
    (if n < 26 then char_of (65 + n) else if n < 52 then char_of (71 + n)
     else if n < 62 then char_of (n - 4) else if n = 62 then CHR ''+'' else CHR ''/'')"

definition b64_val :: "char \<Rightarrow> nat option" where
  "b64_val c =
    (let n = code c in
     if 65 \<le> n \<and> n \<le> 90 then Some (n - 65)
     else if 97 \<le> n \<and> n \<le> 122 then Some (n - 71)
     else if 48 \<le> n \<and> n \<le> 57 then Some (n + 4)
     else if n = 43 then Some 62 else if n = 47 then Some 63 else None)"

fun b64_encode :: "string \<Rightarrow> string" where
  "b64_encode (a # b # c # s) =
    (let n = code a * 65536 + code b * 256 + code c
     in b64_char (n div 262144) # b64_char (n div 4096 mod 64) # b64_char (n div 64 mod 64) # b64_char (n mod 64)
        # b64_encode s)"
| "b64_encode [a, b] =
    (let n = code a * 1024 + code b * 4
     in [b64_char (n div 4096), b64_char (n div 64 mod 64), b64_char (n mod 64), CHR ''=''])"
| "b64_encode [a] =
    (let n = code a * 16 in [b64_char (n div 64), b64_char (n mod 64), CHR ''='', CHR ''=''])"
| "b64_encode [] = []"

fun b64_quads :: "string \<Rightarrow> string option" where
  "b64_quads [] = Some []"
| "b64_quads (a # b # c # d # s) =
    (case (b64_val a, b64_val b) of
       (Some w, Some x) \<Rightarrow>
        (if c = CHR ''='' then
           (if d = CHR ''='' \<and> s = [] then Some [char_of ((w * 64 + x) div 16)] else None)
         else case b64_val c of
           None \<Rightarrow> None
         | Some y \<Rightarrow>
            (let n = w * 4096 + x * 64 + y in
             if d = CHR ''='' then
               (if s = [] then Some [char_of (n div 1024), char_of (n div 4 mod 256)] else None)
             else case b64_val d of
               None \<Rightarrow> None
             | Some z \<Rightarrow>
                (let m = n * 64 + z in
                 map_option (\<lambda>r. char_of (m div 65536) # char_of (m div 256 mod 256) # char_of (m mod 256) # r)
                   (b64_quads s))))
     | _ \<Rightarrow> None)"
| "b64_quads _ = None"

definition b64_decode :: "string \<Rightarrow> string option" where
  "b64_decode s = b64_quads (filter (\<lambda>c. c \<noteq> CHR 0x0A \<and> c \<noteq> CHR 0x0D) s)"

section \<open>The bytes of a part\<close>

definition EncodingBase64 :: string where "EncodingBase64 = ''base64''"

definition SetRaw :: "string \<Rightarrow> part \<Rightarrow> part" where
  "SetRaw b p =
    (let (s, enc) = (if utf8 b then (b, []) else (b64_encode b, EncodingBase64))
     in p\<lparr>pt_Data := quote s, pt_Encoding := enc\<rparr>)"

definition Raw :: "part \<Rightarrow> string option" where
  "Raw p =
    (case parse (pt_Data p) of
       None \<Rightarrow> None
     | Some j \<Rightarrow>
        (case into_string j [] of
           None \<Rightarrow> None
         | Some s \<Rightarrow>
            if pt_Encoding p = [] then Some s
            else if pt_Encoding p = EncodingBase64 then b64_decode s else None))"

section \<open>Round trip\<close>

lemma b64_val_char: "n < 64 \<Longrightarrow> b64_val (b64_char n) = Some n"
  by (auto simp: b64_char_def b64_val_def Let_def)

lemma b64_char_plain:
  "n < 64 \<Longrightarrow> b64_char n \<noteq> CHR ''='' \<and> b64_char n \<noteq> CHR 0x0A \<and> b64_char n \<noteq> CHR 0x0D \<and> code (b64_char n) < 0x80"
proof -
  assume "n < 64"
  then have v: "b64_val (b64_char n) \<noteq> None" using b64_val_char by simp
  have "n - 4 < 128" using \<open>n < 64\<close> by linarith
  with \<open>n < 64\<close> have "code (b64_char n) < 0x80" by (simp add: b64_char_def)
  with v show ?thesis by (auto simp: b64_val_def Let_def)
qed

lemma code_less: "code c < 256"
  by (metis of_char_mod_256 mod_less_divisor zero_less_numeral)

lemma sextets:
  fixes n :: nat
  shows "n div 262144 * 4096 + n div 4096 mod 64 * 64 + n div 64 mod 64 = n div 64"
    and "n div 4096 * 4096 + n div 64 mod 64 * 64 + n mod 64 = n"
proof -
  obtain q r u where q: "q = n div 64" and r: "r = q div 64" and u: "u = r div 64" by blast
  have n: "n div 262144 = u" "n div 4096 = r" "n div 64 = q"
    unfolding u r q by (simp_all only: div_mult2_eq [symmetric]) simp_all
  obtain x y z where x: "x = r mod 64" and y: "y = q mod 64" and z: "z = n mod 64" by blast
  have "u * 64 + x = r" "r * 64 + y = q" "q * 64 + z = n"
    unfolding u r q x y z by (rule div_mult_mod_eq)+
  then show "n div 262144 * 4096 + n div 4096 mod 64 * 64 + n div 64 mod 64 = n div 64"
    and "n div 4096 * 4096 + n div 64 mod 64 * 64 + n mod 64 = n"
    unfolding n x [symmetric] y [symmetric] z [symmetric] by linarith+
qed

lemma octets:
  fixes a b c :: nat
  assumes "a < 256" "b < 256" "c < 256"
  shows "(a * 65536 + b * 256 + c) div 65536 = a" "(a * 65536 + b * 256 + c) div 256 mod 256 = b"
    "(a * 65536 + b * 256 + c) mod 256 = c"
proof -
  have "(c + 256 * (b + 256 * a)) div 256 = b + 256 * a" using assms by (subst div_mult_self2) simp_all
  moreover have "(b + 256 * a) div 256 = a" using assms by (subst div_mult_self2) simp_all
  moreover have eq: "a * 65536 + b * 256 + c = c + 256 * (b + 256 * a)" by simp
  moreover have "(c + 256 * (b + 256 * a)) div 65536 = (c + 256 * (b + 256 * a)) div 256 div 256"
    by (simp add: div_mult2_eq [symmetric])
  ultimately show "(a * 65536 + b * 256 + c) div 65536 = a" "(a * 65536 + b * 256 + c) div 256 mod 256 = b"
    "(a * 65536 + b * 256 + c) mod 256 = c"
    using assms by (simp_all only: eq mod_mult_self2 mod_less)
qed

lemma char_of_mod: "n mod 256 = code c \<Longrightarrow> char_of n = c"
  by (metis char_of_mod_256 char_of_char)

lemma b64_quads_encode: "b64_quads (b64_encode s) = Some s"
proof (induction s rule: b64_encode.induct)
  case (1 a b c s)
  let ?n = "code a * 65536 + code b * 256 + code c"
  have n: "?n < 16777216" using code_less [of a] code_less [of b] code_less [of c] by linarith
  note parts = sextets(1) [of ?n] octets [OF code_less [of a] code_less [of b] code_less [of c]]
  have "?n div 64 * 64 + ?n mod 64 = ?n" by simp
  moreover have "?n div 262144 < 64" using n by (simp only: less_mult_imp_div_less)
  ultimately show ?case
    using 1 n parts(1,2) char_of_mod [OF parts(3)] char_of_mod [OF parts(4)] b64_char_plain [of "?n div 64 mod 64"] b64_char_plain [of "?n mod 64"]
    by (simp add: Let_def b64_val_char less_mult_imp_div_less)
next
  case (2 a b)
  let ?n = "code a * 1024 + code b * 4"
  have n: "?n < 262144" using code_less [of a] code_less [of b] by linarith
  have "?n div 4 = code b + 256 * code a" by simp
  moreover have "?n div 1024 = ?n div 4 div 256" by (simp only: div_mult2_eq [symmetric]) simp
  ultimately have four: "?n div 1024 = code a" "char_of (?n div 4) = b"
    using code_less [of b] char_of_mod [of "code b + 256 * code a" b] by (simp_all add: add.commute)
  moreover have "?n div 4096 < 64" using n by (simp only: less_mult_imp_div_less)
  moreover note sextets(2) [of ?n]
  ultimately show ?case
    using b64_char_plain [of "?n mod 64"] by (simp add: Let_def b64_val_char less_mult_imp_div_less)
next
  case (3 a)
  let ?n = "code a * 16"
  have "?n < 4096" using code_less [of a] by linarith
  moreover have "code a * 16 mod 64 = (code a mod 4) * 16" using mult_mod_left [of "code a" 4 16] by simp
  then have "code a div 4 * 64 + code a * 16 mod 64 = code a * 16" using div_mult_mod_eq [of "code a" 4] by linarith
  ultimately show ?case by (simp add: Let_def b64_val_char less_mult_imp_div_less)
qed simp

definition b64_plain :: "char \<Rightarrow> bool" where
  "b64_plain c \<longleftrightarrow> code c < 0x80 \<and> c \<noteq> CHR 0x0A \<and> c \<noteq> CHR 0x0D"

lemma b64_plain_char: "n < 64 \<Longrightarrow> b64_plain (b64_char n)" "b64_plain (CHR ''='')"
  using b64_char_plain [of n] by (simp_all add: b64_plain_def)

lemma b64_encode_plain: "list_all b64_plain (b64_encode s)"
proof (induction s rule: b64_encode.induct)
  case (1 a b c s)
  have "code a * 65536 + code b * 256 + code c < 64 * 262144"
    using code_less [of a] code_less [of b] code_less [of c] by linarith
  then have "(code a * 65536 + code b * 256 + code c) div 262144 < 64" by (rule less_mult_imp_div_less)
  with 1 show ?case by (simp add: Let_def b64_plain_char)
next
  case (2 a b)
  have "code a * 1024 + code b * 4 < 64 * 4096" using code_less [of a] code_less [of b] by linarith
  then have "(code a * 1024 + code b * 4) div 4096 < 64" by (rule less_mult_imp_div_less)
  then show ?case by (simp add: Let_def b64_plain_char)
next
  case (3 a)
  have "code a * 16 < 64 * 64" using code_less [of a] by linarith
  then have "(code a * 16) div 64 < 64" by (rule less_mult_imp_div_less)
  then show ?case by (simp add: Let_def b64_plain_char)
qed simp

lemma b64_decode_encode: "b64_decode (b64_encode s) = Some s"
proof -
  have "filter (\<lambda>c. c \<noteq> CHR 0x0A \<and> c \<noteq> CHR 0x0D) (b64_encode s) = b64_encode s"
    using b64_encode_plain [of s] by (auto simp: filter_id_conv list_all_iff b64_plain_def)
  then show ?thesis by (simp add: b64_decode_def b64_quads_encode)
qed

lemma b64_encode_utf8: "utf8 (b64_encode s)"
  using b64_encode_plain [of s] by (intro utf8_ascii) (auto simp: list_all_iff b64_plain_def)

lemma parse_quote: "utf8 s \<Longrightarrow> parse (quote s) = Some (JStr (quote s) s)"
  by (rule parse_written [OF written_str, of _ 0]) simp_all

text \<open>A part gives back the bytes it was given, whatever they are: as a string when they are UTF-8 and
  through base64 when they are not.\<close>

theorem Raw_SetRaw: "Raw (SetRaw b p) = Some b"
  by (simp add: Raw_def SetRaw_def EncodingBase64_def parse_quote b64_encode_utf8 b64_decode_encode)

section \<open>Depth\<close>

text \<open>The state of \<open>Depth\<close>'s loop: the deepest, how many are open, and whether the byte stands in a
  string and behind a backslash.\<close>

fun depth_from :: "int \<Rightarrow> int \<Rightarrow> bool \<Rightarrow> bool \<Rightarrow> string \<Rightarrow> int" where
  "depth_from deepest opened inString escaped [] = deepest"
| "depth_from deepest opened inString escaped (c # s) =
    (if escaped then depth_from deepest opened inString False s
     else if inString then
       (if c = CHR 0x5C then depth_from deepest opened True True s
        else if c = CHR 0x22 then depth_from deepest opened False False s
        else depth_from deepest opened True False s)
     else if c = CHR 0x22 then depth_from deepest opened True False s
     else if c = CHR ''['' \<or> c = CHR ''{'' then depth_from (max deepest (opened + 1)) (opened + 1) False False s
     else if c = CHR '']'' \<or> c = CHR ''}'' then depth_from deepest (opened - 1) False False s
     else depth_from deepest opened False False s)"

definition data_Depth :: "string \<Rightarrow> int" where
  "data_Depth s = depth_from 0 0 False False s"

definition MaxDataDepth :: int where "MaxDataDepth = 256 - 3"

end
