(* ===== verification/Body_Session.thy ===== *)
theory Body_Session
  imports Body_Manifest Body_Scan Part_Raw
begin

text \<open>
  The bodies of one session, \<^verbatim>\<open>pkg/providerbody/session.go\<close>: the records added in landing order, the
  pieces and chain tips they leave, rebuilding a body from its segments with the bodies it copies from,
  the cache of rebuilt bodies, and \<open>Add\<close> with every check it makes. The digest is a parameter \<open>dg\<close>.
  A rebuild reads the bodies it copies from, so it is bounded by a number of bodies \<open>n\<close>; \<open>Unending\<close>
  stands for running out of it and \<open>Panics\<close> for a nil dereference. The theory \<^verbatim>\<open>Body_Rebuild\<close> shows that
  neither happens.
\<close>

section \<open>The session\<close>

datatype body_error = ErrRepeat | ErrTooLarge | ErrRemoved | Refused | StoreFailed | Unending | Panics

type_synonym 'a body_result = "body_error + 'a"

datatype kept = Kept string | NotExist | Failing

record store =
  st_Tip :: "string \<Rightarrow> string \<Rightarrow> kept"
  st_Piece :: "string \<Rightarrow> kept"

record held =
  hd_Rec :: sd_record
  hd_M :: manifest
  hd_Removed :: bool
  hd_At :: nat

record bodies =
  bs_maxRecord :: int
  bs_budget :: int
  bs_added :: nat
  bs_records :: "string \<Rightarrow> held option"
  bs_pieces :: "string \<Rightarrow> (string \<times> nat) option"
  bs_tips :: "string \<Rightarrow> string option"
  bs_tipOrder :: "string list"
  bs_cache :: "string \<Rightarrow> string option"
  bs_cacheOrder :: "string list"
  bs_cacheBytes :: int
  bs_store :: "store option"
  bs_keptBy :: "string \<Rightarrow> string option"

definition maxTips :: nat where "maxTips = 64"
definition otherTips :: nat where "otherTips = 8"
definition cacheLimit :: int where "cacheLimit = 64 * 2 ^ 20"
definition MinCopy :: nat where "MinCopy = 4 * 2 ^ 10"
definition MaxDepth :: int where "MaxDepth = 32"
definition MaxBytes :: int where "MaxBytes = 256 * 2 ^ 20"
definition FileOverhead :: int where "FileOverhead = 512"

definition ContentTooLarge :: string where "ContentTooLarge = ''too_large''"
definition ContentRemoved :: string where "ContentRemoved = ''removed''"

definition NewSession :: bodies where
  "NewSession = \<lparr>bs_maxRecord = 0, bs_budget = 0, bs_added = 0, bs_records = (\<lambda>_. None), bs_pieces = (\<lambda>_. None),
     bs_tips = (\<lambda>_. None), bs_tipOrder = [], bs_cache = (\<lambda>_. None), bs_cacheOrder = [], bs_cacheBytes = 0,
     bs_store = None, bs_keptBy = (\<lambda>_. None)\<rparr>"

definition Budget :: "int \<Rightarrow> bodies \<Rightarrow> bodies" where
  "Budget budget s =
    (let s = s\<lparr>bs_maxRecord := 0, bs_budget := 0\<rparr> in
     if budget > 0 then s\<lparr>bs_maxRecord := max (budget - FileOverhead) 1, bs_budget := budget\<rparr> else s)"

definition Use :: "store \<Rightarrow> bodies \<Rightarrow> bodies" where
  "Use st s = s\<lparr>bs_store := Some st\<rparr>"

definition Holds :: "bodies \<Rightarrow> string \<Rightarrow> string option" where
  "Holds s ident = map_option (\<lambda>h. mf_SHA256 (hd_M h)) (bs_records s ident)"

definition Manifest_held :: "bodies \<Rightarrow> string \<Rightarrow> manifest option" where
  "Manifest_held s ident = map_option hd_M (bs_records s ident)"

section \<open>Pieces and tips\<close>

text \<open>The part a piece stands at, which is a nil dereference when the record is not held.\<close>

definition part_at :: "bodies \<Rightarrow> string \<times> nat \<Rightarrow> part option" where
  "part_at s a =
    (case bs_records s (fst a) of
       None \<Rightarrow> None
     | Some h \<Rightarrow> if snd a < length (sr_Parts (hd_Rec h)) then Some (sr_Parts (hd_Rec h) ! snd a) else None)"

definition hasPiece :: "bodies \<Rightarrow> string \<Rightarrow> bool" where
  "hasPiece s d \<longleftrightarrow> bs_pieces s d \<noteq> None"

definition removedPiece :: "bodies \<Rightarrow> string \<Rightarrow> bool" where
  "removedPiece s d =
    (case bs_pieces s d of
       None \<Rightarrow> False
     | Some a \<Rightarrow> (case part_at s a of Some p \<Rightarrow> pt_State p = ContentRemoved | None \<Rightarrow> False))"

definition Tips :: "bodies \<Rightarrow> string list" where
  "Tips s = map (\<lambda>c. case bs_tips s c of Some ident \<Rightarrow> ident | None \<Rightarrow> []) (bs_tipOrder s)"

definition setTip :: "string \<Rightarrow> string \<Rightarrow> bodies \<Rightarrow> bodies" where
  "setTip chain ident s =
    (let order = (if bs_tips s chain \<noteq> None then remove1 chain (bs_tipOrder s) else bs_tipOrder s) @ [chain];
         tips = (bs_tips s)(chain \<mapsto> ident)
     in if length order > maxTips then s\<lparr>bs_tips := tips(hd order := None), bs_tipOrder := tl order\<rparr>
        else s\<lparr>bs_tips := tips, bs_tipOrder := order\<rparr>)"

section \<open>The cache\<close>

text \<open>The loop of \<open>remember\<close> drops the oldest body until the rest fits, and never the last one.\<close>

fun evict :: "(string \<Rightarrow> string option) \<Rightarrow> string list \<Rightarrow> int \<Rightarrow> (string \<Rightarrow> string option) \<times> string list \<times> int" where
  "evict cache (old # ident # order) n =
    (if n > cacheLimit
     then evict (cache(old := None)) (ident # order)
            (n - (case cache old of Some b \<Rightarrow> int (length b) | None \<Rightarrow> 0))
     else (cache, old # ident # order, n))"
| "evict cache order n = (cache, order, n)"

definition remember :: "string \<Rightarrow> string \<Rightarrow> bodies \<Rightarrow> bodies" where
  "remember ident b s =
    (case evict ((bs_cache s)(ident \<mapsto> b)) (bs_cacheOrder s @ [ident]) (bs_cacheBytes s + int (length b)) of
       (cache, order, n) \<Rightarrow> s\<lparr>bs_cache := cache, bs_cacheOrder := order, bs_cacheBytes := n\<rparr>)"

section \<open>The bytes of a part\<close>

type_synonym fill = "string \<Rightarrow> string option"

text \<open>\<open>stored\<close>: what the store kept, checked against its digest.\<close>

definition stored :: "(string \<Rightarrow> string) \<Rightarrow> bodies \<Rightarrow> (store \<Rightarrow> kept) \<Rightarrow> string \<Rightarrow> string body_result" where
  "stored dg s got sha =
    (case bs_store s of
       None \<Rightarrow> Inl ErrRemoved
     | Some st \<Rightarrow>
        (case got st of
           NotExist \<Rightarrow> Inl ErrRemoved
         | Failing \<Rightarrow> Inl StoreFailed
         | Kept b \<Rightarrow> if dg b \<noteq> sha then Inl Refused else Inr b))"

definition partBytes :: "(string \<Rightarrow> string) \<Rightarrow> bodies \<Rightarrow> part \<Rightarrow> fill \<Rightarrow> string body_result" where
  "partBytes dg s p fill =
    (if pt_State p = ContentTooLarge then
       (case fill (pt_SHA256 p) of Some b \<Rightarrow> Inr b | None \<Rightarrow> Inl ErrTooLarge)
     else if pt_State p = ContentRemoved then
       (if pt_SHA256 p = [] then Inl ErrRemoved
        else case fill (pt_SHA256 p) of
          Some b \<Rightarrow> Inr b
        | None \<Rightarrow> stored dg s (\<lambda>st. st_Piece st (pt_SHA256 p)) (pt_SHA256 p))
     else if pt_Kind p = PartUnknown then (case Raw p of Some b \<Rightarrow> Inr b | None \<Rightarrow> Inl Refused)
     else Inr (pt_Data p))"

section \<open>Rebuilding\<close>

type_synonym reader = "bodies \<Rightarrow> string \<Rightarrow> bodies \<times> string body_result"

text \<open>One segment: the bytes it adds, with \<open>body\<close> for the body it copies from.\<close>

definition segment_bytes :: "reader \<Rightarrow> (string \<Rightarrow> string) \<Rightarrow> fill \<Rightarrow> sd_record \<Rightarrow> segment \<Rightarrow>
    bodies \<Rightarrow> bodies \<times> string body_result" where
  "segment_bytes body dg fill rec sg s =
    (if sg_Lit sg \<noteq> [] then (s, Inr (sg_Lit sg))
     else case sg_Part sg of
       Some k \<Rightarrow>
         if k < 0 \<or> k \<ge> int (length (sr_Parts rec)) - 1 then (s, Inl Refused)
         else (s, partBytes dg s (sr_Parts rec ! nat k) fill)
     | None \<Rightarrow>
        if sg_Piece sg \<noteq> [] then
          (case bs_pieces s (sg_Piece sg) of
             None \<Rightarrow> (s, Inl Refused)
           | Some a \<Rightarrow>
              (case part_at s a of
                 None \<Rightarrow> (s, Inl Panics)
               | Some p \<Rightarrow> (s, partBytes dg s p fill)))
        else case sg_Copy sg of
          None \<Rightarrow> (s, Inr [])
        | Some c \<Rightarrow>
            (case body s (cp_From c) of
               (s1, Inl e) \<Rightarrow> (s1, Inl e)
             | (s1, Inr base) \<Rightarrow>
                 if cp_Len c < 0 \<or> cp_Len c > int (length base) then (s1, Inl Refused)
                 else (s1, Inr (take (nat (cp_Len c)) base))))"

fun join_segments :: "reader \<Rightarrow> (string \<Rightarrow> string) \<Rightarrow> fill \<Rightarrow> sd_record \<Rightarrow> manifest \<Rightarrow> segment list \<Rightarrow> string \<Rightarrow>
    bodies \<Rightarrow> bodies \<times> string body_result" where
  "join_segments body dg fill rec m [] out s =
    (s, if int (length out) \<noteq> mf_Bytes m \<or> dg out \<noteq> mf_SHA256 m then Inl Refused else Inr out)"
| "join_segments body dg fill rec m (sg # sgs) out s =
    (case segment_bytes body dg fill rec sg s of
       (s1, Inl e) \<Rightarrow> (s1, Inl e)
     | (s1, Inr b) \<Rightarrow>
         if int (length out + length b) > mf_Bytes m then (s1, Inl Refused)
         else join_segments body dg fill rec m sgs (out @ b) s1)"

definition rebuild_with :: "reader \<Rightarrow> (string \<Rightarrow> string) \<Rightarrow> sd_record \<Rightarrow> manifest \<Rightarrow> fill \<Rightarrow> bodies \<Rightarrow> bodies \<times> string body_result" where
  "rebuild_with body dg rec m fill s =
    (if mf_Bytes m < 0 \<or> mf_Bytes m > MaxBytes then (s, Inl Refused)
     else join_segments body dg fill rec m (mf_Segments m) [] s)"

text \<open>\<open>removedBody\<close>: the first segment whose piece was too large to land says so.\<close>

definition cited_part :: "bodies \<Rightarrow> sd_record \<Rightarrow> segment \<Rightarrow> part option" where
  "cited_part s rec sg =
    (case sg_Part sg of
       Some k \<Rightarrow> if 0 \<le> k \<and> k < int (length (sr_Parts rec)) - 1 then Some (sr_Parts rec ! nat k)
                 else if sg_Piece sg \<noteq> [] then Option.bind (bs_pieces s (sg_Piece sg)) (part_at s) else None
     | None \<Rightarrow> if sg_Piece sg \<noteq> [] then Option.bind (bs_pieces s (sg_Piece sg)) (part_at s) else None)"

definition removedBody :: "(string \<Rightarrow> string) \<Rightarrow> bodies \<Rightarrow> held \<Rightarrow> string body_result" where
  "removedBody dg s h =
    (case stored dg s (\<lambda>st. st_Tip st (sr_ID (hd_Rec h)) (mf_SHA256 (hd_M h))) (mf_SHA256 (hd_M h)) of
       Inl ErrRemoved \<Rightarrow>
         (if \<exists>sg \<in> set (mf_Segments (hd_M h)).
               (case cited_part s (hd_Rec h) sg of Some p \<Rightarrow> pt_State p = ContentTooLarge | None \<Rightarrow> False)
          then Inl ErrTooLarge else Inl ErrRemoved)
     | r \<Rightarrow> r)"

fun body :: "nat \<Rightarrow> (string \<Rightarrow> string) \<Rightarrow> reader" where
  "body 0 dg s ident = (s, Inl Unending)"
| "body (Suc n) dg s ident =
    (case bs_cache s ident of
       Some b \<Rightarrow> (s, Inr b)
     | None \<Rightarrow>
        (case bs_records s ident of
           None \<Rightarrow> (s, Inl Refused)
         | Some h \<Rightarrow>
            (case (if hd_Removed h then (s, removedBody dg s h)
                   else rebuild_with (body n dg) dg (hd_Rec h) (hd_M h) (\<lambda>_. None) s) of
               (s1, Inl e) \<Rightarrow> (s1, Inl e)
             | (s1, Inr b) \<Rightarrow> (remember ident b s1, Inr b))))"

text \<open>A body is at most \<open>MaxDepth\<close> copies deep.\<close>

definition full :: nat where "full = Suc (nat MaxDepth)"

definition Body :: "(string \<Rightarrow> string) \<Rightarrow> reader" where
  "Body dg s ident = body full dg s ident"

definition rebuild :: "(string \<Rightarrow> string) \<Rightarrow> sd_record \<Rightarrow> manifest \<Rightarrow> fill \<Rightarrow> bodies \<Rightarrow> bodies \<times> string body_result" where
  "rebuild dg = rebuild_with (body full dg) dg"

definition BodyFrom :: "(string \<Rightarrow> string) \<Rightarrow> bodies \<Rightarrow> string \<Rightarrow> string \<Rightarrow> bodies \<times> string body_result" where
  "BodyFrom dg s ident source =
    (case bs_records s ident of
       None \<Rightarrow> (s, Inl Refused)
     | Some h \<Rightarrow>
        (let fill = [dg source \<mapsto> source];
             fill = (case pieces source of
                       Found (spans, _) \<Rightarrow>
                         foldl (\<lambda>f (a, z). f(dg (sub source a z) \<mapsto> sub source a z)) fill spans
                     | _ \<Rightarrow> fill)
         in rebuild dg (hd_Rec h) (hd_M h) fill s))"

section \<open>Adding a record\<close>

text \<open>The check of one segment, with the number of copies before it.\<close>

definition segment_ok :: "bodies \<Rightarrow> sd_record \<Rightarrow> manifest \<Rightarrow> segment \<Rightarrow> bool" where
  "segment_ok s rec m sg =
    (case sg_Part sg of
       Some k \<Rightarrow> 0 \<le> k \<and> k < int (length (sr_Parts rec)) - 1
     | None \<Rightarrow>
        if sg_Piece sg \<noteq> [] then hasPiece s (sg_Piece sg)
        else case sg_Copy sg of
          None \<Rightarrow> True
        | Some c \<Rightarrow>
            (case bs_records s (cp_From c) of
               None \<Rightarrow> False
             | Some base \<Rightarrow>
                 mf_SHA256 (hd_M base) = cp_SHA256 c \<and> 0 \<le> cp_Len c \<and> cp_Len c \<le> mf_Bytes (hd_M base) \<and>
                 mf_Depth m = mf_Depth (hd_M base) + 1 \<and> mf_Depth m \<le> MaxDepth))"

definition is_copy :: "segment \<Rightarrow> bool" where
  "is_copy sg \<longleftrightarrow> sg_Part sg = None \<and> sg_Piece sg = [] \<and> sg_Copy sg \<noteq> None"

definition own_parts :: "sd_record \<Rightarrow> part list" where
  "own_parts rec = butlast (sr_Parts rec)"

text \<open>The digests of the pieces a record brings: the first record to hold one keeps it.\<close>

definition piece_digest :: "(string \<Rightarrow> string) \<Rightarrow> part \<Rightarrow> string" where
  "piece_digest dg p =
    (if pt_State p \<noteq> ContentTooLarge \<and> pt_State p \<noteq> ContentRemoved then dg (pt_Data p) else pt_SHA256 p)"

fun add_pieces :: "(string \<Rightarrow> string) \<Rightarrow> string \<Rightarrow> nat \<Rightarrow> part list \<Rightarrow> bodies \<Rightarrow> bodies" where
  "add_pieces dg ident k [] s = s"
| "add_pieces dg ident k (p # ps) s =
    (let d = piece_digest dg p in
     add_pieces dg ident (Suc k) ps
       (if pt_Kind p = PartData \<and> d \<noteq> [] \<and> \<not> hasPiece s d
        then s\<lparr>bs_pieces := (bs_pieces s)(d \<mapsto> (ident, k))\<rparr> else s))"

definition keep_piece :: "string \<Rightarrow> segment \<Rightarrow> bodies \<Rightarrow> bodies" where
  "keep_piece ident sg s =
    (if sg_Piece sg \<noteq> [] \<and> removedPiece s (sg_Piece sg) \<and>
        (bs_keptBy s (sg_Piece sg) = None \<or> bs_keptBy s (sg_Piece sg) = Some [])
     then s\<lparr>bs_keptBy := (bs_keptBy s)(sg_Piece sg \<mapsto> ident)\<rparr> else s)"

definition checked_record :: "bodies \<Rightarrow> sd_record \<Rightarrow> manifest \<Rightarrow> bool \<Rightarrow> bool \<Rightarrow> bool" where
  "checked_record s rec m strict skeleton \<longleftrightarrow>
     sr_ID rec \<noteq> [] \<and>
     0 \<le> mf_Bytes m \<and> mf_Bytes m \<le> MaxBytes \<and> 0 \<le> mf_Depth m \<and> mf_Depth m \<le> MaxDepth \<and>
     (strict \<longrightarrow> sr_Bytes rec = mf_Bytes m \<and> 12 \<le> length (mf_SHA256 m) \<and> sr_Sha rec = take 12 (mf_SHA256 m)) \<and>
     (strict \<longrightarrow> (pt_State (last (sr_Parts rec)) = ContentRemoved) = skeleton) \<and>
     list_all (segment_ok s rec m) (mf_Segments m) \<and>
     (list_all (\<lambda>sg. \<not> is_copy sg) (mf_Segments m) \<longrightarrow> mf_Depth m = 0)"

text \<open>Putting the record in its place.\<close>

definition place_record :: "(string \<Rightarrow> string) \<Rightarrow> sd_record \<Rightarrow> manifest \<Rightarrow> bool \<Rightarrow> bodies \<Rightarrow> bodies" where
  "place_record dg rec m removed s =
    (let s = s\<lparr>bs_records := (bs_records s)(sr_ID rec \<mapsto>
                 \<lparr>hd_Rec = rec, hd_M = m, hd_Removed = removed, hd_At = bs_added s\<rparr>),
               bs_added := bs_added s + 1\<rparr>;
         s = add_pieces dg (sr_ID rec) 0 (own_parts rec) s;
         s = (if removed then s else fold (keep_piece (sr_ID rec)) (mf_Segments m) s)
     in if mf_Role m = PB_RoleRequest \<and> mf_Chain m \<noteq> [] then setTip (mf_Chain m) (sr_ID rec) s else s)"

record added =
  ad_repeat :: bool
  ad_rebuild :: "body_error option"
  ad_err :: "body_error option"

abbreviation outcome_of_add :: "bool \<Rightarrow> body_error option \<Rightarrow> body_error option \<Rightarrow> added" where
  "outcome_of_add r b e \<equiv> \<lparr>ad_repeat = r, ad_rebuild = b, ad_err = e\<rparr>"

definition add_repeat :: "(string \<Rightarrow> string) \<Rightarrow> sd_record \<Rightarrow> manifest \<Rightarrow> bool \<Rightarrow> bool \<Rightarrow> bodies \<Rightarrow> bodies \<times> added" where
  "add_repeat dg rec m removed strict s =
    (if removed then (s, outcome_of_add True None None)
     else case rebuild dg rec m (\<lambda>_. None) s of
       (s1, Inr _) \<Rightarrow> (s1, outcome_of_add True None None)
     | (s1, Inl e) \<Rightarrow>
         if e = ErrTooLarge then (s1, outcome_of_add True (Some e) None)
         else if strict \<or> e \<noteq> ErrRemoved then (s1, outcome_of_add True None (Some e))
         else (s1, outcome_of_add True None None))"

definition add_new :: "(string \<Rightarrow> string) \<Rightarrow> sd_record \<Rightarrow> manifest \<Rightarrow> bool \<Rightarrow> bool \<Rightarrow> bodies \<Rightarrow> bodies \<times> added" where
  "add_new dg rec m removed strict s =
    (if strict \<and> \<not> removed then
       (case rebuild dg rec m (\<lambda>_. None) s of
          (s1, Inr b) \<Rightarrow> (remember (sr_ID rec) b (place_record dg rec m removed s1), outcome_of_add False None None)
        | (s1, Inl e) \<Rightarrow>
            if e = ErrTooLarge then (place_record dg rec m removed s1, outcome_of_add False (Some e) None)
            else (s1, outcome_of_add False None (Some e)))
     else (place_record dg rec m removed s, outcome_of_add False None None))"

definition add :: "(string \<Rightarrow> string) \<Rightarrow> sd_record \<Rightarrow> bool \<Rightarrow> bool \<Rightarrow> bodies \<Rightarrow> bodies \<times> added" where
  "add dg rec strict skeleton s =
    (case ManifestOf rec of
       None \<Rightarrow> (s, outcome_of_add False None (Some Refused))
     | Some m \<Rightarrow>
        if \<not> checked_record s rec m strict skeleton then (s, outcome_of_add False None (Some Refused))
        else
          (let removed = (pt_State (last (sr_Parts rec)) = ContentRemoved) in
           case bs_records s (sr_ID rec) of
             Some h \<Rightarrow>
               if mf_SHA256 (hd_M h) \<noteq> mf_SHA256 m then (s, outcome_of_add False None (Some Refused))
               else add_repeat dg rec m removed strict s
           | None \<Rightarrow> add_new dg rec m removed strict s))"

definition Add :: "(string \<Rightarrow> string) \<Rightarrow> sd_record \<Rightarrow> bodies \<Rightarrow> bodies \<times> body_error option" where
  "Add dg rec s =
    (case add dg rec False False s of
       (s1, r) \<Rightarrow> (s1, if ad_err r = None \<and> ad_repeat r then Some ErrRepeat else ad_err r))"

definition AddChecked :: "(string \<Rightarrow> string) \<Rightarrow> sd_record \<Rightarrow> bool \<Rightarrow> bodies \<Rightarrow> bodies \<times> added" where
  "AddChecked dg rec skeleton s = add dg rec True skeleton s"

end
