(* ===== verification/Body_Rebuild.thy ===== *)
theory Body_Rebuild
  imports Body_Session
begin

text \<open>
  What the bodies of a session satisfy: the invariant every operation keeps, that rebuilding ends and
  never dereferences nil, that the cache changes nothing a reader sees, and that what a reader gets has
  the digest its record claims.
\<close>

section \<open>Rebuilding without the cache\<close>

text \<open>A reader that rebuilds everything: the session's records, pieces and store alone decide.\<close>

fun plain_body :: "nat \<Rightarrow> (string \<Rightarrow> string) \<Rightarrow> bodies \<Rightarrow> string \<Rightarrow> string body_result" where
  "plain_body 0 dg s ident = Inl Unending"
| "plain_body (Suc n) dg s ident =
    (case bs_records s ident of
       None \<Rightarrow> Inl Refused
     | Some h \<Rightarrow>
        if hd_Removed h then removedBody dg s h
        else snd (rebuild_with (\<lambda>s ident. (s, plain_body n dg s ident)) dg (hd_Rec h) (hd_M h) (\<lambda>_. None) s))"

abbreviation plain_reader :: "nat \<Rightarrow> (string \<Rightarrow> string) \<Rightarrow> reader" where
  "plain_reader n dg \<equiv> \<lambda>s ident. (s, plain_body n dg s ident)"

text \<open>Two sessions that differ in their caches alone.\<close>

definition same_bodies :: "bodies \<Rightarrow> bodies \<Rightarrow> bool" where
  "same_bodies s t \<longleftrightarrow>
     bs_records t = bs_records s \<and> bs_pieces t = bs_pieces s \<and> bs_store t = bs_store s \<and>
     bs_tips t = bs_tips s \<and> bs_tipOrder t = bs_tipOrder s \<and> bs_added t = bs_added s \<and>
     bs_maxRecord t = bs_maxRecord s \<and> bs_budget t = bs_budget s \<and> bs_keptBy t = bs_keptBy s"

lemma same_bodies_refl [simp]: "same_bodies s s"
  by (simp add: same_bodies_def)

lemma same_bodies_trans: "same_bodies s t \<Longrightarrow> same_bodies t u \<Longrightarrow> same_bodies s u"
  by (simp add: same_bodies_def)

lemma same_bodies_sym: "same_bodies s t \<Longrightarrow> same_bodies t s"
  by (simp add: same_bodies_def)

lemma same_bodiesD:
  assumes "same_bodies s t"
  shows "bs_records t = bs_records s" "bs_pieces t = bs_pieces s" "bs_store t = bs_store s"
    "bs_tips t = bs_tips s" "bs_tipOrder t = bs_tipOrder s" "bs_added t = bs_added s"
  using assms by (simp_all add: same_bodies_def)

lemma remember_same [simp]: "same_bodies s (remember ident b s)"
  by (simp add: remember_def same_bodies_def split: prod.split)

lemma part_at_same: "same_bodies s t \<Longrightarrow> part_at t = part_at s"
  unfolding part_at_def fun_eq_iff by (simp add: same_bodiesD)

lemma stored_same: "same_bodies s t \<Longrightarrow> stored dg t = stored dg s"
  unfolding stored_def fun_eq_iff by (simp add: same_bodiesD)

lemma partBytes_same:
  assumes "same_bodies s t"
  shows "partBytes dg t = partBytes dg s"
  unfolding partBytes_def stored_same [OF assms] ..

lemma removedBody_same:
  assumes "same_bodies s t"
  shows "removedBody dg t = removedBody dg s"
  unfolding removedBody_def cited_part_def stored_same [OF assms] part_at_same [OF assms] same_bodiesD [OF assms] ..

text \<open>A reader that answers as \<open>f\<close> does, leaving a session of the same bodies that \<open>I\<close> holds of.\<close>

definition reads_as :: "(bodies \<Rightarrow> bool) \<Rightarrow> string set \<Rightarrow> (string \<Rightarrow> string body_result) \<Rightarrow> reader \<Rightarrow> bool" where
  "reads_as I A f rd \<longleftrightarrow> (\<forall>s ident. I s \<longrightarrow> ident \<in> A \<longrightarrow> snd (rd s ident) = f ident \<and>
     same_bodies s (fst (rd s ident)) \<and> I (fst (rd s ident)))"

definition copies_of :: "segment list \<Rightarrow> string set" where
  "copies_of sgs = {cp_From c | c sg. sg \<in> set sgs \<and> sg_Copy sg = Some c \<and> is_copy sg}"

lemma segment_bytes_reads:
  assumes "reads_as I A f rd" and "reads_as J A f rd'" and "I s" "J t" "same_bodies s t"
    and "copies_of [sg] \<subseteq> A"
  shows "snd (segment_bytes rd dg fill rec sg s) = snd (segment_bytes rd' dg fill rec sg t) \<and>
    same_bodies s (fst (segment_bytes rd dg fill rec sg s)) \<and> I (fst (segment_bytes rd dg fill rec sg s)) \<and>
    same_bodies t (fst (segment_bytes rd' dg fill rec sg t)) \<and> J (fst (segment_bytes rd' dg fill rec sg t))"
proof (cases "sg_Lit sg = [] \<and> is_copy sg")
  case False
  then show ?thesis
    using assms(3,4) same_bodiesD [OF assms(5)]
    by (auto simp: segment_bytes_def is_copy_def partBytes_same [OF assms(5)] part_at_same [OF assms(5)]
        split: option.splits)
next
  case True
  then obtain c where c: "sg_Copy sg = Some c" and from_in: "cp_From c \<in> A"
    using assms(6) by (auto simp: is_copy_def copies_of_def)
  have "snd (rd s (cp_From c)) = f (cp_From c)" "same_bodies s (fst (rd s (cp_From c)))" "I (fst (rd s (cp_From c)))"
    "snd (rd' t (cp_From c)) = f (cp_From c)" "same_bodies t (fst (rd' t (cp_From c)))" "J (fst (rd' t (cp_From c)))"
    using assms(1-4) from_in by (simp_all add: reads_as_def)
  then obtain s1 t1 where "rd s (cp_From c) = (s1, f (cp_From c))" "same_bodies s s1" "I s1"
    "rd' t (cp_From c) = (t1, f (cp_From c))" "same_bodies t t1" "J t1"
    by (metis prod.collapse)
  then show ?thesis
    using True c by (cases "f (cp_From c)") (simp_all add: segment_bytes_def is_copy_def)
qed

lemma join_segments_reads:
  assumes "reads_as I A f rd" and "reads_as J A f rd'"
  shows "I s \<Longrightarrow> J t \<Longrightarrow> same_bodies s t \<Longrightarrow> copies_of sgs \<subseteq> A \<Longrightarrow>
    snd (join_segments rd dg fill rec m sgs out s) = snd (join_segments rd' dg fill rec m sgs out t) \<and>
    same_bodies s (fst (join_segments rd dg fill rec m sgs out s)) \<and>
    I (fst (join_segments rd dg fill rec m sgs out s))"
proof (induction sgs arbitrary: out s t)
  case (Cons sg sgs)
  have "copies_of [sg] \<subseteq> A" "copies_of sgs \<subseteq> A" using Cons.prems(4) by (auto simp: copies_of_def)
  obtain s1 r where 1: "segment_bytes rd dg fill rec sg s = (s1, r)" by fastforce
  obtain t1 r' where 2: "segment_bytes rd' dg fill rec sg t = (t1, r')" by fastforce
  have *: "r' = r" "same_bodies s s1" "I s1" "same_bodies t t1" "J t1"
    using segment_bytes_reads [OF assms Cons.prems(1-3) \<open>copies_of [sg] \<subseteq> A\<close>, of dg fill rec] 1 2 by simp_all
  have "same_bodies s1 t1" using *(2,4) Cons.prems(3) by (auto simp: same_bodies_def)
  from Cons.IH [OF *(3,5) this \<open>copies_of sgs \<subseteq> A\<close>] show ?case
    using * 1 2 same_bodies_trans [OF *(2)] by (cases r) simp_all
qed simp

lemma rebuild_with_reads:
  assumes "reads_as I A f rd" and "reads_as J A f rd'" and "I s" "J t" "same_bodies s t"
    and "copies_of (mf_Segments m) \<subseteq> A"
  shows "snd (rebuild_with rd dg rec m fill s) = snd (rebuild_with rd' dg rec m fill t)"
    and "same_bodies s (fst (rebuild_with rd dg rec m fill s))" and "I (fst (rebuild_with rd dg rec m fill s))"
  using join_segments_reads [OF assms(1,2) assms(3-6)] assms(3) by (simp_all add: rebuild_with_def)

section \<open>The invariant\<close>

text \<open>
  A record in its place: its manifest is what it carries, within the bounds, and every reference it makes
  is to a piece that is held and to a body added before it, one copy less deep.
\<close>

definition held_ok :: "bodies \<Rightarrow> string \<Rightarrow> held \<Rightarrow> bool" where
  "held_ok s ident h \<longleftrightarrow>
     ManifestOf (hd_Rec h) = Some (hd_M h) \<and> sr_ID (hd_Rec h) = ident \<and> ident \<noteq> [] \<and>
     0 \<le> mf_Bytes (hd_M h) \<and> mf_Bytes (hd_M h) \<le> MaxBytes \<and>
     0 \<le> mf_Depth (hd_M h) \<and> mf_Depth (hd_M h) \<le> MaxDepth \<and> hd_At h < bs_added s \<and>
     (\<forall>sg \<in> set (mf_Segments (hd_M h)). segment_ok s (hd_Rec h) (hd_M h) sg)"

definition records_ok :: "bodies \<Rightarrow> bool" where
  "records_ok s \<longleftrightarrow> (\<forall>ident h. bs_records s ident = Some h \<longrightarrow> held_ok s ident h)"

definition pieces_ok :: "(string \<Rightarrow> string) \<Rightarrow> bodies \<Rightarrow> bool" where
  "pieces_ok dg s \<longleftrightarrow> (\<forall>d a. bs_pieces s d = Some a \<longrightarrow>
     (\<exists>p. part_at s a = Some p \<and> pt_Kind p = PartData \<and> piece_digest dg p = d \<and> d \<noteq> []))"

definition tips_ok :: "bodies \<Rightarrow> bool" where
  "tips_ok s \<longleftrightarrow> distinct (bs_tipOrder s) \<and> length (bs_tipOrder s) \<le> maxTips \<and>
     dom (bs_tips s) = set (bs_tipOrder s) \<and>
     (\<forall>c ident. bs_tips s c = Some ident \<longrightarrow> bs_records s ident \<noteq> None)"

definition cache_ok :: "(string \<Rightarrow> string) \<Rightarrow> bodies \<Rightarrow> bool" where
  "cache_ok dg s \<longleftrightarrow> (\<forall>ident b. bs_cache s ident = Some b \<longrightarrow>
     bs_records s ident \<noteq> None \<and> plain_body full dg s ident = Inr b)"

definition session_ok :: "(string \<Rightarrow> string) \<Rightarrow> bodies \<Rightarrow> bool" where
  "session_ok dg s \<longleftrightarrow> records_ok s \<and> pieces_ok dg s \<and> tips_ok s \<and> cache_ok dg s"

lemma plain_body_same:
  "same_bodies s t \<Longrightarrow> plain_body n dg t ident = plain_body n dg s ident"
proof (induction n arbitrary: ident t)
  case (Suc n)
  have rd: "reads_as (same_bodies s) UNIV (plain_body n dg s) (plain_reader n dg)"
    unfolding reads_as_def fst_conv snd_conv using Suc.IH by (intro allI impI conjI) (assumption | simp)+
  have "snd (rebuild_with (plain_reader n dg) dg rec m fill s) = snd (rebuild_with (plain_reader n dg) dg rec m fill t)"
    for rec m fill
    using rebuild_with_reads(1) [OF rd rd same_bodies_refl Suc.prems Suc.prems, of m dg rec fill] by simp
  then show ?case
    by (simp only: plain_body.simps same_bodiesD(1) [OF Suc.prems] removedBody_same [OF Suc.prems])
qed simp

lemma rebuild_plain_same:
  assumes "same_bodies s t"
  shows "snd (rebuild_with (plain_reader n dg) dg rec m fill t) = snd (rebuild_with (plain_reader n dg) dg rec m fill s)"
proof -
  have rd: "reads_as (same_bodies s) UNIV (plain_body n dg s) (plain_reader n dg)"
    unfolding reads_as_def fst_conv snd_conv using plain_body_same by (intro allI impI conjI) (assumption | simp)+
  show ?thesis
    using rebuild_with_reads(1) [OF rd rd same_bodies_refl assms assms, of m dg rec fill] by simp
qed

text \<open>A body of a well-formed session reads the bodies it copies from, which are one copy less deep.\<close>

definition shallow :: "bodies \<Rightarrow> nat \<Rightarrow> string set" where
  "shallow s n = {ident. \<exists>h. bs_records s ident = Some h \<and> nat (mf_Depth (hd_M h)) < n}"

lemma copies_shallow:
  assumes "list_all (segment_ok s rec m) sgs" and "0 \<le> mf_Depth m" and "nat (mf_Depth m) \<le> n"
    and "\<And>ident h. bs_records s ident = Some h \<Longrightarrow> 0 \<le> mf_Depth (hd_M h)"
  shows "copies_of sgs \<subseteq> shallow s n"
proof
  fix ident assume "ident \<in> copies_of sgs"
  then obtain sg c where "sg \<in> set sgs" "sg_Copy sg = Some c" "is_copy sg" "ident = cp_From c"
    by (auto simp: copies_of_def)
  then have "segment_ok s rec m sg" using assms(1) by (simp add: list_all_iff)
  then obtain h where "bs_records s ident = Some h" "mf_Depth m = mf_Depth (hd_M h) + 1"
    using \<open>sg_Copy sg = Some c\<close> \<open>is_copy sg\<close> \<open>ident = cp_From c\<close>
    by (auto simp: segment_ok_def is_copy_def split: option.splits)
  moreover from this assms(4) have "0 \<le> mf_Depth (hd_M h)" by blast
  ultimately show "ident \<in> shallow s n" using assms(3) by (auto simp: shallow_def)
qed

lemma records_ok_copies:
  assumes "records_ok s" and "bs_records s ident = Some h" and "nat (mf_Depth (hd_M h)) \<le> n"
  shows "copies_of (mf_Segments (hd_M h)) \<subseteq> shallow s n"
proof (rule copies_shallow)
  show "list_all (segment_ok s (hd_Rec h) (hd_M h)) (mf_Segments (hd_M h))" "0 \<le> mf_Depth (hd_M h)"
    using assms(1,2) by (auto simp: records_ok_def held_ok_def list_all_iff)
  show "nat (mf_Depth (hd_M h)) \<le> n" by (rule assms(3))
  show "bs_records s i = Some g \<Longrightarrow> 0 \<le> mf_Depth (hd_M g)" for i g
    using assms(1) by (auto simp: records_ok_def held_ok_def)
qed

text \<open>Fuel beyond the depth changes nothing.\<close>

lemma plain_body_fuel:
  assumes "records_ok s"
  shows "ident \<in> shallow s n \<Longrightarrow> n \<le> k \<Longrightarrow> plain_body k dg s ident = plain_body n dg s ident"
proof (induction n arbitrary: ident k)
  case 0
  then show ?case by (simp add: shallow_def)
next
  case (Suc n)
  then obtain j where k: "k = Suc j" and "n \<le> j" by (cases k) auto
  obtain h where h: "bs_records s ident = Some h" and depth: "nat (mf_Depth (hd_M h)) \<le> n"
    using Suc.prems(1) by (auto simp: shallow_def)
  note copies = records_ok_copies [OF assms h depth]
  have rd: "reads_as ((=) s) (shallow s n) (plain_body n dg s) (plain_reader j dg)"
    "reads_as ((=) s) (shallow s n) (plain_body n dg s) (plain_reader n dg)"
    unfolding reads_as_def fst_conv snd_conv using Suc.IH [OF _ \<open>n \<le> j\<close>]
    by (intro allI impI conjI; (assumption | simp only: same_bodies_refl))+
  have "snd (rebuild_with (plain_reader j dg) dg (hd_Rec h) (hd_M h) (\<lambda>_. None) s) =
      snd (rebuild_with (plain_reader n dg) dg (hd_Rec h) (hd_M h) (\<lambda>_. None) s)"
    by (rule rebuild_with_reads(1) [OF rd _ _ _ copies]) simp_all
  then show ?case by (simp add: k h)
qed

lemma shallow_full: "records_ok s \<Longrightarrow> bs_records s ident = Some h \<Longrightarrow> ident \<in> shallow s full"
proof -
  assume "records_ok s" and h: "bs_records s ident = Some h"
  then have "mf_Depth (hd_M h) \<le> 32" by (simp add: records_ok_def held_ok_def MaxDepth_def)
  then have "nat (mf_Depth (hd_M h)) < 33" by linarith
  with h show ?thesis by (simp add: shallow_def full_def MaxDepth_def)
qed

lemma plain_body_full:
  "records_ok s \<Longrightarrow> ident \<in> shallow s n \<Longrightarrow> n \<le> full \<Longrightarrow> plain_body n dg s ident = plain_body full dg s ident"
  using plain_body_fuel by metis

section \<open>The cache changes nothing\<close>

lemma records_ok_same:
  assumes "same_bodies s t"
  shows "records_ok t = records_ok s"
  unfolding records_ok_def held_ok_def segment_ok_def hasPiece_def same_bodiesD [OF assms] ..

lemma evict_sub: "fst (evict cache order n) ident = Some b \<Longrightarrow> cache ident = Some b"
  by (induction cache order n rule: evict.induct) (auto split: if_splits)

lemma remember_cache:
  assumes "cache_ok dg s" and "bs_records s ident \<noteq> None" and "plain_body full dg s ident = Inr b"
  shows "cache_ok dg (remember ident b s)"
proof -
  let ?s = "remember ident b s"
  have sub: "bs_cache ?s i = Some x \<Longrightarrow> ((bs_cache s)(ident \<mapsto> b)) i = Some x" for i x
    using evict_sub [of "(bs_cache s)(ident \<mapsto> b)" "bs_cacheOrder s @ [ident]" "bs_cacheBytes s + int (length b)" i x]
    by (auto simp: remember_def split: prod.splits)
  show ?thesis
    unfolding cache_ok_def plain_body_same [OF remember_same] same_bodiesD(1) [OF remember_same]
  proof (intro allI impI)
    fix i x assume "bs_cache ?s i = Some x"
    from sub [OF this] assms show "bs_records s i \<noteq> None \<and> plain_body full dg s i = Inr x"
      by (cases "i = ident") (auto simp: cache_ok_def)
  qed
qed

lemma body_reads:
  assumes "records_ok s"
  shows "n \<le> full \<Longrightarrow> reads_as (\<lambda>t. same_bodies s t \<and> cache_ok dg t) (shallow s n) (plain_body full dg s) (body n dg)"
proof (induction n)
  case 0
  then show ?case by (simp add: reads_as_def shallow_def)
next
  case (Suc n)
  let ?I = "\<lambda>t. same_bodies s t \<and> cache_ok dg t"
  have rd: "reads_as ?I (shallow s n) (plain_body full dg s) (body n dg)" using Suc by simp
  have plain: "reads_as ((=) s) (shallow s n) (plain_body full dg s) (plain_reader n dg)"
    using plain_body_full [OF assms] Suc.prems by (auto simp: reads_as_def)
  show ?case
    unfolding reads_as_def
  proof (intro allI impI)
    fix t ident assume I: "?I t" and ident: "ident \<in> shallow s (Suc n)"
    then obtain h where h: "bs_records s ident = Some h" and depth: "nat (mf_Depth (hd_M h)) \<le> n"
      by (auto simp: shallow_def)
    have recs: "bs_records t = bs_records s" using I same_bodiesD(1) by blast
    show "snd (body (Suc n) dg t ident) = plain_body full dg s ident \<and>
        same_bodies t (fst (body (Suc n) dg t ident)) \<and> ?I (fst (body (Suc n) dg t ident))"
    proof (cases "bs_cache t ident")
      case (Some b)
      then have "plain_body full dg t ident = Inr b" using I by (simp add: cache_ok_def)
      with Some I show ?thesis using plain_body_same [of s t full dg ident] by simp
    next
      case None
      have fuel: "plain_body (Suc n) dg s ident = plain_body full dg s ident"
        by (rule plain_body_full [OF assms ident Suc.prems])
      define r where "r = (if hd_Removed h then (t, removedBody dg t h)
          else rebuild_with (body n dg) dg (hd_Rec h) (hd_M h) (\<lambda>_. None) t)"
      have "snd r = plain_body (Suc n) dg s ident \<and> same_bodies t (fst r) \<and> ?I (fst r)"
      proof (cases "hd_Removed h")
        case True
        then show ?thesis using I h by (simp add: r_def removedBody_same [of s t])
      next
        case False
        have "same_bodies t s" using I same_bodies_sym by blast
        note read = rebuild_with_reads [OF rd plain _ refl this records_ok_copies [OF assms h depth],
            of dg "hd_Rec h" "\<lambda>_. None"]
        show ?thesis using read I False h by (simp add: r_def)
      qed
      then have r: "snd r = plain_body full dg s ident" "same_bodies t (fst r)" "?I (fst r)" using fuel by simp_all
      have step: "body (Suc n) dg t ident =
          (case r of (s1, Inl e) \<Rightarrow> (s1, Inl e) | (s1, Inr b) \<Rightarrow> (remember ident b s1, Inr b))"
        using None h by (simp add: recs r_def)
      show ?thesis
      proof (cases "snd r")
        case (Inl e)
        then have "body (Suc n) dg t ident = r" using step by (cases r) simp
        then show ?thesis using r by simp
      next
        case (Inr b)
        have keep: "cache_ok dg (remember ident b (fst r))"
        proof (rule remember_cache)
          show "cache_ok dg (fst r)" using r(3) by simp
          show "bs_records (fst r) ident \<noteq> None" using r(3) h same_bodiesD(1) [of s "fst r"] by simp
          show "plain_body full dg (fst r) ident = Inr b"
            using r(1,3) Inr plain_body_same [of s "fst r" full dg ident] by simp
        qed
        have "same_bodies t (remember ident b (fst r))" "same_bodies s (remember ident b (fst r))"
          using r(2,3) same_bodies_trans remember_same by blast+
        moreover have "body (Suc n) dg t ident = (remember ident b (fst r), Inr b)"
          using step Inr by (cases r) simp
        ultimately show ?thesis using keep Inr r(1) by simp
      qed
    qed
  qed
qed

section \<open>A session that grows\<close>

definition extends :: "bodies \<Rightarrow> bodies \<Rightarrow> bool" where
  "extends s t \<longleftrightarrow> bs_records s \<subseteq>\<^sub>m bs_records t \<and> bs_pieces s \<subseteq>\<^sub>m bs_pieces t \<and> bs_store t = bs_store s \<and>
     bs_added s \<le> bs_added t"

lemma map_leD: "m \<subseteq>\<^sub>m m' \<Longrightarrow> m x = Some y \<Longrightarrow> m' x = Some y"
  by (auto simp: map_le_def dom_def)

lemma extendsD:
  assumes "extends s t"
  shows "bs_records s i = Some h \<Longrightarrow> bs_records t i = Some h" "bs_pieces s d = Some a \<Longrightarrow> bs_pieces t d = Some a"
    "bs_store t = bs_store s" "bs_added s \<le> bs_added t"
  using assms map_leD by (fastforce simp: extends_def)+

lemma extends_refl [simp]: "extends s s"
  by (simp add: extends_def)

lemma bodies_extend_trans: "extends s t \<Longrightarrow> extends t u \<Longrightarrow> extends s u"
  by (auto simp: extends_def intro: map_le_trans)

lemma same_extends: "same_bodies s t \<Longrightarrow> extends s t"
  by (simp add: extends_def same_bodiesD)

lemma part_at_extends: "extends s t \<Longrightarrow> part_at s a = Some p \<Longrightarrow> part_at t a = Some p"
  by (auto simp: part_at_def dest: extendsD(1) split: option.splits)

lemma segment_ok_extends: "extends s t \<Longrightarrow> segment_ok s rec m sg \<Longrightarrow> segment_ok t rec m sg"
  by (auto simp: segment_ok_def hasPiece_def dest: extendsD(1,2) split: option.splits if_splits)

lemma pieces_okD:
  assumes "pieces_ok dg s" and "bs_pieces s d = Some a"
  obtains p where "part_at s a = Some p" "pt_Kind p = PartData" "piece_digest dg p = d" "d \<noteq> []"
  using assms unfolding pieces_ok_def by blast

lemma partBytes_store:
  assumes "bs_store t = bs_store s"
  shows "partBytes dg t = partBytes dg s"
  unfolding partBytes_def stored_def assms ..

lemma segment_bytes_extends:
  assumes ext: "extends s t" and pieces: "pieces_ok dg s" and ok: "segment_ok s rec m sg"
    and copies: "\<And>i. i \<in> copies_of [sg] \<Longrightarrow> f s i = f t i"
  shows "snd (segment_bytes (\<lambda>s i. (s, f s i)) dg fill rec sg s) = snd (segment_bytes (\<lambda>s i. (s, f s i)) dg fill rec sg t)"
proof (cases "sg_Lit sg = [] \<and> sg_Part sg = None \<and> sg_Piece sg \<noteq> []")
  case True
  then obtain a where a: "bs_pieces s (sg_Piece sg) = Some a"
    using ok by (auto simp: segment_ok_def hasPiece_def)
  then obtain p where p: "part_at s a = Some p" using pieces by (elim pieces_okD)
  show ?thesis
    using True a p extendsD(2) [OF ext a] part_at_extends [OF ext p]
    by (simp add: segment_bytes_def partBytes_store [OF extendsD(3) [OF ext]])
next
  case False
  have "f s (cp_From c) = f t (cp_From c)"
    if "sg_Copy sg = Some c" "sg_Lit sg = []" "sg_Part sg = None" for c
    using copies [of "cp_From c"] that False by (auto simp: copies_of_def is_copy_def)
  then show ?thesis
    using False by (auto simp: segment_bytes_def partBytes_store [OF extendsD(3) [OF ext]]
        split: option.split sum.split)
qed

lemma segment_bytes_stays: "fst (segment_bytes (\<lambda>s i. (s, f s i)) dg fill rec sg s) = s"
  by (auto simp: segment_bytes_def split: option.split sum.split)

lemma join_segments_extends:
  assumes ext: "extends s t" and pieces: "pieces_ok dg s"
  shows "list_all (segment_ok s rec m) sgs \<Longrightarrow> (\<And>i. i \<in> copies_of sgs \<Longrightarrow> f s i = f t i) \<Longrightarrow>
    snd (join_segments (\<lambda>s i. (s, f s i)) dg fill rec m' sgs out s) =
    snd (join_segments (\<lambda>s i. (s, f s i)) dg fill rec m' sgs out t)"
proof (induction sgs arbitrary: out)
  case (Cons sg sgs)
  let ?rd = "\<lambda>s i. (s, f s i)"
  have "copies_of [sg] \<subseteq> copies_of (sg # sgs)" "copies_of sgs \<subseteq> copies_of (sg # sgs)"
    by (auto simp: copies_of_def)
  then have one: "snd (segment_bytes ?rd dg fill rec sg s) = snd (segment_bytes ?rd dg fill rec sg t)"
    using segment_bytes_extends [OF ext pieces, of rec m sg f fill] Cons.prems by auto
  have rest: "snd (join_segments ?rd dg fill rec m' sgs x s) = snd (join_segments ?rd dg fill rec m' sgs x t)" for x
    by (rule Cons.IH) (use Cons.prems \<open>copies_of sgs \<subseteq> copies_of (sg # sgs)\<close> in auto)
  obtain r where r: "r = snd (segment_bytes ?rd dg fill rec sg t)" by simp
  have "segment_bytes ?rd dg fill rec sg s = (s, r)" "segment_bytes ?rd dg fill rec sg t = (t, r)"
    using one by (simp_all add: prod_eq_iff segment_bytes_stays r)
  then show ?case using rest by (cases r) simp_all
qed simp

lemma rebuild_plain_extends:
  assumes "extends s t" and "pieces_ok dg s" and "list_all (segment_ok s rec m) (mf_Segments m)"
    and "\<And>i. i \<in> copies_of (mf_Segments m) \<Longrightarrow> plain_body n dg s i = plain_body n dg t i"
  shows "snd (rebuild_with (plain_reader n dg) dg rec m fill s) = snd (rebuild_with (plain_reader n dg) dg rec m fill t)"
  using join_segments_extends [OF assms(1-3), of "plain_body n dg"] assms(4) by (simp add: rebuild_with_def)

lemma removedBody_extends:
  assumes ext: "extends s t" and pieces: "pieces_ok dg s"
    and ok: "list_all (segment_ok s (hd_Rec h) (hd_M h)) (mf_Segments (hd_M h))"
  shows "removedBody dg s h = removedBody dg t h"
proof -
  have "cited_part t (hd_Rec h) sg = cited_part s (hd_Rec h) sg" if "sg \<in> set (mf_Segments (hd_M h))" for sg
  proof -
    have sg: "segment_ok s (hd_Rec h) (hd_M h) sg" using ok that by (simp add: list_all_iff)
    have "Option.bind (bs_pieces t (sg_Piece sg)) (part_at t) = Option.bind (bs_pieces s (sg_Piece sg)) (part_at s)"
      if piece: "sg_Part sg = None" "sg_Piece sg \<noteq> []"
    proof -
      obtain a where a: "bs_pieces s (sg_Piece sg) = Some a"
        using sg piece by (auto simp: segment_ok_def hasPiece_def)
      obtain p where "part_at s a = Some p" using pieces a by (elim pieces_okD)
      then show ?thesis using a extendsD(2) [OF ext a] part_at_extends [OF ext] by simp
    qed
    with sg show ?thesis by (auto simp: cited_part_def segment_ok_def split: option.splits)
  qed
  then have cites: "(\<exists>sg \<in> set (mf_Segments (hd_M h)). P (cited_part t (hd_Rec h) sg)) \<longleftrightarrow>
      (\<exists>sg \<in> set (mf_Segments (hd_M h)). P (cited_part s (hd_Rec h) sg))" for P
    by auto
  show ?thesis
    unfolding removedBody_def stored_def extendsD(3) [OF ext]
      cites [of "case_option False (\<lambda>p. pt_State p = ContentTooLarge)"] ..
qed

lemma records_ok_segments:
  "records_ok s \<Longrightarrow> bs_records s i = Some h \<Longrightarrow> list_all (segment_ok s (hd_Rec h) (hd_M h)) (mf_Segments (hd_M h))"
  by (auto simp: records_ok_def held_ok_def list_all_iff)

lemma plain_body_extends:
  assumes ext: "extends s t" and recs: "records_ok s" and pieces: "pieces_ok dg s"
  shows "i \<in> shallow s n \<Longrightarrow> plain_body n dg s i = plain_body n dg t i"
proof (induction n arbitrary: i)
  case (Suc n)
  obtain h where h: "bs_records s i = Some h" "nat (mf_Depth (hd_M h)) \<le> n"
    using Suc.prems by (auto simp: shallow_def)
  note segs = records_ok_segments [OF recs h(1)]
  have "plain_body n dg s j = plain_body n dg t j" if "j \<in> copies_of (mf_Segments (hd_M h))" for j
    using Suc.IH records_ok_copies [OF recs h] that by blast
  then show ?case
    using rebuild_plain_extends [OF ext pieces segs] removedBody_extends [OF ext pieces segs] h(1) extendsD(1) [OF ext h(1)]
    by simp
qed (simp add: shallow_def)

section \<open>Adding keeps the invariant\<close>

lemma add_pieces_fields [simp]:
  "bs_records (add_pieces dg ident k ps s) = bs_records s" "bs_store (add_pieces dg ident k ps s) = bs_store s"
  "bs_tips (add_pieces dg ident k ps s) = bs_tips s" "bs_tipOrder (add_pieces dg ident k ps s) = bs_tipOrder s"
  "bs_cache (add_pieces dg ident k ps s) = bs_cache s" "bs_added (add_pieces dg ident k ps s) = bs_added s"
  by (induction ps arbitrary: k s) (simp_all add: Let_def)

lemma add_pieces_keeps: "bs_pieces s d = Some a \<Longrightarrow> bs_pieces (add_pieces dg ident k ps s) d = Some a"
proof (induction ps arbitrary: k s)
  case (Cons p ps)
  have "hasPiece s d" using Cons.prems by (simp add: hasPiece_def)
  then have "bs_pieces (if pt_Kind p = PartData \<and> piece_digest dg p \<noteq> [] \<and> \<not> hasPiece s (piece_digest dg p)
     then s\<lparr>bs_pieces := (bs_pieces s)(piece_digest dg p \<mapsto> (ident, k))\<rparr> else s) d = Some a"
    using Cons.prems by (cases "d = piece_digest dg p") simp_all
  from Cons.IH [OF this] show ?case by (simp add: Let_def)
qed simp

lemma add_pieces_new:
  "bs_pieces (add_pieces dg ident k ps s) d = Some a \<Longrightarrow>
     bs_pieces s d = Some a \<or>
     (\<exists>j < length ps. a = (ident, k + j) \<and> pt_Kind (ps ! j) = PartData \<and> piece_digest dg (ps ! j) = d \<and> d \<noteq> [])"
proof (induction ps arbitrary: k s)
  case (Cons p ps)
  let ?s = "if pt_Kind p = PartData \<and> piece_digest dg p \<noteq> [] \<and> \<not> hasPiece s (piece_digest dg p)
     then s\<lparr>bs_pieces := (bs_pieces s)(piece_digest dg p \<mapsto> (ident, k))\<rparr> else s"
  from Cons.prems have "bs_pieces (add_pieces dg ident (Suc k) ps ?s) d = Some a" by (simp add: Let_def)
  from Cons.IH [OF this] show ?case
  proof
    assume "bs_pieces ?s d = Some a"
    then have "bs_pieces s d = Some a \<or> (a = (ident, k) \<and> pt_Kind p = PartData \<and> piece_digest dg p = d \<and> d \<noteq> [])"
      by (cases "d = piece_digest dg p") (auto split: if_splits)
    then show ?thesis
    proof
      assume "a = (ident, k) \<and> pt_Kind p = PartData \<and> piece_digest dg p = d \<and> d \<noteq> []"
      then show ?thesis by (intro disjI2 exI [of _ 0]) simp
    qed simp
  next
    assume "\<exists>j < length ps. a = (ident, Suc k + j) \<and> pt_Kind (ps ! j) = PartData \<and>
        piece_digest dg (ps ! j) = d \<and> d \<noteq> []"
    then obtain j where "j < length ps" "a = (ident, Suc k + j)" "pt_Kind (ps ! j) = PartData"
      "piece_digest dg (ps ! j) = d" "d \<noteq> []" by blast
    then show ?thesis by (intro disjI2 exI [of _ "Suc j"]) simp
  qed
qed simp

lemma keep_pieces_fields [simp]:
  "bs_records (fold (keep_piece ident) sgs s) = bs_records s" "bs_pieces (fold (keep_piece ident) sgs s) = bs_pieces s"
  "bs_store (fold (keep_piece ident) sgs s) = bs_store s" "bs_tips (fold (keep_piece ident) sgs s) = bs_tips s"
  "bs_tipOrder (fold (keep_piece ident) sgs s) = bs_tipOrder s" "bs_cache (fold (keep_piece ident) sgs s) = bs_cache s"
  "bs_added (fold (keep_piece ident) sgs s) = bs_added s"
  by (induction sgs arbitrary: s) (simp_all add: keep_piece_def)

lemma setTip_fields [simp]:
  "bs_records (setTip c ident s) = bs_records s" "bs_pieces (setTip c ident s) = bs_pieces s"
  "bs_store (setTip c ident s) = bs_store s" "bs_cache (setTip c ident s) = bs_cache s"
  "bs_added (setTip c ident s) = bs_added s"
  by (simp_all add: setTip_def Let_def)

lemma setTip_ok:
  assumes "tips_ok s" and "bs_records s ident \<noteq> None"
  shows "tips_ok (setTip c ident s)"
proof -
  define order where "order = (if bs_tips s c \<noteq> None then remove1 c (bs_tipOrder s) else bs_tipOrder s) @ [c]"
  have t: "distinct (bs_tipOrder s)" "length (bs_tipOrder s) \<le> maxTips" "dom (bs_tips s) = set (bs_tipOrder s)"
    using assms(1) by (auto simp: tips_ok_def)
  have mem: "bs_tips s c \<noteq> None \<longleftrightarrow> c \<in> set (bs_tipOrder s)" using t(3) by (auto simp: dom_def)
  have order: "distinct order" "set order = insert c (dom (bs_tips s))" "order \<noteq> []"
    using t mem by (auto simp: order_def distinct_remove1 set_remove1_eq)
  have "length (remove1 c (bs_tipOrder s)) \<le> length (bs_tipOrder s)" by (simp add: length_remove1)
  then have len: "length order \<le> Suc maxTips" using t(2) le_trans by (auto simp: order_def)
  show ?thesis
  proof (cases "length order > maxTips")
    case False
    then have "setTip c ident s = s\<lparr>bs_tips := (bs_tips s)(c \<mapsto> ident), bs_tipOrder := order\<rparr>"
      by (simp add: setTip_def Let_def order_def)
    then show ?thesis using assms order False by (auto simp: tips_ok_def)
  next
    case True
    then have set: "setTip c ident s = s\<lparr>bs_tips := ((bs_tips s)(c \<mapsto> ident))(hd order := None), bs_tipOrder := tl order\<rparr>"
      by (simp add: setTip_def Let_def order_def)
    obtain x xs where xs: "order = x # xs" using order(3) by (cases order) auto
    with order have "dom (((bs_tips s)(c \<mapsto> ident))(x := None)) = set xs" by auto
    then show ?thesis using assms order xs len by (auto simp: tips_ok_def set split: if_splits)
  qed
qed

definition stored_record :: "(string \<Rightarrow> string) \<Rightarrow> sd_record \<Rightarrow> manifest \<Rightarrow> bool \<Rightarrow> bodies \<Rightarrow> bodies" where
  "stored_record dg rec m removed s =
     add_pieces dg (sr_ID rec) 0 (own_parts rec)
       (s\<lparr>bs_records := (bs_records s)(sr_ID rec \<mapsto>
            \<lparr>hd_Rec = rec, hd_M = m, hd_Removed = removed, hd_At = bs_added s\<rparr>), bs_added := bs_added s + 1\<rparr>)"

lemma place_record_fields:
  "bs_records (place_record dg rec m removed s) = bs_records (stored_record dg rec m removed s)"
  "bs_pieces (place_record dg rec m removed s) = bs_pieces (stored_record dg rec m removed s)"
  "bs_store (place_record dg rec m removed s) = bs_store s"
  "bs_cache (place_record dg rec m removed s) = bs_cache s"
  "bs_added (place_record dg rec m removed s) = bs_added s + 1"
  "bs_records (stored_record dg rec m removed s) = (bs_records s)(sr_ID rec \<mapsto>
     \<lparr>hd_Rec = rec, hd_M = m, hd_Removed = removed, hd_At = bs_added s\<rparr>)"
  by (simp_all add: place_record_def stored_record_def Let_def)

lemma place_record_extends:
  assumes "bs_records s (sr_ID rec) = None"
  shows "extends s (place_record dg rec m removed s)"
proof -
  have "bs_pieces s d = Some a \<Longrightarrow> bs_pieces (place_record dg rec m removed s) d = Some a" for d a
    unfolding place_record_fields stored_record_def by (rule add_pieces_keeps) simp
  then have "bs_pieces s \<subseteq>\<^sub>m bs_pieces (place_record dg rec m removed s)" by (auto simp: map_le_def dom_def)
  moreover have "bs_records s \<subseteq>\<^sub>m bs_records (place_record dg rec m removed s)"
    using assms by (auto simp: place_record_fields map_le_def)
  ultimately show ?thesis by (simp add: extends_def place_record_fields)
qed

lemma checked_held:
  assumes "checked_record s rec m strict skeleton" and "ManifestOf rec = Some m" and "extends s t" and "bs_added s < bs_added t"
  shows "held_ok t (sr_ID rec) \<lparr>hd_Rec = rec, hd_M = m, hd_Removed = removed, hd_At = bs_added s\<rparr>"
  using assms by (auto simp: held_ok_def checked_record_def list_all_iff segment_ok_extends)

lemma held_ok_extends: "held_ok s i h \<Longrightarrow> extends s t \<Longrightarrow> held_ok t i h"
  by (auto simp: held_ok_def segment_ok_extends dest: extendsD(4))

lemma place_record_ok:
  assumes ok: "session_ok dg s" and rec: "checked_record s rec m strict skeleton" "ManifestOf rec = Some m"
    and fresh: "bs_records s (sr_ID rec) = None"
  shows "session_ok dg (place_record dg rec m removed s)"
proof -
  let ?t = "place_record dg rec m removed s"
  note ext = place_record_extends [OF fresh, of dg m removed]
  have recs: "records_ok s" and pieces: "pieces_ok dg s" and tips: "tips_ok s" and cache: "cache_ok dg s"
    using ok by (simp_all add: session_ok_def)
  have "records_ok ?t"
    unfolding records_ok_def
  proof (intro allI impI)
    fix i h assume h: "bs_records ?t i = Some h"
    show "held_ok ?t i h"
    proof (cases "i = sr_ID rec")
      case True
      then show ?thesis using h checked_held [OF rec ext, of removed] by (simp add: place_record_fields)
    next
      case False
      then have "bs_records s i = Some h" using h by (simp add: place_record_fields)
      then have "held_ok s i h" using recs by (simp add: records_ok_def)
      then show ?thesis using ext by (rule held_ok_extends)
    qed
  qed
  moreover have "pieces_ok dg ?t"
    unfolding pieces_ok_def
  proof (intro allI impI)
    fix d a assume "bs_pieces ?t d = Some a"
    from add_pieces_new [OF this [unfolded place_record_fields stored_record_def]]
    consider "bs_pieces s d = Some a"
      | j where "j < length (own_parts rec)" "a = (sr_ID rec, j)" "pt_Kind (own_parts rec ! j) = PartData"
        "piece_digest dg (own_parts rec ! j) = d" "d \<noteq> []"
      by (elim disjE exE conjE) simp_all
    then show "\<exists>p. part_at ?t a = Some p \<and> pt_Kind p = PartData \<and> piece_digest dg p = d \<and> d \<noteq> []"
    proof cases
      case 1
      then show ?thesis using pieces part_at_extends [OF ext] unfolding pieces_ok_def by blast
    next
      case 2
      then have "part_at ?t a = Some (own_parts rec ! j)"
        by (simp add: part_at_def place_record_fields own_parts_def nth_butlast)
      with 2 show ?thesis by blast
    qed
  qed
  moreover have "tips_ok ?t"
  proof -
    have base: "tips_ok (stored_record dg rec m removed s)"
      using tips by (auto simp: tips_ok_def stored_record_def)
    let ?u = "if removed then stored_record dg rec m removed s
        else fold (keep_piece (sr_ID rec)) (mf_Segments m) (stored_record dg rec m removed s)"
    have "tips_ok ?u" using base by (cases removed) (simp_all add: tips_ok_def)
    moreover have "bs_records ?u (sr_ID rec) \<noteq> None" by (simp add: place_record_fields)
    moreover have "?t = (if mf_Role m = PB_RoleRequest \<and> mf_Chain m \<noteq> [] then setTip (mf_Chain m) (sr_ID rec) ?u else ?u)"
      by (simp add: place_record_def stored_record_def Let_def)
    ultimately show ?thesis using setTip_ok by simp
  qed
  moreover have "cache_ok dg ?t"
    unfolding cache_ok_def place_record_fields(4)
  proof (intro allI impI)
    fix i b assume "bs_cache s i = Some b"
    then obtain h where "bs_records s i = Some h" "plain_body full dg s i = Inr b" using cache by (auto simp: cache_ok_def)
    then show "bs_records ?t i \<noteq> None \<and> plain_body full dg ?t i = Inr b"
      using plain_body_extends [OF ext recs pieces shallow_full [OF recs]] extendsD(1) [OF ext] by fastforce
  qed
  ultimately show ?thesis by (simp add: session_ok_def)
qed

section \<open>Rebuilding ends, and gives what the record claims\<close>

definition sound :: "string body_result \<Rightarrow> bool" where
  "sound r \<longleftrightarrow> r \<noteq> Inl Unending \<and> r \<noteq> Inl Panics"

lemma stored_sound: "sound (stored dg s got sha)"
  by (auto simp: stored_def sound_def split: option.split kept.split)

lemma partBytes_sound: "sound (partBytes dg s p fill)"
  using stored_sound by (auto simp: partBytes_def sound_def split: option.split)

lemma removedBody_sound: "sound (removedBody dg s h)"
  using stored_sound [of dg s "\<lambda>st. st_Tip st (sr_ID (hd_Rec h)) (mf_SHA256 (hd_M h))" "mf_SHA256 (hd_M h)"]
  by (auto simp: removedBody_def sound_def split: sum.split body_error.split)

lemma segment_bytes_sound:
  assumes "pieces_ok dg s" and "segment_ok s rec m sg" and "\<And>i. i \<in> copies_of [sg] \<Longrightarrow> sound (f s i)"
  shows "sound (snd (segment_bytes (\<lambda>s i. (s, f s i)) dg fill rec sg s))"
proof -
  have copy: "sound (f s (cp_From c))" if "sg_Part sg = None" "sg_Piece sg = []" "sg_Copy sg = Some c" for c
    using assms(3) that by (auto simp: copies_of_def is_copy_def)
  show ?thesis
  proof (cases "sg_Lit sg = [] \<and> sg_Part sg = None")
    case False
    then show ?thesis
      using partBytes_sound by (cases "sg_Lit sg = []") (auto simp: segment_bytes_def sound_def split: if_split_asm)
  next
    case True
    show ?thesis
    proof (cases "sg_Piece sg = []")
      case False
      then obtain a where a: "bs_pieces s (sg_Piece sg) = Some a"
        using assms(2) True by (auto simp: segment_ok_def hasPiece_def)
      then obtain p where "part_at s a = Some p" using assms(1) by (elim pieces_okD)
      with a True False partBytes_sound show ?thesis by (simp add: segment_bytes_def)
    next
      case empty: True
      show ?thesis
      proof (cases "sg_Copy sg")
        case None
        with True empty show ?thesis by (simp add: segment_bytes_def sound_def)
      next
        case (Some c)
        with copy True empty have "sound (f s (cp_From c))" by blast
        with Some True empty show ?thesis
          by (cases "f s (cp_From c)") (simp_all add: segment_bytes_def sound_def)
      qed
    qed
  qed
qed

lemma join_segments_sound:
  assumes "pieces_ok dg s"
  shows "list_all (segment_ok s rec m) sgs \<Longrightarrow> (\<And>i. i \<in> copies_of sgs \<Longrightarrow> sound (f s i)) \<Longrightarrow>
    sound (snd (join_segments (\<lambda>s i. (s, f s i)) dg fill rec m' sgs out s))"
proof (induction sgs arbitrary: out)
  case Nil
  then show ?case by (simp add: sound_def)
next
  case (Cons sg sgs)
  let ?rd = "\<lambda>s i. (s, f s i)"
  have sub: "copies_of [sg] \<subseteq> copies_of (sg # sgs)" "copies_of sgs \<subseteq> copies_of (sg # sgs)"
    by (auto simp: copies_of_def)
  obtain r where r: "r = snd (segment_bytes ?rd dg fill rec sg s)" by simp
  have "sound r" unfolding r by (rule segment_bytes_sound [OF assms]) (use Cons.prems sub in auto)
  moreover have "segment_bytes ?rd dg fill rec sg s = (s, r)" by (simp add: prod_eq_iff segment_bytes_stays r)
  moreover have "sound (snd (join_segments ?rd dg fill rec m' sgs x s))" for x
    by (rule Cons.IH) (use Cons.prems sub in auto)
  moreover have "sound (Inl Refused)" by (simp add: sound_def)
  ultimately show ?case by (cases r) simp_all
qed

lemma rebuild_plain_sound:
  assumes "pieces_ok dg s" and "list_all (segment_ok s rec m) (mf_Segments m)"
    and "\<And>i. i \<in> copies_of (mf_Segments m) \<Longrightarrow> sound (plain_body n dg s i)"
  shows "sound (snd (rebuild_with (plain_reader n dg) dg rec m fill s))"
  using join_segments_sound [OF assms(1,2), of "plain_body n dg"] assms(3)
  by (simp add: rebuild_with_def) (simp add: sound_def)

lemma plain_body_sound:
  assumes recs: "records_ok s" and pieces: "pieces_ok dg s"
  shows "i \<in> shallow s n \<Longrightarrow> sound (plain_body n dg s i)"
proof (induction n arbitrary: i)
  case (Suc n)
  obtain h where h: "bs_records s i = Some h" "nat (mf_Depth (hd_M h)) \<le> n"
    using Suc.prems by (auto simp: shallow_def)
  have "sound (plain_body n dg s j)" if "j \<in> copies_of (mf_Segments (hd_M h))" for j
    using Suc.IH records_ok_copies [OF recs h] that by blast
  then show ?case
    using rebuild_plain_sound [OF pieces records_ok_segments [OF recs h(1)]] removedBody_sound h(1) by simp
qed (simp add: shallow_def)

lemma join_segments_claim:
  "snd (join_segments rd dg fill rec m sgs out s) = Inr b \<Longrightarrow> int (length b) = mf_Bytes m \<and> dg b = mf_SHA256 m"
  by (induction sgs arbitrary: out s) (auto split: prod.splits sum.splits if_splits)

lemma rebuild_with_claim:
  "snd (rebuild_with rd dg rec m fill s) = Inr b \<Longrightarrow> int (length b) = mf_Bytes m \<and> dg b = mf_SHA256 m"
  using join_segments_claim by (auto simp: rebuild_with_def split: if_splits)

lemma removedBody_claim: "removedBody dg s h = Inr b \<Longrightarrow> dg b = mf_SHA256 (hd_M h)"
  by (auto simp: removedBody_def stored_def split: sum.splits body_error.splits option.splits kept.splits if_splits)

lemma plain_body_claim:
  "plain_body n dg s i = Inr b \<Longrightarrow> \<exists>h. bs_records s i = Some h \<and> dg b = mf_SHA256 (hd_M h)"
  by (cases n) (auto dest: removedBody_claim rebuild_with_claim split: option.splits if_splits)

section \<open>Every operation keeps the invariant\<close>

lemma session_ok_same:
  assumes "session_ok dg s" and "same_bodies s t" and "cache_ok dg t"
  shows "session_ok dg t"
  using assms
  by (simp add: session_ok_def records_ok_same pieces_ok_def part_at_same same_bodiesD tips_ok_def)

lemma Body_reads:
  assumes "session_ok dg s"
  shows "snd (Body dg s ident) = (if bs_records s ident = None then Inl Refused else plain_body full dg s ident)"
    and "same_bodies s (fst (Body dg s ident))" and "session_ok dg (fst (Body dg s ident))"
proof -
  have recs: "records_ok s" and cache: "cache_ok dg s" using assms by (simp_all add: session_ok_def)
  have "snd (Body dg s ident) = (if bs_records s ident = None then Inl Refused else plain_body full dg s ident) \<and>
      same_bodies s (fst (Body dg s ident)) \<and> cache_ok dg (fst (Body dg s ident))"
  proof (cases "bs_records s ident")
    case None
    have "bs_cache s ident = None"
    proof (rule ccontr)
      assume "bs_cache s ident \<noteq> None"
      then obtain b where "bs_cache s ident = Some b" by blast
      then have "bs_records s ident \<noteq> None" using cache unfolding cache_ok_def by blast
      with None show False by simp
    qed
    with None cache show ?thesis by (simp add: Body_def full_def)
  next
    case (Some h)
    from body_reads [OF recs order_refl, of dg] shallow_full [OF recs Some] cache Some show ?thesis
      by (simp add: reads_as_def Body_def)
  qed
  then show "snd (Body dg s ident) = (if bs_records s ident = None then Inl Refused else plain_body full dg s ident)"
    and "same_bodies s (fst (Body dg s ident))" "session_ok dg (fst (Body dg s ident))"
    using session_ok_same [OF assms] by auto
qed

lemma rebuild_reads:
  assumes ok: "session_ok dg s" and segs: "list_all (segment_ok s rec m) (mf_Segments m)"
    and depth: "0 \<le> mf_Depth m" "mf_Depth m \<le> MaxDepth"
  shows "snd (rebuild dg rec m fill s) = snd (rebuild_with (plain_reader (nat MaxDepth) dg) dg rec m fill s)"
    and "same_bodies s (fst (rebuild dg rec m fill s))" and "session_ok dg (fst (rebuild dg rec m fill s))"
proof -
  have recs: "records_ok s" and cache: "cache_ok dg s" using ok by (simp_all add: session_ok_def)
  let ?I = "\<lambda>t. same_bodies s t \<and> cache_ok dg t"
  have copies: "copies_of (mf_Segments m) \<subseteq> shallow s (nat MaxDepth)"
    by (rule copies_shallow [OF segs depth(1)]) (use depth recs in \<open>auto simp: records_ok_def held_ok_def\<close>)
  have "shallow s (nat MaxDepth) \<subseteq> shallow s full" by (auto simp: shallow_def full_def)
  then have rd: "reads_as ?I (shallow s (nat MaxDepth)) (plain_body full dg s) (body full dg)"
    using body_reads [OF recs order_refl, of dg] by (auto simp: reads_as_def)
  have plain: "reads_as ((=) s) (shallow s (nat MaxDepth)) (plain_body full dg s) (plain_reader (nat MaxDepth) dg)"
    using plain_body_full [OF recs, of _ "nat MaxDepth" dg] by (auto simp: reads_as_def full_def)
  note read = rebuild_with_reads [OF rd plain _ refl same_bodies_refl copies, of dg rec fill]
  show "snd (rebuild dg rec m fill s) = snd (rebuild_with (plain_reader (nat MaxDepth) dg) dg rec m fill s)"
    and "same_bodies s (fst (rebuild dg rec m fill s))"
    using read cache by (simp_all add: rebuild_def)
  show "session_ok dg (fst (rebuild dg rec m fill s))"
    using session_ok_same [OF ok, of "fst (rebuild dg rec m fill s)"] read cache by (simp add: rebuild_def)
qed

lemma checked_record_segs:
  "checked_record s rec m strict skeleton \<Longrightarrow>
     list_all (segment_ok s rec m) (mf_Segments m) \<and> 0 \<le> mf_Depth m \<and> mf_Depth m \<le> MaxDepth"
  by (simp add: checked_record_def)

lemma checked_record_same:
  assumes "same_bodies s t"
  shows "checked_record t rec m strict skeleton = checked_record s rec m strict skeleton"
  unfolding checked_record_def segment_ok_def hasPiece_def same_bodiesD [OF assms] ..

text \<open>A record rebuilt before it is placed reads, once it is placed, as it was rebuilt.\<close>

lemma placed_reads:
  assumes ok: "session_ok dg s" and rec: "checked_record s rec m strict skeleton" "ManifestOf rec = Some m"
    and fresh: "bs_records s (sr_ID rec) = None" and not_removed: "\<not> removed"
  shows "plain_body full dg (place_record dg rec m removed s) (sr_ID rec) =
      snd (rebuild_with (plain_reader (nat MaxDepth) dg) dg rec m (\<lambda>_. None) s)"
proof -
  let ?t = "place_record dg rec m removed s"
  have recs: "records_ok s" and pieces: "pieces_ok dg s" using ok by (simp_all add: session_ok_def)
  note segs = checked_record_segs [OF rec(1)]
  note ext = place_record_extends [OF fresh, of dg m removed]
  have "copies_of (mf_Segments m) \<subseteq> shallow s (nat MaxDepth)"
    by (rule copies_shallow [OF conjunct1 [OF segs]])
      (use segs recs in \<open>auto simp: records_ok_def held_ok_def nat_mono\<close>)
  then have "plain_body (nat MaxDepth) dg s i = plain_body (nat MaxDepth) dg ?t i"
    if "i \<in> copies_of (mf_Segments m)" for i
    using plain_body_extends [OF ext recs pieces] that by blast
  from rebuild_plain_extends [OF ext pieces conjunct1 [OF segs] this, of "\<lambda>_. None"] show ?thesis
    using not_removed by (simp add: full_def place_record_fields)
qed

lemma add_new_ok:
  assumes ok: "session_ok dg s" and rec: "checked_record s rec m strict skeleton" "ManifestOf rec = Some m"
    and fresh: "bs_records s (sr_ID rec) = None"
  shows "session_ok dg (fst (add_new dg rec m removed strict s)) \<and> extends s (fst (add_new dg rec m removed strict s))"
proof (cases "strict \<and> \<not> removed")
  case False
  then have "fst (add_new dg rec m removed strict s) = place_record dg rec m removed s" by (auto simp: add_new_def)
  then show ?thesis using place_record_ok [OF ok rec fresh] place_record_extends [OF fresh] by simp
next
  case True
  note segs = checked_record_segs [OF rec(1)]
  note read = rebuild_reads [OF ok conjunct1 [OF segs] conjunct1 [OF conjunct2 [OF segs]] conjunct2 [OF conjunct2 [OF segs]],
      of "\<lambda>_. None"]
  obtain s1 r where 1: "rebuild dg rec m (\<lambda>_. None) s = (s1, r)" by fastforce
  have same: "same_bodies s s1" and ok1: "session_ok dg s1" using read 1 by simp_all
  have rec1: "checked_record s1 rec m strict skeleton" using rec(1) by (simp add: checked_record_same [OF same])
  have fresh1: "bs_records s1 (sr_ID rec) = None" using fresh by (simp add: same_bodiesD [OF same])
  let ?t = "place_record dg rec m removed s1"
  have placed: "session_ok dg ?t" "extends s ?t"
    using place_record_ok [OF ok1 rec1 rec(2) fresh1] place_record_extends [OF fresh1]
      bodies_extend_trans [OF same_extends [OF same]] by simp_all
  show ?thesis
  proof (cases r)
    case (Inl e)
    then show ?thesis using True 1 placed ok1 same_extends [OF same] by (simp add: add_new_def)
  next
    case (Inr b)
    have "snd (rebuild_with (plain_reader (nat MaxDepth) dg) dg rec m (\<lambda>_. None) s1) = Inr b"
      using rebuild_plain_same [OF same] read(1) 1 Inr by simp
    then have "plain_body full dg ?t (sr_ID rec) = Inr b"
      using placed_reads [OF ok1 rec1 rec(2) fresh1 conjunct2 [OF True]] by simp
    moreover have "cache_ok dg ?t" using placed(1) by (simp add: session_ok_def)
    moreover have "bs_records ?t (sr_ID rec) \<noteq> None" by (simp add: place_record_fields)
    ultimately have "cache_ok dg (remember (sr_ID rec) b ?t)" using remember_cache by blast
    then have "session_ok dg (remember (sr_ID rec) b ?t)"
      using session_ok_same [OF placed(1) remember_same] by blast
    then show ?thesis
      using True 1 Inr placed(2) bodies_extend_trans [OF _ same_extends [OF remember_same]] by (simp add: add_new_def)
  qed
qed

lemma add_repeat_ok:
  assumes ok: "session_ok dg s" and rec: "checked_record s rec m strict skeleton"
  shows "session_ok dg (fst (add_repeat dg rec m removed strict s)) \<and> extends s (fst (add_repeat dg rec m removed strict s))"
proof -
  note segs = checked_record_segs [OF rec]
  note read = rebuild_reads [OF ok conjunct1 [OF segs] conjunct1 [OF conjunct2 [OF segs]] conjunct2 [OF conjunct2 [OF segs]],
      of "\<lambda>_. None"]
  then show ?thesis
    using ok same_extends [OF read(2)] by (auto simp: add_repeat_def split: prod.splits sum.splits)
qed

lemma add_ok:
  assumes "session_ok dg s"
  shows "session_ok dg (fst (add dg rec strict skeleton s)) \<and> extends s (fst (add dg rec strict skeleton s))"
proof (cases "ManifestOf rec")
  case None
  then show ?thesis using assms by (simp add: add_def)
next
  case (Some m)
  then show ?thesis
    using assms add_new_ok [OF assms, of rec m strict skeleton] add_repeat_ok [OF assms, of rec m strict skeleton]
    by (auto simp: add_def Let_def split: option.splits)
qed

section \<open>Sessions that are reached\<close>

text \<open>A session starts empty, with a budget and a store that do not change, and takes the operations in any
  order and number. \<open>BodyFrom\<close> takes any source.\<close>

inductive reached :: "(string \<Rightarrow> string) \<Rightarrow> bodies \<Rightarrow> bool" for dg where
  start: "reached dg (Budget budget NewSession)"
| start_store: "reached dg (Use st (Budget budget NewSession))"
| adding: "reached dg s \<Longrightarrow> reached dg (fst (add dg rec strict skeleton s))"
| reading: "reached dg s \<Longrightarrow> reached dg (fst (Body dg s ident))"
| reading_from: "reached dg s \<Longrightarrow> reached dg (fst (BodyFrom dg s ident source))"

lemma NewSession_ok: "session_ok dg (Budget budget NewSession)" "session_ok dg (Use st (Budget budget NewSession))"
  by (simp_all add: session_ok_def records_ok_def pieces_ok_def tips_ok_def cache_ok_def NewSession_def Budget_def
      Use_def Let_def)

lemma BodyFrom_ok:
  assumes "session_ok dg s"
  shows "session_ok dg (fst (BodyFrom dg s ident source)) \<and> same_bodies s (fst (BodyFrom dg s ident source))"
proof (cases "bs_records s ident")
  case None
  then show ?thesis using assms by (simp add: BodyFrom_def)
next
  case (Some h)
  have recs: "records_ok s" using assms by (simp add: session_ok_def)
  have "held_ok s ident h" using recs Some by (simp add: records_ok_def)
  then have depth: "0 \<le> mf_Depth (hd_M h)" "mf_Depth (hd_M h) \<le> MaxDepth" by (simp_all add: held_ok_def)
  show ?thesis
    using rebuild_reads [OF assms records_ok_segments [OF recs Some] depth] Some by (simp add: BodyFrom_def Let_def)
qed

lemma reached_ok: "reached dg s \<Longrightarrow> session_ok dg s"
  by (induction rule: reached.induct) (simp_all add: NewSession_ok add_ok Body_reads BodyFrom_ok)

text \<open>C20. Reading a body of any session that is reached ends, never dereferences nil, and answers as rebuilding
  everything without the cache does.\<close>

theorem Body_plain:
  assumes "reached dg s"
  shows "snd (Body dg s ident) = (if bs_records s ident = None then Inl Refused else plain_body full dg s ident)
    \<and> snd (Body dg s ident) \<noteq> Inl Unending \<and> snd (Body dg s ident) \<noteq> Inl Panics"
proof -
  have ok: "session_ok dg s" by (rule reached_ok [OF assms])
  then have recs: "records_ok s" "pieces_ok dg s" by (simp_all add: session_ok_def)
  have "sound (plain_body full dg s ident)" if "bs_records s ident \<noteq> None"
    using plain_body_sound [OF recs] shallow_full [OF recs(1)] that by blast
  then show ?thesis using Body_reads(1) [OF ok, of ident] by (auto simp: sound_def)
qed

text \<open>C21. What a reader gets of a body has the digest its record claims.\<close>

theorem Body_digest:
  assumes "reached dg s" and "snd (Body dg s ident) = Inr b"
  shows "Holds s ident = Some (dg b)"
  using Body_plain [OF assms(1), of ident] assms(2) plain_body_claim [of full dg s ident b]
  by (auto simp: Holds_def split: if_splits)

text \<open>C22. Adding a record loses nothing: every body held before reads after it as it read before.\<close>

theorem add_keeps_bodies:
  assumes "reached dg s" and "Holds s ident = Some sha"
  shows "Holds (fst (add dg rec strict skeleton s)) ident = Some sha \<and>
    snd (Body dg (fst (add dg rec strict skeleton s)) ident) = snd (Body dg s ident)"
proof -
  let ?t = "fst (add dg rec strict skeleton s)"
  have ok: "session_ok dg s" by (rule reached_ok [OF assms(1)])
  then have recs: "records_ok s" "pieces_ok dg s" by (simp_all add: session_ok_def)
  have t: "session_ok dg ?t" "extends s ?t" using add_ok [OF ok] by blast+
  obtain h where h: "bs_records s ident = Some h" "sha = mf_SHA256 (hd_M h)" using assms(2) by (auto simp: Holds_def)
  have "plain_body full dg s ident = plain_body full dg ?t ident"
    by (rule plain_body_extends [OF t(2) recs shallow_full [OF recs(1) h(1)]])
  then show ?thesis
    using Body_reads(1) [OF ok, of ident] Body_reads(1) [OF t(1), of ident] extendsD(1) [OF t(2) h(1)] h
    by (simp add: Holds_def)
qed

text \<open>A record a checking reader accepts with nothing left to say, and that holds bytes, is a body that
  reads, with the digest it claims.\<close>

theorem AddChecked_rebuilds:
  assumes "reached dg s" and "AddChecked dg rec False s = (t, outcome_of_add False None None)"
  shows "\<exists>b. snd (Body dg t (sr_ID rec)) = Inr b \<and> Holds t (sr_ID rec) = Some (dg b)"
proof -
  have ok: "session_ok dg s" by (rule reached_ok [OF assms(1)])
  obtain m where m: "ManifestOf rec = Some m" and rec: "checked_record s rec m True False"
    and fresh: "bs_records s (sr_ID rec) = None"
    and not_removed: "pt_State (last (sr_Parts rec)) \<noteq> ContentRemoved"
    and new: "add_new dg rec m False True s = (t, outcome_of_add False None None)"
    using assms(2)
    by (auto simp: AddChecked_def add_def add_repeat_def Let_def checked_record_def split: option.splits if_splits prod.splits sum.splits)
  obtain s1 r where 1: "rebuild dg rec m (\<lambda>_. None) s = (s1, r)" by fastforce
  obtain b where b: "r = Inr b" and t: "t = remember (sr_ID rec) b (place_record dg rec m False s1)"
    using new 1 by (cases r) (auto simp: add_new_def split: if_splits)
  note segs = checked_record_segs [OF rec]
  note read = rebuild_reads [OF ok conjunct1 [OF segs] conjunct1 [OF conjunct2 [OF segs]] conjunct2 [OF conjunct2 [OF segs]],
      of "\<lambda>_. None"]
  have same: "same_bodies s s1" and ok1: "session_ok dg s1" using read 1 by simp_all
  have rec1: "checked_record s1 rec m True False" using rec by (simp add: checked_record_same [OF same])
  have fresh1: "bs_records s1 (sr_ID rec) = None" using fresh by (simp add: same_bodiesD [OF same])
  have "plain_body full dg (place_record dg rec m False s1) (sr_ID rec) = Inr b"
    using placed_reads [OF ok1 rec1 m fresh1, of False] rebuild_plain_same [OF same] read(1) 1 b by simp
  then have plain: "plain_body full dg t (sr_ID rec) = Inr b" by (simp add: t plain_body_same [OF remember_same])
  have "reached dg (fst (add dg rec True False s))" by (rule adding [OF assms(1)])
  then have reach: "reached dg t" using assms(2) by (simp add: AddChecked_def)
  have "bs_records t (sr_ID rec) \<noteq> None" by (simp add: t same_bodiesD [OF remember_same] place_record_fields)
  then have "snd (Body dg t (sr_ID rec)) = Inr b"
    using Body_reads(1) [OF reached_ok [OF reach], of "sr_ID rec"] plain by simp
  moreover have "Holds t (sr_ID rec) = Some (dg b)"
    using plain_body_claim [OF plain] by (auto simp: Holds_def)
  ultimately show ?thesis by blast
qed

section \<open>A sample\<close>

text \<open>A digest that keeps what it digests, and a record of the body \<open>hi\<close>.\<close>

definition sample_digest :: "string \<Rightarrow> string" where
  "sample_digest b = replicate 12 CHR ''0'' @ b"

definition sample_members :: "(string \<times> string) list" where
  "sample_members = [(''schema'', quote ''provider_body/1''), (''sha256'', quote ''000000000000hi''), (''bytes'', Itoa 2),
     (''segments'', arr_text [obj_text [(''lit'', quote ''hi'')]])]"

definition sample_body :: sd_record where
  "sample_body = \<lparr>sr_Ord = 1, sr_Off = 0, sr_Sha = ''000000000000'', sr_Bytes = 2, sr_ID = ''r1'', sr_Parent = [],
     sr_Call = [], sr_Run = [], sr_Continues = [], sr_Tool = [], sr_Child = [], sr_Batch = [], sr_Label = [],
     sr_StartedBy = [], sr_From = [], sr_Time = [], sr_Trigger = [], sr_Flags = [], sr_Usage = None, sr_Model = [],
     sr_Parts = [\<lparr>pt_Kind = PartData, pt_Text = [], pt_Data = obj_text sample_members, pt_ID = [], pt_Of = [],
       pt_Name = [], pt_Server = [], pt_ServerTool = [], pt_Failed = None, pt_Media = [], pt_Encoding = [],
       pt_State = [], pt_Bytes = 0, pt_SHA256 = []\<rparr>],
     sr_Dropped = []\<rparr>"

definition sample_manifest :: manifest where
  "sample_manifest = zero_manifest\<lparr>mf_Schema := manifest_Schema, mf_SHA256 := ''000000000000hi'', mf_Bytes := 2,
     mf_Segments := [zero_segment\<lparr>sg_Lit := ''hi''\<rparr>]\<rparr>"

lemma sample_parses:
  "parse (obj_text sample_members) = Some (JObj (obj_text sample_members)
     [(''schema'', JStr (quote ''provider_body/1'') ''provider_body/1''),
      (''sha256'', JStr (quote ''000000000000hi'') ''000000000000hi''), (''bytes'', JNum (Itoa 2)),
      (''segments'', JArr (arr_text [obj_text [(''lit'', quote ''hi'')]])
         [JObj (obj_text [(''lit'', quote ''hi'')]) [(''lit'', JStr (quote ''hi'') ''hi'')]])])"
proof (rule parse_written)
  have "utf8 ''lit'' \<and> utf8 ''schema'' \<and> utf8 ''sha256'' \<and> utf8 ''bytes'' \<and> utf8 ''segments'' \<and> utf8 ''hi''
    \<and> utf8 ''provider_body/1'' \<and> utf8 ''000000000000hi'' "
    by (intro conjI utf8_ascii) simp_all
  with number_end_Itoa show "written 3 (obj_text sample_members) (JObj (obj_text sample_members)
     [(''schema'', JStr (quote ''provider_body/1'') ''provider_body/1''),
      (''sha256'', JStr (quote ''000000000000hi'') ''000000000000hi''), (''bytes'', JNum (Itoa 2)),
      (''segments'', JArr (arr_text [obj_text [(''lit'', quote ''hi'')]])
         [JObj (obj_text [(''lit'', quote ''hi'')]) [(''lit'', JStr (quote ''hi'') ''hi'')]])])"
    unfolding numeral_3_eq_3 sample_members_def
    by (auto intro!: written.intros)
qed simp

lemma sample_fields:
  "manifest_field ''schema'' (JStr q v) x = Some (x\<lparr>mf_Schema := v\<rparr>)"
  "manifest_field ''sha256'' (JStr q v) x = Some (x\<lparr>mf_SHA256 := v\<rparr>)"
  "manifest_field ''bytes'' (JNum (Itoa 2)) x = Some (x\<lparr>mf_Bytes := 2\<rparr>)"
  "manifest_field ''segments'' j x = set_slice (\<lambda>v. x\<lparr>mf_Segments := v\<rparr>) segment_field zero_segment j (mf_Segments x)"
  "segment_field ''lit'' (JStr q v) g = Some (g\<lparr>sg_Lit := v\<rparr>)"
proof -
  have names: "fold_name ''schema'' = ''SCHEMA''" "fold_name ''sha256'' = ''SHA256''" "fold_name ''bytes'' = ''BYTES''"
    "fold_name ''segments'' = ''SEGMENTS''" "fold_name ''lit'' = ''LIT''"
    by (simp_all add: fold_name.simps char_of_def bit_Suc_0_iff)
  have "parse_int64 (Itoa 2) = Some 2" by (rule parse_int64_Itoa) simp_all
  with names show "manifest_field ''schema'' (JStr q v) x = Some (x\<lparr>mf_Schema := v\<rparr>)"
    "manifest_field ''sha256'' (JStr q v) x = Some (x\<lparr>mf_SHA256 := v\<rparr>)"
    "manifest_field ''bytes'' (JNum (Itoa 2)) x = Some (x\<lparr>mf_Bytes := 2\<rparr>)"
    "manifest_field ''segments'' j x = set_slice (\<lambda>v. x\<lparr>mf_Segments := v\<rparr>) segment_field zero_segment j (mf_Segments x)"
    "segment_field ''lit'' (JStr q v) g = Some (g\<lparr>sg_Lit := v\<rparr>)"
    by (simp_all add: manifest_field_def segment_field_def Let_def set_str_def set_int_def)
qed

lemma sample_reads: "ManifestOf sample_body = Some sample_manifest"
proof -
  have "unmarshalManifest (obj_text sample_members) = Some sample_manifest"
    by (simp add: unmarshalManifest_def sample_parses sample_fields set_slice_def into_slice_def sample_manifest_def
        zero_manifest_def manifest_Schema_def)
  then show ?thesis by (simp add: ManifestOf_def sample_body_def sample_manifest_def)
qed

definition sample_session :: bodies where
  "sample_session = fst (AddChecked sample_digest sample_body False (Budget 0 NewSession))"

lemma sample_rebuild:
  "rebuild_with rd sample_digest rec sample_manifest fill s = (s, Inr ''hi'')"
  by (simp add: rebuild_with_def sample_manifest_def zero_manifest_def zero_segment_def MaxBytes_def segment_bytes_def
      sample_digest_def numeral_eq_Suc)

lemma sample_checked: "checked_record (Budget 0 NewSession) sample_body sample_manifest True False"
  by (simp add: checked_record_def sample_body_def sample_manifest_def zero_manifest_def zero_segment_def MaxBytes_def
      MaxDepth_def ContentRemoved_def segment_ok_def)

lemma sample_added:
  "AddChecked sample_digest sample_body False (Budget 0 NewSession) =
     (sample_session, outcome_of_add False None None)"
  "sample_session = remember ''r1'' ''hi'' (place_record sample_digest sample_body sample_manifest False (Budget 0 NewSession))"
proof -
  have "AddChecked sample_digest sample_body False (Budget 0 NewSession) =
    (remember ''r1'' ''hi'' (place_record sample_digest sample_body sample_manifest False (Budget 0 NewSession)),
     outcome_of_add False None None)"
  proof -
    have "pt_State (last (sr_Parts sample_body)) \<noteq> ContentRemoved" "sr_ID sample_body = ''r1''"
      "bs_records (Budget 0 NewSession) ''r1'' = None"
      by (simp_all add: sample_body_def ContentRemoved_def Budget_def NewSession_def)
    with sample_checked show ?thesis
      by (simp add: AddChecked_def add_def sample_reads add_new_def rebuild_def sample_rebuild)
  qed
  then show "AddChecked sample_digest sample_body False (Budget 0 NewSession) =
      (sample_session, outcome_of_add False None None)"
    "sample_session = remember ''r1'' ''hi'' (place_record sample_digest sample_body sample_manifest False (Budget 0 NewSession))"
    by (simp_all add: sample_session_def)
qed

lemma sample_reached: "reached sample_digest sample_session"
  unfolding sample_session_def AddChecked_def by (intro reached.adding reached.start)

lemma sample_holds: "Holds sample_session ''r1'' = Some ''000000000000hi''"
  by (simp add: sample_added(2) Holds_def same_bodiesD [OF remember_same] place_record_fields)
   (simp add: sample_body_def sample_manifest_def)

lemma sample_body_read: "snd (Body sample_digest sample_session ''r1'') = Inr ''hi''"
proof -
  have "bs_cache sample_session ''r1'' = Some ''hi''"
    unfolding sample_added(2)
    by (simp add: remember_def place_record_def own_parts_def sample_body_def sample_manifest_def zero_manifest_def
        zero_segment_def keep_piece_def PB_RoleRequest_def Budget_def NewSession_def)
  then show ?thesis by (simp add: Body_def full_def)
qed

theorem Body_plain_witness:
  "plain_body full sample_digest sample_session ''r1'' = Inr ''hi''"
  using Body_plain [OF sample_reached, of "''r1''"] sample_body_read sample_holds
  by (auto simp: Holds_def split: if_splits)

theorem Body_digest_witness: "Holds sample_session ''r1'' = Some (sample_digest ''hi'')"
  by (rule Body_digest [OF sample_reached sample_body_read])

theorem add_keeps_bodies_witness:
  "snd (Body sample_digest (fst (add sample_digest (sample_body\<lparr>sr_ID := ''r2''\<rparr>) True False sample_session)) ''r1'') = Inr ''hi''"
  using add_keeps_bodies [OF sample_reached sample_holds] sample_body_read by simp

theorem AddChecked_rebuilds_witness:
  "\<exists>b. snd (Body sample_digest sample_session (sr_ID sample_body)) = Inr b \<and>
     Holds sample_session (sr_ID sample_body) = Some (sample_digest b)"
  by (rule AddChecked_rebuilds [OF reached.start sample_added(1)])

end
