(* ===== verification/Flow_Order.thy ===== *)
theory Flow_Order
  imports Flow_Data Go_Sort "HOL-Library.Product_Lexorder" "HOL-Library.Option_ord"
begin

text \<open>
  The order of nodes, \<open>tieKey\<close>, \<open>Before\<close> and \<open>InOrder\<close> of \<^verbatim>\<open>pkg/sessionflow/fold.go\<close>.
  The positions a node can have are a linear order; with the tie key and the id they make a key whose
  lexicographic order \<open>Before\<close> turns out to be, so that nodes of different ids are ordered one way only.
\<close>

definition KindHistoryChange :: string where
  "KindHistoryChange = ''history.change''"

definition TrimPrefix :: "string \<Rightarrow> string \<Rightarrow> string" where
  "TrimPrefix s prefix = (if take (length prefix) s = prefix then drop (length prefix) s else s)"

definition tieKey :: "node \<Rightarrow> string \<times> bool" where
  "tieKey n =
    (if n_Kind n = KindHistoryChange then (''call/'' @ TrimPrefix (en_ID n) ''history/'', True)
     else (en_ID n, False))"

definition Before :: "node \<Rightarrow> node \<Rightarrow> bool" where
  "Before a b =
    (case (n_Ref a, n_Ref b) of
       (Some ap, Some bp) \<Rightarrow>
         if r_Seq ap \<noteq> r_Seq bp then r_Seq ap < r_Seq bp
         else if r_Row ap \<noteq> r_Row bp then r_Row ap < r_Row bp
         else if (r_Block ap = None) \<noteq> (r_Block bp = None) then r_Block ap = None
         else if r_Block ap \<noteq> None \<and> the (r_Block ap) \<noteq> the (r_Block bp)
           then the (r_Block ap) < the (r_Block bp)
         else
           (let (ak, ac) = tieKey a; (bk, bc) = tieKey b in
            if ak \<noteq> bk then ak < bk
            else if ac \<noteq> bc then ac
            else en_ID a < en_ID b)
     | (Some ap, None) \<Rightarrow> True
     | (None, Some bp) \<Rightarrow> False
     | (None, None) \<Rightarrow> en_ID a < en_ID b)"

definition InOrder :: "node list \<Rightarrow> node list" where
  "InOrder nodes = sort_by Before nodes"

section \<open>Positions\<close>

text \<open>Where a node stands: at a record, or at one block of it, which comes after the whole record; a
  node without a reference comes after every one that has one.\<close>

datatype position = At u64 u64 "int option" | Unplaced

instantiation position :: linorder
begin

fun less_position :: "position \<Rightarrow> position \<Rightarrow> bool" where
  "less_position (At s r b) (At s' r' b') \<longleftrightarrow> s < s' \<or> s = s' \<and> (r < r' \<or> r = r' \<and> b < b')"
| "less_position (At s r b) Unplaced \<longleftrightarrow> True"
| "less_position Unplaced p \<longleftrightarrow> False"

definition less_eq_position :: "position \<Rightarrow> position \<Rightarrow> bool" where
  "less_eq_position p q \<longleftrightarrow> p = q \<or> p < q"

instance
proof
  fix p q r :: position
  have irrefl: "\<not> x < x" for x :: position by (cases x) auto
  have trans: "x < y \<Longrightarrow> y < z \<Longrightarrow> x < z" for x y z :: position
    by (cases x; cases y; cases z) (auto dest: less_trans)
  show "p < q \<longleftrightarrow> p \<le> q \<and> \<not> q \<le> p"
    using irrefl trans by (auto simp: less_eq_position_def)
  show "p \<le> p" by (simp add: less_eq_position_def)
  show "p \<le> q \<Longrightarrow> q \<le> r \<Longrightarrow> p \<le> r" using trans by (auto simp: less_eq_position_def)
  show "p \<le> q \<Longrightarrow> q \<le> p \<Longrightarrow> p = q" using irrefl trans by (auto simp: less_eq_position_def)
  show "p \<le> q \<or> q \<le> p" unfolding less_eq_position_def by (cases p; cases q) auto
qed

end

definition place :: "node \<Rightarrow> position" where
  "place n = (case n_Ref n of None \<Rightarrow> Unplaced | Some r \<Rightarrow> At (r_Seq r) (r_Row r) (r_Block r))"

text \<open>A history card comes first among equals. Nodes without a position are ordered by id alone.\<close>

definition order_key :: "node \<Rightarrow> position \<times> string \<times> bool \<times> string" where
  "order_key n =
    (if n_Ref n = None then (Unplaced, [], False, en_ID n)
     else (place n, fst (tieKey n), \<not> snd (tieKey n), en_ID n))"

lemma Before_order_key: "Before a b \<longleftrightarrow> order_key a < order_key b"
proof (cases "n_Ref a"; cases "n_Ref b")
  fix ap bp assume refs: "n_Ref a = Some ap" "n_Ref b = Some bp"
  show ?thesis
    by (cases "r_Block ap"; cases "r_Block bp")
      (auto simp: Before_def order_key_def place_def refs Let_def less_eq_position_def split: prod.splits)
qed (auto simp: Before_def order_key_def place_def less_eq_position_def)

lemma order_key_id: "order_key a = order_key b \<Longrightarrow> en_ID a = en_ID b"
  by (auto simp: order_key_def split: if_splits)

lemma Before_weak: "weak_less Before S"
  by unfold_locales (auto simp: Before_order_key)

lemma Before_total: "inj_on en_ID S \<Longrightarrow> total_less Before S"
proof (intro total_less.intro Before_weak total_less_axioms.intro)
  fix x y assume inj: "inj_on en_ID S" and "x \<in> S" "y \<in> S" "x \<noteq> y"
  then have "order_key x \<noteq> order_key y" using order_key_id by (metis inj_onD)
  then show "Before x y \<or> Before y x" by (simp add: Before_order_key) (metis linorder_less_linear)
qed

interpretation node_order: weak_less Before UNIV
  by (rule Before_weak)

text \<open>The display order is one order: on nodes of different ids \<open>Before\<close> is a strict total order,
  so whatever order the runtime hands the nodes over in, and whatever sort is used, \<open>InOrder\<close> gives
  one list.\<close>

theorem InOrder_unique:
  assumes "inj_on en_ID (set nodes)" "mset nodes' = mset nodes"
  shows "InOrder nodes' = InOrder nodes \<and> mset (InOrder nodes) = mset nodes \<and>
    (\<forall>out. mset out = mset nodes \<and> sorted_by Before out \<longrightarrow> out = InOrder nodes)"
proof -
  note total = Before_total [OF assms(1)]
  have "out = InOrder nodes" if "mset out = mset nodes" "sorted_by Before out" for out
    unfolding InOrder_def using total_less.sort_by_eqI [OF total that(2,1)] by simp
  moreover have "sorted_by Before (InOrder nodes')"
    unfolding InOrder_def by (rule node_order.sorted_sort_by) simp
  moreover have "mset (InOrder nodes') = mset nodes" by (simp add: InOrder_def assms(2))
  ultimately show ?thesis by (simp add: InOrder_def)
qed

definition sample_card :: node where
  "sample_card = zero_node\<lparr>en_ID := ''history/x'', n_Kind := KindHistoryChange,
     n_Ref := Some \<lparr>r_Seq = 2, r_Row = 1, r_Block = Some 0\<rparr>\<rparr>"

definition sample_call :: node where
  "sample_call = zero_node\<lparr>en_ID := ''call/x'', n_Kind := ''call'',
     n_Ref := Some \<lparr>r_Seq = 2, r_Row = 1, r_Block = Some 0\<rparr>\<rparr>"

definition sample_step :: node where
  "sample_step = zero_node\<lparr>en_ID := ''step/x'', n_Kind := ''step'',
     n_Ref := Some \<lparr>r_Seq = 2, r_Row = 1, r_Block = None\<rparr>\<rparr>"

theorem InOrder_unique_witness:
  "InOrder [sample_call, sample_card, sample_step] = [sample_step, sample_card, sample_call] \<and>
   InOrder [sample_card, sample_step, sample_call] = [sample_step, sample_card, sample_call]"
proof -
  have one: "InOrder [sample_call, sample_card, sample_step] = [sample_step, sample_card, sample_call]"
    by (simp add: InOrder_def Before_def sample_call_def sample_card_def sample_step_def zero_values
        tieKey_def TrimPrefix_def KindHistoryChange_def)
  have "inj_on en_ID (set [sample_call, sample_card, sample_step])"
    by (simp add: sample_call_def sample_card_def sample_step_def zero_values)
  with one InOrder_unique [of "[sample_call, sample_card, sample_step]" "[sample_card, sample_step, sample_call]"]
  show ?thesis by (simp add: add_mset_commute)
qed

end
