(* ===== verification/Flow_Text.thy ===== *)
theory Flow_Text
  imports Flow_Data
begin

text \<open>
  The text \<open>json.Marshal\<close> writes of each frame of \<^verbatim>\<open>pkg/sessionflow\<close>, and that
  \<open>json.Unmarshal\<close> of that text is the frame again.
\<close>

section \<open>The frames as text\<close>

definition header_text :: "header \<Rightarrow> string" where
  "header_text h = obj_text (
     str_field ''t'' (h_T h) # str_field ''schema'' (h_Schema h) #
     str_field ''conversation'' (h_Conversation h) # str_field ''session'' (h_Session h) #
     (''round'', u64_text (h_Round h)) # str_opt ''previous'' (h_Previous h) @
     (''from_seq'', u64_text (h_FromSeq h)) # (''through_seq'', u64_text (h_ThroughSeq h)) #
     str_field ''input_digest'' (h_InputDigest h) #
     str_field ''parser'' (h_Parser h) # str_field ''policy'' (h_Policy h) #
     str_opt ''from_time'' (h_FromTime h) @ str_opt ''through_time'' (h_ThroughTime h) @
     str_opt ''session_from_time'' (h_SessionFromTime h) @
     str_opt ''session_through_time'' (h_SessionThroughTime h) @
     str_opt ''title'' (h_Title h) @
     (''talks'', Itoa (h_Talks h)) # (''steps'', Itoa (h_Steps h)) #
     (''streams'', Itoa (h_Streams h)) # (''segments'', Itoa (h_Segments h)) #
     (''unresolved'', Itoa (h_Unresolved h)) #
     int_opt ''changes'' (h_Changes h) @ int_opt ''lines_added'' (h_LinesAdded h) @
     int_opt ''lines_removed'' (h_LinesRemoved h) @ int_opt ''llm_calls'' (h_LLMCalls h) @
     int_opt ''subagents'' (h_Subagents h) @ int_opt ''bash_runs'' (h_BashRuns h) @ [])"

definition ref_text :: "ref \<Rightarrow> string" where
  "ref_text r = obj_text (
     (''seq'', u64_text (r_Seq r)) # (''row'', u64_text (r_Row r)) # int_opt ''block'' (r_Block r) @ [])"

definition bool_opt :: "string \<Rightarrow> bool \<Rightarrow> (string \<times> string) list" where
  "bool_opt name b = if_set b name ''true''"

definition refs_opt :: "string \<Rightarrow> ref list \<Rightarrow> (string \<times> string) list" where
  "refs_opt name rs = if_set (rs \<noteq> []) name (arr_text (map ref_text rs))"

definition entity_members :: "'a entity_scheme \<Rightarrow> (string \<times> string) list \<Rightarrow> (string \<times> string) list" where
  "entity_members e rest =
     str_field ''t'' (en_T e) # str_field ''id'' (en_ID e) # (''revision'', u64_text (en_Revision e)) #
     bool_opt ''tombstone'' (en_Tombstone e) @ rest"

text \<open>A node whose attributes are no JSON value is an error.\<close>

definition node_text :: "node \<Rightarrow> string option" where
  "node_text n =
    map_option (\<lambda>attrs. obj_text (entity_members n (
        str_field ''kind'' (n_Kind n) # str_opt ''parent'' (n_Parent n) @ str_opt ''stream'' (n_Stream n) @
        (case n_Ref n of None \<Rightarrow> [] | Some r \<Rightarrow> [(''ref'', ref_text r)]) @
        refs_opt ''refs'' (n_Refs n) @ attrs @ [])))
      (if n_Attrs n = [] then Some [] else map_option (\<lambda>t. [(''attrs'', t)]) (compact (n_Attrs n)))"

definition relation_text :: "relation \<Rightarrow> string" where
  "relation_text v = obj_text (entity_members v (
     str_field ''type'' (rel_Type v) # str_field ''from'' (rel_From v) # str_field ''to'' (rel_To v) #
     str_field ''quality'' (rel_Quality v) # str_opt ''via'' (rel_Via v) @
     refs_opt ''evidence'' (rel_Evidence v) @ []))"

definition unresolved_text :: "unresolved \<Rightarrow> string" where
  "unresolved_text u = obj_text (entity_members u (
     str_field ''kind'' (un_Kind u) # str_opt ''ref'' (un_RefID u) @ str_opt ''reason'' (un_Reason u) @
     str_field ''state'' (un_State u) # []))"

definition counts_text :: "counts \<Rightarrow> string" where
  "counts_text c = obj_text [(''nodes'', Itoa (c_Nodes c)), (''relations'', Itoa (c_Relations c)),
     (''unresolved'', Itoa (c_Unresolved c))]"

definition commit_text :: "commit \<Rightarrow> string" where
  "commit_text c = obj_text [str_field ''t'' (co_T c), str_field ''digest'' (co_Digest c),
     (''counts'', counts_text (co_Counts c))]"

section \<open>The names\<close>

lemma folded_names:
  "map fold_name [''t'', ''schema'', ''conversation'', ''session'', ''round'', ''previous'', ''from_seq'',
     ''through_seq'', ''input_digest'', ''parser'', ''policy'', ''from_time'', ''through_time'',
     ''session_from_time'', ''session_through_time'', ''title'', ''talks'', ''steps'', ''streams'',
     ''segments'', ''unresolved'', ''changes'', ''lines_added'', ''lines_removed'', ''llm_calls'',
     ''subagents'', ''bash_runs'']
   = [''T'', ''SCHEMA'', ''CONVERSATION'', ''SESSION'', ''ROUND'', ''PREVIOUS'', ''FROM_SEQ'',
     ''THROUGH_SEQ'', ''INPUT_DIGEST'', ''PARSER'', ''POLICY'', ''FROM_TIME'', ''THROUGH_TIME'',
     ''SESSION_FROM_TIME'', ''SESSION_THROUGH_TIME'', ''TITLE'', ''TALKS'', ''STEPS'', ''STREAMS'',
     ''SEGMENTS'', ''UNRESOLVED'', ''CHANGES'', ''LINES_ADDED'', ''LINES_REMOVED'', ''LLM_CALLS'',
     ''SUBAGENTS'', ''BASH_RUNS'']"
  "map fold_name [''seq'', ''row'', ''block'', ''id'', ''revision'', ''tombstone'', ''kind'', ''parent'',
     ''stream'', ''ref'', ''refs'', ''attrs'', ''type'', ''from'', ''to'', ''quality'', ''via'',
     ''evidence'', ''reason'', ''state'', ''nodes'', ''relations'', ''digest'', ''counts'', ''role'']
   = [''SEQ'', ''ROW'', ''BLOCK'', ''ID'', ''REVISION'', ''TOMBSTONE'', ''KIND'', ''PARENT'',
     ''STREAM'', ''REF'', ''REFS'', ''ATTRS'', ''TYPE'', ''FROM'', ''TO'', ''QUALITY'', ''VIA'',
     ''EVIDENCE'', ''REASON'', ''STATE'', ''NODES'', ''RELATIONS'', ''DIGEST'', ''COUNTS'', ''ROLE'']"
  by (simp_all add: fold_name.simps char_of_def bit_Suc_0_iff)

lemmas folded = folded_names [simplified list.map list.inject simp_thms]

section \<open>Loading what was written\<close>

text \<open>\<open>loads d f kts x y\<close>: an object with the members \<open>kts\<close>, each at most \<open>d\<close> levels deep, takes the
  struct \<open>x\<close> to \<open>y\<close>.\<close>

definition loads :: "nat \<Rightarrow> (string \<Rightarrow> json \<Rightarrow> 'a \<Rightarrow> 'a option) \<Rightarrow> (string \<times> string) list \<Rightarrow> 'a \<Rightarrow> 'a \<Rightarrow> bool" where
  "loads d f kts x y \<longleftrightarrow>
     (\<exists>ms. list_all2 (\<lambda>kt kj. fst kt = fst kj \<and> utf8 (fst kt) \<and> written d (snd kt) (snd kj)) kts ms \<and>
       assign_members f ms x = Some y)"

lemma loads_object:
  "loads d f kts x y \<Longrightarrow>
     \<exists>ms. written (Suc d) (obj_text kts) (JObj (obj_text kts) ms) \<and> assign_members f ms x = Some y"
  unfolding loads_def by (auto intro: written_obj)

text \<open>The frame type, which \<open>Read\<close> looks at first.\<close>

definition probe_field :: "string \<Rightarrow> json \<Rightarrow> string \<Rightarrow> string option" where
  "probe_field key j t = (if fold_name key = ''T'' then into_string j t else Some t)"

definition frame_members :: "string \<Rightarrow> (string \<times> string) list \<Rightarrow> bool" where
  "frame_members ty kts \<longleftrightarrow> (\<exists>rest. kts = str_field ''t'' ty # rest \<and> utf8 ty \<and>
     list_all (\<lambda>kt. fold_name (fst kt) \<noteq> ''T'') rest)"

lemma optional_members:
  "list_all Q (str_opt k s) \<longleftrightarrow> (s \<noteq> [] \<longrightarrow> Q (k, quote s))"
  "list_all Q (int_opt k i) \<longleftrightarrow> (\<forall>n. i = Some n \<longrightarrow> Q (k, Itoa n))"
  "list_all Q (bool_opt k b) \<longleftrightarrow> (b \<longrightarrow> Q (k, ''true''))"
  "list_all Q (refs_opt k rs) \<longleftrightarrow> (rs \<noteq> [] \<longrightarrow> Q (k, arr_text (map ref_text rs)))"
  "list_all Q (case r of None \<Rightarrow> [] | Some r \<Rightarrow> [(k, ref_text r)]) \<longleftrightarrow> (\<forall>v. r = Some v \<longrightarrow> Q (k, ref_text v))"
  by (auto simp: str_opt_def int_opt_def bool_opt_def refs_opt_def if_set_def split: option.splits)

lemma frame_members_intro:
  "utf8 ty \<Longrightarrow> list_all (\<lambda>kt. fold_name (fst kt) \<noteq> ''T'') rest \<Longrightarrow>
     frame_members ty (str_field ''t'' ty # rest)"
  by (simp add: frame_members_def)

lemma probe_others:
  "list_all2 (\<lambda>kt kj. fst kt = fst kj \<and> P kt kj) kts ms \<Longrightarrow>
     list_all (\<lambda>kt. fold_name (fst kt) \<noteq> ''T'') kts \<Longrightarrow> assign_members probe_field ms x = Some x"
  by (induction rule: list_all2_induct) (auto simp: probe_field_def)

lemma written_unique: "written d t j \<Longrightarrow> written e t k \<Longrightarrow> j = k"
proof -
  assume "written d t j" "written e t k"
  then have "reads (d + e) t j" "reads (d + e) t k"
    using written_reads written_deeper [of d t j e] written_deeper [of e t k d] by (auto simp: add.commute)
  then have "read_value (length t) (d + e) (t @ []) = Some (j, [])" "read_value (length t) (d + e) (t @ []) = Some (k, [])"
    unfolding reads_def by (auto simp: follow_def)
  then show ?thesis by simp
qed

lemma loads_frame:
  assumes "loads d f kts x y" "frame_members ty kts"
  shows "\<exists>ms. written (Suc d) (obj_text kts) (JObj (obj_text kts) ms) \<and> assign_members f ms x = Some y \<and>
    assign_members probe_field ms [] = Some ty"
proof -
  obtain ms where ms: "list_all2 (\<lambda>kt kj. fst kt = fst kj \<and> utf8 (fst kt) \<and> written d (snd kt) (snd kj)) kts ms"
    and y: "assign_members f ms x = Some y"
    using assms(1) by (auto simp: loads_def)
  obtain rest where kts: "kts = str_field ''t'' ty # rest" and ty: "utf8 ty"
    and rest: "list_all (\<lambda>kt. fold_name (fst kt) \<noteq> ''T'') rest"
    using assms(2) by (auto simp: frame_members_def)
  obtain m ms' where m: "ms = m # ms'" "fst m = ''t''" "written d (quote ty) (snd m)"
    and ms': "list_all2 (\<lambda>kt kj. fst kt = fst kj \<and> utf8 (fst kt) \<and> written d (snd kt) (snd kj)) rest ms'"
    using ms kts by (auto simp: list_all2_Cons1 str_field_def)
  have "m = (''t'', JStr (quote ty) ty)"
    using m(2,3) written_unique [OF _ written_str [OF ty]] by (cases m) auto
  then have "assign_members probe_field ms [] = assign_members probe_field ms' ty"
    by (simp add: m(1) probe_field_def folded)
  then have "assign_members probe_field ms [] = Some ty"
    using probe_others [OF ms' rest] by simp
  with ms y show ?thesis by (auto intro: written_obj)
qed

lemma loads_Nil: "loads d f [] x x"
  by (simp add: loads_def)

lemma loads_done: "x = y \<Longrightarrow> loads d f [] x y"
  by (simp add: loads_Nil)

lemma loads_member:
  "utf8 k \<Longrightarrow> written d t j \<Longrightarrow> f k j x = Some y \<Longrightarrow> loads d f rest y z \<Longrightarrow> loads d f ((k, t) # rest) x z"
proof -
  assume "utf8 k" "written d t j" "f k j x = Some y" "loads d f rest y z"
  then obtain ms where
    "list_all2 (\<lambda>kt kj. fst kt = fst kj \<and> utf8 (fst kt) \<and> written d (snd kt) (snd kj)) rest ms"
    "assign_members f ms y = Some z"
    by (auto simp: loads_def)
  with \<open>utf8 k\<close> \<open>written d t j\<close> \<open>f k j x = Some y\<close> show ?thesis
    unfolding loads_def by (intro exI [of _ "(k, j) # ms"]) simp
qed

lemma loads_str:
  "(\<And>v. f k (JStr (quote v) v) x = Some (upd v)) \<Longrightarrow> utf8 k \<Longrightarrow> utf8 s \<Longrightarrow>
     loads d f rest (upd s) z \<Longrightarrow> loads d f (str_field k s # rest) x z"
  unfolding str_field_def by (rule loads_member) (auto intro: written_str)

lemma loads_str_opt:
  "(\<And>v. f k (JStr (quote v) v) x = Some (upd v)) \<Longrightarrow> upd [] = x \<Longrightarrow> utf8 k \<Longrightarrow> utf8 s \<Longrightarrow>
     loads d f rest (upd s) z \<Longrightarrow> loads d f (str_opt k s @ rest) x z"
  using loads_str [of f k x upd s d rest z]
  by (cases "s = []") (simp_all add: str_opt_def if_set_def str_field_def)

lemma written_u64: "written d (u64_text n) (JNum (u64_text n))"
  by (rule written_num) (simp add: u64_text_def number_end_FormatUint)

lemma written_int: "written d (Itoa i) (JNum (Itoa i))"
  by (rule written_num) (rule number_end_Itoa)

lemma loads_u64:
  "(\<And>j v. (\<And>w. into_u64 j w = Some v) \<Longrightarrow> f k j x = Some (upd v)) \<Longrightarrow> utf8 k \<Longrightarrow>
     loads d f rest (upd n) z \<Longrightarrow> loads d f ((k, u64_text n) # rest) x z"
  by (rule loads_member) (auto intro: written_u64 into_u64_text)

lemma loads_int:
  "(\<And>j v. (\<And>w. into_int j w = Some v) \<Longrightarrow> f k j x = Some (upd v)) \<Longrightarrow> utf8 k \<Longrightarrow> int64_range i \<Longrightarrow>
     loads d f rest (upd i) z \<Longrightarrow> loads d f ((k, Itoa i) # rest) x z"
  by (rule loads_member) (auto intro: written_int into_int_text)

lemma loads_int_opt:
  "(\<And>j v. j \<noteq> JNull \<Longrightarrow> (\<And>w. into_int j w = Some v) \<Longrightarrow> f k j x = Some (upd (Some v))) \<Longrightarrow> upd None = x \<Longrightarrow>
     utf8 k \<Longrightarrow> pred_option int64_range i \<Longrightarrow>
     loads d f rest (upd i) z \<Longrightarrow> loads d f (int_opt k i @ rest) x z"
proof (cases i)
  case (Some n)
  assume f: "\<And>j v. j \<noteq> JNull \<Longrightarrow> (\<And>w. into_int j w = Some v) \<Longrightarrow> f k j x = Some (upd (Some v))"
    and "utf8 k" "pred_option int64_range i" "loads d f rest (upd i) z"
  with Some show ?thesis
    by (auto simp: int_opt_def intro!: loads_member written_int f into_int_text)
qed (simp add: int_opt_def)

lemma loads_bool_opt:
  "f k (JBool True) x = Some (upd True) \<Longrightarrow> upd False = x \<Longrightarrow> utf8 k \<Longrightarrow>
     loads d f rest (upd b) z \<Longrightarrow> loads d f (bool_opt k b @ rest) x z"
  by (cases b) (auto simp: bool_opt_def if_set_def intro: loads_member written_true)

definition header_ok :: "header \<Rightarrow> bool" where
  "header_ok h \<longleftrightarrow> utf8 (h_T h) \<and> utf8 (h_Schema h) \<and> utf8 (h_Conversation h) \<and> utf8 (h_Session h) \<and>
     utf8 (h_Previous h) \<and> utf8 (h_InputDigest h) \<and> utf8 (h_Parser h) \<and> utf8 (h_Policy h) \<and>
     utf8 (h_FromTime h) \<and> utf8 (h_ThroughTime h) \<and> utf8 (h_SessionFromTime h) \<and>
     utf8 (h_SessionThroughTime h) \<and> utf8 (h_Title h) \<and>
     int64_range (h_Talks h) \<and> int64_range (h_Steps h) \<and> int64_range (h_Streams h) \<and>
     int64_range (h_Segments h) \<and> int64_range (h_Unresolved h) \<and>
     pred_option int64_range (h_Changes h) \<and> pred_option int64_range (h_LinesAdded h) \<and>
     pred_option int64_range (h_LinesRemoved h) \<and> pred_option int64_range (h_LLMCalls h) \<and>
     pred_option int64_range (h_Subagents h) \<and> pred_option int64_range (h_BashRuns h)"

lemma loads_header:
  assumes "header_ok h"
  shows "\<exists>ms. written 1 (header_text h) (JObj (header_text h) ms) \<and>
    assign_members header_field ms zero_header = Some h \<and>
    assign_members probe_field ms [] = Some (h_T h)"
proof -
  note ok = assms [unfolded header_ok_def] simp_thms
  note others = folded str_field_def optional_members
  note field = header_field_def Let_def folded setters into_pointer_def
  show ?thesis
    unfolding header_text_def One_nat_def
    apply (rule loads_frame [rotated])
     apply (rule frame_members_intro, (simp only: ok; fail), (simp add: others; fail))
    apply (simp only: zero_header_def)
    apply (rule loads_str, (simp add: field; fail), (simp add: utf8_ascii; fail), (simp only: ok; fail))
    apply (rule loads_str, (simp add: field; fail), (simp add: utf8_ascii; fail), (simp only: ok; fail))
    apply (rule loads_str, (simp add: field; fail), (simp add: utf8_ascii; fail), (simp only: ok; fail))
    apply (rule loads_str, (simp add: field; fail), (simp add: utf8_ascii; fail), (simp only: ok; fail))
    apply (rule loads_u64, (simp add: field; fail), (simp add: utf8_ascii; fail))
    apply (rule loads_str_opt, (simp add: field; fail), (simp; fail), (simp add: utf8_ascii; fail), (simp only: ok; fail))
    apply (rule loads_u64, (simp add: field; fail), (simp add: utf8_ascii; fail))
    apply (rule loads_u64, (simp add: field; fail), (simp add: utf8_ascii; fail))
    apply (rule loads_str, (simp add: field; fail), (simp add: utf8_ascii; fail), (simp only: ok; fail))
    apply (rule loads_str, (simp add: field; fail), (simp add: utf8_ascii; fail), (simp only: ok; fail))
    apply (rule loads_str, (simp add: field; fail), (simp add: utf8_ascii; fail), (simp only: ok; fail))
    apply (rule loads_str_opt, (simp add: field; fail), (simp; fail), (simp add: utf8_ascii; fail), (simp only: ok; fail))
    apply (rule loads_str_opt, (simp add: field; fail), (simp; fail), (simp add: utf8_ascii; fail), (simp only: ok; fail))
    apply (rule loads_str_opt, (simp add: field; fail), (simp; fail), (simp add: utf8_ascii; fail), (simp only: ok; fail))
    apply (rule loads_str_opt, (simp add: field; fail), (simp; fail), (simp add: utf8_ascii; fail), (simp only: ok; fail))
    apply (rule loads_str_opt, (simp add: field; fail), (simp; fail), (simp add: utf8_ascii; fail), (simp only: ok; fail))
    apply (rule loads_int, (simp add: field; fail), (simp add: utf8_ascii; fail), (simp only: ok; fail))
    apply (rule loads_int, (simp add: field; fail), (simp add: utf8_ascii; fail), (simp only: ok; fail))
    apply (rule loads_int, (simp add: field; fail), (simp add: utf8_ascii; fail), (simp only: ok; fail))
    apply (rule loads_int, (simp add: field; fail), (simp add: utf8_ascii; fail), (simp only: ok; fail))
    apply (rule loads_int, (simp add: field; fail), (simp add: utf8_ascii; fail), (simp only: ok; fail))
    apply (rule loads_int_opt, (simp add: field; fail), (simp; fail), (simp add: utf8_ascii; fail), (simp only: ok; fail))
    apply (rule loads_int_opt, (simp add: field; fail), (simp; fail), (simp add: utf8_ascii; fail), (simp only: ok; fail))
    apply (rule loads_int_opt, (simp add: field; fail), (simp; fail), (simp add: utf8_ascii; fail), (simp only: ok; fail))
    apply (rule loads_int_opt, (simp add: field; fail), (simp; fail), (simp add: utf8_ascii; fail), (simp only: ok; fail))
    apply (rule loads_int_opt, (simp add: field; fail), (simp; fail), (simp add: utf8_ascii; fail), (simp only: ok; fail))
    apply (rule loads_int_opt, (simp add: field; fail), (simp; fail), (simp add: utf8_ascii; fail), (simp only: ok; fail))
    apply (rule loads_done)
    apply (rule header.equality, simp_all)
    done
qed

definition ref_ok :: "ref \<Rightarrow> bool" where
  "ref_ok r \<longleftrightarrow> pred_option int64_range (r_Block r)"

lemma loads_ref:
  assumes "ref_ok r"
  shows "\<exists>ms. written 1 (ref_text r) (JObj (ref_text r) ms) \<and> assign_members ref_field ms zero_ref = Some r"
proof -
  note ok = assms [unfolded ref_ok_def] simp_thms
  note field = ref_field_def Let_def folded setters into_pointer_def
  show ?thesis
    unfolding ref_text_def One_nat_def
    apply (rule loads_object)
    apply (simp only: zero_ref_def)
    apply (rule loads_u64, (simp add: field; fail), (simp add: utf8_ascii; fail))
    apply (rule loads_u64, (simp add: field; fail), (simp add: utf8_ascii; fail))
    apply (rule loads_int_opt, (simp add: field; fail), (simp; fail), (simp add: utf8_ascii; fail), (simp only: ok; fail))
    apply (rule loads_done)
    apply (rule ref.equality, simp_all)
    done
qed

lemma loads_refs:
  "list_all ref_ok rs \<Longrightarrow>
     \<exists>js. written 2 (arr_text (map ref_text rs)) (JArr (arr_text (map ref_text rs)) js) \<and>
       into_elems (into_struct ref_field) zero_ref js [] = Some rs"
proof -
  assume "list_all ref_ok rs"
  then have "\<exists>js. list_all2 (written 1) (map ref_text rs) js \<and>
      into_elems (into_struct ref_field) zero_ref js [] = Some rs"
  proof (induction rs)
    case (Cons r rs)
    then obtain js where js: "list_all2 (written 1) (map ref_text rs) js"
      "into_elems (into_struct ref_field) zero_ref js [] = Some rs" by auto
    obtain ms where "written 1 (ref_text r) (JObj (ref_text r) ms)"
      "assign_members ref_field ms zero_ref = Some r"
      using Cons.prems loads_ref [of r] by auto
    with js show ?case
      by (intro exI [of _ "JObj (ref_text r) ms # js"]) simp
  qed simp
  then show ?thesis using written_arr [of 1] by (auto simp: numeral_2_eq_2)
qed

lemma loads_refs_opt:
  assumes "\<And>j v. (\<And>w. into_slice (into_struct ref_field) zero_ref j [] = Some v) \<Longrightarrow> f k j x = Some (upd v)"
    and "upd [] = x" "utf8 k" "list_all ref_ok rs" "2 \<le> d" "loads d f rest (upd rs) z"
  shows "loads d f (refs_opt k rs @ rest) x z"
proof (cases "rs = []")
  case True
  with assms show ?thesis by (simp add: refs_opt_def if_set_def)
next
  case False
  obtain js where js: "written 2 (arr_text (map ref_text rs)) (JArr (arr_text (map ref_text rs)) js)"
    "into_elems (into_struct ref_field) zero_ref js [] = Some rs"
    using loads_refs [OF assms(4)] by blast
  have "written d (arr_text (map ref_text rs)) (JArr (arr_text (map ref_text rs)) js)"
    using written_deeper [OF js(1), of "d - 2"] unfolding le_add_diff_inverse [OF assms(5)] .
  moreover have "f k (JArr (arr_text (map ref_text rs)) js) x = Some (upd rs)"
    by (rule assms(1)) (simp add: into_slice_def js(2))
  ultimately show ?thesis
    using assms False by (auto simp: refs_opt_def if_set_def intro: loads_member)
qed

definition entity_ok :: "'a entity_scheme \<Rightarrow> bool" where
  "entity_ok e \<longleftrightarrow> utf8 (en_T e) \<and> utf8 (en_ID e)"

definition relation_ok :: "relation \<Rightarrow> bool" where
  "relation_ok v \<longleftrightarrow> utf8 (en_T v) \<and> utf8 (en_ID v) \<and> utf8 (rel_Type v) \<and> utf8 (rel_From v) \<and>
     utf8 (rel_To v) \<and> utf8 (rel_Quality v) \<and> utf8 (rel_Via v) \<and> list_all ref_ok (rel_Evidence v)"

lemma loads_relation:
  assumes "relation_ok v"
  shows "\<exists>ms. written 3 (relation_text v) (JObj (relation_text v) ms) \<and>
    assign_members relation_field ms zero_relation = Some v \<and>
    assign_members probe_field ms [] = Some (en_T v)"
proof -
  note ok = assms [unfolded relation_ok_def] simp_thms
  note others = folded str_field_def optional_members
  note field = relation_field_def entity_field_def Let_def folded setters set_refs_def
  show ?thesis
    unfolding relation_text_def numeral_3_eq_3 entity_members_def
    apply (rule loads_frame [rotated])
     apply (rule frame_members_intro, (simp only: ok; fail), (simp add: others; fail))
    apply (simp only: zero_relation_def)
    apply (rule loads_str, (simp add: field; fail), (simp add: utf8_ascii; fail), (simp only: ok; fail))
    apply (rule loads_str, (simp add: field; fail), (simp add: utf8_ascii; fail), (simp only: ok; fail))
    apply (rule loads_u64, (simp add: field; fail), (simp add: utf8_ascii; fail))
    apply (rule loads_bool_opt, (simp add: field; fail), (simp; fail), (simp add: utf8_ascii; fail))
    apply (rule loads_str, (simp add: field; fail), (simp add: utf8_ascii; fail), (simp only: ok; fail))
    apply (rule loads_str, (simp add: field; fail), (simp add: utf8_ascii; fail), (simp only: ok; fail))
    apply (rule loads_str, (simp add: field; fail), (simp add: utf8_ascii; fail), (simp only: ok; fail))
    apply (rule loads_str, (simp add: field; fail), (simp add: utf8_ascii; fail), (simp only: ok; fail))
    apply (rule loads_str_opt, (simp add: field; fail), (simp; fail), (simp add: utf8_ascii; fail), (simp only: ok; fail))
    apply (rule loads_refs_opt, (simp add: field; fail), (simp; fail), (simp add: utf8_ascii; fail), (simp only: ok; fail), simp)
    apply (rule loads_done)
    apply (rule relation.equality, simp_all)
    done
qed

definition unresolved_ok :: "unresolved \<Rightarrow> bool" where
  "unresolved_ok u \<longleftrightarrow> utf8 (en_T u) \<and> utf8 (en_ID u) \<and> utf8 (un_Kind u) \<and> utf8 (un_RefID u) \<and>
     utf8 (un_Reason u) \<and> utf8 (un_State u)"

lemma loads_unresolved:
  assumes "unresolved_ok u"
  shows "\<exists>ms. written 1 (unresolved_text u) (JObj (unresolved_text u) ms) \<and>
    assign_members unresolved_field ms zero_unresolved = Some u \<and>
    assign_members probe_field ms [] = Some (en_T u)"
proof -
  note ok = assms [unfolded unresolved_ok_def] simp_thms
  note others = folded str_field_def optional_members
  note field = unresolved_field_def entity_field_def Let_def folded setters
  show ?thesis
    unfolding unresolved_text_def One_nat_def entity_members_def
    apply (rule loads_frame [rotated])
     apply (rule frame_members_intro, (simp only: ok; fail), (simp add: others; fail))
    apply (simp only: zero_unresolved_def)
    apply (rule loads_str, (simp add: field; fail), (simp add: utf8_ascii; fail), (simp only: ok; fail))
    apply (rule loads_str, (simp add: field; fail), (simp add: utf8_ascii; fail), (simp only: ok; fail))
    apply (rule loads_u64, (simp add: field; fail), (simp add: utf8_ascii; fail))
    apply (rule loads_bool_opt, (simp add: field; fail), (simp; fail), (simp add: utf8_ascii; fail))
    apply (rule loads_str, (simp add: field; fail), (simp add: utf8_ascii; fail), (simp only: ok; fail))
    apply (rule loads_str_opt, (simp add: field; fail), (simp; fail), (simp add: utf8_ascii; fail), (simp only: ok; fail))
    apply (rule loads_str_opt, (simp add: field; fail), (simp; fail), (simp add: utf8_ascii; fail), (simp only: ok; fail))
    apply (rule loads_str, (simp add: field; fail), (simp add: utf8_ascii; fail), (simp only: ok; fail))
    apply (rule loads_done)
    apply (rule unresolved.equality, simp_all)
    done
qed

definition counts_ok :: "counts \<Rightarrow> bool" where
  "counts_ok c \<longleftrightarrow> int64_range (c_Nodes c) \<and> int64_range (c_Relations c) \<and> int64_range (c_Unresolved c)"

lemma loads_counts:
  assumes "counts_ok c"
  shows "\<exists>ms. written 1 (counts_text c) (JObj (counts_text c) ms) \<and>
    assign_members counts_field ms zero_counts = Some c"
proof -
  note ok = assms [unfolded counts_ok_def] simp_thms
  note field = counts_field_def Let_def folded setters
  show ?thesis
    unfolding counts_text_def One_nat_def
    apply (rule loads_object)
    apply (simp only: zero_counts_def)
    apply (rule loads_int, (simp add: field; fail), (simp add: utf8_ascii; fail), (simp only: ok; fail))
    apply (rule loads_int, (simp add: field; fail), (simp add: utf8_ascii; fail), (simp only: ok; fail))
    apply (rule loads_int, (simp add: field; fail), (simp add: utf8_ascii; fail), (simp only: ok; fail))
    apply (rule loads_done)
    apply (rule counts.equality, simp_all)
    done
qed

lemma loads_commit:
  assumes "utf8 (co_T c)" "utf8 (co_Digest c)" "counts_ok (co_Counts c)"
  shows "\<exists>ms. written 2 (commit_text c) (JObj (commit_text c) ms) \<and>
    assign_members commit_field ms zero_commit = Some c \<and>
    assign_members probe_field ms [] = Some (co_T c)"
proof -
  note ok = assms simp_thms
  note others = folded str_field_def optional_members
  note field = commit_field_def Let_def folded setters
  obtain ms where ms: "written 1 (counts_text (co_Counts c)) (JObj (counts_text (co_Counts c)) ms)"
    "assign_members counts_field ms zero_counts = Some (co_Counts c)"
    using loads_counts [OF assms(3)] by blast
  show ?thesis
    unfolding commit_text_def numeral_2_eq_2
    apply (rule loads_frame [rotated])
     apply (rule frame_members_intro, (simp only: ok; fail), (simp add: others; fail))
    apply (simp only: zero_commit_def)
    apply (rule loads_str, (simp add: field; fail), (simp add: utf8_ascii; fail), (simp only: ok; fail))
    apply (rule loads_str, (simp add: field; fail), (simp add: utf8_ascii; fail), (simp only: ok; fail))
    apply (rule loads_member [OF _ ms(1) [unfolded One_nat_def]])
      apply (simp add: utf8_ascii; fail)
     apply (simp add: field ms(2); fail)
    apply (rule loads_done)
    apply (rule commit.equality, simp_all)
    done
qed

text \<open>The attributes of a node: none, or a value as it is written, shallow enough to stand in a frame.\<close>

definition attrs_ok :: "string \<Rightarrow> bool" where
  "attrs_ok a \<longleftrightarrow> a = [] \<or> (\<exists>j. written 9999 a j)"

definition node_ok :: "node \<Rightarrow> bool" where
  "node_ok n \<longleftrightarrow> utf8 (en_T n) \<and> utf8 (en_ID n) \<and> utf8 (n_Kind n) \<and> utf8 (n_Parent n) \<and>
     utf8 (n_Stream n) \<and> pred_option ref_ok (n_Ref n) \<and> list_all ref_ok (n_Refs n) \<and> attrs_ok (n_Attrs n)"

lemma loads_ref_opt:
  assumes "\<And>j v. j \<noteq> JNull \<Longrightarrow> into_struct ref_field j zero_ref = Some v \<Longrightarrow> f k j x = Some (upd (Some v))"
    and "upd None = x" "utf8 k" "pred_option ref_ok r" "1 \<le> d" "loads d f rest (upd r) z"
  shows "loads d f ((case r of None \<Rightarrow> [] | Some r \<Rightarrow> [(k, ref_text r)]) @ rest) x z"
proof (cases r)
  case (Some v)
  obtain ms where ms: "written 1 (ref_text v) (JObj (ref_text v) ms)"
    "assign_members ref_field ms zero_ref = Some v"
    using assms(4) loads_ref Some by auto
  have "written d (ref_text v) (JObj (ref_text v) ms)"
    using written_deeper [OF ms(1), of "d - 1"] unfolding le_add_diff_inverse [OF assms(5)] .
  moreover have "f k (JObj (ref_text v) ms) x = Some (upd r)"
    unfolding Some by (rule assms(1)) (simp_all add: ms(2))
  ultimately show ?thesis using assms Some by (auto intro: loads_member)
qed (use assms in simp)

lemma loads_node:
  assumes "node_ok n"
  shows "\<exists>t ms. node_text n = Some t \<and> written 10000 t (JObj t ms) \<and>
    assign_members node_field ms zero_node = Some n \<and>
    assign_members probe_field ms [] = Some (en_T n)"
proof -
  note ok = assms [unfolded node_ok_def] simp_thms
  note others = folded str_field_def optional_members
  note field = node_field_def entity_field_def Let_def folded setters set_refs_def into_pointer_def
  define attrs where "attrs = (if n_Attrs n = [] then [] else [(''attrs'', n_Attrs n)])"
  have spelled: "node_text n = Some (obj_text (entity_members n (
        str_field ''kind'' (n_Kind n) # str_opt ''parent'' (n_Parent n) @ str_opt ''stream'' (n_Stream n) @
        (case n_Ref n of None \<Rightarrow> [] | Some r \<Rightarrow> [(''ref'', ref_text r)]) @
        refs_opt ''refs'' (n_Refs n) @ attrs @ [])))"
    using ok compact_id [of 9999 "n_Attrs n"] by (auto simp: node_text_def attrs_def attrs_ok_def)
  have "loads 9999 node_field (attrs @ []) (n\<lparr>n_Attrs := []\<rparr>) n"
  proof (cases "n_Attrs n = []")
    case True
    then show ?thesis by (auto simp: attrs_def intro!: loads_done node.equality)
  next
    case False
    then obtain j where j: "written 9999 (n_Attrs n) j" using ok by (auto simp: attrs_ok_def)
    then show ?thesis unfolding attrs_def using False
      by (auto intro!: loads_member [OF _ j] loads_Nil simp: utf8_ascii field into_raw_def raw_written)
  qed
  then have loads_attrs: "x = n\<lparr>n_Attrs := []\<rparr> \<Longrightarrow> loads 9999 node_field (attrs @ []) x n" for x
    by simp
  have "\<exists>ms. written (Suc 9999) (the (node_text n)) (JObj (the (node_text n)) ms) \<and>
      assign_members node_field ms zero_node = Some n \<and>
    assign_members probe_field ms [] = Some (en_T n)"
    unfolding spelled option.sel entity_members_def
    apply (rule loads_frame [rotated])
     apply (rule frame_members_intro, (simp only: ok; fail), (simp add: others attrs_def; fail))
    apply (simp only: zero_node_def)
    apply (rule loads_str, (simp add: field; fail), (simp add: utf8_ascii; fail), (simp only: ok; fail))
    apply (rule loads_str, (simp add: field; fail), (simp add: utf8_ascii; fail), (simp only: ok; fail))
    apply (rule loads_u64, (simp add: field; fail), (simp add: utf8_ascii; fail))
    apply (rule loads_bool_opt, (simp add: field; fail), (simp; fail), (simp add: utf8_ascii; fail))
    apply (rule loads_str, (simp add: field; fail), (simp add: utf8_ascii; fail), (simp only: ok; fail))
    apply (rule loads_str_opt, (simp add: field; fail), (simp; fail), (simp add: utf8_ascii; fail), (simp only: ok; fail))
    apply (rule loads_str_opt, (simp add: field; fail), (simp; fail), (simp add: utf8_ascii; fail), (simp only: ok; fail))
    apply (rule loads_ref_opt, (simp add: field; fail), (simp; fail), (simp add: utf8_ascii; fail), (simp only: ok; fail), simp)
    apply (rule loads_refs_opt, (simp add: field; fail), (simp; fail), (simp add: utf8_ascii; fail), (simp only: ok; fail), simp)
    apply (rule loads_attrs)
    apply (rule node.equality, simp_all)
    done
  then show ?thesis using spelled by simp
qed

end
