(* ===== verification/Flow_Round.thy ===== *)
theory Flow_Round
  imports Flow_Text
begin

text \<open>
  Writing and reading one round, \<^verbatim>\<open>pkg/sessionflow/round.go\<close>. A round file is a byte
  string, one frame a line. \<open>H\<close> is SHA-256 written in hexadecimal.
\<close>

section \<open>The writer\<close>

record writer =
  w_buf :: string
  w_header :: header
  w_counts :: counts
  w_closed :: bool

datatype write_error =
    WBadHeader header_error
  | WNoID string
  | WBadAttrs
  | WClosed

definition line_of :: "string \<Rightarrow> string" where
  "line_of t = t @ [CHR 0x0A]"

definition emit :: "string \<Rightarrow> writer \<Rightarrow> writer" where
  "emit t w = w\<lparr>w_buf := w_buf w @ line_of t\<rparr>"

definition stamp_header :: "header \<Rightarrow> header" where
  "stamp_header h = h\<lparr>h_T := FrameHeader, h_Schema := Schema\<rparr>"

definition NewWriter :: "header \<Rightarrow> write_error + writer" where
  "NewWriter h0 =
    (let h = stamp_header h0 in
     case Validate h of
       Some e \<Rightarrow> Inl (WBadHeader e)
     | None \<Rightarrow> Inr (emit (header_text h)
         \<lparr>w_buf = [], w_header = h, w_counts = zero_counts, w_closed = False\<rparr>))"

definition stamp_node :: "u64 \<Rightarrow> node \<Rightarrow> node" where
  "stamp_node round n = n\<lparr>en_T := FrameNode, en_Revision := round\<rparr>"

definition stamp_relation :: "u64 \<Rightarrow> relation \<Rightarrow> relation" where
  "stamp_relation round v = v\<lparr>en_T := FrameRelation, en_Revision := round\<rparr>"

definition stamp_unresolved :: "u64 \<Rightarrow> unresolved \<Rightarrow> unresolved" where
  "stamp_unresolved round u =
     (let u' = u\<lparr>en_T := FrameUnresolved, en_Revision := round\<rparr> in
      if un_State u' = [] then u'\<lparr>un_State := UnresolvedOpen\<rparr> else u')"

text \<open>The append operations return the error, if any, with the writer as it is left: a node whose
  attributes do not marshal has been counted already.\<close>

definition Writer_Node :: "node \<Rightarrow> writer \<Rightarrow> write_error option \<times> writer" where
  "Writer_Node n0 w =
    (let n = stamp_node (h_Round (w_header w)) n0 in
     if en_ID n = [] then (Some (WNoID FrameNode), w)
     else
       (let w' = w\<lparr>w_counts := (w_counts w)\<lparr>c_Nodes := c_Nodes (w_counts w) + 1\<rparr>\<rparr> in
        case node_text n of
          None \<Rightarrow> (Some WBadAttrs, w')
        | Some t \<Rightarrow> (None, emit t w')))"

definition Writer_Relation :: "relation \<Rightarrow> writer \<Rightarrow> write_error option \<times> writer" where
  "Writer_Relation v0 w =
    (let v = stamp_relation (h_Round (w_header w)) v0 in
     if en_ID v = [] then (Some (WNoID FrameRelation), w)
     else
       (None, emit (relation_text v)
         (w\<lparr>w_counts := (w_counts w)\<lparr>c_Relations := c_Relations (w_counts w) + 1\<rparr>\<rparr>)))"

definition Writer_Unresolved :: "unresolved \<Rightarrow> writer \<Rightarrow> write_error option \<times> writer" where
  "Writer_Unresolved u0 w =
    (let u = stamp_unresolved (h_Round (w_header w)) u0 in
     if en_ID u = [] then (Some (WNoID FrameUnresolved), w)
     else
       (None, emit (unresolved_text u)
         (w\<lparr>w_counts := (w_counts w)\<lparr>c_Unresolved := c_Unresolved (w_counts w) + 1\<rparr>\<rparr>)))"

definition Writer_Close :: "(string \<Rightarrow> string) \<Rightarrow> writer \<Rightarrow> write_error + (string \<times> string \<times> writer)" where
  "Writer_Close H w =
    (if w_closed w then Inl WClosed
     else
       (let digest = H (w_buf w);
            w' = (emit (commit_text \<lparr>co_T = FrameCommit, co_Digest = digest, co_Counts = w_counts w\<rparr>) w)
                   \<lparr>w_closed := True\<rparr>
        in Inr (w_buf w', digest, w')))"

section \<open>The reader\<close>

record round =
  rd_Header :: header
  rd_Nodes :: "node list"
  rd_Relations :: "relation list"
  rd_Unresolved :: "unresolved list"
  rd_Commit :: commit

datatype read_error =
    Undecodable nat
  | AfterCommit nat
  | NotHeader string
  | SecondHeader nat
  | BadFrame
  | BadHeader header_error
  | NoID nat string
  | DuplicateID nat string string string
  | WrongRevision nat u64 u64
  | NoPosition nat
  | PastRange nat u64 u64
  | BadBodies nat string bodies_error
  | MissingEndpoint nat string
  | BadState nat string string
  | UnknownFrame nat string
  | NoHeader
  | NoCommit
  | DigestMismatch string string
  | CountsMismatch counts counts

text \<open>The state of the loop of \<open>Read\<close>.\<close>

record reading =
  rg_out :: round
  rg_hashed :: string
  rg_sawHead :: bool
  rg_sawCommit :: bool
  rg_line :: nat
  rg_ids :: "(string \<times> string) list"

definition firstN :: "string \<Rightarrow> nat \<Rightarrow> string" where
  "firstN s n = (if length s \<le> n then s else take n s)"

text \<open>The lines of a file as \<open>readLine\<close> gives them: without the newline, and with what stands after
  the last newline when it is not empty.\<close>

fun lines_of :: "string \<Rightarrow> string list" where
  "lines_of [] = []"
| "lines_of (c # cs) =
    (if c = CHR 0x0A then [] # lines_of cs
     else case lines_of cs of
       [] \<Rightarrow> [[c]]
     | l # ls \<Rightarrow> (c # l) # ls)"

definition checkRevision :: "nat \<Rightarrow> u64 \<Rightarrow> u64 \<Rightarrow> read_error option" where
  "checkRevision line got round = (if got \<noteq> round then Some (WrongRevision line got round) else None)"

fun checkRefs_loop :: "nat \<Rightarrow> ref list \<Rightarrow> header \<Rightarrow> read_error option" where
  "checkRefs_loop line [] h = None"
| "checkRefs_loop line (r # rs) h =
    (if r_Seq r = 0 \<and> r_Row r = 0 then Some (NoPosition line)
     else if r_Seq r > h_ThroughSeq h then Some (PastRange line (r_Seq r) (h_ThroughSeq h))
     else checkRefs_loop line rs h)"

definition checkRefs :: "nat \<Rightarrow> ref option \<Rightarrow> ref list \<Rightarrow> header \<Rightarrow> read_error option" where
  "checkRefs line one many h =
     checkRefs_loop line (case one of None \<Rightarrow> many | Some r \<Rightarrow> r # many) h"

text \<open>An id that is not taken is then entered with its kind, by the functions that add an entity.\<close>

definition claim :: "nat \<Rightarrow> string \<Rightarrow> string \<Rightarrow> (string \<times> string) list \<Rightarrow> read_error option" where
  "claim line kind ident ids =
    (if ident = [] then Some (NoID line kind)
     else case map_of ids ident of
       Some prev \<Rightarrow> Some (DuplicateID line ident prev kind)
     | None \<Rightarrow> None)"

definition check :: "read_error option \<Rightarrow> read_error + unit" where
  "check e = (case e of Some x \<Rightarrow> Inl x | None \<Rightarrow> Inr ())"

definition unmarshal :: "(string \<Rightarrow> json \<Rightarrow> 'a \<Rightarrow> 'a option) \<Rightarrow> json \<Rightarrow> 'a \<Rightarrow> read_error + 'a" where
  "unmarshal f j x = (case into_struct f j x of None \<Rightarrow> Inl BadFrame | Some y \<Rightarrow> Inr y)"

definition read_header :: "json \<Rightarrow> reading \<Rightarrow> read_error + reading" where
  "read_header j s =
     bind_result (unmarshal header_field j (rd_Header (rg_out s))) (\<lambda>h.
     case Validate h of
       Some e \<Rightarrow> Inl (BadHeader e)
     | None \<Rightarrow> Inr (s\<lparr>rg_out := (rg_out s)\<lparr>rd_Header := h\<rparr>, rg_sawHead := True\<rparr>))"

definition add_node :: "node \<Rightarrow> reading \<Rightarrow> reading" where
  "add_node n s = s\<lparr>rg_out := (rg_out s)\<lparr>rd_Nodes := rd_Nodes (rg_out s) @ [n]\<rparr>,
     rg_ids := (en_ID n, ''node'') # rg_ids s\<rparr>"

definition add_relation :: "relation \<Rightarrow> reading \<Rightarrow> reading" where
  "add_relation v s = s\<lparr>rg_out := (rg_out s)\<lparr>rd_Relations := rd_Relations (rg_out s) @ [v]\<rparr>,
     rg_ids := (en_ID v, ''relation'') # rg_ids s\<rparr>"

definition add_unresolved :: "unresolved \<Rightarrow> reading \<Rightarrow> reading" where
  "add_unresolved u s = s\<lparr>rg_out := (rg_out s)\<lparr>rd_Unresolved := rd_Unresolved (rg_out s) @ [u]\<rparr>,
     rg_ids := (en_ID u, ''unresolved'') # rg_ids s\<rparr>"

definition read_node :: "json \<Rightarrow> reading \<Rightarrow> read_error + reading" where
  "read_node j s =
    (let line = rg_line s; h = rd_Header (rg_out s) in
     bind_result (unmarshal node_field j zero_node) (\<lambda>n.
     bind_result (check (claim line ''node'' (en_ID n) (rg_ids s))) (\<lambda>_.
     bind_result (check (checkRevision line (en_Revision n) (h_Round h))) (\<lambda>_.
     bind_result (check (checkRefs line (n_Ref n) (n_Refs n) h)) (\<lambda>_.
     case ProviderBodiesOf (n_Attrs n) of
       Inl e \<Rightarrow> Inl (BadBodies line (en_ID n) e)
     | Inr carried \<Rightarrow>
         bind_result (check (checkRefs line None (map pb_Ref carried) h)) (\<lambda>_.
         Inr (add_node n s)))))))"

definition read_relation :: "json \<Rightarrow> reading \<Rightarrow> read_error + reading" where
  "read_relation j s =
    (let line = rg_line s; h = rd_Header (rg_out s) in
     bind_result (unmarshal relation_field j zero_relation) (\<lambda>v.
     bind_result (check (claim line ''relation'' (en_ID v) (rg_ids s))) (\<lambda>_.
     bind_result (check (checkRevision line (en_Revision v) (h_Round h))) (\<lambda>_.
     if \<not> en_Tombstone v \<and> (rel_From v = [] \<or> rel_To v = [] \<or> rel_Type v = [])
     then Inl (MissingEndpoint line (en_ID v))
     else
       bind_result (check (checkRefs line None (rel_Evidence v) h)) (\<lambda>_.
       Inr (add_relation v s))))))"

definition read_unresolved :: "json \<Rightarrow> reading \<Rightarrow> read_error + reading" where
  "read_unresolved j s =
    (let line = rg_line s; h = rd_Header (rg_out s) in
     bind_result (unmarshal unresolved_field j zero_unresolved) (\<lambda>u.
     bind_result (check (claim line ''unresolved'' (en_ID u) (rg_ids s))) (\<lambda>_.
     bind_result (check (checkRevision line (en_Revision u) (h_Round h))) (\<lambda>_.
     if un_State u \<notin> {UnresolvedOpen, UnresolvedResolved, UnresolvedTerminal} \<and> \<not> en_Tombstone u
     then Inl (BadState line (en_ID u) (un_State u))
     else Inr (add_unresolved u s)))))"

definition read_commit :: "json \<Rightarrow> reading \<Rightarrow> read_error + reading" where
  "read_commit j s =
     bind_result (unmarshal commit_field j (rd_Commit (rg_out s))) (\<lambda>c.
     Inr (s\<lparr>rg_out := (rg_out s)\<lparr>rd_Commit := c\<rparr>, rg_sawCommit := True\<rparr>))"

definition cover :: "string \<Rightarrow> reading \<Rightarrow> reading" where
  "cover ln s = s\<lparr>rg_hashed := rg_hashed s @ line_of ln\<rparr>"

definition read_line :: "string \<Rightarrow> reading \<Rightarrow> read_error + reading" where
  "read_line ln s0 =
    (let s = s0\<lparr>rg_line := rg_line s0 + 1\<rparr>; line = rg_line s in
     case parse ln of
       None \<Rightarrow> Inl (Undecodable line)
     | Some j \<Rightarrow>
       (case into_struct probe_field j [] of
          None \<Rightarrow> Inl (Undecodable line)
        | Some t \<Rightarrow>
            if rg_sawCommit s then Inl (AfterCommit line)
            else if line = 1 \<and> t \<noteq> FrameHeader then Inl (NotHeader t)
            else if line > 1 \<and> t = FrameHeader then Inl (SecondHeader line)
            else if t = FrameHeader then map_sum id (cover ln) (read_header j s)
            else if t = FrameNode then map_sum id (cover ln) (read_node j s)
            else if t = FrameRelation then map_sum id (cover ln) (read_relation j s)
            else if t = FrameUnresolved then map_sum id (cover ln) (read_unresolved j s)
            else if t = FrameCommit then read_commit j s
            else Inl (UnknownFrame line t)))"

fun read_lines :: "string list \<Rightarrow> reading \<Rightarrow> read_error + reading" where
  "read_lines [] s = Inr s"
| "read_lines (l # ls) s = bind_result (read_line l s) (read_lines ls)"

definition empty_round :: round where
  "empty_round = \<lparr>rd_Header = zero_header, rd_Nodes = [], rd_Relations = [], rd_Unresolved = [],
     rd_Commit = zero_commit\<rparr>"

definition start_reading :: reading where
  "start_reading = \<lparr>rg_out = empty_round, rg_hashed = [], rg_sawHead = False, rg_sawCommit = False,
     rg_line = 0, rg_ids = []\<rparr>"

definition counts_of :: "round \<Rightarrow> counts" where
  "counts_of r = \<lparr>c_Nodes = int (length (rd_Nodes r)), c_Relations = int (length (rd_Relations r)),
     c_Unresolved = int (length (rd_Unresolved r))\<rparr>"

definition finish_reading :: "(string \<Rightarrow> string) \<Rightarrow> reading \<Rightarrow> read_error + round" where
  "finish_reading H s =
    (let out = rg_out s; got = H (rg_hashed s) in
     if \<not> rg_sawHead s then Inl NoHeader
     else if \<not> rg_sawCommit s then Inl NoCommit
     else if got \<noteq> co_Digest (rd_Commit out)
       then Inl (DigestMismatch (take 12 got) (firstN (co_Digest (rd_Commit out)) 12))
     else if counts_of out \<noteq> co_Counts (rd_Commit out)
       then Inl (CountsMismatch (counts_of out) (co_Counts (rd_Commit out)))
     else Inr out)"

definition Read :: "(string \<Rightarrow> string) \<Rightarrow> string \<Rightarrow> read_error + round" where
  "Read H data = bind_result (read_lines (lines_of data) start_reading) (finish_reading H)"

section \<open>What a round that was read promises\<close>

definition position_in :: "header \<Rightarrow> ref \<Rightarrow> bool" where
  "position_in h r \<longleftrightarrow> \<not> (r_Seq r = 0 \<and> r_Row r = 0) \<and> r_Seq r \<le> h_ThroughSeq h"

definition node_wf :: "header \<Rightarrow> node \<Rightarrow> bool" where
  "node_wf h n \<longleftrightarrow> en_Revision n = h_Round h \<and> pred_option (position_in h) (n_Ref n) \<and>
     list_all (position_in h) (n_Refs n) \<and>
     (\<exists>bodies. ProviderBodiesOf (n_Attrs n) = Inr bodies \<and> list_all (\<lambda>y. position_in h (pb_Ref y)) bodies)"

definition relation_wf :: "header \<Rightarrow> relation \<Rightarrow> bool" where
  "relation_wf h v \<longleftrightarrow> en_Revision v = h_Round h \<and> list_all (position_in h) (rel_Evidence v) \<and>
     (en_Tombstone v \<or> rel_From v \<noteq> [] \<and> rel_To v \<noteq> [] \<and> rel_Type v \<noteq> [])"

definition unresolved_wf :: "header \<Rightarrow> unresolved \<Rightarrow> bool" where
  "unresolved_wf h u \<longleftrightarrow> en_Revision u = h_Round h \<and>
     (en_Tombstone u \<or> un_State u \<in> {UnresolvedOpen, UnresolvedResolved, UnresolvedTerminal})"

definition round_ids :: "round \<Rightarrow> string list" where
  "round_ids r = map en_ID (rd_Nodes r) @ map en_ID (rd_Relations r) @ map en_ID (rd_Unresolved r)"

definition round_wf :: "round \<Rightarrow> bool" where
  "round_wf r \<longleftrightarrow> Validate (rd_Header r) = None \<and> distinct (round_ids r) \<and> [] \<notin> set (round_ids r) \<and>
     list_all (node_wf (rd_Header r)) (rd_Nodes r) \<and>
     list_all (relation_wf (rd_Header r)) (rd_Relations r) \<and>
     list_all (unresolved_wf (rd_Header r)) (rd_Unresolved r)"

lemma check_Inr [simp]: "check e = Inr u \<longleftrightarrow> e = None"
  by (simp add: check_def split: option.splits)

lemma unmarshal_Inr [simp]: "unmarshal f j x = Inr y \<longleftrightarrow> into_struct f j x = Some y"
  by (simp add: unmarshal_def split: option.splits)

lemma map_sum_Inr [simp]: "map_sum id g r = Inr y \<longleftrightarrow> (\<exists>x. r = Inr x \<and> y = g x)"
  by (cases r) auto

lemma claim_None: "claim line kind ident ids = None \<longleftrightarrow> ident \<noteq> [] \<and> ident \<notin> fst ` set ids"
proof (cases "ident = []")
  case False
  have "map_of ids ident = None \<longleftrightarrow> ident \<notin> fst ` set ids" by (rule map_of_eq_None_iff)
  with False show ?thesis unfolding claim_def by (cases "map_of ids ident") simp_all
qed (simp add: claim_def)

lemma checkRefs_loop_None: "checkRefs_loop line rs h = None \<longleftrightarrow> list_all (position_in h) rs"
  by (induction rs) (auto simp: position_in_def not_less)

lemma checkRefs_None: "checkRefs line one many h = None \<longleftrightarrow>
    pred_option (position_in h) one \<and> list_all (position_in h) many"
  by (auto simp: checkRefs_def checkRefs_loop_None split: option.splits)

lemma checkRevision_None [simp]: "checkRevision line got round = None \<longleftrightarrow> got = round"
  by (simp add: checkRevision_def)

text \<open>The invariant of the loop.\<close>

definition reading_inv :: "reading \<Rightarrow> bool" where
  "reading_inv s \<longleftrightarrow>
     (rg_sawHead s \<longrightarrow> Validate (rd_Header (rg_out s)) = None) \<and>
     (rg_line s = 0 \<longrightarrow> rg_out s = empty_round) \<and>
     distinct (round_ids (rg_out s)) \<and> [] \<notin> set (round_ids (rg_out s)) \<and>
     fst ` set (rg_ids s) = set (round_ids (rg_out s)) \<and>
     list_all (node_wf (rd_Header (rg_out s))) (rd_Nodes (rg_out s)) \<and>
     list_all (relation_wf (rd_Header (rg_out s))) (rd_Relations (rg_out s)) \<and>
     list_all (unresolved_wf (rd_Header (rg_out s))) (rd_Unresolved (rg_out s))"

lemma case_sum_Inr: "(case r of Inl e \<Rightarrow> Inl (f e) | Inr x \<Rightarrow> g x) = Inr y \<longleftrightarrow> (\<exists>x. r = Inr x \<and> g x = Inr y)"
  by (cases r) auto

definition fresh_id :: "string \<Rightarrow> reading \<Rightarrow> bool" where
  "fresh_id ident s \<longleftrightarrow> ident \<noteq> [] \<and> ident \<notin> fst ` set (rg_ids s)"

lemma read_node_Inr:
  "read_node j s = Inr s' \<longleftrightarrow>
     (\<exists>n. into_struct node_field j zero_node = Some n \<and> fresh_id (en_ID n) s \<and>
       node_wf (rd_Header (rg_out s)) n \<and> s' = add_node n s)"
proof -
  have "check (claim l k i (rg_ids s)) = Inr u \<longleftrightarrow> fresh_id i s" for l k i u
    by (simp add: fresh_id_def claim_None)
  moreover have "pred_option P None" for P by simp
  ultimately show ?thesis
    unfolding read_node_def Let_def bind_result_Inr_iff unmarshal_Inr
    by (auto simp: node_wf_def checkRefs_None list.pred_map comp_def case_sum_Inr)
qed

lemma read_relation_Inr:
  "read_relation j s = Inr s' \<longleftrightarrow>
     (\<exists>v. into_struct relation_field j zero_relation = Some v \<and> fresh_id (en_ID v) s \<and>
       relation_wf (rd_Header (rg_out s)) v \<and> s' = add_relation v s)"
proof -
  have "check (claim l k i (rg_ids s)) = Inr u \<longleftrightarrow> fresh_id i s" for l k i u
    by (simp add: fresh_id_def claim_None)
  then show ?thesis
    unfolding read_relation_def Let_def bind_result_Inr_iff unmarshal_Inr
    by (auto simp: relation_wf_def checkRefs_None split: if_splits)
qed

lemma read_unresolved_Inr:
  "read_unresolved j s = Inr s' \<longleftrightarrow>
     (\<exists>u. into_struct unresolved_field j zero_unresolved = Some u \<and> fresh_id (en_ID u) s \<and>
       unresolved_wf (rd_Header (rg_out s)) u \<and> s' = add_unresolved u s)"
proof -
  have "check (claim l k i (rg_ids s)) = Inr u \<longleftrightarrow> fresh_id i s" for l k i u
    by (simp add: fresh_id_def claim_None)
  then show ?thesis
    unfolding read_unresolved_def Let_def bind_result_Inr_iff unmarshal_Inr
    by (auto simp: unresolved_wf_def split: if_splits)
qed

lemma reading_inv_add:
  assumes "reading_inv s" "rg_line s \<noteq> 0"
  shows "fresh_id (en_ID n) s \<Longrightarrow> node_wf (rd_Header (rg_out s)) n \<Longrightarrow> reading_inv (cover ln (add_node n s))"
    and "fresh_id (en_ID v) s \<Longrightarrow> relation_wf (rd_Header (rg_out s)) v \<Longrightarrow> reading_inv (cover ln (add_relation v s))"
    and "fresh_id (en_ID u) s \<Longrightarrow> unresolved_wf (rd_Header (rg_out s)) u \<Longrightarrow> reading_inv (cover ln (add_unresolved u s))"
proof -
  have ids: "x \<notin> fst ` set (rg_ids s) \<longleftrightarrow> x \<notin> en_ID ` set (rd_Nodes (rg_out s)) \<and>
      x \<notin> en_ID ` set (rd_Relations (rg_out s)) \<and> x \<notin> en_ID ` set (rd_Unresolved (rg_out s))" for x
  proof -
    have "fst ` set (rg_ids s) = set (round_ids (rg_out s))" using assms(1) by (simp add: reading_inv_def)
    then show ?thesis by (auto simp: round_ids_def)
  qed
  { assume "fresh_id (en_ID n) s" "node_wf (rd_Header (rg_out s)) n"
    with assms ids [of "en_ID n"] show "reading_inv (cover ln (add_node n s))"
      unfolding reading_inv_def cover_def add_node_def fresh_id_def round_ids_def by auto }
  { assume "fresh_id (en_ID v) s" "relation_wf (rd_Header (rg_out s)) v"
    with assms ids [of "en_ID v"] show "reading_inv (cover ln (add_relation v s))"
      unfolding reading_inv_def cover_def add_relation_def fresh_id_def round_ids_def by auto }
  { assume "fresh_id (en_ID u) s" "unresolved_wf (rd_Header (rg_out s)) u"
    with assms ids [of "en_ID u"] show "reading_inv (cover ln (add_unresolved u s))"
      unfolding reading_inv_def cover_def add_unresolved_def fresh_id_def round_ids_def by auto }
qed

text \<open>What one line that is accepted does.\<close>

lemma read_line_cases:
  assumes "read_line ln s = Inr s'"
  obtains (header) j h where "rg_line s = 0" "\<not> rg_sawCommit s" "parse ln = Some j"
      "into_struct header_field j (rd_Header (rg_out s)) = Some h" "Validate h = None"
      "s' = cover ln (s\<lparr>rg_line := rg_line s + 1, rg_out := (rg_out s)\<lparr>rd_Header := h\<rparr>, rg_sawHead := True\<rparr>)"
  | (node) n where "\<not> rg_sawCommit s" "rg_line s \<noteq> 0" "fresh_id (en_ID n) s" "node_wf (rd_Header (rg_out s)) n"
      "s' = cover ln (add_node n (s\<lparr>rg_line := rg_line s + 1\<rparr>))"
  | (relation) v where "\<not> rg_sawCommit s" "rg_line s \<noteq> 0" "fresh_id (en_ID v) s" "relation_wf (rd_Header (rg_out s)) v"
      "s' = cover ln (add_relation v (s\<lparr>rg_line := rg_line s + 1\<rparr>))"
  | (unresolved) u where "\<not> rg_sawCommit s" "rg_line s \<noteq> 0" "fresh_id (en_ID u) s"
      "unresolved_wf (rd_Header (rg_out s)) u"
      "s' = cover ln (add_unresolved u (s\<lparr>rg_line := rg_line s + 1\<rparr>))"
  | (commit) c where "\<not> rg_sawCommit s" "rg_line s \<noteq> 0"
      "s' = s\<lparr>rg_line := rg_line s + 1, rg_out := (rg_out s)\<lparr>rd_Commit := c\<rparr>, rg_sawCommit := True\<rparr>"
proof -
  let ?s = "s\<lparr>rg_line := rg_line s + 1\<rparr>"
  obtain j t where j: "parse ln = Some j" "into_struct probe_field j [] = Some t"
    using assms by (auto simp: read_line_def Let_def split: option.splits)
  have com: "\<not> rg_sawCommit s" using assms j by (auto simp: read_line_def Let_def split: if_splits)
  have first_is: "t = FrameHeader \<longleftrightarrow> rg_line s = 0"
    using assms j com by (auto simp: read_line_def Let_def split: if_splits)
  have fresh: "fresh_id i ?s = fresh_id i s" for i by (simp add: fresh_id_def)
  consider "t = FrameHeader" | "t = FrameNode" | "t = FrameRelation" | "t = FrameUnresolved" | "t = FrameCommit"
    using assms j com by (auto simp: read_line_def Let_def split: if_splits)
  then show thesis
  proof cases
    case 1
    then obtain x where "read_header j ?s = Inr x" "s' = cover ln x"
      using assms j com first_is by (auto simp: read_line_def Let_def)
    then obtain h where "into_struct header_field j (rd_Header (rg_out s)) = Some h" "Validate h = None"
      "s' = cover ln (s\<lparr>rg_line := rg_line s + 1, rg_out := (rg_out s)\<lparr>rd_Header := h\<rparr>, rg_sawHead := True\<rparr>)"
      by (auto simp: read_header_def split: option.splits)
    with header com first_is 1 j show thesis by blast
  next
    case 2
    then obtain x where x: "read_node j ?s = Inr x" "s' = cover ln x"
      using assms j com first_is by (auto simp: read_line_def Let_def frame_names)
    then obtain n where "fresh_id (en_ID n) s" "node_wf (rd_Header (rg_out s)) n" "x = add_node n ?s"
      unfolding read_node_Inr fresh by auto
    with node com first_is 2 x show thesis by (simp add: frame_names)
  next
    case 3
    then obtain x where x: "read_relation j ?s = Inr x" "s' = cover ln x"
      using assms j com first_is by (auto simp: read_line_def Let_def frame_names)
    then obtain v where "fresh_id (en_ID v) s" "relation_wf (rd_Header (rg_out s)) v" "x = add_relation v ?s"
      unfolding read_relation_Inr fresh by auto
    with relation com first_is 3 x show thesis by (simp add: frame_names)
  next
    case 4
    then obtain x where x: "read_unresolved j ?s = Inr x" "s' = cover ln x"
      using assms j com first_is by (auto simp: read_line_def Let_def frame_names)
    then obtain u where "fresh_id (en_ID u) s" "unresolved_wf (rd_Header (rg_out s)) u" "x = add_unresolved u ?s"
      unfolding read_unresolved_Inr fresh by auto
    with unresolved com first_is 4 x show thesis by (simp add: frame_names)
  next
    case 5
    then have "read_commit j ?s = Inr s'"
      using assms j com first_is by (auto simp: read_line_def Let_def frame_names)
    with commit com first_is 5 show thesis by (auto simp: read_commit_def frame_names)
  qed
qed

lemma read_line_inv:
  assumes inv: "reading_inv s" and ok: "read_line ln s = Inr s'"
  shows "reading_inv s'"
proof -
  let ?s = "s\<lparr>rg_line := rg_line s + 1\<rparr>"
  have s: "reading_inv ?s" "rg_line ?s \<noteq> 0" "\<And>i. fresh_id i ?s = fresh_id i s"
    using inv by (auto simp: reading_inv_def fresh_id_def)
  from ok show ?thesis
  proof (cases rule: read_line_cases)
    case (header j h)
    with inv show ?thesis by (auto simp: reading_inv_def cover_def empty_round_def round_ids_def)
  next
    case (commit c)
    have "round_ids (rg_out s') = round_ids (rg_out s)" by (simp add: commit(3) round_ids_def)
    with inv commit show ?thesis unfolding reading_inv_def by simp
  qed (use reading_inv_add [OF s(1,2)] s(3) in simp_all)
qed

lemma read_lines_inv: "read_lines ls s = Inr s' \<Longrightarrow> reading_inv s \<Longrightarrow> reading_inv s'"
  by (induction ls arbitrary: s) (auto intro: read_line_inv)

lemma start_reading_inv: "reading_inv start_reading"
  by (simp add: reading_inv_def start_reading_def empty_round_def round_ids_def)

section \<open>The commit frame\<close>

text \<open>The bytes the digest of a round covers: every line but the last.\<close>

definition covered :: "string \<Rightarrow> string" where
  "covered data = concat (map line_of (butlast (lines_of data)))"

lemma lines_of_line: "CHR 0x0A \<notin> set t \<Longrightarrow> lines_of (line_of t @ x) = t # lines_of x"
proof (induction t)
  case Nil
  then show ?case by (simp add: line_of_def)
next
  case (Cons c t)
  then show ?case by (auto simp: line_of_def)
qed

lemma lines_of_lines: "\<forall>t \<in> set ts. CHR 0x0A \<notin> set t \<Longrightarrow> lines_of (concat (map line_of ts) @ x) = ts @ lines_of x"
  by (induction ts) (simp_all add: lines_of_line)

lemma lines_of_no_newline: "t \<in> set (lines_of data) \<Longrightarrow> CHR 0x0A \<notin> set t"
proof (induction data arbitrary: t)
  case (Cons c cs)
  then show ?case by (auto split: if_splits list.splits)
qed simp

lemma lines_of_covered: "lines_of (covered data) = butlast (lines_of data)"
  using lines_of_lines [of "butlast (lines_of data)" "[]"] lines_of_no_newline [of _ data]
  by (auto simp: covered_def dest: in_set_butlastD)

lemma read_line_hashed:
  assumes "read_line ln s = Inr s'"
  shows "\<not> rg_sawCommit s \<and> (rg_sawCommit s' \<longrightarrow> rg_hashed s' = rg_hashed s \<and>
      (\<exists>c. rg_out s' = (rg_out s)\<lparr>rd_Commit := c\<rparr>)) \<and>
    (\<not> rg_sawCommit s' \<longrightarrow> rg_hashed s' = rg_hashed s @ line_of ln)"
  using assms
  by (cases rule: read_line_cases) (auto simp: cover_def add_node_def add_relation_def add_unresolved_def)

lemma read_lines_committed:
  assumes "read_lines ls s = Inr s'" "rg_sawCommit s'" "\<not> rg_sawCommit s"
  shows "ls \<noteq> [] \<and> (\<exists>s1 c. read_lines (butlast ls) s = Inr s1 \<and> rg_out s' = (rg_out s1)\<lparr>rd_Commit := c\<rparr>) \<and>
    rg_hashed s' = rg_hashed s @ concat (map line_of (butlast ls))"
  using assms
proof (induction ls arbitrary: s)
  case (Cons l ls)
  then obtain s1 where s1: "read_line l s = Inr s1" "read_lines ls s1 = Inr s'" by auto
  show ?case
  proof (cases ls)
    case Nil
    with s1 Cons.prems read_line_hashed [OF s1(1)] show ?thesis by auto
  next
    case more: (Cons l2 ls2)
    then have "\<not> rg_sawCommit s1"
      using s1(2) read_line_hashed [of l2 s1] by auto
    with Cons.IH [OF s1(2)] Cons.prems s1(1) read_line_hashed [OF s1(1)] more show ?thesis by auto
  qed
qed simp

lemma Read_parts:
  assumes "Read H data = Inr r"
  obtains s where "read_lines (lines_of data) start_reading = Inr s" "rg_sawHead s" "rg_sawCommit s"
    "r = rg_out s" "H (rg_hashed s) = co_Digest (rd_Commit r)" "counts_of r = co_Counts (rd_Commit r)"
  using assms by (auto simp: Read_def finish_reading_def Let_def split: if_splits)

lemma Read_committed:
  assumes "Read H data = Inr r"
  obtains s c where "read_lines (butlast (lines_of data)) start_reading = Inr s"
    "r = (rg_out s)\<lparr>rd_Commit := c\<rparr>" "H (covered data) = co_Digest (rd_Commit r)"
    "counts_of r = co_Counts (rd_Commit r)"
proof -
  from assms obtain s where s: "read_lines (lines_of data) start_reading = Inr s" "rg_sawCommit s"
    "r = rg_out s" "H (rg_hashed s) = co_Digest (rd_Commit r)" "counts_of r = co_Counts (rd_Commit r)"
    by (rule Read_parts)
  have "\<not> rg_sawCommit start_reading" "rg_hashed start_reading = []" by (simp_all add: start_reading_def)
  with read_lines_committed [OF s(1,2)] s that show thesis by (auto simp: covered_def)
qed

text \<open>C2. Whatever bytes a round file holds, a round that \<open>Read\<close> accepts is well-formed: its header can
  be acted on, no id is empty or appears twice, every entity names the header's round, every reference
  (the provider bodies in the attributes included) is a position inside the range the header declares,
  relations and unresolved entries are complete unless they remove something, the tally of the commit
  frame is what the round holds, and its digest is that of every line before it.\<close>

theorem Read_sound:
  assumes "Read H data = Inr r"
  shows "round_wf r \<and> co_Counts (rd_Commit r) = counts_of r \<and> co_Digest (rd_Commit r) = H (covered data)"
proof -
  from assms obtain s where s: "read_lines (lines_of data) start_reading = Inr s" "rg_sawHead s" "r = rg_out s"
    by (rule Read_parts)
  have "reading_inv s" by (rule read_lines_inv [OF s(1) start_reading_inv])
  with s have "round_wf r" by (simp add: reading_inv_def round_wf_def)
  moreover obtain s' c where "H (covered data) = co_Digest (rd_Commit r)" "counts_of r = co_Counts (rd_Commit r)"
    using assms by (rule Read_committed)
  ultimately show ?thesis by simp
qed

lemma digest_binds:
  assumes "Read H data = Inr r" "Read H data' = Inr r'"
    and "co_Digest (rd_Commit r) = co_Digest (rd_Commit r')"
    and "inj_on H {covered data, covered data'}"
  shows "rd_Header r = rd_Header r' \<and> rd_Nodes r = rd_Nodes r' \<and> rd_Relations r = rd_Relations r' \<and>
    rd_Unresolved r = rd_Unresolved r' \<and> co_Counts (rd_Commit r) = co_Counts (rd_Commit r')"
proof -
  obtain s c where s: "read_lines (butlast (lines_of data)) start_reading = Inr s"
    "r = (rg_out s)\<lparr>rd_Commit := c\<rparr>" "H (covered data) = co_Digest (rd_Commit r)"
    "counts_of r = co_Counts (rd_Commit r)"
    using assms(1) by (rule Read_committed)
  obtain s' c' where s': "read_lines (butlast (lines_of data')) start_reading = Inr s'"
    "r' = (rg_out s')\<lparr>rd_Commit := c'\<rparr>" "H (covered data') = co_Digest (rd_Commit r')"
    "counts_of r' = co_Counts (rd_Commit r')"
    using assms(2) by (rule Read_committed)
  have "H (covered data) = H (covered data')" using assms(3) s(3) s'(3) by metis
  then have "covered data = covered data'" by (rule inj_onD [OF assms(4)]) auto
  then have "butlast (lines_of data) = butlast (lines_of data')"
    using lines_of_covered [of data] lines_of_covered [of data'] by simp
  then have "s = s'" using s(1) s'(1) by simp
  with s s' show ?thesis by (simp add: counts_of_def)
qed

text \<open>C3. The digest binds a round to its content: two round files whose commit frames name the same
  digest hold the same header, nodes, relations and unresolved entries and the same tally, where the
  hash does not collide on what the two digests cover.\<close>

theorem Read_tamper_evident:
  assumes "Read H data = Inr r" "Read H data' = Inr r'"
    and "co_Digest (rd_Commit r) = co_Digest (rd_Commit r')"
    and "inj_on H {covered data, covered data'}"
  shows "rd_Header r = rd_Header r' \<and> rd_Nodes r = rd_Nodes r' \<and> rd_Relations r = rd_Relations r' \<and>
    rd_Unresolved r = rd_Unresolved r' \<and> co_Counts (rd_Commit r) = co_Counts (rd_Commit r')"
  by (rule digest_binds [OF assms])

section \<open>A round written and read\<close>

text \<open>A producer's use of the writer: any sequence of appends, then \<open>Close\<close>.\<close>

datatype item = INode node | IRelation relation | IUnresolved unresolved

fun append_item :: "item \<Rightarrow> writer \<Rightarrow> write_error option \<times> writer" where
  "append_item (INode n) w = Writer_Node n w"
| "append_item (IRelation v) w = Writer_Relation v w"
| "append_item (IUnresolved u) w = Writer_Unresolved u w"

fun append_items :: "item list \<Rightarrow> writer \<Rightarrow> write_error + writer" where
  "append_items [] w = Inr w"
| "append_items (i # is) w =
    (case append_item i w of (Some e, _) \<Rightarrow> Inl e | (None, w') \<Rightarrow> append_items is w')"

definition write_round :: "(string \<Rightarrow> string) \<Rightarrow> header \<Rightarrow> item list \<Rightarrow> write_error + (string \<times> string)" where
  "write_round H h items =
     bind_result (NewWriter h) (\<lambda>w. bind_result (append_items items w) (\<lambda>w'.
     bind_result (Writer_Close H w') (\<lambda>(data, digest, _). Inr (data, digest))))"

fun stamp :: "u64 \<Rightarrow> item \<Rightarrow> item" where
  "stamp round (INode n) = INode (stamp_node round n)"
| "stamp round (IRelation v) = IRelation (stamp_relation round v)"
| "stamp round (IUnresolved u) = IUnresolved (stamp_unresolved round u)"

fun item_id :: "item \<Rightarrow> string" where
  "item_id (INode n) = en_ID n"
| "item_id (IRelation v) = en_ID v"
| "item_id (IUnresolved u) = en_ID u"

fun item_text :: "item \<Rightarrow> string" where
  "item_text (INode n) = the (node_text n)"
| "item_text (IRelation v) = relation_text v"
| "item_text (IUnresolved u) = unresolved_text u"

fun item_ok :: "header \<Rightarrow> item \<Rightarrow> bool" where
  "item_ok h (INode n) \<longleftrightarrow> node_ok n \<and> node_wf h n"
| "item_ok h (IRelation v) \<longleftrightarrow> relation_ok v \<and> relation_wf h v"
| "item_ok h (IUnresolved u) \<longleftrightarrow> unresolved_ok u \<and> unresolved_wf h u"

fun take_item :: "item \<Rightarrow> reading \<Rightarrow> reading" where
  "take_item (INode n) s = add_node n s"
| "take_item (IRelation v) s = add_relation v s"
| "take_item (IUnresolved u) s = add_unresolved u s"

definition nodes_of :: "item list \<Rightarrow> node list" where
  "nodes_of items = List.map_filter (\<lambda>i. case i of INode n \<Rightarrow> Some n | _ \<Rightarrow> None) items"

definition relations_of :: "item list \<Rightarrow> relation list" where
  "relations_of items = List.map_filter (\<lambda>i. case i of IRelation v \<Rightarrow> Some v | _ \<Rightarrow> None) items"

definition unresolved_of :: "item list \<Rightarrow> unresolved list" where
  "unresolved_of items = List.map_filter (\<lambda>i. case i of IUnresolved u \<Rightarrow> Some u | _ \<Rightarrow> None) items"

text \<open>What \<open>Read\<close> asks of a round: everything written is UTF-8 and fits an \<open>int\<close>, every id is
  there and is its own, and each entity is well-formed for the header.\<close>

definition producible :: "header \<Rightarrow> item list \<Rightarrow> bool" where
  "producible h items \<longleftrightarrow> header_ok h \<and> Validate h = None \<and> list_all (item_ok h) items \<and>
     distinct (map item_id items) \<and> [] \<notin> set (map item_id items) \<and> length items < 2 ^ 63"

fun typed :: "item \<Rightarrow> bool" where
  "typed (INode n) \<longleftrightarrow> en_T n = FrameNode"
| "typed (IRelation v) \<longleftrightarrow> en_T v = FrameRelation"
| "typed (IUnresolved u) \<longleftrightarrow> en_T u = FrameUnresolved"

lemma typed_stamp [simp]: "typed (stamp round i)"
  by (cases i) (auto simp: stamp_node_def stamp_relation_def stamp_unresolved_def Let_def)

lemma item_id_stamp [simp]: "item_id (stamp round i) = item_id i"
  by (cases i) (auto simp: stamp_node_def stamp_relation_def stamp_unresolved_def Let_def)

lemma header_line:
  assumes "header_ok h" "h_T h = FrameHeader" "Validate h = None"
  shows "read_line (header_text h) start_reading =
      Inr (cover (header_text h) (start_reading\<lparr>rg_line := 1, rg_out := empty_round\<lparr>rd_Header := h\<rparr>, rg_sawHead := True\<rparr>))"
    and "CHR 0x0A \<notin> set (header_text h)"
proof -
  obtain ms where ms: "written 1 (header_text h) (JObj (header_text h) ms)"
    "assign_members header_field ms zero_header = Some h" "assign_members probe_field ms [] = Some FrameHeader"
    using loads_header [OF assms(1)] assms(2) by auto
  show "CHR 0x0A \<notin> set (header_text h)" using written_no_newline [OF ms(1)] .
  show "read_line (header_text h) start_reading =
      Inr (cover (header_text h) (start_reading\<lparr>rg_line := 1, rg_out := empty_round\<lparr>rd_Header := h\<rparr>, rg_sawHead := True\<rparr>))"
    using parse_written [OF ms(1)] ms(2,3) assms(3)
    by (simp add: read_line_def read_header_def unmarshal_def start_reading_def empty_round_def)
qed

lemma item_frame:
  assumes "item_ok h i" "fresh_id (item_id i) s" "rd_Header (rg_out s) = h" "rg_line s \<noteq> 0" "\<not> rg_sawCommit s"
    "typed i"
  shows "read_line (item_text i) s = Inr (cover (item_text i) (take_item i (s\<lparr>rg_line := rg_line s + 1\<rparr>)))"
    and "CHR 0x0A \<notin> set (item_text i)"
proof -
  let ?s = "s\<lparr>rg_line := rg_line s + 1\<rparr>"
  have fresh: "fresh_id k ?s = fresh_id k s" for k by (simp add: fresh_id_def)
  have "read_line (item_text i) s = Inr (cover (item_text i) (take_item i ?s)) \<and> CHR 0x0A \<notin> set (item_text i)"
  proof (cases i)
    case (INode n)
    then obtain ms where ms: "written 10000 (item_text i) (JObj (item_text i) ms)"
      "assign_members node_field ms zero_node = Some n" "assign_members probe_field ms [] = Some FrameNode"
      using loads_node [of n] assms by auto
    have "read_node (JObj (item_text i) ms) ?s = Inr (add_node n ?s)"
      unfolding read_node_Inr fresh using ms(2) assms INode by (intro exI [of _ n]) simp
    then show ?thesis
      using parse_written [OF ms(1)] ms(3) assms(4,5) written_no_newline [OF ms(1)] INode
      by (simp add: read_line_def frame_names)
  next
    case (IRelation v)
    then obtain ms where ms: "written 3 (item_text i) (JObj (item_text i) ms)"
      "assign_members relation_field ms zero_relation = Some v" "assign_members probe_field ms [] = Some FrameRelation"
      using loads_relation [of v] assms by auto
    have "read_relation (JObj (item_text i) ms) ?s = Inr (add_relation v ?s)"
      unfolding read_relation_Inr fresh using ms(2) assms IRelation by (intro exI [of _ v]) simp
    then show ?thesis
      using parse_written [OF ms(1)] ms(3) assms(4,5) written_no_newline [OF ms(1)] IRelation
      by (simp add: read_line_def frame_names)
  next
    case (IUnresolved u)
    then obtain ms where ms: "written 1 (item_text i) (JObj (item_text i) ms)"
      "assign_members unresolved_field ms zero_unresolved = Some u" "assign_members probe_field ms [] = Some FrameUnresolved"
      using loads_unresolved [of u] assms by auto
    have "read_unresolved (JObj (item_text i) ms) ?s = Inr (add_unresolved u ?s)"
      unfolding read_unresolved_Inr fresh using ms(2) assms IUnresolved by (intro exI [of _ u]) simp
    then show ?thesis
      using parse_written [OF ms(1)] ms(3) assms(4,5) written_no_newline [OF ms(1)] IUnresolved
      by (simp add: read_line_def frame_names)
  qed
  then show "read_line (item_text i) s = Inr (cover (item_text i) (take_item i ?s))" "CHR 0x0A \<notin> set (item_text i)"
    by simp_all
qed

fun take_items :: "item list \<Rightarrow> reading \<Rightarrow> reading" where
  "take_items [] s = s"
| "take_items (i # is) s = take_items is (cover (item_text i) (take_item i (s\<lparr>rg_line := rg_line s + 1\<rparr>)))"

lemma take_item_parts:
  "rd_Header (rg_out (take_item i s)) = rd_Header (rg_out s)"
  "rd_Commit (rg_out (take_item i s)) = rd_Commit (rg_out s)"
  "rg_line (take_item i s) = rg_line s" "rg_sawCommit (take_item i s) = rg_sawCommit s"
  "rg_sawHead (take_item i s) = rg_sawHead s" "rg_hashed (take_item i s) = rg_hashed s"
  "fst ` set (rg_ids (take_item i s)) = insert (item_id i) (fst ` set (rg_ids s))"
  by (cases i; simp add: add_node_def add_relation_def add_unresolved_def)+

lemma cover_parts:
  "rg_out (cover ln s) = rg_out s" "rg_line (cover ln s) = rg_line s" "rg_sawCommit (cover ln s) = rg_sawCommit s"
  "rg_sawHead (cover ln s) = rg_sawHead s" "rg_hashed (cover ln s) = rg_hashed s @ line_of ln"
  "rg_ids (cover ln s) = rg_ids s"
  by (simp_all add: cover_def)

lemma read_items:
  "list_all (item_ok (rd_Header (rg_out s))) items \<Longrightarrow> list_all typed items \<Longrightarrow> distinct (map item_id items) \<Longrightarrow>
     [] \<notin> set (map item_id items) \<Longrightarrow> set (map item_id items) \<inter> fst ` set (rg_ids s) = {} \<Longrightarrow>
     rg_line s \<noteq> 0 \<Longrightarrow> \<not> rg_sawCommit s \<Longrightarrow>
     read_lines (map item_text items @ rest) s = read_lines rest (take_items items s) \<and>
     (\<forall>i \<in> set items. CHR 0x0A \<notin> set (item_text i))"
proof (induction items arbitrary: s)
  case (Cons i items)
  let ?s' = "cover (item_text i) (take_item i (s\<lparr>rg_line := rg_line s + 1\<rparr>))"
  have fresh: "fresh_id (item_id i) s" using Cons.prems by (auto simp: fresh_id_def)
  have line: "read_line (item_text i) s = Inr ?s'" "CHR 0x0A \<notin> set (item_text i)"
    using item_frame [OF _ fresh refl] Cons.prems by auto
  have "read_lines (map item_text items @ rest) ?s' = read_lines rest (take_items items ?s') \<and>
      (\<forall>i \<in> set items. CHR 0x0A \<notin> set (item_text i))"
    using Cons.prems by (intro Cons.IH) (auto simp: take_item_parts cover_parts)
  with line show ?case by simp
qed simp

lemma take_items_parts:
  "rd_Header (rg_out (take_items items s)) = rd_Header (rg_out s) \<and>
   rd_Commit (rg_out (take_items items s)) = rd_Commit (rg_out s) \<and>
   rg_sawCommit (take_items items s) = rg_sawCommit s \<and> rg_sawHead (take_items items s) = rg_sawHead s \<and>
   rg_line (take_items items s) = rg_line s + length items \<and>
   rg_hashed (take_items items s) = rg_hashed s @ concat (map (line_of \<circ> item_text) items) \<and>
   rd_Nodes (rg_out (take_items items s)) = rd_Nodes (rg_out s) @ nodes_of items \<and>
   rd_Relations (rg_out (take_items items s)) = rd_Relations (rg_out s) @ relations_of items \<and>
   rd_Unresolved (rg_out (take_items items s)) = rd_Unresolved (rg_out s) @ unresolved_of items"
proof (induction items arbitrary: s)
  case Nil
  then show ?case by (simp add: nodes_of_def relations_of_def unresolved_of_def map_filter_simps)
next
  case (Cons i items)
  then show ?case
    by (cases i) (simp_all add: take_item_parts cover_parts nodes_of_def relations_of_def unresolved_of_def
        map_filter_simps add_node_def add_relation_def add_unresolved_def)
qed

lemma append_items_written:
  assumes "list_all (item_ok h) (map (stamp (h_Round h)) items)" "[] \<notin> set (map item_id items)"
    "w_header w = h"
  shows "\<exists>w'. append_items items w = Inr w' \<and> w_closed w' = w_closed w \<and>
    w_buf w' = w_buf w @ concat (map (line_of \<circ> item_text) (map (stamp (h_Round h)) items)) \<and>
    w_counts w' = \<lparr>c_Nodes = c_Nodes (w_counts w) + int (length (nodes_of items)),
      c_Relations = c_Relations (w_counts w) + int (length (relations_of items)),
      c_Unresolved = c_Unresolved (w_counts w) + int (length (unresolved_of items))\<rparr>"
  using assms
proof (induction items arbitrary: w)
  case Nil
  then show ?case by (simp add: nodes_of_def relations_of_def unresolved_of_def map_filter_simps)
next
  case (Cons i items)
  have step: "\<exists>w1. append_item i w = (None, w1) \<and> w_header w1 = h \<and> w_closed w1 = w_closed w \<and>
      w_buf w1 = w_buf w @ line_of (item_text (stamp (h_Round h) i)) \<and>
      w_counts w1 = \<lparr>c_Nodes = c_Nodes (w_counts w) + int (length (nodes_of [i])),
        c_Relations = c_Relations (w_counts w) + int (length (relations_of [i])),
        c_Unresolved = c_Unresolved (w_counts w) + int (length (unresolved_of [i]))\<rparr>"
  proof (cases i)
    case (INode n)
    have "en_ID (stamp_node (h_Round h) n) \<noteq> []" using Cons.prems INode by (auto simp: stamp_node_def)
    moreover obtain t where "node_text (stamp_node (h_Round h) n) = Some t"
      using Cons.prems INode loads_node by auto
    ultimately show ?thesis using INode Cons.prems
      by (simp add: Writer_Node_def Let_def emit_def nodes_of_def relations_of_def unresolved_of_def map_filter_simps)
  next
    case (IRelation v)
    then show ?thesis using Cons.prems
      by (auto simp: Writer_Relation_def Let_def emit_def nodes_of_def relations_of_def unresolved_of_def
          map_filter_simps stamp_relation_def)
  next
    case (IUnresolved u)
    then show ?thesis using Cons.prems
      by (auto simp: Writer_Unresolved_def Let_def emit_def nodes_of_def relations_of_def unresolved_of_def
          map_filter_simps stamp_unresolved_def)
  qed
  then obtain w1 where w1: "append_item i w = (None, w1)" "w_header w1 = h" "w_closed w1 = w_closed w"
    "w_buf w1 = w_buf w @ line_of (item_text (stamp (h_Round h) i))"
    "w_counts w1 = \<lparr>c_Nodes = c_Nodes (w_counts w) + int (length (nodes_of [i])),
        c_Relations = c_Relations (w_counts w) + int (length (relations_of [i])),
        c_Unresolved = c_Unresolved (w_counts w) + int (length (unresolved_of [i]))\<rparr>"
    by blast
  have add: "length (nodes_of (i # items)) = length (nodes_of [i]) + length (nodes_of items)"
    "length (relations_of (i # items)) = length (relations_of [i]) + length (relations_of items)"
    "length (unresolved_of (i # items)) = length (unresolved_of [i]) + length (unresolved_of items)"
    by (cases i; simp add: nodes_of_def relations_of_def unresolved_of_def map_filter_simps)+
  from Cons.IH [of w1] Cons.prems w1 show ?case by (auto simp: add)
qed

lemma item_counts_small:
  "length (nodes_of items) \<le> length items" "length (relations_of items) \<le> length items"
  "length (unresolved_of items) \<le> length items"
  by (simp_all add: nodes_of_def relations_of_def unresolved_of_def map_filter_def length_filter_le)

lemma nodes_of_stamp:
  "length (nodes_of (map (stamp r) items)) = length (nodes_of items)"
  "length (relations_of (map (stamp r) items)) = length (relations_of items)"
  "length (unresolved_of (map (stamp r) items)) = length (unresolved_of items)"
proof (induction items)
  case (Cons i items)
  then show "length (nodes_of (map (stamp r) (i # items))) = length (nodes_of (i # items))"
    "length (relations_of (map (stamp r) (i # items))) = length (relations_of (i # items))"
    "length (unresolved_of (map (stamp r) (i # items))) = length (unresolved_of (i # items))"
    by (cases i; simp add: nodes_of_def relations_of_def unresolved_of_def map_filter_simps)+
qed (simp_all add: nodes_of_def relations_of_def unresolved_of_def map_filter_simps)

definition written_round :: "(string \<Rightarrow> string) \<Rightarrow> header \<Rightarrow> item list \<Rightarrow> string \<Rightarrow> round" where
  "written_round H h items digest =
     \<lparr>rd_Header = h, rd_Nodes = nodes_of items, rd_Relations = relations_of items,
      rd_Unresolved = unresolved_of items,
      rd_Commit = \<lparr>co_T = FrameCommit, co_Digest = digest,
        co_Counts = \<lparr>c_Nodes = int (length (nodes_of items)), c_Relations = int (length (relations_of items)),
          c_Unresolved = int (length (unresolved_of items))\<rparr>\<rparr>\<rparr>"

lemma write_then_read:
  assumes "producible (stamp_header h) (map (stamp (h_Round h)) items)" and "\<And>x. utf8 (H x)"
  shows "\<exists>data digest. write_round H h items = Inr (data, digest) \<and>
    Read H data = Inr (written_round H (stamp_header h) (map (stamp (h_Round h)) items) digest)"
proof -
  let ?h = "stamp_header h" and ?is = "map (stamp (h_Round h)) items"
  have round: "h_Round ?h = h_Round h" and ty: "h_T ?h = FrameHeader" by (simp_all add: stamp_header_def)
  note ok = assms(1) [unfolded producible_def]
  let ?w = "emit (header_text ?h) \<lparr>w_buf = [], w_header = ?h, w_counts = zero_counts, w_closed = False\<rparr>"
  have new: "NewWriter h = Inr ?w" using ok by (simp add: NewWriter_def Let_def)
  let ?counts = "\<lparr>c_Nodes = int (length (nodes_of ?is)), c_Relations = int (length (relations_of ?is)),
      c_Unresolved = int (length (unresolved_of ?is))\<rparr>"
  let ?buf = "line_of (header_text ?h) @ concat (map (line_of \<circ> item_text) ?is)"
  have "\<exists>w'. append_items items ?w = Inr w' \<and> w_closed w' = w_closed ?w \<and>
    w_buf w' = w_buf ?w @ concat (map (line_of \<circ> item_text) (map (stamp (h_Round ?h)) items)) \<and>
    w_counts w' = \<lparr>c_Nodes = c_Nodes (w_counts ?w) + int (length (nodes_of items)),
      c_Relations = c_Relations (w_counts ?w) + int (length (relations_of items)),
      c_Unresolved = c_Unresolved (w_counts ?w) + int (length (unresolved_of items))\<rparr>"
    by (rule append_items_written) (use ok round in \<open>auto simp: emit_def\<close>)
  then obtain w' where w': "append_items items ?w = Inr w'" "\<not> w_closed w'" "w_buf w' = ?buf" "w_counts w' = ?counts"
    by (auto simp: emit_def zero_counts_def round nodes_of_stamp)
  define c where "c = \<lparr>co_T = FrameCommit, co_Digest = H ?buf, co_Counts = ?counts\<rparr>"
  define data where "data = ?buf @ line_of (commit_text c)"
  have wrote: "write_round H h items = Inr (data, H ?buf)"
  proof -
    have "Writer_Close H w' = Inr (data, H ?buf, (emit (commit_text c) w')\<lparr>w_closed := True\<rparr>)"
      by (simp add: Writer_Close_def Let_def emit_def data_def c_def w'(2-4))
    then show ?thesis by (simp only: write_round_def new w'(1) bind_result_simps prod.case)
  qed
  let ?s0 = "cover (header_text ?h) (start_reading\<lparr>rg_line := 1, rg_out := empty_round\<lparr>rd_Header := ?h\<rparr>, rg_sawHead := True\<rparr>)"
  have head: "read_line (header_text ?h) start_reading = Inr ?s0" "CHR 0x0A \<notin> set (header_text ?h)"
    using header_line [OF _ ty] ok by auto
  have body: "read_lines (map item_text ?is @ rest) ?s0 = read_lines rest (take_items ?is ?s0)"
    "\<forall>i \<in> set ?is. CHR 0x0A \<notin> set (item_text i)" for rest
  proof -
    have "read_lines (map item_text ?is @ rest) ?s0 = read_lines rest (take_items ?is ?s0) \<and>
      (\<forall>i \<in> set ?is. CHR 0x0A \<notin> set (item_text i))"
      using ok by (intro read_items) (auto simp: cover_def start_reading_def list_all_iff)
    then show "read_lines (map item_text ?is @ rest) ?s0 = read_lines rest (take_items ?is ?s0)"
      "\<forall>i \<in> set ?is. CHR 0x0A \<notin> set (item_text i)" by simp_all
  qed
  let ?s1 = "take_items ?is ?s0"
  have s1: "rd_Header (rg_out ?s1) = ?h" "rd_Commit (rg_out ?s1) = zero_commit" "\<not> rg_sawCommit ?s1" "rg_sawHead ?s1"
    "rg_line ?s1 \<noteq> 0" "rg_hashed ?s1 = ?buf" "rd_Nodes (rg_out ?s1) = nodes_of ?is"
    "rd_Relations (rg_out ?s1) = relations_of ?is" "rd_Unresolved (rg_out ?s1) = unresolved_of ?is"
    using take_items_parts [of ?is ?s0] by (auto simp: cover_def start_reading_def empty_round_def)
  have counts: "counts_ok ?counts"
    using ok item_counts_small [of ?is] by (auto simp: counts_ok_def int64_range_def)
  have "utf8 (co_T c)" by (simp add: c_def FrameCommit_def utf8_ascii)
  then obtain ms where ms: "written 2 (commit_text c) (JObj (commit_text c) ms)"
    "assign_members commit_field ms zero_commit = Some c" "assign_members probe_field ms [] = Some FrameCommit"
    using loads_commit [of c] counts assms(2) by (auto simp: c_def)
  let ?s2 = "?s1\<lparr>rg_line := rg_line ?s1 + 1, rg_out := (rg_out ?s1)\<lparr>rd_Commit := c\<rparr>, rg_sawCommit := True\<rparr>"
  have tail: "read_line (commit_text c) ?s1 = Inr ?s2"
    using parse_written [OF ms(1)] ms(2,3) s1 by (simp add: read_line_def read_commit_def unmarshal_def frame_names)
  have lines: "lines_of data = header_text ?h # map item_text ?is @ [commit_text c]"
    using lines_of_lines [of "header_text ?h # map item_text ?is @ [commit_text c]" "[]"] head(2) body(2)
      written_no_newline [OF ms(1)]
    by (auto simp: data_def map_map comp_def)
  have "read_lines (lines_of data) start_reading = Inr ?s2"
    unfolding lines by (simp only: read_lines.simps head(1) bind_result_simps body(1) tail)
  moreover have "finish_reading H ?s2 = Inr (written_round H ?h ?is (H ?buf))"
    using s1 by (simp add: finish_reading_def Let_def counts_of_def written_round_def c_def round.equality)
  ultimately have "Read H data = Inr (written_round H ?h ?is (H ?buf))" by (simp add: Read_def)
  with wrote show ?thesis by blast
qed


section \<open>Witnesses\<close>

definition sample_hash :: "string \<Rightarrow> string" where
  "sample_hash x = ''0123456789abcdef''"

definition sample_header :: header where
  "sample_header = zero_header\<lparr>h_Conversation := ''c1'', h_Session := ''s1'', h_Round := 2,
     h_Previous := ''00ff'', h_FromSeq := 3, h_ThroughSeq := 5, h_InputDigest := ''ab'', h_Parser := ''p1'',
     h_Policy := ''q1'', h_Title := ''<a> & \"b\"'', h_Talks := 1, h_Changes := Some 0\<rparr>"

definition sample_items :: "item list" where
  "sample_items =
     [INode (zero_node\<lparr>en_ID := ''talk/main/a'', n_Kind := ''talk'', n_Ref := Some \<lparr>r_Seq = 3, r_Row = 1, r_Block = Some 2\<rparr>\<rparr>),
      IUnresolved (zero_unresolved\<lparr>en_ID := ''unres/tool/t1'', un_Kind := ''tool''\<rparr>),
      IRelation (zero_relation\<lparr>en_ID := ''rel/reply/a/b'', rel_Type := ''reply'', rel_From := ''a'', rel_To := ''b'',
        rel_Evidence := [\<lparr>r_Seq = 5, r_Row = 4, r_Block = None\<rparr>]\<rparr>),
      INode (zero_node\<lparr>en_ID := ''call/x'', en_Tombstone := True\<rparr>)]"

lemma sample_producible: "producible (stamp_header sample_header) (map (stamp (h_Round sample_header)) sample_items)"
proof -
  note vals = sample_header_def sample_items_def zero_values stamp_header_def stamp_node_def
    stamp_relation_def stamp_unresolved_def Schema_def frame_names UnresolvedOpen_def Let_def
  have "header_ok (stamp_header sample_header)"
    by (simp add: header_ok_def vals utf8_ascii int64_range_def)
  moreover have "Validate (stamp_header sample_header) = None"
    by (simp add: Validate_def vals)
  moreover have "list_all (item_ok (stamp_header sample_header)) (map (stamp (h_Round sample_header)) sample_items)"
    by (simp add: vals utf8_ascii node_ok_def node_wf_def relation_ok_def relation_wf_def unresolved_ok_def
        unresolved_wf_def attrs_ok_def ref_ok_def int64_range_def position_in_def ProviderBodiesOf_def)
  ultimately show ?thesis by (simp add: producible_def) (simp add: vals)
qed

lemma sample_written:
  "\<exists>data digest. write_round sample_hash sample_header sample_items = Inr (data, digest) \<and>
    Read sample_hash data =
      Inr (written_round sample_hash (stamp_header sample_header) (map (stamp (h_Round sample_header)) sample_items) digest)"
  by (rule write_then_read [OF sample_producible]) (simp add: sample_hash_def utf8_ascii)


theorem Read_sound_witness:
  "\<exists>data r. Read sample_hash data = Inr r \<and> round_wf r \<and> rd_Header r = stamp_header sample_header \<and>
     co_Digest (rd_Commit r) = sample_hash (covered data)"
proof -
  obtain data digest where read: "Read sample_hash data =
      Inr (written_round sample_hash (stamp_header sample_header) (map (stamp (h_Round sample_header)) sample_items) digest)"
    using sample_written by blast
  from Read_sound [OF read] read show ?thesis by (fastforce simp: written_round_def)
qed

theorem Read_tamper_evident_witness:
  "\<exists>data r r'. Read sample_hash data = Inr r \<and> Read sample_hash data = Inr r' \<and>
     inj_on sample_hash {covered data, covered data} \<and> rd_Nodes r = rd_Nodes r' \<and>
     rd_Header r' = stamp_header sample_header"
proof -
  define r where "r = written_round sample_hash (stamp_header sample_header)
    (map (stamp (h_Round sample_header)) sample_items)"
  obtain data digest where read: "Read sample_hash data = Inr (r digest)"
    using sample_written by (auto simp: r_def)
  have inj: "inj_on sample_hash {covered data, covered data}" by simp
  have "rd_Header (r digest) = stamp_header sample_header" by (simp add: r_def written_round_def)
  with Read_tamper_evident [OF read read refl inj] read inj show ?thesis by blast
qed

end
