(* ===== verification/Flow_Fold.thy ===== *)
theory Flow_Fold
  imports Flow_Order Flow_Round
begin

text \<open>
  The fold of a chain of rounds into a view, \<^verbatim>\<open>pkg/sessionflow/fold.go\<close>. The maps of
  a view are partial functions; a loop over a Go map is a loop over a list of its values in an order
  the runtime chooses, an argument of the operation. The children index is built on first use and
  dropped by every round that is applied.
\<close>

section \<open>The view\<close>

record view =
  v_Conversation :: string
  v_Session :: string
  v_Round :: u64
  v_Digest :: string
  v_ThroughSeq :: u64
  v_InputDigest :: string
  v_Parser :: string
  v_Policy :: string
  v_FromTime :: string
  v_ThroughTime :: string
  v_SessionFromTime :: string
  v_SessionThroughTime :: string
  v_Changes :: "int option"
  v_LinesAdded :: "int option"
  v_LinesRemoved :: "int option"
  v_LLMCalls :: "int option"
  v_Subagents :: "int option"
  v_BashRuns :: "int option"
  v_Nodes :: "string \<rightharpoonup> node"
  v_Relations :: "string \<rightharpoonup> relation"
  v_Unresolved :: "string \<rightharpoonup> unresolved"
  v_kids :: "(string \<Rightarrow> node list) option"

definition NewView :: "string \<Rightarrow> view" where
  "NewView conversation = \<lparr>v_Conversation = conversation, v_Session = [], v_Round = 0, v_Digest = [],
     v_ThroughSeq = 0, v_InputDigest = [], v_Parser = [], v_Policy = [], v_FromTime = [],
     v_ThroughTime = [], v_SessionFromTime = [], v_SessionThroughTime = [], v_Changes = None,
     v_LinesAdded = None, v_LinesRemoved = None, v_LLMCalls = None, v_Subagents = None,
     v_BashRuns = None, v_Nodes = Map.empty, v_Relations = Map.empty, v_Unresolved = Map.empty,
     v_kids = None\<rparr>"

datatype apply_error =
    OutOfOrder u64 u64
  | WrongPrevious u64 string string
  | OtherConversation u64 string string
  | OtherSession u64 string string
  | OtherParser u64 string string
  | OtherPolicy u64 string string

text \<open>One revision of an entity: a tombstone removes it, anything else replaces it.\<close>

definition put_entity :: "(string \<rightharpoonup> 'a entity_scheme) \<Rightarrow> 'a entity_scheme \<Rightarrow> string \<rightharpoonup> 'a entity_scheme" where
  "put_entity m x = (if en_Tombstone x then m(en_ID x := None) else m(en_ID x \<mapsto> x))"

definition adopt :: "round \<Rightarrow> view \<Rightarrow> view" where
  "adopt r v =
    (if v_Round v = 0 then
       (let h = rd_Header r; v' = v\<lparr>v_Session := h_Session h, v_Parser := h_Parser h, v_Policy := h_Policy h\<rparr>
        in if v_Conversation v' = [] then v'\<lparr>v_Conversation := h_Conversation h\<rparr> else v')
     else v)"

definition take_round :: "round \<Rightarrow> view \<Rightarrow> view" where
  "take_round r v =
    (let h = rd_Header r in v\<lparr>
       v_Nodes := foldl put_entity (v_Nodes v) (rd_Nodes r),
       v_Relations := foldl put_entity (v_Relations v) (rd_Relations r),
       v_Unresolved := foldl put_entity (v_Unresolved v) (rd_Unresolved r),
       v_kids := None,
       v_Round := h_Round h, v_Digest := co_Digest (rd_Commit r), v_ThroughSeq := h_ThroughSeq h,
       v_InputDigest := h_InputDigest h,
       v_FromTime := h_FromTime h, v_ThroughTime := h_ThroughTime h,
       v_SessionFromTime := h_SessionFromTime h, v_SessionThroughTime := h_SessionThroughTime h,
       v_Changes := h_Changes h, v_LinesAdded := h_LinesAdded h, v_LinesRemoved := h_LinesRemoved h,
       v_LLMCalls := h_LLMCalls h, v_Subagents := h_Subagents h, v_BashRuns := h_BashRuns h\<rparr>)"

text \<open>\<open>Apply\<close> gives the error, if any, and the view as it is left.\<close>

definition Apply :: "view \<Rightarrow> round \<Rightarrow> apply_error option \<times> view" where
  "Apply v0 r =
    (let h = rd_Header r in
     if h_Round h \<noteq> v_Round v0 + 1 then (Some (OutOfOrder (h_Round h) (v_Round v0)), v0)
     else if v_Round v0 > 0 \<and> h_Previous h \<noteq> v_Digest v0
       then (Some (WrongPrevious (h_Round h) (firstN (h_Previous h) 12) (firstN (v_Digest v0) 12)), v0)
     else
       (let v = adopt r v0 in
        if h_Conversation h \<noteq> v_Conversation v
          then (Some (OtherConversation (h_Round h) (h_Conversation h) (v_Conversation v)), v)
        else if h_Session h \<noteq> v_Session v then (Some (OtherSession (h_Round h) (h_Session h) (v_Session v)), v)
        else if h_Parser h \<noteq> v_Parser v then (Some (OtherParser (h_Round h) (h_Parser h) (v_Parser v)), v)
        else if h_Policy h \<noteq> v_Policy v then (Some (OtherPolicy (h_Round h) (h_Policy h) (v_Policy v)), v)
        else (None, take_round r v)))"

fun apply_all :: "round list \<Rightarrow> view \<Rightarrow> apply_error + view" where
  "apply_all [] v = Inr v"
| "apply_all (r # rs) v =
    (case Apply v r of (Some e, _) \<Rightarrow> Inl e | (None, v') \<Rightarrow> apply_all rs v')"

section \<open>Reading a view\<close>

definition by_id :: "'a entity_scheme \<Rightarrow> 'a entity_scheme \<Rightarrow> bool" where
  "by_id a b \<longleftrightarrow> en_ID a < en_ID b"

definition OpenUnresolved :: "unresolved list \<Rightarrow> unresolved list" where
  "OpenUnresolved entries = sort_by by_id (filter (\<lambda>u. un_State u = UnresolvedOpen) entries)"

definition NodesByKind :: "string \<Rightarrow> node list \<Rightarrow> node list" where
  "NodesByKind kind entries = sort_by by_id (filter (\<lambda>n. n_Kind n = kind) entries)"

definition add_kid :: "(string \<Rightarrow> node list) \<Rightarrow> node \<Rightarrow> string \<Rightarrow> node list" where
  "add_kid kids n = (if n_Parent n \<noteq> [] then kids(n_Parent n := kids (n_Parent n) @ [n]) else kids)"

definition indexLocked :: "node list \<Rightarrow> view \<Rightarrow> view" where
  "indexLocked entries v =
    (if v_kids v \<noteq> None then v
     else (let kids = foldl add_kid (\<lambda>_. []) entries
           in v\<lparr>v_kids := Some (\<lambda>p. sort_by Before (kids p))\<rparr>))"

definition Children :: "node list \<Rightarrow> string \<Rightarrow> view \<Rightarrow> node list \<times> view" where
  "Children entries ident v = (let v' = indexLocked entries v in (the (v_kids v') ident, v'))"

definition Roots :: "node list \<Rightarrow> view \<Rightarrow> node list" where
  "Roots entries v =
     InOrder (filter (\<lambda>n. n_Parent n = [] \<or> v_Nodes v (n_Parent n) = None) entries)"

text \<open>A list a loop over the map may run through.\<close>

definition iterates :: "'a list \<Rightarrow> (string \<rightharpoonup> 'a) \<Rightarrow> bool" where
  "iterates entries m \<longleftrightarrow> distinct entries \<and> set entries = ran m"

section \<open>The last writer wins\<close>

text \<open>What a list of revisions says of an id: the last one, unless that is a tombstone.\<close>

definition latest :: "'a entity_scheme list \<Rightarrow> string \<rightharpoonup> 'a entity_scheme" where
  "latest xs ident =
    (let ys = filter (\<lambda>x. en_ID x = ident) xs in
     if ys = [] \<or> en_Tombstone (last ys) then None else Some (last ys))"

lemma foldl_put_entity:
  "foldl put_entity m xs ident =
     (if \<exists>x \<in> set xs. en_ID x = ident then latest xs ident else m ident)"
proof (induction xs rule: rev_induct)
  case (snoc x xs)
  then show ?case
    by (cases "en_ID x = ident") (auto simp: put_entity_def latest_def Let_def)
qed simp

lemma latest_append:
  "latest (xs @ ys) ident = (if \<exists>y \<in> set ys. en_ID y = ident then latest ys ident else latest xs ident)"
  by (auto simp: latest_def Let_def filter_empty_conv last_append)

lemma foldl_put_latest: "foldl put_entity (latest xs) ys = latest (xs @ ys)"
  by (rule ext) (simp add: foldl_put_entity latest_append)

lemma latest_Nil [simp]: "latest [] = Map.empty"
  by (rule ext) (simp add: latest_def)

lemma latest_keyed: "latest xs k = Some x \<Longrightarrow> en_ID x = k \<and> x \<in> set xs \<and> \<not> en_Tombstone x"
  using last_in_set [of "filter (\<lambda>x. en_ID x = k) xs"]
  by (auto simp: latest_def Let_def split: if_splits)

lemma Apply_None:
  "Apply v r = (None, v') \<Longrightarrow>
     v' = take_round r (adopt r v) \<and> h_Round (rd_Header r) = v_Round v + 1 \<and>
     (v_Round v = 0 \<or> h_Previous (rd_Header r) = v_Digest v) \<and>
     h_Conversation (rd_Header r) = v_Conversation (adopt r v) \<and> h_Session (rd_Header r) = v_Session (adopt r v) \<and>
     h_Parser (rd_Header r) = v_Parser (adopt r v) \<and> h_Policy (rd_Header r) = v_Policy (adopt r v)"
  by (auto simp: Apply_def Let_def word_gt_0 split: if_splits)

lemma adopt_parts [simp]:
  "v_Nodes (adopt r v) = v_Nodes v" "v_Relations (adopt r v) = v_Relations v"
  "v_Unresolved (adopt r v) = v_Unresolved v" "v_kids (adopt r v) = v_kids v" "v_Round (adopt r v) = v_Round v"
  "v_Digest (adopt r v) = v_Digest v"
  by (simp_all add: adopt_def Let_def)

definition folded_entities :: "round list \<Rightarrow> view \<Rightarrow> bool" where
  "folded_entities rs v \<longleftrightarrow>
     v_Nodes v = latest (concat (map rd_Nodes rs)) \<and>
     v_Relations v = latest (concat (map rd_Relations rs)) \<and>
     v_Unresolved v = latest (concat (map rd_Unresolved rs))"

lemma apply_all_entities:
  "apply_all rs v = Inr v' \<Longrightarrow> folded_entities before v \<Longrightarrow> folded_entities (before @ rs) v'"
proof (induction rs arbitrary: v before)
  case (Cons r rs)
  then obtain v1 where v1: "Apply v r = (None, v1)" "apply_all rs v1 = Inr v'"
    by (auto split: prod.splits option.splits)
  have "folded_entities (before @ [r]) v1"
    using Apply_None [OF v1(1)] Cons.prems(2)
    by (simp add: folded_entities_def take_round_def Let_def foldl_put_latest)
  from Cons.IH [OF v1(2) this] show ?case by simp
qed simp

section \<open>What folds\<close>

text \<open>Rounds that are one chain of a conversation: numbered from the one after \<open>n\<close>, each naming the
  digest of the one before, of one conversation, session, parser and policy.\<close>

fun linked :: "u64 \<Rightarrow> string \<Rightarrow> round list \<Rightarrow> bool" where
  "linked n digest [] \<longleftrightarrow> True"
| "linked n digest (r # rs) \<longleftrightarrow>
     h_Round (rd_Header r) = n + 1 \<and> (n > 0 \<longrightarrow> h_Previous (rd_Header r) = digest) \<and>
     linked (n + 1) (co_Digest (rd_Commit r)) rs"

definition one_interpretation :: "string \<Rightarrow> round list \<Rightarrow> bool" where
  "one_interpretation c rs \<longleftrightarrow> (\<exists>se pa po. \<forall>r \<in> set rs. h_Conversation (rd_Header r) = c \<and>
     h_Session (rd_Header r) = se \<and> h_Parser (rd_Header r) = pa \<and> h_Policy (rd_Header r) = po)"

lemma Apply_ok_iff:
  assumes "v_Round v > 0"
  shows "fst (Apply v r) = None \<longleftrightarrow>
    h_Round (rd_Header r) = v_Round v + 1 \<and> h_Previous (rd_Header r) = v_Digest v \<and>
    h_Conversation (rd_Header r) = v_Conversation v \<and> h_Session (rd_Header r) = v_Session v \<and>
    h_Parser (rd_Header r) = v_Parser v \<and> h_Policy (rd_Header r) = v_Policy v"
  using assms by (auto simp: Apply_def adopt_def Let_def)

lemma take_round_parts:
  "v_Round (take_round r v) = h_Round (rd_Header r)" "v_Digest (take_round r v) = co_Digest (rd_Commit r)"
  "v_Conversation (take_round r v) = v_Conversation v" "v_Session (take_round r v) = v_Session v"
  "v_Parser (take_round r v) = v_Parser v" "v_Policy (take_round r v) = v_Policy v"
  "v_kids (take_round r v) = None"
  by (simp_all add: take_round_def Let_def)

lemma apply_all_iff:
  assumes "v_Round v > 0" "unat (v_Round v) + length rs < 2 ^ 64"
  shows "(\<exists>v'. apply_all rs v = Inr v') \<longleftrightarrow> linked (v_Round v) (v_Digest v) rs \<and>
    (\<forall>r \<in> set rs. h_Conversation (rd_Header r) = v_Conversation v \<and> h_Session (rd_Header r) = v_Session v \<and>
      h_Parser (rd_Header r) = v_Parser v \<and> h_Policy (rd_Header r) = v_Policy v)"
  using assms
proof (induction rs arbitrary: v)
  case (Cons r rs)
  show ?case
  proof (cases "fst (Apply v r) = None")
    case False
    then show ?thesis
      unfolding Apply_ok_iff [OF Cons.prems(1)] using Cons.prems(1)
      by (cases "Apply v r") (auto simp: Apply_def adopt_def Let_def split: if_splits)
  next
    case True
    then obtain v1 where v1: "Apply v r = (None, v1)" by (cases "Apply v r") auto
    have next_round: "unat (v_Round v + 1) = unat (v_Round v) + 1"
      using Cons.prems(2) by (simp add: unat_word_ariths)
    note step = Apply_None [OF v1]
    have adopted: "adopt r v = v" using Cons.prems(1) by (simp add: adopt_def)
    have v1_parts: "v_Round v1 = v_Round v + 1" "v_Digest v1 = co_Digest (rd_Commit r)"
      "v_Conversation v1 = v_Conversation v" "v_Session v1 = v_Session v" "v_Parser v1 = v_Parser v"
      "v_Policy v1 = v_Policy v"
      using step by (simp_all add: adopted take_round_parts)
    have "v_Round v1 > 0" using next_round v1_parts(1) by (simp add: word_gt_0 unat_gt_0) (metis Zero_not_Suc unat_0)
    moreover have "unat (v_Round v1) + length rs < 2 ^ 64" using Cons.prems(2) next_round v1_parts(1) by simp
    ultimately show ?thesis
      using Cons.IH [of v1] v1 v1_parts True [unfolded Apply_ok_iff [OF Cons.prems(1)]] Cons.prems(1) by simp
  qed
qed simp

lemma NewView_round: "v_Round (NewView c) = 0" "v_Conversation (NewView c) = c"
  by (simp_all add: NewView_def)

lemma apply_first:
  assumes "c \<noteq> []"
  shows "fst (Apply (NewView c) r) = None \<longleftrightarrow> h_Round (rd_Header r) = 1 \<and> h_Conversation (rd_Header r) = c"
    and "Apply (NewView c) r = (None, v) \<Longrightarrow> v = take_round r ((NewView c)\<lparr>v_Session := h_Session (rd_Header r),
      v_Parser := h_Parser (rd_Header r), v_Policy := h_Policy (rd_Header r)\<rparr>)"
  using assms by (auto simp: Apply_def adopt_def NewView_def Let_def split: if_splits)

text \<open>C10. A fold succeeds exactly on a chain: rounds fold into a new view of a conversation just when
  they are numbered from one without a gap, each names the digest of the one before, and all are of that
  conversation and of one session, parser and policy.\<close>

theorem fold_exactly_chains:
  assumes "c \<noteq> []" "length rounds < 2 ^ 64"
  shows "(\<exists>v. apply_all rounds (NewView c) = Inr v) \<longleftrightarrow>
    linked 0 [] rounds \<and> one_interpretation c rounds"
proof (cases rounds)
  case Nil
  then show ?thesis by (simp add: one_interpretation_def)
next
  case (Cons r rs)
  let ?v = "take_round r ((NewView c)\<lparr>v_Session := h_Session (rd_Header r),
      v_Parser := h_Parser (rd_Header r), v_Policy := h_Policy (rd_Header r)\<rparr>)"
  show ?thesis
  proof (cases "fst (Apply (NewView c) r) = None")
    case False
    then have "\<not> (\<exists>v. apply_all rounds (NewView c) = Inr v)"
      using Cons by (cases "Apply (NewView c) r") auto
    with False show ?thesis
      unfolding apply_first(1) [OF assms(1)] by (auto simp: Cons one_interpretation_def)
  next
    case True
    then obtain v where v: "Apply (NewView c) r = (None, v)" by (cases "Apply (NewView c) r") auto
    then have v_is: "v = ?v" by (rule apply_first(2) [OF assms(1)])
    have ok: "h_Round (rd_Header r) = 1" "h_Conversation (rd_Header r) = c"
      using True unfolding apply_first(1) [OF assms(1)] by auto
    have parts: "v_Round v = 1" "v_Digest v = co_Digest (rd_Commit r)" "v_Conversation v = c"
      "v_Session v = h_Session (rd_Header r)" "v_Parser v = h_Parser (rd_Header r)"
      "v_Policy v = h_Policy (rd_Header r)"
      by (simp_all add: v_is take_round_parts ok NewView_round)
    have "(\<exists>v'. apply_all rs v = Inr v') \<longleftrightarrow> linked 1 (co_Digest (rd_Commit r)) rs \<and>
      (\<forall>x \<in> set rs. h_Conversation (rd_Header x) = c \<and> h_Session (rd_Header x) = h_Session (rd_Header r) \<and>
        h_Parser (rd_Header x) = h_Parser (rd_Header r) \<and> h_Policy (rd_Header x) = h_Policy (rd_Header r))"
      using apply_all_iff [of v rs] assms(2) by (simp add: parts Cons)
    moreover have "apply_all rounds (NewView c) = apply_all rs v" by (simp add: Cons v)
    ultimately show ?thesis using ok by (auto simp: Cons one_interpretation_def)
  qed
qed

text \<open>C11. The last writer wins, and absence means unchanged: after a fold an id stands for the last
  revision of it in chain order, whole, unless that revision is a tombstone, and for nothing when no
  round names it. So it is for nodes, for relations and for unresolved entries.\<close>

theorem fold_last_writer_wins:
  assumes "apply_all rounds (NewView c) = Inr v"
  shows "v_Nodes v = latest (concat (map rd_Nodes rounds)) \<and>
    v_Relations v = latest (concat (map rd_Relations rounds)) \<and>
    v_Unresolved v = latest (concat (map rd_Unresolved rounds))"
proof -
  have "folded_entities [] (NewView c)" by (simp add: folded_entities_def NewView_def)
  from apply_all_entities [OF assms this] show ?thesis by (simp add: folded_entities_def)
qed

section \<open>The children index\<close>

text \<open>The views a process can hold: a new one, one a round was applied to (or was refused by), and one
  whose children were asked for, the loop over its nodes running in any order.\<close>

inductive held_view :: "string \<Rightarrow> view \<Rightarrow> bool" for c where
  held_new: "held_view c (NewView c)"
| held_apply: "held_view c v \<Longrightarrow> held_view c (snd (Apply v r))"
| held_children: "held_view c v \<Longrightarrow> iterates entries (v_Nodes v) \<Longrightarrow>
    held_view c (snd (Children entries ident v))"

inductive_cases held_viewE: "held_view c v"

definition keyed :: "(string \<rightharpoonup> 'a entity_scheme) \<Rightarrow> bool" where
  "keyed m \<longleftrightarrow> (\<forall>k x. m k = Some x \<longrightarrow> en_ID x = k)"

definition kids_fresh :: "view \<Rightarrow> bool" where
  "kids_fresh v \<longleftrightarrow> (\<forall>kids. v_kids v = Some kids \<longrightarrow>
     (\<exists>entries. iterates entries (v_Nodes v) \<and>
       kids = (\<lambda>p. InOrder (filter (\<lambda>n. n_Parent n \<noteq> [] \<and> n_Parent n = p) entries))))"

lemma keyed_put_entity: "keyed m \<Longrightarrow> keyed (put_entity m x)"
  by (auto simp: keyed_def put_entity_def)

lemma keyed_foldl: "keyed m \<Longrightarrow> keyed (foldl put_entity m xs)"
  by (induction xs arbitrary: m) (simp_all add: keyed_put_entity)

lemma keyed_inj: "keyed m \<Longrightarrow> inj_on en_ID (ran m)"
  by (auto simp: keyed_def ran_def inj_on_def)

lemma foldl_add_kid:
  "foldl add_kid kids entries p = kids p @ filter (\<lambda>n. n_Parent n \<noteq> [] \<and> n_Parent n = p) entries"
  by (induction entries arbitrary: kids) (auto simp: add_kid_def)

lemma Apply_kids:
  "v_kids (snd (Apply v r)) = None \<and> v_Nodes (snd (Apply v r)) = foldl put_entity (v_Nodes v) (rd_Nodes r) \<or>
   v_kids (snd (Apply v r)) = v_kids v \<and> v_Nodes (snd (Apply v r)) = v_Nodes v"
  by (auto simp: Apply_def Let_def take_round_def)

lemma Children_nodes [simp]: "v_Nodes (snd (Children entries ident v)) = v_Nodes v"
  by (simp add: Children_def indexLocked_def Let_def)

lemma held_view_inv: "held_view c v \<Longrightarrow> keyed (v_Nodes v) \<and> kids_fresh v"
proof (induction rule: held_view.induct)
  case held_new
  then show ?case by (simp add: NewView_def keyed_def kids_fresh_def)
next
  case (held_apply v r)
  then show ?case
    using Apply_kids [of v r] keyed_foldl [of "v_Nodes v" "rd_Nodes r"] by (auto simp: kids_fresh_def)
next
  case (held_children v entries ident)
  then show ?case
    by (cases "v_kids v = None")
      (auto simp: Children_def indexLocked_def Let_def kids_fresh_def foldl_add_kid InOrder_def)
qed

lemma iterates_mset: "iterates xs m \<Longrightarrow> iterates ys m \<Longrightarrow> mset xs = mset ys"
  using set_eq_iff_mset_eq_distinct [of xs ys] by (simp add: iterates_def)

text \<open>C13. The children index is never stale: in whatever order rounds are applied, refused and children
  asked for, \<open>Children\<close> answers with the nodes of the view as it is that have this parent, in display
  order, whatever order the loops over the nodes run in now or ran in when the index was built.\<close>

theorem Children_current:
  assumes "held_view c v" "iterates entries (v_Nodes v)" "ident \<noteq> []"
  shows "fst (Children entries ident v) = InOrder (filter (\<lambda>n. n_Parent n = ident) entries)"
proof (cases "v_kids v")
  case None
  with assms(3) show ?thesis
    by (auto simp: Children_def indexLocked_def Let_def foldl_add_kid InOrder_def intro!: arg_cong [of _ _ "sort_by Before"] filter_cong)
next
  case (Some kids)
  note inv = held_view_inv [OF assms(1)]
  obtain es where es: "iterates es (v_Nodes v)"
    "kids = (\<lambda>p. InOrder (filter (\<lambda>n. n_Parent n \<noteq> [] \<and> n_Parent n = p) es))"
    using inv Some by (auto simp: kids_fresh_def)
  have same: "filter (\<lambda>n. n_Parent n \<noteq> [] \<and> n_Parent n = ident) es = filter (\<lambda>n. n_Parent n = ident) es"
    using assms(3) by (auto intro: filter_cong)
  have "inj_on en_ID (set (filter (\<lambda>n. n_Parent n = ident) entries))"
    using keyed_inj [of "v_Nodes v"] inv assms(2) by (auto simp: iterates_def intro: inj_on_subset)
  note total = Before_total [OF this]
  have "mset (filter (\<lambda>n. n_Parent n = ident) es) = mset (filter (\<lambda>n. n_Parent n = ident) entries)"
    using iterates_mset [OF es(1) assms(2)] by (simp add: mset_filter)
  then have "InOrder (filter (\<lambda>n. n_Parent n = ident) es) = InOrder (filter (\<lambda>n. n_Parent n = ident) entries)"
    unfolding InOrder_def by (intro total_less.sort_by_eqI [OF total] node_order.sorted_sort_by) simp_all
  then show ?thesis using Some es(2) same by (simp add: Children_def indexLocked_def Let_def)
qed

text \<open>No gap is dropped: \<open>OpenUnresolved\<close> lists exactly the entries of the view that are open, each
  once, by ascending id, whatever order the loop over the entries runs in.\<close>

theorem OpenUnresolved_complete:
  assumes "keyed m" "iterates entries m"
  shows "set (OpenUnresolved entries) = {u \<in> ran m. un_State u = UnresolvedOpen} \<and>
    sorted_wrt (\<lambda>a b. en_ID a < en_ID b) (OpenUnresolved entries) \<and>
    (\<forall>others. iterates others m \<longrightarrow> OpenUnresolved others = OpenUnresolved entries)"
proof -
  let ?open = "filter (\<lambda>u. un_State u = UnresolvedOpen)"
  have inj: "inj_on en_ID (ran m)" by (rule keyed_inj [OF assms(1)])
  have total: "total_less by_id (ran m)"
  proof (unfold_locales)
    fix x y assume "x \<in> ran m" "y \<in> ran m" "x \<noteq> y"
    then have "en_ID x \<noteq> en_ID y" using inj by (metis inj_onD)
    then show "by_id x y \<or> by_id y x" unfolding by_id_def by (rule linorder_neqE) auto
  qed (auto simp: by_id_def)
  have sub: "set (?open es) \<subseteq> ran m" if "iterates es m" for es using that by (auto simp: iterates_def)
  have sorted: "sorted_by by_id (OpenUnresolved es)" if "iterates es m" for es
    unfolding OpenUnresolved_def
    by (rule weak_less.sorted_sort_by [OF total_less.axioms(1) [OF total] sub [OF that]])
  have "OpenUnresolved others = OpenUnresolved entries" if "iterates others m" for others
    unfolding OpenUnresolved_def [of entries]
  proof (rule total_less.sort_by_eqI [OF total sorted [OF that] _ sub [OF assms(2)]])
    show "mset (OpenUnresolved others) = mset (?open entries)"
      using iterates_mset [OF that assms(2)] by (simp add: OpenUnresolved_def)
  qed
  moreover have "distinct (OpenUnresolved entries)" using assms(2) by (simp add: OpenUnresolved_def iterates_def)
  moreover have set: "set (OpenUnresolved entries) = {u \<in> ran m. un_State u = UnresolvedOpen}"
    using assms(2) by (auto simp: OpenUnresolved_def iterates_def)
  moreover have "sorted_wrt (\<lambda>a b. en_ID a < en_ID b) us"
    if "sorted_by by_id us" "distinct us" "set us \<subseteq> ran m" for us
    using that
  proof (induction us)
    case (Cons u us)
    then have "en_ID u \<noteq> en_ID w" if "w \<in> set us" for w
      using inj that by (auto simp: inj_on_def)
    with Cons show ?case by (auto simp: by_id_def not_less intro: le_neq_trans)
  qed simp
  ultimately show ?thesis using sorted [OF assms(2)] by auto
qed

section \<open>Witnesses\<close>

definition sample_entities :: "u64 \<Rightarrow> string \<Rightarrow> string \<Rightarrow> node list \<Rightarrow> unresolved list \<Rightarrow> round" where
  "sample_entities n previous digest ns us = empty_round\<lparr>
     rd_Header := zero_header\<lparr>h_Conversation := ''c'', h_Round := n, h_Previous := previous\<rparr>,
     rd_Nodes := ns, rd_Unresolved := us, rd_Commit := zero_commit\<lparr>co_Digest := digest\<rparr>\<rparr>"

definition sample_child :: "string \<Rightarrow> string \<Rightarrow> u64 \<Rightarrow> node" where
  "sample_child ident parent seq = zero_node\<lparr>en_ID := ident, n_Parent := parent,
     n_Ref := Some \<lparr>r_Seq = seq, r_Row = 1, r_Block = None\<rparr>\<rparr>"

definition sample_rounds :: "round list" where
  "sample_rounds =
     [sample_entities 1 [] ''d1'' [sample_child ''a'' ''p'' 2, sample_child ''b'' ''p'' 1]
        [zero_unresolved\<lparr>en_ID := ''u'', un_State := UnresolvedOpen\<rparr>],
      sample_entities 2 ''d1'' ''d2'' [(sample_child ''a'' ''p'' 2)\<lparr>en_Tombstone := True\<rparr>, sample_child ''c'' ''p'' 1] []]"

lemmas sample_round_defs = sample_rounds_def sample_entities_def sample_child_def empty_round_def zero_values

theorem fold_exactly_chains_witness:
  "(\<exists>v. apply_all sample_rounds (NewView ''c'') = Inr v) \<and>
   \<not> (\<exists>v. apply_all (rev sample_rounds) (NewView ''c'') = Inr v)"
proof -
  have "linked 0 [] sample_rounds" "one_interpretation ''c'' sample_rounds" "\<not> linked 0 [] (rev sample_rounds)"
    by (simp_all add: sample_round_defs one_interpretation_def)
  moreover have "length sample_rounds < 2 ^ 64" by (simp add: sample_rounds_def)
  ultimately show ?thesis
    using fold_exactly_chains [of "''c''" sample_rounds] fold_exactly_chains [of "''c''" "rev sample_rounds"] by simp
qed

theorem fold_last_writer_wins_witness:
  "\<exists>v. apply_all sample_rounds (NewView ''c'') = Inr v \<and> v_Nodes v ''a'' = None \<and>
     v_Nodes v ''b'' = Some (sample_child ''b'' ''p'' 1) \<and> v_Nodes v ''c'' = Some (sample_child ''c'' ''p'' 1)"
proof -
  have "\<exists>v. apply_all sample_rounds (NewView ''c'') = Inr v"
    by (simp add: sample_round_defs Apply_def adopt_def NewView_def take_round_def Let_def)
  then obtain v where v: "apply_all sample_rounds (NewView ''c'') = Inr v" by blast
  have "latest (concat (map rd_Nodes sample_rounds)) ''a'' = None"
    "latest (concat (map rd_Nodes sample_rounds)) ''b'' = Some (sample_child ''b'' ''p'' 1)"
    "latest (concat (map rd_Nodes sample_rounds)) ''c'' = Some (sample_child ''c'' ''p'' 1)"
    by (simp_all add: sample_round_defs latest_def)
  with fold_last_writer_wins [OF v] v show ?thesis by (metis fun_cong)
qed

definition sample_view :: view where
  "sample_view = snd (Apply (NewView ''c'') (hd sample_rounds))"

lemma sample_view_nodes: "v_Nodes sample_view = [''a'' \<mapsto> sample_child ''a'' ''p'' 2, ''b'' \<mapsto> sample_child ''b'' ''p'' 1]"
  "v_Unresolved sample_view = [''u'' \<mapsto> zero_unresolved\<lparr>en_ID := ''u'', un_State := UnresolvedOpen\<rparr>]"
  by (simp_all add: sample_view_def sample_round_defs Apply_def adopt_def NewView_def take_round_def Let_def put_entity_def)

lemma sample_child_eq [simp]: "sample_child i p m = sample_child j q n \<longleftrightarrow> i = j \<and> p = q \<and> m = n"
  by (auto simp: sample_child_def zero_values)

lemma sample_iterates:
  "iterates [sample_child ''a'' ''p'' 2, sample_child ''b'' ''p'' 1] (v_Nodes sample_view)"
  "iterates [sample_child ''b'' ''p'' 1, sample_child ''a'' ''p'' 2] (v_Nodes sample_view)"
  by (auto simp: iterates_def sample_view_nodes sample_child_eq)

theorem Children_current_witness:
  "fst (Children [sample_child ''a'' ''p'' 2, sample_child ''b'' ''p'' 1] ''p''
     (snd (Children [sample_child ''b'' ''p'' 1, sample_child ''a'' ''p'' 2] ''q'' sample_view)))
   = [sample_child ''b'' ''p'' 1, sample_child ''a'' ''p'' 2]"
proof -
  let ?v = "snd (Children [sample_child ''b'' ''p'' 1, sample_child ''a'' ''p'' 2] ''q'' sample_view)"
  have "held_view ''c'' sample_view" unfolding sample_view_def by (intro held_apply held_new)
  then have "held_view ''c'' ?v" using sample_iterates(2) by (rule held_children)
  from Children_current [OF this, of "[sample_child ''a'' ''p'' 2, sample_child ''b'' ''p'' 1]" "''p''"]
  show ?thesis using sample_iterates(1)
    by (simp add: InOrder_def Before_def sample_child_def zero_values)
qed

theorem OpenUnresolved_complete_witness:
  "iterates [zero_unresolved\<lparr>en_ID := ''u'', un_State := UnresolvedOpen\<rparr>] (v_Unresolved sample_view) \<and>
   set (OpenUnresolved [zero_unresolved\<lparr>en_ID := ''u'', un_State := UnresolvedOpen\<rparr>]) =
     {zero_unresolved\<lparr>en_ID := ''u'', un_State := UnresolvedOpen\<rparr>}"
proof -
  have "keyed (v_Unresolved sample_view)" by (simp add: keyed_def sample_view_nodes)
  moreover have it: "iterates [zero_unresolved\<lparr>en_ID := ''u'', un_State := UnresolvedOpen\<rparr>] (v_Unresolved sample_view)"
    by (simp add: iterates_def sample_view_nodes)
  ultimately have "set (OpenUnresolved [zero_unresolved\<lparr>en_ID := ''u'', un_State := UnresolvedOpen\<rparr>])
      = {u \<in> ran (v_Unresolved sample_view). un_State u = UnresolvedOpen}"
    by (rule OpenUnresolved_complete [THEN conjunct1])
  also have "\<dots> = {zero_unresolved\<lparr>en_ID := ''u'', un_State := UnresolvedOpen\<rparr>}"
    by (auto simp: sample_view_nodes)
  finally show ?thesis using it by blast
qed

end
