(* ===== verification/Flow_Chain.thy ===== *)
theory Flow_Chain
  imports Flow_Fold
begin

text \<open>
  The chain of rounds on disk, \<^verbatim>\<open>pkg/sessionflow/chain.go\<close>, over a model of its
  rounds directory: the entries with their names, whether they are directories, their bytes, and
  whether they are old enough to be an abandoned reservation. What the writer of
  \<^verbatim>\<open>internal/storage\<close> may leave behind when a process stops is part of the step relation.
\<close>

section \<open>The rounds directory\<close>

record dirent =
  de_Name :: string
  de_IsDir :: bool
  de_Data :: string
  de_Old :: bool

type_synonym rounds_dir = "dirent list"

definition file_at :: "rounds_dir \<Rightarrow> string \<Rightarrow> dirent option" where
  "file_at dir name = List.find (\<lambda>e. de_Name e = name) dir"

text \<open>\<open>storage.RemoveAbandonedReservation\<close>: an old, empty, regular file is removed.\<close>

definition abandoned :: "dirent \<Rightarrow> bool" where
  "abandoned e \<longleftrightarrow> \<not> de_IsDir e \<and> de_Data e = [] \<and> de_Old e"

datatype write_file_error = ErrExists string | EmptyFile string

text \<open>\<open>storage.WriteExclusive\<close>: the complete file, unless its name is taken.\<close>

definition WriteExclusive :: "string \<Rightarrow> string \<Rightarrow> rounds_dir \<Rightarrow> write_file_error + rounds_dir" where
  "WriteExclusive name data dir =
    (if data = [] then Inl (EmptyFile name)
     else case file_at dir name of
       None \<Rightarrow> Inr (dir @ [\<lparr>de_Name = name, de_IsDir = False, de_Data = data, de_Old = False\<rparr>])
     | Some e \<Rightarrow>
         if abandoned e
         then Inr (filter (\<lambda>x. de_Name x \<noteq> name) dir
                @ [\<lparr>de_Name = name, de_IsDir = False, de_Data = data, de_Old = False\<rparr>])
         else Inl (ErrExists name))"

section \<open>Round names\<close>

definition pad6 :: "string \<Rightarrow> string" where
  "pad6 s = replicate (6 - length s) (CHR ''0'') @ s"

definition roundName :: "u64 \<Rightarrow> string \<Rightarrow> string" where
  "roundName round digest = ''r'' @ pad6 (u64_text round) @ ''-'' @ firstN digest 12 @ ''.sf''"

definition is_hex :: "char \<Rightarrow> bool" where
  "is_hex c \<longleftrightarrow> is_digit c \<or> 97 \<le> code c \<and> code c \<le> 102"

text \<open>\<open>roundNameRe\<close>: the digits of the round and the twelve digits of the digest.\<close>

fun match_name :: "string \<Rightarrow> (string \<times> string) option" where
  "match_name [] = None"
| "match_name (c # cs) =
    (let ds = takeWhile is_digit cs; rest = dropWhile is_digit cs in
     if c = CHR ''r'' \<and> 6 \<le> length ds \<and> length rest = 16 \<and> take 1 rest = ''-'' \<and>
        list_all is_hex (take 12 (drop 1 rest)) \<and> drop 13 rest = ''.sf''
     then Some (ds, take 12 (drop 1 rest)) else None)"

record roundFile =
  rf_Round :: u64
  rf_Digest :: string
  rf_Path :: string

definition round_file :: "dirent \<Rightarrow> roundFile option" where
  "round_file e =
    (if de_IsDir e then None
     else case match_name (de_Name e) of
       None \<Rightarrow> None
     | Some (ds, hex) \<Rightarrow>
         if de_Data e = [] then None
         else case parse_uint 64 ds of
           None \<Rightarrow> None
         | Some n \<Rightarrow> Some \<lparr>rf_Round = of_nat n, rf_Digest = hex, rf_Path = de_Name e\<rparr>)"

definition by_round :: "roundFile \<Rightarrow> roundFile \<Rightarrow> bool" where
  "by_round a b \<longleftrightarrow> rf_Round a < rf_Round b"

text \<open>\<open>ListAtMost\<close>; none is \<open>storage.ErrTooMany\<close>. A bound below zero takes every entry.\<close>

definition ListAtMost :: "int \<Rightarrow> rounds_dir \<Rightarrow> roundFile list option" where
  "ListAtMost most dir =
    (if 0 \<le> most \<and> most < int (length dir) then None
     else Some (sort_by by_round (List.map_filter round_file
       (sort_by (\<lambda>a b. de_Name a < de_Name b) dir))))"

definition List_rounds :: "rounds_dir \<Rightarrow> roundFile list" where
  "List_rounds dir = the (ListAtMost (- 1) dir)"

definition Head :: "rounds_dir \<Rightarrow> u64" where
  "Head dir = (let files = List_rounds dir in if files = [] then 0 else rf_Round (last files))"

datatype publish_error = NotNext u64 u64 | NotWritten write_file_error

definition remove_reservations :: "rounds_dir \<Rightarrow> rounds_dir" where
  "remove_reservations dir = filter (\<lambda>e. \<not> (match_name (de_Name e) \<noteq> None \<and> abandoned e)) dir"

definition Publish :: "u64 \<Rightarrow> string \<Rightarrow> string \<Rightarrow> rounds_dir \<Rightarrow> publish_error + rounds_dir" where
  "Publish round digest data dir =
    (let have = Head dir in
     if have + 1 \<noteq> round then Inl (NotNext round have)
     else
       (case WriteExclusive (roundName round digest) data (remove_reservations dir) of
          Inl e \<Rightarrow> Inl (NotWritten e)
        | Inr dir' \<Rightarrow> Inr dir'))"

section \<open>Opening, verifying and folding\<close>

datatype open_error = NoFile string | NotRead string read_error

definition Open_round :: "(string \<Rightarrow> string) \<Rightarrow> rounds_dir \<Rightarrow> string \<Rightarrow> open_error + round" where
  "Open_round H dir path =
    (case file_at dir path of
       None \<Rightarrow> Inl (NoFile path)
     | Some e \<Rightarrow> (case Read H (de_Data e) of Inl x \<Rightarrow> Inl (NotRead path x) | Inr r \<Rightarrow> Inr r))"

datatype verify_error =
    RoundMissing u64 u64
  | Unreadable open_error
  | OtherRound string u64
  | BrokenLink u64 string string
  | SkippedEvidence u64 u64 u64

text \<open>The loop of \<open>Verify\<close>: the index, the digest and the last sequence of the round before.\<close>

fun verify_loop :: "(string \<Rightarrow> open_error + round) \<Rightarrow> nat \<Rightarrow> string \<Rightarrow> u64 \<Rightarrow> roundFile list \<Rightarrow> verify_error option" where
  "verify_loop opn i prevDigest prevSeq [] = None"
| "verify_loop opn i prevDigest prevSeq (rf # rfs) =
    (let want = of_nat (i + 1) in
     if rf_Round rf \<noteq> want then Some (RoundMissing want (rf_Round rf))
     else case opn (rf_Path rf) of
       Inl e \<Rightarrow> Some (Unreadable e)
     | Inr r \<Rightarrow>
        (let h = rd_Header r in
         if h_Round h \<noteq> rf_Round rf then Some (OtherRound (rf_Path rf) (h_Round h))
         else if h_Previous h \<noteq> prevDigest
           then Some (BrokenLink (rf_Round rf) (firstN (h_Previous h) 12) (firstN prevDigest 12))
         else if i > 0 \<and> h_FromSeq h \<noteq> prevSeq + 1
           then Some (SkippedEvidence (rf_Round rf) (h_FromSeq h) prevSeq)
         else verify_loop opn (i + 1) (co_Digest (rd_Commit r)) (h_ThroughSeq h) rfs))"

definition Verify :: "(string \<Rightarrow> string) \<Rightarrow> rounds_dir \<Rightarrow> roundFile list \<times> verify_error option" where
  "Verify H dir = (let files = List_rounds dir in (files, verify_loop (Open_round H dir) 0 [] 0 files))"

datatype fold_error = NotOpened open_error | NotApplied apply_error

fun fold_files :: "(string \<Rightarrow> open_error + round) \<Rightarrow> roundFile list \<Rightarrow> view \<Rightarrow> fold_error + view" where
  "fold_files opn [] v = Inr v"
| "fold_files opn (rf # rfs) v =
    (case opn (rf_Path rf) of
       Inl e \<Rightarrow> Inl (NotOpened e)
     | Inr r \<Rightarrow>
        (case Apply v r of
           (Some e, _) \<Rightarrow> Inl (NotApplied e)
         | (None, v') \<Rightarrow> fold_files opn rfs v'))"

definition Fold :: "(string \<Rightarrow> string) \<Rightarrow> string \<Rightarrow> rounds_dir \<Rightarrow> fold_error + view" where
  "Fold H ident dir = fold_files (Open_round H dir) (List_rounds dir) (NewView ident)"

datatype fold_problem =
    RoundAbsent u64 u64
  | DoesNotRead u64 open_error
  | DoesNotFold u64 apply_error

text \<open>\<open>FoldPartialThrough\<close>: a round that fails to apply may have set the view's session, parser and
  policy before it was refused.\<close>

fun fold_partial :: "(string \<Rightarrow> open_error + round) \<Rightarrow> u64 \<Rightarrow> roundFile list \<Rightarrow> view \<Rightarrow> view \<times> fold_problem list" where
  "fold_partial opn through [] v = (v, [])"
| "fold_partial opn through (rf # rfs) v =
    (if through \<noteq> 0 \<and> rf_Round rf > through then (v, [])
     else if rf_Round rf \<noteq> v_Round v + 1 then (v, [RoundAbsent (v_Round v + 1) (v_Round v)])
     else case opn (rf_Path rf) of
       Inl e \<Rightarrow> (v, [DoesNotRead (rf_Round rf) e])
     | Inr r \<Rightarrow>
        (case Apply v r of
           (Some e, v') \<Rightarrow> (v', [DoesNotFold (rf_Round rf) e])
         | (None, v') \<Rightarrow> fold_partial opn through rfs v'))"

definition FoldPartialThrough :: "(string \<Rightarrow> string) \<Rightarrow> string \<Rightarrow> u64 \<Rightarrow> rounds_dir \<Rightarrow> view \<times> fold_problem list" where
  "FoldPartialThrough H ident through dir =
     fold_partial (Open_round H dir) through (List_rounds dir) (NewView ident)"

definition FoldPartial :: "(string \<Rightarrow> string) \<Rightarrow> string \<Rightarrow> rounds_dir \<Rightarrow> view \<times> fold_problem list" where
  "FoldPartial H ident dir = FoldPartialThrough H ident 0 dir"

section \<open>Names and the rounds they name\<close>

definition hex_digest :: "string \<Rightarrow> bool" where
  "hex_digest d \<longleftrightarrow> 12 \<le> length d \<and> list_all is_hex d"

lemma pad6_digits: "c \<in> set (pad6 (FormatUint n)) \<Longrightarrow> is_digit c"
  using FormatUint_is_digit [of c n] by (auto simp: pad6_def is_digit_def)

lemma digits_value_zeros: "digits_value 0 (replicate k (CHR ''0'') @ s) = digits_value 0 s"
  by (induction k) (simp_all add: is_digit_def)

lemma parse_pad6: "parse_uint 64 (pad6 (u64_text n)) = Some (unat n)"
proof -
  have "unat n < 2 ^ 64" using unsigned_less [of n, where ?'a = nat] by simp
  then show ?thesis
    by (simp add: parse_uint_def pad6_def u64_text_def digits_value_zeros digits_value_FormatUint)
qed

lemma match_roundName:
  assumes "hex_digest d"
  shows "match_name (roundName n d) = Some (pad6 (u64_text n), take 12 d)"
proof -
  let ?ds = "pad6 (u64_text n)"
  have digits: "\<forall>c \<in> set ?ds. is_digit c" using pad6_digits by (auto simp: u64_text_def)
  have rest: "\<not> is_digit (CHR ''-'')" by (simp add: is_digit_def)
  have first: "firstN d 12 = take 12 d" by (simp add: firstN_def)
  have len: "length (take 12 d) = 12" using assms by (simp add: hex_digest_def)
  have hex: "list_all is_hex (take 12 d)" using assms by (auto simp: hex_digest_def list_all_iff dest: in_set_takeD)
  have "takeWhile is_digit (?ds @ CHR ''-'' # take 12 d @ ''.sf'') = ?ds"
    "dropWhile is_digit (?ds @ CHR ''-'' # take 12 d @ ''.sf'') = CHR ''-'' # take 12 d @ ''.sf''"
    using digits rest by (simp_all add: takeWhile_append2 dropWhile_append2)
  moreover have "6 \<le> length ?ds" by (simp add: pad6_def)
  ultimately show ?thesis
    using len hex by (simp add: roundName_def first)
qed

lemma round_file_new:
  assumes "hex_digest d" "data \<noteq> []"
  shows "round_file \<lparr>de_Name = roundName n d, de_IsDir = False, de_Data = data, de_Old = b\<rparr> =
    Some \<lparr>rf_Round = n, rf_Digest = take 12 d, rf_Path = roundName n d\<rparr>"
  using assms by (simp add: round_file_def match_roundName parse_pad6)

section \<open>Listing\<close>

abbreviation listed :: "rounds_dir \<Rightarrow> roundFile list" where
  "listed dir \<equiv> List.map_filter round_file dir"

lemma mset_map_filter: "mset (List.map_filter f xs) = {#the (f x). x \<in># filter_mset (\<lambda>x. f x \<noteq> None) (mset xs)#}"
  by (simp add: map_filter_def comp_def)

lemma mset_List_rounds: "mset (List_rounds dir) = mset (listed dir)"
  by (simp add: List_rounds_def ListAtMost_def mset_map_filter)

lemma set_List_rounds: "set (List_rounds dir) = set (listed dir)"
  using mset_List_rounds by (metis set_mset_mset)

lemma by_round_weak: "weak_less by_round S"
  by unfold_locales (auto simp: by_round_def)

interpretation round_order: weak_less by_round UNIV
  by (rule by_round_weak)

lemma by_round_total: "inj_on rf_Round S \<Longrightarrow> total_less by_round S"
proof (intro total_less.intro by_round_weak total_less_axioms.intro)
  fix x y assume "inj_on rf_Round S" "x \<in> S" "y \<in> S" "x \<noteq> y"
  then have "rf_Round x \<noteq> rf_Round y" by (metis inj_onD)
  then show "by_round x y \<or> by_round y x" unfolding by_round_def by (rule linorder_neqE) auto
qed

lemma sorted_List_rounds: "sorted_by by_round (List_rounds dir)"
  unfolding List_rounds_def ListAtMost_def by (simp add: round_order.sorted_sort_by)

text \<open>With one file a round, the listing is the one order of them.\<close>

lemma List_rounds_unique:
  assumes "inj_on rf_Round (set (listed dir))" "mset files = mset (listed dir)" "sorted_by by_round files"
  shows "List_rounds dir = files"
proof (rule total_less.sorted_by_unique [OF by_round_total])
  show "inj_on rf_Round (set (listed dir))" by (rule assms(1))
  show "set (List_rounds dir) \<subseteq> set (listed dir)" by (simp add: set_List_rounds)
qed (use assms mset_List_rounds sorted_List_rounds in auto)

lemma listed_append: "listed (xs @ ys) = listed xs @ listed ys"
  by (simp add: map_filter_def)

lemma listed_remove_reservations: "listed (remove_reservations dir) = listed dir"
proof (induction dir)
  case (Cons e dir)
  have "abandoned e \<Longrightarrow> round_file e = None" by (auto simp: abandoned_def round_file_def split: option.splits)
  with Cons show ?case by (auto simp: remove_reservations_def map_filter_simps split: option.splits)
qed (simp add: remove_reservations_def)

lemma file_at_None: "file_at dir name = None \<longleftrightarrow> name \<notin> de_Name ` set dir"
  by (auto simp: file_at_def find_None_iff)

lemma file_at_Some: "file_at dir name = Some e \<Longrightarrow> e \<in> set dir \<and> de_Name e = name"
  by (auto simp: file_at_def find_Some_iff)

lemma file_at_distinct: "distinct (map de_Name dir) \<Longrightarrow> e \<in> set dir \<Longrightarrow> file_at dir (de_Name e) = Some e"
  unfolding file_at_def by (induction dir) auto

lemma listed_file: "rf \<in> set (listed dir) \<Longrightarrow> \<exists>e \<in> set dir. round_file e = Some rf \<and> de_Name e = rf_Path rf \<and> de_Data e \<noteq> []"
proof -
  assume "rf \<in> set (listed dir)"
  then obtain e where "e \<in> set dir" "round_file e = Some rf" by (auto simp: map_filter_def)
  moreover from this(2) have "de_Name e = rf_Path rf" "de_Data e \<noteq> []"
    by (auto simp: round_file_def split: if_splits option.splits)
  ultimately show ?thesis by blast
qed

lemma round_file_name: "round_file e = Some rf \<Longrightarrow> match_name (rf_Path rf) \<noteq> None"
  by (auto simp: round_file_def split: if_splits option.splits)

text \<open>What \<open>Publish\<close> does to the listing.\<close>

lemma Publish_adds:
  assumes "Publish n digest data dir = Inr dir'" "hex_digest digest"
  shows "n = Head dir + 1 \<and> data \<noteq> [] \<and>
    dir' = remove_reservations dir @ [\<lparr>de_Name = roundName n digest, de_IsDir = False, de_Data = data, de_Old = False\<rparr>] \<and>
    roundName n digest \<notin> de_Name ` set (remove_reservations dir)"
proof -
  let ?dir = "remove_reservations dir"
  have n: "n = Head dir + 1" and w: "WriteExclusive (roundName n digest) data ?dir = Inr dir'"
    using assms(1) by (auto simp: Publish_def Let_def split: if_splits sum.splits)
  have "\<not> abandoned e" if "file_at ?dir (roundName n digest) = Some e" for e
    using file_at_Some [OF that] match_roundName [OF assms(2)] by (auto simp: remove_reservations_def)
  then have none: "file_at ?dir (roundName n digest) = None"
    using w by (auto simp: WriteExclusive_def split: if_splits option.splits)
  with w n show ?thesis using none [unfolded file_at_None]
    by (simp add: WriteExclusive_def split: if_splits)
qed

section \<open>The life of a chain\<close>

text \<open>What happens to a rounds directory: a round is published, a writer stops before its file has its
  name and leaves a temporary file, a writer stops between reserving the name and filling it (on a
  filesystem without an exclusive rename) and leaves an empty file, time passes, and a state file or
  anything else whose name is not a round's is written.\<close>

inductive chain_step :: "rounds_dir \<Rightarrow> rounds_dir \<Rightarrow> bool" where
  step_publish: "Publish n digest data dir = Inr dir' \<Longrightarrow> hex_digest digest \<Longrightarrow> n \<noteq> 0 \<Longrightarrow> chain_step dir dir'"
| step_stray: "match_name (de_Name e) = None \<Longrightarrow> de_Name e \<notin> de_Name ` set dir \<Longrightarrow> chain_step dir (dir @ [e])"
| step_reserve: "de_Data e = [] \<Longrightarrow> de_Name e \<notin> de_Name ` set dir \<Longrightarrow> chain_step dir (dir @ [e])"
| step_age: "chain_step dir (map (\<lambda>e. e\<lparr>de_Old := old e\<rparr>) dir)"

inductive_cases chain_stepE: "chain_step dir dir'"

definition chain_dir :: "rounds_dir \<Rightarrow> bool" where
  "chain_dir dir \<longleftrightarrow> distinct (map de_Name dir) \<and>
     (\<exists>N < 2 ^ 64. map rf_Round (List_rounds dir) = map of_nat [1..<Suc N])"

lemma of_nat_rounds_inj: "N < 2 ^ 64 \<Longrightarrow> inj_on (of_nat :: nat \<Rightarrow> u64) {1..<Suc N}"
  by (rule inj_onI) (metis atLeastLessThan_iff less_Suc_eq_le le_less_trans unat_of_nat_u64)

lemma chain_dir_rounds:
  assumes "chain_dir dir"
  obtains N where "N < 2 ^ 64" "length (List_rounds dir) = N" "map rf_Round (List_rounds dir) = map of_nat [1..<Suc N]"
    "inj_on rf_Round (set (listed dir))" "Head dir = of_nat N" "distinct (List_rounds dir)"
proof -
  from assms obtain N where N: "N < 2 ^ 64" "map rf_Round (List_rounds dir) = map of_nat [1..<Suc N]"
    by (auto simp: chain_dir_def)
  have len: "length (List_rounds dir) = N" using arg_cong [OF N(2), of length] by simp
  have "distinct (map (of_nat :: nat \<Rightarrow> u64) [1..<Suc N])"
    using of_nat_rounds_inj [OF N(1)] by (simp add: distinct_map del: upt_Suc)
  then have d: "distinct (map rf_Round (List_rounds dir))" unfolding N(2) .
  have "Head dir = of_nat N"
  proof (cases "N = 0")
    case True
    with len show ?thesis by (simp add: Head_def)
  next
    case False
    then have "List_rounds dir \<noteq> []" using len by auto
    then have "rf_Round (last (List_rounds dir)) = last (map rf_Round (List_rounds dir))" by (simp add: last_map)
    also have "\<dots> = of_nat N" using False by (simp add: N(2))
    finally show ?thesis using \<open>List_rounds dir \<noteq> []\<close> by (simp add: Head_def Let_def)
  qed
  moreover have "distinct (List_rounds dir)" "inj_on rf_Round (set (listed dir))"
    using d by (simp_all only: distinct_map set_List_rounds)
  ultimately show thesis using that N len by blast
qed

lemma sorted_by_round_snoc:
  "sorted_by by_round xs \<Longrightarrow> \<forall>x \<in> set xs. \<not> by_round y x \<Longrightarrow> sorted_by by_round (xs @ [y])"
  by (induction xs) auto

text \<open>One step keeps every round that is listed, with its bytes, and adds at most one.\<close>

definition extends :: "rounds_dir \<Rightarrow> rounds_dir \<Rightarrow> bool" where
  "extends dir dir' \<longleftrightarrow> (\<exists>new. List_rounds dir' = List_rounds dir @ new) \<and>
     (\<forall>rf \<in> set (List_rounds dir). map_option de_Data (file_at dir' (rf_Path rf)) =
        map_option de_Data (file_at dir (rf_Path rf)))"

lemma extends_trans: "extends a b \<Longrightarrow> extends b c \<Longrightarrow> extends a c"
  by (auto simp: extends_def)

lemma same_listing:
  assumes "chain_dir dir" "listed dir' = listed dir" "distinct (map de_Name dir')"
    "\<And>e. e \<in> set dir \<Longrightarrow> round_file e \<noteq> None \<Longrightarrow> \<exists>e' \<in> set dir'. de_Name e' = de_Name e \<and> de_Data e' = de_Data e"
  shows "chain_dir dir' \<and> extends dir dir'"
proof -
  obtain N where N: "inj_on rf_Round (set (listed dir))"
    using assms(1) by (rule chain_dir_rounds) blast
  have files: "List_rounds dir' = List_rounds dir"
    using assms(2) N mset_List_rounds [of dir] sorted_List_rounds [of dir] by (intro List_rounds_unique) auto
  have "map_option de_Data (file_at dir' (rf_Path rf)) = map_option de_Data (file_at dir (rf_Path rf))"
    if "rf \<in> set (List_rounds dir)" for rf
  proof -
    have "rf \<in> set (listed dir)" using that by (simp add: set_List_rounds)
    then obtain e where e: "e \<in> set dir" "round_file e = Some rf" "de_Name e = rf_Path rf"
      using listed_file by blast
    obtain e' where e': "e' \<in> set dir'" "de_Name e' = de_Name e" "de_Data e' = de_Data e"
      using assms(4) [OF e(1)] e(2) by auto
    have "file_at dir (rf_Path rf) = Some e" "file_at dir' (rf_Path rf) = Some e'"
      using file_at_distinct [of dir e] file_at_distinct [OF assms(3) e'(1)] e e' assms(1)
      by (auto simp: chain_dir_def)
    with e' show ?thesis by simp
  qed
  with files assms(1,3) show ?thesis by (auto simp: chain_dir_def extends_def)
qed

lemma step_chain:
  assumes "chain_step dir dir'" "chain_dir dir"
  shows "chain_dir dir' \<and> extends dir dir'"
  using assms(1)
proof cases
  case 1: (step_publish n digest data)
  let ?new = "\<lparr>rf_Round = n, rf_Digest = take 12 digest, rf_Path = roundName n digest\<rparr>"
  let ?e = "\<lparr>de_Name = roundName n digest, de_IsDir = False, de_Data = data, de_Old = False\<rparr>"
  note pub = Publish_adds [OF 1(1,2)]
  obtain N where N: "N < 2 ^ 64" "length (List_rounds dir) = N"
    "map rf_Round (List_rounds dir) = map of_nat [1..<Suc N]" "inj_on rf_Round (set (listed dir))" "Head dir = of_nat N"
    using assms(2) by (rule chain_dir_rounds) blast
  have n: "n = of_nat (Suc N)" using pub N(5) by simp
  have small: "Suc N < 2 ^ 64"
  proof (rule ccontr)
    assume "\<not> Suc N < 2 ^ 64"
    then have "Suc N = 2 ^ 64" using N(1) by simp
    then have "n = of_nat (2 ^ 64)" using n by (simp only:)
    with 1(3) show False by simp
  qed
  have new: "round_file ?e = Some ?new" using pub 1(2) by (simp add: round_file_new)
  have listed: "listed dir' = listed dir @ [?new]"
    using pub new by (simp add: listed_append listed_remove_reservations map_filter_simps)
  have old: "rf_Round rf < n \<and> rf_Round rf \<noteq> n" if "rf \<in> set (listed dir)" for rf
  proof -
    have "rf_Round rf \<in> set (map rf_Round (List_rounds dir))" using that by (simp add: set_List_rounds)
    then obtain k where "k < Suc N" "rf_Round rf = of_nat k" unfolding N(3) by (auto simp del: upt_Suc)
    with n small show ?thesis by (simp add: word_less_nat_alt word_unat_eq_iff del: of_nat_Suc)
  qed
  have files: "List_rounds dir' = List_rounds dir @ [?new]"
  proof (rule List_rounds_unique)
    show "inj_on rf_Round (set (listed dir'))"
      using N(4) old unfolding listed by (auto simp: inj_on_insert)
    show "sorted_by by_round (List_rounds dir @ [?new])"
      using old sorted_List_rounds by (intro sorted_by_round_snoc) (auto simp: by_round_def set_List_rounds not_less less_imp_le)
  qed (simp add: listed mset_List_rounds)
  have names: "distinct (map de_Name dir')"
    using pub assms(2) by (auto simp: chain_dir_def remove_reservations_def distinct_map_filter)
  have "map_option de_Data (file_at dir' (rf_Path rf)) = map_option de_Data (file_at dir (rf_Path rf))"
    if "rf \<in> set (List_rounds dir)" for rf
  proof -
    have "rf \<in> set (listed dir)" using that by (simp add: set_List_rounds)
    then obtain e where e: "e \<in> set dir" "round_file e = Some rf" "de_Name e = rf_Path rf" "de_Data e \<noteq> []"
      using listed_file by blast
    then have "e \<in> set dir'" using pub by (auto simp: remove_reservations_def abandoned_def)
    with e file_at_distinct [of dir e] file_at_distinct [OF names, of e] assms(2) show ?thesis
      by (auto simp: chain_dir_def)
  qed
  then have "extends dir dir'" using files by (simp add: extends_def)
  moreover have "map rf_Round (List_rounds dir') = map of_nat [1..<Suc (Suc N)]"
    using N(3) n by (simp add: files)
  then have "chain_dir dir'" unfolding chain_dir_def using names small by blast
  ultimately show ?thesis by simp
next
  case 2: (step_stray e)
  then have "round_file e = None" by (simp add: round_file_def)
  with 2 assms(2) show ?thesis
    by (intro same_listing) (auto simp: listed_append map_filter_simps chain_dir_def)
next
  case 3: (step_reserve e)
  then have "round_file e = None" by (simp add: round_file_def split: option.splits)
  with 3 assms(2) show ?thesis
    by (intro same_listing) (auto simp: listed_append map_filter_simps chain_dir_def)
next
  case 4: (step_age old)
  have "round_file (e\<lparr>de_Old := b\<rparr>) = round_file e" for e b
    by (simp add: round_file_def split: option.splits)
  then have "listed dir' = listed dir" by (simp add: 4 map_filter_def comp_def filter_map)
  with 4 assms(2) show ?thesis
    by (intro same_listing) (auto simp: chain_dir_def comp_def)
qed


section \<open>Verifying\<close>

text \<open>The rounds a verified chain holds: every file reads, its header says the round its name says,
  the rounds count from one, each names the digest of the one before it, and the landed sequences they
  consumed leave no gap.\<close>

fun chain_holds :: "nat \<Rightarrow> string \<Rightarrow> u64 \<Rightarrow> roundFile list \<Rightarrow> round list \<Rightarrow> bool" where
  "chain_holds i prev seq [] [] \<longleftrightarrow> True"
| "chain_holds i prev seq (rf # rfs) (r # rs) \<longleftrightarrow>
     rf_Round rf = of_nat (i + 1) \<and> h_Round (rd_Header r) = of_nat (i + 1) \<and>
     h_Previous (rd_Header r) = prev \<and> (i > 0 \<longrightarrow> h_FromSeq (rd_Header r) = seq + 1) \<and>
     chain_holds (i + 1) (co_Digest (rd_Commit r)) (h_ThroughSeq (rd_Header r)) rfs rs"
| "chain_holds i prev seq _ _ \<longleftrightarrow> False"

lemma verify_loop_None:
  "verify_loop opn i prev seq files = None \<longleftrightarrow>
     (\<exists>rounds. list_all2 (\<lambda>rf r. opn (rf_Path rf) = Inr r) files rounds \<and> chain_holds i prev seq files rounds)"
proof (induction files arbitrary: i prev seq)
  case (Cons rf files)
  show ?case
  proof (cases "opn (rf_Path rf)")
    case (Inr r)
    then show ?thesis using Cons by (auto simp: Let_def list_all2_Cons1)
  qed (auto simp: Let_def list_all2_Cons1)
qed simp

text \<open>C4. \<open>Verify\<close> accepts exactly the chains that hold together: it reports no error just when every
  listed file reads as a round, the rounds count from one as both the names and the headers say, each
  names the digest of its predecessor, and the landed sequences are contiguous.\<close>

theorem Verify_exact:
  "snd (Verify H dir) = None \<longleftrightarrow>
     (\<exists>rounds. list_all2 (\<lambda>rf r. Open_round H dir (rf_Path rf) = Inr r) (List_rounds dir) rounds \<and>
       chain_holds 0 [] 0 (List_rounds dir) rounds)"
  by (simp add: Verify_def Let_def verify_loop_None)

lemma Open_round_Inr: "Open_round H dir path = Inr r \<longleftrightarrow>
    (\<exists>e. file_at dir path = Some e \<and> Read H (de_Data e) = Inr r)"
  by (auto simp: Open_round_def split: option.splits sum.splits)

text \<open>The head digest binds the whole chain, read from the head down.\<close>

definition last_digest :: "string \<Rightarrow> round list \<Rightarrow> string" where
  "last_digest d rs = (if rs = [] then d else co_Digest (rd_Commit (last rs)))"

definition same_content :: "round \<Rightarrow> round \<Rightarrow> bool" where
  "same_content r r' \<longleftrightarrow> rd_Header r = rd_Header r' \<and> rd_Nodes r = rd_Nodes r' \<and>
     rd_Relations r = rd_Relations r' \<and> rd_Unresolved r = rd_Unresolved r' \<and>
     co_Digest (rd_Commit r) = co_Digest (rd_Commit r')"

lemma chain_holds_snoc:
  "chain_holds i prev seq (fs @ [f]) (rs @ [r]) \<Longrightarrow> length fs = length rs \<Longrightarrow>
     chain_holds i prev seq fs rs \<and> h_Previous (rd_Header r) = last_digest prev rs"
proof (induction fs arbitrary: i prev seq rs)
  case (Cons g fs)
  then obtain q qs where rs: "rs = q # qs" by (cases rs) auto
  with Cons.prems Cons.IH [of "i + 1" "co_Digest (rd_Commit q)" "h_ThroughSeq (rd_Header q)" qs]
  show ?case by (auto simp: last_digest_def)
qed (simp add: last_digest_def)

lemma same_digest_same_round:
  assumes "Read H data = Inr r" "Read H data' = Inr r'"
    and "co_Digest (rd_Commit r) = co_Digest (rd_Commit r')" and "inj_on H S" "covered data \<in> S" "covered data' \<in> S"
  shows "same_content r r'"
proof -
  have "inj_on H {covered data, covered data'}" by (rule inj_on_subset [OF assms(4)]) (use assms in simp)
  from digest_binds [OF assms(1-3) this] assms(3) show ?thesis by (simp add: same_content_def)
qed

lemma chains_same:
  assumes "inj_on H S"
  shows "chain_holds 0 [] 0 fs rs \<Longrightarrow> chain_holds 0 [] 0 fs' rs' \<Longrightarrow>
    length fs = length rs \<Longrightarrow> length fs' = length rs' \<Longrightarrow> length rs = length rs' \<Longrightarrow>
    last_digest [] rs = last_digest [] rs' \<Longrightarrow>
    list_all (\<lambda>r. \<exists>data. Read H data = Inr r \<and> covered data \<in> S) rs \<Longrightarrow>
    list_all (\<lambda>r. \<exists>data. Read H data = Inr r \<and> covered data \<in> S) rs' \<Longrightarrow> list_all2 same_content rs rs'"
proof (induction rs arbitrary: fs fs' rs' rule: rev_induct)
  case (snoc r rs)
  obtain r' qs where rs': "rs' = qs @ [r']" using snoc.prems(5) by (cases rs' rule: rev_cases) auto
  obtain f gs where fs: "fs = gs @ [f]" using snoc.prems(3) by (cases fs rule: rev_cases) auto
  obtain f' gs' where fs': "fs' = gs' @ [f']" using snoc.prems(4) rs' by (cases fs' rule: rev_cases) auto
  have down: "chain_holds 0 [] 0 gs rs \<and> h_Previous (rd_Header r) = last_digest [] rs"
    "chain_holds 0 [] 0 gs' qs \<and> h_Previous (rd_Header r') = last_digest [] qs"
    using snoc.prems by (auto simp: fs fs' rs' intro!: chain_holds_snoc)
  obtain d d' where "Read H d = Inr r" "covered d \<in> S" "Read H d' = Inr r'" "covered d' \<in> S"
    using snoc.prems(7,8) rs' by auto
  then have same: "same_content r r'"
    using snoc.prems(6) rs' assms by (intro same_digest_same_round [of H d r d' r' S]) (auto simp: last_digest_def)
  then have "last_digest [] rs = last_digest [] qs" using down by (simp add: same_content_def)
  then have "list_all2 same_content rs qs"
    using snoc down by (intro snoc.IH [of gs gs']) (auto simp: fs fs' rs')
  with same rs' show ?case by (simp add: list_all2_appendI)
qed simp

text \<open>C5. The head digest is evidence of the whole chain: two chains that verify, of as many rounds and
  with one head digest, hold the same rounds from the first to the last, where the hash does not collide
  on what their digests cover.\<close>

theorem Verify_tamper_evident:
  assumes "list_all2 (\<lambda>rf r. Open_round H dir (rf_Path rf) = Inr r) (List_rounds dir) rounds"
    and "list_all2 (\<lambda>rf r. Open_round H dir' (rf_Path rf) = Inr r) (List_rounds dir') rounds'"
    and "snd (Verify H dir) = None" "snd (Verify H dir') = None"
    and "length rounds = length rounds'" "last_digest [] rounds = last_digest [] rounds'"
    and "inj_on H {covered (de_Data e) | e. e \<in> set dir \<union> set dir' \<and> match_name (de_Name e) \<noteq> None}"
  shows "list_all2 same_content rounds rounds'"
proof -
  have unique: "rs = rs'" if "list_all2 (\<lambda>rf r. opn (rf_Path rf) = Inr r) fs rs"
    "list_all2 (\<lambda>rf r. opn (rf_Path rf) = Inr r) fs rs'" for opn :: "string \<Rightarrow> open_error + round" and fs rs rs'
    using that by (induction fs arbitrary: rs rs') (auto simp: list_all2_Cons1)
  have "chain_holds 0 [] 0 (List_rounds dir) rounds" "chain_holds 0 [] 0 (List_rounds dir') rounds'"
    using assms(3,4) unique [OF assms(1)] unique [OF assms(2)] by (auto simp: Verify_def Let_def verify_loop_None)
  moreover have "\<exists>data. Read H data = Inr r \<and>
      covered data \<in> {covered (de_Data e) | e. e \<in> set d \<and> match_name (de_Name e) \<noteq> None}"
    if fs: "list_all2 (\<lambda>rf r. Open_round H d (rf_Path rf) = Inr r) (List_rounds d) rs" and mem: "r \<in> set rs" for d rs r
  proof -
    obtain k where k: "k < length rs" "rs ! k = r" using mem by (auto simp: in_set_conv_nth)
    let ?rf = "List_rounds d ! k"
    have "Open_round H d (rf_Path ?rf) = Inr r" "?rf \<in> set (List_rounds d)"
      using fs k by (auto simp: list_all2_conv_all_nth)
    then obtain e where e: "file_at d (rf_Path ?rf) = Some e" "Read H (de_Data e) = Inr r"
      by (auto simp: Open_round_Inr)
    have "?rf \<in> set (listed d)" using \<open>?rf \<in> set (List_rounds d)\<close> by (simp add: set_List_rounds)
    then have "match_name (rf_Path ?rf) \<noteq> None" using listed_file round_file_name by blast
    with file_at_Some [OF e(1)]
    have "covered (de_Data e) \<in> {covered (de_Data e) | e. e \<in> set d \<and> match_name (de_Name e) \<noteq> None}"
      by (intro CollectI exI [of _ e]) simp
    with e(2) show ?thesis by (intro exI [of _ "de_Data e"] conjI)
  qed
  ultimately show ?thesis
    using assms(1,2,5,6) by (intro chains_same [OF assms(7)]) (auto simp: list_all_iff list_all2_lengthD, blast+)
qed

section \<open>Folding as far as the chain holds\<close>

definition same_fold :: "view \<Rightarrow> view \<Rightarrow> bool" where
  "same_fold v0 v \<longleftrightarrow> (\<exists>co se pa po.
     v = v0\<lparr>v_Conversation := co, v_Session := se, v_Parser := pa, v_Policy := po\<rparr>)"

lemma same_fold_refl: "same_fold v v"
  unfolding same_fold_def
  by (rule exI [of _ "v_Conversation v"], rule exI [of _ "v_Session v"], rule exI [of _ "v_Parser v"],
      rule exI [of _ "v_Policy v"]) simp

lemma Apply_refused: "Apply v r = (Some e, v') \<Longrightarrow> same_fold v v'"
proof -
  have "same_fold v (adopt r v)"
    unfolding adopt_def Let_def same_fold_def
    by (rule exI [of _ "if v_Round v = 0 \<and> v_Conversation v = [] then h_Conversation (rd_Header r) else v_Conversation v"],
      rule exI [of _ "if v_Round v = 0 then h_Session (rd_Header r) else v_Session v"],
      rule exI [of _ "if v_Round v = 0 then h_Parser (rd_Header r) else v_Parser v"],
      rule exI [of _ "if v_Round v = 0 then h_Policy (rd_Header r) else v_Policy v"]) simp
  moreover assume "Apply v r = (Some e, v')"
  ultimately show ?thesis using same_fold_refl by (auto simp: Apply_def Let_def split: if_splits)
qed

lemma fold_partial_prefix:
  "fold_partial opn through files v = (v', ps) \<Longrightarrow>
     \<exists>k v0. k \<le> length files \<and> fold_files opn (take k files) v = Inr v0 \<and> same_fold v0 v' \<and>
       (ps = [] \<longrightarrow> v0 = v' \<and> take k files = takeWhile (\<lambda>rf. through = 0 \<or> rf_Round rf \<le> through) files) \<and>
       (ps \<noteq> [] \<longrightarrow> length ps = 1 \<and> k < length files)"
proof (induction files arbitrary: v)
  case Nil
  then show ?case by (auto intro: same_fold_refl)
next
  case (Cons rf files)
  let ?goal = "\<lambda>k v0. k \<le> length (rf # files) \<and> fold_files opn (take k (rf # files)) v = Inr v0 \<and> same_fold v0 v' \<and>
       (ps = [] \<longrightarrow> v0 = v' \<and> take k (rf # files) = takeWhile (\<lambda>rf. through = 0 \<or> rf_Round rf \<le> through) (rf # files)) \<and>
       (ps \<noteq> [] \<longrightarrow> length ps = 1 \<and> k < length (rf # files))"
  consider (past) "through \<noteq> 0" "rf_Round rf > through"
    | (stop) p where "\<not> (through \<noteq> 0 \<and> rf_Round rf > through)" "ps = [p]" "same_fold v v'"
    | (go) r v1 where "\<not> (through \<noteq> 0 \<and> rf_Round rf > through)" "opn (rf_Path rf) = Inr r" "Apply v r = (None, v1)"
        "fold_partial opn through files v1 = (v', ps)"
  proof (cases "through \<noteq> 0 \<and> rf_Round rf > through")
    case True
    with past show thesis by blast
  next
    case in_range: False
    note run = Cons.prems [unfolded fold_partial.simps if_not_P [OF in_range]]
    show thesis
    proof (cases "rf_Round rf = v_Round v + 1")
      case False
      with run in_range stop same_fold_refl show thesis by auto
    next
      case numbered: True
      show thesis
      proof (cases "opn (rf_Path rf)")
        case (Inl e)
        with run in_range numbered stop same_fold_refl show thesis by auto
      next
        case (Inr r)
        obtain e v1 where applied: "Apply v r = (e, v1)" by (cases "Apply v r")
        show thesis
        proof (cases e)
          case None
          with run in_range numbered Inr applied go show thesis by simp
        next
          case (Some x)
          with run in_range numbered Inr applied stop Apply_refused [of v r x v1] show thesis by auto
        qed
      qed
    qed
  qed
  then show ?case
  proof cases
    case past
    then have "?goal 0 v" using Cons.prems same_fold_refl by auto
    then show ?thesis by blast
  next
    case stop
    then have "?goal 0 v" by simp
    then show ?thesis by blast
  next
    case go
    then obtain k v0 where "k \<le> length files" "fold_files opn (take k files) v1 = Inr v0" "same_fold v0 v'"
      "ps = [] \<longrightarrow> v0 = v' \<and> take k files = takeWhile (\<lambda>rf. through = 0 \<or> rf_Round rf \<le> through) files"
      "ps \<noteq> [] \<longrightarrow> length ps = 1 \<and> k < length files"
      using Cons.IH by blast
    then have "?goal (Suc k) v0" using go by (auto simp: not_less)
    then show ?thesis by blast
  qed
qed


section \<open>Witnesses\<close>

definition sample_first :: header where
  "sample_first = sample_header\<lparr>h_Round := 1, h_Previous := []\<rparr>"

definition sample_chain :: "string \<Rightarrow> rounds_dir" where
  "sample_chain data =
     [\<lparr>de_Name = roundName 1 ''0123456789abcdef'', de_IsDir = False, de_Data = data, de_Old = False\<rparr>,
      \<lparr>de_Name = ''.tmp-1'', de_IsDir = False, de_Data = ''x'', de_Old = False\<rparr>]"

lemma sample_hex: "hex_digest ''0123456789abcdef''"
  by (simp add: hex_digest_def is_hex_def is_digit_def)

lemma sample_chain_rounds:
  assumes "data \<noteq> []"
  shows "List_rounds (sample_chain data) =
    [\<lparr>rf_Round = 1, rf_Digest = ''0123456789ab'', rf_Path = roundName 1 ''0123456789abcdef''\<rparr>]"
proof -
  have "round_file \<lparr>de_Name = ''.tmp-1'', de_IsDir = False, de_Data = ''x'', de_Old = False\<rparr> = None"
    by (simp add: round_file_def)
  then have "listed (sample_chain data) =
      [\<lparr>rf_Round = 1, rf_Digest = ''0123456789ab'', rf_Path = roundName 1 ''0123456789abcdef''\<rparr>]"
    using round_file_new [OF sample_hex assms] by (simp add: sample_chain_def map_filter_simps)
  then show ?thesis by (intro List_rounds_unique) simp_all
qed

lemma sample_chain_file: "file_at (sample_chain data) (roundName 1 ''0123456789abcdef'') =
    Some \<lparr>de_Name = roundName 1 ''0123456789abcdef'', de_IsDir = False, de_Data = data, de_Old = False\<rparr>"
  by (simp add: file_at_def sample_chain_def)

lemma sample_chain_reachable: "chain_step\<^sup>*\<^sup>* [] (sample_chain ''x'')"
proof -
  let ?e = "\<lparr>de_Name = roundName 1 ''0123456789abcdef'', de_IsDir = False, de_Data = ''x'', de_Old = False\<rparr>"
  have "Head [] = 0" by (simp add: Head_def List_rounds_def ListAtMost_def map_filter_simps)
  then have "Publish 1 ''0123456789abcdef'' ''x'' [] = Inr [?e]"
    by (simp add: Publish_def remove_reservations_def WriteExclusive_def file_at_def)
  then have "chain_step [] [?e]" using sample_hex by (rule step_publish) simp
  moreover have "chain_step [?e] ([?e] @ [\<lparr>de_Name = ''.tmp-1'', de_IsDir = False, de_Data = ''x'', de_Old = False\<rparr>])"
    by (rule step_stray) (simp_all add: roundName_def)
  ultimately show ?thesis by (simp add: sample_chain_def)
qed


lemma sample_first_producible: "producible (stamp_header sample_first) []"
  by (simp add: producible_def header_ok_def Validate_def sample_first_def sample_header_def stamp_header_def
      zero_values Schema_def FrameHeader_def utf8_ascii int64_range_def)

lemma sample_first_round:
  "\<exists>data r. Read sample_hash data = Inr r \<and> data \<noteq> [] \<and> rd_Header r = stamp_header sample_first"
proof -
  have "\<exists>data digest. write_round sample_hash sample_first [] = Inr (data, digest) \<and>
    Read sample_hash data = Inr (written_round sample_hash (stamp_header sample_first) (map (stamp (h_Round sample_first)) []) digest)"
    by (rule write_then_read) (simp_all add: sample_first_producible sample_hash_def utf8_ascii)
  then obtain data digest where read: "Read sample_hash data =
      Inr (written_round sample_hash (stamp_header sample_first) [] digest)" by auto
  moreover have "data \<noteq> []"
    using read by (auto simp: Read_def finish_reading_def start_reading_def Let_def)
  ultimately show ?thesis
    by (intro exI [of _ data] exI [of _ "written_round sample_hash (stamp_header sample_first) [] digest"])
      (simp add: written_round_def)
qed

theorem Verify_tamper_evident_witness:
  "\<exists>data r. snd (Verify sample_hash (sample_chain data)) = None \<and> list_all2 same_content [r] [r] \<and>
     Open_round sample_hash (sample_chain data) (roundName 1 ''0123456789abcdef'') = Inr r"
proof -
  obtain data r where read: "Read sample_hash data = Inr r" "data \<noteq> []" "rd_Header r = stamp_header sample_first"
    using sample_first_round by blast
  have opened: "Open_round sample_hash (sample_chain data) (roundName 1 ''0123456789abcdef'') = Inr r"
    by (simp add: Open_round_Inr sample_chain_file read(1))
  then have holds: "list_all2 (\<lambda>rf r. Open_round sample_hash (sample_chain data) (rf_Path rf) = Inr r)
      (List_rounds (sample_chain data)) [r]"
    by (simp add: sample_chain_rounds [OF read(2)])
  have "rd_Header r = sample_first\<lparr>h_T := FrameHeader, h_Schema := Schema\<rparr>"
    by (simp add: read(3) stamp_header_def)
  then have verified: "snd (Verify sample_hash (sample_chain data)) = None"
    by (simp add: Verify_def sample_chain_rounds [OF read(2)] opened sample_first_def sample_header_def zero_values)
  have one: "{covered (de_Data e) | e. e \<in> set (sample_chain data) \<union> set (sample_chain data) \<and>
      match_name (de_Name e) \<noteq> None} = {covered data}"
    (is "?S = _")
  proof -
    have "match_name ''.tmp-1'' = None" by simp
    then have "?S \<subseteq> {covered data}" by (auto simp: sample_chain_def)
    moreover have "covered data \<in> ?S"
      using match_roundName [OF sample_hex, of 1]
      by (intro CollectI exI [of _ "hd (sample_chain data)"]) (simp add: sample_chain_def)
    ultimately show ?thesis by blast
  qed
  have "list_all2 same_content [r] [r]"
    by (rule Verify_tamper_evident [OF holds holds verified verified refl refl]) (simp only: one, simp)
  with verified opened show ?thesis by blast
qed


end
