(* ===== verification/Flow_Log.thy ===== *)
theory Flow_Log
  imports Flow_Chain
begin

text \<open>
  What a chain promises, as an abstract specification: a log of published rounds that only grows at its end. The
  rounds directory implements it: every step of the directory is a step of the log or leaves it as it is,
  \<open>Publish\<close> appends exactly when the log does, and no crash leaves a chain that cannot be continued.
\<close>

section \<open>The specification\<close>

text \<open>An entry of the log is the digest a round's name carries and its bytes.\<close>

type_synonym round_log = "(string \<times> string) list"

definition log_publish :: "u64 \<Rightarrow> string \<Rightarrow> string \<Rightarrow> round_log \<Rightarrow> publish_error + round_log" where
  "log_publish n digest data log =
    (if of_nat (length log) + 1 \<noteq> n then Inl (NotNext n (of_nat (length log))) else Inr (log @ [(take 12 digest, data)]))"

inductive log_step :: "round_log \<Rightarrow> round_log \<Rightarrow> bool" where
  log_grows: "log_publish n digest data log = Inr log' \<Longrightarrow> hex_digest digest \<Longrightarrow> data \<noteq> [] \<Longrightarrow> n \<noteq> 0 \<Longrightarrow> log_step log log'"
| log_stays: "log_step log log"

section \<open>The log a directory stands for\<close>

definition round_entry :: "rounds_dir \<Rightarrow> roundFile \<Rightarrow> string \<times> string" where
  "round_entry dir rf = (rf_Digest rf, case file_at dir (rf_Path rf) of Some e \<Rightarrow> de_Data e | None \<Rightarrow> [])"

definition log_of :: "rounds_dir \<Rightarrow> round_log" where
  "log_of dir = map (round_entry dir) (List_rounds dir)"

lemma chain_dir_empty: "chain_dir []"
  by (auto simp: chain_dir_def List_rounds_def ListAtMost_def map_filter_simps intro: exI [of _ 0])

lemma reachable_chain_dir: "chain_step\<^sup>*\<^sup>* [] dir \<Longrightarrow> chain_dir dir"
  by (induction rule: rtranclp_induct) (use chain_dir_empty step_chain in blast)+

lemma Head_log: "chain_dir dir \<Longrightarrow> Head dir = of_nat (length (log_of dir))"
  by (erule chain_dir_rounds) (simp add: log_of_def)

lemma extends_log:
  assumes "extends dir dir'" "List_rounds dir' = List_rounds dir @ new"
  shows "log_of dir' = log_of dir @ map (round_entry dir') new"
proof -
  have "round_entry dir' rf = round_entry dir rf" if "rf \<in> set (List_rounds dir)" for rf
    using assms(1) that by (auto simp: extends_def round_entry_def split: option.splits)
  then show ?thesis by (simp add: log_of_def assms(2))
qed

text \<open>A round that is published is the last of the listing.\<close>

lemma published_log:
  assumes "chain_dir dir" "Publish n digest data dir = Inr dir'" "hex_digest digest" "n \<noteq> 0"
  shows "log_of dir' = log_of dir @ [(take 12 digest, data)] \<and> data \<noteq> [] \<and> n = of_nat (length (log_of dir)) + 1"
proof -
  have step: "chain_step dir dir'" using assms(2-4) by (rule step_publish)
  note c = step_chain [OF step assms(1)]
  note pub = Publish_adds [OF assms(2,3)]
  let ?new = "\<lparr>rf_Round = n, rf_Digest = take 12 digest, rf_Path = roundName n digest\<rparr>"
  obtain new where new: "List_rounds dir' = List_rounds dir @ new" using c by (auto simp: extends_def)
  have "listed dir' = listed dir @ [?new]"
    using pub assms(3) by (simp add: listed_append listed_remove_reservations map_filter_simps round_file_new)
  then have "mset new = {#?new#}"
    using arg_cong [OF new, of mset] by (simp add: mset_List_rounds)
  then have "new = [?new]" by (simp add: mset_single_iff)
  moreover have "file_at dir' (roundName n digest) = Some \<lparr>de_Name = roundName n digest, de_IsDir = False, de_Data = data, de_Old = False\<rparr>"
    using file_at_distinct [of dir' "\<lparr>de_Name = roundName n digest, de_IsDir = False, de_Data = data, de_Old = False\<rparr>"] c pub
    by (simp add: chain_dir_def)
  ultimately show ?thesis
    using extends_log [of dir dir' new] c new pub Head_log [OF assms(1)] by (simp add: round_entry_def)
qed

lemma unchanged_log:
  assumes "chain_dir dir" "chain_step dir dir'" "listed dir' = listed dir"
  shows "log_of dir' = log_of dir"
proof -
  note c = step_chain [OF assms(2,1)]
  obtain new where new: "List_rounds dir' = List_rounds dir @ new" using c by (auto simp: extends_def)
  have "mset (List_rounds dir') = mset (List_rounds dir)" using assms(3) by (simp add: mset_List_rounds)
  then have "new = []" by (simp add: new)
  then show ?thesis using extends_log [of dir dir' new] c new by simp
qed




section \<open>No crash stops a chain\<close>

text \<open>The name of the next round can be taken by nothing but an empty file or a directory.\<close>

lemma next_name_empty:
  assumes "chain_dir dir" "hex_digest digest" "Head dir + 1 \<noteq> 0" "e \<in> set dir" "de_Name e = roundName (Head dir + 1) digest"
    "\<not> de_IsDir e"
  shows "de_Data e = []"
proof (rule ccontr)
  assume data: "de_Data e \<noteq> []"
  obtain N where N: "N < 2 ^ 64" "map rf_Round (List_rounds dir) = map of_nat [1..<Suc N]" "Head dir = of_nat N"
    using assms(1) by (rule chain_dir_rounds) blast
  let ?rf = "\<lparr>rf_Round = Head dir + 1, rf_Digest = take 12 digest, rf_Path = roundName (Head dir + 1) digest\<rparr>"
  have "round_file e = Some ?rf"
    using round_file_new [OF assms(2) data, of "Head dir + 1" "de_Old e"] assms(5,6) by (cases e) simp
  then have "?rf \<in> set (listed dir)" using assms(4) by (force simp: map_filter_def)
  then have "Head dir + 1 \<in> set (map rf_Round (List_rounds dir))" by (force simp: set_List_rounds)
  then obtain k where k: "1 \<le> k" "k < Suc N" "of_nat (Suc N) = (of_nat k :: u64)" 
    unfolding N(2) by (auto simp: N(3) add.commute simp del: upt_Suc)
  have "Suc N < 2 ^ 64"
  proof (rule ccontr)
    assume "\<not> Suc N < 2 ^ 64"
    then have "Suc N = 2 ^ 64" using N(1) by simp
    then have "(of_nat (Suc N) :: u64) = of_nat (2 ^ 64)" by (simp only:)
    with assms(3) N(3) show False by simp
  qed
  then have "unat (of_nat (Suc N) :: u64) = Suc N" "unat (of_nat k :: u64) = k" using k(2) by (simp_all del: of_nat_Suc)
  with k show False by (metis less_irrefl)
qed

text \<open>C8. A chain is never stuck: whatever writers stopped and left behind, once what they left is old the next round
  is published, with any digest, and nothing published before is lost. Only a directory under the very name of
  the round, or the last number there is, could prevent it.\<close>
theorem chain_never_stuck:
  assumes "chain_step\<^sup>*\<^sup>* [] dir" "hex_digest digest" "data \<noteq> []" "Head dir + 1 \<noteq> 0"
    "\<forall>e \<in> set dir. de_Name e = roundName (Head dir + 1) digest \<longrightarrow> \<not> de_IsDir e"
  shows "\<exists>dir1 dir2. chain_step dir dir1 \<and> log_of dir1 = log_of dir \<and>
    Publish (Head dir + 1) digest data dir1 = Inr dir2 \<and> log_of dir2 = log_of dir @ [(take 12 digest, data)]"
proof -
  have dir: "chain_dir dir" by (rule reachable_chain_dir [OF assms(1)])
  let ?dir1 = "map (\<lambda>e. e\<lparr>de_Old := True\<rparr>) dir" and ?name = "roundName (Head dir + 1) digest"
  have aged: "chain_step dir ?dir1" by (rule step_age)
  have "round_file (e\<lparr>de_Old := True\<rparr>) = round_file e" for e by (simp add: round_file_def split: option.splits)
  then have "listed ?dir1 = listed dir" by (simp add: map_filter_def comp_def filter_map)
  note same = unchanged_log [OF dir aged this]
  have dir1: "chain_dir ?dir1" using step_chain [OF aged dir] by simp
  have head: "Head ?dir1 = Head dir" using same Head_log [OF dir] Head_log [OF dir1] by simp
  have "?name \<notin> de_Name ` set (remove_reservations ?dir1)"
  proof
    assume "?name \<in> de_Name ` set (remove_reservations ?dir1)"
    then obtain e where e: "e \<in> set dir" "de_Name e = ?name" "\<not> abandoned (e\<lparr>de_Old := True\<rparr>)"
      using match_roundName [OF assms(2), of "Head dir + 1"] by (auto simp: remove_reservations_def)
    with assms(5) have "\<not> de_IsDir e" by simp
    with next_name_empty [OF dir assms(2,4) e(1,2)] e(3) show False by (simp add: abandoned_def)
  qed
  then have "file_at (remove_reservations ?dir1) ?name = None" by (simp add: file_at_None)
  then obtain dir2 where pub: "Publish (Head dir + 1) digest data ?dir1 = Inr dir2"
    using assms(3) head by (simp add: Publish_def WriteExclusive_def)
  from published_log [OF dir1 pub assms(2,4)] same aged pub show ?thesis by auto
qed

theorem chain_never_stuck_witness:
  "\<exists>dir1 dir2. chain_step (sample_chain ''x'') dir1 \<and> Publish 2 ''0123456789abcdef'' ''y'' dir1 = Inr dir2 \<and>
    log_of dir2 = [(''0123456789ab'', ''x''), (''0123456789ab'', ''y'')]"
proof -
  have steps: "chain_step\<^sup>*\<^sup>* [] (sample_chain ''x'')" by (rule sample_chain_reachable)
  have head: "Head (sample_chain ''x'') = 1" by (simp add: Head_def sample_chain_rounds)
  have log: "log_of (sample_chain ''x'') = [(''0123456789ab'', ''x'')]"
    by (simp add: log_of_def sample_chain_rounds round_entry_def sample_chain_file)
  have "\<forall>e \<in> set (sample_chain ''x''). \<not> de_IsDir e" by (simp add: sample_chain_def)
  with chain_never_stuck [OF steps sample_hex, of "''y''"] head log show ?thesis by auto
qed

end
