(* ===== verification/Flow_State.thy ===== *)
theory Flow_State
  imports Flow_Chain
begin

text \<open>
  The mutable head of a chain, \<open>State\<close> of \<^verbatim>\<open>pkg/sessionflow/chain.go\<close>: the text \<open>SaveState\<close> writes and
  \<open>LoadState\<close> reads, over the routines of the Go library the reading calls: \<open>bufio.Scanner\<close>, \<open>strings.TrimSpace\<close>,
  \<open>strings.Cut\<close> and the values \<open>strconv\<close> gives with an error, which the reading keeps.
\<close>

section \<open>White space\<close>

text \<open>The UTF-8 forms of the runes of \<open>unicode.IsSpace\<close>.\<close>

definition white_spaces :: "string list" where
  "white_spaces =
    [[CHR 0x09], [CHR 0x0A], [CHR 0x0B], [CHR 0x0C], [CHR 0x0D], [CHR 0x20], [CHR 0xC2, CHR 0x85],
     [CHR 0xC2, CHR 0xA0], [CHR 0xE1, CHR 0x9A, CHR 0x80], [CHR 0xE2, CHR 0x80, CHR 0x80],
     [CHR 0xE2, CHR 0x80, CHR 0x81], [CHR 0xE2, CHR 0x80, CHR 0x82], [CHR 0xE2, CHR 0x80, CHR 0x83],
     [CHR 0xE2, CHR 0x80, CHR 0x84], [CHR 0xE2, CHR 0x80, CHR 0x85], [CHR 0xE2, CHR 0x80, CHR 0x86],
     [CHR 0xE2, CHR 0x80, CHR 0x87], [CHR 0xE2, CHR 0x80, CHR 0x88], [CHR 0xE2, CHR 0x80, CHR 0x89],
     [CHR 0xE2, CHR 0x80, CHR 0x8A], [CHR 0xE2, CHR 0x80, CHR 0xA8], [CHR 0xE2, CHR 0x80, CHR 0xA9],
     [CHR 0xE2, CHR 0x80, CHR 0xAF], [CHR 0xE2, CHR 0x81, CHR 0x9F], [CHR 0xE3, CHR 0x80, CHR 0x80]]"

definition space_at :: "string \<Rightarrow> string option" where
  "space_at s = List.find (\<lambda>w. take (length w) s = w) white_spaces"

definition space_before :: "string \<Rightarrow> string option" where
  "space_before s = List.find (\<lambda>w. length w \<le> length s \<and> drop (length s - length w) s = w) white_spaces"

lemma white_spaces_nonempty: "w \<in> set white_spaces \<Longrightarrow> w \<noteq> []"
  by (auto simp: white_spaces_def)

lemma space_at_Some: "space_at s = Some w \<Longrightarrow> w \<in> set white_spaces \<and> take (length w) s = w \<and> w \<noteq> [] \<and> s \<noteq> []"
proof -
  assume "space_at s = Some w"
  then have "w \<in> set white_spaces" "take (length w) s = w" by (auto simp: space_at_def find_Some_iff)
  with white_spaces_nonempty [OF this(1)] show ?thesis by (cases s) auto
qed

lemma space_before_Some: "space_before s = Some w \<Longrightarrow> w \<in> set white_spaces \<and> w \<noteq> [] \<and> length w \<le> length s \<and> s \<noteq> []"
proof -
  assume "space_before s = Some w"
  then have "w \<in> set white_spaces" "length w \<le> length s" by (auto simp: space_before_def find_Some_iff)
  with white_spaces_nonempty [OF this(1)] show ?thesis by (cases s) auto
qed

function trim_left :: "string \<Rightarrow> string" where
  "trim_left s = (case space_at s of None \<Rightarrow> s | Some w \<Rightarrow> trim_left (drop (length w) s))"
  by pat_completeness auto
termination by (relation "measure length") (auto dest!: space_at_Some)

function trim_right :: "string \<Rightarrow> string" where
  "trim_right s = (case space_before s of None \<Rightarrow> s | Some w \<Rightarrow> trim_right (take (length s - length w) s))"
  by pat_completeness auto
termination by (relation "measure length") (auto dest!: space_before_Some)

declare trim_left.simps [simp del] trim_right.simps [simp del]

definition TrimSpace :: "string \<Rightarrow> string" where
  "TrimSpace s = trim_right (trim_left s)"

text \<open>\<open>strings.Cut\<close> at the first space.\<close>

definition cut_space :: "string \<Rightarrow> (string \<times> string) option" where
  "cut_space s = (if CHR '' '' \<in> set s then Some (takeWhile (\<lambda>c. c \<noteq> CHR '' '') s, drop 1 (dropWhile (\<lambda>c. c \<noteq> CHR '' '') s)) else None)"

section \<open>Lines\<close>

text \<open>\<open>bufio.Scanner\<close> with \<open>ScanLines\<close>: lines end at a newline, a carriage return before it is dropped, and a line of
  64 KiB or more is \<open>ErrTooLong\<close>.\<close>

function raw_lines :: "string \<Rightarrow> string list" where
  "raw_lines s = (if s = [] then []
     else takeWhile (\<lambda>c. c \<noteq> CHR 0x0A) s # raw_lines (drop 1 (dropWhile (\<lambda>c. c \<noteq> CHR 0x0A) s)))"
  by pat_completeness auto
termination
  by (relation "measure length") (auto simp: length_dropWhile_le intro: le_less_trans [OF diff_le_mono [OF length_dropWhile_le]] diff_less)

declare raw_lines.simps [simp del]

definition drop_cr :: "string \<Rightarrow> string" where
  "drop_cr l = (if l \<noteq> [] \<and> last l = CHR 0x0D then butlast l else l)"

definition max_line :: nat where
  "max_line = 65536"

definition scan_lines :: "string \<Rightarrow> string list option" where
  "scan_lines s = (if \<forall>l \<in> set (raw_lines s). length l < max_line then Some (map drop_cr (raw_lines s)) else None)"

section \<open>Numbers, errors and all\<close>

text \<open>What \<open>strconv.ParseUint\<close> returns beside an error: 0 for what is no number, the greatest for one out of range.\<close>

fun uint_value :: "nat \<Rightarrow> string \<Rightarrow> nat" where
  "uint_value n [] = n"
| "uint_value n (c # cs) =
    (if \<not> is_digit c then 0
     else let m = 10 * n + (code c - 48) in if m < 2 ^ 64 then uint_value m cs else 2 ^ 64 - 1)"

definition ParseUint_value :: "string \<Rightarrow> u64" where
  "ParseUint_value s = of_nat (uint_value 0 s)"

text \<open>\<open>strconv.Atoi\<close> likewise.\<close>

definition Atoi_value :: "string \<Rightarrow> int" where
  "Atoi_value s =
    (let neg = (take 1 s = ''-''); t = (if take 1 s = ''-'' \<or> take 1 s = ''+'' then drop 1 s else s); n = int (uint_value 0 t)
     in if neg then - min n (2 ^ 63) else min n (2 ^ 63 - 1))"

section \<open>The state\<close>

record chain_state =
  cs_Schema :: int
  cs_Conversation :: string
  cs_Head :: u64
  cs_HeadDigest :: string
  cs_ThroughSeq :: u64
  cs_InputDigest :: string
  cs_Parser :: string
  cs_Policy :: string
  cs_UpdatedAt :: string

definition fresh_state :: "string \<Rightarrow> chain_state" where
  "fresh_state ident = \<lparr>cs_Schema = 1, cs_Conversation = ident, cs_Head = 0, cs_HeadDigest = [], cs_ThroughSeq = 0,
     cs_InputDigest = [], cs_Parser = [], cs_Policy = [], cs_UpdatedAt = []\<rparr>"

definition set_state :: "string \<Rightarrow> string \<Rightarrow> chain_state \<Rightarrow> chain_state" where
  "set_state key v s =
    (if key = ''schema'' then s\<lparr>cs_Schema := Atoi_value v\<rparr>
     else if key = ''conversation'' then s\<lparr>cs_Conversation := v\<rparr>
     else if key = ''head'' then s\<lparr>cs_Head := ParseUint_value v\<rparr>
     else if key = ''head_digest'' then s\<lparr>cs_HeadDigest := v\<rparr>
     else if key = ''through_seq'' then s\<lparr>cs_ThroughSeq := ParseUint_value v\<rparr>
     else if key = ''input_digest'' then s\<lparr>cs_InputDigest := v\<rparr>
     else if key = ''parser'' then s\<lparr>cs_Parser := v\<rparr>
     else if key = ''policy'' then s\<lparr>cs_Policy := v\<rparr>
     else if key = ''updated_at'' then s\<lparr>cs_UpdatedAt := v\<rparr>
     else s)"

definition state_line :: "string \<Rightarrow> chain_state \<Rightarrow> chain_state" where
  "state_line l s =
    (let line = TrimSpace l in
     if line = [] \<or> take 1 line = ''#'' then s
     else case cut_space line of None \<Rightarrow> s | Some (key, v) \<Rightarrow> set_state key (TrimSpace v) s)"

datatype state_error = LineTooLong

text \<open>The argument is the bytes of the state file, none when there is no such file.\<close>

definition LoadState :: "string \<Rightarrow> string option \<Rightarrow> state_error + chain_state" where
  "LoadState ident file =
    (case file of
       None \<Rightarrow> Inr (fresh_state ident)
     | Some text0 \<Rightarrow>
        (case scan_lines text0 of
           None \<Rightarrow> Inl LineTooLong
         | Some ls \<Rightarrow> Inr (fold state_line ls (fresh_state ident))))"

definition state_fields :: "chain_state \<Rightarrow> (string \<times> string) list" where
  "state_fields s =
    [(''schema'', Itoa (cs_Schema s)), (''conversation'', cs_Conversation s), (''head'', u64_text (cs_Head s)),
     (''head_digest'', cs_HeadDigest s), (''through_seq'', u64_text (cs_ThroughSeq s)), (''input_digest'', cs_InputDigest s),
     (''parser'', cs_Parser s), (''policy'', cs_Policy s), (''updated_at'', cs_UpdatedAt s)]"

definition state_text :: "chain_state \<Rightarrow> string" where
  "state_text s = concat (map (\<lambda>(k, v). k @ replicate (13 - length k) (CHR '' '') @ v @ [CHR 0x0A]) (state_fields s))"

text \<open>\<open>SaveState\<close> with the time as text: the state as it is left, and the bytes of its file.\<close>

definition SaveState :: "chain_state \<Rightarrow> string \<Rightarrow> chain_state \<times> string" where
  "SaveState s now = (let s' = s\<lparr>cs_UpdatedAt := now\<rparr> in (s', state_text s'))"

section \<open>What trimming keeps\<close>

definition word_char :: "char \<Rightarrow> bool" where
  "word_char c \<longleftrightarrow> 33 \<le> (of_char c :: nat) \<and> (of_char c :: nat) < 127"

lemma white_spaces_no_word: "w \<in> set white_spaces \<Longrightarrow> c \<in> set w \<Longrightarrow> \<not> word_char c"
  by (auto simp: white_spaces_def word_char_def)

lemma white_spaces_space: "w \<in> set white_spaces \<Longrightarrow> CHR '' '' \<in> set w \<Longrightarrow> w = '' ''"
  by (auto simp: white_spaces_def)

lemma space_white: "'' '' \<in> set white_spaces"
  by (simp add: white_spaces_def)

lemma space_at_None: "space_at s = None \<longleftrightarrow> (\<forall>w \<in> set white_spaces. take (length w) s \<noteq> w)"
  by (auto simp: space_at_def find_None_iff)

lemma space_before_None:
  "space_before s = None \<longleftrightarrow> (\<forall>w \<in> set white_spaces. length w \<le> length s \<longrightarrow> drop (length s - length w) s \<noteq> w)"
  by (auto simp: space_before_def find_None_iff)

lemma trim_left_word: "word_char c \<Longrightarrow> trim_left (c # s) = c # s"
proof -
  assume c: "word_char c"
  have "take (length w) (c # s) \<noteq> w" if "w \<in> set white_spaces" for w
    using white_spaces_no_word [OF that, of c] white_spaces_nonempty [OF that] c by (cases w) auto
  then have "space_at (c # s) = None" by (simp add: space_at_None)
  then show ?thesis by (simp add: trim_left.simps)
qed

lemma trim_left_space: "trim_left (CHR '' '' # s) = trim_left s"
proof -
  have "space_at (CHR '' '' # s) \<noteq> None" 
  proof
    assume "space_at (CHR '' '' # s) = None"
    then have "take (length '' '') (CHR '' '' # s) \<noteq> '' ''" using space_white unfolding space_at_None by blast
    then show False by simp
  qed
  then obtain w where w: "space_at (CHR '' '' # s) = Some w" by auto
  with space_at_Some [OF w] white_spaces_space [of w] have "w = '' ''" by (cases w) auto
  with w show ?thesis by (subst trim_left.simps) simp
qed

lemma trim_left_spaces: "trim_left (replicate k (CHR '' '') @ s) = trim_left s"
  by (induction k) (simp_all add: trim_left_space)

lemma trim_right_word: "word_char c \<Longrightarrow> trim_right (s @ [c]) = s @ [c]"
proof -
  assume c: "word_char c"
  have "drop (length (s @ [c]) - length w) (s @ [c]) \<noteq> w" if "w \<in> set white_spaces" for w
  proof
    assume w: "drop (length (s @ [c]) - length w) (s @ [c]) = w"
    have "w \<noteq> []" by (rule white_spaces_nonempty [OF that])
    then have "last w = c" using w by (metis last_drop last_snoc drop_all length_drop not_le)
    with white_spaces_no_word [OF that, of c] c \<open>w \<noteq> []\<close> show False by (metis last_in_set)
  qed
  then have "space_before (s @ [c]) = None" by (simp add: space_before_None)
  then show ?thesis by (simp add: trim_right.simps)
qed

lemma trim_right_space: "trim_right (s @ '' '') = trim_right s"
proof -
  have "space_before (s @ '' '') \<noteq> None" 
  proof
    assume "space_before (s @ '' '') = None"
    then have "length '' '' \<le> length (s @ '' '') \<longrightarrow> drop (length (s @ '' '') - length '' '') (s @ '' '') \<noteq> '' ''"
      using space_white unfolding space_before_None by blast
    then show False by simp
  qed
  then obtain w where w: "space_before (s @ '' '') = Some w" by auto
  then have ws: "w \<in> set white_spaces" "w \<noteq> []" "length w \<le> length (s @ '' '')" using space_before_Some by blast+
  have "drop (length (s @ '' '') - length w) (s @ '' '') = w" using w by (auto simp: space_before_def find_Some_iff)
  then have "last w = CHR '' ''" using ws(2) by (metis last_drop last_snoc drop_all length_drop not_le)
  then have "w = '' ''" using white_spaces_space [OF ws(1)] ws(2) by (metis last_in_set)
  with w show ?thesis by (subst trim_right.simps) simp
qed

lemma trim_right_spaces: "trim_right (s @ replicate k (CHR '' '')) = trim_right s"
proof (induction k)
  case (Suc k)
  have "s @ replicate (Suc k) (CHR '' '') = (s @ replicate k (CHR '' '')) @ '' ''" by (simp add: replicate_append_same)
  with Suc trim_right_space [of "s @ replicate k (CHR '' '')"] show ?case by simp
qed simp

lemma trim_right_length: "length (trim_right s) \<le> length s"
proof (induction s rule: trim_right.induct)
  case (1 s)
  then show ?case by (subst trim_right.simps) (auto split: option.split dest: space_before_Some intro: le_trans)
qed

lemma trim_right_id: "trim_right s = s \<longleftrightarrow> space_before s = None"
proof
  assume id: "trim_right s = s"
  show "space_before s = None"
  proof (rule ccontr)
    assume "space_before s \<noteq> None"
    then obtain w where w: "space_before s = Some w" by auto
    then have "length (trim_right s) \<le> length s - length w"
      using trim_right_length [of "take (length s - length w) s"] by (simp add: trim_right.simps [of s])
    with id space_before_Some [OF w] show False by (cases w; cases s) auto
  qed
qed (simp add: trim_right.simps)

lemma trim_right_keep:
  assumes "v \<noteq> []" "trim_right v = v" shows "trim_right (x @ CHR '' '' # v) = x @ CHR '' '' # v"
proof -
  have none: "space_before v = None" using assms(2) by (simp add: trim_right_id)
  have "drop (length (x @ CHR '' '' # v) - length w) (x @ CHR '' '' # v) \<noteq> w" if w: "w \<in> set white_spaces" for w
  proof
    assume eq: "drop (length (x @ CHR '' '' # v) - length w) (x @ CHR '' '' # v) = w"
    show False
    proof (cases "length w \<le> length v")
      case True
      then have "drop (length v - length w) v = w" using eq by (simp add: Suc_diff_le)
      with none True w show False by (auto simp: space_before_None)
    next
      case False
      then have "CHR '' '' \<in> set (drop (length (x @ CHR '' '' # v) - length w) (x @ CHR '' '' # v))" by simp
      with eq white_spaces_space [OF w] have "w = '' ''" by simp
      with False assms(1) show False by (cases v) auto
    qed
  qed
  then show ?thesis by (simp add: trim_right_id space_before_None)
qed

section \<open>Reading back what was written\<close>

text \<open>A value a line keeps: no newline, and no white space at either end.\<close>

definition clean :: "string \<Rightarrow> bool" where
  "clean v \<longleftrightarrow> CHR 0x0A \<notin> set v \<and> space_at v = None \<and> space_before v = None"

definition key_ok :: "string \<Rightarrow> bool" where
  "key_ok k \<longleftrightarrow> k \<noteq> [] \<and> length k \<le> 12 \<and> (\<forall>c \<in> set k. word_char c \<and> c \<noteq> CHR ''#'')"

definition field_line :: "string \<Rightarrow> string \<Rightarrow> string" where
  "field_line k v = k @ replicate (13 - length k) (CHR '' '') @ v"

lemma trim_clean: "clean v \<Longrightarrow> trim_left v = v \<and> trim_right v = v"
  by (simp add: clean_def trim_left.simps trim_right.simps)

lemma word_not_space: "word_char c \<Longrightarrow> c \<noteq> CHR '' '' \<and> c \<noteq> CHR 0x0A \<and> c \<noteq> CHR 0x0D"
  by (auto simp: word_char_def)

lemma words_clean: "\<forall>c \<in> set v. word_char c \<Longrightarrow> clean v"
proof (cases v rule: rev_cases)
  case Nil
  then show ?thesis using white_spaces_nonempty by (auto simp: clean_def space_at_None space_before_None)
next
  case (snoc u c)
  assume w: "\<forall>c \<in> set v. word_char c"
  then have "trim_right v = v" using trim_right_word [of c u] snoc by simp
  moreover have "space_at v = None"
  proof -
    have "take (length w) v \<noteq> w" if "w \<in> set white_spaces" for w
    proof
      assume eq: "take (length w) v = w"
      have "w \<noteq> []" by (rule white_spaces_nonempty [OF that])
      then have "hd w \<in> set v" using eq by (metis hd_in_set in_set_takeD)
      with w white_spaces_no_word [OF that hd_in_set [OF \<open>w \<noteq> []\<close>]] show False by blast
    qed
    then show ?thesis by (simp add: space_at_None)
  qed
  ultimately show ?thesis using w word_not_space by (auto simp: clean_def trim_right_id)
qed

lemma field_line_trim:
  assumes "key_ok k" "clean v"
  shows "TrimSpace (field_line k v) = (if v = [] then k else field_line k v)"
proof -
  obtain c u where k: "k = c # u" "word_char c" using assms(1) by (cases k) (auto simp: key_ok_def)
  then have left: "trim_left (field_line k v) = field_line k v" by (simp add: field_line_def trim_left_word)
  show ?thesis
  proof (cases "v = []")
    case True
    have "trim_right k = k" using trim_clean [OF words_clean] assms(1) by (simp add: key_ok_def)
    with True left show ?thesis by (simp add: TrimSpace_def field_line_def trim_right_spaces)
  next
    case False
    have "13 - length k = Suc (12 - length k)" using assms(1) unfolding key_ok_def by linarith
    then have "field_line k v = (k @ replicate (12 - length k) (CHR '' '')) @ CHR '' '' # v"
      by (simp add: field_line_def replicate_append_same [symmetric])
    with trim_right_keep [OF False, of "k @ replicate (12 - length k) (CHR '' '')"] trim_clean [OF assms(2)] left False
    show ?thesis by (simp add: TrimSpace_def)
  qed
qed

lemma span_until: "c \<notin> set l \<Longrightarrow> takeWhile (\<lambda>x. x \<noteq> c) (l @ c # r) = l \<and> dropWhile (\<lambda>x. x \<noteq> c) (l @ c # r) = c # r"
  by (induction l) auto

lemma state_line_field:
  assumes "key_ok k" "clean v"
  shows "state_line (field_line k v) s = (if v = [] then s else set_state k v s)"
proof -
  have k: "CHR '' '' \<notin> set k" "k \<noteq> []" "length k \<le> 12" using assms(1) word_not_space by (auto simp: key_ok_def)
  have hash: "take 1 k \<noteq> ''#''" using assms(1) by (cases k) (auto simp: key_ok_def)
  show ?thesis
  proof (cases "v = []")
    case True
    with k hash field_line_trim [OF assms] show ?thesis by (simp add: state_line_def cut_space_def)
  next
    case False
    have spaces: "13 - length k = Suc (12 - length k)" using k by simp
    have "takeWhile (\<lambda>c. c \<noteq> CHR '' '') (field_line k v) = k"
      "drop 1 (dropWhile (\<lambda>c. c \<noteq> CHR '' '') (field_line k v)) = replicate (12 - length k) (CHR '' '') @ v"
      using span_until [OF k(1)] by (simp_all add: field_line_def spaces)
    moreover have "CHR '' '' \<in> set (field_line k v)" by (simp add: field_line_def spaces)
    moreover have "TrimSpace (replicate (12 - length k) (CHR '' '') @ v) = v"
      using trim_clean [OF assms(2)] by (simp add: TrimSpace_def trim_left_spaces)
    moreover have "take 1 (field_line k v) \<noteq> ''#''" "field_line k v \<noteq> []" using hash k(2) by (cases k; simp add: field_line_def)+
    ultimately show ?thesis using False by (simp add: state_line_def field_line_trim [OF assms] cut_space_def)
  qed
qed

lemma raw_lines_cons: "CHR 0x0A \<notin> set l \<Longrightarrow> raw_lines (l @ CHR 0x0A # rest) = l # raw_lines rest"
  using span_until [of "CHR 0x0A" l rest] by (subst raw_lines.simps) simp

lemma scan_lines_of:
  "(\<forall>l \<in> set ls. CHR 0x0A \<notin> set l \<and> length l < max_line \<and> (l \<noteq> [] \<longrightarrow> last l \<noteq> CHR 0x0D)) \<Longrightarrow>
     scan_lines (concat (map (\<lambda>l. l @ [CHR 0x0A]) ls)) = Some ls"
proof -
  assume ls: "\<forall>l \<in> set ls. CHR 0x0A \<notin> set l \<and> length l < max_line \<and> (l \<noteq> [] \<longrightarrow> last l \<noteq> CHR 0x0D)"
  then have "raw_lines (concat (map (\<lambda>l. l @ [CHR 0x0A]) ls)) = ls"
    by (induction ls) (simp add: raw_lines.simps, simp add: raw_lines_cons)
  moreover have "map drop_cr ls = ls" using ls by (intro map_idI) (auto simp: drop_cr_def)
  ultimately show ?thesis using ls by (simp add: scan_lines_def)
qed

lemma field_line_ok:
  assumes "key_ok k" "clean v" "length v < max_line - 13"
  shows "CHR 0x0A \<notin> set (field_line k v) \<and> length (field_line k v) < max_line \<and> last (field_line k v) \<noteq> CHR 0x0D"
proof -
  have k: "CHR 0x0A \<notin> set k" "length k \<le> 12" using assms(1) word_not_space by (auto simp: key_ok_def)
  have "last v \<noteq> CHR 0x0D" if "v \<noteq> []"
  proof
    assume last: "last v = CHR 0x0D"
    have "[CHR 0x0D] \<in> set white_spaces" by (simp add: white_spaces_def)
    then have "drop (length v - 1) v \<noteq> [CHR 0x0D]" using assms(2) that by (cases v) (force simp: clean_def space_before_None)+
    with last that show False by (cases v rule: rev_cases) auto
  qed
  then have "last (field_line k v) \<noteq> CHR 0x0D" using k(2) by (simp add: field_line_def last_append)
  with k assms show ?thesis by (auto simp: field_line_def clean_def)
qed


lemma digits_value_grows: "digits_value n cs = Some r \<Longrightarrow> n \<le> r"
proof (induction cs arbitrary: n)
  case (Cons c cs)
  then have "10 * n + (code c - 48) \<le> r" by (auto split: if_splits)
  then show ?case by simp
qed simp

lemma uint_value_digits: "digits_value n cs = Some r \<Longrightarrow> r < 2 ^ 64 \<Longrightarrow> uint_value n cs = r"
proof (induction cs arbitrary: n)
  case (Cons c cs)
  then have c: "is_digit c" "digits_value (10 * n + (code c - 48)) cs = Some r" by (auto split: if_splits)
  with digits_value_grows [OF c(2)] Cons show ?case by (simp add: Let_def)
qed simp

lemma ParseUint_value_text: "ParseUint_value (u64_text n) = n"
proof -
  have "unat n < 2 ^ 64" using unsigned_less [of n, where ?'a = nat] by simp
  with uint_value_digits [OF digits_value_FormatUint] show ?thesis by (simp add: ParseUint_value_def u64_text_def)
qed

lemma Atoi_value_Itoa: "int64_range i \<Longrightarrow> Atoi_value (Itoa i) = i"
proof (cases "i < 0")
  case True
  assume "int64_range i"
  with True have "uint_value 0 (FormatUint (nat (- i))) = nat (- i)"
    by (intro uint_value_digits digits_value_FormatUint) (simp add: int64_range_def)
  with True \<open>int64_range i\<close> show ?thesis by (simp add: Atoi_value_def Itoa_def Let_def int64_range_def)
next
  case False
  assume "int64_range i"
  with False have "uint_value 0 (FormatUint (nat i)) = nat i"
    by (intro uint_value_digits digits_value_FormatUint) (simp add: int64_range_def)
  moreover obtain c cs where "FormatUint (nat i) = c # cs" "is_digit c" using FormatUint_head by blast
  moreover from this(2) have "c \<noteq> CHR ''-''" "c \<noteq> CHR ''+''" by (auto simp: is_digit_def)
  ultimately show ?thesis using False \<open>int64_range i\<close> by (simp add: Atoi_value_def Itoa_def Let_def int64_range_def)
qed

lemma digit_word: "is_digit c \<Longrightarrow> word_char c"
  by (simp add: is_digit_def word_char_def)

lemma clean_numbers: "clean (u64_text n)" "clean (Itoa i)"
  using FormatUint_is_digit digit_word by (auto intro!: words_clean simp: u64_text_def Itoa_def word_char_def)

lemma number_nonempty: "u64_text n \<noteq> []" "Itoa i \<noteq> []"
  by (simp_all add: u64_text_def Itoa_def)

lemma length_FormatUint: "n < 10 ^ k \<Longrightarrow> 0 < k \<Longrightarrow> length (FormatUint n) \<le> k"
proof (induction n arbitrary: k rule: FormatUint.induct)
  case (1 n)
  show ?case
  proof (cases "n < 10")
    case True
    with 1 show ?thesis by (simp add: FormatUint.simps [of n])
  next
    case False
    then obtain j where j: "k = Suc j" "0 < j" using 1(2,3) by (cases k; cases "k - 1") auto
    then have "length (FormatUint (n div 10)) \<le> j" using 1(1) [OF False, of j] 1(2) by simp
    then show ?thesis using False j by (simp add: FormatUint.simps [of n])
  qed
qed

lemma number_short: "length (u64_text n) < max_line - 13" "int64_range i \<Longrightarrow> length (Itoa i) < max_line - 13"
proof -
  have "unat n < 10 ^ 20" using unsigned_less [of n, where ?'a = nat] by simp
  from length_FormatUint [OF this] show "length (u64_text n) < max_line - 13" by (simp add: u64_text_def max_line_def)
  assume "int64_range i"
  then have "nat (- i) < 10 ^ 20" "nat i < 10 ^ 20" by (auto simp: int64_range_def)
  from this [THEN length_FormatUint] show "length (Itoa i) < max_line - 13" by (simp add: Itoa_def max_line_def)
qed

definition text_fields :: "chain_state \<Rightarrow> string set" where
  "text_fields s = {cs_Conversation s, cs_HeadDigest s, cs_InputDigest s, cs_Parser s, cs_Policy s, cs_UpdatedAt s}"

definition state_ok :: "string \<Rightarrow> chain_state \<Rightarrow> bool" where
  "state_ok ident s \<longleftrightarrow> int64_range (cs_Schema s) \<and> (cs_Conversation s = [] \<longrightarrow> ident = []) \<and>
     (\<forall>v \<in> text_fields s. clean v \<and> length v < max_line - 13)"

lemma keys_ok: "list_all key_ok [''schema'', ''conversation'', ''head'', ''head_digest'', ''through_seq'', ''input_digest'', ''parser'', ''policy'', ''updated_at'']"
  by code_simp

lemma state_fields_keys: "map fst (state_fields s) =
    [''schema'', ''conversation'', ''head'', ''head_digest'', ''through_seq'', ''input_digest'', ''parser'', ''policy'', ''updated_at'']"
  by (simp add: state_fields_def)

lemma state_fields_ok:
  assumes "state_ok ident s" "(k, v) \<in> set (state_fields s)"
  shows "key_ok k \<and> clean v \<and> length v < max_line - 13"
proof -
  have "k \<in> set (map fst (state_fields s))" using assms(2) by force
  then have "key_ok k" using keys_ok unfolding state_fields_keys list_all_iff by blast
  moreover have "v \<in> text_fields s \<or> v = Itoa (cs_Schema s) \<or> v = u64_text (cs_Head s) \<or> v = u64_text (cs_ThroughSeq s)"
    using imageI [OF assms(2), of snd] by (auto simp: state_fields_def text_fields_def)
  ultimately show ?thesis using assms(1) number_short clean_numbers unfolding state_ok_def by blast
qed

lemma fold_state_lines:
  "(\<forall>(k, v) \<in> set fs. key_ok k \<and> clean v) \<Longrightarrow>
   fold state_line (map (\<lambda>(k, v). field_line k v) fs) s = fold (\<lambda>(k, v) s. if v = [] then s else set_state k v s) fs s"
  by (induction fs arbitrary: s) (auto simp: state_line_field)

lemma read_text_fields:
  "cs_HeadDigest s = [] \<Longrightarrow> (if v = [] then s else set_state ''head_digest'' v s) = s\<lparr>cs_HeadDigest := v\<rparr>"
  "cs_InputDigest s = [] \<Longrightarrow> (if v = [] then s else set_state ''input_digest'' v s) = s\<lparr>cs_InputDigest := v\<rparr>"
  "cs_Parser s = [] \<Longrightarrow> (if v = [] then s else set_state ''parser'' v s) = s\<lparr>cs_Parser := v\<rparr>"
  "cs_Policy s = [] \<Longrightarrow> (if v = [] then s else set_state ''policy'' v s) = s\<lparr>cs_Policy := v\<rparr>"
  "cs_UpdatedAt s = [] \<Longrightarrow> (if v = [] then s else set_state ''updated_at'' v s) = s\<lparr>cs_UpdatedAt := v\<rparr>"
  "cs_Conversation s = ident \<Longrightarrow> (v = [] \<longrightarrow> ident = []) \<Longrightarrow> (if v = [] then s else set_state ''conversation'' v s) = s\<lparr>cs_Conversation := v\<rparr>"
  by (cases s, auto simp: set_state_def)+

lemma read_number_fields:
  "(if u64_text n = [] then s else set_state ''head'' (u64_text n) s) = s\<lparr>cs_Head := n\<rparr>"
  "(if u64_text n = [] then s else set_state ''through_seq'' (u64_text n) s) = s\<lparr>cs_ThroughSeq := n\<rparr>"
  "int64_range i \<Longrightarrow> (if Itoa i = [] then s else set_state ''schema'' (Itoa i) s) = s\<lparr>cs_Schema := i\<rparr>"
  by (simp_all add: set_state_def number_nonempty ParseUint_value_text Atoi_value_Itoa)

lemma fields_read:
  assumes "int64_range (cs_Schema s)" "cs_Conversation s = [] \<longrightarrow> ident = []"
  shows "fold (\<lambda>(k, v) s. if v = [] then s else set_state k v s) (state_fields s) (fresh_state ident) = s"
  using assms by (cases s) (simp add: state_fields_def fresh_state_def read_number_fields read_text_fields split del: if_split)


definition sample_state :: chain_state where
  "sample_state = (fresh_state ''c'')\<lparr>cs_Head := 7, cs_HeadDigest := ''0123456789ab'', cs_ThroughSeq := 12, cs_Parser := ''p 1''\<rparr>"


end
