(* ===== verification/Bounded_Scan.thy ===== *)
theory Bounded_Scan
  imports Go_Json
begin

text \<open>
  The scanner of \<^verbatim>\<open>internal/boundedjson/scanner.go\<close>, which reads one JSON value as
  tokens under limits of depth, members and string bytes. The reader is the bytes it still gives and how it
  ends, with the end of the input or with a failure. The stack of open containers has its top first. A
  scanner that failed keeps its error and answers every later call with it, so its other fields are
  left as they were when the failing call began.
\<close>

section \<open>Data\<close>

definition MaxDepth :: nat where "MaxDepth = 16"
definition MaxMembers :: nat where "MaxMembers = 4096"
definition MaxStringBytes :: nat where "MaxStringBytes = 64 * 1024"

datatype kind = KObject | KObjectEnd | KArray | KArrayEnd | KName | KString | KNumber | KTrue | KFalse | KNull

record token =
  tk_Kind :: kind
  tk_Text :: string
  tk_unsigned :: u64
  tk_whole :: bool
  tk_overflow :: bool

definition plain_token :: "kind \<Rightarrow> string \<Rightarrow> token" where
  "plain_token k t = \<lparr>tk_Kind = k, tk_Text = t, tk_unsigned = 0, tk_whole = False, tk_overflow = False\<rparr>"

datatype scan_error =
    ScanEOF | UnexpectedEOF | ReaderFailed | TrailingValue | ExpectedComma | ExpectedColon | ExpectedName
  | TooManyMembers | DuplicateMember string | TooDeep | BadLiteral | ExpectedValue | BadEncoding
  | UnpairedSurrogate | BadEscape | StringTooLong | BadHex | ExpectedDigit | LeadingZero | NotUnsigned
  | NotSigned | NotSkippable

datatype read_end = AtEOF | Fails

text \<open>An error of the reader as it is, and where the value still needs a byte.\<close>

definition ended :: "read_end \<Rightarrow> scan_error" where
  "ended fin = (case fin of AtEOF \<Rightarrow> ScanEOF | Fails \<Rightarrow> ReaderFailed)"

definition required :: "read_end \<Rightarrow> scan_error" where
  "required fin = (case fin of AtEOF \<Rightarrow> UnexpectedEOF | Fails \<Rightarrow> ReaderFailed)"

definition Token_Uint64 :: "token \<Rightarrow> scan_error + u64" where
  "Token_Uint64 t =
    (if tk_Kind t \<noteq> KNumber \<or> \<not> tk_whole t \<or> tk_overflow t then Inl NotUnsigned else Inr (tk_unsigned t))"

definition Token_Int64 :: "token \<Rightarrow> scan_error + int" where
  "Token_Int64 t =
    bind_result (Token_Uint64 t) (\<lambda>n. if n > 2 ^ 63 - 1 then Inl NotSigned else Inr (uint n))"

text \<open>The state of a container: 0 just opened, 1 after a comma, 2 after a member name, 3 after a value.\<close>

record container =
  ct_kind :: kind
  ct_state :: nat
  ct_names :: "string list"

record scanner =
  sc_in :: string
  sc_end :: read_end
  sc_stack :: "container list"
  sc_started :: bool
  sc_err :: "scan_error option"

definition New_Scanner :: "string \<Rightarrow> read_end \<Rightarrow> scanner" where
  "New_Scanner s fin = \<lparr>sc_in = s, sc_end = fin, sc_stack = [], sc_started = False, sc_err = None\<rparr>"

section \<open>Strings\<close>

fun hex_digits :: "nat \<Rightarrow> read_end \<Rightarrow> nat \<Rightarrow> string \<Rightarrow> scan_error + (nat \<times> string)" where
  "hex_digits 0 fin v s = Inr (v, s)"
| "hex_digits (Suc k) fin v [] = Inl (required fin)"
| "hex_digits (Suc k) fin v (c # cs) =
    (case hex_val c of None \<Rightarrow> Inl BadHex | Some x \<Rightarrow> hex_digits k fin (16 * v + x) cs)"

definition hexRune :: "read_end \<Rightarrow> string \<Rightarrow> scan_error + (nat \<times> string)" where
  "hexRune fin s = hex_digits 4 fin 0 s"

text \<open>The bytes a text must go on with.\<close>

fun want_bytes :: "scan_error \<Rightarrow> read_end \<Rightarrow> string \<Rightarrow> string \<Rightarrow> scan_error + string" where
  "want_bytes e fin [] s = Inr s"
| "want_bytes e fin (w # ws) [] = Inl (required fin)"
| "want_bytes e fin (w # ws) (c # cs) = (if c \<noteq> w then Inl e else want_bytes e fin ws cs)"

definition u_rune :: "read_end \<Rightarrow> string \<Rightarrow> scan_error + (nat \<times> string)" where
  "u_rune fin s =
    bind_result (hexRune fin s) (\<lambda>(r, s1).
      if 0xD800 \<le> r \<and> r < 0xE000 then
        (if r > 0xDBFF then Inl UnpairedSurrogate
         else bind_result (want_bytes UnpairedSurrogate fin [CHR 0x5C, CHR ''u''] s1) (\<lambda>s2.
           bind_result (hexRune fin s2) (\<lambda>(low, s3).
             if low < 0xDC00 \<or> low > 0xDFFF then Inl UnpairedSurrogate
             else Inr ((r - 0xD800) * 1024 + (low - 0xDC00) + 0x10000, s3))))
      else Inr (r, s1))"

text \<open>One rune of a string, escaped or not, as its bytes in UTF-8, and the text after it.\<close>

definition string_rune :: "read_end \<Rightarrow> char \<Rightarrow> string \<Rightarrow> scan_error + (string \<times> string)" where
  "string_rune fin c cs =
    (if code c < 0x20 then Inl BadEncoding
     else if c = CHR 0x5C then
       (case cs of
          [] \<Rightarrow> Inl (required fin)
        | e # ds \<Rightarrow>
            if e = CHR ''u'' then bind_result (u_rune fin ds) (\<lambda>(r, rest). Inr (encode_rune r, rest))
            else (case plain_escape e of None \<Rightarrow> Inl BadEscape | Some b \<Rightarrow> Inr ([b], ds)))
     else if code c < 0x80 then Inr ([c], cs)
     else (case utf8_size (c # cs) of
        None \<Rightarrow> Inl BadEncoding
      | Some n \<Rightarrow> Inr (take n (c # cs), drop n (c # cs))))"

lemma hex_digits_shorter: "hex_digits k fin v s = Inr (r, t) \<Longrightarrow> length t + k = length s"
  by (induction k fin v s rule: hex_digits.induct) (auto split: option.splits)

lemma want_bytes_shorter: "want_bytes e fin ws s = Inr t \<Longrightarrow> s = ws @ t"
  by (induction e fin ws s rule: want_bytes.induct) (auto split: if_splits)

lemma u_rune_shorter: "u_rune fin s = Inr (r, t) \<Longrightarrow> length t < length s"
  by (auto simp: u_rune_def hexRune_def split: if_splits dest!: hex_digits_shorter want_bytes_shorter)

lemma string_rune_shorter: "string_rune fin c cs = Inr (w, t) \<Longrightarrow> length t \<le> length cs"
  by (auto simp: string_rune_def split: if_splits list.splits option.splits
      dest!: u_rune_shorter utf8_size_bounds)

text \<open>The string from after its quote: its value when it is kept, and the text after the closing quote.\<close>

function string_loop :: "bool \<Rightarrow> read_end \<Rightarrow> nat \<Rightarrow> string \<Rightarrow> scan_error + (string \<times> string)" where
  "string_loop keep fin sz [] = Inl (required fin)"
| "string_loop keep fin sz (c # cs) =
    (if c = CHR 0x22 then Inr ([], cs)
     else bind_result (string_rune fin c cs) (\<lambda>(w, rest).
       if sz > MaxStringBytes - length w then Inl StringTooLong
       else bind_result (string_loop keep fin (sz + length w) rest) (\<lambda>(v, t).
         Inr ((if keep then w @ v else v), t))))"
  by pat_completeness auto
termination
  by (relation "measure (\<lambda>(keep, fin, sz, s). length s)") (auto dest: string_rune_shorter)

declare string_loop.simps [simp del]

definition scan_string :: "bool \<Rightarrow> read_end \<Rightarrow> string \<Rightarrow> scan_error + (string \<times> string)" where
  "scan_string keep fin s = string_loop keep fin 0 (tl s)"

section \<open>Numbers\<close>

definition add_digit :: "char \<Rightarrow> u64 \<times> bool \<Rightarrow> u64 \<times> bool" where
  "add_digit c = (\<lambda>(u, over).
    (let d = of_nat (code c - 48) in
     if u > (- 1 - d) div 10 then (u, True)
     else if \<not> over then (u * 10 + d, over) else (u, over)))"

fun int_digits :: "bool \<Rightarrow> u64 \<times> bool \<Rightarrow> string \<Rightarrow> (u64 \<times> bool) \<times> string" where
  "int_digits zero acc [] = (acc, [])"
| "int_digits zero acc (c # cs) =
    (if is_digit c then
       (if zero then (add_digit c acc, cs) else int_digits zero (add_digit c acc) cs)
     else (acc, c # cs))"

text \<open>One digit at least, and all that follow.\<close>

definition scan_digits :: "read_end \<Rightarrow> string \<Rightarrow> scan_error + string" where
  "scan_digits fin s =
    (case s of
       [] \<Rightarrow> Inl (required fin)
     | c # cs \<Rightarrow>
         if \<not> is_digit c then Inl ExpectedDigit
         else (let t = dropWhile is_digit cs in if t = [] \<and> fin = Fails then Inl ReaderFailed else Inr t))"

definition scan_fraction :: "read_end \<Rightarrow> bool \<Rightarrow> string \<Rightarrow> scan_error + (bool \<times> string)" where
  "scan_fraction fin whole s =
    (case s of
       c # t \<Rightarrow> if c = CHR ''.'' then bind_result (scan_digits fin t) (\<lambda>r. Inr (False, r)) else Inr (whole, s)
     | [] \<Rightarrow> Inr (whole, s))"

definition scan_exponent :: "read_end \<Rightarrow> bool \<Rightarrow> string \<Rightarrow> scan_error + (bool \<times> string)" where
  "scan_exponent fin whole s =
    (case s of
       c # t \<Rightarrow>
         if c = CHR ''e'' \<or> c = CHR ''E'' then
           (case t of
              [] \<Rightarrow> Inl (required fin)
            | b # u \<Rightarrow>
                bind_result (scan_digits fin (if b = CHR ''+'' \<or> b = CHR ''-'' then u else t)) (\<lambda>r. Inr (False, r)))
         else Inr (whole, s)
     | [] \<Rightarrow> Inr (whole, s))"

definition scan_number :: "read_end \<Rightarrow> string \<Rightarrow> scan_error + (token \<times> string)" where
  "scan_number fin s =
    (let minus = (s \<noteq> [] \<and> hd s = CHR ''-''); s1 = (if minus then tl s else s) in
     case s1 of
       [] \<Rightarrow> Inl (required fin)
     | b # _ \<Rightarrow>
         if \<not> is_digit b then Inl ExpectedDigit
         else
           (let zero = (b = CHR ''0'');
                ((u, over), s2) = int_digits zero (0, False) s1 in
            if zero \<and> s2 \<noteq> [] \<and> is_digit (hd s2) then Inl LeadingZero
            else
              bind_result (scan_fraction fin (\<not> minus) s2) (\<lambda>(whole, s3).
              bind_result (scan_exponent fin whole s3) (\<lambda>(whole, s4).
                if s4 = [] \<and> fin = Fails then Inl ReaderFailed
                else Inr (\<lparr>tk_Kind = KNumber, tk_Text = [], tk_unsigned = u, tk_whole = whole,
                  tk_overflow = over\<rparr>, s4)))))"

section \<open>Tokens\<close>

definition scan_end :: "scanner \<Rightarrow> token \<times> scanner" where
  "scan_end s =
    (plain_token (if hd (sc_in s) = CHR ''}'' then KObjectEnd else KArrayEnd) [],
     s\<lparr>sc_in := tl (sc_in s), sc_stack := tl (sc_stack s)\<rparr>)"

text \<open>A value at the head of the input.\<close>

definition scan_value :: "bool \<Rightarrow> scanner \<Rightarrow> scan_error + (token \<times> scanner)" where
  "scan_value keep s =
    (let b = hd (sc_in s) in
     if b = CHR ''{'' \<or> b = CHR ''['' then
       (if length (sc_stack s) \<ge> MaxDepth then Inl TooDeep
        else
          (let k = (if b = CHR ''{'' then KObject else KArray) in
           Inr (plain_token k [], s\<lparr>sc_in := tl (sc_in s),
             sc_stack := \<lparr>ct_kind = k, ct_state = 0, ct_names = []\<rparr> # sc_stack s\<rparr>)))
     else if b = CHR 0x22 then
       bind_result (scan_string keep (sc_end s) (sc_in s)) (\<lambda>(v, t). Inr (plain_token KString v, s\<lparr>sc_in := t\<rparr>))
     else if b = CHR ''t'' then
       bind_result (want_bytes BadLiteral (sc_end s) ''true'' (sc_in s)) (\<lambda>t. Inr (plain_token KTrue [], s\<lparr>sc_in := t\<rparr>))
     else if b = CHR ''f'' then
       bind_result (want_bytes BadLiteral (sc_end s) ''false'' (sc_in s)) (\<lambda>t. Inr (plain_token KFalse [], s\<lparr>sc_in := t\<rparr>))
     else if b = CHR ''n'' then
       bind_result (want_bytes BadLiteral (sc_end s) ''null'' (sc_in s)) (\<lambda>t. Inr (plain_token KNull [], s\<lparr>sc_in := t\<rparr>))
     else if b = CHR ''-'' \<or> is_digit b then
       bind_result (scan_number (sc_end s) (sc_in s)) (\<lambda>(tk, t). Inr (tk, s\<lparr>sc_in := t\<rparr>))
     else Inl ExpectedValue)"

definition set_top :: "(container \<Rightarrow> container) \<Rightarrow> scanner \<Rightarrow> scanner" where
  "set_top f s = s\<lparr>sc_stack := f (hd (sc_stack s)) # tl (sc_stack s)\<rparr>"

definition scan_name :: "scanner \<Rightarrow> scan_error + (token \<times> scanner)" where
  "scan_name s =
    (let frame = hd (sc_stack s) in
     if length (ct_names frame) \<ge> MaxMembers then Inl TooManyMembers
     else bind_result (scan_string True (sc_end s) (sc_in s)) (\<lambda>(name, t).
       if name \<in> set (ct_names frame) then Inl (DuplicateMember name)
       else Inr (plain_token KName name,
         set_top (\<lambda>f. f\<lparr>ct_names := name # ct_names f, ct_state := 2\<rparr>) (s\<lparr>sc_in := t\<rparr>))))"

text \<open>The token at the head of the input, after blanks, in a container that is open. A comma goes round the loop
  again, in state 1.\<close>

definition closes :: "container \<Rightarrow> char \<Rightarrow> bool" where
  "closes frame b \<longleftrightarrow> (ct_kind frame = KObject \<and> b = CHR ''}'') \<or> (ct_kind frame = KArray \<and> b = CHR '']'')"

definition after_colon :: "bool \<Rightarrow> scanner \<Rightarrow> scan_error + (token \<times> scanner)" where
  "after_colon keep s =
    (let s' = set_top (\<lambda>f. f\<lparr>ct_state := 3\<rparr>) (s\<lparr>sc_in := skip_ws (tl (sc_in s))\<rparr>) in
     if sc_in s' = [] then Inl (required (sc_end s')) else scan_value keep s')"

lemma skip_ws_le [simp]: "length (skip_ws s) \<le> length s"
  by (simp add: skip_ws_def length_dropWhile_le)

lemma skip_ws_tl: "skip_ws s \<noteq> [] \<Longrightarrow> length (skip_ws s) - 1 < length s"
  using skip_ws_le [of s] by (cases "skip_ws s") auto

function next_from :: "bool \<Rightarrow> scanner \<Rightarrow> scan_error + (token \<times> scanner)" where
  "next_from keep s0 =
    (let s = s0\<lparr>sc_in := skip_ws (sc_in s0)\<rparr> in
     if sc_stack s = [] then
       (if sc_started s then Inl (if sc_in s = [] then ended (sc_end s) else TrailingValue)
        else if sc_in s = [] then Inl (required (sc_end s))
        else scan_value keep (s\<lparr>sc_started := True\<rparr>))
     else if sc_in s = [] then Inl (required (sc_end s))
     else
       (let frame = hd (sc_stack s); b = hd (sc_in s) in
        if ct_state frame = 3 then
          (if closes frame b then Inr (scan_end s)
           else if b \<noteq> CHR '','' then Inl ExpectedComma
           else next_from keep (set_top (\<lambda>f. f\<lparr>ct_state := 1\<rparr>) (s\<lparr>sc_in := tl (sc_in s)\<rparr>)))
        else if ct_kind frame = KObject then
          (if ct_state frame = 2 then (if b \<noteq> CHR '':'' then Inl ExpectedColon else after_colon keep s)
           else if b = CHR ''}'' \<and> ct_state frame = 0 then Inr (scan_end s)
           else if b \<noteq> CHR 0x22 then Inl ExpectedName
           else scan_name s)
        else if b = CHR '']'' \<and> ct_state frame = 0 then Inr (scan_end s)
        else scan_value keep (set_top (\<lambda>f. f\<lparr>ct_state := 3\<rparr>) s)))"
  by pat_completeness auto

termination
  by (relation "measure (\<lambda>(keep, s). length (sc_in s))") (auto simp: set_top_def dest: skip_ws_tl)

declare next_from.simps [simp del]

definition scan_next :: "bool \<Rightarrow> scanner \<Rightarrow> (scan_error + token) \<times> scanner" where
  "scan_next keep s =
    (case sc_err s of
       Some e \<Rightarrow> (Inl e, s)
     | None \<Rightarrow>
        (case next_from keep s of
           Inl e \<Rightarrow> (Inl e, s\<lparr>sc_err := Some e\<rparr>)
         | Inr (t, s') \<Rightarrow> (Inr t, s')))"

definition Scanner_Next :: "scanner \<Rightarrow> (scan_error + token) \<times> scanner" where
  "Scanner_Next s = scan_next True s"

section \<open>Every token takes a byte\<close>

lemma string_loop_shorter: "string_loop keep fin sz s = Inr (v, t) \<Longrightarrow> length t < length s"
proof (induction keep fin sz s arbitrary: v rule: string_loop.induct)
  case (2 keep fin sz c cs)
  then show ?case
    by (auto simp: string_loop.simps(2) split: if_splits dest!: string_rune_shorter) force+
qed (simp add: string_loop.simps)

lemma scan_string_shorter: "scan_string keep fin s = Inr (v, t) \<Longrightarrow> length t < length s"
  by (cases s) (auto simp: scan_string_def string_loop.simps(1) dest!: string_loop_shorter)

lemma scan_digits_shorter: "scan_digits fin s = Inr t \<Longrightarrow> length t < length s"
  by (auto simp: scan_digits_def Let_def length_dropWhile_le le_imp_less_Suc split: list.splits if_splits)

lemma int_digits_shorter: "int_digits zero acc s = (acc', t) \<Longrightarrow> length t \<le> length s"
  by (induction zero acc s rule: int_digits.induct) (auto split: if_splits)

lemma int_digits_head: "is_digit c \<Longrightarrow> int_digits zero acc (c # cs) = (acc', t) \<Longrightarrow> length t \<le> length cs"
  by (auto split: if_splits dest: int_digits_shorter)

lemma scan_fraction_shorter: "scan_fraction fin whole s = Inr (w, t) \<Longrightarrow> length t \<le> length s"
  by (auto simp: scan_fraction_def split: list.splits if_splits dest!: scan_digits_shorter)

lemma scan_exponent_shorter: "scan_exponent fin whole s = Inr (w, t) \<Longrightarrow> length t \<le> length s"
  by (auto simp: scan_exponent_def split: list.splits if_splits dest!: scan_digits_shorter)

lemma scan_number_shorter:
  assumes "scan_number fin s = Inr (tk, t)"
  shows "length t < length s"
proof -
  define minus where "minus = (s \<noteq> [] \<and> hd s = CHR ''-'')"
  define s1 where "s1 = (if minus then tl s else s)"
  obtain b cs where s1: "s1 = b # cs" and b: "is_digit b"
    using assms by (cases s1) (auto simp: scan_number_def Let_def minus_def [symmetric] s1_def [symmetric] split: if_splits)
  obtain acc s2 where i: "int_digits (b = CHR ''0'') (0, False) s1 = (acc, s2)" by fastforce
  have le: "length s1 \<le> length s" by (cases s) (auto simp: s1_def)
  from assms have "\<exists>w s3 w' s4. scan_fraction fin (\<not> minus) s2 = Inr (w, s3) \<and> scan_exponent fin w s3 = Inr (w', s4) \<and> t = s4"
    using s1 b i by (cases acc) (auto simp: scan_number_def Let_def minus_def [symmetric] s1_def [symmetric] split: if_splits)
  then have "length t \<le> length s2" using scan_fraction_shorter scan_exponent_shorter by (meson le_trans)
  also have "length s2 \<le> length cs" using int_digits_head [OF b] i s1 by blast
  finally show ?thesis using le s1 by simp
qed

lemma want_bytes_less: "want_bytes e fin (w # ws) s = Inr t \<Longrightarrow> length t < length s"
  by (drule want_bytes_shorter) simp

lemma scan_value_shorter:
  "scan_value keep s = Inr (tk, s') \<Longrightarrow> sc_in s \<noteq> [] \<Longrightarrow> length (sc_in s') < length (sc_in s)"
  by (auto simp: scan_value_def Let_def split: if_splits
      dest!: scan_string_shorter want_bytes_less scan_number_shorter)

lemma set_top_in [simp]:
  "sc_in (set_top f s) = sc_in s" "sc_end (set_top f s) = sc_end s" "sc_err (set_top f s) = sc_err s"
  "sc_started (set_top f s) = sc_started s"
  by (simp_all add: set_top_def)

lemma scan_name_shorter: "scan_name s = Inr (tk, s') \<Longrightarrow> length (sc_in s') < length (sc_in s)"
  by (auto simp: scan_name_def Let_def split: if_splits dest!: scan_string_shorter)

lemma after_colon_shorter:
  assumes "after_colon keep s = Inr (tk, s')"
  shows "length (sc_in s') < length (sc_in s)"
proof -
  have "length (sc_in s') < length (skip_ws (tl (sc_in s)))"
    using assms by (auto simp: after_colon_def Let_def split: if_splits dest!: scan_value_shorter)
  also have "\<dots> \<le> length (sc_in s)" using skip_ws_le [of "tl (sc_in s)"] by simp
  finally show ?thesis .
qed

lemma closes_comma [simp]: "\<not> closes f (CHR '','')"
  by (simp add: closes_def)

lemma next_from_shorter: "next_from keep s = Inr (tk, s') \<Longrightarrow> length (sc_in s') < length (sc_in s)"
proof (induction keep s rule: next_from.induct)
  case (1 keep s0)
  let ?s = "s0\<lparr>sc_in := skip_ws (sc_in s0)\<rparr>"
  have le: "length (sc_in ?s) \<le> length (sc_in s0)" by simp
  have fewer: "length (sc_in s') < length (sc_in ?s) \<Longrightarrow> ?case" using le by linarith
  note eq = 1(2) [unfolded next_from.simps [of keep s0] Let_def]
  have scanned: "sc_in ?s \<noteq> [] \<Longrightarrow> (tk, s') = scan_end ?s \<Longrightarrow> ?case"
    by (rule fewer) (auto simp: scan_end_def)
  show ?case
  proof (cases "sc_stack s0 = []")
    case True
    then show ?thesis using eq fewer by (auto split: if_splits dest!: scan_value_shorter)
  next
    case False
    show ?thesis
    proof (cases "ct_state (hd (sc_stack s0)) = 3 \<and> hd (sc_in ?s) = CHR '','' \<and> sc_in ?s \<noteq> []")
      case True
      let ?next = "set_top (\<lambda>f. f\<lparr>ct_state := 1\<rparr>) (?s\<lparr>sc_in := tl (sc_in ?s)\<rparr>)"
      have "next_from keep ?next = Inr (tk, s')" using True False eq by simp
      then have "length (sc_in s') < length (sc_in ?next)"
        using 1(1) [of ?s "hd (sc_stack s0)" "hd (sc_in ?s)"] True False by simp
      then show ?thesis using le by (simp del: skip_ws_le)
    next
      case no_comma: False
      show ?thesis
        using eq False no_comma fewer scanned
        by (auto split: if_splits dest!: scan_value_shorter scan_name_shorter after_colon_shorter)
    qed
  qed
qed

lemma scan_next_shorter: "scan_next keep s = (Inr tk, s') \<Longrightarrow> length (sc_in s') < length (sc_in s)"
  by (auto simp: scan_next_def split: option.splits sum.splits prod.splits dest: next_from_shorter)

section \<open>Skipping a value\<close>

text \<open>The loop of \<open>Skip\<close>, with the token it is at.\<close>

function skip_loop :: "int \<Rightarrow> token \<Rightarrow> scanner \<Rightarrow> scan_error option \<times> scanner" where
  "skip_loop depth tk s =
    (let depth' = (case tk_Kind tk of KObject \<Rightarrow> depth + 1 | KArray \<Rightarrow> depth + 1
        | KObjectEnd \<Rightarrow> depth - 1 | KArrayEnd \<Rightarrow> depth - 1 | _ \<Rightarrow> depth) in
     if depth' = 0 then (None, s)
     else case scan_next False s of
       (Inl e, s') \<Rightarrow> (Some e, s')
     | (Inr tk', s') \<Rightarrow> skip_loop depth' tk' s')"
  by pat_completeness auto
termination
  by (relation "measure (\<lambda>(depth, tk, s). length (sc_in s))") (auto dest: scan_next_shorter [OF sym])

declare skip_loop.simps [simp del]

definition Scanner_Skip :: "scanner \<Rightarrow> scan_error option \<times> scanner" where
  "Scanner_Skip s =
    (case scan_next False s of
       (Inl e, s') \<Rightarrow> (Some e, s')
     | (Inr tk, s') \<Rightarrow>
        if tk_Kind tk = KName \<or> tk_Kind tk = KObjectEnd \<or> tk_Kind tk = KArrayEnd
        then (Some NotSkippable, s'\<lparr>sc_err := Some NotSkippable\<rparr>)
        else skip_loop 0 tk s')"

text \<open>What a caller gets who asks for every token: the tokens, the error that ended them, and the
  scanner.\<close>

function all_tokens :: "scanner \<Rightarrow> token list \<times> scan_error" where
  "all_tokens s =
    (case scan_next True s of
       (Inl e, s') \<Rightarrow> ([], e)
     | (Inr tk, s') \<Rightarrow> (let (ts, e) = all_tokens s' in (tk # ts, e)))"
  by pat_completeness auto
termination
  by (relation "measure (\<lambda>s. length (sc_in s))") (auto dest: scan_next_shorter [OF sym])

declare all_tokens.simps [simp del]

end
