(* ===== verification/Bounded_Text.thy ===== *)
theory Bounded_Text
  imports Bounded_Scan
begin

text \<open>
  What the scanner takes for a string or a number is one for \<^verbatim>\<open>encoding/json\<close>, with the same
  value: the lemmas that tie \<open>scan_string\<close> to \<open>str_body\<close> and \<open>scan_number\<close> to \<open>number_end\<close>, and
  the value of a number token to \<open>strconv.ParseUint\<close>.
\<close>

section \<open>Strings\<close>

lemma hex_val_less: "hex_val c = Some x \<Longrightarrow> x < 16"
  by (auto simp: hex_val_def Let_def split: if_splits)

lemma hexRune_unfold: "hexRune fin s = hex_digits (Suc (Suc (Suc (Suc 0)))) fin 0 s"
  by (simp add: hexRune_def eval_nat_numeral)

lemma hexRune_get_hex4: "hexRune fin s = Inr (r, t) \<longleftrightarrow> get_hex4 s = Some (r, t)"
  by (cases s rule: get_hex4.cases) (auto simp: hexRune_unfold split: option.splits)

lemma low_half_want:
  assumes "want_bytes e fin [CHR 0x5C, CHR ''u''] s = Inr s2" "get_hex4 s2 = Some (low, t)"
    and "0xDC00 \<le> low" "low \<le> 0xDFFF"
  shows "low_half s = Some (low, t)"
  using want_bytes_shorter [OF assms(1)] assms(2-) by auto

lemma encode_rune_length: "length (encode_rune r) \<le> 4"
  by (simp add: encode_rune_def replacement_def)

lemma utf8_size_4: "utf8_size s = Some n \<Longrightarrow> n \<le> 4"
  by (induction s rule: utf8_size.induct) (auto split: if_splits list.splits)

lemma string_rune_body:
  assumes "string_rune fin c cs = Inr (w, t)" "c \<noteq> CHR 0x22"
  shows "str_body (c # cs) = put w (str_body t) \<and> length w \<le> 4"
proof (cases "c = CHR 0x5C")
  case True
  with assms obtain e ds where cs: "cs = e # ds" by (auto simp: string_rune_def split: list.splits if_splits)
  show ?thesis
  proof (cases "e = CHR ''u''")
    case u: True
    with True cs assms obtain r where r: "u_rune fin ds = Inr (r, t)" and w: "w = encode_rune r"
      by (auto simp: string_rune_def)
    then obtain r0 s1 where h: "get_hex4 ds = Some (r0, s1)" and r0: "0xD800 \<le> r0 \<and> r0 < 0xE000 \<longrightarrow> r0 \<le> 0xDBFF"
      and low: "0xD800 \<le> r0 \<and> r0 < 0xE000 \<longrightarrow> (\<exists>s2 l. want_bytes UnpairedSurrogate fin [CHR 0x5C, CHR ''u''] s1 = Inr s2 \<and>
        get_hex4 s2 = Some (l, t) \<and> 0xDC00 \<le> l \<and> l \<le> 0xDFFF \<and> r = (r0 - 0xD800) * 1024 + (l - 0xDC00) + 0x10000)"
      and plain: "\<not> (0xD800 \<le> r0 \<and> r0 < 0xE000) \<longrightarrow> r0 = r \<and> s1 = t"
      by (auto simp: u_rune_def hexRune_get_hex4 split: if_splits)
    show ?thesis
    proof (cases "0xD800 \<le> r0 \<and> r0 < 0xE000")
      case pair: True
      with low obtain s2 l where l0: "want_bytes UnpairedSurrogate fin [CHR 0x5C, CHR ''u''] s1 = Inr s2"
          "get_hex4 s2 = Some (l, t)" "0xDC00 \<le> l" "l \<le> 0xDFFF"
        and r: "r = (r0 - 0xD800) * 1024 + (l - 0xDC00) + 0x10000" by auto
      note l = low_half_want [OF l0]
      have "0xD800 \<le> r0 \<and> r0 < 0xDC00" using pair r0 by auto
      then show ?thesis using True cs u h l r w encode_rune_length by (simp add: str_body.simps(2))
    next
      case False
      then show ?thesis using True cs u h plain w encode_rune_length by (auto simp: str_body.simps(2))
    qed
  next
    case False
    with True cs assms show ?thesis
      by (auto simp: string_rune_def str_body.simps(2) split: option.splits)
  qed
next
  case False
  with assms show ?thesis
    by (auto simp: string_rune_def str_body.simps(2) split: if_splits option.splits dest: utf8_size_4)
qed

lemma string_loop_body:
  "string_loop keep fin sz s = Inr (v, t) \<Longrightarrow> sz \<le> MaxStringBytes \<Longrightarrow>
     \<exists>v'. str_body s = Some (v', t) \<and> sz + length v' \<le> MaxStringBytes \<and> v = (if keep then v' else [])"
proof (induction keep fin sz s arbitrary: v rule: string_loop.induct)
  case (2 keep fin sz c cs)
  show ?case
  proof (cases "c = CHR 0x22")
    case True
    with 2 show ?thesis by (simp add: string_loop.simps(2) str_body.simps(2))
  next
    case False
    with 2(2) obtain w rest v1 where w: "string_rune fin c cs = Inr (w, rest)"
      and fits: "\<not> sz > MaxStringBytes - length w"
      and v1: "string_loop keep fin (sz + length w) rest = Inr (v1, t)" and v: "v = (if keep then w @ v1 else v1)"
      by (auto simp: string_loop.simps(2) split: if_splits)
    from string_rune_body [OF w False] have body: "str_body (c # cs) = put w (str_body rest)" "length w \<le> 4" by auto
    have "sz + length w \<le> MaxStringBytes" using fits body(2) by (simp add: MaxStringBytes_def)
    from 2(1) [OF False w _ _ v1 this] fits obtain v' where v': "str_body rest = Some (v', t)"
      "sz + length w + length v' \<le> MaxStringBytes" "v1 = (if keep then v' else [])" by auto
    then show ?thesis using body v by (auto simp: put_def)
  qed
qed (simp add: string_loop.simps)

lemma scan_string_body:
  assumes "scan_string keep fin (c # s) = Inr (v, t)"
  shows "\<exists>v'. str_body s = Some (v', t) \<and> length v' \<le> MaxStringBytes \<and> v = (if keep then v' else [])"
  using string_loop_body [of keep fin 0 s v t] assms by (simp add: scan_string_def)

section \<open>Numbers\<close>

lemma int_digits_all: "int_digits False acc s = (fold add_digit (takeWhile is_digit s) acc, dropWhile is_digit s)"
  by (induction s arbitrary: acc) auto

text \<open>The parts of a number that the scanner took.\<close>

lemma scan_digits_split:
  "scan_digits fin s = Inr t \<Longrightarrow> \<exists>ds. s = ds @ t \<and> ds \<noteq> [] \<and> digits1 s = Some t \<and> (t = [] \<or> \<not> is_digit (hd t))"
  by (cases s) (auto simp: scan_digits_def Let_def digits1.simps hd_dropWhile takeWhile_dropWhile_id [symmetric]
      split: if_splits intro!: exI [of _ "hd s # takeWhile is_digit (tl s)"])

lemma scan_fraction_split:
  assumes "scan_fraction fin w s = Inr (w', t)"
  shows "frac_part s = Some t \<and> (\<exists>fs. s = fs @ t \<and> (fs = [] \<and> w' = w \<or> fs \<noteq> [] \<and> hd fs = CHR ''.'' \<and> \<not> w' \<and> (t = [] \<or> \<not> is_digit (hd t))))"
proof (cases s)
  case (Cons c u)
  show ?thesis
  proof (cases "c = CHR ''.''")
    case True
    with assms Cons have "scan_digits fin u = Inr t" "\<not> w'" by (auto simp: scan_fraction_def)
    from scan_digits_split [OF this(1)] obtain ds where "u = ds @ t" "digits1 u = Some t" "t = [] \<or> \<not> is_digit (hd t)"
      by auto
    then show ?thesis using Cons True \<open>\<not> w'\<close> by (intro conjI exI [of _ "c # ds"]) auto
  qed (use assms Cons in \<open>auto simp: scan_fraction_def\<close>)
qed (use assms in \<open>auto simp: scan_fraction_def\<close>)

lemma scan_exponent_split:
  assumes "scan_exponent fin w s = Inr (w', t)"
  shows "exp_part s = Some t \<and> (\<exists>es. s = es @ t \<and> (es = [] \<and> w' = w \<or> es \<noteq> [] \<and> hd es \<in> {CHR ''e'', CHR ''E''} \<and> \<not> w'))"
proof (cases s)
  case (Cons c u)
  show ?thesis
  proof (cases "c = CHR ''e'' \<or> c = CHR ''E''")
    case True
    with assms Cons obtain b v where u: "u = b # v" and d: "scan_digits fin (if b = CHR ''+'' \<or> b = CHR ''-'' then v else u) = Inr t"
      and w: "\<not> w'" by (auto simp: scan_exponent_def split: list.splits)
    from scan_digits_split [OF d] obtain ds where ds: "(if b = CHR ''+'' \<or> b = CHR ''-'' then v else u) = ds @ t"
      "digits1 (if b = CHR ''+'' \<or> b = CHR ''-'' then v else u) = Some t" by auto
    then have "exp_part s = Some t" using Cons True u by (auto split: if_splits)
    moreover have "\<exists>es. u = es @ t"
      using ds(1) u by (cases "b = CHR ''+'' \<or> b = CHR ''-''") (auto intro: exI [of _ "b # ds"] exI [of _ ds])
    ultimately show ?thesis using Cons True w by (metis append_Cons insertCI list.discI list.sel(1))
  qed (use assms Cons in \<open>auto simp: scan_exponent_def\<close>)
qed (use assms in \<open>auto simp: scan_exponent_def\<close>)

definition number_token :: "string \<Rightarrow> token" where
  "number_token t =
    (let (u, over) = fold add_digit (takeWhile is_digit (minus_part t)) (0, False)
     in \<lparr>tk_Kind = KNumber, tk_Text = [], tk_unsigned = u, tk_whole = (\<forall>c \<in> set t. is_digit c), tk_overflow = over\<rparr>)"

lemma takeWhile_head: "t = [] \<or> \<not> P (hd t) \<Longrightarrow> \<forall>x \<in> set xs. P x \<Longrightarrow> takeWhile P (xs @ t) = xs"
  by (cases t) (auto simp: takeWhile_append2)

lemma scan_number_parts:
  assumes "scan_number fin s = Inr (tk, t)"
  shows "\<exists>m ds fe. s = m @ ds @ fe @ t \<and> (m = [] \<or> m = ''-'') \<and> ds \<noteq> [] \<and> (\<forall>c \<in> set ds. is_digit c) \<and>
    (fe = [] \<or> hd fe \<in> {CHR ''.'', CHR ''e'', CHR ''E''}) \<and> number_end s = Some t \<and>
    tk = \<lparr>tk_Kind = KNumber, tk_Text = [], tk_unsigned = fst (fold add_digit ds (0, False)),
      tk_whole = (m = [] \<and> fe = []), tk_overflow = snd (fold add_digit ds (0, False))\<rparr>"
proof -
  define minus where "minus = (s \<noteq> [] \<and> hd s = CHR ''-'')"
  define s1 where "s1 = (if minus then tl s else s)"
  have mp: "minus_part s = s1" by (cases s) (auto simp: s1_def minus_def)
  define m where "m = (if minus then ''-'' else [])"
  have sm: "s = m @ s1" by (cases s) (auto simp: s1_def minus_def m_def)
  obtain b cs where s1: "s1 = b # cs" and b: "is_digit b"
    using assms by (cases s1) (auto simp: scan_number_def Let_def minus_def [symmetric] s1_def [symmetric] split: if_splits)
  obtain u over s2 where i: "int_digits (b = CHR ''0'') (0, False) s1 = ((u, over), s2)" by (metis prod.exhaust)
  from assms obtain w s3 w' where zero: "\<not> (b = CHR ''0'' \<and> s2 \<noteq> [] \<and> is_digit (hd s2))"
    and f: "scan_fraction fin (\<not> minus) s2 = Inr (w, s3)" and e: "scan_exponent fin w s3 = Inr (w', t)"
    and tk: "tk = \<lparr>tk_Kind = KNumber, tk_Text = [], tk_unsigned = u, tk_whole = w', tk_overflow = over\<rparr>"
    using s1 b i by (auto simp: scan_number_def Let_def minus_def [symmetric] s1_def [symmetric] split: if_splits)
  define ds where "ds = (if b = CHR ''0'' then [b] else takeWhile is_digit s1)"
  have ds: "s1 = ds @ s2" "ds \<noteq> []" "\<forall>c \<in> set ds. is_digit c" "(u, over) = fold add_digit ds (0, False)" "int_part s1 = Some s2"
    using i s1 b by (auto simp: ds_def int_digits_all digits1.simps dest: set_takeWhileD split: if_splits)
  from scan_fraction_split [OF f] obtain fs where fs: "frac_part s2 = Some s3" "s2 = fs @ s3"
    "fs = [] \<and> w = (\<not> minus) \<or> fs \<noteq> [] \<and> hd fs = CHR ''.'' \<and> \<not> w" by blast
  from scan_exponent_split [OF e] obtain es where es: "exp_part s3 = Some t" "s3 = es @ t"
    "es = [] \<and> w' = w \<or> es \<noteq> [] \<and> hd es \<in> {CHR ''e'', CHR ''E''} \<and> \<not> w'" by blast
  have "number_end s = Some t" using mp ds(5) fs(1) es(1) by (simp add: number_end_def)
  moreover have "s = m @ ds @ (fs @ es) @ t" using sm ds(1) fs(2) es(2) by simp
  moreover have "m = [] \<or> m = ''-''" by (simp add: m_def)
  moreover have "fs @ es = [] \<or> hd (fs @ es) \<in> {CHR ''.'', CHR ''e'', CHR ''E''}" using fs(3) es(3) by (cases fs) auto
  moreover have "w' = (m = [] \<and> fs @ es = [])" using fs(3) es(3) by (auto simp: m_def)
  moreover have "u = fst (fold add_digit ds (0, False))" "over = snd (fold add_digit ds (0, False))"
    using ds(4) by (metis fst_conv, metis snd_conv)
  ultimately show ?thesis using ds(2,3) tk by (intro exI [of _ m] exI [of _ ds] exI [of _ "fs @ es"]) blast
qed

lemma scan_number_token:
  assumes "scan_number fin s = Inr (tk, t)"
  shows "number_end s = Some t \<and> tk = number_token (consumed s t)"
proof -
  from scan_number_parts [OF assms] obtain m ds fe where *: "s = m @ ds @ fe @ t" "m = [] \<or> m = ''-''" "ds \<noteq> []"
    "\<forall>c \<in> set ds. is_digit c" "fe = [] \<or> hd fe \<in> {CHR ''.'', CHR ''e'', CHR ''E''}" "number_end s = Some t"
    and tk: "tk = \<lparr>tk_Kind = KNumber, tk_Text = [], tk_unsigned = fst (fold add_digit ds (0, False)),
      tk_whole = (m = [] \<and> fe = []), tk_overflow = snd (fold add_digit ds (0, False))\<rparr>" by blast
  have c: "consumed s t = m @ ds @ fe" using *(1) consumed_append [of "m @ ds @ fe" t] by simp
  have "hd ds \<noteq> CHR ''-''" using *(3,4) by (cases ds) (auto simp: is_digit_def)
  then have "minus_part (m @ ds @ fe) = ds @ fe" using *(2,3) by (cases ds) auto
  moreover have fe: "fe = [] \<or> \<not> is_digit (hd fe)" using *(5) by (auto simp: is_digit_def)
  ultimately have "takeWhile is_digit (minus_part (m @ ds @ fe)) = ds" using takeWhile_head [OF fe *(4)] by simp
  moreover have "(\<forall>c \<in> set (m @ ds @ fe). is_digit c) = (m = [] \<and> fe = [])"
    using *(2,4) fe by (cases fe) (auto simp: is_digit_def)
  ultimately show ?thesis using *(6) tk c by (simp add: number_token_def split: prod.split)
qed

text \<open>The value a run of digits adds up to, with the overflow flag.\<close>

lemma add_digit_exact:
  assumes "is_digit c" "n < 2 ^ 64"
  shows "add_digit c (of_nat n, False) =
    (if 10 * n + (code c - 48) < 2 ^ 64 then (of_nat (10 * n + (code c - 48)), False) else (of_nat n, True))"
proof -
  let ?d = "code c - 48"
  have d: "?d < 10" using assms(1) by (auto simp: is_digit_def)
  have un: "unat (of_nat n :: u64) = n" using assms(2) by (rule unat_of_nat_u64)
  have ud: "unat (of_nat ?d :: u64) = ?d" using d by (intro unat_of_nat_u64) simp
  have "(- 1 :: u64) = of_nat (2 ^ 64 - 1)" by simp
  then have "(- 1 - of_nat ?d :: u64) = of_nat (2 ^ 64 - 1 - ?d)" using d by (subst of_nat_diff) simp_all
  then have "unat (- 1 - of_nat ?d :: u64) = 2 ^ 64 - 1 - ?d"
    using unat_of_nat_u64 [of "2 ^ 64 - 1 - ?d"] by simp
  then have q: "unat ((- 1 - of_nat ?d :: u64) div 10) = (2 ^ 64 - 1 - ?d) div 10" by (simp add: unat_div)
  have "(of_nat n :: u64) > (- 1 - of_nat ?d) div 10 \<longleftrightarrow> n > (2 ^ 64 - 1 - ?d) div 10"
    using un q by (simp add: word_less_nat_alt)
  also have "\<dots> \<longleftrightarrow> \<not> 10 * n + ?d < 2 ^ 64" using d by (simp add: div_less_iff_less_mult) linarith
  finally show ?thesis by (auto simp: add_digit_def Let_def mult.commute)
qed

lemma add_digit_over: "snd (fold add_digit ds (u, True))"
  by (induction ds arbitrary: u) (auto simp: add_digit_def Let_def)

lemma digits_value_mono: "digits_value n s = Some k \<Longrightarrow> n \<le> k"
proof (induction s arbitrary: n)
  case (Cons c s)
  then have "10 * n + (code c - 48) \<le> k" by (auto split: if_splits)
  then show ?case by simp
qed simp

lemma digits_value_total: "\<forall>c \<in> set ds. is_digit c \<Longrightarrow> \<exists>k. digits_value m ds = Some k"
  by (induction ds arbitrary: m) auto

lemma fold_add_digit:
  assumes "\<forall>c \<in> set ds. is_digit c" "n < 2 ^ 64" "u = of_nat n"
  shows "\<exists>k. digits_value n ds = Some k \<and>
    (k < 2 ^ 64 \<longrightarrow> fold add_digit ds (u, False) = (of_nat k, False)) \<and>
    (\<not> k < 2 ^ 64 \<longrightarrow> snd (fold add_digit ds (u, False)))"
  using assms
proof (induction ds arbitrary: n u)
  case (Cons c ds)
  let ?n' = "10 * n + (code c - 48)"
  have c: "is_digit c" using Cons.prems by simp
  show ?case
  proof (cases "?n' < 2 ^ 64")
    case True
    have "fold add_digit (c # ds) (u, False) = fold add_digit ds (of_nat ?n', False)"
      using True Cons.prems c by (simp add: add_digit_exact [OF c])
    then show ?thesis using Cons.IH [OF _ True refl] Cons.prems(1) c by (simp only: digits_value.simps) simp
  next
    case False
    obtain k where k: "digits_value ?n' ds = Some k" using digits_value_total [of ds ?n'] Cons.prems by auto
    from digits_value_mono [OF this] False have "\<not> k < 2 ^ 64" by linarith
    moreover have "fold add_digit (c # ds) (u, False) = fold add_digit ds (u, True)"
      using False Cons.prems by (simp add: add_digit_exact [OF c])
    ultimately show ?thesis using k c add_digit_over by simp
  qed
qed simp

text \<open>The value of a number token is what \<open>strconv.ParseUint\<close> reads from the number's text.\<close>

lemma digits_value_other: "\<not> (\<forall>c \<in> set t. is_digit c) \<Longrightarrow> digits_value m t = None"
  by (induction t arbitrary: m) auto

lemma number_token_value:
  assumes "t \<noteq> []"
  shows "Token_Uint64 (number_token t) =
    (case parse_uint 64 t of Some n \<Rightarrow> Inr (of_nat n) | None \<Rightarrow> Inl NotUnsigned)"
proof (cases "\<forall>c \<in> set t. is_digit c")
  case True
  obtain c cs where t: "t = c # cs" using assms by (cases t) auto
  then have m: "minus_part t = t" using True by (auto simp: is_digit_def)
  have w: "takeWhile is_digit t = t" using True by (simp add: takeWhile_eq_all_conv)
  from fold_add_digit [OF True, of 0 0] obtain k where k: "digits_value 0 t = Some k"
    "k < 2 ^ 64 \<longrightarrow> fold add_digit t (0, False) = (of_nat k, False)"
    "\<not> k < 2 ^ 64 \<longrightarrow> snd (fold add_digit t (0, False))" by auto
  show ?thesis
  proof (cases "k < 2 ^ 64")
    case True': True
    then have "number_token t = \<lparr>tk_Kind = KNumber, tk_Text = [], tk_unsigned = of_nat k, tk_whole = True, tk_overflow = False\<rparr>"
      using k(2) True by (simp add: number_token_def m w del: takeWhile_eq_all_conv)
    then show ?thesis using True' k(1) t by (simp add: Token_Uint64_def parse_uint_def)
  next
    case False
    then have "tk_overflow (number_token t)" using k(3) by (auto simp: number_token_def m w simp del: takeWhile_eq_all_conv split: prod.split)
    then show ?thesis using False k(1) t by (simp add: Token_Uint64_def parse_uint_def)
  qed
next
  case False
  then have "\<not> tk_whole (number_token t)" by (simp add: number_token_def split: prod.split)
  then show ?thesis using digits_value_other [OF False] by (auto simp: Token_Uint64_def parse_uint_def)
qed

end
