(* ===== verification/Bounded_Json.thy ===== *)
theory Bounded_Json
  imports Bounded_Text
begin

text \<open>
  What a complete scan is worth: the tokens it gave are those of one JSON value, which
  \<^verbatim>\<open>encoding/json\<close> reads from the same bytes, within the limits and without a duplicate
  member; every state of the scanner keeps within the limits; and \<open>Skip\<close> passes exactly one value.
\<close>

section \<open>Tokens and limits of a value\<close>

fun tokens_of :: "json \<Rightarrow> token list" where
  "tokens_of JNull = [plain_token KNull []]"
| "tokens_of (JBool b) = [plain_token (if b then KTrue else KFalse) []]"
| "tokens_of (JNum t) = [number_token t]"
| "tokens_of (JStr t v) = [plain_token KString v]"
| "tokens_of (JArr t js) = plain_token KArray [] # concat (map tokens_of js) @ [plain_token KArrayEnd []]"
| "tokens_of (JObj t ms) = plain_token KObject [] #
    concat (map (\<lambda>kj. plain_token KName (fst kj) # tokens_of (snd kj)) ms) @ [plain_token KObjectEnd []]"

abbreviation member_tokens :: "string \<times> json \<Rightarrow> token list" where
  "member_tokens kj \<equiv> plain_token KName (fst kj) # tokens_of (snd kj)"

text \<open>A value of at most some levels, whose strings and objects keep to the limits.\<close>

fun within :: "nat \<Rightarrow> json \<Rightarrow> bool" where
  "within d (JStr t v) \<longleftrightarrow> length v \<le> MaxStringBytes"
| "within d (JArr t js) \<longleftrightarrow> d > 0 \<and> (\<forall>j \<in> set js. within (d - 1) j)"
| "within d (JObj t ms) \<longleftrightarrow> d > 0 \<and> distinct (map fst ms) \<and> length ms \<le> MaxMembers \<and>
    (\<forall>kj \<in> set ms. length (fst kj) \<le> MaxStringBytes \<and> within (d - 1) (snd kj))"
| "within d _ \<longleftrightarrow> True"

section \<open>Errors and fields that pass through\<close>

lemma required_not_EOF [simp]: "required fin \<noteq> ScanEOF" "ScanEOF \<noteq> required fin"
  by (cases fin; simp add: required_def)+

lemma want_bytes_not_EOF: "e \<noteq> ScanEOF \<Longrightarrow> want_bytes e fin ws s \<noteq> Inl ScanEOF"
  by (induction e fin ws s rule: want_bytes.induct) auto

lemma hex_digits_not_EOF: "hex_digits k fin v s \<noteq> Inl ScanEOF"
  by (induction k fin v s rule: hex_digits.induct) (auto split: option.splits)

lemma bind_result_Inl_iff: "bind_result r f = Inl e \<longleftrightarrow> r = Inl e \<or> (\<exists>x. r = Inr x \<and> f x = Inl e)"
  by (cases r) auto

lemma string_rune_not_EOF: "string_rune fin c cs \<noteq> Inl ScanEOF"
  by (auto simp: string_rune_def u_rune_def hexRune_def bind_result_Inl_iff hex_digits_not_EOF want_bytes_not_EOF
      split: list.splits option.splits if_splits)

lemma string_loop_not_EOF: "string_loop keep fin sz s \<noteq> Inl ScanEOF"
proof (induction keep fin sz s rule: string_loop.induct)
  case (2 keep fin sz c cs)
  show ?case
  proof (cases "string_rune fin c cs")
    case (Inl e)
    then show ?thesis using string_rune_not_EOF [of fin c cs] by (simp add: string_loop.simps(2) [of keep fin sz c cs])
  next
    case (Inr x)
    obtain w rest where x: "x = (w, rest)" by (cases x)
    show ?thesis
    proof (cases "c = CHR 0x22 \<or> sz > MaxStringBytes - length w")
      case True
      then show ?thesis using Inr x by (auto simp: string_loop.simps(2) [of keep fin sz c cs])
    next
      case False
      with 2 [OF _ Inr x [symmetric]] have "string_loop keep fin (sz + length w) rest \<noteq> Inl ScanEOF" by simp
      with False show ?thesis using Inr x
        by (cases "string_loop keep fin (sz + length w) rest")
          (auto simp: string_loop.simps(2) [of keep fin sz c cs])
    qed
  qed
qed (simp add: string_loop.simps(1))

lemma scan_digits_not_EOF: "scan_digits fin s \<noteq> Inl ScanEOF"
  by (auto simp: scan_digits_def Let_def split: list.splits)

lemma scan_fraction_not_EOF: "scan_fraction fin w s \<noteq> Inl ScanEOF"
  by (auto simp: scan_fraction_def bind_result_Inl_iff scan_digits_not_EOF split: list.splits)

lemma scan_exponent_not_EOF: "scan_exponent fin w s \<noteq> Inl ScanEOF"
  by (auto simp: scan_exponent_def bind_result_Inl_iff scan_digits_not_EOF split: list.splits)

lemma scan_number_not_EOF: "scan_number fin s \<noteq> Inl ScanEOF"
proof
  define minus where "minus = (s \<noteq> [] \<and> hd s = CHR ''-'')"
  define s1 where "s1 = (if minus then tl s else s)"
  assume a: "scan_number fin s = Inl ScanEOF"
  then obtain b cs where s1: "s1 = b # cs" and b: "is_digit b"
    by (cases s1) (auto simp: scan_number_def Let_def minus_def [symmetric] s1_def [symmetric] split: if_splits)
  obtain u over s2 where i: "int_digits (b = CHR ''0'') (0, False) (b # cs) = ((u, over), s2)" by (metis prod.exhaust)
  show False using a
    by (auto simp: scan_number_def Let_def minus_def [symmetric] s1_def [symmetric] s1 i b bind_result_Inl_iff
      scan_fraction_not_EOF scan_exponent_not_EOF simp del: int_digits.simps split: if_splits)
qed

lemma scan_value_not_EOF: "scan_value keep s \<noteq> Inl ScanEOF"
  by (auto simp: scan_value_def Let_def bind_result_Inl_iff scan_string_def string_loop_not_EOF want_bytes_not_EOF
      scan_number_not_EOF split: if_splits)

lemma scan_value_fields:
  "scan_value keep s = Inr (tk, s') \<Longrightarrow> sc_err s' = sc_err s \<and> sc_end s' = sc_end s \<and> sc_started s' = sc_started s"
  by (auto simp: scan_value_def Let_def split: if_splits)

lemma set_top_stack [simp]: "sc_stack (set_top f s) = f (hd (sc_stack s)) # tl (sc_stack s)"
  by (simp add: set_top_def)

lemma set_top_set_top [simp]: "set_top f (set_top g s) = set_top (f \<circ> g) s"
  by (simp add: set_top_def)

lemma next_from_fields:
  "next_from keep s = Inr (tk, s') \<Longrightarrow> sc_err s' = sc_err s \<and> sc_end s' = sc_end s \<and> (sc_stack s \<noteq> [] \<longrightarrow> sc_started s' = sc_started s)"
proof (induction keep s rule: next_from.induct)
  case (1 keep s0)
  let ?s = "s0\<lparr>sc_in := skip_ws (sc_in s0)\<rparr>"
  let ?next = "set_top (\<lambda>f. f\<lparr>ct_state := 1\<rparr>) (?s\<lparr>sc_in := tl (sc_in ?s)\<rparr>)"
  show ?case
  proof (cases "sc_stack s0 \<noteq> [] \<and> ct_state (hd (sc_stack s0)) = 3 \<and> hd (sc_in ?s) = CHR '','' \<and> sc_in ?s \<noteq> []")
    case True
    then have "next_from keep ?next = Inr (tk, s')" using 1(2) by (simp add: next_from.simps [of keep s0])
    with 1(1) [of ?s "hd (sc_stack s0)" "hd (sc_in ?s)"] True show ?thesis by simp
  next
    case False
    with 1(2) show ?thesis
      by (auto simp: next_from.simps [of keep s0] Let_def scan_end_def scan_name_def after_colon_def
          dest!: scan_value_fields split: if_splits)
  qed
qed

lemma next_from_open_not_EOF: "sc_stack s \<noteq> [] \<Longrightarrow> next_from keep s \<noteq> Inl ScanEOF"
proof (induction keep s rule: next_from.induct)
  case (1 keep s0)
  let ?s = "s0\<lparr>sc_in := skip_ws (sc_in s0)\<rparr>"
  let ?next = "set_top (\<lambda>f. f\<lparr>ct_state := 1\<rparr>) (?s\<lparr>sc_in := tl (sc_in ?s)\<rparr>)"
  show ?case
  proof (cases "ct_state (hd (sc_stack s0)) = 3 \<and> hd (sc_in ?s) = CHR '','' \<and> sc_in ?s \<noteq> []")
    case True
    then have "next_from keep s0 = next_from keep ?next" using 1(2) by (simp add: next_from.simps [of keep s0])
    moreover have "next_from keep ?next \<noteq> Inl ScanEOF"
      using 1(1) [of ?s "hd (sc_stack s0)" "hd (sc_in ?s)"] 1(2) True by simp
    ultimately show ?thesis by simp
  next
    case False
    with 1(2) show ?thesis
      by (auto simp: next_from.simps [of keep s0] Let_def scan_end_def scan_name_def after_colon_def bind_result_Inl_iff
          scan_string_def string_loop_not_EOF scan_value_not_EOF split: if_splits)
  qed
qed

section \<open>One token of a run\<close>

lemma all_tokens_eq:
  assumes "next_from True s = next_from True s'" "sc_err s = None" "sc_err s' = None"
  shows "all_tokens s = all_tokens s'"
  using assms by (auto simp: all_tokens.simps [of s] all_tokens.simps [of s'] scan_next_def split: sum.splits)

lemma all_tokens_cons:
  assumes "next_from True s = Inr (tk, s')" "sc_err s = None"
  shows "all_tokens s = (tk # fst (all_tokens s'), snd (all_tokens s'))"
  using assms by (simp add: all_tokens.simps [of s] scan_next_def split: prod.split)

lemma all_tokens_first:
  assumes "all_tokens s = (ts, ScanEOF)" "sc_err s = None" "sc_stack s \<noteq> []"
  obtains tk s' ts' where "next_from True s = Inr (tk, s')" "ts = tk # ts'" "all_tokens s' = (ts', ScanEOF)"
proof (cases "next_from True s")
  case (Inl e)
  then have "snd (all_tokens s) = e" using assms(2) by (simp add: all_tokens.simps [of s] scan_next_def)
  then show ?thesis using assms Inl next_from_open_not_EOF by simp
next
  case (Inr x)
  then obtain tk s' where "next_from True s = Inr (tk, s')" by (cases x) auto
  from all_tokens_cons [OF this assms(2)] assms(1) this show ?thesis
    by (intro that [of tk s' "fst (all_tokens s')"]) (auto simp: prod_eq_iff)
qed

section \<open>Steps in an open container\<close>

lemma skip_ws_idem [simp]: "skip_ws (skip_ws s) = skip_ws s"
  by (simp add: skip_ws_def)

lemma expect_skip: "expect c s = (if skip_ws s \<noteq> [] \<and> hd (skip_ws s) = c then Some (tl (skip_ws s)) else None)"
  by (auto simp: expect_def split: list.splits)

text \<open>After a value: the container ends, or a comma goes on.\<close>

lemma next_after_value:
  assumes "sc_stack s = fr # st" "ct_state fr = 3" "next_from True s = Inr (tk, s')"
  shows "(closes fr (hd (skip_ws (sc_in s))) \<and> skip_ws (sc_in s) \<noteq> [] \<and>
        (tk, s') = scan_end (s\<lparr>sc_in := skip_ws (sc_in s)\<rparr>)) \<or>
     (expect (CHR '','') (sc_in s) = Some (tl (skip_ws (sc_in s))) \<and>
        next_from True s = next_from True (s\<lparr>sc_in := tl (skip_ws (sc_in s)), sc_stack := fr\<lparr>ct_state := 1\<rparr> # st\<rparr>))"
  using assms
  by (auto simp: next_from.simps [of True s] Let_def expect_skip set_top_def split: if_splits)

lemma scan_end_closes:
  assumes "closes fr (hd (sc_in s))" "ct_kind fr = KArray \<or> ct_kind fr = KObject"
  shows "scan_end s = (plain_token (if ct_kind fr = KObject then KObjectEnd else KArrayEnd) [],
    s\<lparr>sc_in := tl (sc_in s), sc_stack := tl (sc_stack s)\<rparr>)"
  using assms by (auto simp: scan_end_def closes_def)

section \<open>A run reads a value\<close>

definition holds_value :: "scanner \<Rightarrow> bool" where
  "holds_value s \<longleftrightarrow> sc_in s \<noteq> [] \<and> sc_err s = None \<and>
     (sc_stack s = [] \<and> sc_started s \<or> sc_stack s \<noteq> [] \<and> ct_state (hd (sc_stack s)) = 3)"

definition levels_left :: "scanner \<Rightarrow> nat" where
  "levels_left s = MaxDepth - length (sc_stack s)"

text \<open>The value at the head of the input is read, and the run goes on after it.\<close>

definition value_read :: "scanner \<Rightarrow> token list \<Rightarrow> json \<Rightarrow> string \<Rightarrow> token list \<Rightarrow> bool" where
  "value_read s ts j r ts' \<longleftrightarrow>
     (\<forall>f d. length (sc_in s) - length r \<le> f \<longrightarrow> levels_left s \<le> d \<longrightarrow> read_value f d (sc_in s) = Some (j, r)) \<and>
     within (levels_left s) j \<and> ts = tokens_of j @ ts' \<and> all_tokens (s\<lparr>sc_in := r\<rparr>) = (ts', ScanEOF) \<and>
     length r < length (sc_in s)"

definition value_runs :: "scanner \<Rightarrow> bool" where
  "value_runs s \<longleftrightarrow> (\<forall>tk s1 ts. holds_value s \<longrightarrow> scan_value True s = Inr (tk, s1) \<longrightarrow> all_tokens s1 = (ts, ScanEOF) \<longrightarrow>
     (\<exists>j r ts'. value_read s (tk # ts) j r ts'))"

definition elems_read :: "scanner \<Rightarrow> token list \<Rightarrow> json list \<Rightarrow> string \<Rightarrow> token list \<Rightarrow> bool" where
  "elems_read s ts js r ts' \<longleftrightarrow>
     (\<forall>f d. length (sc_in s) - length r \<le> f \<longrightarrow> levels_left s \<le> d \<longrightarrow> read_elems f d (sc_in s) = Some (js, r)) \<and>
     (\<forall>j \<in> set js. within (levels_left s) j) \<and> ts = concat (map tokens_of js) @ plain_token KArrayEnd [] # ts' \<and>
     all_tokens (s\<lparr>sc_in := r, sc_stack := tl (sc_stack s)\<rparr>) = (ts', ScanEOF) \<and> length r < length (sc_in s)"

definition elems_runs :: "scanner \<Rightarrow> bool" where
  "elems_runs s \<longleftrightarrow> (\<forall>fr st ts. sc_err s = None \<longrightarrow> sc_stack s = fr # st \<longrightarrow> ct_kind fr = KArray \<longrightarrow>
     (ct_state fr = 1 \<or> ct_state fr = 0 \<and> expect (CHR '']'') (sc_in s) = None) \<longrightarrow>
     all_tokens s = (ts, ScanEOF) \<longrightarrow> (\<exists>js r ts'. elems_read s ts js r ts'))"

definition mems_read :: "scanner \<Rightarrow> token list \<Rightarrow> (string \<times> json) list \<Rightarrow> string \<Rightarrow> token list \<Rightarrow> bool" where
  "mems_read s ts ms r ts' \<longleftrightarrow>
     (\<forall>f d. length (sc_in s) - length r \<le> f \<longrightarrow> levels_left s \<le> d \<longrightarrow> read_mems f d (sc_in s) = Some (ms, r)) \<and>
     distinct (map fst ms @ ct_names (hd (sc_stack s))) \<and> length ms + length (ct_names (hd (sc_stack s))) \<le> MaxMembers \<and>
     (\<forall>kj \<in> set ms. length (fst kj) \<le> MaxStringBytes \<and> within (levels_left s) (snd kj)) \<and>
     ts = concat (map member_tokens ms) @ plain_token KObjectEnd [] # ts' \<and>
     all_tokens (s\<lparr>sc_in := r, sc_stack := tl (sc_stack s)\<rparr>) = (ts', ScanEOF) \<and> length r < length (sc_in s)"

definition mems_runs :: "scanner \<Rightarrow> bool" where
  "mems_runs s \<longleftrightarrow> (\<forall>fr st ts. sc_err s = None \<longrightarrow> sc_stack s = fr # st \<longrightarrow> ct_kind fr = KObject \<longrightarrow>
     distinct (ct_names fr) \<longrightarrow>
     (ct_state fr = 1 \<or> ct_state fr = 0 \<and> expect (CHR ''}'') (sc_in s) = None) \<longrightarrow>
     all_tokens s = (ts, ScanEOF) \<longrightarrow> (\<exists>ms r ts'. mems_read s ts ms r ts'))"

text \<open>A string, a literal and a number are read at once.\<close>

lemma value_read_leaf:
  assumes "\<And>f d. read_value (Suc f) d (sc_in s) = Some (j, t)" "within (levels_left s) j" "tokens_of j = [tk]"
    "all_tokens (s\<lparr>sc_in := t\<rparr>) = (ts, ScanEOF)" "length t < length (sc_in s)"
  shows "value_read s (tk # ts) j t ts"
proof -
  have "read_value f d (sc_in s) = Some (j, t)" if "length (sc_in s) - length t \<le> f" for f d
    using assms(1,5) that by (cases f) (auto simp del: read_value.simps)
  then show ?thesis using assms(2-5) by (simp add: value_read_def)
qed

lemma literal_want: "want_bytes e fin w s = Inr t \<Longrightarrow> literal w j s = Some (j, t)"
  by (drule want_bytes_shorter) (simp add: literal_def)

lemma value_runs_leaf:
  assumes v: "holds_value s" "scan_value True s = Inr (tk, s1)" "all_tokens s1 = (ts, ScanEOF)"
    and leaf: "hd (sc_in s) \<noteq> CHR ''{''" "hd (sc_in s) \<noteq> CHR ''[''"
  shows "\<exists>j r ts'. value_read s (tk # ts) j r ts'"
proof -
  obtain c cs where s: "sc_in s = c # cs" using v(1) by (cases "sc_in s") (auto simp: holds_value_def)
  note eq = v(2) [unfolded scan_value_def Let_def s]
  have len: "length (sc_in s1) < length (sc_in s)" using scan_value_shorter [OF v(2)] s by simp
  consider "c = CHR 0x22" | "c = CHR ''t''" | "c = CHR ''f''" | "c = CHR ''n''" | "c = CHR ''-'' \<or> is_digit c"
    using eq leaf s by (auto split: if_splits)
  then show ?thesis
  proof cases
    case 1
    then obtain u t where u: "scan_string True (sc_end s) (c # cs) = Inr (u, t)" and s1: "s1 = s\<lparr>sc_in := t\<rparr>" "tk = plain_token KString u"
      using eq by auto
    from scan_string_body [OF u] have "str_body cs = Some (u, t)" "length u \<le> MaxStringBytes" by auto
    then have "value_read s (tk # ts) (JStr (consumed (c # cs) t) u) t ts"
      using 1 s s1 v(3) len by (intro value_read_leaf) simp_all
    then show ?thesis by blast
  next
    case 2
    then obtain t where u: "want_bytes BadLiteral (sc_end s) ''true'' (c # cs) = Inr t" and s1: "s1 = s\<lparr>sc_in := t\<rparr>" "tk = plain_token KTrue []"
      using eq by (auto simp del: want_bytes.simps)
    have "value_read s (tk # ts) (JBool True) t ts"
      using 2 s s1 v(3) len literal_want [OF u] by (intro value_read_leaf) (simp_all add: is_space_def)
    then show ?thesis by blast
  next
    case 3
    then obtain t where u: "want_bytes BadLiteral (sc_end s) ''false'' (c # cs) = Inr t" and s1: "s1 = s\<lparr>sc_in := t\<rparr>" "tk = plain_token KFalse []"
      using eq by (auto simp del: want_bytes.simps)
    have "value_read s (tk # ts) (JBool False) t ts"
      using 3 s s1 v(3) len literal_want [OF u] by (intro value_read_leaf) (simp_all add: is_space_def)
    then show ?thesis by blast
  next
    case 4
    then obtain t where u: "want_bytes BadLiteral (sc_end s) ''null'' (c # cs) = Inr t" and s1: "s1 = s\<lparr>sc_in := t\<rparr>" "tk = plain_token KNull []"
      using eq by (auto simp del: want_bytes.simps)
    have "value_read s (tk # ts) JNull t ts"
      using 4 s s1 v(3) len literal_want [OF u] by (intro value_read_leaf) (simp_all add: is_space_def)
    then show ?thesis by blast
  next
    case 5
    then have not: "c \<noteq> CHR 0x22" "c \<noteq> CHR ''t''" "c \<noteq> CHR ''f''" "c \<noteq> CHR ''n''" "\<not> is_space c"
      by (auto simp: is_digit_def is_space_def)
    have c: "c \<noteq> CHR ''{''" "c \<noteq> CHR ''[''" using leaf s by auto
    have "bind_result (scan_number (sc_end s) (c # cs)) (\<lambda>(tk, t). Inr (tk, s\<lparr>sc_in := t\<rparr>)) = Inr (tk, s1)"
      using eq 5 not c by (simp del: bind_result_Inr_iff want_bytes.simps)
    then obtain t where u: "scan_number (sc_end s) (c # cs) = Inr (tk, t)" and s1: "s1 = s\<lparr>sc_in := t\<rparr>" by auto
    from scan_number_token [OF u] have n: "number_end (c # cs) = Some t" "tk = number_token (consumed (c # cs) t)" by auto
    have "read_value (Suc f) d (sc_in s) = Some (JNum (consumed (c # cs) t), t)" for f d
      using n(1) not c s by simp
    then have "value_read s (tk # ts) (JNum (consumed (c # cs) t)) t ts"
      using n(2) s1 v(3) len by (intro value_read_leaf) (simp_all del: read_value.simps)
    then show ?thesis by blast
  qed
qed

declare read_value.simps [simp del] read_elems.simps [simp del] read_mems.simps [simp del]

lemma read_value_skip: "read_value f d (skip_ws s) = read_value f d s"
  by (cases f) (simp_all add: read_value.simps)

lemma next_close_empty:
  assumes "sc_stack s = fr # st" "ct_state fr = 0" "closes fr (hd (skip_ws (sc_in s)))" "skip_ws (sc_in s) \<noteq> []"
  shows "next_from True s = Inr (plain_token (if ct_kind fr = KObject then KObjectEnd else KArrayEnd) [],
    s\<lparr>sc_in := tl (skip_ws (sc_in s)), sc_stack := st\<rparr>)"
  using assms by (auto simp: next_from.simps [of True s] Let_def closes_def scan_end_def)

lemma value_runs_array:
  assumes v: "holds_value s" "scan_value True s = Inr (tk, s1)" "all_tokens s1 = (ts, ScanEOF)"
    and s: "sc_in s = CHR ''['' # cs"
    and elems: "\<And>s'. length (sc_in s') < length (sc_in s) \<Longrightarrow> elems_runs s'"
  shows "\<exists>j r ts'. value_read s (tk # ts) j r ts'"
proof -
  let ?fr = "\<lparr>ct_kind = KArray, ct_state = 0, ct_names = []\<rparr>"
  have deep: "length (sc_stack s) < MaxDepth" and tk: "tk = plain_token KArray []"
    and s1: "s1 = s\<lparr>sc_in := cs, sc_stack := ?fr # sc_stack s\<rparr>"
    using v(2) s by (auto simp: scan_value_def Let_def split: if_splits)
  have left: "levels_left s = Suc (levels_left s1)" using deep s1 by (simp add: levels_left_def)
  have err: "sc_err s1 = None" using v(1) s1 by (simp add: holds_value_def)
  show ?thesis
  proof (cases "expect (CHR '']'') cs")
    case (Some r)
    then have "next_from True s1 = Inr (plain_token KArrayEnd [], s\<lparr>sc_in := r\<rparr>)"
      using next_close_empty [of s1 ?fr "sc_stack s"] s1 by (auto simp: expect_skip closes_def split: if_splits)
    from all_tokens_cons [OF this err] v(3) obtain ts' where ts: "ts = plain_token KArrayEnd [] # ts'"
      "all_tokens (s\<lparr>sc_in := r\<rparr>) = (ts', ScanEOF)" by (cases "all_tokens (s\<lparr>sc_in := r\<rparr>)") auto
    have r: "length r < length (sc_in s)" using Some s skip_ws_tl [of cs] by (auto simp: expect_skip split: if_splits)
    have "read_value f d (sc_in s) = Some (JArr (consumed (sc_in s) r) [], r)"
      if "length (sc_in s) - length r \<le> f" "levels_left s \<le> d" for f d
      using that r Some s left by (cases f) (auto simp: read_value.simps)
    then have "value_read s (tk # ts) (JArr (consumed (sc_in s) r) []) r ts'"
      using ts r left tk by (simp add: value_read_def)
    then show ?thesis by blast
  next
    case None
    have "elems_runs s1" using elems [of s1] s s1 by simp
    then obtain js r ts' where e: "elems_read s1 ts js r ts'"
      using None err s1 v(3) unfolding elems_runs_def by fastforce
    note e' = e [unfolded elems_read_def]
    have "read_value f d (sc_in s) = Some (JArr (consumed (sc_in s) r) js, r)"
      if f: "length (sc_in s) - length r \<le> f" "levels_left s \<le> d" for f d
    proof -
      obtain f' where f': "f = Suc f'" using f e' s s1 by (cases f) auto
      then have "read_elems f' (d - 1) cs = Some (js, r)" using e' f s s1 left by auto
      then show ?thesis using f' f left None s by (simp add: read_value.simps)
    qed
    then have "value_read s (tk # ts) (JArr (consumed (sc_in s) r) js) r ts'"
      using e' s s1 tk left by (auto simp: value_read_def)
    then show ?thesis by blast
  qed
qed

lemma value_runs_object:
  assumes v: "holds_value s" "scan_value True s = Inr (tk, s1)" "all_tokens s1 = (ts, ScanEOF)"
    and s: "sc_in s = CHR ''{'' # cs"
    and mems: "\<And>s'. length (sc_in s') < length (sc_in s) \<Longrightarrow> mems_runs s'"
  shows "\<exists>j r ts'. value_read s (tk # ts) j r ts'"
proof -
  let ?fr = "\<lparr>ct_kind = KObject, ct_state = 0, ct_names = []\<rparr>"
  have deep: "length (sc_stack s) < MaxDepth" and tk: "tk = plain_token KObject []"
    and s1: "s1 = s\<lparr>sc_in := cs, sc_stack := ?fr # sc_stack s\<rparr>"
    using v(2) s by (auto simp: scan_value_def Let_def split: if_splits)
  have left: "levels_left s = Suc (levels_left s1)" using deep s1 by (simp add: levels_left_def)
  have err: "sc_err s1 = None" using v(1) s1 by (simp add: holds_value_def)
  show ?thesis
  proof (cases "expect (CHR ''}'') cs")
    case (Some r)
    then have "next_from True s1 = Inr (plain_token KObjectEnd [], s\<lparr>sc_in := r\<rparr>)"
      using next_close_empty [of s1 ?fr "sc_stack s"] s1 by (auto simp: expect_skip closes_def split: if_splits)
    from all_tokens_cons [OF this err] v(3) obtain ts' where ts: "ts = plain_token KObjectEnd [] # ts'"
      "all_tokens (s\<lparr>sc_in := r\<rparr>) = (ts', ScanEOF)" by (cases "all_tokens (s\<lparr>sc_in := r\<rparr>)") auto
    have r: "length r < length (sc_in s)" using Some s skip_ws_tl [of cs] by (auto simp: expect_skip split: if_splits)
    have "read_value f d (sc_in s) = Some (JObj (consumed (sc_in s) r) [], r)"
      if "length (sc_in s) - length r \<le> f" "levels_left s \<le> d" for f d
      using that r Some s left by (cases f) (auto simp: read_value.simps)
    then have "value_read s (tk # ts) (JObj (consumed (sc_in s) r) []) r ts'"
      using ts r left tk by (simp add: value_read_def)
    then show ?thesis by blast
  next
    case None
    have "mems_runs s1" using mems [of s1] s s1 by simp
    then obtain ms r ts' where e: "mems_read s1 ts ms r ts'"
      using None err s1 v(3) unfolding mems_runs_def by fastforce
    note e' = e [unfolded mems_read_def]
    have "read_value f d (sc_in s) = Some (JObj (consumed (sc_in s) r) ms, r)"
      if f: "length (sc_in s) - length r \<le> f" "levels_left s \<le> d" for f d
    proof -
      obtain f' where f': "f = Suc f'" using f e' s s1 by (cases f) auto
      then have "read_mems f' (d - 1) cs = Some (ms, r)" using e' f s s1 left by auto
      then show ?thesis using f' f left None s by (simp add: read_value.simps)
    qed
    then have "value_read s (tk # ts) (JObj (consumed (sc_in s) r) ms) r ts'"
      using e' s s1 tk left by (auto simp: value_read_def)
    then show ?thesis by blast
  qed
qed

text \<open>What follows a value in a container: the end, or a comma and more.\<close>

lemma after_value:
  assumes run: "all_tokens s = (ts, ScanEOF)" "sc_err s = None" and st: "sc_stack s = fr # st" "ct_state fr = 3"
    and kind: "ct_kind fr = KArray \<or> ct_kind fr = KObject"
  obtains r ts' where "expect (CHR '','') (sc_in s) = None"
      "expect (if ct_kind fr = KObject then CHR ''}'' else CHR '']'') (sc_in s) = Some r"
      "ts = plain_token (if ct_kind fr = KObject then KObjectEnd else KArrayEnd) [] # ts'"
      "all_tokens (s\<lparr>sc_in := r, sc_stack := st\<rparr>) = (ts', ScanEOF)" "length r < length (sc_in s)"
  | r where "expect (CHR '','') (sc_in s) = Some r" "length r < length (sc_in s)"
      "all_tokens (s\<lparr>sc_in := r, sc_stack := fr\<lparr>ct_state := 1\<rparr> # st\<rparr>) = (ts, ScanEOF)"
proof -
  have ne: "sc_stack s \<noteq> []" using st by simp
  from all_tokens_first [OF run ne] obtain tk s' ts' where n: "next_from True s = Inr (tk, s')" "ts = tk # ts'"
    "all_tokens s' = (ts', ScanEOF)" by blast
  from next_after_value [OF st n(1)] show ?thesis
  proof
    assume a: "closes fr (hd (skip_ws (sc_in s))) \<and> skip_ws (sc_in s) \<noteq> [] \<and> (tk, s') = scan_end (s\<lparr>sc_in := skip_ws (sc_in s)\<rparr>)"
    then have "(tk, s') = (plain_token (if ct_kind fr = KObject then KObjectEnd else KArrayEnd) [],
        s\<lparr>sc_in := tl (skip_ws (sc_in s)), sc_stack := st\<rparr>)"
      using scan_end_closes [of fr "s\<lparr>sc_in := skip_ws (sc_in s)\<rparr>"] kind st by auto
    then show ?thesis using a n kind skip_ws_tl [of "sc_in s"]
      by (intro that(1) [of "tl (skip_ws (sc_in s))" ts']) (auto simp: expect_skip closes_def)
  next
    assume a: "expect (CHR '','') (sc_in s) = Some (tl (skip_ws (sc_in s))) \<and>
      next_from True s = next_from True (s\<lparr>sc_in := tl (skip_ws (sc_in s)), sc_stack := fr\<lparr>ct_state := 1\<rparr> # st\<rparr>)"
    then have "all_tokens (s\<lparr>sc_in := tl (skip_ws (sc_in s)), sc_stack := fr\<lparr>ct_state := 1\<rparr> # st\<rparr>) = (ts, ScanEOF)"
      using all_tokens_eq [of s] run by auto
    then show ?thesis using a skip_ws_tl [of "sc_in s"]
      by (intro that(2) [of "tl (skip_ws (sc_in s))"]) (auto simp: expect_skip split: if_splits)
  qed
qed

lemma elems_runs_step:
  assumes vals: "\<And>s'. length (sc_in s') \<le> length (sc_in s) \<Longrightarrow> value_runs s'"
    and rest: "\<And>s'. length (sc_in s') < length (sc_in s) \<Longrightarrow> elems_runs s'"
  shows "elems_runs s"
  unfolding elems_runs_def
proof (intro allI impI)
  fix fr st ts
  assume err: "sc_err s = None" and st: "sc_stack s = fr # st" and k: "ct_kind fr = KArray"
    and state: "ct_state fr = 1 \<or> ct_state fr = 0 \<and> expect (CHR '']'') (sc_in s) = None"
    and run: "all_tokens s = (ts, ScanEOF)"
  have ne: "sc_stack s \<noteq> []" using st by simp
  from all_tokens_first [OF run err ne] obtain tk s1 ts1 where n: "next_from True s = Inr (tk, s1)" "ts = tk # ts1"
    "all_tokens s1 = (ts1, ScanEOF)" by blast
  define s2 where "s2 = s\<lparr>sc_in := skip_ws (sc_in s), sc_stack := fr\<lparr>ct_state := 3\<rparr> # st\<rparr>"
  have s2: "scan_value True s2 = Inr (tk, s1)" and in2: "skip_ws (sc_in s) \<noteq> []"
    using n(1) st k state by (auto simp: next_from.simps [of True s] Let_def s2_def set_top_def expect_skip split: if_splits)
  have "holds_value s2" using in2 err by (simp add: holds_value_def s2_def)
  moreover have "value_runs s2" by (rule vals) (simp add: s2_def)
  ultimately obtain j r ts2 where v: "value_read s2 (tk # ts1) j r ts2"
    using s2 n(3) unfolding value_runs_def by blast
  note v' = v [unfolded value_read_def]
  have left: "levels_left s2 = levels_left s" using st by (simp add: levels_left_def s2_def)
  have len: "length (skip_ws (sc_in s)) \<le> length (sc_in s)" by simp
  have rlen: "length r < length (sc_in s)" using v' len by (simp add: s2_def del: skip_ws_le)
  have val: "read_value f d (sc_in s) = Some (j, r)" if "length (sc_in s) - length r \<le> f" "levels_left s \<le> d" for f d
    using v' that left len read_value_skip [of f d "sc_in s"] by (auto simp: s2_def simp del: skip_ws_le)
  have run2: "all_tokens (s2\<lparr>sc_in := r\<rparr>) = (ts2, ScanEOF)" using v' by simp
  have s3: "sc_err (s2\<lparr>sc_in := r\<rparr>) = None" "sc_stack (s2\<lparr>sc_in := r\<rparr>) = fr\<lparr>ct_state := 3\<rparr> # st"
    "ct_state (fr\<lparr>ct_state := 3\<rparr>) = 3" "ct_kind (fr\<lparr>ct_state := 3\<rparr>) = KArray \<or> ct_kind (fr\<lparr>ct_state := 3\<rparr>) = KObject"
    using err k by (simp_all add: s2_def)
  show "\<exists>js r ts'. elems_read s ts js r ts'"
  proof (cases rule: after_value [OF run2 s3])
    case ends: (1 r' ts')
    have "read_elems f d (sc_in s) = Some ([j], r')" if f: "length (sc_in s) - length r' \<le> f" "levels_left s \<le> d" for f d
    proof -
      obtain f' where f': "f = Suc f'" using f rlen ends(5) by (cases f) (auto simp: s2_def)
      have "read_value f' d (sc_in s) = Some (j, r)" using val [of f' d] f f' rlen ends(5) by (auto simp: s2_def)
      then show ?thesis using f' ends(1,2) k by (simp add: read_elems.simps s2_def)
    qed
    then have "elems_read s ts [j] r' ts'"
      using v' ends k n(2) left rlen st by (auto simp: elems_read_def s2_def)
    then show ?thesis by blast
  next
    case more: (2 r')
    define s4 where "s4 = s\<lparr>sc_in := r', sc_stack := fr\<lparr>ct_state := 1\<rparr> # st\<rparr>"
    have "all_tokens s4 = (ts2, ScanEOF)" using more(3) by (simp add: s2_def s4_def)
    moreover have "elems_runs s4" using rlen more(2) by (intro rest) (simp add: s4_def s2_def)
    ultimately obtain js r4 ts' where e: "elems_read s4 ts2 js r4 ts'"
      using err k unfolding elems_runs_def by (fastforce simp: s4_def)
    note e' = e [unfolded elems_read_def]
    have left4: "levels_left s4 = levels_left s" using st by (simp add: levels_left_def s4_def)
    have r4: "length r4 < length r'" using e' by (simp add: s4_def)
    have "read_elems f d (sc_in s) = Some (j # js, r4)" if f: "length (sc_in s) - length r4 \<le> f" "levels_left s \<le> d" for f d
    proof -
      obtain f' where f': "f = Suc f'" using f rlen more(2) r4 by (cases f) (auto simp: s2_def)
      have "read_value f' d (sc_in s) = Some (j, r)" using val [of f' d] f f' rlen more(2) r4 by (auto simp: s2_def)
      moreover have "read_elems f' d r' = Some (js, r4)" using e' f f' rlen more(2) left4 by (auto simp: s4_def s2_def)
      ultimately show ?thesis using f' more(1) by (simp add: read_elems.simps s2_def)
    qed
    then have "elems_read s ts (j # js) r4 ts'"
      using v' e' n(2) left left4 rlen st more(2) r4 by (auto simp: elems_read_def s2_def s4_def)
    then show ?thesis by blast
  qed
qed

lemma next_name:
  assumes "sc_stack s = fr # st" "ct_kind fr = KObject" "next_from True s = Inr (tk, s1)"
    "ct_state fr = 1 \<or> ct_state fr = 0 \<and> expect (CHR ''}'') (sc_in s) = None"
  shows "\<exists>name t t0. expect (CHR 0x22) (sc_in s) = Some t0 \<and> str_body t0 = Some (name, t) \<and> length name \<le> MaxStringBytes \<and>
    length (ct_names fr) < MaxMembers \<and> name \<notin> set (ct_names fr) \<and> tk = plain_token KName name \<and> length t < length t0 \<and>
    s1 = s\<lparr>sc_in := t, sc_stack := fr\<lparr>ct_names := name # ct_names fr, ct_state := 2\<rparr> # st\<rparr>"
proof -
  have "scan_name (s\<lparr>sc_in := skip_ws (sc_in s)\<rparr>) = Inr (tk, s1)" and q: "expect (CHR 0x22) (sc_in s) = Some (tl (skip_ws (sc_in s)))"
    using assms by (auto simp: next_from.simps [of True s] Let_def expect_skip split: if_splits)
  then obtain name t where n: "scan_string True (sc_end s) (skip_ws (sc_in s)) = Inr (name, t)" "\<not> length (ct_names fr) \<ge> MaxMembers"
    "name \<notin> set (ct_names fr)" "tk = plain_token KName name"
    "s1 = s\<lparr>sc_in := t, sc_stack := fr\<lparr>ct_names := name # ct_names fr, ct_state := 2\<rparr> # st\<rparr>"
    using assms(1) by (auto simp: scan_name_def Let_def set_top_def split: if_splits)
  obtain c t0 where in0: "skip_ws (sc_in s) = c # t0" using q by (cases "skip_ws (sc_in s)") (auto simp: expect_skip split: if_splits)
  from scan_string_body [of True "sc_end s" c t0 name t] n(1) in0 have "str_body t0 = Some (name, t)" "length name \<le> MaxStringBytes" by auto
  moreover have "length t < length t0" using n(1) in0 by (cases t0) (auto simp: scan_string_def string_loop.simps(1) dest: string_loop_shorter)
  ultimately show ?thesis using n q in0 by auto
qed

lemma next_member_value:
  assumes "sc_stack s = fr # st" "ct_kind fr = KObject" "ct_state fr = 2" "next_from True s = Inr (tk, s1)"
  shows "\<exists>t. expect (CHR '':'') (sc_in s) = Some t \<and> skip_ws t \<noteq> [] \<and> length t < length (sc_in s) \<and>
    scan_value True (s\<lparr>sc_in := skip_ws t, sc_stack := fr\<lparr>ct_state := 3\<rparr> # st\<rparr>) = Inr (tk, s1)"
  using assms skip_ws_tl [of "sc_in s"]
  by (auto simp: next_from.simps [of True s] Let_def expect_skip after_colon_def set_top_def split: if_splits)

lemma mems_runs_step:
  assumes vals: "\<And>s'. length (sc_in s') < length (sc_in s) \<Longrightarrow> value_runs s'"
    and rest: "\<And>s'. length (sc_in s') < length (sc_in s) \<Longrightarrow> mems_runs s'"
  shows "mems_runs s"
  unfolding mems_runs_def
proof (intro allI impI)
  fix fr st ts
  assume err: "sc_err s = None" and st: "sc_stack s = fr # st" and k: "ct_kind fr = KObject" and dist: "distinct (ct_names fr)"
    and state: "ct_state fr = 1 \<or> ct_state fr = 0 \<and> expect (CHR ''}'') (sc_in s) = None"
    and run: "all_tokens s = (ts, ScanEOF)"
  have ne: "sc_stack s \<noteq> []" using st by simp
  from all_tokens_first [OF run err ne] obtain tk0 s0 ts0 where n0: "next_from True s = Inr (tk0, s0)" "ts = tk0 # ts0"
    "all_tokens s0 = (ts0, ScanEOF)" by blast
  from next_name [OF st k n0(1) state] obtain name t t0 where name: "expect (CHR 0x22) (sc_in s) = Some t0" "str_body t0 = Some (name, t)"
    "length name \<le> MaxStringBytes" "length (ct_names fr) < MaxMembers" "name \<notin> set (ct_names fr)" "tk0 = plain_token KName name"
    "length t < length t0" and s0: "s0 = s\<lparr>sc_in := t, sc_stack := fr\<lparr>ct_names := name # ct_names fr, ct_state := 2\<rparr> # st\<rparr>"
    by blast
  have t0: "length t0 < length (sc_in s)" using name(1) skip_ws_tl [of "sc_in s"] by (auto simp: expect_skip split: if_splits)
  define fr1 where "fr1 = fr\<lparr>ct_names := name # ct_names fr\<rparr>"
  have st0: "sc_stack s0 = fr1\<lparr>ct_state := 2\<rparr> # st" "ct_kind (fr1\<lparr>ct_state := 2\<rparr>) = KObject" "ct_state (fr1\<lparr>ct_state := 2\<rparr>) = 2"
    and err0: "sc_err s0 = None" and ne0: "sc_stack s0 \<noteq> []" using s0 k err by (simp_all add: fr1_def)
  from all_tokens_first [OF n0(3) err0 ne0] obtain tk s1 ts1 where n: "next_from True s0 = Inr (tk, s1)" "ts0 = tk # ts1"
    "all_tokens s1 = (ts1, ScanEOF)" by blast
  from next_member_value [OF st0 n(1)] obtain u where u: "expect (CHR '':'') t = Some u" "skip_ws u \<noteq> []" "length u < length t"
    "scan_value True (s0\<lparr>sc_in := skip_ws u, sc_stack := fr1\<lparr>ct_state := 3\<rparr> # st\<rparr>) = Inr (tk, s1)"
    using s0 by auto
  define s2 where "s2 = s\<lparr>sc_in := skip_ws u, sc_stack := fr1\<lparr>ct_state := 3\<rparr> # st\<rparr>"
  have s2: "scan_value True s2 = Inr (tk, s1)" using u(4) s0 by (simp add: s2_def)
  have "holds_value s2" using u(2) err by (simp add: holds_value_def s2_def)
  moreover have "value_runs s2" using u(3) name(7) t0 skip_ws_le [of u] by (intro vals) (simp add: s2_def del: skip_ws_le)
  ultimately obtain j r ts2 where v: "value_read s2 (tk # ts1) j r ts2"
    using s2 n(3) unfolding value_runs_def by blast
  note v' = v [unfolded value_read_def]
  have left: "levels_left s2 = levels_left s" using st by (simp add: levels_left_def s2_def)
  have len: "length (skip_ws u) \<le> length u" by simp
  have rlen: "length r < length u" using v' len by (simp add: s2_def del: skip_ws_le)
  have val: "read_value f d u = Some (j, r)" if "length u - length r \<le> f" "levels_left s \<le> d" for f d
    using v' that left len read_value_skip [of f d u] by (auto simp: s2_def simp del: skip_ws_le)
  have run2: "all_tokens (s2\<lparr>sc_in := r\<rparr>) = (ts2, ScanEOF)" using v' by simp
  have s3: "sc_err (s2\<lparr>sc_in := r\<rparr>) = None" "sc_stack (s2\<lparr>sc_in := r\<rparr>) = fr1\<lparr>ct_state := 3\<rparr> # st"
    "ct_state (fr1\<lparr>ct_state := 3\<rparr>) = 3" "ct_kind (fr1\<lparr>ct_state := 3\<rparr>) = KArray \<or> ct_kind (fr1\<lparr>ct_state := 3\<rparr>) = KObject"
    using err k by (simp_all add: s2_def fr1_def)
  have k1: "ct_kind fr1 = KObject" using k by (simp add: fr1_def)
  show "\<exists>ms r ts'. mems_read s ts ms r ts'"
  proof (cases rule: after_value [OF run2 s3])
    case ends: (1 r' ts')
    have "read_mems f d (sc_in s) = Some ([(name, j)], r')" if f: "length (sc_in s) - length r' \<le> f" "levels_left s \<le> d" for f d
    proof -
      obtain f' where f': "f = Suc f'" using f rlen ends(5) u(3) name(7) t0 by (cases f) (auto simp: s2_def)
      have "read_value f' d u = Some (j, r)" using val [of f' d] f f' rlen ends(5) u(3) name(7) t0 by (auto simp: s2_def)
      then show ?thesis using f' ends(1,2) k1 name(1,2) u(1) by (simp add: read_mems.simps s2_def)
    qed
    then have "mems_read s ts [(name, j)] r' ts'"
      using v' ends k1 n(2) n0(2) left rlen st name dist u(3) t0 by (auto simp: mems_read_def s2_def)
    then show ?thesis by blast
  next
    case more: (2 r')
    define s4 where "s4 = s\<lparr>sc_in := r', sc_stack := fr1\<lparr>ct_state := 1\<rparr> # st\<rparr>"
    have "all_tokens s4 = (ts2, ScanEOF)" using more(3) by (simp add: s2_def s4_def)
    moreover have "mems_runs s4" using rlen more(2) u(3) name(7) t0 by (intro rest) (simp add: s4_def s2_def)
    moreover have "distinct (ct_names fr1)" using dist name(5) by (simp add: fr1_def)
    ultimately obtain ms r4 ts' where e: "mems_read s4 ts2 ms r4 ts'"
      using err k1 unfolding mems_runs_def by (fastforce simp: s4_def)
    note e' = e [unfolded mems_read_def]
    have left4: "levels_left s4 = levels_left s" using st by (simp add: levels_left_def s4_def)
    have r4: "length r4 < length r'" using e' by (simp add: s4_def)
    have "read_mems f d (sc_in s) = Some ((name, j) # ms, r4)" if f: "length (sc_in s) - length r4 \<le> f" "levels_left s \<le> d" for f d
    proof -
      obtain f' where f': "f = Suc f'" using f rlen more(2) r4 u(3) name(7) t0 by (cases f) (auto simp: s2_def)
      have "read_value f' d u = Some (j, r)" using val [of f' d] f f' rlen more(2) r4 u(3) name(7) t0 by (auto simp: s2_def)
      moreover have "read_mems f' d r' = Some (ms, r4)" using e' f f' rlen more(2) left4 u(3) name(7) t0 by (auto simp: s4_def s2_def)
      ultimately show ?thesis using f' more(1) name(1,2) u(1) by (simp add: read_mems.simps s2_def)
    qed
    then have "mems_read s ts ((name, j) # ms) r4 ts'"
      using v' e' n(2) n0(2) left left4 rlen st more(2) r4 name u(3) t0
      by (auto simp: mems_read_def s2_def s4_def fr1_def)
    then show ?thesis by blast
  qed
qed

lemma runs: "value_runs s \<and> elems_runs s \<and> mems_runs s"
proof (induction "length (sc_in s)" arbitrary: s rule: less_induct)
  case (less s)
  have v: "value_runs s'" if "length (sc_in s') \<le> length (sc_in s)" for s'
    unfolding value_runs_def
  proof (intro allI impI)
    fix tk s1 ts
    assume a: "holds_value s'" "scan_value True s' = Inr (tk, s1)" "all_tokens s1 = (ts, ScanEOF)"
    have smaller: "elems_runs s''" "mems_runs s''" if "length (sc_in s'') < length (sc_in s')" for s''
      using less [of s''] that \<open>length (sc_in s') \<le> length (sc_in s)\<close> by auto
    obtain c cs where s: "sc_in s' = c # cs" using a(1) by (cases "sc_in s'") (auto simp: holds_value_def)
    show "\<exists>j r ts'. value_read s' (tk # ts) j r ts'"
    proof (cases "c = CHR ''['' \<or> c = CHR ''{''")
      case True
      then show ?thesis
        using value_runs_array [OF a _ smaller(1)] value_runs_object [OF a _ smaller(2)] s by auto
    next
      case False
      then show ?thesis using value_runs_leaf [OF a] s by simp
    qed
  qed
  show ?case using v elems_runs_step [OF v, of s] mems_runs_step [of s] less by (metis less_imp_le_nat order_refl)
qed

section \<open>What a complete scan shows\<close>

lemma next_done:
  assumes "sc_stack s = []" "sc_started s" "sc_err s = None" "all_tokens s = (ts, ScanEOF)"
  shows "ts = [] \<and> skip_ws (sc_in s) = []"
  using assms
  by (auto simp: all_tokens.simps [of s] scan_next_def next_from.simps [of True s] Let_def split: if_splits)

lemma next_first:
  assumes "all_tokens s = (ts, ScanEOF)" "sc_stack s = []" "\<not> sc_started s" "sc_err s = None"
  obtains tk s1 ts1 where "skip_ws (sc_in s) \<noteq> []" "ts = tk # ts1" "all_tokens s1 = (ts1, ScanEOF)"
    "scan_value True (s\<lparr>sc_in := skip_ws (sc_in s), sc_started := True\<rparr>) = Inr (tk, s1)"
proof (cases "next_from True s")
  case (Inl e)
  then have "e \<noteq> ScanEOF"
    using assms(2,3) scan_value_not_EOF by (auto simp: next_from.simps [of True s] Let_def split: if_splits)
  with Inl assms show ?thesis by (simp add: all_tokens.simps [of s] scan_next_def)
next
  case (Inr x)
  obtain tk s1 where x: "x = (tk, s1)" by (cases x)
  from all_tokens_cons [OF Inr [unfolded x] assms(4)] assms Inr x show ?thesis
    by (intro that [of tk "fst (all_tokens s1)" s1])
      (auto simp: next_from.simps [of True s] Let_def prod_eq_iff split: if_splits)
qed



definition sample_text :: string where
  "sample_text = ''[-1, {'' @ [CHR 0x22, CHR ''a'', CHR 0x22] @ '': true}]''"

lemmas run_simps = all_tokens.simps next_from.simps scan_next_def scan_value_def Let_def set_top_def
  scan_name_def scan_string_def string_loop.simps string_rune_def after_colon_def closes_def scan_end_def
  New_Scanner_def skip_ws_def is_space_def MaxDepth_def MaxMembers_def MaxStringBytes_def ended_def
  plain_token_def scan_number_def add_digit_def is_digit_def scan_fraction_def scan_exponent_def


text \<open>The value of a number is exact: \<open>Uint64\<close> gives what \<open>strconv.ParseUint\<close> reads from the text of the number,
  and refuses the token just when that does: a sign, a fraction, an exponent, or a value past 64 bits.\<close>

theorem Token_Uint64_exact:
  assumes "scan_number fin s = Inr (tk, t)"
  shows "Token_Uint64 tk = (case parse_uint 64 (consumed s t) of Some n \<Rightarrow> Inr (of_nat n) | None \<Rightarrow> Inl NotUnsigned)"
proof -
  from scan_number_parts [OF assms] obtain m ds fe where "s = m @ ds @ fe @ t" "ds \<noteq> []" by blast
  then have "consumed s t \<noteq> []" using consumed_append [of "m @ ds @ fe" t] by simp
  with number_token_value [OF this] scan_number_token [OF assms] show ?thesis by simp
qed

theorem Token_Uint64_exact_witness:
  "(\<exists>tk. scan_number AtEOF ''18446744073709551615,'' = Inr (tk, '','') \<and> Token_Uint64 tk = Inr 18446744073709551615) \<and>
   (\<exists>tk. scan_number AtEOF ''18446744073709551616,'' = Inr (tk, '','') \<and> Token_Uint64 tk = Inl NotUnsigned)"
proof -
  have a: "scan_number AtEOF ''18446744073709551615,'' =
      Inr (\<lparr>tk_Kind = KNumber, tk_Text = [], tk_unsigned = 18446744073709551615, tk_whole = True, tk_overflow = False\<rparr>, '','')"
    by (simp add: run_simps)
  have b: "scan_number AtEOF ''18446744073709551616,'' =
      Inr (\<lparr>tk_Kind = KNumber, tk_Text = [], tk_unsigned = 1844674407370955161, tk_whole = True, tk_overflow = True\<rparr>, '','')"
    by (simp add: run_simps)
  have c: "parse_uint 64 (consumed ''18446744073709551615,'' '','') = Some 18446744073709551615"
    "parse_uint 64 (consumed ''18446744073709551616,'' '','') = None"
    by (simp_all add: parse_uint_def consumed_def is_digit_def)
  show ?thesis using a b Token_Uint64_exact [OF a, unfolded c] Token_Uint64_exact [OF b, unfolded c] by simp
qed


section \<open>Every state keeps the limits\<close>

text \<open>What a scanner becomes as its caller asks for tokens and skips values, in any order.\<close>

inductive scanned :: "string \<Rightarrow> read_end \<Rightarrow> scanner \<Rightarrow> bool" for input fin where
  scanned_new: "scanned input fin (New_Scanner input fin)"
| scanned_next: "scanned input fin s \<Longrightarrow> scanned input fin (snd (Scanner_Next s))"
| scanned_skip: "scanned input fin s \<Longrightarrow> scanned input fin (snd (Scanner_Skip s))"

definition frame_ok :: "container \<Rightarrow> bool" where
  "frame_ok fr \<longleftrightarrow> distinct (ct_names fr) \<and> length (ct_names fr) \<le> MaxMembers \<and>
     (\<forall>n \<in> set (ct_names fr). length n \<le> MaxStringBytes)"

definition scanner_ok :: "scanner \<Rightarrow> bool" where
  "scanner_ok s \<longleftrightarrow> length (sc_stack s) \<le> MaxDepth \<and> (\<forall>fr \<in> set (sc_stack s). frame_ok fr)"

lemma scan_string_bound: "scan_string keep fin s = Inr (v, t) \<Longrightarrow> length v \<le> MaxStringBytes"
  by (cases s) (auto simp: scan_string_def string_loop.simps(1) dest!: string_loop_body)

lemma scan_number_text: "scan_number fin s = Inr (tk, t) \<Longrightarrow> tk_Text tk = []"
  by (drule scan_number_parts) auto

lemma scan_value_ok:
  "scan_value keep s = Inr (tk, s') \<Longrightarrow> scanner_ok s \<Longrightarrow> scanner_ok s' \<and> length (tk_Text tk) \<le> MaxStringBytes"
  by (auto simp: scan_value_def Let_def scanner_ok_def frame_ok_def plain_token_def dest: scan_string_bound scan_number_text
      split: if_splits)

lemma set_top_ok:
  "scanner_ok s \<Longrightarrow> sc_stack s \<noteq> [] \<Longrightarrow> (\<And>fr. frame_ok fr \<Longrightarrow> frame_ok (f fr)) \<Longrightarrow> scanner_ok (set_top f s)"
  by (cases "sc_stack s") (auto simp: scanner_ok_def set_top_def)

lemma scanner_ok_in [simp]: "scanner_ok (s\<lparr>sc_in := t\<rparr>) = scanner_ok s" "scanner_ok (s\<lparr>sc_started := b\<rparr>) = scanner_ok s"
  "scanner_ok (s\<lparr>sc_err := e\<rparr>) = scanner_ok s"
  by (simp_all add: scanner_ok_def)

lemma frame_ok_state [simp]: "frame_ok (fr\<lparr>ct_state := n\<rparr>) = frame_ok fr"
  by (simp add: frame_ok_def)

lemma scan_name_ok:
  assumes "scan_name s = Inr (tk, s')" "scanner_ok s" "sc_stack s \<noteq> []"
  shows "scanner_ok s' \<and> length (tk_Text tk) \<le> MaxStringBytes"
proof -
  obtain fr st where st: "sc_stack s = fr # st" using assms(3) by (cases "sc_stack s") auto
  from assms(1) obtain name t where n: "scan_string True (sc_end s) (sc_in s) = Inr (name, t)" "\<not> length (ct_names fr) \<ge> MaxMembers"
    "name \<notin> set (ct_names fr)" "tk = plain_token KName name"
    "s' = s\<lparr>sc_in := t, sc_stack := fr\<lparr>ct_names := name # ct_names fr, ct_state := 2\<rparr> # st\<rparr>"
    using st by (auto simp: scan_name_def Let_def set_top_def split: if_splits)
  then show ?thesis using assms(2) scan_string_bound [OF n(1)] st
    by (simp add: scanner_ok_def plain_token_def) (simp add: frame_ok_def)
qed

lemma next_from_ok:
  "next_from keep s = Inr (tk, s') \<Longrightarrow> scanner_ok s \<Longrightarrow> scanner_ok s' \<and> length (tk_Text tk) \<le> MaxStringBytes"
proof (induction keep s rule: next_from.induct)
  case (1 keep s0)
  let ?s = "s0\<lparr>sc_in := skip_ws (sc_in s0)\<rparr>"
  let ?next = "set_top (\<lambda>f. f\<lparr>ct_state := 1\<rparr>) (?s\<lparr>sc_in := tl (sc_in ?s)\<rparr>)"
  show ?case
  proof (cases "sc_stack s0 \<noteq> [] \<and> ct_state (hd (sc_stack s0)) = 3 \<and> hd (sc_in ?s) = CHR '','' \<and> sc_in ?s \<noteq> []")
    case True
    then have "next_from keep ?next = Inr (tk, s')" using 1(2) by (simp add: next_from.simps [of keep s0])
    moreover have "scanner_ok ?next" using True 1(3) by (intro set_top_ok) simp_all
    ultimately show ?thesis using 1(1) [of ?s "hd (sc_stack s0)" "hd (sc_in ?s)"] True by simp
  next
    case False
    have ended: "scanner_ok (snd (scan_end ?s)) \<and> tk_Text (fst (scan_end ?s)) = []"
      using 1(3) by (cases "sc_stack s0") (auto simp: scan_end_def scanner_ok_def plain_token_def)
    have top: "sc_stack s0 \<noteq> [] \<Longrightarrow> scanner_ok (set_top (\<lambda>f. f\<lparr>ct_state := 3\<rparr>) (s0\<lparr>sc_in := t\<rparr>))" for t
      using 1(3) by (intro set_top_ok) simp_all
    have named: "sc_stack s0 \<noteq> [] \<Longrightarrow> scan_name ?s = Inr (tk, s') \<Longrightarrow> ?thesis"
      using scan_name_ok [of ?s tk s'] 1(3) by simp
    have colon: "sc_stack s0 \<noteq> [] \<Longrightarrow> after_colon keep ?s = Inr (tk, s') \<Longrightarrow> ?thesis"
      using scan_value_ok [OF _ top] by (auto simp: after_colon_def Let_def split: if_splits)
    from False 1(2) show ?thesis
      using ended named colon scan_value_ok [OF _ top] scan_value_ok [of keep "?s\<lparr>sc_started := True\<rparr>" tk s'] 1(3)
      by (auto simp: next_from.simps [of keep s0] Let_def split: if_splits)
  qed
qed

lemma scan_next_ok:
  "scanner_ok s \<Longrightarrow> scan_next keep s = (r, s') \<Longrightarrow> scanner_ok s' \<and> (\<forall>tk. r = Inr tk \<longrightarrow> length (tk_Text tk) \<le> MaxStringBytes)"
  by (auto simp: scan_next_def split: option.splits sum.splits dest: next_from_ok)

lemma skip_loop_ok: "scanner_ok s \<Longrightarrow> scanner_ok (snd (skip_loop depth tk s))"
proof (induction depth tk s rule: skip_loop.induct)
  case (1 depth tk s)
  show ?case using 1 scan_next_ok [OF 1(2), of False]
    by (subst skip_loop.simps) (auto simp: Let_def split: prod.split sum.split)
qed

lemma all_tokens_length: "length (fst (all_tokens s)) \<le> length (sc_in s)"
proof (induction s rule: all_tokens.induct)
  case (1 s)
  show ?case
  proof (cases "scan_next True s")
    case (Pair r s')
    show ?thesis
    proof (cases r)
      case (Inr tk)
      with Pair 1 [of r s' tk] scan_next_shorter [of True s tk s'] show ?thesis
        by (auto simp: all_tokens.simps [of s] split: prod.split)
    qed (simp add: all_tokens.simps [of s] Pair)
  qed
qed

text \<open>C24. Memory is bounded before anything is decoded: in whatever order a caller asks for tokens and skips values,
  at most 16 containers are open, each holds at most 4096 names, all different, no name and no token
  text is longer than 65536 bytes, and there are at most as many tokens as bytes.\<close>

theorem scan_is_bounded:
  assumes "scanned input fin s"
  shows "scanner_ok s \<and> (\<forall>tk. fst (Scanner_Next s) = Inr tk \<longrightarrow> length (tk_Text tk) \<le> MaxStringBytes) \<and>
    length (fst (all_tokens s)) \<le> length (sc_in s)"
proof -
  have "scanner_ok s" using assms
  proof induction
    case scanned_new
    show ?case by (simp add: scanner_ok_def New_Scanner_def)
  next
    case (scanned_next s)
    then show ?case using scan_next_ok [of s True] by (cases "scan_next True s") (auto simp: Scanner_Next_def)
  next
    case (scanned_skip s)
    then show ?case using scan_next_ok [of s False] skip_loop_ok
      by (auto simp: Scanner_Skip_def split: prod.splits sum.splits)
  qed
  then show ?thesis using scan_next_ok [of s True] all_tokens_length
    by (cases "scan_next True s") (auto simp: Scanner_Next_def)
qed

theorem scan_is_bounded_witness:
  "scanner_ok (snd (Scanner_Next (New_Scanner sample_text AtEOF))) \<and>
   length (sc_stack (snd (Scanner_Next (New_Scanner sample_text AtEOF)))) = 1"
  using scan_is_bounded [OF scanned_next [OF scanned_new], of sample_text AtEOF]
  by (simp add: Scanner_Next_def sample_text_def run_simps)

end
