(* ===== verification/Bounded_Skip.thy ===== *)
theory Bounded_Skip
  imports Bounded_Json
begin

text \<open>
  \<open>Skip\<close> against \<open>Next\<close>: skipping keeps no strings, but it takes the same tokens and leaves the scanner as
  reading them does.
\<close>

definition forget :: "token \<Rightarrow> token" where
  "forget tk = (if tk_Kind tk = KString then plain_token KString [] else tk)"

lemma forget_kind [simp]: "tk_Kind (forget tk) = tk_Kind tk"
  by (simp add: forget_def plain_token_def)

abbreviation forgotten :: "scan_error + token \<times> scanner \<Rightarrow> scan_error + token \<times> scanner" where
  "forgotten \<equiv> map_sum id (\<lambda>(tk, s). (forget tk, s))"

lemma map_sum_bind: "map_sum id f (bind_result r g) = bind_result r (\<lambda>x. map_sum id f (g x))"
  by (cases r) simp_all

lemma string_loop_keep: "string_loop False fin sz s = map_sum id (\<lambda>(v, t). ([], t)) (string_loop True fin sz s)"
proof (induction True fin sz s rule: string_loop.induct)
  case (2 fin sz c cs)
  show ?case
  proof (cases "string_rune fin c cs")
    case (Inr x)
    obtain w rest where x: "x = (w, rest)" by (cases x)
    show ?thesis
    proof (cases "c = CHR 0x22 \<or> sz > MaxStringBytes - length w")
      case False
      with 2 [OF _ Inr x [symmetric]]
      have "string_loop False fin (sz + length w) rest = map_sum id (\<lambda>(v, t). ([], t)) (string_loop True fin (sz + length w) rest)" by simp
      with False show ?thesis using Inr x
        by (cases "string_loop True fin (sz + length w) rest")
          (auto simp: string_loop.simps(2) [of True fin sz c cs] string_loop.simps(2) [of False fin sz c cs])
    qed (use Inr x in \<open>auto simp: string_loop.simps(2) [of True fin sz c cs] string_loop.simps(2) [of False fin sz c cs]\<close>)
  qed (simp add: string_loop.simps(2) [of True fin sz c cs] string_loop.simps(2) [of False fin sz c cs])
qed (simp add: string_loop.simps(1))

lemma scan_number_kind: "scan_number fin s = Inr (tk, t) \<Longrightarrow> tk_Kind tk = KNumber"
  by (drule scan_number_parts) auto

lemma scan_value_keep: "scan_value False s = forgotten (scan_value True s)"
proof -
  have "scan_string False (sc_end s) (sc_in s) = map_sum id (\<lambda>(v, t). ([], t)) (scan_string True (sc_end s) (sc_in s))"
    unfolding scan_string_def by (rule string_loop_keep)
  moreover have "bind_result (scan_number fin u) (\<lambda>(tk, t). Inr (tk, s\<lparr>sc_in := t\<rparr>)) =
      forgotten (bind_result (scan_number fin u) (\<lambda>(tk, t). Inr (tk, s\<lparr>sc_in := t\<rparr>)))" for fin u
    using scan_number_kind [of fin u] by (cases "scan_number fin u") (auto simp: forget_def)
  ultimately show ?thesis
    by (cases "scan_string True (sc_end s) (sc_in s)")
      (auto simp: scan_value_def Let_def map_sum_bind forget_def plain_token_def bind_result_def split: sum.splits)
qed

lemma scan_name_keep: "forgotten (scan_name s) = scan_name s"
  by (auto simp: scan_name_def Let_def forget_def plain_token_def bind_result_def split: sum.splits if_splits)

lemma scan_end_keep: "(\<lambda>(tk, s). (forget tk, s)) (scan_end s) = scan_end s"
  by (simp add: scan_end_def forget_def plain_token_def)

lemma next_from_keep: "next_from False s = forgotten (next_from True s)"
proof (induction True s rule: next_from.induct)
  case (1 s0)
  let ?s = "s0\<lparr>sc_in := skip_ws (sc_in s0)\<rparr>"
  let ?next = "set_top (\<lambda>f. f\<lparr>ct_state := 1\<rparr>) (?s\<lparr>sc_in := tl (sc_in ?s)\<rparr>)"
  show ?case
  proof (cases "sc_stack s0 \<noteq> [] \<and> ct_state (hd (sc_stack s0)) = 3 \<and> hd (sc_in ?s) = CHR '','' \<and> sc_in ?s \<noteq> []")
    case True
    then have "next_from keep s0 = next_from keep ?next" for keep by (simp add: next_from.simps [of keep s0])
    moreover have "next_from False ?next = forgotten (next_from True ?next)"
      using 1 [of ?s "hd (sc_stack s0)" "hd (sc_in ?s)"] True by simp
    ultimately show ?thesis by simp
  next
    case False
    then show ?thesis
      by (auto simp: next_from.simps [of True s0] next_from.simps [of False s0] Let_def scan_value_keep scan_name_keep
          scan_end_keep after_colon_def)
  qed
qed

lemma scan_next_keep:
  "scan_next False s = (map_sum id forget (fst (scan_next True s)), snd (scan_next True s))"
  by (auto simp: scan_next_def next_from_keep split: option.split sum.split)

section \<open>One value\<close>

definition level :: "token \<Rightarrow> int" where
  "level tk = (case tk_Kind tk of KObject \<Rightarrow> 1 | KArray \<Rightarrow> 1 | KObjectEnd \<Rightarrow> - 1 | KArrayEnd \<Rightarrow> - 1 | _ \<Rightarrow> 0)"

definition nesting :: "token list \<Rightarrow> int" where
  "nesting ts = sum_list (map level ts)"

text \<open>The tokens of one value: not a name or an end, and up to the first token that closes all it opened.\<close>

definition one_value :: "token list \<Rightarrow> bool" where
  "one_value ts \<longleftrightarrow> ts \<noteq> [] \<and> tk_Kind (hd ts) \<notin> {KName, KObjectEnd, KArrayEnd} \<and> nesting ts = 0 \<and>
     (\<forall>k. 0 < k \<and> k < length ts \<longrightarrow> nesting (take k ts) \<noteq> 0)"

lemma nesting_Cons [simp]: "nesting (tk # ts) = level tk + nesting ts" "nesting [] = 0"
  by (simp_all add: nesting_def)

lemma level_forget [simp]: "level (forget tk) = level tk"
  by (simp add: level_def)

lemma depth_level:
  "(case tk_Kind tk of KObject \<Rightarrow> depth + 1 | KArray \<Rightarrow> depth + 1
      | KObjectEnd \<Rightarrow> depth - 1 | KArrayEnd \<Rightarrow> depth - 1 | _ \<Rightarrow> depth) = depth + level tk"
  by (simp add: level_def split: kind.split)

lemma skip_loop_level:
  "skip_loop depth tk s = (if depth + level tk = 0 then (None, s)
     else case scan_next False s of (Inl e, s') \<Rightarrow> (Some e, s') | (Inr tk', s') \<Rightarrow> skip_loop (depth + level tk) tk' s')"
  by (subst skip_loop.simps) (simp only: Let_def depth_level)

lemma skip_loop_tokens:
  "skip_loop depth tk s = (None, s') \<Longrightarrow>
     \<exists>ts. all_tokens s = (ts @ fst (all_tokens s'), snd (all_tokens s')) \<and> depth + level tk + nesting ts = 0 \<and>
       (\<forall>k < length ts. depth + level tk + nesting (take k ts) \<noteq> 0)"
proof (induction depth tk s rule: skip_loop.induct)
  case (1 depth tk s)
  show ?case
  proof (cases "depth + level tk = 0")
    case True
    then have "s' = s" using 1(2) by (simp add: skip_loop_level [of depth tk s])
    with True show ?thesis by (intro exI [of _ "[]"]) simp
  next
    case False
    obtain tk' s1 where n: "scan_next True s = (Inr tk', s1)" and rest: "skip_loop (depth + level tk) (forget tk') s1 = (None, s')"
      using 1(2) False
      by (cases "scan_next True s"; cases "fst (scan_next True s)")
        (auto simp: skip_loop_level [of depth tk s] scan_next_keep)
    have "scan_next False s = (Inr (forget tk'), s1)" using n by (simp add: scan_next_keep)
    with 1(1) [OF refl, unfolded depth_level, of "Inr (forget tk')" s1 "forget tk'"] False rest obtain ts
      where ts: "all_tokens s1 = (ts @ fst (all_tokens s'), snd (all_tokens s'))" "depth + level tk + level tk' + nesting ts = 0"
        "\<forall>k < length ts. depth + level tk + level tk' + nesting (take k ts) \<noteq> 0" by auto
    show ?thesis
    proof (intro exI [of _ "tk' # ts"] conjI allI impI)
      show "all_tokens s = ((tk' # ts) @ fst (all_tokens s'), snd (all_tokens s'))"
        using ts(1) n by (simp add: all_tokens.simps [of s])
      show "depth + level tk + nesting (tk' # ts) = 0" using ts(2) by simp
      show "depth + level tk + nesting (take k (tk' # ts)) \<noteq> 0" if "k < length (tk' # ts)" for k
        using False ts(3) that by (cases k) (auto simp: add.assoc)
    qed
  qed
qed



end
