(* ===== verification/Diff_Grid.thy ===== *)
theory Diff_Grid
  imports Diff_Model
begin

text \<open>
  The edit grid of two lists. A path moves right and down, one edit each, also past the borders, and
  diagonally where the lists have a line in common. The least number of edits to the far corner is the
  distance; a path that leaves the grid, and the two halves of a shortest path, bound it.
\<close>

section \<open>Paths\<close>

inductive path :: "'a list \<Rightarrow> 'a list \<Rightarrow> nat \<Rightarrow> nat \<Rightarrow> nat \<Rightarrow> bool" for a b where
  path_start: "path a b 0 0 0"
| path_right: "path a b t x y \<Longrightarrow> path a b (Suc t) (Suc x) y"
| path_down: "path a b t x y \<Longrightarrow> path a b (Suc t) x (Suc y)"
| path_diag: "path a b t x y \<Longrightarrow> x < length a \<Longrightarrow> y < length b \<Longrightarrow> a ! x = b ! y \<Longrightarrow> path a b t (Suc x) (Suc y)"

lemma path_rights: "path a b t x y \<Longrightarrow> path a b (t + k) (x + k) y"
  by (induction k) (auto intro: path_right)

lemma path_downs: "path a b t x y \<Longrightarrow> path a b (t + k) x (y + k)"
  by (induction k) (auto intro: path_down)

lemma path_diags:
  "path a b t x y \<Longrightarrow> x + k \<le> length a \<Longrightarrow> y + k \<le> length b \<Longrightarrow> (\<forall>i < k. a ! (x + i) = b ! (y + i)) \<Longrightarrow>
     path a b t (x + k) (y + k)"
proof (induction k)
  case (Suc k)
  then have "path a b t (x + k) (y + k)" by simp
  from path_diag [OF this] Suc.prems show ?case by simp
qed simp

lemma path_parity: "path a b t x y \<Longrightarrow> even (t + x + y)"
  by (induction rule: path.induct) auto

lemma path_diagonal: "path a b t x y \<Longrightarrow> x \<le> y + t \<and> y \<le> x + t"
  by (induction rule: path.induct) auto

definition distance :: "'a list \<Rightarrow> 'a list \<Rightarrow> nat" where
  "distance a b = (LEAST t. path a b t (length a) (length b))"

lemma path_corner: "path a b (length a + length b) (length a) (length b)"
  using path_downs [OF path_rights [OF path_start, of a b "length a"], of "length b"] by simp

lemma distance_path: "path a b (distance a b) (length a) (length b)"
  unfolding distance_def using path_corner by (rule LeastI)

lemma distance_le: "path a b t (length a) (length b) \<Longrightarrow> distance a b \<le> t"
  unfolding distance_def by (rule Least_le)

text \<open>A path at or past a border can only go straight to the corner.\<close>

lemma distance_exit:
  "path a b t x y \<Longrightarrow> length a \<le> x \<or> length b \<le> y \<Longrightarrow>
     int (distance a b) + int x + int y \<le> int t + int (length a) + int (length b)"
proof (induction rule: path.induct)
  case path_start
  then show ?case using distance_le [OF path_corner, of a b] by auto
next
  case (path_right t x y)
  show ?case
  proof (cases "length a \<le> x \<or> length b \<le> y")
    case True
    with path_right.IH show ?thesis by simp
  next
    case False
    with path_right have "Suc x = length a" "y \<le> length b" by auto
    then have "path a b (Suc t + (length b - y)) (length a) (length b)"
      using path_downs [OF path.path_right [OF path_right.hyps], of "length b - y"] \<open>Suc x = length a\<close> \<open>y \<le> length b\<close> by simp
    from distance_le [OF this] \<open>Suc x = length a\<close> \<open>y \<le> length b\<close> show ?thesis by simp
  qed
next
  case (path_down t x y)
  show ?case
  proof (cases "length a \<le> x \<or> length b \<le> y")
    case True
    with path_down.IH show ?thesis by simp
  next
    case False
    with path_down have "Suc y = length b" "x \<le> length a" by auto
    then have "path a b (Suc t + (length a - x)) (length a) (length b)"
      using path_rights [OF path.path_down [OF path_down.hyps], of "length a - x"] \<open>Suc y = length b\<close> \<open>x \<le> length a\<close> by simp
    from distance_le [OF this] \<open>Suc y = length b\<close> \<open>x \<le> length a\<close> show ?thesis by simp
  qed
next
  case (path_diag t x y)
  have p: "path a b t (Suc x) (Suc y)" by (rule path.path_diag [OF path_diag.hyps])
  show ?case
  proof (cases "Suc x = length a")
    case True
    have e: "Suc y + (length b - Suc y) = length b" using path_diag.hyps by simp
    have "path a b (t + (length b - Suc y)) (length a) (length b)"
      using path_downs [OF p, of "length b - Suc y"] True unfolding e by simp
    from distance_le [OF this] True path_diag.hyps show ?thesis by simp
  next
    case False
    with path_diag have y: "Suc y = length b" by auto
    have e: "Suc x + (length a - Suc x) = length a" using path_diag.hyps by simp
    have "path a b (t + (length a - Suc x)) (length a) (length b)"
      using path_rights [OF p, of "length a - Suc x"] y unfolding e by simp
    from distance_le [OF this] y path_diag.hyps show ?thesis by simp
  qed
qed

section \<open>Reversing a path\<close>

abbreviation rpath :: "'a list \<Rightarrow> 'a list \<Rightarrow> nat \<Rightarrow> nat \<Rightarrow> nat \<Rightarrow> bool" where
  "rpath a b \<equiv> path (rev a) (rev b)"

lemma path_then_rpath:
  "path a b t x y \<Longrightarrow> x \<le> length a \<Longrightarrow> y \<le> length b \<Longrightarrow> rpath a b s (length a - x) (length b - y) \<Longrightarrow>
     rpath a b (s + t) (length a) (length b)"
proof (induction arbitrary: s rule: path.induct)
  case (path_right t x y)
  then have "rpath a b (Suc s) (length a - x) (length b - y)"
    using path.path_right [OF path_right.prems(3)] by (simp add: Suc_diff_Suc)
  from path_right.IH [OF _ _ this] path_right.prems show ?case by simp
next
  case (path_down t x y)
  then have "rpath a b (Suc s) (length a - x) (length b - y)"
    using path.path_down [OF path_down.prems(3)] by (simp add: Suc_diff_Suc)
  from path_down.IH [OF _ _ this] path_down.prems show ?case by simp
next
  case (path_diag t x y)
  then have "rpath a b s (length a - x) (length b - y)"
    using path.path_diag [OF path_diag.prems(3)] by (simp add: Suc_diff_Suc rev_nth)
  from path_diag.IH [OF _ _ this] path_diag.prems show ?case by simp
qed simp

lemma distance_rev [simp]: "distance (rev a) (rev b) = distance a b"
proof -
  have le: "distance (rev a) (rev b) \<le> distance a b" for a b :: "'a list"
    using path_then_rpath [OF distance_path, of a b 0] path_start [of "rev a" "rev b"]
      distance_le [of "rev a" "rev b"] by simp
  show ?thesis using le [of a b] le [of "rev a" "rev b"] by simp
qed

text \<open>A path through the grid and one back from the corner to the same point bound the distance.\<close>

lemma distance_split:
  assumes "path a b t x y" "x \<le> length a" "y \<le> length b" "rpath a b s (length a - x) (length b - y)"
  shows "distance a b \<le> t + s"
  using path_then_rpath [OF assms] distance_le [of "rev a" "rev b" "s + t"] by simp

text \<open>The points of a shortest path.\<close>

definition on_shortest :: "'a list \<Rightarrow> 'a list \<Rightarrow> nat \<Rightarrow> nat \<Rightarrow> nat \<Rightarrow> bool" where
  "on_shortest a b t x y \<longleftrightarrow> x \<le> length a \<and> y \<le> length b \<and> t \<le> distance a b \<and>
     path a b t x y \<and> rpath a b (distance a b - t) (length a - x) (length b - y)"

text \<open>The last edit of a path, and the common run after it.\<close>

lemma last_edit:
  "path a b t x y \<Longrightarrow> t > 0 \<Longrightarrow>
     \<exists>x' y' x0 y0 j. path a b (t - 1) x' y' \<and> ((x0, y0) = (Suc x', y') \<or> (x0, y0) = (x', Suc y')) \<and>
       x = x0 + j \<and> y = y0 + j \<and> (j > 0 \<longrightarrow> x \<le> length a \<and> y \<le> length b) \<and> (\<forall>i < j. a ! (x0 + i) = b ! (y0 + i))"
proof (induction rule: path.induct)
  case (path_right t x y)
  then show ?case by (intro exI [of _ x] exI [of _ y] exI [of _ "Suc x"] exI [of _ y] exI [of _ 0]) simp
next
  case (path_down t x y)
  then show ?case by (intro exI [of _ x] exI [of _ y] exI [of _ x] exI [of _ "Suc y"] exI [of _ 0]) simp
next
  case (path_diag t x y)
  then obtain x' y' x0 y0 j where *: "path a b (t - 1) x' y'" "(x0, y0) = (Suc x', y') \<or> (x0, y0) = (x', Suc y')"
    "x = x0 + j" "y = y0 + j" "\<forall>i < j. a ! (x0 + i) = b ! (y0 + i)" by blast
  have run: "\<forall>i < Suc j. a ! (x0 + i) = b ! (y0 + i)"
    using *(3-5) path_diag.hyps(4) by (simp add: less_Suc_eq)
  show ?case
    by (intro exI [of _ x'] exI [of _ y'] exI [of _ x0] exI [of _ y0] exI [of _ "Suc j"] conjI run *(1,2))
      (use *(3,4) path_diag.hyps(2,3) in simp_all)
qed simp

lemma rev_nth_from:
  assumes "i < x" "x \<le> length a"
  shows "rev a ! (length a - x + i) = a ! (x - Suc i)"
proof -
  have "length a - Suc (length a - x + i) = x - Suc i" using assms by linarith
  then show ?thesis using assms by (simp add: rev_nth)
qed

lemma on_shortest_pred:
  assumes "on_shortest a b (Suc t) x y"
  shows "\<exists>x' y' x0 y0 j. on_shortest a b t x' y' \<and> ((x0, y0) = (Suc x', y') \<or> (x0, y0) = (x', Suc y')) \<and>
    x = x0 + j \<and> y = y0 + j \<and> (\<forall>i < j. a ! (x0 + i) = b ! (y0 + i))"
proof -
  let ?n = "length a" and ?m = "length b" and ?D = "distance a b"
  note on = assms [unfolded on_shortest_def]
  obtain x' y' x0 y0 j where *: "path a b t x' y'" "(x0, y0) = (Suc x', y') \<or> (x0, y0) = (x', Suc y')"
    "x = x0 + j" "y = y0 + j" "\<forall>i < j. a ! (x0 + i) = b ! (y0 + i)"
    using last_edit [of a b "Suc t" x y] on unfolding diff_Suc_1 by blast
  have "rpath a b (?D - Suc t) (?n - x + j) (?m - y + j)"
  proof (rule path_diags)
    show "\<forall>i < j. rev a ! (?n - x + i) = rev b ! (?m - y + i)"
    proof (intro allI impI)
      fix i assume i: "i < j"
      have "x - Suc i = x0 + (j - Suc i)" "y - Suc i = y0 + (j - Suc i)" using i *(3,4) by linarith+
      then have "rev a ! (?n - x + i) = a ! (x0 + (j - Suc i))" "rev b ! (?m - y + i) = b ! (y0 + (j - Suc i))"
        using rev_nth_from [of i x a] rev_nth_from [of i y b] i on *(3,4) by simp_all
      moreover have "j - Suc i < j" using i by simp
      ultimately show "rev a ! (?n - x + i) = rev b ! (?m - y + i)" using *(5) by simp
    qed
  qed (use on * in auto)
  moreover have "?n - x + j = ?n - x0" "?m - y + j = ?m - y0" using on * by auto
  ultimately have r: "rpath a b (?D - Suc t) (?n - x0) (?m - y0)" by simp
  have "rpath a b (Suc (?D - Suc t)) (?n - x') (?m - y')"
    using *(2)
  proof
    assume e: "(x0, y0) = (Suc x', y')"
    then have "Suc (?n - x0) = ?n - x'" using on * by auto
    with path_right [OF r] e show ?thesis by simp
  next
    assume e: "(x0, y0) = (x', Suc y')"
    then have "Suc (?m - y0) = ?m - y'" using on * by auto
    with path_down [OF r] e show ?thesis by simp
  qed
  moreover have "Suc (?D - Suc t) = ?D - t" using on by auto
  ultimately have "on_shortest a b t x' y'" using on * by (auto simp: on_shortest_def)
  with * show ?thesis by blast
qed

lemma on_shortest_exists: "t \<le> distance a b \<Longrightarrow> \<exists>x y. on_shortest a b t x y"
proof (induction "distance a b - t" arbitrary: t)
  case 0
  then have "on_shortest a b t (length a) (length b)"
    using distance_path [of a b] path_start [of "rev a" "rev b"] by (auto simp: on_shortest_def)
  then show ?case by blast
next
  case (Suc k)
  then have "k = distance a b - Suc t" "Suc t \<le> distance a b" by linarith+
  from Suc.hyps(1) [OF this] obtain x y where "on_shortest a b (Suc t) x y" by blast
  from on_shortest_pred [OF this] show ?case by blast
qed

lemma on_shortest_rev:
  "on_shortest a b t x y \<Longrightarrow> on_shortest (rev a) (rev b) (distance a b - t) (length a - x) (length b - y)"
  by (simp add: on_shortest_def)

text \<open>The diagonals a shortest path can be on after some edits.\<close>

lemma on_shortest_diagonal:
  assumes "on_shortest a b t x y"
  shows "int x - int y \<le> int (length a) - int (length b) + int (distance a b) - int t"
    and "int (length a) - int (length b) - (int (distance a b) - int t) \<le> int x - int y"
    and "\<bar>int x - int y\<bar> \<le> int t"
proof -
  note on = assms [unfolded on_shortest_def]
  have "length a - x \<le> length b - y + (distance a b - t)" "length b - y \<le> length a - x + (distance a b - t)"
    using path_diagonal [of "rev a" "rev b"] on by blast+
  then show "int x - int y \<le> int (length a) - int (length b) + int (distance a b) - int t"
    "int (length a) - int (length b) - (int (distance a b) - int t) \<le> int x - int y"
    using on by linarith+
  show "\<bar>int x - int y\<bar> \<le> int t" using path_diagonal [of a b t x y] on by linarith
qed

lemma distance_diagonal: "\<bar>int (length a) - int (length b)\<bar> \<le> int (distance a b)"
  using path_diagonal [OF distance_path, of a b] by linarith

lemma distance_parity: "even (int (distance a b) - (int (length a) - int (length b)))"
  using path_parity [OF distance_path, of a b] by auto

section \<open>Lists that differ at both ends\<close>

definition apart :: "'a list \<Rightarrow> 'a list \<Rightarrow> bool" where
  "apart a b \<longleftrightarrow> a \<noteq> [] \<and> b \<noteq> [] \<and> hd a \<noteq> hd b \<and> last a \<noteq> last b"

lemma apart_rev: "apart a b \<Longrightarrow> apart (rev a) (rev b)"
  by (simp add: apart_def hd_rev last_rev)

lemma apart_path0:
  assumes "apart a b" "path a b 0 x y"
  shows "x = 0 \<and> y = 0"
proof -
  have "path a b t x y \<Longrightarrow> t = 0 \<Longrightarrow> x = 0 \<and> y = 0" for t x y
    by (induction rule: path.induct) (use assms(1) in \<open>auto simp: apart_def hd_conv_nth\<close>)
  with assms(2) show ?thesis by blast
qed

lemma apart_distance: "apart a b \<Longrightarrow> 2 \<le> distance a b"
proof (rule ccontr)
  assume ap: "apart a b" and "\<not> 2 \<le> distance a b"
  then consider "distance a b = 0" | "distance a b = 1" by linarith
  then show False
  proof cases
    case 1
    with distance_path [of a b] apart_path0 [OF ap] ap show False by (auto simp: apart_def)
  next
    case 2
    then have "path a b 1 (length a) (length b)" using distance_path [of a b] by simp
    note le = last_edit [OF this zero_less_one, unfolded diff_self_eq_0]
    then obtain x' y' x0 y0 j where *: "path a b 0 x' y'"
      "(x0, y0) = (Suc x', y') \<or> (x0, y0) = (x', Suc y')" "length a = x0 + j" "length b = y0 + j"
      "\<forall>i < j. a ! (x0 + i) = b ! (y0 + i)" by (elim exE conjE)
    have "x' = 0 \<and> y' = 0" using apart_path0 [OF ap *(1)] .
    show False
    proof (cases j)
      case 0
      with * \<open>x' = 0 \<and> y' = 0\<close> ap show False by (auto simp: apart_def)
    next
      case (Suc i)
      then have "a ! (length a - 1) = b ! (length b - 1)" using * by auto
      with ap show False unfolding apart_def by (metis One_nat_def last_conv_nth)
    qed
  qed
qed

end
