(* ===== verification/Diff_Bisect.thy ===== *)
theory Diff_Bisect
  imports Diff_Grid Diff_Hunks
begin

text \<open>
  Myers' bisection always finds a point. A pass keeps the furthest point of every diagonal; the bounds that
  shrink a pass leave out no diagonal a shortest path is on; the two directions meet at a point inside the
  grid that is no corner. So the recursion of \<open>diffRange\<close> is on shorter texts and ends.
\<close>

section \<open>A pass in one direction\<close>

text \<open>The two sweeps are one loop, on the texts or on their reverses; they differ in the check for a
  meeting point.\<close>

type_synonym meet = "int \<Rightarrow> int \<Rightarrow> (int \<times> int) option"

function sweep :: "meet \<Rightarrow> 'a list \<Rightarrow> 'a list \<Rightarrow> int \<Rightarrow> int \<Rightarrow> int \<Rightarrow> int list \<Rightarrow> int \<Rightarrow> int \<Rightarrow> sweep_end option" where
  "sweep chk a b vOff d k v s e =
    (if k \<le> d - e then
       Option.bind (start_x vOff d k v) (\<lambda>x0.
       Option.bind (snake a b x0 (x0 - k)) (\<lambda>(x, y).
       Option.bind (set_at v (vOff + k) x) (\<lambda>v'.
         if x > int (length a) then sweep chk a b vOff d (k + 2) v' s (e + 2)
         else if y > int (length b) then sweep chk a b vOff d (k + 2) v' (s + 2) e
         else case chk k x of
           Some (px, py) \<Rightarrow> Some (Met px py)
         | None \<Rightarrow> sweep chk a b vOff d (k + 2) v' s e)))
     else Some (Swept v s e))"
  by pat_completeness auto
termination
  by (relation "measure (\<lambda>(chk, a, b, vOff, d, k, v, s, e). nat (d - e - k + 2))") auto

declare sweep.simps [simp del]

definition forward_meet :: "int \<Rightarrow> int \<Rightarrow> int \<Rightarrow> int list \<Rightarrow> meet" where
  "forward_meet n delta vOff v2 k x =
    (case (if delta mod 2 \<noteq> 0 then at v2 (vOff + delta - k) else None) of
       Some w \<Rightarrow> if w \<noteq> - 1 \<and> x \<ge> n - w then Some (x, x - k) else None
     | None \<Rightarrow> None)"

definition reverse_meet :: "int \<Rightarrow> int \<Rightarrow> int \<Rightarrow> int list \<Rightarrow> meet" where
  "reverse_meet n delta vOff v1 k x =
    (case (if delta mod 2 = 0 then at v1 (vOff + delta - k) else None) of
       Some w \<Rightarrow> if w \<noteq> - 1 \<and> w \<ge> n - x then Some (w, w - (delta - k)) else None
     | None \<Rightarrow> None)"

lemma at_rev: "i < int (length xs) \<Longrightarrow> at xs (int (length xs) - i - 1) = at (rev xs) i"
  by (auto simp: at_def rev_nth nat_diff_distrib Suc_nat_eq_nat_zadd1 intro!: arg_cong [of _ _ "(!) xs"])

lemma snake_diagonal: "snake a b x y = Some (x', y') \<Longrightarrow> x' - y' = x - y"
proof (induction a b x y rule: snake.induct)
  case (1 a b x y)
  then show ?case by (subst (asm) (2) snake.simps) (auto split: if_splits option.splits)
qed

lemma snake_back_rev: "snake_back a b x y = snake (rev a) (rev b) x y"
proof (induction a b x y rule: snake_back.induct)
  case (1 a b x y)
  show ?case
    by (subst snake_back.simps, subst snake.simps) (use 1 in \<open>auto simp: at_rev split: option.splits\<close>)
qed

lemma forward_sweep_is:
  "forward_sweep a b vOff d w k v s e =
     sweep (forward_meet (int (length a)) (int (length a) - int (length b)) vOff w) a b vOff d k v s e"
proof (induction "nat (d - e - k + 2)" arbitrary: k v s e rule: less_induct)
  case less
  let ?sweep = "sweep (forward_meet (int (length a)) (int (length a) - int (length b)) vOff w) a b vOff d"
  show ?case
  proof (cases "k \<le> d - e")
    case True
    have IH: "forward_sweep a b vOff d w (k + 2) v' s' e' = ?sweep (k + 2) v' s' e'" if "e \<le> e'" for v' s' e'
      by (rule less) (use True that in simp)
    show ?thesis
    proof (cases "start_x vOff d k v")
      case (Some x0)
      show ?thesis
      proof (cases "snake a b x0 (x0 - k)")
        case sn: (Some p)
        obtain x y where p: "p = (x, y)" by (cases p)
        have y: "y = x - k" using snake_diagonal [of "a" "b" x0 "x0 - k" x y] sn p by simp
        show ?thesis
        proof (cases "set_at v (vOff + k) x")
          case st: (Some v')
          show ?thesis
            unfolding forward_sweep.simps [of a b vOff d w k] sweep.simps [of _ _ _ vOff d k]
            using True Some sn st unfolding p
            by (simp add: Let_def IH forward_meet_def y  split: option.split)
        qed (use True Some sn p in \<open>simp add: Let_def forward_sweep.simps [of a b vOff d w k] sweep.simps [of _ _ _ vOff d k] \<close>)
      qed (use True Some in \<open>simp add: Let_def forward_sweep.simps [of a b vOff d w k] sweep.simps [of _ _ _ vOff d k] \<close>)
    qed (use True in \<open>simp add: Let_def forward_sweep.simps [of a b vOff d w k] sweep.simps [of _ _ _ vOff d k]\<close>)
  qed (simp add: Let_def forward_sweep.simps [of a b vOff d w k] sweep.simps [of _ _ _ vOff d k])
qed

lemma reverse_sweep_is:
  "reverse_sweep a b vOff d w k v s e =
     sweep (reverse_meet (int (length a)) (int (length a) - int (length b)) vOff w) (rev a) (rev b) vOff d k v s e"
proof (induction "nat (d - e - k + 2)" arbitrary: k v s e rule: less_induct)
  case less
  let ?sweep = "sweep (reverse_meet (int (length a)) (int (length a) - int (length b)) vOff w) (rev a) (rev b) vOff d"
  show ?case
  proof (cases "k \<le> d - e")
    case True
    have IH: "reverse_sweep a b vOff d w (k + 2) v' s' e' = ?sweep (k + 2) v' s' e'" if "e \<le> e'" for v' s' e'
      by (rule less) (use True that in simp)
    show ?thesis
    proof (cases "start_x vOff d k v")
      case (Some x0)
      show ?thesis
      proof (cases "snake (rev a) (rev b) x0 (x0 - k)")
        case sn: (Some p)
        obtain x y where p: "p = (x, y)" by (cases p)
        have y: "y = x - k" using snake_diagonal [of "rev a" "rev b" x0 "x0 - k" x y] sn p by simp
        show ?thesis
        proof (cases "set_at v (vOff + k) x")
          case st: (Some v')
          show ?thesis
            unfolding reverse_sweep.simps [of a b vOff d w k] sweep.simps [of _ _ _ vOff d k]
            using True Some sn st unfolding p
            by (simp add: Let_def IH reverse_meet_def y snake_back_rev split: option.split)
        qed (use True Some sn p in \<open>simp add: Let_def reverse_sweep.simps [of a b vOff d w k] sweep.simps [of _ _ _ vOff d k] snake_back_rev\<close>)
      qed (use True Some in \<open>simp add: Let_def reverse_sweep.simps [of a b vOff d w k] sweep.simps [of _ _ _ vOff d k] snake_back_rev\<close>)
    qed (use True in \<open>simp add: Let_def reverse_sweep.simps [of a b vOff d w k] sweep.simps [of _ _ _ vOff d k]\<close>)
  qed (simp add: Let_def reverse_sweep.simps [of a b vOff d w k] sweep.simps [of _ _ _ vOff d k])
qed

section \<open>What a pass keeps\<close>

definition slot :: "nat \<Rightarrow> int list \<Rightarrow> int \<Rightarrow> int \<Rightarrow> bool" where
  "slot M v k w \<longleftrightarrow> at v (int M + k) = Some w \<and> w \<noteq> - 1"

definition attains :: "'a list \<Rightarrow> 'a list \<Rightarrow> nat \<Rightarrow> int \<Rightarrow> int \<Rightarrow> bool" where
  "attains a b t k w \<longleftrightarrow> (\<exists>u x y. u \<le> t \<and> w = int x \<and> k = int x - int y \<and> path a b u x y)"

abbreviation slant :: "'a list \<Rightarrow> 'a list \<Rightarrow> int" where
  "slant a b \<equiv> int (length a) - int (length b)"

abbreviation dist :: "'a list \<Rightarrow> 'a list \<Rightarrow> int" where
  "dist a b \<equiv> int (distance a b)"

text \<open>Before pass \<open>Suc d\<close>: the bounds only leave out diagonals no shortest path is on, and every slot is
  the end of a path; the diagonals of the last pass have entries, at least as far as a shortest path. The
  seed of the first pass is no path.\<close>

definition swept :: "'a list \<Rightarrow> 'a list \<Rightarrow> nat \<Rightarrow> nat \<Rightarrow> int list \<Rightarrow> int \<Rightarrow> int \<Rightarrow> bool" where
  "swept a b M d v s e \<longleftrightarrow> length v = 2 * M + 2 \<and> even s \<and> even e \<and> 0 \<le> s \<and> 0 \<le> e \<and>
     (e = 0 \<or> dist a b + slant a b \<le> 2 * int d - e) \<and> (s = 0 \<or> dist a b - slant a b \<le> 2 * int d - s) \<and>
     (\<forall>k w. slot M v k w \<longrightarrow> (d = 0 \<and> k = 1) \<or> attains a b d k w) \<and>
     (\<forall>k. even (k - int d) \<longrightarrow> - int d + s \<le> k \<longrightarrow> k \<le> int d - e \<longrightarrow> (\<exists>w. slot M v k w)) \<and>
     (\<forall>x y. on_shortest a b d x y \<longrightarrow> (\<exists>w. slot M v (int x - int y) w \<and> int x \<le> w))"

text \<open>Within pass \<open>Suc d\<close>, at diagonal \<open>k\<close>.\<close>

definition sweeping :: "meet \<Rightarrow> 'a list \<Rightarrow> 'a list \<Rightarrow> nat \<Rightarrow> nat \<Rightarrow> int list \<Rightarrow> int \<Rightarrow> int \<Rightarrow> int \<Rightarrow> int list \<Rightarrow> int \<Rightarrow> int \<Rightarrow> bool" where
  "sweeping chk a b M d v0 s0 e0 k v s e \<longleftrightarrow> length v = 2 * M + 2 \<and> even s \<and> even e \<and>
     even (k - int (Suc d)) \<and> - int (Suc d) + s0 \<le> k \<and> s0 \<le> s \<and> s \<le> int (Suc d) + k \<and> e0 \<le> e \<and>
     (e = 0 \<or> dist a b + slant a b \<le> 2 * int (Suc d) - e) \<and> (e = e0 \<or> dist a b + slant a b \<le> int (Suc d) + k - 4) \<and>
     (s = 0 \<or> dist a b - slant a b \<le> 2 * int (Suc d) - s) \<and>
     (\<forall>k'. odd (k' - int (Suc d)) \<longrightarrow> at v (int M + k') = at v0 (int M + k')) \<and>
     (\<forall>k' w. slot M v k' w \<longrightarrow> (d = 0 \<and> k' = 1 \<and> k \<le> 1) \<or> attains a b (Suc d) k' w) \<and>
     (\<forall>k'. even (k' - int (Suc d)) \<longrightarrow> - int (Suc d) + s0 \<le> k' \<longrightarrow> k' < k \<longrightarrow> (\<exists>w. slot M v k' w)) \<and>
     (\<forall>x y. on_shortest a b (Suc d) x y \<longrightarrow> int x - int y < k \<longrightarrow>
        (\<exists>w. slot M v (int x - int y) w \<and> int x \<le> w \<and> chk (int x - int y) w = None))"

lemma sweptD:
  assumes "swept a b M d v s e"
  shows "length v = 2 * M + 2" "even s" "even e" "0 \<le> s" "0 \<le> e"
    and "e = 0 \<or> dist a b + slant a b \<le> 2 * int d - e" "s = 0 \<or> dist a b - slant a b \<le> 2 * int d - s"
    and "\<And>k w. slot M v k w \<Longrightarrow> (d = 0 \<and> k = 1) \<or> attains a b d k w"
    and "\<And>k. even (k - int d) \<Longrightarrow> - int d + s \<le> k \<Longrightarrow> k \<le> int d - e \<Longrightarrow> \<exists>w. slot M v k w"
    and "\<And>x y. on_shortest a b d x y \<Longrightarrow> \<exists>w. slot M v (int x - int y) w \<and> int x \<le> w"
  using assms unfolding swept_def by blast+

lemma sweepingD:
  assumes "sweeping chk a b M d v0 s0 e0 k v s e"
  shows "length v = 2 * M + 2" "even s" "even e" "even (k - int (Suc d))" "- int (Suc d) + s0 \<le> k" "s0 \<le> s"
    and "s \<le> int (Suc d) + k" "e0 \<le> e"
    and "e = 0 \<or> dist a b + slant a b \<le> 2 * int (Suc d) - e" "e = e0 \<or> dist a b + slant a b \<le> int (Suc d) + k - 4"
    and "s = 0 \<or> dist a b - slant a b \<le> 2 * int (Suc d) - s"
    and "\<And>k'. odd (k' - int (Suc d)) \<Longrightarrow> at v (int M + k') = at v0 (int M + k')"
    and "\<And>k' w. slot M v k' w \<Longrightarrow> (d = 0 \<and> k' = 1 \<and> k \<le> 1) \<or> attains a b (Suc d) k' w"
    and "\<And>k'. even (k' - int (Suc d)) \<Longrightarrow> - int (Suc d) + s0 \<le> k' \<Longrightarrow> k' < k \<Longrightarrow> \<exists>w. slot M v k' w"
    and "\<And>x y. on_shortest a b (Suc d) x y \<Longrightarrow> int x - int y < k \<Longrightarrow>
        \<exists>w. slot M v (int x - int y) w \<and> int x \<le> w \<and> chk (int x - int y) w = None"
  using assms unfolding sweeping_def by blast+

section \<open>One diagonal\<close>

lemma snake_path:
  assumes "path a b t x y"
  shows "\<exists>j. snake a b (int x) (int y) = Some (int (x + j), int (y + j)) \<and> path a b t (x + j) (y + j) \<and>
    (\<forall>i. (\<forall>h < i. x + h < length a \<and> y + h < length b \<and> a ! (x + h) = b ! (y + h)) \<longrightarrow> i \<le> j)"
  using assms
proof (induction "length a - x" arbitrary: x y)
  case (0 x y)
  then have "snake a b (int x) (int y) = Some (int x, int y)" by (simp add: snake.simps)
  moreover have "i \<le> 0" if "\<forall>h < i. x + h < length a \<and> y + h < length b \<and> a ! (x + h) = b ! (y + h)" for i
    using that 0 by (cases i) auto
  ultimately show ?case using 0 by (intro exI [of _ 0]) auto
next
  case (Suc n x y)
  show ?case
  proof (cases "y < length b \<and> a ! x = b ! y")
    case True
    have x: "x < length a" using Suc.hyps(2) by simp
    have step: "snake a b (int x) (int y) = snake a b (int (Suc x)) (int (Suc y))"
      using x True by (subst snake.simps) (simp add: at_def add.commute)
    have "n = length a - Suc x" using Suc.hyps(2) by simp
    from Suc.hyps(1) [OF this path_diag [OF Suc.prems x]] True obtain j where
      j: "snake a b (int (Suc x)) (int (Suc y)) = Some (int (Suc x + j), int (Suc y + j))" "path a b t (Suc x + j) (Suc y + j)"
      "\<forall>i. (\<forall>h < i. Suc x + h < length a \<and> Suc y + h < length b \<and> a ! (Suc x + h) = b ! (Suc y + h)) \<longrightarrow> i \<le> j"
      by blast
    have "i \<le> Suc j" if *: "\<forall>h < i. x + h < length a \<and> y + h < length b \<and> a ! (x + h) = b ! (y + h)" for i
    proof (cases i)
      case (Suc i')
      have "\<forall>h < i'. Suc x + h < length a \<and> Suc y + h < length b \<and> a ! (Suc x + h) = b ! (Suc y + h)"
        using * Suc by (metis Suc_less_eq add_Suc_shift)
      with j(3) Suc show ?thesis by simp
    qed simp
    then show ?thesis using j step by (intro exI [of _ "Suc j"]) simp
  next
    case False
    have x: "x < length a" using Suc.hyps(2) by simp
    have "snake a b (int x) (int y) = Some (int x, int y)"
      using x False by (subst snake.simps) (auto simp: at_def)
    moreover have "i \<le> 0" if "\<forall>h < i. x + h < length a \<and> y + h < length b \<and> a ! (x + h) = b ! (y + h)" for i
      using that False by (cases i) auto
    ultimately show ?thesis using Suc.prems by (intro exI [of _ 0]) auto
  qed
qed

lemma at_in: "length v = 2 * M + 2 \<Longrightarrow> - int M \<le> k \<Longrightarrow> k \<le> int M + 1 \<Longrightarrow> \<exists>w. at v (int M + k) = Some w"
  by (auto simp: at_def)

lemma reachedE:
  assumes "attains a b t k w"
  obtains x y u where "w = int x" "k = int x - int y" "u \<le> t" "path a b u x y"
  using assms unfolding attains_def by blast

lemma reached_right: "attains a b d (k - 1) w \<Longrightarrow> attains a b (Suc d) k (w + 1)"
  unfolding attains_def by (elim exE conjE) (rule exI, rule exI, rule exI, rule conjI [OF _ conjI [OF _ conjI [OF _ path_right]]], auto)

lemma reached_down: "attains a b d (k + 1) w \<Longrightarrow> attains a b (Suc d) k w"
  unfolding attains_def by (elim exE conjE) (rule exI, rule exI, rule exI, rule conjI [OF _ conjI [OF _ conjI [OF _ path_down]]], auto)

lemma start_reached:
  assumes sw: "swept a b M d v0 s0 e0" and on: "sweeping chk a b M d v0 s0 e0 k v s e"
    and M: "Suc d < M" and k: "k \<le> int (Suc d) - e" and both: "s0 + e0 \<le> 2 * int d"
  shows "\<exists>x0. start_x (int M) (int (Suc d)) k v = Some x0 \<and> attains a b (Suc d) k x0 \<and>
    (\<forall>x y. on_shortest a b d x y \<longrightarrow> (int x - int y = k - 1 \<longrightarrow> int x + 1 \<le> x0) \<and> (int x - int y = k + 1 \<longrightarrow> int x \<le> x0))"
proof -
  note S = sweptD [OF sw] and W = sweepingD [OF on]
  have lo: "- int (Suc d) \<le> k" and hi: "k \<le> int (Suc d)" using W(5) W(8) S(4,5) k by linarith+
  obtain lv rv where at0: "at v0 (int M + (k - 1)) = Some lv" "at v0 (int M + (k + 1)) = Some rv"
    using at_in [OF S(1), of "k - 1"] at_in [OF S(1), of "k + 1"] lo hi M by auto
  have odd: "odd (k - 1 - int (Suc d))" "odd (k + 1 - int (Suc d))" using W(4) by simp_all
  have at: "at v (int M + (k - 1)) = Some lv" "at v (int M + (k + 1)) = Some rv"
    using W(12) [OF odd(1)] W(12) [OF odd(2)] at0 by simp_all
  have at': "at v (int M + k - 1) = Some lv" "at v (int M + k + 1) = Some rv" using at by (simp_all add: algebra_simps)
  have left: "lv = - 1 \<or> attains a b d (k - 1) lv"
    using S(8) [of "k - 1" lv] at0 hi W(4) unfolding slot_def by auto
  have right: "rv = - 1 \<or> attains a b d (k + 1) rv"
    using S(8) [of "k + 1" rv] at0 W(4) unfolding slot_def by auto
  have lset: "lv \<noteq> - 1" if "- int (Suc d) + s0 < k"
  proof -
    have "- int d + s0 \<le> k - 1"
    proof -
      have "even (k - (- int (Suc d) + s0))" using W(4) S(2) by simp
      with that have "2 \<le> k - (- int (Suc d) + s0)" by presburger
      then show ?thesis by simp
    qed
    moreover have "k - 1 \<le> int d - e0" using k W(8) by simp
    moreover have "even (k - 1 - int d)" using W(4) by simp
    ultimately show ?thesis using S(9) [of "k - 1"] at0 by (auto simp: slot_def)
  qed
  have rset: "rv \<noteq> - 1" if "k < int (Suc d) - e0"
  proof -
    have "k + 1 \<le> int d - e0"
    proof -
      have "even (int (Suc d) - e0 - k)" using W(4) S(3) by simp
      with that have "2 \<le> int (Suc d) - e0 - k" by presburger
      then show ?thesis by simp
    qed
    moreover have "- int d + s0 \<le> k + 1" using W(5) by simp
    moreover have "even (k + 1 - int d)" using W(4) by simp
    ultimately show ?thesis using S(9) [of "k + 1"] at0 by (auto simp: slot_def)
  qed
  have some: "lv \<noteq> - 1 \<or> rv \<noteq> - 1" using lset rset W(5) both by linarith
  have lge: "- 1 \<le> lv" and rge: "- 1 \<le> rv" using left right by (auto elim!: reachedE)
  have L: "int x \<le> lv" if "on_shortest a b d x y" "int x - int y = k - 1" for x y
    using S(10) [OF that(1)] that(2) at0 by (auto simp: slot_def)
  have R: "int x \<le> rv" if "on_shortest a b d x y" "int x - int y = k + 1" for x y
    using S(10) [OF that(1)] that(2) at0 by (auto simp: slot_def)
  have diag: "\<bar>int x - int y\<bar> \<le> int d" if "on_shortest a b d x y" for x y
    using on_shortest_diagonal(3) [OF that] .
  consider (low) "k = - int (Suc d)" | (high) "k \<noteq> - int (Suc d)" "k = int (Suc d)"
    | (down) "k \<noteq> - int (Suc d)" "k \<noteq> int (Suc d)" "lv < rv" | (up) "k \<noteq> - int (Suc d)" "k \<noteq> int (Suc d)" "rv \<le> lv"
    by linarith
  then show ?thesis
  proof cases
    case low
    have "rv \<noteq> - 1" using rset low both S(4) by simp
    then have "attains a b (Suc d) k rv" using right reached_down by blast
    moreover have "start_x (int M) (int (Suc d)) k v = Some rv" using low at' by (simp add: start_x_def)
    moreover have "\<not> int x - int y = k - 1" if "on_shortest a b d x y" for x y using diag [OF that] low by simp
    ultimately show ?thesis using R by blast
  next
    case high
    have "lv \<noteq> - 1" using lset high both S(5) by simp
    then have "attains a b (Suc d) k (lv + 1)" using left reached_right by blast
    moreover have "start_x (int M) (int (Suc d)) k v = Some (lv + 1)" using high at' by (simp add: start_x_def)
    moreover have "\<not> int x - int y = k + 1" if "on_shortest a b d x y" for x y using diag [OF that] high by simp
    ultimately show ?thesis using L by force
  next
    case down
    have "rv \<noteq> - 1" using down lge by simp
    then have "attains a b (Suc d) k rv" using right reached_down by blast
    moreover have "start_x (int M) (int (Suc d)) k v = Some rv" using down at' by (simp add: start_x_def Let_def)
    ultimately show ?thesis using L R down by force
  next
    case up
    have "lv \<noteq> - 1" using up some rge by auto
    then have "attains a b (Suc d) k (lv + 1)" using left reached_right by blast
    moreover have "start_x (int M) (int (Suc d)) k v = Some (lv + 1)" using up at' by (simp add: start_x_def Let_def)
    ultimately show ?thesis using L R up by force
  qed
qed

text \<open>The furthest point of a diagonal: the start and the common run from it.\<close>

lemma diagonal_reached:
  assumes sw: "swept a b M d v0 s0 e0" and on: "sweeping chk a b M d v0 s0 e0 k v s e"
    and M: "Suc d < M" and k: "k \<le> int (Suc d) - e" and both: "s0 + e0 \<le> 2 * int d"
  shows "\<exists>x0 x y u. start_x (int M) (int (Suc d)) k v = Some x0 \<and> snake a b x0 (x0 - k) = Some (int x, int y) \<and>
    u \<le> Suc d \<and> path a b u x y \<and> k = int x - int y \<and> (\<forall>p q. on_shortest a b (Suc d) p q \<longrightarrow> int p - int q = k \<longrightarrow> p \<le> x)"
proof -
  obtain x0 where st: "start_x (int M) (int (Suc d)) k v = Some x0" and re: "attains a b (Suc d) k x0"
    and far: "\<forall>x y. on_shortest a b d x y \<longrightarrow> (int x - int y = k - 1 \<longrightarrow> int x + 1 \<le> x0) \<and> (int x - int y = k + 1 \<longrightarrow> int x \<le> x0)"
    using start_reached [OF assms] by blast
  from re obtain x y u where p: "x0 = int x" "k = int x - int y" "u \<le> Suc d" "path a b u x y" by (rule reachedE)
  from snake_path [OF p(4)] obtain j where
    j: "snake a b (int x) (int y) = Some (int (x + j), int (y + j))" "path a b u (x + j) (y + j)"
    and most: "\<And>i. \<forall>h < i. x + h < length a \<and> y + h < length b \<and> a ! (x + h) = b ! (y + h) \<Longrightarrow> i \<le> j" by blast
  have "p' \<le> x + j" if o: "on_shortest a b (Suc d) p' q'" and dk: "int p' - int q' = k" for p' q'
  proof (cases "p' \<le> x")
    case False
    obtain x1 y1 x2 y2 i where i: "on_shortest a b d x1 y1" "(x2, y2) = (Suc x1, y1) \<or> (x2, y2) = (x1, Suc y1)"
      "p' = x2 + i" "q' = y2 + i" "\<forall>h < i. a ! (x2 + h) = b ! (y2 + h)" using on_shortest_pred [OF o] by blast
    have "x2 \<le> x"
      using i(2)
    proof
      assume e: "(x2, y2) = (Suc x1, y1)"
      then have "int x1 - int y1 = k - 1" using dk i(3,4) by auto
      with far i(1) p(1) e show ?thesis by force
    next
      assume e: "(x2, y2) = (x1, Suc y1)"
      then have "int x1 - int y1 = k + 1" using dk i(3,4) by auto
      with far i(1) p(1) e show ?thesis by force
    qed
    have le: "p' \<le> length a" "q' \<le> length b" using o by (auto simp: on_shortest_def)
    have "x + h < length a \<and> y + h < length b \<and> a ! (x + h) = b ! (y + h)" if h: "h < p' - x" for h
    proof -
      have y: "y = y2 + (x - x2)" "q' = y + (p' - x)" using p(2) dk i(3,4) \<open>x2 \<le> x\<close> False by linarith+
      have "x - x2 + h < i" using h i(3) \<open>x2 \<le> x\<close> by linarith
      with i(5) have "a ! (x2 + (x - x2 + h)) = b ! (y2 + (x - x2 + h))" by blast
      moreover have "x2 + (x - x2 + h) = x + h" "y2 + (x - x2 + h) = y + h" using y \<open>x2 \<le> x\<close> by linarith+
      ultimately have "a ! (x + h) = b ! (y + h)" by simp
      then show ?thesis using le y h False by auto
    qed
    then have "p' - x \<le> j" using most by blast
    with False show ?thesis by linarith
  qed simp
  moreover have "snake a b x0 (x0 - k) = Some (int (x + j), int (y + j))" using j(1) p by simp
  moreover have "k = int (x + j) - int (y + j)" using p(2) by simp
  ultimately show ?thesis using st p(3) j(2) by blast
qed

lemma set_at_in: "length v = 2 * M + 2 \<Longrightarrow> - int M \<le> k \<Longrightarrow> k \<le> int M \<Longrightarrow> \<exists>v'. set_at v (int M + k) x = Some v'"
  by (auto simp: set_at_def)

lemma at_set_at:
  "set_at v (int M + k) x = Some v' \<Longrightarrow> at v' (int M + k') = (if k' = k then Some x else at v (int M + k'))"
  by (auto simp: set_at_def at_def nth_list_update nat_eq_iff split: if_splits)

lemma entry_set_at:
  "set_at v (int M + k) x = Some v' \<Longrightarrow> slot M v' k' w \<longleftrightarrow> (if k' = k then w = x \<and> w \<noteq> - 1 else slot M v k' w)"
  by (auto simp: slot_def at_set_at)

text \<open>A path past a border is on no shortest path's diagonal.\<close>

lemma right_exit:
  assumes "path a b u x y" "u \<le> Suc d" "length a < x" "k = int x - int y"
  shows "dist a b + slant a b \<le> int (Suc d) + k - 2" "on_shortest a b (Suc d) p q \<Longrightarrow> int p - int q \<noteq> k"
  using distance_exit [OF assms(1)] assms(2-4) on_shortest_diagonal(1) [of a b "Suc d" p q] by auto

lemma down_exit:
  assumes "path a b u x y" "u \<le> Suc d" "length b < y" "k = int x - int y"
  shows "dist a b - slant a b \<le> int (Suc d) - k - 2" "on_shortest a b (Suc d) p q \<Longrightarrow> int p - int q \<noteq> k"
  using distance_exit [OF assms(1)] assms(2-4) on_shortest_diagonal(2) [of a b "Suc d" p q] by auto

lemma sweeping_next:
  assumes on: "sweeping chk a b M d v0 s0 e0 k v s e" and v': "set_at v (int M + k) (int x) = Some v'"
    and p: "u \<le> Suc d" "path a b u x y" "k = int x - int y"
    and far: "\<forall>p q. on_shortest a b (Suc d) p q \<longrightarrow> int p - int q = k \<longrightarrow> p \<le> x \<and> chk k (int x) = None"
    and s': "even s'" "s \<le> s'" "s' \<le> s + 2" "s' = 0 \<or> dist a b - slant a b \<le> 2 * int (Suc d) - s'"
    and e': "even e'" "e \<le> e'" "e' = 0 \<or> dist a b + slant a b \<le> 2 * int (Suc d) - e'"
      "e' = e \<or> dist a b + slant a b \<le> int (Suc d) + k - 2"
  shows "sweeping chk a b M d v0 s0 e0 (k + 2) v' s' e'"
proof -
  note W = sweepingD [OF on]
  have x: "int x \<noteq> - 1" by simp
  have re: "attains a b (Suc d) k (int x)" using p unfolding attains_def by blast
  have "length v' = 2 * M + 2" using v' W(1) by (auto simp: set_at_def split: if_splits)
  moreover have "even (k + 2 - int (Suc d))" using W(4) by simp
  moreover have "- int (Suc d) + s0 \<le> k + 2" "s0 \<le> s'" "s' \<le> int (Suc d) + (k + 2)" "e0 \<le> e'"
    using W(5-8) s' e' by linarith+
  moreover have "e' = e0 \<or> dist a b + slant a b \<le> int (Suc d) + (k + 2) - 4" using W(10) e'(4) by linarith
  moreover have "at v' (int M + k') = at v0 (int M + k')" if "odd (k' - int (Suc d))" for k'
    using at_set_at [OF v', of k'] W(4) W(12) [OF that] that by auto
  moreover have "(d = 0 \<and> k' = 1 \<and> k + 2 \<le> 1) \<or> attains a b (Suc d) k' w" if en: "slot M v' k' w" for k' w
  proof (cases "k' = k")
    case True
    with en entry_set_at [OF v', of k' w] re show ?thesis by simp
  next
    case False
    with en entry_set_at [OF v', of k' w] have "slot M v k' w" by simp
    from W(13) [OF this] show ?thesis
    proof
      assume seed: "d = 0 \<and> k' = 1 \<and> k \<le> 1"
      have "even (k - 1)" using W(4) seed by simp
      with seed False have "k + 2 \<le> 1" by presburger
      with seed show ?thesis by simp
    qed simp
  qed
  moreover have "\<exists>w. slot M v' k' w" if "even (k' - int (Suc d))" "- int (Suc d) + s0 \<le> k'" "k' < k + 2" for k'
  proof (cases "k' = k")
    case True
    then show ?thesis using entry_set_at [OF v', of k' "int x"] by auto
  next
    case False
    have "even (k - k')" using that(1) W(4) by presburger
    with that(3) False have "k' < k" by presburger
    from W(14) [OF that(1,2) this] False show ?thesis using entry_set_at [OF v', of k'] by auto
  qed
  moreover have "\<exists>w. slot M v' (int p - int q) w \<and> int p \<le> w \<and> chk (int p - int q) w = None"
    if o: "on_shortest a b (Suc d) p q" and less: "int p - int q < k + 2" for p q
  proof (cases "int p - int q = k")
    case True
    then show ?thesis using far o entry_set_at [OF v', of k "int x"] by (intro exI [of _ "int x"]) auto
  next
    case False
    have "even (int p - int q - int (Suc d))"
      using o path_parity [of a b "Suc d" p q] unfolding on_shortest_def by (simp add: even_add) presburger
    with W(4) less False have "int p - int q < k" by presburger
    from W(15) [OF o this] False show ?thesis using entry_set_at [OF v', of "int p - int q"] by auto
  qed
  ultimately show ?thesis unfolding sweeping_def using s' e' by blast
qed

lemma sweeping_swept:
  assumes on: "sweeping chk a b M d v0 s0 e0 k v s e" and k: "int (Suc d) - e < k" and pos: "0 \<le> s0" "0 \<le> e0"
    and e0: "d = 0 \<longrightarrow> e0 = 0"
  shows "swept a b M (Suc d) v s e"
    and "on_shortest a b (Suc d) x y \<Longrightarrow> \<exists>w. slot M v (int x - int y) w \<and> int x \<le> w \<and> chk (int x - int y) w = None"
proof -
  note W = sweepingD [OF on]
  have nn: "0 \<le> dist a b + slant a b" using distance_diagonal [of a b] by linarith
  have all: "\<exists>w. slot M v (int x - int y) w \<and> int x \<le> w \<and> chk (int x - int y) w = None" if o: "on_shortest a b (Suc d) x y" for x y
  proof -
    have "int x - int y \<le> int (Suc d) - e"
      using W(9)
    proof
      assume "e = 0"
      with on_shortest_diagonal(3) [OF o] show ?thesis by linarith
    next
      assume "dist a b + slant a b \<le> 2 * int (Suc d) - e"
      with on_shortest_diagonal(1) [OF o] show ?thesis by (simp add: algebra_simps)
    qed
    with k W(15) [OF o] show ?thesis by simp
  qed
  show "on_shortest a b (Suc d) x y \<Longrightarrow> \<exists>w. slot M v (int x - int y) w \<and> int x \<le> w \<and> chk (int x - int y) w = None"
    by (rule all)
  have sound: "attains a b (Suc d) k' w" if "slot M v k' w" for k' w
    using W(13) [OF that]
  proof
    assume seed: "d = 0 \<and> k' = 1 \<and> k \<le> 1"
    with W(10) e0 k nn show ?thesis by auto
  qed
  have "\<exists>w. slot M v k' w" if "even (k' - int (Suc d))" "- int (Suc d) + s \<le> k'" "k' \<le> int (Suc d) - e" for k'
    using W(14) [OF that(1)] that W(6) k by auto
  then show "swept a b M (Suc d) v s e"
    unfolding swept_def using W(1-3,6,8,9,11) pos sound all by force
qed

section \<open>The whole pass\<close>

definition sweep_result :: "meet \<Rightarrow> 'a list \<Rightarrow> 'a list \<Rightarrow> nat \<Rightarrow> nat \<Rightarrow> sweep_end \<Rightarrow> bool" where
  "sweep_result chk a b M d r \<longleftrightarrow>
    (case r of
       Swept v s e \<Rightarrow> swept a b M (Suc d) v s e \<and>
         (\<forall>x y. on_shortest a b (Suc d) x y \<longrightarrow>
            (\<exists>w. slot M v (int x - int y) w \<and> int x \<le> w \<and> chk (int x - int y) w = None))
     | Met px py \<Rightarrow> \<exists>x y u. chk (int x - int y) (int x) = Some (px, py) \<and> u \<le> Suc d \<and> path a b u x y \<and>
         x \<le> length a \<and> y \<le> length b \<and> even (int x - int y - int (Suc d)))"

lemma sweep_from:
  assumes sw: "swept a b M d v0 s0 e0" and M: "Suc d < M" and both: "s0 + e0 \<le> 2 * int d"
  shows "sweeping chk a b M d v0 s0 e0 k v s e \<Longrightarrow>
    \<exists>r. sweep chk a b (int M) (int (Suc d)) k v s e = Some r \<and> sweep_result chk a b M d r"
proof (induction "nat (int (Suc d) - e - k + 2)" arbitrary: k v s e rule: less_induct)
  case less
  note S = sweptD [OF sw] and W = sweepingD [OF less.prems]
  show ?case
  proof (cases "k \<le> int (Suc d) - e")
    case False
    have "0 \<le> dist a b + slant a b" using distance_diagonal [of a b] by linarith
    with S(5,6) have "d = 0 \<longrightarrow> e0 = 0" by auto
    from sweeping_swept [OF less.prems _ S(4,5) this] False
    show ?thesis by (subst sweep.simps) (simp add: sweep_result_def)
  next
    case True
    from diagonal_reached [OF sw less.prems M True both] obtain x0 x y u where
      st: "start_x (int M) (int (Suc d)) k v = Some x0" and sn: "snake a b x0 (x0 - k) = Some (int x, int y)"
      and p: "u \<le> Suc d" "path a b u x y" "k = int x - int y"
      and far: "\<And>p q. on_shortest a b (Suc d) p q \<Longrightarrow> int p - int q = k \<Longrightarrow> p \<le> x" by blast
    have range: "- int M \<le> k" "k \<le> int M" using True W(5,8) S(4,5) M by linarith+
    obtain v' where v': "set_at v (int M + k) (int x) = Some v'" using set_at_in [OF W(1) range] by blast
    have unfold: "sweep chk a b (int M) (int (Suc d)) k v s e =
       (if length a < x then sweep chk a b (int M) (int (Suc d)) (k + 2) v' s (e + 2)
        else if length b < y then sweep chk a b (int M) (int (Suc d)) (k + 2) v' (s + 2) e
        else case chk k (int x) of Some (px, py) \<Rightarrow> Some (Met px py)
          | None \<Rightarrow> sweep chk a b (int M) (int (Suc d)) (k + 2) v' s e)"
      by (subst sweep.simps) (use True st sn v' in \<open>simp add: of_nat_less_iff [symmetric] del: of_nat_less_iff\<close>)
    note step = sweeping_next [OF less.prems v' p]
    have IH: "\<exists>r. sweep chk a b (int M) (int (Suc d)) (k + 2) v' s' e' = Some r \<and> sweep_result chk a b M d r"
      if "sweeping chk a b M d v0 s0 e0 (k + 2) v' s' e'" "e \<le> e'" for s' e'
      by (rule less.hyps [OF _ that(1)]) (use True that(2) in linarith)
    consider (right) "length a < x" | (down) "\<not> length a < x" "length b < y"
      | (none) "\<not> length a < x" "\<not> length b < y" "chk k (int x) = None"
      | (met) px py where "\<not> length a < x" "\<not> length b < y" "chk k (int x) = Some (px, py)"
      by (cases "chk k (int x)") auto
    then show ?thesis
    proof cases
      case right
      note ex = right_exit [OF p(2,1) right p(3)]
      have "sweeping chk a b M d v0 s0 e0 (k + 2) v' s (e + 2)"
        by (rule step) (use W(2,3,9,11) S(5) W(8) ex True in auto)
      from IH [OF this] right show ?thesis by (simp only: unfold if_True)
    next
      case down
      note ex = down_exit [OF p(2,1) down(2) p(3)]
      have "sweeping chk a b M d v0 s0 e0 (k + 2) v' (s + 2) e"
        by (rule step) (use W(2,3,7,9,11) ex in auto)
      from IH [OF this] down show ?thesis by (simp only: unfold if_True if_False)
    next
      case none
      have "sweeping chk a b M d v0 s0 e0 (k + 2) v' s e"
        by (rule step) (use W(2,3,9,11) far none in auto)
      from IH [OF this] none show ?thesis by (simp add: unfold del: of_nat_Suc)
    next
      case met
      then have "sweep_result chk a b M d (Met px py)"
        using p W(4) unfolding sweep_result_def sweep_end.case
        by (intro exI [of _ x] exI [of _ y] exI [of _ u]) auto
      with met show ?thesis by (simp add: unfold del: of_nat_Suc)
    qed
  qed
qed

lemma sweep_ok:
  assumes sw: "swept a b M d v s e" and M: "Suc d < M" and both: "s + e \<le> 2 * int d"
  shows "\<exists>r. sweep chk a b (int M) (int (Suc d)) (- int (Suc d) + s) v s e = Some r \<and> sweep_result chk a b M d r"
proof (rule sweep_from [OF assms])
  note S = sweptD [OF sw]
  have "\<not> int x - int y < - int (Suc d) + s" if o: "on_shortest a b (Suc d) x y" for x y
    using S(7)
  proof
    assume "s = 0"
    with on_shortest_diagonal(3) [OF o] show ?thesis by linarith
  next
    assume "dist a b - slant a b \<le> 2 * int d - s"
    with on_shortest_diagonal(2) [OF o] show ?thesis by (simp add: algebra_simps)
  qed
  moreover have "attains a b (Suc d) k w" if "attains a b d k w" for k w
    using that unfolding attains_def by (metis le_SucI)
  then have "\<forall>k w. slot M v k w \<longrightarrow> (d = 0 \<and> k = 1 \<and> - int (Suc d) + s \<le> 1) \<or> attains a b (Suc d) k w"
    using S(4,5,8) both by fastforce
  moreover have "e = 0 \<or> dist a b + slant a b \<le> 2 * int (Suc d) - e" "s = 0 \<or> dist a b - slant a b \<le> 2 * int (Suc d) - s"
    using S(6,7) by auto
  ultimately show "sweeping chk a b M d v s e (- int (Suc d) + s) v s e"
    unfolding sweeping_def using S(1-5) by auto
qed

section \<open>The passes\<close>

lemma swept_bounds:
  assumes "swept a b M d v s e" "2 * int d + 1 \<le> dist a b"
  shows "s + e \<le> 2 * int d"
  using sweptD(4-7) [OF assms(1)] assms(2) distance_diagonal [of a b] by auto

lemma slant_rev [simp]: "slant (rev a) (rev b) = slant a b"
  by simp

lemma forward_meet_entry:
  "forward_meet n delta (int M) v k x = Some p \<longleftrightarrow> odd delta \<and> (\<exists>w. slot M v (delta - k) w \<and> n - w \<le> x) \<and> p = (x, x - k)"
  by (auto simp: forward_meet_def slot_def odd_iff_mod_2_eq_one algebra_simps even_iff_mod_2_eq_zero split: option.splits)

lemma reverse_meet_entry:
  "reverse_meet n delta (int M) v k x = Some p \<longleftrightarrow>
     even delta \<and> (\<exists>w. slot M v (delta - k) w \<and> n - x \<le> w \<and> p = (w, w - (delta - k)))"
  by (auto simp: reverse_meet_def slot_def even_iff_mod_2_eq_zero algebra_simps split: option.splits)

definition inside :: "'a list \<Rightarrow> 'a list \<Rightarrow> int \<Rightarrow> int \<Rightarrow> bool" where
  "inside a b x y \<longleftrightarrow> 0 \<le> x \<and> x \<le> int (length a) \<and> 0 \<le> y \<and> y \<le> int (length b) \<and>
     0 < x + y \<and> x + y < int (length a) + int (length b)"

lemma reached_corner: "attains a b t k w \<Longrightarrow> int (length a) \<le> w \<Longrightarrow> int (length b) \<le> w - k \<Longrightarrow> dist a b \<le> int t"
  using distance_exit by (fastforce elim!: reachedE)

lemma forward_inside:
  assumes R: "swept (rev a) (rev b) M d v2 s2 e2" and D: "2 * int d + 1 \<le> dist a b" "2 \<le> distance a b"
    and met: "sweep_result (forward_meet (int (length a)) (slant a b) (int M) v2) a b M d (Met px py)"
  shows "inside a b px py"
proof -
  obtain x y u w where p: "px = int x" "py = int y" "u \<le> Suc d" "path a b u x y" "x \<le> length a" "y \<le> length b"
    and delta: "odd (slant a b)" and k: "even (int x - int y - int (Suc d))"
    and w: "slot M v2 (slant a b - (int x - int y)) w" "int (length a) - w \<le> int x"
    using met unfolding sweep_result_def sweep_end.case forward_meet_entry by auto
  have re: "attains a b (Suc d) (int x - int y) (int x)" using p unfolding attains_def by blast
  have rear: "attains (rev a) (rev b) d (slant a b - (int x - int y)) w"
    using sweptD(8) [OF R w(1)]
  proof
    assume seed: "d = 0 \<and> slant a b - (int x - int y) = 1"
    with delta k have False by presburger
    then show ?thesis by blast
  qed
  have "0 < int x + int y"
  proof (rule ccontr)
    assume "\<not> 0 < int x + int y"
    then have "dist a b \<le> int d" using reached_corner [OF rear] w(2) by simp
    with D show False by simp
  qed
  moreover have "int x + int y < int (length a) + int (length b)"
  proof (rule ccontr)
    assume "\<not> int x + int y < int (length a) + int (length b)"
    with p have "x = length a" "y = length b" by linarith+
    then have "dist a b \<le> int (Suc d)" using reached_corner [OF re] by simp
    with D show False by simp
  qed
  ultimately show ?thesis using p by (simp add: inside_def)
qed

lemma forward_further:
  assumes R: "swept (rev a) (rev b) M d v2 s2 e2" and D: "2 * int d + 1 \<le> dist a b" and delta: "odd (slant a b)"
    and sw: "sweep_result (forward_meet (int (length a)) (slant a b) (int M) v2) a b M d (Swept v s e)"
  shows "2 * int (Suc d) + 1 \<le> dist a b"
proof (rule ccontr)
  assume "\<not> ?thesis"
  with D delta distance_parity [of a b] have eq: "distance a b = 2 * d + 1" by presburger
  then obtain x y where o: "on_shortest a b (Suc d) x y" using on_shortest_exists [of "Suc d" a b] by auto
  obtain w where w: "slot M v (int x - int y) w" "int x \<le> w"
    "forward_meet (int (length a)) (slant a b) (int M) v2 (int x - int y) w = None"
    using sw o unfolding sweep_result_def sweep_end.case by blast
  have "on_shortest (rev a) (rev b) d (length a - x) (length b - y)" using on_shortest_rev [OF o] eq by simp
  from sweptD(10) [OF R this] obtain w' where
    w': "slot M v2 (int (length a - x) - int (length b - y)) w'" "int (length a - x) \<le> w'" by blast
  have "x \<le> length a" "y \<le> length b" using o by (simp_all add: on_shortest_def)
  then have "int (length a - x) - int (length b - y) = slant a b - (int x - int y)" "int (length a) - w' \<le> w"
    using w'(2) w(2) by linarith+
  with w'(1) have "\<exists>p. forward_meet (int (length a)) (slant a b) (int M) v2 (int x - int y) w = Some p"
    unfolding forward_meet_entry using delta by auto
  with w(3) show False by simp
qed

lemma reverse_inside:
  assumes F: "swept a b M (Suc d) v1 s1 e1" and D: "2 * int d + 1 \<le> dist a b" "2 \<le> distance a b"
    and met: "sweep_result (reverse_meet (int (length a)) (slant a b) (int M) v1) (rev a) (rev b) M d (Met px py)"
  shows "inside a b px py"
proof -
  obtain x y u w where p: "u \<le> Suc d" "rpath a b u x y" "x \<le> length a" "y \<le> length b"
    and delta: "even (slant a b)"
    and w: "slot M v1 (slant a b - (int x - int y)) w" "int (length a) - int x \<le> w"
    and pt: "px = w" "py = w - (slant a b - (int x - int y))"
    using met unfolding sweep_result_def sweep_end.case reverse_meet_entry by auto
  have re: "attains a b (Suc d) (slant a b - (int x - int y)) w" using sweptD(8) [OF F w(1)] by simp
  then obtain x1 y1 u1 where q: "w = int x1" "slant a b - (int x - int y) = int x1 - int y1" "u1 \<le> Suc d" "path a b u1 x1 y1"
    by (rule reachedE)
  have rear: "attains (rev a) (rev b) (Suc d) (int x - int y) (int x)" using p unfolding attains_def by blast
  have D2: "2 * int (Suc d) \<le> dist a b" using D delta distance_parity [of a b] by presburger
  have xy: "\<bar>int x - int y\<bar> \<le> int (Suc d)" using path_diagonal [OF p(2)] p(1) by linarith
  have x1: "x1 \<le> length a"
  proof (rule ccontr)
    assume "\<not> x1 \<le> length a"
    with distance_exit [OF q(4)] D2 q(2,3) xy show False by simp
  qed
  have y1: "y1 \<le> length b"
  proof (rule ccontr)
    assume "\<not> y1 \<le> length b"
    with distance_exit [OF q(4)] D2 q(2,3) xy show False by simp
  qed
  have "0 < int x1 + int y1"
  proof (rule ccontr)
    assume "\<not> 0 < int x1 + int y1"
    then have "x = length a" "y = length b" using p q w by linarith+
    then have "dist a b \<le> int (Suc d)" using reached_corner [OF rear] by simp
    with D2 D(2) show False by simp
  qed
  moreover have "int x1 + int y1 < int (length a) + int (length b)"
  proof (rule ccontr)
    assume "\<not> int x1 + int y1 < int (length a) + int (length b)"
    with x1 y1 have "x1 = length a" "y1 = length b" by linarith+
    then have "dist a b \<le> int (Suc d)" using reached_corner [OF re] q by simp
    with D2 D(2) show False by simp
  qed
  ultimately show ?thesis using pt q x1 y1 by (simp add: inside_def)
qed

lemma reverse_further:
  assumes F: "swept a b M (Suc d) v1 s1 e1" and D: "2 * int d + 1 \<le> dist a b" and delta: "even (slant a b)"
    and sw: "sweep_result (reverse_meet (int (length a)) (slant a b) (int M) v1) (rev a) (rev b) M d (Swept v s e)"
  shows "2 * int (Suc d) + 1 \<le> dist a b"
proof (rule ccontr)
  assume "\<not> ?thesis"
  with D delta distance_parity [of a b] have eq: "distance a b = 2 * d + 2" by presburger
  then obtain x y where o: "on_shortest (rev a) (rev b) (Suc d) x y" using on_shortest_exists [of "Suc d" "rev a" "rev b"] by auto
  obtain w where w: "slot M v (int x - int y) w" "int x \<le> w"
    "reverse_meet (int (length a)) (slant a b) (int M) v1 (int x - int y) w = None"
    using sw o unfolding sweep_result_def sweep_end.case by blast
  have "on_shortest a b (Suc d) (length a - x) (length b - y)" using on_shortest_rev [OF o] eq by simp
  from sweptD(10) [OF F this] obtain w' where
    w': "slot M v1 (int (length a - x) - int (length b - y)) w'" "int (length a - x) \<le> w'" by blast
  have "x \<le> length a" "y \<le> length b" using o by (simp_all add: on_shortest_def)
  then have "int (length a - x) - int (length b - y) = slant a b - (int x - int y)" "int (length a) - w \<le> w'"
    using w'(2) w(2) by linarith+
  with w'(1) have "\<exists>p. reverse_meet (int (length a)) (slant a b) (int M) v1 (int x - int y) w = Some p"
    unfolding reverse_meet_entry using delta by auto
  with w(3) show False by simp
qed

lemma passes_ok:
  assumes "swept a b M d v1 s1 e1" "swept (rev a) (rev b) M d v2 s2 e2" "2 * int d + 1 \<le> dist a b"
    and "2 \<le> distance a b" "left + Suc d = M"
  shows "\<exists>r. passes left a b (int M) (int (Suc d)) v1 s1 e1 v2 s2 e2 = Some r \<and>
    (\<forall>x y. r = Some (x, y) \<longrightarrow> inside a b x y)"
  using assms
proof (induction left arbitrary: d v1 s1 e1 v2 s2 e2)
  case (Suc left)
  note D = Suc.prems(3,4)
  have M: "Suc d < M" using Suc.prems(5) by simp
  obtain r1 where r1: "forward_sweep a b (int M) (int (Suc d)) v2 (- int (Suc d) + s1) v1 s1 e1 = Some r1"
    "sweep_result (forward_meet (int (length a)) (slant a b) (int M) v2) a b M d r1"
    using sweep_ok [OF Suc.prems(1) M swept_bounds [OF Suc.prems(1) D(1)]] unfolding forward_sweep_is by blast
  show ?case
  proof (cases r1)
    case (Met x y)
    have "inside a b x y" using forward_inside [OF Suc.prems(2) D] r1(2) Met by blast
    then show ?thesis using r1(1) Met by (simp del: of_nat_Suc)
  next
    case (Swept v1' s1' e1')
    have F: "swept a b M (Suc d) v1' s1' e1'" using r1(2) Swept by (simp add: sweep_result_def)
    have "swept (rev a) (rev b) M d v2 s2 e2" "2 * int d + 1 \<le> dist (rev a) (rev b)" using Suc.prems(2) D by simp_all
    from sweep_ok [OF this(1) M swept_bounds [OF this]] obtain r2 where
      r2: "reverse_sweep a b (int M) (int (Suc d)) v1' (- int (Suc d) + s2) v2 s2 e2 = Some r2"
      "sweep_result (reverse_meet (int (length a)) (slant a b) (int M) v1') (rev a) (rev b) M d r2"
      unfolding reverse_sweep_is by blast
    show ?thesis
    proof (cases r2)
      case (Met x y)
      have "inside a b x y" using reverse_inside [OF F D] r2(2) Met by blast
      then show ?thesis using r1(1) r2(1) Swept Met by (simp del: of_nat_Suc)
    next
      case sw2: (Swept v2' s2' e2')
      have R: "swept (rev a) (rev b) M (Suc d) v2' s2' e2'" using r2(2) sw2 by (simp add: sweep_result_def)
      have "2 * int (Suc d) + 1 \<le> dist a b"
        using forward_further [OF Suc.prems(2) D(1)] reverse_further [OF F D(1)] r1(2) r2(2) Swept sw2 by blast
      from Suc.IH [OF F R this D(2)] Suc.prems(5) r1(1) r2(1) Swept sw2 show ?thesis
        by (simp add: add.commute)
    qed
  qed
qed simp

text \<open>Pass 0 writes the corner on diagonal 0, in both directions.\<close>

definition fresh :: "nat \<Rightarrow> int list" where
  "fresh M = (replicate (2 * M + 2) (- 1))[M + 1 := 0]"

definition seeded :: "nat \<Rightarrow> int list" where
  "seeded M = (fresh M)[M := 0]"

lemma length_fresh [simp]: "length (fresh M) = 2 * M + 2" "length (seeded M) = 2 * M + 2"
  unfolding fresh_def seeded_def length_list_update length_replicate by (rule refl)+

lemma nth_fresh: "i < 2 * M + 2 \<Longrightarrow> fresh M ! i = (if i = M + 1 then 0 else - 1)"
  unfolding fresh_def by (subst nth_list_update) (simp_all del: replicate_Suc add: nth_replicate)

lemma at_fresh: "at (fresh M) (int M + k) = Some w \<Longrightarrow> w \<noteq> - 1 \<Longrightarrow> w = 0"
  by (auto simp: at_def nth_fresh split: if_splits)

lemma at_seeded: "at (seeded M) (int M + k) = Some w \<Longrightarrow> w \<noteq> - 1 \<Longrightarrow> (k = 0 \<or> k = 1) \<and> w = 0"
  by (auto simp: seeded_def at_def nth_list_update nth_fresh split: if_splits)

lemma seeded_swept:
  assumes "apart a b"
  shows "swept a b M 0 (seeded M) 0 0"
proof -
  have "attains a b 0 0 0" unfolding attains_def using path_start by fastforce
  then have "\<forall>k w. slot M (seeded M) k w \<longrightarrow> (0 = (0::nat) \<and> k = 1) \<or> attains a b 0 k w"
    unfolding slot_def using at_seeded by blast
  moreover have "slot M (seeded M) 0 0" by (simp add: slot_def seeded_def at_def)
  moreover have "x = 0 \<and> y = 0" if "on_shortest a b 0 x y" for x y
    using that apart_path0 [OF assms] unfolding on_shortest_def by blast
  then have "\<exists>w. slot M (seeded M) (int x - int y) w \<and> int x \<le> w" if "on_shortest a b 0 x y" for x y
    using that \<open>slot M (seeded M) 0 0\<close> by fastforce
  ultimately show ?thesis unfolding swept_def by auto
qed

lemma apart_snake: "apart a b \<Longrightarrow> snake a b 0 0 = Some (0, 0)"
  by (subst snake.simps) (auto simp: apart_def at_def hd_conv_nth)

lemma first_sweep:
  assumes ap: "apart a b" and none: "chk 0 0 = None"
  shows "sweep chk a b (int M) 0 0 (fresh M) 0 0 = Some (Swept (seeded M) 0 0)"
proof -
  have "start_x (int M) 0 0 (fresh M) = Some 0"
    by (simp add: start_x_def at_def nat_add_distrib nth_fresh)
  moreover have "set_at (fresh M) (int M) 0 = Some (seeded M)"
    by (simp add: set_at_def seeded_def)
  ultimately show ?thesis
    by (subst sweep.simps) (use apart_snake [OF ap] none in \<open>simp add: sweep.simps [of _ _ _ _ 0 2]\<close>)
qed

lemma bisect_point_ok:
  assumes ap: "apart a b"
  shows "\<exists>r. bisect_point a b = Some r \<and> (\<forall>x y. r = Some (x, y) \<longrightarrow> inside a b x y)"
proof -
  define M where "M = (length a + length b + 1) div 2"
  let ?v = "fresh M"
  have pos: "0 < length a" "0 < length b" using ap by (auto simp: apart_def)
  have "2 \<le> length a + length b + 1" using pos by linarith
  then have "0 < M" unfolding M_def by (simp only: div_greater_zero_iff) simp
  then obtain left where left: "M = Suc left" using gr0_implies_Suc by blast
  have v: "set_at (replicate (2 * M + 2) (- 1)) (int M + 1) 0 = Some ?v"
    by (simp add: set_at_def nat_add_distrib fresh_def del: replicate_Suc)
  have none1: "forward_meet (int (length a)) (slant a b) (int M) ?v 0 0 = None"
  proof (cases "forward_meet (int (length a)) (slant a b) (int M) ?v 0 0")
    case (Some p)
    then obtain w where "slot M ?v (slant a b) w" "int (length a) \<le> w" unfolding forward_meet_entry by auto
    then have "w = 0" using at_fresh unfolding slot_def by blast
    with \<open>int (length a) \<le> w\<close> pos show ?thesis by simp
  qed simp
  have none2: "reverse_meet (int (length a)) (slant a b) (int M) (seeded M) 0 0 = None"
  proof (cases "reverse_meet (int (length a)) (slant a b) (int M) (seeded M) 0 0")
    case (Some p)
    then obtain w where "slot M (seeded M) (slant a b) w" "int (length a) \<le> w" unfolding reverse_meet_entry by auto
    then have "w = 0" using at_seeded unfolding slot_def by blast
    with \<open>int (length a) \<le> w\<close> pos show ?thesis by simp
  qed simp
  have f: "forward_sweep a b (int M) 0 ?v 0 ?v 0 0 = Some (Swept (seeded M) 0 0)"
    unfolding forward_sweep_is using first_sweep [OF ap, of "forward_meet (int (length a)) (slant a b) (int M) (fresh M)" M] none1 by blast
  have r: "reverse_sweep a b (int M) 0 (seeded M) 0 ?v 0 0 = Some (Swept (seeded M) 0 0)"
    unfolding reverse_sweep_is using first_sweep [OF apart_rev [OF ap], of "reverse_meet (int (length a)) (slant a b) (int M) (seeded M)" M] none2 by blast
  have "bisect_point a b = passes M a b (int M) 0 ?v 0 0 ?v 0 0"
    unfolding bisect_point_def Let_def M_def [symmetric] v by (simp only: bind.bind_lunit)
  also have "\<dots> = passes left a b (int M) (int (Suc 0)) (seeded M) 0 0 (seeded M) 0 0"
    unfolding left passes.simps using f r unfolding left by simp
  finally have eq: "bisect_point a b = passes left a b (int M) (int (Suc 0)) (seeded M) 0 0 (seeded M) 0 0" .
  show ?thesis
    unfolding eq
    by (rule passes_ok [OF seeded_swept [OF ap] seeded_swept [OF apart_rev [OF ap]]])
      (use apart_distance [OF ap] left in auto)
qed

section \<open>The recursion\<close>

definition total_to :: "nat \<Rightarrow> 'a differ \<Rightarrow> bool" where
  "total_to n rec \<longleftrightarrow> (\<forall>a b i j. length a + length b < n \<longrightarrow> (\<exists>ops. rec a b i j = Some ops))"

lemma bisect_total:
  assumes rec: "total_to n rec" and le: "length a + length b \<le> n" and ap: "apart a b"
  shows "\<exists>ops. bisect rec a b i j = Some ops"
proof -
  obtain r where r: "bisect_point a b = Some r" "\<forall>x y. r = Some (x, y) \<longrightarrow> inside a b x y"
    using bisect_point_ok [OF ap] by blast
  show ?thesis
  proof (cases r)
    case (Some p)
    obtain x y where p: "p = (x, y)" by (cases p)
    then have ins: "inside a b x y" using r(2) Some by simp
    have "length (take (nat x) a) + length (take (nat y) b) < n"
      "length (drop (nat x) a) + length (drop (nat y) b) < n"
      using ins le unfolding inside_def by (simp_all add: nat_less_iff) linarith+
    with rec obtain l q where "rec (take (nat x) a) (take (nat y) b) i j = Some l"
      "rec (drop (nat x) a) (drop (nat y) b) (i + x) (j + y) = Some q" unfolding total_to_def by meson
    then show ?thesis using r(1) Some p ins by (auto simp: bisect_def split_at_def inside_def)
  qed (use r(1) in \<open>simp add: bisect_def\<close>)
qed

lemma common_prefix_most:
  "common_prefix xs ys < length xs \<Longrightarrow> common_prefix xs ys < length ys \<Longrightarrow>
     hd (drop (common_prefix xs ys) xs) \<noteq> hd (drop (common_prefix xs ys) ys)"
  by (induction xs ys rule: common_prefix.induct) auto

lemma last_take_rev:
  assumes "k < length xs"
  shows "last (take (length xs - k) xs) = hd (drop k (rev xs))"
proof -
  have "take (length xs - k) xs = rev (drop k (rev xs))" by (simp add: rev_drop)
  moreover have "drop k (rev xs) \<noteq> []" using assms by simp
  ultimately show ?thesis by (simp only: last_rev)
qed

lemma diff_step_total:
  assumes rec: "total_to n rec"
  shows "total_to (Suc n) (diff_step rec)"
  unfolding total_to_def
proof (intro allI impI)
  fix a b :: "'a list" and i j
  assume n: "length a + length b < Suc n"
  define k where "k = common_prefix a b"
  define a1 b1 where "a1 = drop k a" and "b1 = drop k b"
  define e where "e = common_prefix (rev a1) (rev b1)"
  define a2 b2 where "a2 = take (length a1 - e) a1" and "b2 = take (length b1 - e) b1"
  have "\<exists>mid. diff_middle rec a2 b2 (i + int k) (j + int k) = Some mid"
  proof (cases "a2 = [] \<or> b2 = []")
    case False
    then have ne: "a1 \<noteq> []" "b1 \<noteq> []" "e < length a1" "e < length b1" by (auto simp: a2_def b2_def)
    then have "k < length a" "k < length b" by (auto simp: a1_def b1_def)
    then have "hd a1 \<noteq> hd b1" using common_prefix_most [of a b] by (simp add: a1_def b1_def k_def)
    then have "hd a2 \<noteq> hd b2" using ne by (simp add: a2_def b2_def hd_take)
    moreover have "last a2 \<noteq> last b2"
      using common_prefix_most [of "rev a1" "rev b1"] ne by (simp add: a2_def b2_def last_take_rev e_def)
    ultimately have ap: "apart a2 b2" using False by (simp add: apart_def)
    have "length a2 + length b2 \<le> n" using n by (simp add: a2_def b2_def a1_def b1_def)
    from bisect_total [OF rec this ap] False show ?thesis by (simp add: diff_middle_def)
  qed (auto simp: diff_middle_def)
  then show "\<exists>ops. diff_step rec a b i j = Some ops"
    unfolding diff_step_def Let_def k_def [symmetric] a1_def [symmetric] b1_def [symmetric] e_def [symmetric]
      a2_def [symmetric] b2_def [symmetric] by auto
qed

lemma diffRange_total: "total_to n (diffRange n)"
  by (induction n) (simp add: total_to_def, simp add: diff_step_total)

lemma diffOps_total: "\<exists>ops. diffOps a b = Some ops"
  using diffRange_total [of "length a + length b + 1"] unfolding total_to_def diffOps_def by fastforce

section \<open>The diff of two texts\<close>

lemma walks_counts:
  "walks a b i j ls i' j' \<Longrightarrow>
     int i' - int i = count_kind opEqual ls + count_kind opDelete ls \<and>
     int j' - int j = count_kind opEqual ls + count_kind opInsert ls"
proof (induction a b i j ls i' j' rule: walks.induct)
  case (2 a b i j k ai bi ls i' j')
  show ?case
  proof (cases k)
    case opEqual
    with 2 have "walks a b (Suc i) (Suc j) ls i' j'" by simp
    from "2.IH"(1) [OF opEqual this] opEqual show ?thesis by (simp add: count_kind_def)
  next
    case opDelete
    with 2 have "walks a b (Suc i) j ls i' j'" by simp
    from "2.IH"(2) [OF opDelete this] opDelete show ?thesis by (simp add: count_kind_def)
  next
    case opInsert
    with 2 have "walks a b i (Suc j) ls i' j'" by simp
    from "2.IH"(3) [OF opInsert this] opInsert show ?thesis by (simp add: count_kind_def)
  qed
qed (simp add: count_kind_def)

text \<open>C33. A diff never panics and always ends. Within the limit on lines its hunks, applied as a patch to
  the text before, give the text after, and the lines added and removed account for the difference in
  length; over the limit there are no hunks and \<open>ok\<close> is false.\<close>

theorem Diff_patches:
  "\<exists>hs additions deletions.
     Diff before after =
       (if length (Lines before) > MaxDiffLines \<or> length (Lines after) > MaxDiffLines then Some ([], 0, 0, False)
        else Some (hs, additions, deletions, True)) \<and>
     apply_hunks (Lines before) 0 0 hs = Some (Lines after) \<and>
     0 \<le> additions \<and> additions \<le> int (length (Lines after)) \<and>
     0 \<le> deletions \<and> deletions \<le> int (length (Lines before)) \<and>
     int (length (Lines before)) + additions = int (length (Lines after)) + deletions"
proof -
  let ?a = "Lines before" and ?b = "Lines after"
  obtain ops where ops: "diffOps ?a ?b = Some ops" using diffOps_total by blast
  note sc = diffOps_script [OF ops]
  have "0 < Context" by (simp add: Context_def)
  from hunksOf_apply [OF sc this] obtain hs where
    hs: "hunksOf ?a ?b ops Context = Some (hs, count_kind opInsert (expand ops), count_kind opDelete (expand ops))"
    "apply_hunks ?a 0 0 hs = Some ?b" by blast
  have nn: "0 \<le> count_kind k (expand ops)" for k by (simp add: count_kind_def)
  have "int (length ?a) = count_kind opEqual (expand ops) + count_kind opDelete (expand ops)"
    "int (length ?b) = count_kind opEqual (expand ops) + count_kind opInsert (expand ops)"
    using walks_counts [OF walks_expand [OF sc]] by simp_all
  with nn [of opEqual] nn [of opInsert] nn [of opDelete] ops hs show ?thesis
    by (intro exI [of _ hs] exI [of _ "count_kind opInsert (expand ops)"] exI [of _ "count_kind opDelete (expand ops)"])
      (simp add: Diff_def)
qed

end
