(* ===== verification/Session_View.thy ===== *)
theory Session_View
  imports Session_Data Change_Record
begin

text \<open>
  The view document of \<^verbatim>\<open>pkg/sessionview/sessionview.go\<close>, as the judge reads it: the fold of a
  conversation as trees of nodes. A Go node holds its children by value, so a node here is its own fields
  with the list of its children. A struct embedded in another is a field of it.
\<close>

section \<open>The parts of a document\<close>

record view_head =
  vh_Round :: u64
  vh_Digest :: string

record summary =
  sm_Title :: string
  sm_State :: string
  sm_Problems :: "string list"
  sm_Talks :: int
  sm_Steps :: int
  sm_Streams :: int
  sm_Segments :: int
  sm_Rounds :: int
  sm_Unresolved :: int
  sm_Changes :: int
  sm_ProviderBodies :: int
  sm_CapturedPrompts :: int
  sm_From :: int
  sm_To :: int
  sm_Kinds :: "string \<rightharpoonup> int"
  sm_RelationTypes :: "string \<rightharpoonup> int"
  sm_Quality :: "string \<rightharpoonup> int"
  sm_Withheld :: "string \<rightharpoonup> int"

record view_round =
  vr_Round :: u64
  vr_Digest :: string
  vr_Previous :: "string option"
  vr_FromSeq :: u64
  vr_ThroughSeq :: u64
  vr_InputDigest :: string
  vr_FromTime :: "int option"
  vr_ThroughTime :: "int option"
  vr_Verified :: bool

record view_file =
  vf_File :: string
  vf_Format :: string
  vf_Kind :: string
  vf_Seq :: "u64 option"
  vf_Round :: "u64 option"
  vf_Stream :: "string option"
  vf_Run :: "string option"
  vf_Lines :: int
  vf_Bytes :: int
  vf_Digest :: string
  vf_FromTime :: "int option"
  vf_ThroughTime :: "int option"
  vf_State :: string

record origin =
  or_Step :: string
  or_Stream :: string
  or_Talk :: string
  or_Quality :: string

record view_stream =
  vs_ID :: string
  vs_Name :: string
  vs_Role :: string
  vs_Label :: string
  vs_Parent :: string
  vs_Records :: int
  vs_Steps :: int
  vs_Talk :: string
  vs_NamedBy :: string
  vs_OpenedBy :: "origin list"

record view_segment =
  sg_ID :: string
  sg_Talks :: int
  sg_From :: int
  sg_To :: int

record view_relation =
  vl_ID :: string
  vl_Type :: string
  vl_From :: string
  vl_To :: string
  vl_Quality :: string
  vl_Via :: string
  vl_Evidence :: "ref list"

record view_unresolved =
  vu_ID :: string
  vu_Kind :: string
  vu_Ref :: string
  vu_Reason :: string
  vu_State :: string

record workspace_change =
  wc_Step :: string
  wc_Ref :: ref
  wc_State :: string
  wc_Record :: change_record

record tool_execution =
  te_Step :: string
  te_Ref :: ref
  te_State :: string
  te_Record :: exec_record

record body_ref =
  br_Role :: string
  br_Ref :: ref

record edge =
  ed_Type :: string
  ed_Other :: string
  ed_Dir :: string
  ed_Quality :: string
  ed_Via :: string
  ed_ID :: string

section \<open>Nodes\<close>

record node_info =
  nd_ID :: string
  nd_Kind :: string
  nd_Parent :: string
  nd_Stream :: string
  nd_At :: int
  nd_Ref :: "ref option"
  nd_Refs :: "ref list"
  nd_Attrs :: string
  nd_Text :: string
  nd_State :: string
  nd_Bytes :: int
  nd_Usage :: "usage option"
  nd_Flags :: "string list"
  nd_Dropped :: "drop_note list"
  nd_Model :: string
  nd_Label :: string
  nd_Reply :: string
  nd_Runs :: int
  nd_Steps :: int
  nd_Tools :: int
  nd_From :: int
  nd_To :: int
  nd_Child :: bool
  nd_Segment :: string
  nd_Name :: string
  nd_Failed :: "bool option"
  nd_Result :: string
  nd_ResultState :: string
  nd_ResultBytes :: int
  nd_RequestToResultMS :: int
  nd_RequestToResultBy :: string
  nd_DurationMS :: int
  nd_DurationHow :: string
  nd_Changes :: "string list"
  nd_Executions :: "string list"
  nd_ProviderBodies :: "body_ref list"
  nd_Edges :: "edge list"

datatype view_node = View_Node (info: node_info) (children: "view_node list")

text \<open>The nodes of a tree in the order the document lists them, the node itself first.\<close>

fun tree_nodes :: "view_node \<Rightarrow> node_info list" where
  "tree_nodes (View_Node i cs) = i # concat (map tree_nodes cs)"

record conversation =
  cv_Format :: string
  cv_Version :: string
  cv_Conversation :: string
  cv_Sessions :: "string list"
  cv_Head :: view_head
  cv_Parser :: string
  cv_Policy :: string
  cv_Summary :: summary
  cv_Rounds :: "view_round list"
  cv_Files :: "view_file list"
  cv_Streams :: "view_stream list"
  cv_Segments :: "view_segment list"
  cv_Talks :: "view_node list"
  cv_Loose :: "view_node list"
  cv_Relations :: "view_relation list"
  cv_Unresolved :: "view_unresolved list"
  cv_WorkspaceChanges :: "workspace_change list"
  cv_ToolExecutions :: "tool_execution list"

section \<open>Node kinds and relations\<close>

text \<open>The names of \<^verbatim>\<open>pkg/model/model.go\<close> that the judge asks for.\<close>

definition KindConversation :: string where "KindConversation = ''conversation''"
definition KindSegment :: string where "KindSegment = ''segment''"
definition KindSession :: string where "KindSession = ''session''"
definition KindStream :: string where "KindStream = ''stream''"
definition KindEpoch :: string where "KindEpoch = ''epoch''"
definition KindTalk :: string where "KindTalk = ''talk''"
definition KindRun :: string where "KindRun = ''run''"
definition KindMessageAssistant :: string where "KindMessageAssistant = ''message.assistant''"
definition KindLLMCall :: string where "KindLLMCall = ''llm.call''"
definition KindTool :: string where "KindTool = ''tool''"
definition KindAgentCall :: string where "KindAgentCall = ''agent.call''"
definition RelStarts :: string where "RelStarts = ''starts''"

end
