(* ===== verification/Judge_Pricing.thy ===== *)
theory Judge_Pricing
  imports Go_Sort
begin

text \<open>
  The price file of \<^verbatim>\<open>internal/judge/pricing.go\<close>: its index by recorded name, the lookup of the
  price a call pays, and the price file made again from the prices a ledger applied. A \<open>time.Time\<close> is the
  number of nanoseconds since the start of the year 1 in UTC, zero the zero time; \<open>time.Parse\<close> is the
  parameter \<open>parse\<close>. A rate is a \<open>float64\<close>, which the file only carries: its type is a parameter.
\<close>

section \<open>Prices\<close>

type_synonym instant = int

definition UnixMilli :: "int \<Rightarrow> instant" where
  "UnixMilli at = at * 1000000 + 62135596800 * 1000000000"

record 'f Rates =
  rt_In :: 'f
  rt_Out :: 'f
  rt_CacheRead :: 'f
  rt_CacheWrite :: 'f

record 'f Price =
  pr_T :: string
  pr_Model :: string
  pr_Key :: string
  pr_From :: string
  pr_Currency :: string
  pr_PerMillion :: "'f Rates"

record 'f PricingEntry =
  pe_Model :: string
  pe_Aliases :: "string list"
  pe_From :: string
  pe_PerMillion :: "'f Rates"
  pe_from :: instant

record 'f Pricing =
  pg_Currency :: string
  pg_Models :: "'f PricingEntry list"
  pg_byName :: "string \<Rightarrow> 'f PricingEntry list"

section \<open>The index\<close>

datatype pricing_error =
    No_Currency | Names_No_Model nat | Bad_From string | Two_Entries string string | Names_Both string string string
  | Two_Currencies string string

text \<open>What the loop over the entries has built: who owns a name, and the entries of each name.\<close>

type_synonym 'f naming = "(string \<rightharpoonup> string) \<times> (string \<Rightarrow> 'f PricingEntry list)"

fun index_names :: "'f PricingEntry \<Rightarrow> string list \<Rightarrow> 'f naming \<Rightarrow> pricing_error + 'f naming" where
  "index_names e [] st = Inr st"
| "index_names e (name # names) (owner, by) =
    (if owner name \<noteq> None \<and> owner name \<noteq> Some (pe_Model e) then Inl (Names_Both name (the (owner name)) (pe_Model e))
     else index_names e names (owner(name \<mapsto> pe_Model e), by(name := by name @ [e])))"

definition entry_key :: "'f PricingEntry \<Rightarrow> string" where
  "entry_key e = pe_Model e @ [CHR 0x00] @ pe_From e"

text \<open>An entry with its time, or the error of \<open>time.Parse\<close>.\<close>

definition dated :: "(string \<Rightarrow> instant option) \<Rightarrow> 'f PricingEntry \<Rightarrow> pricing_error + 'f PricingEntry" where
  "dated parse e =
    (if pe_From e = [] then Inr e
     else case parse (pe_From e) of None \<Rightarrow> Inl (Bad_From (pe_Model e)) | Some t \<Rightarrow> Inr (e\<lparr>pe_from := t\<rparr>))"

fun index_entries :: "(string \<Rightarrow> instant option) \<Rightarrow> nat \<Rightarrow> string set \<Rightarrow> 'f naming \<Rightarrow> 'f PricingEntry list \<Rightarrow>
    pricing_error + ('f PricingEntry list \<times> 'f naming)" where
  "index_entries parse i seen st [] = Inr ([], st)"
| "index_entries parse i seen st (e0 # es) =
    (if pe_Model e0 = [] then Inl (Names_No_Model (i + 1))
     else bind_result (dated parse e0) (\<lambda>e.
       if entry_key e \<in> seen then Inl (Two_Entries (pe_Model e) (pe_From e))
       else bind_result (index_names e (pe_Model e # pe_Aliases e) st) (\<lambda>st'.
         bind_result (index_entries parse (i + 1) (insert (entry_key e) seen) st' es) (\<lambda>(es', st'').
           Inr (e # es', st'')))))"

text \<open>Dated entries latest first, then the undated one.\<close>

definition later_entry :: "'f PricingEntry \<Rightarrow> 'f PricingEntry \<Rightarrow> bool" where
  "later_entry a b =
    (if (pe_from a = 0) \<noteq> (pe_from b = 0) then pe_from a \<noteq> 0 else pe_from a > pe_from b)"

definition index_pricing :: "(string \<Rightarrow> instant option) \<Rightarrow> 'f Pricing \<Rightarrow> pricing_error + 'f Pricing" where
  "index_pricing parse p =
    (if pg_Currency p = [] then Inl No_Currency
     else bind_result (index_entries parse 0 {} (Map.empty, \<lambda>_. []) (pg_Models p)) (\<lambda>(es, _, by).
       Inr (p\<lparr>pg_Models := es, pg_byName := \<lambda>name. sort_by later_entry (by name)\<rparr>)))"

section \<open>The price of a call\<close>

definition applies_at :: "int \<Rightarrow> 'f PricingEntry \<Rightarrow> bool" where
  "applies_at at e \<longleftrightarrow> pe_from e = 0 \<or> at \<noteq> 0 \<and> \<not> UnixMilli at < pe_from e"

definition Pricing_Lookup :: "'f Pricing option \<Rightarrow> string \<Rightarrow> int \<Rightarrow> 'f Price option" where
  "Pricing_Lookup p model at =
    (case p of
       None \<Rightarrow> None
     | Some q \<Rightarrow>
         if model = [] then None
         else map_option (\<lambda>e. \<lparr>pr_T = [], pr_Model = model, pr_Key = pe_Model e, pr_From = pe_From e,
             pr_Currency = pg_Currency q, pr_PerMillion = pe_PerMillion e\<rparr>)
           (find (applies_at at) (pg_byName q model)))"

section \<open>The price file of a ledger\<close>

text \<open>Over the prices a ledger stage applied.\<close>

definition PricingOf :: "(string \<Rightarrow> instant option) \<Rightarrow> 'f Price list \<Rightarrow> pricing_error + 'f Pricing option" where
  "PricingOf parse prices =
    (case prices of
       [] \<Rightarrow> Inr None
     | p # _ \<Rightarrow>
        (case find (\<lambda>q. pr_Currency q \<noteq> pr_Currency p) prices of
           Some q \<Rightarrow> Inl (Two_Currencies (pr_Currency p) (pr_Currency q))
         | None \<Rightarrow>
             bind_result (index_pricing parse \<lparr>pg_Currency = pr_Currency p,
                 pg_Models = map (\<lambda>q. \<lparr>pe_Model = pr_Model q, pe_Aliases = [], pe_From = pr_From q,
                   pe_PerMillion = pr_PerMillion q, pe_from = 0\<rparr>) prices,
                 pg_byName = \<lambda>_. []\<rparr>) (\<lambda>q. Inr (Some q))))"


text \<open>\<open>notePrice\<close> of \<^verbatim>\<open>ledger.go\<close>, and the prices it leaves after some calls were priced.\<close>

definition note_price :: "'f Price list \<Rightarrow> 'f Price \<Rightarrow> 'f Price list" where
  "note_price ps p =
    (if \<exists>q \<in> set ps. pr_Model q = pr_Model p \<and> pr_Key q = pr_Key p \<and> pr_From q = pr_From p then ps else ps @ [p])"

definition applied_prices :: "'f Pricing option \<Rightarrow> (string \<times> int) list \<Rightarrow> 'f Price list" where
  "applied_prices q calls =
    foldl (\<lambda>ps (model, at). case Pricing_Lookup q model at of None \<Rightarrow> ps | Some p \<Rightarrow> note_price ps p) [] calls"

section \<open>The first entry that applies\<close>

lemma later_weak: "weak_less later_entry UNIV"
  by unfold_locales (auto simp: later_entry_def split: if_splits)

interpretation later: weak_less later_entry UNIV
  by (rule later_weak)

lemma not_later_both: "\<not> later_entry a b \<Longrightarrow> \<not> later_entry b a \<Longrightarrow> pe_from a = pe_from b"
  by (auto simp: later_entry_def split: if_splits)

lemma filter_insert_by:
  "(\<And>x y. P x \<Longrightarrow> P y \<Longrightarrow> \<not> lt y x) \<Longrightarrow>
     filter P (insert_by lt x xs) = (if P x then x # filter P xs else filter P xs)"
  by (induction xs) auto

lemma filter_sort_by:
  "(\<And>x y. P x \<Longrightarrow> P y \<Longrightarrow> \<not> lt y x) \<Longrightarrow> filter P (sort_by lt xs) = filter P xs"
  by (induction xs) (simp_all add: filter_insert_by)

definition first_of_time :: "'f PricingEntry list \<Rightarrow> 'f PricingEntry \<Rightarrow> bool" where
  "first_of_time xs e \<longleftrightarrow> (\<exists>ys. filter (\<lambda>x. pe_from x = pe_from e) xs = e # ys)"

definition best_at :: "int \<Rightarrow> 'f PricingEntry list \<Rightarrow> 'f PricingEntry \<Rightarrow> bool" where
  "best_at at xs e \<longleftrightarrow> e \<in> set xs \<and> applies_at at e \<and> (\<forall>e' \<in> set xs. applies_at at e' \<longrightarrow> \<not> later_entry e' e) \<and>
     first_of_time xs e"

lemma applies_time: "pe_from a = pe_from b \<Longrightarrow> applies_at at a = applies_at at b"
  by (simp add: applies_at_def)

lemma find_split: "find P xs = Some x \<Longrightarrow> \<exists>ys zs. xs = ys @ x # zs \<and> P x \<and> (\<forall>y \<in> set ys. \<not> P y)"
  by (induction xs) (force split: if_splits intro: exI [of _ "[]"] exI [of _ "_ # _"] simp: Cons_eq_append_conv)+

lemma pick_best:
  assumes "find (applies_at at) (sort_by later_entry xs) = Some e"
  shows "best_at at xs e"
proof -
  obtain ys zs where s: "sort_by later_entry xs = ys @ e # zs" "applies_at at e" "\<forall>y \<in> set ys. \<not> applies_at at y"
    using find_split [OF assms] by blast
  have set: "set xs = set (ys @ e # zs)" using s(1) set_sort_by by metis
  have "sorted_by later_entry (ys @ e # zs)" using later.sorted_sort_by [of xs] s(1) by simp
  then have "\<forall>z \<in> set zs. \<not> later_entry z e" by (induction ys) auto
  moreover have "\<not> later_entry e e" by (simp add: later_entry_def)
  ultimately have best: "\<forall>e' \<in> set xs. applies_at at e' \<longrightarrow> \<not> later_entry e' e"
    using s(3) set by auto
  have "filter (\<lambda>x. pe_from x = pe_from e) (sort_by later_entry xs) = filter (\<lambda>x. pe_from x = pe_from e) xs"
    by (rule filter_sort_by) (simp add: later_entry_def)
  moreover have "filter (\<lambda>x. pe_from x = pe_from e) ys = []"
    using s(2,3) applies_time by (auto simp: filter_empty_conv)
  ultimately have "filter (\<lambda>x. pe_from x = pe_from e) xs = e # filter (\<lambda>x. pe_from x = pe_from e) zs"
    using s(1) by simp
  then have "first_of_time xs e" unfolding first_of_time_def by blast
  with set s(2) best show ?thesis by (auto simp: best_at_def)
qed

lemma best_unique:
  assumes "best_at at xs e" "best_at at xs e'"
  shows "e = e'"
proof -
  have "pe_from e = pe_from e'"
    by (rule not_later_both) (use assms in \<open>unfold best_at_def, blast+\<close>)
  moreover obtain ys zs where "filter (\<lambda>x. pe_from x = pe_from e) xs = e # ys" "filter (\<lambda>x. pe_from x = pe_from e') xs = e' # zs"
    using assms unfolding best_at_def first_of_time_def by blast
  ultimately show ?thesis by (metis list.inject)
qed

lemma pick_iff: "find (applies_at at) (sort_by later_entry xs) = Some e \<longleftrightarrow> best_at at xs e"
proof
  assume b: "best_at at xs e"
  then have "find (applies_at at) (sort_by later_entry xs) \<noteq> None"
    by (auto simp: find_None_iff best_at_def)
  then obtain e' where e': "find (applies_at at) (sort_by later_entry xs) = Some e'" by blast
  with pick_best [OF e'] b show "find (applies_at at) (sort_by later_entry xs) = Some e"
    using best_unique by blast
qed (rule pick_best)

lemma pick_None: "find (applies_at at) (sort_by later_entry xs) = None \<longleftrightarrow> (\<forall>e \<in> set xs. \<not> applies_at at e)"
  by (auto simp: find_None_iff)

section \<open>What the index holds\<close>

definition names_model :: "'f PricingEntry \<Rightarrow> string \<Rightarrow> bool" where
  "names_model e n \<longleftrightarrow> n = pe_Model e \<or> n \<in> set (pe_Aliases e)"

definition with_time :: "(string \<Rightarrow> instant option) \<Rightarrow> 'f PricingEntry \<Rightarrow> 'f PricingEntry" where
  "with_time parse e = (if pe_From e = [] then e else e\<lparr>pe_from := the (parse (pe_From e))\<rparr>)"

lemma with_time_simps [simp]:
  "pe_Model (with_time parse e) = pe_Model e" "pe_Aliases (with_time parse e) = pe_Aliases e"
  "pe_From (with_time parse e) = pe_From e" "pe_PerMillion (with_time parse e) = pe_PerMillion e"
  "names_model (with_time parse e) = names_model e" "entry_key (with_time parse e) = entry_key e"
  by (auto simp: with_time_def names_model_def entry_key_def)

lemma dated_Inr_iff:
  "dated parse e = Inr e' \<longleftrightarrow> e' = with_time parse e \<and> (pe_From e = [] \<or> parse (pe_From e) \<noteq> None)"
  by (auto simp: dated_def with_time_def split: option.splits)

definition times_named :: "string \<Rightarrow> 'f PricingEntry \<Rightarrow> 'f PricingEntry list" where
  "times_named n e = map (\<lambda>_. e) (filter ((=) n) (pe_Model e # pe_Aliases e))"

lemma set_times_named: "set (times_named n e) = (if names_model e n then {e} else {})"
  by (auto simp: times_named_def names_model_def)

lemma index_names_Inr:
  "index_names e names (owner, by) = Inr (owner', by') \<Longrightarrow>
     owner' = (\<lambda>n. if n \<in> set names then Some (pe_Model e) else owner n) \<and>
     by' = (\<lambda>n. by n @ map (\<lambda>_. e) (filter ((=) n) names)) \<and>
     (\<forall>n \<in> set names. owner n = None \<or> owner n = Some (pe_Model e))"
proof (induction names arbitrary: owner "by")
  case (Cons name names)
  then have ok: "owner name = None \<or> owner name = Some (pe_Model e)"
    and rest: "index_names e names (owner(name \<mapsto> pe_Model e), by(name := by name @ [e])) = Inr (owner', by')"
    by (auto split: if_splits)
  from Cons.IH [OF rest] ok show ?case by (auto simp: fun_eq_iff split: if_splits)
qed auto

lemma index_entries_Inr:
  "index_entries parse i seen (owner, by) es = Inr (es', owner', by') \<Longrightarrow>
     es' = map (with_time parse) es \<and> by' = (\<lambda>n. by n @ concat (map (times_named n) es')) \<and>
     (\<forall>n m. owner n = Some m \<longrightarrow> owner' n = Some m) \<and>
     (\<forall>e \<in> set es'. \<forall>n. names_model e n \<longrightarrow> owner' n = Some (pe_Model e)) \<and>
     (\<forall>e \<in> set es'. pe_Model e \<noteq> [] \<and> (pe_From e = [] \<or> parse (pe_From e) \<noteq> None)) \<and>
     distinct (map entry_key es') \<and> (\<forall>e \<in> set es'. entry_key e \<notin> seen)"
proof (induction es arbitrary: i seen owner "by" es')
  case (Cons e0 es)
  define e where "e = with_time parse e0"
  from Cons.prems obtain owner1 by1 es1 where ne: "pe_Model e0 \<noteq> []"
    and parsed: "pe_From e0 = [] \<or> parse (pe_From e0) \<noteq> None" and new: "entry_key e \<notin> seen"
    and names: "index_names e (pe_Model e # pe_Aliases e) (owner, by) = Inr (owner1, by1)"
    and rest: "index_entries parse (i + 1) (insert (entry_key e) seen) (owner1, by1) es = Inr (es1, owner', by')"
    and es': "es' = e # es1"
    by (auto simp: dated_Inr_iff e_def split: if_splits)
  note IH = Cons.IH [OF rest]
  note nm = index_names_Inr [OF names]
  have e: "pe_Model e = pe_Model e0" "pe_From e = pe_From e0" by (simp_all add: e_def)
  have kept: "owner1 n = Some m" if "owner n = Some m" for n m using nm that by auto
  have mine: "owner' n = Some (pe_Model e)" if "names_model e n" for n
    using IH nm that by (auto simp: names_model_def)
  show ?case
    using IH ne parsed new es' nm e kept mine by (auto simp: e_def [symmetric] times_named_def fun_eq_iff)
qed auto

lemma index_pricing_Inr:
  assumes "index_pricing parse p = Inr q"
  shows "pg_Currency q = pg_Currency p" "pg_Currency p \<noteq> []" "pg_Models q = map (with_time parse) (pg_Models p)"
    and "pg_byName q n = sort_by later_entry (concat (map (times_named n) (pg_Models q)))"
    and "\<forall>e \<in> set (pg_Models q). pe_Model e \<noteq> [] \<and> (pe_From e = [] \<or> parse (pe_From e) \<noteq> None)"
    and "distinct (map entry_key (pg_Models q))"
    and "e \<in> set (pg_Models q) \<Longrightarrow> e' \<in> set (pg_Models q) \<Longrightarrow> names_model e n \<Longrightarrow> names_model e' n \<Longrightarrow>
      pe_Model e = pe_Model e'"
proof -
  obtain es owner' by' where ie: "index_entries parse 0 {} (Map.empty, \<lambda>_. []) (pg_Models p) = Inr (es, owner', by')"
    and q: "pg_Currency p \<noteq> []" "q = p\<lparr>pg_Models := es, pg_byName := \<lambda>name. sort_by later_entry (by' name)\<rparr>"
    using assms by (auto simp: index_pricing_def split: if_splits)
  note * = index_entries_Inr [OF ie]
  show "pg_Currency q = pg_Currency p" "pg_Currency p \<noteq> []" using q by simp_all
  show "pg_Models q = map (with_time parse) (pg_Models p)"
    using conjunct1 [OF *] unfolding q(2) by simp
  show "pg_byName q n = sort_by later_entry (concat (map (times_named n) (pg_Models q)))"
    using * unfolding q(2) by simp
  show "\<forall>e \<in> set (pg_Models q). pe_Model e \<noteq> [] \<and> (pe_From e = [] \<or> parse (pe_From e) \<noteq> None)"
    using * unfolding q(2) by simp
  have "distinct (map entry_key es)" using * by blast
  then show "distinct (map entry_key (pg_Models q))" by (simp add: q(2))
  show "pe_Model e = pe_Model e'" if "e \<in> set (pg_Models q)" "e' \<in> set (pg_Models q)" "names_model e n" "names_model e' n"
  proof -
    have "e \<in> set es" "e' \<in> set es" using that q(2) by simp_all
    with * that(3,4) have "owner' n = Some (pe_Model e)" "owner' n = Some (pe_Model e')" by blast+
    then show ?thesis by simp
  qed
qed

definition price_of :: "string \<Rightarrow> 'f Pricing \<Rightarrow> 'f PricingEntry \<Rightarrow> 'f Price" where
  "price_of model q e = \<lparr>pr_T = [], pr_Model = model, pr_Key = pe_Model e, pr_From = pe_From e,
     pr_Currency = pg_Currency q, pr_PerMillion = pe_PerMillion e\<rparr>"

abbreviation named :: "'f Pricing \<Rightarrow> string \<Rightarrow> 'f PricingEntry list" where
  "named q n \<equiv> concat (map (times_named n) (pg_Models q))"

lemma set_named: "set (named q n) = {e \<in> set (pg_Models q). names_model e n}"
  by (auto simp: set_times_named split: if_splits)

lemma Lookup_pick:
  assumes "index_pricing parse p = Inr q"
  shows "Pricing_Lookup (Some q) model at = (if model = [] then None
    else map_option (price_of model q) (find (applies_at at) (sort_by later_entry (named q model))))"
  by (simp add: Pricing_Lookup_def index_pricing_Inr(4) [OF assms] price_of_def [abs_def])

text \<open>With an indexed price file, a call pays the entry that names its model and applies at its time, and no
  entry that names it and applies is dated later; a call that recorded no time pays the undated one. It has
  no price exactly when it names no model or no entry that names it applies.\<close>
theorem Lookup_latest:
  assumes "index_pricing parse p = Inr q"
  shows "(Pricing_Lookup (Some q) model at = None \<longleftrightarrow>
      model = [] \<or> (\<forall>e \<in> set (map (with_time parse) (pg_Models p)). names_model e model \<longrightarrow> \<not> applies_at at e)) \<and>
    (\<forall>price. Pricing_Lookup (Some q) model at = Some price \<longrightarrow>
      (\<exists>e \<in> set (map (with_time parse) (pg_Models p)). names_model e model \<and> applies_at at e \<and> price = price_of model q e \<and>
        (\<forall>e' \<in> set (map (with_time parse) (pg_Models p)). names_model e' model \<and> applies_at at e' \<longrightarrow> \<not> later_entry e' e)))"
proof -
  have models: "set (map (with_time parse) (pg_Models p)) = set (pg_Models q)"
    using index_pricing_Inr(3) [OF assms] by simp
  show ?thesis
    unfolding models Lookup_pick [OF assms]
    by (auto simp: pick_None pick_iff best_at_def set_named simp del: set_concat)
qed


definition sample_parse :: "string \<Rightarrow> instant option" where
  "sample_parse s = (if s = ''day 2'' then Some (UnixMilli 2) else None)"

definition sample_pricing :: "int Pricing" where
  "sample_pricing =
    (let rate = \<lambda>n. \<lparr>rt_In = n, rt_Out = n, rt_CacheRead = n, rt_CacheWrite = n\<rparr>;
         entry = \<lambda>from as n. \<lparr>pe_Model = ''m'', pe_Aliases = as, pe_From = from, pe_PerMillion = rate n, pe_from = 0\<rparr>
     in \<lparr>pg_Currency = ''USD'', pg_Models = [entry [] [''m-1''] 1, entry ''day 2'' [''m-1''] 2], pg_byName = \<lambda>_. []\<rparr>)"

lemma sample_pricing_indexed: "\<exists>q. index_pricing sample_parse sample_pricing = Inr q"
  by (simp add: sample_pricing_def index_pricing_def Let_def dated_def sample_parse_def entry_key_def)

lemma Lookup_latest_witness:
  "\<exists>q. index_pricing sample_parse sample_pricing = Inr q \<and> Pricing_Lookup (Some q) ''m-1'' 3 \<noteq> None \<and> Pricing_Lookup (Some q) ''n'' 3 = None"
proof -
  obtain q where q: "index_pricing sample_parse sample_pricing = Inr q" using sample_pricing_indexed by blast
  have "\<exists>e \<in> set (map (with_time sample_parse) (pg_Models sample_pricing)). names_model e ''m-1'' \<and> applies_at 3 e"
    by (simp add: sample_pricing_def Let_def names_model_def with_time_def applies_at_def)
  moreover have "\<forall>e \<in> set (map (with_time sample_parse) (pg_Models sample_pricing)). \<not> names_model e ''n''"
    by (simp add: sample_pricing_def Let_def names_model_def)
  ultimately show ?thesis
    using q Lookup_latest [OF q, of "''m-1''" 3] Lookup_latest [OF q, of "''n''" 3] by blast
qed

section \<open>Pricing again from a ledger\<close>

text \<open>A price file without aliases is indexed when its names, times and keys are right.\<close>

lemma index_entries_plain:
  "\<forall>e \<in> set es. pe_Model e \<noteq> [] \<and> pe_Aliases e = [] \<and> (pe_From e = [] \<or> parse (pe_From e) \<noteq> None) \<Longrightarrow>
   distinct (map entry_key es) \<Longrightarrow> \<forall>e \<in> set es. entry_key e \<notin> seen \<Longrightarrow> \<forall>n m. owner n = Some m \<longrightarrow> m = n \<Longrightarrow>
     \<exists>r. index_entries parse i seen (owner, by) es = Inr r"
proof (induction es arbitrary: i seen owner "by")
  case (Cons e0 es)
  have names: "index_names (with_time parse e0) [pe_Model e0] (owner, by) =
      Inr (owner(pe_Model e0 \<mapsto> pe_Model e0), by(pe_Model e0 := by (pe_Model e0) @ [with_time parse e0]))"
    using Cons.prems(4) by (cases "owner (pe_Model e0)") auto
  have dated: "dated parse e0 = Inr (with_time parse e0)"
    using Cons.prems(1) by (simp add: dated_Inr_iff)
  have "\<exists>r. index_entries parse (i + 1) (insert (entry_key e0) seen) (owner(pe_Model e0 \<mapsto> pe_Model e0),
      by(pe_Model e0 := by (pe_Model e0) @ [with_time parse e0])) es = Inr r"
    using Cons.prems by (intro Cons.IH) (auto simp: image_iff)
  then obtain r where "index_entries parse (i + 1) (insert (entry_key e0) seen) (owner(pe_Model e0 \<mapsto> pe_Model e0),
      by(pe_Model e0 := by (pe_Model e0) @ [with_time parse e0])) es = Inr r" by blast
  with Cons.prems names dated show ?case by (cases r) simp
qed simp

definition entry_of :: "'f Price \<Rightarrow> 'f PricingEntry" where
  "entry_of p = \<lparr>pe_Model = pr_Model p, pe_Aliases = [], pe_From = pr_From p, pe_PerMillion = pr_PerMillion p, pe_from = 0\<rparr>"

text \<open>The prices a ledger holds: those its calls were looked up at, each once.\<close>

definition price_id :: "'f Price \<Rightarrow> string \<times> string \<times> string" where
  "price_id p = (pr_Model p, pr_Key p, pr_From p)"

lemma note_price_id: "note_price ps p = (if price_id p \<in> price_id ` set ps then ps else ps @ [p])"
  unfolding note_price_def price_id_def image_iff by (rule if_cong) (auto simp: eq_commute)

lemma applied_prices_snoc:
  "applied_prices q (calls @ [(m, at)]) =
     (case Pricing_Lookup q m at of None \<Rightarrow> applied_prices q calls | Some p \<Rightarrow> note_price (applied_prices q calls) p)"
  by (cases "Pricing_Lookup q m at") (simp_all add: applied_prices_def)

lemma applied_prices_sound:
  "p \<in> set (applied_prices q calls) \<Longrightarrow> \<exists>m at. (m, at) \<in> set calls \<and> Pricing_Lookup q m at = Some p"
proof (induction calls rule: rev_induct)
  case (snoc c calls)
  obtain m at where c: "c = (m, at)" by (cases c)
  show ?case
    using snoc unfolding c applied_prices_snoc
    by (auto simp: note_price_id split: option.splits if_splits)
qed (simp add: applied_prices_def)

lemma applied_prices_complete:
  "(m, at) \<in> set calls \<Longrightarrow> Pricing_Lookup q m at = Some p \<Longrightarrow> price_id p \<in> price_id ` set (applied_prices q calls)"
proof (induction calls rule: rev_induct)
  case (snoc c calls)
  obtain m' at' where c: "c = (m', at')" by (cases c)
  show ?case
    using snoc unfolding c applied_prices_snoc
    by (auto simp: note_price_id split: option.splits if_splits)
qed simp

lemma applied_prices_distinct: "distinct (map price_id (applied_prices q calls))"
proof (induction calls rule: rev_induct)
  case (snoc c calls)
  obtain m at where c: "c = (m, at)" by (cases c)
  show ?case
    using snoc unfolding c applied_prices_snoc by (auto simp: note_price_id split: option.splits)
qed (simp add: applied_prices_def)


text \<open>The setting of the claim: a price file indexed, and the calls that were priced with it.\<close>

definition no_nul :: "(string \<Rightarrow> instant option) \<Rightarrow> bool" where
  "no_nul parse \<longleftrightarrow> (\<forall>s t. parse s = Some t \<longrightarrow> CHR 0x00 \<notin> set s)"

lemma nul_split:
  "CHR 0x00 \<notin> set s \<Longrightarrow> CHR 0x00 \<notin> set s' \<Longrightarrow> m @ [CHR 0x00] @ s = m' @ [CHR 0x00] @ s' \<Longrightarrow> m = m' \<and> s = s'"
proof -
  assume s: "CHR 0x00 \<notin> set s" "CHR 0x00 \<notin> set s'" and eq: "m @ [CHR 0x00] @ s = m' @ [CHR 0x00] @ s'"
  have tail: "takeWhile (\<lambda>c. c \<noteq> CHR 0x00) (rev (m @ [CHR 0x00] @ s)) = rev s" if "CHR 0x00 \<notin> set s" for m s :: string
    using that by (simp add: takeWhile_append)
  have "rev s = rev s'" using tail [OF s(1), of m] tail [OF s(2), of m'] unfolding eq by simp
  then show ?thesis using eq by simp
qed

lemma Lookup_entry:
  assumes "index_pricing parse p = Inr q" "Pricing_Lookup (Some q) m at = Some pr"
  shows "\<exists>e. m \<noteq> [] \<and> best_at at (named q m) e \<and> e \<in> set (pg_Models q) \<and> names_model e m \<and> pr = price_of m q e"
  using assms(2) unfolding Lookup_pick [OF assms(1)]
  by (auto simp: pick_iff best_at_def set_named simp del: set_concat split: if_splits)

text \<open>A price tells the entry it came from, so it stands for one entry however many calls pay it.\<close>

lemma price_id_entry:
  assumes "index_pricing parse p = Inr q" "e \<in> set (pg_Models q)" "e' \<in> set (pg_Models q)"
    and "price_id (price_of m q e) = price_id (price_of m' q e')"
  shows "e = e' \<and> m = m'"
proof -
  have "entry_key e = entry_key e'" "m = m'" using assms(4) by (auto simp: price_id_def price_of_def entry_key_def)
  moreover have "inj_on entry_key (set (pg_Models q))" using index_pricing_Inr(6) [OF assms(1)] by (simp add: distinct_map)
  ultimately show ?thesis using assms(2,3) by (auto dest: inj_onD)
qed

lemma applied_prices_iff:
  assumes "index_pricing parse p = Inr q"
  shows "pr \<in> set (applied_prices (Some q) calls) \<longleftrightarrow> (\<exists>m at. (m, at) \<in> set calls \<and> Pricing_Lookup (Some q) m at = Some pr)"
proof
  assume "\<exists>m at. (m, at) \<in> set calls \<and> Pricing_Lookup (Some q) m at = Some pr"
  then obtain m at where call: "(m, at) \<in> set calls" "Pricing_Lookup (Some q) m at = Some pr" by blast
  from applied_prices_complete [OF call] obtain pr' where pr': "pr' \<in> set (applied_prices (Some q) calls)" "price_id pr = price_id pr'"
    by auto
  from applied_prices_sound [OF pr'(1)] obtain m' at' where "Pricing_Lookup (Some q) m' at' = Some pr'" by blast
  from Lookup_entry [OF assms this] Lookup_entry [OF assms call(2)] price_id_entry [OF assms] pr' show "pr \<in> set (applied_prices (Some q) calls)"
    by metis
qed (rule applied_prices_sound)

text \<open>What is indexed again: an entry for each price.\<close>

lemma repriced_index:
  assumes idx: "index_pricing parse p = Inr q" and nul: "no_nul parse"
    and ps: "ps = applied_prices (Some q) calls" "ps \<noteq> []"
  shows "\<exists>q'. PricingOf parse ps = Inr (Some q') \<and> pg_Currency q' = pg_Currency q \<and>
    index_pricing parse \<lparr>pg_Currency = pg_Currency q, pg_Models = map entry_of ps, pg_byName = \<lambda>_. []\<rparr> = Inr q'"
proof -
  have entry: "\<exists>m e. m \<noteq> [] \<and> e \<in> set (pg_Models q) \<and> names_model e m \<and> pr = price_of m q e" if "pr \<in> set ps" for pr
    using that Lookup_entry [OF idx] unfolding ps(1) applied_prices_iff [OF idx] by blast
  have cur: "pr_Currency pr = pg_Currency q" if "pr \<in> set ps" for pr using entry [OF that] by (auto simp: price_of_def)
  have from_ok: "pr_Model pr \<noteq> [] \<and> (pr_From pr = [] \<or> parse (pr_From pr) \<noteq> None)" if "pr \<in> set ps" for pr
    using entry [OF that] index_pricing_Inr(5) [OF idx] by (auto simp: price_of_def)
  have no_zero: "CHR 0x00 \<notin> set (pr_From pr)" if "pr \<in> set ps" for pr
    using from_ok [OF that] nul by (auto simp: no_nul_def)
  have "price_id pr = price_id pr'"
    if same: "pr \<in> set ps" "pr' \<in> set ps" "entry_key (entry_of pr) = entry_key (entry_of pr')" for pr pr'
  proof -
    have eq: "pr_Model pr = pr_Model pr' \<and> pr_From pr = pr_From pr'"
      using nul_split [OF no_zero [OF same(1)] no_zero [OF same(2)]] same(3) by (simp add: entry_key_def entry_of_def)
    obtain e e' where "e \<in> set (pg_Models q)" "names_model e (pr_Model pr)" "pr_Key pr = pe_Model e"
      "e' \<in> set (pg_Models q)" "names_model e' (pr_Model pr')" "pr_Key pr' = pe_Model e'"
      using entry [OF same(1)] entry [OF same(2)] by (auto simp: price_of_def)
    with eq index_pricing_Inr(7) [OF idx] show ?thesis by (metis price_id_def)
  qed
  moreover have "distinct ps" "inj_on price_id (set ps)"
    using applied_prices_distinct [of "Some q" calls] unfolding ps(1) [symmetric] distinct_map by auto
  ultimately have "distinct (map (entry_key \<circ> entry_of) ps)"
    unfolding distinct_map o_def by (metis (mono_tags, lifting) inj_onD inj_onI)
  then have dist: "distinct (map entry_key (map entry_of ps))" by simp
  have "\<forall>e \<in> set (map entry_of ps). pe_Model e \<noteq> [] \<and> pe_Aliases e = [] \<and> (pe_From e = [] \<or> parse (pe_From e) \<noteq> None)"
    using from_ok by (auto simp: entry_of_def)
  then obtain r where r: "index_entries parse 0 {} (Map.empty, \<lambda>_. []) (map entry_of ps) = Inr r"
    using index_entries_plain [OF _ dist, of parse "{}" Map.empty 0 "\<lambda>_. []"] by auto
  obtain p0 ps' where p0: "ps = p0 # ps'" using ps(2) by (cases ps) auto
  have none: "find (\<lambda>q. pr_Currency q \<noteq> pr_Currency p0) ps = None" using cur p0 by (auto simp: find_None_iff)
  have "pr_Currency p0 = pg_Currency q" using cur p0 by simp
  then have "PricingOf parse ps = bind_result (index_pricing parse \<lparr>pg_Currency = pg_Currency q,
      pg_Models = map entry_of ps, pg_byName = \<lambda>_. []\<rparr>) (\<lambda>q. Inr (Some q))"
    using none p0 by (simp add: PricingOf_def entry_of_def [abs_def])
  then show ?thesis
    using r index_pricing_Inr(1,2) [OF idx] by (cases r) (auto simp: index_pricing_def)
qed


text \<open>One call, looked up again among entries that stand for the first ones that some calls paid.\<close>

lemma pick_again:
  assumes "\<And>x. x \<in> set ys \<Longrightarrow> \<exists>e \<in> set xs. first_of_time xs e \<and> x = f e" and time: "\<And>e. e \<in> set xs \<Longrightarrow> pe_from (f e) = pe_from e"
    and paid: "\<And>e. find (applies_at at) (sort_by later_entry xs) = Some e \<Longrightarrow> f e \<in> set ys"
  shows "find (applies_at at) (sort_by later_entry ys) = map_option f (find (applies_at at) (sort_by later_entry xs))"
proof (cases "find (applies_at at) (sort_by later_entry xs)")
  case None
  have "\<not> applies_at at x" if "x \<in> set ys" for x
  proof -
    obtain e where e: "e \<in> set xs" "x = f e" using assms(1) [OF \<open>x \<in> set ys\<close>] by blast
    with None applies_time [OF time [OF e(1)], of at] show ?thesis by (auto simp: pick_None)
  qed
  then have "find (applies_at at) (sort_by later_entry ys) = None" by (simp add: pick_None)
  with None show ?thesis by simp
next
  case (Some e)
  then have e: "best_at at xs e" by (simp add: pick_iff)
  then have e_in: "e \<in> set xs" by (simp add: best_at_def)
  have later_iff: "later_entry (f d) (f e) = later_entry d e" if "d \<in> set xs" for d
    using time [OF that] time [OF e_in] by (simp add: later_entry_def)
  have eq: "x = f e" if x: "x \<in> set ys" "pe_from x = pe_from (f e)" for x
  proof -
    obtain d where d: "d \<in> set xs" "first_of_time xs d" "x = f d" using assms(1) [OF x(1)] by blast
    with x(2) time e_in have "pe_from d = pe_from e" by simp
    with d(2) e have "first_of_time xs d" "first_of_time xs e" "pe_from d = pe_from e" by (simp_all add: best_at_def)
    then have "d = e" unfolding first_of_time_def by (metis list.inject)
    with d(3) show ?thesis by simp
  qed
  have mem: "f e \<in> set ys" by (rule paid [OF Some])
  have "first_of_time ys (f e)"
  proof -
    let ?fs = "filter (\<lambda>x. pe_from x = pe_from (f e)) ys"
    have "?fs \<noteq> []" using mem by (auto simp: filter_empty_conv)
    then obtain x zs where x: "?fs = x # zs" by (cases ?fs) auto
    then have "x \<in> set ?fs" by simp
    then have "x = f e" using eq [of x] by simp
    with x show ?thesis by (auto simp: first_of_time_def)
  qed
  moreover have "\<not> later_entry x (f e)" if x: "x \<in> set ys" "applies_at at x" for x
  proof -
    obtain d where d: "d \<in> set xs" "x = f d" using assms(1) [OF x(1)] by blast
    with x(2) applies_time [OF time [OF d(1)], of at] e later_iff [OF d(1)] show ?thesis by (simp add: best_at_def)
  qed
  ultimately have "best_at at ys (f e)"
    using mem e applies_time [OF time [OF e_in], of at] by (simp add: best_at_def)
  with Some show ?thesis by (simp add: pick_iff [symmetric])
qed

text \<open>The price file made again from the prices a ledger applied prices every call of that ledger as the
  first one did: it is indexed without an error, and a call pays the same rate from the same date in the same
  currency, under the name it recorded, or is unpriced in both.\<close>
theorem PricingOf_reprices:
  assumes idx: "index_pricing parse p = Inr q" and nul: "no_nul parse"
    and undated: "\<forall>e \<in> set (pg_Models p). pe_from e = 0"
  shows "\<exists>q'. PricingOf parse (applied_prices (Some q) calls) = Inr q' \<and>
    (\<forall>(m, at) \<in> set calls. Pricing_Lookup q' m at = map_option (\<lambda>pr. pr\<lparr>pr_Key := m\<rparr>) (Pricing_Lookup (Some q) m at))"
proof (cases "applied_prices (Some q) calls = []")
  case True
  have "Pricing_Lookup (Some q) m at = None" if "(m, at) \<in> set calls" for m at
    using applied_prices_iff [OF idx, of _ calls] that True by (metis empty_iff empty_set not_None_eq)
  moreover have "PricingOf parse (applied_prices (Some q) calls) = Inr None" "Pricing_Lookup None m at = None" for m at
    using True by (simp_all add: PricingOf_def Pricing_Lookup_def)
  ultimately show ?thesis by auto
next
  case False
  define ps where "ps = applied_prices (Some q) calls"
  obtain q' where q': "PricingOf parse ps = Inr (Some q')" "pg_Currency q' = pg_Currency q"
    "index_pricing parse \<lparr>pg_Currency = pg_Currency q, pg_Models = map entry_of ps, pg_byName = \<lambda>_. []\<rparr> = Inr q'"
    using repriced_index [OF idx nul ps_def] False by (auto simp: ps_def)
  have ps: "pr \<in> set ps \<longleftrightarrow> (\<exists>m at. (m, at) \<in> set calls \<and> Pricing_Lookup (Some q) m at = Some pr)" for pr
    unfolding ps_def by (rule applied_prices_iff [OF idx])
  have models: "pg_Models q' = map (\<lambda>pr. with_time parse (entry_of pr)) ps"
    using index_pricing_Inr(3) [OF q'(3)] by simp
  have same_time: "pe_from (with_time parse (entry_of (price_of m q e))) = pe_from e" if "e \<in> set (pg_Models q)" for m e
    using that undated by (auto simp: index_pricing_Inr(3) [OF idx] with_time_def entry_of_def price_of_def)
  have "Pricing_Lookup (Some q') m at = map_option (\<lambda>pr. pr\<lparr>pr_Key := m\<rparr>) (Pricing_Lookup (Some q) m at)" if call: "(m, at) \<in> set calls" for m at
  proof (cases "m = []")
    case True
    then show ?thesis by (simp add: Pricing_Lookup_def)
  next
    case m: False
    let ?f = "\<lambda>e. with_time parse (entry_of (price_of m q e))"
    have named': "set (named q' m) = (\<lambda>pr. with_time parse (entry_of pr)) ` {pr \<in> set ps. pr_Model pr = m}"
      unfolding set_named unfolding models by (auto simp: names_model_def entry_of_def)
    have "find (applies_at at) (sort_by later_entry (named q' m)) = map_option ?f (find (applies_at at) (sort_by later_entry (named q m)))"
    proof (rule pick_again)
      fix x assume "x \<in> set (named q' m)"
      then obtain pr where pr: "pr \<in> set ps" "pr_Model pr = m" "x = with_time parse (entry_of pr)" unfolding named' by blast
      then obtain at' where "Pricing_Lookup (Some q) m at' = Some pr" using ps Lookup_entry [OF idx] by (force simp: price_of_def)
      from Lookup_entry [OF idx this] pr(3) show "\<exists>e \<in> set (named q m). first_of_time (named q m) e \<and> x = ?f e"
        unfolding best_at_def by blast
    next
      show "pe_from (?f e) = pe_from e" if "e \<in> set (named q m)" for e
        using that same_time by (simp add: set_named del: set_concat)
    next
      fix e assume "find (applies_at at) (sort_by later_entry (named q m)) = Some e"
      then have "Pricing_Lookup (Some q) m at = Some (price_of m q e)" using m by (simp add: Lookup_pick [OF idx])
      with call ps have "price_of m q e \<in> set ps" by blast
      then show "?f e \<in> set (named q' m)" unfolding named' by (auto simp: price_of_def)
    qed
    then show ?thesis
      using m q'(2) by (simp add: Lookup_pick [OF idx] Lookup_pick [OF q'(3)] option.map_comp o_def price_of_def entry_of_def)
  qed
  with q'(1) show ?thesis by (auto simp: ps_def)
qed


lemma PricingOf_reprices_witness:
  "\<exists>q q'. index_pricing sample_parse sample_pricing = Inr q \<and>
    PricingOf sample_parse (applied_prices (Some q) [(''m-1'', 3), (''m'', 1)]) = Inr q' \<and>
    Pricing_Lookup q' ''m-1'' 3 = map_option (\<lambda>pr. pr\<lparr>pr_Key := ''m-1''\<rparr>) (Pricing_Lookup (Some q) ''m-1'' 3)"
proof -
  obtain q where q: "index_pricing sample_parse sample_pricing = Inr q" using sample_pricing_indexed by blast
  have "no_nul sample_parse" by (simp add: no_nul_def sample_parse_def)
  moreover have "\<forall>e \<in> set (pg_Models sample_pricing). pe_from e = 0" by (simp add: sample_pricing_def Let_def)
  ultimately show ?thesis
    using q PricingOf_reprices [OF q, of "[(''m-1'', 3), (''m'', 1)]"] by auto
qed

end
