(* ===== verification/Judge_Ledger.thy ===== *)
theory Judge_Ledger
  imports Session_View Judge_Pricing "HOL-Library.AList"
begin

text \<open>
  The ledger of \<^verbatim>\<open>internal/judge/ledger.go\<close>: what the model calls of a conversation consumed, each
  call counted once under its owner, and child streams rolled up into the main talk that started them.

  Token counts are 64-bit words, so sums wrap as Go's do; a comparison with zero is signed. The operations on
  \<open>float64\<close> are a parameter. The landed records a document names are read through a parameter, which may
  fail. The order in which Go ranges over a map is a parameter \<open>iter\<close>. A Go map is a function to options, or a
  function with the zero value where a lookup takes a missing key for it; the two maps that are ranged over
  are association lists. An index into \<open>Calls\<close> out of range would panic: the lemmas show that the indexes the
  ledger keeps are in range.
\<close>

section \<open>Calls and costs\<close>

record 'f floats =
  fl_of_int :: "u64 \<Rightarrow> 'f"
  fl_add :: "'f \<Rightarrow> 'f \<Rightarrow> 'f"
  fl_mul :: "'f \<Rightarrow> 'f \<Rightarrow> 'f"
  fl_div :: "'f \<Rightarrow> 'f \<Rightarrow> 'f"
  fl_zero :: 'f
  fl_million :: 'f

record 'f Call =
  cl_ID :: string
  cl_Stream :: string
  cl_Owner :: string
  cl_At :: int
  cl_Order :: nat
  cl_Usage :: "usage option"
  cl_OutputUnknown :: bool
  cl_Model :: string
  cl_Price :: "'f Price option"
  cl_Money :: 'f
  cl_refs :: "ref list"

record 'f Cost =
  ct_T :: string
  ct_Scope :: string
  ct_ID :: string
  ct_Target :: string
  ct_Work :: string
  ct_Cause :: string
  ct_Share :: "'f option"
  ct_Calls :: nat
  ct_Usage :: usage
  ct_Unknown :: nat
  ct_OutputUnknown :: nat
  ct_Money :: "'f option"
  ct_Currency :: string
  ct_Unpriced :: nat
  ct_From :: int
  ct_To :: int
  ct_Children :: nat

definition ScopeConversation :: string where "ScopeConversation = ''conversation''"
definition ScopeTalk :: string where "ScopeTalk = ''talk''"
definition ScopeLoose :: string where "ScopeLoose = ''loose''"
definition ScopeUnattributed :: string where "ScopeUnattributed = ''unattributed''"

definition zero_usage :: usage where
  "zero_usage = \<lparr>us_Input = 0, us_Output = 0, us_CacheRead = 0, us_CacheWrite = 0\<rparr>"

definition zero_cost :: "string \<Rightarrow> string \<Rightarrow> 'f Cost" where
  "zero_cost scope ident = \<lparr>ct_T = [], ct_Scope = scope, ct_ID = ident, ct_Target = [], ct_Work = [], ct_Cause = [],
     ct_Share = None, ct_Calls = 0, ct_Usage = zero_usage, ct_Unknown = 0, ct_OutputUnknown = 0, ct_Money = None,
     ct_Currency = [], ct_Unpriced = 0, ct_From = 0, ct_To = 0, ct_Children = 0\<rparr>"

definition loose_prefix :: string where "loose_prefix = ''loose/''"

definition LooseOwner :: "string \<Rightarrow> string" where
  "LooseOwner stream = loose_prefix @ stream"

text \<open>\<open>strings.HasPrefix\<close> and \<open>strings.TrimPrefix\<close> with that prefix.\<close>

definition is_loose :: "string \<Rightarrow> bool" where
  "is_loose owner \<longleftrightarrow> take (length loose_prefix) owner = loose_prefix"

definition trim_loose :: "string \<Rightarrow> string" where
  "trim_loose owner = (if is_loose owner then drop (length loose_prefix) owner else owner)"

definition scopeOf :: "string \<Rightarrow> string" where
  "scopeOf owner = (if is_loose owner then ScopeLoose else ScopeTalk)"

section \<open>Sub-tasks\<close>

definition ReasonNoStarter :: string where "ReasonNoStarter = ''no starting step''"
definition ReasonSeveral :: string where "ReasonSeveral = ''several starting steps''"
definition ReasonParentUnplaced :: string where "ReasonParentUnplaced = ''its parent is unattributed''"

record subtask =
  sb_ID :: string
  sb_Name :: string
  sb_Role :: string
  sb_Label :: string
  sb_Parent :: string
  sb_Main :: string
  sb_StartedBy :: string
  sb_Depth :: nat
  sb_Talks :: "string list"
  sb_Children :: "string list"
  sb_Reason :: string
  sb_own :: "nat list"

section \<open>The ledger\<close>

record 'f Ledger =
  lg_Dialect :: string
  lg_Currency :: string
  lg_Calls :: "'f Call list"
  lg_Owners :: "'f Cost list"
  lg_Main :: "string list"
  lg_Unattributed :: "'f Cost"
  lg_Total :: "'f Cost"
  lg_Prices :: "'f Price list"
  lg_Subtasks :: "subtask list"
  lg_owner :: "string \<rightharpoonup> 'f Cost"
  lg_inclusive :: "string \<rightharpoonup> 'f Cost"
  lg_callsOf :: "string \<Rightarrow> nat list"
  lg_ownersOf :: "string \<Rightarrow> string list"
  lg_talks :: "string \<rightharpoonup> view_node"
  lg_order :: "string \<rightharpoonup> nat"
  lg_at :: "string \<Rightarrow> string \<Rightarrow> nat"
  lg_agents :: "string \<Rightarrow> nat"
  lg_producedBy :: "string \<rightharpoonup> string"
  lg_subtask :: "string \<rightharpoonup> nat"
  lg_selected :: "string list option"

text \<open>What \<open>m[k]\<close> gives for a missing key.\<close>

definition or_zero :: "nat option \<Rightarrow> nat" where
  "or_zero x = (case x of Some n \<Rightarrow> n | None \<Rightarrow> 0)"

definition or_empty :: "string option \<Rightarrow> string" where
  "or_empty x = (case x of Some s \<Rightarrow> s | None \<Rightarrow> [])"

section \<open>Usage\<close>

definition negative :: "u64 \<Rightarrow> bool" where
  "negative n \<longleftrightarrow> n <s 0"

text \<open>What a dialect's recorded counts mean as four separate types.\<close>

definition normalize :: "string \<Rightarrow> usage option \<Rightarrow> usage option" where
  "normalize dialect u =
    (case u of
       None \<Rightarrow> None
     | Some v \<Rightarrow>
        (let out = (if dialect = ''langsmith/1'' then v\<lparr>us_Input := us_Input v - us_CacheRead v - us_CacheWrite v\<rparr> else v)
         in if negative (us_Input out) \<or> negative (us_Output out) \<or> negative (us_CacheRead out) \<or> negative (us_CacheWrite out)
            then None else Some out))"

text \<open>The attributes, read into a struct with the one field \<open>usage\<close>.\<close>

definition usage_field :: "string \<Rightarrow> json \<Rightarrow> string \<Rightarrow> string option" where
  "usage_field key j s = (if fold_name key = ''USAGE'' then into_string j s else Some s)"

definition unfinished :: "node_info \<Rightarrow> bool" where
  "unfinished n \<longleftrightarrow> (case parse (nd_Attrs n) of
     None \<Rightarrow> False | Some j \<Rightarrow> into_struct usage_field j [] = Some ''unavailable'')"

definition money :: "'f floats \<Rightarrow> usage \<Rightarrow> 'f Rates \<Rightarrow> 'f" where
  "money fl u r =
    fl_div fl (fl_add fl (fl_add fl (fl_add fl
        (fl_mul fl (fl_of_int fl (us_Input u)) (rt_In r))
        (fl_mul fl (fl_of_int fl (us_Output u)) (rt_Out r)))
        (fl_mul fl (fl_of_int fl (us_CacheRead u)) (rt_CacheRead r)))
        (fl_mul fl (fl_of_int fl (us_CacheWrite u)) (rt_CacheWrite r)))
      (fl_million fl)"

definition add_usage :: "usage \<Rightarrow> usage \<Rightarrow> usage" where
  "add_usage t u = \<lparr>us_Input = us_Input t + us_Input u, us_Output = us_Output t + us_Output u,
     us_CacheRead = us_CacheRead t + us_CacheRead u, us_CacheWrite = us_CacheWrite t + us_CacheWrite u\<rparr>"

text \<open>Stretching a cost's time range; 0 is no time.\<close>

definition widen :: "'f Cost \<Rightarrow> int \<Rightarrow> int \<Rightarrow> 'f Cost" where
  "widen c from to =
    (let c1 = (if from \<noteq> 0 \<and> (ct_From c = 0 \<or> from < ct_From c) then c\<lparr>ct_From := from\<rparr> else c)
     in if to \<noteq> 0 \<and> to > ct_To c1 then c1\<lparr>ct_To := to\<rparr> else c1)"

section \<open>Adding up calls\<close>

text \<open>The loop keeps the cost, the money so far and whether a call was priced.\<close>

definition sum_call :: "'f floats \<Rightarrow> 'f Call \<Rightarrow> 'f Cost \<times> 'f \<times> bool \<Rightarrow> 'f Cost \<times> 'f \<times> bool" where
  "sum_call fl call st =
    (let (c0, priced, any) = st;
         c = widen (c0\<lparr>ct_Calls := ct_Calls c0 + 1\<rparr>) (cl_At call) (cl_At call)
     in case cl_Usage call of
          None \<Rightarrow> (c\<lparr>ct_Unknown := ct_Unknown c + 1\<rparr>, priced, any)
        | Some u \<Rightarrow>
           (let c1 = (if cl_OutputUnknown call then c\<lparr>ct_OutputUnknown := ct_OutputUnknown c + 1\<rparr> else c);
                c2 = c1\<lparr>ct_Usage := add_usage (ct_Usage c1) u\<rparr>
            in if cl_Price call = None then (c2\<lparr>ct_Unpriced := ct_Unpriced c2 + 1\<rparr>, priced, any)
               else (c2, fl_add fl priced (cl_Money call), True)))"

definition sum_ledger :: "'f floats \<Rightarrow> 'f Ledger \<Rightarrow> string \<Rightarrow> string \<Rightarrow> nat list \<Rightarrow> 'f Cost" where
  "sum_ledger fl l scope ident calls =
    (let (c, priced, any) = fold (\<lambda>i. sum_call fl (lg_Calls l ! i)) calls (zero_cost scope ident, fl_zero fl, False)
     in if any then c\<lparr>ct_Money := Some priced, ct_Currency := lg_Currency l\<rparr> else c)"


section \<open>Walking the trees\<close>

text \<open>What the walk builds: the ledger, the owner of each node and the place each owner's next node takes.\<close>

record 'f walked =
  wk_ledger :: "'f Ledger"
  wk_ownerOfNode :: "string \<rightharpoonup> string"
  wk_counter :: "string \<Rightarrow> nat"

definition addCall :: "node_info \<Rightarrow> string \<Rightarrow> 'f floats \<Rightarrow> 'f Ledger \<Rightarrow> 'f Ledger" where
  "addCall n owner fl l =
    (let u = normalize (lg_Dialect l) (nd_Usage n);
         c = \<lparr>cl_ID = nd_ID n, cl_Stream = nd_Stream n, cl_Owner = owner, cl_At = nd_At n,
           cl_Order = or_zero (lg_order l (nd_ID n)), cl_Usage = u, cl_OutputUnknown = False, cl_Model = nd_Model n,
           cl_Price = None, cl_Money = fl_zero fl,
           cl_refs = (if u = None \<and> unfinished n then nd_Refs n else [])\<rparr>
     in l\<lparr>lg_callsOf := (lg_callsOf l)(owner := lg_callsOf l owner @ [length (lg_Calls l)]),
          lg_Calls := lg_Calls l @ [c]\<rparr>)"

definition visit :: "'f floats \<Rightarrow> node_info \<Rightarrow> string \<Rightarrow> string \<Rightarrow> 'f walked \<Rightarrow> 'f walked" where
  "visit fl n owner call w =
    (let l = wk_ledger w;
         l1 = l\<lparr>lg_order := (lg_order l)(nd_ID n \<mapsto> wk_counter w owner)\<rparr>;
         l2 = (if call \<noteq> [] then l1\<lparr>lg_producedBy := (lg_producedBy l1)(nd_ID n \<mapsto> call)\<rparr> else l1);
         l3 = (if nd_Kind n = KindLLMCall then addCall n owner fl l2 else l2)
     in \<lparr>wk_ledger = l3, wk_ownerOfNode = (wk_ownerOfNode w)(nd_ID n \<mapsto> owner),
         wk_counter = (wk_counter w)(owner := wk_counter w owner + 1)\<rparr>)"

function (sequential) walk_node :: "'f floats \<Rightarrow> string \<Rightarrow> view_node \<Rightarrow> string \<Rightarrow> 'f walked \<Rightarrow> 'f walked"
  and walk_children :: "'f floats \<Rightarrow> string \<Rightarrow> view_node list \<Rightarrow> string \<Rightarrow> 'f walked \<Rightarrow> 'f walked" where
  "walk_node fl owner (View_Node n cs) call w =
    walk_children fl owner cs (if nd_Kind n = KindLLMCall then nd_ID n else call) (visit fl n owner call w)"
| "walk_children fl owner [] call w = w"
| "walk_children fl owner (c # cs) call w = walk_children fl owner cs call (walk_node fl owner c call w)"
  by pat_completeness auto
termination
  by (relation "measure (\<lambda>x. case x of Inl (_, _, n, _, _) \<Rightarrow> size n | Inr (_, _, ns, _, _) \<Rightarrow> size_list size ns)") auto

section \<open>Calls that never finished\<close>

type_synonym address = "u64 \<times> u64"
type_synonym 'e records_reader = "ref list \<Rightarrow> 'e + (address \<rightharpoonup> sd_record)"

definition ref_address :: "ref \<Rightarrow> address" where
  "ref_address r = (r_Seq r, r_Row r)"

text \<open>The loop over the records a call stands on: the first that has usage gives the input side.\<close>

fun started_usage :: "(address \<rightharpoonup> sd_record) \<Rightarrow> ref list \<Rightarrow> 'f Call \<Rightarrow> 'f Call" where
  "started_usage recs [] c = c"
| "started_usage recs (r # rs) c =
    (case recs (ref_address r) of
       None \<Rightarrow> started_usage recs rs c
     | Some rec \<Rightarrow>
        (case sr_Usage rec of
           None \<Rightarrow> started_usage recs rs c
         | Some u \<Rightarrow>
             if negative (us_Input u) \<or> negative (us_CacheRead u) \<or> negative (us_CacheWrite u) then c
             else c\<lparr>cl_Usage := Some \<lparr>us_Input = us_Input u, us_Output = 0, us_CacheRead = us_CacheRead u,
                      us_CacheWrite = us_CacheWrite u\<rparr>,
                    cl_OutputUnknown := True,
                    cl_Model := (if cl_Model c = [] then sr_Model rec else cl_Model c)\<rparr>))"

definition readStarted :: "'e records_reader option \<Rightarrow> 'f Ledger \<Rightarrow> 'e + 'f Ledger" where
  "readStarted read l =
    (case read of
       None \<Rightarrow> Inr l
     | Some rd \<Rightarrow>
         if lg_Dialect l \<noteq> ''claude-code/1'' then Inr l
         else let refs = concat (map cl_refs (lg_Calls l)) in
           if refs = [] then Inr l
           else bind_result (rd refs) (\<lambda>recs.
             Inr (l\<lparr>lg_Calls := map (\<lambda>c. (started_usage recs (cl_refs c) c)\<lparr>cl_refs := []\<rparr>) (lg_Calls l)\<rparr>)))"

section \<open>Prices\<close>

definition price_call :: "'f floats \<Rightarrow> 'f Pricing option \<Rightarrow> 'f Call \<Rightarrow> 'f Call" where
  "price_call fl pricing c =
    (case cl_Usage c of
       None \<Rightarrow> c
     | Some u \<Rightarrow>
        (case Pricing_Lookup pricing (cl_Model c) (cl_At c) of
           None \<Rightarrow> c
         | Some p \<Rightarrow> c\<lparr>cl_Price := Some p, cl_Money := money fl u (pr_PerMillion p)\<rparr>))"

definition price_step :: "'f floats \<Rightarrow> 'f Pricing option \<Rightarrow> nat \<Rightarrow> 'f Ledger \<Rightarrow> 'f Ledger" where
  "price_step fl pricing i l =
    (let c = price_call fl pricing (lg_Calls l ! i);
         l1 = l\<lparr>lg_Calls := (lg_Calls l)[i := c]\<rparr>
     in case (cl_Usage c, Pricing_Lookup pricing (cl_Model c) (cl_At c)) of
          (Some _, Some p) \<Rightarrow> l1\<lparr>lg_Prices := note_price (lg_Prices l1) p\<rparr>
        | _ \<Rightarrow> l1)"

section \<open>The owners\<close>

definition walk_talk :: "'f floats \<Rightarrow> view_node \<Rightarrow> 'f walked \<times> string list \<Rightarrow> 'f walked \<times> string list" where
  "walk_talk fl t st =
    (let (w, order) = st; ident = nd_ID (info t); l = wk_ledger w;
         l1 = l\<lparr>lg_talks := (lg_talks l)(ident \<mapsto> t)\<rparr>;
         l2 = (if nd_Stream (info t) = ''main'' then l1\<lparr>lg_Main := lg_Main l1 @ [ident]\<rparr> else l1)
     in (walk_node fl ident t [] (w\<lparr>wk_ledger := l2\<rparr>), order @ [ident]))"

definition walk_loose :: "'f floats \<Rightarrow> view_node \<Rightarrow> 'f walked \<times> string list \<times> string set \<Rightarrow> 'f walked \<times> string list \<times> string set" where
  "walk_loose fl n st =
    (let (w, order, loose) = st; ow = LooseOwner (nd_Stream (info n)) in
     if ow \<in> loose then (walk_node fl ow n [] w, order, loose)
     else (walk_node fl ow n [] w, order @ [ow], insert ow loose))"

definition add_owner :: "'f floats \<Rightarrow> string \<Rightarrow> 'f Ledger \<Rightarrow> 'f Ledger" where
  "add_owner fl ow l =
    (let c0 = sum_ledger fl l (scopeOf ow) ow (lg_callsOf l ow);
         c = (case lg_talks l ow of Some t \<Rightarrow> widen c0 (nd_From (info t)) (nd_To (info t)) | None \<Rightarrow> c0)
     in l\<lparr>lg_owner := (lg_owner l)(ow \<mapsto> c), lg_Owners := lg_Owners l @ [c]\<rparr>)"

definition empty_ledger :: "string \<Rightarrow> 'f Pricing option \<Rightarrow> 'f Ledger" where
  "empty_ledger dialect pricing =
    \<lparr>lg_Dialect = dialect, lg_Currency = (case pricing of None \<Rightarrow> [] | Some p \<Rightarrow> pg_Currency p), lg_Calls = [],
     lg_Owners = [], lg_Main = [], lg_Unattributed = zero_cost [] [], lg_Total = zero_cost [] [], lg_Prices = [],
     lg_Subtasks = [], lg_owner = Map.empty, lg_inclusive = Map.empty, lg_callsOf = \<lambda>_. [], lg_ownersOf = \<lambda>_. [],
     lg_talks = Map.empty, lg_order = Map.empty, lg_at = \<lambda>_ _. 0, lg_agents = \<lambda>_. 0, lg_producedBy = Map.empty,
     lg_subtask = Map.empty, lg_selected = None\<rparr>"

text \<open>The ledger after the trees are walked, with the owners in order and the owner of each node.\<close>

definition walk_document :: "'f floats \<Rightarrow> conversation \<Rightarrow> string \<Rightarrow> 'f Pricing option \<Rightarrow>
    'f Ledger \<times> string list \<times> (string \<rightharpoonup> string)" where
  "walk_document fl doc dialect pricing =
    (let w0 = \<lparr>wk_ledger = empty_ledger dialect pricing, wk_ownerOfNode = Map.empty, wk_counter = \<lambda>_. 0\<rparr>;
         (w1, order1) = fold (walk_talk fl) (cv_Talks doc) (w0, []);
         (w2, order2, _) = fold (walk_loose fl) (cv_Loose doc) (w1, order1, {})
     in (wk_ledger w2, order2, wk_ownerOfNode w2))"

definition cost_owners :: "'f floats \<Rightarrow> conversation \<Rightarrow> 'f Pricing option \<Rightarrow> string list \<Rightarrow> 'f Ledger \<Rightarrow> 'f Ledger" where
  "cost_owners fl doc pricing order l =
    (let l1 = fold (price_step fl pricing) [0..<length (lg_Calls l)] l;
         l2 = fold (add_owner fl) order l1
     in l2\<lparr>lg_Total := sum_ledger fl l2 ScopeConversation (cv_Conversation doc) [0..<length (lg_Calls l2)]\<rparr>)"


section \<open>Rolling up the child streams\<close>

definition stream_name :: "conversation \<Rightarrow> string \<rightharpoonup> string" where
  "stream_name doc = foldl (\<lambda>m s. m(vs_ID s \<mapsto> vs_Name s)) Map.empty (cv_Streams doc)"

definition stream_id :: "conversation \<Rightarrow> string \<rightharpoonup> string" where
  "stream_id doc = foldl (\<lambda>m s. m(vs_Name s \<mapsto> vs_ID s)) Map.empty (cv_Streams doc)"

definition stream_role :: "conversation \<Rightarrow> string \<rightharpoonup> string" where
  "stream_role doc = foldl (\<lambda>m s. m(vs_Name s \<mapsto> vs_Role s)) Map.empty (cv_Streams doc)"

definition stream_label :: "conversation \<Rightarrow> string \<rightharpoonup> string" where
  "stream_label doc = foldl (\<lambda>m s. m(vs_Name s \<mapsto> vs_Label s)) Map.empty (cv_Streams doc)"

definition streamOf :: "'f Ledger \<Rightarrow> string \<Rightarrow> string" where
  "streamOf l ow = (case lg_talks l ow of Some t \<Rightarrow> nd_Stream (info t) | None \<Rightarrow> trim_loose ow)"

definition ownersOfStream :: "'f Ledger \<Rightarrow> string \<Rightarrow> string list" where
  "ownersOfStream l name = filter (\<lambda>ow. streamOf l ow = name) (map ct_ID (lg_Owners l))"

text \<open>The steps that start each child stream: per stream, the owners that hold one, with the earliest of each.\<close>

type_synonym starters = "(string \<times> (string \<times> string) list) list"

definition add_starter :: "conversation \<Rightarrow> 'f Ledger \<Rightarrow> (string \<rightharpoonup> string) \<Rightarrow> view_relation \<Rightarrow> starters \<Rightarrow> starters" where
  "add_starter doc l ownerOfNode r sts =
    (if vl_Type r \<noteq> RelStarts then sts
     else let name = or_empty (stream_name doc (vl_To r)) in
       if name = [] \<or> name = ''main'' then sts
       else case ownerOfNode (vl_From r) of
         None \<Rightarrow> sts
       | Some ow \<Rightarrow>
          (let from = (case map_of sts name of Some m \<Rightarrow> m | None \<Rightarrow> []);
               from' = (case map_of from ow of
                   Some prev \<Rightarrow> if or_zero (lg_order l (vl_From r)) < or_zero (lg_order l prev)
                     then AList.update ow (vl_From r) from else from
                 | None \<Rightarrow> AList.update ow (vl_From r) from)
           in AList.update name from' sts))"

definition starters_of :: "conversation \<Rightarrow> 'f Ledger \<Rightarrow> (string \<rightharpoonup> string) \<Rightarrow> starters" where
  "starters_of doc l ownerOfNode = fold (add_starter doc l ownerOfNode) (cv_Relations doc) []"

text \<open>The child streams only one owner starts, per owner and sorted by name, with the step that starts each.
  \<open>iter\<close> is the order in which the map of the starters is ranged over.\<close>

type_synonym map_order = "starters \<Rightarrow> starters"

definition childrenOf :: "map_order \<Rightarrow> starters \<Rightarrow> string \<Rightarrow> (string \<times> string) list" where
  "childrenOf iter sts ow =
    sort_by (\<lambda>x y. fst x < fst y)
      (concat (map (\<lambda>(name, from). case from of [(ow', step)] \<Rightarrow> if ow' = ow then [(name, step)] else [] | _ \<Rightarrow> []) (iter sts)))"

definition newSubtask :: "conversation \<Rightarrow> 'f Ledger \<Rightarrow> string \<Rightarrow> subtask" where
  "newSubtask doc l name =
    (let ident = or_empty (stream_id doc name); owners = ownersOfStream l name in
     \<lparr>sb_ID = (if ident = [] then ''stream/'' @ name else ident), sb_Name = name,
      sb_Role = or_empty (stream_role doc name), sb_Label = or_empty (stream_label doc name),
      sb_Parent = [], sb_Main = [], sb_StartedBy = [], sb_Depth = 0,
      sb_Talks = filter (\<lambda>ow. lg_talks l ow \<noteq> None) owners, sb_Children = [], sb_Reason = [],
      sb_own = concat (map (lg_callsOf l) owners)\<rparr>)"

text \<open>The state of the loops: of one main talk, its owners, those visited, their places and the child agents;
  and, over all of them, the streams claimed and the sub-tasks with their index by id.\<close>

record rolling =
  ro_owners :: "string list"
  ro_visited :: "string set"
  ro_at :: "string \<Rightarrow> nat"
  ro_agents :: nat
  ro_claimed :: "string set"
  ro_subtasks :: "subtask list"
  ro_subtask :: "string \<rightharpoonup> nat"

definition visit_owner :: "nat \<Rightarrow> string \<Rightarrow> rolling \<Rightarrow> rolling" where
  "visit_owner place ow st =
    (if ow \<in> ro_visited st then st
     else st\<lparr>ro_visited := insert ow (ro_visited st), ro_at := (ro_at st)(ow := place),
             ro_owners := ro_owners st @ [ow]\<rparr>)"

text \<open>A sub-task that a sub-task started: the parent is found by its stream's id, and gets the child.\<close>

definition attach_child :: "nat \<Rightarrow> nat \<Rightarrow> subtask list \<Rightarrow> subtask list" where
  "attach_child p i subs =
    (let subs1 = subs[i := (subs ! i)\<lparr>sb_Parent := sb_ID (subs ! p), sb_Depth := sb_Depth (subs ! p) + 1\<rparr>]
     in subs1[p := (subs1 ! p)\<lparr>sb_Children := sb_Children (subs1 ! p) @ [sb_ID (subs1 ! i)]\<rparr>])"

definition claim_child :: "conversation \<Rightarrow> 'f Ledger \<Rightarrow> string \<Rightarrow> string \<Rightarrow> string \<times> string \<Rightarrow> rolling \<Rightarrow> rolling" where
  "claim_child doc l t ow ch st =
    (let (name, step) = ch in
     if name \<in> ro_claimed st then st
     else
       let sub = (newSubtask doc l name)\<lparr>sb_Main := t, sb_StartedBy := step, sb_Parent := t, sb_Depth := 1\<rparr>;
           i = length (ro_subtasks st);
           index = (ro_subtask st)(sb_ID sub \<mapsto> i);
           subs = ro_subtasks st @ [sub];
           p = or_zero (index (or_empty (stream_id doc (streamOf l ow))));
           place = (if ow \<noteq> t then ro_at st ow else or_zero (lg_order l step))
       in fold (visit_owner place) (ownersOfStream l name)
            (st\<lparr>ro_claimed := insert name (ro_claimed st), ro_agents := ro_agents st + 1,
                ro_subtasks := (if ow \<noteq> t then attach_child p i subs else subs), ro_subtask := index\<rparr>))"

text \<open>The loop over the owners, which grows them; the first argument bounds its turns.\<close>

fun roll_owners :: "nat \<Rightarrow> map_order \<Rightarrow> starters \<Rightarrow> conversation \<Rightarrow> 'f Ledger \<Rightarrow> string \<Rightarrow> nat \<Rightarrow> rolling \<Rightarrow> rolling option" where
  "roll_owners 0 iter sts doc l t i st = None"
| "roll_owners (Suc fuel) iter sts doc l t i st =
    (if i < length (ro_owners st) then
       let ow = ro_owners st ! i in
       roll_owners fuel iter sts doc l t (i + 1) (fold (claim_child doc l t ow) (childrenOf iter sts ow) st)
     else Some st)"

definition start_rolling :: "string \<Rightarrow> rolling \<Rightarrow> rolling" where
  "start_rolling t st = st\<lparr>ro_owners := [t], ro_visited := {t}, ro_at := \<lambda>_. 0, ro_agents := 0\<rparr>"

definition widen_talk :: "'f Ledger \<Rightarrow> string \<Rightarrow> 'f Cost \<Rightarrow> 'f Cost" where
  "widen_talk l ow c = (case lg_talks l ow of Some t \<Rightarrow> widen c (nd_From (info t)) (nd_To (info t)) | None \<Rightarrow> c)"

definition inclusive_cost :: "'f floats \<Rightarrow> 'f Ledger \<Rightarrow> string \<Rightarrow> string list \<Rightarrow> 'f Cost" where
  "inclusive_cost fl l t owners =
    (let c = sum_ledger fl l ScopeTalk t (concat (map (lg_callsOf l) owners))
     in fold (widen_talk l) owners (c\<lparr>ct_Children := length (concat (map (lg_callsOf l) (tl owners)))\<rparr>))"

definition roll_main :: "'f floats \<Rightarrow> map_order \<Rightarrow> starters \<Rightarrow> conversation \<Rightarrow> string \<Rightarrow> ('f Ledger \<times> rolling) option \<Rightarrow> ('f Ledger \<times> rolling) option" where
  "roll_main fl iter sts doc t st =
    Option.bind st (\<lambda>(l, ro).
      map_option (\<lambda>ro'.
        (l\<lparr>lg_ownersOf := (lg_ownersOf l)(t := ro_owners ro'), lg_at := (lg_at l)(t := ro_at ro'),
           lg_agents := (lg_agents l)(t := ro_agents ro'),
           lg_inclusive := (lg_inclusive l)(t \<mapsto> inclusive_cost fl l t (ro_owners ro'))\<rparr>, ro'))
      (roll_owners (length (lg_Owners l) + 2) iter sts doc l t 0 (start_rolling t ro)))"

text \<open>What no main talk reaches, and the sub-tasks no main talk can be shown to have given.\<close>

definition reached :: "'f Ledger \<Rightarrow> string set" where
  "reached l = insert (LooseOwner ''main'') (\<Union>t \<in> set (lg_Main l). set (lg_ownersOf l t))"

definition unattributed_cost :: "'f floats \<Rightarrow> 'f Ledger \<Rightarrow> 'f Cost" where
  "unattributed_cost fl l = sum_ledger fl l ScopeUnattributed []
     (concat (map (lg_callsOf l) (filter (\<lambda>ow. ow \<notin> reached l) (map ct_ID (lg_Owners l)))))"

definition place_reason :: "starters \<Rightarrow> conversation \<Rightarrow> 'f Ledger \<Rightarrow> string \<Rightarrow> subtask \<Rightarrow> subtask" where
  "place_reason sts doc l name st =
    (case map_of sts name of
       None \<Rightarrow> st\<lparr>sb_Reason := ReasonNoStarter\<rparr>
     | Some from \<Rightarrow>
        (case from of
           [] \<Rightarrow> st\<lparr>sb_Reason := ReasonNoStarter\<rparr>
         | [(ow, step)] \<Rightarrow>
             (let p = or_empty (stream_id doc (streamOf l ow)) in
              st\<lparr>sb_StartedBy := step, sb_Reason := ReasonParentUnplaced,
                 sb_Parent := (if p = [] then ''stream/'' @ streamOf l ow else p)\<rparr>)
         | _ \<Rightarrow> st\<lparr>sb_Reason := ReasonSeveral\<rparr>))"

definition add_unplaced :: "starters \<Rightarrow> conversation \<Rightarrow> string \<Rightarrow> 'f Ledger \<Rightarrow> 'f Ledger" where
  "add_unplaced sts doc name l =
    (let st = place_reason sts doc l name (newSubtask doc l name)
     in l\<lparr>lg_subtask := (lg_subtask l)(sb_ID st \<mapsto> length (lg_Subtasks l)), lg_Subtasks := lg_Subtasks l @ [st]\<rparr>)"

definition add_nested :: "nat \<Rightarrow> 'f Ledger \<Rightarrow> 'f Ledger" where
  "add_nested i l =
    (let st = lg_Subtasks l ! i in
     if sb_Reason st \<noteq> ReasonParentUnplaced then l
     else case lg_subtask l (sb_Parent st) of
       None \<Rightarrow> l
     | Some p \<Rightarrow> l\<lparr>lg_Subtasks := (lg_Subtasks l)[p := (lg_Subtasks l ! p)\<lparr>sb_Children := sb_Children (lg_Subtasks l ! p) @ [sb_ID st]\<rparr>]\<rparr>)"

definition rollUp :: "'f floats \<Rightarrow> map_order \<Rightarrow> conversation \<Rightarrow> (string \<rightharpoonup> string) \<Rightarrow> 'f Ledger \<Rightarrow> 'f Ledger option" where
  "rollUp fl iter doc ownerOfNode l0 =
    (let sts = starters_of doc l0 ownerOfNode;
         ro0 = \<lparr>ro_owners = [], ro_visited = {}, ro_at = \<lambda>_. 0, ro_agents = 0, ro_claimed = {}, ro_subtasks = [], ro_subtask = Map.empty\<rparr>
     in map_option (\<lambda>(l, ro).
          let l1 = l\<lparr>lg_Subtasks := ro_subtasks ro, lg_subtask := ro_subtask ro\<rparr>;
              l2 = l1\<lparr>lg_Unattributed := unattributed_cost fl l1\<rparr>;
              unplaced = filter (\<lambda>name. name \<noteq> ''main'' \<and> name \<notin> ro_claimed ro) (map vs_Name (cv_Streams doc));
              l3 = fold (add_unplaced sts doc) (sort_by (<) unplaced) l2
          in fold add_nested [0..<length (lg_Subtasks l3)] l3)
        (fold (roll_main fl iter sts doc) (lg_Main l0) (Some (l0, ro0))))"

section \<open>Computing the ledger\<close>

text \<open>A result that is missing is a loop that ran out of its bound.\<close>

definition ComputeChecked :: "'f floats \<Rightarrow> map_order \<Rightarrow> conversation \<Rightarrow> string \<Rightarrow> 'f Pricing option \<Rightarrow> 'e records_reader option \<Rightarrow>
    ('e + 'f Ledger) option" where
  "ComputeChecked fl iter doc dialect pricing read =
    (let (l, order, ownerOfNode) = walk_document fl doc dialect pricing in
     case readStarted read l of
       Inl e \<Rightarrow> Some (Inl e)
     | Inr l1 \<Rightarrow> map_option Inr (rollUp fl iter doc ownerOfNode (cost_owners fl doc pricing order l1)))"


section \<open>Reading the ledger\<close>

definition Subtask :: "'f Ledger \<Rightarrow> string \<Rightarrow> subtask option" where
  "Subtask l ident = map_option (\<lambda>i. lg_Subtasks l ! i) (lg_subtask l ident)"

text \<open>The walk down a sub-task: the calls so far and the sub-tasks seen. The first argument bounds its depth.\<close>

primrec subtask_walk :: "nat \<Rightarrow> 'f Ledger \<Rightarrow> bool \<Rightarrow> string \<Rightarrow> nat list \<times> string set \<Rightarrow> (nat list \<times> string set) option" where
  "subtask_walk 0 = (\<lambda>l inclusive ident st. None)"
| "subtask_walk (Suc fuel) = (\<lambda>l inclusive ident st.
    (case Subtask l ident of
       None \<Rightarrow> Some st
     | Some sub \<Rightarrow>
         if ident \<in> snd st then Some st
         else let st' = (fst st @ sb_own sub, insert ident (snd st)) in
           if inclusive then fold (\<lambda>c r. Option.bind r (subtask_walk fuel l inclusive c)) (sb_Children sub) (Some st')
           else Some st'))"

definition SubtaskCalls :: "'f Ledger \<Rightarrow> string \<Rightarrow> bool \<Rightarrow> nat list option" where
  "SubtaskCalls l ident inclusive =
    map_option fst (subtask_walk (length (lg_Subtasks l) + 1) l inclusive ident ([], {}))"

definition CallsOf :: "'f Ledger \<Rightarrow> string \<Rightarrow> nat list" where
  "CallsOf l talk = concat (map (lg_callsOf l) (lg_ownersOf l talk))"

definition Inclusive :: "'f Ledger \<Rightarrow> string \<Rightarrow> 'f Cost option" where
  "Inclusive l talk = lg_inclusive l talk"

definition ChildAgents :: "'f Ledger \<Rightarrow> string \<Rightarrow> nat" where
  "ChildAgents l talk = lg_agents l talk"

definition Talk :: "'f Ledger \<Rightarrow> string \<Rightarrow> view_node option" where
  "Talk l ident = lg_talks l ident"

definition talk_span :: "'f Ledger \<Rightarrow> string \<Rightarrow> (int \<times> int) list" where
  "talk_span l talk = (case lg_talks l talk of Some t \<Rightarrow> [(nd_From (info t), nd_To (info t))] | None \<Rightarrow> [])"

definition TalkSpans :: "'f Ledger \<Rightarrow> string \<Rightarrow> (int \<times> int) list" where
  "TalkSpans l talk = talk_span l talk @
     concat (map (\<lambda>st. if sb_Main st = talk then concat (map (talk_span l) (sb_Talks st)) else []) (lg_Subtasks l))"

definition Place :: "'f Ledger \<Rightarrow> string \<Rightarrow> nat \<Rightarrow> nat" where
  "Place l talk call =
    (let c = lg_Calls l ! call in if cl_Owner c = talk then cl_Order c else lg_at l talk (cl_Owner c))"

definition StepPlace :: "'f Ledger \<Rightarrow> string \<Rightarrow> nat option" where
  "StepPlace l step = lg_order l step"

definition PartPlace :: "'f Ledger \<Rightarrow> string \<Rightarrow> nat option" where
  "PartPlace l step = (case lg_producedBy l step of Some c \<Rightarrow> StepPlace l c | None \<Rightarrow> StepPlace l step)"

text \<open>\<open>Select\<close> with the talks of a selection; nil leaves the ledger as it is.\<close>

definition Select :: "'f floats \<Rightarrow> string list option \<Rightarrow> 'f Ledger \<Rightarrow> 'f Ledger" where
  "Select fl sel l =
    (case sel of
       None \<Rightarrow> l
     | Some talks \<Rightarrow>
        (let l1 = l\<lparr>lg_selected := Some talks\<rparr>
         in l1\<lparr>lg_Total := sum_ledger fl l1 ScopeConversation (ct_ID (lg_Total l1)) (concat (map (CallsOf l1) talks))\<rparr>))"

definition Judged :: "'f Ledger \<Rightarrow> string list" where
  "Judged l = (case lg_selected l of Some talks \<Rightarrow> talks | None \<Rightarrow> lg_Main l)"

definition JudgesSubtask :: "'f Ledger \<Rightarrow> subtask \<Rightarrow> bool" where
  "JudgesSubtask l st = (if sb_Main st = [] then lg_selected l = None else sb_Main st \<in> set (Judged l))"

end
