(* ===== verification/Judge_Owners.thy ===== *)
theory Judge_Owners
  imports Judge_Ledger
begin

text \<open>
  The owners of a ledger add up: every call is counted once, under its owner, so the costs of the owners sum
  to the total of the conversation exactly, for the counts of calls and for the four types of tokens.
\<close>

section \<open>Costs that add up\<close>

definition cost_counts :: "'f Cost \<Rightarrow> nat list" where
  "cost_counts c = [ct_Calls c, ct_Unknown c, ct_OutputUnknown c, ct_Unpriced c]"

definition tokens_of_usage :: "usage \<Rightarrow> u64 list" where
  "tokens_of_usage u = [us_Input u, us_Output u, us_CacheRead u, us_CacheWrite u]"

definition adds_up :: "'f Cost \<Rightarrow> 'f Cost list \<Rightarrow> bool" where
  "adds_up whole parts \<longleftrightarrow>
     (\<forall>k < 4. cost_counts whole ! k = (\<Sum>c\<leftarrow>parts. cost_counts c ! k)) \<and>
     (\<forall>k < 4. tokens_of_usage (ct_Usage whole) ! k = (\<Sum>c\<leftarrow>parts. tokens_of_usage (ct_Usage c) ! k))"

text \<open>What one call adds.\<close>

definition call_counts :: "'f Call \<Rightarrow> nat list" where
  "call_counts c = [1, if cl_Usage c = None then 1 else 0, if cl_Usage c \<noteq> None \<and> cl_OutputUnknown c then 1 else 0,
     if cl_Usage c \<noteq> None \<and> cl_Price c = None then 1 else 0]"

definition call_usage :: "'f Call \<Rightarrow> usage" where
  "call_usage c = (case cl_Usage c of Some u \<Rightarrow> u | None \<Rightarrow> zero_usage)"

lemma widen_kept [simp]:
  "cost_counts (widen c x y) = cost_counts c" "ct_Usage (widen c x y) = ct_Usage c" "ct_ID (widen c x y) = ct_ID c"
  "ct_Children (widen c x y) = ct_Children c" "ct_Calls (widen c x y) = ct_Calls c"
  "ct_Unknown (widen c x y) = ct_Unknown c" "ct_OutputUnknown (widen c x y) = ct_OutputUnknown c"
  "ct_Unpriced (widen c x y) = ct_Unpriced c"
  by (simp_all add: widen_def Let_def cost_counts_def)

lemma less_4: "k < 4 \<longleftrightarrow> k = 0 \<or> k = 1 \<or> k = 2 \<or> k = (3::nat)"
  by auto

lemma sum_call_adds:
  "sum_call fl call (c, m, any) = (c', m', any') \<Longrightarrow> k < 4 \<Longrightarrow>
     cost_counts c' ! k = cost_counts c ! k + call_counts call ! k \<and>
     tokens_of_usage (ct_Usage c') ! k = tokens_of_usage (ct_Usage c) ! k + tokens_of_usage (call_usage call) ! k \<and>
     ct_ID c' = ct_ID c"
  unfolding sum_call_def Let_def less_4
  by (cases "cl_Usage call"; cases "cl_Price call"; elim disjE)
    (auto simp: cost_counts_def call_counts_def tokens_of_usage_def call_usage_def zero_usage_def add_usage_def)

lemma sum_calls_add:
  "fold (\<lambda>i. sum_call fl (cs ! i)) calls (c, m, any) = (c', m', any') \<Longrightarrow> k < 4 \<Longrightarrow>
     cost_counts c' ! k = cost_counts c ! k + (\<Sum>i\<leftarrow>calls. call_counts (cs ! i) ! k) \<and>
     tokens_of_usage (ct_Usage c') ! k = tokens_of_usage (ct_Usage c) ! k + (\<Sum>i\<leftarrow>calls. tokens_of_usage (call_usage (cs ! i)) ! k) \<and>
     ct_ID c' = ct_ID c"
proof (induction calls arbitrary: c m any)
  case (Cons i calls)
  obtain c1 m1 any1 where 1: "sum_call fl (cs ! i) (c, m, any) = (c1, m1, any1)" by (metis prod_cases3)
  with Cons.prems(1) have "fold (\<lambda>i. sum_call fl (cs ! i)) calls (c1, m1, any1) = (c', m', any')" by simp
  from Cons.IH [OF this Cons.prems(2)] sum_call_adds [OF 1 Cons.prems(2)] show ?case by simp
qed simp

lemma sum_ledger_adds:
  assumes "k < 4"
  shows "cost_counts (sum_ledger fl l scope ident calls) ! k = (\<Sum>i\<leftarrow>calls. call_counts (lg_Calls l ! i) ! k)"
    and "tokens_of_usage (ct_Usage (sum_ledger fl l scope ident calls)) ! k = (\<Sum>i\<leftarrow>calls. tokens_of_usage (call_usage (lg_Calls l ! i)) ! k)"
    and "ct_ID (sum_ledger fl l scope ident calls) = ident"
proof -
  obtain c m any where f: "fold (\<lambda>i. sum_call fl (lg_Calls l ! i)) calls (zero_cost scope ident, fl_zero fl, False) = (c, m, any)"
    by (metis prod_cases3)
  have zero: "cost_counts (zero_cost scope ident) ! k = 0" "tokens_of_usage (ct_Usage (zero_cost scope ident)) ! k = 0"
    "ct_ID (zero_cost scope ident) = ident"
    using assms by (auto simp: less_4 cost_counts_def tokens_of_usage_def zero_cost_def zero_usage_def)
  have kept: "cost_counts (if any then c\<lparr>ct_Money := x, ct_Currency := y\<rparr> else c) = cost_counts c" for x y by (simp add: cost_counts_def)
  show "cost_counts (sum_ledger fl l scope ident calls) ! k = (\<Sum>i\<leftarrow>calls. call_counts (lg_Calls l ! i) ! k)"
    "tokens_of_usage (ct_Usage (sum_ledger fl l scope ident calls)) ! k = (\<Sum>i\<leftarrow>calls. tokens_of_usage (call_usage (lg_Calls l ! i)) ! k)"
    "ct_ID (sum_ledger fl l scope ident calls) = ident"
    using sum_calls_add [OF f assms] zero by (simp_all add: sum_ledger_def f kept)
qed

text \<open>Costs of the calls of parts that hold the same calls as the whole.\<close>

lemma adds_up_calls:
  assumes sums: "\<And>k. k < 4 \<Longrightarrow> cost_counts whole ! k = (\<Sum>i\<leftarrow>calls. call_counts (cs ! i) ! k)"
      "\<And>k. k < 4 \<Longrightarrow> tokens_of_usage (ct_Usage whole) ! k = (\<Sum>i\<leftarrow>calls. tokens_of_usage (call_usage (cs ! i)) ! k)"
    and parts: "\<And>k. k < 4 \<Longrightarrow> map (\<lambda>c. cost_counts c ! k) ps = map (\<lambda>is. \<Sum>i\<leftarrow>is. call_counts (cs ! i) ! k) iss"
      "\<And>k. k < 4 \<Longrightarrow> map (\<lambda>c. tokens_of_usage (ct_Usage c) ! k) ps = map (\<lambda>is. \<Sum>i\<leftarrow>is. tokens_of_usage (call_usage (cs ! i)) ! k) iss"
    and same: "mset (concat iss) = mset calls"
  shows "adds_up whole ps"
proof -
  have perm: "(\<Sum>i\<leftarrow>calls. f i) = (\<Sum>is\<leftarrow>iss. \<Sum>i\<leftarrow>is. f i)" for f :: "nat \<Rightarrow> 'n::comm_monoid_add"
  proof -
    have "(\<Sum>i\<leftarrow>calls. f i) = (\<Sum>i\<leftarrow>concat iss. f i)"
      using same by (metis mset_map sum_mset_sum_list)
    moreover have "(\<Sum>i\<leftarrow>concat iss. f i) = (\<Sum>is\<leftarrow>iss. \<Sum>i\<leftarrow>is. f i)" by (induction iss) simp_all
    ultimately show ?thesis by simp
  qed
  have "cost_counts whole ! k = (\<Sum>c\<leftarrow>ps. cost_counts c ! k)"
    "tokens_of_usage (ct_Usage whole) ! k = (\<Sum>c\<leftarrow>ps. tokens_of_usage (ct_Usage c) ! k)" if "k < 4" for k
    by (simp_all only: sums(1) [OF that] sums(2) [OF that] parts(1) [OF that] parts(2) [OF that] perm)
  then show ?thesis by (simp add: adds_up_def)
qed

section \<open>The calls of each owner\<close>

text \<open>The index of calls by owner, written out; and what a walk under one owner leaves.\<close>

definition calls_by_owner :: "'f Call list \<Rightarrow> string \<Rightarrow> nat list" where
  "calls_by_owner cs ow = filter (\<lambda>i. cl_Owner (cs ! i) = ow) [0..<length cs]"

definition calls_kept :: "'f Ledger \<Rightarrow> bool" where
  "calls_kept l \<longleftrightarrow> lg_callsOf l = calls_by_owner (lg_Calls l)"

definition grown :: "string \<Rightarrow> 'f Ledger \<Rightarrow> 'f Ledger \<Rightarrow> bool" where
  "grown ow l l' \<longleftrightarrow> (calls_kept l \<longrightarrow> calls_kept l') \<and> (\<exists>cs. lg_Calls l' = lg_Calls l @ cs \<and> (\<forall>c \<in> set cs. cl_Owner c = ow)) \<and>
     lg_talks l' = lg_talks l \<and> lg_Main l' = lg_Main l \<and> lg_Owners l' = lg_Owners l \<and> lg_Dialect l' = lg_Dialect l"

lemma grown_refl: "grown ow l l"
  by (simp add: grown_def)

lemma grown_trans: "grown ow l l1 \<Longrightarrow> grown ow l1 l2 \<Longrightarrow> grown ow l l2"
  unfolding grown_def by force

lemma calls_by_owner_snoc:
  "calls_by_owner (cs @ [c]) ow = calls_by_owner cs ow @ (if cl_Owner c = ow then [length cs] else [])"
proof -
  have "filter (\<lambda>i. cl_Owner ((cs @ [c]) ! i) = ow) [0..<length cs] = filter (\<lambda>i. cl_Owner (cs ! i) = ow) [0..<length cs]"
    by (rule filter_cong) (simp_all add: nth_append)
  then show ?thesis by (simp add: calls_by_owner_def)
qed

lemma grown_addCall: "grown ow l (addCall n ow fl l)"
  by (auto simp: grown_def addCall_def Let_def calls_kept_def calls_by_owner_snoc fun_eq_iff)

lemma grown_visit: "grown ow (wk_ledger w) (wk_ledger (visit fl n ow call w))"
proof -
  have order: "grown ow l (l\<lparr>lg_order := x\<rparr>)" and produced: "grown ow l (l\<lparr>lg_producedBy := y\<rparr>)" for l :: "'a Ledger" and x y
    by (simp_all add: grown_def calls_kept_def)
  show ?thesis
    unfolding visit_def Let_def
    by (auto intro: grown_trans [OF order] grown_trans [OF produced] grown_trans [OF order grown_trans [OF produced]]
        grown_addCall order produced)
qed

lemma grown_walk:
  "grown ow (wk_ledger w) (wk_ledger (walk_node fl ow n call w))"
  "grown ow (wk_ledger w) (wk_ledger (walk_children fl ow ns call w))"
  by (induction fl ow n call w and fl ow ns call w rule: walk_node_walk_children.induct)
    (auto intro: grown_trans [OF grown_visit] grown_trans grown_refl)


section \<open>The walk of a document\<close>

definition talk_id :: "view_node \<Rightarrow> string" where
  "talk_id t = nd_ID (info t)"

text \<open>What the claims ask of a document: its talks have ids of their own, and no talk has the name of an owner
  of loose calls.\<close>

definition doc_ok :: "conversation \<Rightarrow> bool" where
  "doc_ok doc \<longleftrightarrow> distinct (map talk_id (cv_Talks doc)) \<and> (\<forall>t \<in> set (cv_Talks doc). \<not> is_loose (talk_id t))"

definition mains_ok :: "'f Ledger \<Rightarrow> bool" where
  "mains_ok l \<longleftrightarrow> distinct (lg_Main l) \<and> (\<forall>m \<in> set (lg_Main l). \<exists>n. lg_talks l m = Some n \<and> nd_Stream (info n) = ''main'')"

definition walked_ok :: "string list \<Rightarrow> string list \<Rightarrow> 'f Ledger \<Rightarrow> bool" where
  "walked_ok T L l \<longleftrightarrow> calls_kept l \<and> (\<forall>c \<in> set (lg_Calls l). cl_Owner c \<in> set (T @ L)) \<and>
     (\<forall>ow. lg_talks l ow \<noteq> None \<longleftrightarrow> ow \<in> set T) \<and> mains_ok l \<and> distinct T \<and> distinct L \<and>
     (\<forall>ow \<in> set L. is_loose ow) \<and> lg_Owners l = []"

lemma walked_ok_grown:
  "grown ow l l' \<Longrightarrow> ow \<in> set (T @ L) \<Longrightarrow> walked_ok T L l \<Longrightarrow> walked_ok T L l'"
  unfolding walked_ok_def grown_def mains_ok_def by auto

lemma walk_talk_ok:
  assumes "walked_ok T [] (wk_ledger w)" "order = T" "talk_id t \<notin> set T" "walk_talk fl t (w, order) = (w', order')"
  shows "walked_ok (T @ [talk_id t]) [] (wk_ledger w') \<and> order' = T @ [talk_id t]"
proof -
  let ?l = "wk_ledger w"
  let ?l1 = "?l\<lparr>lg_talks := (lg_talks ?l)(talk_id t \<mapsto> t)\<rparr>"
  let ?l2 = "if nd_Stream (info t) = ''main'' then ?l1\<lparr>lg_Main := lg_Main ?l1 @ [talk_id t]\<rparr> else ?l1"
  have new: "lg_talks ?l (talk_id t) = None" "talk_id t \<notin> set (lg_Main ?l)"
    using assms(1,3) by (force simp: walked_ok_def mains_ok_def)+
  have "walked_ok (T @ [talk_id t]) [] ?l2"
    using assms(1,3) new unfolding walked_ok_def mains_ok_def calls_kept_def by (auto split: if_splits)
  moreover have "wk_ledger w' = wk_ledger (walk_node fl (talk_id t) t [] (w\<lparr>wk_ledger := ?l2\<rparr>))" "order' = order @ [talk_id t]"
    using assms(4) by (auto simp: walk_talk_def Let_def talk_id_def)
  ultimately show ?thesis
    using walked_ok_grown [OF grown_walk(1) [of "talk_id t" "w\<lparr>wk_ledger := ?l2\<rparr>" fl t "[]"], of "T @ [talk_id t]" "[]"] assms(2)
    by simp
qed

lemma walk_talks_ok:
  "walked_ok T [] (wk_ledger w) \<Longrightarrow> distinct (map talk_id ts) \<Longrightarrow> set (map talk_id ts) \<inter> set T = {} \<Longrightarrow>
     fold (walk_talk fl) ts (w, T) = (w', order') \<Longrightarrow>
     walked_ok (T @ map talk_id ts) [] (wk_ledger w') \<and> order' = T @ map talk_id ts"
proof (induction ts arbitrary: T w)
  case (Cons t ts)
  obtain w1 o1 where 1: "walk_talk fl t (w, T) = (w1, o1)" by (cases "walk_talk fl t (w, T)")
  with Cons.prems have "walked_ok (T @ [talk_id t]) [] (wk_ledger w1) \<and> o1 = T @ [talk_id t]"
    by (intro walk_talk_ok) auto
  with Cons.IH [of "T @ [talk_id t]" w1] Cons.prems 1 show ?case by auto
qed simp

lemma is_loose_LooseOwner: "is_loose (LooseOwner s)"
  by (simp add: is_loose_def LooseOwner_def)

lemma walk_loose_ok:
  assumes "walked_ok T L (wk_ledger w)" "order = T @ L" "walk_loose fl n (w, order, set L) = (w', order', loose')"
  shows "\<exists>L'. walked_ok T L' (wk_ledger w') \<and> order' = T @ L' \<and> loose' = set L'"
proof -
  let ?ow = "LooseOwner (nd_Stream (info n))"
  define L' where "L' = (if ?ow \<in> set L then L else L @ [?ow])"
  have w': "wk_ledger w' = wk_ledger (walk_node fl ?ow n [] w)" "order' = T @ L'" "loose' = set L'"
    using assms(2,3) by (auto simp: walk_loose_def L'_def Let_def split: if_splits)
  have "walked_ok T L' (wk_ledger w)" "?ow \<in> set (T @ L')"
    using assms(1) is_loose_LooseOwner by (auto simp: walked_ok_def L'_def)
  with walked_ok_grown [OF grown_walk(1)] w' show ?thesis by metis
qed

lemma walk_looses_ok:
  "walked_ok T L (wk_ledger w) \<Longrightarrow> fold (walk_loose fl) ns (w, T @ L, set L) = (w', order', loose') \<Longrightarrow>
     \<exists>L'. walked_ok T L' (wk_ledger w') \<and> order' = T @ L'"
proof (induction ns arbitrary: L w)
  case (Cons n ns)
  obtain w1 o1 l1 where 1: "walk_loose fl n (w, T @ L, set L) = (w1, o1, l1)" by (metis prod_cases3)
  from walk_loose_ok [OF Cons.prems(1) refl 1] obtain L' where L': "walked_ok T L' (wk_ledger w1)" "o1 = T @ L'" "l1 = set L'" by blast
  with Cons.IH [OF L'(1)] Cons.prems(2) 1 show ?case by simp
qed auto

lemma walk_document_ok:
  assumes "doc_ok doc" "walk_document fl doc dialect pricing = (l, order, nodes)"
  shows "\<exists>L. walked_ok (map talk_id (cv_Talks doc)) L l \<and> order = map talk_id (cv_Talks doc) @ L"
proof -
  define w0 :: "'a walked" where
    "w0 = \<lparr>wk_ledger = empty_ledger dialect pricing, wk_ownerOfNode = Map.empty, wk_counter = \<lambda>_. 0\<rparr>"
  obtain w1 o1 where 1: "fold (walk_talk fl) (cv_Talks doc) (w0, []) = (w1, o1)" by (metis prod.exhaust)
  obtain w2 o2 ls where 2: "fold (walk_loose fl) (cv_Loose doc) (w1, o1, {}) = (w2, o2, ls)" by (metis prod_cases3)
  have l: "l = wk_ledger w2" "order = o2"
    using assms(2) 1 2 by (simp_all add: walk_document_def w0_def [symmetric] Let_def)
  have "walked_ok [] [] (wk_ledger w0)"
    by (simp add: walked_ok_def w0_def empty_ledger_def calls_kept_def calls_by_owner_def fun_eq_iff mains_ok_def)
  from walk_talks_ok [OF this _ _ 1] assms(1)
  have "walked_ok (map talk_id (cv_Talks doc)) [] (wk_ledger w1)" "o1 = map talk_id (cv_Talks doc)"
    by (auto simp: doc_ok_def)
  with walk_looses_ok [of "map talk_id (cv_Talks doc)" "[]" w1 fl "cv_Loose doc" w2 o2 ls] 2 l show ?thesis by auto
qed


section \<open>The costs of the owners\<close>

definition part_sums :: "'f Ledger \<Rightarrow> nat list \<Rightarrow> 'f Cost \<Rightarrow> bool" where
  "part_sums l calls c \<longleftrightarrow> (\<forall>k < 4. cost_counts c ! k = (\<Sum>i\<leftarrow>calls. call_counts (lg_Calls l ! i) ! k) \<and>
     tokens_of_usage (ct_Usage c) ! k = (\<Sum>i\<leftarrow>calls. tokens_of_usage (call_usage (lg_Calls l ! i)) ! k))"

lemma part_sums_sum_ledger: "part_sums l calls (sum_ledger fl l scope ident calls)"
  by (simp add: part_sums_def sum_ledger_adds)

lemma sum_ledger_ID [simp]: "ct_ID (sum_ledger fl l scope ident calls) = ident"
  by (rule sum_ledger_adds(3) [of 0]) simp

lemma part_sums_calls: "lg_Calls l' = lg_Calls l \<Longrightarrow> part_sums l' calls c = part_sums l calls c"
  by (simp add: part_sums_def)

lemma part_sums_cost:
  "cost_counts c' = cost_counts c \<Longrightarrow> ct_Usage c' = ct_Usage c \<Longrightarrow> part_sums l calls c' = part_sums l calls c"
  by (simp add: part_sums_def)

lemma part_sums_adds_up:
  assumes "part_sums l calls whole" "list_all2 (part_sums l) iss ps" "mset (concat iss) = mset calls"
  shows "adds_up whole ps"
proof (rule adds_up_calls [where cs = "lg_Calls l" and calls = calls and iss = iss])
  fix k :: nat assume k: "k < 4"
  show "cost_counts whole ! k = (\<Sum>i\<leftarrow>calls. call_counts (lg_Calls l ! i) ! k)"
    "tokens_of_usage (ct_Usage whole) ! k = (\<Sum>i\<leftarrow>calls. tokens_of_usage (call_usage (lg_Calls l ! i)) ! k)"
    using assms(1) k by (simp_all add: part_sums_def)
  show "map (\<lambda>c. cost_counts c ! k) ps = map (\<lambda>is. \<Sum>i\<leftarrow>is. call_counts (lg_Calls l ! i) ! k) iss"
    "map (\<lambda>c. tokens_of_usage (ct_Usage c) ! k) ps = map (\<lambda>is. \<Sum>i\<leftarrow>is. tokens_of_usage (call_usage (lg_Calls l ! i)) ! k) iss"
    using assms(2) k by (induction rule: list_all2_induct) (simp_all add: part_sums_def)
qed (rule assms(3))

text \<open>The owners partition the calls.\<close>

lemma calls_partition:
  assumes "distinct owners" "\<forall>c \<in> set cs. cl_Owner c \<in> set owners"
  shows "mset (concat (map (calls_by_owner cs) owners)) = mset [0..<length cs]"
proof -
  have "mset (concat (map (\<lambda>ow. filter (\<lambda>i. f i = ow) xs) owners)) = filter_mset (\<lambda>i. f i \<in> set owners) (mset xs)"
    if "distinct owners" for f :: "nat \<Rightarrow> string" and xs owners
    using that
  proof (induction owners)
    case (Cons ow owners)
    have "filter_mset (\<lambda>i. f i \<in> set (ow # owners)) (mset xs) =
        filter_mset (\<lambda>i. f i = ow) (mset xs) + filter_mset (\<lambda>i. f i \<in> set owners) (mset xs)"
      using Cons.prems by (intro multiset_eqI) auto
    with Cons show ?case by simp
  qed simp
  note this [OF assms(1), of "\<lambda>i. cl_Owner (cs ! i)" "[0..<length cs]"]
  moreover have "filter_mset (\<lambda>i. cl_Owner (cs ! i) \<in> set owners) (mset [0..<length cs]) = mset [0..<length cs]"
    using assms(2) by (auto simp: filter_mset_eq_conv)
  ultimately show ?thesis by (simp add: calls_by_owner_def [abs_def])
qed

definition owners_ok :: "'f Ledger \<Rightarrow> bool" where
  "owners_ok l \<longleftrightarrow> calls_kept l \<and> distinct (map ct_ID (lg_Owners l)) \<and>
     (\<forall>c \<in> set (lg_Calls l). cl_Owner c \<in> set (map ct_ID (lg_Owners l))) \<and>
     (\<forall>c \<in> set (lg_Owners l). part_sums l (lg_callsOf l (ct_ID c)) c) \<and>
     part_sums l [0..<length (lg_Calls l)] (lg_Total l) \<and> mains_ok l \<and>
     (\<forall>ow. lg_talks l ow \<noteq> None \<longrightarrow> ow \<in> set (map ct_ID (lg_Owners l)) \<and> \<not> is_loose ow) \<and>
     (\<forall>ow \<in> set (map ct_ID (lg_Owners l)). lg_talks l ow = None \<longrightarrow> is_loose ow)"

lemma owners_add_up_ok:
  assumes "owners_ok l"
  shows "adds_up (lg_Total l) (lg_Owners l)"
proof (rule part_sums_adds_up [where l = l and calls = "[0..<length (lg_Calls l)]" and iss = "map (lg_callsOf l \<circ> ct_ID) (lg_Owners l)"])
  show "list_all2 (part_sums l) (map (lg_callsOf l \<circ> ct_ID) (lg_Owners l)) (lg_Owners l)"
    using assms by (auto simp: owners_ok_def list_all2_conv_all_nth)
  show "mset (concat (map (lg_callsOf l \<circ> ct_ID) (lg_Owners l))) = mset [0..<length (lg_Calls l)]"
    using assms calls_partition [of "map ct_ID (lg_Owners l)" "lg_Calls l"] by (simp add: owners_ok_def calls_kept_def)
qed (use assms in \<open>simp add: owners_ok_def\<close>)

section \<open>From the walk to the costs\<close>

definition same_calls :: "'f Ledger \<Rightarrow> 'f Ledger \<Rightarrow> bool" where
  "same_calls l l' \<longleftrightarrow> map cl_Owner (lg_Calls l') = map cl_Owner (lg_Calls l) \<and> lg_callsOf l' = lg_callsOf l \<and>
     lg_talks l' = lg_talks l \<and> lg_Main l' = lg_Main l \<and> lg_Owners l' = lg_Owners l"

lemma calls_by_owner_map: "map cl_Owner cs' = map cl_Owner cs \<Longrightarrow> calls_by_owner cs' = calls_by_owner cs"
proof -
  assume eq: "map cl_Owner cs' = map cl_Owner cs"
  then have len: "length cs' = length cs" by (metis length_map)
  have "cl_Owner (cs' ! i) = cl_Owner (cs ! i)" if "i < length cs" for i
    using eq that len by (metis nth_map)
  with len show ?thesis by (auto simp: calls_by_owner_def fun_eq_iff intro: filter_cong)
qed

lemma walked_ok_same:
  assumes "same_calls l l'" "walked_ok T L l"
  shows "walked_ok T L l'"
proof -
  have "calls_kept l'" using assms calls_by_owner_map [of "lg_Calls l'" "lg_Calls l"]
    by (simp add: walked_ok_def same_calls_def calls_kept_def)
  moreover have "cl_Owner ` set (lg_Calls l') = cl_Owner ` set (lg_Calls l)"
    using assms(1) by (metis same_calls_def list.set_map)
  then have "cl_Owner ` set (lg_Calls l') \<subseteq> set (T @ L)"
    using assms(2) by (auto simp: walked_ok_def)
  then have "\<forall>c \<in> set (lg_Calls l'). cl_Owner c \<in> set (T @ L)" by blast
  ultimately show ?thesis using assms unfolding walked_ok_def same_calls_def mains_ok_def by presburger
qed

lemma started_usage_owner [simp]: "cl_Owner (started_usage recs rs c) = cl_Owner c"
  by (induction rs) (auto split: option.splits)

lemma readStarted_same: "readStarted read l = Inr l' \<Longrightarrow> same_calls l l'"
  by (auto simp: readStarted_def same_calls_def Let_def o_def split: option.splits if_splits)

lemma price_step_same: "i < length (lg_Calls l) \<Longrightarrow> same_calls l (price_step fl pricing i l)"
  by (auto simp: price_step_def same_calls_def Let_def price_call_def map_update list_update_id split: option.splits)
    (metis length_map list_update_id nth_map)+

lemma price_steps_same:
  "\<forall>i \<in> set is. i < length (lg_Calls l) \<Longrightarrow> same_calls l (fold (price_step fl pricing) is l)"
proof (induction "is" arbitrary: l)
  case (Cons i "is")
  then have 1: "same_calls l (price_step fl pricing i l)" by (intro price_step_same) simp
  then have "length (lg_Calls (price_step fl pricing i l)) = length (lg_Calls l)" by (metis same_calls_def length_map)
  with Cons.IH [of "price_step fl pricing i l"] Cons.prems 1 show ?case by (simp add: same_calls_def)
qed (simp add: same_calls_def)


lemma add_owner_kept:
  "lg_Calls (add_owner fl ow l) = lg_Calls l" "lg_callsOf (add_owner fl ow l) = lg_callsOf l"
  "lg_talks (add_owner fl ow l) = lg_talks l" "lg_Main (add_owner fl ow l) = lg_Main l"
  by (simp_all add: add_owner_def Let_def)

lemma add_owner_cost:
  "\<exists>c. lg_Owners (add_owner fl ow l) = lg_Owners l @ [c] \<and> ct_ID c = ow \<and> part_sums l (lg_callsOf l ow) c"
proof -
  let ?c = "sum_ledger fl l (scopeOf ow) ow (lg_callsOf l ow)"
  have "part_sums l (lg_callsOf l ow) (widen ?c x y)" for x y
    using part_sums_cost [of "widen ?c x y" ?c l "lg_callsOf l ow"] part_sums_sum_ledger by simp
  then show ?thesis
    by (cases "lg_talks l ow") (simp_all add: add_owner_def Let_def part_sums_sum_ledger)
qed

lemma add_owners_ok:
  "fold (add_owner fl) order l = l' \<Longrightarrow>
     lg_Calls l' = lg_Calls l \<and> lg_callsOf l' = lg_callsOf l \<and> lg_talks l' = lg_talks l \<and> lg_Main l' = lg_Main l \<and>
     (\<exists>cs. lg_Owners l' = lg_Owners l @ cs \<and> map ct_ID cs = order \<and> (\<forall>c \<in> set cs. part_sums l (lg_callsOf l (ct_ID c)) c))"
proof (induction order arbitrary: l)
  case (Cons ow order)
  obtain c where c: "lg_Owners (add_owner fl ow l) = lg_Owners l @ [c]" "ct_ID c = ow" "part_sums l (lg_callsOf l ow) c"
    using add_owner_cost by blast
  from Cons.prems have "fold (add_owner fl) order (add_owner fl ow l) = l'" by simp
  from Cons.IH [OF this] obtain cs where "lg_Owners l' = lg_Owners l @ c # cs" "map ct_ID cs = order"
    "\<forall>c \<in> set cs. part_sums l (lg_callsOf l (ct_ID c)) c"
    "lg_Calls l' = lg_Calls l" "lg_callsOf l' = lg_callsOf l" "lg_talks l' = lg_talks l" "lg_Main l' = lg_Main l"
    using c(1) part_sums_calls [OF add_owner_kept(1) [of fl ow l]] by (auto simp: add_owner_kept)
  with c(2,3) show ?case by (auto intro!: exI [of _ "c # cs"])
qed auto

lemma cost_owners_ok:
  assumes "walked_ok T L l" "order = T @ L" "\<forall>ow \<in> set T. \<not> is_loose ow" "cost_owners fl doc pricing order l = l'"
  shows "owners_ok l' \<and> map ct_ID (lg_Owners l') = order"
proof -
  define l1 where "l1 = fold (price_step fl pricing) [0..<length (lg_Calls l)] l"
  let ?l2 = "fold (add_owner fl) order l1"
  have 1: "walked_ok T L l1" unfolding l1_def using walked_ok_same [OF price_steps_same assms(1)] by simp
  from add_owners_ok [OF refl, of fl order l1] obtain cs where 2: "lg_Owners ?l2 = lg_Owners l1 @ cs" "map ct_ID cs = order"
    "\<forall>c \<in> set cs. part_sums l1 (lg_callsOf l1 (ct_ID c)) c"
    "lg_Calls ?l2 = lg_Calls l1" "lg_callsOf ?l2 = lg_callsOf l1" "lg_talks ?l2 = lg_talks l1" "lg_Main ?l2 = lg_Main l1"
    by blast
  have own: "lg_Owners ?l2 = cs" using 1 2(1) by (simp add: walked_ok_def)
  have l': "l' = ?l2\<lparr>lg_Total := sum_ledger fl ?l2 ScopeConversation (cv_Conversation doc) [0..<length (lg_Calls ?l2)]\<rparr>"
    using assms(4) by (simp add: cost_owners_def Let_def l1_def)
  have disj: "set T \<inter> set L = {}" using assms(3) 1 by (auto simp: walked_ok_def)
  have sums: "part_sums l' = part_sums l1" "part_sums l' = part_sums ?l2"
    using 2(4) by (simp_all add: fun_eq_iff part_sums_def l')
  have "\<forall>c \<in> set (lg_Owners l'). part_sums l' (lg_callsOf l' (ct_ID c)) c"
    using 2(3,5) own sums by (simp add: l')
  moreover have "part_sums l' [0..<length (lg_Calls l')] (lg_Total l')"
    using part_sums_sum_ledger [of ?l2] unfolding sums(2) by (simp add: l')
  moreover have "calls_kept l'" "mains_ok l'" "\<forall>c \<in> set (lg_Calls l'). cl_Owner c \<in> set order"
    using 1 2 assms(2) by (simp_all add: walked_ok_def calls_kept_def mains_ok_def l')
  moreover have "lg_talks l' = lg_talks l1" "lg_Owners l' = cs" using 2(6) own by (simp_all add: l')
  moreover have "distinct order" using 1 disj assms(2) by (simp add: walked_ok_def)
  moreover have "lg_talks l1 ow = None \<longleftrightarrow> ow \<notin> set T" for ow using 1 unfolding walked_ok_def by metis
  moreover have "\<forall>ow \<in> set L. is_loose ow" using 1 by (simp add: walked_ok_def)
  ultimately show ?thesis
    using 2(2) assms(2,3) unfolding owners_ok_def by auto
qed

end
