(* ===== verification/Judge_Rollup.thy ===== *)
theory Judge_Rollup
  imports Judge_Owners
begin

text \<open>
  The rollup of a ledger: its loops end, every child stream is claimed by at most one main talk, the main talks
  reach disjoint sets of owners, and their inclusive costs, the unattributed cost and the loose calls of the
  main stream add up to the total.
\<close>

section \<open>The starters\<close>

definition stream_names :: "conversation \<Rightarrow> string set" where
  "stream_names doc = vs_Name ` set (cv_Streams doc)"

definition starters_ok :: "conversation \<Rightarrow> starters \<Rightarrow> bool" where
  "starters_ok doc sts \<longleftrightarrow> distinct (map fst sts) \<and>
     (\<forall>name \<in> fst ` set sts. name \<noteq> ''main'' \<and> name \<in> stream_names doc)"

lemma fold_update_range:
  "foldl (\<lambda>m s. m(f s \<mapsto> g s)) m0 xs k = Some v \<Longrightarrow> m0 k = Some v \<or> v \<in> g ` set xs"
  by (induction xs arbitrary: m0) (fastforce split: if_splits)+

lemma stream_name_in: "stream_name doc i = Some name \<Longrightarrow> name \<in> stream_names doc"
  unfolding stream_name_def stream_names_def using fold_update_range [of vs_ID vs_Name Map.empty] by fastforce

lemma add_starter_ok: "starters_ok doc sts \<Longrightarrow> starters_ok doc (add_starter doc l nodes r sts)"
proof -
  assume ok: "starters_ok doc sts"
  have step: "starters_ok doc (AList.update name fr sts)" if "name \<noteq> ''main''" "stream_name doc i = Some name" for name fr i
    using ok that stream_name_in [OF that(2)] by (auto simp: starters_ok_def distinct_update dom_update)
  show ?thesis
    unfolding add_starter_def Let_def
    by (cases "stream_name doc (vl_To r)") (auto simp: ok or_empty_def step split: option.split)
qed

lemma starters_of_ok: "starters_ok doc (starters_of doc l nodes)"
proof -
  have "starters_ok doc sts \<Longrightarrow> starters_ok doc (fold (add_starter doc l nodes) rs sts)" for rs sts
    by (induction rs arbitrary: sts) (simp_all add: add_starter_ok)
  moreover have "starters_ok doc []" by (simp add: starters_ok_def)
  ultimately show ?thesis unfolding starters_of_def by blast
qed

text \<open>What the rollup asks of the order in which a map is ranged over: every entry once.\<close>

definition ranges :: "map_order \<Rightarrow> bool" where
  "ranges iter \<longleftrightarrow> (\<forall>xs. mset (iter xs) = mset xs)"

lemma ranges_set: "ranges iter \<Longrightarrow> set (iter xs) = set xs"
  unfolding ranges_def by (metis set_mset_mset)

lemma childrenOf_names:
  assumes "ranges iter" "starters_ok doc sts" "(name, step) \<in> set (childrenOf iter sts ow)"
  shows "name \<noteq> ''main'' \<and> name \<in> stream_names doc"
proof -
  have "name \<in> fst ` set sts"
    using assms(3) ranges_set [OF assms(1)]
    by (force simp: childrenOf_def split: list.splits if_splits)
  with assms(2) show ?thesis by (auto simp: starters_ok_def)
qed

section \<open>One main talk\<close>

abbreviation owner_ids :: "'f Ledger \<Rightarrow> string list" where
  "owner_ids l \<equiv> map ct_ID (lg_Owners l)"

text \<open>The streams claimed so far and their sub-tasks.\<close>

definition index_ok :: "(string \<rightharpoonup> nat) \<Rightarrow> string list \<Rightarrow> bool" where
  "index_ok index ids \<longleftrightarrow> (\<forall>ident i. index ident = Some i \<longrightarrow> i < length ids \<and> ids ! i = ident)"

lemma index_ok_snoc: "index_ok index ids \<Longrightarrow> index_ok (index(ident \<mapsto> length ids)) (ids @ [ident])"
  by (auto simp: index_ok_def nth_append less_Suc_eq)

definition claims_ok :: "conversation \<Rightarrow> rolling \<Rightarrow> bool" where
  "claims_ok doc st \<longleftrightarrow> ''main'' \<notin> ro_claimed st \<and> ro_claimed st \<subseteq> stream_names doc \<and>
     distinct (map sb_Name (ro_subtasks st)) \<and> set (map sb_Name (ro_subtasks st)) = ro_claimed st \<and>
     index_ok (ro_subtask st) (map sb_ID (ro_subtasks st))"

text \<open>The owners of a main talk, of which all but the talk itself belong to streams claimed since \<open>C0\<close>.\<close>

definition talk_owners_ok :: "'f Ledger \<Rightarrow> string \<Rightarrow> string set \<Rightarrow> string list \<Rightarrow> bool" where
  "talk_owners_ok l t C owners \<longleftrightarrow> distinct owners \<and> (\<exists>rest. owners = t # rest \<and>
     (\<forall>ow \<in> set rest. ow \<in> set (owner_ids l) \<and> streamOf l ow \<in> C))"

definition roll_ok :: "conversation \<Rightarrow> 'f Ledger \<Rightarrow> string \<Rightarrow> string set \<Rightarrow> rolling \<Rightarrow> bool" where
  "roll_ok doc l t C0 st \<longleftrightarrow> claims_ok doc st \<and> C0 \<subseteq> ro_claimed st \<and> ro_visited st = set (ro_owners st) \<and>
     talk_owners_ok l t (ro_claimed st - C0) (ro_owners st)"

lemma visit_owner_ok:
  "roll_ok doc l t C0 st \<Longrightarrow> ow \<in> set (owner_ids l) \<Longrightarrow> streamOf l ow \<in> ro_claimed st - C0 \<Longrightarrow>
     roll_ok doc l t C0 (visit_owner place ow st)"
  by (auto simp: visit_owner_def roll_ok_def talk_owners_ok_def claims_ok_def)

lemma visit_owner_claimed [simp]: "ro_claimed (visit_owner place ow st) = ro_claimed st"
  by (simp add: visit_owner_def)

lemma visit_owners_ok:
  "roll_ok doc l t C0 st \<Longrightarrow> \<forall>ow \<in> set ows. ow \<in> set (owner_ids l) \<and> streamOf l ow \<in> ro_claimed st - C0 \<Longrightarrow>
     roll_ok doc l t C0 (fold (visit_owner place) ows st)"
  by (induction ows arbitrary: st) (simp_all add: visit_owner_ok)

lemma newSubtask_Name [simp]: "sb_Name (newSubtask doc l name) = name"
  by (simp add: newSubtask_def Let_def)

lemma map_attach_child:
  "(\<And>s x y. f (s\<lparr>sb_Parent := x, sb_Depth := y\<rparr>) = f s) \<Longrightarrow> (\<And>s x. f (s\<lparr>sb_Children := x\<rparr>) = f s) \<Longrightarrow>
     map f (attach_child p i subs) = map f subs"
  unfolding attach_child_def Let_def
  by (cases "i < length subs"; cases "p < length subs")
    (auto simp: map_update list_update_beyond intro!: nth_equalityI simp: nth_list_update)

lemma attach_child_kept [simp]:
  "map sb_Name (attach_child p i subs) = map sb_Name subs" "map sb_ID (attach_child p i subs) = map sb_ID subs"
  by (rule map_attach_child; simp)+

lemma claimed_ok:
  assumes "roll_ok doc l t C0 st" "name \<noteq> ''main''" "name \<in> stream_names doc" "name \<notin> ro_claimed st"
    and names: "map sb_Name subs = map sb_Name (ro_subtasks st) @ [name]"
    and ids: "map sb_ID subs = map sb_ID (ro_subtasks st) @ [ident]" "index = (ro_subtask st)(ident \<mapsto> length (ro_subtasks st))"
  shows "roll_ok doc l t C0 (fold (visit_owner place) (ownersOfStream l name)
    (st\<lparr>ro_claimed := insert name (ro_claimed st), ro_agents := n, ro_subtasks := subs, ro_subtask := index\<rparr>))"
proof (rule visit_owners_ok)
  have "index_ok index (map sb_ID subs)"
    using index_ok_snoc [of "ro_subtask st" "map sb_ID (ro_subtasks st)" ident] assms(1) unfolding ids
    by (simp add: roll_ok_def claims_ok_def)
  moreover
  have "distinct (map sb_Name subs)" "set (map sb_Name subs) = insert name (ro_claimed st)"
    using assms(1,4) unfolding names roll_ok_def claims_ok_def by auto
  ultimately show "roll_ok doc l t C0 (st\<lparr>ro_claimed := insert name (ro_claimed st), ro_agents := n, ro_subtasks := subs, ro_subtask := index\<rparr>)"
    using assms(1-4) unfolding roll_ok_def claims_ok_def talk_owners_ok_def by auto
qed (use assms in \<open>auto simp: ownersOfStream_def roll_ok_def\<close>)

lemma claim_child_ok:
  assumes "roll_ok doc l t C0 st" "name \<noteq> ''main''" "name \<in> stream_names doc"
  shows "roll_ok doc l t C0 (claim_child doc l t ow (name, step) st)"
proof (cases "name \<in> ro_claimed st")
  case True
  with assms(1) show ?thesis by (simp add: claim_child_def)
next
  case False
  show ?thesis
    unfolding claim_child_def Let_def prod.case if_not_P [OF False]
    by (rule claimed_ok [OF assms False]) simp_all
qed

lemma claim_children_ok:
  "roll_ok doc l t C0 st \<Longrightarrow> \<forall>(name, step) \<in> set chs. name \<noteq> ''main'' \<and> name \<in> stream_names doc \<Longrightarrow>
     roll_ok doc l t C0 (fold (claim_child doc l t ow) chs st)"
  by (induction chs arbitrary: st) (auto simp: claim_child_ok)

text \<open>The owners of a talk are no more than all owners and the talk itself, so the loop over them ends.\<close>

lemma talk_owners_bound:
  assumes "talk_owners_ok l t C owners"
  shows "length owners \<le> length (lg_Owners l) + 1"
proof -
  obtain rest where rest: "owners = t # rest" "distinct rest" "\<forall>ow \<in> set rest. ow \<in> set (owner_ids l)"
    using assms unfolding talk_owners_ok_def by auto
  then have "set rest \<subseteq> set (owner_ids l)" by blast
  with rest(2) have "length rest \<le> length (owner_ids l)" by (metis List.finite_set card_length card_mono distinct_card le_trans)
  with rest(1) show ?thesis by simp
qed

lemma visit_owners_grow: "\<exists>xs. ro_owners (fold (visit_owner place) ows st) = ro_owners st @ xs"
proof (induction ows arbitrary: st)
  case (Cons ow ows)
  have "\<exists>ys. ro_owners (visit_owner place ow st) = ro_owners st @ ys" by (simp add: visit_owner_def)
  with Cons [of "visit_owner place ow st"] show ?case by auto
qed simp

lemma visit_owners_grow_from:
  "\<exists>xs. ro_owners (fold (visit_owner place) ows (st\<lparr>ro_claimed := c, ro_agents := n, ro_subtasks := subs, ro_subtask := index\<rparr>)) =
    ro_owners st @ xs"
  using visit_owners_grow [of place ows "st\<lparr>ro_claimed := c, ro_agents := n, ro_subtasks := subs, ro_subtask := index\<rparr>"] by simp

lemma claim_child_grow: "\<exists>xs. ro_owners (claim_child doc l t ow ch st) = ro_owners st @ xs"
proof (cases ch)
  case (Pair name step)
  show ?thesis
  proof (cases "name \<in> ro_claimed st")
    case True
    then show ?thesis by (simp add: Pair claim_child_def)
  next
    case False
    show ?thesis
      unfolding Pair claim_child_def Let_def prod.case if_not_P [OF False] by (rule visit_owners_grow_from)
  qed
qed

lemma claim_children_grow: "\<exists>xs. ro_owners (fold (claim_child doc l t ow) chs st) = ro_owners st @ xs"
proof (induction chs arbitrary: st)
  case (Cons ch chs)
  obtain xs where "ro_owners (claim_child doc l t ow ch st) = ro_owners st @ xs" using claim_child_grow by blast
  with Cons.IH [of "claim_child doc l t ow ch st"] show ?case by auto
qed simp

lemma roll_owners_ok:
  assumes "ranges iter" "starters_ok doc sts"
  shows "roll_ok doc l t C0 st \<Longrightarrow> i \<le> length (ro_owners st) \<Longrightarrow> length (lg_Owners l) + 2 \<le> fuel + i \<Longrightarrow>
    \<exists>st'. roll_owners fuel iter sts doc l t i st = Some st' \<and> roll_ok doc l t C0 st'"
proof (induction fuel arbitrary: i st)
  case 0
  then have "length (ro_owners st) \<le> length (lg_Owners l) + 1"
    using talk_owners_bound unfolding roll_ok_def by blast
  with 0 show ?case by simp
next
  case (Suc fuel)
  show ?case
  proof (cases "i < length (ro_owners st)")
    case True
    let ?st = "fold (claim_child doc l t (ro_owners st ! i)) (childrenOf iter sts (ro_owners st ! i)) st"
    have "\<forall>(name, step) \<in> set (childrenOf iter sts (ro_owners st ! i)). name \<noteq> ''main'' \<and> name \<in> stream_names doc"
      using childrenOf_names [OF assms] by blast
    from claim_children_ok [OF Suc.prems(1) this] have "roll_ok doc l t C0 ?st" .
    moreover obtain xs where "ro_owners ?st = ro_owners st @ xs" using claim_children_grow by blast
    then have "i + 1 \<le> length (ro_owners ?st)" using True by simp
    ultimately show ?thesis using Suc.IH [of ?st "i + 1"] Suc.prems(3) True by (simp add: Let_def)
  next
    case False
    with Suc.prems(1) show ?thesis by simp
  qed
qed


section \<open>All main talks\<close>

text \<open>The parts of a ledger that the rollup reads and never changes.\<close>

definition same_base :: "'f Ledger \<Rightarrow> 'f Ledger \<Rightarrow> bool" where
  "same_base l l' \<longleftrightarrow> lg_Calls l' = lg_Calls l \<and> lg_Owners l' = lg_Owners l \<and> lg_Main l' = lg_Main l \<and>
     lg_Total l' = lg_Total l \<and> lg_callsOf l' = lg_callsOf l \<and> lg_talks l' = lg_talks l \<and> lg_order l' = lg_order l \<and>
     lg_Prices l' = lg_Prices l \<and> lg_Dialect l' = lg_Dialect l \<and> lg_Currency l' = lg_Currency l"

lemma streamOf_cong: "same_base l l' \<Longrightarrow> streamOf l' ow = streamOf l ow"
  by (simp add: streamOf_def same_base_def)

lemma claim_child_cong: "same_base l l' \<Longrightarrow> claim_child doc l' t ow = claim_child doc l t ow"
proof (intro ext)
  fix ch st assume same: "same_base l l'"
  have owners: "ownersOfStream l' = ownersOfStream l"
    using same streamOf_cong [OF same] by (simp add: ownersOfStream_def same_base_def fun_eq_iff)
  have sub: "newSubtask doc l' = newSubtask doc l"
    unfolding newSubtask_def fun_eq_iff owners using same by (simp add: same_base_def)
  have order: "lg_order l' = lg_order l" using same by (simp add: same_base_def)
  show "claim_child doc l' t ow ch st = claim_child doc l t ow ch st"
    by (simp only: claim_child_def owners sub order streamOf_cong [OF same])
qed

lemma roll_owners_cong:
  "same_base l l' \<Longrightarrow> roll_owners fuel iter sts doc l' t i st = roll_owners fuel iter sts doc l t i st"
  by (induction fuel arbitrary: i st) (simp_all add: Let_def claim_child_cong)

text \<open>A cost's time range reaches the end of a talk.\<close>

definition covers :: "'f Ledger \<Rightarrow> string \<Rightarrow> 'f Cost \<Rightarrow> bool" where
  "covers l t c \<longleftrightarrow> (\<forall>n. lg_talks l t = Some n \<longrightarrow> nd_To (info n) \<le> ct_To c)"

lemma widen_later: "ct_To c \<le> ct_To (widen c a b)" "b \<noteq> 0 \<Longrightarrow> b \<le> ct_To (widen c a b)"
  by (simp_all add: widen_def Let_def)

lemma sum_ledger_To: "0 \<le> ct_To (sum_ledger fl l scope ident calls)"
proof -
  have step: "ct_To c \<le> ct_To (fst (sum_call fl call (c, priced, any)))" for c call priced any
    using widen_later(1) [of "c\<lparr>ct_Calls := ct_Calls c + 1\<rparr>" "cl_At call" "cl_At call"]
    by (simp add: sum_call_def Let_def split: option.split)
  have "0 \<le> ct_To (fst st) \<Longrightarrow> 0 \<le> ct_To (fst (fold (\<lambda>i. sum_call fl (lg_Calls l ! i)) calls st))" for st
  proof (induction calls arbitrary: st)
    case (Cons i calls)
    obtain c priced any where "st = (c, priced, any)" by (metis prod_cases3)
    with Cons.prems step [of c "lg_Calls l ! i" priced any] Cons.IH show ?case by auto
  qed simp
  moreover have "0 \<le> ct_To (fst (zero_cost scope ident, fl_zero fl, False))" by (simp add: zero_cost_def)
  ultimately have "0 \<le> ct_To (fst (fold (\<lambda>i. sum_call fl (lg_Calls l ! i)) calls (zero_cost scope ident, fl_zero fl, False)))" .
  then show ?thesis by (auto simp: sum_ledger_def split: prod.splits)
qed

lemma inclusive_covers: "same_base l0 l \<Longrightarrow> t \<in> set owners \<Longrightarrow> covers l0 t (inclusive_cost fl l t owners)"
proof -
  assume same: "same_base l0 l" and t: "t \<in> set owners"
  have grow: "ct_To c \<le> ct_To (fold (widen_talk l) ows c)" for ows c
  proof (induction ows arbitrary: c)
    case (Cons ow ows)
    have "ct_To c \<le> ct_To (widen_talk l ow c)" by (simp add: widen_talk_def widen_later(1) split: option.split)
    with Cons [of "widen_talk l ow c"] show ?case by simp
  qed simp
  have reach: "nd_To (info n) \<le> ct_To (fold (widen_talk l) ows c)"
    if "lg_talks l t = Some n" "t \<in> set ows" "0 \<le> ct_To c" for ows c n
    using that(2,3)
  proof (induction ows arbitrary: c)
    case (Cons ow ows)
    let ?c = "widen_talk l ow c"
    have c: "ct_To c \<le> ct_To ?c" using grow [of c "[ow]"] by simp
    show ?case
    proof (cases "ow = t")
      case True
      with that(1) have "nd_To (info n) \<noteq> 0 \<Longrightarrow> nd_To (info n) \<le> ct_To ?c" using widen_later(2) by (simp add: widen_talk_def)
      with c Cons.prems(2) have "nd_To (info n) \<le> ct_To ?c" by (cases "nd_To (info n) = 0") auto
      with grow [of ?c ows] show ?thesis by simp
    next
      case False
      with Cons c show ?thesis by simp
    qed
  qed simp
  show ?thesis
    unfolding covers_def inclusive_cost_def Let_def
    using same by (auto simp: same_base_def intro!: reach t sum_ledger_To)
qed

text \<open>\<open>K t\<close> are the streams claimed for the main talk \<open>t\<close>.\<close>

definition rolled_ok :: "conversation \<Rightarrow> 'f Ledger \<Rightarrow> (string \<Rightarrow> string set) \<Rightarrow> string list \<Rightarrow> 'f Ledger \<Rightarrow> rolling \<Rightarrow> bool" where
  "rolled_ok doc l0 K ms l ro \<longleftrightarrow> same_base l0 l \<and> claims_ok doc ro \<and>
     (\<forall>t \<in> set ms. K t \<subseteq> ro_claimed ro \<and> talk_owners_ok l0 t (K t) (lg_ownersOf l t) \<and>
        (\<exists>c. lg_inclusive l t = Some c \<and> part_sums l0 (concat (map (lg_callsOf l0) (lg_ownersOf l t))) c \<and> covers l0 t c)) \<and>
     (\<forall>t \<in> set ms. \<forall>t' \<in> set ms. t \<noteq> t' \<longrightarrow> K t \<inter> K t' = {})"

lemma inclusive_sums:
  "same_base l0 l \<Longrightarrow> part_sums l0 (concat (map (lg_callsOf l0) owners)) (inclusive_cost fl l t owners)"
proof -
  assume same: "same_base l0 l"
  have fold_kept: "cost_counts (fold (widen_talk l) ows c) = cost_counts c \<and> ct_Usage (fold (widen_talk l) ows c) = ct_Usage c" for ows c
    by (induction ows arbitrary: c) (simp_all add: widen_talk_def split: option.split)
  let ?c = "sum_ledger fl l ScopeTalk t (concat (map (lg_callsOf l) owners))"
  have "part_sums l (concat (map (lg_callsOf l) owners)) (inclusive_cost fl l t owners)"
    using part_sums_sum_ledger [of l "concat (map (lg_callsOf l) owners)" fl ScopeTalk t] fold_kept
      part_sums_cost [of "inclusive_cost fl l t owners" ?c]
    by (simp add: inclusive_cost_def cost_counts_def)
  with same show ?thesis by (simp add: part_sums_def same_base_def)
qed

lemma roll_main_ok:
  assumes iter: "ranges iter" and sts: "starters_ok doc sts" and ok: "rolled_ok doc l0 K ms l ro" and new: "t \<notin> set ms"
  shows "\<exists>l' ro' C. roll_main fl iter sts doc t (Some (l, ro)) = Some (l', ro') \<and> rolled_ok doc l0 (K(t := C)) (ms @ [t]) l' ro'"
proof -
  let ?C0 = "ro_claimed ro"
  have same: "same_base l0 l" using ok by (simp add: rolled_ok_def)
  have start: "roll_ok doc l0 t ?C0 (start_rolling t ro)"
    using ok by (auto simp: rolled_ok_def roll_ok_def start_rolling_def talk_owners_ok_def claims_ok_def)
  have "length (lg_Owners l0) + 2 \<le> length (lg_Owners l) + 2 + 0" using same by (simp add: same_base_def)
  from roll_owners_ok [OF iter sts start le0 this] obtain ro' where
    ro': "roll_owners (length (lg_Owners l) + 2) iter sts doc l t 0 (start_rolling t ro) = Some ro'" "roll_ok doc l0 t ?C0 ro'"
    unfolding roll_owners_cong [OF same] by blast
  define C where "C = ro_claimed ro' - ?C0"
  let ?l = "l\<lparr>lg_ownersOf := (lg_ownersOf l)(t := ro_owners ro'), lg_at := (lg_at l)(t := ro_at ro'),
    lg_agents := (lg_agents l)(t := ro_agents ro'),
    lg_inclusive := (lg_inclusive l)(t \<mapsto> inclusive_cost fl l t (ro_owners ro'))\<rparr>"
  have "roll_main fl iter sts doc t (Some (l, ro)) = Some (?l, ro')" using ro'(1) by (simp add: roll_main_def)
  moreover have "same_base l0 ?l" using same by (simp add: same_base_def)
  moreover have "claims_ok doc ro'" "talk_owners_ok l0 t C (ro_owners ro')" "?C0 \<subseteq> ro_claimed ro'"
    using ro'(2) by (simp_all add: roll_ok_def C_def)
  moreover have "K s \<inter> C = {} \<and> K s \<subseteq> ro_claimed ro'" if "s \<in> set ms" for s
    using ok that \<open>?C0 \<subseteq> ro_claimed ro'\<close> by (auto simp: rolled_ok_def C_def)
  ultimately have "rolled_ok doc l0 (K(t := C)) (ms @ [t]) ?l ro'"
    using ok new inclusive_sums [OF same, of "ro_owners ro'" fl t] inclusive_covers [OF same, of t "ro_owners ro'" fl]
    unfolding rolled_ok_def talk_owners_ok_def
    by (auto simp: C_def)
  with \<open>roll_main fl iter sts doc t (Some (l, ro)) = Some (?l, ro')\<close> show ?thesis by blast
qed

lemma roll_mains_ok:
  assumes "ranges iter" "starters_ok doc sts"
  shows "rolled_ok doc l0 K ms l ro \<Longrightarrow> distinct (ms @ ts) \<Longrightarrow>
    \<exists>l' ro' K'. fold (roll_main fl iter sts doc) ts (Some (l, ro)) = Some (l', ro') \<and> rolled_ok doc l0 K' (ms @ ts) l' ro'"
proof (induction ts arbitrary: K ms l ro)
  case (Cons t ts)
  then have "t \<notin> set ms" by simp
  from roll_main_ok [OF assms Cons.prems(1) this] obtain l1 ro1 C where
    1: "roll_main fl iter sts doc t (Some (l, ro)) = Some (l1, ro1)" "rolled_ok doc l0 (K(t := C)) (ms @ [t]) l1 ro1" by blast
  from Cons.IH [OF 1(2)] Cons.prems(2) 1(1) show ?case by auto
qed auto


section \<open>The loops end\<close>

lemma roll_mains_total:
  assumes "ranges iter" "starters_ok doc sts"
  shows "claims_ok doc ro \<Longrightarrow> \<exists>l' ro'. fold (roll_main fl iter sts doc) ts (Some (l, ro)) = Some (l', ro') \<and> claims_ok doc ro'"
proof (induction ts arbitrary: l ro)
  case (Cons t ts)
  have start: "roll_ok doc l t (ro_claimed ro) (start_rolling t ro)"
    using Cons.prems by (auto simp: roll_ok_def start_rolling_def talk_owners_ok_def claims_ok_def)
  have "length (lg_Owners l) + 2 \<le> length (lg_Owners l) + 2 + 0" by simp
  from roll_owners_ok [OF assms start le0 this] obtain ro' where
    ro': "roll_owners (length (lg_Owners l) + 2) iter sts doc l t 0 (start_rolling t ro) = Some ro'" "claims_ok doc ro'"
    unfolding roll_ok_def by blast
  then obtain l' where "roll_main fl iter sts doc t (Some (l, ro)) = Some (l', ro')" by (simp add: roll_main_def)
  with Cons.IH [OF ro'(2), of l'] show ?case by simp
qed simp

definition no_rolling :: rolling where
  "no_rolling = \<lparr>ro_owners = [], ro_visited = {}, ro_at = \<lambda>_. 0, ro_agents = 0, ro_claimed = {}, ro_subtasks = [],
     ro_subtask = Map.empty\<rparr>"

lemma claims_ok_none: "claims_ok doc no_rolling"
  by (simp add: claims_ok_def no_rolling_def index_ok_def)

lemma compute_returns:
  assumes "ranges iter"
  shows "\<exists>r. ComputeChecked fl iter doc dialect pricing read = Some r \<and>
    (\<forall>e. r = Inl e \<longrightarrow> (\<exists>rd refs. read = Some rd \<and> rd refs = Inl e))"
proof -
  obtain l order nodes where w: "walk_document fl doc dialect pricing = (l, order, nodes)" by (metis prod_cases3)
  show ?thesis
  proof (cases "readStarted read l")
    case (Inl e)
    then have "\<exists>rd refs. read = Some rd \<and> rd refs = Inl e"
      by (cases read) (auto simp: readStarted_def Let_def bind_result_def split: if_splits sum.splits)
    with Inl w show ?thesis by (simp add: ComputeChecked_def)
  next
    case (Inr l1)
    let ?l = "cost_owners fl doc pricing order l1"
    from roll_mains_total [OF assms starters_of_ok claims_ok_none, of fl doc ?l nodes "lg_Main ?l" ?l] obtain l' ro' where
      "fold (roll_main fl iter (starters_of doc ?l nodes) doc) (lg_Main ?l) (Some (?l, no_rolling)) = Some (l', ro')" by blast
    then obtain lf where "rollUp fl iter doc nodes ?l = Some lf" by (simp add: rollUp_def Let_def no_rolling_def)
    with Inr w show ?thesis by (simp add: ComputeChecked_def)
  qed
qed

text \<open>C28. Computing a ledger always returns, whatever the document holds: no loop over the owners of a main talk
  runs out of its bound, however the relations tie streams to steps, in cycles or in any other way. The result
  is an error only when the reader of the landed records failed.\<close>
theorem ComputeChecked_returns:
  assumes "ranges iter"
  shows "\<exists>r. ComputeChecked fl iter doc dialect pricing read = Some r \<and>
    (\<forall>e. r = Inl e \<longrightarrow> (\<exists>rd refs. read = Some rd \<and> rd refs = Inl e))"
  using assms by (rule compute_returns)

text \<open>A conversation of one main talk, with a call and a step that starts a child stream of one call.\<close>

definition sample_node :: "string \<Rightarrow> string \<Rightarrow> string \<Rightarrow> usage option \<Rightarrow> node_info" where
  "sample_node ident kind stream u = \<lparr>nd_ID = ident, nd_Kind = kind, nd_Parent = [], nd_Stream = stream, nd_At = 5, nd_Ref = None,
     nd_Refs = [], nd_Attrs = [], nd_Text = [], nd_State = [], nd_Bytes = 0, nd_Usage = u, nd_Flags = [], nd_Dropped = [],
     nd_Model = [], nd_Label = [], nd_Reply = [], nd_Runs = 0, nd_Steps = 0, nd_Tools = 0, nd_From = 1, nd_To = 9,
     nd_Child = False, nd_Segment = [], nd_Name = [], nd_Failed = None, nd_Result = [], nd_ResultState = [],
     nd_ResultBytes = 0, nd_RequestToResultMS = 0, nd_RequestToResultBy = [], nd_DurationMS = 0, nd_DurationHow = [],
     nd_Changes = [], nd_Executions = [], nd_ProviderBodies = [], nd_Edges = []\<rparr>"

definition sample_stream :: "string \<Rightarrow> string \<Rightarrow> view_stream" where
  "sample_stream ident name = \<lparr>vs_ID = ident, vs_Name = name, vs_Role = [], vs_Label = [], vs_Parent = [], vs_Records = 0,
     vs_Steps = 0, vs_Talk = [], vs_NamedBy = [], vs_OpenedBy = []\<rparr>"

definition sample_doc :: conversation where
  "sample_doc =
    (let u = Some \<lparr>us_Input = 7, us_Output = 3, us_CacheRead = 2, us_CacheWrite = 1\<rparr>
     in \<lparr>cv_Format = [], cv_Version = [], cv_Conversation = ''c'', cv_Sessions = [], cv_Head = \<lparr>vh_Round = 1, vh_Digest = []\<rparr>,
       cv_Parser = [], cv_Policy = [],
       cv_Summary = \<lparr>sm_Title = [], sm_State = [], sm_Problems = [], sm_Talks = 2, sm_Steps = 3, sm_Streams = 2, sm_Segments = 0,
         sm_Rounds = 1, sm_Unresolved = 0, sm_Changes = 0, sm_ProviderBodies = 0, sm_CapturedPrompts = 0, sm_From = 1, sm_To = 9,
         sm_Kinds = Map.empty, sm_RelationTypes = Map.empty, sm_Quality = Map.empty, sm_Withheld = Map.empty\<rparr>,
       cv_Rounds = [], cv_Files = [], cv_Streams = [sample_stream ''s1'' ''main'', sample_stream ''s2'' ''child''], cv_Segments = [],
       cv_Talks = [View_Node (sample_node ''t1'' KindTalk ''main'' None)
           [View_Node (sample_node ''l1'' KindLLMCall ''main'' u) [View_Node (sample_node ''a1'' KindAgentCall ''main'' None) []]],
         View_Node (sample_node ''t2'' KindTalk ''child'' None) [View_Node (sample_node ''l2'' KindLLMCall ''child'' u) []]],
       cv_Loose = [],
       cv_Relations = [\<lparr>vl_ID = ''r'', vl_Type = RelStarts, vl_From = ''a1'', vl_To = ''s2'', vl_Quality = [], vl_Via = [], vl_Evidence = []\<rparr>],
       cv_Unresolved = [], cv_WorkspaceChanges = [], cv_ToolExecutions = []\<rparr>)"

definition int_floats :: "int floats" where
  "int_floats = \<lparr>fl_of_int = uint, fl_add = (+), fl_mul = (*), fl_div = (div), fl_zero = 0, fl_million = 1000000\<rparr>"

abbreviation sample_ledger :: "(unit + int Ledger) option" where
  "sample_ledger \<equiv> ComputeChecked int_floats id sample_doc ''claude-code/1'' None None"

lemma ranges_id: "ranges id"
  by (simp add: ranges_def)

abbreviation no_reader :: "unit records_reader option" where
  "no_reader \<equiv> None"

lemma sample_computed: "\<exists>l. sample_ledger = Some (Inr l)"
proof -
  obtain r where r: "ComputeChecked int_floats id sample_doc ''claude-code/1'' None no_reader = Some r" "\<forall>e. r \<noteq> Inl e"
    using compute_returns [OF ranges_id, of int_floats sample_doc "''claude-code/1''" None no_reader] by auto
  then show ?thesis by (cases r) auto
qed

lemma sample_doc_ok: "doc_ok sample_doc"
  by (simp add: doc_ok_def sample_doc_def Let_def talk_id_def sample_node_def is_loose_def loose_prefix_def)

lemma ComputeChecked_returns_witness: "\<exists>r. sample_ledger = Some r"
  using ComputeChecked_returns [OF ranges_id, of int_floats sample_doc "''claude-code/1''" None no_reader] by blast

section \<open>After the main talks\<close>

definition same_roll :: "'f Ledger \<Rightarrow> 'f Ledger \<Rightarrow> bool" where
  "same_roll l l' \<longleftrightarrow> same_base l l' \<and> lg_ownersOf l' = lg_ownersOf l \<and> lg_inclusive l' = lg_inclusive l \<and>
     lg_Unattributed l' = lg_Unattributed l"

lemma same_roll_trans: "same_roll l l1 \<Longrightarrow> same_roll l1 l2 \<Longrightarrow> same_roll l l2"
  by (simp add: same_roll_def same_base_def)

lemma fold_same_roll: "(\<And>x l. same_roll l (f x l)) \<Longrightarrow> same_roll l (fold f xs l)"
proof (induction xs arbitrary: l)
  case (Cons x xs)
  then show ?case using same_roll_trans [of l "f x l" "fold f xs (f x l)"] by simp
qed (simp add: same_roll_def same_base_def)

lemma add_unplaced_same: "same_roll l (add_unplaced sts doc name l)"
  by (simp add: add_unplaced_def Let_def same_roll_def same_base_def)

lemma add_nested_same: "same_roll l (add_nested i l)"
  by (simp add: add_nested_def Let_def same_roll_def same_base_def split: option.split)

text \<open>What a rollup that returned leaves.\<close>

definition rolled_up :: "conversation \<Rightarrow> 'f Ledger \<Rightarrow> 'f Ledger \<Rightarrow> (string \<Rightarrow> string set) \<Rightarrow> bool" where
  "rolled_up doc l0 l K \<longleftrightarrow> same_base l0 l \<and>
     (\<forall>t \<in> set (lg_Main l0). ''main'' \<notin> K t \<and> talk_owners_ok l0 t (K t) (lg_ownersOf l t) \<and>
        (\<exists>c. lg_inclusive l t = Some c \<and> part_sums l0 (concat (map (lg_callsOf l0) (lg_ownersOf l t))) c \<and> covers l0 t c)) \<and>
     (\<forall>t \<in> set (lg_Main l0). \<forall>t' \<in> set (lg_Main l0). t \<noteq> t' \<longrightarrow> K t \<inter> K t' = {}) \<and>
     part_sums l0 (concat (map (lg_callsOf l0) (filter (\<lambda>ow. ow \<notin> reached l) (owner_ids l0)))) (lg_Unattributed l)"

lemma rollUp_ok:
  assumes "ranges iter" "rollUp fl iter doc nodes l0 = Some lf" "distinct (lg_Main l0)"
  shows "\<exists>K. rolled_up doc l0 lf K"
proof -
  let ?sts = "starters_of doc l0 nodes"
  have "rolled_ok doc l0 (\<lambda>_. {}) [] l0 no_rolling"
    by (simp add: rolled_ok_def same_base_def claims_ok_none)
  from roll_mains_ok [OF assms(1) starters_of_ok this, of "lg_Main l0" fl l0 nodes] assms(3) obtain l ro K where
    f: "fold (roll_main fl iter ?sts doc) (lg_Main l0) (Some (l0, no_rolling)) = Some (l, ro)"
    and ok: "rolled_ok doc l0 K (lg_Main l0) l ro" by auto
  let ?l1 = "l\<lparr>lg_Subtasks := ro_subtasks ro, lg_subtask := ro_subtask ro\<rparr>"
  let ?l2 = "?l1\<lparr>lg_Unattributed := unattributed_cost fl ?l1\<rparr>"
  obtain names ks where lf: "lf = fold add_nested ks (fold (add_unplaced ?sts doc) names ?l2)"
    using assms(2) f by (auto simp: rollUp_def Let_def no_rolling_def)
  have roll: "same_roll ?l2 lf"
    unfolding lf by (rule same_roll_trans [OF fold_same_roll fold_same_roll]) (rule add_unplaced_same add_nested_same)+
  have base: "same_base l0 l" using ok by (simp add: rolled_ok_def)
  have reach: "reached lf = reached ?l1" using roll by (simp add: reached_def same_roll_def same_base_def)
  have "part_sums l0 (concat (map (lg_callsOf l0) (filter (\<lambda>ow. ow \<notin> reached ?l1) (owner_ids l0)))) (unattributed_cost fl ?l1)"
    using part_sums_sum_ledger [of ?l1] base unfolding unattributed_cost_def part_sums_def same_base_def by simp
  then show ?thesis
    using roll ok base unfolding rolled_up_def reach
    by (intro exI [of _ K]) (auto simp: same_roll_def same_base_def rolled_ok_def claims_ok_def)
qed


section \<open>The ledger adds up\<close>

lemma ComputeChecked_ledger:
  assumes "ComputeChecked fl iter doc dialect pricing read = Some (Inr l)" "doc_ok doc" "ranges iter"
  shows "\<exists>l0 K. owners_ok l0 \<and> rolled_up doc l0 l K"
proof -
  obtain l1 order nodes where w: "walk_document fl doc dialect pricing = (l1, order, nodes)" by (metis prod_cases3)
  from walk_document_ok [OF assms(2) w] obtain L where L: "walked_ok (map talk_id (cv_Talks doc)) L l1"
    "order = map talk_id (cv_Talks doc) @ L" by blast
  obtain l2 where l2: "readStarted read l1 = Inr l2" "rollUp fl iter doc nodes (cost_owners fl doc pricing order l2) = Some l"
    using assms(1) w by (auto simp: ComputeChecked_def split: sum.splits)
  have "\<forall>ow \<in> set (map talk_id (cv_Talks doc)). \<not> is_loose ow" using assms(2) by (simp add: doc_ok_def)
  from cost_owners_ok [OF walked_ok_same [OF readStarted_same [OF l2(1)] L(1)] L(2) this refl]
  have ok: "owners_ok (cost_owners fl doc pricing order l2)" by blast
  then have "distinct (lg_Main (cost_owners fl doc pricing order l2))" by (simp add: owners_ok_def mains_ok_def)
  from rollUp_ok [OF assms(3) l2(2) this] ok show ?thesis by blast
qed

lemma part_sums_base: "same_base l0 l \<Longrightarrow> part_sums l = part_sums l0"
  by (simp add: part_sums_def same_base_def fun_eq_iff)

lemma owners_ok_base: "same_base l0 l \<Longrightarrow> owners_ok l0 \<Longrightarrow> owners_ok l"
  unfolding owners_ok_def mains_ok_def calls_kept_def by (simp only: part_sums_base) (simp add: same_base_def, elim conjE, simp)

text \<open>C26. The owners of a ledger add up to the conversation: their counts of calls, of calls without usage,
  without output and without a price, and their tokens of the four types, each sum to the total exactly, where
  the talks of the document have ids of their own. Every call is in exactly one owner, the one it names.\<close>
theorem owners_add_up:
  assumes "ComputeChecked fl iter doc dialect pricing read = Some (Inr l)" "doc_ok doc" "ranges iter"
  shows "adds_up (lg_Total l) (lg_Owners l) \<and> ct_Calls (lg_Total l) = length (lg_Calls l) \<and>
    distinct (owner_ids l) \<and>
    (\<forall>i < length (lg_Calls l). \<forall>ow. i \<in> set (lg_callsOf l ow) \<longleftrightarrow> ow = cl_Owner (lg_Calls l ! i)) \<and>
    (\<forall>c \<in> set (lg_Calls l). cl_Owner c \<in> set (owner_ids l))"
proof -
  obtain l0 K where "owners_ok l0" "rolled_up doc l0 l K" using ComputeChecked_ledger [OF assms] by blast
  then have ok: "owners_ok l" using owners_ok_base by (auto simp: rolled_up_def)
  have "ct_Calls (lg_Total l) = length (lg_Calls l)"
  proof -
    have "cost_counts (lg_Total l) ! 0 = (\<Sum>i\<leftarrow>[0..<length (lg_Calls l)]. call_counts (lg_Calls l ! i) ! 0)"
      using ok unfolding owners_ok_def part_sums_def by (metis zero_less_numeral)
    also have "\<dots> = length (lg_Calls l)" by (simp add: call_counts_def sum_list_triv)
    finally show ?thesis by (simp add: cost_counts_def)
  qed
  moreover have "\<forall>i < length (lg_Calls l). \<forall>ow. i \<in> set (lg_callsOf l ow) \<longleftrightarrow> ow = cl_Owner (lg_Calls l ! i)"
    using ok by (auto simp: owners_ok_def calls_kept_def calls_by_owner_def)
  ultimately show ?thesis using owners_add_up_ok [OF ok] ok by (simp add: owners_ok_def)
qed


lemma owners_add_up_witness:
  "\<exists>l. sample_ledger = Some (Inr l) \<and> adds_up (lg_Total l) (lg_Owners l) \<and> ct_Calls (lg_Total l) = length (lg_Calls l)"
  using sample_computed owners_add_up [OF _ sample_doc_ok ranges_id] by blast

section \<open>The main talks and what is left\<close>

lemma mset_concat_map: "mset xs = mset ys \<Longrightarrow> mset (concat (map f xs)) = mset (concat (map f ys))"
proof -
  have "mset (concat (map f xs)) = (\<Sum>x \<in># mset xs. mset (f x))" for xs by (induction xs) simp_all
  then show "mset xs = mset ys \<Longrightarrow> ?thesis" by simp
qed

lemma loose_main_stream:
  assumes "owners_ok l0" shows "streamOf l0 (LooseOwner s) = s" "lg_talks l0 (LooseOwner s) = None"
proof -
  show none: "lg_talks l0 (LooseOwner s) = None"
    using assms is_loose_LooseOwner [of s] by (auto simp: owners_ok_def)
  then show "streamOf l0 (LooseOwner s) = s"
    by (simp add: streamOf_def trim_loose_def is_loose_LooseOwner) (simp add: LooseOwner_def)
qed

lemma rolled_owner:
  assumes "owners_ok l0" "rolled_up doc l0 l K" "t \<in> set (lg_Main l0)" "ow \<in> set (lg_ownersOf l t)"
  shows "ow \<in> set (owner_ids l0) \<and> ow \<noteq> LooseOwner ''main'' \<and> (ow = t \<or> streamOf l0 ow \<in> K t)"
proof -
  have t: "t \<in> set (owner_ids l0)" "lg_talks l0 t \<noteq> None"
    using assms(1,3) by (auto simp: owners_ok_def mains_ok_def)
  obtain rest where rest: "lg_ownersOf l t = t # rest" "\<forall>ow \<in> set rest. ow \<in> set (owner_ids l0) \<and> streamOf l0 ow \<in> K t"
    "''main'' \<notin> K t"
    using assms(2,3) by (auto simp: rolled_up_def talk_owners_ok_def)
  have "ow = t \<or> ow \<in> set (owner_ids l0) \<and> streamOf l0 ow \<in> K t" using assms(4) rest by auto
  with t rest(3) loose_main_stream [OF assms(1)] show ?thesis by metis
qed

lemma main_streamOf: "owners_ok l0 \<Longrightarrow> t \<in> set (lg_Main l0) \<Longrightarrow> streamOf l0 t = ''main''"
  by (auto simp: owners_ok_def mains_ok_def streamOf_def)

lemma rolled_disjoint:
  assumes "owners_ok l0" "rolled_up doc l0 l K" "t \<in> set (lg_Main l0)" "t' \<in> set (lg_Main l0)" "t \<noteq> t'"
  shows "set (lg_ownersOf l t) \<inter> set (lg_ownersOf l t') = {}"
proof (rule ccontr)
  assume "\<not> ?thesis"
  then obtain ow where ow: "ow \<in> set (lg_ownersOf l t)" "ow \<in> set (lg_ownersOf l t')" by blast
  have "''main'' \<notin> K t" "''main'' \<notin> K t'" "K t \<inter> K t' = {}" using assms(2-5) by (simp_all add: rolled_up_def)
  with rolled_owner [OF assms(1,2,3) ow(1)] rolled_owner [OF assms(1,2,4) ow(2)] main_streamOf [OF assms(1)] assms(3-5)
  show False by (metis disjoint_iff)
qed

lemma rolled_permutation:
  assumes ok: "owners_ok l0" and rolled: "rolled_up doc l0 l K"
  shows "mset (concat (map (lg_ownersOf l) (lg_Main l0)) @ filter (\<lambda>ow. ow \<notin> reached l) (owner_ids l0) @
    filter (\<lambda>ow. ow = LooseOwner ''main'') (owner_ids l0)) = mset (owner_ids l0)"
proof -
  have main: "lg_Main l = lg_Main l0" using rolled by (simp add: rolled_up_def same_base_def)
  have dm: "distinct (lg_Main l0)" and di: "distinct (owner_ids l0)" using ok by (simp_all add: owners_ok_def mains_ok_def)
  have "distinct (concat (map (lg_ownersOf l) ts))" if "set ts \<subseteq> set (lg_Main l0)" "distinct ts" for ts
    using that
  proof (induction ts)
    case (Cons t ts)
    have "distinct (lg_ownersOf l t)" using Cons.prems rolled by (auto simp: rolled_up_def talk_owners_ok_def)
    with Cons rolled_disjoint [OF ok rolled, of t] show ?case by fastforce
  qed simp
  then have dist: "distinct (concat (map (lg_ownersOf l) (lg_Main l0)))" using dm by simp
  have own: "ow \<in> set (owner_ids l0) \<and> ow \<noteq> LooseOwner ''main''" if "t \<in> set (lg_Main l0)" "ow \<in> set (lg_ownersOf l t)" for t ow
    using rolled_owner [OF ok rolled that] by blast
  have reach: "ow \<in> reached l \<longleftrightarrow> ow = LooseOwner ''main'' \<or> (\<exists>t \<in> set (lg_Main l0). ow \<in> set (lg_ownersOf l t))" for ow
    by (auto simp: reached_def main)
  show ?thesis
  proof (rule set_eq_iff_mset_eq_distinct [THEN iffD1])
    show "distinct (concat (map (lg_ownersOf l) (lg_Main l0)) @ filter (\<lambda>ow. ow \<notin> reached l) (owner_ids l0) @
        filter (\<lambda>ow. ow = LooseOwner ''main'') (owner_ids l0))"
      using dist di own by (auto simp: reach)
    show "set (concat (map (lg_ownersOf l) (lg_Main l0)) @ filter (\<lambda>ow. ow \<notin> reached l) (owner_ids l0) @
        filter (\<lambda>ow. ow = LooseOwner ''main'') (owner_ids l0)) = set (owner_ids l0)"
      using own by (auto simp: reach)
  qed (rule di)
qed


lemma concat_map_concat: "concat (map (\<lambda>t. concat (map f (g t))) ts) = concat (map f (concat (map g ts)))"
  by (induction ts) simp_all

text \<open>C27. The rollup neither loses nor repeats a cost: the inclusive costs of the main talks, the unattributed
  cost and the loose calls of the main stream add up to the total of the conversation, count by count and token
  by token. The owners one main talk includes begin with the talk itself, each once, and no owner is included
  by two main talks.\<close>
theorem rollup_adds_up:
  assumes "ComputeChecked fl iter doc dialect pricing read = Some (Inr l)" "doc_ok doc" "ranges iter"
  shows "adds_up (lg_Total l) (map (\<lambda>t. the (Inclusive l t)) (lg_Main l) @ [lg_Unattributed l] @
      filter (\<lambda>c. ct_ID c = LooseOwner ''main'') (lg_Owners l)) \<and>
    (\<forall>t \<in> set (lg_Main l). Inclusive l t \<noteq> None \<and> distinct (lg_ownersOf l t) \<and> lg_ownersOf l t \<noteq> [] \<and> hd (lg_ownersOf l t) = t) \<and>
    (\<forall>t \<in> set (lg_Main l). \<forall>t' \<in> set (lg_Main l). t \<noteq> t' \<longrightarrow> set (lg_ownersOf l t) \<inter> set (lg_ownersOf l t') = {})"
proof -
  obtain l0 K where ok: "owners_ok l0" and rolled: "rolled_up doc l0 l K" using ComputeChecked_ledger [OF assms] by blast
  have base: "lg_Main l = lg_Main l0" "lg_Owners l = lg_Owners l0" "lg_Total l = lg_Total l0"
    using rolled by (simp_all add: rolled_up_def same_base_def)
  have main: "\<exists>c rest. lg_inclusive l t = Some c \<and> part_sums l0 (concat (map (lg_callsOf l0) (lg_ownersOf l t))) c \<and>
      distinct (lg_ownersOf l t) \<and> lg_ownersOf l t = t # rest" if "t \<in> set (lg_Main l0)" for t
    using rolled that by (auto simp: rolled_up_def talk_owners_ok_def)
  let ?loose = "filter (\<lambda>c. ct_ID c = LooseOwner ''main'') (lg_Owners l0)"
  let ?rest = "filter (\<lambda>ow. ow \<notin> reached l) (owner_ids l0)"
  let ?iss = "map (\<lambda>t. concat (map (lg_callsOf l0) (lg_ownersOf l t))) (lg_Main l0) @ [concat (map (lg_callsOf l0) ?rest)] @
    map (\<lambda>c. lg_callsOf l0 (ct_ID c)) ?loose"
  have "adds_up (lg_Total l0) (map (\<lambda>t. the (lg_inclusive l t)) (lg_Main l0) @ [lg_Unattributed l] @ ?loose)"
  proof (rule part_sums_adds_up)
    show "part_sums l0 [0..<length (lg_Calls l0)] (lg_Total l0)" using ok by (simp add: owners_ok_def)
    have "list_all2 (part_sums l0) (map (\<lambda>t. concat (map (lg_callsOf l0) (lg_ownersOf l t))) (lg_Main l0)) (map (\<lambda>t. the (lg_inclusive l t)) (lg_Main l0))"
      using main by (fastforce simp: list_all2_map1 list_all2_map2 list_all2_same)
    moreover have "part_sums l0 (concat (map (lg_callsOf l0) ?rest)) (lg_Unattributed l)" using rolled by (simp add: rolled_up_def)
    moreover have "list_all2 (part_sums l0) (map (\<lambda>c. lg_callsOf l0 (ct_ID c)) ?loose) ?loose"
      using ok by (auto simp: owners_ok_def list_all2_map1 list_all2_same)
    ultimately show "list_all2 (part_sums l0) ?iss (map (\<lambda>t. the (lg_inclusive l t)) (lg_Main l0) @ [lg_Unattributed l] @ ?loose)"
      by (intro list_all2_appendI) simp_all
    have "concat ?iss = concat (map (lg_callsOf l0) (concat (map (lg_ownersOf l) (lg_Main l0)) @ ?rest @ map ct_ID ?loose))"
      by (simp add: concat_map_concat o_def)
    moreover have "map ct_ID ?loose = filter (\<lambda>ow. ow = LooseOwner ''main'') (owner_ids l0)" by (simp add: filter_map o_def)
    ultimately have "mset (concat ?iss) = mset (concat (map (lg_callsOf l0) (owner_ids l0)))"
      using mset_concat_map [OF rolled_permutation [OF ok rolled]] by simp
    also have "\<dots> = mset [0..<length (lg_Calls l0)]"
      using calls_partition [of "owner_ids l0" "lg_Calls l0"] ok by (simp add: owners_ok_def calls_kept_def)
    finally show "mset (concat ?iss) = mset [0..<length (lg_Calls l0)]" .
  qed
  then show ?thesis
    using main rolled_disjoint [OF ok rolled] unfolding base Inclusive_def by fastforce
qed

lemma rollup_adds_up_witness:
  "\<exists>l. sample_ledger = Some (Inr l) \<and>
     adds_up (lg_Total l) (map (\<lambda>t. the (Inclusive l t)) (lg_Main l) @ [lg_Unattributed l] @
      filter (\<lambda>c. ct_ID c = LooseOwner ''main'') (lg_Owners l))"
  using sample_computed rollup_adds_up [OF _ sample_doc_ok ranges_id] by blast


section \<open>The sub-tasks\<close>

lemma fold_add_unplaced:
  "map sb_Name (lg_Subtasks (fold (add_unplaced sts doc) names l)) = map sb_Name (lg_Subtasks l) @ names \<and>
   (index_ok (lg_subtask l) (map sb_ID (lg_Subtasks l)) \<longrightarrow>
     index_ok (lg_subtask (fold (add_unplaced sts doc) names l)) (map sb_ID (lg_Subtasks (fold (add_unplaced sts doc) names l))))"
proof (induction names arbitrary: l)
  case (Cons name names)
  have "sb_Name (place_reason sts doc l name (newSubtask doc l name)) = name"
    by (simp add: place_reason_def Let_def split: option.split list.split)
  then have "map sb_Name (lg_Subtasks (add_unplaced sts doc name l)) = map sb_Name (lg_Subtasks l) @ [name]"
    by (simp add: add_unplaced_def Let_def)
  moreover have "index_ok (lg_subtask (add_unplaced sts doc name l)) (map sb_ID (lg_Subtasks (add_unplaced sts doc name l)))"
    if "index_ok (lg_subtask l) (map sb_ID (lg_Subtasks l))"
    using index_ok_snoc [OF that] by (simp add: add_unplaced_def Let_def)
  ultimately show ?case using Cons.IH [of "add_unplaced sts doc name l"] by simp
qed simp

lemma map_update_same: "(map f xs)[k := f (xs ! k)] = map f xs"
  by (cases "k < length xs") (metis list_update_id nth_map, simp add: list_update_beyond)

lemma add_nested_kept:
  "map sb_Name (lg_Subtasks (add_nested i l)) = map sb_Name (lg_Subtasks l)"
  "map sb_ID (lg_Subtasks (add_nested i l)) = map sb_ID (lg_Subtasks l)"
  "lg_subtask (add_nested i l) = lg_subtask l"
  by (simp_all add: add_nested_def Let_def map_update map_update_same split: option.split)

lemma fold_add_nested:
  "map sb_Name (lg_Subtasks (fold add_nested is l)) = map sb_Name (lg_Subtasks l) \<and>
   map sb_ID (lg_Subtasks (fold add_nested is l)) = map sb_ID (lg_Subtasks l) \<and>
   lg_subtask (fold add_nested is l) = lg_subtask l"
  by (induction "is" arbitrary: l) (simp_all add: add_nested_kept)

lemma rollUp_subtasks:
  assumes "ranges iter" "rollUp fl iter doc nodes l0 = Some lf"
  shows "\<exists>placed. distinct placed \<and> set placed \<subseteq> stream_names doc - {''main''} \<and>
    map sb_Name (lg_Subtasks lf) = placed @
      sort_by (<) (filter (\<lambda>name. name \<noteq> ''main'' \<and> name \<notin> set placed) (map vs_Name (cv_Streams doc))) \<and>
    index_ok (lg_subtask lf) (map sb_ID (lg_Subtasks lf))"
proof -
  let ?sts = "starters_of doc l0 nodes"
  from roll_mains_total [OF assms(1) starters_of_ok claims_ok_none, of fl doc l0 nodes "lg_Main l0" l0] obtain l ro where
    f: "fold (roll_main fl iter ?sts doc) (lg_Main l0) (Some (l0, no_rolling)) = Some (l, ro)" and ok: "claims_ok doc ro" by blast
  let ?l1 = "l\<lparr>lg_Subtasks := ro_subtasks ro, lg_subtask := ro_subtask ro\<rparr>"
  let ?l2 = "?l1\<lparr>lg_Unattributed := unattributed_cost fl ?l1\<rparr>"
  let ?names = "sort_by (<) (filter (\<lambda>name. name \<noteq> ''main'' \<and> name \<notin> ro_claimed ro) (map vs_Name (cv_Streams doc)))"
  have lf: "lf = fold add_nested [0..<length (lg_Subtasks (fold (add_unplaced ?sts doc) ?names ?l2))] (fold (add_unplaced ?sts doc) ?names ?l2)"
    using assms(2) f by (simp add: rollUp_def Let_def no_rolling_def)
  show ?thesis
    using fold_add_unplaced [of ?sts doc ?names ?l2] ok unfolding lf fold_add_nested
    by (intro exI [of _ "map sb_Name (ro_subtasks ro)"]) (auto simp: claims_ok_def fold_add_nested)
qed

text \<open>Every stream but the main one is a sub-task, once, where the streams of the document have names of their
  own: those some main talk claims, in the order the rollup reached them, and then the others by name. The
  index of the sub-tasks leads every id it holds to a sub-task of that id.\<close>
theorem subtasks_are_streams:
  assumes "ComputeChecked fl iter doc dialect pricing read = Some (Inr l)" "ranges iter" "distinct (map vs_Name (cv_Streams doc))"
  shows "mset (map sb_Name (lg_Subtasks l)) = mset (filter (\<lambda>name. name \<noteq> ''main'') (map vs_Name (cv_Streams doc))) \<and>
    (\<forall>ident st. Subtask l ident = Some st \<longrightarrow> st \<in> set (lg_Subtasks l) \<and> sb_ID st = ident)"
proof -
  obtain l1 order nodes where w: "walk_document fl doc dialect pricing = (l1, order, nodes)" by (metis prod_cases3)
  obtain l2 where l2: "rollUp fl iter doc nodes (cost_owners fl doc pricing order l2) = Some l"
    using assms(1) w by (auto simp: ComputeChecked_def split: sum.splits)
  let ?all = "map vs_Name (cv_Streams doc)"
  obtain placed where placed: "distinct placed" "set placed \<subseteq> stream_names doc - {''main''}"
    "map sb_Name (lg_Subtasks l) = placed @ sort_by (<) (filter (\<lambda>name. name \<noteq> ''main'' \<and> name \<notin> set placed) ?all)"
    "index_ok (lg_subtask l) (map sb_ID (lg_Subtasks l))"
    using rollUp_subtasks [OF assms(2) l2] by blast
  have "mset placed = mset (filter (\<lambda>name. name \<noteq> ''main'' \<and> name \<in> set placed) ?all)"
    using placed(1,2) assms(3) by (intro set_eq_iff_mset_eq_distinct [THEN iffD1]) (auto simp: stream_names_def)
  moreover have "mset (filter (\<lambda>name. name \<noteq> ''main'') ?all) =
      mset (filter (\<lambda>name. name \<noteq> ''main'' \<and> name \<in> set placed) ?all) + mset (filter (\<lambda>name. name \<noteq> ''main'' \<and> name \<notin> set placed) ?all)"
    by (intro multiset_eqI) auto
  ultimately have "mset (map sb_Name (lg_Subtasks l)) = mset (filter (\<lambda>name. name \<noteq> ''main'') ?all)"
    unfolding placed(3) by simp
  moreover have "st \<in> set (lg_Subtasks l) \<and> sb_ID st = ident" if "Subtask l ident = Some st" for ident st
    using placed(4) that by (force simp: Subtask_def index_ok_def)
  ultimately show ?thesis by blast
qed

lemma subtasks_are_streams_witness:
  "\<exists>l. sample_ledger = Some (Inr l) \<and> mset (map sb_Name (lg_Subtasks l)) = {#''child''#}"
proof -
  obtain l where l: "sample_ledger = Some (Inr l)" using sample_computed by blast
  have names: "map vs_Name (cv_Streams sample_doc) = [''main'', ''child'']" by (simp add: sample_doc_def Let_def sample_stream_def)
  then have "distinct (map vs_Name (cv_Streams sample_doc))" by simp
  from subtasks_are_streams [OF l ranges_id this] l show ?thesis by (simp add: names)
qed

section \<open>The calls of a sub-task\<close>

text \<open>The walk down the sub-tasks ends: it never enters one that it has seen, and there are only so many.\<close>

definition unseen :: "'f Ledger \<Rightarrow> string set \<Rightarrow> nat" where
  "unseen l seen = card (sb_ID ` set (lg_Subtasks l) - seen)"

lemma unseen_mono: "seen \<subseteq> seen' \<Longrightarrow> unseen l seen' \<le> unseen l seen"
  unfolding unseen_def by (rule card_mono) auto

lemma unseen_less: "ident \<in> sb_ID ` set (lg_Subtasks l) \<Longrightarrow> ident \<notin> seen \<Longrightarrow> unseen l (insert ident seen) < unseen l seen"
  unfolding unseen_def by (rule psubset_card_mono) auto

lemma subtask_walk_returns:
  assumes "index_ok (lg_subtask l) (map sb_ID (lg_Subtasks l))"
  shows "unseen l (snd st) < fuel \<Longrightarrow>
    \<exists>st'. subtask_walk fuel l incl ident st = Some st' \<and> snd st \<subseteq> snd st'"
proof (induction fuel arbitrary: ident st)
  case (Suc fuel)
  show ?case
  proof (cases "Subtask l ident = None \<or> ident \<in> snd st \<or> \<not> incl")
    case True
    then show ?thesis by (cases st; cases "Subtask l ident") auto
  next
    case False
    then obtain sub where sub: "Subtask l ident = Some sub" "ident \<notin> snd st" incl by auto
    then have "ident \<in> sb_ID ` set (lg_Subtasks l)"
      using assms by (force simp: Subtask_def index_ok_def)
    from unseen_less [OF this sub(2)] Suc.prems have less: "unseen l (insert ident (snd st)) < fuel" by simp
    have "\<exists>st'. fold (\<lambda>c r. Option.bind r (subtask_walk fuel l incl c)) cs (Some st1) = Some st' \<and> snd st1 \<subseteq> snd st'"
      if "unseen l (snd st1) < fuel" for cs st1
      using that
    proof (induction cs arbitrary: st1)
      case (Cons c cs)
      from Suc.IH [OF Cons.prems, of c] obtain st2 where st2: "subtask_walk fuel l incl c st1 = Some st2" "snd st1 \<subseteq> snd st2" by blast
      with unseen_mono [OF st2(2), of l] Cons.prems have "unseen l (snd st2) < fuel" by simp
      from Cons.IH [OF this] st2 show ?case by auto
    qed simp
    from this [of "(fst st @ sb_own sub, insert ident (snd st))" "sb_Children sub"] less sub show ?thesis by auto
  qed
qed simp

lemma subtask_calls_total:
  assumes "ComputeChecked fl iter doc dialect pricing read = Some (Inr l)" "ranges iter"
  shows "\<exists>calls. SubtaskCalls l ident inclusive = Some calls"
proof -
  obtain l1 order nodes where w: "walk_document fl doc dialect pricing = (l1, order, nodes)" by (metis prod_cases3)
  obtain l2 where l2: "rollUp fl iter doc nodes (cost_owners fl doc pricing order l2) = Some l"
    using assms(1) w by (auto simp: ComputeChecked_def split: sum.splits)
  have idx: "index_ok (lg_subtask l) (map sb_ID (lg_Subtasks l))" using rollUp_subtasks [OF assms(2) l2] by blast
  have "unseen l {} \<le> length (lg_Subtasks l)"
    unfolding unseen_def using card_length [of "map sb_ID (lg_Subtasks l)"] by simp
  then have "unseen l (snd ([] :: nat list, {})) < length (lg_Subtasks l) + 1" by simp
  from subtask_walk_returns [OF idx this] show ?thesis by (auto simp: SubtaskCalls_def)
qed

text \<open>Asking for the calls of a sub-task, alone or with every sub-task under it, always returns: sub-tasks whose
  parents form a cycle are each walked once.\<close>
theorem SubtaskCalls_returns:
  assumes "ComputeChecked fl iter doc dialect pricing read = Some (Inr l)" "ranges iter"
  shows "\<exists>calls. SubtaskCalls l ident inclusive = Some calls"
  using subtask_calls_total [OF assms] .

lemma SubtaskCalls_returns_witness:
  "\<exists>l calls. sample_ledger = Some (Inr l) \<and> SubtaskCalls l ''s2'' True = Some calls"
  using sample_computed SubtaskCalls_returns [OF _ ranges_id] by blast


section \<open>The order of a map\<close>

lemma named_total:
  assumes "distinct (map fst xs)"
  shows "total_less (\<lambda>x y. fst x < (fst y :: string)) (set xs)"
proof unfold_locales
  fix x y assume "x \<in> set xs" "y \<in> set xs" "x \<noteq> y"
  then have "fst x \<noteq> fst y" using assms by (metis distinct_map inj_onD)
  then show "fst x < fst y \<or> fst y < fst x" by auto
qed auto

lemma sort_named:
  assumes "distinct (map fst xs)" "mset ys = mset xs"
  shows "sort_by (\<lambda>x y. fst x < (fst y :: string)) ys = sort_by (\<lambda>x y. fst x < fst y) xs"
proof (rule total_less.sort_by_eqI [OF named_total [OF assms(1)]])
  have "set ys = set xs" using assms(2) by (metis set_mset_mset)
  then have "weak_less (\<lambda>x y. fst x < (fst y :: string)) (set ys)"
    using named_total [OF assms(1)] by (simp add: total_less_def)
  from weak_less.sorted_sort_by [OF this subset_refl] show "sorted_by (\<lambda>x y. fst x < fst y) (sort_by (\<lambda>x y. fst x < fst y) ys)" .
qed (simp_all add: assms(2))

lemma childrenOf_order:
  assumes "ranges iter" "ranges iter'" "starters_ok doc sts"
  shows "childrenOf iter sts = childrenOf iter' sts"
proof
  fix ow :: string
  let ?one = "\<lambda>(name :: string, fr). case fr of [(ow', step :: string)] \<Rightarrow> if ow' = ow then [(name, step)] else [] | _ \<Rightarrow> []"
  have perm: "mset (concat (map ?one xs)) = mset (concat (map ?one ys))" if "mset xs = mset ys" for xs ys
    by (rule mset_concat_map [OF that])
  have names: "fst ` set (concat (map ?one xs)) \<subseteq> fst ` set xs" for xs
    by (force split: list.splits if_splits)
  have "distinct (map fst (concat (map ?one xs)))" if "distinct (map fst xs)" for xs
    using that
  proof (induction xs)
    case (Cons x xs)
    obtain name fr where x: "x = (name, fr)" by (cases x)
    have "name \<notin> fst ` set xs" using Cons.prems x by simp
    then have "name \<notin> fst ` set (concat (map ?one xs))" using names [of xs] by blast
    then have "name \<notin> set (map fst (concat (map ?one xs)))" unfolding set_map .
    moreover have "map fst (?one x) = [] \<or> map fst (?one x) = [name]" by (auto simp: x split: list.split)
    moreover have "distinct (map fst (concat (map ?one xs)))" using Cons by simp
    moreover have "map fst (concat (map ?one (x # xs))) = map fst (?one x) @ map fst (concat (map ?one xs))" by simp
    ultimately show ?case by (metis append_Cons append_Nil distinct.simps(2))
  qed simp
  then have "distinct (map fst (concat (map ?one sts)))" using assms(3) by (simp add: starters_ok_def)
  from sort_named [OF this, of "concat (map ?one (iter sts))"] sort_named [OF this, of "concat (map ?one (iter' sts))"]
  show "childrenOf iter sts ow = childrenOf iter' sts ow"
    using assms(1,2) perm [of "iter sts" sts] perm [of "iter' sts" sts] by (simp add: childrenOf_def ranges_def)
qed

lemma roll_owners_order:
  assumes "ranges iter" "ranges iter'" "starters_ok doc sts"
  shows "roll_owners fuel iter sts doc l t i st = roll_owners fuel iter' sts doc l t i st"
  by (induction fuel arbitrary: i st) (simp_all add: Let_def childrenOf_order [OF assms])

lemma rollUp_order:
  assumes "ranges iter" "ranges iter'"
  shows "rollUp fl iter doc nodes l = rollUp fl iter' doc nodes l"
proof -
  have "roll_main fl iter sts doc = roll_main fl iter' sts doc" if "starters_ok doc sts" for sts
    by (intro ext) (simp only: roll_main_def roll_owners_order [OF assms that])
  note eq = this [OF starters_of_ok]
  show ?thesis by (simp only: rollUp_def Let_def eq)
qed

text \<open>The ledger is the same in whatever order Go ranges over the map of the streams' starters: the same document
  and records and the same price file always give the same ledger.\<close>
theorem ComputeChecked_deterministic:
  assumes "ranges iter" "ranges iter'"
  shows "ComputeChecked fl iter doc dialect pricing read = ComputeChecked fl iter' doc dialect pricing read"
  by (simp only: ComputeChecked_def rollUp_order [OF assms])

lemma ComputeChecked_deterministic_witness:
  "sample_ledger = ComputeChecked int_floats rev sample_doc ''claude-code/1'' None None"
  by (rule ComputeChecked_deterministic) (simp_all add: ranges_def)

end
