(* ===== verification/Judge_Frames.thy ===== *)
theory Judge_Frames
  imports Judge_Rollup
begin

text \<open>
  The frames of a run's stage files, \<^verbatim>\<open>pkg/sessionjudge/sessionjudge.go\<close>: what the evaluators
  decided of each target, and what the close file says each target cost. A Go pointer that may be nil is an
  option; a count is an \<open>int\<close>.
\<close>

section \<open>Evidence\<close>

record sj_ref =
  jr_Seq :: u64
  jr_Row :: u64
  jr_Block :: "int option"

record cite =
  ci_Node :: string
  ci_Ref :: "sj_ref option"

record observation =
  ob_Node :: string
  ob_Ref :: "sj_ref option"
  ob_Excerpt :: string
  ob_Status :: string
  ob_Interpretation :: string

record judge_check =
  ck_ID :: string
  ck_Text :: string
  ck_State :: string
  ck_Cite :: "cite list"
  ck_Reason :: string
  ck_GivenReason :: string
  ck_Observations :: "observation list"

definition CheckMet :: string where "CheckMet = ''met''"
definition CheckNotMet :: string where "CheckNotMet = ''not_met''"
definition CheckSupported :: string where "CheckSupported = ''supported''"
definition CheckContradicted :: string where "CheckContradicted = ''contradicted''"
definition CheckNoEvidence :: string where "CheckNoEvidence = ''no_evidence''"
definition CheckNotCaptured :: string where "CheckNotCaptured = ''not_captured''"
definition CheckUnknown :: string where "CheckUnknown = ''unknown''"

section \<open>Targets and inputs\<close>

record criterion =
  cn_ID :: string
  cn_Text :: string
  cn_Dropped :: bool

record target =
  tg_ID :: string
  tg_Statement :: string
  tg_Criteria :: "criterion list"
  tg_Status :: string
  tg_ReplacedBy :: string
  tg_Talks :: "string list"
  tg_Cite :: "cite list"

definition TargetOpen :: string where "TargetOpen = ''open''"
definition TargetClosed :: string where "TargetClosed = ''closed''"
definition TargetCancelled :: string where "TargetCancelled = ''cancelled''"
definition TargetReplaced :: string where "TargetReplaced = ''replaced''"

record input_action =
  ia_Target :: string
  ia_Action :: string

record input_relation =
  ir_Kind :: string
  ir_Goal :: string
  ir_Follows :: string
  ir_Request :: string
  ir_Statement :: string

record input =
  in_Node :: string
  in_Talk :: string
  in_Actions :: "input_action list"
  in_Relations :: "input_relation list"

definition ActionCreate :: string where "ActionCreate = ''create''"
definition ActionRefine :: string where "ActionRefine = ''refine''"
definition ActionSteer :: string where "ActionSteer = ''steer''"
definition ActionAccept :: string where "ActionAccept = ''accept''"
definition ActionCorrect :: string where "ActionCorrect = ''correct''"
definition ActionCancel :: string where "ActionCancel = ''cancel''"
definition ActionNone :: string where "ActionNone = ''none''"
definition ActionNotPerson :: string where "ActionNotPerson = ''not_from_person''"
definition ActionUnknown :: string where "ActionUnknown = ''unknown''"

section \<open>What became of a target\<close>

record event =
  ev_ID :: string
  ev_Kind :: string
  ev_Criteria :: "string list"
  ev_Replaces :: "string list"
  ev_Undoes :: "string list"
  ev_Artifact :: string
  ev_Text :: string
  ev_Cite :: "cite list"

definition EventDelivered :: string where "EventDelivered = ''delivered''"
definition EventUndone :: string where "EventUndone = ''undone''"
definition EventDeliveredAgain :: string where "EventDeliveredAgain = ''delivered_again''"

record contradiction =
  cd_Event :: string
  cd_Conclusion :: bool
  cd_Criteria :: "string list"
  cd_Text :: string
  cd_Cite :: "cite list"

record rework =
  rw_ID :: string
  rw_Attempt :: "cite list"
  rw_Trigger :: string
  rw_TriggerCite :: "cite list"
  rw_Cause :: string
  rw_Redo :: "cite list"
  rw_From :: string
  rw_To :: string
  rw_Finished :: bool
  rw_Note :: string

record said =
  sa_Text :: string
  sa_Cite :: "cite list"

record tried =
  tr_What :: string
  tr_Found :: string
  tr_Limits :: string
  tr_Cite :: "cite list"

record answer =
  an_Asked :: said
  an_Checked :: "tried list"
  an_RuledOut :: "tried list"
  an_Answered :: said

record file_group =
  fg_Area :: string
  fg_Category :: string
  fg_Summary :: string
  fg_Operations :: "string list"

record remote_operation =
  rm_System :: string
  rm_Operation :: string
  rm_Via :: string
  rm_Request :: said
  rm_Response :: "said option"
  rm_Confirmed :: "said option"

record account =
  ac_Answer :: "answer option"
  ac_Files :: "file_group list"
  ac_Remote :: "remote_operation list"

record given_counts =
  gc_Steps :: int
  gc_Opened :: int
  gc_Listed :: int
  gc_None :: int
  gc_Unavailable :: int

record given =
  gv_Scope :: string
  gv_Counts :: "given_counts option"
  gv_Reason :: string

record finding =
  fi_Target :: string
  fi_Source :: string
  fi_Conclusion :: string
  fi_Cause :: string
  fi_Asserted :: bool
  fi_From :: string
  fi_Given :: "given option"
  fi_At :: string
  fi_Ref :: "sj_ref option"
  fi_Problem :: string
  fi_Explanation :: string
  fi_Improvement :: string
  fi_Cite :: "cite list"

record achievement =
  ah_Target :: string
  ah_Level :: string
  ah_Basis :: string
  ah_Criteria :: "judge_check list"
  ah_Claims :: "judge_check list"
  ah_Events :: "event list"
  ah_Contradictions :: "contradiction list"
  ah_Rework :: "rework list"
  ah_Account :: "account option"
  ah_Findings :: "finding list"
  ah_Note :: string
  ah_Cite :: "cite list"

definition LevelAchieved :: string where "LevelAchieved = ''achieved''"
definition LevelPartly :: string where "LevelPartly = ''partly''"
definition LevelNotAchieved :: string where "LevelNotAchieved = ''not_achieved''"
definition LevelCannotVerify :: string where "LevelCannotVerify = ''cannot_verify''"

section \<open>What the work was\<close>

record work_label =
  lb_Target :: string
  lb_Talk :: string
  lb_From :: string
  lb_Label :: string
  lb_Subtask :: string
  lb_Note :: string
  lb_Cite :: "cite list"

definition CauseMain :: string where "CauseMain = ''main''"
definition CauseUnknown :: string where "CauseUnknown = ''unknown''"

definition WorkUseful :: string where "WorkUseful = ''useful''"
definition WorkExploration :: string where "WorkExploration = ''exploration''"
definition WorkVerification :: string where "WorkVerification = ''verification''"
definition WorkAvoidable :: string where "WorkAvoidable = ''avoidable_attempt''"
definition WorkRepeated :: string where "WorkRepeated = ''repeated''"
definition WorkRedundant :: string where "WorkRedundant = ''redundant_delegation''"
definition WorkRepair :: string where "WorkRepair = ''repair_own_mistake''"
definition WorkRework :: string where "WorkRework = ''rework_requirement_change''"
definition WorkMisdirected :: string where "WorkMisdirected = ''misdirected_delegation''"
definition WorkMisled :: string where "WorkMisled = ''misled_by_subtask''"
definition WorkNotReviewed :: string where "WorkNotReviewed = ''not_reviewed''"

definition Avoidable :: "string \<Rightarrow> bool" where
  "Avoidable work \<longleftrightarrow> work \<in> {WorkAvoidable, WorkRepeated, WorkRedundant, WorkRepair, WorkMisdirected, WorkMisled}"

record decision =
  dn_ID :: string
  dn_Parent :: string
  dn_StartedBy :: string
  dn_Outcome :: string
  dn_Report :: string
  dn_Use :: string
  dn_Dispatch :: string
  dn_Work :: string
  dn_Note :: string
  dn_Cite :: "cite list"

definition DispatchReasonable :: string where "DispatchReasonable = ''reasonable''"
definition DispatchRedundant :: string where "DispatchRedundant = ''redundant''"
definition DispatchMisdirected :: string where "DispatchMisdirected = ''misdirected''"
definition DispatchUnknown :: string where "DispatchUnknown = ''unknown''"

section \<open>Outcomes\<close>

record 'f amount =
  am_Usage :: usage
  am_Money :: "'f option"
  am_Unpriced :: int
  am_Unknown :: int
  am_OutputUnknown :: int

definition Amount_Tokens :: "'f amount \<Rightarrow> u64" where
  "Amount_Tokens a = us_Input (am_Usage a) + us_Output (am_Usage a) + us_CacheRead (am_Usage a) + us_CacheWrite (am_Usage a)"

record 'f rework_cost =
  rc_Work :: string
  rc_Cause :: string
  rc_Cost :: "'f amount"

record 'f operation_share =
  os_ID :: string
  os_Share :: "'f option"

record 'f outcome =
  oc_Target :: string
  oc_Statement :: string
  oc_Status :: string
  oc_Level :: string
  oc_Basis :: string
  oc_Met :: "int option"
  oc_Criteria :: "int option"
  oc_Unknown :: "int option"
  oc_Contradicted :: "int option"
  oc_Cost :: "'f amount"
  oc_Avoidable :: "'f amount option"
  oc_NotReviewed :: "'f amount option"
  oc_AvoidableBySubtasks :: "'f amount option"
  oc_AvoidableCauseUnknown :: "'f amount option"
  oc_Span :: int
  oc_AvoidableSpan :: "int option"
  oc_Class :: string
  oc_Standing :: "string list"
  oc_Undone :: "string list"
  oc_ScoreRecord :: "'f option"
  oc_ScoreFinal :: "'f option"
  oc_Rework :: "'f rework_cost list"
  oc_Corrections :: "string list"
  oc_Operations :: "'f operation_share list"
  oc_References :: "string list"

definition ClassContradicted :: string where "ClassContradicted = ''contradicted''"
definition ClassReverted :: string where "ClassReverted = ''reverted''"

record 'f score =
  sc_Achievement :: "'f option"
  sc_Final :: "'f option"
  sc_Judged :: int
  sc_Efficiency :: "'f option"
  sc_Reviewed :: "'f option"
  sc_Delivered :: "'f option"
  sc_Unit :: string

definition UnitMoney :: string where "UnitMoney = ''money''"
definition UnitTokens :: string where "UnitTokens = ''tokens''"

record 'f run_summary =
  su_Targets :: int
  su_Achieved :: int
  su_Partly :: int
  su_NotAchieved :: int
  su_CannotVerify :: int
  su_Usage :: usage
  su_Unknown :: int
  su_OutputUnknown :: int
  su_Avoidable :: "usage option"
  su_AvoidableBySubtasks :: "usage option"
  su_AvoidableCauseUnknown :: "usage option"
  su_Money :: "'f option"
  su_Currency :: string
  su_Unpriced :: int
  su_Score :: "'f score option"
  su_UnassignedOperations :: "string list"
  su_Judging :: "'f amount option"
  su_JudgingReportedUSD :: "'f option"
  su_JudgingMs :: int

definition ScopeTarget :: string where "ScopeTarget = ''target''"
definition ScopeShared :: string where "ScopeShared = ''shared''"
definition ScopeUnassigned :: string where "ScopeUnassigned = ''unassigned''"
definition ScopeWork :: string where "ScopeWork = ''work''"
definition ScopeSubtask :: string where "ScopeSubtask = ''subtask''"

text \<open>The body frames of a close file.\<close>

datatype 'f close_frame = OutcomeFrame "'f outcome" | CostFrame "'f Cost"

end
