(* ===== verification/Judge_Window.thy ===== *)
theory Judge_Window
  imports Judge_Rollup
begin

text \<open>
  A run over part of a conversation, \<^verbatim>\<open>internal/judge/window.go\<close>: the main talks a window
  selects, and the document with only what had happened when they ended.

  A \<open>time.Time\<close> is its instant in nanoseconds, and the zero time is \<open>None\<close>; \<open>time.Parse\<close> and
  \<open>Time.Format\<close> are the parameters \<open>ptime\<close> and \<open>format\<close>. The map a reader returns is ranged over in the
  order \<open>entries\<close>. A result that is missing is a panic or a loop that ran out of its bound: the ledger's
  lemmas show there is none.
\<close>

section \<open>Windows\<close>

record window =
  wn_From :: "int option"
  wn_To :: "int option"
  wn_FromTalk :: string
  wn_ToTalk :: string

definition IsZero :: "window \<Rightarrow> bool" where
  "IsZero w \<longleftrightarrow> wn_From w = None \<and> wn_To w = None \<and> wn_FromTalk w = [] \<and> wn_ToTalk w = []"

record selection =
  se_Talks :: "string list"
  se_Before :: "string list"
  se_End :: int
  se_Untimed :: nat

record window_header =
  wh_From :: string
  wh_To :: string
  wh_FromTalk :: string
  wh_ToTalk :: string
  wh_Talks :: "string list"
  wh_Before :: nat
  wh_End :: int

definition Selection_Header :: "(int \<Rightarrow> string) \<Rightarrow> selection option \<Rightarrow> window \<Rightarrow> window_header option" where
  "Selection_Header format sel w =
    (case sel of
       None \<Rightarrow> None
     | Some s \<Rightarrow> Some \<lparr>wh_From = (case wn_From w of None \<Rightarrow> [] | Some t \<Rightarrow> format t),
         wh_To = (case wn_To w of None \<Rightarrow> [] | Some t \<Rightarrow> format t),
         wh_FromTalk = wn_FromTalk w, wh_ToTalk = wn_ToTalk w, wh_Talks = se_Talks s,
         wh_Before = length (se_Before s), wh_End = se_End s\<rparr>)"

datatype 'e window_error = WindowBoth | NoMainTalk string | TalkAfter string string | SelectsNone | ReadFailed 'e

section \<open>Trees\<close>

text \<open>\<open>walkAll\<close> with a function that changes a node's own fields.\<close>

fun map_tree :: "(node_info \<Rightarrow> node_info) \<Rightarrow> view_node \<Rightarrow> view_node" where
  "map_tree f (View_Node i cs) = View_Node (f i) (map (map_tree f) cs)"

definition index_ids :: "view_node \<Rightarrow> string set" where
  "index_ids n = nd_ID ` set (tree_nodes n)"

text \<open>The part of a tree that had happened by \<open>fin\<close>.\<close>

function (sequential) until :: "int \<Rightarrow> view_node \<Rightarrow> view_node option"
  and until_all :: "int \<Rightarrow> view_node list \<Rightarrow> view_node list" where
  "until fin (View_Node i cs) =
    (if nd_At i \<noteq> 0 \<and> nd_At i > fin then None else Some (View_Node i (until_all fin cs)))"
| "until_all fin [] = []"
| "until_all fin (c # cs) = (case until fin c of Some k \<Rightarrow> k # until_all fin cs | None \<Rightarrow> until_all fin cs)"
  by pat_completeness auto
termination
  by (relation "measure (\<lambda>x. case x of Inl (_, n) \<Rightarrow> size n | Inr (_, ns) \<Rightarrow> size_list size ns)") auto

definition is_step :: "node_info \<Rightarrow> bool" where
  "is_step n \<longleftrightarrow> nd_Kind n \<notin> {KindRun, KindSession, KindSegment, KindStream, KindEpoch, KindTalk}"

definition is_tool :: "node_info \<Rightarrow> bool" where
  "is_tool n \<longleftrightarrow> nd_Kind n = KindTool \<or> nd_Kind n = KindAgentCall"

definition count_nodes :: "(node_info \<Rightarrow> bool) \<Rightarrow> view_node \<Rightarrow> int" where
  "count_nodes P t = int (length (filter P (concat (map tree_nodes (children t)))))"

definition countSteps :: "view_node \<Rightarrow> view_node" where
  "countSteps t = View_Node ((info t)\<lparr>nd_Runs := count_nodes (\<lambda>n. nd_Kind n = KindRun) t,
     nd_Steps := count_nodes is_step t, nd_Tools := count_nodes is_tool t\<rparr>) (children t)"

section \<open>The work under each main talk\<close>

definition Compute :: "'f floats \<Rightarrow> map_order \<Rightarrow> conversation \<Rightarrow> 'f Ledger option" where
  "Compute fl iter doc =
    (case ComputeChecked fl iter doc [] None (None :: unit records_reader option) of
       Some (Inr l) \<Rightarrow> Some l
     | _ \<Rightarrow> None)"

text \<open>The main talk a sub-task's stream counts for. A later sub-task of the same name overwrites.\<close>

definition stream_owner :: "'f Ledger \<Rightarrow> string \<Rightarrow> string" where
  "stream_owner l name = or_empty (foldl (\<lambda>m st. m(sb_Name st \<mapsto> sb_Main st)) Map.empty (lg_Subtasks l) name)"

definition talk_work :: "'f Ledger \<Rightarrow> view_node \<Rightarrow> (string \<Rightarrow> int) \<Rightarrow> (string \<Rightarrow> int)" where
  "talk_work l t steps =
    (let n = info t in
     if nd_Stream n = ''main'' then steps(nd_ID n := steps (nd_ID n) + nd_Steps n)
     else let ow = stream_owner l (nd_Stream n) in
       if ow \<noteq> [] then steps(ow := steps ow + nd_Steps n) else steps)"

definition TalkSteps :: "'f floats \<Rightarrow> map_order \<Rightarrow> conversation \<Rightarrow> (string \<times> int) list option" where
  "TalkSteps fl iter doc =
    map_option (\<lambda>l. let steps = fold (talk_work l) (cv_Talks doc) (\<lambda>_. 0) in map (\<lambda>i. (i, steps i)) (lg_Main l))
      (Compute fl iter doc)"

definition Window_Steps :: "'f floats \<Rightarrow> map_order \<Rightarrow> conversation \<Rightarrow> selection option \<Rightarrow> int option" where
  "Window_Steps fl iter doc sel =
    (case sel of
       None \<Rightarrow> Some (sm_Steps (cv_Summary doc))
     | Some s \<Rightarrow> map_option (\<lambda>works. sum_list (map snd (filter (\<lambda>w. fst w \<in> set (se_Talks s)) works)))
         (TalkSteps fl iter doc))"

section \<open>The talks a window selects\<close>

text \<open>By ids: both ends included, the whole list where an end is not given.\<close>

definition select_ids :: "window \<Rightarrow> string list \<Rightarrow> 'e window_error + nat \<times> string list" where
  "select_ids w main =
    bind_result (if wn_FromTalk w = [] then Inr 0
        else case index_where (\<lambda>i. i = wn_FromTalk w) main of None \<Rightarrow> Inl (NoMainTalk (wn_FromTalk w)) | Some i \<Rightarrow> Inr (int i))
      (\<lambda>start.
    bind_result (if wn_ToTalk w = [] then Inr (int (length main) - 1)
        else case index_where (\<lambda>i. i = wn_ToTalk w) main of None \<Rightarrow> Inl (NoMainTalk (wn_ToTalk w)) | Some i \<Rightarrow> Inr (int i))
      (\<lambda>to.
    if to < start then Inl (TalkAfter (wn_FromTalk w) (wn_ToTalk w))
    else Inr (nat start, take (nat (to + 1 - start)) (drop (nat start) main))))"

definition in_window :: "window \<Rightarrow> int \<Rightarrow> bool" where
  "in_window w tm =
    (let t = tm * 1000000 in
     (case wn_From w of None \<Rightarrow> True | Some a \<Rightarrow> \<not> t < a) \<and> (case wn_To w of None \<Rightarrow> True | Some b \<Rightarrow> t < b))"

text \<open>By time: the loop keeps the first index, the talks and the number of those with no time. A main talk
  that is no talk of the ledger would be a nil pointer.\<close>

fun select_times :: "window \<Rightarrow> 'f Ledger \<Rightarrow> nat \<Rightarrow> string list \<Rightarrow> nat option \<times> string list \<times> nat \<Rightarrow>
    (nat option \<times> string list \<times> nat) option" where
  "select_times w l i [] st = Some st"
| "select_times w l i (x # xs) (first, talks, untimed) =
    (case Talk l x of
       None \<Rightarrow> None
     | Some t \<Rightarrow>
        (let tm = nd_At (info t) in
         if tm = 0 then select_times w l (i + 1) xs (first, talks, untimed + 1)
         else if in_window w tm then
           select_times w l (i + 1) xs (if first = None then Some i else first, talks @ [x], untimed)
         else select_times w l (i + 1) xs (first, talks, untimed)))"

definition select_talks :: "window \<Rightarrow> 'f Ledger \<Rightarrow> ('e window_error + selection) option" where
  "select_talks w l =
    (if wn_FromTalk w \<noteq> [] \<or> wn_ToTalk w \<noteq> [] then
       Some (bind_result (select_ids w (lg_Main l)) (\<lambda>(first, talks).
         if talks = [] then Inl SelectsNone
         else Inr \<lparr>se_Talks = talks, se_Before = take first (lg_Main l), se_End = 0, se_Untimed = 0\<rparr>))
     else
       map_option (\<lambda>(first, talks, untimed).
         if talks = [] then Inl SelectsNone
         else Inr \<lparr>se_Talks = talks, se_Before = take (or_zero first) (lg_Main l), se_End = 0, se_Untimed = untimed\<rparr>)
         (select_times w l 0 (lg_Main l) (None, [], 0)))"

section \<open>The end of the selected work\<close>

definition later_end :: "'f Ledger \<Rightarrow> string \<Rightarrow> int \<Rightarrow> int" where
  "later_end l ident e = (case Inclusive l ident of Some c \<Rightarrow> if ct_To c > e then ct_To c else e | None \<Rightarrow> e)"

definition judgedSteps :: "conversation \<Rightarrow> 'f Ledger \<Rightarrow> selection \<Rightarrow> string set" where
  "judgedSteps doc l sel =
    (let judged = set (se_Talks sel);
         started = set (map sb_Name (filter (\<lambda>st. sb_Main st \<in> judged) (lg_Subtasks l)))
     in \<Union> (index_ids ` set (filter (\<lambda>t. nd_Stream (info t) = ''main'' \<and> nd_ID (info t) \<in> judged \<or> nd_Stream (info t) \<in> started)
          (cv_Talks doc))))"

definition joined_refs :: "conversation \<Rightarrow> string set \<Rightarrow> ref list" where
  "joined_refs doc steps =
    map wc_Ref (filter (\<lambda>c. wc_Step c \<in> steps) (cv_WorkspaceChanges doc)) @
    map te_Ref (filter (\<lambda>e. te_Step e \<in> steps) (cv_ToolExecutions doc))"

text \<open>\<open>time.Time.UnixMilli\<close>, of an instant in nanoseconds.\<close>

definition record_millis :: "(string \<Rightarrow> int option) \<Rightarrow> sd_record \<Rightarrow> int option" where
  "record_millis ptime rec = (if sr_Time rec = [] then None else map_option (\<lambda>t. t div 1000000) (ptime (sr_Time rec)))"

definition later_record :: "(string \<Rightarrow> int option) \<Rightarrow> sd_record \<Rightarrow> int \<Rightarrow> int" where
  "later_record ptime rec e = (case record_millis ptime rec of Some t \<Rightarrow> if t > e then t else e | None \<Rightarrow> e)"

type_synonym record_order = "(address \<rightharpoonup> sd_record) \<Rightarrow> sd_record list"

definition selection_end :: "(string \<Rightarrow> int option) \<Rightarrow> record_order \<Rightarrow> conversation \<Rightarrow> 'f Ledger \<Rightarrow> 'e records_reader option \<Rightarrow>
    selection \<Rightarrow> 'e window_error + selection" where
  "selection_end ptime entries doc l read sel0 =
    (let sel = sel0\<lparr>se_End := fold (later_end l) (se_Talks sel0) (se_End sel0)\<rparr> in
     case read of
       None \<Rightarrow> Inr sel
     | Some rd \<Rightarrow>
        (case rd (joined_refs doc (judgedSteps doc l sel)) of
           Inl e \<Rightarrow> Inl (ReadFailed e)
         | Inr recs \<Rightarrow> Inr (sel\<lparr>se_End := fold (later_record ptime) (entries recs) (se_End sel)\<rparr>)))"

section \<open>What the window shows\<close>

definition shown_streams :: "'f Ledger \<Rightarrow> string set \<Rightarrow> string set" where
  "shown_streams l shown = insert ''main'' (set (map sb_Name (filter (\<lambda>st. sb_Main st \<in> shown) (lg_Subtasks l))))"

definition shown_talk :: "string set \<Rightarrow> string set \<Rightarrow> view_node \<Rightarrow> bool" where
  "shown_talk shown keep t \<longleftrightarrow> \<not> (nd_Stream (info t) = ''main'' \<and> nd_ID (info t) \<notin> shown) \<and> nd_Stream (info t) \<in> keep"

definition shown_doc :: "conversation \<Rightarrow> 'f Ledger \<Rightarrow> selection \<Rightarrow> conversation" where
  "shown_doc doc l sel =
    (let shown = set (se_Before sel @ se_Talks sel); keep = shown_streams l shown;
         streams = filter (\<lambda>s. vs_Name s \<in> keep) (cv_Streams doc);
         talks = until_all (se_End sel) (filter (shown_talk shown keep) (cv_Talks doc));
         ids = set (map vs_ID streams) \<union> \<Union> (index_ids ` set talks)
     in doc\<lparr>cv_Talks := talks, cv_Loose := [], cv_Streams := streams,
          cv_Relations := filter (\<lambda>r. vl_From r \<in> ids \<and> vl_To r \<in> ids) (cv_Relations doc),
          cv_WorkspaceChanges := filter (\<lambda>c. wc_Step c \<in> ids) (cv_WorkspaceChanges doc),
          cv_ToolExecutions := filter (\<lambda>e. te_Step e \<in> ids) (cv_ToolExecutions doc)\<rparr>)"

section \<open>Records after the end\<close>

definition shown_refs :: "conversation \<Rightarrow> ref list" where
  "shown_refs doc = concat (map nd_Refs (concat (map tree_nodes (cv_Talks doc)))) @
     map wc_Ref (cv_WorkspaceChanges doc) @ map te_Ref (cv_ToolExecutions doc)"

definition late :: "(string \<Rightarrow> int option) \<Rightarrow> (address \<rightharpoonup> sd_record) \<Rightarrow> int \<Rightarrow> ref \<Rightarrow> bool" where
  "late ptime recs fin r \<longleftrightarrow>
    (case recs (ref_address r) of
       None \<Rightarrow> False
     | Some rec \<Rightarrow> (case record_millis ptime rec of None \<Rightarrow> False | Some t \<Rightarrow> t > fin))"

definition kept_model :: "(address \<rightharpoonup> sd_record) \<Rightarrow> ref \<Rightarrow> string \<Rightarrow> string" where
  "kept_model recs r m =
    (case recs (ref_address r) of Some rec \<Rightarrow> if sr_Model rec \<noteq> [] then sr_Model rec else m | None \<Rightarrow> m)"

definition unavailable :: string where
  "unavailable = ''{'' @ [CHR 0x22] @ ''usage'' @ [CHR 0x22] @ '':'' @ [CHR 0x22] @ ''unavailable'' @ [CHR 0x22] @ ''}''"

definition cut_node :: "(string \<Rightarrow> int option) \<Rightarrow> (address \<rightharpoonup> sd_record) \<Rightarrow> int \<Rightarrow> node_info \<Rightarrow> node_info" where
  "cut_node ptime recs fin n =
    (let kept = filter (\<lambda>r. \<not> late ptime recs fin r) (nd_Refs n) in
     if length kept = length (nd_Refs n) then n
     else let n1 = n\<lparr>nd_Refs := kept\<rparr> in
       if nd_Kind n = KindTool \<or> nd_Kind n = KindAgentCall then
         n1\<lparr>nd_Result := [], nd_ResultBytes := 0, nd_ResultState := [], nd_Failed := None, nd_RequestToResultMS := 0\<rparr>
       else if nd_Kind n = KindLLMCall then
         n1\<lparr>nd_Usage := None, nd_Attrs := unavailable, nd_Model := fold (kept_model recs) kept []\<rparr>
       else n1)"

definition name_kept :: "string set \<Rightarrow> node_info \<Rightarrow> node_info" where
  "name_kept keep n = n\<lparr>nd_Changes := filter (\<lambda>i. i \<in> keep) (nd_Changes n),
     nd_Executions := filter (\<lambda>i. i \<in> keep) (nd_Executions n)\<rparr>"

definition cutLater :: "(string \<Rightarrow> int option) \<Rightarrow> 'e records_reader \<Rightarrow> int \<Rightarrow> conversation \<Rightarrow> 'e window_error + conversation" where
  "cutLater ptime rd fin doc =
    (case rd (shown_refs doc) of
       Inl e \<Rightarrow> Inl (ReadFailed e)
     | Inr recs \<Rightarrow>
        (let changes = filter (\<lambda>c. \<not> late ptime recs fin (wc_Ref c)) (cv_WorkspaceChanges doc);
             executions = filter (\<lambda>e. \<not> late ptime recs fin (te_Ref e)) (cv_ToolExecutions doc);
             keep = set (map (\<lambda>c. chr_ID (wc_Record c)) changes) \<union> set (map (\<lambda>e. xr_ID (te_Record e)) executions)
         in Inr (doc\<lparr>cv_Talks := map (map_tree (name_kept keep)) (map (map_tree (cut_node ptime recs fin)) (cv_Talks doc)),
              cv_WorkspaceChanges := changes, cv_ToolExecutions := executions\<rparr>)))"

section \<open>The narrowed document\<close>

definition last_reply :: "view_node \<Rightarrow> string" where
  "last_reply t = fold (\<lambda>n r. if nd_Kind n = KindMessageAssistant then nd_Text n else r) (tree_nodes t) []"

definition end_talk :: "int \<Rightarrow> view_node \<Rightarrow> view_node" where
  "end_talk fin t =
    (if nd_To (info t) \<le> fin then t
     else countSteps (View_Node ((info t)\<lparr>nd_To := fin, nd_Reply := last_reply t\<rparr>) (children t)))"

definition end_doc :: "int \<Rightarrow> conversation \<Rightarrow> conversation" where
  "end_doc fin doc =
    (let talks = map (end_talk fin) (cv_Talks doc)
     in doc\<lparr>cv_Talks := talks, cv_Summary := (cv_Summary doc)\<lparr>sm_Talks := int (length talks),
          sm_Steps := sum_list (map (\<lambda>t. nd_Steps (info t)) talks), sm_To := fin\<rparr>\<rparr>)"

definition NarrowChecked :: "'f floats \<Rightarrow> map_order \<Rightarrow> (string \<Rightarrow> int option) \<Rightarrow> record_order \<Rightarrow> conversation \<Rightarrow> window \<Rightarrow>
    'e records_reader option \<Rightarrow> ('e window_error + conversation \<times> selection option) option" where
  "NarrowChecked fl iter ptime entries doc w read =
    (if IsZero w then Some (Inr (doc, None))
     else if (wn_FromTalk w \<noteq> [] \<or> wn_ToTalk w \<noteq> []) \<and> (wn_From w \<noteq> None \<or> wn_To w \<noteq> None) then Some (Inl WindowBoth)
     else Option.bind (Compute fl iter doc) (\<lambda>l.
       map_option (\<lambda>r.
         bind_result r (\<lambda>sel0.
         bind_result (selection_end ptime entries doc l read sel0) (\<lambda>sel.
         bind_result (case read of None \<Rightarrow> Inr (shown_doc doc l sel)
             | Some rd \<Rightarrow> cutLater ptime rd (se_End sel) (shown_doc doc l sel)) (\<lambda>out.
           Inr (end_doc (se_End sel) out, Some sel)))))
       (select_talks w l)))"

section \<open>What a window selects\<close>

lemma Compute_ok:
  assumes "doc_ok doc" "ranges iter"
  shows "\<exists>l. Compute fl iter doc = Some l \<and> mains_ok l"
proof -
  obtain r where r: "ComputeChecked fl iter doc [] None (None :: unit records_reader option) = Some r" "\<forall>e. r \<noteq> Inl e"
    using compute_returns [OF assms(2), of fl doc "[]" None "None :: unit records_reader option"] by auto
  then obtain l where l: "r = Inr l" by (cases r) auto
  with r(1) have c: "ComputeChecked fl iter doc [] None (None :: unit records_reader option) = Some (Inr l)" by simp
  from ComputeChecked_ledger [OF c assms] obtain l0 K where "owners_ok l0" "rolled_up doc l0 l K" by blast
  then have "mains_ok l" by (simp add: owners_ok_def mains_ok_def rolled_up_def same_base_def)
  with c show ?thesis by (simp add: Compute_def)
qed

definition timed_in :: "window \<Rightarrow> 'f Ledger \<Rightarrow> string \<Rightarrow> bool" where
  "timed_in w l x \<longleftrightarrow> (case Talk l x of None \<Rightarrow> False | Some t \<Rightarrow> nd_At (info t) \<noteq> 0 \<and> in_window w (nd_At (info t)))"

definition untimed :: "'f Ledger \<Rightarrow> string \<Rightarrow> bool" where
  "untimed l x \<longleftrightarrow> (case Talk l x of None \<Rightarrow> False | Some t \<Rightarrow> nd_At (info t) = 0)"

lemma select_times_is:
  assumes "\<forall>x \<in> set xs. Talk l x \<noteq> None"
  shows "select_times w l i xs (first, talks, n) =
    Some (if first = None then map_option (\<lambda>j. i + j) (index_where (timed_in w l) xs) else first,
      talks @ filter (timed_in w l) xs, n + length (filter (untimed l) xs))"
  using assms
proof (induction xs arbitrary: i first talks n)
  case (Cons x xs)
  then obtain t where t: "Talk l x = Some t" by auto
  have IH: "select_times w l (Suc i) xs (f, ts, m) =
    Some (if f = None then map_option (\<lambda>j. Suc i + j) (index_where (timed_in w l) xs) else f,
      ts @ filter (timed_in w l) xs, m + length (filter (untimed l) xs))" for f ts m
    using Cons by simp
  have timed: "timed_in w l x \<longleftrightarrow> nd_At (info t) \<noteq> 0 \<and> in_window w (nd_At (info t))" and untimed: "untimed l x \<longleftrightarrow> nd_At (info t) = 0"
    by (simp_all add: timed_in_def untimed_def t)
  show ?case
    by (cases "nd_At (info t) = 0"; cases "in_window w (nd_At (info t))"; cases "index_where (timed_in w l) xs"; cases first)
      (simp_all add: t IH timed untimed)
qed simp

lemma take_index_where: "take (or_zero (index_where P xs)) xs @ drop (or_zero (index_where P xs)) xs = xs"
  by simp

lemma index_where_takeWhile:
  "filter P xs \<noteq> [] \<Longrightarrow> take (or_zero (index_where P xs)) xs = takeWhile (\<lambda>x. \<not> P x) xs"
proof (induction xs)
  case (Cons x xs)
  show ?case
  proof (cases "P x")
    case False
    with Cons.prems have "filter P xs \<noteq> []" by simp
    then obtain i where "index_where P xs = Some i" using index_where_None [of P xs]
      by (cases "index_where P xs") (auto simp: filter_empty_conv)
    with Cons.IH [OF \<open>filter P xs \<noteq> []\<close>] False show ?thesis by (simp add: or_zero_def)
  qed (simp add: or_zero_def)
qed simp

text \<open>The main talks by ids: a segment of the list, its ends those the window names.\<close>

definition ids_segment :: "window \<Rightarrow> string list \<Rightarrow> selection \<Rightarrow> bool" where
  "ids_segment w main sel \<longleftrightarrow> (\<exists>rest. main = se_Before sel @ se_Talks sel @ rest \<and>
     (if wn_FromTalk w = [] then se_Before sel = [] else hd (se_Talks sel) = wn_FromTalk w) \<and>
     (if wn_ToTalk w = [] then rest = [] else last (se_Talks sel) = wn_ToTalk w))"

lemma index_where_at: "index_where (\<lambda>y. y = x) xs = Some i \<Longrightarrow> i < length xs \<and> xs ! i = x"
  using index_where_Some by fastforce

lemma select_ids_segment:
  assumes "select_ids w main = (Inr (first, talks) :: 'e window_error + nat \<times> string list)" "talks \<noteq> []"
  shows "ids_segment w main \<lparr>se_Talks = talks, se_Before = take first main, se_End = e, se_Untimed = u\<rparr>"
proof -
  obtain start b where start: "(if wn_FromTalk w = [] then Inr 0 else case index_where (\<lambda>i. i = wn_FromTalk w) main of
        None \<Rightarrow> Inl (NoMainTalk (wn_FromTalk w)) | Some i \<Rightarrow> Inr (int i)) = (Inr start :: 'e window_error + int)"
    and stop: "(if wn_ToTalk w = [] then Inr (int (length main) - 1) else case index_where (\<lambda>i. i = wn_ToTalk w) main of
        None \<Rightarrow> Inl (NoMainTalk (wn_ToTalk w)) | Some i \<Rightarrow> Inr (int i)) = (Inr b :: 'e window_error + int)"
    and sel: "(if b < start then Inl (TalkAfter (wn_FromTalk w) (wn_ToTalk w))
      else Inr (nat start, take (nat (b + 1 - start)) (drop (nat start) main))) = (Inr (first, talks) :: 'e window_error + nat \<times> string list)"
    using assms(1) unfolding select_ids_def bind_result_Inr_iff by blast
  define a where "a = nat start"
  have a: "if wn_FromTalk w = [] then a = 0 else index_where (\<lambda>i. i = wn_FromTalk w) main = Some a" and sa: "start = int a"
    using start by (auto simp: a_def split: if_splits option.splits)
  have b: "if wn_ToTalk w = [] then b = int (length main) - 1 else index_where (\<lambda>i. i = wn_ToTalk w) main = Some (nat b)"
    using stop by (auto split: if_splits option.splits)
  have le: "int a \<le> b" and first: "first = a" and talks: "talks = take (nat (b + 1 - int a)) (drop a main)"
    using sel sa by (auto split: if_splits)
  have am: "a < length main" using assms(2) talks by (simp add: not_le [symmetric])
  have bm: "nat b < length main" using b le am index_where_at [of "wn_ToTalk w" main] by (auto split: if_splits)
  have len: "length talks = nat b + 1 - a" using talks bm le am by simp
  have "main = take a main @ talks @ drop (nat b + 1) main"
  proof -
    have "drop a main = talks @ drop (nat (b + 1 - int a)) (drop a main)" by (simp only: talks append_take_drop_id)
    moreover have "nat (b + 1 - int a) + a = nat b + 1" using le by linarith
    ultimately have "drop a main = talks @ drop (nat b + 1) main" by (simp add: drop_drop)
    then show ?thesis by (metis append_take_drop_id)
  qed
  moreover have "hd talks = main ! a" using talks am le by (simp add: hd_take hd_drop_conv_nth)
  moreover have "last talks = main ! nat b"
  proof -
    have "last talks = talks ! (nat b - a)" using assms(2) len le by (simp add: last_conv_nth)
    also have "\<dots> = drop a main ! (nat b - a)" unfolding talks using le by (intro nth_take) linarith
    also have "\<dots> = main ! nat b" using am le by (simp add: nth_drop)
    finally show ?thesis .
  qed
  moreover have "wn_ToTalk w = [] \<Longrightarrow> drop (nat b + 1) main = []" using b by simp
  ultimately show ?thesis
    unfolding ids_segment_def using a b first index_where_at [of "wn_FromTalk w" main] index_where_at [of "wn_ToTalk w" main]
    by (intro exI [of _ "drop (nat b + 1) main"]) (auto split: if_splits)
qed

definition times_selected :: "window \<Rightarrow> 'f Ledger \<Rightarrow> selection \<Rightarrow> bool" where
  "times_selected w l sel \<longleftrightarrow> se_Talks sel = filter (timed_in w l) (lg_Main l) \<and>
     se_Before sel = takeWhile (\<lambda>x. \<not> timed_in w l x) (lg_Main l) \<and>
     se_Untimed sel = length (filter (untimed l) (lg_Main l))"

lemma select_talks_ok:
  assumes "mains_ok l"
  shows "\<exists>r. select_talks w l = Some r \<and>
    (\<forall>sel. r = Inr sel \<longrightarrow> se_Talks sel \<noteq> [] \<and> se_End sel = 0 \<and>
      (if wn_FromTalk w \<noteq> [] \<or> wn_ToTalk w \<noteq> [] then ids_segment w (lg_Main l) sel else times_selected w l sel))"
proof (cases "wn_FromTalk w \<noteq> [] \<or> wn_ToTalk w \<noteq> []")
  case True
  have "ids_segment w (lg_Main l) sel \<and> se_Talks sel \<noteq> [] \<and> se_End sel = 0"
    if sel: "select_talks w l = Some (Inr sel :: 'e window_error + selection)" for sel
  proof -
    obtain first talks where st: "select_ids w (lg_Main l) = (Inr (first, talks) :: 'e window_error + nat \<times> string list)" "talks \<noteq> []"
      "sel = \<lparr>se_Talks = talks, se_Before = take first (lg_Main l), se_End = 0, se_Untimed = 0\<rparr>"
      using sel True by (auto simp: select_talks_def split: if_splits)
    from select_ids_segment [OF st(1,2)] st(2,3) show ?thesis by simp
  qed
  moreover have "\<exists>r. select_talks w l = Some r" using True by (simp add: select_talks_def)
  ultimately show ?thesis using True by (metis option.inject)
next
  case False
  have "\<forall>x \<in> set (lg_Main l). Talk l x \<noteq> None" using assms by (auto simp: mains_ok_def Talk_def)
  from select_times_is [OF this, of w 0 None "[]" 0] have
    "select_times w l 0 (lg_Main l) (None, [], 0) =
      Some (index_where (timed_in w l) (lg_Main l), filter (timed_in w l) (lg_Main l), length (filter (untimed l) (lg_Main l)))"
    by (simp add: map_option_idI)
  then show ?thesis
    using False index_where_takeWhile [of "timed_in w l" "lg_Main l"]
    by (simp add: select_talks_def times_selected_def)
qed

lemma selection_end_sel:
  assumes "selection_end ptime entries doc l read sel0 = Inr sel"
  shows "se_Talks sel = se_Talks sel0" "se_Before sel = se_Before sel0" "se_Untimed sel = se_Untimed sel0"
    and "fold (later_end l) (se_Talks sel0) (se_End sel0) \<le> se_End sel"
proof -
  have le: "e \<le> fold (later_record ptime) rs e" for rs e
  proof (induction rs arbitrary: e)
    case (Cons r rs)
    have "e \<le> later_record ptime r e" by (simp add: later_record_def split: option.split)
    then show ?case using Cons [of "later_record ptime r e"] by simp
  qed simp
  show "se_Talks sel = se_Talks sel0" "se_Before sel = se_Before sel0" "se_Untimed sel = se_Untimed sel0"
    "fold (later_end l) (se_Talks sel0) (se_End sel0) \<le> se_End sel"
    using assms le by (auto simp: selection_end_def Let_def split: option.splits sum.splits)
qed

text \<open>C31. Narrowing a conversation to a window always returns, and what it selects is a part of the main talks
  with all before it as context: by ids the segment between the two talks named, both included; by time exactly
  the talks that start in the window, before the first of which the context ends. Nothing else is selected,
  and the talks selected are never none.\<close>

theorem Narrow_selects:
  assumes "doc_ok doc" "ranges iter" "\<not> IsZero w"
  shows "\<exists>l r. Compute fl iter doc = Some l \<and> NarrowChecked fl iter ptime entries doc w read = Some r \<and>
    (\<forall>out s. r = Inr (out, s) \<longrightarrow> (\<exists>sel. s = Some sel \<and> se_Talks sel \<noteq> [] \<and>
      (if wn_FromTalk w \<noteq> [] \<or> wn_ToTalk w \<noteq> []
       then wn_From w = None \<and> wn_To w = None \<and> ids_segment w (lg_Main l) sel
       else times_selected w l sel)))"
proof -
  obtain l where l: "Compute fl iter doc = Some l" "mains_ok l" using Compute_ok [OF assms(1,2)] by blast
  obtain r :: "'b window_error + selection" where r: "select_talks w l = Some r"
    "\<forall>sel. r = Inr sel \<longrightarrow> se_Talks sel \<noteq> [] \<and>
      (if wn_FromTalk w \<noteq> [] \<or> wn_ToTalk w \<noteq> [] then ids_segment w (lg_Main l) sel else times_selected w l sel)"
    using select_talks_ok [OF l(2), of w] by blast
  show ?thesis
  proof (cases "(wn_FromTalk w \<noteq> [] \<or> wn_ToTalk w \<noteq> []) \<and> (wn_From w \<noteq> None \<or> wn_To w \<noteq> None)")
    case True
    then show ?thesis using l(1) assms(3) by (simp add: NarrowChecked_def)
  next
    case False
    have "se_Talks sel \<noteq> [] \<and> (if wn_FromTalk w \<noteq> [] \<or> wn_ToTalk w \<noteq> []
        then wn_From w = None \<and> wn_To w = None \<and> ids_segment w (lg_Main l) sel else times_selected w l sel)"
      if "r = Inr sel0" "selection_end ptime entries doc l read sel0 = Inr sel" for sel0 sel
    proof -
      note same = selection_end_sel(1-3) [OF that(2)]
      have "ids_segment w (lg_Main l) sel = ids_segment w (lg_Main l) sel0" "times_selected w l sel = times_selected w l sel0"
        unfolding ids_segment_def times_selected_def same by (rule refl)+
      with r(2) that(1) same(1) False show ?thesis by auto
    qed
    then show ?thesis using l(1) r(1) assms(3) False
      by (auto simp: NarrowChecked_def split: sum.split)
  qed
qed

section \<open>The talks of a ledger\<close>

lemma walk_talks_from:
  "fold (walk_talk fl) ts st = st' \<Longrightarrow> lg_talks (wk_ledger (fst st')) ow = Some n \<Longrightarrow>
     lg_talks (wk_ledger (fst st)) ow = Some n \<or> n \<in> set ts \<and> talk_id n = ow"
proof (induction ts arbitrary: st)
  case (Cons t ts)
  obtain w order where st: "st = (w, order)" by (cases st)
  have keep: "lg_talks (wk_ledger (walk_node fl o' t [] w')) = lg_talks (wk_ledger w')" for o' w'
    using grown_walk(1) [of o' w' fl t "[]"] by (simp add: grown_def)
  have "lg_talks (wk_ledger (fst (walk_talk fl t st))) = (lg_talks (wk_ledger w))(talk_id t \<mapsto> t)"
    by (simp add: st walk_talk_def Let_def keep talk_id_def)
  with Cons.IH [of "walk_talk fl t st"] Cons.prems st show ?case by (auto split: if_splits)
qed simp

lemma walk_looses_talks: "lg_talks (wk_ledger (fst (fold (walk_loose fl) ns st))) = lg_talks (wk_ledger (fst st))"
proof (induction ns arbitrary: st)
  case (Cons n ns)
  obtain w order ls where st: "st = (w, order, ls)" by (metis prod_cases3)
  have "lg_talks (wk_ledger (fst (walk_loose fl n st))) = lg_talks (wk_ledger w)"
    using grown_walk(1) [of "LooseOwner (nd_Stream (info n))" w fl n "[]"] by (simp add: st walk_loose_def Let_def grown_def)
  with Cons st show ?case by simp
qed simp

lemma cost_owners_talks: "lg_talks (cost_owners fl doc pricing order l) = lg_talks l"
proof -
  have p: "lg_talks (price_step fl pricing i l) = lg_talks l" for i l
    by (simp add: price_step_def Let_def split: option.split)
  have ps: "lg_talks (fold (price_step fl pricing) is l) = lg_talks l" for "is" l
    by (induction "is" arbitrary: l) (simp_all add: p)
  have as: "lg_talks (fold (add_owner fl) ows l) = lg_talks l" for ows l
    by (induction ows arbitrary: l) (simp_all add: add_owner_kept)
  show ?thesis by (simp add: cost_owners_def Let_def ps as)
qed

lemma Compute_talks:
  assumes "Compute fl iter doc = Some l" "doc_ok doc" "ranges iter"
  shows "lg_talks l ow = Some n \<Longrightarrow> n \<in> set (cv_Talks doc) \<and> talk_id n = ow"
    and "t \<in> set (lg_Main l) \<Longrightarrow> \<exists>n c. lg_talks l t = Some n \<and> nd_Stream (info n) = ''main'' \<and>
      Inclusive l t = Some c \<and> nd_To (info n) \<le> ct_To c"
proof -
  have c: "ComputeChecked fl iter doc [] None (None :: unit records_reader option) = Some (Inr l)"
    using assms(1) by (auto simp: Compute_def split: option.splits sum.splits)
  obtain w1 o1 where 1: "fold (walk_talk fl) (cv_Talks doc)
      (\<lparr>wk_ledger = empty_ledger [] None, wk_ownerOfNode = Map.empty, wk_counter = \<lambda>_. 0\<rparr>, []) = (w1, o1)" by (metis prod.exhaust)
  obtain w2 o2 ls where 2: "fold (walk_loose fl) (cv_Loose doc) (w1, o1, {}) = (w2, o2, ls)" by (metis prod_cases3)
  have w: "walk_document fl doc [] None = (wk_ledger w2, o2, wk_ownerOfNode w2)" by (simp add: walk_document_def 1 2)
  let ?l0 = "cost_owners fl doc None o2 (wk_ledger w2)"
  have r: "rollUp fl iter doc (wk_ownerOfNode w2) ?l0 = Some l" using c w by (simp add: ComputeChecked_def readStarted_def)
  from walk_document_ok [OF assms(2) w] obtain L where
    L: "walked_ok (map talk_id (cv_Talks doc)) L (wk_ledger w2)" "o2 = map talk_id (cv_Talks doc) @ L" by blast
  have "\<forall>ow \<in> set (map talk_id (cv_Talks doc)). \<not> is_loose ow" using assms(2) by (simp add: doc_ok_def)
  from cost_owners_ok [OF L this refl, of fl doc None] have ok: "mains_ok ?l0" "distinct (lg_Main ?l0)"
    by (simp_all add: owners_ok_def mains_ok_def)
  from rollUp_ok [OF assms(3) r ok(2)] obtain K where K: "rolled_up doc ?l0 l K" by blast
  then have same: "lg_talks l = lg_talks ?l0" "lg_Main l = lg_Main ?l0" by (simp_all add: rolled_up_def same_base_def)
  have "lg_talks l = lg_talks (wk_ledger w1)"
    using walk_looses_talks [of fl "cv_Loose doc" "(w1, o1, {})"] 2 by (simp add: same cost_owners_talks)
  then show "n \<in> set (cv_Talks doc) \<and> talk_id n = ow" if "lg_talks l ow = Some n"
    using walk_talks_from [OF 1, of ow n] that by (simp add: empty_ledger_def)
  show "\<exists>n c. lg_talks l t = Some n \<and> nd_Stream (info n) = ''main'' \<and> Inclusive l t = Some c \<and> nd_To (info n) \<le> ct_To c"
    if "t \<in> set (lg_Main l)"
    using that K ok(1) unfolding rolled_up_def mains_ok_def covers_def Inclusive_def same by metis
qed

section \<open>What a window shows\<close>

definition doc_nodes :: "conversation \<Rightarrow> node_info list" where
  "doc_nodes doc = concat (map tree_nodes (cv_Talks doc))"

lemma tree_nodes_map_tree: "tree_nodes (map_tree f t) = map f (tree_nodes t)"
  by (induction t) (simp add: map_concat o_def cong: map_cong)

lemma info_map_tree [simp]: "info (map_tree f t) = f (info t)"
  by (cases t) simp

lemma until_nodes:
  "until fin t = Some k \<Longrightarrow> n \<in> set (tree_nodes k) \<Longrightarrow> nd_At n = 0 \<or> nd_At n \<le> fin"
  "k \<in> set (until_all fin ts) \<Longrightarrow> n \<in> set (tree_nodes k) \<Longrightarrow> nd_At n = 0 \<or> nd_At n \<le> fin"
  by (induction fin t and fin ts arbitrary: k and k rule: until_until_all.induct) (auto split: if_splits option.splits)

lemma until_info: "until fin t = (if nd_At (info t) \<noteq> 0 \<and> nd_At (info t) > fin then None else Some (View_Node (info t) (until_all fin (children t))))"
  by (cases t) simp

lemma until_all_in: "t \<in> set ts \<Longrightarrow> until fin t = Some k \<Longrightarrow> k \<in> set (until_all fin ts)"
  by (induction ts) (auto split: option.split)

lemma end_talk_nodes:
  "\<exists>n'. tree_nodes (end_talk fin t) = n' # tl (tree_nodes t) \<and> nd_At n' = nd_At (info t) \<and> nd_ID n' = nd_ID (info t) \<and>
     nd_Refs n' = nd_Refs (info t) \<and> nd_Changes n' = nd_Changes (info t) \<and> nd_Executions n' = nd_Executions (info t) \<and>
     nd_To n' \<le> fin \<and> info (end_talk fin t) = n'"
  by (cases t) (auto simp: end_talk_def countSteps_def)

lemma tree_nodes_info: "tree_nodes t = info t # tl (tree_nodes t)"
  by (cases t) simp

text \<open>What \<open>end_doc\<close> keeps of the nodes.\<close>

lemma end_doc_node:
  assumes "n \<in> set (doc_nodes (end_doc fin doc))"
  shows "\<exists>m \<in> set (doc_nodes doc). nd_At n = nd_At m \<and> nd_Refs n = nd_Refs m \<and> nd_Changes n = nd_Changes m \<and>
    nd_Executions n = nd_Executions m"
proof -
  obtain t where t: "t \<in> set (cv_Talks doc)" "n \<in> set (tree_nodes (end_talk fin t))"
    using assms by (auto simp: doc_nodes_def end_doc_def Let_def)
  obtain n' where n': "tree_nodes (end_talk fin t) = n' # tl (tree_nodes t)" "nd_At n' = nd_At (info t)"
    "nd_Refs n' = nd_Refs (info t)" "nd_Changes n' = nd_Changes (info t)" "nd_Executions n' = nd_Executions (info t)"
    using end_talk_nodes [of fin t] by blast
  from t(2) n'(1) consider "n = n'" | "n \<in> set (tl (tree_nodes t))" by auto
  then show ?thesis
  proof cases
    case 1
    have "info t \<in> set (tree_nodes t)" by (cases t) simp
    with t(1) have "info t \<in> set (doc_nodes doc)" by (auto simp: doc_nodes_def)
    with 1 n' show ?thesis by blast
  next
    case 2
    then have "n \<in> set (tree_nodes t)" by (cases t) simp
    with t(1) show ?thesis by (auto simp: doc_nodes_def)
  qed
qed

lemma shown_doc_nodes: "n \<in> set (doc_nodes (shown_doc doc l sel)) \<Longrightarrow> nd_At n = 0 \<or> nd_At n \<le> se_End sel"
  by (auto simp: doc_nodes_def shown_doc_def Let_def dest: until_nodes(2))

lemma cut_node_kept [simp]: "nd_At (cut_node ptime recs fin n) = nd_At n" "nd_ID (cut_node ptime recs fin n) = nd_ID n"
  "nd_To (cut_node ptime recs fin n) = nd_To n"
  by (simp_all add: cut_node_def Let_def)

lemma cut_node_refs: "r \<in> set (nd_Refs (cut_node ptime recs fin n)) \<Longrightarrow> r \<in> set (nd_Refs n) \<and> \<not> late ptime recs fin r"
proof -
  assume r: "r \<in> set (nd_Refs (cut_node ptime recs fin n))"
  show ?thesis
  proof (cases "length (filter (\<lambda>r. \<not> late ptime recs fin r) (nd_Refs n)) = length (nd_Refs n)")
    case True
    then have "filter (\<lambda>r. \<not> late ptime recs fin r) (nd_Refs n) = nd_Refs n"
      by (metis filter_id_conv length_filter_less nat_neq_iff)
    then have "\<forall>r \<in> set (nd_Refs n). \<not> late ptime recs fin r" by (metis filter_id_conv)
    with True r show ?thesis by (simp add: cut_node_def Let_def)
  next
    case False
    with r show ?thesis by (auto simp: cut_node_def Let_def split: if_splits)
  qed
qed

definition kept_ids :: "conversation \<Rightarrow> string set" where
  "kept_ids doc = set (map (\<lambda>c. chr_ID (wc_Record c)) (cv_WorkspaceChanges doc)) \<union>
     set (map (\<lambda>e. xr_ID (te_Record e)) (cv_ToolExecutions doc))"

lemma cutLater_shows:
  assumes "cutLater ptime rd fin doc = Inr out"
  shows "\<exists>recs. rd (shown_refs doc) = Inr recs \<and>
    (\<forall>r \<in> set (shown_refs out). r \<in> set (shown_refs doc) \<and> \<not> late ptime recs fin r)"
    and "\<forall>n \<in> set (doc_nodes out). set (nd_Changes n) \<union> set (nd_Executions n) \<subseteq> kept_ids out"
    and "n \<in> set (doc_nodes out) \<Longrightarrow> \<exists>m \<in> set (doc_nodes doc). nd_At n = nd_At m"
    and "map talk_id (cv_Talks out) = map talk_id (cv_Talks doc)" "cv_Loose out = cv_Loose doc"
proof -
  obtain recs where recs: "rd (shown_refs doc) = Inr recs" using assms by (auto simp: cutLater_def split: sum.splits)
  define changes where "changes = filter (\<lambda>c. \<not> late ptime recs fin (wc_Ref c)) (cv_WorkspaceChanges doc)"
  define execs where "execs = filter (\<lambda>e. \<not> late ptime recs fin (te_Ref e)) (cv_ToolExecutions doc)"
  define keep where "keep = set (map (\<lambda>c. chr_ID (wc_Record c)) changes) \<union> set (map (\<lambda>e. xr_ID (te_Record e)) execs)"
  have out: "out = doc\<lparr>cv_Talks := map (map_tree (name_kept keep)) (map (map_tree (cut_node ptime recs fin)) (cv_Talks doc)),
      cv_WorkspaceChanges := changes, cv_ToolExecutions := execs\<rparr>"
    using assms recs by (simp add: cutLater_def changes_def execs_def keep_def Let_def)
  have nodes: "doc_nodes out = map (\<lambda>n. name_kept keep (cut_node ptime recs fin n)) (doc_nodes doc)"
    by (simp add: out doc_nodes_def map_concat tree_nodes_map_tree o_def)
  have refs: "shown_refs d = concat (map nd_Refs (doc_nodes d)) @ map wc_Ref (cv_WorkspaceChanges d) @ map te_Ref (cv_ToolExecutions d)" for d
    by (simp add: shown_refs_def doc_nodes_def)
  have "r \<in> set (shown_refs doc) \<and> \<not> late ptime recs fin r" if "r \<in> set (shown_refs out)" for r
  proof -
    consider (node) n where "n \<in> set (doc_nodes doc)" "r \<in> set (nd_Refs (cut_node ptime recs fin n))"
      | (change) c where "c \<in> set changes" "r = wc_Ref c" | (exec) e where "e \<in> set execs" "r = te_Ref e"
      using \<open>r \<in> set (shown_refs out)\<close> unfolding refs nodes by (auto simp: out name_kept_def)
    then show ?thesis
      by cases (auto simp: refs changes_def execs_def dest: cut_node_refs)
  qed
  with recs show "\<exists>recs. rd (shown_refs doc) = Inr recs \<and>
    (\<forall>r \<in> set (shown_refs out). r \<in> set (shown_refs doc) \<and> \<not> late ptime recs fin r)" by blast
  have "kept_ids out = keep" by (simp add: kept_ids_def out keep_def)
  then show "\<forall>n \<in> set (doc_nodes out). set (nd_Changes n) \<union> set (nd_Executions n) \<subseteq> kept_ids out"
    by (auto simp: nodes name_kept_def)
  show "n \<in> set (doc_nodes out) \<Longrightarrow> \<exists>m \<in> set (doc_nodes doc). nd_At n = nd_At m"
    by (auto simp: nodes name_kept_def)
  show "map talk_id (cv_Talks out) = map talk_id (cv_Talks doc)" "cv_Loose out = cv_Loose doc"
    by (simp_all add: out talk_id_def name_kept_def)
qed

lemma end_doc_refs: "r \<in> set (shown_refs (end_doc fin doc)) \<Longrightarrow> r \<in> set (shown_refs doc)"
proof -
  assume "r \<in> set (shown_refs (end_doc fin doc))"
  then consider n where "n \<in> set (doc_nodes (end_doc fin doc))" "r \<in> set (nd_Refs n)"
    | "r \<in> wc_Ref ` set (cv_WorkspaceChanges doc) \<union> te_Ref ` set (cv_ToolExecutions doc)"
    by (auto simp: shown_refs_def doc_nodes_def end_doc_def Let_def)
  then show ?thesis
  proof cases
    case 1
    from end_doc_node [OF 1(1)] 1(2) show ?thesis by (auto simp: shown_refs_def doc_nodes_def)
  qed (auto simp: shown_refs_def)
qed

lemma talk_id_end_talk [simp]: "talk_id (end_talk fin t) = talk_id t"
  using end_talk_nodes [of fin t] by (auto simp: talk_id_def)

lemma talk_id_end_doc: "map talk_id (cv_Talks (end_doc fin doc)) = map talk_id (cv_Talks doc)"
  by (simp add: end_doc_def Let_def o_def)

lemma selected_shown:
  assumes "n \<in> set (cv_Talks doc)" "talk_id n \<in> set (se_Talks sel)" "nd_Stream (info n) = ''main''"
    and "nd_At (info n) \<le> se_End sel"
  shows "talk_id n \<in> talk_id ` set (cv_Talks (shown_doc doc l sel))"
proof -
  let ?shown = "set (se_Before sel @ se_Talks sel)"
  have "n \<in> set (filter (shown_talk ?shown (shown_streams l ?shown)) (cv_Talks doc))"
    using assms by (simp add: shown_talk_def shown_streams_def talk_id_def)
  from until_all_in [OF this, of "se_End sel" "View_Node (info n) (until_all (se_End sel) (children n))"] assms(4)
  have "View_Node (info n) (until_all (se_End sel) (children n)) \<in> set (cv_Talks (shown_doc doc l sel))"
    by (simp add: until_info shown_doc_def Let_def)
  moreover have "talk_id (View_Node (info n) (until_all (se_End sel) (children n))) = talk_id n" by (simp add: talk_id_def)
  ultimately show ?thesis by (metis image_eqI)
qed

lemma Narrow_cases:
  fixes read :: "'e records_reader option"
  assumes "NarrowChecked fl iter ptime entries doc w read = Some (Inr (out, Some sel))"
  shows "\<exists>l sel0 shown. Compute fl iter doc = Some l \<and> select_talks w l = Some (Inr sel0 :: 'e window_error + selection) \<and>
    selection_end ptime entries doc l read sel0 = Inr sel \<and> out = end_doc (se_End sel) shown \<and>
    (case read of None \<Rightarrow> shown = shown_doc doc l sel | Some rd \<Rightarrow> cutLater ptime rd (se_End sel) (shown_doc doc l sel) = Inr shown)"
proof -
  obtain l where l: "Compute fl iter doc = Some l"
    using assms by (auto simp: NarrowChecked_def bind_eq_Some_conv split: if_splits)
  obtain r :: "'e window_error + selection" where r: "select_talks w l = Some r"
    "bind_result r (\<lambda>sel0. bind_result (selection_end ptime entries doc l read sel0) (\<lambda>sel.
       bind_result (case read of None \<Rightarrow> Inr (shown_doc doc l sel) | Some rd \<Rightarrow> cutLater ptime rd (se_End sel) (shown_doc doc l sel))
         (\<lambda>out. Inr (end_doc (se_End sel) out, Some sel)))) = Inr (out, Some sel)"
    using assms by (auto simp: NarrowChecked_def l simp del: bind_result_Inr_iff split: if_splits)
  then obtain sel0 shown where "r = Inr sel0" "selection_end ptime entries doc l read sel0 = Inr sel" "out = end_doc (se_End sel) shown"
    and shown: "(case read of None \<Rightarrow> Inr (shown_doc doc l sel) | Some rd \<Rightarrow> cutLater ptime rd (se_End sel) (shown_doc doc l sel)) = Inr shown"
    by auto
  moreover have "case read of None \<Rightarrow> shown = shown_doc doc l sel | Some rd \<Rightarrow> cutLater ptime rd (se_End sel) (shown_doc doc l sel) = Inr shown"
    using shown by (cases read) simp_all
  ultimately show ?thesis using l r(1) by blast
qed

lemma selected_in_main:
  assumes "mains_ok l" "select_talks w l = Some (Inr sel0 :: 'e window_error + selection)"
  shows "set (se_Talks sel0) \<subseteq> set (lg_Main l)"
proof -
  obtain r where "select_talks w l = Some (r :: 'e window_error + selection)" "\<forall>sel. r = Inr sel \<longrightarrow> se_Talks sel \<noteq> [] \<and> se_End sel = 0 \<and>
      (if wn_FromTalk w \<noteq> [] \<or> wn_ToTalk w \<noteq> [] then ids_segment w (lg_Main l) sel else times_selected w l sel)"
    using select_talks_ok [OF assms(1), of w] by blast
  with assms(2) have "if wn_FromTalk w \<noteq> [] \<or> wn_ToTalk w \<noteq> [] then ids_segment w (lg_Main l) sel0 else times_selected w l sel0"
    by simp
  then show ?thesis by (auto simp: ids_segment_def times_selected_def split: if_splits)
qed

lemma later_end_covers:
  "i \<in> set ids \<Longrightarrow> Inclusive l i = Some c \<Longrightarrow> ct_To c \<le> fold (later_end l) ids e"
proof (induction ids arbitrary: e)
  case (Cons x xs)
  have grow: "e \<le> fold (later_end l) ids e" for ids e
  proof (induction ids arbitrary: e)
    case (Cons y ys)
    have "e \<le> later_end l y e" by (simp add: later_end_def split: option.split)
    with Cons [of "later_end l y e"] show ?case by simp
  qed simp
  show ?case
  proof (cases "i = x")
    case True
    with Cons.prems(2) have "ct_To c \<le> later_end l x e" by (simp add: later_end_def)
    with grow [of "later_end l x e" xs] show ?thesis by simp
  next
    case False
    with Cons show ?thesis by simp
  qed
qed simp


definition sample_window :: window where
  "sample_window = \<lparr>wn_From = None, wn_To = None, wn_FromTalk = ''t1'', wn_ToTalk = []\<rparr>"

definition sample_narrow :: "(unit window_error + conversation \<times> selection option) option" where
  "sample_narrow = NarrowChecked int_floats id (\<lambda>_. None) (\<lambda>_. []) sample_doc sample_window (Some (\<lambda>_. Inr Map.empty))"

lemma Narrow_selects_witness:
  "\<exists>l r. Compute int_floats id sample_doc = Some l \<and> sample_narrow = Some r \<and>
    (\<forall>out s. r = Inr (out, s) \<longrightarrow> (\<exists>sel. s = Some sel \<and> ids_segment sample_window (lg_Main l) sel))"
  using Narrow_selects [OF sample_doc_ok ranges_id, of sample_window int_floats "\<lambda>_. None" "\<lambda>_. []" "Some (\<lambda>_. Inr Map.empty)"]
  unfolding sample_narrow_def by (fastforce simp: sample_window_def IsZero_def)

lemma sample_main: "map_option lg_Main (Compute int_floats id sample_doc) = Some [''t1'']"
  by code_simp

lemma sample_narrowed: "\<exists>out sel. sample_narrow = Some (Inr (out, Some sel)) \<and> se_Talks sel = [''t1'']"
proof -
  obtain l where l: "Compute int_floats id sample_doc = Some l" "lg_Main l = [''t1'']" using sample_main by auto
  have sel: "select_talks sample_window l =
      Some (Inr \<lparr>se_Talks = [''t1''], se_Before = [], se_End = 0, se_Untimed = 0\<rparr> :: unit window_error + selection)"
    by (simp add: select_talks_def select_ids_def sample_window_def l(2))
  show ?thesis
    unfolding sample_narrow_def NarrowChecked_def l(1)
    by (simp add: sel selection_end_def cutLater_def Let_def) (simp add: sample_window_def IsZero_def)
qed


end
