(* ===== verification/Judge_Close.thy ===== *)
theory Judge_Close
  imports Judge_Frames Judge_Window "HOL-Library.Signed_Division"
begin

text \<open>
  Closing a run, \<^verbatim>\<open>internal/judge/close.go\<close>: what the evaluators decided is priced from the
  ledger alone. A call of a talk goes to the targets the last input before it directed work to, is split
  between them in whole tokens, and is labeled by the most specific decision.

  The map of the claims is ranged over in the order \<open>iter\<close>. A call is its index in the ledger.
\<close>

section \<open>Whose each call was\<close>

type_synonym owners_of_calls = "nat \<Rightarrow> string list"
type_synonym claims = "(string \<times> string list) list"

definition claimed_by :: "claims \<Rightarrow> string \<Rightarrow> string list" where
  "claimed_by claims tk = (case map_of claims tk of Some ts \<Rightarrow> ts | None \<Rightarrow> [])"

definition add_claim :: "string \<Rightarrow> string \<Rightarrow> claims \<Rightarrow> claims" where
  "add_claim ident tk claims = AList.update tk (claimed_by claims tk @ [ident]) claims"

definition claims_of :: "target list \<Rightarrow> claims" where
  "claims_of targets = fold (\<lambda>t. fold (add_claim (tg_ID t)) (tg_Talks t)) targets []"

definition directs :: "string \<Rightarrow> bool" where
  "directs action \<longleftrightarrow> action \<in> {ActionCreate, ActionRefine, ActionSteer, ActionCorrect}"

definition add_directed :: "string \<Rightarrow> input_action \<Rightarrow> string list \<Rightarrow> string list" where
  "add_directed t a ts = (if ia_Target a = t \<and> directs (ia_Action a) \<and> t \<notin> set ts then ts @ [t] else ts)"

definition directed :: "string list \<Rightarrow> input_action list \<Rightarrow> string list" where
  "directed claimed actions = fold (\<lambda>t. fold (add_directed t) actions) claimed []"

type_synonym cuts = "string \<Rightarrow> (nat \<times> string list) list"

definition add_cut :: "'f Ledger \<Rightarrow> claims \<Rightarrow> input \<Rightarrow> cuts \<Rightarrow> cuts" where
  "add_cut l claims i cuts =
    (case StepPlace l (in_Node i) of
       None \<Rightarrow> cuts
     | Some place \<Rightarrow>
        (let ts = directed (claimed_by claims (in_Talk i)) (in_Actions i)
         in if ts = [] then cuts else cuts(in_Talk i := cuts (in_Talk i) @ [(place, ts)])))"

text \<open>The last cut at or before a place, in the order of the places.\<close>

definition owners_at :: "(nat \<times> string list) list \<Rightarrow> string list \<Rightarrow> nat \<Rightarrow> string list" where
  "owners_at cs claimed place = fold (\<lambda>c ts. if fst c \<le> place then snd c else ts) cs claimed"

definition own_talk :: "'f Ledger \<Rightarrow> cuts \<Rightarrow> string \<times> string list \<Rightarrow> owners_of_calls \<Rightarrow> owners_of_calls" where
  "own_talk l cuts claim who =
    (let (tk, claimed) = claim; cs = sort_by (\<lambda>a b. fst a < fst b) (cuts tk)
     in fold (\<lambda>i w. w(i := owners_at cs claimed (Place l tk i))) (CallsOf l tk) who)"

definition ownersOfCalls :: "(claims \<Rightarrow> claims) \<Rightarrow> 'f Ledger \<Rightarrow> claims \<Rightarrow> input list \<Rightarrow> owners_of_calls" where
  "ownersOfCalls iter l claims inputs =
    (let cuts = fold (add_cut l claims) inputs (\<lambda>_. []) in fold (own_talk l cuts) (iter claims) (\<lambda>_. []))"

section \<open>Labels\<close>

record talk_part =
  pt_place :: nat
  pt_callPlace :: nat
  pt_work :: string
  pt_subtask :: string

definition add_part :: "'f Ledger \<Rightarrow> work_label \<Rightarrow> talk_part \<times> talk_part list \<Rightarrow> talk_part \<times> talk_part list" where
  "add_part l p st =
    (let (whole, ps) = st in
     if lb_From p = [] then (\<lparr>pt_place = 0, pt_callPlace = 0, pt_work = lb_Label p, pt_subtask = lb_Subtask p\<rparr>, ps)
     else case StepPlace l (lb_From p) of
       None \<Rightarrow> (whole, ps)
     | Some place \<Rightarrow> (whole, ps @ [\<lparr>pt_place = place, pt_callPlace = or_zero (PartPlace l (lb_From p)),
         pt_work = lb_Label p, pt_subtask = lb_Subtask p\<rparr>]))"

text \<open>The loop over the parts after the first: a part whose call asked for the part before it too begins at its step.\<close>

fun separate_parts :: "talk_part \<Rightarrow> talk_part list \<Rightarrow> talk_part list" where
  "separate_parts prev [] = []"
| "separate_parts prev (p # ps) =
    (let p' = (if pt_callPlace p \<le> pt_callPlace prev then p\<lparr>pt_callPlace := pt_place p\<rparr> else p)
     in p' # separate_parts p' ps)"

definition no_part :: talk_part where
  "no_part = \<lparr>pt_place = 0, pt_callPlace = 0, pt_work = [], pt_subtask = []\<rparr>"

definition talkParts :: "'f Ledger \<Rightarrow> work_label list \<Rightarrow> talk_part \<times> talk_part list" where
  "talkParts l labels =
    (let (whole, ps) = fold (add_part l) labels (no_part, []);
         sorted = sort_by (\<lambda>a b. pt_place a < pt_place b) ps
     in (whole, case sorted of [] \<Rightarrow> [] | p # rest \<Rightarrow> p # separate_parts p rest))"

definition partOf :: "'f Ledger \<Rightarrow> string \<Rightarrow> nat \<Rightarrow> talk_part \<Rightarrow> talk_part list \<Rightarrow> talk_part" where
  "partOf l talk i whole ps =
    (let place = Place l talk i; own = (cl_Owner (lg_Calls l ! i) = talk)
     in fold (\<lambda>p lb. if place \<ge> pt_place p \<or> own \<and> place \<ge> pt_callPlace p then p else lb) ps whole)"

definition subtaskCalls :: "'f Ledger \<Rightarrow> nat \<rightharpoonup> string" where
  "subtaskCalls l = fold (\<lambda>st m. fold (\<lambda>c m. m(c \<mapsto> sb_ID st)) (sb_own st) m) (lg_Subtasks l) Map.empty"

section \<open>Whose doing avoidable work was\<close>

definition giver :: "'f Ledger \<Rightarrow> string \<Rightarrow> string" where
  "giver l sid = (case Subtask l sid of Some st \<Rightarrow> if sb_Depth st > 1 then sb_Parent st else CauseMain | None \<Rightarrow> CauseMain)"

type_synonym decisions = "(string \<rightharpoonup> decision) option"

definition decided :: "decisions \<Rightarrow> string \<Rightarrow> decision option" where
  "decided subtasks sid = (case subtasks of None \<Rightarrow> None | Some m \<Rightarrow> m sid)"

definition misledBy :: "'f Ledger \<Rightarrow> decisions \<Rightarrow> string \<Rightarrow> string" where
  "misledBy l subtasks sid =
    (case decided subtasks sid of
       None \<Rightarrow> CauseUnknown
     | Some d \<Rightarrow>
         if dn_Dispatch d = DispatchMisdirected then giver l sid
         else if dn_Dispatch d = DispatchReasonable \<or> dn_Dispatch d = DispatchRedundant then sid
         else CauseUnknown)"

text \<open>A call's label and, when it is avoidable, whose doing it was.\<close>

definition labelOf :: "'f Ledger \<Rightarrow> decisions \<Rightarrow> (nat \<rightharpoonup> string) \<Rightarrow> string \<Rightarrow> talk_part \<times> talk_part list \<Rightarrow> nat \<Rightarrow> string \<times> string" where
  "labelOf l subtasks subOf tk parts i =
    (case subOf i of
       Some sid \<Rightarrow>
        (case decided subtasks sid of
           None \<Rightarrow> (WorkNotReviewed, [])
         | Some d \<Rightarrow>
             if dn_Work d = WorkMisdirected \<or> dn_Work d = WorkRedundant then (dn_Work d, giver l sid)
             else if Avoidable (dn_Work d) then (dn_Work d, sid)
             else (dn_Work d, []))
     | None \<Rightarrow>
        (let lb = partOf l tk i (fst parts) (snd parts)
         in if pt_work lb = [] then (WorkNotReviewed, [])
            else if pt_work lb = WorkMisled then (pt_work lb, misledBy l subtasks (pt_subtask lb))
            else if Avoidable (pt_work lb) then (pt_work lb, CauseMain)
            else (pt_work lb, [])))"

section \<open>The work of each target\<close>

record work_group =
  wg_work :: string
  wg_talk :: string
  wg_cause :: string
  wg_k :: nat
  wg_calls :: "nat list"

record target_work =
  tw_groups :: "work_group list"
  tw_avoidable :: "nat list"
  tw_notReviewed :: "nat list"
  tw_bySubtasks :: "nat list"
  tw_causeUnknown :: "nat list"
  tw_avoidableSpans :: "(int \<times> int) list"

definition no_work :: target_work where
  "no_work = \<lparr>tw_groups = [], tw_avoidable = [], tw_notReviewed = [], tw_bySubtasks = [], tw_causeUnknown = [], tw_avoidableSpans = []\<rparr>"

type_synonym group_key = "string \<times> string \<times> nat \<times> string"

definition add_to_group :: "group_key \<Rightarrow> nat \<Rightarrow> (group_key \<rightharpoonup> nat) \<times> work_group list \<Rightarrow> (group_key \<rightharpoonup> nat) \<times> work_group list" where
  "add_to_group key i st =
    (let (index, groups) = st; (lb, talk, k, cause) = key;
         (index', groups', g) = (case index key of
            Some g \<Rightarrow> (index, groups, g)
          | None \<Rightarrow> (index(key \<mapsto> length groups),
              groups @ [\<lparr>wg_work = lb, wg_talk = talk, wg_cause = cause, wg_k = k, wg_calls = []\<rparr>], length groups))
     in (index', groups'[g := (groups' ! g)\<lparr>wg_calls := wg_calls (groups' ! g) @ [i]\<rparr>]))"

definition note_label :: "string \<Rightarrow> string \<Rightarrow> nat \<Rightarrow> target_work \<Rightarrow> target_work" where
  "note_label lb cause i w =
    (if Avoidable lb then
       (let w1 = w\<lparr>tw_avoidable := tw_avoidable w @ [i]\<rparr> in
        if cause = CauseMain then w1
        else if cause = CauseUnknown then w1\<lparr>tw_causeUnknown := tw_causeUnknown w1 @ [i]\<rparr>
        else w1\<lparr>tw_bySubtasks := tw_bySubtasks w1 @ [i]\<rparr>)
     else if lb = WorkNotReviewed then w\<lparr>tw_notReviewed := tw_notReviewed w @ [i]\<rparr>
     else w)"

definition label_call :: "owners_of_calls \<Rightarrow> string \<Rightarrow> string \<Rightarrow> (nat \<Rightarrow> string \<times> string) \<Rightarrow> nat \<Rightarrow>
    (group_key \<rightharpoonup> nat) \<times> target_work \<Rightarrow> (group_key \<rightharpoonup> nat) \<times> target_work" where
  "label_call who t tk lab i st =
    (if t \<notin> set (who i) then st
     else
       (let (index, w) = st; (lb, cause) = lab i; k = length (who i); talk = (if k > 1 then tk else []);
            (index', groups) = add_to_group (lb, talk, k, cause) i (index, tw_groups w)
        in (index', note_label lb cause i (w\<lparr>tw_groups := groups\<rparr>))))"

text \<open>The runs of avoidable calls among a talk's own calls: each from its first call to the talk's next call, or
  to the talk's end.\<close>

function avoidable_spans :: "'f Ledger \<Rightarrow> (nat \<Rightarrow> bool) \<Rightarrow> int \<Rightarrow> nat list \<Rightarrow> (int \<times> int) list" where
  "avoidable_spans l avoid fin [] = []"
| "avoidable_spans l avoid fin (i # is) =
    (if \<not> avoid i then avoidable_spans l avoid fin is
     else let rest = dropWhile avoid is
       in (cl_At (lg_Calls l ! i), case rest of [] \<Rightarrow> fin | j # _ \<Rightarrow> cl_At (lg_Calls l ! j)) # avoidable_spans l avoid fin rest)"
  by pat_completeness auto
termination
  by (relation "measure (\<lambda>(l, avoid, fin, is). length is)") (auto simp: length_dropWhile_le le_imp_less_Suc)

definition label_talk :: "'f Ledger \<Rightarrow> owners_of_calls \<Rightarrow> work_label list \<Rightarrow> decisions \<Rightarrow> (nat \<rightharpoonup> string) \<Rightarrow> string \<Rightarrow> string \<Rightarrow>
    (group_key \<rightharpoonup> nat) \<times> target_work \<Rightarrow> (group_key \<rightharpoonup> nat) \<times> target_work" where
  "label_talk l who labels subtasks subOf t tk st =
    (let parts = talkParts l (filter (\<lambda>lb. lb_Target lb = t \<and> lb_Talk lb = tk) labels);
         lab = labelOf l subtasks subOf tk parts;
         (index, w) = fold (label_call who t tk lab) (CallsOf l tk) st;
         fin = (case Talk l tk of Some n \<Rightarrow> nd_To (info n) | None \<Rightarrow> 0);
         spans = avoidable_spans l (\<lambda>i. t \<in> set (who i) \<and> Avoidable (fst (lab i))) fin (lg_callsOf l tk)
     in (index, w\<lparr>tw_avoidableSpans := tw_avoidableSpans w @ spans\<rparr>))"

definition labelTarget :: "'f Ledger \<Rightarrow> owners_of_calls \<Rightarrow> work_label list \<Rightarrow> decisions \<Rightarrow> target \<Rightarrow> target_work" where
  "labelTarget l who labels subtasks t =
    (let subOf = (case subtasks of None \<Rightarrow> Map.empty | Some _ \<Rightarrow> subtaskCalls l)
     in snd (fold (label_talk l who labels subtasks subOf (tg_ID t)) (tg_Talks t) (Map.empty, no_work)))"

text \<open>A later target of the same id overwrites an earlier one.\<close>

definition labelCalls :: "'f Ledger \<Rightarrow> target list \<Rightarrow> owners_of_calls \<Rightarrow> work_label list \<Rightarrow> decisions \<Rightarrow> string \<rightharpoonup> target_work" where
  "labelCalls l targets who labels subtasks =
    fold (\<lambda>t m. m(tg_ID t \<mapsto> labelTarget l who labels subtasks t)) targets Map.empty"

section \<open>Amounts\<close>

text \<open>The share of target \<open>j\<close> of \<open>k\<close> in a count, in whole tokens; Go's division is towards zero.\<close>

definition split_part :: "nat \<Rightarrow> int \<Rightarrow> u64 \<Rightarrow> u64" where
  "split_part k j v =
    (let n = of_int (sint v sdiv int k) in if j < sint v smod int k then n + 1 else n)"

definition index_of :: "'a \<Rightarrow> 'a list \<Rightarrow> int" where
  "index_of x xs = (case index_where (\<lambda>y. y = x) xs of Some i \<Rightarrow> int i | None \<Rightarrow> - 1)"

definition no_amount :: "'f amount" where
  "no_amount = \<lparr>am_Usage = zero_usage, am_Money = None, am_Unpriced = 0, am_Unknown = 0, am_OutputUnknown = 0\<rparr>"

text \<open>The loop keeps the amount, the money so far and whether a call was priced.\<close>

definition amount_call :: "'f floats \<Rightarrow> 'f Ledger \<Rightarrow> owners_of_calls \<Rightarrow> string \<Rightarrow> nat \<Rightarrow> 'f amount \<times> 'f \<times> bool \<Rightarrow> 'f amount \<times> 'f \<times> bool" where
  "amount_call fl l who target i st =
    (let (a, money, priced) = st; c = lg_Calls l ! i in
     case cl_Usage c of
       None \<Rightarrow> (a\<lparr>am_Unknown := am_Unknown a + 1\<rparr>, money, priced)
     | Some u \<Rightarrow>
        (let a1 = (if cl_OutputUnknown c then a\<lparr>am_OutputUnknown := am_OutputUnknown a + 1\<rparr> else a);
             (k, j) = (if length (who i) > 1 then (length (who i), index_of target (who i)) else (1, 0));
             part = split_part k j;
             a2 = a1\<lparr>am_Usage := add_usage (am_Usage a1) \<lparr>us_Input = part (us_Input u), us_Output = part (us_Output u),
               us_CacheRead = part (us_CacheRead u), us_CacheWrite = part (us_CacheWrite u)\<rparr>\<rparr>
         in if cl_Price c = None then (a2\<lparr>am_Unpriced := am_Unpriced a2 + 1\<rparr>, money, priced)
            else (a2, fl_add fl money (fl_div fl (cl_Money c) (fl_of_int fl (of_nat k))), True)))"

definition amountFor :: "'f floats \<Rightarrow> 'f Ledger \<Rightarrow> nat list \<Rightarrow> owners_of_calls \<Rightarrow> string \<Rightarrow> 'f amount" where
  "amountFor fl l calls who target =
    (let (a, money, priced) = fold (amount_call fl l who target) calls (no_amount, fl_zero fl, False)
     in if priced then a\<lparr>am_Money := Some money\<rparr> else a)"

section \<open>Scores\<close>

text \<open>The other operations on \<open>float64\<close> that scores use: \<open>so_round\<close> is \<open>math.Round\<close>.\<close>

record 'f score_ops =
  so_sub :: "'f \<Rightarrow> 'f \<Rightarrow> 'f"
  so_less :: "'f \<Rightarrow> 'f \<Rightarrow> bool"
  so_round :: "'f \<Rightarrow> 'f"

definition float_of :: "'f floats \<Rightarrow> int \<Rightarrow> 'f" where
  "float_of fl n = fl_of_int fl (of_int n)"

definition round4 :: "'f floats \<Rightarrow> 'f score_ops \<Rightarrow> 'f \<Rightarrow> 'f" where
  "round4 fl so v = fl_div fl (so_round so (fl_mul fl v (float_of fl 10000))) (float_of fl 10000)"

definition ratio :: "'f floats \<Rightarrow> 'f score_ops \<Rightarrow> 'f \<Rightarrow> 'f \<Rightarrow> 'f" where
  "ratio fl so a b = round4 fl so (fl_div fl a b)"

text \<open>An amount as money and as tokens.\<close>

type_synonym 'f pair = "'f \<times> 'f"

record 'f exact_amounts =
  ea_cost :: "'f pair"
  ea_avoidable :: "'f pair"
  ea_unreviewed :: "'f pair"

definition exactOf :: "'f floats \<Rightarrow> 'f Ledger \<Rightarrow> nat list \<Rightarrow> (nat \<Rightarrow> 'f) \<Rightarrow> 'f pair" where
  "exactOf fl l calls share =
    fold (\<lambda>i out. let c = lg_Calls l ! i in
        case cl_Usage c of
          None \<Rightarrow> out
        | Some u \<Rightarrow> (fl_add fl (fst out) (fl_mul fl (cl_Money c) (share i)),
            fl_add fl (snd out) (fl_mul fl (fl_of_int fl (us_Input u + us_Output u + us_CacheRead u + us_CacheWrite u)) (share i))))
      calls (fl_zero fl, fl_zero fl)"

record 'f score_sum =
  ss_value :: 'f
  ss_judged :: int
  ss_cost :: "'f pair"
  ss_delivered :: "'f pair"
  ss_avoidable :: "'f pair"
  ss_unreviewed :: "'f pair"
  ss_unpriced :: bool

definition no_scores :: "'f floats \<Rightarrow> 'f score_sum" where
  "no_scores fl = \<lparr>ss_value = fl_zero fl, ss_judged = 0, ss_cost = (fl_zero fl, fl_zero fl), ss_delivered = (fl_zero fl, fl_zero fl),
     ss_avoidable = (fl_zero fl, fl_zero fl), ss_unreviewed = (fl_zero fl, fl_zero fl), ss_unpriced = False\<rparr>"

definition add_pair :: "'f floats \<Rightarrow> 'f pair \<Rightarrow> 'f pair \<Rightarrow> 'f pair" where
  "add_pair fl p q = (fl_add fl (fst p) (fst q), fl_add fl (snd p) (snd q))"

text \<open>\<open>recordScore\<close> of \<^verbatim>\<open>report.go\<close>.\<close>

definition recordScore :: "'f floats \<Rightarrow> string \<Rightarrow> int option \<Rightarrow> int option \<Rightarrow> int option \<Rightarrow> 'f option" where
  "recordScore fl level met criteria contradicted =
    (if level = LevelAchieved then Some (float_of fl 1)
     else if level = LevelNotAchieved then Some (float_of fl 0)
     else if level = LevelPartly then
       (case (met, criteria) of
          (Some m, Some n) \<Rightarrow>
            if n > 0 then Some (fl_div fl (float_of fl m) (float_of fl (n + (case contradicted of Some x \<Rightarrow> x | None \<Rightarrow> 0))))
            else Some (fl_div fl (float_of fl 1) (float_of fl 2))
        | _ \<Rightarrow> Some (fl_div fl (float_of fl 1) (float_of fl 2)))
     else None)"

definition score_add :: "'f floats \<Rightarrow> 'f outcome \<Rightarrow> 'f exact_amounts \<Rightarrow> 'f score_sum \<Rightarrow> 'f score_sum" where
  "score_add fl o' ex s =
    (let s1 = (if oc_Status o' \<noteq> TargetCancelled \<and> oc_Status o' \<noteq> TargetReplaced then
           (case recordScore fl (oc_Level o') (oc_Met o') (oc_Criteria o') (oc_Contradicted o') of
              Some v \<Rightarrow> s\<lparr>ss_value := fl_add fl (ss_value s) v, ss_judged := ss_judged s + 1\<rparr>
            | None \<Rightarrow> s) else s);
         c = oc_Cost o';
         s2 = (if am_Unpriced c > 0 \<or> am_Unknown c > 0 \<or> am_Money c = None \<and> 0 <s Amount_Tokens c
               then s1\<lparr>ss_unpriced := True\<rparr> else s1)
     in s2\<lparr>ss_cost := add_pair fl (ss_cost s2) (ea_cost ex),
          ss_delivered := (if oc_Level o' = LevelAchieved then add_pair fl (ss_delivered s2) (ea_cost ex) else ss_delivered s2),
          ss_avoidable := add_pair fl (ss_avoidable s2) (ea_avoidable ex),
          ss_unreviewed := add_pair fl (ss_unreviewed s2) (ea_unreviewed ex)\<rparr>)"

definition score_of :: "'f floats \<Rightarrow> 'f score_ops \<Rightarrow> bool \<Rightarrow> 'f score_sum \<Rightarrow> 'f score" where
  "score_of fl so labeled s =
    (let pick = (if ss_unpriced s then snd else fst);
         cost = pick (ss_cost s);
         out0 = \<lparr>sc_Achievement = (if ss_judged s > 0 then Some (ratio fl so (ss_value s) (float_of fl (ss_judged s))) else None),
           sc_Final = None, sc_Judged = ss_judged s, sc_Efficiency = None, sc_Reviewed = None, sc_Delivered = None,
           sc_Unit = (if ss_unpriced s then UnitTokens else UnitMoney)\<rparr>
     in if \<not> so_less so (fl_zero fl) cost then out0
        else let out1 = out0\<lparr>sc_Delivered := Some (ratio fl so (pick (ss_delivered s)) cost)\<rparr> in
          if \<not> labeled then out1
          else let reviewed = so_sub so cost (pick (ss_unreviewed s));
                   out2 = out1\<lparr>sc_Reviewed := Some (ratio fl so reviewed cost)\<rparr> in
            if so_less so (fl_zero fl) reviewed
            then out2\<lparr>sc_Efficiency := Some (round4 fl so (so_sub so (float_of fl 1) (fl_div fl (pick (ss_avoidable s)) reviewed)))\<rparr>
            else out2)"

section \<open>The union of time ranges\<close>

text \<open>The loop over the sorted ranges: the first starts a range, and so does one past the end so far.\<close>

definition union_step :: "int \<times> int \<Rightarrow> (int \<times> int \<times> int) \<times> bool \<Rightarrow> (int \<times> int \<times> int) \<times> bool" where
  "union_step s st =
    (let ((total, start, fin), first) = st in
     if first \<or> fst s > fin then ((total + (fin - start), fst s, snd s), False)
     else if snd s > fin then ((total, start, snd s), False)
     else ((total, start, fin), False))"

definition union_sorted :: "(int \<times> int) list \<Rightarrow> int" where
  "union_sorted r =
    (let ((total, start, fin), _) = fold union_step r ((0, 0, 0), True)
     in if r \<noteq> [] then total + (fin - start) else total)"

definition whole_ranges :: "(int \<times> int) list \<Rightarrow> (int \<times> int) list" where
  "whole_ranges spans = filter (\<lambda>s. fst s \<noteq> 0 \<and> snd s \<ge> fst s) spans"

definition union :: "(int \<times> int) list \<Rightarrow> int" where
  "union spans = union_sorted (sort_by (\<lambda>a b. fst a < fst b) (whole_ranges spans))"

section \<open>The frames of a close\<close>

definition target_calls :: "'f Ledger \<Rightarrow> owners_of_calls \<Rightarrow> target \<Rightarrow> nat list" where
  "target_calls l who t = concat (map (\<lambda>tk. filter (\<lambda>i. tg_ID t \<in> set (who i)) (CallsOf l tk)) (tg_Talks t))"

text \<open>The calls a target shares, by talk and by how many share them, in the order each pair first comes.\<close>

type_synonym shared_calls = "((string \<times> nat) \<times> nat list) list"

definition add_shared :: "string \<times> nat \<Rightarrow> nat \<Rightarrow> shared_calls \<Rightarrow> shared_calls" where
  "add_shared key i shared =
    AList.update key ((case map_of shared key of Some calls \<Rightarrow> calls | None \<Rightarrow> []) @ [i]) shared"

definition shared_of_talk :: "'f Ledger \<Rightarrow> owners_of_calls \<Rightarrow> string \<Rightarrow> string \<Rightarrow> shared_calls \<Rightarrow> shared_calls" where
  "shared_of_talk l who t tk shared =
    fold (\<lambda>i. add_shared (tk, length (who i)) i) (filter (\<lambda>i. t \<in> set (who i) \<and> length (who i) \<noteq> 1) (CallsOf l tk)) shared"

definition shared_calls_of :: "'f Ledger \<Rightarrow> owners_of_calls \<Rightarrow> target \<Rightarrow> shared_calls" where
  "shared_calls_of l who t = fold (shared_of_talk l who (tg_ID t)) (tg_Talks t) []"

definition count_states :: "string set \<Rightarrow> judge_check list \<Rightarrow> int" where
  "count_states states checks = int (length (filter (\<lambda>k. ck_State k \<in> states) checks))"

definition judge_outcome :: "achievement option \<Rightarrow> 'f outcome \<Rightarrow> 'f outcome" where
  "judge_outcome a o' =
    (case a of
       None \<Rightarrow> o'
     | Some a \<Rightarrow> o'\<lparr>oc_Level := ah_Level a, oc_Basis := ah_Basis a, oc_Met := Some (count_states {CheckMet} (ah_Criteria a)),
         oc_Criteria := Some (int (length (ah_Criteria a))),
         oc_Unknown := Some (count_states {CheckUnknown, CheckNotCaptured} (ah_Criteria a)),
         oc_Contradicted := Some (count_states {CheckContradicted} (ah_Claims a))\<rparr>)"

definition work_outcome :: "'f floats \<Rightarrow> 'f Ledger \<Rightarrow> owners_of_calls \<Rightarrow> string \<Rightarrow> target_work option \<Rightarrow> 'f outcome \<Rightarrow> 'f outcome" where
  "work_outcome fl l who t w o' =
    (case w of
       None \<Rightarrow> o'
     | Some w \<Rightarrow> o'\<lparr>oc_Avoidable := Some (amountFor fl l (tw_avoidable w) who t),
         oc_NotReviewed := Some (amountFor fl l (tw_notReviewed w) who t),
         oc_AvoidableSpan := Some (union (tw_avoidableSpans w)),
         oc_AvoidableBySubtasks := Some (amountFor fl l (tw_bySubtasks w) who t),
         oc_AvoidableCauseUnknown := Some (amountFor fl l (tw_causeUnknown w) who t)\<rparr>)"

definition outcome_of :: "'f floats \<Rightarrow> 'f Ledger \<Rightarrow> owners_of_calls \<Rightarrow> achievement option \<Rightarrow> target_work option \<Rightarrow> target \<Rightarrow> 'f outcome" where
  "outcome_of fl l who a w t =
    work_outcome fl l who (tg_ID t) w (judge_outcome a
      \<lparr>oc_Target = tg_ID t, oc_Statement = tg_Statement t, oc_Status = tg_Status t, oc_Level = [], oc_Basis = [], oc_Met = None,
       oc_Criteria = None, oc_Unknown = None, oc_Contradicted = None, oc_Cost = amountFor fl l (target_calls l who t) who (tg_ID t),
       oc_Avoidable = None, oc_NotReviewed = None, oc_AvoidableBySubtasks = None, oc_AvoidableCauseUnknown = None,
       oc_Span = union (concat (map (TalkSpans l) (tg_Talks t))), oc_AvoidableSpan = None, oc_Class = [], oc_Standing = [],
       oc_Undone = [], oc_ScoreRecord = None, oc_ScoreFinal = None, oc_Rework = [], oc_Corrections = [], oc_Operations = [],
       oc_References = []\<rparr>)"

definition share_of :: "'f floats \<Rightarrow> nat \<Rightarrow> 'f" where
  "share_of fl k = fl_div fl (float_of fl 1) (fl_of_int fl (of_nat k))"

definition exact_amounts_of :: "'f floats \<Rightarrow> 'f Ledger \<Rightarrow> owners_of_calls \<Rightarrow> target_work option \<Rightarrow> target \<Rightarrow> 'f exact_amounts" where
  "exact_amounts_of fl l who w t =
    (let share = (\<lambda>i. share_of fl (length (who i))); zero = (fl_zero fl, fl_zero fl)
     in \<lparr>ea_cost = exactOf fl l (target_calls l who t) share,
         ea_avoidable = (case w of None \<Rightarrow> zero | Some w \<Rightarrow> exactOf fl l (tw_avoidable w) share),
         ea_unreviewed = (case w of None \<Rightarrow> zero | Some w \<Rightarrow> exactOf fl l (tw_notReviewed w) share)\<rparr>)"

definition shared_frame :: "'f floats \<Rightarrow> 'f Ledger \<Rightarrow> owners_of_calls \<Rightarrow> string \<Rightarrow> (string \<times> nat) \<times> nat list \<Rightarrow> 'f close_frame" where
  "shared_frame fl l who t s =
    (let ((tk, _), calls) = s
     in CostFrame ((sum_ledger fl l ScopeShared tk calls)\<lparr>ct_Target := t, ct_Share := Some (share_of fl (length (who (hd calls))))\<rparr>))"

text \<open>What the loop over the targets gathers.\<close>

record 'f closing =
  cs_frames :: "'f close_frame list"
  cs_score :: "'f score_sum"
  cs_avoidable :: usage
  cs_bySubtasks :: usage
  cs_causeUnknown :: usage

definition usage_of :: "'f amount option \<Rightarrow> usage" where
  "usage_of a = (case a of Some x \<Rightarrow> am_Usage x | None \<Rightarrow> zero_usage)"

definition close_target :: "'f floats \<Rightarrow> 'f Ledger \<Rightarrow> owners_of_calls \<Rightarrow> (string \<rightharpoonup> achievement) \<Rightarrow> (string \<rightharpoonup> target_work) option \<Rightarrow>
    target \<Rightarrow> 'f closing \<Rightarrow> 'f closing" where
  "close_target fl l who judged work t st =
    (let w = Option.bind work (\<lambda>m. m (tg_ID t));
         o' = outcome_of fl l who (judged (tg_ID t)) w t;
         exclusive = filter (\<lambda>i. length (who i) = 1) (target_calls l who t);
         st1 = (if w = None then st else st\<lparr>cs_avoidable := add_usage (cs_avoidable st) (usage_of (oc_Avoidable o')),
           cs_bySubtasks := add_usage (cs_bySubtasks st) (usage_of (oc_AvoidableBySubtasks o')),
           cs_causeUnknown := add_usage (cs_causeUnknown st) (usage_of (oc_AvoidableCauseUnknown o'))\<rparr>)
     in st1\<lparr>cs_frames := cs_frames st1 @
            [OutcomeFrame o', CostFrame ((sum_ledger fl l ScopeTarget (tg_ID t) exclusive)\<lparr>ct_Target := tg_ID t\<rparr>)] @
            map (shared_frame fl l who (tg_ID t)) (shared_calls_of l who t),
          cs_score := score_add fl o' (exact_amounts_of fl l who w t) (cs_score st1)\<rparr>)"

definition unassigned_calls :: "'f Ledger \<Rightarrow> owners_of_calls \<Rightarrow> nat list" where
  "unassigned_calls l who = concat (map (\<lambda>tk. filter (\<lambda>i. who i = []) (CallsOf l tk)) (Judged l)) @ lg_callsOf l (LooseOwner ''main'')"

definition subtask_frame :: "'f floats \<Rightarrow> 'f Ledger \<Rightarrow> decisions \<Rightarrow> subtask \<Rightarrow> 'f close_frame option" where
  "subtask_frame fl l subtasks st =
    map_option (\<lambda>calls. let c = sum_ledger fl l ScopeSubtask (sb_ID st) calls in
        CostFrame (case decided subtasks (sb_ID st) of Some d \<Rightarrow> c\<lparr>ct_Work := dn_Work d\<rparr> | None \<Rightarrow> c))
      (SubtaskCalls l (sb_ID st) True)"

definition work_frame :: "'f floats \<Rightarrow> 'f Ledger \<Rightarrow> string \<Rightarrow> work_group \<Rightarrow> 'f close_frame" where
  "work_frame fl l t g =
    (let c = (sum_ledger fl l ScopeWork (wg_talk g) (wg_calls g))\<lparr>ct_Target := t, ct_Work := wg_work g, ct_Cause := wg_cause g\<rparr>
     in CostFrame (if wg_talk g \<noteq> [] then c\<lparr>ct_Share := Some (share_of fl (wg_k g))\<rparr> else c))"

definition work_frames :: "'f floats \<Rightarrow> 'f Ledger \<Rightarrow> (string \<rightharpoonup> target_work) \<Rightarrow> target list \<Rightarrow> 'f close_frame list" where
  "work_frames fl l work targets =
    concat (map (\<lambda>t. map (work_frame fl l (tg_ID t)) (case work (tg_ID t) of Some w \<Rightarrow> tw_groups w | None \<Rightarrow> [])) targets)"

definition count_level :: "string \<Rightarrow> achievement list \<Rightarrow> int" where
  "count_level level achievements = int (length (filter (\<lambda>a. ah_Level a = level) achievements))"

definition first_summary :: "'f Ledger \<Rightarrow> target list \<Rightarrow> achievement list \<Rightarrow> 'f amount option \<Rightarrow> 'f run_summary" where
  "first_summary l targets achievements judging =
    \<lparr>su_Targets = int (length targets), su_Achieved = count_level LevelAchieved achievements,
     su_Partly = count_level LevelPartly achievements, su_NotAchieved = count_level LevelNotAchieved achievements,
     su_CannotVerify = count_level LevelCannotVerify achievements, su_Usage = ct_Usage (lg_Total l),
     su_Unknown = int (ct_Unknown (lg_Total l)), su_OutputUnknown = int (ct_OutputUnknown (lg_Total l)), su_Avoidable = None,
     su_AvoidableBySubtasks = None, su_AvoidableCauseUnknown = None, su_Money = ct_Money (lg_Total l),
     su_Currency = lg_Currency l, su_Unpriced = int (ct_Unpriced (lg_Total l)), su_Score = None, su_UnassignedOperations = [],
     su_Judging = judging, su_JudgingReportedUSD = None, su_JudgingMs = 0\<rparr>"

definition closing_of :: "'f floats \<Rightarrow> 'f Ledger \<Rightarrow> owners_of_calls \<Rightarrow> achievement list \<Rightarrow> (string \<rightharpoonup> target_work) option \<Rightarrow>
    target list \<Rightarrow> 'f closing" where
  "closing_of fl l who achievements work targets =
    fold (close_target fl l who (foldl (\<lambda>m a. m(ah_Target a \<mapsto> a)) Map.empty achievements) work) targets
      \<lparr>cs_frames = [], cs_score = no_scores fl, cs_avoidable = zero_usage, cs_bySubtasks = zero_usage, cs_causeUnknown = zero_usage\<rparr>"

definition judged_subtasks :: "'f Ledger \<Rightarrow> subtask list" where
  "judged_subtasks l = filter (\<lambda>st. sb_Main st \<noteq> [] \<and> JudgesSubtask l st) (lg_Subtasks l)"

text \<open>\<open>labels\<close> and \<open>subtasks\<close> are nil when their stage did not run. A result that is missing is a walk over
  sub-tasks that ran out of its bound, which there is none of.\<close>

definition closeFrames :: "'f floats \<Rightarrow> 'f score_ops \<Rightarrow> (claims \<Rightarrow> claims) \<Rightarrow> 'f Ledger \<Rightarrow> target list \<Rightarrow> input list \<Rightarrow>
    achievement list \<Rightarrow> work_label list option \<Rightarrow> decisions \<Rightarrow> 'f amount option \<Rightarrow>
    ('f close_frame list \<times> 'f run_summary) option" where
  "closeFrames fl so iter l targets inputs achievements labels subtasks judging =
    (let who = ownersOfCalls iter l (claims_of targets) inputs;
         work = (if labels \<noteq> None \<or> subtasks \<noteq> None
           then Some (labelCalls l targets who (case labels of Some ls \<Rightarrow> ls | None \<Rightarrow> []) subtasks) else None);
         st = closing_of fl l who achievements work targets;
         sum = (first_summary l targets achievements judging)\<lparr>su_Score := Some (score_of fl so (work \<noteq> None) (cs_score st))\<rparr>
     in Option.bind (those (map (subtask_frame fl l subtasks) (judged_subtasks l))) (\<lambda>subs.
       let out = cs_frames st @ [CostFrame (sum_ledger fl l ScopeUnassigned [] (unassigned_calls l who))] @
           (if ct_Calls (lg_Unattributed l) > 0 then [CostFrame (lg_Unattributed l)] else []) @ subs
       in Some (case work of
            None \<Rightarrow> (out, sum)
          | Some m \<Rightarrow> (out @ work_frames fl l m targets,
              sum\<lparr>su_Avoidable := Some (cs_avoidable st), su_AvoidableBySubtasks := Some (cs_bySubtasks st),
                su_AvoidableCauseUnknown := Some (cs_causeUnknown st)\<rparr>))))"

end
