(* ===== verification/Judge_Shares.thy ===== *)
theory Judge_Shares
  imports Judge_Close
begin

text \<open>
  What closing a run gives each target: a call is shared between targets in whole tokens without a token lost,
  and the targets, what is assigned to none and what is not attributed add up to the total of the ledger.
\<close>

section \<open>Counts that are not negative\<close>

definition count_ok :: "usage option \<Rightarrow> bool" where
  "count_ok u \<longleftrightarrow> (\<forall>v. u = Some v \<longrightarrow> (\<forall>n \<in> set (tokens_of_usage v). 0 \<le> sint n))"

text \<open>A ledger before the rollup: its calls hold counts that are not negative, no main talk has owners yet and nothing is selected.\<close>

definition counted :: "'f Ledger \<Rightarrow> bool" where
  "counted l \<longleftrightarrow> (\<forall>c \<in> set (lg_Calls l). count_ok (cl_Usage c)) \<and> lg_ownersOf l = (\<lambda>_. []) \<and> lg_selected l = None"

lemma not_negative: "\<not> negative n \<Longrightarrow> 0 \<le> sint n"
  by (simp add: negative_def word_sless_alt)

lemma count_ok_normalize: "count_ok (normalize dialect u)"
  by (auto simp: count_ok_def normalize_def tokens_of_usage_def Let_def not_negative split: option.splits if_splits)

lemma counted_addCall: "counted l \<Longrightarrow> counted (addCall n ow fl l)"
  by (auto simp: counted_def addCall_def Let_def count_ok_normalize)

lemma counted_visit: "counted (wk_ledger w) \<Longrightarrow> counted (wk_ledger (visit fl n ow call w))"
  by (auto simp: visit_def Let_def intro!: counted_addCall) (auto simp: counted_def)

lemma counted_walk:
  "counted (wk_ledger w) \<Longrightarrow> counted (wk_ledger (walk_node fl ow n call w))"
  "counted (wk_ledger w) \<Longrightarrow> counted (wk_ledger (walk_children fl ow ns call w))"
  by (induction fl ow n call w and fl ow ns call w rule: walk_node_walk_children.induct) (simp_all add: counted_visit)

lemma counted_walk_talk: "counted (wk_ledger (fst st)) \<Longrightarrow> counted (wk_ledger (fst (walk_talk fl t st)))"
  by (cases st) (auto simp: walk_talk_def Let_def intro!: counted_walk, auto simp: counted_def)

lemma counted_walk_loose: "counted (wk_ledger (fst st)) \<Longrightarrow> counted (wk_ledger (fst (walk_loose fl n st)))"
  by (cases st) (auto simp: walk_loose_def Let_def intro!: counted_walk)

lemma fold_keeps: "P s \<Longrightarrow> (\<And>x s. x \<in> set xs \<Longrightarrow> P s \<Longrightarrow> P (f x s)) \<Longrightarrow> P (fold f xs s)"
  by (induction xs arbitrary: s) simp_all

lemma counted_document:
  assumes "walk_document fl doc dialect pricing = (l, order, nodes)" shows "counted l"
proof -
  define w0 :: "'a walked" where
    "w0 = \<lparr>wk_ledger = empty_ledger dialect pricing, wk_ownerOfNode = Map.empty, wk_counter = \<lambda>_. 0\<rparr>"
  obtain w1 o1 where 1: "fold (walk_talk fl) (cv_Talks doc) (w0, []) = (w1, o1)" by (metis prod.exhaust)
  obtain w2 o2 ls where 2: "fold (walk_loose fl) (cv_Loose doc) (w1, o1, {}) = (w2, o2, ls)" by (metis prod_cases3)
  have "counted (wk_ledger w0)" by (simp add: counted_def w0_def empty_ledger_def)
  then have "counted (wk_ledger w1)"
    using fold_keeps [of "\<lambda>st. counted (wk_ledger (fst st))" "(w0, [])" "cv_Talks doc" "walk_talk fl"] 1
    by (simp add: counted_walk_talk)
  then have "counted (wk_ledger w2)"
    using fold_keeps [of "\<lambda>st. counted (wk_ledger (fst st))" "(w1, o1, {})" "cv_Loose doc" "walk_loose fl"] 2
    by (simp add: counted_walk_loose)
  then show ?thesis using assms 1 2 by (simp add: walk_document_def w0_def [symmetric] Let_def)
qed

lemma count_ok_started: "count_ok (cl_Usage c) \<Longrightarrow> count_ok (cl_Usage (started_usage recs refs c))"
  by (induction recs refs c rule: started_usage.induct)
    (auto simp: count_ok_def tokens_of_usage_def not_negative split: option.splits)

lemma counted_readStarted: "readStarted read l = Inr l' \<Longrightarrow> counted l \<Longrightarrow> counted l'"
  by (auto simp: readStarted_def counted_def Let_def count_ok_started split: option.splits if_splits)

lemma price_call_usage [simp]: "cl_Usage (price_call fl pricing c) = cl_Usage c"
  by (simp add: price_call_def split: option.split)

lemma counted_price_step: "i < length (lg_Calls l) \<Longrightarrow> counted l \<Longrightarrow> counted (price_step fl pricing i l)"
proof -
  assume i: "i < length (lg_Calls l)" and ok: "counted l"
  have calls: "lg_Calls (price_step fl pricing i l) = (lg_Calls l)[i := price_call fl pricing (lg_Calls l ! i)]"
    and owners: "lg_ownersOf (price_step fl pricing i l) = lg_ownersOf l" "lg_selected (price_step fl pricing i l) = lg_selected l"
    by (simp_all add: price_step_def Let_def split: option.split)
  from ok i show ?thesis
    unfolding counted_def calls owners by (auto dest!: subsetD [OF set_update_subset_insert])
qed

lemma counted_price_steps:
  "\<forall>i \<in> set is. i < length (lg_Calls l) \<Longrightarrow> counted l \<Longrightarrow> counted (fold (price_step fl pricing) is l)"
proof (induction "is" arbitrary: l)
  case (Cons i "is")
  have "length (lg_Calls (price_step fl pricing i l)) = length (lg_Calls l)"
    by (simp add: price_step_def Let_def split: option.split)
  with Cons counted_price_step [of i l fl pricing] show ?case by simp
qed simp

lemma counted_cost_owners: "counted l \<Longrightarrow> counted (cost_owners fl doc pricing order l)"
proof -
  assume ok: "counted l"
  let ?l1 = "fold (price_step fl pricing) [0..<length (lg_Calls l)] l"
  have "counted ?l1" by (rule counted_price_steps [OF _ ok]) simp
  then have "counted (fold (add_owner fl) order ?l1)"
    by (rule fold_keeps) (simp add: counted_def add_owner_def Let_def)
  then show ?thesis by (simp add: counted_def cost_owners_def Let_def)
qed

text \<open>After it: only main talks have owners.\<close>

lemma sum_ledger_Scope [simp]: "ct_Scope (sum_ledger fl l scope ident calls) = scope"
proof -
  have step: "ct_Scope (fst (sum_call fl call st)) = ct_Scope (fst st)" for call st
    by (cases st) (auto simp: sum_call_def widen_def Let_def split: option.split)
  have "ct_Scope (fst (fold (\<lambda>i. sum_call fl (lg_Calls l ! i)) calls st)) = ct_Scope (fst st)" for st
    by (induction calls arbitrary: st) (simp_all add: step)
  from this [of "(zero_cost scope ident, fl_zero fl, False)"] show ?thesis
    by (auto simp: sum_ledger_def zero_cost_def split: prod.split)
qed

definition main_owners_only :: "'f Ledger \<Rightarrow> bool" where
  "main_owners_only l \<longleftrightarrow> (\<forall>c \<in> set (lg_Calls l). count_ok (cl_Usage c)) \<and> (\<forall>t. t \<notin> set (lg_Main l) \<longrightarrow> lg_ownersOf l t = []) \<and>
     Judged l = lg_Main l \<and> ct_Scope (lg_Unattributed l) = ScopeUnattributed"

lemma roll_mains_owners:
  "fold (roll_main fl iter sts doc) ms (Some (l0, ro0)) = Some (l, ro) \<Longrightarrow>
     lg_Calls l = lg_Calls l0 \<and> lg_Main l = lg_Main l0 \<and> lg_selected l = lg_selected l0 \<and> (\<forall>t. t \<notin> set ms \<longrightarrow> lg_ownersOf l t = lg_ownersOf l0 t)"
proof (induction ms arbitrary: l0 ro0)
  case (Cons m ms)
  have none: "fold (roll_main fl iter sts doc) ms None = None" by (induction ms) (simp_all add: roll_main_def)
  obtain l1 ro1 where 1: "roll_main fl iter sts doc m (Some (l0, ro0)) = Some (l1, ro1)"
    using Cons.prems none by (cases "roll_main fl iter sts doc m (Some (l0, ro0))") auto
  then have "lg_Calls l1 = lg_Calls l0" "lg_Main l1 = lg_Main l0" "lg_selected l1 = lg_selected l0" "\<forall>t. t \<noteq> m \<longrightarrow> lg_ownersOf l1 t = lg_ownersOf l0 t"
    by (auto simp: roll_main_def)
  with Cons.IH [of l1 ro1] Cons.prems 1 show ?case by auto
qed simp

lemma rollUp_owners:
  assumes "rollUp fl iter doc nodes l0 = Some lf" "counted l0" shows "main_owners_only lf"
proof -
  let ?sts = "starters_of doc l0 nodes"
  obtain l ro where f: "fold (roll_main fl iter ?sts doc) (lg_Main l0) (Some (l0, no_rolling)) = Some (l, ro)"
    using assms(1) by (auto simp: rollUp_def Let_def no_rolling_def)
  let ?l1 = "l\<lparr>lg_Subtasks := ro_subtasks ro, lg_subtask := ro_subtask ro\<rparr>"
  let ?l2 = "?l1\<lparr>lg_Unattributed := unattributed_cost fl ?l1\<rparr>"
  obtain names ks where lf: "lf = fold add_nested ks (fold (add_unplaced ?sts doc) names ?l2)"
    using assms(1) f by (auto simp: rollUp_def Let_def no_rolling_def)
  have "same_roll ?l2 lf"
    unfolding lf by (rule same_roll_trans [OF fold_same_roll fold_same_roll]) (rule add_unplaced_same add_nested_same)+
  moreover have "lg_selected lf = lg_selected l"
  proof -
    have "lg_selected (fold add_nested ks l') = lg_selected l'" for l' :: "'a Ledger"
      by (induction ks arbitrary: l') (simp_all add: add_nested_def Let_def split: option.split)
    moreover have "lg_selected (fold (add_unplaced ?sts doc) names l') = lg_selected l'" for l' :: "'a Ledger"
      by (induction names arbitrary: l') (simp_all add: add_unplaced_def Let_def)
    ultimately show ?thesis by (simp add: lf)
  qed
  moreover have "ct_Scope (unattributed_cost fl ?l1) = ScopeUnattributed" by (simp add: unattributed_cost_def)
  ultimately show ?thesis using roll_mains_owners [OF f] assms(2)
    by (simp add: main_owners_only_def counted_def same_roll_def same_base_def Judged_def)
qed

lemma ComputeChecked_owners:
  assumes "ComputeChecked fl iter doc dialect pricing read = Some (Inr l)" shows "main_owners_only l"
proof -
  obtain l1 order nodes where w: "walk_document fl doc dialect pricing = (l1, order, nodes)" by (metis prod_cases3)
  obtain l2 where l2: "readStarted read l1 = Inr l2" "rollUp fl iter doc nodes (cost_owners fl doc pricing order l2) = Some l"
    using assms w by (auto simp: ComputeChecked_def split: sum.splits)
  show ?thesis
    by (rule rollUp_owners [OF l2(2) counted_cost_owners [OF counted_readStarted [OF l2(1) counted_document [OF w]]]])
qed
section \<open>Sharing a count in whole tokens\<close>

lemma index_of_nth: "distinct xs \<Longrightarrow> i < length xs \<Longrightarrow> index_of (xs ! i) xs = int i"
proof -
  assume d: "distinct xs" and i: "i < length xs"
  then have "index_where (\<lambda>y. y = xs ! i) xs \<noteq> None" by (auto simp: index_where_None)
  then obtain j where j: "index_where (\<lambda>y. y = xs ! i) xs = Some j" by auto
  from index_where_Some [OF this] have "j < length xs" "xs ! j = xs ! i" by simp_all
  then have "j = i" using d i nth_eq_iff_index_eq by blast
  with j show ?thesis by (simp add: index_of_def)
qed

lemma sdiv_nonneg: "0 \<le> a \<Longrightarrow> 0 < b \<Longrightarrow> (a :: int) sdiv b = a div b \<and> a smod b = a mod b"
  by (auto simp: signed_divide_int_def signed_modulo_int_def sgn_if minus_div_mult_eq_mod)

lemma card_below: "0 \<le> r \<Longrightarrow> r \<le> int k \<Longrightarrow> card {j. j < k \<and> int j < r} = nat r"
proof -
  assume "0 \<le> r" "r \<le> int k"
  then have "{j. j < k \<and> int j < r} = {..<nat r}" by auto
  then show ?thesis by simp
qed

lemma split_part_sum: "0 \<le> sint v \<Longrightarrow> 0 < k \<Longrightarrow> (\<Sum>j<k. split_part k (int j) v) = v"
proof -
  assume v: "0 \<le> sint v" and k: "0 < k"
  define q r where "q = sint v div int k" and "r = sint v mod int k"
  have r: "0 \<le> r" "r \<le> int k" using k by (simp_all add: r_def less_imp_le)
  have part: "split_part k (int j) v = of_int q + (if int j < r then 1 else 0)" for j
    using sdiv_nonneg [OF v, of "int k"] k by (simp add: split_part_def Let_def q_def r_def)
  have "(\<Sum>j<k. split_part k (int j) v) = of_nat k * of_int q + (\<Sum>j<k. if int j < r then 1 else 0)"
    unfolding part by (simp add: sum.distrib)
  also have "(\<Sum>j<k. if int j < r then (1 :: u64) else 0) = of_nat (card {j. j < k \<and> int j < r})"
    by (simp add: sum.If_cases Int_def lessThan_def)
  also have "\<dots> = of_int r" using r by (simp add: card_below)
  also have "of_nat k * of_int q + (of_int r :: u64) = of_int (int k * q + r)" by simp
  also have "\<dots> = v" by (simp add: q_def r_def)
  finally show ?thesis .
qed

text \<open>The share of target \<open>t\<close> in a count that the targets \<open>ws\<close> have together.\<close>

definition target_share :: "string list \<Rightarrow> string \<Rightarrow> u64 \<Rightarrow> u64" where
  "target_share ws t v = (if length ws > 1 then split_part (length ws) (index_of t ws) v else split_part 1 0 v)"

lemma target_share_sum:
  assumes "distinct ws" "0 \<le> sint v"
  shows "(\<Sum>t\<leftarrow>ws. target_share ws t v) = (if ws = [] then 0 else v)"
proof (cases "length ws > 1")
  case True
  have "(\<Sum>t\<leftarrow>ws. target_share ws t v) = (\<Sum>i<length ws. split_part (length ws) (int i) v)"
    using True assms(1) by (simp add: sum_list_sum_nth target_share_def index_of_nth atLeast0LessThan)
  with split_part_sum [OF assms(2)] True show ?thesis by (auto simp: not_less)
next
  case False
  then consider "ws = []" | t where "ws = [t]" by (cases ws; cases "tl ws") auto
  then show ?thesis using split_part_sum [OF assms(2), of 1] by cases (simp_all add: target_share_def)
qed

section \<open>Amounts\<close>

text \<open>What call \<open>i\<close> holds of token type \<open>k\<close>, and what target \<open>t\<close> is given of it.\<close>

definition call_tokens :: "'f Ledger \<Rightarrow> nat \<Rightarrow> nat \<Rightarrow> u64" where
  "call_tokens l k i = tokens_of_usage (call_usage (lg_Calls l ! i)) ! k"

definition call_share :: "'f Ledger \<Rightarrow> owners_of_calls \<Rightarrow> string \<Rightarrow> nat \<Rightarrow> nat \<Rightarrow> u64" where
  "call_share l who t k i = (if cl_Usage (lg_Calls l ! i) = None then 0 else target_share (who i) t (call_tokens l k i))"

lemma tokens_add_usage: "k < 4 \<Longrightarrow> tokens_of_usage (add_usage u v) ! k = tokens_of_usage u ! k + tokens_of_usage v ! k"
  by (auto simp: tokens_of_usage_def add_usage_def less_Suc_eq numeral_eq_Suc)

lemma tokens_each:
  "k < 4 \<Longrightarrow> tokens_of_usage \<lparr>us_Input = p (us_Input u), us_Output = p (us_Output u),
     us_CacheRead = p (us_CacheRead u), us_CacheWrite = p (us_CacheWrite u)\<rparr> ! k = p (tokens_of_usage u ! k)"
  by (auto simp: tokens_of_usage_def less_Suc_eq numeral_eq_Suc)

lemma amount_call_tokens:
  assumes "k < 4"
  shows "tokens_of_usage (am_Usage (fst (amount_call fl l who t i st))) ! k =
    tokens_of_usage (am_Usage (fst st)) ! k + call_share l who t k i"
proof -
  obtain a money priced where st: "st = (a, money, priced)" by (metis prod_cases3)
  show ?thesis
  proof (cases "cl_Usage (lg_Calls l ! i)")
    case None
    then show ?thesis by (simp add: st amount_call_def call_share_def Let_def)
  next
    case (Some u)
    with assms show ?thesis
      by (cases "length (who i) > 1")
        (simp_all add: st amount_call_def call_share_def call_tokens_def call_usage_def target_share_def Let_def
          tokens_add_usage tokens_each)
  qed
qed

lemma amountFor_tokens:
  assumes "k < 4"
  shows "tokens_of_usage (am_Usage (amountFor fl l calls who t)) ! k = (\<Sum>i\<leftarrow>calls. call_share l who t k i)"
proof -
  have "tokens_of_usage (am_Usage (fst (fold (amount_call fl l who t) calls st))) ! k =
      tokens_of_usage (am_Usage (fst st)) ! k + (\<Sum>i\<leftarrow>calls. call_share l who t k i)" for st
    by (induction calls arbitrary: st) (simp_all add: amount_call_tokens [OF assms])
  from this [of "(no_amount, fl_zero fl, False)"] have "tokens_of_usage (am_Usage (fst (fold (amount_call fl l who t) calls (no_amount, fl_zero fl, False)))) ! k =
      (\<Sum>i\<leftarrow>calls. call_share l who t k i)"
    using assms by (auto simp: no_amount_def zero_usage_def tokens_of_usage_def less_Suc_eq numeral_eq_Suc)
  then show ?thesis
    by (cases "fold (amount_call fl l who t) calls (no_amount, fl_zero fl, False)") (simp add: amountFor_def)
qed

lemma call_share_sum:
  assumes "distinct (who i)" "count_ok (cl_Usage (lg_Calls l ! i))" "k < 4"
  shows "(\<Sum>t\<leftarrow>who i. call_share l who t k i) = (if who i = [] then 0 else call_tokens l k i)"
proof (cases "cl_Usage (lg_Calls l ! i)")
  case None
  then have "call_tokens l k i = 0" using assms(3)
    by (auto simp: call_tokens_def call_usage_def tokens_of_usage_def zero_usage_def less_Suc_eq numeral_eq_Suc)
  with None show ?thesis by (simp add: call_share_def)
next
  case (Some u)
  then have "0 \<le> sint (call_tokens l k i)" using assms(2,3)
    by (auto simp: call_tokens_def call_usage_def count_ok_def tokens_of_usage_def less_Suc_eq numeral_eq_Suc)
  with target_share_sum [OF assms(1)] Some show ?thesis by (simp add: call_share_def)
qed

section \<open>Whose each call was\<close>

lemma claimed_by_add_claim:
  "claimed_by (add_claim t tk claims) tk' = claimed_by claims tk' @ (if tk' = tk then [t] else [])"
  by (simp add: add_claim_def claimed_by_def update_conv')

lemma claimed_by_add_claims:
  "distinct tks \<Longrightarrow> claimed_by (fold (add_claim t) tks claims) tk = claimed_by claims tk @ (if tk \<in> set tks then [t] else [])"
  by (induction tks arbitrary: claims) (auto simp: claimed_by_add_claim)

lemma claimed_by_claims_of:
  assumes "\<forall>t \<in> set targets. distinct (tg_Talks t)"
  shows "claimed_by (claims_of targets) tk = map tg_ID (filter (\<lambda>t. tk \<in> set (tg_Talks t)) targets)"
proof -
  have "\<forall>t \<in> set ts. distinct (tg_Talks t) \<Longrightarrow>
      claimed_by (fold (\<lambda>t. fold (add_claim (tg_ID t)) (tg_Talks t)) ts claims) tk =
      claimed_by claims tk @ map tg_ID (filter (\<lambda>t. tk \<in> set (tg_Talks t)) ts)" for ts claims
    by (induction ts arbitrary: claims) (simp_all add: claimed_by_add_claims)
  from this [of targets "[]"] assms show ?thesis by (simp add: claims_of_def claimed_by_def)
qed

lemma distinct_keys_claims_of: "distinct (map fst (claims_of targets))"
proof -
  have "distinct (map fst claims) \<Longrightarrow> distinct (map fst (fold (add_claim t) tks claims))" for t tks claims
    by (induction tks arbitrary: claims) (simp_all add: add_claim_def distinct_update)
  then have "distinct (map fst claims) \<Longrightarrow> distinct (map fst (fold (\<lambda>t. fold (add_claim (tg_ID t)) (tg_Talks t)) ts claims))" for ts claims
    by (induction ts arbitrary: claims) simp_all
  from this [of "[]"] show ?thesis by (simp add: claims_of_def)
qed

text \<open>Every cut directs its work to some of those that claim its talk, each once.\<close>

definition cuts_ok :: "claims \<Rightarrow> cuts \<Rightarrow> bool" where
  "cuts_ok claims cuts \<longleftrightarrow>
     (\<forall>tk. \<forall>c \<in> set (cuts tk). snd c \<noteq> [] \<and> distinct (snd c) \<and> set (snd c) \<subseteq> set (claimed_by claims tk))"

lemma add_directed_ok: "distinct ts \<Longrightarrow> distinct (add_directed t a ts) \<and> set (add_directed t a ts) \<subseteq> insert t (set ts)"
  by (auto simp: add_directed_def)

lemma fold_add_directed_ok:
  "distinct ts \<Longrightarrow> distinct (fold (add_directed t) as ts) \<and> set (fold (add_directed t) as ts) \<subseteq> insert t (set ts)"
proof (induction as arbitrary: ts)
  case (Cons a as)
  with add_directed_ok [of ts t a] Cons.IH [of "add_directed t a ts"] show ?case by auto
qed auto

lemma directed_ok: "distinct (directed claimed actions) \<and> set (directed claimed actions) \<subseteq> set claimed"
proof -
  have "distinct ts \<Longrightarrow> distinct (fold (\<lambda>t. fold (add_directed t) actions) cs ts) \<and>
      set (fold (\<lambda>t. fold (add_directed t) actions) cs ts) \<subseteq> set cs \<union> set ts" for cs ts
  proof (induction cs arbitrary: ts)
    case (Cons c cs)
    with fold_add_directed_ok [of ts c actions] Cons.IH [of "fold (add_directed c) actions ts"] show ?case by auto
  qed simp
  from this [of "[]" claimed] show ?thesis by (simp add: directed_def)
qed

lemma add_cut_ok: "cuts_ok claims cuts \<Longrightarrow> cuts_ok claims (add_cut l claims i cuts)"
  using directed_ok by (auto simp: cuts_ok_def add_cut_def Let_def split: option.split)

lemma add_cuts_ok: "cuts_ok claims (fold (add_cut l claims) inputs (\<lambda>_. []))"
  by (intro fold_keeps [where P = "cuts_ok claims"] add_cut_ok) (simp add: cuts_ok_def)

lemma owners_at_cases: "owners_at cs claimed place = claimed \<or> (\<exists>c \<in> set cs. owners_at cs claimed place = snd c)"
proof -
  have "fold (\<lambda>c ts. if fst c \<le> place then snd c else ts) cs ts = ts \<or>
      (\<exists>c \<in> set cs. fold (\<lambda>c ts. if fst c \<le> place then snd c else ts) cs ts = snd c)" for ts
    by (induction cs arbitrary: ts) auto
  then show ?thesis by (simp add: owners_at_def)
qed

text \<open>The targets of a call are those that claim its talk, or some of them.\<close>

definition serves :: "string list \<Rightarrow> string list \<Rightarrow> bool" where
  "serves claimed ws \<longleftrightarrow> distinct ws \<and> set ws \<subseteq> set claimed \<and> (ws = [] \<longleftrightarrow> claimed = [])"

lemma owners_at_serves:
  assumes "cuts_ok claims cuts" "distinct (claimed_by claims tk)" "set cs = set (cuts tk)"
  shows "serves (claimed_by claims tk) (owners_at cs (claimed_by claims tk) place)"
  using owners_at_cases [of cs "claimed_by claims tk" place] assms unfolding serves_def cuts_ok_def by fastforce

lemma own_talk_at:
  "own_talk l cuts (tk, claimed) who i =
    (if i \<in> set (CallsOf l tk) then owners_at (sort_by (\<lambda>a b. fst a < fst b) (cuts tk)) claimed (Place l tk i) else who i)"
proof -
  have "fold (\<lambda>i w. w(i := f i)) is w i = (if i \<in> set is then f i else w i)" for f :: "nat \<Rightarrow> string list" and "is" w
    by (induction "is" arbitrary: w) auto
  then show ?thesis by (simp add: own_talk_def Let_def)
qed

lemma own_talks_at:
  assumes "distinct (map fst cl)" "\<And>tk tk'. tk \<noteq> tk' \<Longrightarrow> set (CallsOf l tk) \<inter> set (CallsOf l tk') = {}"
  shows "fold (own_talk l cuts) cl who i =
    (case find (\<lambda>c. i \<in> set (CallsOf l (fst c))) cl of None \<Rightarrow> who i | Some c \<Rightarrow> own_talk l cuts c who i)"
  using assms(1)
proof (induction cl arbitrary: who)
  case (Cons c cl)
  obtain tk claimed where c: "c = (tk, claimed)" by (cases c)
  show ?case
  proof (cases "i \<in> set (CallsOf l tk)")
    case True
    have "i \<notin> set (CallsOf l (fst c'))" if c': "c' \<in> set cl" for c'
    proof -
      have "fst c' \<noteq> tk" using Cons.prems c c' by auto
      with assms(2) True show ?thesis by blast
    qed
    then have none: "find (\<lambda>c. i \<in> set (CallsOf l (fst c))) cl = None" by (fastforce simp: find_None_iff)
    have "fold (own_talk l cuts) (c # cl) who i = own_talk l cuts c who i"
      using Cons.IH [of "own_talk l cuts c who"] Cons.prems none by simp
    then show ?thesis using True c by simp
  next
    case False
    have keep: "own_talk l cuts c' (own_talk l cuts c who) i = own_talk l cuts c' who i" if "i \<in> set (CallsOf l (fst c'))" for c'
      using that by (cases c') (simp add: own_talk_at)
    have "fold (own_talk l cuts) (c # cl) who i =
        (case find (\<lambda>c. i \<in> set (CallsOf l (fst c))) cl of None \<Rightarrow> own_talk l cuts c who i | Some c' \<Rightarrow> own_talk l cuts c' (own_talk l cuts c who) i)"
      using Cons.IH [of "own_talk l cuts c who"] Cons.prems by simp
    moreover have "find (\<lambda>c. i \<in> set (CallsOf l (fst c))) (c # cl) = find (\<lambda>c. i \<in> set (CallsOf l (fst c))) cl"
      using False c by simp
    moreover have "own_talk l cuts c who i = who i" using False c by (simp add: own_talk_at)
    moreover have "i \<in> set (CallsOf l (fst c'))" if "find (\<lambda>c. i \<in> set (CallsOf l (fst c))) cl = Some c'" for c'
      using that by (auto simp: find_Some_iff)
    ultimately show ?thesis by (auto simp: keep split: option.split)
  qed
qed simp

lemma who_serves:
  assumes targets: "distinct (map tg_ID targets)" "\<forall>t \<in> set targets. distinct (tg_Talks t)"
    and order: "mset (order (claims_of targets)) = mset (claims_of targets)"
    and disjoint: "\<And>tk tk'. tk \<noteq> tk' \<Longrightarrow> set (CallsOf l tk) \<inter> set (CallsOf l tk') = {}"
    and i: "i \<in> set (CallsOf l tk)"
  shows "serves (claimed_by (claims_of targets) tk) (ownersOfCalls order l (claims_of targets) inputs i)"
proof -
  let ?claims = "claims_of targets" and ?cl = "order (claims_of targets)"
  let ?cuts = "fold (add_cut l ?claims) inputs (\<lambda>_. [])"
  have keys: "distinct (map fst ?cl)" "set ?cl = set ?claims"
    using distinct_keys_claims_of [of targets] order by (metis mset_map mset_eq_imp_distinct_iff, metis mset_eq_setD)
  have d: "distinct (claimed_by ?claims tk)"
    using targets by (auto simp: claimed_by_claims_of distinct_map inj_on_def)
  have who: "ownersOfCalls order l ?claims inputs i = fold (own_talk l ?cuts) ?cl (\<lambda>_. []) i"
    by (simp add: ownersOfCalls_def)
  show ?thesis
  proof (cases "find (\<lambda>c. i \<in> set (CallsOf l (fst c))) ?cl")
    case None
    then have "tk \<notin> fst ` set ?claims" using i keys(2) by (auto simp: find_None_iff)
    then have "claimed_by ?claims tk = []" by (auto simp: claimed_by_def split: option.split dest: map_of_SomeD intro: rev_image_eqI)
    with None show ?thesis by (simp add: who own_talks_at [OF keys(1) disjoint] serves_def)
  next
    case (Some c)
    then have c: "c \<in> set ?claims" "i \<in> set (CallsOf l (fst c))" using keys(2) by (auto simp: find_Some_iff)
    with disjoint i have "fst c = tk" by blast
    moreover have "snd c = claimed_by ?claims (fst c)"
      using c(1) map_of_is_SomeI [OF distinct_keys_claims_of, of "fst c" "snd c" targets] by (simp add: claimed_by_def)
    ultimately have c': "c = (tk, claimed_by ?claims tk)" by (cases c) simp
    have "ownersOfCalls order l ?claims inputs i = own_talk l ?cuts c (\<lambda>_. []) i"
      using own_talks_at [OF keys(1) disjoint, of ?cuts "\<lambda>_. []" i] Some by (simp add: who)
    moreover have "serves (claimed_by ?claims tk)
        (owners_at (sort_by (\<lambda>a b. fst a < fst b) (?cuts tk)) (claimed_by ?claims tk) (Place l tk i))"
      by (rule owners_at_serves [OF add_cuts_ok d]) simp
    ultimately show ?thesis using i by (simp add: c' own_talk_at)
  qed
qed

section \<open>Sums\<close>

lemma sum_list_swap: "(\<Sum>t\<leftarrow>ts. \<Sum>x\<leftarrow>xs. f t x) = (\<Sum>x\<leftarrow>xs. \<Sum>t\<leftarrow>ts. (f t x :: 'a :: comm_monoid_add))"
  by (induction ts) (simp_all add: sum_list_addf)

lemma sum_list_support:
  assumes "distinct xs" "distinct ys" "\<And>x. x \<notin> set xs \<or> x \<notin> set ys \<Longrightarrow> f x = (0 :: 'a :: comm_monoid_add)"
  shows "(\<Sum>x\<leftarrow>xs. f x) = (\<Sum>y\<leftarrow>ys. f y)"
proof -
  have "sum f (set xs) = sum f (set xs \<inter> set ys)" "sum f (set ys) = sum f (set xs \<inter> set ys)"
    using assms(3) by (auto intro!: sum.mono_neutral_right)
  then show ?thesis using assms(1,2) by (simp add: sum_list_distinct_conv_sum_set)
qed

section \<open>The parts of a ledger\<close>

lemma callsOf_of:
  "owners_ok l \<Longrightarrow> i \<in> set (lg_callsOf l ow) \<longleftrightarrow> i < length (lg_Calls l) \<and> cl_Owner (lg_Calls l ! i) = ow"
  by (auto simp: owners_ok_def calls_kept_def calls_by_owner_def)

lemma filter_only: "distinct xs \<Longrightarrow> x \<in> set xs \<Longrightarrow> filter (\<lambda>y. y = x) xs = [x]"
  by (induction xs) (auto simp: filter_empty_conv)

lemma rolled_calls:
  assumes "owners_ok l0" "rolled_up doc l0 l K"
  shows "mset (concat (map (CallsOf l) (lg_Main l)) @ concat (map (lg_callsOf l) (filter (\<lambda>ow. ow \<notin> reached l) (owner_ids l))) @
      lg_callsOf l (LooseOwner ''main'')) = mset [0..<length (lg_Calls l)]"
proof -
  let ?rest = "filter (\<lambda>ow. ow \<notin> reached l) (owner_ids l0)" and ?loose = "filter (\<lambda>ow. ow = LooseOwner ''main'') (owner_ids l0)"
  have base: "lg_Main l = lg_Main l0" "lg_Calls l = lg_Calls l0" "lg_callsOf l = lg_callsOf l0" "lg_Owners l = lg_Owners l0"
    using assms(2) by (simp_all add: rolled_up_def same_base_def)
  have "concat (map (lg_callsOf l0) ?loose) = lg_callsOf l0 (LooseOwner ''main'')"
  proof (cases "LooseOwner ''main'' \<in> set (owner_ids l0)")
    case True
    have "?loose = [LooseOwner ''main'']"
      using True assms(1) by (simp add: filter_only owners_ok_def)
    then show ?thesis by simp
  next
    case False
    then have "i \<notin> set (lg_callsOf l0 (LooseOwner ''main''))" for i
      using callsOf_of [OF assms(1), of i "LooseOwner ''main''"] assms(1) nth_mem [of i "lg_Calls l0"]
      unfolding owners_ok_def by metis
    then have "lg_callsOf l0 (LooseOwner ''main'') = []" by (meson list.set_sel(1))
    with False show ?thesis by (auto simp: filter_empty_conv)
  qed
  moreover have "CallsOf l = (\<lambda>t. concat (map (lg_callsOf l0) (lg_ownersOf l t)))" by (simp add: fun_eq_iff CallsOf_def base)
  ultimately have "concat (map (CallsOf l) (lg_Main l)) @ concat (map (lg_callsOf l) ?rest) @ lg_callsOf l (LooseOwner ''main'') =
      concat (map (lg_callsOf l0) (concat (map (lg_ownersOf l) (lg_Main l0)) @ ?rest @ ?loose))"
    by (simp add: base concat_map_concat)
  moreover have "mset (concat (map (lg_callsOf l0) (owner_ids l0))) = mset [0..<length (lg_Calls l0)]"
    using calls_partition [of "owner_ids l0" "lg_Calls l0"] assms(1) by (simp add: owners_ok_def calls_kept_def)
  ultimately show ?thesis
    using mset_concat_map [OF rolled_permutation [OF assms], of "lg_callsOf l0"] unfolding base by (simp only:)
qed

lemma calls_disjoint:
  assumes "owners_ok l0" "rolled_up doc l0 l K" "main_owners_only l" "tk \<noteq> tk'"
  shows "set (CallsOf l tk) \<inter> set (CallsOf l tk') = {}"
proof (cases "tk \<in> set (lg_Main l) \<and> tk' \<in> set (lg_Main l)")
  case True
  have base: "lg_Main l = lg_Main l0" and ok: "owners_ok l"
    using assms(1,2) owners_ok_base by (auto simp: rolled_up_def same_base_def)
  have "set (lg_ownersOf l tk) \<inter> set (lg_ownersOf l tk') = {}"
    using rolled_disjoint [OF assms(1,2) _ _ assms(4)] True base by simp
  then show ?thesis by (auto simp: CallsOf_def callsOf_of [OF ok])
next
  case False
  then show ?thesis using assms(3) by (auto simp: CallsOf_def main_owners_only_def)
qed

lemma CallsOf_other: "main_owners_only l \<Longrightarrow> tk \<notin> set (lg_Main l) \<Longrightarrow> CallsOf l tk = []"
  by (simp add: main_owners_only_def CallsOf_def)

lemma CallsOf_bound: "owners_ok l \<Longrightarrow> i \<in> set (CallsOf l tk) \<Longrightarrow> i < length (lg_Calls l)"
  by (auto simp: CallsOf_def callsOf_of)

section \<open>The targets take what they serve\<close>

lemma unserved:
  assumes "serves (map tg_ID (filter (\<lambda>t. tk \<in> set (tg_Talks t)) targets)) ws" "distinct (map tg_ID targets)" "t \<in> set targets"
    "tk \<notin> set (tg_Talks t)"
  shows "tg_ID t \<notin> set ws"
  using assms by (fastforce simp: serves_def distinct_map inj_on_def)

lemma concat_sum: "(\<Sum>i\<leftarrow>concat xss. f i) = (\<Sum>xs\<leftarrow>xss. \<Sum>i\<leftarrow>xs. (f i :: 'a :: comm_monoid_add))"
  by (induction xss) simp_all

lemma target_calls_sum:
  "(\<Sum>i\<leftarrow>target_calls l who t. f i) = (\<Sum>tk\<leftarrow>tg_Talks t. \<Sum>i\<leftarrow>CallsOf l tk. if tg_ID t \<in> set (who i) then f i else (0 :: u64))"
  unfolding target_calls_def concat_sum by (simp add: o_def sum_list_map_filter')

text \<open>Over all targets, the shares of the calls of the main talks are the calls some target serves.\<close>

lemma served_sum:
  assumes targets: "distinct (map tg_ID targets)" "\<forall>t \<in> set targets. distinct (tg_Talks t)"
    and mains: "distinct (lg_Main l)" "\<And>tk. tk \<notin> set (lg_Main l) \<Longrightarrow> CallsOf l tk = []"
    and who: "\<And>i tk. i \<in> set (CallsOf l tk) \<Longrightarrow> serves (map tg_ID (filter (\<lambda>t. tk \<in> set (tg_Talks t)) targets)) (who i)"
    and counts: "\<And>i tk. i \<in> set (CallsOf l tk) \<Longrightarrow> count_ok (cl_Usage (lg_Calls l ! i))"
    and k: "k < 4"
  shows "(\<Sum>t\<leftarrow>targets. \<Sum>i\<leftarrow>target_calls l who t. call_share l who (tg_ID t) k i) =
    (\<Sum>tk\<leftarrow>lg_Main l. \<Sum>i\<leftarrow>CallsOf l tk. if who i = [] then 0 else call_tokens l k i)"
proof -
  define share where "share x i = (if x \<in> set (who i) then call_share l who x k i else 0)" for x i
  have one: "(\<Sum>t\<leftarrow>targets. share (tg_ID t) i) = (if who i = [] then 0 else call_tokens l k i)"
    if i: "i \<in> set (CallsOf l tk)" for i tk
  proof -
    from who [OF i] have w: "distinct (who i)" "set (who i) \<subseteq> tg_ID ` set targets" by (auto simp: serves_def)
    have "(\<Sum>t\<leftarrow>targets. share (tg_ID t) i) = (\<Sum>x\<leftarrow>map tg_ID targets. share x i)" by (simp add: o_def)
    also have "\<dots> = (\<Sum>x\<leftarrow>who i. share x i)"
      using targets(1) w by (intro sum_list_support) (auto simp: share_def)
    also have "\<dots> = (\<Sum>x\<leftarrow>who i. call_share l who x k i)" by (intro arg_cong [where f = sum_list] map_cong) (simp_all add: share_def)
    also have "\<dots> = (if who i = [] then 0 else call_tokens l k i)" by (rule call_share_sum [where who = who and i = i, OF w(1) counts [OF i] k])
    finally show ?thesis .
  qed
  have talks: "(\<Sum>tk\<leftarrow>tg_Talks t. \<Sum>i\<leftarrow>CallsOf l tk. share (tg_ID t) i) = (\<Sum>tk\<leftarrow>lg_Main l. \<Sum>i\<leftarrow>CallsOf l tk. share (tg_ID t) i)"
    if t: "t \<in> set targets" for t
  proof (rule sum_list_support)
    fix tk assume tk: "tk \<notin> set (tg_Talks t) \<or> tk \<notin> set (lg_Main l)"
    have "share (tg_ID t) i = 0" if i: "i \<in> set (CallsOf l tk)" for i
    proof -
      have "tk \<notin> set (tg_Talks t)" using tk mains(2) i by fastforce
      from unserved [OF who [OF i] targets(1) t this] show ?thesis by (simp add: share_def)
    qed
    then have "map (share (tg_ID t)) (CallsOf l tk) = map (\<lambda>_. 0) (CallsOf l tk)" by simp
    then show "(\<Sum>i\<leftarrow>CallsOf l tk. share (tg_ID t) i) = 0" by (simp only: sum_list_0)
  qed (use targets(2) mains(1) t in auto)
  have "(\<Sum>i\<leftarrow>target_calls l who t. call_share l who (tg_ID t) k i) = (\<Sum>tk\<leftarrow>lg_Main l. \<Sum>i\<leftarrow>CallsOf l tk. share (tg_ID t) i)"
    if "t \<in> set targets" for t
    using talks [OF that] unfolding target_calls_sum share_def .
  then have "(\<Sum>t\<leftarrow>targets. \<Sum>i\<leftarrow>target_calls l who t. call_share l who (tg_ID t) k i) =
      (\<Sum>t\<leftarrow>targets. \<Sum>tk\<leftarrow>lg_Main l. \<Sum>i\<leftarrow>CallsOf l tk. share (tg_ID t) i)"
    by (metis (mono_tags, lifting) map_cong)
  also have "\<dots> = (\<Sum>tk\<leftarrow>lg_Main l. \<Sum>i\<leftarrow>CallsOf l tk. \<Sum>t\<leftarrow>targets. share (tg_ID t) i)"
  proof -
    have inner: "(\<lambda>tk. \<Sum>t\<leftarrow>targets. \<Sum>i\<leftarrow>CallsOf l tk. share (tg_ID t) i) = (\<lambda>tk. \<Sum>i\<leftarrow>CallsOf l tk. \<Sum>t\<leftarrow>targets. share (tg_ID t) i)"
      by (rule ext) (rule sum_list_swap)
    show ?thesis by (rule trans [OF sum_list_swap]) (simp only: inner)
  qed
  also have "\<dots> = (\<Sum>tk\<leftarrow>lg_Main l. \<Sum>i\<leftarrow>CallsOf l tk. if who i = [] then 0 else call_tokens l k i)"
  proof -
    have "map (\<lambda>i. \<Sum>t\<leftarrow>targets. share (tg_ID t) i) (CallsOf l tk) = map (\<lambda>i. if who i = [] then 0 else call_tokens l k i) (CallsOf l tk)" for tk
      by (rule map_cong [OF refl]) (rule one)
    then show ?thesis by (simp only:)
  qed
  finally show ?thesis .
qed

section \<open>The frames of a close\<close>

text \<open>The outcomes among the frames, and the costs of some scopes.\<close>

definition outcomes_in :: "'f close_frame list \<Rightarrow> 'f outcome list" where
  "outcomes_in fs = concat (map (\<lambda>f. case f of OutcomeFrame x \<Rightarrow> [x] | CostFrame _ \<Rightarrow> []) fs)"

definition costs_in :: "string set \<Rightarrow> 'f close_frame list \<Rightarrow> 'f Cost list" where
  "costs_in scopes fs = concat (map (\<lambda>f. case f of OutcomeFrame _ \<Rightarrow> [] | CostFrame c \<Rightarrow> if ct_Scope c \<in> scopes then [c] else []) fs)"

lemma frames_in_simps [simp]:
  "outcomes_in [] = []" "outcomes_in (OutcomeFrame x # fs) = x # outcomes_in fs" "outcomes_in (CostFrame c # fs) = outcomes_in fs"
  "outcomes_in (fs @ gs) = outcomes_in fs @ outcomes_in gs"
  "costs_in scopes [] = []" "costs_in scopes (OutcomeFrame x # fs) = costs_in scopes fs"
  "costs_in scopes (CostFrame c # fs) = (if ct_Scope c \<in> scopes then [c] else []) @ costs_in scopes fs"
  "costs_in scopes (fs @ gs) = costs_in scopes fs @ costs_in scopes gs"
  by (simp_all add: outcomes_in_def costs_in_def)

abbreviation left_scopes :: "string set" where
  "left_scopes \<equiv> {ScopeUnassigned, ScopeUnattributed}"

lemmas scope_defs = ScopeTarget_def ScopeShared_def ScopeUnassigned_def ScopeUnattributed_def ScopeSubtask_def ScopeWork_def

text \<open>A list of frames that only views costs counted elsewhere.\<close>

definition views :: "'f close_frame list \<Rightarrow> bool" where
  "views fs \<longleftrightarrow> outcomes_in fs = [] \<and> costs_in left_scopes fs = []"

lemma views_append: "views (fs @ gs) \<longleftrightarrow> views fs \<and> views gs"
  by (auto simp: views_def)

lemma views_concat: "(\<And>fs. fs \<in> set fss \<Longrightarrow> views fs) \<Longrightarrow> views (concat fss)"
  by (induction fss) (simp_all add: views_append, simp add: views_def)

lemma views_map: "(\<And>x. x \<in> set xs \<Longrightarrow> views [f x]) \<Longrightarrow> views (map f xs)"
  using views_concat [of "map (\<lambda>x. [f x]) xs"] by fastforce

lemma views_shared: "views (map (shared_frame fl l who t) shared)"
  by (rule views_map) (simp add: views_def shared_frame_def scope_defs split: prod.split)

lemma views_work: "views (work_frames fl l work targets)"
proof -
  have one: "views [work_frame fl l t g]" for t g by (simp add: views_def work_frame_def Let_def scope_defs)
  show ?thesis unfolding work_frames_def by (intro views_concat) (auto intro!: views_map one)
qed

lemma views_subtask: "subtask_frame fl l subtasks st = Some f \<Longrightarrow> views [f]"
  by (auto simp: subtask_frame_def views_def Let_def scope_defs split: option.splits)

lemma views_subtasks: "those (map (subtask_frame fl l subtasks) sts) = Some subs \<Longrightarrow> views subs"
proof (induction sts arbitrary: subs)
  case (Cons st sts)
  then obtain f fs where "subtask_frame fl l subtasks st = Some f" "those (map (subtask_frame fl l subtasks) sts) = Some fs" "subs = f # fs"
    by (auto split: option.splits)
  with Cons.IH views_subtask [of fl l subtasks st f] views_append [of "[f]" fs] show ?case by simp
qed (simp add: views_def)

lemma outcome_of_kept [simp]:
  "oc_Target (outcome_of fl l who a w t) = tg_ID t"
  "oc_Cost (outcome_of fl l who a w t) = amountFor fl l (target_calls l who t) who (tg_ID t)"
  by (simp_all add: outcome_of_def work_outcome_def judge_outcome_def split: option.split)

lemma close_target_frames:
  "\<exists>a w. outcomes_in (cs_frames (close_target fl l who judged work t st)) = outcomes_in (cs_frames st) @ [outcome_of fl l who a w t]"
  "costs_in left_scopes (cs_frames (close_target fl l who judged work t st)) = costs_in left_scopes (cs_frames st)"
proof -
  have v: "outcomes_in (map (shared_frame fl l who (tg_ID t)) (shared_calls_of l who t)) = []"
    "costs_in left_scopes (map (shared_frame fl l who (tg_ID t)) (shared_calls_of l who t)) = []"
    using views_shared [of fl l who "tg_ID t" "shared_calls_of l who t"] by (simp_all add: views_def)
  show "\<exists>a w. outcomes_in (cs_frames (close_target fl l who judged work t st)) = outcomes_in (cs_frames st) @ [outcome_of fl l who a w t]"
    by (auto simp: close_target_def Let_def v)
  have s: "ScopeTarget \<notin> left_scopes" by (simp add: scope_defs)
  show "costs_in left_scopes (cs_frames (close_target fl l who judged work t st)) = costs_in left_scopes (cs_frames st)"
    using s by (simp add: close_target_def Let_def v)
qed

definition prices_target :: "'f floats \<Rightarrow> 'f Ledger \<Rightarrow> owners_of_calls \<Rightarrow> target \<Rightarrow> 'f outcome \<Rightarrow> bool" where
  "prices_target fl l who t x \<longleftrightarrow> oc_Target x = tg_ID t \<and> oc_Cost x = amountFor fl l (target_calls l who t) who (tg_ID t)"

lemma close_targets_frames:
  "\<exists>os. outcomes_in (cs_frames (fold (close_target fl l who judged work) ts st)) = outcomes_in (cs_frames st) @ os \<and>
     costs_in left_scopes (cs_frames (fold (close_target fl l who judged work) ts st)) = costs_in left_scopes (cs_frames st) \<and>
     list_all2 (prices_target fl l who) ts os"
proof (induction ts arbitrary: st)
  case (Cons t ts)
  obtain a w where f: "outcomes_in (cs_frames (close_target fl l who judged work t st)) = outcomes_in (cs_frames st) @ [outcome_of fl l who a w t]"
    using close_target_frames(1) by blast
  from Cons.IH [of "close_target fl l who judged work t st"] f obtain os where
    "outcomes_in (cs_frames (fold (close_target fl l who judged work) (t # ts) st)) = outcomes_in (cs_frames st) @ outcome_of fl l who a w t # os"
    "costs_in left_scopes (cs_frames (fold (close_target fl l who judged work) (t # ts) st)) = costs_in left_scopes (cs_frames st)"
    "list_all2 (prices_target fl l who) ts os"
    by (auto simp: close_target_frames(2))
  moreover have "prices_target fl l who t (outcome_of fl l who a w t)" by (simp add: prices_target_def)
  ultimately show ?case by (intro exI [of _ "outcome_of fl l who a w t # os"]) simp
qed simp

section \<open>A close adds up\<close>

lemma closeFrames_frames:
  assumes "closeFrames fl so order l targets inputs achievements labels subtasks judging = Some (out, su)"
    "ct_Scope (lg_Unattributed l) = ScopeUnattributed"
  defines "who \<equiv> ownersOfCalls order l (claims_of targets) inputs"
  shows "list_all2 (prices_target fl l who) targets (outcomes_in out)"
    "costs_in left_scopes out =
       sum_ledger fl l ScopeUnassigned [] (unassigned_calls l who) # (if ct_Calls (lg_Unattributed l) > 0 then [lg_Unattributed l] else [])"
    "su_Usage su = ct_Usage (lg_Total l)"
proof -
  define work where "work = (if labels \<noteq> None \<or> subtasks \<noteq> None
    then Some (labelCalls l targets who (case labels of Some ls \<Rightarrow> ls | None \<Rightarrow> []) subtasks) else None)"
  let ?st = "closing_of fl l who achievements work targets"
  obtain subs where subs: "those (map (subtask_frame fl l subtasks) (judged_subtasks l)) = Some subs"
    using assms(1) by (auto simp: closeFrames_def Let_def bind_eq_Some_conv)
  define rest where "rest = (case work of None \<Rightarrow> [] | Some m \<Rightarrow> work_frames fl l m targets)"
  have "out = cs_frames ?st @ [CostFrame (sum_ledger fl l ScopeUnassigned [] (unassigned_calls l who))] @
      (if ct_Calls (lg_Unattributed l) > 0 then [CostFrame (lg_Unattributed l)] else []) @ subs @ rest \<and>
      su_Usage su = ct_Usage (lg_Total l)"
    using assms(1) unfolding closeFrames_def Let_def who_def [symmetric] work_def [symmetric]
    by (cases work) (auto simp: subs rest_def first_summary_def)
  then have out: "out = cs_frames ?st @ [CostFrame (sum_ledger fl l ScopeUnassigned [] (unassigned_calls l who))] @
      (if ct_Calls (lg_Unattributed l) > 0 then [CostFrame (lg_Unattributed l)] else []) @ subs @ rest"
    and su: "su_Usage su = ct_Usage (lg_Total l)" by blast+
  have "views rest" by (simp add: rest_def views_work views_def [of "[]"] split: option.split)
  have v: "outcomes_in subs = []" "costs_in left_scopes subs = []" "outcomes_in rest = []" "costs_in left_scopes rest = []"
    using views_subtasks [OF subs] \<open>views rest\<close> by (simp_all add: views_def)
  obtain os where os: "outcomes_in (cs_frames ?st) = os" "costs_in left_scopes (cs_frames ?st) = []" "list_all2 (prices_target fl l who) targets os"
    using close_targets_frames [of fl l who "foldl (\<lambda>m a. m(ah_Target a \<mapsto> a)) Map.empty achievements" work targets
      "\<lparr>cs_frames = [], cs_score = no_scores fl, cs_avoidable = zero_usage, cs_bySubtasks = zero_usage, cs_causeUnknown = zero_usage\<rparr>"]
    by (auto simp del: fun_upd_apply simp: closing_of_def)
  show "list_all2 (prices_target fl l who) targets (outcomes_in out)" "su_Usage su = ct_Usage (lg_Total l)"
    using os v su by (simp_all add: out)
  show "costs_in left_scopes out =
      sum_ledger fl l ScopeUnassigned [] (unassigned_calls l who) # (if ct_Calls (lg_Unattributed l) > 0 then [lg_Unattributed l] else [])"
    using os(2) v assms(2) by (simp add: out)
qed

lemma sum_list_mset_cong: "mset xs = mset ys \<Longrightarrow> (\<Sum>x\<leftarrow>xs. f x) = (\<Sum>y\<leftarrow>ys. (f y :: 'a :: comm_monoid_add))"
  by (metis mset_map sum_mset_sum_list)

lemma ledger_total:
  assumes "owners_ok l0" "rolled_up doc l0 l K" "k < 4"
  shows "tokens_of_usage (ct_Usage (lg_Total l)) ! k =
    (\<Sum>tk\<leftarrow>lg_Main l. \<Sum>i\<leftarrow>CallsOf l tk. call_tokens l k i) + tokens_of_usage (ct_Usage (lg_Unattributed l)) ! k +
    (\<Sum>i\<leftarrow>lg_callsOf l (LooseOwner ''main''). call_tokens l k i)"
proof -
  let ?f = "call_tokens l k"
  have base: "lg_Calls l = lg_Calls l0" "lg_callsOf l = lg_callsOf l0" "lg_Owners l = lg_Owners l0"
    and part: "part_sums l0 = part_sums l" and ok: "owners_ok l"
    using assms(1,2) owners_ok_base [of l0 l] part_sums_base [of l0 l] by (simp_all add: rolled_up_def same_base_def)
  let ?rest = "concat (map (lg_callsOf l) (filter (\<lambda>ow. ow \<notin> reached l) (owner_ids l)))"
  have "part_sums l [0..<length (lg_Calls l)] (lg_Total l)" using ok by (simp add: owners_ok_def)
  then have "tokens_of_usage (ct_Usage (lg_Total l)) ! k = (\<Sum>i\<leftarrow>[0..<length (lg_Calls l)]. ?f i)"
    using assms(3) by (simp add: part_sums_def call_tokens_def)
  also have "\<dots> = (\<Sum>i\<leftarrow>concat (map (CallsOf l) (lg_Main l)) @ ?rest @ lg_callsOf l (LooseOwner ''main''). ?f i)"
    by (rule sum_list_mset_cong) (rule rolled_calls [OF assms(1,2), symmetric])
  also have "\<dots> = (\<Sum>i\<leftarrow>concat (map (CallsOf l) (lg_Main l)). ?f i) + (\<Sum>i\<leftarrow>?rest. ?f i) + (\<Sum>i\<leftarrow>lg_callsOf l (LooseOwner ''main''). ?f i)"
    by (simp add: add.assoc)
  also have "(\<Sum>i\<leftarrow>?rest. ?f i) = tokens_of_usage (ct_Usage (lg_Unattributed l)) ! k"
    using assms(2,3) by (simp add: rolled_up_def part part_sums_def call_tokens_def base)
  also have "(\<Sum>i\<leftarrow>concat (map (CallsOf l) (lg_Main l)). ?f i) = (\<Sum>tk\<leftarrow>lg_Main l. \<Sum>i\<leftarrow>CallsOf l tk. ?f i)"
    by (simp add: concat_sum o_def)
  finally show ?thesis .
qed

lemma closeFrames_returns:
  assumes "ComputeChecked fl iter doc dialect pricing read = Some (Inr l)" "ranges iter"
  shows "\<exists>out su. closeFrames fl so order l targets inputs achievements labels subtasks judging = Some (out, su)"
proof -
  have "subtask_frame fl l subtasks st \<noteq> None" for st
    using subtask_calls_total [OF assms, of "sb_ID st" True] by (auto simp: subtask_frame_def)
  then have "those (map (subtask_frame fl l subtasks) sts) \<noteq> None" for sts by (induction sts) (auto split: option.split)
  then obtain subs where "those (map (subtask_frame fl l subtasks) (judged_subtasks l)) = Some subs" by blast
  then show ?thesis by (auto simp: closeFrames_def Let_def split: option.split)
qed

lemma nothing_unattributed:
  assumes "owners_ok l0" "rolled_up doc l0 l K" "\<not> ct_Calls (lg_Unattributed l) > 0" "k < 4"
  shows "tokens_of_usage (ct_Usage (lg_Unattributed l)) ! k = 0"
proof -
  obtain calls where part: "part_sums l0 calls (lg_Unattributed l)" using assms(2) unfolding rolled_up_def by blast
  then have "cost_counts (lg_Unattributed l) ! 0 = (\<Sum>i\<leftarrow>calls. call_counts (lg_Calls l0 ! i) ! 0)"
    unfolding part_sums_def by (meson zero_less_numeral)
  then have "calls = []" using assms(3) by (simp add: cost_counts_def call_counts_def sum_list_triv)
  with part assms(4) show ?thesis by (simp add: part_sums_def)
qed

text \<open>C29. Closing a run prices each target once, in order, and loses no token: of each of the four token types, what
  the targets were given and what the frames of unassigned and unattributed work hold add up to the total of the
  conversation exactly. A call that targets share is split between them in whole tokens, and the close always
  returns, whatever the inputs, labels and decisions say.\<close>
theorem close_adds_up:
  assumes ledger: "ComputeChecked fl iter doc dialect pricing read = Some (Inr l)" "doc_ok doc" "ranges iter"
    and targets: "distinct (map tg_ID targets)" "\<forall>t \<in> set targets. distinct (tg_Talks t)"
    and order: "mset (order (claims_of targets)) = mset (claims_of targets)"
  shows "\<exists>out su. closeFrames fl so order l targets inputs achievements labels subtasks judging = Some (out, su) \<and>
    map oc_Target (outcomes_in out) = map tg_ID targets \<and> su_Usage su = ct_Usage (lg_Total l) \<and>
    (\<forall>k < 4. tokens_of_usage (su_Usage su) ! k =
       (\<Sum>x\<leftarrow>outcomes_in out. tokens_of_usage (am_Usage (oc_Cost x)) ! k) +
       (\<Sum>c\<leftarrow>costs_in {ScopeUnassigned, ScopeUnattributed} out. tokens_of_usage (ct_Usage c) ! k))"
proof -
  define who where "who = ownersOfCalls order l (claims_of targets) inputs"
  obtain l0 K where l0: "owners_ok l0" "rolled_up doc l0 l K" using ComputeChecked_ledger [OF ledger] by blast
  have main: "main_owners_only l" by (rule ComputeChecked_owners [OF ledger(1)])
  then have m: "\<forall>c \<in> set (lg_Calls l). count_ok (cl_Usage c)" "Judged l = lg_Main l" "ct_Scope (lg_Unattributed l) = ScopeUnattributed"
    by (simp_all add: main_owners_only_def)
  have ok: "owners_ok l" using l0 owners_ok_base by (auto simp: rolled_up_def)
  obtain out su where c: "closeFrames fl so order l targets inputs achievements labels subtasks judging = Some (out, su)"
    using closeFrames_returns [OF ledger(1,3)] by blast
  note fr = closeFrames_frames [OF c m(3), folded who_def]
  have serves: "serves (map tg_ID (filter (\<lambda>t. tk \<in> set (tg_Talks t)) targets)) (who i)" if "i \<in> set (CallsOf l tk)" for i tk
    using who_serves [where order = order and l = l and i = i and tk = tk and inputs = inputs, OF targets order calls_disjoint [OF l0 main] that] targets(2) by (simp add: who_def claimed_by_claims_of)
  have "tokens_of_usage (su_Usage su) ! k = (\<Sum>x\<leftarrow>outcomes_in out. tokens_of_usage (am_Usage (oc_Cost x)) ! k) +
       (\<Sum>c\<leftarrow>costs_in left_scopes out. tokens_of_usage (ct_Usage c) ! k)" if k: "k < 4" for k
  proof -
    let ?f = "call_tokens l k" and ?loose = "\<Sum>i\<leftarrow>lg_callsOf l (LooseOwner ''main''). call_tokens l k i"
    let ?served = "\<Sum>tk\<leftarrow>lg_Main l. \<Sum>i\<leftarrow>CallsOf l tk. if who i = [] then 0 else ?f i"
    let ?unserved = "\<Sum>tk\<leftarrow>lg_Main l. \<Sum>i\<leftarrow>CallsOf l tk. if who i = [] then ?f i else 0"
    have "map (\<lambda>x. tokens_of_usage (am_Usage (oc_Cost x)) ! k) (outcomes_in out) =
        map (\<lambda>t. \<Sum>i\<leftarrow>target_calls l who t. call_share l who (tg_ID t) k i) targets"
      using fr(1) by (induction rule: list_all2_induct) (simp_all add: prices_target_def amountFor_tokens [OF k])
    then have "(\<Sum>x\<leftarrow>outcomes_in out. tokens_of_usage (am_Usage (oc_Cost x)) ! k) = ?served"
      using served_sum [OF targets _ CallsOf_other [OF main] serves _ k] ok m(1) CallsOf_bound [OF ok]
      by (simp add: owners_ok_def mains_ok_def)
    moreover have "(\<Sum>c\<leftarrow>costs_in left_scopes out. tokens_of_usage (ct_Usage c) ! k) =
        ?unserved + ?loose + tokens_of_usage (ct_Usage (lg_Unattributed l)) ! k"
      using nothing_unattributed [OF l0 _ k] k
      by (simp add: fr(2) sum_ledger_adds(2) unassigned_calls_def m(2) concat_sum o_def sum_list_map_filter' flip: call_tokens_def)
    moreover have "(\<Sum>tk\<leftarrow>lg_Main l. \<Sum>i\<leftarrow>CallsOf l tk. ?f i) = ?served + ?unserved"
    proof -
      have "?f i = (if who i = [] then 0 else ?f i) + (if who i = [] then ?f i else 0)" for i by simp
      then show ?thesis by (simp only: sum_list_addf [symmetric])
    qed
    ultimately show ?thesis using ledger_total [OF l0 k] fr(3) by (simp add: algebra_simps)
  qed
  moreover have "map oc_Target (outcomes_in out) = map tg_ID targets"
    using fr(1) by (induction rule: list_all2_induct) (simp_all add: prices_target_def)
  ultimately show ?thesis using c fr(3) by blast
qed

definition sample_target :: "string \<Rightarrow> target" where
  "sample_target ident = \<lparr>tg_ID = ident, tg_Statement = [], tg_Criteria = [], tg_Status = TargetOpen, tg_ReplacedBy = [],
     tg_Talks = [''t1''], tg_Cite = []\<rparr>"

definition int_scores :: "int score_ops" where
  "int_scores = \<lparr>so_sub = (-), so_less = (<), so_round = id\<rparr>"

lemma close_adds_up_witness:
  "\<exists>l out su. sample_ledger = Some (Inr l) \<and>
    closeFrames int_floats int_scores rev l [sample_target ''a'', sample_target ''b''] [] [] None None None = Some (out, su) \<and>
    map oc_Target (outcomes_in out) = [''a'', ''b''] \<and>
    tokens_of_usage (su_Usage su) ! 0 = (\<Sum>x\<leftarrow>outcomes_in out. tokens_of_usage (am_Usage (oc_Cost x)) ! 0) +
       (\<Sum>c\<leftarrow>costs_in {ScopeUnassigned, ScopeUnattributed} out. tokens_of_usage (ct_Usage c) ! 0)"
proof -
  let ?ts = "[sample_target ''a'', sample_target ''b'']"
  obtain l where l: "sample_ledger = Some (Inr l)" using sample_computed by blast
  have ts: "distinct (map tg_ID ?ts)" "\<forall>t \<in> set ?ts. distinct (tg_Talks t)" "map tg_ID ?ts = [''a'', ''b'']"
    by (simp_all add: sample_target_def)
  have "mset (rev (claims_of ?ts)) = mset (claims_of ?ts)" by simp
  from close_adds_up [where targets = ?ts and order = rev and so = int_scores and inputs = "[]" and achievements = "[]"
      and labels = None and subtasks = None and judging = None, OF l sample_doc_ok ranges_id ts(1,2) this]
  obtain out su where c: "closeFrames int_floats int_scores rev l ?ts [] [] None None None = Some (out, su)"
    "map oc_Target (outcomes_in out) = [''a'', ''b'']"
    and sums: "\<forall>k < 4. tokens_of_usage (su_Usage su) ! k = (\<Sum>x\<leftarrow>outcomes_in out. tokens_of_usage (am_Usage (oc_Cost x)) ! k) +
       (\<Sum>c\<leftarrow>costs_in {ScopeUnassigned, ScopeUnattributed} out. tokens_of_usage (ct_Usage c) ! k)"
    unfolding ts(3) by (elim exE conjE) (rule that; assumption)
  from sums have "tokens_of_usage (su_Usage su) ! 0 = (\<Sum>x\<leftarrow>outcomes_in out. tokens_of_usage (am_Usage (oc_Cost x)) ! 0) +
       (\<Sum>c\<leftarrow>costs_in {ScopeUnassigned, ScopeUnattributed} out. tokens_of_usage (ct_Usage c) ! 0)"
    by (meson zero_less_numeral)
  with l c show ?thesis by (intro exI conjI)
qed

section \<open>The labels of a target's calls\<close>

definition key_of :: "work_group \<Rightarrow> group_key" where
  "key_of g = (wg_work g, wg_talk g, wg_k g, wg_cause g)"

definition calls_where :: "(group_key \<Rightarrow> bool) \<Rightarrow> work_group list \<Rightarrow> nat list" where
  "calls_where P gs = concat (map wg_calls (filter (\<lambda>g. P (key_of g)) gs))"

definition groups_ok :: "(group_key \<rightharpoonup> nat) \<Rightarrow> work_group list \<Rightarrow> bool" where
  "groups_ok index gs \<longleftrightarrow> distinct (map key_of gs) \<and> (\<forall>key g. index key = Some g \<longleftrightarrow> g < length gs \<and> key_of (gs ! g) = key)"

lemma calls_where_append: "calls_where P (gs @ hs) = calls_where P gs @ calls_where P hs"
  by (simp add: calls_where_def)

lemma key_of_calls [simp]: "key_of (g\<lparr>wg_calls := cs\<rparr>) = key_of g"
  by (simp add: key_of_def)

lemma add_to_group_ok:
  assumes "groups_ok index gs" "add_to_group key i (index, gs) = (index', gs')"
  shows "groups_ok index' gs' \<and> mset (calls_where P gs') = mset (calls_where P gs) + (if P key then {#i#} else {#})"
proof (cases "index key")
  case None
  obtain lb talk k cause where key: "key = (lb, talk, k, cause)" by (cases key)
  let ?g = "\<lparr>wg_work = lb, wg_talk = talk, wg_cause = cause, wg_k = k, wg_calls = [i]\<rparr>"
  have k: "key_of ?g = key" by (simp add: key_of_def key)
  have gs': "gs' = gs @ [?g]" "index' = index(key \<mapsto> length gs)"
    using assms(2) None by (simp_all add: add_to_group_def key)
  have new: "key \<notin> key_of ` set gs"
  proof
    assume "key \<in> key_of ` set gs"
    then obtain j where "j < length gs" "key_of (gs ! j) = key" by (auto simp: in_set_conv_nth)
    with assms(1) None show False unfolding groups_ok_def by (metis option.distinct(1))
  qed
  then have notin: "\<not> (j < length gs \<and> key_of (gs ! j) = key)" for j by auto
  have "index' key' = Some j \<longleftrightarrow> j < length gs' \<and> key_of (gs' ! j) = key'" for key' j
  proof (cases "key' = key")
    case True
    then show ?thesis using notin [of j] by (auto simp: gs' nth_append k less_Suc_eq)
  next
    case False
    moreover have "index key' = Some j \<longleftrightarrow> j < length gs \<and> key_of (gs ! j) = key'"
      using assms(1) unfolding groups_ok_def by blast
    ultimately show ?thesis by (auto simp: gs' nth_append k less_Suc_eq)
  qed
  then have "groups_ok index' gs'"
    using assms(1) new unfolding groups_ok_def by (simp add: gs'(1) k)
  moreover have "calls_where P [?g] = (if P key then [i] else [])" by (simp add: calls_where_def k)
  ultimately show ?thesis by (simp add: gs' calls_where_append)
next
  case (Some g)
  then have g: "g < length gs" "key_of (gs ! g) = key" using assms(1) unfolding groups_ok_def by blast+
  let ?g = "(gs ! g)\<lparr>wg_calls := wg_calls (gs ! g) @ [i]\<rparr>"
  have gs': "gs' = gs[g := ?g]" "index' = index"
    using assms(2) Some by (cases key; simp add: add_to_group_def)+
  have keys: "map key_of gs' = map key_of gs"
    using g by (simp add: gs' map_update list_update_same_conv)
  then have "groups_ok index' gs'"
    using assms(1) unfolding groups_ok_def gs'(2) by (metis length_map nth_map)
  moreover have "mset (calls_where P gs') = mset (calls_where P gs) + (if P key then {#i#} else {#})"
  proof -
    have "gs = take g gs @ gs ! g # drop (Suc g) gs" using g(1) by (rule id_take_nth_drop)
    then have "mset (calls_where P gs) = mset (calls_where P (take g gs)) + mset (calls_where P [gs ! g]) + mset (calls_where P (drop (Suc g) gs))"
      by (metis calls_where_append append_Cons append_Nil mset_append add.assoc)
    moreover have "gs' = take g gs @ ?g # drop (Suc g) gs" using g(1) by (simp add: gs' upd_conv_take_nth_drop)
    then have "mset (calls_where P gs') = mset (calls_where P (take g gs)) + mset (calls_where P [?g]) + mset (calls_where P (drop (Suc g) gs))"
      by (metis calls_where_append append_Cons append_Nil mset_append add.assoc)
    moreover have "mset (calls_where P [?g]) = mset (calls_where P [gs ! g]) + (if P key then {#i#} else {#})"
      by (simp add: calls_where_def g(2))
    ultimately show ?thesis by simp
  qed
  ultimately show ?thesis by simp
qed

definition has_work :: "(string \<Rightarrow> bool) \<Rightarrow> (string \<Rightarrow> bool) \<Rightarrow> group_key \<Rightarrow> bool" where
  "has_work P Q key = (case key of (lb, _, _, cause) \<Rightarrow> P lb \<and> Q cause)"

definition split_between :: "nat \<Rightarrow> group_key \<Rightarrow> bool" where
  "split_between n key = (case key of (_, _, k, _) \<Rightarrow> k = n)"

text \<open>What the labelling of the calls \<open>is\<close> has built.\<close>

definition work_ok :: "owners_of_calls \<Rightarrow> (group_key \<rightharpoonup> nat) \<times> target_work \<Rightarrow> nat list \<Rightarrow> bool" where
  "work_ok who st is \<longleftrightarrow> (let gs = tw_groups (snd st); w = snd st in
     groups_ok (fst st) gs \<and> mset (calls_where (\<lambda>_. True) gs) = mset is \<and>
     mset (tw_avoidable w) = mset (calls_where (has_work Avoidable (\<lambda>_. True)) gs) \<and>
     mset (tw_notReviewed w) = mset (calls_where (has_work (\<lambda>lb. lb = WorkNotReviewed) (\<lambda>_. True)) gs) \<and>
     mset (tw_bySubtasks w) = mset (calls_where (has_work Avoidable (\<lambda>c. c \<noteq> CauseMain \<and> c \<noteq> CauseUnknown)) gs) \<and>
     mset (tw_causeUnknown w) = mset (calls_where (has_work Avoidable (\<lambda>c. c = CauseUnknown)) gs) \<and>
     (\<forall>n. \<forall>i \<in> set (calls_where (split_between n) gs). length (who i) = n))"

lemma not_reviewed_unavoidable [simp]: "\<not> Avoidable WorkNotReviewed"
  by (simp add: Avoidable_def WorkNotReviewed_def WorkAvoidable_def WorkRepeated_def WorkRedundant_def WorkRepair_def
      WorkMisdirected_def WorkMisled_def WorkRework_def)

lemma cause_main_unknown [simp]: "CauseMain \<noteq> CauseUnknown" "CauseUnknown \<noteq> CauseMain"
  by (simp_all add: CauseMain_def CauseUnknown_def)

lemma note_label_groups [simp]: "tw_groups (note_label lb cause i w) = tw_groups w"
  by (simp add: note_label_def Let_def)

lemma label_call_ok:
  assumes ok: "work_ok who st is" and serves: "t \<in> set (who i)"
  shows "work_ok who (label_call who t tk lab i st) (is @ [i])"
proof -
  obtain index w where st: "st = (index, w)" by (cases st)
  obtain lb cause where lab: "lab i = (lb, cause)" by (cases "lab i")
  define key where "key = (lb, (if length (who i) > 1 then tk else []), length (who i), cause)"
  obtain index' gs where g: "add_to_group key i (index, tw_groups w) = (index', gs)" by (cases "add_to_group key i (index, tw_groups w)")
  let ?w = "note_label lb cause i (w\<lparr>tw_groups := gs\<rparr>)"
  have new: "label_call who t tk lab i (index, w) = (index', ?w)"
    using serves g by (simp add: label_call_def lab key_def Let_def)
  have "groups_ok index (tw_groups w)" using ok by (simp add: work_ok_def st Let_def)
  from add_to_group_ok [OF this g] have groups: "groups_ok index' gs"
    and calls: "\<And>P. mset (calls_where P gs) = mset (calls_where P (tw_groups w)) + (if P key then {#i#} else {#})" by blast+
  have keys: "has_work P Q key \<longleftrightarrow> P lb \<and> Q cause" "split_between n key \<longleftrightarrow> n = length (who i)" for P Q n
    by (auto simp: has_work_def split_between_def key_def)
  have "\<forall>n. \<forall>j \<in> set (calls_where (split_between n) gs). length (who j) = n"
  proof (intro allI ballI)
    fix n j assume "j \<in> set (calls_where (split_between n) gs)"
    then have "j \<in># mset (calls_where (split_between n) (tw_groups w)) + (if split_between n key then {#i#} else {#})"
      by (simp flip: calls)
    then have "j \<in> set (calls_where (split_between n) (tw_groups w)) \<or> n = length (who i) \<and> j = i"
      by (auto simp: keys split: if_splits)
    then show "length (who j) = n" using ok by (auto simp: work_ok_def st Let_def)
  qed
  then show ?thesis
    using ok groups unfolding st new work_ok_def Let_def fst_conv snd_conv note_label_groups
    by (simp add: calls keys note_label_def Let_def)
qed

lemma label_calls_ok:
  "work_ok who st is \<Longrightarrow> work_ok who (fold (label_call who t tk lab) js st) (is @ filter (\<lambda>i. t \<in> set (who i)) js)"
proof (induction js arbitrary: st "is")
  case (Cons j js)
  show ?case
  proof (cases "t \<in> set (who j)")
    case True
    with Cons.IH [OF label_call_ok [OF Cons.prems True]] show ?thesis by simp
  next
    case False
    with Cons show ?thesis by (simp add: label_call_def)
  qed
qed simp

lemma label_talk_ok:
  assumes "work_ok who st is"
  shows "work_ok who (label_talk l who labels subtasks subOf t tk st) (is @ filter (\<lambda>i. t \<in> set (who i)) (CallsOf l tk))"
proof -
  let ?lab = "labelOf l subtasks subOf tk (talkParts l (filter (\<lambda>lb. lb_Target lb = t \<and> lb_Talk lb = tk) labels))"
  obtain index w where f: "fold (label_call who t tk ?lab) (CallsOf l tk) st = (index, w)"
    by (cases "fold (label_call who t tk ?lab) (CallsOf l tk) st")
  with label_calls_ok [OF assms, of t tk ?lab "CallsOf l tk"] show ?thesis
    by (simp add: label_talk_def Let_def work_ok_def)
qed

lemma labelTarget_ok: "\<exists>index. work_ok who (index, labelTarget l who labels subtasks t) (target_calls l who t)"
proof -
  let ?subOf = "case subtasks of None \<Rightarrow> Map.empty | Some _ \<Rightarrow> subtaskCalls l"
  have "work_ok who st is \<Longrightarrow> work_ok who (fold (label_talk l who labels subtasks ?subOf x) tks st)
      (is @ concat (map (\<lambda>tk. filter (\<lambda>i. x \<in> set (who i)) (CallsOf l tk)) tks))" for x tks st "is"
  proof (induction tks arbitrary: st "is")
    case (Cons tk tks)
    from Cons.IH [OF label_talk_ok [OF Cons.prems]] show ?case by simp
  qed simp
  moreover have "work_ok who (Map.empty, no_work) []"
    by (simp add: work_ok_def no_work_def groups_ok_def calls_where_def)
  ultimately have "work_ok who (fold (label_talk l who labels subtasks ?subOf (tg_ID t)) (tg_Talks t) (Map.empty, no_work)) (target_calls l who t)"
    by (fastforce simp: target_calls_def)
  then show ?thesis unfolding labelTarget_def Let_def by (metis prod.collapse)
qed

lemma labelCalls_of:
  assumes "distinct (map tg_ID targets)" "t \<in> set targets"
  shows "labelCalls l targets who labels subtasks (tg_ID t) = Some (labelTarget l who labels subtasks t)"
proof -
  have "fold (\<lambda>t m. m(tg_ID t \<mapsto> f t)) ts m x = (if x \<in> tg_ID ` set ts then m' x else m x)"
    if "distinct (map tg_ID ts)" "\<forall>t \<in> set ts. m' (tg_ID t) = Some (f t)" for ts m m' x and f :: "target \<Rightarrow> target_work"
    using that by (induction ts arbitrary: m) auto
  moreover have "\<exists>m'. \<forall>t \<in> set targets. m' (tg_ID t) = Some (labelTarget l who labels subtasks t)"
    using assms(1)
    by (intro exI [of _ "map_of (map (\<lambda>t. (tg_ID t, labelTarget l who labels subtasks t)) targets)"])
      (auto simp: map_of_eq_Some_iff o_def)
  ultimately show ?thesis using assms unfolding labelCalls_def by force
qed

text \<open>The work groups of a target are its calls, each in one group: no two groups have one label, talk, number of
  sharing targets and cause, and every call of a group is shared by as many targets as the group says. The
  avoidable calls are those of the groups with an avoidable label, and they are the main agent's, the sub-tasks' or
  of unknown cause, each call once; the calls not reviewed are those of the groups so labeled.\<close>
theorem labels_partition:
  assumes "distinct (map tg_ID targets)" "t \<in> set targets"
  shows "\<exists>w. labelCalls l targets who labels subtasks (tg_ID t) = Some w \<and>
    mset (concat (map wg_calls (tw_groups w))) = mset (target_calls l who t) \<and>
    distinct (map key_of (tw_groups w)) \<and> (\<forall>g \<in> set (tw_groups w). \<forall>i \<in> set (wg_calls g). length (who i) = wg_k g) \<and>
    mset (tw_avoidable w) = mset (concat (map wg_calls (filter (\<lambda>g. Avoidable (wg_work g)) (tw_groups w)))) \<and>
    mset (tw_avoidable w) =
      mset (concat (map wg_calls (filter (\<lambda>g. Avoidable (wg_work g) \<and> wg_cause g = CauseMain) (tw_groups w)))) +
      mset (tw_bySubtasks w) + mset (tw_causeUnknown w) \<and>
    mset (tw_notReviewed w) = mset (concat (map wg_calls (filter (\<lambda>g. wg_work g = WorkNotReviewed) (tw_groups w))))"
proof -
  define w where "w = labelTarget l who labels subtasks t"
  obtain index where "work_ok who (index, w) (target_calls l who t)" unfolding w_def using labelTarget_ok by blast
  then have ok: "groups_ok index (tw_groups w)" "mset (calls_where (\<lambda>_. True) (tw_groups w)) = mset (target_calls l who t)"
    "mset (tw_avoidable w) = mset (calls_where (has_work Avoidable (\<lambda>_. True)) (tw_groups w))"
    "mset (tw_notReviewed w) = mset (calls_where (has_work (\<lambda>lb. lb = WorkNotReviewed) (\<lambda>_. True)) (tw_groups w))"
    "mset (tw_bySubtasks w) = mset (calls_where (has_work Avoidable (\<lambda>c. c \<noteq> CauseMain \<and> c \<noteq> CauseUnknown)) (tw_groups w))"
    "mset (tw_causeUnknown w) = mset (calls_where (has_work Avoidable (\<lambda>c. c = CauseUnknown)) (tw_groups w))"
    "\<forall>n. \<forall>i \<in> set (calls_where (split_between n) (tw_groups w)). length (who i) = n"
    unfolding work_ok_def Let_def fst_conv snd_conv by blast+
  have works: "calls_where (has_work P Q) gs = concat (map wg_calls (filter (\<lambda>g. P (wg_work g) \<and> Q (wg_cause g)) gs))" for P Q gs
    by (simp add: calls_where_def has_work_def key_of_def)
  have split3: "mset (concat (map wg_calls (filter (\<lambda>g. Avoidable (wg_work g)) gs))) =
      mset (concat (map wg_calls (filter (\<lambda>g. Avoidable (wg_work g) \<and> wg_cause g = CauseMain) gs))) +
      mset (concat (map wg_calls (filter (\<lambda>g. Avoidable (wg_work g) \<and> wg_cause g \<noteq> CauseMain \<and> wg_cause g \<noteq> CauseUnknown) gs))) +
      mset (concat (map wg_calls (filter (\<lambda>g. Avoidable (wg_work g) \<and> wg_cause g = CauseUnknown) gs)))" for gs
    by (induction gs) auto
  have "length (who i) = wg_k g" if "g \<in> set (tw_groups w)" "i \<in> set (wg_calls g)" for g i
    using ok(7) that by (force simp: calls_where_def split_between_def key_of_def)
  moreover have "distinct (map key_of (tw_groups w))" using ok(1) by (simp add: groups_ok_def)
  moreover have "labelCalls l targets who labels subtasks (tg_ID t) = Some w"
    unfolding w_def by (rule labelCalls_of [OF assms])
  ultimately show ?thesis
    using ok(2-6) split3 [of "tw_groups w"] unfolding works by (intro exI [of _ w]) (simp add: calls_where_def)
qed

lemma labels_partition_witness:
  "\<exists>w. labelCalls (the (Compute int_floats id sample_doc)) [sample_target ''a'', sample_target ''b''] (\<lambda>_. [''b'']) [] None
      ''b'' = Some w \<and>
    mset (concat (map wg_calls (tw_groups w))) = mset (target_calls (the (Compute int_floats id sample_doc)) (\<lambda>_. [''b'']) (sample_target ''b''))"
proof -
  have "distinct (map tg_ID [sample_target ''a'', sample_target ''b''])" "sample_target ''b'' \<in> set [sample_target ''a'', sample_target ''b'']"
    "tg_ID (sample_target ''b'') = ''b''" by (simp_all add: sample_target_def)
  from labels_partition [OF this(1,2), of "the (Compute int_floats id sample_doc)" "\<lambda>_. [''b'']" "[]" None, unfolded this(3)]
  show ?thesis by (elim exE conjE) (intro exI conjI; assumption)
qed

section \<open>The length of a union of time ranges\<close>

definition instants :: "(int \<times> int) set \<Rightarrow> int set" where
  "instants R = (\<Union>s \<in> R. {fst s ..< snd s})"

text \<open>What the loop holds: the length of what ended before the range it is in, and that range.\<close>

definition merging :: "(int \<times> int) set \<Rightarrow> int \<Rightarrow> int \<Rightarrow> int \<Rightarrow> bool" where
  "merging past len start fin \<longleftrightarrow> start \<le> fin \<and>
     (\<exists>A. finite A \<and> A \<subseteq> {..<start} \<and> int (card A) = len \<and> instants past = A \<union> {start ..< fin})"

lemma merging_card: "merging past len start fin \<Longrightarrow> int (card (instants past)) = len + (fin - start)"
proof -
  assume "merging past len start fin"
  then obtain A where A: "start \<le> fin" "finite A" "A \<subseteq> {..<start}" "int (card A) = len" "instants past = A \<union> {start ..< fin}"
    by (auto simp: merging_def)
  then have "A \<inter> {start ..< fin} = {}" by auto
  with A(2,5) have "card (instants past) = card A + card {start ..< fin}" by (simp add: card_Un_disjoint)
  with A(1,4) show ?thesis by simp
qed

lemma merging_step:
  assumes "merging past len start fin" "start \<le> fst s" "fst s \<le> snd s"
  shows "\<exists>t b e. union_step s ((len, start, fin), False) = ((t, b, e), False) \<and> b \<le> fst s \<and> merging (insert s past) t b e"
proof -
  obtain A where A: "start \<le> fin" "finite A" "A \<subseteq> {..<start}" "int (card A) = len" "instants past = A \<union> {start ..< fin}"
    using assms(1) by (auto simp: merging_def)
  have new: "instants (insert s past) = {fst s ..< snd s} \<union> (A \<union> {start ..< fin})" using A(5) by (simp add: instants_def)
  consider "fst s > fin" | "fst s \<le> fin" "snd s > fin" | "fst s \<le> fin" "snd s \<le> fin" by linarith
  then show ?thesis
  proof cases
    case 1
    have "finite (A \<union> {start ..< fin}) \<and> A \<union> {start ..< fin} \<subseteq> {..<fst s} \<and> int (card (A \<union> {start ..< fin})) = len + (fin - start)"
      using A 1 merging_card [OF assms(1)] by (auto simp: A(5))
    with 1 new assms(3) have "merging (insert s past) (len + (fin - start)) (fst s) (snd s)"
      unfolding merging_def by (intro conjI exI [of _ "A \<union> {start ..< fin}"]) auto
    with 1 show ?thesis by (cases s) (simp add: union_step_def)
  next
    case 2
    have "instants (insert s past) = A \<union> {start ..< snd s}" unfolding new using 2 assms(2) A(1) by auto
    with 2 A have "merging (insert s past) len start (snd s)" unfolding merging_def by (intro conjI exI [of _ A]) auto
    with 2 assms(2) show ?thesis by (simp add: union_step_def)
  next
    case 3
    have "instants (insert s past) = A \<union> {start ..< fin}" unfolding new using 3 assms(2) A(1) by auto
    with A have "merging (insert s past) len start fin" unfolding merging_def by (intro conjI exI [of _ A]) auto
    with 3 assms(2) show ?thesis by (simp add: union_step_def)
  qed
qed

lemma merging_fold:
  "merging past len start fin \<Longrightarrow> sorted (map fst r) \<Longrightarrow> (\<forall>s \<in> set r. start \<le> fst s \<and> fst s \<le> snd s) \<Longrightarrow>
   \<exists>t b e. fold union_step r ((len, start, fin), False) = ((t, b, e), False) \<and> merging (set r \<union> past) t b e"
proof (induction r arbitrary: past len start fin)
  case (Cons s r)
  obtain t b e where s: "union_step s ((len, start, fin), False) = ((t, b, e), False)" "b \<le> fst s" "merging (insert s past) t b e"
    using merging_step [OF Cons.prems(1)] Cons.prems(3) by (metis list.set_intros(1))
  have "\<forall>x \<in> set r. b \<le> fst x \<and> fst x \<le> snd x" using s(2) Cons.prems(2,3) by fastforce
  from Cons.IH [OF s(3) _ this] Cons.prems(2) s(1) show ?case by simp
qed auto

interpretation starts: weak_less "\<lambda>a b :: int \<times> int. fst a < fst b" UNIV
  by unfold_locales auto

lemma sorted_by_starts: "sorted_by (\<lambda>a b :: int \<times> int. fst a < fst b) r \<Longrightarrow> sorted (map fst r)"
  by (induction r) (auto simp: not_less)



end
