(* ===== verification/Asm_Builder.thy ===== *)
theory Asm_Builder
  imports Index_Lookup Flow_Text Session_View Go_Time
begin

text \<open>
  The shared state of assembly, \<^verbatim>\<open>internal/assemble/assemble.go\<close>: the builder its stages thread through,
  nodes, relations and unresolved references keyed by their ids, and the attributes of a node as the JSON
  text \<open>json.Marshal\<close> writes for a map. A Go map keyed by an entity's own id is a list of entities with
  one per id; a pointer to an index entry is the entry's position; a pointer to a stream, call, tool use or
  talk is its id, and the pointed-at value is the one in the builder's list.
\<close>

section \<open>Names\<close>

text \<open>The kinds, relations and claims of \<^verbatim>\<open>pkg/model/model.go\<close> that assembly writes.\<close>

definition KindMessageExternal :: string where "KindMessageExternal = ''message.external''"
definition KindMessageSynthetic :: string where "KindMessageSynthetic = ''message.synthetic''"
definition KindContextInjection :: string where "KindContextInjection = ''context.injection''"
definition KindThinking :: string where "KindThinking = ''thinking''"
definition KindAgentLaunchAck :: string where "KindAgentLaunchAck = ''agent.launch_ack''"
definition KindAgentOutput :: string where "KindAgentOutput = ''agent.output''"
definition KindRuntimeNotification :: string where "KindRuntimeNotification = ''runtime.notification''"
definition KindEpochBoundary :: string where "KindEpochBoundary = ''epoch.boundary''"
definition KindEpochSummary :: string where "KindEpochSummary = ''epoch.summary''"
definition model_HistoryChange :: string where "model_HistoryChange = ''history.change''"
definition KindErrorAPI :: string where "KindErrorAPI = ''error.api''"
definition KindControlCommand :: string where "KindControlCommand = ''control.command''"
definition KindTurnDuration :: string where "KindTurnDuration = ''turn.duration''"
definition KindControlNotice :: string where "KindControlNotice = ''control.notice''"

definition RelReports :: string where "RelReports = ''reports''"
definition RelEndsWith :: string where "RelEndsWith = ''ends_with''"
definition RelResultOf :: string where "RelResultOf = ''result_of''"
definition RelFollows :: string where "RelFollows = ''follows''"
definition RelSummarizes :: string where "RelSummarizes = ''summarizes''"
definition RelInSegment :: string where "RelInSegment = ''in_segment''"

definition ExactUnique :: string where "ExactUnique = ''exact_unique''"
definition ExactAmbiguous :: string where "ExactAmbiguous = ''exact_ambiguous''"
definition StrongInference :: string where "StrongInference = ''strong_inference''"
definition WeakInference :: string where "WeakInference = ''weak_inference''"
definition Unresolved_quality :: string where "Unresolved_quality = ''unresolved''"
definition Conflict :: string where "Conflict = ''conflict''"

definition ObservedReplayable :: string where "ObservedReplayable = ''observed_replayable''"
definition Unavailable :: string where "Unavailable = ''unavailable''"
definition ContentAvailable :: string where "ContentAvailable = ''available''"
definition ContentUnavailable :: string where "ContentUnavailable = ''unavailable''"

definition StreamMain :: string where "StreamMain = ''main''"
definition StreamChild :: string where "StreamChild = ''child''"
definition StreamAuxiliary :: string where "StreamAuxiliary = ''auxiliary''"

definition ClassInternalCall :: string where "ClassInternalCall = ''internal_call''"
definition ClassTurnCall :: string where "ClassTurnCall = ''turn_call''"

section \<open>Attributes\<close>

text \<open>The values a map of attributes holds.\<close>

datatype attr = AStr string | ANum int | APlace u32 u32 | ABodies "providerBody list"

definition body_text :: "providerBody \<Rightarrow> string" where
  "body_text y = obj_text [str_field ''role'' (pb_Role y), (''ref'', ref_text (pb_Ref y))]"

fun attr_text :: "attr \<Rightarrow> string" where
  "attr_text (AStr s) = quote s"
| "attr_text (ANum n) = Itoa n"
| "attr_text (APlace seq row) = obj_text [(''row'', FormatUint (unat row)), (''seq'', FormatUint (unat seq))]"
| "attr_text (ABodies ys) = arr_text (map body_text ys)"

text \<open>A map as a list without a key twice; \<open>json.Marshal\<close> writes it by key.\<close>

type_synonym attr_map = "(string \<times> attr) list"

definition set_attr :: "string \<Rightarrow> attr \<Rightarrow> attr_map \<Rightarrow> attr_map" where
  "set_attr k v m = (k, v) # filter (\<lambda>p. fst p \<noteq> k) m"

definition set_attrs :: "attr_map \<Rightarrow> attr_map \<Rightarrow> attr_map" where
  "set_attrs new m = foldr (\<lambda>(k, v). set_attr k v) new m"

definition attrs :: "attr_map \<Rightarrow> string" where
  "attrs m =
    (if m = [] then []
     else obj_text (map (\<lambda>(k, v). (k, attr_text v)) (sort_by (\<lambda>p q. fst p < fst q) m)))"

section \<open>The builder\<close>

record asm_options =
  op_Conversation :: string
  op_Session :: string
  op_IdleGap :: int
  op_ThroughSeq :: u64

definition DefaultIdleGap :: int where
  "DefaultIdleGap = 600 * 10 ^ 9"

record asm_stats =
  st_Entries :: int
  st_Duplicates :: int
  st_Beyond :: int
  st_Streams :: int
  st_Epochs :: int
  st_Talks :: int
  st_Runs :: int
  st_Steps :: int
  st_ProviderCalls :: int
  st_ProviderBodies :: int
  st_CallFragments :: int
  st_CallsWithoutEnd :: int
  st_SyntheticMessages :: int
  st_ToolUses :: int
  st_ToolsResolved :: int
  st_ToolsUnmatched :: int
  st_Spawns :: int
  st_SpawnsResolved :: int
  st_ChildrenOrphan :: int
  st_Notifications :: int
  st_NotifyUnmatched :: int

definition zero_stats :: asm_stats where
  "zero_stats = \<lparr>st_Entries = 0, st_Duplicates = 0, st_Beyond = 0, st_Streams = 0, st_Epochs = 0, st_Talks = 0,
     st_Runs = 0, st_Steps = 0, st_ProviderCalls = 0, st_ProviderBodies = 0, st_CallFragments = 0,
     st_CallsWithoutEnd = 0, st_SyntheticMessages = 0, st_ToolUses = 0, st_ToolsResolved = 0,
     st_ToolsUnmatched = 0, st_Spawns = 0, st_SpawnsResolved = 0, st_ChildrenOrphan = 0, st_Notifications = 0,
     st_NotifyUnmatched = 0\<rparr>"

text \<open>\<open>streamInfo\<close>; its epochs and talks are in the builder's lists.\<close>

record stream_info =
  si_ID :: u32
  si_Name :: string
  si_Role :: string
  si_NodeID :: string
  si_Entries :: "nat list"
  si_First :: int
  si_Last :: int

record provider_call =
  pc_CallID :: u32
  pc_Stream :: stream_info
  pc_Fragments :: "nat list"
  pc_Finished :: bool
  pc_Synthetic :: bool
  pc_NodeID :: string

record tool_use =
  tu_ToolID :: u32
  tu_Name :: string
  tu_Server :: string
  tu_ServerTool :: string
  tu_Use :: "nat option"
  tu_UseOrd :: u32
  tu_Result :: "nat option"
  tu_ResOrd :: u32
  tu_Stream :: stream_info
  tu_NodeID :: string
  tu_Ambiguous :: bool
  tu_StartsAgent :: bool

record spawn_edge =
  se_Tool :: u32
  se_Batch :: u32
  se_Parent :: u32
  se_Stream :: u32
  se_Via :: string
  se_Quality :: string
  se_Ref :: ref

record epoch =
  ep_NodeID :: string
  ep_Stream :: u32
  ep_Boundary :: "nat option"
  ep_Start :: nat
  ep_End :: nat

record talk =
  tk_NodeID :: string
  tk_Stream :: stream_info
  tk_Epoch :: "epoch option"
  tk_Runs :: "u32 list"
  tk_Emitted :: "u32 list"
  tk_First :: int
  tk_Last :: int
  tk_At :: "ref option"

record window =
  sg_NodeID :: string
  sg_Talks :: "talk list"
  sg_From :: int
  sg_To :: int

record call_history =
  ch_attrs :: attr_map
  ch_card :: "attr_map option"
  ch_refs :: "ref list"

type_synonym run_key = "u32 \<times> u32"
type_synonym place = "u32 \<times> u32"

record builder =
  b_ix :: index
  b_opt :: asm_options
  b_nodes :: "node list"
  b_rels :: "relation list"
  b_unres :: "unresolved list"
  b_stats :: asm_stats
  b_toolName :: "(string \<times> string) list"
  b_canonical :: "nat list"
  b_streams :: "stream_info list"
  b_calls :: "provider_call list"
  b_tools :: "tool_use list"
  b_epochs :: "epoch list"
  b_talks :: "talk list"
  b_segments :: "window list"
  b_spawnEdges :: "spawn_edge list"
  b_startedBy :: "u32 \<Rightarrow> u32 list"
  b_bodiesOfCall :: "string \<Rightarrow> providerBody list"
  b_requestRow :: "string \<Rightarrow> nat option"
  b_responseRow :: "string \<Rightarrow> nat option"
  b_history :: "string \<Rightarrow> call_history option"
  b_container :: "place \<Rightarrow> string option"
  b_reported :: "u32 \<Rightarrow> bool"
  b_epochAt :: "place \<Rightarrow> string option"
  b_talkOfRun :: "run_key \<Rightarrow> string option"
  b_runNode :: "run_key \<Rightarrow> string option"
  b_runAt :: "run_key \<Rightarrow> ref option"

definition new_builder :: "index \<Rightarrow> asm_options \<Rightarrow> builder" where
  "new_builder ix opt = \<lparr>b_ix = ix, b_opt = opt, b_nodes = [], b_rels = [], b_unres = [], b_stats = zero_stats,
     b_toolName = [], b_canonical = [], b_streams = [], b_calls = [], b_tools = [], b_epochs = [], b_talks = [],
     b_segments = [], b_spawnEdges = [], b_startedBy = (\<lambda>_. []), b_bodiesOfCall = (\<lambda>_. []),
     b_requestRow = (\<lambda>_. None), b_responseRow = (\<lambda>_. None), b_history = (\<lambda>_. None),
     b_container = (\<lambda>_. None), b_reported = (\<lambda>_. False), b_epochAt = (\<lambda>_. None),
     b_talkOfRun = (\<lambda>_. None), b_runNode = (\<lambda>_. None), b_runAt = (\<lambda>_. None)\<rparr>"

abbreviation entry_at :: "builder \<Rightarrow> nat \<Rightarrow> entry" where
  "entry_at b i \<equiv> ix_Entries (b_ix b) ! i"

definition str :: "builder \<Rightarrow> u32 \<Rightarrow> string" where
  "str b v = String_of (ix_Strings (b_ix b)) v"

definition counted :: "(asm_stats \<Rightarrow> asm_stats) \<Rightarrow> builder \<Rightarrow> builder" where
  "counted f b = b\<lparr>b_stats := f (b_stats b)\<rparr>"

definition step_counted :: "builder \<Rightarrow> builder" where
  "step_counted = counted (\<lambda>s. s\<lparr>st_Steps := st_Steps s + 1\<rparr>)"

section \<open>Entities by id\<close>

definition put_by_id :: "'a entity_scheme \<Rightarrow> 'a entity_scheme list \<Rightarrow> 'a entity_scheme list" where
  "put_by_id x xs = filter (\<lambda>y. en_ID y \<noteq> en_ID x) xs @ [x]"

definition get_by_id :: "string \<Rightarrow> 'a entity_scheme list \<Rightarrow> 'a entity_scheme option" where
  "get_by_id i xs = find (\<lambda>y. en_ID y = i) xs"

definition node :: "node \<Rightarrow> builder \<Rightarrow> builder" where
  "node n b = b\<lparr>b_nodes := put_by_id n (b_nodes b)\<rparr>"

definition has_node :: "builder \<Rightarrow> string \<Rightarrow> bool" where
  "has_node b i \<longleftrightarrow> get_by_id i (b_nodes b) \<noteq> None"

definition mk_node :: "string \<Rightarrow> string \<Rightarrow> string \<Rightarrow> string \<Rightarrow> ref option \<Rightarrow> ref list \<Rightarrow> attr_map \<Rightarrow> node" where
  "mk_node ident kind parent stream r rs a =
     zero_node\<lparr>en_ID := ident, n_Kind := kind, n_Parent := parent, n_Stream := stream, n_Ref := r, n_Refs := rs,
       n_Attrs := attrs a\<rparr>"

text \<open>\<open>qualityRank\<close>\<close>

definition qualityRank :: "string \<Rightarrow> nat" where
  "qualityRank q =
    (if q = ExactUnique then 5 else if q = ExactAmbiguous then 4
     else if q = StrongInference then 3 else if q = WeakInference then 2 else 0)"

text \<open>\<open>relate\<close>: an edge seen again keeps the stronger quality, and a conflict once it is one.\<close>

definition merge_relation :: "string \<Rightarrow> string \<Rightarrow> ref list \<Rightarrow> relation \<Rightarrow> relation" where
  "merge_relation quality via evidence prev =
    (let prev =
       (if rel_Quality prev = Conflict \<or> quality = Conflict then
          (let p = prev\<lparr>rel_Quality := Conflict\<rparr> in
           if rel_Via p \<noteq> via \<and> via \<noteq> [] then p\<lparr>rel_Via := rel_Via p @ ''; '' @ via\<rparr> else p)
        else if qualityRank quality > qualityRank (rel_Quality prev)
        then prev\<lparr>rel_Quality := quality, rel_Via := via\<rparr> else prev)
     in prev\<lparr>rel_Evidence := rel_Evidence prev @ evidence\<rparr>)"

definition relate :: "string \<Rightarrow> string \<Rightarrow> string \<Rightarrow> string \<Rightarrow> string \<Rightarrow> ref list \<Rightarrow> builder \<Rightarrow> builder" where
  "relate typ src dst quality via evidence b =
    (let kept = filter (\<lambda>e. r_Seq e \<noteq> 0) evidence;
         ident = RelationID typ src dst
     in case get_by_id ident (b_rels b) of
       Some prev \<Rightarrow>
         b\<lparr>b_rels := map (\<lambda>v. if en_ID v = ident then merge_relation quality via kept v else v) (b_rels b)\<rparr>
     | None \<Rightarrow>
         b\<lparr>b_rels := b_rels b @ [zero_relation\<lparr>en_ID := ident, rel_Type := typ, rel_From := src, rel_To := dst,
             rel_Quality := quality, rel_Via := via, rel_Evidence := kept\<rparr>]\<rparr>)"

text \<open>\<open>open\<close>\<close>

definition open_ref :: "string \<Rightarrow> string \<Rightarrow> string \<Rightarrow> builder \<Rightarrow> builder" where
  "open_ref kind missing reason b =
    (let ident = UnresolvedID kind missing
     in if get_by_id ident (b_unres b) \<noteq> None then b
        else b\<lparr>b_unres := b_unres b @ [zero_unresolved\<lparr>en_ID := ident, un_Kind := kind, un_RefID := missing,
               un_Reason := reason, un_State := UnresolvedOpen\<rparr>]\<rparr>)"

section \<open>Places\<close>

text \<open>\<open>ref\<close> and \<open>blockRef\<close>\<close>

definition ref_of :: "entry \<Rightarrow> ref" where
  "ref_of e = \<lparr>r_Seq = ucast (e_Seq e), r_Row = ucast (e_Row e), r_Block = None\<rparr>"

definition blockRef :: "entry \<Rightarrow> u32 \<Rightarrow> ref" where
  "blockRef e ord = \<lparr>r_Seq = ucast (e_Seq e), r_Row = ucast (e_Row e), r_Block = Some (int (unat ord))\<rparr>"

definition place_of :: "entry \<Rightarrow> place" where
  "place_of e = (e_Seq e, e_Row e)"

definition TS :: "entry \<Rightarrow> int" where
  "TS e = sint (e_TS e)"

text \<open>A record's blocks. Its range lies in the table, as \<open>Append\<close> wires it; a Go slice past it panics.\<close>

definition blocks_at :: "builder \<Rightarrow> entry \<Rightarrow> block list" where
  "blocks_at b e =
    (if e_BlockCount e = 0 then []
     else take (unat (e_BlockCount e)) (drop (unat (e_BlockFirst e)) (ix_Blocks (b_ix b))))"

definition stream_by :: "builder \<Rightarrow> u32 \<Rightarrow> stream_info option" where
  "stream_by b v = find (\<lambda>s. si_ID s = v) (b_streams b)"

definition streamName :: "builder \<Rightarrow> entry \<Rightarrow> string" where
  "streamName b e = (case stream_by b (e_Stream e) of Some s \<Rightarrow> si_Name s | None \<Rightarrow> [])"

definition mainStream :: "builder \<Rightarrow> stream_info option" where
  "mainStream b = find (\<lambda>s. si_Role s = StreamMain) (b_streams b)"

end
