(* ===== verification/Time_Text.thy ===== *)
theory Time_Text
  imports Go_Time Flow_Ids
begin

text \<open>
  \<open>FormatTime\<close> of \<^verbatim>\<open>pkg/sessiondata/reader.go\<close>: an instant as RFC 3339 text in UTC, with the nanoseconds
  it needs. \<open>time.Parse\<close> of the text is the instant again.
\<close>

section \<open>From days to a date\<close>

lemma days_to_year_mono: "days_to_year y < days_to_year (Suc y)"
  by (simp add: year_length)

lemma days_to_year_ge: "365 * y \<le> days_to_year y"
proof (induction y)
  case (Suc y)
  then show ?case by (simp add: year_length)
qed simp

function year_from :: "nat \<Rightarrow> nat \<Rightarrow> nat" where
  "year_from y d = (if days_to_year (Suc y) \<le> d then year_from (Suc y) d else y)"
  by auto
termination
proof (relation "measure (\<lambda>(y, d). d - days_to_year y)")
  fix y d :: nat assume "days_to_year (Suc y) \<le> d"
  then show "((Suc y, d), (y, d)) \<in> measure (\<lambda>(y, d). d - days_to_year y)"
    using days_to_year_mono [of y] by simp
qed simp

declare year_from.simps [simp del]

function month_from :: "nat \<Rightarrow> nat \<Rightarrow> nat \<Rightarrow> nat \<times> nat" where
  "month_from m y d = (if m < 12 \<and> days_in m y \<le> d then month_from (Suc m) y (d - days_in m y) else (m, d))"
  by auto
termination by (relation "measure (\<lambda>(m, _, _). 12 - m)") auto

declare month_from.simps [simp del]

section \<open>The text\<close>

fun pad :: "nat \<Rightarrow> nat \<Rightarrow> string" where
  "pad 0 n = []"
| "pad (Suc k) n = pad k (n div 10) @ [digit_char (n mod 10)]"

definition frac_text :: "nat \<Rightarrow> string" where
  "frac_text ns =
    (let ds = rev (dropWhile (\<lambda>c. c = CHR ''0'') (rev (pad 9 ns)))
     in if ds = [] then [] else CHR ''.'' # ds)"

definition FormatTime :: "int \<Rightarrow> string" where
  "FormatTime t =
    (let sec = t div 1000000000; ns = nat (t mod 1000000000);
         d = nat (sec div 86400 + 719528); r = nat (sec mod 86400);
         y = year_from (d div 366) d; (m, k) = month_from 1 y (d - days_to_year y)
     in pad 4 y @ ''-'' @ pad 2 m @ ''-'' @ pad 2 (Suc k) @ ''T'' @
        pad 2 (r div 3600) @ '':'' @ pad 2 (r div 60 mod 60) @ '':'' @ pad 2 (r mod 60) @ frac_text ns @ ''Z'')"


section \<open>Reading the text\<close>

lemma digit_val_char: "n < 10 \<Longrightarrow> digit_val (digit_char n) = Some n"
  by (simp add: digit_val_def digit_char_def)

lemma get_digits_append:
  "get_digits j acc (u @ s) = Some (n, s) \<Longrightarrow> length u = j \<Longrightarrow> get_digits (j + k) acc (u @ s) = get_digits k n s"
  by (induction j acc "u @ s" arbitrary: u rule: get_digits.induct) (auto split: option.splits simp: Cons_eq_append_conv)

lemma length_pad [simp]: "length (pad k n) = k"
  by (induction k arbitrary: n) simp_all

lemma get_digits_pad: "get_digits k acc (pad k n @ s) = Some (acc * 10 ^ k + n mod 10 ^ k, s)"
proof (induction k arbitrary: n s)
  case (Suc k)
  have "get_digits (k + 1) acc (pad k (n div 10) @ digit_char (n mod 10) # s) =
      get_digits 1 (acc * 10 ^ k + n div 10 mod 10 ^ k) (digit_char (n mod 10) # s)"
    by (rule get_digits_append [OF Suc.IH]) simp
  also have "\<dots> = Some (10 * (acc * 10 ^ k + n div 10 mod 10 ^ k) + n mod 10, s)" by (simp add: digit_val_char)
  also have "10 * (acc * 10 ^ k + n div 10 mod 10 ^ k) + n mod 10 = acc * 10 ^ Suc k + n mod 10 ^ Suc k"
    by (simp add: mod_mult2_eq algebra_simps)
  finally show ?case by simp
qed simp

lemma pad_small: "n < 10 ^ k \<Longrightarrow> get_digits k 0 (pad k n @ s) = Some (n, s)"
  by (simp add: get_digits_pad)

lemma year_from_spec:
  "days_to_year y \<le> d \<Longrightarrow> days_to_year (year_from y d) \<le> d \<and> d < days_to_year (Suc (year_from y d))"
proof (induction y d rule: year_from.induct)
  case (1 y d)
  then show ?case by (cases "days_to_year (Suc y) \<le> d") (simp_all add: year_from.simps [of y d])
qed

lemma days_to_year_le: "days_to_year y \<le> 366 * y"
  by (induction y) (simp_all add: year_length, simp add: days_to_year_def)

lemma days_to_year_mono_le: "y \<le> z \<Longrightarrow> days_to_year y \<le> days_to_year z"
  using lift_Suc_mono_le [of days_to_year y z] days_to_year_mono less_imp_le by blast

lemma days_to_month_Suc: "1 \<le> m \<Longrightarrow> days_to_month (Suc m) y = days_to_month m y + days_in m y"
  by (simp add: days_to_month_def)

lemma month_from_spec:
  "1 \<le> m \<Longrightarrow> m \<le> 12 \<Longrightarrow> days_to_month m y + d < days_to_month 13 y \<Longrightarrow> month_from m y d = (m', k) \<Longrightarrow>
     m \<le> m' \<and> m' \<le> 12 \<and> k < days_in m' y \<and> days_to_month m' y + k = days_to_month m y + d"
proof (induction m y d rule: month_from.induct)
  case (1 m y d)
  show ?case
  proof (cases "m < 12 \<and> days_in m y \<le> d")
    case True
    with 1 have "Suc m \<le> m' \<and> m' \<le> 12 \<and> k < days_in m' y \<and>
        days_to_month m' y + k = days_to_month (Suc m) y + (d - days_in m y)"
      by (simp add: month_from.simps [of m] days_to_month_Suc)
    with True 1(2) show ?thesis by (simp add: days_to_month_Suc)
  next
    case False
    then have r: "m' = m" "k = d" using 1(5) unfolding month_from.simps [of m y d] by auto
    have "m = 12 \<Longrightarrow> days_to_month 13 y = days_to_month m y + days_in m y"
      using days_to_month_Suc [of 12 y] by simp
    then have "d < days_in m y" using False 1(3,4) by (cases "m = 12") auto
    with r 1(2,3) show ?thesis by simp
  qed
qed

lemma days_to_month_1 [simp]: "days_to_month 1 y = 0" "days_to_month (Suc 0) y = 0"
  by (simp_all add: days_to_month_def)

lemma year_months: "days_to_month 13 y = (if leap y then 366 else 365)"
  by (simp add: days_to_month_def days_in_def month_days_def upt_rec numeral_eq_Suc)

lemma is_dig_char: "is_dig (digit_char (n mod 10))"
  by (simp add: is_dig_def digit_val_char)

lemma pad_digits: "c \<in> set (pad k n) \<Longrightarrow> is_dig c"
  by (induction k arbitrary: n) (auto simp: is_dig_char)


lemma strip_zeros: "rev (dropWhile (\<lambda>c. c = z) (rev xs)) @ replicate (length (takeWhile (\<lambda>c. c = z) (rev xs))) z = xs"
proof -
  have "takeWhile (\<lambda>c. c = z) (rev xs) = replicate (length (takeWhile (\<lambda>c. c = z) (rev xs))) z"
    by (intro replicate_eqI) (auto dest: set_takeWhileD)
  then have "rev (takeWhile (\<lambda>c. c = z) (rev xs)) = replicate (length (takeWhile (\<lambda>c. c = z) (rev xs))) z"
    by (metis rev_replicate)
  then show ?thesis by (metis rev_append rev_rev_ident takeWhile_dropWhile_id)
qed

lemma get_frac_text:
  assumes "ns < 1000000000"
  shows "get_frac (frac_text ns @ ''Z'') = (ns, ''Z'')"
proof -
  define ds where "ds = rev (dropWhile (\<lambda>c. c = CHR ''0'') (rev (pad 9 ns)))"
  obtain k where k: "ds @ replicate k (CHR ''0'') = pad 9 ns" using strip_zeros [of "CHR ''0''" "pad 9 ns"] ds_def by blast
  have len: "length ds + k = 9" using arg_cong [OF k, of length] by simp
  show ?thesis
  proof (cases ds)
    case Nil
    have "frac_text ns = []" using Nil by (simp add: frac_text_def ds_def)
    have "pad 9 ns = replicate 9 (CHR ''0'')" using Nil k len by simp
    moreover have "get_digits 9 0 (pad 9 ns @ []) = Some (ns, [])" using assms by (intro pad_small) simp
    ultimately have "ns = 0" by (simp add: digit_val_def)
    with \<open>frac_text ns = []\<close> show ?thesis by simp
  next
    case (Cons c cs)
    have dig: "\<forall>x \<in> set ds. is_dig x" using k pad_digits [of _ 9 ns] by (metis Un_iff set_append)
    have z: "\<not> is_dig (CHR ''Z'')" by (simp add: is_dig_def digit_val_def)
    have "takeWhile is_dig (ds @ ''Z'') = ds" "dropWhile is_dig (ds @ ''Z'') = ''Z''"
      using dig z by (simp_all add: takeWhile_append dropWhile_append)
    moreover have "frac_nanos ds = ns"
    proof -
      have "9 - length ds = k" "take 9 ds = ds" using len by simp_all
      then show ?thesis using k pad_small [of ns 9 "[]"] assms by (simp add: frac_nanos_def)
    qed
    ultimately show ?thesis using Cons dig by (simp add: frac_text_def ds_def [symmetric] Let_def)
  qed
qed

definition int64 :: "int \<Rightarrow> bool" where
  "int64 t \<longleftrightarrow> - (2 ^ 63) \<le> t \<and> t < 2 ^ 63"

lemma split_seconds:
  fixes r :: nat assumes "r < 86400"
  shows "r div 3600 < 24" "r div 60 mod 60 < 60" "r mod 60 < 60" "r div 3600 * 3600 + r div 60 mod 60 * 60 + r mod 60 = r"
proof -
  have "r = 60 * (r div 60) + r mod 60" by simp
  moreover have "r div 60 = 60 * (r div 60 div 60) + r div 60 mod 60" by simp
  moreover have "r div 60 div 60 = r div 3600" by (simp add: div_mult2_eq [symmetric])
  ultimately show "r div 3600 * 3600 + r div 60 mod 60 * 60 + r mod 60 = r" by linarith
  show "r div 3600 < 24" using assms by (simp add: div_less_iff_less_mult)
qed simp_all

lemma get_hour_pad: "h < 100 \<Longrightarrow> get_hour (pad 2 h @ s) = Some (h, s)"
  by (simp add: numeral_2_eq_2 digit_val_char mod_mult2_eq)

lemma parse_parts:
  assumes "y < 10000" "1 \<le> m" "m \<le> 12" "k < 99" "k < days_in m y" "h < 24" "mi < 60" "sc < 60" "ns < 1000000000"
  shows "parse_time (pad 4 y @ ''-'' @ pad 2 m @ ''-'' @ pad 2 (Suc k) @ ''T'' @
      pad 2 h @ '':'' @ pad 2 mi @ '':'' @ pad 2 sc @ frac_text ns @ ''Z'') =
    Some ((unix_days y m (Suc k) * 86400 + int (h * 3600 + mi * 60 + sc) - 0) * 1000000000 + int ns)"
proof -
  have "get_digits 4 0 (pad 4 y @ s) = Some (y, s)" "get_digits 2 0 (pad 2 m @ s) = Some (m, s)"
    "get_digits 2 0 (pad 2 (Suc k) @ s) = Some (Suc k, s)" "get_digits 2 0 (pad 2 mi @ s) = Some (mi, s)"
    "get_digits 2 0 (pad 2 sc @ s) = Some (sc, s)" "get_hour (pad 2 h @ s) = Some (h, s)" for s
    using assms by (auto intro!: pad_small get_hour_pad)
  with assms show ?thesis
    by (simp add: parse_time_def in_range_def get_zone_def get_frac_text del: get_digits_numeral)
qed

text \<open>Whatever instant a record holds, its text reads back as that instant.\<close>

theorem parse_FormatTime:
  assumes "int64 t"
  shows "parse_time (FormatTime t) = Some t"
proof -
  define sec where "sec = t div 1000000000"
  define ns where "ns = nat (t mod 1000000000)"
  define d where "d = nat (sec div 86400 + 719528)"
  define r where "r = nat (sec mod 86400)"
  define y where "y = year_from (d div 366) d"
  obtain m k where mk: "month_from 1 y (d - days_to_year y) = (m, k)" by fastforce
  have "- 9223372037 \<le> sec" "sec \<le> 9223372036"
    using assms unfolding int64_def sec_def by (simp_all, linarith+)
  then have dpos: "0 \<le> sec div 86400 + 719528" and dmax: "d < 1000000"
    by (simp_all add: d_def)
  have yd: "days_to_year y \<le> d" "d < days_to_year (Suc y)"
  proof -
    have "366 * (d div 366) \<le> d" by simp
    with days_to_year_le [of "d div 366"] have "days_to_year (d div 366) \<le> d" by (rule order.trans)
    then show "days_to_year y \<le> d" "d < days_to_year (Suc y)" using year_from_spec unfolding y_def by blast+
  qed
  have ymax: "y < 10000"
    using days_to_year_ge [of y] yd(1) dmax by linarith
  have doy: "d - days_to_year y < days_to_month 13 y" using yd by (simp add: year_length year_months split: if_splits)
  have mks: "1 \<le> m" "m \<le> 12" "k < days_in m y" "days_to_month m y + k = d - days_to_year y"
    using month_from_spec [OF _ _ _ mk] doy by simp_all
  have k31: "k < 31" using mks(1-3) by (auto simp: days_in_def month_days_def nth_Cons' split: if_splits)
  have rs: "r < 86400" by (simp add: r_def)
  note hms = split_seconds [OF rs]
  have ns9: "ns < 1000000000" by (simp add: ns_def)
  have whole: "(unix_days y m (Suc k) * 86400 + int (r div 3600 * 3600 + r div 60 mod 60 * 60 + r mod 60) - 0) * 1000000000 + int ns = t"
  proof -
    have "unix_days y m (Suc k) = sec div 86400"
      using mks(4) yd(1) dpos by (simp add: unix_days_def d_def)
    moreover have "int r = sec mod 86400" "int ns = t mod 1000000000" by (simp_all add: r_def ns_def)
    ultimately show ?thesis unfolding hms(4) by (simp add: sec_def)
  qed
  have shape: "FormatTime t = pad 4 y @ ''-'' @ pad 2 m @ ''-'' @ pad 2 (Suc k) @ ''T'' @
      pad 2 (r div 3600) @ '':'' @ pad 2 (r div 60 mod 60) @ '':'' @ pad 2 (r mod 60) @ frac_text ns @ ''Z''"
    using mk by (simp add: FormatTime_def sec_def ns_def d_def r_def y_def Let_def)
  show ?thesis
    unfolding shape
    by (rule parse_parts [OF ymax mks(1,2) _ mks(3) hms(1-3) ns9, THEN trans])
      (use k31 whole in \<open>simp_all del: of_nat_mult\<close>)
qed

end
