(* ===== verification/Asm_Streams.thy ===== *)
theory Asm_Streams
  imports Asm_Builder Time_Text
begin

text \<open>
  The first stages of assembly: the canonical records a round is made of and the provider bodies beside
  them (\<^verbatim>\<open>streams.go\<close>, \<^verbatim>\<open>provider.go\<close>), and the streams they belong to.
\<close>

section \<open>The bodies of the window\<close>

record win_body =
  wb_row :: nat
  wb_role :: u8
  wb_ref :: ref
  wb_prompt :: u32
  wb_previous :: u32
  wb_request :: u32
  wb_msg :: u32
  wb_joined :: bool
  wb_ambiguous :: bool

definition body_entry :: "builder \<Rightarrow> nat \<Rightarrow> entry" where
  "body_entry b i = entry_at b (unat (y_Entry (ix_Bodies (b_ix b) ! i)))"

fun bodies_from :: "builder \<Rightarrow> u32 set \<Rightarrow> nat list \<Rightarrow> win_body list" where
  "bodies_from b seen [] = []"
| "bodies_from b seen (i # is) =
    (let y = ix_Bodies (b_ix b) ! i; e = body_entry b i in
     if e_Record e = 0 \<or> e_Record e \<in> seen then bodies_from b seen is
     else \<lparr>wb_row = i, wb_role = y_Role y, wb_ref = ref_of e, wb_prompt = e_Run e, wb_previous = y_Previous y,
            wb_request = y_Request y, wb_msg = e_Call e, wb_joined = False, wb_ambiguous = False\<rparr>
          # bodies_from b (insert (e_Record e) seen) is)"

definition bodiesInWindow :: "builder \<Rightarrow> win_body list" where
  "bodiesInWindow b = bodies_from b {} [0..<length (ix_Bodies (b_ix b))]"

section \<open>Stage 1\<close>

definition beside :: "entry \<Rightarrow> bool" where
  "beside e \<longleftrightarrow> e_Kind e = KindChanges \<or> e_Kind e = KindProviderBody \<or> e_Kind e = KindExecution"

text \<open>\<open>Canonical\<close> panics on an index whose blocks name entries it does not have.\<close>

definition stage1Canonical :: "builder \<Rightarrow> builder option" where
  "stage1Canonical b =
    map_option (\<lambda>all.
      (let b = b\<lparr>b_canonical := filter (\<lambda>i. \<not> beside (entry_at b i)) all\<rparr> in
       counted (\<lambda>s. s\<lparr>st_ProviderBodies := int (length (bodiesInWindow b)),
                       st_Entries := int (length (b_canonical b)),
                       st_Duplicates := int (length (ix_Entries (b_ix b))) - int (length all)\<rparr>) b))
      (Canonical (b_ix b))"

section \<open>Stage 2\<close>

definition is_title :: "builder \<Rightarrow> entry \<Rightarrow> bool" where
  "is_title b e \<longleftrightarrow> \<not> (e_Label e = 0 \<or> e_Record e \<noteq> 0 \<or> e_Kind e = KindManifest \<or>
     (e_Kind e = KindMeta \<and> str b (e_Stream e) \<noteq> ''main''))"

definition latestTitle :: "builder \<Rightarrow> string" where
  "latestTitle b =
     foldl (\<lambda>t i. if is_title b (entry_at b i) then str b (e_Label (entry_at b i)) else t) [] (b_canonical b)"

definition labelFor :: "builder \<Rightarrow> stream_info \<Rightarrow> string" where
  "labelFor b s =
    (case find (\<lambda>i. let e = entry_at b i in e_Kind e = KindMeta \<and> e_Label e \<noteq> 0 \<and>
                    (e_Stream e = si_ID s \<or> e_Child e = si_ID s)) (b_canonical b) of
       Some i \<Rightarrow> str b (e_Label (entry_at b i)) | None \<Rightarrow> [])"

definition widen_time :: "(int \<times> int) option \<Rightarrow> int \<Rightarrow> (int \<times> int) option" where
  "widen_time r ts =
    (if ts = 0 then r
     else case r of
       None \<Rightarrow> Some (ts, ts)
     | Some (lo, hi) \<Rightarrow> Some (if ts < lo then ts else lo, if ts > hi then ts else hi))"

definition timeRange :: "builder \<Rightarrow> (string \<times> string) option" where
  "timeRange b =
    map_option (\<lambda>(lo, hi). (FormatTime lo, FormatTime hi))
      (foldl (\<lambda>r i. widen_time r (TS (entry_at b i))) None (b_canonical b))"

text \<open>The streams opened by a record that says it is a plain model call, and by one that does not.\<close>

definition opened_by :: "builder \<Rightarrow> (entry \<Rightarrow> bool) \<Rightarrow> u32 \<Rightarrow> bool" where
  "opened_by b P v \<longleftrightarrow> list_ex (\<lambda>i. let e = entry_at b i in e_Child e \<noteq> 0 \<and> e_Child e = v \<and> P e) (b_canonical b)"

definition role_of :: "builder \<Rightarrow> u32 \<Rightarrow> string" where
  "role_of b v =
    (if str b v = ''main'' then StreamMain
     else if opened_by b (\<lambda>e. Has (e_Flags e) FlagAuxiliary) v \<and> \<not> opened_by b (\<lambda>e. \<not> Has (e_Flags e) FlagAuxiliary) v
     then StreamAuxiliary else StreamChild)"

definition new_stream :: "builder \<Rightarrow> u32 \<Rightarrow> stream_info" where
  "new_stream b v = \<lparr>si_ID = v, si_Name = str b v, si_Role = role_of b v, si_NodeID = NodeID ''stream'' [str b v],
     si_Entries = [], si_First = 0, si_Last = 0\<rparr>"

definition add_entry :: "builder \<Rightarrow> nat \<Rightarrow> stream_info \<Rightarrow> stream_info" where
  "add_entry b i s =
    (let s = s\<lparr>si_Entries := si_Entries s @ [i]\<rparr>; ts = TS (entry_at b i) in
     if ts = 0 then s
     else s\<lparr>si_First := (if si_First s = 0 \<or> ts < si_First s then ts else si_First s),
            si_Last := (if ts > si_Last s then ts else si_Last s)\<rparr>)"

definition stream_entry :: "builder \<Rightarrow> stream_info list \<Rightarrow> nat \<Rightarrow> stream_info list" where
  "stream_entry b ss i =
    (let v = e_Stream (entry_at b i) in
     if v = 0 then ss
     else let ss = (if list_ex (\<lambda>s. si_ID s = v) ss then ss else ss @ [new_stream b v])
          in map (\<lambda>s. if si_ID s = v then add_entry b i s else s) ss)"

definition by_name :: "stream_info \<Rightarrow> stream_info \<Rightarrow> bool" where
  "by_name s t \<longleftrightarrow> si_Name s < si_Name t"

definition session_attrs :: "builder \<Rightarrow> attr_map" where
  "session_attrs b =
    (let a = []; t = latestTitle b;
         a = (if t \<noteq> [] then set_attr ''title'' (AStr t) a else a);
         a = (case timeRange b of
                Some (lo, hi) \<Rightarrow> set_attr ''through_time'' (AStr hi) (set_attr ''from_time'' (AStr lo) a)
              | None \<Rightarrow> a)
     in if st_ProviderBodies (b_stats b) > 0
        then set_attr ''provider_bodies_landed'' (ANum (st_ProviderBodies (b_stats b))) a else a)"

definition stream_attrs :: "builder \<Rightarrow> stream_info \<Rightarrow> attr_map" where
  "stream_attrs b s =
    (let a = set_attr ''records'' (ANum (int (length (si_Entries s)))) (set_attr ''role'' (AStr (si_Role s)) []);
         l = labelFor b s
     in if l \<noteq> [] then set_attr ''label'' (AStr l) a else a)"

definition session_node :: "builder \<Rightarrow> string" where
  "session_node b = NodeID ''session'' [op_Session (b_opt b)]"

definition stream_node :: "stream_info \<Rightarrow> builder \<Rightarrow> builder" where
  "stream_node s b =
     node (mk_node (si_NodeID s) KindStream (session_node b) (si_Name s)
       (Some (ref_of (entry_at b (hd (si_Entries s))))) [] (stream_attrs b s)) b"

definition stage2Streams :: "builder \<Rightarrow> builder" where
  "stage2Streams b =
    (let b = node (mk_node (session_node b) KindSession [] [] None [] (session_attrs b)) b;
         b = b\<lparr>b_streams := sort_by by_name (foldl (stream_entry b) [] (b_canonical b))\<rparr>;
         b = fold stream_node (b_streams b) b
     in counted (\<lambda>s. s\<lparr>st_Streams := int (length (b_streams b))\<rparr>) b)"

end
