(* ===== verification/Asm_Calls.thy ===== *)
theory Asm_Calls
  imports Asm_Streams
begin

text \<open>
  Stages 3 to 5 of assembly: provider calls grouped from their fragments (\<^verbatim>\<open>calls.go\<close>), tool uses joined to
  their results (\<^verbatim>\<open>tools.go\<close>), and child streams joined to the calls that started them (\<^verbatim>\<open>spawn.go\<close>).
\<close>

section \<open>Stage 3\<close>

definition add_fragment :: "builder \<Rightarrow> stream_info \<Rightarrow> provider_call list \<Rightarrow> nat \<Rightarrow> provider_call list" where
  "add_fragment b s cs i =
    (let e = entry_at b i in
     if e_Kind e \<noteq> KindAssistant \<or> e_Call e = 0 then cs
     else
       let cs = (if list_ex (\<lambda>c. pc_CallID c = e_Call e) cs then cs
                 else cs @ [\<lparr>pc_CallID = e_Call e, pc_Stream = s, pc_Fragments = [], pc_Finished = False,
                             pc_Synthetic = False, pc_NodeID = NodeID ''call'' [str b (e_Call e)]\<rparr>])
       in map (\<lambda>c. if pc_CallID c = e_Call e
                   then c\<lparr>pc_Fragments := pc_Fragments c @ [i],
                          pc_Synthetic := (pc_Synthetic c \<or> Has (e_Flags e) FlagSynthetic),
                          pc_Finished := (pc_Finished c \<or> Has (e_Flags e) FlagStopReason)\<rparr>
                   else c) cs)"

definition group_calls :: "builder \<Rightarrow> provider_call list" where
  "group_calls b = foldl (\<lambda>cs s. foldl (add_fragment b s) cs (si_Entries s)) [] (b_streams b)"

definition by_place :: "builder \<Rightarrow> nat \<Rightarrow> nat \<Rightarrow> bool" where
  "by_place b i j \<longleftrightarrow> before_landed (entry_at b i) (entry_at b j)"

definition sorted_call :: "builder \<Rightarrow> provider_call \<Rightarrow> provider_call" where
  "sorted_call b c = c\<lparr>pc_Fragments := sort_by (by_place b) (pc_Fragments c)\<rparr>"

definition call_stats :: "provider_call \<Rightarrow> asm_stats \<Rightarrow> asm_stats" where
  "call_stats c s =
    (let s = s\<lparr>st_CallFragments := st_CallFragments s + int (length (pc_Fragments c))\<rparr>;
         s = (if pc_Synthetic c then s\<lparr>st_SyntheticMessages := st_SyntheticMessages s + 1\<rparr> else s)
     in if \<not> pc_Finished c then s\<lparr>st_CallsWithoutEnd := st_CallsWithoutEnd s + 1\<rparr> else s)"

definition stage3Calls :: "builder \<Rightarrow> builder" where
  "stage3Calls b =
    (let cs = map (sorted_call b) (sort_by (\<lambda>c d. pc_NodeID c < pc_NodeID d) (group_calls b));
         b = b\<lparr>b_calls := cs\<rparr>
     in counted (\<lambda>s. (fold call_stats cs s)\<lparr>st_ProviderCalls := int (length cs)\<rparr>) b)"

text \<open>\<open>Last\<close>\<close>

definition last_fragment :: "provider_call \<Rightarrow> nat option" where
  "last_fragment c = (if pc_Fragments c = [] then None else Some (last (pc_Fragments c)))"

section \<open>Stage 4\<close>

definition add_block :: "builder \<Rightarrow> stream_info \<Rightarrow> nat \<Rightarrow> tool_use list \<Rightarrow> block \<Rightarrow> tool_use list" where
  "add_block b s i ts k =
    (if k_ToolID k = 0 then ts
     else
       let ts = (if list_ex (\<lambda>t. tu_ToolID t = k_ToolID k) ts then ts
                 else ts @ [\<lparr>tu_ToolID = k_ToolID k, tu_Name = [], tu_Server = [], tu_ServerTool = [], tu_Use = None,
                             tu_UseOrd = 0, tu_Result = None, tu_ResOrd = 0, tu_Stream = s,
                             tu_NodeID = NodeID ''tool'' [str b (k_ToolID k)], tu_Ambiguous = False,
                             tu_StartsAgent = False\<rparr>])
       in map (\<lambda>t. if tu_ToolID t \<noteq> k_ToolID k then t
                   else if k_Kind k = BlockToolUse then
                     (if tu_Use t = None
                      then t\<lparr>tu_Use := Some i, tu_UseOrd := k_Ord k, tu_Name := str b (k_Name k),
                             tu_Server := str b (k_Server k), tu_ServerTool := str b (k_ServerTool k)\<rparr>
                      else t)
                   else if k_Kind k = BlockToolResult then
                     (if tu_Result t \<noteq> None then t\<lparr>tu_Ambiguous := True\<rparr>
                      else t\<lparr>tu_Result := Some i, tu_ResOrd := k_Ord k\<rparr>)
                   else t) ts)"

definition join_tools :: "builder \<Rightarrow> tool_use list" where
  "join_tools b =
     foldl (\<lambda>ts s. foldl (\<lambda>ts i. foldl (add_block b s i) ts (blocks_at b (entry_at b i))) ts (si_Entries s))
       [] (b_streams b)"

definition check_tool :: "tool_use \<Rightarrow> builder \<Rightarrow> builder" where
  "check_tool t b =
    (if tu_Use t = None
     then open_ref ''tool_use'' (str b (tu_ToolID t)) ''a result arrived for a request that was never landed'' b
     else
       let b = counted (\<lambda>s. s\<lparr>st_ToolUses := st_ToolUses s + 1\<rparr>) b in
       if tu_Ambiguous t then
         open_ref ''tool_result'' (str b (tu_ToolID t)) ''several results carry this tool-use id''
           (counted (\<lambda>s. s\<lparr>st_ToolsUnmatched := st_ToolsUnmatched s + 1\<rparr>) b)
       else if tu_Result t \<noteq> None then counted (\<lambda>s. s\<lparr>st_ToolsResolved := st_ToolsResolved s + 1\<rparr>) b
       else
         open_ref ''tool_result'' (str b (tu_ToolID t)) ''no result landed for this tool use''
           (counted (\<lambda>s. s\<lparr>st_ToolsUnmatched := st_ToolsUnmatched s + 1\<rparr>) b))"

definition stage4Tools :: "builder \<Rightarrow> builder" where
  "stage4Tools b =
    (let ts = sort_by (\<lambda>t u. tu_NodeID t < tu_NodeID u) (join_tools b)
     in fold check_tool ts (b\<lparr>b_tools := ts\<rparr>))"

definition tool_by :: "builder \<Rightarrow> u32 \<Rightarrow> tool_use option" where
  "tool_by b v = find (\<lambda>t. tu_ToolID t = v) (b_tools b)"

section \<open>Stage 5\<close>

text \<open>The tool that launched each batch of children: the first result that names the batch.\<close>

definition result_block :: "block \<Rightarrow> bool" where
  "result_block k \<longleftrightarrow> k_Kind k = BlockToolResult \<and> k_ToolID k \<noteq> 0"

definition batch_entry :: "builder \<Rightarrow> (u32 \<Rightarrow> u32 option) \<Rightarrow> nat \<Rightarrow> (u32 \<Rightarrow> u32 option)" where
  "batch_entry b m i =
    (let e = entry_at b i in
     if e_Batch e = 0 \<or> e_Kind e = KindJournal then m
     else case find result_block (blocks_at b e) of
       Some k \<Rightarrow> if m (e_Batch e) = None then m(e_Batch e \<mapsto> k_ToolID k) else m
     | None \<Rightarrow> m)"

definition batchTool :: "builder \<Rightarrow> u32 \<Rightarrow> u32" where
  "batchTool b v = (case foldl (batch_entry b) (\<lambda>_. None) (b_canonical b) v of Some t \<Rightarrow> t | None \<Rightarrow> 0)"

definition edge_of :: "builder \<Rightarrow> nat \<Rightarrow> spawn_edge option" where
  "edge_of b i =
    (let e = entry_at b i in
     if e_Child e = 0 then None
     else
       let anchor = (if e_Tool e \<noteq> 0 then e_Tool e
                     else case find result_block (blocks_at b e) of Some k \<Rightarrow> k_ToolID k | None \<Rightarrow> 0);
           ed = \<lparr>se_Tool = anchor, se_Batch = 0, se_Parent = 0, se_Stream = e_Child e,
                 se_Via = ''parent tool result'', se_Quality = ExactUnique, se_Ref = ref_of e\<rparr>
       in Some (if e_Kind e = KindJournal then
                  ed\<lparr>se_Tool := batchTool b (e_Batch e), se_Batch := e_Batch e, se_Via := ''run journal'',
                     se_Quality := StrongInference\<rparr>
                else if e_Kind e = KindMeta then ed\<lparr>se_Parent := e_StartedBy e, se_Via := ''child sidecar''\<rparr>
                else if e_Trigger e = TriggerNotification then ed\<lparr>se_Via := ''completion notification''\<rparr>
                else ed))"

definition edge_key :: "spawn_edge \<Rightarrow> u32 \<times> u32 \<times> u32 \<times> u32" where
  "edge_key ed = (se_Tool ed, se_Batch ed, se_Parent ed, se_Stream ed)"

definition add_edge :: "spawn_edge list \<Rightarrow> spawn_edge \<Rightarrow> spawn_edge list" where
  "add_edge edges ed =
    (if se_Stream ed = 0 \<or> (se_Tool ed = 0 \<and> se_Batch ed = 0 \<and> se_Parent ed = 0) then edges
     else if edge_key ed \<in> set (map edge_key edges) then edges
     else edges @ [ed])"

definition edge_before :: "builder \<Rightarrow> spawn_edge \<Rightarrow> spawn_edge \<Rightarrow> bool" where
  "edge_before b x y \<longleftrightarrow>
    (if se_Stream x \<noteq> se_Stream y then str b (se_Stream x) < str b (se_Stream y)
     else if se_Tool x \<noteq> se_Tool y then str b (se_Tool x) < str b (se_Tool y)
     else str b (se_Batch x) < str b (se_Batch y))"

definition spawn_edges :: "builder \<Rightarrow> spawn_edge list" where
  "spawn_edges b = sort_by (edge_before b) (foldl add_edge [] (List.map_filter (edge_of b) (b_canonical b)))"

text \<open>\<open>markAgentCall\<close>\<close>

definition markAgentCall :: "u32 \<Rightarrow> builder \<Rightarrow> builder" where
  "markAgentCall v b =
     b\<lparr>b_tools := map (\<lambda>t. if tu_ToolID t = v then t\<lparr>tu_StartsAgent := True\<rparr> else t) (b_tools b)\<rparr>"

text \<open>One edge, with the streams something has named so far.\<close>

definition spawn_resolved :: "spawn_edge \<Rightarrow> builder \<Rightarrow> builder" where
  "spawn_resolved ed b =
     counted (\<lambda>s. s\<lparr>st_SpawnsResolved := st_SpawnsResolved s + 1\<rparr>) (b\<lparr>b_spawnEdges := b_spawnEdges b @ [ed]\<rparr>)"

definition resolve_edge :: "spawn_edge \<Rightarrow> builder \<times> u32 set \<Rightarrow> builder \<times> u32 set" where
  "resolve_edge ed st =
    (case st of (b, spawned) \<Rightarrow>
      if stream_by b (se_Stream ed) = None
      then (open_ref ''child_stream'' (str b (se_Stream ed)) ''announced, but no transcript has landed yet'' b, spawned)
      else
        let b = counted (\<lambda>s. s\<lparr>st_Spawns := st_Spawns s + 1\<rparr>) b;
            b = (if se_Parent ed \<noteq> 0
                 then b\<lparr>b_startedBy := (b_startedBy b)(se_Stream ed := b_startedBy b (se_Stream ed) @ [se_Parent ed])\<rparr>
                 else b)
        in if se_Tool ed = 0 \<and> se_Parent ed \<noteq> 0 \<and> stream_by b (se_Parent ed) \<noteq> None
           then (spawn_resolved ed b, insert (se_Stream ed) spawned)
           else if se_Tool ed = 0
           then (open_ref ''spawn_call'' (str b (se_Batch ed))
                   ''a batch names children but its launch call was never landed'' b, spawned)
           else if tool_by b (se_Tool ed) = None
           then (open_ref ''spawn_call'' (str b (se_Tool ed)) ''a child names a call that was never landed'' b, spawned)
           else
             let b = (case stream_by b (se_Stream ed) of
                        Some s \<Rightarrow> if si_Role s = StreamAuxiliary then b else markAgentCall (se_Tool ed) b
                      | None \<Rightarrow> markAgentCall (se_Tool ed) b)
             in (spawn_resolved ed b, insert (se_Stream ed) spawned))"

definition orphan :: "u32 set \<Rightarrow> stream_info \<Rightarrow> builder \<Rightarrow> builder" where
  "orphan spawned s b =
    (if si_Role s \<noteq> StreamMain \<and> si_ID s \<notin> spawned
     then open_ref ''spawn_of_child'' (si_Name s) ''no landed record names the call that started this stream''
            (counted (\<lambda>s. s\<lparr>st_ChildrenOrphan := st_ChildrenOrphan s + 1\<rparr>) b)
     else b)"

definition stage5Spawns :: "builder \<Rightarrow> builder" where
  "stage5Spawns b =
    (case fold resolve_edge (spawn_edges b) (b\<lparr>b_startedBy := (\<lambda>_. [])\<rparr>, {}) of
       (b, spawned) \<Rightarrow> fold (orphan spawned) (b_streams b) b)"

end
