(* ===== verification/Asm_Talks.thy ===== *)
theory Asm_Talks
  imports Asm_Calls
begin

text \<open>
  Stages 6 to 8 of assembly: the context epochs of each stream (\<^verbatim>\<open>epoch.go\<close>), the talks and runs its records
  belong to and the container of each record (\<^verbatim>\<open>talk.go\<close>), and the activity windows of the main stream
  (\<^verbatim>\<open>segment.go\<close>).
\<close>

section \<open>Stage 6\<close>

definition cuts_of :: "builder \<Rightarrow> nat list \<Rightarrow> nat list" where
  "cuts_of b es = filter (\<lambda>k. Has (e_Flags (entry_at b (es ! k))) FlagEpochBoundary) [0..<length es]"

text \<open>\<open>firstBoundary\<close>\<close>

definition firstBoundary :: "nat \<Rightarrow> nat list \<Rightarrow> nat option" where
  "firstBoundary start cuts = find (\<lambda>c. c = start) cuts"

definition epoch_id :: "builder \<Rightarrow> stream_info \<Rightarrow> nat option \<Rightarrow> string" where
  "epoch_id b s boundary =
    (case boundary of
       None \<Rightarrow> NodeID ''epoch'' [si_Name s, ''0'']
     | Some i \<Rightarrow>
        (let e = entry_at b i; record = str b (e_Record e) in
         if record \<noteq> [] then NodeID ''epoch'' [si_Name s, ''id'', record]
         else LocatedID ''epoch'' (ref_of e) [si_Name s, ''at'']))"

definition landed_record :: "builder \<Rightarrow> string \<Rightarrow> bool" where
  "landed_record b rid = (case EntryByRecord (b_ix b) rid of Some (Some _) \<Rightarrow> True | _ \<Rightarrow> False)"

definition emit_epoch :: "stream_info \<Rightarrow> nat list \<Rightarrow> nat list \<Rightarrow> nat \<Rightarrow> nat \<Rightarrow> string \<Rightarrow> builder \<Rightarrow> builder" where
  "emit_epoch s es cuts start fin prev b =
    (let boundary = map_option (\<lambda>k. es ! k) (firstBoundary start cuts);
         ident = epoch_id b s boundary;
         ep = \<lparr>ep_NodeID = ident, ep_Stream = si_ID s, ep_Boundary = boundary, ep_Start = start, ep_End = fin\<rparr>;
         b = b\<lparr>b_epochs := b_epochs b @ [ep],
               b_epochAt := fold (\<lambda>k m. m(place_of (entry_at b (es ! k)) \<mapsto> ident)) [start..<fin] (b_epochAt b)\<rparr>;
         (a, refs, b) =
           (case boundary of
              None \<Rightarrow> (set_attr ''reset'' (AStr ''none'') [], [], b)
            | Some i \<Rightarrow>
               (let e = entry_at b i; a = set_attr ''reset'' (AStr ObservedReplayable) []; refs = [ref_of e] in
                if e_Continues e = 0 then (a, refs, b)
                else let cont = str b (e_Continues e); a = set_attr ''continues_from'' (AStr cont) a in
                  if landed_record b cont then (a, refs, b)
                  else (a, refs, open_ref ''epoch_continuation'' cont
                          ''a reset names a record that is not in the landed data'' b)));
         b = node (mk_node ident KindEpoch (si_NodeID s) (si_Name s)
               (Some (ref_of (entry_at b (es ! start)))) refs a) b;
         b = (if prev \<noteq> [] then relate RelFollows ident prev ExactUnique ''explicit context reset'' refs b else b)
     in counted (\<lambda>s. s\<lparr>st_Epochs := st_Epochs s + 1\<rparr>) b)"

fun emit_epochs :: "stream_info \<Rightarrow> nat list \<Rightarrow> nat list \<Rightarrow> nat list \<Rightarrow> nat \<Rightarrow> string \<Rightarrow> builder \<Rightarrow> builder" where
  "emit_epochs s es cuts [] start prev b = emit_epoch s es cuts start (length es) prev b"
| "emit_epochs s es cuts (c # cs) start prev b =
    (if c = start then emit_epochs s es cuts cs start prev b
     else emit_epochs s es cuts cs c (epoch_id b s (map_option (\<lambda>k. es ! k) (firstBoundary start cuts)))
            (emit_epoch s es cuts start c prev b))"

definition stream_epochs :: "stream_info \<Rightarrow> builder \<Rightarrow> builder" where
  "stream_epochs s b =
    (let cuts = cuts_of b (si_Entries s) in emit_epochs s (si_Entries s) cuts cuts 0 [] b)"

definition stage6Epochs :: "builder \<Rightarrow> builder" where
  "stage6Epochs b = fold stream_epochs (b_streams b) (b\<lparr>b_epochAt := (\<lambda>_. None)\<rparr>)"

definition epochs_of :: "builder \<Rightarrow> stream_info \<Rightarrow> epoch list" where
  "epochs_of b s = filter (\<lambda>ep. ep_Stream ep = si_ID s) (b_epochs b)"

text \<open>\<open>epochOf\<close>\<close>

definition epochOf :: "builder \<Rightarrow> entry \<Rightarrow> string" where
  "epochOf b e =
    (case b_epochAt b (place_of e) of
       Some i \<Rightarrow> i
     | None \<Rightarrow> (case stream_by b (e_Stream e) of Some s \<Rightarrow> si_NodeID s | None \<Rightarrow> []))"

section \<open>Stage 7\<close>

text \<open>\<open>runFor\<close>\<close>

definition runFor :: "builder \<Rightarrow> nat \<Rightarrow> u32" where
  "runFor b i =
    (if e_Run (entry_at b i) \<noteq> 0 then e_Run (entry_at b i)
     else case RunOf (b_ix b) i of Some (Some a) \<Rightarrow> e_Run (entry_at b a) | _ \<Rightarrow> 0)"

text \<open>\<open>startsTalk\<close>: a run whose records state a trigger from outside, or none at all.\<close>

definition triggers :: "builder \<Rightarrow> u32 \<Rightarrow> stream_info \<Rightarrow> u8 list" where
  "triggers b cyc s =
     filter (\<lambda>t. t \<noteq> TriggerNone)
       (map (\<lambda>i. e_Trigger (entry_at b i)) (filter (\<lambda>i. e_Run (entry_at b i) = cyc) (si_Entries s)))"

definition startsTalk :: "builder \<Rightarrow> u32 \<Rightarrow> stream_info \<Rightarrow> bool" where
  "startsTalk b cyc s \<longleftrightarrow>
     si_Role s = StreamMain \<and> (TriggerExternal \<in> set (triggers b cyc s) \<or> triggers b cyc s = [])"

definition talk_by :: "builder \<Rightarrow> string \<Rightarrow> talk option" where
  "talk_by b ident = find (\<lambda>t. tk_NodeID t = ident) (b_talks b)"

definition update_talk :: "string \<Rightarrow> (talk \<Rightarrow> talk) \<Rightarrow> builder \<Rightarrow> builder" where
  "update_talk ident f b = b\<lparr>b_talks := map (\<lambda>t. if tk_NodeID t = ident then f t else t) (b_talks b)\<rparr>"

definition earlier_ref :: "ref \<Rightarrow> ref \<Rightarrow> bool" where
  "earlier_ref r a \<longleftrightarrow> r_Seq r < r_Seq a \<or> (r_Seq r = r_Seq a \<and> r_Row r < r_Row a)"

text \<open>\<open>mark\<close>\<close>

definition mark :: "ref \<Rightarrow> talk \<Rightarrow> talk" where
  "mark r t =
    (case tk_At t of
       None \<Rightarrow> t\<lparr>tk_At := Some r\<rparr>
     | Some a \<Rightarrow> if earlier_ref r a then t\<lparr>tk_At := Some r\<rparr> else t)"

definition newTalkKeyed :: "stream_info \<Rightarrow> epoch option \<Rightarrow> string \<Rightarrow> builder \<Rightarrow> builder" where
  "newTalkKeyed s ep ident b =
    (if talk_by b ident \<noteq> None then b
     else counted (\<lambda>s. s\<lparr>st_Talks := st_Talks s + 1\<rparr>)
       (b\<lparr>b_talks := b_talks b @ [\<lparr>tk_NodeID = ident, tk_Stream = s, tk_Epoch = ep, tk_Runs = [], tk_Emitted = [],
            tk_First = 0, tk_Last = 0, tk_At = None\<rparr>]\<rparr>))"

definition add_run :: "stream_info \<Rightarrow> u32 \<Rightarrow> string \<Rightarrow> builder \<Rightarrow> builder" where
  "add_run s cyc ident b =
    (let b = update_talk ident (\<lambda>t. t\<lparr>tk_Runs := tk_Runs t @ [cyc]\<rparr>) b
     in b\<lparr>b_talkOfRun := (b_talkOfRun b)((si_ID s, cyc) \<mapsto> ident)\<rparr>)"

definition talk_id :: "builder \<Rightarrow> stream_info \<Rightarrow> u32 \<Rightarrow> string" where
  "talk_id b s cyc = NodeID ''talk'' [si_Name s, str b cyc]"

definition newTalk :: "stream_info \<Rightarrow> epoch \<Rightarrow> u32 \<Rightarrow> builder \<Rightarrow> builder" where
  "newTalk s ep cyc b = add_run s cyc (talk_id b s cyc) (newTalkKeyed s (Some ep) (talk_id b s cyc) b)"

definition newRun :: "string \<Rightarrow> stream_info \<Rightarrow> u32 \<Rightarrow> builder \<Rightarrow> builder" where
  "newRun ident s cyc b =
    (if b_runNode b (si_ID s, cyc) \<noteq> None then b
     else
       let b = b\<lparr>b_runNode := (b_runNode b)((si_ID s, cyc) \<mapsto> NodeIDIn ''run'' ident [str b cyc])\<rparr>;
           b = update_talk ident (\<lambda>t. t\<lparr>tk_Emitted := tk_Emitted t @ [cyc]\<rparr>) b
       in counted (\<lambda>s. s\<lparr>st_Runs := st_Runs s + 1\<rparr>) b)"

text \<open>\<open>place\<close>: the run, or the talk, or the epoch.\<close>

definition place_in :: "builder \<Rightarrow> u32 \<Rightarrow> string option \<Rightarrow> epoch \<Rightarrow> stream_info \<Rightarrow> string" where
  "place_in b cyc cur ep s =
    (case cur of
       Some t \<Rightarrow> (if cyc = 0 then t else case b_runNode b (si_ID s, cyc) of Some r \<Rightarrow> r | None \<Rightarrow> t)
     | None \<Rightarrow> ep_NodeID ep)"

definition put_in :: "nat \<Rightarrow> u32 \<Rightarrow> string option \<Rightarrow> epoch \<Rightarrow> stream_info \<Rightarrow> builder \<Rightarrow> builder" where
  "put_in i cyc cur ep s b =
    b\<lparr>b_container := (b_container b)(place_of (entry_at b i) \<mapsto> place_in b cyc cur ep s)\<rparr>"

definition see_time :: "int \<Rightarrow> talk \<Rightarrow> talk" where
  "see_time ts t =
    (if ts = 0 then t
     else t\<lparr>tk_First := (if tk_First t = 0 \<or> ts < tk_First t then ts else tk_First t),
            tk_Last := (if ts > tk_Last t then ts else tk_Last t)\<rparr>)"

definition see_run :: "run_key \<Rightarrow> ref \<Rightarrow> builder \<Rightarrow> builder" where
  "see_run k r b =
    (case b_runAt b k of
       Some a \<Rightarrow> if earlier_ref r a then b\<lparr>b_runAt := (b_runAt b)(k \<mapsto> r)\<rparr> else b
     | None \<Rightarrow> b\<lparr>b_runAt := (b_runAt b)(k \<mapsto> r)\<rparr>)"

text \<open>The run of a record met for the first time: a talk of its own, or one more of the talk in progress.\<close>

definition open_run :: "stream_info \<Rightarrow> epoch \<Rightarrow> u32 \<Rightarrow> string option \<times> builder \<Rightarrow> string option \<times> builder" where
  "open_run s ep cyc st =
    (case st of (cur, b) \<Rightarrow>
      if b_talkOfRun b (si_ID s, cyc) \<noteq> None then (cur, b)
      else case cur of
        Some c \<Rightarrow>
          if startsTalk b cyc s
          then (Some (talk_id b s cyc), newRun (talk_id b s cyc) s cyc (newTalk s ep cyc b))
          else (cur, newRun c s cyc (add_run s cyc c b))
      | None \<Rightarrow> (Some (talk_id b s cyc), newRun (talk_id b s cyc) s cyc (newTalk s ep cyc b)))"

definition talk_step :: "stream_info \<Rightarrow> epoch \<Rightarrow> nat \<Rightarrow> string option \<times> builder \<Rightarrow> string option \<times> builder" where
  "talk_step s ep i st =
    (let cyc = runFor (snd st) i in
     if cyc = 0 then
       (case st of (cur, b) \<Rightarrow>
          let b = put_in i cyc cur ep s b
          in (cur, case cur of Some c \<Rightarrow> update_talk c (mark (ref_of (entry_at b i))) b | None \<Rightarrow> b))
     else
       (case open_run s ep cyc st of (cur, b) \<Rightarrow>
          let t = b_talkOfRun b (si_ID s, cyc);
              b = put_in i cyc t ep s b;
              e = entry_at b i;
              b = (case t of Some c \<Rightarrow> update_talk c (mark (ref_of e)) b | None \<Rightarrow> b);
              b = see_run (si_ID s, cyc) (ref_of e) b
          in (cur, case t of Some c \<Rightarrow> update_talk c (see_time (TS e)) b | None \<Rightarrow> b)))"

definition epoch_talks :: "stream_info \<Rightarrow> epoch \<Rightarrow> string option \<times> builder \<Rightarrow> string option \<times> builder" where
  "epoch_talks s ep st = fold (talk_step s ep) (map (\<lambda>k. si_Entries s ! k) [ep_Start ep..<ep_End ep]) st"

definition stream_talks :: "stream_info \<Rightarrow> builder \<Rightarrow> builder" where
  "stream_talks s b =
    (if si_Entries s = [] then b
     else
       let eps = epochs_of b s;
           child = NodeID ''talk'' [si_Name s];
           (cur, b) =
             (if si_Role s = StreamMain then (None, b)
              else (Some child, update_talk child (mark (ref_of (entry_at b (hd (si_Entries s)))))
                     (newTalkKeyed s (Some (hd eps)) child b)))
       in snd (fold (epoch_talks s) eps (cur, b)))"

definition run_node :: "talk \<Rightarrow> u32 \<Rightarrow> builder \<Rightarrow> builder" where
  "run_node t cyc b =
    (case b_runNode b (si_ID (tk_Stream t), cyc) of
       None \<Rightarrow> b
     | Some ident \<Rightarrow>
        node (mk_node ident KindRun (tk_NodeID t) (si_Name (tk_Stream t))
          (Some (case b_runAt b (si_ID (tk_Stream t), cyc) of Some r \<Rightarrow> r | None \<Rightarrow> zero_ref)) [] []) b)"

definition talk_node :: "talk \<Rightarrow> builder \<Rightarrow> builder" where
  "talk_node t b =
    (let parent = (case tk_Epoch t of Some ep \<Rightarrow> ep_NodeID ep | None \<Rightarrow> si_NodeID (tk_Stream t));
         b = node (mk_node (tk_NodeID t) KindTalk parent (si_Name (tk_Stream t))
               (Some (case tk_At t of Some r \<Rightarrow> r | None \<Rightarrow> zero_ref)) [] []) b
     in fold (run_node t) (tk_Emitted t) b)"

definition emitTalks :: "builder \<Rightarrow> builder" where
  "emitTalks b = fold talk_node (b_talks b) b"

definition stage7Talks :: "builder \<Rightarrow> builder" where
  "stage7Talks b =
    (let b = fold stream_talks (b_streams b) (b\<lparr>b_container := (\<lambda>_. None)\<rparr>);
         b = emitTalks b
     in counted (\<lambda>s. s\<lparr>st_Talks := int (length (b_talks b))\<rparr>) b)"

text \<open>\<open>containerOf\<close>\<close>

definition containerOf :: "builder \<Rightarrow> entry \<Rightarrow> string" where
  "containerOf b e =
    (case b_container b (place_of e) of
       Some i \<Rightarrow> i
     | None \<Rightarrow> (case stream_by b (e_Stream e) of Some s \<Rightarrow> si_NodeID s | None \<Rightarrow> session_node b))"

section \<open>Stage 8\<close>

definition wrap64 :: "int \<Rightarrow> int" where
  "wrap64 x = sint (word_of_int x :: u64)"

definition talk_at :: "talk \<Rightarrow> ref" where
  "talk_at t = (case tk_At t of Some r \<Rightarrow> r | None \<Rightarrow> zero_ref)"

definition empty_window :: window where
  "empty_window = \<lparr>sg_NodeID = [], sg_Talks = [], sg_From = 0, sg_To = 0\<rparr>"

definition flush_window :: "window \<Rightarrow> window list \<Rightarrow> window list" where
  "flush_window cur out =
    (if sg_Talks cur = [] then out
     else out @ [cur\<lparr>sg_NodeID := LocatedID ''segment'' (talk_at (hd (sg_Talks cur))) [''at'']\<rparr>])"

definition in_window :: "talk \<Rightarrow> window \<Rightarrow> window" where
  "in_window t cur =
    cur\<lparr>sg_From := (if sg_From cur = 0 \<or> (tk_First t \<noteq> 0 \<and> tk_First t < sg_From cur) then tk_First t else sg_From cur),
        sg_To := (if tk_Last t > sg_To cur then tk_Last t else sg_To cur),
        sg_Talks := sg_Talks cur @ [t]\<rparr>"

definition quiet :: "int \<Rightarrow> talk \<Rightarrow> talk \<Rightarrow> bool" where
  "quiet gap p t \<longleftrightarrow> tk_First t \<noteq> 0 \<and> tk_Last p \<noteq> 0 \<and> wrap64 (tk_First t - tk_Last p) > gap"

fun cut_windows :: "int \<Rightarrow> talk option \<Rightarrow> talk list \<Rightarrow> window \<Rightarrow> window list \<Rightarrow> window list" where
  "cut_windows gap prev [] cur out = flush_window cur out"
| "cut_windows gap prev (t # ts) cur out =
    (if (case prev of Some p \<Rightarrow> quiet gap p t | None \<Rightarrow> False)
     then cut_windows gap (Some t) ts (in_window t empty_window) (flush_window cur out)
     else cut_windows gap (Some t) ts (in_window t cur) out)"

definition main_talks :: "builder \<Rightarrow> stream_info \<Rightarrow> talk list" where
  "main_talks b m = filter (\<lambda>t. si_ID (tk_Stream t) = si_ID m) (b_talks b)"

definition windows_of :: "builder \<Rightarrow> stream_info \<Rightarrow> window list" where
  "windows_of b m =
     cut_windows (op_IdleGap (b_opt b)) None (sort_by (\<lambda>t u. tk_First t < tk_First u) (main_talks b m)) empty_window []"

definition window_node :: "window \<Rightarrow> builder \<Rightarrow> builder" where
  "window_node sg b =
    (let b = node (mk_node (sg_NodeID sg) KindSegment (session_node b) [] (Some (talk_at (hd (sg_Talks sg)))) [] []) b;
         b = fold (\<lambda>t. relate RelInSegment (tk_NodeID t) (sg_NodeID sg) ExactUnique ''activity window'' [talk_at t])
               (sg_Talks sg) b
     in fold (\<lambda>t b. if si_Role (tk_Stream t) = StreamMain \<or> tk_First t = 0 then b
                     else if tk_First t \<ge> sg_From sg \<and> tk_First t \<le> sg_To sg
                     then relate RelInSegment (tk_NodeID t) (sg_NodeID sg) StrongInference
                            ''inside the window of the talk that delegated it'' [talk_at t] b
                     else b) (b_talks b) b)"

definition stage8Segments :: "builder \<Rightarrow> builder" where
  "stage8Segments b =
    (case mainStream b of
       None \<Rightarrow> b
     | Some m \<Rightarrow>
        if main_talks b m = [] then b
        else let b = b\<lparr>b_segments := b_segments b @ windows_of b m\<rparr>
             in fold window_node (b_segments b) b)"

end
