(* ===== verification/Asm_Bodies.thy ===== *)
theory Asm_Bodies
  imports Asm_Talks
begin

text \<open>
  Provider bodies joined to the calls they belong to, \<^verbatim>\<open>internal/assemble/provider.go\<close>: by the message id a
  body names, and for a request that names no call by the request before it and its prompt, when exactly one
  request and one call carry the two.
\<close>

section \<open>The calls\<close>

record line_call =
  lc_node :: string
  lc_streamName :: string
  lc_stream :: u32
  lc_msg :: u32
  lc_prompt :: u32
  lc_at :: place

text \<open>\<open>entryAt\<close>: the first entry at a landed position.\<close>

definition entryAt :: "builder \<Rightarrow> ref \<Rightarrow> entry option" where
  "entryAt b r = find (\<lambda>e. place_of e = (ucast (r_Seq r), ucast (r_Row r))) (ix_Entries (b_ix b))"

definition promptOf :: "builder \<Rightarrow> entry \<Rightarrow> u32" where
  "promptOf b first =
    (case get_by_id (containerOf b first) (b_nodes b) of
       None \<Rightarrow> 0
     | Some n \<Rightarrow>
        if n_Kind n \<noteq> KindRun then 0
        else case n_Ref n of None \<Rightarrow> 0
        | Some r \<Rightarrow> (case entryAt b r of Some e \<Rightarrow> e_Run e | None \<Rightarrow> 0))"

definition line_call_of :: "builder \<Rightarrow> provider_call \<Rightarrow> line_call option" where
  "line_call_of b c =
    (if pc_Synthetic c \<or> pc_Fragments c = [] then None
     else let e = entry_at b (hd (pc_Fragments c)) in
       Some \<lparr>lc_node = pc_NodeID c, lc_streamName = si_Name (pc_Stream c), lc_stream = e_Stream e, lc_msg = pc_CallID c,
             lc_prompt = promptOf b e, lc_at = place_of e\<rparr>)"

definition line_before :: "line_call \<Rightarrow> line_call \<Rightarrow> bool" where
  "line_before k l \<longleftrightarrow>
    (if lc_streamName k \<noteq> lc_streamName l then lc_streamName k < lc_streamName l
     else if fst (lc_at k) \<noteq> fst (lc_at l) then fst (lc_at k) < fst (lc_at l)
     else if snd (lc_at k) \<noteq> snd (lc_at l) then snd (lc_at k) < snd (lc_at l)
     else lc_node k < lc_node l)"

definition callsInLineOrder :: "builder \<Rightarrow> line_call list" where
  "callsInLineOrder b = sort_by line_before (List.map_filter (line_call_of b) (b_calls b))"

section \<open>Gaps\<close>

definition transcriptKind :: "u8 \<Rightarrow> bool" where
  "transcriptKind k \<longleftrightarrow> k \<notin> {KindMeta, KindJournal, KindManifest, KindScript, KindChanges, KindProviderBody, KindExecution}"

fun gap_from :: "u64 \<Rightarrow> u64 list \<Rightarrow> bool" where
  "gap_from prev [] = False"
| "gap_from prev (k # ks) = (if k > prev + 1 then True else gap_from (if k > prev then k else prev) ks)"

definition streamHasGap :: "builder \<Rightarrow> u32 \<Rightarrow> bool" where
  "streamHasGap b v =
     gap_from 0 (map e_Ord (filter (\<lambda>e. e_Stream e = v \<and> transcriptKind (e_Kind e)) (ix_Entries (b_ix b))))"

section \<open>The join\<close>

record join_state =
  js_bodies :: "win_body list"
  js_requestOf :: "string \<Rightarrow> u32 option"
  js_responseOf :: "string \<Rightarrow> nat option"
  js_requestFor :: "string \<Rightarrow> nat option"

definition joined_at :: "nat \<Rightarrow> win_body list \<Rightarrow> win_body list" where
  "joined_at i ys = ys[i := (ys ! i)\<lparr>wb_joined := True\<rparr>]"

definition ambiguous_at :: "nat list \<Rightarrow> win_body list \<Rightarrow> win_body list" where
  "ambiguous_at is ys = fold (\<lambda>i ys. ys[i := (ys ! i)\<lparr>wb_ambiguous := True\<rparr>]) is ys"

definition by_msg :: "win_body list \<Rightarrow> u8 \<Rightarrow> u32 \<Rightarrow> nat list" where
  "by_msg ys role msg = filter (\<lambda>i. wb_msg (ys ! i) = msg \<and> wb_msg (ys ! i) \<noteq> 0 \<and> wb_role (ys ! i) = role) [0..<length ys]"

definition join_named :: "win_body list \<Rightarrow> line_call \<Rightarrow> join_state \<Rightarrow> join_state" where
  "join_named bodies k js =
    (if lc_msg k = 0 then js
     else
       let js = (case by_msg bodies BodyRoleResponse (lc_msg k) of
                   [] \<Rightarrow> js
                 | [i] \<Rightarrow> js\<lparr>js_requestOf := (js_requestOf js)(lc_node k \<mapsto> wb_request (bodies ! i)),
                             js_responseOf := (js_responseOf js)(lc_node k \<mapsto> i),
                             js_bodies := joined_at i (js_bodies js)\<rparr>
                 | is \<Rightarrow> js\<lparr>js_bodies := ambiguous_at is (js_bodies js)\<rparr>)
       in case by_msg bodies BodyRoleRequest (lc_msg k) of
            [] \<Rightarrow> js
          | [i] \<Rightarrow> js\<lparr>js_requestFor := (js_requestFor js)(lc_node k \<mapsto> i), js_bodies := joined_at i (js_bodies js)\<rparr>
          | is \<Rightarrow> js\<lparr>js_bodies := ambiguous_at is (js_bodies js)\<rparr>)"

text \<open>Requests that name no call, by the request before them and their prompt.\<close>

definition by_key :: "win_body list \<Rightarrow> u32 \<times> u32 \<Rightarrow> nat list" where
  "by_key ys key =
     filter (\<lambda>i. wb_role (ys ! i) = BodyRoleRequest \<and> wb_msg (ys ! i) = 0 \<and> wb_prompt (ys ! i) \<noteq> 0 \<and>
                 (wb_previous (ys ! i), wb_prompt (ys ! i)) = key) [0..<length ys]"

text \<open>The key a call's request would carry, from the call before it in the list.\<close>

definition call_key :: "builder \<Rightarrow> join_state \<Rightarrow> line_call option \<Rightarrow> line_call \<Rightarrow> (u32 \<times> u32) option" where
  "call_key b js before k =
    (if js_requestFor js (lc_node k) \<noteq> None \<or> streamHasGap b (lc_stream k) \<or> lc_prompt k = 0 then None
     else case before of
       None \<Rightarrow> Some (0, lc_prompt k)
     | Some p \<Rightarrow>
        if lc_stream p \<noteq> lc_stream k then Some (0, lc_prompt k)
        else case js_requestOf js (lc_node p) of
          None \<Rightarrow> None
        | Some v \<Rightarrow> if v = 0 then None else Some (v, lc_prompt k))"

fun call_keys :: "builder \<Rightarrow> join_state \<Rightarrow> line_call option \<Rightarrow> line_call list \<Rightarrow> (string \<times> u32 \<times> u32) list" where
  "call_keys b js before [] = []"
| "call_keys b js before (k # ks) =
    (case call_key b js before k of
       None \<Rightarrow> call_keys b js (Some k) ks
     | Some key \<Rightarrow> (lc_node k, key) # call_keys b js (Some k) ks)"

definition join_keyed :: "win_body list \<Rightarrow> (string \<times> u32 \<times> u32) list \<Rightarrow> line_call \<Rightarrow> join_state \<Rightarrow> join_state" where
  "join_keyed bodies keys k js =
    (case map_of (rev keys) (lc_node k) of
       None \<Rightarrow> js
     | Some key \<Rightarrow>
        (case by_key bodies key of
           [] \<Rightarrow> js
         | hits \<Rightarrow>
            if length hits = 1 \<and> length (filter (\<lambda>p. snd p = key) keys) = 1 \<and>
               \<not> wb_joined (js_bodies js ! hd hits) \<and> \<not> wb_ambiguous (js_bodies js ! hd hits)
            then js\<lparr>js_requestFor := (js_requestFor js)(lc_node k \<mapsto> hd hits),
                    js_bodies := joined_at (hd hits) (js_bodies js)\<rparr>
            else js\<lparr>js_bodies := ambiguous_at (filter (\<lambda>i. \<not> wb_joined (js_bodies js ! i)) hits) (js_bodies js)\<rparr>))"

definition join_all :: "builder \<Rightarrow> win_body list \<Rightarrow> line_call list \<Rightarrow> join_state" where
  "join_all b bodies calls =
    (let js = fold (join_named bodies) calls
                \<lparr>js_bodies = bodies, js_requestOf = (\<lambda>_. None), js_responseOf = (\<lambda>_. None), js_requestFor = (\<lambda>_. None)\<rparr>;
         keys = call_keys b js None calls
     in fold (join_keyed bodies keys) calls js)"

definition published :: "win_body \<Rightarrow> providerBody" where
  "published y = \<lparr>pb_Role = (if wb_role y = BodyRoleResponse then RoleResponse else RoleRequest), pb_Ref = wb_ref y\<rparr>"

definition call_bodies :: "win_body list \<Rightarrow> join_state \<Rightarrow> string \<Rightarrow> providerBody list" where
  "call_bodies bodies js n =
    (case js_requestFor js n of Some i \<Rightarrow> [published (bodies ! i)] | None \<Rightarrow> []) @
    (case js_responseOf js n of Some i \<Rightarrow> [published (bodies ! i)] | None \<Rightarrow> [])"

definition joinProviderBodies :: "builder \<Rightarrow> builder" where
  "joinProviderBodies b =
    (let bodies = bodiesInWindow b; calls = callsInLineOrder b in
     if bodies = [] \<or> calls = [] then b
     else
       let js = join_all b bodies calls; nodes = map lc_node calls;
           row = (\<lambda>m n. if n \<in> set nodes then map_option (\<lambda>i. wb_row (bodies ! i)) (m n) else None)
       in b\<lparr>b_bodiesOfCall := (\<lambda>n. if n \<in> set nodes then call_bodies bodies js n else []),
            b_requestRow := row (js_requestFor js), b_responseRow := row (js_responseOf js)\<rparr>)"

end
