(* ===== verification/History_Counts.thy ===== *)
theory History_Counts
  imports Asm_Builder "HOL-Library.Multiset" "HOL-Library.Sublist"
begin

text \<open>
  How a changed history is explained, \<^verbatim>\<open>internal/assemble/history.go\<close>: how many messages two lists share, how
  many changed under one id, were dropped or added, and whether what was kept is still in order. The order
  test is the algorithm of Hunt and Szymanski; it is shown to find the longest common subsequence.
\<close>

section \<open>The counts\<close>

definition isPrefix :: "message list \<Rightarrow> message list \<Rightarrow> bool" where
  "isPrefix p n \<longleftrightarrow> length p \<le> length n \<and> list_all (\<lambda>i. p ! i = n ! i) [0..<length p]"

text \<open>An entry's id where it has one, else its digest.\<close>

definition identityOf :: "message \<Rightarrow> bool \<times> u64" where
  "identityOf m = (if m_HasID m then (True, m_ID m) else (False, m_Digest m))"

definition kept_of :: "message list \<Rightarrow> message list \<Rightarrow> nat" where
  "kept_of P N = sum_list (map (\<lambda>e. min (count_list P e) (count_list N e)) (remdups P))"

text \<open>What the messages of one id keep on a side after those both sides hold: \<open>leftP\<close> and \<open>leftN\<close>.\<close>

definition left_of :: "message list \<Rightarrow> message list \<Rightarrow> u64 \<Rightarrow> nat" where
  "left_of P N i =
     sum_list (map (\<lambda>e. count_list P e - min (count_list P e) (count_list N e))
       (filter (\<lambda>e. m_HasID e \<and> m_ID e = i) (remdups P)))"

definition ids_of :: "message list \<Rightarrow> u64 list" where
  "ids_of P = remdups (map m_ID (filter m_HasID P))"

definition changed_of :: "message list \<Rightarrow> message list \<Rightarrow> nat" where
  "changed_of P N = sum_list (map (\<lambda>i. min (left_of P N i) (left_of N P i)) (ids_of P))"

section \<open>The order\<close>

fun repeatedID :: "u64 set \<Rightarrow> message list \<Rightarrow> bool" where
  "repeatedID seen [] = False"
| "repeatedID seen (e # es) =
    (if \<not> m_HasID e then repeatedID seen es
     else if m_ID e \<in> seen then True else repeatedID (insert (m_ID e) seen) es)"

text \<open>The positions of an identity in the later list, the last first.\<close>

definition places_in :: "message list \<Rightarrow> message \<Rightarrow> nat list" where
  "places_in N e = filter (\<lambda>j. identityOf (N ! j) = identityOf e) (rev [0..<length N])"

definition put_tail :: "nat list \<Rightarrow> nat \<Rightarrow> nat list" where
  "put_tail tails j =
    (let k = Search (length tails) (\<lambda>i. j \<le> tails ! i) in
     if k = length tails then tails @ [j] else tails[k := j])"

definition tails_of :: "message list \<Rightarrow> message list \<Rightarrow> nat list" where
  "tails_of P N = foldl (\<lambda>tails e. foldl put_tail tails (places_in N e)) [] P"

definition maxOrderPairs :: nat where "maxOrderPairs = 4194304"

definition order_pairs :: "message list \<Rightarrow> message list \<Rightarrow> nat" where
  "order_pairs P N = sum_list (map (\<lambda>e. length (places_in N e)) P)"

datatype order_change = SameOrder | OtherOrder | OrderUnknown string

definition orderChanged :: "message list \<Rightarrow> message list \<Rightarrow> nat \<Rightarrow> order_change" where
  "orderChanged P N matched =
    (if repeatedID {} P \<or> repeatedID {} N then OrderUnknown ''repeated_id''
     else if order_pairs P N > maxOrderPairs then OrderUnknown ''too_large''
     else if length (tails_of P N) < matched then OtherOrder else SameOrder)"

definition counts_attrs :: "message list \<Rightarrow> message list \<Rightarrow> attr_map" where
  "counts_attrs P N =
    (let kept = kept_of P N; changed = changed_of P N;
         out = set_attr ''added'' (ANum (int (length N) - int kept - int changed))
              (set_attr ''dropped'' (ANum (int (length P) - int kept - int changed))
              (set_attr ''changed'' (ANum (int changed)) (set_attr ''kept'' (ANum (int kept)) [])))
     in case orderChanged P N (kept + changed) of
          OrderUnknown why \<Rightarrow> set_attr ''order_changed_reason'' (AStr why) (set_attr ''order_changed'' (AStr Unavailable) out)
        | OtherOrder \<Rightarrow> set_attr ''order_changed'' (AStr ''yes'') out
        | SameOrder \<Rightarrow> set_attr ''order_changed'' (AStr ''no'') out)"

section \<open>Rows of the table of common subsequences\<close>

text \<open>A row of the table, by the positions where it grows.\<close>

definition table_row :: "(nat \<Rightarrow> nat) \<Rightarrow> bool" where
  "table_row g \<longleftrightarrow> g 0 = 0 \<and> (\<forall>j. g (Suc j) = g j \<or> g (Suc j) = Suc (g j))"

definition jumps :: "(nat \<Rightarrow> nat) \<Rightarrow> nat \<Rightarrow> nat list" where
  "jumps g n = filter (\<lambda>j. g (Suc j) \<noteq> g j) [0..<n]"

lemma jumps_Suc: "jumps g (Suc n) = jumps g n @ (if g (Suc n) \<noteq> g n then [n] else [])"
  by (simp add: jumps_def)

lemma row_mono:
  assumes "table_row g" "i \<le> j"
  shows "g i \<le> g j"
proof (rule lift_Suc_mono_le [OF _ assms(2)])
  fix n
  have "g (Suc n) = g n \<or> g (Suc n) = Suc (g n)" using assms(1) by (simp add: table_row_def)
  then show "g n \<le> g (Suc n)" by auto
qed

lemma length_jumps: "table_row g \<Longrightarrow> length (jumps g n) = g n"
  by (induction n) (auto simp: jumps_Suc, auto simp: jumps_def table_row_def)

lemma nth_jumps: "table_row g \<Longrightarrow> i < g n \<Longrightarrow> j \<le> n \<Longrightarrow> j \<le> jumps g n ! i \<longleftrightarrow> g j \<le> i"
proof (induction n)
  case 0
  then show ?case by (simp add: table_row_def)
next
  case (Suc n)
  show ?case
  proof (cases "i < g n")
    case True
    have jn: "jumps g (Suc n) ! i = jumps g n ! i"
      using True Suc.prems(1) by (simp add: jumps_Suc nth_append length_jumps)
    show ?thesis
    proof (cases "j = Suc n")
      case True
      have "jumps g n ! i < n"
        using \<open>i < g n\<close> nth_mem [of i "jumps g n"] length_jumps [OF Suc.prems(1), of n]
        by (simp add: jumps_def)
      moreover have "g n \<le> g (Suc n)" using row_mono [OF Suc.prems(1)] by simp
      ultimately show ?thesis using True \<open>i < g n\<close> jn by simp
    next
      case False
      with Suc \<open>i < g n\<close> jn show ?thesis by simp
    qed
  next
    case False
    with Suc.prems have g: "g (Suc n) = Suc (g n)" "i = g n" by (auto simp: table_row_def) (metis Suc_leI less_antisym not_less)+
    then have "jumps g (Suc n) ! i = n"
      using Suc.prems(1) by (simp add: jumps_Suc nth_append length_jumps)
    moreover have "g j \<le> g n \<longleftrightarrow> j \<le> n"
      using Suc.prems(3) g row_mono [OF Suc.prems(1), of j n] by (cases "j = Suc n") auto
    ultimately show ?thesis using g by simp
  qed
qed

lemma Search_jumps:
  assumes "table_row g" "p < n"
  shows "Search (length (jumps g n)) (\<lambda>i. p \<le> jumps g n ! i) = g p"
proof (rule Search_eqI)
  note nth = nth_jumps [OF assms(1)]
  show "g p \<le> length (jumps g n)" using assms row_mono by (simp add: length_jumps)
  show "\<not> p \<le> jumps g n ! i" if "i < g p" for i
    using that nth [of i n p] assms row_mono [OF assms(1), of p n] by simp
  show "p \<le> jumps g n ! g p" if "g p < length (jumps g n)"
    using that nth [of "g p" n p] assms by (simp add: length_jumps)
  show "p \<le> jumps g n ! b" if "a \<le> b" "b < length (jumps g n)" "p \<le> jumps g n ! a" for a b
    using that nth [of a n p] nth [of b n p] assms by (simp add: length_jumps)
qed

text \<open>One more match at \<open>p\<close>.\<close>

definition bump :: "nat \<Rightarrow> (nat \<Rightarrow> nat) \<Rightarrow> (nat \<Rightarrow> nat)" where
  "bump p g = (\<lambda>j. if p < j \<and> g j = g p then Suc (g j) else g j)"

lemma bump_low: "j \<le> p \<Longrightarrow> bump p g j = g j"
  by (simp add: bump_def)

lemma row_bump: "table_row g \<Longrightarrow> table_row (bump p g)"
  unfolding table_row_def
proof (intro conjI allI)
  assume g: "g 0 = 0 \<and> (\<forall>j. g (Suc j) = g j \<or> g (Suc j) = Suc (g j))"
  then have "table_row g" by (simp add: table_row_def)
  show "bump p g 0 = 0" using g by (simp add: bump_def)
  fix j
  show "bump p g (Suc j) = bump p g j \<or> bump p g (Suc j) = Suc (bump p g j)"
    using spec [OF conjunct2 [OF g], of j] row_mono [OF \<open>table_row g\<close>, of p j]
    by (cases "p < j"; cases "p = j") (auto simp: bump_def)
qed

lemma jumps_bump:
  assumes g: "table_row g"
  shows "Suc p \<le> n \<Longrightarrow> jumps (bump p g) n = (if g n = g p then jumps g n @ [p] else (jumps g n)[g p := p])"
proof (induction n rule: dec_induct)
  case base
  have "jumps (bump p g) p = jumps g p" by (auto simp: jumps_def bump_low intro!: filter_cong)
  then show ?case using g by (auto simp: jumps_Suc bump_def length_jumps list_update_append)
next
  case (step n)
  have "g p \<le> g n" using row_mono [OF g] step.hyps by simp
  moreover have "g (Suc n) = g n \<or> g (Suc n) = Suc (g n)" using g by (simp add: table_row_def)
  ultimately show ?case
    using step g by (auto simp: jumps_Suc bump_def length_jumps list_update_append)
qed

lemma put_tail_jumps: "table_row g \<Longrightarrow> p < n \<Longrightarrow> put_tail (jumps g n) p = jumps (bump p g) n"
  using jumps_bump [of g p n] row_mono [of g p n] Search_jumps [of g p n]
  by (auto simp: put_tail_def length_jumps Let_def)

section \<open>The longest common subsequence\<close>

definition common :: "'a list \<Rightarrow> 'a list \<Rightarrow> nat \<Rightarrow> bool" where
  "common xs ys n \<longleftrightarrow> (\<exists>zs. subseq zs xs \<and> subseq zs ys \<and> length zs = n)"

definition lcs :: "'a list \<Rightarrow> 'a list \<Rightarrow> nat" where
  "lcs xs ys = Max {n. common xs ys n}"

lemma common_bound: "common xs ys n \<Longrightarrow> n \<le> length xs"
  by (auto simp: common_def dest: list_emb_length)

lemma common_0: "common xs ys 0"
  by (auto simp: common_def)

lemma common_finite: "finite {n. common xs ys n}"
  by (rule finite_subset [of _ "{..length xs}"]) (auto dest: common_bound)

lemma lcs_ge: "common xs ys n \<Longrightarrow> n \<le> lcs xs ys"
  unfolding lcs_def using common_finite by (intro Max_ge) auto

lemma lcs_common: "common xs ys (lcs xs ys)"
proof -
  have "Max {n. common xs ys n} \<in> {n. common xs ys n}"
    using common_finite [of xs ys] common_0 [of xs ys] by (intro Max_in) auto
  then show ?thesis by (simp add: lcs_def)
qed

lemma common_take_mono: "common xs (take i ys) n \<Longrightarrow> i \<le> j \<Longrightarrow> common xs (take j ys) n"
  unfolding common_def
proof (elim exE conjE)
  fix zs assume zs: "subseq zs xs" "subseq zs (take i ys)" "length zs = n" and "i \<le> j"
  then have "take i ys = take i (take j ys)" by (simp add: min_def)
  then have "subseq (take i ys) (take j ys)" by (metis prefix_imp_subseq take_is_prefix)
  with zs show "\<exists>zs. subseq zs xs \<and> subseq zs (take j ys) \<and> length zs = n"
    by (intro exI [of _ zs]) (auto intro: subseq_order.order_trans)
qed

lemma lcs_mono: "i \<le> j \<Longrightarrow> lcs xs (take i ys) \<le> lcs xs (take j ys)"
  using common_take_mono lcs_common lcs_ge by blast

lemma subseq_snoc_iff: "subseq zs (xs @ [x]) \<longleftrightarrow> subseq zs xs \<or> (\<exists>us. zs = us @ [x] \<and> subseq us xs)"
proof
  assume "subseq zs (xs @ [x])"
  then obtain us vs where "zs = us @ vs" "subseq us xs" "subseq vs [x]" by (auto simp: subseq_append_iff)
  then show "subseq zs xs \<or> (\<exists>us. zs = us @ [x] \<and> subseq us xs)"
    by (cases vs) (auto split: if_splits dest: list_emb_length)
next
  assume "subseq zs xs \<or> (\<exists>us. zs = us @ [x] \<and> subseq us xs)"
  then show "subseq zs (xs @ [x])" by (auto intro: list_emb_append2 list_emb_append_mono)
qed

lemma subseq_snoc_take:
  "subseq (us @ [x]) (take j ys) \<longleftrightarrow> (\<exists>m < j. m < length ys \<and> ys ! m = x \<and> subseq us (take m ys))"
proof (induction j)
  case 0
  then show ?case by (auto dest: list_emb_length)
next
  case (Suc j)
  show ?case
  proof (cases "j < length ys")
    case True
    then show ?thesis
      using Suc by (auto simp: take_Suc_conv_app_nth subseq_snoc_iff less_Suc_eq)
  next
    case False
    with Suc show ?thesis by (auto simp: less_Suc_eq)
  qed
qed

text \<open>Appending one element to the first list makes the row of the table bump at its places in the second.\<close>

lemma lcs_snoc:
  "lcs (xs @ [x]) (take j ys) = lcs xs (take j ys) +
     (if \<exists>m < j. m < length ys \<and> ys ! m = x \<and> lcs xs (take m ys) = lcs xs (take j ys) then 1 else 0)"
proof (rule antisym)
  obtain zs where zs: "subseq zs (xs @ [x])" "subseq zs (take j ys)" "length zs = lcs (xs @ [x]) (take j ys)"
    using lcs_common [of "xs @ [x]" "take j ys"] by (auto simp: common_def)
  show "lcs (xs @ [x]) (take j ys) \<le> lcs xs (take j ys) +
     (if \<exists>m < j. m < length ys \<and> ys ! m = x \<and> lcs xs (take m ys) = lcs xs (take j ys) then 1 else 0)"
  proof (cases "subseq zs xs")
    case True
    then have "length zs \<le> lcs xs (take j ys)" using zs by (intro lcs_ge) (auto simp: common_def)
    with zs show ?thesis by simp
  next
    case False
    then obtain us where us: "zs = us @ [x]" "subseq us xs" using zs(1) by (auto simp: subseq_snoc_iff)
    then obtain m where m: "m < j" "m < length ys" "ys ! m = x" "subseq us (take m ys)"
      using zs(2) by (auto simp: subseq_snoc_take)
    have "length us \<le> lcs xs (take m ys)" using us m by (intro lcs_ge) (auto simp: common_def)
    moreover have "lcs xs (take m ys) \<le> lcs xs (take j ys)" using m by (intro lcs_mono) simp
    ultimately show ?thesis using zs(3) us(1) m by (cases "lcs xs (take m ys) = lcs xs (take j ys)") auto
  qed
next
  have "common (xs @ [x]) (take j ys) (lcs xs (take j ys))"
    using lcs_common [of xs "take j ys"] by (auto simp: common_def subseq_snoc_iff)
  then have 1: "lcs xs (take j ys) \<le> lcs (xs @ [x]) (take j ys)" by (rule lcs_ge)
  have 2: "Suc (lcs xs (take j ys)) \<le> lcs (xs @ [x]) (take j ys)"
    if m: "m < j" "m < length ys" "ys ! m = x" "lcs xs (take m ys) = lcs xs (take j ys)" for m
  proof -
    obtain us where us: "subseq us xs" "subseq us (take m ys)" "length us = lcs xs (take m ys)"
      using lcs_common [of xs "take m ys"] by (auto simp: common_def)
    then have "subseq (us @ [x]) (xs @ [x])" "subseq (us @ [x]) (take j ys)"
      using m by (auto simp only: subseq_snoc_iff subseq_snoc_take)
    then have "common (xs @ [x]) (take j ys) (length (us @ [x]))" unfolding common_def by blast
    from lcs_ge [OF this] us m show ?thesis by simp
  qed
  show "lcs xs (take j ys) +
     (if \<exists>m < j. m < length ys \<and> ys ! m = x \<and> lcs xs (take m ys) = lcs xs (take j ys) then 1 else 0)
     \<le> lcs (xs @ [x]) (take j ys)"
    using 1 2 by auto
qed

text \<open>The matches taken from the last to the first.\<close>

lemma foldl_bump:
  assumes g: "table_row g"
  shows "sorted_wrt (>) ps \<Longrightarrow>
    foldl (\<lambda>g p. bump p g) g ps j = g j + (if \<exists>m \<in> set ps. m < j \<and> g m = g j then 1 else 0)"
proof (induction ps arbitrary: j rule: rev_induct)
  case (snoc p ps)
  let ?h = "foldl (\<lambda>g p. bump p g) g ps"
  have ps: "\<forall>m \<in> set ps. p < m" and h: "?h i = g i + (if \<exists>m \<in> set ps. m < i \<and> g m = g i then 1 else 0)" for i
    using snoc by (simp_all add: sorted_wrt_append)
  have hp: "?h p = g p" using h [of p] ps by auto
  have "p < j \<Longrightarrow> g p \<le> g j" using row_mono [OF g, of p j] by simp
  then show ?case using h [of j] hp by (auto simp: bump_def)
qed simp

lemma row_foldl: "table_row g \<Longrightarrow> table_row (foldl (\<lambda>g p. bump p g) g ps)"
  by (induction ps arbitrary: g) (simp_all add: row_bump)

lemma foldl_put_tail:
  "table_row g \<Longrightarrow> list_all (\<lambda>p. p < n) ps \<Longrightarrow>
     foldl put_tail (jumps g n) ps = jumps (foldl (\<lambda>g p. bump p g) g ps) n"
  by (induction ps arbitrary: g) (simp_all add: put_tail_jumps row_bump)

lemma places_sorted: "sorted_wrt (>) (places_in N e)" "list_all (\<lambda>p. p < length N) (places_in N e)"
  "set (places_in N e) = {m. m < length N \<and> identityOf (N ! m) = identityOf e}"
proof -
  have "sorted_wrt (>) (rev [0..<length N])" by (simp add: sorted_wrt_rev)
  then show "sorted_wrt (>) (places_in N e)" unfolding places_in_def by (rule sorted_wrt_filter)
qed (auto simp: places_in_def list_all_iff)

abbreviation lcs_row :: "message list \<Rightarrow> message list \<Rightarrow> nat \<Rightarrow> nat" where
  "lcs_row P N \<equiv> \<lambda>j. lcs (map identityOf P) (take j (map identityOf N))"

lemma lcs_row_Nil: "lcs_row [] N = (\<lambda>_. 0)"
proof
  fix j
  show "lcs_row [] N j = 0" using common_bound [OF lcs_common, of "[]"] by simp
qed

lemma lcs_row_snoc:
  assumes "table_row (lcs_row P N)"
  shows "lcs_row (P @ [e]) N = foldl (\<lambda>g p. bump p g) (lcs_row P N) (places_in N e)"
  unfolding fun_eq_iff foldl_bump [OF assms places_sorted(1)] places_sorted(3)
  using lcs_snoc [of "map identityOf P" "identityOf e" _ "map identityOf N"]
  by (auto simp: conj_commute) 

lemma row_lcs: "table_row (lcs_row P N)"
proof (induction P rule: rev_induct)
  case Nil
  then show ?case unfolding lcs_row_Nil by (simp add: table_row_def)
next
  case (snoc e P)
  then show ?case unfolding lcs_row_snoc [OF snoc] by (rule row_foldl)
qed

lemma tails_jumps: "tails_of P N = jumps (lcs_row P N) (length N)"
proof (induction P rule: rev_induct)
  case Nil
  show ?case unfolding lcs_row_Nil by (simp add: tails_of_def jumps_def)
next
  case (snoc e P)
  then show ?case
    unfolding lcs_row_snoc [OF row_lcs]
    using foldl_put_tail [OF row_lcs [of P N] places_sorted(2) [of N e]] by (simp add: tails_of_def)
qed

text \<open>The order test finds the longest common subsequence of the two lists of identities.\<close>

lemma length_tails: "length (tails_of P N) = lcs (map identityOf P) (map identityOf N)"
  unfolding tails_jumps length_jumps [OF row_lcs] by simp


section \<open>What the counts count\<close>

lemma sum_remdups: "sum_list (map f (remdups xs)) = sum f (set xs)"
  by (metis distinct_remdups set_remdups sum_list_distinct_conv_sum_set)

lemma size_sum: "finite A \<Longrightarrow> set_mset M \<subseteq> A \<Longrightarrow> size M = sum (count M) A"
  unfolding size_multiset_overloaded_eq by (rule sum.mono_neutral_left) (auto simp: not_in_iff)

lemma kept_eq: "kept_of P N = size (mset P \<inter># mset N)"
proof -
  have "size (mset P \<inter># mset N) = sum (count (mset P \<inter># mset N)) (set P)"
    by (rule size_sum) auto
  then show ?thesis by (simp add: kept_of_def sum_remdups count_mset)
qed

text \<open>The ids of the messages of a multiset that have one.\<close>

definition id_bag :: "message multiset \<Rightarrow> u64 multiset" where
  "id_bag M = image_mset m_ID (filter_mset m_HasID M)"

lemma count_id_bag: "finite A \<Longrightarrow> set_mset M \<subseteq> A \<Longrightarrow> count (id_bag M) i = sum (count M) {e \<in> A. m_HasID e \<and> m_ID e = i}"
proof -
  assume A: "finite A" "set_mset M \<subseteq> A"
  have "count (id_bag M) i = size {#e \<in># filter_mset m_HasID M. m_ID e = i#}"
    unfolding id_bag_def count_image_mset by (simp add: size_multiset_overloaded_eq vimage_def Int_def conj_commute cong: sum.cong) (rule sum.cong; auto)
  also have "\<dots> = sum (count {#e \<in># filter_mset m_HasID M. m_ID e = i#}) {e \<in> A. m_HasID e \<and> m_ID e = i}"
    using A by (intro size_sum) auto
  also have "\<dots> = sum (count M) {e \<in> A. m_HasID e \<and> m_ID e = i}" by (rule sum.cong) auto
  finally show ?thesis .
qed

lemma left_eq: "left_of P N i = count (id_bag (mset P - mset N)) i"
proof -
  have "left_of P N i = sum (\<lambda>e. count_list P e - min (count_list P e) (count_list N e)) {e \<in> set P. m_HasID e \<and> m_ID e = i}"
    unfolding left_of_def remdups_filter [symmetric] sum_remdups by simp
  also have "\<dots> = sum (count (mset P - mset N)) {e \<in> set P. m_HasID e \<and> m_ID e = i}"
    by (rule sum.cong) (auto simp: count_mset)
  also have "\<dots> = count (id_bag (mset P - mset N)) i"
    by (rule count_id_bag [symmetric]) (auto dest: in_diffD)
  finally show ?thesis .
qed

lemma changed_eq: "changed_of P N = size (id_bag (mset P - mset N) \<inter># id_bag (mset N - mset P))"
proof -
  let ?M = "id_bag (mset P - mset N) \<inter># id_bag (mset N - mset P)"
  have "set_mset ?M \<subseteq> m_ID ` {e \<in> set P. m_HasID e}"
  proof
    fix i assume "i \<in># ?M"
    then obtain e where "e \<in># mset P - mset N" "m_HasID e" "i = m_ID e"
      by (auto simp: id_bag_def simp del: filter_diff_mset)
    then show "i \<in> m_ID ` {e \<in> set P. m_HasID e}" using in_diffD [of e "mset P"] by auto
  qed
  then have "size ?M = sum (count ?M) (m_ID ` {e \<in> set P. m_HasID e})" by (intro size_sum) auto
  then show ?thesis by (simp add: changed_of_def ids_of_def sum_remdups left_eq)
qed

text \<open>A message without an id holds no id.\<close>

definition plain_ids :: "message list \<Rightarrow> bool" where
  "plain_ids P \<longleftrightarrow> list_all (\<lambda>m. m_HasID m \<or> m_ID m = 0) P"

definition identities :: "message multiset \<Rightarrow> (bool \<times> u64) multiset" where
  "identities M = image_mset identityOf M"

lemma count_identities_id: "count (identities M) (True, i) = count (id_bag M) i"
  by (induction M) (auto simp: identities_def id_bag_def identityOf_def)

lemma identities_bags:
  assumes "\<And>e f. e \<in># A \<Longrightarrow> f \<in># B \<Longrightarrow> e \<noteq> f" and "\<And>e. e \<in># A + B \<Longrightarrow> m_HasID e \<or> m_ID e = 0"
  shows "size (identities A \<inter># identities B) = size (id_bag A \<inter># id_bag B)"
proof -
  have "identities A \<inter># identities B = image_mset (Pair True) (id_bag A \<inter># id_bag B)"
  proof (rule multiset_eqI)
    fix x :: "bool \<times> u64"
    obtain h v where x: "x = (h, v)" by (cases x)
    show "count (identities A \<inter># identities B) x = count (image_mset (Pair True) (id_bag A \<inter># id_bag B)) x"
    proof (cases h)
      case True
      have "count (image_mset (Pair True) M) (True, v) = count M v" for M :: "u64 multiset"
        by (induction M) auto
      with True x show ?thesis by (simp add: count_identities_id)
    next
      case False
      have "\<not> (x \<in># identities A \<and> x \<in># identities B)"
      proof
        assume "x \<in># identities A \<and> x \<in># identities B"
        then obtain e f where ef: "e \<in># A" "f \<in># B" "identityOf e = (False, v)" "identityOf f = (False, v)"
          using False x by (auto simp: identities_def)
        then have "\<not> m_HasID e" "\<not> m_HasID f" "m_Digest e = m_Digest f"
          by (auto simp: identityOf_def split: if_splits)
        moreover from this ef assms(2) have "m_ID e = m_ID f" by (metis union_iff)
        ultimately have "e = f" by simp
        with assms(1) ef show False by blast
      qed
      then have "count (identities A \<inter># identities B) x = 0" by (auto simp: not_in_iff)
      moreover have "count (image_mset (Pair True) M) (False, v) = 0" for M :: "u64 multiset"
        by (induction M) auto
      ultimately show ?thesis using False x by simp
    qed
  qed
  then show ?thesis by simp
qed

text \<open>What is kept or changed is what the two lists share of identities, each as often as both hold it.\<close>

lemma matched_eq:
  assumes "plain_ids P" "plain_ids N"
  shows "kept_of P N + changed_of P N = size (identities (mset P) \<inter># identities (mset N))"
proof -
  let ?A = "mset P" and ?B = "mset N"
  let ?D = "?A \<inter># ?B"
  have "?A = ?D + (?A - ?B)" and "?B = ?D + (?B - ?A)"
    by (auto simp: multiset_eq_iff)
  then have "identities ?A = identities ?D + identities (?A - ?B)" "identities ?B = identities ?D + identities (?B - ?A)"
    unfolding identities_def by (metis image_mset_union)+
  then have "identities ?A \<inter># identities ?B = identities ?D + (identities (?A - ?B) \<inter># identities (?B - ?A))"
    by (simp add: multiset_eq_iff min_def)
  moreover have "size (identities (?A - ?B) \<inter># identities (?B - ?A)) = size (id_bag (?A - ?B) \<inter># id_bag (?B - ?A))"
  proof (rule identities_bags)
    show "e \<noteq> f" if "e \<in># ?A - ?B" "f \<in># ?B - ?A" for e f
      using that by (auto simp: in_diff_count)
    show "m_HasID e \<or> m_ID e = 0" if "e \<in># ?A - ?B + (?B - ?A)" for e
    proof -
      have "e \<in> set P \<or> e \<in> set N" using that by (auto dest: in_diffD)
      then show ?thesis using assms by (auto simp: plain_ids_def list_all_iff)
    qed
  qed
  ultimately show ?thesis by (simp add: kept_eq changed_eq identities_def)
qed

lemma subseq_mset: "subseq zs xs \<Longrightarrow> mset zs \<subseteq># mset xs"
  by (induction rule: list_emb.induct) (auto intro: subset_mset.order_trans)

lemma lcs_le_shared: "lcs (map identityOf P) (map identityOf N) \<le> size (identities (mset P) \<inter># identities (mset N))"
proof -
  obtain zs where "subseq zs (map identityOf P)" "subseq zs (map identityOf N)"
    "length zs = lcs (map identityOf P) (map identityOf N)"
    using lcs_common [of "map identityOf P" "map identityOf N"] by (auto simp: common_def)
  moreover from this have "mset zs \<subseteq># identities (mset P)" "mset zs \<subseteq># identities (mset N)"
    by (auto simp: identities_def mset_map [symmetric] simp del: mset_map intro: subseq_mset)
  ultimately show ?thesis by (metis size_mset size_mset_mono subset_mset.inf.bounded_iff)
qed


definition sample_earlier :: "message list" where
  "sample_earlier = [\<lparr>m_HasID = True, m_ID = 1, m_Digest = 5\<rparr>, \<lparr>m_HasID = False, m_ID = 0, m_Digest = 7\<rparr>]"

definition sample_later :: "message list" where
  "sample_later = [\<lparr>m_HasID = False, m_ID = 0, m_Digest = 7\<rparr>, \<lparr>m_HasID = True, m_ID = 1, m_Digest = 6\<rparr>]"


end
