(* ===== verification/Asm_History.thy ===== *)
theory Asm_History
  imports Asm_Bodies History_Counts
begin

text \<open>
  Where a call's history changed, \<^verbatim>\<open>internal/assemble/history.go\<close>: the message list each request records,
  built through the threads it continues and the bodies its copies came from, compared with that of the call
  before it in its stream and epoch. The measures of histories are kept in a map that the walks fill, as the
  code keeps them; a class, a system prompt and a body's own list are values of their call or body alone, and
  their maps are left out. A walk takes a number of steps as fuel, and one more call than the stream has is
  enough, since a walk stops where it meets a call again.
\<close>

section \<open>The calls compared\<close>

definition maxHistoryLinks :: nat where "maxHistoryLinks = 65536"
definition maxHistoryEntries :: nat where "maxHistoryEntries = 65536"
definition body_MaxDepth :: nat where "body_MaxDepth = 32"

definition history_FormClaudeCode :: string where "history_FormClaudeCode = ''claude-code/1''"
definition history_UnrecognisedShape :: string where "history_UnrecognisedShape = ''unrecognised_shape''"
definition history_TooLarge :: string where "history_TooLarge = ''too_large''"

definition too_large :: string where "too_large = ''messages:'' @ history_TooLarge"

record hcall =
  hc_call :: line_call
  hc_pc :: provider_call
  hc_req :: "nat option"
  hc_resp :: "nat option"
  hc_epoch :: string
  hc_aux :: bool

abbreviation hc_node :: "hcall \<Rightarrow> string" where
  "hc_node c \<equiv> lc_node (hc_call c)"

record historian =
  hs_b :: builder
  hs_bodyOf :: "u32 \<Rightarrow> nat option"
  hs_calls :: "hcall list"

definition body_at :: "historian \<Rightarrow> nat \<Rightarrow> body" where
  "body_at h i = ix_Bodies (b_ix (hs_b h)) ! i"

text \<open>\<open>byMessage\<close>: a stream's call of a message id.\<close>

definition byMessage :: "historian \<Rightarrow> u32 \<Rightarrow> u32 \<Rightarrow> hcall option" where
  "byMessage h stream msg =
     find (\<lambda>c. lc_stream (hc_call c) = stream \<and> lc_msg (hc_call c) = msg \<and> msg \<noteq> 0) (rev (hs_calls h))"

definition formOf :: "historian \<Rightarrow> nat option \<Rightarrow> string" where
  "formOf h row = (case row of None \<Rightarrow> [] | Some i \<Rightarrow> str (hs_b h) (y_Form (body_at h i)))"

text \<open>\<open>class\<close>\<close>

definition class_of :: "historian \<Rightarrow> hcall \<Rightarrow> string" where
  "class_of h c =
    (let fs = map (\<lambda>i. e_Flags (entry_at (hs_b h) i)) (pc_Fragments (hc_pc c)) in
     if list_ex (\<lambda>f. Has f FlagInternalCall) fs then ClassInternalCall
     else if list_ex (\<lambda>f. Has f FlagTurnCall) fs \<or> formOf h (hc_req c) = history_FormClaudeCode then ClassTurnCall
     else [])"

section \<open>A request's own list\<close>

record own_list =
  ol_length :: nat
  ol_depth :: nat
  ol_why :: string

definition bad_list :: "string \<Rightarrow> own_list" where
  "bad_list why = \<lparr>ol_length = 0, ol_depth = 0, ol_why = why\<rparr>"

text \<open>The base of a relative list: a body landed before it.\<close>

definition base_of :: "historian \<Rightarrow> nat \<Rightarrow> nat option" where
  "base_of h r =
    (case hs_bodyOf h (y_ListBase (body_at h r)) of
       Some base \<Rightarrow> if base < r then Some base else None
     | None \<Rightarrow> None)"

text \<open>\<open>ownOf\<close> and \<open>ownOne\<close>\<close>

function own_of :: "historian \<Rightarrow> nat \<Rightarrow> own_list" where
  "own_of h r =
    (let y = body_at h r; bad = bad_list (''messages:'' @ history_UnrecognisedShape) in
     if y_List y = ListUnavailable then bad_list (''messages:'' @ str (hs_b h) (y_ListWhy y))
     else if y_List y = ListAbsent then bad_list ''messages:absent''
     else if y_List y = ListWhole then \<lparr>ol_length = unat (y_MsgCount y), ol_depth = 0, ol_why = []\<rparr>
     else case base_of h r of
       None \<Rightarrow> bad
     | Some base \<Rightarrow>
        if y_Role (body_at h base) \<noteq> BodyRoleRequest \<or> y_Form (body_at h base) \<noteq> y_Form y then bad
        else if base < r then
          (let prior = own_of h base in
           if ol_why prior \<noteq> [] \<or> ol_depth prior \<ge> body_MaxDepth \<or> ol_length prior < unat (y_ListKeep y) then bad
           else \<lparr>ol_length = unat (y_ListKeep y) + unat (y_MsgCount y), ol_depth = ol_depth prior + 1, ol_why = []\<rparr>)
        else bad)"
  by pat_completeness auto
termination by (relation "measure snd") auto

declare own_of.simps [simp del]

definition own_messages :: "historian \<Rightarrow> nat \<Rightarrow> message list" where
  "own_messages h r =
     (let y = body_at h r in take (unat (y_MsgCount y)) (drop (unat (y_MsgFirst y)) (ix_Messages (b_ix (hs_b h)))))"

text \<open>\<open>fill\<close>: what each body adds goes in its place, and the walk goes on to its base for the front it keeps.
  A Go copy takes as much as both sides hold.\<close>

definition copy_into :: "message list \<Rightarrow> nat \<Rightarrow> message list \<Rightarrow> message list" where
  "copy_into out k xs = take k out @ take (length out - k) xs @ drop (k + length xs) out"

function fill :: "historian \<Rightarrow> nat \<Rightarrow> message list \<Rightarrow> message list" where
  "fill h r out =
    (let y = body_at h r; mine = own_messages h r in
     if y_List y = ListWhole then copy_into out 0 mine
     else case base_of h r of
       None \<Rightarrow> out
     | Some base \<Rightarrow>
        if base < r then
          (let keep = unat (y_ListKeep y) in
           if length out > keep
           then fill h base (take keep out) @ drop keep (copy_into out keep mine)
           else fill h base out)
        else out)"
  by pat_completeness auto
termination by (relation "measure (\<lambda>(h, r, out). r)") auto

declare fill.simps [simp del]

text \<open>\<open>own\<close>\<close>

definition own :: "historian \<Rightarrow> nat \<Rightarrow> message list \<times> string" where
  "own h r =
    (let l = own_of h r in
     if ol_why l \<noteq> [] then ([], ol_why l)
     else if ol_length l > maxHistoryEntries then ([], too_large)
     else if y_List (body_at h r) = ListWhole then (own_messages h r, [])
     else (fill h r (replicate (ol_length l) zero_message), []))"

section \<open>Threads\<close>

text \<open>\<open>reply\<close>\<close>

definition reply_to :: "historian \<Rightarrow> hcall \<Rightarrow> hcall \<Rightarrow> message \<times> string" where
  "reply_to h p n =
    (case hc_resp p of
       None \<Rightarrow> (zero_message, ''no_reply'')
     | Some i \<Rightarrow>
        (let y = body_at h i in
         if y_Reply y \<noteq> ReplyEntry then (zero_message, ''no_reply'')
         else if formOf h (hc_resp p) \<noteq> formOf h (hc_req n) then (zero_message, ''form_mismatch'')
         else (\<lparr>m_HasID = y_ReplyHasID y, m_ID = y_ReplyID y, m_Digest = y_ReplyDigest y\<rparr>, [])))"

text \<open>\<open>continued\<close>: the call a request of this row continues, or why its thread cannot be followed.\<close>

definition continued :: "historian \<Rightarrow> hcall \<Rightarrow> nat \<Rightarrow> hcall option \<times> string" where
  "continued h c r =
    (let y = body_at h r in
     if y_Thread y \<noteq> ThreadContinue then (None, [])
     else case byMessage h (lc_stream (hc_call c)) (y_ThreadPrevious y) of
       None \<Rightarrow> (None, ''thread_unresolved'')
     | Some x \<Rightarrow>
        if hc_req x = None \<or> formOf h (hc_req x) \<noteq> formOf h (hc_req c) then (None, ''thread_unresolved'')
        else (case reply_to h x c of
                (_, why) \<Rightarrow> if why \<noteq> [] then (None, ''thread_reply:'' @ why) else (Some x, [])))"

definition next_of :: "historian \<Rightarrow> hcall \<Rightarrow> hcall option" where
  "next_of h c = (case hc_req c of None \<Rightarrow> None | Some r \<Rightarrow> fst (continued h c r))"

record measured =
  ms_length :: nat
  ms_links :: nat
  ms_why :: string

definition unknown :: "string \<Rightarrow> measured" where
  "unknown why = \<lparr>ms_length = 0, ms_links = 0, ms_why = why\<rparr>"

type_synonym memo = "string \<Rightarrow> measured option"

text \<open>\<open>measureOne\<close>\<close>

definition measureOne :: "historian \<Rightarrow> memo \<Rightarrow> hcall \<Rightarrow> measured" where
  "measureOne h m c =
    (case hc_req c of
       None \<Rightarrow> unknown ''no_request''
     | Some r \<Rightarrow>
        (let own = own_of h r in
         if ol_why own \<noteq> [] then unknown (ol_why own)
         else if ol_length own > maxHistoryEntries then unknown too_large
         else case next_of h c of
           None \<Rightarrow>
             (case continued h c r of
                (_, why) \<Rightarrow> if why \<noteq> [] then unknown why
                            else \<lparr>ms_length = ol_length own, ms_links = 0, ms_why = []\<rparr>)
         | Some x \<Rightarrow>
             (let before = (case m (hc_node x) of Some v \<Rightarrow> v | None \<Rightarrow> \<lparr>ms_length = 0, ms_links = 0, ms_why = []\<rparr>) in
              if ms_why before = too_large then unknown too_large
              else if ms_why before \<noteq> [] then unknown ''thread_unresolved''
              else if ms_links before + 1 > maxHistoryLinks \<or>
                      ms_length before + 1 + ol_length own > maxHistoryEntries then unknown too_large
              else \<lparr>ms_length = ms_length before + 1 + ol_length own, ms_links = ms_links before + 1, ms_why = []\<rparr>)))"

text \<open>The walk back of \<open>length\<close>: the calls met, the last first, and whether it came back to one of them.\<close>

fun walk_back :: "nat \<Rightarrow> historian \<Rightarrow> memo \<Rightarrow> hcall list \<Rightarrow> hcall \<Rightarrow> hcall list \<times> bool" where
  "walk_back 0 h m chain x = (chain, True)"
| "walk_back (Suc n) h m chain x =
    (if m (hc_node x) \<noteq> None then (chain, False)
     else if hc_node x \<in> set (map hc_node chain) then (chain, True)
     else case next_of h x of
       None \<Rightarrow> (x # chain, False)
     | Some y \<Rightarrow> walk_back n h m (x # chain) y)"

definition history_fuel :: "historian \<Rightarrow> nat" where
  "history_fuel h = Suc (Suc (length (hs_calls h)))"

text \<open>\<open>length\<close>: the memo it leaves with the measure of the call.\<close>

definition measure_chain :: "historian \<Rightarrow> hcall list \<Rightarrow> memo \<Rightarrow> memo" where
  "measure_chain h chain m = fold (\<lambda>x m. m(hc_node x \<mapsto> measureOne h m x)) chain m"

definition history_length :: "historian \<Rightarrow> memo \<Rightarrow> hcall \<Rightarrow> memo \<times> measured" where
  "history_length h m c =
    (case walk_back (history_fuel h) h m [] c of
       (chain, looped) \<Rightarrow>
         let m = (if looped then fold (\<lambda>y m. m(hc_node y \<mapsto> unknown ''thread_unresolved'')) chain m
                  else measure_chain h chain m)
         in (m, case m (hc_node c) of Some v \<Rightarrow> v | None \<Rightarrow> \<lparr>ms_length = 0, ms_links = 0, ms_why = []\<rparr>))"

text \<open>\<open>list\<close>: a history whose measure is known, from the start of its thread.\<close>

fun build_list :: "nat \<Rightarrow> historian \<Rightarrow> hcall \<Rightarrow> message list" where
  "build_list 0 h c = []"
| "build_list (Suc n) h c =
    (let own = (case hc_req c of Some r \<Rightarrow> fst (own h r) | None \<Rightarrow> []) in
     case next_of h c of
       None \<Rightarrow> own
     | Some x \<Rightarrow> build_list n h x @ [fst (reply_to h x c)] @ own)"

definition history_list :: "historian \<Rightarrow> hcall \<Rightarrow> message list" where
  "history_list h c = build_list (history_fuel h) h c"

section \<open>The earlier reply and the system prompt\<close>

text \<open>\<open>find\<close>\<close>

fun find_reply :: "message \<Rightarrow> message list \<Rightarrow> string \<Rightarrow> string" where
  "find_reply r [] result = result"
| "find_reply r (e # es) result =
    (if e = r then ''back''
     else if m_HasID r \<and> m_HasID e \<and> m_ID e = m_ID r then find_reply r es ''back_changed''
     else find_reply r es result)"

definition replyAfter :: "message \<Rightarrow> string \<Rightarrow> message list \<Rightarrow> attr_map \<Rightarrow> attr_map" where
  "replyAfter r why later a =
    (if why \<noteq> [] then set_attr ''history_reply_reason'' (AStr why) (set_attr ''history_reply'' (AStr Unavailable) a)
     else set_attr ''history_reply'' (AStr (find_reply r later ''not_found'')) a)"

definition replyIn :: "message \<Rightarrow> string \<Rightarrow> message list \<Rightarrow> message list \<Rightarrow> attr_map \<Rightarrow> attr_map" where
  "replyIn r why P N a =
    (let why = (if why = [] \<and> list_ex (\<lambda>e. e = r \<or> (m_HasID r \<and> m_HasID e \<and> m_ID e = m_ID r)) P
                then ''ambiguous'' else why)
     in replyAfter r why N a)"

text \<open>\<open>systemOf\<close>: a prompt that is known, following the thread to where it starts.\<close>

fun system_from :: "nat \<Rightarrow> historian \<Rightarrow> string list \<Rightarrow> hcall \<Rightarrow> u32 option" where
  "system_from 0 h seen x = None"
| "system_from (Suc n) h seen x =
    (if hc_node x \<in> set seen then None
     else case hc_req x of
       None \<Rightarrow> None
     | Some r \<Rightarrow>
        (let y = body_at h r in
         if y_SystemUnknown y then None
         else if y_Thread y \<noteq> ThreadContinue then Some (y_System y)
         else if y_System y \<noteq> 0 then None
         else case next_of h x of None \<Rightarrow> None | Some z \<Rightarrow> system_from n h (hc_node x # seen) z))"

definition system_attr :: "historian \<Rightarrow> hcall \<Rightarrow> hcall \<Rightarrow> attr_map \<Rightarrow> attr_map" where
  "system_attr h p n a =
    (if formOf h (hc_req n) \<noteq> history_FormClaudeCode then a
     else set_attr ''system_changed'' (AStr
       (case (system_from (history_fuel h) h [] p, system_from (history_fuel h) h [] n) of
          (Some v, Some w) \<Rightarrow> if v \<noteq> w then ''yes'' else ''no''
        | _ \<Rightarrow> Unavailable)) a)"

section \<open>The comparison\<close>

definition body_ref :: "historian \<Rightarrow> nat \<Rightarrow> ref" where
  "body_ref h r = ref_of (body_entry (hs_b h) r)"

definition only_attrs :: "attr_map \<Rightarrow> call_history" where
  "only_attrs a = \<lparr>ch_attrs = a, ch_card = None, ch_refs = []\<rparr>"

definition say :: "string \<Rightarrow> string \<Rightarrow> attr_map \<Rightarrow> attr_map" where
  "say history reason a =
    (let a = set_attr ''history'' (AStr history) a
     in if reason \<noteq> [] then set_attr ''history_reason'' (AStr reason) a else a)"

definition get_attr :: "string \<Rightarrow> attr_map \<Rightarrow> attr_map" where
  "get_attr k a = filter (\<lambda>p. fst p = k) a"

text \<open>The comparison of two lists that are both known.\<close>

definition compare_lists :: "historian \<Rightarrow> hcall \<Rightarrow> nat \<Rightarrow> hcall \<Rightarrow> nat \<Rightarrow> attr_map \<Rightarrow> call_history" where
  "compare_lists h n nr p pr a =
    (let P = history_list h p; N = history_list h n;
         (reply, replyWhy) = reply_to h p n in
     if isPrefix P N then
       only_attrs (system_attr h p n (replyAfter reply replyWhy (drop (length P) N) (say ''kept'' [] a)))
     else
       let a = system_attr h p n (replyIn reply replyWhy P N (say ''changed'' [] a));
           card = counts_attrs P N;
           card = set_attr ''cause'' (AStr Unavailable)
                    (set_attr ''to_call'' (AStr (hc_node n)) (set_attr ''from_call'' (AStr (hc_node p)) card));
           card = set_attrs (map (\<lambda>(k, v). (''reply'', v)) (get_attr ''history_reply'' a)) card;
           card = set_attrs (map (\<lambda>(k, v). (''reply_reason'', v)) (get_attr ''history_reply_reason'' a)) card;
           card = set_attrs (get_attr ''system_changed'' a) card
       in \<lparr>ch_attrs = a, ch_card = Some card, ch_refs = [body_ref h pr, body_ref h nr]\<rparr>)"

text \<open>\<open>compare\<close>: the first row of the table that applies. \<open>n\<close> has a request of row \<open>nr\<close>.\<close>

definition compare_call :: "historian \<Rightarrow> memo \<Rightarrow> hcall \<Rightarrow> nat \<Rightarrow> hcall option \<Rightarrow> memo \<times> call_history" where
  "compare_call h m n nr earlier =
    (case history_length h m n of (m, nm) \<Rightarrow>
      let a = (if ms_why nm = [] then set_attr ''history_messages'' (ANum (int (ms_length nm))) [] else []);
          c = class_of h n;
          out = (\<lambda>history reason. (m, only_attrs (say history reason a)))
      in if hc_aux n then out ''not_compared'' ''auxiliary_stream''
         else if c = ClassInternalCall then out ''not_compared'' ClassInternalCall
         else if c = [] then out Unavailable ''class_unknown''
         else if ms_why nm \<noteq> [] then out Unavailable (ms_why nm)
         else case earlier of
           None \<Rightarrow> out ''first'' []
         | Some p \<Rightarrow>
            (case hc_req p of
               None \<Rightarrow> out Unavailable ''earlier_no_request''
             | Some pr \<Rightarrow>
                if y_Form (body_at h pr) = 0 then out Unavailable ''earlier_messages:absent''
                else if class_of h p = [] then out Unavailable ''earlier_class_unknown''
                else if formOf h (hc_req p) \<noteq> formOf h (hc_req n) then out Unavailable ''form_mismatch''
                else case history_length h m p of (m, pm) \<Rightarrow>
                  if ms_why pm \<noteq> [] then (m, only_attrs (say Unavailable (''earlier_'' @ ms_why pm) a))
                  else
                    let a = set_attr ''history_from'' (AStr (hc_node p)) a; y = body_at h nr in
                    if y_Thread y = ThreadContinue \<and> y_ThreadPrevious y = lc_msg (hc_call p) \<and> lc_msg (hc_call p) \<noteq> 0
                    then (m, only_attrs (system_attr h p n (set_attr ''history_reply'' (AStr ''back'') (say ''kept'' [] a))))
                    else (m, compare_lists h n nr p pr a)))"

section \<open>Every call\<close>

fun compare_stream :: "historian \<Rightarrow> memo \<Rightarrow> hcall option \<Rightarrow> hcall list \<Rightarrow>
    (string \<Rightarrow> call_history option) \<Rightarrow> memo \<times> (string \<Rightarrow> call_history option)" where
  "compare_stream h m prior [] out = (m, out)"
| "compare_stream h m prior (n # ns) out =
    (let p = (case prior of Some p \<Rightarrow> if hc_epoch p \<noteq> hc_epoch n then None else Some p | None \<Rightarrow> None);
         (m, out) =
           (case hc_req n of
              Some r \<Rightarrow>
                if y_Form (body_at h r) \<noteq> 0
                then (case compare_call h m n r p of (m, ch) \<Rightarrow> (m, out(hc_node n \<mapsto> ch)))
                else (m, out)
            | None \<Rightarrow> (m, out))
     in compare_stream h m (if class_of h n \<noteq> ClassInternalCall then Some n else prior) ns out)"

fun compare_streams :: "historian \<Rightarrow> memo \<Rightarrow> u32 list \<Rightarrow> (string \<Rightarrow> call_history option) \<Rightarrow> (string \<Rightarrow> call_history option)" where
  "compare_streams h m [] out = out"
| "compare_streams h m (v # vs) out =
    (case compare_stream h m None (filter (\<lambda>c. lc_stream (hc_call c) = v) (hs_calls h)) out of
       (m, out) \<Rightarrow> compare_streams h m vs out)"

definition bodies_by_record :: "builder \<Rightarrow> u32 \<Rightarrow> nat option" where
  "bodies_by_record b rid =
    (if rid = 0 then None
     else find (\<lambda>i. e_Record (body_entry b i) = rid) [0..<length (ix_Bodies (b_ix b))])"

definition hcall_of :: "builder \<Rightarrow> line_call \<Rightarrow> hcall option" where
  "hcall_of b k =
    map_option (\<lambda>pc. \<lparr>hc_call = k, hc_pc = pc, hc_req = b_requestRow b (lc_node k), hc_resp = b_responseRow b (lc_node k),
        hc_epoch = epochOf b (entry_at b (hd (pc_Fragments pc))),
        hc_aux = (case stream_by b (lc_stream k) of Some s \<Rightarrow> si_Role s = StreamAuxiliary | None \<Rightarrow> False)\<rparr>)
      (find (\<lambda>c. pc_NodeID c = lc_node k) (rev (b_calls b)))"

definition compareHistories :: "builder \<Rightarrow> builder" where
  "compareHistories b =
    (let calls = callsInLineOrder b in
     if calls = [] then b\<lparr>b_history := (\<lambda>_. None)\<rparr>
     else
       let h = \<lparr>hs_b = b, hs_bodyOf = bodies_by_record b, hs_calls = List.map_filter (hcall_of b) calls\<rparr>
       in b\<lparr>b_history := compare_streams h (\<lambda>_. None) (remdups (map lc_stream calls)) (\<lambda>_. None)\<rparr>)"

end
