(* ===== verification/Asm_Emit.thy ===== *)
theory Asm_Emit
  imports Asm_History
begin

text \<open>
  The leaves of the tree, written once their containers are known (\<^verbatim>\<open>emit.go\<close>, and the writers of
  \<^verbatim>\<open>calls.go\<close>, \<^verbatim>\<open>tools.go\<close>, \<^verbatim>\<open>epoch.go\<close> and \<^verbatim>\<open>spawn.go\<close>), and the assembly of a session as a whole
  (\<^verbatim>\<open>assemble.go\<close>).
\<close>

section \<open>Calls\<close>

text \<open>A step: a leaf node at one place.\<close>

definition step_node :: "string \<Rightarrow> string \<Rightarrow> string \<Rightarrow> string \<Rightarrow> ref \<Rightarrow> attr_map \<Rightarrow> builder \<Rightarrow> builder" where
  "step_node ident kind parent stream r a b =
     step_counted (node (mk_node ident kind parent stream (Some r) [] a) b)"

text \<open>One block of a response: its text or its thinking.\<close>

definition emit_block :: "string \<Rightarrow> string \<Rightarrow> string \<Rightarrow> entry \<Rightarrow> block \<Rightarrow> builder \<Rightarrow> builder" where
  "emit_block kind parent stream e k b =
    (if k_Kind k = BlockText then
       step_node (RefID ''msg'' (blockRef e (k_Ord k))) kind parent stream (blockRef e (k_Ord k)) [] b
     else if k_Kind k = BlockThinking then
       step_node (RefID ''think'' (blockRef e (k_Ord k))) KindThinking parent stream (blockRef e (k_Ord k)) [] b
     else b)"

definition usageRule :: string where "usageRule = ''last_fragment_in_line_order''"

definition call_attrs :: "builder \<Rightarrow> provider_call \<Rightarrow> attr_map" where
  "call_attrs b c =
    (let a = set_attr ''usage_from'' (AStr usageRule) [];
         a = (case last_fragment c of
                Some i \<Rightarrow>
                  if pc_Finished c
                  then set_attr ''usage_at'' (APlace (e_Seq (entry_at b i)) (e_Row (entry_at b i)))
                         (set_attr ''usage'' (AStr ObservedReplayable) a)
                  else set_attr ''stop_reason'' (AStr Unavailable) (set_attr ''usage'' (AStr Unavailable) a)
              | None \<Rightarrow> set_attr ''stop_reason'' (AStr Unavailable) (set_attr ''usage'' (AStr Unavailable) a));
         bodies = b_bodiesOfCall b (pc_NodeID c);
         a = (if bodies \<noteq> [] then set_attr ProviderBodiesAttr (ABodies bodies) a else a)
     in case b_history b (pc_NodeID c) of Some h \<Rightarrow> set_attrs (ch_attrs h) a | None \<Rightarrow> a)"

definition history_card :: "provider_call \<Rightarrow> string \<Rightarrow> ref list \<Rightarrow> builder \<Rightarrow> builder" where
  "history_card c parent refs b =
    (case b_history b (pc_NodeID c) of
       None \<Rightarrow> b
     | Some h \<Rightarrow>
        (case ch_card h of
           None \<Rightarrow> b
         | Some shown \<Rightarrow>
            step_counted
              (node (mk_node (NodeID ''history'' [str b (pc_CallID c)]) model_HistoryChange parent
                 (si_Name (pc_Stream c)) (Some (hd refs)) (ch_refs h) shown) b)))"

definition emitCall :: "provider_call \<Rightarrow> string \<Rightarrow> builder \<Rightarrow> builder" where
  "emitCall c parent b =
    (let refs = map (\<lambda>i. ref_of (entry_at b i)) (pc_Fragments c);
         stream = si_Name (pc_Stream c);
         b = node (mk_node (pc_NodeID c) KindLLMCall parent stream (Some (hd refs)) refs (call_attrs b c)) b;
         b = history_card c parent refs b;
         kind = (if pc_Synthetic c then KindMessageSynthetic else KindMessageAssistant)
     in fold (\<lambda>i b. fold (emit_block kind (pc_NodeID c) stream (entry_at b i)) (blocks_at b (entry_at b i)) b)
          (pc_Fragments c) b)"

text \<open>\<open>emitOutputWithoutCall\<close>: the output of agent records that name no call.\<close>

definition output_entry :: "nat \<Rightarrow> builder \<Rightarrow> builder" where
  "output_entry i b =
    (let e = entry_at b i in
     if e_Kind e \<noteq> KindAssistant \<or> e_Call e \<noteq> 0 then b
     else fold (emit_block (if Has (e_Flags e) FlagSynthetic then KindMessageSynthetic else KindMessageAssistant)
                  (containerOf b e) (streamName b e) e)
            (blocks_at b e) b)"

definition emitOutputWithoutCall :: "builder \<Rightarrow> builder" where
  "emitOutputWithoutCall b = fold output_entry (b_canonical b) b"

section \<open>Tools\<close>

definition manifestFor :: "builder \<Rightarrow> tool_use \<Rightarrow> entry option" where
  "manifestFor b t =
    (case tu_Result t of
       None \<Rightarrow> None
     | Some i \<Rightarrow>
        if e_Batch (entry_at b i) = 0 then None
        else map_option (entry_at b)
          (find (\<lambda>j. e_Kind (entry_at b j) = KindManifest \<and> e_Batch (entry_at b j) = e_Batch (entry_at b i))
             (b_canonical b)))"

definition tool_attrs :: "builder \<Rightarrow> tool_use \<Rightarrow> attr_map" where
  "tool_attrs b t =
    (let a = set_attr ''timing'' (AStr Unavailable) [];
         a = (if tu_Server t \<noteq> []
              then set_attr ''mcp_tool'' (AStr (tu_ServerTool t)) (set_attr ''mcp_server'' (AStr (tu_Server t)) a)
              else a);
         (res, quality) =
           (if tu_Ambiguous t then (ContentUnavailable, ExactAmbiguous)
            else if tu_Result t \<noteq> None then (ContentAvailable, ExactUnique)
            else (Unavailable, Unresolved_quality));
         a = set_attr ''result_join'' (AStr quality) (set_attr ''result'' (AStr res) a)
     in case manifestFor b t of
          Some m \<Rightarrow> if str b (e_Label m) \<noteq> [] then set_attr ''launched'' (AStr (str b (e_Label m))) a else a
        | None \<Rightarrow> a)"

definition tool_refs :: "builder \<Rightarrow> tool_use \<Rightarrow> nat \<Rightarrow> ref list" where
  "tool_refs b t use =
     [blockRef (entry_at b use) (tu_UseOrd t)] @
     (case tu_Result t of
        Some i \<Rightarrow> if tu_Ambiguous t then [] else [blockRef (entry_at b i) (tu_ResOrd t)]
      | None \<Rightarrow> []) @
     (case manifestFor b t of Some m \<Rightarrow> [ref_of m] | None \<Rightarrow> [])"

definition put_name :: "string \<Rightarrow> string \<Rightarrow> (string \<times> string) list \<Rightarrow> (string \<times> string) list" where
  "put_name k v m = filter (\<lambda>p. fst p \<noteq> k) m @ [(k, v)]"

definition emitTool :: "tool_use \<Rightarrow> nat \<Rightarrow> string \<Rightarrow> builder \<Rightarrow> builder" where
  "emitTool t use parent b =
    (let refs = tool_refs b t use;
         kind = (if tu_StartsAgent t then KindAgentCall else KindTool);
         b = node (mk_node (tu_NodeID t) kind parent (si_Name (tu_Stream t)) (Some (hd refs)) refs (tool_attrs b t)) b
     in step_counted (b\<lparr>b_toolName := put_name (tu_NodeID t) (tu_Name t) (b_toolName b)\<rparr>))"

text \<open>A tool sits in the call that asked for it, where that call is a node.\<close>

definition tool_parent :: "builder \<Rightarrow> entry \<Rightarrow> string" where
  "tool_parent b e =
    (let parent = NodeID ''call'' [str b (e_Call e)] in if has_node b parent then parent else containerOf b e)"

definition tool_step :: "tool_use \<Rightarrow> builder \<Rightarrow> builder" where
  "tool_step t b =
    (case tu_Use t of None \<Rightarrow> b | Some use \<Rightarrow> emitTool t use (tool_parent b (entry_at b use)) b)"

section \<open>Epochs\<close>

definition summarized :: "builder \<Rightarrow> entry \<Rightarrow> entry option" where
  "summarized b e =
    (if e_Parent e = 0 then None
     else case EntryByRecord (b_ix b) (str b (e_Parent e)) of
       Some (Some j) \<Rightarrow> if Has (e_Flags (entry_at b j)) FlagEpochBoundary then Some (entry_at b j) else None
     | _ \<Rightarrow> None)"

definition epoch_step :: "nat \<Rightarrow> builder \<Rightarrow> builder" where
  "epoch_step i b =
    (let e = entry_at b i in
     if Has (e_Flags e) FlagEpochBoundary then
       step_node (RefID ''boundary'' (ref_of e)) KindEpochBoundary (epochOf b e) (streamName b e) (ref_of e) [] b
     else if Has (e_Flags e) FlagEpochSummary then
       (let b = step_node (RefID ''summary'' (ref_of e)) KindEpochSummary (epochOf b e) (streamName b e) (ref_of e) [] b
        in case summarized b e of
             Some k \<Rightarrow> relate RelSummarizes (RefID ''summary'' (ref_of e)) (RefID ''boundary'' (ref_of k)) ExactUnique
                         ''containment parent'' [ref_of e] b
           | None \<Rightarrow> b)
     else b)"

definition emitEpochSteps :: "builder \<Rightarrow> builder" where
  "emitEpochSteps b = fold epoch_step (b_canonical b) b"

section \<open>Delegation\<close>

definition markReported :: "stream_info \<Rightarrow> builder \<Rightarrow> builder" where
  "markReported s b = b\<lparr>b_reported := (b_reported b)(si_ID s := True)\<rparr>"

definition reported_by :: "entry \<Rightarrow> string \<Rightarrow> spawn_edge \<Rightarrow> builder \<Rightarrow> builder" where
  "reported_by e notifyID ed b =
    (if se_Tool ed \<noteq> e_Tool e then b
     else case stream_by b (se_Stream ed) of
       None \<Rightarrow> b
     | Some child \<Rightarrow>
        markReported child (relate RelReports notifyID (si_NodeID child) StrongInference
          ''the call the notification completes'' [ref_of e] b))"

definition reportOn :: "entry \<Rightarrow> string \<Rightarrow> builder \<Rightarrow> builder" where
  "reportOn e notifyID b =
    (if e_Child e \<noteq> 0 then
       (case stream_by b (e_Child e) of
          Some child \<Rightarrow>
            markReported child (relate RelReports notifyID (si_NodeID child) ExactUnique
              ''task id on the notification'' [ref_of e] b)
        | None \<Rightarrow>
            open_ref ''notified_child'' (str b (e_Child e)) ''a notification names a child whose stream has not landed''
              (counted (\<lambda>s. s\<lparr>st_NotifyUnmatched := st_NotifyUnmatched s + 1\<rparr>) b))
     else if e_Tool e = 0 then b
     else fold (reported_by e notifyID) (b_spawnEdges b) b)"

definition notice_step :: "nat \<Rightarrow> builder \<Rightarrow> builder" where
  "notice_step i b =
    (let e = entry_at b i; parent = containerOf b e in
     if Has (e_Flags e) FlagLaunchAck then
       step_node (RefID ''ack'' (ref_of e)) KindAgentLaunchAck parent (streamName b e) (ref_of e) [] b
     else if e_Trigger e = TriggerNotification then
       (let b = step_node (RefID ''notify'' (ref_of e)) KindRuntimeNotification parent (streamName b e) (ref_of e) [] b;
            b = counted (\<lambda>s. s\<lparr>st_Notifications := st_Notifications s + 1\<rparr>) b
        in reportOn e (RefID ''notify'' (ref_of e)) b)
     else b)"

text \<open>The first journal record of what each child returned.\<close>

definition returned :: "builder \<Rightarrow> u32 \<Rightarrow> entry option" where
  "returned b v =
     map_option (entry_at b)
       (find (\<lambda>i. let e = entry_at b i in
                  e_Kind e = KindJournal \<and> Has (e_Flags e) FlagChildResult \<and> e_Child e \<noteq> 0 \<and> e_Child e = v)
          (b_canonical b))"

definition lastAssistant :: "builder \<Rightarrow> stream_info \<Rightarrow> entry option" where
  "lastAssistant b s =
     find (\<lambda>e. e_Kind e = KindAssistant \<and> \<not> Has (e_Flags e) FlagSynthetic) (map (entry_at b) (rev (si_Entries s)))"

text \<open>The one call that started a stream, when the edges that name a call agree on it.\<close>

fun one_call :: "spawn_edge option \<Rightarrow> spawn_edge list \<Rightarrow> spawn_edge option" where
  "one_call found [] = found"
| "one_call found (ed # eds) =
    (if se_Tool ed = 0 \<and> se_Batch ed = 0 then one_call found eds
     else case found of
       Some f \<Rightarrow> if se_Tool f \<noteq> se_Tool ed \<or> se_Batch f \<noteq> se_Batch ed then None else one_call found eds
     | None \<Rightarrow> one_call (Some ed) eds)"

text \<open>\<open>returnedTo\<close>: the call, the place of its request and of its result, and the edge.\<close>

definition returnedTo :: "builder \<Rightarrow> stream_info \<Rightarrow> (tool_use \<times> nat \<times> spawn_edge) option" where
  "returnedTo b s =
    (case one_call None (filter (\<lambda>ed. se_Stream ed = si_ID s) (b_spawnEdges b)) of
       None \<Rightarrow> None
     | Some found \<Rightarrow>
        if se_Batch found \<noteq> 0 \<or> b_reported b (si_ID s) then None
        else case tool_by b (se_Tool found) of
          None \<Rightarrow> None
        | Some t \<Rightarrow>
           (case (tu_Use t, tu_Result t) of
              (Some use, Some res) \<Rightarrow>
                if tu_Ambiguous t \<or> Has (e_Flags (entry_at b res)) FlagLaunchAck \<or>
                   list_ex (\<lambda>p. p \<noteq> e_Stream (entry_at b use)) (b_startedBy b (si_ID s)) \<or>
                   \<not> has_node b (tu_NodeID t)
                then None else Some (t, res, found)
            | _ \<Rightarrow> None))"

definition child_output :: "stream_info \<Rightarrow> builder \<Rightarrow> builder" where
  "child_output s b =
    (if si_Role s \<noteq> StreamChild then b
     else case (lastAssistant b s, returned b (si_ID s)) of
       (None, None) \<Rightarrow> b
     | (fin, res) \<Rightarrow>
        (let primary = (case fin of Some e \<Rightarrow> e | None \<Rightarrow> the res);
             refs = [ref_of primary] @ (if fin \<noteq> None \<and> res \<noteq> None then [ref_of (the res)] else []) @
                    (case returnedTo b s of Some (t, i, _) \<Rightarrow> [blockRef (entry_at b i) (tu_ResOrd t)] | None \<Rightarrow> []);
             back = returnedTo b s;
             a = set_attr ''returned_value''
                   (AStr (if res \<noteq> None \<or> back \<noteq> None then ObservedReplayable else Unavailable)) [];
             ident = NodeID ''output'' [si_Name s];
             b = step_counted (node (mk_node ident KindAgentOutput (containerOf b primary) (si_Name s)
                   (Some (hd refs)) refs a) b);
             b = relate RelEndsWith (si_NodeID s) ident ExactUnique
                   ''the last response in the child stream, and what it returned'' refs b
         in case back of
              Some (t, i, ed) \<Rightarrow>
                relate RelResultOf ident (tu_NodeID t) (se_Quality ed)
                  ''the result the call that started this stream received''
                  [blockRef (entry_at b i) (tu_ResOrd t)] b
            | None \<Rightarrow> b))"

definition auxiliary_output :: "stream_info \<Rightarrow> builder \<Rightarrow> builder" where
  "auxiliary_output s b =
    (if si_Role s \<noteq> StreamAuxiliary then b
     else case lastAssistant b s of
       None \<Rightarrow> b
     | Some fin \<Rightarrow>
        if e_Call fin = 0 \<or> \<not> has_node b (NodeID ''call'' [str b (e_Call fin)]) then b
        else case returnedTo b s of
          None \<Rightarrow> b
        | Some (t, i, ed) \<Rightarrow>
            relate RelResultOf (NodeID ''call'' [str b (e_Call fin)]) (tu_NodeID t) (se_Quality ed)
              ''the result the tool that started this stream received''
              [ref_of fin, blockRef (entry_at b i) (tu_ResOrd t)] b)"

definition emitDelegationSteps :: "builder \<Rightarrow> builder" where
  "emitDelegationSteps b =
    (let b = fold notice_step (b_canonical b) b;
         b = fold child_output (b_streams b) b
     in fold auxiliary_output (b_streams b) b)"

definition spawn_relation :: "spawn_edge \<Rightarrow> builder \<Rightarrow> builder" where
  "spawn_relation ed b =
    (case stream_by b (se_Stream ed) of
       None \<Rightarrow> b
     | Some child \<Rightarrow>
        (let src = NodeID ''tool'' [str b (se_Tool ed)] in
         if has_node b src then relate RelStarts src (si_NodeID child) (se_Quality ed) (se_Via ed) [se_Ref ed] b else b))"

definition emitSpawnRelations :: "builder \<Rightarrow> builder" where
  "emitSpawnRelations b = fold spawn_relation (b_spawnEdges b) b"

section \<open>Input and control\<close>

definition input_step :: "nat \<Rightarrow> builder \<Rightarrow> builder" where
  "input_step i b =
    (let e = entry_at b i in
     if Has (e_Flags e) FlagExternalInput then
       step_node (RefID ''input'' (ref_of e)) KindMessageExternal (containerOf b e) (streamName b e) (ref_of e) [] b
     else if Has (e_Flags e) FlagInjection then
       step_node (RefID ''inject'' (ref_of e)) KindContextInjection (containerOf b e) (streamName b e) (ref_of e) [] b
     else b)"

definition emitInputSteps :: "builder \<Rightarrow> builder" where
  "emitInputSteps b = fold input_step (b_canonical b) b"

definition control_of :: "entry \<Rightarrow> (string \<times> string \<times> attr_map) option" where
  "control_of e =
    (if Has (e_Flags e) FlagError
     then Some (KindErrorAPI, ''error'', set_attr ''retry_state'' (AStr Unavailable) [])
     else if Has (e_Flags e) FlagTurnDuration
     then Some (KindTurnDuration, ''turn'', set_attr ''measured_by'' (AStr ObservedReplayable) [])
     else if Has (e_Flags e) FlagCommand then Some (KindControlCommand, ''command'', [])
     else if Has (e_Flags e) FlagNotice then Some (KindControlNotice, ''notice'', [])
     else None)"

definition control_step :: "nat \<Rightarrow> builder \<Rightarrow> builder" where
  "control_step i b =
    (let e = entry_at b i in
     case control_of e of
       None \<Rightarrow> b
     | Some (kind, pre, a) \<Rightarrow>
         step_node (RefID pre (ref_of e)) kind (containerOf b e) (streamName b e) (ref_of e) a b)"

definition emitControlSteps :: "builder \<Rightarrow> builder" where
  "emitControlSteps b = fold control_step (b_canonical b) b"

definition emitSteps :: "builder \<Rightarrow> builder" where
  "emitSteps b =
    (let b = fold (\<lambda>c b. emitCall c (containerOf b (entry_at b (hd (pc_Fragments c)))) b) (b_calls b) b;
         b = emitOutputWithoutCall b;
         b = fold tool_step (b_tools b) b;
         b = emitEpochSteps b;
         b = emitDelegationSteps b;
         b = emitInputSteps b;
         b = emitControlSteps b
     in emitSpawnRelations b)"

section \<open>The session\<close>

record asm_result =
  rs_Nodes :: "node list"
  rs_Relations :: "relation list"
  rs_Unresolved :: "unresolved list"
  rs_Stats :: asm_stats
  rs_ToolCalls :: "string \<Rightarrow> nat"
  rs_ThroughSeq :: u64

definition by_ident :: "'a entity_scheme \<Rightarrow> 'a entity_scheme \<Rightarrow> bool" where
  "by_ident x y \<longleftrightarrow> en_ID x < en_ID y"

definition result :: "builder \<Rightarrow> asm_result" where
  "result b =
    \<lparr>rs_Nodes = sort_by by_ident (b_nodes b),
     rs_Relations = sort_by by_ident (b_rels b),
     rs_Unresolved = sort_by by_ident (b_unres b),
     rs_Stats = b_stats b,
     rs_ToolCalls = (\<lambda>n. length (filter (\<lambda>p. snd p = n) (b_toolName b))),
     rs_ThroughSeq =
       (if op_ThroughSeq (b_opt b) = 0
        then foldl (\<lambda>m e. if ucast (e_Seq e) > m then ucast (e_Seq e) else m) 0 (ix_Entries (b_ix b))
        else op_ThroughSeq (b_opt b))\<rparr>"

text \<open>The stages in their order, over an index already cut and built.\<close>

definition assemble :: "index \<Rightarrow> asm_options \<Rightarrow> int \<Rightarrow> builder option" where
  "assemble ix opt beyond =
     map_option (emitSteps \<circ> compareHistories \<circ> joinProviderBodies \<circ> stage8Segments \<circ> stage7Talks \<circ> stage6Epochs \<circ>
       stage5Spawns \<circ> stage4Tools \<circ> stage3Calls \<circ> stage2Streams)
       (stage1Canonical (counted (\<lambda>s. s\<lparr>st_Beyond := beyond\<rparr>) (new_builder ix opt)))"

definition ErrNoConversation :: string where
  "ErrNoConversation = ''assemble: conversation identity is supplied, never inferred''"

text \<open>\<open>Session\<close>; \<open>None\<close> where the code panics.\<close>

definition Session :: "index \<Rightarrow> asm_options \<Rightarrow> (string + asm_result) option" where
  "Session ix opt =
    (if op_Conversation opt = [] then Some (Inl ErrNoConversation)
     else
       let opt = (if op_IdleGap opt = 0 then opt\<lparr>op_IdleGap := DefaultIdleGap\<rparr> else opt)
       in Option.bind (Through ix (op_ThroughSeq opt)) (\<lambda>jx.
          Option.bind (Build jx) (\<lambda>jx.
            map_option (Inr \<circ> result)
              (assemble jx opt (int (length (ix_Entries ix)) - int (length (ix_Entries jx)))))))"

end
