(* ===== verification/Asm_Shape.thy ===== *)
theory Asm_Shape
  imports Asm_Emit
begin

text \<open>
  The shape of an assembled conversation: no id twice, every parent a node, every edge between nodes. Each
  stage keeps what the ones before it built; what a record's container, epoch and stream say is a node is
  carried through them as one invariant.
\<close>

section \<open>Ids\<close>

definition ids_of_list :: "'a entity_scheme list \<Rightarrow> string set" where
  "ids_of_list xs = en_ID ` set xs"

lemma ids_of_list_simps [simp]:
  "ids_of_list [] = {}"
  "ids_of_list (x # xs) = insert (en_ID x) (ids_of_list xs)"
  "ids_of_list (xs @ ys) = ids_of_list xs \<union> ids_of_list ys"
  by (auto simp: ids_of_list_def)

lemma get_by_id_None: "get_by_id i xs = None \<longleftrightarrow> i \<notin> ids_of_list xs"
  by (auto simp: get_by_id_def find_None_iff ids_of_list_def)

lemma ids_put_by_id [simp]: "ids_of_list (put_by_id x xs) = insert (en_ID x) (ids_of_list xs)"
  by (auto simp: put_by_id_def ids_of_list_def)

lemma distinct_put_by_id: "distinct (map en_ID xs) \<Longrightarrow> distinct (map en_ID (put_by_id x xs))"
  by (auto simp: put_by_id_def distinct_map_filter)

lemma set_put_by_id: "y \<in> set (put_by_id x xs) \<Longrightarrow> y = x \<or> y \<in> set xs"
  by (auto simp: put_by_id_def)

abbreviation node_ids :: "builder \<Rightarrow> string set" where
  "node_ids b \<equiv> ids_of_list (b_nodes b)"

lemma has_node_iff: "has_node b i \<longleftrightarrow> i \<in> node_ids b"
  by (simp add: has_node_def get_by_id_None)

section \<open>What the writers leave alone\<close>

lemma node_fields [simp]:
  "b_ix (node n b) = b_ix b" "b_opt (node n b) = b_opt b" "b_rels (node n b) = b_rels b"
  "b_unres (node n b) = b_unres b" "b_stats (node n b) = b_stats b" "b_canonical (node n b) = b_canonical b"
  "b_streams (node n b) = b_streams b" "b_calls (node n b) = b_calls b" "b_tools (node n b) = b_tools b"
  "b_epochs (node n b) = b_epochs b" "b_talks (node n b) = b_talks b" "b_segments (node n b) = b_segments b"
  "b_spawnEdges (node n b) = b_spawnEdges b" "b_container (node n b) = b_container b"
  "b_epochAt (node n b) = b_epochAt b" "b_talkOfRun (node n b) = b_talkOfRun b"
  "b_runNode (node n b) = b_runNode b" "b_runAt (node n b) = b_runAt b"
  "node_ids (node n b) = insert (en_ID n) (node_ids b)"
  by (simp_all add: node_def)

lemma relate_fields [simp]:
  "b_ix (relate t s d q v e b) = b_ix b" "b_opt (relate t s d q v e b) = b_opt b"
  "b_nodes (relate t s d q v e b) = b_nodes b" "b_unres (relate t s d q v e b) = b_unres b"
  "b_canonical (relate t s d q v e b) = b_canonical b" "b_streams (relate t s d q v e b) = b_streams b"
  "b_calls (relate t s d q v e b) = b_calls b" "b_tools (relate t s d q v e b) = b_tools b"
  "b_epochs (relate t s d q v e b) = b_epochs b" "b_talks (relate t s d q v e b) = b_talks b"
  "b_segments (relate t s d q v e b) = b_segments b" "b_spawnEdges (relate t s d q v e b) = b_spawnEdges b"
  "b_container (relate t s d q v e b) = b_container b" "b_epochAt (relate t s d q v e b) = b_epochAt b"
  "b_talkOfRun (relate t s d q v e b) = b_talkOfRun b" "b_runNode (relate t s d q v e b) = b_runNode b"
  by (auto simp: relate_def Let_def split: option.splits)

lemma open_ref_fields [simp]:
  "b_ix (open_ref k m r b) = b_ix b" "b_opt (open_ref k m r b) = b_opt b"
  "b_nodes (open_ref k m r b) = b_nodes b" "b_rels (open_ref k m r b) = b_rels b"
  "b_canonical (open_ref k m r b) = b_canonical b" "b_streams (open_ref k m r b) = b_streams b"
  "b_calls (open_ref k m r b) = b_calls b" "b_tools (open_ref k m r b) = b_tools b"
  "b_epochs (open_ref k m r b) = b_epochs b" "b_talks (open_ref k m r b) = b_talks b"
  "b_segments (open_ref k m r b) = b_segments b" "b_spawnEdges (open_ref k m r b) = b_spawnEdges b"
  "b_container (open_ref k m r b) = b_container b" "b_epochAt (open_ref k m r b) = b_epochAt b"
  "b_talkOfRun (open_ref k m r b) = b_talkOfRun b" "b_runNode (open_ref k m r b) = b_runNode b"
  by (auto simp: open_ref_def Let_def)

lemma counted_fields [simp]:
  "b_ix (counted f b) = b_ix b" "b_opt (counted f b) = b_opt b"
  "b_nodes (counted f b) = b_nodes b" "b_rels (counted f b) = b_rels b" "b_unres (counted f b) = b_unres b"
  "b_canonical (counted f b) = b_canonical b" "b_streams (counted f b) = b_streams b"
  "b_calls (counted f b) = b_calls b" "b_tools (counted f b) = b_tools b"
  "b_epochs (counted f b) = b_epochs b" "b_talks (counted f b) = b_talks b"
  "b_segments (counted f b) = b_segments b" "b_spawnEdges (counted f b) = b_spawnEdges b"
  "b_container (counted f b) = b_container b" "b_epochAt (counted f b) = b_epochAt b"
  "b_talkOfRun (counted f b) = b_talkOfRun b" "b_runNode (counted f b) = b_runNode b"
  by (simp_all add: counted_def)

lemma mk_node_fields [simp]:
  "en_ID (mk_node i k p s r rs a) = i" "n_Parent (mk_node i k p s r rs a) = p" "n_Kind (mk_node i k p s r rs a) = k"
  by (simp_all add: mk_node_def)

section \<open>The invariant\<close>

text \<open>The output so far: no id twice, parents and ends of edges among the nodes. A summary may name a
  boundary that is not written yet, or not at all.\<close>

definition wired :: "builder \<Rightarrow> bool" where
  "wired b \<longleftrightarrow>
     distinct (map en_ID (b_nodes b)) \<and> distinct (map en_ID (b_rels b)) \<and> distinct (map en_ID (b_unres b)) \<and>
     (\<forall>n \<in> set (b_nodes b). n_Parent n = [] \<or> n_Parent n \<in> node_ids b) \<and>
     (\<forall>r \<in> set (b_rels b). rel_From r \<in> node_ids b \<and> (rel_Type r = RelSummarizes \<or> rel_To r \<in> node_ids b))"

text \<open>What the tables of the builder say is a node is one.\<close>

definition placed :: "builder \<Rightarrow> bool" where
  "placed b \<longleftrightarrow>
     session_node b \<in> node_ids b \<and> si_NodeID ` set (b_streams b) \<subseteq> node_ids b \<and>
     ep_NodeID ` set (b_epochs b) \<subseteq> node_ids b \<and> ran (b_epochAt b) \<subseteq> node_ids b \<and>
     ran (b_container b) \<subseteq> node_ids b"

definition ready :: "builder \<Rightarrow> bool" where
  "ready b \<longleftrightarrow> wired b \<and> placed b"

lemma wired_cong:
  "b_nodes c = b_nodes b \<Longrightarrow> b_rels c = b_rels b \<Longrightarrow> b_unres c = b_unres b \<Longrightarrow> wired c = wired b"
  by (simp add: wired_def)

lemma placed_cong:
  "b_nodes c = b_nodes b \<Longrightarrow> b_streams c = b_streams b \<Longrightarrow> b_epochs c = b_epochs b \<Longrightarrow>
   b_epochAt c = b_epochAt b \<Longrightarrow> b_container c = b_container b \<Longrightarrow> b_opt c = b_opt b \<Longrightarrow> placed c = placed b"
  by (simp add: placed_def session_node_def)

lemma wired_node [intro]:
  "wired b \<Longrightarrow> n_Parent n = [] \<or> n_Parent n = en_ID n \<or> n_Parent n \<in> node_ids b \<Longrightarrow> wired (node n b)"
  by (auto simp: wired_def node_def distinct_put_by_id dest!: set_put_by_id)

lemma rel_merge_simps [simp]:
  "en_ID (merge_relation q v e r) = en_ID r" "rel_From (merge_relation q v e r) = rel_From r"
  "rel_To (merge_relation q v e r) = rel_To r" "rel_Type (merge_relation q v e r) = rel_Type r"
  by (simp_all add: merge_relation_def Let_def)

lemma wired_relate [intro]:
  assumes "wired b" "src \<in> node_ids b" "typ = RelSummarizes \<or> dst \<in> node_ids b"
  shows "wired (relate typ src dst q v e b)"
proof (cases "get_by_id (RelationID typ src dst) (b_rels b)")
  case None
  then have eq: "relate typ src dst q v e b =
      b\<lparr>b_rels := b_rels b @ [zero_relation\<lparr>en_ID := RelationID typ src dst, rel_Type := typ, rel_From := src,
        rel_To := dst, rel_Quality := q, rel_Via := v, rel_Evidence := filter (\<lambda>e. r_Seq e \<noteq> 0) e\<rparr>]\<rparr>"
    by (simp add: relate_def Let_def)
  have "RelationID typ src dst \<notin> en_ID ` set (b_rels b)"
    using None by (simp add: get_by_id_None ids_of_list_def)
  with assms show ?thesis unfolding eq by (auto simp: wired_def zero_relation_def)
next
  case (Some r)
  then have eq: "relate typ src dst q v e b =
      b\<lparr>b_rels := map (\<lambda>r. if en_ID r = RelationID typ src dst
        then merge_relation q v (filter (\<lambda>e. r_Seq e \<noteq> 0) e) r else r) (b_rels b)\<rparr>"
    by (simp add: relate_def Let_def)
  have [simp]: "en_ID \<circ> (\<lambda>r. if P r then merge_relation q v k r else r) = en_ID" for P k
    by (rule ext) simp
  with assms show ?thesis unfolding eq by (auto simp: wired_def)
qed

lemma wired_open_ref [intro]: "wired b \<Longrightarrow> wired (open_ref k m r b)"
  by (auto simp: open_ref_def wired_def Let_def get_by_id_None zero_unresolved_def ids_of_list_def)

lemma placed_node [intro]: "placed b \<Longrightarrow> placed (node n b)"
  by (auto simp: placed_def session_node_def)

lemma ready_node [intro]:
  "ready b \<Longrightarrow> n_Parent n = [] \<or> n_Parent n \<in> node_ids b \<Longrightarrow> ready (node n b)"
  unfolding ready_def by blast

lemma ready_relate [intro]:
  "ready b \<Longrightarrow> src \<in> node_ids b \<Longrightarrow> typ = RelSummarizes \<or> dst \<in> node_ids b \<Longrightarrow>
   ready (relate typ src dst q v e b)"
  unfolding ready_def using placed_cong [of "relate typ src dst q v e b" b] by auto

lemma ready_open_ref [intro]: "ready b \<Longrightarrow> ready (open_ref k m r b)"
  unfolding ready_def using placed_cong [of "open_ref k m r b" b] by auto

lemma ready_cong:
  "b_nodes c = b_nodes b \<Longrightarrow> b_rels c = b_rels b \<Longrightarrow> b_unres c = b_unres b \<Longrightarrow> b_streams c = b_streams b \<Longrightarrow>
   b_epochs c = b_epochs b \<Longrightarrow> b_epochAt c = b_epochAt b \<Longrightarrow> b_container c = b_container b \<Longrightarrow>
   b_opt c = b_opt b \<Longrightarrow> ready c = ready b"
  using wired_cong [of c b] placed_cong [of c b] by (simp add: ready_def)

lemma ready_counted [simp]: "ready (counted f b) = ready b"
  by (rule ready_cong) simp_all

lemma ready_fields [simp]:
  "ready (b\<lparr>b_toolName := x1\<rparr>) = ready b" "ready (b\<lparr>b_canonical := x2\<rparr>) = ready b"
  "ready (b\<lparr>b_calls := x3\<rparr>) = ready b" "ready (b\<lparr>b_tools := x4\<rparr>) = ready b"
  "ready (b\<lparr>b_talks := x5\<rparr>) = ready b" "ready (b\<lparr>b_segments := x6\<rparr>) = ready b"
  "ready (b\<lparr>b_spawnEdges := x7\<rparr>) = ready b" "ready (b\<lparr>b_startedBy := x8\<rparr>) = ready b"
  "ready (b\<lparr>b_bodiesOfCall := x9\<rparr>) = ready b" "ready (b\<lparr>b_requestRow := xa\<rparr>) = ready b"
  "ready (b\<lparr>b_responseRow := xb\<rparr>) = ready b" "ready (b\<lparr>b_history := xc\<rparr>) = ready b"
  "ready (b\<lparr>b_reported := xd\<rparr>) = ready b" "ready (b\<lparr>b_talkOfRun := xe\<rparr>) = ready b"
  "ready (b\<lparr>b_runNode := xf\<rparr>) = ready b" "ready (b\<lparr>b_runAt := xg\<rparr>) = ready b"
  by (rule ready_cong; simp)+

lemma fold_invariant:
  "P b \<Longrightarrow> (\<And>x b. x \<in> set xs \<Longrightarrow> P b \<Longrightarrow> P (f x b)) \<Longrightarrow> P (fold f xs b)"
  by (induction xs arbitrary: b) auto

lemma ready_session: "ready b \<Longrightarrow> session_node b \<in> node_ids b"
  by (simp add: ready_def placed_def)

lemma stream_by_in: "stream_by b v = Some s \<Longrightarrow> s \<in> set (b_streams b) \<and> si_ID s = v"
  by (auto simp: stream_by_def find_Some_iff)

lemma ready_stream: "ready b \<Longrightarrow> stream_by b v = Some s \<Longrightarrow> si_NodeID s \<in> node_ids b"
  by (auto simp: ready_def placed_def dest!: stream_by_in)

lemma ready_container: "ready b \<Longrightarrow> containerOf b e \<in> node_ids b"
  using ready_session [of b] ready_stream [of b "e_Stream e"]
  by (auto simp: containerOf_def ready_def placed_def split: option.splits dest: ranI)

lemma ready_epoch: "ready b \<Longrightarrow> epochOf b e = [] \<or> epochOf b e \<in> node_ids b"
  using ready_stream [of b "e_Stream e"]
  by (auto simp: epochOf_def ready_def placed_def split: option.splits dest: ranI)

section \<open>The leaves\<close>

lemma step_node_ids [simp]: "node_ids (step_node i k p s r a b) = insert i (node_ids b)"
  by (simp add: step_node_def step_counted_def)

lemma step_node_ix [simp]: "b_ix (step_node i k p s r a b) = b_ix b"
  by (simp add: step_node_def step_counted_def)

lemma ready_step_counted [simp]: "ready (step_counted b) = ready b"
  by (simp add: step_counted_def)

lemma ready_step_node [intro]: "ready b \<Longrightarrow> p = [] \<or> p \<in> node_ids b \<Longrightarrow> ready (step_node i k p s r a b)"
  unfolding step_node_def by (simp add: ready_node)

text \<open>Leaves are only added: the nodes there stay.\<close>

definition within :: "string set \<Rightarrow> builder \<Rightarrow> bool" where
  "within N b \<longleftrightarrow> ready b \<and> N \<subseteq> node_ids b"

lemma within_ready: "within {} b = ready b"
  by (simp add: within_def)

lemma within_emit_block:
  "within N b \<Longrightarrow> p \<in> N \<Longrightarrow> within N (emit_block k p s e blk b)"
  by (auto simp: within_def emit_block_def)

lemma ready_blocks:
  assumes "ready b" "p \<in> node_ids b"
  shows "within {p} (fold (emit_block k p s e) ks b)"
proof -
  have "within {p} b" using assms by (simp add: within_def)
  then show ?thesis by (rule fold_invariant) (rule within_emit_block; simp)
qed

lemma ready_history_card: "within {p, c'} b \<Longrightarrow> within {p, c'} (history_card c p refs b)"
  by (auto simp: history_card_def within_def step_counted_def split: option.splits)

lemma ready_emitCall:
  assumes "ready b" "p \<in> node_ids b"
  shows "ready (emitCall c p b)"
proof -
  let ?i = "pc_NodeID c"
  have 1: "within {p, ?i} (node (mk_node ?i KindLLMCall p s r rs a) b)" for s r rs a
    using assms by (auto simp: within_def)
  have 2: "within {?i} (history_card c p refs (node (mk_node ?i KindLLMCall p s r rs a) b))" for s r rs a refs
    using ready_history_card [OF 1] by (auto simp: within_def)
  have "within {?i} (emitCall c p b)"
    unfolding emitCall_def Let_def
    by (intro fold_invariant [where P = "within {?i}"] within_emit_block 2) auto
  then show ?thesis by (simp add: within_def)
qed

lemma ready_output_entry: "ready b \<Longrightarrow> ready (output_entry i b)"
  using ready_blocks [OF _ ready_container] by (auto simp: output_entry_def Let_def within_def)

lemma ready_emitTool: "ready b \<Longrightarrow> p \<in> node_ids b \<Longrightarrow> ready (emitTool t u p b)"
  by (auto simp: emitTool_def Let_def)

lemma ready_tool_step: "ready b \<Longrightarrow> ready (tool_step t b)"
  by (auto simp: tool_step_def tool_parent_def Let_def has_node_iff
      intro!: ready_emitTool ready_container split: option.splits)

lemma ready_epoch_step: "ready b \<Longrightarrow> ready (epoch_step i b)"
  using ready_epoch [of b "entry_at b i"] by (auto simp: epoch_step_def Let_def split: option.splits)

lemma ready_markReported [simp]: "ready (markReported s b) = ready b"
  by (simp add: markReported_def)

lemma markReported_fields [simp]: "node_ids (markReported s b) = node_ids b"
  by (simp add: markReported_def)

lemma ready_reported_by: "within {n} b \<Longrightarrow> within {n} (reported_by e n ed b)"
  using ready_stream by (auto simp: reported_by_def within_def split: option.splits)

lemma ready_reportOn:
  assumes "ready b" "n \<in> node_ids b"
  shows "ready (reportOn e n b)"
proof -
  have "within {n} b" using assms by (simp add: within_def)
  then have "within {n} (fold (reported_by e n) eds b)" for eds
    by (rule fold_invariant) (rule ready_reported_by)
  then show ?thesis
    using assms ready_stream by (auto simp: reportOn_def within_def split: option.splits)
qed

lemma ready_notice_step: "ready b \<Longrightarrow> ready (notice_step i b)"
  by (auto simp: notice_step_def Let_def intro!: ready_reportOn ready_container)

lemma returnedTo_node: "returnedTo b s = Some (t, i, ed) \<Longrightarrow> tu_NodeID t \<in> node_ids b"
  by (auto simp: returnedTo_def has_node_iff split: option.splits if_splits)

lemma within_child_output:
  assumes "within N b" "si_NodeID s \<in> N"
  shows "within N (child_output s b)"
  using assms returnedTo_node [of b s]
  by (auto simp: within_def child_output_def Let_def step_counted_def
      intro!: ready_relate ready_node ready_container split: option.splits)

lemma ready_auxiliary_output: "ready b \<Longrightarrow> ready (auxiliary_output s b)"
  by (auto simp: auxiliary_output_def has_node_iff dest: returnedTo_node split: option.splits)

lemma ready_spawn_relation: "ready b \<Longrightarrow> ready (spawn_relation ed b)"
  by (auto simp: spawn_relation_def Let_def has_node_iff dest: ready_stream split: option.splits)

lemma ready_input_step: "ready b \<Longrightarrow> ready (input_step i b)"
  by (auto simp: input_step_def Let_def ready_container)

lemma ready_control_step: "ready b \<Longrightarrow> ready (control_step i b)"
  by (auto simp: control_step_def Let_def ready_container split: option.splits)

lemma ready_delegation:
  assumes "ready b"
  shows "ready (emitDelegationSteps b)"
proof -
  have 1: "ready (fold notice_step js b)" for js
    using assms by (rule fold_invariant) (rule ready_notice_step)
  have 2: "ready (fold child_output (b_streams c) c)" if "ready c" for c
  proof -
    have "within (si_NodeID ` set (b_streams c)) c"
      using that by (auto simp: within_def ready_def placed_def)
    then have "within (si_NodeID ` set (b_streams c)) (fold child_output (b_streams c) c)"
      by (rule fold_invariant) (rule within_child_output; simp)
    then show ?thesis by (simp add: within_def)
  qed
  show ?thesis
    unfolding emitDelegationSteps_def Let_def
    by (rule fold_invariant) (rule 2 [OF 1], rule ready_auxiliary_output)
qed

lemma ready_emitSteps:
  assumes "ready b"
  shows "ready (emitSteps b)"
  unfolding emitSteps_def Let_def emitOutputWithoutCall_def emitEpochSteps_def emitInputSteps_def
    emitControlSteps_def emitSpawnRelations_def
  by (intro fold_invariant [where P = ready] ready_delegation ready_spawn_relation ready_control_step ready_input_step
      ready_epoch_step ready_tool_step ready_output_entry ready_emitCall ready_container assms)

section \<open>The first stages\<close>

text \<open>All but the containers, which stage 7 fills before their nodes are written.\<close>

definition based :: "builder \<Rightarrow> bool" where
  "based b \<longleftrightarrow> wired b \<and> session_node b \<in> node_ids b \<and> si_NodeID ` set (b_streams b) \<subseteq> node_ids b \<and>
     ep_NodeID ` set (b_epochs b) \<subseteq> node_ids b \<and> ran (b_epochAt b) \<subseteq> node_ids b"

lemma ready_based: "ready b \<longleftrightarrow> based b \<and> ran (b_container b) \<subseteq> node_ids b"
  by (auto simp: ready_def based_def placed_def)

lemma session_node_eq: "b_opt c = b_opt b \<Longrightarrow> session_node c = session_node b"
  by (simp add: session_node_def)

lemma based_node [intro]: "based b \<Longrightarrow> n_Parent n = [] \<or> n_Parent n \<in> node_ids b \<Longrightarrow> based (node n b)"
  unfolding based_def session_node_eq [OF node_fields(2)] by auto

lemma stream_nodes:
  assumes "wired b" "session_node b \<in> node_ids b"
  shows "wired (fold stream_node xs b) \<and> node_ids (fold stream_node xs b) = si_NodeID ` set xs \<union> node_ids b \<and>
    b_streams (fold stream_node xs b) = b_streams b \<and> b_opt (fold stream_node xs b) = b_opt b \<and>
    b_epochs (fold stream_node xs b) = b_epochs b \<and> b_epochAt (fold stream_node xs b) = b_epochAt b \<and>
    b_container (fold stream_node xs b) = b_container b \<and> b_ix (fold stream_node xs b) = b_ix b \<and>
    b_canonical (fold stream_node xs b) = b_canonical b \<and> b_talks (fold stream_node xs b) = b_talks b \<and>
    b_runNode (fold stream_node xs b) = b_runNode b \<and> b_talkOfRun (fold stream_node xs b) = b_talkOfRun b"
  using assms
proof (induction xs arbitrary: b)
  case (Cons s xs)
  have "wired (stream_node s b)" using Cons.prems by (auto simp: stream_node_def)
  moreover have "session_node (stream_node s b) = session_node b"
    by (simp add: session_node_def stream_node_def)
  ultimately show ?case
    using Cons.IH [of "stream_node s b"] Cons.prems by (simp add: stream_node_def)
qed simp

text \<open>A builder stage 1 leaves: nothing written yet.\<close>

definition blank :: "builder \<Rightarrow> bool" where
  "blank b \<longleftrightarrow> b_nodes b = [] \<and> b_rels b = [] \<and> b_unres b = [] \<and> b_epochs b = [] \<and>
     b_epochAt b = (\<lambda>_. None) \<and> b_container b = (\<lambda>_. None) \<and> b_talks b = [] \<and> b_runNode b = (\<lambda>_. None) \<and>
     b_talkOfRun b = (\<lambda>_. None) \<and> b_segments b = []"

lemma blank_stage1: "stage1Canonical (counted f (new_builder ix opt)) = Some b \<Longrightarrow> blank b"
  by (auto simp: stage1Canonical_def blank_def new_builder_def Let_def counted_def)

lemma ready_stage2:
  assumes "blank b"
  shows "ready (stage2Streams b)"
proof -
  let ?n = "mk_node (session_node b) KindSession [] [] None [] (session_attrs b)"
  let ?c = "node ?n b" and ?d = "(node ?n b)\<lparr>b_streams := sort_by by_name (foldl (stream_entry (node ?n b)) [] (b_canonical b))\<rparr>"
  have "wired b" using assms by (simp add: wired_def blank_def)
  then have "wired ?c" by (rule wired_node) simp
  then have w: "wired ?d" by (simp add: wired_def)
  have "session_node ?d \<in> node_ids ?d" by (simp add: session_node_def)
  from stream_nodes [OF w this, of "b_streams ?d"] assms show ?thesis
    unfolding stage2Streams_def Let_def ready_counted
    by (auto simp: ready_def placed_def blank_def session_node_def)
qed

lemma ready_stage3: "ready b \<Longrightarrow> ready (stage3Calls b)"
  by (simp add: stage3Calls_def Let_def)

lemma ready_check_tool: "ready b \<Longrightarrow> ready (check_tool t b)"
  by (auto simp: check_tool_def Let_def)

lemma ready_stage4: "ready b \<Longrightarrow> ready (stage4Tools b)"
  unfolding stage4Tools_def Let_def by (rule fold_invariant) (simp_all add: ready_check_tool)

lemma ready_resolve_edge: "ready (fst st) \<Longrightarrow> ready (fst (resolve_edge ed st))"
  by (cases st) (auto simp: resolve_edge_def spawn_resolved_def markAgentCall_def Let_def split: option.splits)

lemma ready_stage5:
  assumes "ready b"
  shows "ready (stage5Spawns b)"
proof -
  have "ready (fst (fold resolve_edge eds (b\<lparr>b_startedBy := (\<lambda>_. [])\<rparr>, {})))" for eds
    by (rule fold_invariant [where P = "\<lambda>st. ready (fst st)"]) (use assms in \<open>simp_all add: ready_resolve_edge\<close>)
  moreover have "ready (fold (orphan sp) ss c)" if "ready c" for sp ss c
    using that by (rule fold_invariant) (auto simp: orphan_def)
  ultimately show ?thesis
    unfolding stage5Spawns_def by (auto split: prod.splits) (metis fst_conv)
qed

section \<open>Epochs\<close>

lemma ran_fold_upd: "ran (fold (\<lambda>k m. m(f k \<mapsto> i)) ks m) \<subseteq> insert i (ran m)"
proof (induction ks arbitrary: m)
  case (Cons k ks)
  then show ?case using Cons.IH [of "m(f k \<mapsto> i)"] by (force simp: ran_def split: if_splits)
qed auto

text \<open>A stage that has named a node it is about to write.\<close>

lemma ready_naming:
  assumes "wired b" "session_node b \<in> insert i (node_ids b)" "si_NodeID ` set (b_streams b) \<subseteq> insert i (node_ids b)"
    and "ep_NodeID ` set (b_epochs b) \<subseteq> insert i (node_ids b)" "ran (b_epochAt b) \<subseteq> insert i (node_ids b)"
    and "ran (b_container b) \<subseteq> insert i (node_ids b)" "p = [] \<or> p \<in> node_ids b"
  shows "ready (node (mk_node i k p s r rs a) b)"
  using assms by (auto simp: ready_def placed_def session_node_def)

lemma ready_emit_epoch:
  assumes b: "ready b" and s: "si_NodeID s \<in> node_ids b" and prev: "prev = [] \<or> prev \<in> node_ids b"
  shows "ready (emit_epoch s es cuts start fin prev b) \<and>
    node_ids (emit_epoch s es cuts start fin prev b) =
      insert (epoch_id b s (map_option (\<lambda>k. es ! k) (firstBoundary start cuts))) (node_ids b)"
proof -
  let ?bd = "map_option (\<lambda>k. es ! k) (firstBoundary start cuts)"
  let ?i = "epoch_id b s ?bd"
  let ?ep = "\<lparr>ep_NodeID = ?i, ep_Stream = si_ID s, ep_Boundary = ?bd, ep_Start = start, ep_End = fin\<rparr>"
  let ?c = "b\<lparr>b_epochs := b_epochs b @ [?ep],
    b_epochAt := fold (\<lambda>k m. m(place_of (entry_at b (es ! k)) \<mapsto> ?i)) [start..<fin] (b_epochAt b)\<rparr>"
  have "ran (b_epochAt ?c) \<subseteq> insert ?i (ran (b_epochAt b))" by (simp add: ran_fold_upd)
  then have at: "ran (b_epochAt ?c) \<subseteq> insert ?i (node_ids b)"
    using b by (auto simp: ready_def placed_def)
  have w: "wired ?c" using b by (simp add: ready_def wired_def)
  have n: "ready (node (mk_node ?i KindEpoch (si_NodeID s) nm r rs a) ?c)" for nm r rs a
    using w at b s by (intro ready_naming) (auto simp: ready_def placed_def session_node_def)
  have o: "ready (node (mk_node ?i KindEpoch (si_NodeID s) nm r rs a) (open_ref k m w ?c))" for nm r rs a k m w
    using wired_open_ref [OF w] at b s
    by (intro ready_naming) (auto simp: ready_def placed_def session_node_def)
  show ?thesis
    unfolding emit_epoch_def Let_def
    using n o prev by (auto split: option.splits prod.splits if_splits intro!: ready_relate)
qed

lemma emit_epoch_streams [simp]: "b_streams (emit_epoch s es cuts start fin prev b) = b_streams b"
  by (simp add: emit_epoch_def Let_def split: option.splits prod.splits)

lemma ready_emit_epochs:
  "ready b \<Longrightarrow> si_NodeID s \<in> node_ids b \<Longrightarrow> prev = [] \<or> prev \<in> node_ids b \<Longrightarrow>
   ready (emit_epochs s es cuts cs start prev b) \<and> b_streams (emit_epochs s es cuts cs start prev b) = b_streams b"
proof (induction cs arbitrary: start prev b)
  case Nil
  then show ?case using ready_emit_epoch [OF Nil] by simp
next
  case (Cons c cs)
  show ?case
  proof (cases "c = start")
    case True
    then show ?thesis using Cons.IH [OF Cons.prems] by simp
  next
    case False
    note e = ready_emit_epoch [OF Cons.prems, of es cuts start c]
    show ?thesis
      using False Cons.IH [of "emit_epoch s es cuts start c prev b"] e Cons.prems(2) by simp
  qed
qed

lemma ready_stage6:
  assumes "ready b"
  shows "ready (stage6Epochs b)"
proof -
  let ?b = "b\<lparr>b_epochAt := (\<lambda>_. None)\<rparr>"
  have 0: "ready ?b"
    using assms by (auto simp: ready_def placed_def wired_def session_node_def)
  have "ready (fold stream_epochs ss c)" if "ready c" "set ss \<subseteq> set (b_streams c)" for ss c
    using that
  proof (induction ss arbitrary: c)
    case (Cons s ss)
    have "si_NodeID s \<in> node_ids c" using Cons.prems by (auto simp: ready_def placed_def)
    then have "ready (stream_epochs s c) \<and> b_streams (stream_epochs s c) = b_streams c"
      unfolding stream_epochs_def Let_def using Cons.prems by (intro ready_emit_epochs) simp_all
    then show ?case using Cons.IH [of "stream_epochs s c"] Cons.prems by simp
  qed simp
  from this [OF 0, of "b_streams b"] show ?thesis by (simp add: stage6Epochs_def)
qed

section \<open>What the stages leave to stage 7\<close>

text \<open>The talks and the runs, which no stage before 7 touches, and the streams, settled by stage 2.\<close>

definition talk_tables where
  "talk_tables b = (b_opt b, b_ix b, b_talks b, b_runNode b, b_talkOfRun b, b_segments b)"

lemma fold_same: "(\<And>x b. g (f x b) = g b) \<Longrightarrow> g (fold f xs b) = g b"
  by (induction xs arbitrary: b) auto

lemma tables_simps [simp]:
  "talk_tables (node n b) = talk_tables b" "talk_tables (relate t s d q v e b) = talk_tables b"
  "talk_tables (open_ref k m r b) = talk_tables b" "talk_tables (counted f b) = talk_tables b"
  "talk_tables (b\<lparr>b_calls := x1\<rparr>) = talk_tables b" "talk_tables (b\<lparr>b_tools := x2\<rparr>) = talk_tables b"
  "talk_tables (b\<lparr>b_streams := x3\<rparr>) = talk_tables b" "talk_tables (b\<lparr>b_startedBy := x4\<rparr>) = talk_tables b"
  "talk_tables (b\<lparr>b_spawnEdges := x5\<rparr>) = talk_tables b" "talk_tables (b\<lparr>b_epochs := x6\<rparr>) = talk_tables b"
  "talk_tables (b\<lparr>b_epochAt := x7\<rparr>) = talk_tables b" "talk_tables (b\<lparr>b_canonical := x8\<rparr>) = talk_tables b"
  by (simp_all add: talk_tables_def)

lemma tables_stage2 [simp]: "talk_tables (stage2Streams b) = talk_tables b"
  by (simp add: stage2Streams_def Let_def fold_same [where g = talk_tables] stream_node_def)

lemma tables_stage3 [simp]: "talk_tables (stage3Calls b) = talk_tables b"
  by (simp add: stage3Calls_def Let_def)

lemma tables_check_tool [simp]: "talk_tables (check_tool t b) = talk_tables b"
  by (simp add: check_tool_def Let_def)

lemma tables_stage4 [simp]: "talk_tables (stage4Tools b) = talk_tables b"
  by (simp add: stage4Tools_def Let_def fold_same [where g = talk_tables])

lemma tables_resolve_edge [simp]: "talk_tables (fst (resolve_edge ed st)) = talk_tables (fst st)"
  by (cases st) (auto simp: resolve_edge_def spawn_resolved_def markAgentCall_def Let_def split: option.splits)

lemma streams_resolve_edge [simp]: "b_streams (fst (resolve_edge ed st)) = b_streams (fst st)"
  by (cases st) (auto simp: resolve_edge_def spawn_resolved_def markAgentCall_def Let_def split: option.splits)

lemma orphan_same [simp]: "talk_tables (orphan sp s b) = talk_tables b" "b_streams (orphan sp s b) = b_streams b"
  by (auto simp: orphan_def)

lemma stage5_same [simp]:
  "talk_tables (stage5Spawns b) = talk_tables b" "b_streams (stage5Spawns b) = b_streams b"
proof -
  have 1: "talk_tables (fst (fold resolve_edge eds st)) = talk_tables (fst st)" for eds st
    by (rule fold_same [where g = "\<lambda>st. talk_tables (fst st)"]) simp
  have 2: "b_streams (fst (fold resolve_edge eds st)) = b_streams (fst st)" for eds st
    by (rule fold_same [where g = "\<lambda>st. b_streams (fst st)"]) simp
  show "talk_tables (stage5Spawns b) = talk_tables b"
    using 1 [of "spawn_edges b" "(b\<lparr>b_startedBy := (\<lambda>_. [])\<rparr>, {})"]
    by (auto simp: stage5Spawns_def fold_same [where g = talk_tables] split: prod.splits)
  show "b_streams (stage5Spawns b) = b_streams b"
    using 2 [of "spawn_edges b" "(b\<lparr>b_startedBy := (\<lambda>_. [])\<rparr>, {})"]
    by (auto simp: stage5Spawns_def fold_same [where g = b_streams] split: prod.splits)
qed

lemma stage34_streams [simp]: "b_streams (stage3Calls b) = b_streams b" "b_streams (stage4Tools b) = b_streams b"
  by (simp_all add: stage3Calls_def stage4Tools_def Let_def fold_same [where g = b_streams] check_tool_def)

lemma emit_epoch_tables [simp]: "talk_tables (emit_epoch s es cuts start fin prev b) = talk_tables b"
  by (simp add: emit_epoch_def Let_def split: option.splits prod.splits)

lemma emit_epochs_same [simp]:
  "talk_tables (emit_epochs s es cuts cs start prev b) = talk_tables b"
  "b_streams (emit_epochs s es cuts cs start prev b) = b_streams b"
  by (induction cs arbitrary: start prev b) simp_all

lemma stage6_same [simp]:
  "talk_tables (stage6Epochs b) = talk_tables b" "b_streams (stage6Epochs b) = b_streams b"
  by (simp_all add: stage6Epochs_def fold_same [where g = talk_tables] fold_same [where g = b_streams]
      stream_epochs_def Let_def)

end
