(* ===== verification/Asm_Tree.thy ===== *)
theory Asm_Tree
  imports Asm_Shape
begin

text \<open>
  The shape of an assembled conversation, through stage 7: the talks and runs that records are placed in
  before their nodes are written are all written at the end of the stage. With it the whole assembly keeps
  the shape, and its result is a closed tree with its edges, sorted by id.
\<close>

section \<open>Talks and their streams\<close>

definition named :: "stream_info list \<Rightarrow> bool" where
  "named ss \<longleftrightarrow>
     (\<forall>s \<in> set ss. si_Role s = StreamMain \<longleftrightarrow> si_Name s = ''main'') \<and>
     (\<forall>s \<in> set ss. \<forall>t \<in> set ss. si_Name s = si_Name t \<longrightarrow> si_ID s = si_ID t)"

definition talk_names :: "stream_info \<Rightarrow> string set" where
  "talk_names s =
    (if si_Role s = StreamMain then range (\<lambda>x. NodeID ''talk'' [si_Name s, x]) else {NodeID ''talk'' [si_Name s]})"

lemma talk_id_inj:
  "NodeID ''talk'' [n] = NodeID ''talk'' [m] \<longleftrightarrow> n = m"
  "NodeID ''talk'' [n] = NodeID ''talk'' [''main'', x] \<longleftrightarrow> n = ''main'' \<and> x = []"
  by (auto simp: NodeID_inj)

lemma talk_names_stream:
  assumes "named ss" "s \<in> set ss" "t \<in> set ss" "i \<in> talk_names s" "i \<in> talk_names t"
  shows "si_ID s = si_ID t"
proof -
  have r: "si_Role s = StreamMain \<longleftrightarrow> si_Name s = ''main''" "si_Role t = StreamMain \<longleftrightarrow> si_Name t = ''main''"
    using assms by (auto simp: named_def)
  have "si_Name s = si_Name t"
  proof (cases "si_Name s = ''main''"; cases "si_Name t = ''main''")
    assume n: "si_Name s = ''main''" "si_Name t \<noteq> ''main''"
    then obtain x where "NodeID ''talk'' [si_Name t] = NodeID ''talk'' [''main'', x]"
      using assms(4,5) r by (auto simp: talk_names_def)
    with n show ?thesis by (simp add: talk_id_inj)
  next
    assume n: "si_Name s \<noteq> ''main''" "si_Name t = ''main''"
    then obtain x where "NodeID ''talk'' [si_Name s] = NodeID ''talk'' [''main'', x]"
      using assms(4,5) r by (auto simp: talk_names_def)
    with n show ?thesis by (simp add: talk_id_inj)
  next
    assume n: "si_Name s \<noteq> ''main''" "si_Name t \<noteq> ''main''"
    then have "NodeID ''talk'' [si_Name s] = NodeID ''talk'' [si_Name t]"
      using assms(4,5) r unfolding talk_names_def by simp
    then show ?thesis by (simp only: talk_id_inj)
  qed simp
  with assms(1,2,3) show ?thesis unfolding named_def by blast
qed

text \<open>What is said of a talk, and the runs a list of talks writes.\<close>

definition talk_ok :: "stream_info set \<Rightarrow> string set \<Rightarrow> talk \<Rightarrow> bool" where
  "talk_ok S N t \<longleftrightarrow> tk_Stream t \<in> S \<and> tk_NodeID t \<in> talk_names (tk_Stream t) \<and>
     (case tk_Epoch t of None \<Rightarrow> True | Some ep \<Rightarrow> ep_NodeID ep \<in> N)"

definition talk_ids :: "talk list \<Rightarrow> string set" where
  "talk_ids ts = tk_NodeID ` set ts"

definition emitted :: "talk list \<Rightarrow> run_key set" where
  "emitted ts = (\<Union>t \<in> set ts. (\<lambda>c. (si_ID (tk_Stream t), c)) ` set (tk_Emitted t))"

definition talk_here :: "stream_info \<Rightarrow> talk list \<Rightarrow> string \<Rightarrow> bool" where
  "talk_here s ts i \<longleftrightarrow> (i, si_ID s) \<in> (\<lambda>t. (tk_NodeID t, si_ID (tk_Stream t))) ` set ts"

definition talking :: "builder \<Rightarrow> bool" where
  "talking b \<longleftrightarrow> based b \<and> named (b_streams b) \<and> list_all (talk_ok (set (b_streams b)) (node_ids b)) (b_talks b) \<and>
     ran (b_container b) \<subseteq> node_ids b \<union> talk_ids (b_talks b) \<union> ran (b_runNode b) \<and>
     ran (b_talkOfRun b) \<subseteq> talk_ids (b_talks b) \<and> dom (b_runNode b) \<subseteq> emitted (b_talks b)"

lemma talk_here_id: "talk_here s ts i \<Longrightarrow> i \<in> talk_ids ts"
  by (auto simp: talk_here_def talk_ids_def)

lemma talk_ids_simps [simp]: "talk_ids [] = {}" "talk_ids (ts @ us) = talk_ids ts \<union> talk_ids us"
    "talk_ids (t # ts) = insert (tk_NodeID t) (talk_ids ts)"
  by (auto simp: talk_ids_def)

lemma emitted_simps [simp]: "emitted [] = {}" "emitted (ts @ us) = emitted ts \<union> emitted us"
    "emitted (t # ts) = (\<lambda>c. (si_ID (tk_Stream t), c)) ` set (tk_Emitted t) \<union> emitted ts"
  by (auto simp: emitted_def)

lemma based_cong:
  "b_nodes c = b_nodes b \<Longrightarrow> b_rels c = b_rels b \<Longrightarrow> b_unres c = b_unres b \<Longrightarrow> b_streams c = b_streams b \<Longrightarrow>
   b_epochs c = b_epochs b \<Longrightarrow> b_epochAt c = b_epochAt b \<Longrightarrow> b_opt c = b_opt b \<Longrightarrow> based c = based b"
  using wired_cong [of c b] by (simp add: based_def session_node_def)

lemma based_fields [simp]:
  "based (b\<lparr>b_talks := x1\<rparr>) = based b" "based (b\<lparr>b_container := x2\<rparr>) = based b"
  "based (b\<lparr>b_talkOfRun := x3\<rparr>) = based b" "based (b\<lparr>b_runNode := x4\<rparr>) = based b"
  "based (b\<lparr>b_runAt := x5\<rparr>) = based b" "based (counted f b) = based b"
  by (rule based_cong; simp)+

section \<open>One talk changes\<close>

text \<open>A talk changes without its id, stream or epoch, and forgets no run.\<close>

definition keeps_talk :: "(talk \<Rightarrow> talk) \<Rightarrow> bool" where
  "keeps_talk f \<longleftrightarrow> (\<forall>t. tk_NodeID (f t) = tk_NodeID t \<and> tk_Stream (f t) = tk_Stream t \<and> tk_Epoch (f t) = tk_Epoch t \<and>
     set (tk_Emitted t) \<subseteq> set (tk_Emitted (f t)))"

lemma keeps_mark [simp]: "keeps_talk (mark r)"
  by (auto simp: keeps_talk_def mark_def split: option.splits)

lemma keeps_see_time [simp]: "keeps_talk (see_time ts)"
  by (simp add: keeps_talk_def see_time_def)

lemma keeps_add [simp]: "keeps_talk (\<lambda>t. t\<lparr>tk_Runs := f t\<rparr>)" "keeps_talk (\<lambda>t. t\<lparr>tk_Emitted := tk_Emitted t @ [c]\<rparr>)"
  by (auto simp: keeps_talk_def)

lemma keeps_map:
  assumes "keeps_talk f"
  shows "talk_ids (map (\<lambda>t. if tk_NodeID t = i then f t else t) ts) = talk_ids ts"
    "emitted ts \<subseteq> emitted (map (\<lambda>t. if tk_NodeID t = i then f t else t) ts)"
    "talk_here s (map (\<lambda>t. if tk_NodeID t = i then f t else t) ts) j = talk_here s ts j"
    "list_all (talk_ok S N) ts \<Longrightarrow> list_all (talk_ok S N) (map (\<lambda>t. if tk_NodeID t = i then f t else t) ts)"
proof -
  have f: "tk_NodeID (f t) = tk_NodeID t" "tk_Stream (f t) = tk_Stream t" "tk_Epoch (f t) = tk_Epoch t"
    "set (tk_Emitted t) \<subseteq> set (tk_Emitted (f t))" for t
    using assms by (auto simp: keeps_talk_def)
  show "talk_ids (map (\<lambda>t. if tk_NodeID t = i then f t else t) ts) = talk_ids ts"
    by (induction ts) (simp_all add: f)
  show "emitted ts \<subseteq> emitted (map (\<lambda>t. if tk_NodeID t = i then f t else t) ts)"
  proof (induction ts)
    case (Cons t ts)
    then show ?case using image_mono [OF f(4) [of t], of "Pair (si_ID (tk_Stream t))"] by (auto simp: f)
  qed simp
  show "talk_here s (map (\<lambda>t. if tk_NodeID t = i then f t else t) ts) j = talk_here s ts j"
    by (induction ts) (simp_all add: talk_here_def f)
  show "list_all (talk_ok S N) ts \<Longrightarrow> list_all (talk_ok S N) (map (\<lambda>t. if tk_NodeID t = i then f t else t) ts)"
    by (induction ts) (auto simp: talk_ok_def f)
qed

lemma update_talk_fields [simp]:
  "b_streams (update_talk i f b) = b_streams b" "b_nodes (update_talk i f b) = b_nodes b"
  "b_container (update_talk i f b) = b_container b" "b_talkOfRun (update_talk i f b) = b_talkOfRun b"
  "b_runNode (update_talk i f b) = b_runNode b" "based (update_talk i f b) = based b"
  "b_ix (update_talk i f b) = b_ix b" "b_opt (update_talk i f b) = b_opt b"
  "b_epochs (update_talk i f b) = b_epochs b"
  by (simp_all add: update_talk_def)

lemma talking_update:
  assumes "talking b" "keeps_talk f"
  shows "talking (update_talk i f b)"
  using assms(1) keeps_map(1,4) [OF assms(2)] keeps_map(2) [OF assms(2), of "b_talks b" i]
  unfolding talking_def update_talk_fields unfolding update_talk_def by auto

lemma talk_here_update [simp]: "keeps_talk f \<Longrightarrow> talk_here s (b_talks (update_talk i f b)) j = talk_here s (b_talks b) j"
  by (simp add: update_talk_def keeps_map)

section \<open>A talk and a run begin\<close>

lemma talk_by_None: "talk_by b i = None \<longleftrightarrow> i \<notin> talk_ids (b_talks b)"
  by (auto simp: talk_by_def find_None_iff talk_ids_def)

lemma newTalkKeyed_fields [simp]:
  "b_streams (newTalkKeyed s ep i b) = b_streams b" "b_nodes (newTalkKeyed s ep i b) = b_nodes b"
  "b_container (newTalkKeyed s ep i b) = b_container b" "b_talkOfRun (newTalkKeyed s ep i b) = b_talkOfRun b"
  "b_runNode (newTalkKeyed s ep i b) = b_runNode b" "based (newTalkKeyed s ep i b) = based b"
  "b_ix (newTalkKeyed s ep i b) = b_ix b" "b_opt (newTalkKeyed s ep i b) = b_opt b"
  "b_epochs (newTalkKeyed s ep i b) = b_epochs b"
  by (simp_all add: newTalkKeyed_def)

lemma talking_newTalkKeyed:
  assumes b: "talking b" and s: "s \<in> set (b_streams b)" and i: "i \<in> talk_names s"
    and ep: "case ep of None \<Rightarrow> True | Some e \<Rightarrow> ep_NodeID e \<in> node_ids b"
  shows "talking (newTalkKeyed s ep i b)" "talk_here s (b_talks (newTalkKeyed s ep i b)) i"
proof -
  let ?t = "\<lparr>tk_NodeID = i, tk_Stream = s, tk_Epoch = ep, tk_Runs = [], tk_Emitted = [], tk_First = 0, tk_Last = 0, tk_At = None\<rparr>"
  have new: "b_talks (newTalkKeyed s ep i b) = (if i \<in> talk_ids (b_talks b) then b_talks b else b_talks b @ [?t])"
    by (simp add: newTalkKeyed_def talk_by_None [symmetric])
  have "talk_ok (set (b_streams b)) (node_ids b) ?t" using s i ep by (simp add: talk_ok_def)
  then show "talking (newTalkKeyed s ep i b)"
    using b unfolding talking_def newTalkKeyed_fields new by auto
  show "talk_here s (b_talks (newTalkKeyed s ep i b)) i"
  proof (cases "i \<in> talk_ids (b_talks b)")
    case True
    then obtain t where t: "t \<in> set (b_talks b)" "tk_NodeID t = i" by (auto simp: talk_ids_def)
    then have "talk_ok (set (b_streams b)) (node_ids b) t" using b by (auto simp: talking_def list_all_iff)
    then have "si_ID (tk_Stream t) = si_ID s"
      using t b s i talk_names_stream [of "b_streams b" "tk_Stream t" s i] by (simp add: talk_ok_def talking_def)
    with t True show ?thesis by (auto simp: new talk_here_def image_iff intro!: bexI [of _ t])
  next
    case False
    then show ?thesis by (simp add: new talk_here_def)
  qed
qed

lemma add_run_fields [simp]:
  "b_streams (add_run s cyc i b) = b_streams b" "b_nodes (add_run s cyc i b) = b_nodes b"
  "b_container (add_run s cyc i b) = b_container b" "b_ix (add_run s cyc i b) = b_ix b"
  "b_runNode (add_run s cyc i b) = b_runNode b" "b_epochs (add_run s cyc i b) = b_epochs b"
  "talk_here s' (b_talks (add_run s cyc i b)) j = talk_here s' (b_talks b) j"
  by (simp_all add: add_run_def Let_def)

lemma talking_add_run:
  assumes "talking b" "talk_here s (b_talks b) i"
  shows "talking (add_run s cyc i b)"
proof -
  let ?c = "update_talk i (\<lambda>t. t\<lparr>tk_Runs := tk_Runs t @ [cyc]\<rparr>) b"
  have c: "talking ?c" by (rule talking_update [OF assms(1)]) simp
  have "i \<in> talk_ids (b_talks ?c)" by (rule talk_here_id [of s]) (simp add: assms(2))
  moreover have "ran ((b_talkOfRun ?c)((si_ID s, cyc) \<mapsto> i)) \<subseteq> insert i (ran (b_talkOfRun ?c))"
    by (auto simp: ran_def split: if_splits)
  ultimately show ?thesis
    using c unfolding add_run_def Let_def talking_def by auto
qed

lemma newRun_fields [simp]:
  "b_streams (newRun i s cyc b) = b_streams b" "b_nodes (newRun i s cyc b) = b_nodes b"
  "b_container (newRun i s cyc b) = b_container b" "b_ix (newRun i s cyc b) = b_ix b"
  "b_talkOfRun (newRun i s cyc b) = b_talkOfRun b" "b_epochs (newRun i s cyc b) = b_epochs b"
  "talk_here s' (b_talks (newRun i s cyc b)) j = talk_here s' (b_talks b) j"
  by (simp_all add: newRun_def Let_def)

lemma talking_newRun:
  assumes b: "talking b" and h: "talk_here s (b_talks b) i"
  shows "talking (newRun i s cyc b)"
proof (cases "b_runNode b (si_ID s, cyc)")
  case None
  let ?f = "\<lambda>t. t\<lparr>tk_Emitted := tk_Emitted t @ [cyc]\<rparr>"
  let ?c = "update_talk i ?f b" and ?r = "NodeIDIn ''run'' i [str b cyc]"
  have c: "talking ?c" by (rule talking_update [OF b]) simp
  have "(si_ID s, cyc) \<in> emitted (b_talks ?c)"
    using h by (force simp: update_talk_def emitted_def talk_here_def)
  moreover have "ran (b_runNode b) \<subseteq> ran ((b_runNode b)((si_ID s, cyc) \<mapsto> ?r))"
    using None by (auto simp: ran_map_upd)
  moreover have eq: "newRun i s cyc b = counted (\<lambda>s. s\<lparr>st_Runs := st_Runs s + 1\<rparr>)
      (update_talk i ?f (b\<lparr>b_runNode := (b_runNode b)((si_ID s, cyc) \<mapsto> ?r)\<rparr>))"
    using None by (simp add: newRun_def)
  moreover have "b_talks (update_talk i ?f (b\<lparr>b_runNode := m\<rparr>)) = b_talks ?c" for m
    by (simp add: update_talk_def)
  ultimately show ?thesis
    using c unfolding talking_def eq by auto
next
  case (Some r)
  with b show ?thesis by (simp add: newRun_def)
qed

section \<open>The loop of stage 7\<close>

text \<open>Where a record may be placed.\<close>

lemma talking_put_in:
  assumes "talking b" "place_in b cyc cur ep s \<in> node_ids b \<union> talk_ids (b_talks b) \<union> ran (b_runNode b)"
  shows "talking (put_in i cyc cur ep s b)"
proof -
  have "ran (b_container (put_in i cyc cur ep s b)) \<subseteq> insert (place_in b cyc cur ep s) (ran (b_container b))"
    by (auto simp: put_in_def ran_def split: if_splits)
  with assms show ?thesis unfolding talking_def by (auto simp: put_in_def)
qed

lemma put_in_fields [simp]:
  "b_streams (put_in i cyc cur ep s b) = b_streams b" "b_nodes (put_in i cyc cur ep s b) = b_nodes b"
  "b_talks (put_in i cyc cur ep s b) = b_talks b" "b_epochs (put_in i cyc cur ep s b) = b_epochs b"
  by (simp_all add: put_in_def)

lemma place_in_range:
  assumes "ep_NodeID ep \<in> node_ids b" "\<And>c. cur = Some c \<Longrightarrow> c \<in> talk_ids (b_talks b)"
  shows "place_in b cyc cur ep s \<in> node_ids b \<union> talk_ids (b_talks b) \<union> ran (b_runNode b)"
  using assms by (auto simp: place_in_def split: option.splits intro: ranI)

lemma see_run_same [simp]:
  "talking (see_run k r b) = talking b" "b_streams (see_run k r b) = b_streams b"
  "b_nodes (see_run k r b) = b_nodes b" "b_talks (see_run k r b) = b_talks b"
  by (auto simp: see_run_def talking_def split: option.splits)

text \<open>The state of the loop over a stream: the talk in progress is one of the stream's.\<close>

definition talk_loop :: "stream_info \<Rightarrow> string set \<Rightarrow> stream_info list \<Rightarrow> string option \<times> builder \<Rightarrow> bool" where
  "talk_loop s N ss st \<longleftrightarrow> talking (snd st) \<and> node_ids (snd st) = N \<and> b_streams (snd st) = ss \<and>
     (case fst st of None \<Rightarrow> si_Role s = StreamMain | Some c \<Rightarrow> talk_here s (b_talks (snd st)) c)"

lemma talk_loop_open:
  assumes st: "talk_loop s N ss st" and s: "s \<in> set ss" and ep: "ep_NodeID ep \<in> N"
  shows "talk_loop s N ss (open_run s ep cyc st)"
proof (cases st)
  case (Pair cur b)
  have b: "talking b" "node_ids b = N" "b_streams b = ss" using st Pair by (auto simp: talk_loop_def)
  have new: "talk_loop s N ss (Some (talk_id b s cyc), newRun (talk_id b s cyc) s cyc (newTalk s ep cyc b))"
    if m: "si_Role s = StreamMain"
  proof -
    have i: "talk_id b s cyc \<in> talk_names s" using m by (auto simp: talk_id_def talk_names_def)
    note k = talking_newTalkKeyed [OF b(1) _ i, of "Some ep"]
    have "talking (newTalk s ep cyc b)" "talk_here s (b_talks (newTalk s ep cyc b)) (talk_id b s cyc)"
      unfolding newTalk_def using k b s ep by (auto intro: talking_add_run)
    then show ?thesis
      using b by (auto simp: talk_loop_def newTalk_def intro: talking_newRun)
  qed
  show ?thesis
  proof (cases "b_talkOfRun b (si_ID s, cyc)")
    case (Some t)
    with st Pair show ?thesis by (simp add: open_run_def)
  next
    case None
    show ?thesis
    proof (cases cur)
      case None
      then show ?thesis
        using new st Pair \<open>b_talkOfRun b (si_ID s, cyc) = None\<close> by (simp add: open_run_def talk_loop_def)
    next
      case (Some c)
      have here: "talk_here s (b_talks b) c" using st Pair Some by (simp add: talk_loop_def)
      have "talk_loop s N ss (Some c, newRun c s cyc (add_run s cyc c b))"
        using b here by (auto simp: talk_loop_def intro!: talking_newRun talking_add_run)
      moreover have "startsTalk b cyc s \<Longrightarrow> si_Role s = StreamMain" by (simp add: startsTalk_def)
      ultimately show ?thesis
        using new Some Pair None by (simp add: open_run_def)
    qed
  qed
qed

lemma talk_of_run: "talking b \<Longrightarrow> b_talkOfRun b k = Some c \<Longrightarrow> c \<in> talk_ids (b_talks b)"
  by (auto simp: talking_def dest: ranI)

lemma talk_loop_update:
  "talk_loop s N ss (cur, b) \<Longrightarrow> keeps_talk f \<Longrightarrow> talk_loop s N ss (cur, update_talk i f b)"
  by (auto simp: talk_loop_def talking_update split: option.splits)

lemma talk_loop_put_in:
  assumes "talk_loop s N ss (cur, b)" "ep_NodeID ep \<in> N" "\<And>c. t = Some c \<Longrightarrow> c \<in> talk_ids (b_talks b)"
  shows "talk_loop s N ss (cur, put_in i cyc t ep s b)"
proof -
  have "talking (put_in i cyc t ep s b)"
    using assms by (intro talking_put_in place_in_range) (auto simp: talk_loop_def)
  with assms(1) show ?thesis by (auto simp: talk_loop_def split: option.splits)
qed

lemma talk_loop_step:
  assumes st: "talk_loop s N ss st" and s: "s \<in> set ss" and ep: "ep_NodeID ep \<in> N"
  shows "talk_loop s N ss (talk_step s ep i st)"
proof (cases "runFor (snd st) i = 0")
  case True
  obtain cur b where Pair: "st = (cur, b)" by (cases st)
  have "talk_loop s N ss (cur, put_in i 0 cur ep s b)"
    using st ep Pair by (intro talk_loop_put_in) (auto simp: talk_loop_def dest: talk_here_id)
  then show ?thesis
    using True Pair by (auto simp: talk_step_def Let_def intro!: talk_loop_update split: option.splits)
next
  case False
  obtain cur b where o: "open_run s ep (runFor (snd st) i) st = (cur, b)" by fastforce
  have l: "talk_loop s N ss (cur, b)" using talk_loop_open [OF st s ep, of "runFor (snd st) i"] o by simp
  let ?k = "(si_ID s, runFor (snd st) i)"
  have "talk_loop s N ss (cur, put_in i (runFor (snd st) i) (b_talkOfRun b ?k) ep s b)"
    using l ep by (intro talk_loop_put_in) (auto simp: talk_loop_def dest: talk_of_run)
  moreover have "talk_loop s N ss (c, see_run k r d) = talk_loop s N ss (c, d)" for c k r d
    by (simp add: talk_loop_def split: option.splits)
  ultimately show ?thesis
    using False by (auto simp: talk_step_def o Let_def intro!: talk_loop_update split: option.splits)
qed

lemma talk_loop_epoch:
  assumes "talk_loop s N ss st" "s \<in> set ss" "ep_NodeID ep \<in> N"
  shows "talk_loop s N ss (epoch_talks s ep st)"
  unfolding epoch_talks_def using assms(1) by (rule fold_invariant) (rule talk_loop_step, assumption, rule assms(2), rule assms(3))

lemma talking_stream:
  assumes b: "talking b" and s: "s \<in> set (b_streams b)" and eps: "epochs_of b s \<noteq> []"
  shows "talking (stream_talks s b) \<and> node_ids (stream_talks s b) = node_ids b \<and>
    b_streams (stream_talks s b) = b_streams b"
proof (cases "si_Entries s = []")
  case True
  with b show ?thesis by (simp add: stream_talks_def)
next
  case False
  let ?c = "NodeID ''talk'' [si_Name s]"
  let ?st = "if si_Role s = StreamMain then (None, b)
    else (Some ?c, update_talk ?c (mark (ref_of (entry_at b (hd (si_Entries s))))) (newTalkKeyed s (Some (hd (epochs_of b s))) ?c b))"
  have ep: "ep_NodeID ep \<in> node_ids b" if "ep \<in> set (epochs_of b s)" for ep
    using that b by (auto simp: epochs_of_def talking_def based_def)
  have i: "si_Role s \<noteq> StreamMain \<Longrightarrow> ?c \<in> talk_names s" by (simp add: talk_names_def)
  have "talk_loop s (node_ids b) (b_streams b) ?st"
    using talking_newTalkKeyed [OF b s i, of "Some (hd (epochs_of b s))"] ep [of "hd (epochs_of b s)"] eps b
    by (auto simp: talk_loop_def talking_update)
  then have "talk_loop s (node_ids b) (b_streams b) (fold (epoch_talks s) (epochs_of b s) ?st)"
    by (rule fold_invariant) (rule talk_loop_epoch, assumption, rule s, rule ep)
  moreover have "stream_talks s b = snd (fold (epoch_talks s) (epochs_of b s) ?st)"
    using False by (auto simp: stream_talks_def Let_def)
  ultimately show ?thesis by (simp add: talk_loop_def)
qed

lemma epochs_of_streams: "epochs_of b s \<noteq> [] \<longleftrightarrow> si_ID s \<in> ep_Stream ` set (b_epochs b)"
  by (force simp: epochs_of_def filter_empty_conv)

text \<open>What the loop leaves alone.\<close>

definition lasting where "lasting b = (b_epochs b, b_segments b)"

lemma lasting_simps [simp]:
  "lasting (update_talk i f b) = lasting b" "lasting (newTalkKeyed s ep i b) = lasting b"
  "lasting (add_run s cyc i b) = lasting b" "lasting (newRun i s cyc b) = lasting b"
  "lasting (newTalk s ep0 cyc b) = lasting b" "lasting (see_run k r b) = lasting b"
  "lasting (put_in j cyc t ep0 s b) = lasting b"
  by (simp_all add: lasting_def update_talk_def newTalkKeyed_def add_run_def newRun_def newTalk_def see_run_def put_in_def
      Let_def split: option.splits)

lemma talk_step_lasting [simp]: "lasting (snd (talk_step s ep i st)) = lasting (snd st)"
proof -
  have "lasting (snd (open_run s ep cyc st)) = lasting (snd st)" for cyc
    by (cases st) (simp add: open_run_def split: option.splits)
  then have "open_run s ep cyc st = (cur, b) \<Longrightarrow> lasting b = lasting (snd st)" for cyc cur b by (metis snd_conv)
  then show ?thesis by (cases st) (auto simp: talk_step_def Let_def split: option.splits prod.splits)
qed

lemma stream_talks_lasting [simp]: "lasting (stream_talks s b) = lasting b"
proof -
  have 1: "lasting (snd (epoch_talks s ep st)) = lasting (snd st)" for ep st
    unfolding epoch_talks_def by (rule fold_same [where g = "\<lambda>st. lasting (snd st)"]) simp
  have "lasting (snd (fold (epoch_talks s) eps st)) = lasting (snd st)" for eps st
    by (rule fold_same [where g = "\<lambda>st. lasting (snd st)"]) (rule 1)
  then show ?thesis by (simp add: stream_talks_def Let_def)
qed

lemma stream_talks_epochs [simp]: "b_epochs (stream_talks s b) = b_epochs b"
  using stream_talks_lasting [of s b] by (simp add: lasting_def)

lemma talking_streams:
  assumes "talking b" "set ss \<subseteq> set (b_streams b)" "\<And>s. s \<in> set ss \<Longrightarrow> epochs_of b s \<noteq> []"
  shows "talking (fold stream_talks ss b) \<and> node_ids (fold stream_talks ss b) = node_ids b \<and>
    b_streams (fold stream_talks ss b) = b_streams b"
  using assms
proof (induction ss arbitrary: b)
  case (Cons s ss)
  have s: "talking (stream_talks s b)" "node_ids (stream_talks s b) = node_ids b" "b_streams (stream_talks s b) = b_streams b"
    using talking_stream [of b s] Cons.prems by auto
  have "epochs_of (stream_talks s b) t = epochs_of b t" for t by (simp add: epochs_of_def)
  then show ?case using Cons.IH [of "stream_talks s b"] Cons.prems s by simp
qed simp

section \<open>The talks are written\<close>

lemma run_nodes_ids:
  "node_ids (fold (run_node t) cs b) =
     node_ids b \<union> {r. \<exists>c \<in> set cs. b_runNode b (si_ID (tk_Stream t), c) = Some r}"
proof (induction cs arbitrary: b)
  case (Cons c cs)
  have "b_runNode (run_node t c b) = b_runNode b" by (simp add: run_node_def split: option.splits)
  then show ?case
    using Cons.IH [of "run_node t c b"] by (auto simp: run_node_def split: option.splits)
qed simp

definition rest_of where
  "rest_of b = (b_opt b, b_streams b, b_epochs b, b_epochAt b, b_container b, b_talks b, b_runNode b, b_segments b)"

lemma rest_node [simp]: "rest_of (node n b) = rest_of b"
  by (simp add: rest_of_def)

lemma rest_run_node [simp]: "rest_of (run_node t c b) = rest_of b"
  by (simp add: run_node_def split: option.splits)

lemma rest_talk_node [simp]: "rest_of (talk_node t b) = rest_of b"
  by (simp add: talk_node_def Let_def fold_same [where g = rest_of])

lemma based_run_node: "based b \<Longrightarrow> tk_NodeID t \<in> node_ids b \<Longrightarrow> based (run_node t c b)"
  by (auto simp: run_node_def split: option.splits)

lemma based_run_nodes:
  "based b \<Longrightarrow> tk_NodeID t \<in> node_ids b \<Longrightarrow> based (fold (run_node t) cs b)"
proof (induction cs arbitrary: b)
  case (Cons c cs)
  have "tk_NodeID t \<in> node_ids (run_node t c b)" using Cons.prems by (auto simp: run_node_def split: option.splits)
  then show ?case using Cons based_run_node by simp
qed simp

lemma talk_node_ids:
  "node_ids (talk_node t b) = insert (tk_NodeID t) (node_ids b) \<union>
     {r. \<exists>c \<in> set (tk_Emitted t). b_runNode b (si_ID (tk_Stream t), c) = Some r}"
  by (auto simp: talk_node_def Let_def run_nodes_ids)

lemma based_talk_node:
  assumes "based b" "talk_ok (set (b_streams b)) (node_ids b) t"
  shows "based (talk_node t b)"
proof -
  have "(case tk_Epoch t of Some ep \<Rightarrow> ep_NodeID ep | None \<Rightarrow> si_NodeID (tk_Stream t)) \<in> node_ids b"
    using assms by (auto simp: talk_ok_def based_def split: option.splits)
  with assms(1) show ?thesis
    unfolding talk_node_def Let_def by (intro based_run_nodes based_node) auto
qed

lemma talk_nodes:
  assumes "based b" "list_all (talk_ok (set (b_streams b)) (node_ids b)) ts"
  shows "based (fold talk_node ts b) \<and> rest_of (fold talk_node ts b) = rest_of b \<and>
    node_ids (fold talk_node ts b) = node_ids b \<union> talk_ids ts \<union> {r. \<exists>k \<in> emitted ts. b_runNode b k = Some r}"
  using assms
proof (induction ts arbitrary: b)
  case (Cons t ts)
  let ?c = "talk_node t b"
  have r: "rest_of ?c = rest_of b" by simp
  have "list_all (talk_ok (set (b_streams ?c)) (node_ids ?c)) ts"
    using Cons.prems(2) r by (fastforce simp: list_all_iff talk_ok_def talk_node_ids rest_of_def split: option.splits)
  moreover have "based ?c" using Cons.prems by (intro based_talk_node) auto
  ultimately show ?case
    using Cons.IH [of ?c] r by (auto simp: talk_node_ids rest_of_def)
qed simp

lemma ready_stage7:
  assumes "ready b" "named (b_streams b)" "b_talks b = []" "b_runNode b = (\<lambda>_. None)" "b_talkOfRun b = (\<lambda>_. None)"
    and "\<And>s. s \<in> set (b_streams b) \<Longrightarrow> epochs_of b s \<noteq> []"
  shows "ready (stage7Talks b) \<and> talk_ids (b_talks (stage7Talks b)) \<subseteq> node_ids (stage7Talks b)"
proof -
  let ?b = "b\<lparr>b_container := (\<lambda>_. None)\<rparr>"
  have "talking ?b" using assms by (simp add: talking_def ready_based)
  moreover have "epochs_of ?b s = epochs_of b s" for s by (simp add: epochs_of_def)
  ultimately have t: "talking (fold stream_talks (b_streams b) ?b)"
    using talking_streams [of ?b "b_streams b"] assms(6) by simp
  let ?c = "fold stream_talks (b_streams b) ?b"
  let ?d = "emitTalks ?c"
  have d: "based ?d \<and> rest_of ?d = rest_of ?c \<and> node_ids ?d = node_ids ?c \<union> talk_ids (b_talks ?c) \<union>
      {r. \<exists>k \<in> emitted (b_talks ?c). b_runNode ?c k = Some r}"
    unfolding emitTalks_def using t by (intro talk_nodes) (auto simp: talking_def)
  have "ran (b_runNode ?c) \<subseteq> node_ids ?d" using d t by (fastforce simp: talking_def ran_def)
  then have "ready ?d" using d t by (auto simp: ready_based talking_def rest_of_def)
  then show ?thesis
    using d by (auto simp: stage7Talks_def Let_def rest_of_def)
qed

lemma stage7_segments [simp]: "b_segments (stage7Talks b) = b_segments b"
proof -
  have "lasting (fold stream_talks ss c) = lasting c" for ss c
    by (rule fold_same [where g = lasting]) simp
  then have "b_segments (fold stream_talks ss c) = b_segments c" for ss c
    by (simp add: lasting_def)
  moreover have "rest_of (emitTalks c) = rest_of c" for c
    unfolding emitTalks_def by (rule fold_same [where g = rest_of]) simp
  then have "b_segments (emitTalks c) = b_segments c" for c by (simp add: rest_of_def)
  ultimately show ?thesis by (simp add: stage7Talks_def Let_def)
qed

section \<open>Streams have names and epochs\<close>

definition stream_made :: "builder \<Rightarrow> u32 set \<Rightarrow> stream_info \<Rightarrow> bool" where
  "stream_made b V s \<longleftrightarrow> si_ID s \<in> V \<and> si_Name s = str b (si_ID s) \<and> si_Role s = role_of b (si_ID s)"

lemma stream_made_entry:
  assumes "list_all (stream_made b V) ss" "e_Stream (entry_at b i) \<in> V"
  shows "list_all (stream_made b V) (stream_entry b ss i)"
  using assms by (auto simp: stream_entry_def Let_def list_all_iff stream_made_def add_entry_def new_stream_def)

lemma streams_made:
  "\<forall>i \<in> set is'. e_Stream (entry_at b i) \<in> V \<Longrightarrow> list_all (stream_made b V) ss \<Longrightarrow>
   list_all (stream_made b V) (foldl (stream_entry b) ss is')"
  by (induction is' arbitrary: ss) (auto intro: stream_made_entry)

lemma role_main: "role_of b v = StreamMain \<longleftrightarrow> str b v = ''main''"
  by (simp add: role_of_def StreamMain_def StreamAuxiliary_def StreamChild_def)

lemma stage2_streams:
  "b_streams (stage2Streams b) = sort_by by_name (foldl (stream_entry (node (mk_node (session_node b) KindSession [] [] None []
     (session_attrs b)) b)) [] (b_canonical b))"
proof -
  have "b_streams (stream_node s c) = b_streams c" for s c by (simp add: stream_node_def)
  then show ?thesis by (simp add: stage2Streams_def Let_def fold_same [where g = b_streams])
qed

lemma named_stage2:
  assumes "inj_on (String_of (ix_Strings (b_ix b))) ((\<lambda>i. e_Stream (entry_at b i)) ` set (b_canonical b))"
  shows "named (b_streams (stage2Streams b))"
proof -
  let ?c = "node (mk_node (session_node b) KindSession [] [] None [] (session_attrs b)) b"
  let ?V = "(\<lambda>i. e_Stream (entry_at b i)) ` set (b_canonical b)"
  have "list_all (stream_made ?c ?V) (foldl (stream_entry ?c) [] (b_canonical b))"
    by (rule streams_made) auto
  then have "\<forall>s \<in> set (b_streams (stage2Streams b)). stream_made ?c ?V s"
    by (simp add: stage2_streams list_all_iff)
  moreover have "str ?c v = String_of (ix_Strings (b_ix b)) v" for v by (simp add: str_def)
  ultimately show ?thesis
    using assms role_main [of ?c] by (auto simp: named_def stream_made_def dest: inj_onD)
qed

lemma emit_epoch_epochs:
  "ep_Stream ` set (b_epochs (emit_epoch s es cuts start fin prev b)) = insert (si_ID s) (ep_Stream ` set (b_epochs b))"
  by (auto simp: emit_epoch_def Let_def split: option.splits prod.splits)

lemma emit_epochs_epochs:
  "ep_Stream ` set (b_epochs (emit_epochs s es cuts cs start prev b)) = insert (si_ID s) (ep_Stream ` set (b_epochs b))"
  by (induction cs arbitrary: start prev b) (auto simp: emit_epoch_epochs)

lemma stage6_epochs: "s \<in> set (b_streams b) \<Longrightarrow> epochs_of (stage6Epochs b) s \<noteq> []"
proof -
  have "ep_Stream ` set (b_epochs (fold stream_epochs ss c)) = si_ID ` set ss \<union> ep_Stream ` set (b_epochs c)" for ss c
    by (induction ss arbitrary: c) (auto simp: stream_epochs_def Let_def emit_epochs_epochs)
  then show "s \<in> set (b_streams b) \<Longrightarrow> epochs_of (stage6Epochs b) s \<noteq> []"
    by (simp add: epochs_of_streams stage6Epochs_def)
qed

section \<open>The windows\<close>

lemma cut_windows_concat:
  "concat (map sg_Talks (cut_windows gap prev ts cur out)) = concat (map sg_Talks out) @ sg_Talks cur @ ts"
  by (induction ts arbitrary: prev cur out) (auto simp: flush_window_def in_window_def empty_window_def)

lemma windows_talks: "t \<in> set (sg_Talks sg) \<Longrightarrow> sg \<in> set (windows_of b m) \<Longrightarrow> t \<in> set (b_talks b)"
proof -
  have "set (concat (map sg_Talks (windows_of b m))) = set (main_talks b m)"
    unfolding windows_of_def cut_windows_concat by (simp add: empty_window_def)
  then show "t \<in> set (sg_Talks sg) \<Longrightarrow> sg \<in> set (windows_of b m) \<Longrightarrow> t \<in> set (b_talks b)"
    by (auto simp: main_talks_def)
qed

lemma ready_in_segment:
  assumes "within N b" "tk_NodeID t \<in> N" "i \<in> N"
  shows "within N (relate RelInSegment (tk_NodeID t) i q v e b)"
  using assms by (auto simp: within_def)

lemma within_window_node:
  assumes "within N b" "talk_ids (sg_Talks sg) \<subseteq> N" "talk_ids (b_talks b) \<subseteq> N"
  shows "within N (window_node sg b)"
proof -
  let ?N = "insert (sg_NodeID sg) N"
  have c: "within ?N (node (mk_node (sg_NodeID sg) KindSegment (session_node b) [] r [] []) b)" for r
    using assms(1) ready_session [of b] by (auto simp: within_def)
  have d: "within ?N (fold (\<lambda>t. relate RelInSegment (tk_NodeID t) (sg_NodeID sg) ExactUnique v [talk_at t]) us d)"
    if "within ?N d" "talk_ids us \<subseteq> N" for v us d
    using that(1) by (rule fold_invariant) (use that(2) in \<open>auto simp: talk_ids_def intro: ready_in_segment\<close>)
  have e: "within ?N (fold (\<lambda>t b. if si_Role (tk_Stream t) = StreamMain \<or> tk_First t = 0 then b
      else if tk_First t \<ge> sg_From sg \<and> tk_First t \<le> sg_To sg
      then relate RelInSegment (tk_NodeID t) (sg_NodeID sg) StrongInference v [talk_at t] b else b) us d)"
    if "within ?N d" "talk_ids us \<subseteq> N" for v us d
    using that(1) by (rule fold_invariant) (use that(2) in \<open>auto simp: talk_ids_def intro: ready_in_segment\<close>)
  have "b_talks (fold (\<lambda>t. relate RelInSegment (tk_NodeID t) (sg_NodeID sg) ExactUnique v [talk_at t]) us d) = b_talks d" for v us d
    by (rule fold_same [where g = b_talks]) simp
  then have "within ?N (window_node sg b)"
    unfolding window_node_def Let_def using assms by (intro e d c) auto
  then show ?thesis by (auto simp: within_def)
qed

lemma window_node_talks [simp]: "b_talks (window_node sg b) = b_talks b"
proof -
  have "b_talks (fold (\<lambda>t. relate RelInSegment (tk_NodeID t) (sg_NodeID sg) ExactUnique v [talk_at t]) us d) = b_talks d" for v us d
    by (rule fold_same [where g = b_talks]) simp
  moreover have "b_talks (fold (\<lambda>t b. if si_Role (tk_Stream t) = StreamMain \<or> tk_First t = 0 then b
      else if tk_First t \<ge> sg_From sg \<and> tk_First t \<le> sg_To sg
      then relate RelInSegment (tk_NodeID t) (sg_NodeID sg) StrongInference v [talk_at t] b else b) us d) = b_talks d" for v us d
    by (rule fold_same [where g = b_talks]) simp
  ultimately show ?thesis by (simp add: window_node_def Let_def)
qed

lemma ready_stage8:
  assumes "ready b" "talk_ids (b_talks b) \<subseteq> node_ids b" "b_segments b = []"
  shows "ready (stage8Segments b)"
proof (cases "mainStream b")
  case None
  with assms show ?thesis by (simp add: stage8Segments_def)
next
  case (Some m)
  let ?b = "b\<lparr>b_segments := windows_of b m\<rparr>"
  let ?P = "\<lambda>c. within (node_ids b) c \<and> b_talks c = b_talks b"
  have "?P ?b" using assms(1) by (simp add: within_def)
  then have "?P (fold window_node (windows_of b m) ?b)"
  proof (rule fold_invariant)
    fix sg c
    assume sg: "sg \<in> set (windows_of b m)" and c: "?P c"
    have "talk_ids (sg_Talks sg) \<subseteq> node_ids b"
      using windows_talks [OF _ sg] assms(2) by (auto simp: talk_ids_def)
    then show "?P (window_node sg c)"
      using c assms(2) within_window_node [of "node_ids b" c sg] by simp
  qed
  then show ?thesis using Some assms by (simp add: stage8Segments_def within_def)
qed

end
