(* ===== verification/Asm_Session.thy ===== *)
theory Asm_Session
  imports Asm_Tree Index_Watermark
begin

text \<open>
  A session assembled: whatever the index, the result is a tree closed under parents with edges between its
  nodes, each list sorted by id with no id twice.
\<close>

section \<open>From the index to the result\<close>

lemma Build_same: "Build ix = Some jx \<Longrightarrow> ix_Entries jx = ix_Entries ix \<and> ix_Strings jx = ix_Strings ix"
  by (auto simp: Build_def split: option.splits)

lemma Through_within:
  assumes "Through ix seq = Some jx"
  shows "set (ix_Entries jx) \<subseteq> set (ix_Entries ix) \<and> ix_Strings jx = ix_Strings ix"
  using assms
  by (auto simp: Through_def Let_def slice_to_def dest: in_set_takeD split: if_splits option.splits)

lemma stage1_keeps:
  assumes "stage1Canonical b = Some c"
  shows "b_ix c = b_ix b" "set (b_canonical c) \<subseteq> {..<length (ix_Entries (b_ix b))}"
  using assms by (auto simp: stage1Canonical_def Let_def Canonical_def)

lemma ready_assemble:
  assumes "assemble ix opt n = Some b" "inj_on (String_of (ix_Strings ix)) (e_Stream ` set (ix_Entries ix))"
  shows "ready b"
proof -
  obtain c where c: "stage1Canonical (counted (\<lambda>s. s\<lparr>st_Beyond := n\<rparr>) (new_builder ix opt)) = Some c"
    and b: "b = (emitSteps \<circ> compareHistories \<circ> joinProviderBodies \<circ> stage8Segments \<circ> stage7Talks \<circ> stage6Epochs \<circ>
       stage5Spawns \<circ> stage4Tools \<circ> stage3Calls \<circ> stage2Streams) c"
    using assms(1) by (auto simp: assemble_def)
  have ix: "b_ix c = ix" using stage1_keeps(1) [OF c] by (simp add: new_builder_def)
  have "(\<lambda>i. e_Stream (entry_at c i)) ` set (b_canonical c) \<subseteq> e_Stream ` set (ix_Entries ix)"
    using stage1_keeps [OF c] by (auto simp: new_builder_def)
  then have nm: "named (b_streams (stage2Streams c))"
    using assms(2) ix by (intro named_stage2) (auto intro: inj_on_subset)
  let ?d = "(stage6Epochs \<circ> stage5Spawns \<circ> stage4Tools \<circ> stage3Calls \<circ> stage2Streams) c"
  have d: "ready ?d" "b_streams ?d = b_streams (stage2Streams c)" "talk_tables ?d = talk_tables c"
    using ready_stage2 [OF blank_stage1 [OF c]]
    by (simp_all add: ready_stage6 ready_stage5 ready_stage4 ready_stage3)
  have e: "ready (stage7Talks ?d) \<and> talk_ids (b_talks (stage7Talks ?d)) \<subseteq> node_ids (stage7Talks ?d)"
  proof (rule ready_stage7)
    show "ready ?d" "named (b_streams ?d)" using d nm by simp_all
    show "b_talks ?d = []" "b_runNode ?d = (\<lambda>_. None)" "b_talkOfRun ?d = (\<lambda>_. None)"
      using d(3) blank_stage1 [OF c] by (simp_all add: talk_tables_def blank_def)
    show "epochs_of ?d s \<noteq> []" if "s \<in> set (b_streams ?d)" for s
      using that stage6_epochs [of s] by simp
  qed
  have "b_segments (stage7Talks ?d) = []"
    using d(3) blank_stage1 [OF c] by (simp add: talk_tables_def blank_def)
  then have "ready (stage8Segments (stage7Talks ?d))" using e by (intro ready_stage8) auto
  then show ?thesis
    unfolding b by (auto simp: joinProviderBodies_def compareHistories_def Let_def intro!: ready_emitSteps)
qed

lemma Session_ready:
  assumes "Session ix opt = Some (Inr r)" "inj_on (String_of (ix_Strings ix)) (e_Stream ` set (ix_Entries ix))"
  obtains b where "ready b" "r = result b"
proof -
  obtain seq o' jx kx n b where t: "Through ix seq = Some jx" and k: "Build jx = Some kx"
    and b: "assemble kx o' n = Some b" "r = result b"
    using assms(1) by (auto simp: Session_def Let_def bind_eq_Some_conv split: if_splits)
  have "inj_on (String_of (ix_Strings kx)) (e_Stream ` set (ix_Entries kx))"
    using Through_within [OF t] Build_same [OF k] assms(2) by (auto intro: inj_on_subset)
  from ready_assemble [OF b(1) this] b(2) show thesis by (rule that)
qed

section \<open>Sorted by id\<close>

interpretation ident: weak_less by_ident UNIV
  by unfold_locales (auto simp: by_ident_def)

lemma sorted_strictly:
  "sorted_by by_ident xs \<Longrightarrow> distinct (map en_ID xs) \<Longrightarrow> sorted_wrt (\<lambda>x y. en_ID x < en_ID y) xs"
proof (induction xs)
  case (Cons x xs)
  have "en_ID x < en_ID y" if "y \<in> set xs" for y
    using Cons.prems that by (auto simp: by_ident_def not_less order_le_less)
  with Cons show ?case by simp
qed simp

lemma distinct_ids_sort [simp]: "distinct (map en_ID (sort_by lt xs)) = distinct (map en_ID xs)"
  by (metis distinct_map distinct_sort_by set_sort_by)

lemma ids_strictly_sorted:
  "distinct (map en_ID xs) \<Longrightarrow> sorted_wrt (\<lambda>x y. en_ID x < en_ID y) (sort_by by_ident xs)"
  by (rule sorted_strictly) (simp_all add: ident.sorted_sort_by)

section \<open>No panic\<close>

lemma Through_strings:
  "Through (ix\<lparr>ix_Strings := i\<rparr>) seq = map_option (\<lambda>jx. jx\<lparr>ix_Strings := i\<rparr>) (Through ix seq)"
  by (auto simp: Through_def Let_def split: option.splits)

lemma Session_built:
  assumes "op_Conversation opt \<noteq> []" "Through ix (op_ThroughSeq opt) = Some jx" "ix_maps jx = None" "blocks_in_range jx"
  shows "\<exists>r. Session ix opt = Some (Inr r)"
proof -
  obtain m where m: "Build_maps jx = Some m" using Build_maps_Some [OF assms(4)] by blast
  then have k: "Build jx = Some (jx\<lparr>ix_maps := Some m\<rparr>)" using assms(3) by (simp add: Build_def)
  have "\<exists>b. assemble (jx\<lparr>ix_maps := Some m\<rparr>) o' n = Some b" for o' n
    by (simp add: assemble_def stage1Canonical_def Canonical_def maps_of_def Build_def new_builder_def counted_def)
  then show ?thesis
    using assms(1,2) k by (simp add: Session_def Let_def)
qed

section \<open>The properties\<close>



text \<open>C14. An assembled session is a closed tree with its edges, in one order: the parent of every node is a node of the
  result, but for a root that has none; every relation joins two nodes of it, but that a summary may name a boundary
  that was never written; nodes, relations and unresolved references come in increasing order of id, none twice. It
  holds of every index where two streams never share a name.\<close>

theorem Session_closed:
  assumes "Session ix opt = Some (Inr r)" and "inj_on (String_of (ix_Strings ix)) (e_Stream ` set (ix_Entries ix))"
  shows "(\<forall>n \<in> set (rs_Nodes r). n_Parent n = [] \<or> n_Parent n \<in> en_ID ` set (rs_Nodes r)) \<and>
    (\<forall>v \<in> set (rs_Relations r). rel_From v \<in> en_ID ` set (rs_Nodes r) \<and>
       (rel_Type v = RelSummarizes \<or> rel_To v \<in> en_ID ` set (rs_Nodes r))) \<and>
    sorted_wrt (\<lambda>m n. en_ID m < en_ID n) (rs_Nodes r) \<and>
    sorted_wrt (\<lambda>m n. en_ID m < en_ID n) (rs_Relations r) \<and>
    sorted_wrt (\<lambda>m n. en_ID m < en_ID n) (rs_Unresolved r)"
proof -
  obtain b where "ready b" "r = result b" using assms by (rule Session_ready)
  then show ?thesis by (simp add: ready_def wired_def result_def ids_of_list_def ids_strictly_sorted)
qed

section \<open>Witnesses\<close>

definition sample_options :: asm_options where
  "sample_options = \<lparr>op_Conversation = ''c'', op_Session = ''s'', op_IdleGap = 0, op_ThroughSeq = 1\<rparr>"

definition later_rows :: "staged_row list" where
  "later_rows = take 1 sample_rows @ [(zero_entry\<lparr>e_Seq := 5, e_Stream := 1\<rparr>, [], None), (zero_entry\<lparr>e_Seq := 7\<rparr>, [], None)]"

lemma sample_sorted: "sorted_wrt (\<lambda>a b. e_Seq (fst a) \<le> e_Seq (fst b)) sample_rows"
  by (simp add: sample_rows_def zero_entry_def)

lemma sample_streams: "inj_on (String_of (ix_Strings replay_index)) (e_Stream ` set (ix_Entries replay_index))"
  by (simp add: replay_simps)


lemma sample_session: "\<exists>r. Session replay_index sample_options = Some (Inr r)"
proof -
  have "Through replay_index 1 = Some ((AppendStaged (New ''s'') (take 1 sample_rows))\<lparr>ix_Strings := sample_strings\<rparr>)"
    using Through_low [OF sample_sorted sample_small, of 1]
    by (simp add: replay_index_def Through_strings) (simp add: sample_rows_def row_through_def zero_entry_def word_le_nat_alt)
  then have "Through replay_index (op_ThroughSeq sample_options) =
      Some ((AppendStaged (New ''s'') (take 1 sample_rows))\<lparr>ix_Strings := sample_strings\<rparr>)"
    by (simp add: sample_options_def)
  from Session_built [OF _ this] show ?thesis
    by (simp add: sample_options_def sample_rows_def AppendRecord_eq New_def zero_entry_def zero_block_def blocks_in_range_def)
qed

theorem Session_closed_witness:
  "\<exists>r. Session replay_index sample_options = Some (Inr r) \<and>
    (\<forall>n \<in> set (rs_Nodes r). n_Parent n = [] \<or> n_Parent n \<in> en_ID ` set (rs_Nodes r)) \<and>
    sorted_wrt (\<lambda>m n. en_ID m < en_ID n) (rs_Nodes r)"
  using sample_session Session_closed [OF _ sample_streams] by blast


end
