(* ===== verification/Asm_Joins.thy ===== *)
theory Asm_Joins
  imports Asm_Bodies
begin

text \<open>
  What single stages of assembly establish: windows are cut exactly at the quiet times, every fragment is in
  the one call it names, and a provider body is joined to one call at most.
\<close>

section \<open>Windows\<close>

text \<open>Groups of talks that are not empty, with no quiet time inside one and one between each and the next.\<close>

definition cut_when :: "('a \<Rightarrow> 'a \<Rightarrow> bool) \<Rightarrow> 'a list list \<Rightarrow> bool" where
  "cut_when q gs \<longleftrightarrow> list_all (\<lambda>g. g \<noteq> [] \<and> successively (\<lambda>x y. \<not> q x y) g) gs \<and>
     successively (\<lambda>g h. q (last g) (hd h)) gs"

lemma cut_when_new: "cut_when q (gs @ [g]) \<Longrightarrow> q (last g) t \<Longrightarrow> cut_when q (gs @ [g, [t]])"
  by (auto simp: cut_when_def successively_append_iff)

lemma cut_when_more: "cut_when q (gs @ [g]) \<Longrightarrow> \<not> q (last g) t \<Longrightarrow> cut_when q (gs @ [g @ [t]])"
  by (auto simp: cut_when_def successively_append_iff)

lemma windows_cut:
  "sg_Talks cur \<noteq> [] \<Longrightarrow> cut_when (quiet gap) (map sg_Talks out @ [sg_Talks cur]) \<Longrightarrow>
   cut_when (quiet gap) (map sg_Talks (cut_windows gap (Some (last (sg_Talks cur))) ts cur out))"
proof (induction ts arbitrary: cur out)
  case Nil
  then show ?case by (simp add: flush_window_def)
next
  case (Cons t ts)
  let ?c = "in_window t cur" and ?n = "in_window t empty_window"
  have t: "sg_Talks ?c = sg_Talks cur @ [t]" "sg_Talks ?n = [t]" by (simp_all add: in_window_def empty_window_def)
  show ?case
  proof (cases "quiet gap (last (sg_Talks cur)) t")
    case True
    have "map sg_Talks (flush_window cur out) = map sg_Talks out @ [sg_Talks cur]"
      using Cons.prems(1) by (simp add: flush_window_def)
    then show ?thesis
      using True Cons.IH [of ?n "flush_window cur out"] cut_when_new [OF Cons.prems(2) True] by (simp add: t)
  next
    case False
    then show ?thesis
      using Cons.IH [of ?c out] cut_when_more [OF Cons.prems(2) False] by (simp add: t)
  qed
qed

lemma windows_concat:
  "concat (map sg_Talks (cut_windows gap prev ts cur out)) = concat (map sg_Talks out) @ sg_Talks cur @ ts"
  by (induction ts arbitrary: prev cur out) (auto simp: flush_window_def in_window_def empty_window_def)

text \<open>C18. Activity windows are the talks of the main stream in order of their start, each in one window, cut exactly
  where the stream was quiet for longer than the gap: never inside a window, always between two.\<close>

theorem windows_cut_at_quiet:
  "concat (map sg_Talks (windows_of b m)) = sort_by (\<lambda>t u. tk_First t < tk_First u) (main_talks b m) \<and>
   cut_when (quiet (op_IdleGap (b_opt b))) (map sg_Talks (windows_of b m))"
proof
  show "concat (map sg_Talks (windows_of b m)) = sort_by (\<lambda>t u. tk_First t < tk_First u) (main_talks b m)"
    by (simp add: windows_of_def windows_concat empty_window_def)
  let ?g = "op_IdleGap (b_opt b)"
  have "cut_when (quiet ?g) (map sg_Talks (cut_windows ?g None ts empty_window []))" for ts
  proof (cases ts)
    case Nil
    then show ?thesis by (simp add: flush_window_def empty_window_def cut_when_def)
  next
    case (Cons t us)
    have "sg_Talks (in_window t empty_window) = [t]" by (simp add: in_window_def empty_window_def)
    then show ?thesis
      using windows_cut [of "in_window t empty_window" ?g "[]" us] Cons by (simp add: cut_when_def)
  qed
  then show "cut_when (quiet ?g) (map sg_Talks (windows_of b m))" by (simp add: windows_of_def)
qed

section \<open>Calls\<close>

definition is_fragment :: "builder \<Rightarrow> u32 \<Rightarrow> nat \<Rightarrow> bool" where
  "is_fragment b v i \<longleftrightarrow> e_Kind (entry_at b i) = KindAssistant \<and> e_Call (entry_at b i) = v \<and> v \<noteq> 0"

text \<open>A call holds the fragments of the records looked at so far, and is finished when one states a reason.\<close>

definition call_of :: "builder \<Rightarrow> nat list \<Rightarrow> provider_call \<Rightarrow> bool" where
  "call_of b done' c \<longleftrightarrow> pc_CallID c \<noteq> 0 \<and> pc_Fragments c \<noteq> [] \<and>
     pc_Fragments c = filter (is_fragment b (pc_CallID c)) done' \<and>
     pc_Finished c = list_ex (\<lambda>i. Has (e_Flags (entry_at b i)) FlagStopReason) (pc_Fragments c) \<and>
     pc_Synthetic c = list_ex (\<lambda>i. Has (e_Flags (entry_at b i)) FlagSynthetic) (pc_Fragments c)"

definition calls_of :: "builder \<Rightarrow> nat list \<Rightarrow> provider_call list \<Rightarrow> bool" where
  "calls_of b done' cs \<longleftrightarrow> distinct (map pc_CallID cs) \<and> list_all (call_of b done') cs \<and>
     list_all (\<lambda>i. e_Kind (entry_at b i) = KindAssistant \<longrightarrow> e_Call (entry_at b i) \<noteq> 0 \<longrightarrow>
       e_Call (entry_at b i) \<in> pc_CallID ` set cs) done'"

lemma calls_of_add:
  assumes "calls_of b done' cs"
  shows "calls_of b (done' @ [i]) (add_fragment b s cs i)"
proof (cases "e_Kind (entry_at b i) \<noteq> KindAssistant \<or> e_Call (entry_at b i) = 0")
  case True
  then have "\<not> is_fragment b v i" for v by (auto simp: is_fragment_def)
  with True assms show ?thesis
    by (auto simp: add_fragment_def Let_def calls_of_def call_of_def list_all_iff)
next
  case False
  let ?v = "e_Call (entry_at b i)"
  let ?new = "\<lparr>pc_CallID = ?v, pc_Stream = s, pc_Fragments = [], pc_Finished = False, pc_Synthetic = False,
    pc_NodeID = NodeID ''call'' [str b ?v]\<rparr>"
  let ?cs = "if list_ex (\<lambda>c. pc_CallID c = ?v) cs then cs else cs @ [?new]"
  let ?f = "\<lambda>c. if pc_CallID c = ?v
    then c\<lparr>pc_Fragments := pc_Fragments c @ [i], pc_Synthetic := (pc_Synthetic c \<or> Has (e_Flags (entry_at b i)) FlagSynthetic),
           pc_Finished := (pc_Finished c \<or> Has (e_Flags (entry_at b i)) FlagStopReason)\<rparr> else c"
  have add: "add_fragment b s cs i = map ?f ?cs" using False by (simp add: add_fragment_def Let_def)
  have id: "pc_CallID (?f c) = pc_CallID c" for c by simp
  have frag: "is_fragment b u i \<longleftrightarrow> u = ?v" for u using False by (auto simp: is_fragment_def)
  have d: "distinct (map pc_CallID ?cs)" "?v \<in> pc_CallID ` set ?cs"
    using assms by (auto simp: calls_of_def list_ex_iff intro: image_eqI [OF sym])
  have old: "call_of b (done' @ [i]) (?f c)" if "c \<in> set cs" for c
    using assms that by (auto simp: calls_of_def call_of_def list_all_iff frag)
  have none: "filter (is_fragment b ?v) done' = []" if "\<not> list_ex (\<lambda>c. pc_CallID c = ?v) cs"
    using assms that by (auto simp: calls_of_def list_all_iff list_ex_iff filter_empty_conv is_fragment_def)
  have new: "call_of b (done' @ [i]) (?f ?new)" if "\<not> list_ex (\<lambda>c. pc_CallID c = ?v) cs"
    using none [OF that] False by (simp add: call_of_def frag)
  have la: "list_all (call_of b (done' @ [i])) (map ?f ?cs)"
  proof -
    have "call_of b (done' @ [i]) (?f c)" if c: "c \<in> set ?cs" for c
    proof (cases "list_ex (\<lambda>c. pc_CallID c = ?v) cs")
      case True
      with c have "c \<in> set cs" by simp
      then show ?thesis by (rule old)
    next
      case False
      then have "?cs = cs @ [?new]" by simp
      with c have "c \<in> set cs \<or> c = ?new" by auto
      then show ?thesis using old new [OF False] by blast
    qed
    then show ?thesis by (auto simp only: list_all_iff set_map)
  qed
  have m: "map pc_CallID (map ?f ?cs) = map pc_CallID ?cs" by (simp add: id)
  have im: "pc_CallID ` set (map ?f ?cs) = insert ?v (pc_CallID ` set cs)"
    using arg_cong [OF m, of set] d(2) unfolding set_map by (auto split: if_splits)
  have key: "calls_of b (done' @ [i]) X"
    if "list_all (call_of b (done' @ [i])) X" "map pc_CallID X = map pc_CallID ?cs"
      "pc_CallID ` set X = insert ?v (pc_CallID ` set cs)" for X
    unfolding calls_of_def using that d(1) assms by (simp add: calls_of_def list_all_iff)
  show ?thesis unfolding add by (rule key [OF la m im])
qed

lemma calls_of_stream:
  "calls_of b done' cs \<Longrightarrow> calls_of b (done' @ es) (foldl (add_fragment b s) cs es)"
proof (induction es arbitrary: done' cs)
  case (Cons i es)
  from Cons.IH [OF calls_of_add [OF Cons.prems]] show ?case by simp
qed simp

lemma calls_of_streams:
  "calls_of b done' cs \<Longrightarrow>
   calls_of b (done' @ concat (map si_Entries ss)) (foldl (\<lambda>cs s. foldl (add_fragment b s) cs (si_Entries s)) cs ss)"
proof (induction ss arbitrary: done' cs)
  case (Cons s ss)
  from Cons.IH [OF calls_of_stream [OF Cons.prems, where es = "si_Entries s" and s = s]] show ?case by simp
qed simp

lemma group_calls: "calls_of b (concat (map si_Entries (b_streams b))) (group_calls b)"
  using calls_of_streams [of b "[]" "[]"] by (simp add: group_calls_def calls_of_def)

lemma sorted_call_simps [simp]:
  "pc_CallID (sorted_call b c) = pc_CallID c" "pc_Finished (sorted_call b c) = pc_Finished c"
  "pc_Synthetic (sorted_call b c) = pc_Synthetic c" "mset (pc_Fragments (sorted_call b c)) = mset (pc_Fragments c)"
  "set (pc_Fragments (sorted_call b c)) = set (pc_Fragments c)"
  by (simp_all add: sorted_call_def)

interpretation landed: weak_less "by_place b" UNIV for b
  by unfold_locales (auto simp: by_place_def before_landed_def)

text \<open>C17. A provider call is the agent records that name it, whichever fragments its response came in: every such
  record is a fragment of exactly one call, in landed order, and a call is finished exactly when one of them
  states a reason to stop.\<close>

theorem calls_are_their_fragments:
  assumes "c \<in> set (b_calls (stage3Calls b))"
  shows "mset (pc_Fragments c) = mset (filter (is_fragment b (pc_CallID c)) (concat (map si_Entries (b_streams b)))) \<and>
    pc_Fragments c \<noteq> [] \<and> sorted_by (by_place b) (pc_Fragments c) \<and>
    (pc_Finished c \<longleftrightarrow> (\<exists>i \<in> set (pc_Fragments c). Has (e_Flags (entry_at b i)) FlagStopReason)) \<and>
    distinct (map pc_CallID (b_calls (stage3Calls b))) \<and>
    (\<forall>v i. is_fragment b v i \<longrightarrow> i \<in> set (concat (map si_Entries (b_streams b))) \<longrightarrow>
       v \<in> pc_CallID ` set (b_calls (stage3Calls b)))"
proof -
  let ?es = "concat (map si_Entries (b_streams b))"
  let ?gs = "sort_by (\<lambda>c d. pc_NodeID c < pc_NodeID d) (group_calls b)"
  have calls: "b_calls (stage3Calls b) = map (sorted_call b) ?gs" by (simp add: stage3Calls_def Let_def counted_def)
  then obtain g where g: "g \<in> set (group_calls b)" "c = sorted_call b g" using assms by auto
  have ids: "pc_CallID ` set (b_calls (stage3Calls b)) = pc_CallID ` set (group_calls b)"
    by (simp add: calls image_image)
  have "call_of b ?es g" using g group_calls [of b] by (simp add: calls_of_def list_all_iff)
  then have "mset (pc_Fragments c) = mset (filter (is_fragment b (pc_CallID c)) ?es)"
    "pc_Fragments c \<noteq> []" "pc_Finished c \<longleftrightarrow> (\<exists>i \<in> set (pc_Fragments c). Has (e_Flags (entry_at b i)) FlagStopReason)"
    using g sorted_call_simps(4) [of b g]
    by (auto simp: call_of_def list_ex_iff simp del: sorted_call_simps(4))
  moreover have "sorted_by (by_place b) (pc_Fragments c)"
    by (simp add: g sorted_call_def landed.sorted_sort_by)
  moreover have "distinct (map pc_CallID (b_calls (stage3Calls b)))"
  proof -
    have "distinct (map pc_CallID (group_calls b))" using group_calls [of b] by (simp add: calls_of_def)
    then have "distinct (map pc_CallID ?gs)" by (simp add: distinct_map)
    then show ?thesis by (simp add: calls comp_def)
  qed
  moreover have "v \<in> pc_CallID ` set (group_calls b)" if "is_fragment b v i" "i \<in> set ?es" for v i
    using that group_calls [of b] by (auto simp: calls_of_def list_all_iff is_fragment_def)
  ultimately show ?thesis unfolding ids by blast
qed

section \<open>Provider bodies\<close>

text \<open>What the join has found: a request by the message it names, or by the one key one call carries; a response
  by the message it names.\<close>

definition named_by :: "win_body list \<Rightarrow> u8 \<Rightarrow> line_call list \<Rightarrow> string \<Rightarrow> nat \<Rightarrow> bool" where
  "named_by bodies role calls n i \<longleftrightarrow> (\<exists>k \<in> set calls. lc_node k = n \<and> by_msg bodies role (lc_msg k) = [i])"

definition keyed_by :: "win_body list \<Rightarrow> (string \<times> u32 \<times> u32) list \<Rightarrow> string \<Rightarrow> nat \<Rightarrow> bool" where
  "keyed_by bodies keys n i \<longleftrightarrow>
     (\<exists>key. (n, key) \<in> set keys \<and> by_key bodies key = [i] \<and> length (filter (\<lambda>p. snd p = key) keys) = 1)"

lemma by_msg_in: "by_msg ys role m = [i] \<Longrightarrow> i < length ys \<and> wb_msg (ys ! i) = m \<and> m \<noteq> 0 \<and> wb_role (ys ! i) = role"
proof -
  assume "by_msg ys role m = [i]"
  then have "i \<in> set (by_msg ys role m)" by simp
  then show ?thesis by (auto simp: by_msg_def)
qed

lemma by_key_in: "by_key ys key = [i] \<Longrightarrow> i < length ys \<and> wb_msg (ys ! i) = 0 \<and> wb_role (ys ! i) = BodyRoleRequest"
proof -
  assume "by_key ys key = [i]"
  then have "i \<in> set (by_key ys key)" by simp
  then show ?thesis by (auto simp: by_key_def)
qed

definition found :: "win_body list \<Rightarrow> line_call list \<Rightarrow> (string \<times> u32 \<times> u32) list \<Rightarrow> join_state \<Rightarrow> bool" where
  "found bodies calls keys js \<longleftrightarrow>
     (\<forall>n i. js_requestFor js n = Some i \<longrightarrow> named_by bodies BodyRoleRequest calls n i \<or> keyed_by bodies keys n i) \<and>
     (\<forall>n i. js_responseOf js n = Some i \<longrightarrow> named_by bodies BodyRoleResponse calls n i)"

lemma found_named:
  assumes "found bodies calls keys js" "k \<in> set calls"
  shows "found bodies calls keys (join_named bodies k js)"
  using assms
  by (auto simp: join_named_def Let_def found_def named_by_def split: list.splits if_splits)

lemma found_keyed:
  assumes "found bodies calls keys js"
  shows "found bodies calls keys (join_keyed bodies keys k js)"
proof (cases "map_of (rev keys) (lc_node k)")
  case None
  with assms show ?thesis by (simp add: join_keyed_def)
next
  case (Some key)
  then have key: "(lc_node k, key) \<in> set keys" by (metis map_of_SomeD set_rev)
  show ?thesis
  proof (cases "by_key bodies key")
    case Nil
    with assms Some show ?thesis by (simp add: join_keyed_def)
  next
    case (Cons i rest)
    have "rest = [] \<Longrightarrow> length (filter (\<lambda>p. snd p = key) keys) = 1 \<Longrightarrow> keyed_by bodies keys (lc_node k) i"
      using key Cons unfolding keyed_by_def by blast
    with assms Some Cons show ?thesis
      by (simp add: join_keyed_def found_def)
  qed
qed

lemma join_found: "\<exists>keys. found bodies calls keys (join_all b bodies calls)"
proof -
  let ?js = "fold (join_named bodies) calls
    \<lparr>js_bodies = bodies, js_requestOf = (\<lambda>_. None), js_responseOf = (\<lambda>_. None), js_requestFor = (\<lambda>_. None)\<rparr>"
  let ?keys = "call_keys b ?js None calls"
  have 1: "found bodies calls keys (fold (join_named bodies) ks js)" if "found bodies calls keys js" "set ks \<subseteq> set calls" for keys ks js
    using that by (induction ks arbitrary: js) (auto simp: found_named)
  have 2: "found bodies calls keys (fold (join_keyed bodies keys) ks js)" if "found bodies calls keys js" for keys ks js
    using that by (induction ks arbitrary: js) (auto simp: found_keyed)
  have "found bodies calls ?keys ?js" by (rule 1) (simp_all add: found_def)
  then have "found bodies calls ?keys (fold (join_keyed bodies ?keys) calls ?js)" by (rule 2)
  then show ?thesis by (auto simp: join_all_def Let_def)
qed

text \<open>C19. A provider body is never joined to two calls, and only as what it is: the request of one call or the
  response of one. Where more than one could be meant, the join leaves the body alone.\<close>

theorem body_joined_once:
  assumes "distinct (map lc_msg calls)" "js = join_all b bodies calls"
  shows "(js_requestFor js n = Some i \<and> js_requestFor js m = Some i \<longrightarrow> n = m) \<and>
    (js_responseOf js n = Some i \<and> js_responseOf js m = Some i \<longrightarrow> n = m) \<and>
    (js_requestFor js n = Some i \<longrightarrow> i < length bodies \<and> wb_role (bodies ! i) = BodyRoleRequest) \<and>
    (js_responseOf js n = Some i \<longrightarrow> i < length bodies \<and> wb_role (bodies ! i) = BodyRoleResponse)"
proof -
  obtain keys where f: "found bodies calls keys js" using join_found assms(2) by blast
  have named: "n = m" if nm: "named_by bodies r calls n i" "named_by bodies r calls m i" for n m r
  proof -
    obtain k where k: "k \<in> set calls" "lc_node k = n" "by_msg bodies r (lc_msg k) = [i]"
      using nm(1) unfolding named_by_def by blast
    obtain l where l: "l \<in> set calls" "lc_node l = m" "by_msg bodies r (lc_msg l) = [i]"
      using nm(2) unfolding named_by_def by blast
    have "lc_msg k = lc_msg l" using by_msg_in [OF k(3)] by_msg_in [OF l(3)] by simp
    with k l show ?thesis using assms(1) by (auto simp: distinct_map dest: inj_onD)
  qed
  have mixed: "\<not> keyed_by bodies keys m i" if "named_by bodies r calls n i" for n m r
    using that by (auto simp: named_by_def keyed_by_def dest!: by_msg_in by_key_in)
  have keyed: "n = m" if nm: "keyed_by bodies keys n i" "keyed_by bodies keys m i" for n m
  proof -
    obtain k l where k: "(n, k) \<in> set keys" "by_key bodies k = [i]" "length (filter (\<lambda>p. snd p = k) keys) = 1"
      and l: "(m, l) \<in> set keys" "by_key bodies l = [i]" using nm unfolding keyed_by_def by blast
    have "i \<in> set (by_key bodies k)" "i \<in> set (by_key bodies l)" using k l by simp_all
    then have "k = l" by (auto simp: by_key_def)
    obtain p where p: "filter (\<lambda>p. snd p = k) keys = [p]" using k(3) by (auto simp: length_Suc_conv)
    have "(n, k) \<in> set (filter (\<lambda>p. snd p = k) keys)" "(m, k) \<in> set (filter (\<lambda>p. snd p = k) keys)"
      using k l \<open>k = l\<close> by auto
    then show ?thesis unfolding p by (cases p) simp
  qed
  have role: "i < length bodies \<and> wb_role (bodies ! i) = r" if "named_by bodies r calls n i" for n r
    using that by (auto simp: named_by_def dest!: by_msg_in)
  have key_role: "i < length bodies \<and> wb_role (bodies ! i) = BodyRoleRequest" if "keyed_by bodies keys n i" for n
    using that by (auto simp: keyed_by_def dest!: by_key_in)
  show ?thesis
    using f named mixed keyed role key_role unfolding found_def by metis
qed

section \<open>Witnesses\<close>

definition sample_call :: line_call where
  "sample_call = \<lparr>lc_node = ''call/a'', lc_streamName = ''main'', lc_stream = 1, lc_msg = 4, lc_prompt = 0, lc_at = (1, 1)\<rparr>"

definition sample_request :: win_body where
  "sample_request = \<lparr>wb_row = 0, wb_role = BodyRoleRequest, wb_ref = zero_ref, wb_prompt = 0, wb_previous = 0,
     wb_request = 9, wb_msg = 4, wb_joined = False, wb_ambiguous = False\<rparr>"

definition sample_records :: index where
  "sample_records = (New ''s'')\<lparr>ix_Entries :=
     [zero_entry\<lparr>e_Seq := 2, e_Stream := 1, e_Kind := KindAssistant, e_Call := 4\<rparr>,
      zero_entry\<lparr>e_Seq := 1, e_Stream := 1, e_Kind := KindAssistant, e_Call := 4, e_Flags := FlagStopReason\<rparr>]\<rparr>"

definition sample_builder :: builder where
  "sample_builder =
     (new_builder sample_records \<lparr>op_Conversation = ''c'', op_Session = ''s'', op_IdleGap = 1, op_ThroughSeq = 0\<rparr>)
       \<lparr>b_streams := [\<lparr>si_ID = 1, si_Name = ''main'', si_Role = StreamMain, si_NodeID = ''stream/main'',
          si_Entries = [0, 1], si_First = 0, si_Last = 0\<rparr>]\<rparr>"

lemma sample_ids: "map pc_CallID (b_calls (stage3Calls sample_builder)) = [4]"
  by code_simp

theorem calls_are_their_fragments_witness:
  "mset (pc_Fragments (hd (b_calls (stage3Calls sample_builder)))) = {#0, 1#}"
proof -
  let ?c = "hd (b_calls (stage3Calls sample_builder))"
  have c: "?c \<in> set (b_calls (stage3Calls sample_builder))" "pc_CallID ?c = 4"
    using sample_ids by (cases "b_calls (stage3Calls sample_builder)"; simp)+
  have "filter (is_fragment sample_builder 4) (concat (map si_Entries (b_streams sample_builder))) = [0, 1]"
    by code_simp
  with calls_are_their_fragments [OF c(1)] c(2) show ?thesis by (simp add: add_mset_commute)
qed

theorem body_joined_once_witness:
  "js_requestFor (join_all sample_builder [sample_request] [sample_call]) ''call/a'' = Some 0 \<and>
   wb_role ([sample_request] ! 0) = BodyRoleRequest"
proof -
  have j: "js_requestFor (join_all sample_builder [sample_request] [sample_call]) ''call/a'' = Some 0" by code_simp
  have "distinct (map lc_msg [sample_call])" by simp
  from body_joined_once [OF this refl, of sample_builder "[sample_request]" "''call/a''" 0 "''call/a''"] j
  show ?thesis by blast
qed

end
