(* ===== verification/Spec2Isabelle.thy ===== *)
theory Spec2Isabelle
  imports Index_Rebuild Body_Rebuild Flow_Log Flow_State Bounded_Skip Diff_Bisect Judge_Shares Part_Raw Asm_Session Asm_Joins
begin

text \<open>
  A verification development for the AI sessionizer: the Go program that collects the transcripts of
  agent sessions, indexes the landed records, assembles them into conversations, and publishes each
  conversation as a chain of rounds that readers fold into a view.

  \<^bold>\<open>How the program is put together.\<close> Adapters land transcript records into session files. The
  index (\<open>internal/index\<close>) holds one row per landed record, with interned strings, and answers the
  lookups assembly needs. Assembly turns an index, up to a watermark, into nodes, relations and
  unresolved entries, which a producer writes as one round of a chain (\<open>pkg/sessionflow\<close>). Readers
  open the rounds of a chain, check them and fold them. A record of file changes carries line diffs
  (\<open>pkg/changes\<close>).

  \<^bold>\<open>The index.\<close> \<open>Interner\<close> is \<open>intern.go\<close>; \<open>Index_Data\<close> the rows and constants of
  \<open>index.go\<close>; \<open>Index_Codec\<close> the fixed-width rows and \<open>Index_File\<close> the whole file of \<open>codec.go\<close>, as
  bytes; \<open>Index_Lookup\<close> and \<open>Index_Watermark\<close> the operations of \<open>lookup.go\<close>. The lemmas show the
  file's round trip and its refusal of a file cut short, that the lookups answer from the canonical
  records in landed order, and that a watermark gives exactly the index of the records under it.
  \<open>Go_Sort\<close> holds the two library routines both packages call, binary search and sorting.
  \<open>Index_Record\<close> is \<open>fromrecord.go\<close> and \<open>rebuild.go\<close>: a landed record to its rows, over \<open>Change_Read\<close>
  (\<open>Decode\<close> of \<open>pkg/changes\<close>), \<open>Go_Time\<close> (\<open>time.Parse\<close> of an RFC 3339 time) and \<open>Body_Manifest\<close>;
  \<open>Index_Rebuild\<close> shows that a rebuilt index says what the landed files say, that it always has its
  lookup maps, and that a rebuild from a watermark completes what was indexed up to it.

  \<^bold>\<open>The session flow.\<close> \<open>Flow_Ids\<close> is \<open>id.go\<close>. \<open>Flow_Data\<close> is \<open>sessionflow.go\<close>, and \<open>Flow_Text\<close> the
  JSON text of its frames, over \<open>Go_Json\<close> and \<open>Go_Struct\<close>, which model what \<open>encoding/json\<close> writes
  and reads. \<open>Flow_Round\<close> is \<open>round.go\<close>: the writer, and \<open>Read\<close> with every check. \<open>Flow_Order\<close> and
  \<open>Flow_Fold\<close> are \<open>fold.go\<close>, \<open>Flow_Chain\<close> is \<open>chain.go\<close> over a model of the rounds directory and of the
  exclusive publication of \<open>internal/storage\<close>. The lemmas show what a round read is worth, that rounds
  written are read back, that digests bind rounds and chains to their content, that a chain only grows
  whatever writers crash, and that a fold is exactly the last revision of every entity. \<open>Flow_Log\<close> shows
  that the rounds directory refines an append-only log and never gets stuck, \<open>Flow_State\<close> that the
  state file of a chain is read back as it was saved.

  \<^bold>\<open>File changes.\<close> \<open>Diff_Model\<close> and \<open>Diff_Hunks\<close> are \<open>diff.go\<close>: splitting a text into lines, Myers'
  bisection, the edit script and its hunks. \<open>Diff_Script\<close> shows that the runs of a script walk both
  texts, \<open>Diff_Grid\<close> holds the paths of the edit grid and the distance, and \<open>Diff_Bisect\<close> shows that
  the bisection always ends and that the hunks, applied as a patch, give the new text. \<open>Change_Record\<close> is
  \<open>changes.go\<close>, with the steps of \<open>sessiondata/fit.go\<close> that make a record smaller.

  \<^bold>\<open>Reading JSON in bounds.\<close> \<open>Bounded_Scan\<close> is \<open>internal/boundedjson/scanner.go\<close>; \<open>Bounded_Text\<close> and
  \<open>Bounded_Json\<close> show that it gives the tokens of the value a text is and never holds more than its
  limits, \<open>Bounded_Skip\<close> that \<open>Skip\<close> passes exactly one value.

  \<^bold>\<open>What a conversation cost.\<close> \<open>Session_Data\<close> holds the types of \<open>pkg/sessiondata\<close> and \<open>pkg/execution\<close>,
  \<open>Session_View\<close> those of \<open>pkg/sessionview\<close> and the node kinds of \<open>pkg/model\<close>. \<open>Judge_Pricing\<close> is
  \<open>internal/judge/pricing.go\<close>, \<open>Judge_Ledger\<close> is \<open>internal/judge/ledger.go\<close>: it walks a view document,
  makes one call of every paid step, adds the calls up by owner, and gives each child stream to the main talk
  that started it. \<open>Judge_Owners\<close> holds the invariant of the walk and \<open>Judge_Rollup\<close> that of the rollup:
  what the owners and the main talks add up to, that every stream is a sub-task once, that both recursions end.
  \<open>Judge_Window\<close> is \<open>window.go\<close>: which main talks a window selects and what the narrowed document shows.
  \<open>Judge_Frames\<close> holds the types of \<open>pkg/sessionjudge\<close>, \<open>Judge_Close\<close> is \<open>close.go\<close>, and \<open>Judge_Shares\<close> shows
  that the amounts of the targets add up to the conversation and that labels partition the calls.

  \<^bold>\<open>Provider bodies.\<close> \<open>Body_Manifest\<close> is the manifest of a body (\<open>pkg/providerbody/providerbody.go\<close> and
  \<open>history.go\<close>) as \<open>ManifestOf\<close> reads it, \<open>Part_Raw\<close> the bytes of an unknown part and the depth of data
  (\<open>pkg/sessiondata\<close>), \<open>Body_Scan\<close> is \<open>scan.go\<close>, which finds the pieces a body is cut at, and
  \<open>Body_Session\<close> is \<open>session.go\<close>: adding records, rebuilding bodies from segments, copies and pieces, the
  cache, the tips and the store of removed bytes. \<open>Body_Rebuild\<close> holds the invariant of a session and shows
  that reading ends, that the cache changes nothing, that what is read has the digest its record claims,
  that a checked record reads, and that adding a record loses nothing.

  \<^bold>\<open>Assembly.\<close> \<open>internal/assemble\<close> turns an index under a watermark into one round's entities.
  \<open>Asm_Builder\<close> is the builder of \<open>assemble.go\<close> that every stage is a function on, \<open>Asm_Streams\<close> stages 1 and 2,
  \<open>Asm_Calls\<close> stages 3 to 5 (\<open>calls.go\<close>, \<open>tools.go\<close>, \<open>spawn.go\<close>), \<open>Asm_Talks\<close> stages 6 to 8 (\<open>epoch.go\<close>,
  \<open>talk.go\<close>, \<open>segment.go\<close>), \<open>Asm_Bodies\<close> the join of provider bodies (\<open>provider.go\<close>), \<open>History_Counts\<close>
  and \<open>Asm_History\<close> the comparison of message histories (\<open>history.go\<close>), and \<open>Asm_Emit\<close> the leaves
  (\<open>emit.go\<close>) with \<open>Session\<close>, the stages composed. A pointer to an index entry is its position; a pointer to
  a stream, call, tool or talk is its id. \<open>Time_Text\<close> is the text of a record's time and that it is read back.
  \<open>Asm_Shape\<close> and \<open>Asm_Tree\<close> carry one invariant through the stages: no id twice, parents and ends of
  edges among the nodes. \<open>Asm_Session\<close> concludes that the result is a closed tree in one order, that a result is
  always returned, and that a watermark hides what landed after it; \<open>Asm_Joins\<close> that calls are their fragments,
  windows are cut at quiet times, and a body is joined once. A slice taken past its table, where Go panics, is
  \<open>None\<close> in the lookups and in \<open>Through\<close>; in \<open>blocks_at\<close> it is the part there is, which is all of it on an index made by
  \<open>Append\<close>.

  \<^bold>\<open>Conventions.\<close> A Go struct is a record whose fields carry a short prefix and the Go name, an
  error is a constructor of an error datatype, a fallible function returns a sum. Integers with a width are words. Strings are lists of
  bytes, as Go's are. The hash function is a parameter \<open>H\<close>; where a property needs it not to collide,
  it says on which inputs. The order a Go map is iterated in is a parameter too: a list \<open>entries\<close> with
  \<open>iterates entries m\<close>.

  \<^bold>\<open>Bounds and fuel.\<close> The JSON reader takes the length of its input as fuel, which its lemmas show is
  enough for every text the writer gives, and stops at the nesting depth of 10000 of \<open>encoding/json\<close>.
  The recursion of the diff takes the lengths of both texts and one as fuel. The walk over child streams
  takes one more than the owners there are, and the walk over sub-tasks one more than the sub-tasks; both
  are proved to be enough. The scanner has the limits of its record as Go's has. The scanner of pieces
  takes three calls for each byte of the body and three more, proved enough on every text. Rebuilding a
  body reads at most \<open>MaxDepth\<close> and one bodies deep, proved enough in every session that is reached. A walk back through a thread takes one step for each
  call compared and two more; it stops where it meets a call again, so it looks at no more.

  \<^bold>\<open>Parameters.\<close> Floating point is a parameter, a record \<open>floats\<close> of the operations the ledger uses.
  \<open>time.Parse\<close> is a parameter of the price file, and the reader of landed records one of the ledger.

  \<^bold>\<open>Not modelled.\<close> File system errors other than a missing file, the temporary files and syncs of an
  atomic write, mutexes, cutting a new body (\<open>Encode\<close>), the line writer and reader of landed files, and the packages the manifest lists as not modelled: collectors, the judge's
  provider client, HTTP, the command line, and metrics.
\<close>

end
